(* ===== verification/Prelude.thy ===== *)
theory Prelude
  imports Main "HOL-Library.Multiset"
begin

text \<open>
  Shared vocabulary of the development: the Python exceptions the modelled code raises,
  the result type of code that may raise, Python's list slicing, and the generic list,
  multiset and sum lemmas that several components use.
\<close>

section \<open>Exceptions and results\<close>

text \<open>
  One constructor per exception class that the modelled code raises or catches.  The
  string is the message (its fixed part, where the code builds it with an f-string).
\<close>

datatype py_error =
    ValueError string
  | KeyError
  | IndexError
  | AssertionError
  | RuntimeError string
  | NotImplementedError
  | TypeError
  | AttributeError
  | ZeroDivisionError
  | OSError
  | P1AggregationError string
  | StorageError string
  | DuplicatePrimaryKeyError string
  | SchemaMismatchError string
  | WriterAuthorityError string
  | CheckpointCompatibilityError string
  | ConfigError string
  | ObserverIntegrationError string

type_synonym 'a result = "py_error + 'a"

definition bind_r :: "'a result \<Rightarrow> ('a \<Rightarrow> 'b result) \<Rightarrow> 'b result" where
  "bind_r m f = (case m of Inl e \<Rightarrow> Inl e | Inr x \<Rightarrow> f x)"

lemma bind_r_simps [simp]:
  "bind_r (Inl e) f = Inl e"
  "bind_r (Inr x) f = f x"
  by (simp_all add: bind_r_def)

lemma bind_r_Inr_iff: "bind_r m f = Inr y \<longleftrightarrow> (\<exists>x. m = Inr x \<and> f x = Inr y)"
  by (cases m) auto

lemma bind_r_Inl_iff: "bind_r m f = Inl e \<longleftrightarrow> m = Inl e \<or> (\<exists>x. m = Inr x \<and> f x = Inl e)"
  by (cases m) auto

text \<open>\<open>check_r b e\<close> is the statement \<open>if not b: raise e\<close> (and \<open>assert b\<close>).\<close>

definition check_r :: "bool \<Rightarrow> py_error \<Rightarrow> unit result" where
  "check_r b e = (if b then Inr () else Inl e)"

lemma check_r_iff [simp]:
  "check_r b e = Inr u \<longleftrightarrow> b"
  "check_r b e = Inl e' \<longleftrightarrow> \<not> b \<and> e' = e"
  by (auto simp: check_r_def)

lemma check_r_True [simp]: "check_r True e = Inr ()"
  by (simp add: check_r_def)

text \<open>\<open>map_r f xs\<close> is a loop that appends \<open>f(x)\<close> and stops at the first exception.\<close>

fun map_r :: "('a \<Rightarrow> 'b result) \<Rightarrow> 'a list \<Rightarrow> 'b list result" where
  "map_r f [] = Inr []"
| "map_r f (x # xs) = bind_r (f x) (\<lambda>y. bind_r (map_r f xs) (\<lambda>ys. Inr (y # ys)))"

lemma map_r_Inr_length: "map_r f xs = Inr ys \<Longrightarrow> length ys = length xs"
  by (induction xs arbitrary: ys) (auto simp: bind_r_Inr_iff)

lemma map_r_Inr_nth:
  "map_r f xs = Inr ys \<Longrightarrow> i < length xs \<Longrightarrow> f (xs ! i) = Inr (ys ! i)"
proof (induction xs arbitrary: ys i)
  case Nil
  then show ?case by simp
next
  case (Cons x xs)
  then show ?case by (cases i) (auto simp: bind_r_Inr_iff)
qed

section \<open>Slices\<close>

text \<open>\<open>slice i j xs\<close> is \<open>xs[i:j]\<close> for non-negative bounds: out of range bounds are clipped.\<close>

definition slice :: "nat \<Rightarrow> nat \<Rightarrow> 'a list \<Rightarrow> 'a list" where
  "slice i j xs = take (j - i) (drop i xs)"

lemma slice_0 [simp]: "slice 0 j xs = take j xs"
  by (simp add: slice_def)

lemma length_slice [simp]: "length (slice i j xs) = min j (length xs) - i"
  by (simp add: slice_def)

lemma slice_empty [simp]: "j \<le> i \<Longrightarrow> slice i j xs = []"
  by (simp add: slice_def)

lemma take_slice_drop: "i \<le> j \<Longrightarrow> take i xs @ slice i j xs @ drop j xs = xs"
  by (metis add_diff_inverse_nat append_assoc append_take_drop_id linorder_not_le slice_def take_add)

lemma mset_slice_split:
  "i \<le> j \<Longrightarrow> mset xs = mset (take i xs) + mset (slice i j xs) + mset (drop j xs)"
  by (metis mset_append take_slice_drop union_assoc)

lemma take_append_slice: "i \<le> j \<Longrightarrow> take i xs @ slice i j xs = take j xs"
  by (metis slice_def le_add_diff_inverse take_add)

section \<open>Lists and multisets\<close>

lemma mset_take_drop: "mset (take n xs) + mset (drop n xs) = mset xs"
  by (metis append_take_drop_id mset_append)

lemma distinct_take_disjoint:
  "distinct xs \<Longrightarrow> set (take n xs) \<inter> set (drop n xs) = {}"
  by (metis append_take_drop_id distinct_append)

lemma mset_eq_distinct: "mset xs = mset ys \<Longrightarrow> distinct xs \<longleftrightarrow> distinct ys"
  using mset_eq_imp_distinct_iff by blast

lemma distinct_mset_unionD:
  "distinct (xs @ ys) \<Longrightarrow> mset zs = mset xs + mset ys \<Longrightarrow> distinct zs"
  by (metis mset_append mset_eq_distinct)

lemma sum_list_map_mono_nat:
  "(\<And>x. x \<in> set xs \<Longrightarrow> (f x :: nat) \<le> g x) \<Longrightarrow> sum_list (map f xs) \<le> sum_list (map g xs)"
  by (induction xs) (auto intro: add_mono)

text \<open>Finite sums over the domain of a map, when one entry is added, changed or removed.\<close>

lemma sum_upd_in:
  fixes f :: "'a \<Rightarrow> 'b :: ab_group_add"
  assumes "finite A" and "a \<in> A"
  shows "(\<Sum>x\<in>A. (f(a := y)) x) = (\<Sum>x\<in>A. f x) - f a + y"
proof -
  have "(\<Sum>x\<in>A. (f(a := y)) x) = y + (\<Sum>x\<in>A - {a}. (f(a := y)) x)"
    using assms by (simp add: sum.remove)
  also have "(\<Sum>x\<in>A - {a}. (f(a := y)) x) = (\<Sum>x\<in>A - {a}. f x)"
    by (rule sum.cong) auto
  also have "(\<Sum>x\<in>A - {a}. f x) = (\<Sum>x\<in>A. f x) - f a"
    using assms by (simp add: sum_diff1)
  finally show ?thesis by simp
qed

section \<open>Distinct elements in order of first occurrence\<close>

text \<open>The keys of a dict filled in a loop (\<open>dict.fromkeys\<close>, \<open>defaultdict(list)\<close>): the distinct elements in order of first occurrence.\<close>

definition fromkeys :: "'a list \<Rightarrow> 'a list" where
  "fromkeys xs = foldl (\<lambda>ks x. if x \<in> set ks then ks else ks @ [x]) [] xs"

lemma fromkeys_set: "set (fromkeys xs) = set xs \<and> distinct (fromkeys xs)"
proof -
  have "set (foldl (\<lambda>ks x. if x \<in> set ks then ks else ks @ [x]) ks xs) = set ks \<union> set xs \<and>
     (distinct ks \<longrightarrow> distinct (foldl (\<lambda>ks x. if x \<in> set ks then ks else ks @ [x]) ks xs))" for ks
    by (induction xs arbitrary: ks) auto
  from this [of "[]"] show ?thesis
    by (simp add: fromkeys_def)
qed


section \<open>Printing\<close>

text \<open>Decimal digits of an int, as \<open>f"{n}"\<close> prints them.\<close>

fun nat_digits :: "nat \<Rightarrow> string" where
  "nat_digits n = (if n < 10 then [char_of (48 + n)] else nat_digits (n div 10) @ [char_of (48 + n mod 10)])"

declare nat_digits.simps [simp del]

definition int_str :: "int \<Rightarrow> string" where
  "int_str i = (if i < 0 then ''-'' @ nat_digits (nat (- i)) else nat_digits (nat i))"

end
