(* ===== verification/KvPool.thy ===== *)
theory KvPool
  imports Prelude
begin

text \<open>
  The two memory pools of \<open>srt/mem_cache/memory_pool.py\<close> that hand out integers:
  \<open>ReqToTokenPool\<close> (request slots, with the table from a request slot to the KV slots of
  its tokens) and \<open>TokenToKVPoolAllocator\<close> (KV slots, with the deferred free group).
  The interface a client of a KV allocator relies on is the locale \<open>kv_allocator\<close>,
  interpreted here on the token allocator and in \<open>PagedAlloc\<close> on the paged one.
\<close>

section \<open>ReqToTokenPool\<close>

text \<open>
  \<open>req_to_token\<close> is a \<open>(size, max_context_len)\<close> tensor: a list of rows.
  \<open>free_slots\<close> starts as \<open>list(range(size))\<close>.
\<close>

record req_pool =
  rp_size :: nat
  rp_max_context_len :: nat
  rp_table :: "nat list list"
  rp_free_slots :: "nat list"

definition req_pool_init :: "nat \<Rightarrow> nat \<Rightarrow> req_pool" where
  "req_pool_init n_slots max_context_len =
     \<lparr>rp_size = n_slots, rp_max_context_len = max_context_len,
      rp_table = replicate n_slots (replicate max_context_len 0),
      rp_free_slots = [0..<n_slots]\<rparr>"

text \<open>
  \<open>write((row, slice(a, b)), values)\<close>, the form every caller in the cache uses: the slice is
  clipped to the row, and the assignment raises when the shapes differ (a single value is
  broadcast).
\<close>

definition req_pool_write :: "req_pool \<Rightarrow> nat \<Rightarrow> nat \<Rightarrow> nat \<Rightarrow> nat list \<Rightarrow> req_pool result" where
  "req_pool_write p row a b values =
     (if length (rp_table p) \<le> row then Inl IndexError
      else let r = rp_table p ! row;
               n = length (slice a b r)
           in if length values = n
              then Inr (p\<lparr>rp_table := (rp_table p)[row := take a r @ values @ drop (a + n) r]\<rparr>)
              else if length values = 1
              then Inr (p\<lparr>rp_table := (rp_table p)[row := take a r @ replicate n (hd values) @ drop (a + n) r]\<rparr>)
              else Inl (RuntimeError ''shape mismatch''))"

text \<open>\<open>req_to_token[row, :n]\<close>\<close>

definition req_pool_read :: "req_pool \<Rightarrow> nat \<Rightarrow> nat \<Rightarrow> nat list" where
  "req_pool_read p row n = take n (rp_table p ! row)"

definition req_pool_available_size :: "req_pool \<Rightarrow> nat" where
  "req_pool_available_size p = length (rp_free_slots p)"

definition req_pool_alloc :: "req_pool \<Rightarrow> nat \<Rightarrow> nat list option \<times> req_pool" where
  "req_pool_alloc p need_size =
     (if length (rp_free_slots p) < need_size then (None, p)
      else (Some (take need_size (rp_free_slots p)),
            p\<lparr>rp_free_slots := drop need_size (rp_free_slots p)\<rparr>))"

text \<open>\<open>free\<close> takes one slot or a list of slots.\<close>

datatype free_index = OneSlot nat | ManySlots "nat list"

fun req_pool_free :: "req_pool \<Rightarrow> free_index \<Rightarrow> req_pool" where
  "req_pool_free p (OneSlot i) = p\<lparr>rp_free_slots := rp_free_slots p @ [i]\<rparr>"
| "req_pool_free p (ManySlots is) = p\<lparr>rp_free_slots := rp_free_slots p @ is\<rparr>"

definition req_pool_clear :: "req_pool \<Rightarrow> req_pool" where
  "req_pool_clear p = p\<lparr>rp_free_slots := [0..<rp_size p]\<rparr>"

section \<open>TokenToKVPoolAllocator\<close>

text \<open>
  Slot 0 is the padding slot and is never handed out.  While a free group is open
  (\<open>is_not_in_free_group\<close> is false) freed slots are collected in \<open>free_group\<close> and become
  available only at \<open>free_group_end\<close>.
\<close>

record token_alloc =
  ta_size :: nat
  ta_free_slots :: "nat list"
  ta_not_in_group :: bool
  ta_group :: "nat list list"

definition token_clear :: "token_alloc \<Rightarrow> token_alloc" where
  "token_clear a = a\<lparr>ta_free_slots := [1..<ta_size a + 1], ta_not_in_group := True, ta_group := []\<rparr>"

definition token_init :: "nat \<Rightarrow> token_alloc" where
  "token_init n_slots = token_clear \<lparr>ta_size = n_slots, ta_free_slots = [], ta_not_in_group = True, ta_group = []\<rparr>"

definition token_available_size :: "token_alloc \<Rightarrow> nat" where
  "token_available_size a = length (ta_free_slots a)"

definition token_alloc_slots :: "token_alloc \<Rightarrow> nat \<Rightarrow> nat list option \<times> token_alloc" where
  "token_alloc_slots a need_size =
     (if length (ta_free_slots a) < need_size then (None, a)
      else (Some (take need_size (ta_free_slots a)),
            a\<lparr>ta_free_slots := drop need_size (ta_free_slots a)\<rparr>))"

definition token_free :: "token_alloc \<Rightarrow> nat list \<Rightarrow> token_alloc" where
  "token_free a free_index =
     (if free_index = [] then a
      else if ta_not_in_group a then a\<lparr>ta_free_slots := ta_free_slots a @ free_index\<rparr>
      else a\<lparr>ta_group := ta_group a @ [free_index]\<rparr>)"

definition token_free_group_begin :: "token_alloc \<Rightarrow> token_alloc" where
  "token_free_group_begin a = a\<lparr>ta_not_in_group := False, ta_group := []\<rparr>"

definition token_free_group_end :: "token_alloc \<Rightarrow> token_alloc" where
  "token_free_group_end a =
     (let a1 = a\<lparr>ta_not_in_group := True\<rparr>
      in if ta_group a1 \<noteq> [] then token_free a1 (concat (ta_group a1)) else a1)"

definition token_backup_state :: "token_alloc \<Rightarrow> nat list" where
  "token_backup_state a = ta_free_slots a"

definition token_restore_state :: "token_alloc \<Rightarrow> nat list \<Rightarrow> token_alloc" where
  "token_restore_state a free_slots = a\<lparr>ta_free_slots := free_slots\<rparr>"


section \<open>Laws of the request pool\<close>

definition req_pool_wf :: "req_pool \<Rightarrow> bool" where
  "req_pool_wf p \<longleftrightarrow> length (rp_table p) = rp_size p \<and>
     (\<forall>r \<in> set (rp_table p). length r = rp_max_context_len p)"

lemma req_pool_init_wf: "req_pool_wf (req_pool_init n m)"
  by (simp add: req_pool_wf_def req_pool_init_def)

lemma req_pool_write_wf:
  assumes "req_pool_wf p" and "req_pool_write p row a b vs = Inr p'"
  shows "req_pool_wf p'"
proof -
  let ?r = "rp_table p ! row" and ?n = "length (slice a b (rp_table p ! row))"
  have row: "row < length (rp_table p)"
    using assms(2) by (auto simp: req_pool_write_def split: if_splits)
  have r: "length ?r = rp_max_context_len p"
    using assms(1) row by (simp add: req_pool_wf_def)
  let ?ws = "if length vs = ?n then vs else replicate ?n (hd vs)"
  have "length ?ws = ?n" by simp
  moreover have "p' = p\<lparr>rp_table := (rp_table p)[row := take a ?r @ ?ws @ drop (a + ?n) ?r]\<rparr>"
    using assms(2) row by (simp add: req_pool_write_def Let_def split: if_splits)
  moreover have "length (take a ?r @ ws @ drop (a + ?n) ?r) = length ?r" if "length ws = ?n" for ws
    using that by (auto simp: min_def)
  ultimately obtain r' where "length r' = length ?r" "p' = p\<lparr>rp_table := (rp_table p)[row := r']\<rparr>"
    by blast
  then show ?thesis
    using assms(1) r by (auto simp: req_pool_wf_def dest!: set_update_subset_insert [THEN subsetD])
qed

lemma req_pool_alloc_Some:
  assumes "req_pool_alloc p n = (Some xs, p')"
  shows "length xs = n" and "rp_free_slots p = xs @ rp_free_slots p'"
    and "rp_table p' = rp_table p"
  using assms by (auto simp: req_pool_alloc_def split: if_splits)

lemma req_pool_alloc_None:
  "req_pool_alloc p n = (None, p') \<Longrightarrow> p' = p \<and> req_pool_available_size p < n"
  by (auto simp: req_pool_alloc_def req_pool_available_size_def split: if_splits)

section \<open>The interface of a KV allocator\<close>

text \<open>
  What the cache and the scheduler rely on.  \<open>slots\<close> is the ghost view of an allocator: the
  multiset of KV slots it still owns.  \<open>cover a xs\<close> is what \<open>free xs\<close> really gives back: the
  slots themselves for the token allocator, every slot of a touched page for the paged one.
  \<open>grantable n\<close> says that a request for \<open>n\<close> slots is a whole number of allocation units.
  The laws hold while no free group is open (part of \<open>ready\<close>).
\<close>

text \<open>
  A client of an allocator, as a step relation: it allocates grantable amounts, and frees whole
  units that it holds.  \<open>kv_reach \<dots> a held\<close>: the allocator is in state \<open>a\<close> and the clients
  hold the slots \<open>held\<close>, after some sequence of calls from state \<open>a0\<close>.
\<close>

inductive kv_reach ::
  "('a \<Rightarrow> nat \<Rightarrow> nat list option \<times> 'a) \<Rightarrow> ('a \<Rightarrow> nat list \<Rightarrow> 'a) \<Rightarrow> ('a \<Rightarrow> nat list \<Rightarrow> nat multiset) \<Rightarrow>
     ('a \<Rightarrow> nat \<Rightarrow> bool) \<Rightarrow> 'a \<Rightarrow> 'a \<Rightarrow> nat multiset \<Rightarrow> bool"
  for alloc free cover grantable a0 where
  kv_init: "kv_reach alloc free cover grantable a0 a0 {#}"
| kv_alloc: "kv_reach alloc free cover grantable a0 a' (held + mset xs)"
    if "kv_reach alloc free cover grantable a0 a held" and "grantable a n" and "alloc a n = (Some xs, a')"
| kv_free: "kv_reach alloc free cover grantable a0 (free a xs) (held - cover a xs)"
    if "kv_reach alloc free cover grantable a0 a held" and "cover a xs \<subseteq># held"

locale kv_allocator =
  fixes available :: "'a \<Rightarrow> nat"
    and alloc :: "'a \<Rightarrow> nat \<Rightarrow> nat list option \<times> 'a"
    and free :: "'a \<Rightarrow> nat list \<Rightarrow> 'a"
    and slots :: "'a \<Rightarrow> nat multiset"
    and cover :: "'a \<Rightarrow> nat list \<Rightarrow> nat multiset"
    and grantable :: "'a \<Rightarrow> nat \<Rightarrow> bool"
    and ready :: "'a \<Rightarrow> bool"
  assumes available_slots: "ready a \<Longrightarrow> available a = size (slots a)"
    and alloc_enough: "ready a \<Longrightarrow> grantable a n \<Longrightarrow> n \<le> available a \<Longrightarrow>
          \<exists>xs a'. alloc a n = (Some xs, a') \<and> length xs = n \<and>
            ready a' \<and> slots a = mset xs + slots a'"
    and alloc_short: "ready a \<Longrightarrow> grantable a n \<Longrightarrow> available a < n \<Longrightarrow> alloc a n = (None, a)"
    and free_slots: "ready a \<Longrightarrow> slots (free a xs) = slots a + cover a xs"
    and free_ready: "ready a \<Longrightarrow> ready (free a xs)"
    and cover_sub: "ready a \<Longrightarrow> set xs \<subseteq> set_mset (cover a xs)"
begin

lemma alloc_Some:
  assumes "ready a" and "grantable a n" and "alloc a n = (Some xs, a')"
  shows "length xs = n" and "ready a'" and "slots a = mset xs + slots a'"
proof -
  have "n \<le> available a"
    using assms alloc_short by (metis linorder_not_less option.distinct(1) prod.inject)
  then obtain ys b where "alloc a n = (Some ys, b)" "length ys = n" "ready b"
    "slots a = mset ys + slots b"
    using alloc_enough assms by metis
  with assms(3) show "length xs = n" "ready a'" "slots a = mset xs + slots a'" by auto
qed

lemma alloc_None_iff:
  assumes "ready a" and "grantable a n"
  shows "fst (alloc a n) = None \<longleftrightarrow> available a < n"
  using assms alloc_enough alloc_short by (metis fst_conv linorder_not_less option.distinct(1))

text \<open>
  Conservation: the slots held by the clients and the slots of the allocator are together
  a fixed multiset \<open>U\<close>; \<open>alloc\<close> moves slots to the clients, and a \<open>free\<close> of whole units that
  are held moves them back.
\<close>

lemma alloc_conserves:
  assumes "ready a" and "grantable a n" and "alloc a n = (Some xs, a')"
    and "held + slots a = U"
  shows "(held + mset xs) + slots a' = U"
  using alloc_Some(3) [OF assms(1-3)] assms(4) by (simp add: ac_simps)

lemma free_conserves:
  assumes "ready a" and "cover a xs \<subseteq># held" and "held + slots a = U"
  shows "(held - cover a xs) + slots (free a xs) = U"
proof -
  have "(held - cover a xs) + (slots a + cover a xs) = held + slots a"
    using assms(2) by (metis add.assoc add.commute subset_mset.diff_add)
  with assms show ?thesis by (simp add: free_slots)
qed

text \<open>A slot is never handed out while a client still holds it.\<close>

lemma alloc_fresh:
  assumes "ready a" and "grantable a n" and "alloc a n = (Some xs, a')"
    and "held + slots a = U" and "\<And>x. count U x \<le> 1"
  shows "set xs \<inter> set_mset held = {}" and "distinct xs"
proof -
  have U: "U = held + mset xs + slots a'"
    using alloc_conserves [OF assms(1-4)] by simp
  show "set xs \<inter> set_mset held = {}"
  proof (rule ccontr)
    assume "set xs \<inter> set_mset held \<noteq> {}"
    then obtain x where "x \<in># mset xs" "x \<in># held" by auto
    then have "1 \<le> count (mset xs) x" "1 \<le> count held x"
      by (simp_all only: count_greater_eq_one_iff)
    then have "2 \<le> count U x" unfolding U count_union by linarith
    with assms(5) [of x] show False by simp
  qed
  show "distinct xs"
    unfolding distinct_count_atmost_1
  proof
    fix x
    have "count (mset xs) x \<le> 1" using assms(5) [of x] U by simp
    then show "count (mset xs) x = (if x \<in> set xs then 1 else 0)"
      by (metis count_mset_0_iff count_mset_gt_0 le_neq_implies_less less_one not_less_zero)
  qed
qed

lemma reach_conserves:
  assumes "kv_reach alloc free cover grantable a0 a held" and "ready a0"
  shows "ready a \<and> held + slots a = slots a0"
  using assms
proof (induction rule: kv_reach.induct)
  case kv_init
  then show ?case by simp
next
  case (kv_alloc a held n xs a')
  then show ?case using alloc_Some(2) alloc_conserves by blast
next
  case (kv_free a held xs)
  then show ?case using free_ready free_conserves by blast
qed

lemma reach_alloc_fresh:
  assumes "kv_reach alloc free cover grantable a0 a held" and "ready a0"
    and "\<And>x. count (slots a0) x \<le> 1" and "grantable a n" and "alloc a n = (Some xs, a')"
  shows "length xs = n" and "distinct xs" and "set xs \<inter> set_mset held = {}"
    and "set xs \<subseteq> set_mset (slots a0)"
proof -
  have ready: "ready a" and U: "held + slots a = slots a0"
    using reach_conserves [OF assms(1,2)] by auto
  show "length xs = n" using alloc_Some(1) [OF ready assms(4,5)] .
  show "distinct xs" "set xs \<inter> set_mset held = {}"
    using alloc_fresh [OF ready assms(4,5) U assms(3)] by auto
  show "set xs \<subseteq> set_mset (slots a0)"
    using alloc_Some(3) [OF ready assms(4,5)] U by (metis mset_subset_eqD mset_subset_eq_add_left
        mset_subset_eq_add_right set_mset_mset subset_iff subset_mset.order_trans)
qed

end

section \<open>The token allocator provides the interface\<close>

definition token_slots :: "token_alloc \<Rightarrow> nat multiset" where
  "token_slots a = mset (ta_free_slots a)"

interpretation token: kv_allocator token_available_size token_alloc_slots token_free token_slots
  "\<lambda>_. mset" "\<lambda>_ _. True" ta_not_in_group
  by unfold_locales
    (auto simp: token_available_size_def token_alloc_slots_def token_free_def token_slots_def
      mset_take_drop)

text \<open>
  The frees of a group are deferred and then done at once.  \<open>free_group_end\<close> leaves the
  collected list behind (the next \<open>free_group_begin\<close> drops it), so the two sides agree up to
  \<open>ta_group\<close>.
\<close>

lemma token_free_in_group:
  "\<not> ta_not_in_group a \<Longrightarrow>
     foldl token_free a xss = a\<lparr>ta_group := ta_group a @ filter (\<lambda>xs. xs \<noteq> []) xss\<rparr>"
  by (induction xss arbitrary: a) (auto simp: token_free_def)

lemma token_free_one_by_one:
  "ta_not_in_group a \<Longrightarrow>
     ta_free_slots (foldl token_free a xss) = ta_free_slots a @ concat xss \<and>
     ta_not_in_group (foldl token_free a xss)"
  by (induction xss arbitrary: a) (auto simp: token_free_def)

lemma concat_filter_nonempty: "concat (filter (\<lambda>xs. xs \<noteq> []) xss) = concat xss"
  by (induction xss) auto

lemma token_group_end_slots:
  "ta_free_slots (token_free_group_end (foldl token_free (token_free_group_begin a) xss))
     = ta_free_slots a @ concat xss"
  by (auto simp: token_free_group_begin_def token_free_in_group token_free_group_end_def
      token_free_def Let_def concat_filter_nonempty filter_empty_conv)

lemma token_group_end_ready:
  "ta_not_in_group (token_free_group_end a)"
  by (auto simp: token_free_group_end_def token_free_def Let_def)

lemma token_init_slots: "token_slots (token_init n) = mset [1..<n + 1]"
  by (simp add: token_slots_def token_init_def token_clear_def)

lemma token_init_ready: "ta_not_in_group (token_init n)"
  by (simp add: token_init_def token_clear_def)

lemma count_mset_upt: "count (mset [i..<j]) x \<le> 1"
  by (metis distinct_count_atmost_1 distinct_upt le_numeral_extra(3) le_numeral_extra(4) zero_le)

section \<open>Properties\<close>

text \<open>
  C24. Slots of the token allocator are conserved and never shared: after any sequence of
  allocations and of frees of held slots, the held slots and the free slots are together exactly
  the slots \<open>1..size\<close>, each once; an allocation of \<open>k\<close> slots succeeds exactly when \<open>k\<close> are
  available, and hands out \<open>k\<close> different slots that nobody holds, never the padding slot 0.
\<close>

theorem token_allocator_conserves:
  assumes "kv_reach token_alloc_slots token_free (\<lambda>_. mset) (\<lambda>_ _. True) (token_init n) a held"
  shows "held + mset (ta_free_slots a) = mset [1..<n + 1] \<and>
    (case token_alloc_slots a k of
       (None, a') \<Rightarrow> a' = a \<and> token_available_size a < k
     | (Some xs, a') \<Rightarrow> length xs = k \<and> distinct xs \<and> 0 \<notin> set xs \<and> set xs \<inter> set_mset held = {})"
proof -
  have ready: "ta_not_in_group a" and U: "held + token_slots a = mset [1..<n + 1]"
    using token.reach_conserves [OF assms token_init_ready] by (simp_all add: token_init_slots)
  show ?thesis
  proof (cases "fst (token_alloc_slots a k)")
    case None
    then have "token_available_size a < k" using token.alloc_None_iff [OF ready TrueI] by simp
    with None U show ?thesis
      by (simp add: token_slots_def token_alloc_slots_def token_available_size_def)
  next
    case (Some xs)
    then obtain a' where al: "token_alloc_slots a k = (Some xs, a')" by (metis prod.collapse)
    note fresh = token.reach_alloc_fresh [OF assms token_init_ready _ TrueI al]
    have "count (token_slots (token_init n)) x \<le> 1" for x
      unfolding token_init_slots by (rule count_mset_upt)
    with fresh have "length xs = k" "distinct xs" "set xs \<inter> set_mset held = {}" "set xs \<subseteq> {1..<n + 1}"
      by (auto simp: token_init_slots)
    then show ?thesis using U al by (auto simp: token_slots_def)
  qed
qed

theorem token_allocator_conserves_witness:
  "{#1, 2#} + mset (ta_free_slots (snd (token_alloc_slots (token_init 3) 2))) = mset [1..<4::nat]"
proof -
  have al: "token_alloc_slots (token_init 3) 2 = (Some [1, 2], snd (token_alloc_slots (token_init 3) 2))"
    by code_simp
  have "kv_reach token_alloc_slots token_free (\<lambda>_. mset) (\<lambda>_ _. True) (token_init 3)
      (snd (token_alloc_slots (token_init 3) 2)) ({#} + mset [1, 2])"
    by (rule kv_alloc [where a = "token_init 3" and n = 2]) (use kv_init al in auto)
  from token_allocator_conserves [OF this] show ?thesis by simp
qed

text \<open>
  A free group defers frees without changing their effect: opening a group, freeing any
  sequence of slot lists and closing the group leaves the free list that the frees one by one
  would have left, and until it is closed no slot is available again.
\<close>

theorem token_free_group_defers:
  "ta_not_in_group a \<Longrightarrow>
     ta_free_slots (token_free_group_end (foldl token_free (token_free_group_begin a) xss))
       = ta_free_slots (foldl token_free a xss) \<and>
     ta_free_slots (foldl token_free (token_free_group_begin a) xss) = ta_free_slots a"
  using token_free_one_by_one [of a xss] token_group_end_slots [of a xss]
    token_free_in_group [of "token_free_group_begin a" xss]
  by (simp add: token_free_group_begin_def)

theorem token_free_group_defers_witness:
  "ta_free_slots (token_free_group_end (foldl token_free (token_free_group_begin (token_init 2)) [[7], [], [8, 9]]))
     = [1, 2, 7, 8, 9]"
proof -
  have "ta_free_slots (foldl token_free (token_init 2) [[7], [], [8, 9]]) = [1, 2, 7, 8, 9]" by code_simp
  then show ?thesis
    using token_free_group_defers [of "token_init 2" "[[7], [], [8, 9]]"] token_init_ready [of 2] by simp
qed

end
