(* ===== verification/PagedAlloc.thy ===== *)
theory PagedAlloc
  imports KvPool "HOL-Library.Word"
begin

unbundle bit_operations_syntax

text \<open>
  The page-aligned KV allocator of \<open>srt/mem_cache/paged_allocator.py\<close>: the class
  \<open>PagedTokenToKVPoolAllocator\<close> and the two Triton kernels it launches.  A kernel is a grid
  of programs; the model is the list of the stores of each program, applied to the output
  tensor.  A masked load contributes 0 in the lanes the mask excludes.
\<close>

section \<open>Arithmetic of pages\<close>

text \<open>\<open>(x + page_size - 1) // page_size\<close>\<close>

definition num_pages_of :: "nat \<Rightarrow> nat \<Rightarrow> nat" where
  "num_pages_of ps x = (x + ps - 1) div ps"

text \<open>\<open>int.bit_length\<close> and \<open>next_power_of_2\<close> of \<open>srt/utils.py\<close>.\<close>

fun bit_length :: "nat \<Rightarrow> nat" where
  "bit_length n = (if n = 0 then 0 else Suc (bit_length (n div 2)))"

declare bit_length.simps [simp del]

definition next_power_of_2 :: "nat \<Rightarrow> nat" where
  "next_power_of_2 n = (if 0 < n then push_bit (bit_length (n - 1)) 1 else 1)"

section \<open>The kernels\<close>

text \<open>\<open>tl.store\<close>: the pairs (offset in \<open>out_indices\<close>, value) a program writes.\<close>

definition store :: "nat list \<Rightarrow> (nat \<times> nat) list \<Rightarrow> nat list" where
  "store out ws = foldl (\<lambda>o' (i, v). o'[i := v]) out ws"

text \<open>
  A load from \<open>free_page_ptr\<close>.  Past the end of the free list (only possible when the pool is
  exhausted, in which case the caller drops the output) the value is arbitrary memory; the
  model reads 0 there.
\<close>

definition load_page :: "nat list \<Rightarrow> nat \<Rightarrow> nat" where
  "load_page fp i = (if i < length fp then fp ! i else 0)"

text \<open>The sums over the lanes \<open>load_offset <= pid\<close>.\<close>

definition sum_extend_lens :: "nat list \<Rightarrow> nat list \<Rightarrow> nat \<Rightarrow> nat" where
  "sum_extend_lens pre seq pid = (\<Sum>j\<leftarrow>[0..<Suc pid]. seq ! j - pre ! j)"

definition sum_num_new_pages :: "nat \<Rightarrow> nat list \<Rightarrow> nat list \<Rightarrow> nat \<Rightarrow> nat" where
  "sum_num_new_pages ps pre seq pid =
     (\<Sum>j\<leftarrow>[0..<Suc pid]. num_pages_of ps (seq ! j) - num_pages_of ps (pre ! j))"

definition alloc_extend_program ::
  "nat \<Rightarrow> nat \<Rightarrow> nat list \<Rightarrow> nat list \<Rightarrow> int list \<Rightarrow> nat list \<Rightarrow> nat \<Rightarrow> (nat \<times> nat) list" where
  "alloc_extend_program ps max_num_extend_tokens pre seq last_loc fp pid =
    (let seq_len = seq ! pid;
         pre_len = pre ! pid;
         extend_len = seq_len - pre_len;
         output_start_loc = sum_extend_lens pre seq pid - extend_len;
         num_page_start_loc_self = num_pages_of ps seq_len - num_pages_of ps pre_len;
         new_page_start_loc = sum_num_new_pages ps pre seq pid - num_page_start_loc_self;
         num_part1 = min seq_len (num_pages_of ps pre_len * ps) - pre_len;
         part1 = [(output_start_loc + k, nat (last_loc ! pid + 1 + int k)).
                    k \<leftarrow> [0..<ps], k < num_part1]
     in if pre_len + num_part1 = seq_len then part1
        else let num_part2 = seq_len div ps * ps - num_pages_of ps pre_len * ps;
                 part2 = [(output_start_loc + num_part1 + k,
                           load_page fp (new_page_start_loc + k div ps) * ps + k mod ps).
                            k \<leftarrow> [0..<max_num_extend_tokens], k < num_part2]
             in if pre_len + num_part1 + num_part2 = seq_len then part1 @ part2
                else let num_part3 = seq_len - seq_len div ps * ps;
                         start_loc = load_page fp (new_page_start_loc + num_page_start_loc_self - 1);
                         part3 = [(output_start_loc + num_part1 + num_part2 + k, start_loc * ps + k).
                                    k \<leftarrow> [0..<ps], k < num_part3]
                     in part1 @ part2 @ part3)"

text \<open>
  The whole grid: the output tensor, and the packed return value that the last program stores,
  \<open>(sum_num_new_pages << 32) | sum_extend_lens\<close> in an int64.
\<close>

definition alloc_extend_kernel ::
  "nat \<Rightarrow> nat \<Rightarrow> nat list \<Rightarrow> nat list \<Rightarrow> int list \<Rightarrow> nat list \<Rightarrow> nat list \<Rightarrow> nat list \<times> 64 word" where
  "alloc_extend_kernel ps max_num_extend_tokens pre seq last_loc fp out_indices =
     (let bs = length pre
      in (foldl (\<lambda>o' pid. store o' (alloc_extend_program ps max_num_extend_tokens pre seq last_loc fp pid))
            out_indices [0..<bs],
          push_bit 32 (word_of_nat (sum_num_new_pages ps pre seq (bs - 1)))
            OR word_of_nat (sum_extend_lens pre seq (bs - 1))))"

text \<open>In the decode kernel every request grows by one token, \<open>pre_len = seq_len - 1\<close>.\<close>

definition alloc_decode_program ::
  "nat \<Rightarrow> nat list \<Rightarrow> int list \<Rightarrow> nat list \<Rightarrow> nat \<Rightarrow> (nat \<times> nat) list" where
  "alloc_decode_program ps seq last_loc fp pid =
    (let pre = map (\<lambda>l. l - 1) seq;
         num_page_start_loc_self = num_pages_of ps (seq ! pid) - num_pages_of ps (pre ! pid);
         new_page_start_loc = sum_num_new_pages ps pre seq pid - num_page_start_loc_self
     in if num_page_start_loc_self = 0 then [(pid, nat (last_loc ! pid + 1))]
        else [(pid, load_page fp new_page_start_loc * ps)])"

definition alloc_decode_kernel ::
  "nat \<Rightarrow> nat list \<Rightarrow> int list \<Rightarrow> nat list \<Rightarrow> nat list \<Rightarrow> nat list \<times> nat" where
  "alloc_decode_kernel ps seq last_loc fp out_indices =
     (let bs = length seq
      in (foldl (\<lambda>o' pid. store o' (alloc_decode_program ps seq last_loc fp pid)) out_indices [0..<bs],
          sum_num_new_pages ps (map (\<lambda>l. l - 1) seq) seq (bs - 1)))"

section \<open>PagedTokenToKVPoolAllocator\<close>

record paged_alloc =
  pa_size :: nat
  pa_page_size :: nat
  pa_num_pages :: nat
  pa_free_pages :: "nat list"
  pa_not_in_group :: bool
  pa_group :: "nat list list"
  pa_debug_mode :: bool

definition paged_clear :: "paged_alloc \<Rightarrow> paged_alloc" where
  "paged_clear a = a\<lparr>pa_free_pages := [1..<pa_num_pages a + 1], pa_not_in_group := True, pa_group := []\<rparr>"

definition paged_init :: "nat \<Rightarrow> nat \<Rightarrow> bool \<Rightarrow> paged_alloc" where
  "paged_init n_slots page_size debug =
     (paged_clear \<lparr>pa_size = n_slots, pa_page_size = page_size, pa_num_pages = n_slots div page_size,
        pa_free_pages = [], pa_not_in_group = True, pa_group = [], pa_debug_mode = debug\<rparr>)"

definition paged_available_size :: "paged_alloc \<Rightarrow> nat" where
  "paged_available_size a = length (pa_free_pages a) * pa_page_size a"

text \<open>\<open>out_pages[:, None] * page_size + arange(page_size)\<close>, flattened.\<close>

definition page_slots :: "nat \<Rightarrow> nat \<Rightarrow> nat list" where
  "page_slots ps pg = map (\<lambda>k. pg * ps + k) [0..<ps]"

definition paged_alloc_slots :: "paged_alloc \<Rightarrow> nat \<Rightarrow> (nat list option \<times> paged_alloc) result" where
  "paged_alloc_slots a need_size =
     (if pa_debug_mode a \<and> need_size mod pa_page_size a \<noteq> 0 then Inl AssertionError
      else let num_pages = need_size div pa_page_size a
           in if length (pa_free_pages a) < num_pages then Inr (None, a)
              else Inr (Some (concat (map (page_slots (pa_page_size a)) (take num_pages (pa_free_pages a)))),
                        a\<lparr>pa_free_pages := drop num_pages (pa_free_pages a)\<rparr>))"

text \<open>
  \<open>out_init\<close> is the content of the tensor \<open>torch.empty\<close> returns.
\<close>

definition paged_alloc_extend ::
  "paged_alloc \<Rightarrow> nat list \<Rightarrow> nat list \<Rightarrow> int list \<Rightarrow> nat \<Rightarrow> nat list \<Rightarrow>
     (nat list option \<times> paged_alloc) result" where
  "paged_alloc_extend a prefix_lens seq_lens last_loc extend_num_tokens out_init =
     (let ps = pa_page_size a
      in if pa_debug_mode a \<and>
            \<not> list_all2 (\<lambda>l p. (l + 1) mod int ps = int p mod int ps) last_loc prefix_lens
         then Inl AssertionError
         else let (out_indices, ret) =
                    alloc_extend_kernel ps (next_power_of_2 extend_num_tokens)
                      prefix_lens seq_lens last_loc (pa_free_pages a) (take extend_num_tokens out_init)
              in if pa_debug_mode a \<and> \<not> distinct out_indices then Inl AssertionError
                 else let num_new_pages = nat (drop_bit 32 (sint ret))
                      in if length (pa_free_pages a) < num_new_pages then Inr (None, a)
                         else Inr (Some out_indices,
                                   a\<lparr>pa_free_pages := drop num_new_pages (pa_free_pages a)\<rparr>))"

definition paged_alloc_decode ::
  "paged_alloc \<Rightarrow> nat list \<Rightarrow> int list \<Rightarrow> nat list \<Rightarrow> (nat list option \<times> paged_alloc) result" where
  "paged_alloc_decode a seq_lens last_loc out_init =
     (let ps = pa_page_size a
      in if pa_debug_mode a \<and>
            \<not> list_all2 (\<lambda>l s. (l + 2) mod int ps = int s mod int ps) last_loc seq_lens
         then Inl AssertionError
         else let (out_indices, num_new_pages) =
                    alloc_decode_kernel ps seq_lens last_loc (pa_free_pages a)
                      (take (length seq_lens) out_init)
              in if pa_debug_mode a \<and> \<not> distinct out_indices then Inl AssertionError
                 else if length (pa_free_pages a) < num_new_pages then Inr (None, a)
                 else Inr (Some out_indices,
                           a\<lparr>pa_free_pages := drop num_new_pages (pa_free_pages a)\<rparr>))"

text \<open>\<open>torch.unique(free_index // page_size)\<close>: sorted, without repetitions.\<close>

definition unique_pages :: "nat \<Rightarrow> nat list \<Rightarrow> nat list" where
  "unique_pages ps xs = sort (remdups (map (\<lambda>i. i div ps) xs))"

definition paged_free :: "paged_alloc \<Rightarrow> nat list \<Rightarrow> paged_alloc result" where
  "paged_free a free_index =
     (if free_index = [] then Inr a
      else let a' = (if pa_not_in_group a
                     then a\<lparr>pa_free_pages := unique_pages (pa_page_size a) free_index @ pa_free_pages a\<rparr>
                     else a\<lparr>pa_group := pa_group a @ [free_index]\<rparr>)
           in if pa_debug_mode a \<and> \<not> distinct (pa_free_pages a') then Inl AssertionError else Inr a')"

definition paged_free_group_begin :: "paged_alloc \<Rightarrow> paged_alloc" where
  "paged_free_group_begin a = a\<lparr>pa_not_in_group := False, pa_group := []\<rparr>"

definition paged_free_group_end :: "paged_alloc \<Rightarrow> paged_alloc result" where
  "paged_free_group_end a =
     (let a1 = a\<lparr>pa_not_in_group := True\<rparr>
      in if pa_group a1 \<noteq> [] then paged_free a1 (concat (pa_group a1)) else Inr a1)"

definition paged_backup_state :: "paged_alloc \<Rightarrow> nat list" where
  "paged_backup_state a = pa_free_pages a"

definition paged_restore_state :: "paged_alloc \<Rightarrow> nat list \<Rightarrow> paged_alloc" where
  "paged_restore_state a free_pages = a\<lparr>pa_free_pages := free_pages\<rparr>"


section \<open>Blocks of stores\<close>

lemma filter_upt_less: "filter (\<lambda>k. k < n) [0..<m] = [0..<min n m]"
  by (induction m) (auto simp: min_def le_Suc_eq)

lemma masked_list: "[f k. k \<leftarrow> xs, P k] = map f (filter P xs)"
  by (induction xs) auto

lemma masked_comprehension: "[f k. k \<leftarrow> [0..<m], k < n] = map f [0..<min n m]"
  by (simp only: masked_list filter_upt_less)

lemma store_append: "store out (xs @ ys) = store (store out xs) ys"
  by (simp add: store_def)

lemma length_store [simp]: "length (store out ws) = length out"
  by (induction ws arbitrary: out) (auto simp: store_def)

lemma store_block:
  "s + n \<le> length out \<Longrightarrow>
     store out (map (\<lambda>k. (s + k, f k)) [0..<n]) = take s out @ map f [0..<n] @ drop (s + n) out"
proof (induction n)
  case 0
  then show ?case by (simp add: store_def)
next
  case (Suc n)
  have "store out (map (\<lambda>k. (s + k, f k)) [0..<Suc n])
      = (store out (map (\<lambda>k. (s + k, f k)) [0..<n]))[s + n := f n]"
    by (simp add: store_def)
  also have "\<dots> = (take s out @ map f [0..<n] @ drop (s + n) out)[s + n := f n]"
    using Suc by simp
  also have "\<dots> = take s out @ map f [0..<n] @ f n # drop (Suc (s + n)) out"
  proof -
    have "drop (s + n) out = out ! (s + n) # drop (Suc (s + n)) out"
      using Suc.prems by (simp add: Cons_nth_drop_Suc)
    moreover have "min (length out) s = s" using Suc.prems by simp
    ultimately show ?thesis by (simp add: list_update_append)
  qed
  finally show ?case by simp
qed

text \<open>Consecutive blocks fill the tensor from the front.\<close>

lemma foldl_store_blocks:
  fixes len :: "nat \<Rightarrow> nat"
  defines "start i \<equiv> \<Sum>j<i. len j"
  assumes "\<And>i. i < n \<Longrightarrow> prog i = map (\<lambda>k. (start i + k, f i k)) [0..<len i]"
    and "start n \<le> length out"
  shows "foldl (\<lambda>o' i. store o' (prog i)) out [0..<n]
       = concat (map (\<lambda>i. map (f i) [0..<len i]) [0..<n]) @ drop (start n) out"
  using assms(2,3)
proof (induction n)
  case 0
  then show ?case by (simp add: start_def)
next
  case (Suc n)
  let ?done = "concat (map (\<lambda>i. map (f i) [0..<len i]) [0..<n])"
  have len_done: "length ?done = start n"
    by (simp add: start_def length_concat comp_def sum_list_sum_nth atLeast0LessThan)
  have start_Suc: "start (Suc n) = start n + len n" by (simp add: start_def)
  have IH: "foldl (\<lambda>o' i. store o' (prog i)) out [0..<n] = ?done @ drop (start n) out"
    using Suc start_Suc by simp
  have "foldl (\<lambda>o' i. store o' (prog i)) out [0..<Suc n]
      = store (?done @ drop (start n) out) (map (\<lambda>k. (start n + k, f n k)) [0..<len n])"
    using IH Suc.prems(1) [of n] by simp
  also have "\<dots> = ?done @ map (f n) [0..<len n] @ drop (start (Suc n)) out"
    using Suc.prems(2) len_done start_Suc by (subst store_block) (auto simp: ac_simps)
  finally show ?case by simp
qed

section \<open>The layout the kernels compute\<close>

text \<open>
  The reference: token position \<open>p\<close> of request \<open>i\<close> lives at offset \<open>p mod ps\<close> of a page;
  positions before the first page boundary after \<open>pre_len\<close> continue the request's last page,
  the others lie on the new pages that the free list grants to the requests in order.
\<close>

definition new_pages_before :: "nat \<Rightarrow> nat list \<Rightarrow> nat list \<Rightarrow> nat \<Rightarrow> nat" where
  "new_pages_before ps pre seq i = (\<Sum>j<i. num_pages_of ps (seq ! j) - num_pages_of ps (pre ! j))"

definition token_loc :: "nat \<Rightarrow> nat list \<Rightarrow> nat list \<Rightarrow> int list \<Rightarrow> nat list \<Rightarrow> nat \<Rightarrow> nat \<Rightarrow> nat" where
  "token_loc ps pre seq last_loc fp i p =
     (if p < num_pages_of ps (pre ! i) * ps then nat (last_loc ! i + 1 + int (p - pre ! i))
      else load_page fp (new_pages_before ps pre seq i + (p div ps - num_pages_of ps (pre ! i))) * ps
             + p mod ps)"

lemma num_pages_of_ge: "0 < ps \<Longrightarrow> x \<le> num_pages_of ps x * ps"
proof -
  assume "0 < ps"
  have "x + ps - 1 = (x + ps - 1) div ps * ps + (x + ps - 1) mod ps" by simp
  moreover have "(x + ps - 1) mod ps \<le> ps - 1" using \<open>0 < ps\<close> by (simp add: Suc_leI less_Suc_eq_le [symmetric])
  ultimately show ?thesis using \<open>0 < ps\<close> unfolding num_pages_of_def by linarith
qed

lemma num_pages_of_mono: "x \<le> y \<Longrightarrow> num_pages_of ps x \<le> num_pages_of ps y"
  by (simp add: num_pages_of_def div_le_mono)

lemma num_pages_of_mult: "0 < ps \<Longrightarrow> num_pages_of ps (k * ps) = k"
proof -
  assume "0 < ps"
  then have "k * ps + ps - 1 = (ps - 1) + k * ps" by simp
  with \<open>0 < ps\<close> show ?thesis by (simp only: num_pages_of_def div_mult_self1) simp
qed

lemma num_pages_of_not_mult:
  assumes "0 < ps" and "x mod ps \<noteq> 0"
  shows "num_pages_of ps x = Suc (x div ps)"
proof -
  have "x + ps - 1 = (x mod ps - 1) + (x div ps + 1) * ps"
    using assms by (metis (no_types, lifting) Nat.add_diff_assoc2 One_nat_def Suc_leI add.commute
        add.left_commute add_mult_distrib mod_mult_div_eq mult.commute mult_1 neq0_conv)
  moreover have "x mod ps - 1 < ps" using assms(1) by (meson less_imp_diff_less mod_less_divisor)
  ultimately show ?thesis using assms(1) by (simp only: num_pages_of_def div_mult_self1) simp
qed

lemma sum_extend_lens_minus:
  "sum_extend_lens pre seq pid - (seq ! pid - pre ! pid) = (\<Sum>j<pid. seq ! j - pre ! j)"
  by (simp add: sum_extend_lens_def interv_sum_list_conv_sum_set_nat atLeast0LessThan)

lemma sum_num_new_pages_minus:
  "sum_num_new_pages ps pre seq pid - (num_pages_of ps (seq ! pid) - num_pages_of ps (pre ! pid))
     = new_pages_before ps pre seq pid"
  by (simp add: sum_num_new_pages_def new_pages_before_def interv_sum_list_conv_sum_set_nat atLeast0LessThan)

lemma next_power_of_2_ge: "n \<le> next_power_of_2 n"
proof -
  have "m < 2 ^ bit_length m" for m
  proof (induction m rule: bit_length.induct)
    case (1 n)
    show ?case
    proof (cases "n = 0")
      case True
      then show ?thesis by (simp add: bit_length.simps)
    next
      case False
      then have "n div 2 < 2 ^ bit_length (n div 2)" using "1" by simp
      then have "n < 2 * 2 ^ bit_length (n div 2)" by linarith
      then show ?thesis using False by (subst bit_length.simps) simp
    qed
  qed
  from this [of "n - 1"] show ?thesis
    by (auto simp: next_power_of_2_def push_bit_eq_mult)
qed


lemma map_upt_split3:
  "map f [0..<a + b + c] = map f [0..<a] @ map (\<lambda>k. f (a + k)) [0..<b] @ map (\<lambda>k. f (a + b + k)) [0..<c]"
  for f :: "nat \<Rightarrow> 'a"
proof -
  have shift: "map g [m..<m + n] = map (\<lambda>k. g (m + k)) [0..<n]" for g :: "nat \<Rightarrow> 'a" and m n
    by (rule nth_equalityI) auto
  have "[0..<a + b + c] = [0..<a] @ [a..<a + b] @ [a + b..<a + b + c]"
    by (metis append_assoc le0 le_add1 upt_add_eq_append)
  then show ?thesis by (simp add: shift)
qed

lemma map_upt_split2:
  "map f [0..<a + b] = map f [0..<a] @ map (\<lambda>k. f (a + k)) [0..<b]" for f :: "nat \<Rightarrow> 'a"
  using map_upt_split3 [of f a b 0] by simp

lemma num_pages_full:
  assumes "0 < ps" and "num_pages_of ps pre * ps \<le> seq"
  shows "num_pages_of ps pre \<le> seq div ps"
  using assms by (simp add: less_eq_div_iff_mult_less_eq)

text \<open>Each program writes the locations of its request's new tokens, in order.\<close>

lemma alloc_extend_program_eq:
  assumes ps: "0 < ps" and le: "pre ! i \<le> seq ! i" and maxn: "seq ! i - pre ! i \<le> maxn"
  shows "alloc_extend_program ps maxn pre seq last_loc fp i =
     map (\<lambda>k. ((\<Sum>j<i. seq ! j - pre ! j) + k, token_loc ps pre seq last_loc fp i (pre ! i + k)))
       [0..<seq ! i - pre ! i]"
proof -
  let ?s = "\<Sum>j<i. seq ! j - pre ! j" and ?x = "seq ! i" and ?p = "pre ! i"
  let ?P = "num_pages_of ps ?p" and ?npb = "new_pages_before ps pre seq i"
  let ?n1 = "min ?x (?P * ps) - ?p"
  let ?loc = "\<lambda>k. (?s + k, token_loc ps pre seq last_loc fp i (?p + k))"
  have Pge: "?p \<le> ?P * ps" by (rule num_pages_of_ge [OF ps])
  have n1_le: "?n1 \<le> ps"
  proof -
    have "?P * ps \<le> ?p + ps - 1" unfolding num_pages_of_def by simp
    then show ?thesis using ps by linarith
  qed
  have part1: "[(?s + k, nat (last_loc ! i + 1 + int k)). k \<leftarrow> [0..<ps], k < ?n1] = map ?loc [0..<?n1]"
    using n1_le by (auto simp: masked_comprehension token_loc_def min_def simp del: upt_Suc)
  show ?thesis
  proof (cases "?x \<le> ?P * ps")
    case True
    then have "?p + ?n1 = ?x" and "?n1 = ?x - ?p" using le by auto
    then show ?thesis
      using part1 unfolding alloc_extend_program_def Let_def sum_extend_lens_minus by simp
  next
    case False
    define n2 where "n2 = ?x div ps * ps - ?P * ps"
    define n3 where "n3 = ?x - ?x div ps * ps"
    have n1: "?n1 = ?P * ps - ?p" using False by simp
    have "?P \<le> ?x div ps" using False num_pages_full [OF ps, of ?p ?x] by simp
    then have Px: "?P * ps \<le> ?x div ps * ps" by simp
    have xdiv: "?x div ps * ps \<le> ?x" by simp
    have n3: "n3 = ?x mod ps" unfolding n3_def by (metis minus_mult_div_eq_mod mult.commute)
    have total: "?x - ?p = (?P * ps - ?p) + n2 + n3"
      unfolding n2_def n3_def using Px xdiv Pge by linarith
    have n1_early: "?p + ?n1 \<noteq> ?x" using False n1 Pge by simp
    have eq2: "(?s + (?P * ps - ?p) + k, load_page fp (?npb + k div ps) * ps + k mod ps) = ?loc (?P * ps - ?p + k)"
      for k
    proof -
      have pos: "?p + (?P * ps - ?p + k) = ?P * ps + k" using Pge by simp
      have "(?P * ps + k) div ps - ?P = k div ps" and "(?P * ps + k) mod ps = k mod ps"
        using ps by (simp_all add: mult.commute)
      then show ?thesis using ps by (simp add: pos token_loc_def add.assoc)
    qed
    have n2_max: "min n2 maxn = n2" using total maxn by linarith
    have part2: "[(?s + ?n1 + k, load_page fp (?npb + k div ps) * ps + k mod ps). k \<leftarrow> [0..<maxn], k < n2]
        = map (\<lambda>k. ?loc (?P * ps - ?p + k)) [0..<n2]"
      unfolding n1 by (simp only: masked_comprehension eq2 n2_max)
    show ?thesis
    proof (cases "?x mod ps = 0")
      case True
      then have "n3 = 0" by (simp add: n3)
      moreover have "?p + ?n1 + n2 = ?x" using total \<open>n3 = 0\<close> n1 le False Pge by linarith
      ultimately show ?thesis
        using part1 part2 n1_early total n1
        unfolding alloc_extend_program_def Let_def sum_extend_lens_minus sum_num_new_pages_minus
          n2_def [symmetric]
        by (simp add: map_upt_split2)
    next
      case ne: False
      then have n3_pos: "0 < n3" by (simp add: n3)
      have not_early2: "?p + ?n1 + n2 \<noteq> ?x" using total n3_pos n1 le False Pge by linarith
      have Px_eq: "num_pages_of ps ?x = Suc (?x div ps)" by (rule num_pages_of_not_mult [OF ps ne])
      have idx: "?npb + (num_pages_of ps ?x - ?P) - 1 = ?npb + (?x div ps - ?P)"
        using Px_eq \<open>?P \<le> ?x div ps\<close> by simp
      have eq3: "(?s + (?P * ps - ?p) + n2 + k, load_page fp (?npb + (?x div ps - ?P)) * ps + k)
          = ?loc (?P * ps - ?p + n2 + k)" if "k < ps" for k
      proof -
        have pos: "?p + (?P * ps - ?p + n2 + k) = ?x div ps * ps + k"
          using Pge Px unfolding n2_def by linarith
        have "(?x div ps * ps + k) div ps = ?x div ps" and "(?x div ps * ps + k) mod ps = k"
          using ps that by simp_all
        moreover have "\<not> ?x div ps * ps + k < ?P * ps" using Px by linarith
        ultimately show ?thesis unfolding token_loc_def pos by (simp add: add.assoc)
      qed
      have n3_ps: "n3 < ps" using ps by (simp add: n3)
      then have n3_min: "min n3 ps = n3" by simp
      have part3: "[(?s + ?n1 + n2 + k, load_page fp (?npb + (num_pages_of ps ?x - ?P) - 1) * ps + k). k \<leftarrow> [0..<ps], k < n3]
          = map (\<lambda>k. ?loc (?P * ps - ?p + n2 + k)) [0..<n3]"
        unfolding n1 idx masked_comprehension n3_min using eq3 n3_ps by (intro map_cong) auto
      show ?thesis
        using part1 part2 part3 n1_early not_early2 total n1
        unfolding alloc_extend_program_def Let_def sum_extend_lens_minus sum_num_new_pages_minus
          n2_def [symmetric] n3_def [symmetric]
        by (simp add: map_upt_split3)
    qed
  qed
qed


text \<open>The length of the inputs the caller passes, and how they fit together.\<close>

definition extend_args_ok :: "nat list \<Rightarrow> nat list \<Rightarrow> nat \<Rightarrow> bool" where
  "extend_args_ok pre seq extend_num_tokens \<longleftrightarrow>
     length seq = length pre \<and> (\<forall>i<length pre. pre ! i \<le> seq ! i) \<and>
     extend_num_tokens = (\<Sum>i<length pre. seq ! i - pre ! i)"

definition extend_layout :: "nat \<Rightarrow> nat list \<Rightarrow> nat list \<Rightarrow> int list \<Rightarrow> nat list \<Rightarrow> nat list" where
  "extend_layout ps pre seq last_loc fp =
     concat (map (\<lambda>i. map (token_loc ps pre seq last_loc fp i) [pre ! i..<seq ! i]) [0..<length pre])"

lemma map_loc_shift:
  "p \<le> x \<Longrightarrow> map (\<lambda>k. f (p + k)) [0..<x - p] = map f [p..<x]" for f :: "nat \<Rightarrow> 'a"
  by (rule nth_equalityI) auto

lemma alloc_extend_kernel_out:
  assumes ps: "0 < ps" and ok: "extend_args_ok pre seq n" and out: "length out = n"
  shows "fst (alloc_extend_kernel ps (next_power_of_2 n) pre seq last_loc fp out)
       = extend_layout ps pre seq last_loc fp"
proof -
  let ?len = "\<lambda>i. seq ! i - pre ! i"
  have le: "\<And>i. i < length pre \<Longrightarrow> pre ! i \<le> seq ! i" and n: "n = (\<Sum>i<length pre. ?len i)"
    using ok by (auto simp: extend_args_ok_def)
  have "?len i \<le> next_power_of_2 n" if "i < length pre" for i
  proof -
    have "?len i \<le> n" unfolding n using that by (intro member_le_sum) auto
    then show ?thesis using next_power_of_2_ge [of n] by simp
  qed
  then have prog: "alloc_extend_program ps (next_power_of_2 n) pre seq last_loc fp i =
      map (\<lambda>k. ((\<Sum>j<i. ?len j) + k, token_loc ps pre seq last_loc fp i (pre ! i + k))) [0..<?len i]"
    if "i < length pre" for i
    using alloc_extend_program_eq [OF ps le] that by blast
  have "fst (alloc_extend_kernel ps (next_power_of_2 n) pre seq last_loc fp out)
      = concat (map (\<lambda>i. map (\<lambda>k. token_loc ps pre seq last_loc fp i (pre ! i + k)) [0..<?len i]) [0..<length pre])"
    unfolding alloc_extend_kernel_def Let_def fst_conv
    by (subst foldl_store_blocks [where len = ?len, OF prog]) (use out n in auto)
  also have "\<dots> = extend_layout ps pre seq last_loc fp"
    unfolding extend_layout_def by (intro arg_cong [where f = concat] map_cong refl map_loc_shift le) simp
  finally show ?thesis .
qed

text \<open>The packed return value: both counts survive the packing while they fit in 31 and 32 bits.\<close>

lemma packed_pages:
  assumes "n < 2 ^ 31" and "m < 2 ^ 32"
  shows "nat (drop_bit 32 (sint (push_bit 32 (word_of_nat n) OR word_of_nat m :: 64 word))) = n"
proof -
  let ?w = "push_bit 32 (word_of_nat n) OR word_of_nat m :: 64 word"
  have A: "bit ?w k \<longleftrightarrow> bit (push_bit 32 n OR m) k" if "k < 64" for k
    using that by (auto simp: bit_simps)
  have B: "\<not> bit (push_bit 32 n OR m) k" if "63 \<le> k" for k
  proof -
    have small: "\<not> bit x k" if "x < 2 ^ 63" for x :: nat
    proof -
      have "x < 2 ^ k" using that \<open>63 \<le> k\<close> by (meson one_le_numeral order_less_le_trans power_increasing)
      then show ?thesis by (simp add: bit_iff_odd)
    qed
    have "push_bit 32 n < 2 ^ 63" using assms(1) by (simp add: push_bit_eq_mult)
    moreover have "m < 2 ^ 63" using assms(2) by simp
    ultimately have "\<not> bit (push_bit 32 n) k" and "\<not> bit m k"
      by (blast dest: small)+
    then show ?thesis by (simp add: bit_or_iff)
  qed
  define w v where "w = ?w" and "v = push_bit 32 n OR m"
  have wv: "\<And>k. k < 64 \<Longrightarrow> bit w k \<longleftrightarrow> bit v k"
    unfolding w_def v_def by (rule A)
  have v: "\<And>k. 63 \<le> k \<Longrightarrow> \<not> bit v k"
    unfolding v_def by (rule B)
  have "sint w = int v"
  proof (rule bit_eqI)
    fix k
    show "bit (sint w) k \<longleftrightarrow> bit (int v) k"
      using wv [of k] wv [of 63] v [of 63] v [of k] bit_imp_le_length [of w k]
      by (cases "k < 64") (auto simp: bit_sint_iff bit_of_nat_iff_bit)
  qed
  then have sint_w: "sint ?w = int (push_bit 32 n OR m)" by (simp only: w_def v_def)
  have "drop_bit 32 (push_bit 32 n OR m) = n"
  proof -
    have "drop_bit 32 m = 0" using assms(2) by (simp add: drop_bit_eq_div)
    moreover have "drop_bit 32 (push_bit 32 n) = n" by (simp add: drop_bit_eq_div push_bit_eq_mult)
    ultimately show ?thesis by (simp add: drop_bit_or)
  qed
  then show ?thesis unfolding sint_w drop_bit_of_nat nat_int .
qed


section \<open>The allocator\<close>

definition total_new_pages :: "nat \<Rightarrow> nat list \<Rightarrow> nat list \<Rightarrow> nat" where
  "total_new_pages ps pre seq = new_pages_before ps pre seq (length pre)"

lemma sum_upt_Suc_pred: "0 < n \<Longrightarrow> (\<Sum>j\<leftarrow>[0..<Suc (n - 1)]. f j) = (\<Sum>j<n. f j)" for f :: "nat \<Rightarrow> nat"
  by (simp only: Suc_diff_1 interv_sum_list_conv_sum_set_nat set_upt atLeast0LessThan)

lemma alloc_extend_kernel_ret:
  assumes "pre \<noteq> []" and "extend_args_ok pre seq n" and "n < 2 ^ 32"
    and "total_new_pages ps pre seq < 2 ^ 31"
  shows "nat (drop_bit 32 (sint (snd (alloc_extend_kernel ps maxn pre seq last_loc fp out))))
    = total_new_pages ps pre seq"
proof -
  have "sum_num_new_pages ps pre seq (length pre - 1) = total_new_pages ps pre seq"
    using assms(1) unfolding sum_num_new_pages_def total_new_pages_def new_pages_before_def
    by (intro sum_upt_Suc_pred) simp
  moreover have "sum_extend_lens pre seq (length pre - 1) = n"
    using assms(1,2) unfolding sum_extend_lens_def extend_args_ok_def
    by (subst sum_upt_Suc_pred) auto
  ultimately show ?thesis
    using packed_pages [OF assms(4,3)] by (simp add: alloc_extend_kernel_def Let_def)
qed

text \<open>
  The layout consists of whole-page steps: every location has the offset of its token
  position, provided the last location of each request had it too.
\<close>

definition last_loc_ok :: "nat \<Rightarrow> nat list \<Rightarrow> int list \<Rightarrow> bool" where
  "last_loc_ok ps pre last_loc \<longleftrightarrow>
     (\<forall>i<length pre. -1 \<le> last_loc ! i \<and> (last_loc ! i + 1) mod int ps = int (pre ! i) mod int ps)"

definition token_page :: "nat \<Rightarrow> nat list \<Rightarrow> nat list \<Rightarrow> int list \<Rightarrow> nat list \<Rightarrow> nat \<Rightarrow> nat \<Rightarrow> nat" where
  "token_page ps pre seq last_loc fp i p =
     (if p < num_pages_of ps (pre ! i) * ps then nat (last_loc ! i) div ps
      else load_page fp (new_pages_before ps pre seq i + (p div ps - num_pages_of ps (pre ! i))))"

lemma old_page_div:
  assumes ps: "0 < ps" and "pre \<le> p" and lt: "p < num_pages_of ps pre * ps"
  shows "pre mod ps \<noteq> 0" and "p - pre + pre mod ps < ps" and "p mod ps = p - pre + pre mod ps"
proof -
  show ne: "pre mod ps \<noteq> 0"
  proof
    assume "pre mod ps = 0"
    then have "pre = pre div ps * ps" by (metis mod_div_mult_eq add_0)
    then have "num_pages_of ps pre * ps = pre" using num_pages_of_mult [OF ps] by metis
    with assms show False by simp
  qed
  have "p < pre div ps * ps + ps" using lt num_pages_of_not_mult [OF ps ne] by simp
  moreover have pre: "pre = pre div ps * ps + pre mod ps" by simp
  ultimately show lt': "p - pre + pre mod ps < ps" using assms(2) by linarith
  have "p = pre div ps * ps + (p - pre + pre mod ps)" using pre assms(2) by linarith
  then have "p mod ps = (p - pre + pre mod ps) mod ps" by (metis mod_mult_self3)
  then show "p mod ps = p - pre + pre mod ps" using lt' by simp
qed

lemma token_loc_page:
  assumes ps: "0 < ps" and i: "i < length pre" and ok: "last_loc_ok ps pre last_loc" and p: "pre ! i \<le> p"
  shows "token_loc ps pre seq last_loc fp i p = token_page ps pre seq last_loc fp i p * ps + p mod ps"
proof (cases "p < num_pages_of ps (pre ! i) * ps")
  case False
  then show ?thesis by (simp add: token_loc_def token_page_def)
next
  case True
  note old = old_page_div [OF ps p True]
  define l where "l = nat (last_loc ! i + 1)"
  have "-1 \<le> last_loc ! i" using ok i by (simp add: last_loc_ok_def)
  then have l: "last_loc ! i + 1 = int l" by (simp add: l_def)
  then have lmod: "l mod ps = pre ! i mod ps"
    using ok i by (metis last_loc_ok_def of_nat_eq_iff zmod_int)
  then have "0 < l" using old(1) by (metis gr0I mod_0)
  have ldiv: "nat (last_loc ! i) div ps = l div ps"
  proof -
    have "nat (last_loc ! i) = l - 1" using l \<open>0 < l\<close> by simp
    also have "(l - 1) div ps = l div ps"
    proof -
      have "l - 1 = l div ps * ps + (l mod ps - 1)" using old(1) lmod
        by (metis Nat.add_diff_assoc One_nat_def Suc_leI div_mult_mod_eq neq0_conv)
      moreover have "l mod ps - 1 < ps" using ps by (meson less_imp_diff_less mod_less_divisor)
      ultimately show ?thesis using ps by simp
    qed
    finally show ?thesis by simp
  qed
  have "nat (last_loc ! i + 1 + int (p - pre ! i)) = l + (p - pre ! i)" by (simp add: l nat_add_distrib)
  also have "\<dots> = l div ps * ps + p mod ps"
    using old(3) lmod by (metis add.commute add.left_commute div_mult_mod_eq)
  finally show ?thesis using True by (simp add: token_loc_def token_page_def ldiv)
qed


text \<open>
  Distinctness.  The old pages that requests continue, and the free pages, must not overlap;
  this is what the caches guarantee for the pages they own.
\<close>

definition pages_ok :: "nat \<Rightarrow> nat list \<Rightarrow> int list \<Rightarrow> nat list \<Rightarrow> bool" where
  "pages_ok ps pre last_loc fp \<longleftrightarrow>
     distinct (map (\<lambda>i. nat (last_loc ! i) div ps) (filter (\<lambda>i. pre ! i mod ps \<noteq> 0) [0..<length pre]) @ fp)"

lemma new_pages_before_mono:
  "i \<le> j \<Longrightarrow> new_pages_before ps pre seq i \<le> new_pages_before ps pre seq j"
  by (auto simp: new_pages_before_def intro: sum_mono2)

lemma new_pages_before_Suc:
  "new_pages_before ps pre seq (Suc i)
     = new_pages_before ps pre seq i + (num_pages_of ps (seq ! i) - num_pages_of ps (pre ! i))"
  by (simp add: new_pages_before_def)

text \<open>A token on a new page uses a page index inside its own request's share of the free list.\<close>

lemma new_page_index:
  assumes ps: "0 < ps" and p: "p < seq ! i" and new: "num_pages_of ps (pre ! i) * ps \<le> p"
  shows "new_pages_before ps pre seq i + (p div ps - num_pages_of ps (pre ! i))
       < new_pages_before ps pre seq (Suc i)"
    and "num_pages_of ps (pre ! i) \<le> p div ps"
proof -
  show le: "num_pages_of ps (pre ! i) \<le> p div ps"
    by (rule num_pages_full [OF ps new])
  have "p div ps * ps \<le> p" by simp
  also have "p < num_pages_of ps (seq ! i) * ps"
    using p num_pages_of_ge [OF ps, of "seq ! i"] by linarith
  finally have "p div ps < num_pages_of ps (seq ! i)"
    using ps by simp
  with le show "new_pages_before ps pre seq i + (p div ps - num_pages_of ps (pre ! i))
       < new_pages_before ps pre seq (Suc i)"
    by (simp add: new_pages_before_Suc)
qed

lemma new_index_inj:
  assumes "new_pages_before ps pre seq i + a < new_pages_before ps pre seq (Suc i)"
    and "new_pages_before ps pre seq j + b < new_pages_before ps pre seq (Suc j)"
    and "new_pages_before ps pre seq i + a = new_pages_before ps pre seq j + b"
  shows "i = j \<and> a = b"
proof -
  have "\<not> i < j" and "\<not> j < i"
    using assms new_pages_before_mono [of "Suc i" j] new_pages_before_mono [of "Suc j" i]
    by (metis Suc_leI le_add1 linorder_not_le order_trans)+
  then have "i = j" by simp
  with assms(3) show ?thesis by simp
qed

lemma token_page_inj:
  assumes ps: "0 < ps" and pages: "pages_ok ps pre last_loc fp"
    and enough: "total_new_pages ps pre seq \<le> length fp"
    and i: "i < length pre" "pre ! i \<le> p" "p < seq ! i"
    and j: "j < length pre" "pre ! j \<le> q" "q < seq ! j"
    and eq: "token_page ps pre seq last_loc fp i p = token_page ps pre seq last_loc fp j q"
  shows "i = j \<and> p div ps = q div ps"
proof -
  let ?I = "filter (\<lambda>i. pre ! i mod ps \<noteq> 0) [0..<length pre]"
  have dI: "distinct (map (\<lambda>i. nat (last_loc ! i) div ps) ?I)" and dfp: "distinct fp"
    and disj: "\<And>k. k \<in> set ?I \<Longrightarrow> nat (last_loc ! k) div ps \<notin> set fp"
    using pages by (auto simp: pages_ok_def)
  have inj: "inj_on (\<lambda>i. nat (last_loc ! i) div ps) (set ?I)"
    using dI by (simp add: distinct_map)
  have old: "k \<in> set ?I \<and> r div ps = pre ! k div ps"
    if "k < length pre" "pre ! k \<le> r" "r < num_pages_of ps (pre ! k) * ps" for k r
  proof -
    note o = old_page_div [OF ps that(2,3)]
    have "r = pre ! k div ps * ps + (r - pre ! k + pre ! k mod ps)" using that(2) by simp
    then have "r div ps = pre ! k div ps" using o(2) by (metis div_less div_mult_self3 add.right_neutral ps neq0_conv)
    with o(1) that(1) show ?thesis by simp
  qed
  have idx: "new_pages_before ps pre seq k + (r div ps - num_pages_of ps (pre ! k)) < length fp"
    if "k < length pre" "r < seq ! k" "num_pages_of ps (pre ! k) * ps \<le> r" for k r
    using new_page_index(1) [OF ps, of r seq k pre] that enough
      new_pages_before_mono [of "Suc k" "length pre" ps pre seq]
    by (simp add: total_new_pages_def)
  have new: "token_page ps pre seq last_loc fp k r
      = fp ! (new_pages_before ps pre seq k + (r div ps - num_pages_of ps (pre ! k)))"
    if "k < length pre" "r < seq ! k" "num_pages_of ps (pre ! k) * ps \<le> r" for k r
    using idx [OF that] that by (simp add: token_page_def load_page_def)
  show ?thesis
  proof (cases "p < num_pages_of ps (pre ! i) * ps"; cases "q < num_pages_of ps (pre ! j) * ps")
    assume lt: "p < num_pages_of ps (pre ! i) * ps" "q < num_pages_of ps (pre ! j) * ps"
    then have "i = j" using eq inj old i j by (auto simp: token_page_def dest: inj_onD)
    then show ?thesis using old [OF i(1,2) lt(1)] old [OF j(1,2) lt(2)] by simp
  next
    assume lt: "p < num_pages_of ps (pre ! i) * ps" "\<not> q < num_pages_of ps (pre ! j) * ps"
    then have "nat (last_loc ! i) div ps \<in> set fp"
      using eq new [OF j(1,3)] idx [OF j(1,3)] by (simp add: token_page_def)
    then show ?thesis using disj old [OF i(1,2) lt(1)] by blast
  next
    assume lt: "\<not> p < num_pages_of ps (pre ! i) * ps" "q < num_pages_of ps (pre ! j) * ps"
    then have "nat (last_loc ! j) div ps \<in> set fp"
      using eq new [OF i(1,3)] idx [OF i(1,3)] by (simp add: token_page_def)
    then show ?thesis using disj old [OF j(1,2) lt(2)] by blast
  next
    assume "\<not> p < num_pages_of ps (pre ! i) * ps" "\<not> q < num_pages_of ps (pre ! j) * ps"
    then have ge: "num_pages_of ps (pre ! i) * ps \<le> p" "num_pages_of ps (pre ! j) * ps \<le> q" by auto
    then have "new_pages_before ps pre seq i + (p div ps - num_pages_of ps (pre ! i))
        = new_pages_before ps pre seq j + (q div ps - num_pages_of ps (pre ! j))"
      using eq new [OF i(1,3)] new [OF j(1,3)] idx [OF i(1,3)] idx [OF j(1,3)] dfp
      by (simp add: nth_eq_iff_index_eq)
    from new_index_inj [OF new_page_index(1) [OF ps i(3) ge(1)] new_page_index(1) [OF ps j(3) ge(2)] this]
    show ?thesis using new_page_index(2) [OF ps i(3) ge(1)] new_page_index(2) [OF ps j(3) ge(2)] by auto
  qed
qed


lemma distinct_concat_upt:
  assumes "\<And>i. i < n \<Longrightarrow> distinct (f i)"
    and "\<And>i j. i < n \<Longrightarrow> j < n \<Longrightarrow> i \<noteq> j \<Longrightarrow> set (f i) \<inter> set (f j) = {}"
  shows "distinct (concat (map f [0..<n]))"
  using assms
proof (induction n)
  case 0
  then show ?case by simp
next
  case (Suc n)
  have "set (f i) \<inter> set (f n) = {}" if "i < n" for i
    using Suc.prems(2) [of i n] that by simp
  then have "set (concat (map f [0..<n])) \<inter> set (f n) = {}" by (simp add: disjoint_iff) (metis atLeastLessThan_iff)
  with Suc show ?case by simp
qed

lemma extend_layout_distinct:
  assumes ps: "0 < ps" and ok: "extend_args_ok pre seq n" and last: "last_loc_ok ps pre last_loc"
    and pages: "pages_ok ps pre last_loc fp" and enough: "total_new_pages ps pre seq \<le> length fp"
  shows "distinct (extend_layout ps pre seq last_loc fp)"
proof -
  let ?loc = "token_loc ps pre seq last_loc fp"
  have inj: "i = j \<and> p = q"
    if "i < length pre" "pre ! i \<le> p" "p < seq ! i" "j < length pre" "pre ! j \<le> q" "q < seq ! j"
      "?loc i p = ?loc j q" for i p j q
  proof -
    have eq: "token_page ps pre seq last_loc fp i p * ps + p mod ps
        = token_page ps pre seq last_loc fp j q * ps + q mod ps"
      using that token_loc_page [OF ps _ last] by simp
    have m: "p mod ps < ps" "q mod ps < ps" using ps by simp_all
    have "token_page ps pre seq last_loc fp i p = token_page ps pre seq last_loc fp j q"
      using arg_cong [OF eq, of "\<lambda>x. x div ps"] m by simp
    moreover have "p mod ps = q mod ps"
      using arg_cong [OF eq, of "\<lambda>x. x mod ps"] m by simp
    ultimately show ?thesis
      using token_page_inj [OF ps pages enough that(1-6)] by (metis div_mult_mod_eq)
  qed
  have "distinct (map (?loc i) [pre ! i..<seq ! i])" if "i < length pre" for i
    using inj that by (auto simp: distinct_map inj_on_def)
  moreover have "set (map (?loc i) [pre ! i..<seq ! i]) \<inter> set (map (?loc j) [pre ! j..<seq ! j]) = {}"
    if "i < length pre" "j < length pre" "i \<noteq> j" for i j
    using inj that by fastforce
  ultimately show ?thesis
    unfolding extend_layout_def by (intro distinct_concat_upt) auto
qed


section \<open>Allocation in one step\<close>

lemma alloc_extend_eq:
  assumes ps: "0 < pa_page_size a" and debug: "\<not> pa_debug_mode a"
    and ne: "pre \<noteq> []" and ok: "extend_args_ok pre seq n" and out: "n \<le> length out"
    and n32: "n < 2 ^ 32" and p31: "total_new_pages (pa_page_size a) pre seq < 2 ^ 31"
  shows "paged_alloc_extend a pre seq last_loc n out =
     (if total_new_pages (pa_page_size a) pre seq \<le> length (pa_free_pages a)
      then Inr (Some (extend_layout (pa_page_size a) pre seq last_loc (pa_free_pages a)),
                a\<lparr>pa_free_pages := drop (total_new_pages (pa_page_size a) pre seq) (pa_free_pages a)\<rparr>)
      else Inr (None, a))"
proof -
  let ?k = "alloc_extend_kernel (pa_page_size a) (next_power_of_2 n) pre seq last_loc (pa_free_pages a) (take n out)"
  have "fst ?k = extend_layout (pa_page_size a) pre seq last_loc (pa_free_pages a)"
    using out by (intro alloc_extend_kernel_out [OF ps ok]) simp
  moreover have "nat (drop_bit 32 (sint (snd ?k))) = total_new_pages (pa_page_size a) pre seq"
    by (rule alloc_extend_kernel_ret [OF ne ok n32 p31])
  moreover obtain out' ret where "?k = (out', ret)" by fastforce
  ultimately show ?thesis
    using debug by (simp add: paged_alloc_extend_def Let_def not_le)
qed

text \<open>The bound the scheduler checks before it evicts is enough for every request.\<close>

lemma total_new_pages_bound:
  assumes ps: "0 < ps" and ok: "extend_args_ok pre seq n"
  shows "total_new_pages ps pre seq * ps \<le> n + length pre * ps"
proof -
  have one: "(num_pages_of ps (seq ! i) - num_pages_of ps (pre ! i)) * ps \<le> (seq ! i - pre ! i) + ps"
    if "i < length pre" for i
  proof -
    have "num_pages_of ps (seq ! i) * ps \<le> seq ! i + ps - 1"
      unfolding num_pages_of_def by simp
    moreover have "pre ! i \<le> num_pages_of ps (pre ! i) * ps" by (rule num_pages_of_ge [OF ps])
    moreover have "pre ! i \<le> seq ! i" using ok that by (simp add: extend_args_ok_def)
    ultimately show ?thesis using ps unfolding diff_mult_distrib by linarith
  qed
  have "total_new_pages ps pre seq * ps
      = (\<Sum>i<length pre. (num_pages_of ps (seq ! i) - num_pages_of ps (pre ! i)) * ps)"
    by (simp add: total_new_pages_def new_pages_before_def sum_distrib_right)
  also have "\<dots> \<le> (\<Sum>i<length pre. (seq ! i - pre ! i) + ps)"
    by (intro sum_mono one) simp
  also have "\<dots> = n + length pre * ps"
    using ok unfolding extend_args_ok_def sum.distrib by simp
  finally show ?thesis .
qed

text \<open>Decoding is the extension of every request by one token.\<close>

lemma alloc_decode_kernel_eq:
  assumes ps: "0 < ps" and pos: "\<And>i. i < length seq \<Longrightarrow> 0 < seq ! i"
    and out: "length out = length seq"
  shows "fst (alloc_decode_kernel ps seq last_loc fp out)
       = extend_layout ps (map (\<lambda>l. l - 1) seq) seq last_loc fp"
proof -
  let ?pre = "map (\<lambda>l. l - 1) seq"
  have prog: "alloc_decode_program ps seq last_loc fp i =
      map (\<lambda>k. ((\<Sum>j<i. 1) + k, token_loc ps ?pre seq last_loc fp i (?pre ! i))) [0..<1]"
    if i: "i < length seq" for i
  proof -
    let ?x = "seq ! i"
    have x: "0 < ?x" using pos i by simp
    show ?thesis
    proof (cases "(?x - 1) mod ps = 0")
      case True
      then obtain q where q: "?x - 1 = q * ps" by (metis mod_0_imp_dvd dvdE mult.commute)
      then have "?x = q * ps + 1" using x by simp
      then have "num_pages_of ps ?x = q + 1"
        using ps by (simp add: num_pages_of_def div_add1_eq)
      moreover have "num_pages_of ps (?x - 1) = q" using q num_pages_of_mult [OF ps] by metis
      ultimately show ?thesis using i q ps
        using sum_num_new_pages_minus [of ps ?pre seq i]
        by (simp add: alloc_decode_program_def Let_def token_loc_def)
    next
      case False
      have "num_pages_of ps (?x - 1) = Suc ((?x - 1) div ps)" by (rule num_pages_of_not_mult [OF ps False])
      moreover have "num_pages_of ps ?x = Suc ((?x - 1) div ps)"
      proof -
        have "?x + ps - 1 = (?x - 1) + ps" using x by simp
        moreover have "((?x - 1) + ps) div ps = Suc ((?x - 1) div ps)"
          using ps div_add_self2 [of ps "?x - 1"] by simp
        ultimately show ?thesis by (simp only: num_pages_of_def)
      qed
      moreover have "?x - 1 < num_pages_of ps (?x - 1) * ps"
        using num_pages_of_ge [OF ps, of "?x - 1"] False num_pages_of_mult [OF ps]
        by (metis le_neq_implies_less mod_mult_self2_is_0)
      ultimately show ?thesis using i
        by (simp add: alloc_decode_program_def Let_def token_loc_def)
    qed
  qed
  have "fst (alloc_decode_kernel ps seq last_loc fp out)
      = concat (map (\<lambda>i. map (\<lambda>k. token_loc ps ?pre seq last_loc fp i (?pre ! i)) [0..<1]) [0..<length seq])"
    unfolding alloc_decode_kernel_def Let_def fst_conv
    by (subst foldl_store_blocks [where len = "\<lambda>_. 1", OF prog]) (use out in auto)
  also have "\<dots> = extend_layout ps ?pre seq last_loc fp"
  proof -
    have E: "map (\<lambda>k. token_loc ps ?pre seq last_loc fp i (?pre ! i)) [0..<1]
        = map (token_loc ps ?pre seq last_loc fp i) [?pre ! i..<seq ! i]" if i: "i < length seq" for i
    proof -
      obtain x where "seq ! i = Suc x" using pos [OF i] gr0_implies_Suc by blast
      then show ?thesis using i by simp
    qed
    show ?thesis unfolding extend_layout_def length_map
      by (rule arg_cong [where f = concat], rule map_cong [OF refl], rule E) simp
  qed
  finally show ?thesis .
qed


lemma length_extend_layout:
  assumes "extend_args_ok pre seq n"
  shows "length (extend_layout ps pre seq last_loc fp) = n"
proof -
  have "length (extend_layout ps pre seq last_loc fp) = (\<Sum>i\<leftarrow>[0..<length pre]. seq ! i - pre ! i)"
    by (simp add: extend_layout_def length_concat comp_def)
  also have "\<dots> = (\<Sum>i<length pre. seq ! i - pre ! i)"
    by (simp only: interv_sum_list_conv_sum_set_nat set_upt atLeast0LessThan)
  finally show ?thesis using assms by (simp add: extend_args_ok_def)
qed

lemma extend_layout_pages:
  assumes ps: "0 < ps" and ok: "extend_args_ok pre seq n" and last: "last_loc_ok ps pre last_loc"
    and enough: "total_new_pages ps pre seq \<le> length fp"
    and x: "x \<in> set (extend_layout ps pre seq last_loc fp)"
  shows "(\<exists>i<length pre. pre ! i mod ps \<noteq> 0 \<and> x div ps = nat (last_loc ! i) div ps) \<or>
     x div ps \<in> set (take (total_new_pages ps pre seq) fp)"
proof -
  obtain i p where i: "i < length pre" "pre ! i \<le> p" "p < seq ! i"
    and "x = token_loc ps pre seq last_loc fp i p"
    using x by (auto simp: extend_layout_def)
  then have page: "x div ps = token_page ps pre seq last_loc fp i p"
    using token_loc_page [OF ps i(1) last i(2)] ps by simp
  show ?thesis
  proof (cases "p < num_pages_of ps (pre ! i) * ps")
    case True
    then show ?thesis using old_page_div(1) [OF ps i(2) True] i(1) page by (auto simp: token_page_def)
  next
    case False
    let ?k = "new_pages_before ps pre seq i + (p div ps - num_pages_of ps (pre ! i))"
    have "?k < total_new_pages ps pre seq"
      using new_page_index(1) [OF ps i(3), of pre] False new_pages_before_mono [of "Suc i" "length pre" ps pre seq] i(1)
      by (simp add: total_new_pages_def)
    then show ?thesis using enough False page
      by (auto simp: token_page_def load_page_def in_set_conv_nth)
  qed
qed

lemma set_minus_drop: "distinct xs \<Longrightarrow> set xs - set (drop n xs) = set (take n xs)"
  by (metis Diff_cancel Un_Diff Un_empty_right append_take_drop_id distinct_take_disjoint
      Diff_triv set_append)

lemma total_new_pages_decode:
  assumes "0 < ps" and "\<And>i. i < length seq \<Longrightarrow> 0 < seq ! i"
  shows "total_new_pages ps (map (\<lambda>l. l - 1) seq) seq \<le> length seq"
proof -
  have "num_pages_of ps (seq ! i) - num_pages_of ps (seq ! i - 1) \<le> 1" if "i < length seq" for i
  proof -
    have "seq ! i + ps - 1 \<le> (seq ! i - 1 + ps - 1) + ps" using assms(1) by linarith
    then have "(seq ! i + ps - 1) div ps \<le> ((seq ! i - 1 + ps - 1) + ps) div ps" by (rule div_le_mono)
    also have "\<dots> = Suc ((seq ! i - 1 + ps - 1) div ps)" using assms(1) by (simp only: div_add_self2 Suc_eq_plus1)
    finally show ?thesis by (simp add: num_pages_of_def)
  qed
  then have "(\<Sum>i<length seq. num_pages_of ps (seq ! i) - num_pages_of ps (seq ! i - 1)) \<le> (\<Sum>i<length seq. 1)"
    by (intro sum_mono) simp
  then show ?thesis by (simp add: total_new_pages_def new_pages_before_def)
qed

lemma mod_succ_iff:
  "0 < s \<Longrightarrow> (l + 2) mod m = int s mod m \<longleftrightarrow> (l + 1) mod m = int (s - Suc 0) mod m" for m :: int
  by (auto simp: mod_eq_dvd_iff of_nat_diff algebra_simps)


section \<open>The paged allocator provides the interface\<close>

definition paged_slots :: "paged_alloc \<Rightarrow> nat multiset" where
  "paged_slots a = mset (concat (map (page_slots (pa_page_size a)) (pa_free_pages a)))"

definition paged_cover :: "paged_alloc \<Rightarrow> nat list \<Rightarrow> nat multiset" where
  "paged_cover a xs =
     mset (concat (map (page_slots (pa_page_size a)) (unique_pages (pa_page_size a) xs)))"

definition paged_ready :: "paged_alloc \<Rightarrow> bool" where
  "paged_ready a \<longleftrightarrow> pa_not_in_group a \<and> \<not> pa_debug_mode a \<and> 0 < pa_page_size a"

text \<open>The calls with the debug assertions off, when they cannot raise.\<close>

definition paged_alloc_call :: "paged_alloc \<Rightarrow> nat \<Rightarrow> nat list option \<times> paged_alloc" where
  "paged_alloc_call a n = (case paged_alloc_slots a n of Inl _ \<Rightarrow> (None, a) | Inr r \<Rightarrow> r)"

definition paged_free_call :: "paged_alloc \<Rightarrow> nat list \<Rightarrow> paged_alloc" where
  "paged_free_call a xs = (case paged_free a xs of Inl _ \<Rightarrow> a | Inr r \<Rightarrow> r)"

lemma length_concat_page_slots: "length (concat (map (page_slots ps) pgs)) = length pgs * ps"
  by (induction pgs) (auto simp: page_slots_def)

lemma in_page_slots: "0 < ps \<Longrightarrow> x \<in> set (page_slots ps (x div ps))"
  unfolding page_slots_def by (rule image_eqI [of _ _ "x mod ps", THEN set_map [THEN equalityD2, THEN subsetD]]) auto

lemma paged_no_raise:
  "paged_ready a \<Longrightarrow> paged_alloc_slots a n = Inr (paged_alloc_call a n)"
  "paged_ready a \<Longrightarrow> paged_free a xs = Inr (paged_free_call a xs)"
  by (auto simp: paged_ready_def paged_alloc_slots_def paged_alloc_call_def paged_free_def
      paged_free_call_def Let_def)

lemma mset_concat_map_take_drop:
  "mset (concat (map f (take n xs))) + mset (concat (map f (drop n xs))) = mset (concat (map f xs))"
  by (metis append_take_drop_id concat_append map_append mset_append)

interpretation paged: kv_allocator paged_available_size paged_alloc_call paged_free_call paged_slots
  paged_cover "\<lambda>a n. n mod pa_page_size a = 0" paged_ready
proof unfold_locales
  fix a n and xs :: "nat list"
  assume ready: "paged_ready a"
  let ?ps = "pa_page_size a"
  have ps: "0 < ?ps" using ready by (simp add: paged_ready_def)
  show "paged_available_size a = size (paged_slots a)"
    by (simp add: paged_available_size_def paged_slots_def length_concat_page_slots)
  show "paged_slots (paged_free_call a xs) = paged_slots a + paged_cover a xs"
    using ready by (auto simp: paged_ready_def paged_free_call_def paged_free_def paged_slots_def
        paged_cover_def unique_pages_def)
  show "paged_ready (paged_free_call a xs)"
    using ready by (auto simp: paged_ready_def paged_free_call_def paged_free_def)
  show "set xs \<subseteq> set_mset (paged_cover a xs)"
    using in_page_slots [OF ps] by (fastforce simp: paged_cover_def unique_pages_def)
  assume grant: "n mod ?ps = 0"
  then have n: "n = n div ?ps * ?ps" by auto
  then have iff: "n \<le> paged_available_size a \<longleftrightarrow> n div ?ps \<le> length (pa_free_pages a)"
    using ps unfolding paged_available_size_def by (metis mult_le_cancel2)
  show "\<exists>ys a'. paged_alloc_call a n = (Some ys, a') \<and> length ys = n \<and> paged_ready a' \<and>
      paged_slots a = mset ys + paged_slots a'" if "n \<le> paged_available_size a"
  proof -
    let ?out = "concat (map (page_slots ?ps) (take (n div ?ps) (pa_free_pages a)))"
    let ?a' = "a\<lparr>pa_free_pages := drop (n div ?ps) (pa_free_pages a)\<rparr>"
    have "paged_alloc_call a n = (Some ?out, ?a')"
      using that iff ready grant by (simp add: paged_alloc_call_def paged_alloc_slots_def paged_ready_def Let_def)
    moreover have "length ?out = n"
      using that iff n by (simp add: length_concat_page_slots)
    moreover have "paged_slots a = mset ?out + paged_slots ?a'"
      by (simp add: paged_slots_def mset_concat_map_take_drop del: mset_concat mset_map concat_append)
    ultimately show ?thesis using ready by (auto simp: paged_ready_def)
  qed
  show "paged_alloc_call a n = (None, a)" if "paged_available_size a < n"
    using that iff ready grant by (simp add: paged_alloc_call_def paged_alloc_slots_def paged_ready_def Let_def)
qed

text \<open>Fresh pool: the slots of the pages \<open>1 .. num_pages\<close>, each once.\<close>

lemma paged_init_ready: "0 < ps \<Longrightarrow> paged_ready (paged_init n ps False)"
  by (simp add: paged_ready_def paged_init_def paged_clear_def)

lemma count_mset_page_slots:
  assumes "distinct pgs" and "0 < ps"
  shows "distinct (concat (map (page_slots ps) pgs))"
proof (rule distinct_concat)
  have hd: "hd (page_slots ps pg) = pg * ps" for pg
    using assms(2) by (simp add: page_slots_def upt_rec)
  have inj: "inj_on (page_slots ps) (set pgs)"
    using hd assms(2) by (intro inj_onI) (metis mult_cancel2 neq0_conv)
  then show "distinct (map (page_slots ps) pgs)" using assms(1) by (simp add: distinct_map)
  show "distinct xs" if "xs \<in> set (map (page_slots ps) pgs)" for xs
    using that by (auto simp: page_slots_def distinct_map inj_on_def)
  show "set xs \<inter> set ys = {}"
    if xy: "xs \<in> set (map (page_slots ps) pgs)" "ys \<in> set (map (page_slots ps) pgs)" "xs \<noteq> ys" for xs ys
  proof (rule ccontr)
    assume "set xs \<inter> set ys \<noteq> {}"
    then obtain x where x: "x \<in> set xs" "x \<in> set ys" by blast
    have page: "z div ps = pg" if "z \<in> set (page_slots ps pg)" for z pg
      using that by (auto simp: page_slots_def ac_simps intro!: div_nat_eqI)
    obtain p q where "xs = page_slots ps p" "ys = page_slots ps q" using xy by auto
    then show False using x page [of x p] page [of x q] xy(3) by simp
  qed
qed

section \<open>Properties\<close>

text \<open>
  C14. \<open>alloc_extend\<close> computes the page layout that the allocator promises: request \<open>i\<close> gets,
  for its token positions \<open>prefix_lens[i] .. seq_lens[i]-1\<close> in order, first the rest of its last
  page and then its own share of the free pages, requests one after the other; the free list loses
  exactly those pages.  When the free list is too short the call returns \<open>None\<close> and
  changes nothing.  The bounds are those of the packed int64 return value of the kernel.
\<close>

theorem paged_alloc_extend_layout:
  assumes "0 < pa_page_size a" and "\<not> pa_debug_mode a"
    and "pre \<noteq> []" and "extend_args_ok pre seq n" and "n \<le> length out"
    and "n < 2 ^ 32" and "total_new_pages (pa_page_size a) pre seq < 2 ^ 31"
  shows "paged_alloc_extend a pre seq last_loc n out =
     (if total_new_pages (pa_page_size a) pre seq \<le> length (pa_free_pages a)
      then Inr (Some (extend_layout (pa_page_size a) pre seq last_loc (pa_free_pages a)),
                a\<lparr>pa_free_pages := drop (total_new_pages (pa_page_size a) pre seq) (pa_free_pages a)\<rparr>)
      else Inr (None, a))"
  using assms by (rule alloc_extend_eq)

lemma paged_init_16_4:
  "paged_init 16 4 False = \<lparr>pa_size = 16, pa_page_size = 4, pa_num_pages = 4, pa_free_pages = [1, 2, 3, 4],
     pa_not_in_group = True, pa_group = [], pa_debug_mode = False\<rparr>"
  by code_simp

lemma extend_args_ok_example: "extend_args_ok [2, 0] [5, 4] 7"
  by (simp add: extend_args_ok_def less_Suc_eq lessThan_Suc)

lemma extend_layout_example:
  "total_new_pages 4 [2, 0] [5, 4] = 2"
  "extend_layout 4 [2, 0] [5, 4] [101, -1] [1, 2, 3, 4] = [102, 103, 4, 8, 9, 10, 11]"
  by code_simp+

theorem paged_alloc_extend_layout_witness:
  "paged_alloc_extend (paged_init 16 4 False) [2, 0] [5, 4] [101, -1] 7 (replicate 7 0) =
     Inr (Some [102, 103, 4, 8, 9, 10, 11], (paged_init 16 4 False)\<lparr>pa_free_pages := [3, 4]\<rparr>)"
  using paged_alloc_extend_layout [of "paged_init 16 4 False" "[2, 0]" "[5, 4]" 7 "replicate 7 0" "[101, -1]"]
  by (simp add: paged_init_16_4 extend_args_ok_example extend_layout_example del: One_nat_def)

text \<open>
  What \<open>alloc_extend\<close> hands out: one location per extended token, no location twice, and
  every location lies either in the last, partly filled page of a request or in a page taken from
  the free list.  \<open>last_loc_ok\<close> is the assertion of the debug mode; \<open>pages_ok\<close> says that the
  partly filled pages and the free pages are pairwise different.
\<close>

theorem paged_alloc_extend_no_overlap:
  assumes "0 < pa_page_size a" and "\<not> pa_debug_mode a"
    and "pre \<noteq> []" and "extend_args_ok pre seq n" and "n \<le> length out"
    and "n < 2 ^ 32" and "total_new_pages (pa_page_size a) pre seq < 2 ^ 31"
    and "last_loc_ok (pa_page_size a) pre last_loc"
    and "pages_ok (pa_page_size a) pre last_loc (pa_free_pages a)"
    and "paged_alloc_extend a pre seq last_loc n out = Inr (Some xs, a')"
  shows "length xs = n \<and> distinct xs \<and>
     (\<forall>x\<in>set xs. (\<exists>i<length pre. pre ! i mod pa_page_size a \<noteq> 0 \<and>
                      x div pa_page_size a = nat (last_loc ! i) div pa_page_size a) \<or>
        x div pa_page_size a \<in> set (pa_free_pages a) - set (pa_free_pages a'))"
proof -
  have enough: "total_new_pages (pa_page_size a) pre seq \<le> length (pa_free_pages a)"
    and xs: "xs = extend_layout (pa_page_size a) pre seq last_loc (pa_free_pages a)"
    and a': "pa_free_pages a' = drop (total_new_pages (pa_page_size a) pre seq) (pa_free_pages a)"
    using alloc_extend_eq [OF assms(1-7), of last_loc] assms(10) by (auto split: if_splits)
  have "distinct (pa_free_pages a)" using assms(9) by (simp add: pages_ok_def)
  then have taken: "set (pa_free_pages a) - set (pa_free_pages a')
      = set (take (total_new_pages (pa_page_size a) pre seq) (pa_free_pages a))"
    unfolding a' by (rule set_minus_drop)
  show ?thesis
    using extend_layout_distinct [OF assms(1,4,8,9) enough] length_extend_layout [OF assms(4)]
      extend_layout_pages [OF assms(1,4,8) enough]
    unfolding xs taken by blast
qed

theorem paged_alloc_extend_no_overlap_witness:
  "distinct [102, 103, 4, 8, 9, 10, 11::nat] \<and> length [102, 103, 4, 8, 9, 10, 11::nat] = 7"
proof -
  have "last_loc_ok 4 [2, 0] [101, -1]" by (simp add: last_loc_ok_def less_Suc_eq)
  moreover have "pages_ok 4 [2, 0] [101, -1] [1, 2, 3, 4]" by (simp add: pages_ok_def upt_rec)
  moreover have "paged_alloc_extend (paged_init 16 4 False) [2, 0] [5, 4] [101, -1] 7 (replicate 7 0) =
     Inr (Some [102, 103, 4, 8, 9, 10, 11], (paged_init 16 4 False)\<lparr>pa_free_pages := [3, 4]\<rparr>)"
    by (subst alloc_extend_eq) (simp_all add: paged_init_16_4 extend_args_ok_example extend_layout_example del: One_nat_def)
  ultimately show ?thesis
    using paged_alloc_extend_no_overlap [of "paged_init 16 4 False" "[2, 0]" "[5, 4]" 7 "replicate 7 0"
        "[101, -1]" "[102, 103, 4, 8, 9, 10, 11]" "(paged_init 16 4 False)\<lparr>pa_free_pages := [3, 4]\<rparr>"]
    by (simp add: paged_init_16_4 extend_args_ok_example extend_layout_example del: One_nat_def)
qed

text \<open>
  \<open>alloc_decode\<close> is \<open>alloc_extend\<close> by one token per request, although it runs a kernel of its
  own: same locations, same free list, same failures and same assertions in the debug mode.
\<close>

theorem paged_alloc_decode_eq_extend:
  assumes "0 < pa_page_size a" and "seq \<noteq> []" and "\<forall>s\<in>set seq. 0 < s"
    and "length seq \<le> length out" and "length seq < 2 ^ 31"
  shows "paged_alloc_decode a seq last_loc out
       = paged_alloc_extend a (map (\<lambda>l. l - 1) seq) seq last_loc (length seq) out"
proof -
  let ?ps = "pa_page_size a" and ?pre = "map (\<lambda>l. l - 1) seq" and ?n = "length seq"
  let ?e = "alloc_extend_kernel ?ps (next_power_of_2 ?n) ?pre seq last_loc (pa_free_pages a) (take ?n out)"
  let ?d = "alloc_decode_kernel ?ps seq last_loc (pa_free_pages a) (take ?n out)"
  have pos: "0 < seq ! i" if "i < length seq" for i using assms(3) that by simp
  have "(\<Sum>i<length seq. seq ! i - (seq ! i - 1)) = (\<Sum>i<length seq. 1)"
    using pos by (intro sum.cong) (auto simp: Suc_leI)
  then have ok: "extend_args_ok ?pre seq ?n" by (simp add: extend_args_ok_def)
  have pages: "total_new_pages ?ps ?pre seq \<le> ?n"
    using assms(1) pos by (rule total_new_pages_decode)
  have "fst ?d = fst ?e"
    using alloc_decode_kernel_eq [OF assms(1) pos] alloc_extend_kernel_out [OF assms(1) ok] assms(4) by simp
  moreover have "snd ?d = nat (drop_bit 32 (sint (snd ?e)))"
  proof -
    have "snd ?d = total_new_pages ?ps ?pre seq"
      using assms(2) unfolding alloc_decode_kernel_def Let_def snd_conv sum_num_new_pages_def
        total_new_pages_def new_pages_before_def length_map
      by (intro sum_upt_Suc_pred) simp
    then show ?thesis
      using alloc_extend_kernel_ret [OF _ ok] assms(2,5) pages by simp
  qed
  ultimately have k: "?d = (fst ?e, nat (drop_bit 32 (sint (snd ?e))))" by (metis prod.collapse)
  have "list_all2 (\<lambda>l s. (l + 2) mod int ?ps = int s mod int ?ps) last_loc seq
      \<longleftrightarrow> list_all2 (\<lambda>l p. (l + 1) mod int ?ps = int p mod int ?ps) last_loc ?pre"
    using pos by (auto simp: list_all2_conv_all_nth mod_succ_iff)
  then show ?thesis
    unfolding paged_alloc_decode_def paged_alloc_extend_def Let_def k
    by (simp add: case_prod_beta)
qed

theorem paged_alloc_decode_eq_extend_witness:
  "paged_alloc_decode (paged_init 16 4 False) [6, 9] [100, 203] [0, 0]
     = paged_alloc_extend (paged_init 16 4 False) [5, 8] [6, 9] [100, 203] 2 [0, 0]"
  using paged_alloc_decode_eq_extend [of "paged_init 16 4 False" "[6, 9]" "[0, 0]" "[100, 203]"]
  by (simp add: paged_init_16_4 flip: numeral_2_eq_2)

text \<open>
  The bound the batch code checks before it calls \<open>alloc_extend\<close> (\<open>extend_num_tokens + bs *
  page_size\<close> available slots) is enough: the call cannot fail.
\<close>

theorem paged_alloc_extend_within_budget:
  assumes "0 < pa_page_size a" and "\<not> pa_debug_mode a"
    and "pre \<noteq> []" and "extend_args_ok pre seq n" and "n \<le> length out"
    and "n < 2 ^ 32" and "total_new_pages (pa_page_size a) pre seq < 2 ^ 31"
    and "n + length pre * pa_page_size a \<le> paged_available_size a"
  shows "\<exists>xs a'. paged_alloc_extend a pre seq last_loc n out = Inr (Some xs, a') \<and>
     paged_available_size a \<le> paged_available_size a' + n + length pre * pa_page_size a"
proof -
  let ?t = "total_new_pages (pa_page_size a) pre seq"
  have b: "?t * pa_page_size a \<le> n + length pre * pa_page_size a"
    by (rule total_new_pages_bound [OF assms(1,4)])
  also have "\<dots> \<le> length (pa_free_pages a) * pa_page_size a"
    using assms(8) by (simp only: paged_available_size_def)
  finally have "?t \<le> length (pa_free_pages a)" using assms(1) by (simp only: mult_le_cancel2)
  then show ?thesis
    using alloc_extend_eq [OF assms(1-7), of last_loc] b
    by (simp add: paged_available_size_def diff_mult_distrib)
qed

theorem paged_alloc_extend_within_budget_witness:
  "\<exists>xs a'. paged_alloc_extend (paged_init 16 4 False) [2, 0] [5, 4] [101, -1] 7 (replicate 7 0) = Inr (Some xs, a')"
  using paged_alloc_extend_within_budget [of "paged_init 16 4 False" "[2, 0]" "[5, 4]" 7 "replicate 7 0" "[101, -1]"]
  by (auto simp: paged_init_16_4 extend_args_ok_example extend_layout_example paged_available_size_def)

text \<open>
  The same for the page allocator: with whole pages allocated and freed, held and free slots
  are together exactly the slots of the pages \<open>1..size div page_size\<close>, and an allocation returns
  \<open>k\<close> different slots that nobody holds.
\<close>

theorem paged_allocator_conserves:
  assumes "0 < ps"
    and "kv_reach paged_alloc_call paged_free_call paged_cover (\<lambda>a n. n mod pa_page_size a = 0)
           (paged_init n ps False) a held"
    and "k mod pa_page_size a = 0" and "paged_alloc_slots a k = Inr (Some xs, a')"
  shows "held + paged_slots a = paged_slots (paged_init n ps False) \<and>
     length xs = k \<and> distinct xs \<and> set xs \<inter> set_mset held = {} \<and>
     held + mset xs + paged_slots a' = paged_slots (paged_init n ps False)"
proof -
  let ?a0 = "paged_init n ps False"
  have a0: "paged_ready ?a0" using assms(1) by (rule paged_init_ready)
  have ready: "paged_ready a" and U: "held + paged_slots a = paged_slots ?a0"
    using paged.reach_conserves [OF assms(2) a0] by auto
  have al: "paged_alloc_call a k = (Some xs, a')"
    using assms(4) by (simp add: paged_alloc_call_def)
  have "distinct (concat (map (page_slots ps) [1..<n div ps + 1]))"
    using assms(1) by (intro count_mset_page_slots) auto
  then have one: "count (paged_slots ?a0) x \<le> 1" for x
    by (simp add: paged_slots_def paged_init_def paged_clear_def distinct_count_atmost_1 del: mset_concat)
  show ?thesis
    using paged.reach_alloc_fresh [OF assms(2) a0 one assms(3) al] U
      paged.alloc_conserves [OF ready assms(3) al U] by simp
qed

theorem paged_allocator_conserves_witness:
  "distinct [4, 5, 6, 7::nat]"
proof -
  have al: "paged_alloc_slots (paged_init 16 4 False) 4 =
      Inr (Some [4, 5, 6, 7], (paged_init 16 4 False)\<lparr>pa_free_pages := [2, 3, 4]\<rparr>)"
    by code_simp
  show ?thesis
    using paged_allocator_conserves [OF _ kv_init _ al] by (simp add: paged_init_16_4)
qed

end
