(* ===== verification/HeapQ.thy ===== *)
theory HeapQ
  imports Prelude
begin

text \<open>
  Python's \<open>heapq\<close> on a list, for an arbitrary \<open>__lt__\<close>: the two sift loops with the moving
  item swapped instead of carried, \<open>heappush\<close>, \<open>heappop\<close> and \<open>heapify\<close>.  The radix cache
  evicts through it and the partitioner pops its states from it.  What they need is the
  interface \<open>heap_queue\<close>.
\<close>

section \<open>The sift loops\<close>

definition swap_at :: "'a list \<Rightarrow> nat \<Rightarrow> nat \<Rightarrow> 'a list" where
  "swap_at h i j = h[i := h ! j, j := h ! i]"

function siftdown :: "('a \<Rightarrow> 'a \<Rightarrow> bool) \<Rightarrow> 'a list \<Rightarrow> nat \<Rightarrow> nat \<Rightarrow> 'a list" where
  "siftdown lt h startpos pos =
     (if startpos < pos \<and> lt (h ! pos) (h ! ((pos - 1) div 2))
      then siftdown lt (swap_at h pos ((pos - 1) div 2)) startpos ((pos - 1) div 2)
      else h)"
  by pat_completeness auto
termination
  by (relation "measure (\<lambda>(lt, h, startpos, pos). pos)") auto

declare siftdown.simps [simp del]

function sink :: "('a \<Rightarrow> 'a \<Rightarrow> bool) \<Rightarrow> 'a list \<Rightarrow> nat \<Rightarrow> 'a list \<times> nat" where
  "sink lt h pos =
     (if 2 * pos + 1 < length h
      then let c = (if 2 * pos + 2 < length h \<and> \<not> lt (h ! (2 * pos + 1)) (h ! (2 * pos + 2))
                    then 2 * pos + 2 else 2 * pos + 1)
           in sink lt (swap_at h pos c) c
      else (h, pos))"
  by pat_completeness auto
termination
  by (relation "measure (\<lambda>(lt, h, pos). length h - pos)") (auto simp: swap_at_def)

declare sink.simps [simp del]

definition siftup :: "('a \<Rightarrow> 'a \<Rightarrow> bool) \<Rightarrow> 'a list \<Rightarrow> nat \<Rightarrow> 'a list" where
  "siftup lt h pos = (let (h', p) = sink lt h pos in siftdown lt h' pos p)"

definition heappush :: "('a \<Rightarrow> 'a \<Rightarrow> bool) \<Rightarrow> 'a list \<Rightarrow> 'a \<Rightarrow> 'a list" where
  "heappush lt h x = siftdown lt (h @ [x]) 0 (length h)"

text \<open>\<open>heappop\<close> of a non-empty heap: the popped item and the rest.\<close>

definition heappop :: "('a \<Rightarrow> 'a \<Rightarrow> bool) \<Rightarrow> 'a list \<Rightarrow> 'a \<times> 'a list" where
  "heappop lt h =
     (let lastelt = last h; h' = butlast h
      in if h' = [] then (lastelt, []) else (hd h', siftup lt (h'[0 := lastelt]) 0))"

definition heapify :: "('a \<Rightarrow> 'a \<Rightarrow> bool) \<Rightarrow> 'a list \<Rightarrow> 'a list" where
  "heapify lt h = foldl (siftup lt) h (rev [0..<length h div 2])"

section \<open>The items are kept\<close>

lemma length_swap_at [simp]: "length (swap_at h i j) = length h"
  by (simp add: swap_at_def)

lemma mset_swap_at: "i < length h \<Longrightarrow> j < length h \<Longrightarrow> mset (swap_at h i j) = mset h"
  by (simp add: swap_at_def mset_swap)

lemma nth_swap_at:
  "i < length h \<Longrightarrow> j < length h \<Longrightarrow>
     swap_at h i j ! k = (if k = j then h ! i else if k = i then h ! j else h ! k)"
  by (simp add: swap_at_def nth_list_update)

lemma mset_siftdown: "pos < length h \<Longrightarrow> mset (siftdown lt h s pos) = mset h"
proof (induction lt h s pos rule: siftdown.induct)
  case (1 lt h s pos)
  show ?case
  proof (cases "s < pos \<and> lt (h ! pos) (h ! ((pos - 1) div 2))")
    case True
    then have "(pos - 1) div 2 < length h" using "1.prems" by auto
    with True 1 show ?thesis by (subst siftdown.simps) (simp add: mset_swap_at)
  next
    case False
    then show ?thesis by (subst siftdown.simps) auto
  qed
qed

lemma length_siftdown: "pos < length h \<Longrightarrow> length (siftdown lt h s pos) = length h"
  by (metis mset_siftdown size_mset)

lemma mset_sink:
  "pos < length h \<Longrightarrow> mset (fst (sink lt h pos)) = mset h \<and> snd (sink lt h pos) < length h"
proof (induction lt h pos rule: sink.induct)
  case (1 lt h pos)
  show ?case
  proof (cases "2 * pos + 1 < length h")
    case True
    let ?c = "if 2 * pos + 2 < length h \<and> \<not> lt (h ! (2 * pos + 1)) (h ! (2 * pos + 2))
              then 2 * pos + 2 else 2 * pos + 1"
    have "?c < length h" using True by simp
    with True 1 show ?thesis by (subst (1 2) sink.simps) (auto simp: Let_def mset_swap_at)
  next
    case False
    with "1.prems" show ?thesis by (subst (1 2) sink.simps) auto
  qed
qed

lemma mset_siftup: "pos < length h \<Longrightarrow> mset (siftup lt h pos) = mset h"
  using mset_sink [of pos h lt] mset_siftdown [of "snd (sink lt h pos)" "fst (sink lt h pos)" lt pos]
  by (auto simp: siftup_def Let_def split: prod.split dest: mset_eq_length)

lemma mset_heappush: "mset (heappush lt h x) = add_mset x (mset h)"
  by (simp add: heappush_def mset_siftdown)

lemma mset_heappop:
  assumes "h \<noteq> []"
  shows "mset h = add_mset (fst (heappop lt h)) (mset (snd (heappop lt h)))"
proof (cases "butlast h")
  case Nil
  then have "mset h = {#last h#}"
    using assms by (metis append_butlast_last_id append_Nil mset_single_iff_right)
  then show ?thesis using Nil by (simp add: heappop_def)
next
  case (Cons y ys)
  then have h: "h = y # ys @ [last h]" using assms by (metis append_Cons append_butlast_last_id)
  have "heappop lt h = (y, siftup lt (last h # ys) 0)"
    by (simp add: heappop_def Cons)
  moreover have "mset (siftup lt (last h # ys) 0) = mset (last h # ys)" by (rule mset_siftup) simp
  moreover have "mset h = add_mset y (mset (last h # ys))" by (subst h) simp
  ultimately show ?thesis by simp
qed

lemma mset_foldl_siftup:
  "\<forall>i \<in> set is. i < length h \<Longrightarrow> mset (foldl (siftup lt) h is) = mset h"
proof (induction "is" arbitrary: h)
  case Nil
  then show ?case by simp
next
  case (Cons i "is")
  then have "mset (siftup lt h i) = mset h" by (simp add: mset_siftup)
  moreover from this have "length (siftup lt h i) = length h" by (metis size_mset)
  ultimately show ?case using Cons by simp
qed

lemma mset_heapify: "mset (heapify lt h) = mset h"
  unfolding heapify_def by (rule mset_foldl_siftup) auto


section \<open>The heap order\<close>

text \<open>
  \<open>heap_from lt k h i0\<close>: every edge from a child \<open>i \<noteq> i0\<close> to a parent at position \<open>k\<close> or later is
  in order; \<open>below k i\<close>: position \<open>i\<close> lies in the subtree of position \<open>k\<close>.
\<close>

definition par :: "nat \<Rightarrow> nat" where
  "par i = (i - 1) div 2"

definition edges_ok :: "('a \<Rightarrow> 'a \<Rightarrow> bool) \<Rightarrow> nat \<Rightarrow> 'a list \<Rightarrow> (nat \<Rightarrow> bool) \<Rightarrow> bool" where
  "edges_ok lt k h skip \<longleftrightarrow>
     (\<forall>i. 0 < i \<and> i < length h \<and> k \<le> par i \<and> \<not> skip i \<longrightarrow> \<not> lt (h ! i) (h ! par i))"

definition is_heap :: "('a \<Rightarrow> 'a \<Rightarrow> bool) \<Rightarrow> 'a list \<Rightarrow> bool" where
  "is_heap lt h \<longleftrightarrow> edges_ok lt 0 h (\<lambda>_. False)"

text \<open>The order of \<open>__lt__\<close> that \<open>heapq\<close> relies on: a strict weak order.\<close>

definition weak_order :: "('a \<Rightarrow> 'a \<Rightarrow> bool) \<Rightarrow> bool" where
  "weak_order lt \<longleftrightarrow> (\<forall>x. \<not> lt x x) \<and> (\<forall>x y z. lt x y \<longrightarrow> lt y z \<longrightarrow> lt x z) \<and>
     (\<forall>x y z. \<not> lt x y \<longrightarrow> \<not> lt y z \<longrightarrow> \<not> lt x z)"

lemma weak_orderD:
  assumes "weak_order lt"
  shows "\<not> lt x x" and "lt x y \<Longrightarrow> \<not> lt y x" and "\<not> lt x y \<Longrightarrow> \<not> lt y z \<Longrightarrow> \<not> lt x z"
    and "lt x y \<Longrightarrow> lt y z \<Longrightarrow> lt x z"
  using assms unfolding weak_order_def by blast+

lemma weak_order_key: "weak_order (\<lambda>x y. (f x :: 'b :: linorder) < f y)"
  by (auto simp: weak_order_def)

lemma par_less: "0 < i \<Longrightarrow> par i < i"
  by (auto simp: par_def)

lemma par_children: "0 < i \<Longrightarrow> par i = j \<longleftrightarrow> i = 2 * j + 1 \<or> i = 2 * j + 2"
  by (auto simp: par_def)

text \<open>
  \<open>siftdown\<close> repairs a heap whose only bad edge is the one above \<open>pos\<close>, when the children of
  \<open>pos\<close> are not below the parent of \<open>pos\<close> either.
\<close>

definition hole_up :: "('a \<Rightarrow> 'a \<Rightarrow> bool) \<Rightarrow> nat \<Rightarrow> 'a list \<Rightarrow> nat \<Rightarrow> bool" where
  "hole_up lt k h pos \<longleftrightarrow> edges_ok lt k h (\<lambda>i. i = pos) \<and>
     (0 < pos \<and> k \<le> par pos \<longrightarrow>
        (\<forall>i. 0 < i \<and> i < length h \<and> par i = pos \<longrightarrow> \<not> lt (h ! i) (h ! par pos)))"

function below :: "nat \<Rightarrow> nat \<Rightarrow> bool" where
  "below k i = (if k < i then below k ((i - 1) div 2) else i = k)"
  by pat_completeness auto
termination
  by (relation "measure snd") auto

declare below.simps [simp del]

lemma below_refl [simp]: "below k k"
  by (simp add: below.simps)

lemma below_par: "below k i \<Longrightarrow> i \<noteq> k \<Longrightarrow> below k (par i) \<and> k < i"
  by (simp add: par_def below.simps [of k i] split: if_splits)

lemma below_ge: "below k i \<Longrightarrow> k \<le> i"
  by (simp add: below.simps [of k i] split: if_splits)

lemma below_child: "below k i \<Longrightarrow> 0 < c \<Longrightarrow> par c = i \<Longrightarrow> below k c"
  using below_ge [of k i] par_less [of c] by (simp add: below.simps [of k c] par_def)

lemma hole_up_swap:
  assumes wo: "weak_order lt" and len: "pos < length h" and hole: "hole_up lt k h pos"
    and lt: "lt (h ! pos) (h ! par pos)" and pos: "0 < pos" and kq: "k \<le> par pos"
  shows "hole_up lt k (swap_at h pos (par pos)) (par pos)"
proof -
  let ?q = "par pos" and ?h = "swap_at h pos (par pos)"
  have q: "?q < pos" using pos by (rule par_less)
  have nth: "?h ! i = (if i = ?q then h ! pos else if i = pos then h ! ?q else h ! i)" for i
    using len q by (intro nth_swap_at) auto
  have edge: "\<not> lt (h ! i) (h ! par i)" if "0 < i" "i < length h" "k \<le> par i" "i \<noteq> pos" for i
    using hole that by (auto simp: hole_up_def edges_ok_def)
  have child: "\<not> lt (h ! i) (h ! ?q)" if "0 < i" "i < length h" "par i = pos" for i
    using hole that pos kq by (auto simp: hole_up_def)
  note w = weak_orderD [OF wo]
  have "\<not> lt (?h ! i) (?h ! par i)" if i: "0 < i" "i < length h" "k \<le> par i" "i \<noteq> ?q" for i
  proof -
    consider "i = pos" | "i \<noteq> pos" "par i = ?q" | "i \<noteq> pos" "par i = pos" | "i \<noteq> pos" "par i \<noteq> ?q" "par i \<noteq> pos"
      by blast
    then show ?thesis
    proof cases
      case 1
      then show ?thesis using w(2) [OF lt] q by (simp add: nth)
    next
      case 2
      then show ?thesis using edge [OF i(1-3)] w(2) [OF lt] w(3) i(4) q by (auto simp: nth)
    next
      case 3
      then show ?thesis using child [OF i(1,2)] i(4) q by (simp add: nth)
    next
      case 4
      then show ?thesis using edge [OF i(1-3)] i(4) by (simp add: nth)
    qed
  qed
  moreover have "\<not> lt (?h ! i) (?h ! par ?q)"
    if i: "0 < i" "i < length h" "par i = ?q" and qq: "0 < ?q" "k \<le> par ?q" for i
  proof -
    have pq: "par ?q < ?q" using qq(1) by (rule par_less)
    have e: "\<not> lt (h ! ?q) (h ! par ?q)" using edge [of ?q] qq q len by simp
    have "i \<noteq> ?q" using i(3) par_less [OF i(1)] by simp
    show ?thesis
    proof (cases "i = pos")
      case True
      then show ?thesis using e pq q by (simp add: nth)
    next
      case False
      then have "\<not> lt (h ! i) (h ! ?q)" using edge [of i] i kq by simp
      then show ?thesis using e w(3) pq q False \<open>i \<noteq> ?q\<close> by (auto simp: nth)
    qed
  qed
  ultimately show ?thesis by (simp add: hole_up_def edges_ok_def)
qed

lemma edges_siftdown:
  "weak_order lt \<Longrightarrow> below k pos \<Longrightarrow> pos < length h \<Longrightarrow> hole_up lt k h pos \<Longrightarrow>
     edges_ok lt k (siftdown lt h k pos) (\<lambda>_. False)"
proof (induction lt h k pos rule: siftdown.induct)
  case (1 lt h k pos)
  note prems = "1.prems"
  show ?case
  proof (cases "k < pos \<and> lt (h ! pos) (h ! par pos)")
    case False
    have "\<not> lt (h ! i) (h ! par i)" if "0 < i" "i < length h" "k \<le> par i" for i
      using False that prems(4) par_less [of i] by (cases "i = pos") (auto simp: hole_up_def edges_ok_def)
    then show ?thesis using False by (subst siftdown.simps) (auto simp: edges_ok_def par_def)
  next
    case True
    have b: "below k (par pos)" using below_par [OF prems(2)] True by simp
    have "hole_up lt k (swap_at h pos (par pos)) (par pos)"
      using True below_ge [OF b] by (intro hole_up_swap prems) auto
    moreover have "par pos < length h" using prems(3) par_less [of pos] True by simp
    ultimately show ?thesis
      using "1.IH" prems(1) b True by (subst siftdown.simps) (simp add: par_def)
  qed
qed

text \<open>\<open>sink\<close> moves the hole down to a leaf.\<close>

definition hole_down :: "('a \<Rightarrow> 'a \<Rightarrow> bool) \<Rightarrow> nat \<Rightarrow> 'a list \<Rightarrow> nat \<Rightarrow> bool" where
  "hole_down lt k h pos \<longleftrightarrow> edges_ok lt k h (\<lambda>i. i = pos \<or> par i = pos) \<and>
     (0 < pos \<and> k \<le> par pos \<longrightarrow>
        (\<forall>i. 0 < i \<and> i < length h \<and> par i = pos \<longrightarrow> \<not> lt (h ! i) (h ! par pos)))"

lemma hole_down_swap:
  assumes wo: "weak_order lt" and hole: "hole_down lt k h pos" and kp: "k \<le> pos"
    and c: "0 < c" "c < length h" "par c = pos"
    and smallest: "\<And>i. 0 < i \<Longrightarrow> i < length h \<Longrightarrow> par i = pos \<Longrightarrow> \<not> lt (h ! i) (h ! c)"
  shows "hole_down lt k (swap_at h pos c) c"
proof -
  let ?h = "swap_at h pos c"
  have pc: "pos < c" using c par_less by auto
  have nth: "?h ! i = (if i = c then h ! pos else if i = pos then h ! c else h ! i)" for i
    using c pc by (intro nth_swap_at) auto
  have edge: "\<not> lt (h ! i) (h ! par i)"
    if "0 < i" "i < length h" "k \<le> par i" "i \<noteq> pos" "par i \<noteq> pos" for i
    using hole that by (auto simp: hole_down_def edges_ok_def)
  have "\<not> lt (?h ! i) (?h ! par i)"
    if i: "0 < i" "i < length h" "k \<le> par i" "i \<noteq> c" "par i \<noteq> c" for i
  proof -
    have "par i < i" using i(1) by (rule par_less)
    consider "i = pos" | "par i = pos" | "i \<noteq> pos" "par i \<noteq> pos" by blast
    then show ?thesis
    proof cases
      case 1
      then have "\<not> lt (h ! c) (h ! par pos)" using hole i c by (auto simp: hole_down_def)
      then show ?thesis using 1 \<open>par i < i\<close> i by (simp add: nth)
    next
      case 2
      then show ?thesis using smallest [OF i(1,2)] \<open>par i < i\<close> i by (simp add: nth)
    next
      case 3
      then show ?thesis using edge [OF i(1-3)] i by (simp add: nth)
    qed
  qed
  moreover have "\<not> lt (?h ! i) (?h ! par c)" if i: "0 < i" "i < length h" "par i = c" for i
    using edge [of i] i c pc kp par_less [of i] by (simp add: nth)
  ultimately show ?thesis using c by (simp add: hole_down_def edges_ok_def)
qed

lemma edges_sink:
  "weak_order lt \<Longrightarrow> below k pos \<Longrightarrow> pos < length h \<Longrightarrow> hole_down lt k h pos \<Longrightarrow>
     sink lt h pos = (h', p) \<Longrightarrow> below k p \<and> p < length h' \<and> hole_up lt k h' p"
proof (induction lt h pos arbitrary: h' p rule: sink.induct)
  case (1 lt h pos)
  note prems = "1.prems"
  show ?case
  proof (cases "2 * pos + 1 < length h")
    case False
    then have "h' = h" "p = pos" using prems(5) by (simp_all add: sink.simps [of lt h pos])
    moreover have "hole_up lt k h pos"
      using prems(4) False par_children [of _ pos] by (auto simp: hole_up_def hole_down_def edges_ok_def)
    ultimately show ?thesis using prems by simp
  next
    case True
    define c where "c = (if 2 * pos + 2 < length h \<and> \<not> lt (h ! (2 * pos + 1)) (h ! (2 * pos + 2))
                         then 2 * pos + 2 else 2 * pos + 1)"
    have c: "0 < c" "c < length h" "par c = pos" using True by (auto simp: c_def par_def)
    have "\<not> lt (h ! i) (h ! c)" if "0 < i" "i < length h" "par i = pos" for i
    proof -
      have "i = 2 * pos + 1 \<or> i = 2 * pos + 2" using that by (simp add: par_children)
      then show ?thesis
        using that(2) weak_orderD(1,2) [OF prems(1)] by (auto simp: c_def)
    qed
    then have hole: "hole_down lt k (swap_at h pos c) c"
      using below_ge [OF prems(2)] by (intro hole_down_swap prems c) auto
    have "sink lt (swap_at h pos c) c = (h', p)"
      using prems(5) True unfolding sink.simps [of lt h pos] Let_def c_def [symmetric] by simp
    moreover have "below k c" using prems(2) c(1,3) by (rule below_child)
    ultimately show ?thesis
      using "1.IH" [OF True c_def prems(1) _ _ hole] c(2) by simp
  qed
qed

lemma edges_siftup:
  assumes "weak_order lt" and "k < length h" and "edges_ok lt (Suc k) h (\<lambda>_. False)"
  shows "edges_ok lt k (siftup lt h k) (\<lambda>_. False)"
proof -
  obtain h' p where s: "sink lt h k = (h', p)" by fastforce
  have "hole_down lt k h k"
    using assms(3) par_less [of k] by (auto simp: hole_down_def edges_ok_def)
  from edges_sink [OF assms(1) below_refl assms(2) this s]
  show ?thesis using edges_siftdown [OF assms(1)] by (auto simp: siftup_def s)
qed

lemma is_heap_heappush:
  assumes "weak_order lt" and "is_heap lt h"
  shows "is_heap lt (heappush lt h x)"
proof -
  have "hole_up lt 0 (h @ [x]) (length h)"
    unfolding hole_up_def edges_ok_def
  proof (intro conjI allI impI)
    fix i assume "0 < i \<and> i < length (h @ [x]) \<and> 0 \<le> par i \<and> i \<noteq> length h"
    then have i: "0 < i" "i < length h" by auto
    moreover from this have "par i < length h" using par_less [of i] by linarith
    ultimately show "\<not> lt ((h @ [x]) ! i) ((h @ [x]) ! par i)"
      using assms(2) by (simp add: nth_append is_heap_def edges_ok_def)
  next
    fix i assume "0 < i \<and> i < length (h @ [x]) \<and> par i = length h"
    then have "par i < i" "i \<le> par i" using par_less [of i] by auto
    then show "\<not> lt ((h @ [x]) ! i) ((h @ [x]) ! par (length h))" by simp
  qed
  moreover have "below 0 n" for n
  proof (induction n rule: less_induct)
    case (less n)
    then show ?case by (simp add: below.simps [of 0 n])
  qed
  ultimately show ?thesis
    using edges_siftdown [OF assms(1)] by (simp add: heappush_def is_heap_def)
qed

lemma is_heap_root:
  assumes "weak_order lt" and "is_heap lt h" and "i < length h"
  shows "\<not> lt (h ! i) (h ! 0)"
  using assms(3)
proof (induction i rule: less_induct)
  case (less i)
  show ?case
  proof (cases "i = 0")
    case True
    then show ?thesis using weak_orderD(1) [OF assms(1)] by simp
  next
    case False
    then have "par i < i" by (simp add: par_less)
    then have "\<not> lt (h ! par i) (h ! 0)" using less by simp
    moreover have "\<not> lt (h ! i) (h ! par i)"
      using assms(2) less.prems False by (auto simp: is_heap_def edges_ok_def)
    ultimately show ?thesis using weak_orderD(3) [OF assms(1)] by blast
  qed
qed

lemma is_heap_heappop:
  assumes "weak_order lt" and "is_heap lt h" and "h \<noteq> []"
  shows "is_heap lt (snd (heappop lt h))"
proof (cases "butlast h")
  case Nil
  then show ?thesis by (simp add: heappop_def is_heap_def edges_ok_def)
next
  case (Cons y ys)
  have "edges_ok lt (Suc 0) (last h # ys) (\<lambda>_. False)"
    unfolding edges_ok_def
  proof (intro allI impI)
    fix i assume i: "0 < i \<and> i < length (last h # ys) \<and> Suc 0 \<le> par i \<and> \<not> False"
    have "length h = Suc (length (y # ys))"
      using Cons assms(3) by (metis length_butlast Suc_diff_1 length_greater_0_conv)
    moreover have "(last h # ys) ! j = h ! j" if "0 < j" "j < length (last h # ys)" for j
    proof -
      have "(last h # ys) ! j = butlast h ! j" using Cons that by (cases j) auto
      also have "\<dots> = h ! j" using Cons that by (intro nth_butlast) simp
      finally show ?thesis .
    qed
    ultimately show "\<not> lt ((last h # ys) ! i) ((last h # ys) ! par i)"
      using i assms(2) par_less [of i] by (auto simp: is_heap_def edges_ok_def)
  qed
  then have "edges_ok lt 0 (siftup lt (last h # ys) 0) (\<lambda>_. False)"
    by (intro edges_siftup assms) auto
  then show ?thesis using Cons by (simp add: heappop_def is_heap_def)
qed

lemma heappop_least:
  assumes "weak_order lt" and "is_heap lt h" and "x \<in> set h"
  shows "\<not> lt x (fst (heappop lt h))"
proof -
  have "h \<noteq> []" using assms(3) by auto
  have "fst (heappop lt h) = h ! 0"
  proof (cases "butlast h")
    case Nil
    then show ?thesis using \<open>h \<noteq> []\<close> by (cases h) (auto simp: heappop_def split: if_splits)
  next
    case (Cons y ys)
    then have "h ! 0 = y" using nth_butlast [of 0 h] by simp
    then show ?thesis by (simp add: heappop_def Cons)
  qed
  then show ?thesis using is_heap_root [OF assms(1,2)] assms(3) by (auto simp: in_set_conv_nth)
qed

lemma is_heap_heapify:
  assumes "weak_order lt"
  shows "is_heap lt (heapify lt h)"
proof -
  have "edges_ok lt 0 (foldl (siftup lt) h' (rev [0..<n])) (\<lambda>_. False)"
    if "n \<le> length h'" "edges_ok lt n h' (\<lambda>_. False)" for n h'
    using that
  proof (induction n arbitrary: h')
    case 0
    then show ?case by simp
  next
    case (Suc n)
    have "edges_ok lt n (siftup lt h' n) (\<lambda>_. False)"
      using Suc.prems by (intro edges_siftup assms) auto
    moreover have "length (siftup lt h' n) = length h'"
      using Suc.prems by (metis Suc_le_lessD mset_siftup size_mset)
    ultimately show ?case using Suc by simp
  qed
  moreover have "edges_ok lt (length h div 2) h (\<lambda>_. False)"
    by (auto simp: edges_ok_def par_def)
  ultimately show ?thesis by (simp add: heapify_def is_heap_def)
qed

section \<open>The interface\<close>

locale heap_queue =
  fixes less :: "'a \<Rightarrow> 'a \<Rightarrow> bool"
    and make :: "'a list \<Rightarrow> 'a list"
    and push :: "'a list \<Rightarrow> 'a \<Rightarrow> 'a list"
    and pop :: "'a list \<Rightarrow> 'a \<times> 'a list"
    and inv :: "'a list \<Rightarrow> bool"
  assumes inv_make: "inv (make xs)"
    and mset_make: "mset (make xs) = mset xs"
    and inv_push: "inv h \<Longrightarrow> inv (push h x)"
    and mset_push: "mset (push h x) = add_mset x (mset h)"
    and inv_pop: "inv h \<Longrightarrow> h \<noteq> [] \<Longrightarrow> inv (snd (pop h))"
    and mset_pop: "h \<noteq> [] \<Longrightarrow> mset h = add_mset (fst (pop h)) (mset (snd (pop h)))"
    and pop_least: "inv h \<Longrightarrow> x \<in> set h \<Longrightarrow> \<not> less x (fst (pop h))"
begin

lemma length_pop: "h \<noteq> [] \<Longrightarrow> length h = Suc (length (snd (pop h)))"
  by (drule mset_pop) (metis size_mset size_add_mset)

lemma set_pop: "h \<noteq> [] \<Longrightarrow> set h = insert (fst (pop h)) (set (snd (pop h)))"
  by (drule mset_pop) (metis set_mset_mset set_mset_add_mset_insert)

lemma set_push: "set (push h x) = insert x (set h)"
  by (metis mset_push set_mset_mset set_mset_add_mset_insert)

lemma length_push: "length (push h x) = Suc (length h)"
  by (metis mset_push size_mset size_add_mset)

lemma set_make: "set (make xs) = set xs"
  by (rule mset_eq_setD) (rule mset_make)

end

interpretation heapq_key: heap_queue "\<lambda>x y. (f x :: 'b :: linorder) < f y"
  "heapify (\<lambda>x y. f x < f y)" "heappush (\<lambda>x y. f x < f y)" "heappop (\<lambda>x y. f x < f y)"
  "is_heap (\<lambda>x y. f x < f y)" for f
  using heappop_least [OF weak_order_key, of f]
  by unfold_locales
    (simp_all add: is_heap_heapify mset_heapify is_heap_heappush mset_heappush is_heap_heappop
      mset_heappop weak_order_key)

end
