(* ===== verification/RadixCache.thy ===== *)
theory RadixCache
  imports KvPool HeapQ "HOL-Library.AList" "HOL-Library.Sublist"
begin

text \<open>
  The radix cache of \<open>srt/mem_cache/radix_cache.py\<close>: a tree of \<open>TreeNode\<close> objects that maps
  token prefixes to KV slots, shared by all requests, with reference counts on the nodes that
  running requests use and eviction of unused leaves.  Nodes are mutable objects with parent
  pointers, so the model keeps them in a store from object identities to records.  This theory
  holds the operations; \<open>RadixInv\<close> and \<open>RadixEvict\<close> hold the invariant and the theorems.
\<close>

section \<open>State\<close>

text \<open>
  \<open>children\<close> is a dict, kept as an association list in insertion order.  A child key is
  \<open>key[0]\<close> at page size 1 and \<open>tuple(key[:page_size])\<close> otherwise; the model uses the list
  \<open>take page_size key\<close> for both.  \<open>value\<close> is set on every node before the node is linked, so
  \<open>evicted\<close> is always false here; \<open>host_value\<close>, \<open>loading\<close> and \<open>hit_count\<close> are only used by the
  hierarchical cache and left out.
\<close>

record rnode =
  rn_children :: "(nat list \<times> nat) list"
  rn_parent :: "nat option"
  rn_key :: "nat list"
  rn_value :: "nat list"
  rn_lock :: int
  rn_time :: nat

text \<open>
  \<open>rx_counter\<close> is \<open>TreeNode.counter\<close>; \<open>rx_clock t\<close> is what the \<open>t\<close>-th call of \<open>time.time()\<close>
  returns.
\<close>

record radix =
  rx_nodes :: "nat \<Rightarrow> rnode"
  rx_counter :: nat
  rx_root :: nat
  rx_evictable :: int
  rx_protected :: int
  rx_page_size :: nat
  rx_disable :: bool
  rx_clock :: "nat \<Rightarrow> nat"
  rx_ticks :: nat

abbreviation rx_children :: "radix \<Rightarrow> nat \<Rightarrow> (nat list \<times> nat) list" where
  "rx_children s n \<equiv> rn_children (rx_nodes s n)"

abbreviation rx_parent :: "radix \<Rightarrow> nat \<Rightarrow> nat option" where
  "rx_parent s n \<equiv> rn_parent (rx_nodes s n)"

abbreviation rx_key :: "radix \<Rightarrow> nat \<Rightarrow> nat list" where
  "rx_key s n \<equiv> rn_key (rx_nodes s n)"

abbreviation rx_value :: "radix \<Rightarrow> nat \<Rightarrow> nat list" where
  "rx_value s n \<equiv> rn_value (rx_nodes s n)"

abbreviation rx_lock :: "radix \<Rightarrow> nat \<Rightarrow> int" where
  "rx_lock s n \<equiv> rn_lock (rx_nodes s n)"

definition upd_node :: "radix \<Rightarrow> nat \<Rightarrow> (rnode \<Rightarrow> rnode) \<Rightarrow> radix" where
  "upd_node s n f = s\<lparr>rx_nodes := (rx_nodes s)(n := f (rx_nodes s n))\<rparr>"

text \<open>\<open>TreeNode()\<close>\<close>

definition tree_node :: "radix \<Rightarrow> nat \<times> radix" where
  "tree_node s =
     (rx_counter s,
      s\<lparr>rx_nodes := (rx_nodes s)(rx_counter s :=
           \<lparr>rn_children = [], rn_parent = None, rn_key = [], rn_value = [], rn_lock = 0,
            rn_time = rx_clock s (rx_ticks s)\<rparr>),
        rx_counter := rx_counter s + 1, rx_ticks := rx_ticks s + 1\<rparr>)"

text \<open>\<open>node.last_access_time = time.time()\<close>\<close>

definition touch :: "radix \<Rightarrow> nat \<Rightarrow> radix" where
  "touch s n = (upd_node s n (\<lambda>r. r\<lparr>rn_time := rx_clock s (rx_ticks s)\<rparr>))\<lparr>rx_ticks := rx_ticks s + 1\<rparr>"

definition rx_reset :: "radix \<Rightarrow> radix" where
  "rx_reset s =
     (let (root, s1) = tree_node s
      in (upd_node s1 root (\<lambda>r. r\<lparr>rn_key := [], rn_value := [], rn_lock := 1\<rparr>))
           \<lparr>rx_root := root, rx_evictable := 0, rx_protected := 0\<rparr>)"

definition rx_init :: "nat \<Rightarrow> bool \<Rightarrow> (nat \<Rightarrow> nat) \<Rightarrow> radix" where
  "rx_init page_size disable clock =
     rx_reset \<lparr>rx_nodes = (\<lambda>_. \<lparr>rn_children = [], rn_parent = None, rn_key = [], rn_value = [], rn_lock = 0, rn_time = 0\<rparr>),
       rx_counter = 0, rx_root = 0, rx_evictable = 0, rx_protected = 0, rx_page_size = page_size,
       rx_disable = disable, rx_clock = clock, rx_ticks = 0\<rparr>"

section \<open>Key matching\<close>

fun key_match_page_size1 :: "nat list \<Rightarrow> nat list \<Rightarrow> nat" where
  "key_match_page_size1 (k0 # key0) (k1 # key1) =
     (if k0 \<noteq> k1 then 0 else Suc (key_match_page_size1 key0 key1))"
| "key_match_page_size1 _ _ = 0"

text \<open>
  The loop of \<open>_key_match_paged\<close> from index \<open>i\<close>.  The page size is positive; with page size 0 the
  Python loop would not end, and the model stops.
\<close>

function key_match_paged_from :: "nat list \<Rightarrow> nat list \<Rightarrow> nat \<Rightarrow> nat \<Rightarrow> nat" where
  "key_match_paged_from key0 key1 page_size i =
     (if i < min (length key0) (length key1) \<and> 0 < page_size
      then if slice i (i + page_size) key0 \<noteq> slice i (i + page_size) key1 then i
           else key_match_paged_from key0 key1 page_size (i + page_size)
      else i)"
  by pat_completeness auto
termination
  by (relation "measure (\<lambda>(key0, key1, page_size, i). length key0 - i)") auto

declare key_match_paged_from.simps [simp del]

definition key_match_paged :: "nat list \<Rightarrow> nat list \<Rightarrow> nat \<Rightarrow> nat" where
  "key_match_paged key0 key1 page_size = key_match_paged_from key0 key1 page_size 0"

definition key_match_fn :: "nat \<Rightarrow> nat list \<Rightarrow> nat list \<Rightarrow> nat" where
  "key_match_fn page_size key0 key1 =
     (if page_size = 1 then key_match_page_size1 key0 key1 else key_match_paged key0 key1 page_size)"

definition child_key_fn :: "nat \<Rightarrow> nat list \<Rightarrow> nat list" where
  "child_key_fn page_size key = take page_size key"

section \<open>Matching and insertion\<close>

text \<open>
  \<open>new_node.parent.children\<close> fails on a node without parent; only the root has none, and the root
  is never a child, so the model leaves the state of that case unchanged.
\<close>

definition split_node :: "radix \<Rightarrow> nat list \<Rightarrow> nat \<Rightarrow> nat \<Rightarrow> nat \<times> radix" where
  "split_node s key child split_len =
     (let ps = rx_page_size s;
          (new, s1) = tree_node s;
          ch = rx_nodes s1 child;
          s2 = upd_node s1 new (\<lambda>r. r\<lparr>rn_children := [(child_key_fn ps (drop split_len key), child)],
                 rn_parent := rn_parent ch, rn_lock := rn_lock ch,
                 rn_key := take split_len (rn_key ch), rn_value := take split_len (rn_value ch)\<rparr>);
          s3 = upd_node s2 child (\<lambda>r. r\<lparr>rn_parent := Some new,
                 rn_key := drop split_len (rn_key ch), rn_value := drop split_len (rn_value ch)\<rparr>)
      in (new,
          case rn_parent ch of
            None \<Rightarrow> s3
          | Some p \<Rightarrow> upd_node s3 p (\<lambda>r. r\<lparr>rn_children := AList.update (child_key_fn ps key) new (rn_children r)\<rparr>)))"

text \<open>
  The loops run on mutable nodes, so nothing in the code itself bounds them: \<open>None\<close> is the
  loop that does not end.
\<close>

partial_function (option) match_loop ::
  "radix \<Rightarrow> nat \<Rightarrow> nat list \<Rightarrow> nat list list \<Rightarrow> (nat list list \<times> nat \<times> radix) option" where
  "match_loop s node key value =
     (if key = [] then Some (value, node, s)
      else case map_of (rx_children s node) (child_key_fn (rx_page_size s) key) of
        None \<Rightarrow> Some (value, node, s)
      | Some child \<Rightarrow>
          let s1 = touch s child;
              prefix_len = key_match_fn (rx_page_size s) (rx_key s1 child) key
          in if prefix_len < length (rx_key s1 child)
             then let (new, s2) = split_node s1 (rx_key s1 child) child prefix_len
                  in Some (value @ [rx_value s2 new], new, s2)
             else match_loop s1 child (drop prefix_len key) (value @ [rx_value s1 child]))"

definition match_prefix_helper ::
  "radix \<Rightarrow> nat \<Rightarrow> nat list \<Rightarrow> (nat list list \<times> nat \<times> radix) option" where
  "match_prefix_helper s node key = match_loop (touch s node) node key []"

definition page_aligned_len :: "nat \<Rightarrow> nat \<Rightarrow> nat" where
  "page_aligned_len page_size n = n div page_size * page_size"

definition match_prefix :: "radix \<Rightarrow> nat list \<Rightarrow> (nat list \<times> nat \<times> radix) option" where
  "match_prefix s key =
     (if rx_disable s \<or> key = [] then Some ([], rx_root s, s)
      else let key' = (if rx_page_size s \<noteq> 1 then take (page_aligned_len (rx_page_size s) (length key)) key
                       else key)
           in case match_prefix_helper s (rx_root s) key' of
                None \<Rightarrow> None
              | Some (value, last_node, s') \<Rightarrow> Some (concat value, last_node, s'))"

partial_function (option) insert_loop ::
  "radix \<Rightarrow> nat \<Rightarrow> nat list \<Rightarrow> nat list \<Rightarrow> nat \<Rightarrow> (nat \<times> nat list \<times> nat list \<times> nat \<times> radix) option" where
  "insert_loop s node key value total_len =
     (if key = [] then Some (node, key, value, total_len, s)
      else case map_of (rx_children s node) (child_key_fn (rx_page_size s) key) of
        None \<Rightarrow> Some (node, key, value, total_len, s)
      | Some child \<Rightarrow>
          let s1 = touch s child;
              prefix_len = key_match_fn (rx_page_size s) (rx_key s1 child) key;
              (node', s2) = (if prefix_len < length (rx_key s1 child)
                             then split_node s1 (rx_key s1 child) child prefix_len else (child, s1))
          in insert_loop s2 node' (drop prefix_len key) (drop prefix_len value) (total_len + prefix_len))"

definition add_leaf :: "radix \<Rightarrow> nat \<Rightarrow> nat list \<Rightarrow> nat list \<Rightarrow> radix" where
  "add_leaf s node key value =
     (let (new, s1) = tree_node s;
          s2 = upd_node s1 new (\<lambda>r. r\<lparr>rn_parent := Some node, rn_key := key, rn_value := value\<rparr>);
          s3 = upd_node s2 node (\<lambda>r. r\<lparr>rn_children :=
                 AList.update (child_key_fn (rx_page_size s) key) new (rn_children r)\<rparr>)
      in s3\<lparr>rx_evictable := rx_evictable s3 + int (length value)\<rparr>)"

definition insert_helper :: "radix \<Rightarrow> nat \<Rightarrow> nat list \<Rightarrow> nat list \<Rightarrow> (nat \<times> radix) option" where
  "insert_helper s node key value =
     (let s0 = touch s node
      in if key = [] then Some (0, s0)
         else case insert_loop s0 node key value 0 of
                None \<Rightarrow> None
              | Some (node', key', value', total_len, s1) \<Rightarrow>
                  Some (total_len, if key' \<noteq> [] then add_leaf s1 node' key' value' else s1))"

definition rx_insert :: "radix \<Rightarrow> nat list \<Rightarrow> nat list option \<Rightarrow> (nat \<times> radix) option" where
  "rx_insert s key value =
     (if rx_disable s then Some (0, s)
      else insert_helper s (rx_root s) key (case value of None \<Rightarrow> key | Some v \<Rightarrow> v))"

section \<open>Reference counts\<close>

partial_function (option) inc_lock_loop :: "radix \<Rightarrow> nat \<Rightarrow> int \<Rightarrow> (int \<times> radix) option" where
  "inc_lock_loop s node delta =
     (if node = rx_root s then Some (delta, s)
      else let len = int (length (rx_value s node));
               (s1, delta1) = (if rx_lock s node = 0
                 then (s\<lparr>rx_evictable := rx_evictable s - len, rx_protected := rx_protected s + len\<rparr>, delta - len)
                 else (s, delta));
               s2 = upd_node s1 node (\<lambda>r. r\<lparr>rn_lock := rn_lock r + 1\<rparr>)
           in case rx_parent s2 node of None \<Rightarrow> None | Some p \<Rightarrow> inc_lock_loop s2 p delta1)"

definition inc_lock_ref :: "radix \<Rightarrow> nat \<Rightarrow> (int \<times> radix) option" where
  "inc_lock_ref s node = (if rx_disable s then Some (0, s) else inc_lock_loop s node 0)"

partial_function (option) dec_lock_loop :: "radix \<Rightarrow> nat \<Rightarrow> int \<Rightarrow> (int \<times> radix) option" where
  "dec_lock_loop s node delta =
     (if node = rx_root s then Some (delta, s)
      else let len = int (length (rx_value s node));
               (s1, delta1) = (if rx_lock s node = 1
                 then (s\<lparr>rx_evictable := rx_evictable s + len, rx_protected := rx_protected s - len\<rparr>, delta + len)
                 else (s, delta));
               s2 = upd_node s1 node (\<lambda>r. r\<lparr>rn_lock := rn_lock r - 1\<rparr>)
           in case rx_parent s2 node of None \<Rightarrow> None | Some p \<Rightarrow> dec_lock_loop s2 p delta1)"

definition dec_lock_ref :: "radix \<Rightarrow> nat \<Rightarrow> (int \<times> radix) option" where
  "dec_lock_ref s node = (if rx_disable s then Some (0, s) else dec_lock_loop s node 0)"

definition evictable_size :: "radix \<Rightarrow> int" where
  "evictable_size s = rx_evictable s"

definition protected_size :: "radix \<Rightarrow> int" where
  "protected_size s = rx_protected s"

section \<open>Traversals and eviction\<close>

text \<open>The traversals keep a stack; the model has its top first.\<close>

partial_function (option) total_size_loop :: "radix \<Rightarrow> nat list \<Rightarrow> nat \<Rightarrow> nat option" where
  "total_size_loop s stack total_len =
     (case stack of
        [] \<Rightarrow> Some total_len
      | n # stack' \<Rightarrow> total_size_loop s (rev (map snd (rx_children s n)) @ stack') (total_len + length (rx_value s n)))"

definition total_size :: "radix \<Rightarrow> nat option" where
  "total_size s = total_size_loop s [rx_root s] 0"

partial_function (option) collect_leaves_loop :: "radix \<Rightarrow> nat list \<Rightarrow> nat list \<Rightarrow> nat list option" where
  "collect_leaves_loop s stack ret =
     (case stack of
        [] \<Rightarrow> Some ret
      | n # stack' \<Rightarrow>
          if rx_children s n = [] then collect_leaves_loop s stack' (ret @ [n])
          else collect_leaves_loop s (rev (map snd (rx_children s n)) @ stack') ret)"

definition collect_leaves :: "radix \<Rightarrow> nat list option" where
  "collect_leaves s = collect_leaves_loop s [rx_root s] []"

text \<open>
  \<open>_delete_leaf\<close>: the loop leaves \<open>k\<close> at the key of the node, or at the last key when no entry
  is the node.
\<close>

definition delete_leaf :: "radix \<Rightarrow> nat \<Rightarrow> radix" where
  "delete_leaf s node =
     (case rx_parent s node of
        None \<Rightarrow> s
      | Some p \<Rightarrow>
          let cs = rx_children s p;
              k = (case find (\<lambda>(k, v). v = node) cs of Some (k, _) \<Rightarrow> k | None \<Rightarrow> fst (last cs));
              s1 = upd_node s p (\<lambda>r. r\<lparr>rn_children := AList.delete k cs\<rparr>)
          in s1\<lparr>rx_evictable := rx_evictable s1 - int (length (rx_key s1 node))\<rparr>)"

text \<open>\<open>TreeNode.__lt__\<close>\<close>

definition older :: "radix \<Rightarrow> nat \<Rightarrow> nat \<Rightarrow> bool" where
  "older s m n \<longleftrightarrow> rn_time (rx_nodes s m) < rn_time (rx_nodes s n)"

text \<open>\<open>free\<close> is the \<open>free\<close> of the allocator, \<open>a\<close> its state.\<close>

partial_function (option) evict_loop ::
  "('a \<Rightarrow> nat list \<Rightarrow> 'a) \<Rightarrow> nat \<Rightarrow> nat \<Rightarrow> nat list \<Rightarrow> 'a \<Rightarrow> radix \<Rightarrow> ('a \<times> radix) option" where
  "evict_loop free num_tokens num_evicted leaves a s =
     (if num_evicted < num_tokens \<and> leaves \<noteq> []
      then let (x, leaves1) = heappop (older s) leaves
           in if x = rx_root s then Some (a, s)
              else if 0 < rx_lock s x then evict_loop free num_tokens num_evicted leaves1 a s
              else let a1 = free a (rx_value s x);
                       s1 = delete_leaf s x
                   in case rx_parent s1 x of
                        None \<Rightarrow> None
                      | Some p \<Rightarrow>
                          evict_loop free num_tokens (num_evicted + length (rx_value s x))
                            (if rx_children s1 p = [] then heappush (older s1) leaves1 p else leaves1) a1 s1
      else Some (a, s))"

definition evict :: "('a \<Rightarrow> nat list \<Rightarrow> 'a) \<Rightarrow> nat \<Rightarrow> 'a \<Rightarrow> radix \<Rightarrow> ('a \<times> radix) option" where
  "evict free num_tokens a s =
     (if rx_disable s then Some (a, s)
      else case collect_leaves s of
             None \<Rightarrow> None
           | Some leaves \<Rightarrow> evict_loop free num_tokens 0 (heapify (older s) leaves) a s)"

partial_function (option) all_values_loop :: "radix \<Rightarrow> nat list \<Rightarrow> nat list list \<Rightarrow> nat list list option" where
  "all_values_loop s stack values =
     (case stack of
        [] \<Rightarrow> Some values
      | n # stack' \<Rightarrow> all_values_loop s (map snd (rx_children s n) @ stack')
                        (if n = rx_root s then values else values @ [rx_value s n]))"

text \<open>
  \<open>all_values_flatten\<close>: the recursion of \<open>_dfs_helper\<close> visits the children in order, each
  before its own children; the stack of pending nodes makes it a loop.
\<close>

definition all_values_flatten :: "radix \<Rightarrow> nat list option" where
  "all_values_flatten s = map_option concat (all_values_loop s [rx_root s] [])"

text \<open>The loop equations are the code equations, so that concrete runs evaluate.\<close>

declare match_loop.simps [code] insert_loop.simps [code] inc_lock_loop.simps [code]
  dec_lock_loop.simps [code] total_size_loop.simps [code] collect_leaves_loop.simps [code]
  evict_loop.simps [code] all_values_loop.simps [code]

section \<open>Requests\<close>

text \<open>The fields of \<open>Req\<close> that the caches use.\<close>

record cache_req =
  cr_pool_idx :: nat
  cr_origin_input_ids :: "nat list"
  cr_output_ids :: "nat list"
  cr_fill_ids :: "nat list"
  cr_prefix_indices :: "nat list"
  cr_last_node :: nat

text \<open>The state the cache methods change: the tree, the request pool and the allocator.\<close>

record 'a cache_state =
  cs_tree :: radix
  cs_pool :: req_pool
  cs_alloc :: 'a

definition cache_finished_req ::
  "('a \<Rightarrow> nat list \<Rightarrow> 'a) \<Rightarrow> cache_req \<Rightarrow> 'a cache_state \<Rightarrow> 'a cache_state option" where
  "cache_finished_req free req c =
     (let ps = rx_page_size (cs_tree c)
      in if rx_disable (cs_tree c)
         then let kv_indices = req_pool_read (cs_pool c) (cr_pool_idx req)
                    (length (cr_origin_input_ids req) + length (cr_output_ids req) - 1)
              in Some (c\<lparr>cs_alloc := free (cs_alloc c) kv_indices,
                         cs_pool := req_pool_free (cs_pool c) (OneSlot (cr_pool_idx req))\<rparr>)
         else let token_ids = butlast (cr_origin_input_ids req @ cr_output_ids req);
                  kv_indices = req_pool_read (cs_pool c) (cr_pool_idx req) (length token_ids);
                  aligned = (if ps \<noteq> 1 then page_aligned_len ps (length kv_indices) else length kv_indices);
                  a1 = (if ps \<noteq> 1 then free (cs_alloc c) (drop aligned kv_indices) else cs_alloc c)
              in case rx_insert (cs_tree c) (take aligned token_ids) (Some (take aligned kv_indices)) of
                   None \<Rightarrow> None
                 | Some (new_prefix_len, t1) \<Rightarrow>
                     let a2 = free a1 (slice (length (cr_prefix_indices req)) new_prefix_len kv_indices);
                         p2 = req_pool_free (cs_pool c) (OneSlot (cr_pool_idx req))
                     in case dec_lock_ref t1 (cr_last_node req) of
                          None \<Rightarrow> None
                        | Some (_, t2) \<Rightarrow> Some \<lparr>cs_tree = t2, cs_pool = p2, cs_alloc = a2\<rparr>)"

text \<open>
  \<open>cache_unfinished_req\<close> returns the updated request; the write into the request pool may raise.
\<close>

definition cache_unfinished_req ::
  "('a \<Rightarrow> nat list \<Rightarrow> 'a) \<Rightarrow> cache_req \<Rightarrow> 'a cache_state \<Rightarrow> (cache_req \<times> 'a cache_state) result option" where
  "cache_unfinished_req free req c =
     (if rx_disable (cs_tree c) then Some (Inr (req, c))
      else let ps = rx_page_size (cs_tree c);
               token_ids = cr_fill_ids req;
               kv_indices = req_pool_read (cs_pool c) (cr_pool_idx req) (length token_ids);
               aligned = (if ps \<noteq> 1 then page_aligned_len ps (length kv_indices) else length kv_indices);
               n0 = length (cr_prefix_indices req)
           in case rx_insert (cs_tree c) (take aligned token_ids) (Some (take aligned kv_indices)) of
                None \<Rightarrow> None
              | Some (new_prefix_len, t1) \<Rightarrow>
                  let a1 = free (cs_alloc c) (slice n0 new_prefix_len kv_indices)
                  in case match_prefix t1 (take aligned token_ids) of
                       None \<Rightarrow> None
                     | Some (new_indices, new_last_node, t2) \<Rightarrow>
                         (case req_pool_write (cs_pool c) (cr_pool_idx req) n0 (length new_indices) (drop n0 new_indices) of
                            Inl e \<Rightarrow> Some (Inl e)
                          | Inr p1 \<Rightarrow>
                              (case dec_lock_ref t2 (cr_last_node req) of
                                 None \<Rightarrow> None
                               | Some (_, t3) \<Rightarrow>
                                   (case inc_lock_ref t3 new_last_node of
                                      None \<Rightarrow> None
                                    | Some (_, t4) \<Rightarrow>
                                        let prefix_indices = (if ps \<noteq> 1
                                              then new_indices @ drop (length new_indices) kv_indices
                                              else new_indices)
                                        in Some (Inr (req\<lparr>cr_prefix_indices := prefix_indices, cr_last_node := new_last_node\<rparr>,
                                                      \<lparr>cs_tree = t4, cs_pool = p1, cs_alloc = a1\<rparr>))))))"

section \<open>ChunkCache\<close>

text \<open>\<open>srt/mem_cache/chunk_cache.py\<close>, used when the radix cache is disabled.\<close>

definition chunk_match_prefix :: "nat list \<times> nat option" where
  "chunk_match_prefix = ([], None)"

definition chunk_cache_finished_req ::
  "('a \<Rightarrow> nat list \<Rightarrow> 'a) \<Rightarrow> cache_req \<Rightarrow> req_pool \<times> 'a \<Rightarrow> req_pool \<times> 'a" where
  "chunk_cache_finished_req free req = (\<lambda>(pool, a).
     let kv_indices = req_pool_read pool (cr_pool_idx req)
           (length (cr_origin_input_ids req) + length (cr_output_ids req) - 1)
     in (req_pool_free pool (OneSlot (cr_pool_idx req)), free a kv_indices))"

definition chunk_cache_unfinished_req :: "cache_req \<Rightarrow> req_pool \<Rightarrow> cache_req" where
  "chunk_cache_unfinished_req req pool =
     req\<lparr>cr_prefix_indices := req_pool_read pool (cr_pool_idx req) (length (cr_fill_ids req))\<rparr>"

definition chunk_insert :: "unit result" where
  "chunk_insert = Inl NotImplementedError"

end
