(* ===== verification/RadixTree.thy ===== *)
theory RadixTree
  imports RadixCache
begin

text \<open>
  The shape of the radix tree: the set \<open>L\<close> of live nodes, the full token path \<open>P n\<close> and the KV
  slots \<open>V n\<close> from the root to each node; that the tree is a trie of whole pages; the key match
  functions; and that splitting a node keeps the shape.
\<close>

section \<open>Stores and dicts\<close>

lemma upd_node_simps [simp]:
  "rx_nodes (upd_node s n f) = (rx_nodes s)(n := f (rx_nodes s n))"
  "rx_counter (upd_node s n f) = rx_counter s"
  "rx_root (upd_node s n f) = rx_root s"
  "rx_evictable (upd_node s n f) = rx_evictable s"
  "rx_protected (upd_node s n f) = rx_protected s"
  "rx_page_size (upd_node s n f) = rx_page_size s"
  "rx_disable (upd_node s n f) = rx_disable s"
  "rx_clock (upd_node s n f) = rx_clock s"
  "rx_ticks (upd_node s n f) = rx_ticks s"
  by (simp_all add: upd_node_def)

lemma set_alist_update:
  "distinct (map fst xs) \<Longrightarrow> set (AList.update k v xs) = insert (k, v) {e \<in> set xs. fst e \<noteq> k}"
  by (induction xs) (auto simp: rev_image_eqI)

lemma set_alist_delete: "set (AList.delete k xs) = {e \<in> set xs. fst e \<noteq> k}"
  by (auto simp: AList.delete_eq)

lemma distinct_alist_delete: "distinct (map fst xs) \<Longrightarrow> distinct (map fst (AList.delete k xs))"
  by (induction xs) (auto simp: AList.delete_eq)

lemma distinct_map_fst_eq:
  "distinct (map fst xs) \<Longrightarrow> (k, v) \<in> set xs \<Longrightarrow> (k, w) \<in> set xs \<Longrightarrow> v = w"
  by (metis map_of_is_SomeI option.inject)

section \<open>The shape of the tree\<close>

definition tree_ok :: "radix \<Rightarrow> nat set \<Rightarrow> (nat \<Rightarrow> nat list) \<Rightarrow> (nat \<Rightarrow> nat list) \<Rightarrow> bool" where
  "tree_ok s L P V \<longleftrightarrow>
     0 < rx_page_size s \<and> finite L \<and> rx_root s \<in> L \<and> (\<forall>n\<in>L. n < rx_counter s) \<and>
     P (rx_root s) = [] \<and> V (rx_root s) = [] \<and>
     rx_key s (rx_root s) = [] \<and> rx_value s (rx_root s) = [] \<and>
     (\<forall>n\<in>L. n \<noteq> rx_root s \<longrightarrow>
        (\<exists>p\<in>L. rx_parent s n = Some p \<and> P n = P p @ rx_key s n \<and> V n = V p @ rx_value s n \<and>
                (child_key_fn (rx_page_size s) (rx_key s n), n) \<in> set (rx_children s p)) \<and>
        rx_key s n \<noteq> [] \<and> rx_page_size s dvd length (rx_key s n) \<and>
        length (rx_value s n) = length (rx_key s n)) \<and>
     (\<forall>n\<in>L. \<forall>(k, c)\<in>set (rx_children s n).
        c \<in> L \<and> c \<noteq> rx_root s \<and> rx_parent s c = Some n \<and> k = child_key_fn (rx_page_size s) (rx_key s c)) \<and>
     (\<forall>n\<in>L. distinct (map fst (rx_children s n)))"

definition child_of :: "radix \<Rightarrow> nat \<Rightarrow> nat \<Rightarrow> bool" where
  "child_of s p n \<longleftrightarrow> (child_key_fn (rx_page_size s) (rx_key s n), n) \<in> set (rx_children s p)"

lemma tree_okD:
  assumes "tree_ok s L P V"
  shows tree_ps: "0 < rx_page_size s" and tree_finite: "finite L" and tree_root: "rx_root s \<in> L"
    and tree_fresh: "n \<in> L \<Longrightarrow> n < rx_counter s"
    and tree_root_path: "P (rx_root s) = []" "V (rx_root s) = []"
    and tree_root_key: "rx_key s (rx_root s) = []" "rx_value s (rx_root s) = []"
    and tree_distinct: "n \<in> L \<Longrightarrow> distinct (map fst (rx_children s n))"
  using assms unfolding tree_ok_def by blast+

lemma tree_node_fields:
  assumes "tree_ok s L P V" and "n \<in> L" and "n \<noteq> rx_root s"
  shows "rx_key s n \<noteq> []" and "rx_page_size s dvd length (rx_key s n)"
    and "length (rx_value s n) = length (rx_key s n)"
  using assms unfolding tree_ok_def by auto

lemma tree_parent:
  assumes "tree_ok s L P V" and "n \<in> L" and "n \<noteq> rx_root s"
  obtains p where "p \<in> L" and "rx_parent s n = Some p" and "P n = P p @ rx_key s n"
    and "V n = V p @ rx_value s n" and "child_of s p n"
  using assms unfolding tree_ok_def child_of_def by blast

lemma tree_child:
  assumes "tree_ok s L P V" and "n \<in> L" and "(k, c) \<in> set (rx_children s n)"
  shows "c \<in> L" and "c \<noteq> rx_root s" and "rx_parent s c = Some n"
    and "k = child_key_fn (rx_page_size s) (rx_key s c)"
    and "P c = P n @ rx_key s c" and "V c = V n @ rx_value s c" and "child_of s n c"
proof -
  have *: "c \<in> L \<and> c \<noteq> rx_root s \<and> rx_parent s c = Some n \<and> k = child_key_fn (rx_page_size s) (rx_key s c)"
    using assms unfolding tree_ok_def by blast
  then show "c \<in> L" "c \<noteq> rx_root s" "rx_parent s c = Some n"
    "k = child_key_fn (rx_page_size s) (rx_key s c)" by simp_all
  with tree_parent [OF assms(1)] show "P c = P n @ rx_key s c" "V c = V n @ rx_value s c"
    by (metis option.inject)+
  show "child_of s n c" using * assms(3) by (simp add: child_of_def)
qed

lemma tree_child_of:
  assumes "tree_ok s L P V" and "p \<in> L" and "child_of s p c"
  shows "c \<in> L" and "c \<noteq> rx_root s" and "rx_parent s c = Some p"
    and "P c = P p @ rx_key s c" and "V c = V p @ rx_value s c"
  using tree_child [OF assms(1,2)] assms(3) unfolding child_of_def by metis+

lemma tree_path_vals:
  assumes "tree_ok s L P V" and "n \<in> L"
  shows "length (V n) = length (P n) \<and> rx_page_size s dvd length (P n)"
  using assms(2)
proof (induction "length (P n)" arbitrary: n rule: less_induct)
  case less
  show ?case
  proof (cases "n = rx_root s")
    case True
    then show ?thesis using tree_root_path [OF assms(1)] by simp
  next
    case False
    obtain p where p: "p \<in> L" "P n = P p @ rx_key s n" "V n = V p @ rx_value s n"
      using tree_parent [OF assms(1) less.prems False] by blast
    note f = tree_node_fields [OF assms(1) less.prems False]
    have "length (V p) = length (P p) \<and> rx_page_size s dvd length (P p)"
      using less.hyps [of p] p f by simp
    then show ?thesis using p f by simp
  qed
qed

lemma tree_path_root:
  assumes "tree_ok s L P V" and "n \<in> L"
  shows "P n = [] \<longleftrightarrow> n = rx_root s"
proof
  assume "P n = []"
  show "n = rx_root s"
  proof (rule ccontr)
    assume "n \<noteq> rx_root s"
    then obtain p where "P n = P p @ rx_key s n" using tree_parent [OF assms] by metis
    then show False using tree_node_fields(1) [OF assms \<open>n \<noteq> rx_root s\<close>] \<open>P n = []\<close> by simp
  qed
qed (use tree_root_path [OF assms(1)] in simp)

text \<open>Two children of a node whose keys start with the same page are the same node.\<close>

lemma tree_child_unique:
  assumes ok: "tree_ok s L P V" and p: "p \<in> L" and c: "child_of s p c" and d: "child_of s p d"
    and eq: "take (rx_page_size s) (rx_key s c) = take (rx_page_size s) (rx_key s d)"
  shows "c = d"
  using distinct_map_fst_eq [OF tree_distinct [OF ok p]] c d eq
  unfolding child_of_def child_key_fn_def by metis

lemma tree_key_page:
  assumes "tree_ok s L P V" and "n \<in> L" and "n \<noteq> rx_root s"
  shows "rx_page_size s \<le> length (rx_key s n)"
  using tree_node_fields [OF assms] by (simp add: dvd_imp_le)

lemma prefix_take_eq: "prefix xs ys \<Longrightarrow> n \<le> length xs \<Longrightarrow> take n xs = take n ys"
  by (auto simp: prefix_def)

lemma children_same_path:
  assumes ok: "tree_ok s L P V" and p: "p \<in> L" and c: "child_of s p c" and d: "child_of s p d"
    and pre: "prefix (P c) xs" "prefix (P d) xs"
  shows "c = d"
proof (rule tree_child_unique [OF ok p c d])
  let ?ps = "rx_page_size s"
  note C = tree_child_of [OF ok p c] and D = tree_child_of [OF ok p d]
  obtain ys where ys: "xs = P p @ ys" "prefix (rx_key s c) ys" "prefix (rx_key s d) ys"
    using pre C(4) D(4) by (auto simp: prefix_def)
  then show "take ?ps (rx_key s c) = take ?ps (rx_key s d)"
    using prefix_take_eq tree_key_page [OF ok C(1,2)] tree_key_page [OF ok D(1,2)] by metis
qed

lemma child_longer:
  assumes "tree_ok s L P V" and "p \<in> L" and "child_of s p c"
  shows "length (P p) < length (P c)"
  using tree_child_of [OF assms] tree_node_fields(1) [OF assms(1), of c] by simp

text \<open>
  The tree is a trie: when the path of \<open>n\<close> is a prefix of the path of another node \<open>m\<close>, then \<open>m\<close>
  lies below a child of \<open>n\<close>.
\<close>

lemma tree_descend:
  assumes ok: "tree_ok s L P V"
  shows "n \<in> L \<Longrightarrow> m \<in> L \<Longrightarrow> prefix (P n) (P m) \<Longrightarrow> n \<noteq> m \<Longrightarrow>
     \<exists>c. child_of s n c \<and> prefix (P c) (P m)"
proof (induction "length (P n) + length (P m)" arbitrary: n m rule: less_induct)
  case less
  have "m \<noteq> rx_root s"
    using less.prems tree_path_root [OF ok] tree_root_path(1) [OF ok] by auto
  then obtain p where p: "p \<in> L" "P m = P p @ rx_key s m" "child_of s p m"
    using tree_parent [OF ok less.prems(2)] by metis
  have lp: "length (P p) < length (P m)" by (rule child_longer [OF ok p(1,3)])
  show ?case
  proof (cases "prefix (P n) (P p)")
    case True
    show ?thesis
    proof (cases "n = p")
      case True
      then show ?thesis using p by auto
    next
      case False
      then obtain c where "child_of s n c" "prefix (P c) (P p)"
        using less.hyps [OF _ less.prems(1) p(1) True] lp by auto
      then show ?thesis using prefix_order.trans [OF _ prefixI [OF p(2)]] by blast
    qed
  next
    case False
    have "prefix (P p) (P m)" unfolding p(2) by (rule prefixI) simp
    then have pn: "prefix (P p) (P n)" using prefix_same_cases [OF less.prems(3)] False by metis
    have ne: "P p \<noteq> P n" using False by auto
    have "n \<noteq> rx_root s" using pn ne tree_root_path(1) [OF ok] by auto
    then obtain q where q: "q \<in> L" "P n = P q @ rx_key s n" "child_of s q n"
      using tree_parent [OF ok less.prems(1)] by metis
    have lq: "length (P q) < length (P n)" by (rule child_longer [OF ok q(1,3)])
    have ln: "length (P n) \<le> length (P m)" by (rule prefix_length_le [OF less.prems(3)])
    have "length (P p) < length (P n)"
      using pn ne by (intro prefix_length_less) (simp add: strict_prefix_def)
    consider "p = q" | "p \<noteq> q" "prefix (P p) (P q)" | "p \<noteq> q" "prefix (P q) (P p)"
      using prefix_same_cases [OF pn, of "P q"] prefixI [OF q(2)] by metis
    then have False
    proof cases
      case 1
      then have "n = m"
        using children_same_path [OF ok p(1) _ p(3) less.prems(3)] q(3) by simp
      then show False using less.prems(4) by simp
    next
      case 2
      have "length (P p) + length (P q) < length (P n) + length (P m)" using lp lq by linarith
      then obtain c where c: "child_of s p c" "prefix (P c) (P q)"
        using less.hyps [OF _ p(1) q(1) 2(2,1)] by blast
      have "prefix (P c) (P m)"
        by (rule prefix_order.trans [OF c(2) prefix_order.trans [OF prefixI [OF q(2)] less.prems(3)]])
      then have "c = m" using children_same_path [OF ok p(1) c(1) p(3)] by simp
      then show False using prefix_length_le [OF c(2)] lq ln by simp
    next
      case 3
      have "length (P q) + length (P p) < length (P n) + length (P m)" using lp lq by linarith
      then obtain c where c: "child_of s q c" "prefix (P c) (P p)"
        using less.hyps [OF _ q(1) p(1) 3(2) 3(1) [symmetric]] by blast
      have "prefix (P c) (P n)" using c(2) pn by (rule prefix_order.trans)
      then have "c = n" using children_same_path [OF ok q(1) c(1) q(3)] by simp
      then show False using prefix_length_le [OF c(2)] \<open>length (P p) < length (P n)\<close> by simp
    qed
    then show ?thesis ..
  qed
qed

lemma tree_path_inj:
  assumes "tree_ok s L P V" and "n \<in> L" and "m \<in> L" and "P n = P m"
  shows "n = m"
proof (rule ccontr)
  assume "n \<noteq> m"
  then obtain c where c: "child_of s n c" "prefix (P c) (P m)"
    using tree_descend [OF assms(1-3)] assms(4) by auto
  then show False
    using child_longer [OF assms(1,2) c(1)] assms(4) prefix_length_le by fastforce
qed

lemma tree_child_below:
  assumes ok: "tree_ok s L P V" and "n \<in> L" and "m \<in> L" and "n \<noteq> m" and "prefix (P n) (P m)"
  obtains c where "(child_key_fn (rx_page_size s) (drop (length (P n)) (P m)), c) \<in> set (rx_children s n)"
    and "c \<in> L" and "prefix (P c) (P m)" and "child_of s n c"
proof -
  obtain c where c: "child_of s n c" "prefix (P c) (P m)"
    using tree_descend [OF ok] assms by blast
  note C = tree_child_of [OF ok assms(2) c(1)]
  have "prefix (rx_key s c) (drop (length (P n)) (P m))"
    using c(2) C(4) by (auto simp: prefix_def)
  then have "take (rx_page_size s) (rx_key s c) = take (rx_page_size s) (drop (length (P n)) (P m))"
    using tree_key_page [OF ok C(1,2)] by (intro prefix_take_eq)
  then show ?thesis using that c C(1) by (simp add: child_of_def child_key_fn_def)
qed

section \<open>Key matching\<close>

text \<open>The key match functions return the longest common prefix of whole pages.\<close>

definition is_match :: "nat \<Rightarrow> nat list \<Rightarrow> nat list \<Rightarrow> nat \<Rightarrow> bool" where
  "is_match ps xs ys j \<longleftrightarrow> ps dvd j \<and> j \<le> length xs \<and> j \<le> length ys \<and> take j xs = take j ys"

lemma key_match_page_size1_match: "is_match 1 xs ys (key_match_page_size1 xs ys)"
  by (induction xs ys rule: key_match_page_size1.induct) (auto simp: is_match_def)

lemma key_match_page_size1_max: "is_match 1 xs ys i \<Longrightarrow> i \<le> key_match_page_size1 xs ys"
proof (induction xs ys arbitrary: i rule: key_match_page_size1.induct)
  case (1 k0 key0 k1 key1)
  then show ?case by (cases i) (auto simp: is_match_def)
qed (auto simp: is_match_def)

lemma is_match_step:
  assumes "is_match ps xs ys i" and "slice i (i + ps) xs = slice i (i + ps) ys"
    and "i + ps \<le> length xs" and "i + ps \<le> length ys"
  shows "is_match ps xs ys (i + ps)"
  using assms by (simp add: is_match_def take_add slice_def)

lemma is_match_slice:
  assumes "is_match ps xs ys j" and "i + ps \<le> j"
  shows "slice i (i + ps) xs = slice i (i + ps) ys"
proof -
  have "slice i (i + ps) zs = slice i (i + ps) (take j zs)" for zs :: "nat list"
    using assms(2) by (simp add: slice_def drop_take min_def)
  from this [of xs] this [of ys] show ?thesis using assms(1) by (metis is_match_def)
qed

lemma key_match_paged_from_match:
  assumes "0 < ps" and "ps dvd length xs" and "ps dvd length ys"
  shows "is_match ps xs ys i \<Longrightarrow> is_match ps xs ys (key_match_paged_from xs ys ps i) \<and>
     (\<forall>j. is_match ps xs ys j \<longrightarrow> j \<le> key_match_paged_from xs ys ps i)"
proof (induction "length xs - i" arbitrary: i rule: less_induct)
  case less
  have page: "i + ps \<le> m" if "i < m" "ps dvd m" for m
    using that less.prems by (auto simp: is_match_def elim!: dvdE)
      (metis Suc_leI mult.commute mult_Suc_right mult_le_mono1 mult_less_cancel2 add.commute)
  show ?case
  proof (cases "i < min (length xs) (length ys)")
    case False
    then have "key_match_paged_from xs ys ps i = i"
      by (subst key_match_paged_from.simps) auto
    then show ?thesis using less.prems False by (auto simp: is_match_def)
  next
    case True
    then have len: "i + ps \<le> length xs" "i + ps \<le> length ys" using page assms by auto
    show ?thesis
    proof (cases "slice i (i + ps) xs = slice i (i + ps) ys")
      case eq: True
      then have "key_match_paged_from xs ys ps i = key_match_paged_from xs ys ps (i + ps)"
        using True assms(1) by (simp add: key_match_paged_from.simps [of xs ys ps i])
      moreover have "is_match ps xs ys (i + ps)" using is_match_step [OF less.prems eq len] .
      moreover have "length xs - (i + ps) < length xs - i" using True assms(1) by auto
      ultimately show ?thesis using less.hyps [of "i + ps"] by simp
    next
      case ne: False
      then have "key_match_paged_from xs ys ps i = i"
        by (simp add: key_match_paged_from.simps [of xs ys ps i])
      moreover have "j \<le> i" if "is_match ps xs ys j" for j
      proof (rule ccontr)
        assume "\<not> j \<le> i"
        then have "i + ps \<le> j" using page [of j] that by (simp add: is_match_def)
        then show False using is_match_slice [OF that] ne by blast
      qed
      ultimately show ?thesis using less.prems by simp
    qed
  qed
qed

lemma key_match_fn_match:
  assumes "0 < ps" and "ps dvd length xs" and "ps dvd length ys"
  shows "is_match ps xs ys (key_match_fn ps xs ys)"
    and "is_match ps xs ys j \<Longrightarrow> j \<le> key_match_fn ps xs ys"
proof -
  have "is_match ps xs ys 0" by (simp add: is_match_def)
  from key_match_paged_from_match [OF assms this]
  show "is_match ps xs ys (key_match_fn ps xs ys)" "is_match ps xs ys j \<Longrightarrow> j \<le> key_match_fn ps xs ys"
    using key_match_page_size1_match key_match_page_size1_max
    by (auto simp: key_match_fn_def key_match_paged_def)
qed

section \<open>Updates that keep the shape\<close>

text \<open>The shape only depends on four fields of the live nodes.\<close>

lemma tree_ok_cong:
  assumes "tree_ok s L P V"
    and "rx_root s' = rx_root s" and "rx_page_size s' = rx_page_size s" and "rx_counter s \<le> rx_counter s'"
    and "\<And>n. n \<in> L \<Longrightarrow> rx_children s' n = rx_children s n \<and> rx_parent s' n = rx_parent s n \<and>
           rx_key s' n = rx_key s n \<and> rx_value s' n = rx_value s n"
  shows "tree_ok s' L P V"
proof -
  note D = tree_okD [OF assms(1)]
  have "\<forall>n\<in>L. n < rx_counter s'" using D(4) assms(4) by fastforce
  moreover have "\<forall>n\<in>L. \<forall>(k, c)\<in>set (rx_children s' n).
      c \<in> L \<and> c \<noteq> rx_root s' \<and> rx_parent s' c = Some n \<and> k = child_key_fn (rx_page_size s') (rx_key s' c)"
  proof (intro ballI, clarify)
    fix n k c assume "n \<in> L" "(k, c) \<in> set (rx_children s' n)"
    then have n: "n \<in> L" "(k, c) \<in> set (rx_children s n)" using assms(5) by simp_all
    from tree_child(1-4) [OF assms(1) this] show "c \<in> L \<and> c \<noteq> rx_root s' \<and> rx_parent s' c = Some n \<and>
        k = child_key_fn (rx_page_size s') (rx_key s' c)"
      using assms(2,3,5) by simp
  qed
  moreover have "\<forall>n\<in>L. n \<noteq> rx_root s' \<longrightarrow>
      (\<exists>p\<in>L. rx_parent s' n = Some p \<and> P n = P p @ rx_key s' n \<and> V n = V p @ rx_value s' n \<and>
        (child_key_fn (rx_page_size s') (rx_key s' n), n) \<in> set (rx_children s' p)) \<and>
      rx_key s' n \<noteq> [] \<and> rx_page_size s' dvd length (rx_key s' n) \<and>
      length (rx_value s' n) = length (rx_key s' n)"
  proof (intro ballI impI)
    fix n assume n: "n \<in> L" "n \<noteq> rx_root s'"
    then obtain p where "p \<in> L" "rx_parent s n = Some p" "P n = P p @ rx_key s n"
      "V n = V p @ rx_value s n" "child_of s p n"
      using tree_parent [OF assms(1)] assms(2) by metis
    then show "(\<exists>p\<in>L. rx_parent s' n = Some p \<and> P n = P p @ rx_key s' n \<and> V n = V p @ rx_value s' n \<and>
        (child_key_fn (rx_page_size s') (rx_key s' n), n) \<in> set (rx_children s' p)) \<and>
      rx_key s' n \<noteq> [] \<and> rx_page_size s' dvd length (rx_key s' n) \<and>
      length (rx_value s' n) = length (rx_key s' n)"
      using tree_node_fields [OF assms(1), of n] n assms(2,3,5) by (auto simp: child_of_def)
  qed
  ultimately show ?thesis
    using D(1-3,5-9) assms(2,3,5) unfolding tree_ok_def by simp
qed

lemma touch_simps [simp]:
  "rx_children (touch s n) m = rx_children s m"
  "rx_parent (touch s n) m = rx_parent s m"
  "rx_key (touch s n) m = rx_key s m"
  "rx_value (touch s n) m = rx_value s m"
  "rx_lock (touch s n) m = rx_lock s m"
  "rx_counter (touch s n) = rx_counter s"
  "rx_root (touch s n) = rx_root s"
  "rx_evictable (touch s n) = rx_evictable s"
  "rx_protected (touch s n) = rx_protected s"
  "rx_page_size (touch s n) = rx_page_size s"
  "rx_disable (touch s n) = rx_disable s"
  by (simp_all add: touch_def)

lemma tree_ok_touch: "tree_ok s L P V \<Longrightarrow> tree_ok (touch s n) L P V"
  by (rule tree_ok_cong) auto

section \<open>Splitting a node\<close>

lemma split_node_nodes:
  assumes "rx_parent s child = Some p" and "p \<noteq> child" and "p \<noteq> rx_counter s" and "child \<noteq> rx_counter s"
  shows "rx_nodes (snd (split_node s key child k)) = (rx_nodes s)
     (rx_counter s := \<lparr>rn_children = [(child_key_fn (rx_page_size s) (drop k key), child)],
        rn_parent = Some p, rn_key = take k (rx_key s child), rn_value = take k (rx_value s child),
        rn_lock = rx_lock s child, rn_time = rx_clock s (rx_ticks s)\<rparr>,
      child := (rx_nodes s child)\<lparr>rn_parent := Some (rx_counter s), rn_key := drop k (rx_key s child),
        rn_value := drop k (rx_value s child)\<rparr>,
      p := (rx_nodes s p)\<lparr>rn_children :=
        AList.update (child_key_fn (rx_page_size s) key) (rx_counter s) (rx_children s p)\<rparr>)"
  using assms by (auto simp: split_node_def tree_node_def Let_def)

lemma split_node_simps [simp]:
  "fst (split_node s key child k) = rx_counter s"
  "rx_counter (snd (split_node s key child k)) = Suc (rx_counter s)"
  "rx_root (snd (split_node s key child k)) = rx_root s"
  "rx_evictable (snd (split_node s key child k)) = rx_evictable s"
  "rx_protected (snd (split_node s key child k)) = rx_protected s"
  "rx_page_size (snd (split_node s key child k)) = rx_page_size s"
  "rx_disable (snd (split_node s key child k)) = rx_disable s"
  by (auto simp: split_node_def tree_node_def Let_def split: option.splits)

lemma tree_parent_neq:
  assumes ok: "tree_ok s L P V" and "n \<in> L" and "rx_parent s n = Some p" and "n \<noteq> rx_root s"
  shows "p \<in> L" and "p \<noteq> n" and "child_of s p n"
proof -
  obtain q where "q \<in> L" "rx_parent s n = Some q" "P n = P q @ rx_key s n" "child_of s q n"
    using tree_parent [OF ok assms(2,4)] by metis
  with assms(3) tree_node_fields(1) [OF ok assms(2,4)]
  show "p \<in> L" "p \<noteq> n" "child_of s p n" by auto
qed

text \<open>The split puts a new node between a node and its parent; the paths of the others stay.\<close>

lemma tree_ok_split:
  assumes ok: "tree_ok s L P V" and child: "child \<in> L" "child \<noteq> rx_root s"
    and par: "rx_parent s child = Some p"
    and k: "0 < k" "k < length (rx_key s child)" "rx_page_size s dvd k"
    and s': "s' = snd (split_node s (rx_key s child) child k)" and new: "new = rx_counter s"
  shows "tree_ok s' (insert new L) (P(new := P p @ take k (rx_key s child)))
           (V(new := V p @ take k (rx_value s child)))"
proof -
  let ?ps = "rx_page_size s" and ?key = "rx_key s child" and ?val = "rx_value s child"
  let ?P = "P(new := P p @ take k ?key)" and ?V = "V(new := V p @ take k ?val)"
  have fresh: "new \<notin> L" using tree_fresh [OF ok] new by blast
  note pc = tree_parent_neq [OF ok child(1) par child(2)]
  note C = tree_child_of [OF ok pc(1,3)] and F = tree_node_fields [OF ok child]
  have nodes: "rx_nodes s' = (rx_nodes s)
     (new := \<lparr>rn_children = [(take ?ps (drop k ?key), child)], rn_parent = Some p,
        rn_key = take k ?key, rn_value = take k ?val, rn_lock = rx_lock s child,
        rn_time = rx_clock s (rx_ticks s)\<rparr>,
      child := (rx_nodes s child)\<lparr>rn_parent := Some new, rn_key := drop k ?key, rn_value := drop k ?val\<rparr>,
      p := (rx_nodes s p)\<lparr>rn_children := AList.update (take ?ps ?key) new (rx_children s p)\<rparr>)"
    unfolding s' new using split_node_nodes [OF par pc(2)] fresh pc(1) child(1) new
    by (auto simp: child_key_fn_def)
  have sim: "rx_root s' = rx_root s" "rx_page_size s' = ?ps" "rx_counter s' = Suc new"
    by (simp_all add: s' new)
  have ne: "p \<noteq> child" "p \<noteq> new" "child \<noteq> new" "rx_root s \<noteq> new" "rx_root s \<noteq> child"
    using pc fresh child tree_root [OF ok] by auto
  have nodeD: "rx_children s' new = [(take ?ps (drop k ?key), child)]" "rx_parent s' new = Some p"
    "rx_key s' new = take k ?key" "rx_value s' new = take k ?val"
    "rx_parent s' child = Some new" "rx_key s' child = drop k ?key" "rx_value s' child = drop k ?val"
    "rx_children s' p = AList.update (take ?ps ?key) new (rx_children s p)"
    using ne by (simp_all add: nodes)
  have keep: "rx_key s' m = rx_key s m" "rx_value s' m = rx_value s m" "rx_parent s' m = rx_parent s m"
    if "m \<noteq> new" "m \<noteq> child" for m
    using that by (simp_all add: nodes)
  have keepc: "rx_children s' m = rx_children s m" if "m \<noteq> new" "m \<noteq> p" for m
    using that by (simp add: nodes)
  have psk: "?ps \<le> k" using k by (simp add: dvd_imp_le)
  have pskey: "take ?ps (take k ?key) = take ?ps ?key" using psk by (simp add: min_def)
  have pchildren: "set (AList.update (take ?ps ?key) new (rx_children s p))
      = insert (take ?ps ?key, new) {e \<in> set (rx_children s p). fst e \<noteq> take ?ps ?key}"
    by (rule set_alist_update [OF tree_distinct [OF ok pc(1)]])
  have same: "take ?ps ?key \<noteq> j" if "(j, c) \<in> set (rx_children s p)" "c \<noteq> child" for j c
    using tree_child [OF ok pc(1) that(1)] tree_child_unique [OF ok pc(1) _ pc(3)] that(2)
    by (auto simp: child_key_fn_def)
  show ?thesis
    unfolding tree_ok_def
  proof (intro conjI ballI impI)
    fix n assume n: "n \<in> insert new L" "n \<noteq> rx_root s'"
    then have nr: "n \<noteq> rx_root s" by (simp add: sim)
    show "\<exists>q\<in>insert new L. rx_parent s' n = Some q \<and> ?P n = ?P q @ rx_key s' n \<and> ?V n = ?V q @ rx_value s' n \<and>
        (child_key_fn (rx_page_size s') (rx_key s' n), n) \<in> set (rx_children s' q)"
    proof (cases "n = new \<or> n = child")
      case True
      then show ?thesis
      proof
        assume "n = new"
        then show ?thesis
          using ne pc(1) pchildren pskey by (intro bexI [of _ p]) (simp_all add: nodeD sim child_key_fn_def)
      next
        assume "n = child"
        then show ?thesis
          using ne C(4,5) by (intro bexI [of _ new]) (simp_all add: nodeD sim child_key_fn_def)
      qed
    next
      case False
      then have nL: "n \<in> L" using n by simp
      then obtain q where q: "q \<in> L" "rx_parent s n = Some q" "P n = P q @ rx_key s n"
        "V n = V q @ rx_value s n" "child_of s q n"
        using tree_parent [OF ok nL nr] by metis
      have "(take ?ps (rx_key s n), n) \<in> set (rx_children s' q)"
      proof (cases "q = p")
        case True
        then show ?thesis
          using q(5) False same [of "take ?ps (rx_key s n)" n] unfolding True nodeD pchildren
          by (simp add: child_of_def child_key_fn_def)
      next
        case qp: False
        have "q \<noteq> new" using q(1) fresh by blast
        then show ?thesis using q(5) keepc [OF _ qp] by (simp add: child_of_def child_key_fn_def)
      qed
      moreover have "q \<noteq> new" "n \<noteq> new" using q(1) nL fresh by auto
      moreover have "rx_key s' n = rx_key s n" "rx_value s' n = rx_value s n" "rx_parent s' n = Some q"
        using False q(2) keep [of n] by simp_all
      ultimately show ?thesis
        using q(1,3,4) by (intro bexI [of _ q]) (simp_all add: sim child_key_fn_def)
    qed
    show "rx_key s' n \<noteq> []" "rx_page_size s' dvd length (rx_key s' n)"
      "length (rx_value s' n) = length (rx_key s' n)"
    proof -
      consider "n = new" | "n = child" | "n \<noteq> new" "n \<noteq> child" "n \<in> L" using n by blast
      then have "rx_key s' n \<noteq> [] \<and> ?ps dvd length (rx_key s' n) \<and> length (rx_value s' n) = length (rx_key s' n)"
      proof cases
        case 1
        then show ?thesis using k F by (auto simp: nodeD min_def)
      next
        case 2
        then show ?thesis using k F by (simp add: nodeD dvd_diff_nat)
      next
        case 3
        then show ?thesis using tree_node_fields [OF ok 3(3) nr] keep [OF 3(1,2)] by simp
      qed
      then show "rx_key s' n \<noteq> []" "rx_page_size s' dvd length (rx_key s' n)"
        "length (rx_value s' n) = length (rx_key s' n)" by (simp_all add: sim)
    qed
  next
    fix n e assume n: "n \<in> insert new L" and e: "e \<in> set (rx_children s' n)"
    obtain j c where jc: "e = (j, c)" by fastforce
    have *: "c \<in> insert new L \<and> c \<noteq> rx_root s \<and> rx_parent s' c = Some n \<and> j = take ?ps (rx_key s' c)"
    proof (cases "n = p")
      case True
      then have "(j, c) = (take ?ps ?key, new) \<or> (j, c) \<in> set (rx_children s p) \<and> j \<noteq> take ?ps ?key"
        using e pchildren unfolding jc True nodeD by auto
      then show ?thesis
      proof
        assume "(j, c) = (take ?ps ?key, new)"
        then show ?thesis using True ne pskey by (simp add: nodeD)
      next
        assume a: "(j, c) \<in> set (rx_children s p) \<and> j \<noteq> take ?ps ?key"
        then have "(j, c) \<in> set (rx_children s p)" ..
        note c = tree_child [OF ok pc(1) this]
        have "c \<noteq> child" using a c(4) by (auto simp: child_key_fn_def)
        moreover have "c \<noteq> new" using c(1) fresh by blast
        ultimately show ?thesis using c(1-4) keep [of c] True by (simp add: child_key_fn_def)
      qed
    next
      case False
      show ?thesis
      proof (cases "n = new")
        case True
        then show ?thesis using e jc ne child by (simp add: nodeD)
      next
        case nn: False
        then have nL: "n \<in> L" and "(j, c) \<in> set (rx_children s n)"
          using n e jc keepc [OF nn False] by simp_all
        note c = tree_child [OF ok this]
        have "c \<noteq> child" using c(3) par False by auto
        moreover have "c \<noteq> new" using c(1) fresh by blast
        ultimately show ?thesis using c(1-4) keep [of c] by (simp add: child_key_fn_def)
      qed
    qed
    then show "case e of (k', c') \<Rightarrow> c' \<in> insert new L \<and> c' \<noteq> rx_root s' \<and> rx_parent s' c' = Some n \<and>
        k' = child_key_fn (rx_page_size s') (rx_key s' c')"
      using jc by (simp add: sim child_key_fn_def)
  next
    fix n assume "n \<in> insert new L"
    then show "distinct (map fst (rx_children s' n))"
      using tree_distinct [OF ok] ne pc(1) by (auto simp: nodes distinct_update)
  next
    fix n assume "n \<in> insert new L"
    then show "n < rx_counter s'"
      using tree_fresh [OF ok] new by (auto simp: sim less_Suc_eq)
  qed (use tree_ps [OF ok] tree_finite [OF ok] tree_root [OF ok] tree_root_path [OF ok] tree_root_key [OF ok] ne
      in \<open>auto simp: sim nodes\<close>)
qed

end
