(* ===== verification/RadixInv.thy ===== *)
theory RadixInv
  imports RadixTree
begin

text \<open>
  The invariant of the radix cache, and what \<open>match_prefix\<close> and \<open>insert\<close> do to its content.
  Beside the shape (\<open>RadixTree\<close>) the ghost state holds the multiset \<open>R\<close> of nodes that requests
  hold a reference to.
\<close>

section \<open>References and sizes\<close>

text \<open>
  The \<open>lock_ref\<close> of a node counts the references of the requests at or below it; the two size
  counters split the tokens of the tree into unlocked and locked ones.
\<close>

definition refs_at :: "(nat \<Rightarrow> nat list) \<Rightarrow> nat multiset \<Rightarrow> nat \<Rightarrow> int" where
  "refs_at P R n = int (size {#h \<in># R. prefix (P n) (P h)#})"

definition lock_ok :: "radix \<Rightarrow> nat set \<Rightarrow> (nat \<Rightarrow> nat list) \<Rightarrow> nat multiset \<Rightarrow> bool" where
  "lock_ok s L P R \<longleftrightarrow> set_mset R \<subseteq> L \<and> (\<forall>n\<in>L. n \<noteq> rx_root s \<longrightarrow> rx_lock s n = refs_at P R n)"

definition unlocked_len :: "radix \<Rightarrow> nat \<Rightarrow> int" where
  "unlocked_len s n = (if rx_lock s n = 0 then int (length (rx_key s n)) else 0)"

definition locked_len :: "radix \<Rightarrow> nat \<Rightarrow> int" where
  "locked_len s n = (if rx_lock s n = 0 then 0 else int (length (rx_key s n)))"

definition size_ok :: "radix \<Rightarrow> nat set \<Rightarrow> bool" where
  "size_ok s L \<longleftrightarrow> rx_evictable s = (\<Sum>n\<in>L - {rx_root s}. unlocked_len s n) \<and>
     rx_protected s = (\<Sum>n\<in>L - {rx_root s}. locked_len s n)"

definition radix_ok ::
  "radix \<Rightarrow> nat set \<Rightarrow> (nat \<Rightarrow> nat list) \<Rightarrow> (nat \<Rightarrow> nat list) \<Rightarrow> nat multiset \<Rightarrow> bool" where
  "radix_ok s L P V R \<longleftrightarrow> \<not> rx_disable s \<and> tree_ok s L P V \<and> lock_ok s L P R \<and> size_ok s L"

text \<open>
  What the cache holds: the pairs of a whole-page token prefix and its KV slots.
\<close>

definition content :: "nat \<Rightarrow> nat set \<Rightarrow> (nat \<Rightarrow> nat list) \<Rightarrow> (nat \<Rightarrow> nat list) \<Rightarrow> (nat list \<times> nat list) set" where
  "content ps L P V = {(take k (P n), take k (V n)) | n k. n \<in> L \<and> k \<le> length (P n) \<and> ps dvd k}"

lemma radix_okD:
  assumes "radix_ok s L P V R"
  shows "\<not> rx_disable s" and "tree_ok s L P V" and "lock_ok s L P R" and "size_ok s L"
  using assms by (simp_all add: radix_ok_def)

lemma refs_at_cong:
  "P' n = P n \<Longrightarrow> (\<And>h. h \<in># R \<Longrightarrow> P' h = P h) \<Longrightarrow> refs_at P' R n = refs_at P R n"
  unfolding refs_at_def by (metis (mono_tags, lifting) filter_mset_cong0)

lemma size_ok_cong:
  assumes "size_ok s L" and "rx_root s' = rx_root s"
    and "rx_evictable s' = rx_evictable s" and "rx_protected s' = rx_protected s"
    and "\<And>n. n \<in> L \<Longrightarrow> rx_lock s' n = rx_lock s n \<and> rx_key s' n = rx_key s n"
  shows "size_ok s' L"
proof -
  have "(\<Sum>n\<in>L - {rx_root s}. unlocked_len s' n) = (\<Sum>n\<in>L - {rx_root s}. unlocked_len s n)"
    "(\<Sum>n\<in>L - {rx_root s}. locked_len s' n) = (\<Sum>n\<in>L - {rx_root s}. locked_len s n)"
    using assms(5) by (intro sum.cong refl; simp add: unlocked_len_def locked_len_def)+
  then show ?thesis using assms(1-4) by (simp add: size_ok_def)
qed

lemma radix_ok_touch: "radix_ok s L P V R \<Longrightarrow> radix_ok (touch s n) L P V R"
  using size_ok_cong [of s L "touch s n"] by (simp add: radix_ok_def tree_ok_touch lock_ok_def)

text \<open>The KV slots that the tree owns.\<close>

definition tree_slots :: "radix \<Rightarrow> nat set \<Rightarrow> nat multiset" where
  "tree_slots s L = (\<Sum>n\<in>L. mset (rx_value s n))"

lemma tree_slots_touch [simp]: "tree_slots (touch s n) L = tree_slots s L"
  by (simp add: tree_slots_def)

lemma below_split:
  assumes ok: "tree_ok s L P V" and p: "p \<in> L" and c: "child_of s p child" and h: "h \<in> L"
    and k: "rx_page_size s \<le> k" and pre: "prefix (P p @ take k (rx_key s child)) (P h)"
  shows "prefix (P child) (P h)"
proof -
  note C = tree_child_of [OF ok p c]
  have page: "rx_page_size s \<le> length (rx_key s child)" by (rule tree_key_page [OF ok C(1,2)])
  have "p \<noteq> h" using pre page k tree_ps [OF ok] by (auto simp: prefix_def)
  moreover have "prefix (P p) (P h)" using pre by (meson append_prefixD)
  ultimately obtain d where d: "child_of s p d" "prefix (P d) (P h)"
    using tree_descend [OF ok p h] by blast
  note D = tree_child_of [OF ok p d(1)]
  obtain ys where ys: "P h = P p @ ys" using pre by (auto simp: prefix_def)
  have "prefix (take k (rx_key s child)) ys" "prefix (rx_key s d) ys"
    using pre d(2) D(4) ys by simp_all
  then have "take (rx_page_size s) (take k (rx_key s child)) = take (rx_page_size s) ys"
    "take (rx_page_size s) (rx_key s d) = take (rx_page_size s) ys"
    using page k tree_key_page [OF ok D(1,2)] by (intro prefix_take_eq; simp)+
  then have "child = d"
    using tree_child_unique [OF ok p c d(1)] k by (simp add: min_def)
  then show ?thesis using d(2) by simp
qed

lemma content_insert_prefix:
  assumes "child \<in> L" and "new \<notin> L" and "prefix xs (P child)" and "ys = take (length xs) (V child)"
  shows "content ps (insert new L) (P(new := xs)) (V(new := ys)) = content ps L P V"
proof -
  have "(take k xs, take k ys) \<in> content ps L P V" if "k \<le> length xs" "ps dvd k" for k
  proof -
    have "k \<le> length (P child)" using that(1) prefix_length_le [OF assms(3)] by simp
    moreover have "take k xs = take k (P child)" using that(1) assms(3) by (metis prefix_take_eq)
    moreover have "take k ys = take k (V child)" using that(1) assms(4) by simp
    ultimately show ?thesis using assms(1) that(2) unfolding content_def by blast
  qed
  moreover have "n \<in> L \<Longrightarrow> n \<noteq> new" for n using assms(2) by blast
  ultimately show ?thesis unfolding content_def by (auto; fastforce)
qed

lemma radix_ok_split:
  assumes ok: "radix_ok s L P V R" and child: "child \<in> L" "child \<noteq> rx_root s"
    and par: "rx_parent s child = Some p"
    and k: "0 < k" "k < length (rx_key s child)" "rx_page_size s dvd k"
    and s': "s' = snd (split_node s (rx_key s child) child k)" and new: "new = rx_counter s"
    and P': "P' = P(new := P p @ take k (rx_key s child))"
    and V': "V' = V(new := V p @ take k (rx_value s child))"
  shows "radix_ok s' (insert new L) P' V' R"
    and "content ps (insert new L) P' V' = content ps L P V"
    and "new \<notin> L" and "rx_value s' new = take k (rx_value s child)"
    and "tree_slots s' (insert new L) = tree_slots s L"
proof -
  note T = radix_okD(2) [OF ok] and LO = radix_okD(3) [OF ok] and SO = radix_okD(4) [OF ok]
  show fresh: "new \<notin> L" using tree_fresh [OF T] new by blast
  note pc = tree_parent_neq [OF T child(1) par child(2)]
  note C = tree_child_of [OF T pc(1,3)] and F = tree_node_fields [OF T child]
  have psk: "rx_page_size s \<le> k" using k by (simp add: dvd_imp_le)
  have ne: "p \<noteq> child" "p \<noteq> new" "child \<noteq> new" "rx_root s \<noteq> new" "rx_root s \<noteq> child"
    using pc fresh child tree_root [OF T] by auto
  note nodes = split_node_nodes [OF par pc(2), folded new, OF ne(2,3)]
  have fields: "rx_lock s' n = (if n = new then rx_lock s child else rx_lock s n)"
    "rx_key s' n = (if n = new then take k (rx_key s child)
                    else if n = child then drop k (rx_key s child) else rx_key s n)" for n
    using ne by (simp_all add: s' nodes)
  show "rx_value s' new = take k (rx_value s child)"
    using ne by (simp add: s' nodes)
  have vals: "rx_value s' n = (if n = new then take k (rx_value s child)
                    else if n = child then drop k (rx_value s child) else rx_value s n)" for n
    using ne by (simp add: s' nodes)
  show "tree_slots s' (insert new L) = tree_slots s L"
  proof -
    have L: "finite L" "L = insert child (L - {child})" using tree_finite [OF T] child by auto
    have rest: "(\<Sum>n\<in>L - {child}. mset (rx_value s' n)) = (\<Sum>n\<in>L - {child}. mset (rx_value s n))"
      by (rule sum.cong) (use fresh vals in auto)
    have "tree_slots s' (insert new L) = mset (take k (rx_value s child)) + (\<Sum>n\<in>L. mset (rx_value s' n))"
      using L(1) fresh by (simp add: tree_slots_def vals [of new])
    also have "(\<Sum>n\<in>L. mset (rx_value s' n)) = mset (drop k (rx_value s child)) + (\<Sum>n\<in>L - {child}. mset (rx_value s n))"
      using L(1) child(1) ne(3) rest by (simp add: sum.remove [of L child] vals [of child])
    finally show ?thesis
      using L(1) child(1) mset_take_drop [of k "rx_value s child"]
      by (simp add: tree_slots_def sum.remove [of L child] flip: add.assoc)
  qed
  have Pnew: "P' new = P p @ take k (rx_key s child)" "\<And>n. n \<in> L \<Longrightarrow> P' n = P n"
    using fresh by (auto simp: P')
  have R: "set_mset R \<subseteq> L" using LO by (simp add: lock_ok_def)
  have "prefix (P' new) (P' h) \<longleftrightarrow> prefix (P child) (P h)" if "h \<in># R" for h
  proof
    have h: "h \<in> L" "P' h = P h" using that R Pnew by auto
    show "prefix (P child) (P h)" if "prefix (P' new) (P' h)"
      using below_split [OF T pc(1,3) h(1) psk] that Pnew(1) h(2) by simp
    show "prefix (P' new) (P' h)" if pre: "prefix (P child) (P h)"
    proof -
      have "prefix (P' new) (P child)" using Pnew(1) C(4) by (simp add: take_is_prefix)
      then show ?thesis using pre h(2) by (metis prefix_order.trans)
    qed
  qed
  then have rnew: "refs_at P' R new = refs_at P R child"
    unfolding refs_at_def by (metis (mono_tags, lifting) filter_mset_cong0)
  have rold: "refs_at P' R n = refs_at P R n" if "n \<in> L" for n
    using that R Pnew by (intro refs_at_cong) auto
  have "lock_ok s' (insert new L) P' R"
    unfolding lock_ok_def
  proof (intro conjI ballI impI)
    show "set_mset R \<subseteq> insert new L" using R by blast
    fix n assume n: "n \<in> insert new L" "n \<noteq> rx_root s'"
    moreover have "rx_root s' = rx_root s" by (simp add: s')
    ultimately show "rx_lock s' n = refs_at P' R n"
      using LO rnew rold [of n] child fresh fields(1) [of n] unfolding lock_ok_def
      by (cases "n = new") auto
  qed
  moreover have "size_ok s' (insert new L)"
  proof -
    let ?A = "L - {rx_root s}"
    have A: "finite ?A" "child \<in> ?A" "new \<notin> ?A" using tree_finite [OF T] child fresh by auto
    have sums: "(\<Sum>n\<in>insert new L - {rx_root s'}. f' n) = (\<Sum>n\<in>?A. f n)"
      if "f' new + f' child = f child" "\<And>n. n \<in> L \<Longrightarrow> n \<noteq> child \<Longrightarrow> f' n = f n" for f f' :: "nat \<Rightarrow> int"
    proof -
      have "insert new L - {rx_root s'} = insert new ?A" using ne by (auto simp: s')
      then have "(\<Sum>n\<in>insert new L - {rx_root s'}. f' n) = f' new + (\<Sum>n\<in>?A. f' n)"
        using A by simp
      also have "(\<Sum>n\<in>?A. f' n) = f' child + (\<Sum>n\<in>?A - {child}. f n)"
      proof -
        have "(\<Sum>n\<in>?A - {child}. f' n) = (\<Sum>n\<in>?A - {child}. f n)"
          by (rule sum.cong) (use that(2) in auto)
        then show ?thesis using A by (simp add: sum.remove [of ?A child])
      qed
      also have "f' new + (f' child + (\<Sum>n\<in>?A - {child}. f n)) = (\<Sum>n\<in>?A. f n)"
        using A that(1) by (simp add: sum.remove [of ?A child])
      finally show ?thesis .
    qed
    have "(\<Sum>n\<in>insert new L - {rx_root s'}. unlocked_len s' n) = (\<Sum>n\<in>?A. unlocked_len s n)"
      using fresh ne k by (intro sums) (auto simp: unlocked_len_def fields)
    moreover have "(\<Sum>n\<in>insert new L - {rx_root s'}. locked_len s' n) = (\<Sum>n\<in>?A. locked_len s n)"
      using fresh ne k by (intro sums) (auto simp: locked_len_def fields)
    ultimately show ?thesis using SO by (simp add: size_ok_def) (simp add: s')
  qed
  moreover have "tree_ok s' (insert new L) P' V'"
    unfolding P' V' by (rule tree_ok_split [OF T child par k s' new])
  ultimately show "radix_ok s' (insert new L) P' V' R"
    using radix_okD(1) [OF ok] by (simp add: radix_ok_def) (simp add: s')
  show "content ps (insert new L) P' V' = content ps L P V"
    unfolding P' V'
  proof (rule content_insert_prefix [OF child(1) fresh])
    show "prefix (P p @ take k (rx_key s child)) (P child)" by (simp add: C(4) take_is_prefix)
    show "V p @ take k (rx_value s child) = take (length (P p @ take k (rx_key s child))) (V child)"
      using tree_path_vals [OF T pc(1)] k by (simp add: C(5))
  qed
qed

section \<open>Matching\<close>

text \<open>
  \<open>longest L P K n\<close>: \<open>n\<close> is a node on the path \<open>K\<close>, and no cached whole-page prefix of \<open>K\<close> is longer.
\<close>

definition longest :: "nat \<Rightarrow> nat set \<Rightarrow> (nat \<Rightarrow> nat list) \<Rightarrow> nat list \<Rightarrow> nat \<Rightarrow> bool" where
  "longest ps L P K n \<longleftrightarrow> n \<in> L \<and> prefix (P n) K \<and>
     (\<forall>m\<in>L. \<forall>k. is_match ps (P m) K k \<longrightarrow> k \<le> length (P n))"

lemma content_match:
  "(ks, vs) \<in> content ps L P V \<Longrightarrow> prefix ks K \<Longrightarrow> \<exists>m\<in>L. is_match ps (P m) K (length ks)"
  unfolding content_def is_match_def
  by (auto simp: prefix_def min_def intro!: bexI)

lemma page_gap:
  assumes "i < m" and "ps dvd i" and "ps dvd m"
  shows "i + ps \<le> (m :: nat)"
  using assms by (metis dvd_diff_nat dvd_imp_le le_diff_conv2 less_imp_le zero_less_diff add.commute)

lemma is_match_prefix: "is_match ps xs ys j \<Longrightarrow> take j xs = take j ys \<and> prefix (take j xs) ys"
  by (metis is_match_def take_is_prefix)

text \<open>A cached prefix of \<open>K\<close> longer than the path of \<open>n\<close> runs through a child of \<open>n\<close>.\<close>

lemma longer_match_child:
  assumes ok: "tree_ok s L P V" and n: "n \<in> L" and K: "K = P n @ key" and m: "m \<in> L"
    and match: "is_match (rx_page_size s) (P m) K k" and k: "length (P n) < k"
  obtains c where "(child_key_fn (rx_page_size s) key, c) \<in> set (rx_children s n)"
    and "c \<in> L" and "c \<noteq> rx_root s" and "child_of s n c" and "prefix (P c) (P m)"
    and "P c = P n @ rx_key s c" and "V c = V n @ rx_value s c"
proof -
  let ?ps = "rx_page_size s"
  have len: "length (P n) + ?ps \<le> k" "k \<le> length (P m)" "k \<le> length K"
    using page_gap [OF k] tree_path_vals [OF ok n] match by (auto simp: is_match_def)
  have eq: "take k (P m) = take k K" using match by (simp add: is_match_def)
  have Pn: "P n = take (length (P n)) (P m)"
  proof -
    have "take (length (P n)) (P m) = take (length (P n)) (take k (P m))" using k by (simp add: min_def)
    also have "\<dots> = P n" using k by (simp add: eq K)
    finally show ?thesis by simp
  qed
  then have "prefix (P n) (P m)" by (metis take_is_prefix)
  moreover have "n \<noteq> m" using k len by auto
  ultimately obtain c where c:
    "(child_key_fn ?ps (drop (length (P n)) (P m)), c) \<in> set (rx_children s n)"
    "c \<in> L" "prefix (P c) (P m)" "child_of s n c"
    using tree_child_below [OF ok n m] by metis
  have "take ?ps (drop (length (P n)) (P m)) = take ?ps (drop (length (P n)) (take k (P m)))"
    using len by (simp add: drop_take min_def)
  also have "\<dots> = take ?ps key"
  proof -
    have "?ps \<le> k - length (P n)" using len(1) by simp
    moreover have "length (P n) \<le> k" using len(1) by simp
    ultimately show ?thesis unfolding eq K by (simp add: drop_take min_def)
  qed
  finally have "child_key_fn ?ps (drop (length (P n)) (P m)) = child_key_fn ?ps key"
    by (simp add: child_key_fn_def)
  then show ?thesis using that c tree_child_of [OF ok n c(4)] by metis
qed

lemma map_of_children:
  assumes "tree_ok s L P V" and "n \<in> L"
  shows "map_of (rx_children s n) k = Some c \<longleftrightarrow> (k, c) \<in> set (rx_children s n)"
  using map_of_eq_Some_iff [OF tree_distinct [OF assms]] .

lemma longest_stop:
  assumes ok: "tree_ok s L P V" and n: "n \<in> L" and K: "K = P n @ key"
    and stop: "key = [] \<or> map_of (rx_children s n) (child_key_fn (rx_page_size s) key) = None"
  shows "longest (rx_page_size s) L P K n"
  unfolding longest_def
proof (intro conjI ballI allI impI)
  fix m k assume m: "m \<in> L" and match: "is_match (rx_page_size s) (P m) K k"
  show "k \<le> length (P n)"
  proof (rule ccontr)
    assume "\<not> k \<le> length (P n)"
    then have k: "length (P n) < k" by simp
    then have "key \<noteq> []" using match K by (auto simp: is_match_def)
    then show False
      using longer_match_child [OF ok n K m match k] stop map_of_children [OF ok n] by (metis option.distinct(1))
  qed
qed (use n K in auto)

text \<open>The node made by the split of a child that matches only partly is the longest match.\<close>

lemma longest_split:
  assumes ok: "tree_ok s L P V" and n: "n \<in> L" and K: "K = P n @ key" and kd: "rx_page_size s dvd length key"
    and c: "(child_key_fn (rx_page_size s) key, c) \<in> set (rx_children s n)"
    and k: "k = key_match_fn (rx_page_size s) (rx_key s c) key" and kl: "k < length (rx_key s c)"
    and new: "new \<notin> L" and P': "P' = P(new := P n @ take k (rx_key s c))"
  shows "longest (rx_page_size s) (insert new L) P' K new"
proof -
  let ?ps = "rx_page_size s"
  note C = tree_child [OF ok n c]
  note F = tree_node_fields [OF ok C(1,2)]
  note km = key_match_fn_match [OF tree_ps [OF ok] F(2) kd, folded k]
  have kk: "k \<le> length key" "take k (rx_key s c) = take k key" "?ps dvd k"
    using km(1) by (auto simp: is_match_def)
  have Pnew: "P' new = P n @ take k key" "\<And>m. m \<in> L \<Longrightarrow> P' m = P m"
    using new kk by (auto simp: P')
  have le: "j \<le> length (P n) + k" if m: "m \<in> L" and match: "is_match ?ps (P m) K j" for m j
  proof (rule ccontr)
    assume "\<not> j \<le> length (P n) + k"
    then have j: "length (P n) + k < j" "length (P n) < j" by auto
    obtain d where d: "(child_key_fn ?ps key, d) \<in> set (rx_children s n)" "prefix (P d) (P m)"
      using longer_match_child [OF ok n K m match j(2)] by metis
    have "d = c" using distinct_map_fst_eq [OF tree_distinct [OF ok n] d(1) c] .
    then obtain zs where zs: "P m = P n @ rx_key s c @ zs" using d(2) C(5) by (auto simp: prefix_def)
    let ?i = "min (j - length (P n)) (length (rx_key s c))"
    have "take (j - length (P n)) (rx_key s c @ zs) = take (j - length (P n)) key"
      using match j(2) unfolding is_match_def zs K by simp
    then have "take ?i (rx_key s c @ zs) = take ?i key" by (metis min.commute take_take)
    then have "take ?i (rx_key s c) = take ?i key" by simp
    moreover have "?ps dvd ?i"
      using match tree_path_vals [OF ok n] F(2) by (auto simp: is_match_def min_def dvd_diff_nat)
    moreover have "?i \<le> length key" using match K by (auto simp: is_match_def)
    ultimately have "?i \<le> k" by (intro km(2)) (simp add: is_match_def)
    then show False using j kl by auto
  qed
  show ?thesis
    unfolding longest_def
  proof (intro conjI ballI allI impI)
    show "prefix (P' new) K" unfolding Pnew K by (simp add: take_is_prefix)
    fix m j assume m: "m \<in> insert new L" and match: "is_match ?ps (P' m) K j"
    show "j \<le> length (P' new)"
    proof (cases "m = new")
      case True
      then show ?thesis using match by (simp add: is_match_def)
    next
      case False
      then show ?thesis using m match le [of m j] Pnew kk(1) by simp
    qed
  qed simp
qed


text \<open>
  What a run of the match loop gives: the values along the path, the longest match, the same
  content, and the old nodes where they were.
\<close>

definition extends_tree ::
  "nat set \<Rightarrow> (nat \<Rightarrow> nat list) \<Rightarrow> (nat \<Rightarrow> nat list) \<Rightarrow> nat set \<Rightarrow> (nat \<Rightarrow> nat list) \<Rightarrow> (nat \<Rightarrow> nat list) \<Rightarrow> bool" where
  "extends_tree L P V L' P' V' \<longleftrightarrow> L \<subseteq> L' \<and> (\<forall>n\<in>L. P' n = P n \<and> V' n = V n)"

lemma extends_tree_refl [simp]: "extends_tree L P V L P V"
  by (simp add: extends_tree_def)

lemma extends_tree_trans:
  "extends_tree L P V L1 P1 V1 \<Longrightarrow> extends_tree L1 P1 V1 L2 P2 V2 \<Longrightarrow> extends_tree L P V L2 P2 V2"
  unfolding extends_tree_def by (metis subset_iff)

lemma extends_tree_insert: "new \<notin> L \<Longrightarrow> extends_tree L P V (insert new L) (P(new := x)) (V(new := y))"
  by (auto simp: extends_tree_def)

definition same_config :: "radix \<Rightarrow> radix \<Rightarrow> bool" where
  "same_config s s' \<longleftrightarrow> rx_root s' = rx_root s \<and> rx_page_size s' = rx_page_size s"

lemma same_config_refl [simp]: "same_config s s" "same_config s (touch s n)"
  by (simp_all add: same_config_def)

lemma same_config_trans: "same_config s1 s2 \<Longrightarrow> same_config s2 s3 \<Longrightarrow> same_config s1 s3"
  by (simp add: same_config_def)

text \<open>One step of both loops: the child that the key selects, and how far it matches.\<close>

lemma match_step:
  assumes ok: "radix_ok s L P V R" and n: "n \<in> L" and kd: "rx_page_size s dvd length key" and ne: "key \<noteq> []"
    and c: "map_of (rx_children s n) (child_key_fn (rx_page_size s) key) = Some c"
    and k: "k = key_match_fn (rx_page_size s) (rx_key s c) key"
  shows "(child_key_fn (rx_page_size s) key, c) \<in> set (rx_children s n)"
    and "0 < k" and "k \<le> length key" and "k \<le> length (rx_key s c)" and "take k (rx_key s c) = take k key"
    and "rx_page_size s dvd k" and "rx_page_size s dvd length (drop k key)"
proof -
  let ?ps = "rx_page_size s"
  note T = radix_okD(2) [OF ok]
  show c': "(child_key_fn ?ps key, c) \<in> set (rx_children s n)"
    using c map_of_children [OF T n] by blast
  note C = tree_child [OF T n c']
  note F = tree_node_fields [OF T C(1,2)]
  note km = key_match_fn_match [OF tree_ps [OF T] F(2) kd, folded k]
  show *: "k \<le> length key" "k \<le> length (rx_key s c)" "take k (rx_key s c) = take k key" "?ps dvd k"
    using km(1) by (auto simp: is_match_def)
  show "?ps dvd length (drop k key)" using kd * by (simp add: dvd_diff_nat)
  have "?ps \<le> length key" using kd ne by (simp add: dvd_imp_le)
  then have "is_match ?ps (rx_key s c) key ?ps"
    using C(4) tree_key_page [OF T C(1,2)] by (simp add: is_match_def child_key_fn_def)
  then have "?ps \<le> k" by (rule km(2))
  then show "0 < k" using tree_ps [OF T] by simp
qed

lemma match_loop_ok:
  assumes "radix_ok s L P V R" and "n \<in> L" and "rx_page_size s dvd length key"
  shows "\<exists>vals n' s' L' P' V'. match_loop s n key acc = Some (acc @ vals, n', s') \<and>
     radix_ok s' L' P' V' R \<and> content (rx_page_size s) L' P' V' = content (rx_page_size s) L P V \<and>
     longest (rx_page_size s) L' P' (P n @ key) n' \<and> V' n' = V n @ concat vals \<and>
     extends_tree L P V L' P' V' \<and> same_config s s' \<and> tree_slots s' L' = tree_slots s L \<and>
     rx_evictable s' = rx_evictable s \<and> rx_protected s' = rx_protected s"
  using assms
proof (induction "length key" arbitrary: s L P V n key acc rule: less_induct)
  case less
  note ok = less.prems(1) and n = less.prems(2) and kd = less.prems(3)
  note T = radix_okD(2) [OF ok]
  let ?ps = "rx_page_size s"
  consider (stop) "key = [] \<or> map_of (rx_children s n) (child_key_fn ?ps key) = None"
    | (child) c where "key \<noteq> []" "map_of (rx_children s n) (child_key_fn ?ps key) = Some c"
    by blast
  then show ?case
  proof cases
    case stop
    then have "match_loop s n key acc = Some (acc @ [], n, s)"
      by (subst match_loop.simps) auto
    then show ?thesis
      using ok longest_stop [OF T n refl stop]
      by (intro exI [of _ "[]"] exI [of _ n] exI [of _ s] exI [of _ L] exI [of _ P] exI [of _ V]) simp
  next
    case (child c)
    define k where "k = key_match_fn ?ps (rx_key s c) key"
    note step = match_step [OF ok n kd child k_def]
    note C = tree_child [OF T n step(1)]
    let ?s1 = "touch s c"
    have ok1: "radix_ok ?s1 L P V R" by (rule radix_ok_touch [OF ok])
    show ?thesis
    proof (cases "k < length (rx_key s c)")
      case True
      define new where "new = rx_counter s"
      define s' where "s' = snd (split_node ?s1 (rx_key ?s1 c) c k)"
      let ?P = "P(new := P n @ take k (rx_key s c))" and ?V = "V(new := V n @ take k (rx_value s c))"
      note sp = radix_ok_split [OF ok1 C(1) _ _ step(2) _ _ s'_def refl refl refl, of n]
      have ok': "radix_ok s' (insert new L) ?P ?V R"
        and cont: "content ?ps (insert new L) ?P ?V = content ?ps L P V"
        and fresh: "new \<notin> L" and val: "rx_value s' new = take k (rx_value s c)"
        and slots: "tree_slots s' (insert new L) = tree_slots s L"
        using sp C(2,3) True step(6) by (simp_all add: new_def)
      have "split_node ?s1 (rx_key ?s1 c) c k = (new, s')"
        by (simp add: prod_eq_iff s'_def new_def)
      then have run: "match_loop s n key acc = Some (acc @ [rx_value s' new], new, s')"
        using child True k_def by (subst match_loop.simps) (simp add: Let_def)
      have "longest ?ps (insert new L) ?P (P n @ key) new"
        using longest_split [OF T n refl kd step(1) k_def True fresh refl] by simp
      moreover have "same_config s s'" "rx_evictable s' = rx_evictable s" "rx_protected s' = rx_protected s"
        by (simp_all add: same_config_def s'_def)
      ultimately show ?thesis
        using run ok' cont extends_tree_insert [OF fresh, of P V] val slots
        by (intro exI [of _ "[rx_value s' new]"] exI [of _ new] exI [of _ s'] exI [of _ "insert new L"]
            exI [of _ ?P] exI [of _ ?V]) simp
    next
      case False
      then have klen: "k = length (rx_key s c)" using step(4) by simp
      have run: "match_loop s n key acc = match_loop ?s1 c (drop k key) (acc @ [rx_value s c])"
        using child False by (subst match_loop.simps) (simp add: Let_def k_def)
      have key: "key = rx_key s c @ drop k key"
        using step(5) klen by (metis append_take_drop_id order_refl take_all)
      have shorter: "length (drop k key) < length key" using step(2,3) by simp
      have "rx_page_size ?s1 dvd length (drop k key)" using step(7) by simp
      from less.hyps [OF shorter ok1 C(1) this, of "acc @ [rx_value s c]", unfolded touch_simps]
      obtain vals n' s' L' P' V' where
        *: "match_loop ?s1 c (drop k key) (acc @ [rx_value s c]) = Some ((acc @ [rx_value s c]) @ vals, n', s')"
        "radix_ok s' L' P' V' R" "content ?ps L' P' V' = content ?ps L P V"
        "longest ?ps L' P' (P c @ drop k key) n'" "V' n' = V c @ concat vals"
        "extends_tree L P V L' P' V'" "same_config ?s1 s'" "tree_slots s' L' = tree_slots ?s1 L"
        "rx_evictable s' = rx_evictable s" "rx_protected s' = rx_protected s"
        unfolding tree_slots_touch by blast
      have K: "P c @ drop k key = P n @ key" using C(5) key by simp
      have "match_loop s n key acc = Some (acc @ (rx_value s c # vals), n', s')"
        using run *(1) by simp
      moreover have "longest ?ps L' P' (P n @ key) n'" using *(4) unfolding K .
      moreover have "V' n' = V n @ concat (rx_value s c # vals)" using *(5) C(6) by simp
      moreover have "same_config s s'" using *(7) by (simp add: same_config_def)
      ultimately show ?thesis using *(2,3,6,8-) unfolding tree_slots_touch by blast
    qed
  qed
qed


section \<open>The content is a map\<close>

lemma prefix_vals:
  assumes ok: "tree_ok s L P V" and "m \<in> L"
  shows "n \<in> L \<Longrightarrow> prefix (P n) (P m) \<Longrightarrow> prefix (V n) (V m)"
proof (induction "length (P m) - length (P n)" arbitrary: n rule: less_induct)
  case less
  show ?case
  proof (cases "n = m")
    case False
    then obtain c where c: "child_of s n c" "prefix (P c) (P m)"
      using tree_descend [OF ok less.prems(1) assms(2) less.prems(2)] by blast
    note C = tree_child_of [OF ok less.prems(1) c(1)]
    have "length (P n) < length (P c)" "length (P c) \<le> length (P m)"
      using child_longer [OF ok less.prems(1) c(1)] prefix_length_le [OF c(2)] by auto
    then have "prefix (V c) (V m)" using less.hyps [of c] C(1) c(2) by simp
    then show ?thesis using C(5) by (metis append_prefixD)
  qed simp
qed

lemma match_vals:
  assumes ok: "tree_ok s L P V" and n: "n \<in> L" and m: "m \<in> L"
    and match: "is_match (rx_page_size s) (P n) (P m) k"
  shows "take k (V n) = take k (V m)"
proof -
  let ?ps = "rx_page_size s"
  have "take k (V n) = take k (V m)" if "x \<in> L" "prefix (P x) (P n)" "prefix (P x) (P m)" for x
    using that
  proof (induction "k - length (P x)" arbitrary: x rule: less_induct)
    case less
    note x = less.prems
    have V: "prefix (V x) (V n)" "prefix (V x) (V m)" "length (V x) = length (P x)"
      using prefix_vals [OF ok] x n m tree_path_vals [OF ok x(1)] by auto
    show ?case
    proof (cases "k \<le> length (P x)")
      case True
      then show ?thesis using V by (metis prefix_take_eq)
    next
      case False
      then have k: "length (P x) < k" by simp
      obtain ys where ys: "P n = P x @ ys" using x(2) by (auto simp: prefix_def)
      have nn: "is_match ?ps (P n) (P n) k" "is_match ?ps (P m) (P n) k"
        using match by (auto simp: is_match_def)
      obtain c where c: "(child_key_fn ?ps ys, c) \<in> set (rx_children s x)" "c \<in> L" "child_of s x c" "prefix (P c) (P n)"
        using longer_match_child [OF ok x(1) ys n nn(1) k] by metis
      obtain d where d: "(child_key_fn ?ps ys, d) \<in> set (rx_children s x)" "prefix (P d) (P m)"
        using longer_match_child [OF ok x(1) ys m nn(2) k] by metis
      have "c = d" using distinct_map_fst_eq [OF tree_distinct [OF ok x(1)] c(1) d(1)] .
      moreover have "length (P x) < length (P c)" by (rule child_longer [OF ok x(1) c(3)])
      ultimately show ?thesis using less.hyps [of c] c d k by simp
    qed
  qed
  then show ?thesis using tree_root [OF ok] tree_root_path(1) [OF ok] by simp
qed

lemma content_map:
  assumes ok: "tree_ok s L P V" and c: "(ks, vs) \<in> content (rx_page_size s) L P V"
    and n: "n \<in> L" and pre: "prefix ks (P n)"
  shows "vs = take (length ks) (V n)"
proof -
  obtain m k where m: "m \<in> L" "k \<le> length (P m)" "rx_page_size s dvd k"
    "ks = take k (P m)" "vs = take k (V m)"
    using c by (auto simp: content_def)
  have k: "length ks = k" using m by simp
  have "is_match (rx_page_size s) (P m) (P n) k"
    using m pre prefix_length_le [OF pre] k by (auto simp: is_match_def prefix_def)
  from match_vals [OF ok m(1) n this] show ?thesis using m k by simp
qed

lemma content_length: 
  assumes "tree_ok s L P V" and "(ks, vs) \<in> content (rx_page_size s) L P V"
  shows "length vs = length ks \<and> rx_page_size s dvd length ks"
  using assms tree_path_vals [OF assms(1)] by (auto simp: content_def min_def)

lemma content_node:
  "tree_ok s L P V \<Longrightarrow> n \<in> L \<Longrightarrow> (P n, V n) \<in> content (rx_page_size s) L P V"
  using tree_path_vals [of s L P V n] unfolding content_def by force

text \<open>The longest cached prefix of \<open>key\<close>, as a statement about the content alone.\<close>

definition longest_cached :: "(nat list \<times> nat list) set \<Rightarrow> nat list \<Rightarrow> nat list \<Rightarrow> nat list \<Rightarrow> bool" where
  "longest_cached C key ks vs \<longleftrightarrow> (ks, vs) \<in> C \<and> prefix ks key \<and>
     (\<forall>(ks', vs')\<in>C. prefix ks' key \<longrightarrow> prefix ks' ks \<and> prefix vs' vs)"

lemma longest_longest_cached:
  assumes ok: "tree_ok s L P V" and l: "longest (rx_page_size s) L P K n"
  shows "longest_cached (content (rx_page_size s) L P V) K (P n) (V n)"
proof -
  have n: "n \<in> L" "prefix (P n) K" using l by (auto simp: longest_def)
  have "prefix ks (P n) \<and> prefix vs (V n)"
    if c: "(ks, vs) \<in> content (rx_page_size s) L P V" and pre: "prefix ks K" for ks vs
  proof -
    obtain m where "m \<in> L" "is_match (rx_page_size s) (P m) K (length ks)"
      using content_match [OF c pre] by blast
    then have "length ks \<le> length (P n)" using l by (auto simp: longest_def)
    then have p: "prefix ks (P n)" using prefix_length_prefix [OF pre n(2)] by blast
    then show ?thesis using content_map [OF ok c n(1) p] by (simp add: take_is_prefix)
  qed
  then show ?thesis using content_node [OF ok n(1)] n(2) by (auto simp: longest_cached_def)
qed

lemma longest_cached_aligned:
  assumes "\<And>ks vs. (ks, vs) \<in> C \<Longrightarrow> ps dvd length ks" and "0 < ps"
  shows "longest_cached C (take (page_aligned_len ps (length key)) key) ks vs \<longleftrightarrow> longest_cached C key ks vs"
proof -
  have "prefix ks (take (page_aligned_len ps (length key)) key) \<longleftrightarrow> prefix ks key" if "ps dvd length ks" for ks
  proof
    assume p: "prefix ks key"
    have "length ks \<le> page_aligned_len ps (length key)"
      using div_le_mono [OF prefix_length_le [OF p], of ps] that
      by (auto simp: page_aligned_len_def elim!: dvdE)
    then show "prefix ks (take (page_aligned_len ps (length key)) key)"
      using p by (auto simp: prefix_def)
  qed (metis prefix_order.trans take_is_prefix)
  then show ?thesis using assms(1) unfolding longest_cached_def by blast
qed

lemma match_prefix_ok:
  assumes ok: "radix_ok s L P V R"
  shows "\<exists>n s' L' P' V'. match_prefix s key = Some (V' n, n, s') \<and> radix_ok s' L' P' V' R \<and>
     content (rx_page_size s) L' P' V' = content (rx_page_size s) L P V \<and> n \<in> L' \<and>
     longest_cached (content (rx_page_size s) L P V) key (P' n) (V' n) \<and>
     extends_tree L P V L' P' V' \<and> same_config s s' \<and> tree_slots s' L' = tree_slots s L \<and>
     rx_evictable s' = rx_evictable s \<and> rx_protected s' = rx_protected s"
proof -
  let ?ps = "rx_page_size s" and ?r = "rx_root s"
  note T = radix_okD(2) [OF ok]
  note root = tree_root [OF T] tree_root_path [OF T]
  have al: "\<And>ks vs. (ks, vs) \<in> content ?ps L P V \<Longrightarrow> ?ps dvd length ks" using content_length [OF T] by blast
  show ?thesis
  proof (cases "key = []")
    case True
    have "longest ?ps L P [] ?r" using root by (simp add: longest_def is_match_def)
    from longest_longest_cached [OF T this]
    have "longest_cached (content ?ps L P V) [] (P ?r) (V ?r)" .
    then show ?thesis
      using True ok root by (intro exI [of _ ?r] exI [of _ s] exI [of _ L] exI [of _ P] exI [of _ V])
        (simp add: match_prefix_def)
  next
    case False
    define key' where "key' = take (page_aligned_len ?ps (length key)) key"
    have key': "(if ?ps \<noteq> 1 then take (page_aligned_len ?ps (length key)) key else key) = key'"
      by (simp add: key'_def page_aligned_len_def)
    have "length key' = page_aligned_len ?ps (length key)"
      by (simp add: key'_def page_aligned_len_def min_absorb2)
    then have "?ps dvd length key'" by (simp add: page_aligned_len_def)
    have aligned: "longest_cached (content ?ps L P V) key' ks vs \<longleftrightarrow> longest_cached (content ?ps L P V) key ks vs" for ks vs
      unfolding key'_def by (rule longest_cached_aligned [OF _ tree_ps [OF T]]) (rule al)
    from \<open>?ps dvd length key'\<close> have "rx_page_size (touch s ?r) dvd length key'" by simp
    from match_loop_ok [OF radix_ok_touch [OF ok] root(1) this, of "[]", unfolded touch_simps]
    obtain vals n s' L' P' V' where
      *: "match_loop (touch s ?r) ?r key' [] = Some ([] @ vals, n, s')" "radix_ok s' L' P' V' R"
      "content ?ps L' P' V' = content ?ps L P V" "longest ?ps L' P' (P ?r @ key') n" "V' n = V ?r @ concat vals"
      "extends_tree L P V L' P' V'" "same_config (touch s ?r) s'" "tree_slots s' L' = tree_slots s L"
      "rx_evictable s' = rx_evictable s" "rx_protected s' = rx_protected s"
      unfolding tree_slots_touch by blast
    have conf: "same_config s s'" using *(7) by (simp add: same_config_def)
    then have "longest (rx_page_size s') L' P' key' n" using *(4) root by (simp add: same_config_def)
    from longest_longest_cached [OF radix_okD(2) [OF *(2)] this]
    have "longest_cached (content ?ps L P V) key' (P' n) (V' n)"
      using conf *(3) by (simp add: same_config_def)
    then have "longest_cached (content ?ps L P V) key (P' n) (V' n)"
      using aligned by simp
    moreover have "match_prefix s key = Some (V' n, n, s')"
      using *(1,5) root False radix_okD(1) [OF ok]
      unfolding match_prefix_def Let_def key' match_prefix_helper_def by simp
    moreover have "n \<in> L'" using *(4) by (simp add: longest_def)
    ultimately show ?thesis using *(2,3,6,8-) conf
      by (intro exI [of _ n] exI [of _ s'] exI [of _ L'] exI [of _ P'] exI [of _ V']) simp
  qed
qed

section \<open>Insertion\<close>

lemma add_leaf_simps:
  assumes "node < rx_counter s"
  shows "rx_nodes (add_leaf s node key value) = (rx_nodes s)
     (rx_counter s := \<lparr>rn_children = [], rn_parent = Some node, rn_key = key, rn_value = value, rn_lock = 0,
        rn_time = rx_clock s (rx_ticks s)\<rparr>,
      node := (rx_nodes s node)\<lparr>rn_children :=
        AList.update (child_key_fn (rx_page_size s) key) (rx_counter s) (rx_children s node)\<rparr>)"
    and "rx_counter (add_leaf s node key value) = Suc (rx_counter s)"
    and "rx_root (add_leaf s node key value) = rx_root s"
    and "rx_evictable (add_leaf s node key value) = rx_evictable s + int (length value)"
    and "rx_protected (add_leaf s node key value) = rx_protected s"
    and "rx_page_size (add_leaf s node key value) = rx_page_size s"
    and "rx_disable (add_leaf s node key value) = rx_disable s"
  using assms by (auto simp: add_leaf_def tree_node_def Let_def)

lemma tree_ok_add_leaf:
  assumes ok: "tree_ok s L P V" and n: "n \<in> L"
    and key: "key \<noteq> []" "rx_page_size s dvd length key" "length value = length key"
    and none: "map_of (rx_children s n) (child_key_fn (rx_page_size s) key) = None"
    and s': "s' = add_leaf s n key value" and new: "new = rx_counter s"
  shows "tree_ok s' (insert new L) (P(new := P n @ key)) (V(new := V n @ value))"
proof -
  let ?ps = "rx_page_size s"
  have fresh: "new \<notin> L" using tree_fresh [OF ok] new by blast
  have nlt: "n < rx_counter s" using tree_fresh [OF ok n] .
  note A = add_leaf_simps [OF nlt, of key "value", folded s' new]
  have ne: "n \<noteq> new" "rx_root s \<noteq> new" using fresh n tree_root [OF ok] by auto
  have nodeD: "rx_children s' new = []" "rx_parent s' new = Some n" "rx_key s' new = key" "rx_value s' new = value"
    "rx_children s' n = AList.update (child_key_fn ?ps key) new (rx_children s n)"
    using ne by (simp_all add: A(1))
  have keep: "rx_key s' m = rx_key s m" "rx_value s' m = rx_value s m" "rx_parent s' m = rx_parent s m"
    if "m \<noteq> new" for m
    using that by (simp_all add: A(1))
  have keepc: "rx_children s' m = rx_children s m" if "m \<noteq> new" "m \<noteq> n" for m
    using that by (simp add: A(1))
  have nch: "set (rx_children s' n) = insert (child_key_fn ?ps key, new) (set (rx_children s n))"
  proof -
    have "\<And>e. e \<in> set (rx_children s n) \<Longrightarrow> fst e \<noteq> child_key_fn ?ps key"
      using none by (force simp: map_of_eq_None_iff)
    then show ?thesis unfolding nodeD(5) set_alist_update [OF tree_distinct [OF ok n]] by auto
  qed
  have sub: "set (rx_children s q) \<subseteq> set (rx_children s' q)" if "q \<in> L" for q
  proof -
    have "q \<noteq> new" using that fresh by blast
    then show ?thesis using nch keepc [of q] by (cases "q = n") auto
  qed
  show ?thesis
    unfolding tree_ok_def
  proof (intro conjI ballI impI)
    fix m assume m: "m \<in> insert new L" "m \<noteq> rx_root s'"
    show "\<exists>q\<in>insert new L. rx_parent s' m = Some q \<and>
        (P(new := P n @ key)) m = (P(new := P n @ key)) q @ rx_key s' m \<and>
        (V(new := V n @ value)) m = (V(new := V n @ value)) q @ rx_value s' m \<and>
        (child_key_fn (rx_page_size s') (rx_key s' m), m) \<in> set (rx_children s' q)"
    proof (cases "m = new")
      case True
      then show ?thesis using n ne nch by (intro bexI [of _ n]) (simp_all add: nodeD A(6))
    next
      case False
      then have mL: "m \<in> L" and mr: "m \<noteq> rx_root s" using m A(3) by simp_all
      obtain q where q: "q \<in> L" "rx_parent s m = Some q" "P m = P q @ rx_key s m"
        "V m = V q @ rx_value s m" "child_of s q m"
        using tree_parent [OF ok mL mr] by metis
      moreover have "q \<noteq> new" using q(1) fresh by blast
      moreover have "(child_key_fn ?ps (rx_key s m), m) \<in> set (rx_children s' q)"
        using sub [OF q(1)] q(5) by (auto simp: child_of_def)
      ultimately show ?thesis using keep [OF False] False by (intro bexI [of _ q]) (simp_all add: A(6))
    qed
    have "m = new \<or> m \<in> L \<and> m \<noteq> rx_root s \<and> m \<noteq> new" using m A(3) by auto
    then show "rx_key s' m \<noteq> []" "rx_page_size s' dvd length (rx_key s' m)"
      "length (rx_value s' m) = length (rx_key s' m)"
      using key tree_node_fields [OF ok, of m] keep [of m] by (auto simp: nodeD A(6))
  next
    fix m e assume m: "m \<in> insert new L" and e: "e \<in> set (rx_children s' m)"
    obtain j c where jc: "e = (j, c)" by fastforce
    have "m \<noteq> new" using e nodeD(1) by auto
    then have mL: "m \<in> L" using m by simp
    have "e = (child_key_fn ?ps key, new) \<and> m = n \<or> e \<in> set (rx_children s m)"
      using e nch keepc [OF \<open>m \<noteq> new\<close>] by (cases "m = n") auto
    then show "case e of (k', c') \<Rightarrow> c' \<in> insert new L \<and> c' \<noteq> rx_root s' \<and> rx_parent s' c' = Some m \<and>
        k' = child_key_fn (rx_page_size s') (rx_key s' c')"
    proof
      assume "e = (child_key_fn ?ps key, new) \<and> m = n"
      then show ?thesis using ne by (simp add: nodeD A(3,6))
    next
      assume "e \<in> set (rx_children s m)"
      then have "(j, c) \<in> set (rx_children s m)" using jc by simp
      from tree_child [OF ok mL this] have "c \<in> L" "c \<noteq> rx_root s" "rx_parent s c = Some m"
        "j = child_key_fn ?ps (rx_key s c)" by simp_all
      moreover have "c \<noteq> new" using \<open>c \<in> L\<close> fresh by blast
      ultimately show ?thesis using jc keep [of c] by (simp add: A(3,6))
    qed
  next
    fix m assume "m \<in> insert new L"
    then show "distinct (map fst (rx_children s' m))"
      using tree_distinct [OF ok] nodeD keepc [of m] n
      by (cases "m = new"; cases "m = n") (auto simp: distinct_update)
  next
    fix m assume "m \<in> insert new L"
    then show "m < rx_counter s'" using tree_fresh [OF ok] new by (auto simp: A(2) less_Suc_eq)
  qed (use tree_ps [OF ok] tree_finite [OF ok] tree_root [OF ok] tree_root_path [OF ok] tree_root_key [OF ok]
        ne keep [of "rx_root s"] in \<open>auto simp: A(3,6)\<close>)
qed

lemma radix_ok_add_leaf:
  assumes ok: "radix_ok s L P V R" and n: "n \<in> L"
    and key: "key \<noteq> []" "rx_page_size s dvd length key" "length value = length key"
    and none: "map_of (rx_children s n) (child_key_fn (rx_page_size s) key) = None"
    and l: "longest (rx_page_size s) L P (P n @ key) n"
    and s': "s' = add_leaf s n key value" and new: "new = rx_counter s"
  shows "radix_ok s' (insert new L) (P(new := P n @ key)) (V(new := V n @ value)) R" and "new \<notin> L"
proof -
  note T = radix_okD(2) [OF ok] and LO = radix_okD(3) [OF ok] and SO = radix_okD(4) [OF ok]
  let ?P = "P(new := P n @ key)"
  show fresh: "new \<notin> L" using tree_fresh [OF T] new by blast
  have nlt: "n < rx_counter s" using tree_fresh [OF T n] .
  note A = add_leaf_simps [OF nlt, of key "value", folded s' new]
  have ne: "n \<noteq> new" "rx_root s \<noteq> new" using fresh n tree_root [OF T] by auto
  have fields: "rx_lock s' m = (if m = new then 0 else rx_lock s m)"
    "rx_key s' m = (if m = new then key else rx_key s m)" for m
    using ne by (simp_all add: A(1))
  have R: "set_mset R \<subseteq> L" using LO by (simp add: lock_ok_def)
  have P: "\<And>m. m \<in> L \<Longrightarrow> ?P m = P m" using fresh by auto
  have "\<not> prefix (?P new) (?P h)" if "h \<in># R" for h
  proof
    assume "prefix (?P new) (?P h)"
    moreover have h: "h \<in> L" using that R by blast
    ultimately have "prefix (P n @ key) (P h)" using P by simp
    then have "is_match (rx_page_size s) (P h) (P n @ key) (length (P n @ key))"
      using key(2) tree_path_vals [OF T n] by (auto simp: is_match_def prefix_def)
    then have "length (P n @ key) \<le> length (P n)" using l h unfolding longest_def by blast
    then show False using key(1) by simp
  qed
  then have "{#h \<in># R. prefix (?P new) (?P h)#} = {#h \<in># R. False#}" by (intro filter_mset_cong0) blast
  then have rnew: "refs_at ?P R new = 0" unfolding refs_at_def by simp
  have rold: "refs_at ?P R m = refs_at P R m" if "m \<in> L" for m
    by (rule refs_at_cong) (use that R P in blast)+
  have "lock_ok s' (insert new L) ?P R"
    unfolding lock_ok_def
  proof (intro conjI ballI impI)
    show "set_mset R \<subseteq> insert new L" using R by blast
    fix m assume "m \<in> insert new L" "m \<noteq> rx_root s'"
    then show "rx_lock s' m = refs_at ?P R m"
      using LO rnew rold [of m] fields(1) [of m] A(3) unfolding lock_ok_def by (cases "m = new") auto
  qed
  moreover have "size_ok s' (insert new L)"
  proof -
    let ?A = "L - {rx_root s}"
    have B: "insert new L - {rx_root s'} = insert new ?A" "finite ?A" "new \<notin> ?A"
      using ne A(3) fresh tree_finite [OF T] by auto
    have "(\<Sum>m\<in>?A. unlocked_len s' m) = (\<Sum>m\<in>?A. unlocked_len s m)"
      "(\<Sum>m\<in>?A. locked_len s' m) = (\<Sum>m\<in>?A. locked_len s m)"
      using fresh by (intro sum.cong refl; auto simp: unlocked_len_def locked_len_def fields)+
    then show ?thesis
      using SO B key(3) A(4,5) by (simp add: size_ok_def fields unlocked_len_def [of s' new] locked_len_def [of s' new])
  qed
  moreover have "tree_ok s' (insert new L) ?P (V(new := V n @ value))"
    by (rule tree_ok_add_leaf [OF T n key none s' new])
  ultimately show "radix_ok s' (insert new L) ?P (V(new := V n @ value)) R"
    using radix_okD(1) [OF ok] A(7) by (simp add: radix_ok_def)
qed

lemma insert_loop_ok:
  assumes "radix_ok s L P V R" and "n \<in> L" and "rx_page_size s dvd length key"
  shows "\<exists>n' j s' L' P' V'. insert_loop s n key val t = Some (n', drop j key, drop j val, t + j, s') \<and>
     j \<le> length key \<and> P' n' = P n @ take j key \<and>
     (drop j key = [] \<or> map_of (rx_children s' n') (child_key_fn (rx_page_size s) (drop j key)) = None) \<and>
     radix_ok s' L' P' V' R \<and> content (rx_page_size s) L' P' V' = content (rx_page_size s) L P V \<and>
     longest (rx_page_size s) L' P' (P n @ key) n' \<and>
     extends_tree L P V L' P' V' \<and> same_config s s' \<and> tree_slots s' L' = tree_slots s L \<and>
     rx_evictable s' = rx_evictable s \<and> rx_protected s' = rx_protected s"
  using assms
proof (induction "length key" arbitrary: s L P V n key val t rule: less_induct)
  case less
  note ok = less.prems(1) and n = less.prems(2) and kd = less.prems(3)
  note T = radix_okD(2) [OF ok]
  let ?ps = "rx_page_size s"
  consider (stop) "key = [] \<or> map_of (rx_children s n) (child_key_fn ?ps key) = None"
    | (child) c where "key \<noteq> []" "map_of (rx_children s n) (child_key_fn ?ps key) = Some c"
    by blast
  then show ?case
  proof cases
    case stop
    then have "insert_loop s n key val t = Some (n, drop 0 key, drop 0 val, t + 0, s)"
      by (subst insert_loop.simps) auto
    then show ?thesis
      using ok stop longest_stop [OF T n refl stop]
      by (intro exI [of _ n] exI [of _ 0] exI [of _ s] exI [of _ L] exI [of _ P] exI [of _ V]) simp
  next
    case (child c)
    define k where "k = key_match_fn ?ps (rx_key s c) key"
    note step = match_step [OF ok n kd child k_def]
    note C = tree_child [OF T n step(1)]
    let ?s1 = "touch s c"
    have ok1: "radix_ok ?s1 L P V R" by (rule radix_ok_touch [OF ok])
    obtain c' s2 L2 P2 V2 where
      two: "(if k < length (rx_key ?s1 c) then split_node ?s1 (rx_key ?s1 c) c k else (c, ?s1)) = (c', s2)"
      "radix_ok s2 L2 P2 V2 R" "c' \<in> L2" "P2 c' = P n @ take k key"
      "content ?ps L2 P2 V2 = content ?ps L P V" "extends_tree L P V L2 P2 V2" "same_config s s2"
      "tree_slots s2 L2 = tree_slots s L" "rx_evictable s2 = rx_evictable s" "rx_protected s2 = rx_protected s"
    proof (cases "k < length (rx_key s c)")
      case True
      define new where "new = rx_counter s"
      define s' where "s' = snd (split_node ?s1 (rx_key ?s1 c) c k)"
      let ?P = "P(new := P n @ take k (rx_key s c))" and ?V = "V(new := V n @ take k (rx_value s c))"
      note sp = radix_ok_split [OF ok1 C(1) _ _ step(2) _ _ s'_def refl refl refl, of n]
      have "radix_ok s' (insert new L) ?P ?V R" "content ?ps (insert new L) ?P ?V = content ?ps L P V" "new \<notin> L"
        "tree_slots s' (insert new L) = tree_slots s L"
        using sp C(2,3) True step(6) by (simp_all add: new_def)
      moreover have "split_node ?s1 (rx_key ?s1 c) c k = (new, s')"
        by (simp add: prod_eq_iff s'_def new_def)
      moreover have "same_config s s'" "rx_evictable s' = rx_evictable s" "rx_protected s' = rx_protected s"
        by (simp_all add: same_config_def s'_def)
      ultimately show ?thesis
        using True step(5) extends_tree_insert [of new L P V]
        by (intro that [of new s' "insert new L" ?P ?V]) simp_all
    next
      case False
      then have "take k key = rx_key s c" using step(4,5) by simp
      with False show ?thesis
        using ok1 C(1,5) by (intro that [of c ?s1 L P V]) simp_all
    qed
    have run: "insert_loop s n key val t = insert_loop s2 c' (drop k key) (drop k val) (t + k)"
    proof -
      have pair: "(if k < length (rx_key s c) then split_node ?s1 (rx_key s c) c k else (c, ?s1)) = (c', s2)"
        using two(1) by (simp only: touch_simps)
      show ?thesis
        by (subst insert_loop.simps) (simp add: Let_def child pair split del: if_split cong: if_cong flip: k_def)
    qed
    have ps2: "rx_page_size s2 = ?ps" using two(7) by (simp add: same_config_def)
    have "length (drop k key) < length key" using step(2,3) by simp
    moreover have "rx_page_size s2 dvd length (drop k key)" using step(7) ps2 by simp
    ultimately obtain n' j s' L' P' V' where
      *: "insert_loop s2 c' (drop k key) (drop k val) (t + k) =
            Some (n', drop j (drop k key), drop j (drop k val), t + k + j, s')"
      "j \<le> length (drop k key)" "P' n' = P2 c' @ take j (drop k key)"
      "drop j (drop k key) = [] \<or> map_of (rx_children s' n') (child_key_fn ?ps (drop j (drop k key))) = None"
      "radix_ok s' L' P' V' R" "content ?ps L' P' V' = content ?ps L2 P2 V2"
      "longest ?ps L' P' (P2 c' @ drop k key) n'" "extends_tree L2 P2 V2 L' P' V'" "same_config s2 s'"
      "tree_slots s' L' = tree_slots s2 L2" "rx_evictable s' = rx_evictable s2" "rx_protected s' = rx_protected s2"
      using less.hyps [OF _ two(2,3), of "drop k key" "drop k val" "t + k"] unfolding ps2 by blast
    have "insert_loop s n key val t = Some (n', drop (k + j) key, drop (k + j) val, t + (k + j), s')"
      using run *(1) by (simp add: ac_simps)
    moreover have "P' n' = P n @ take (k + j) key" using *(3) two(4) by (simp add: take_add)
    moreover have "longest ?ps L' P' (P n @ key) n'" using *(7) two(4) by simp
    moreover have "k + j \<le> length key" using *(2) step(3) by simp
    moreover have "drop (k + j) key = [] \<or> map_of (rx_children s' n') (child_key_fn ?ps (drop (k + j) key)) = None"
      using *(4) by (simp add: add.commute)
    ultimately show ?thesis
      using *(5,6,10-) two(5,8-) extends_tree_trans [OF two(6) *(8)] same_config_trans [OF two(7) *(9)]
      by (intro exI [of _ n'] exI [of _ "k + j"] exI [of _ s'] exI [of _ L'] exI [of _ P'] exI [of _ V']) simp
  qed
qed

lemma content_insert_leaf:
  assumes "new \<notin> L" and "n \<in> L"
  shows "content ps (insert new L) (P(new := xs)) (V(new := ys)) =
    content ps L P V \<union> {(take i xs, take i ys) | i. i \<le> length xs \<and> ps dvd i}"
proof -
  have "m \<noteq> new" if "m \<in> L" for m using that assms(1) by blast
  then show ?thesis unfolding content_def by (auto; metis)
qed

lemma tree_slots_add_leaf:
  assumes "tree_ok s L P V" and "n \<in> L"
  shows "tree_slots (add_leaf s n key value) (insert (rx_counter s) L) = tree_slots s L + mset value"
proof -
  have "n < rx_counter s" using tree_fresh [OF assms] .
  note A = add_leaf_simps(1) [OF this, of key "value"]
  have "rx_counter s \<notin> L" using tree_fresh [OF assms(1)] by blast
  moreover from this have "(\<Sum>m\<in>L. mset (rx_value (add_leaf s n key value) m)) = (\<Sum>m\<in>L. mset (rx_value s m))"
    by (intro sum.cong refl) (auto simp: A)
  ultimately show ?thesis
    using tree_finite [OF assms(1)] assms(2) by (auto simp: tree_slots_def A)
qed

lemma rx_insert_ok:
  assumes ok: "radix_ok s L P V R" and kd: "rx_page_size s dvd length key" and len: "length value = length key"
  shows "\<exists>j vals s' L' P' V'. rx_insert s key (Some value) = Some (j, s') \<and> radix_ok s' L' P' V' R \<and>
     j \<le> length key \<and> longest_cached (content (rx_page_size s) L P V) key (take j key) vals \<and>
     content (rx_page_size s) L' P' V' = content (rx_page_size s) L P V \<union>
       {(take i key, take i (vals @ drop j value)) | i. i \<le> length key \<and> rx_page_size s dvd i} \<and>
     tree_slots s' L' = tree_slots s L + mset (drop j value) \<and>
     rx_evictable s' = rx_evictable s + int (length key - j) \<and> rx_protected s' = rx_protected s \<and>
     extends_tree L P V L' P' V' \<and> same_config s s'"
proof -
  let ?ps = "rx_page_size s" and ?r = "rx_root s" and ?s0 = "touch s (rx_root s)"
  note T = radix_okD(2) [OF ok]
  note root = tree_root [OF T] tree_root_path [OF T]
  have dis: "\<not> rx_disable s" by (rule radix_okD(1) [OF ok])
  show ?thesis
  proof (cases "key = []")
    case True
    then have run: "rx_insert s key (Some value) = Some (0, ?s0)"
      using dis by (simp add: rx_insert_def insert_helper_def)
    have "longest ?ps L P [] ?r" using root by (simp add: longest_def is_match_def)
    from longest_longest_cached [OF T this] have lc: "longest_cached (content ?ps L P V) [] [] []"
      using root by simp
    then have "([], []) \<in> content ?ps L P V" by (simp add: longest_cached_def)
    with run lc radix_ok_touch [OF ok] True len show ?thesis
      by (intro exI [of _ 0] exI [of _ "[]"] exI [of _ ?s0] exI [of _ L] exI [of _ P] exI [of _ V]) auto
  next
    case False
    have "rx_page_size ?s0 dvd length key" using kd by simp
    from insert_loop_ok [OF radix_ok_touch [OF ok] root(1) this, of "value" 0, unfolded touch_simps tree_slots_touch]
    obtain n j s1 L1 P1 V1 where
      *: "insert_loop ?s0 ?r key value 0 = Some (n, drop j key, drop j value, 0 + j, s1)"
      "j \<le> length key" "P1 n = P ?r @ take j key"
      "drop j key = [] \<or> map_of (rx_children s1 n) (child_key_fn ?ps (drop j key)) = None"
      "radix_ok s1 L1 P1 V1 R" "content ?ps L1 P1 V1 = content ?ps L P V"
      "longest ?ps L1 P1 (P ?r @ key) n" "extends_tree L P V L1 P1 V1" "same_config ?s0 s1"
      "tree_slots s1 L1 = tree_slots s L" "rx_evictable s1 = rx_evictable s" "rx_protected s1 = rx_protected s"
      by blast
    have Pn: "P1 n = take j key" using *(3) root by simp
    have conf: "same_config s s1" using *(9) by (simp add: same_config_def)
    have n: "n \<in> L1" using *(7) by (simp add: longest_def)
    note T1 = radix_okD(2) [OF *(5)]
    have lK: "longest (rx_page_size s1) L1 P1 key n" using *(7) root conf by (simp add: same_config_def)
    have lc: "longest_cached (content ?ps L P V) key (take j key) (V1 n)"
      using longest_longest_cached [OF T1 lK] Pn conf *(6) by (simp add: same_config_def)
    have run: "rx_insert s key (Some value) =
        Some (j, if drop j key \<noteq> [] then add_leaf s1 n (drop j key) (drop j value) else s1)"
      using dis False *(1) by (simp add: rx_insert_def insert_helper_def Let_def)
    have Vlen: "length (V1 n) = j" using tree_path_vals [OF T1 n] Pn *(2) by simp
    show ?thesis
    proof (cases "drop j key = []")
      case True
      then have j: "j = length key" using *(2) by simp
      have "(take i key, take i (V1 n)) \<in> content ?ps L P V" if "i \<le> length key" "?ps dvd i" for i
      proof -
        have "i \<le> length (P1 n)" using that(1) Pn j by simp
        then have "(take i (P1 n), take i (V1 n)) \<in> content ?ps L1 P1 V1"
          using n that(2) unfolding content_def by blast
        then show ?thesis using Pn j *(6) by simp
      qed
      then have "content ?ps L1 P1 V1 = content ?ps L P V \<union>
          {(take i key, take i (V1 n @ drop j value)) | i. i \<le> length key \<and> ?ps dvd i}"
        using *(6) j len by auto
      then show ?thesis
        using run True j lc conf *(5,8,10-) len
        by (intro exI [of _ j] exI [of _ "V1 n"] exI [of _ s1] exI [of _ L1] exI [of _ P1] exI [of _ V1]) simp
    next
      case ne: False
      define s' where "s' = add_leaf s1 n (drop j key) (drop j value)"
      define new where "new = rx_counter s1"
      have ps1: "rx_page_size s1 = ?ps" using conf by (simp add: same_config_def)
      have jd: "?ps dvd j" using tree_path_vals [OF T1 n] Pn *(2) ps1 by simp
      have kd': "rx_page_size s1 dvd length (drop j key)" using kd jd ps1 by (simp add: dvd_diff_nat)
      have len': "length (drop j value) = length (drop j key)" using len by simp
      have none: "map_of (rx_children s1 n) (child_key_fn (rx_page_size s1) (drop j key)) = None"
        using *(4) ne ps1 by simp
      have K: "P1 n @ drop j key = key" using Pn by simp
      have l: "longest (rx_page_size s1) L1 P1 (P1 n @ drop j key) n" using lK K by simp
      note leaf = radix_ok_add_leaf [OF *(5) n ne kd' len' none l s'_def new_def, unfolded K]
      note A = add_leaf_simps [OF tree_fresh [OF T1 n], of "drop j key" "drop j value", folded s'_def]
      have "extends_tree L P V (insert new L1) (P1(new := key)) (V1(new := V1 n @ drop j value))"
        using extends_tree_trans [OF *(8) extends_tree_insert [OF leaf(2)]] .
      moreover have "same_config s s'" using conf by (simp add: same_config_def A)
      moreover have "tree_slots s' (insert new L1) = tree_slots s L + mset (drop j value)"
        using tree_slots_add_leaf [OF T1 n] *(10) by (simp add: s'_def new_def)
      moreover have "content ?ps (insert new L1) (P1(new := key)) (V1(new := V1 n @ drop j value)) =
          content ?ps L P V \<union> {(take i key, take i (V1 n @ drop j value)) | i. i \<le> length key \<and> ?ps dvd i}"
        using content_insert_leaf [OF leaf(2) n] *(6) by simp
      moreover have "rx_evictable s' = rx_evictable s + int (length key - j)"
        using A(4) *(11) len by simp
      ultimately show ?thesis
        using run ne lc leaf(1) *(2,12) A(5) s'_def
        by (intro exI [of _ j] exI [of _ "V1 n"] exI [of _ s'] exI [of _ "insert new L1"]
            exI [of _ "P1(new := key)"] exI [of _ "V1(new := V1 n @ drop j value)"]) simp
    qed
  qed
qed

end
