(* ===== verification/RadixLock.thy ===== *)
theory RadixLock
  imports RadixInv
begin

text \<open>
  \<open>inc_lock_ref\<close> and \<open>dec_lock_ref\<close>: the walks from a node to the root, what they do to the
  reference counts and to the two size counters, and that they keep the invariant with one
  reference more or less.
\<close>

section \<open>The nodes on the way to the root\<close>

definition anc :: "radix \<Rightarrow> nat set \<Rightarrow> (nat \<Rightarrow> nat list) \<Rightarrow> nat \<Rightarrow> nat set" where
  "anc s L P x = {m \<in> L. m \<noteq> rx_root s \<and> prefix (P m) (P x)}"

lemma anc_root: "tree_ok s L P V \<Longrightarrow> anc s L P (rx_root s) = {}"
  using tree_path_root by (auto simp: anc_def tree_root_path)

lemma anc_step:
  assumes ok: "tree_ok s L P V" and x: "x \<in> L" "x \<noteq> rx_root s" and p: "rx_parent s x = Some p"
  shows "anc s L P x = insert x (anc s L P p)" and "x \<notin> anc s L P p"
proof -
  note pc = tree_parent_neq [OF ok x(1) p x(2)]
  note C = tree_child_of [OF ok pc(1,3)]
  have lt: "length (P p) < length (P x)" by (rule child_longer [OF ok pc(1,3)])
  show "x \<notin> anc s L P p" using lt by (auto simp: anc_def dest: prefix_length_le)
  have "prefix (P m) (P p)" if m: "m \<in> L" "prefix (P m) (P x)" "m \<noteq> x" for m
  proof (rule ccontr)
    assume "\<not> prefix (P m) (P p)"
    moreover have px: "prefix (P p) (P x)" using C(4) by simp
    ultimately have pm: "prefix (P p) (P m)" "p \<noteq> m"
      using prefix_same_cases [OF m(2) px] by auto
    obtain c where c: "child_of s p c" "prefix (P c) (P m)"
      using tree_descend [OF ok pc(1) m(1) pm] by blast
    have "prefix (P c) (P x)" using c(2) m(2) by (rule prefix_order.trans)
    then have "c = x" using children_same_path [OF ok pc(1) c(1) pc(3)] by simp
    then have "P m = P x" using c(2) m(2) by (simp add: prefix_order.antisym)
    then show False using tree_path_inj [OF ok m(1) x(1)] m(3) by simp
  qed
  then show "anc s L P x = insert x (anc s L P p)"
    using x C(4) by (auto simp: anc_def)
qed

lemma anc_key_sum:
  assumes ok: "tree_ok s L P V" and "x \<in> L"
  shows "(\<Sum>m\<in>anc s L P x. int (length (rx_key s m))) = int (length (P x))"
  using assms(2)
proof (induction "length (P x)" arbitrary: x rule: less_induct)
  case less
  show ?case
  proof (cases "x = rx_root s")
    case True
    then show ?thesis using anc_root [OF ok] tree_root_path [OF ok] by simp
  next
    case False
    obtain p where p: "rx_parent s x = Some p" using tree_parent(1) [OF ok less.prems False] by auto
    note pc = tree_parent_neq [OF ok less.prems p False]
    note C = tree_child_of [OF ok pc(1,3)]
    have lt: "length (P p) < length (P x)" by (rule child_longer [OF ok pc(1,3)])
    have fin: "finite (anc s L P p)" using ok by (simp add: anc_def tree_finite)
    show ?thesis
      unfolding anc_step(1) [OF ok less.prems False p] sum.insert [OF fin anc_step(2) [OF ok less.prems False p]]
        less.hyps [OF lt pc(1)] using C(4) by simp
  qed
qed

lemma finite_anc: "tree_ok s L P V \<Longrightarrow> finite (anc s L P x)"
  by (simp add: anc_def tree_finite)

text \<open>What a walk leaves: lock counts of the ancestors changed by \<open>d\<close>, the counters moved by \<open>u\<close>.\<close>

definition walked :: "radix \<Rightarrow> nat set \<Rightarrow> int \<Rightarrow> int \<Rightarrow> radix" where
  "walked s A d u = s\<lparr>rx_nodes := (\<lambda>m. if m \<in> A then (rx_nodes s m)\<lparr>rn_lock := rx_lock s m + d\<rparr> else rx_nodes s m),
     rx_evictable := rx_evictable s + u, rx_protected := rx_protected s - u\<rparr>"

lemma walked_simps [simp]:
  "rx_children (walked s A d u) m = rx_children s m"
  "rx_parent (walked s A d u) m = rx_parent s m"
  "rx_key (walked s A d u) m = rx_key s m"
  "rx_value (walked s A d u) m = rx_value s m"
  "rn_time (rx_nodes (walked s A d u) m) = rn_time (rx_nodes s m)"
  "rx_lock (walked s A d u) m = (if m \<in> A then rx_lock s m + d else rx_lock s m)"
  "rx_counter (walked s A d u) = rx_counter s"
  "rx_root (walked s A d u) = rx_root s"
  "rx_evictable (walked s A d u) = rx_evictable s + u"
  "rx_protected (walked s A d u) = rx_protected s - u"
  "rx_page_size (walked s A d u) = rx_page_size s"
  "rx_disable (walked s A d u) = rx_disable s"
  by (simp_all add: walked_def)

lemma walked_empty [simp]: "walked s {} d 0 = s"
  by (simp add: walked_def)

lemma walked_insert:
  "x \<notin> A \<Longrightarrow> walked (walked s {x} d u) A d v = walked s (insert x A) d (u + v)"
  by (auto simp: walked_def fun_eq_iff)

lemma tree_ok_walked: "tree_ok s L P V \<Longrightarrow> tree_ok (walked s A d u) L P V"
  by (rule tree_ok_cong) auto

lemma tree_slots_walked [simp]: "tree_slots (walked s A d u) L = tree_slots s L"
  by (simp add: tree_slots_def)

lemma anc_walked [simp]: "anc (walked s A d u) L P x = anc s L P x"
  by (simp add: anc_def)

text \<open>The tokens that a walk moves between the two counters.\<close>

definition lock_len :: "int \<Rightarrow> radix \<Rightarrow> nat \<Rightarrow> int" where
  "lock_len l s m = (if rx_lock s m = l then int (length (rx_key s m)) else 0)"

lemma inc_lock_loop_eq:
  assumes "tree_ok s L P V" and "x \<in> L"
  shows "inc_lock_loop s x delta = Some (delta - (\<Sum>m\<in>anc s L P x. lock_len 0 s m),
     walked s (anc s L P x) 1 (- (\<Sum>m\<in>anc s L P x. lock_len 0 s m)))"
  using assms
proof (induction "length (P x)" arbitrary: s x delta rule: less_induct)
  case less
  note ok = less.prems(1)
  show ?case
  proof (cases "x = rx_root s")
    case True
    then show ?thesis by (subst inc_lock_loop.simps) (simp add: anc_root [OF ok])
  next
    case False
    obtain p where p: "p \<in> L" "rx_parent s x = Some p" "child_of s p x"
      using tree_parent [OF ok less.prems(2) False] by metis
    let ?u = "lock_len 0 s x"
    let ?s2 = "walked s {x} 1 (- ?u)"
    have len: "length (rx_value s x) = length (rx_key s x)"
      by (rule tree_node_fields(3) [OF ok less.prems(2) False])
    have "inc_lock_loop s x delta = inc_lock_loop ?s2 p (delta - ?u)"
      using False p(2) len
      by (subst inc_lock_loop.simps)
        (auto simp: Let_def walked_def upd_node_def lock_len_def fun_eq_iff cong: if_cong
          intro!: arg_cong [where f = "\<lambda>s. inc_lock_loop s p _"])
    also have "\<dots> = Some (delta - ?u - (\<Sum>m\<in>anc s L P p. lock_len 0 ?s2 m),
        walked ?s2 (anc s L P p) 1 (- (\<Sum>m\<in>anc s L P p. lock_len 0 ?s2 m)))"
      using less.hyps [OF child_longer [OF ok p(1,3)] tree_ok_walked [OF ok] p(1)] by simp
    also have "(\<Sum>m\<in>anc s L P p. lock_len 0 ?s2 m) = (\<Sum>m\<in>anc s L P p. lock_len 0 s m)"
      using anc_step(2) [OF ok less.prems(2) False p(2)] by (intro sum.cong) (auto simp: lock_len_def)
    also have "walked ?s2 (anc s L P p) 1 (- (\<Sum>m\<in>anc s L P p. lock_len 0 s m))
        = walked s (anc s L P x) 1 (- (\<Sum>m\<in>anc s L P x. lock_len 0 s m))"
      using anc_step [OF ok less.prems(2) False p(2)] finite_anc [OF ok, of p] by (simp add: walked_insert)
    finally show ?thesis
      using anc_step [OF ok less.prems(2) False p(2)] finite_anc [OF ok, of p] by simp
  qed
qed

lemma dec_lock_loop_eq:
  assumes "tree_ok s L P V" and "x \<in> L"
  shows "dec_lock_loop s x delta = Some (delta + (\<Sum>m\<in>anc s L P x. lock_len 1 s m),
     walked s (anc s L P x) (- 1) (\<Sum>m\<in>anc s L P x. lock_len 1 s m))"
  using assms
proof (induction "length (P x)" arbitrary: s x delta rule: less_induct)
  case less
  note ok = less.prems(1)
  show ?case
  proof (cases "x = rx_root s")
    case True
    then show ?thesis by (subst dec_lock_loop.simps) (simp add: anc_root [OF ok])
  next
    case False
    obtain p where p: "p \<in> L" "rx_parent s x = Some p" "child_of s p x"
      using tree_parent [OF ok less.prems(2) False] by metis
    let ?u = "lock_len 1 s x"
    let ?s2 = "walked s {x} (- 1) ?u"
    have len: "length (rx_value s x) = length (rx_key s x)"
      by (rule tree_node_fields(3) [OF ok less.prems(2) False])
    have "dec_lock_loop s x delta = dec_lock_loop ?s2 p (delta + ?u)"
      using False p(2) len
      by (subst dec_lock_loop.simps)
        (auto simp: Let_def walked_def upd_node_def lock_len_def fun_eq_iff cong: if_cong
          intro!: arg_cong [where f = "\<lambda>s. dec_lock_loop s p _"])
    also have "\<dots> = Some (delta + ?u + (\<Sum>m\<in>anc s L P p. lock_len 1 ?s2 m),
        walked ?s2 (anc s L P p) (- 1) (\<Sum>m\<in>anc s L P p. lock_len 1 ?s2 m))"
      using less.hyps [OF child_longer [OF ok p(1,3)] tree_ok_walked [OF ok] p(1)] by simp
    also have "(\<Sum>m\<in>anc s L P p. lock_len 1 ?s2 m) = (\<Sum>m\<in>anc s L P p. lock_len 1 s m)"
      using anc_step(2) [OF ok less.prems(2) False p(2)] by (intro sum.cong) (auto simp: lock_len_def)
    also have "walked ?s2 (anc s L P p) (- 1) (\<Sum>m\<in>anc s L P p. lock_len 1 s m)
        = walked s (anc s L P x) (- 1) (\<Sum>m\<in>anc s L P x. lock_len 1 s m)"
      using anc_step [OF ok less.prems(2) False p(2)] finite_anc [OF ok, of p] by (simp add: walked_insert)
    finally show ?thesis
      using anc_step [OF ok less.prems(2) False p(2)] finite_anc [OF ok, of p] by simp
  qed
qed

section \<open>The invariant\<close>

lemma refs_at_add: "refs_at P (add_mset x R) m = refs_at P R m + (if prefix (P m) (P x) then 1 else 0)"
  by (simp add: refs_at_def)

lemma sum_anc_split:
  fixes f :: "nat \<Rightarrow> int"
  assumes "tree_ok s L P V"
  shows "(\<Sum>m\<in>L - {rx_root s}. f m) = (\<Sum>m\<in>L - {rx_root s} - anc s L P x. f m) + (\<Sum>m\<in>anc s L P x. f m)"
  using tree_finite [OF assms] by (intro sum.subset_diff) (auto simp: anc_def)

lemma inc_lock_ref_ok:
  assumes ok: "radix_ok s L P V R" and x: "x \<in> L"
  shows "\<exists>s'. inc_lock_ref s x = Some (rx_evictable s' - rx_evictable s, s') \<and>
     radix_ok s' L P V (add_mset x R) \<and> rx_evictable s' + rx_protected s' = rx_evictable s + rx_protected s \<and>
     rx_evictable s' \<le> rx_evictable s \<and> tree_slots s' L = tree_slots s L \<and> same_config s s'"
proof -
  note T = radix_okD(2) [OF ok] and LO = radix_okD(3) [OF ok] and SO = radix_okD(4) [OF ok]
  let ?A = "anc s L P x" and ?B = "L - {rx_root s}"
  let ?u = "\<Sum>m\<in>?A. lock_len 0 s m"
  let ?s' = "walked s ?A 1 (- ?u)"
  have "refs_at P R m \<ge> 0" for m by (simp add: refs_at_def)
  then have nonneg: "rx_lock s m \<ge> 0" if "m \<in> ?B" for m using LO that by (simp add: lock_ok_def)
  have lock: "lock_ok ?s' L P (add_mset x R)"
    using LO x by (auto simp: lock_ok_def refs_at_add anc_def)
  have A: "?A \<subseteq> ?B" by (auto simp: anc_def)
  have rest: "(\<Sum>m\<in>?B - ?A. unlocked_len ?s' m) = (\<Sum>m\<in>?B - ?A. unlocked_len s m)"
    "(\<Sum>m\<in>?B - ?A. locked_len ?s' m) = (\<Sum>m\<in>?B - ?A. locked_len s m)"
    by (intro sum.cong refl; simp add: unlocked_len_def locked_len_def)+
  have "unlocked_len ?s' m = 0" "unlocked_len s m = lock_len 0 s m"
    "locked_len ?s' m = locked_len s m + lock_len 0 s m" if "m \<in> ?A" for m
  proof -
    have "rx_lock s m \<ge> 0" using A that by (intro nonneg) blast
    then show "unlocked_len ?s' m = 0" "unlocked_len s m = lock_len 0 s m"
      "locked_len ?s' m = locked_len s m + lock_len 0 s m"
      using that by (auto simp: unlocked_len_def lock_len_def locked_len_def)
  qed
  then have onA: "(\<Sum>m\<in>?A. unlocked_len ?s' m) = 0" "(\<Sum>m\<in>?A. unlocked_len s m) = ?u"
    "(\<Sum>m\<in>?A. locked_len ?s' m) = (\<Sum>m\<in>?A. locked_len s m) + ?u"
    by (simp_all add: sum.distrib)
  have "size_ok ?s' L"
    using SO onA rest sum_anc_split [OF T, of "unlocked_len s" x] sum_anc_split [OF T, of "unlocked_len ?s'" x]
      sum_anc_split [OF T, of "locked_len s" x] sum_anc_split [OF T, of "locked_len ?s'" x]
    unfolding size_ok_def walked_simps by linarith
  then have "radix_ok ?s' L P V (add_mset x R)"
    using tree_ok_walked [OF T] lock radix_okD(1) [OF ok] by (simp add: radix_ok_def)
  moreover have "?u \<ge> 0" by (intro sum_nonneg) (simp add: lock_len_def)
  ultimately show ?thesis
    using inc_lock_loop_eq [OF T x, of 0] radix_okD(1) [OF ok]
    by (intro exI [of _ ?s']) (simp add: inc_lock_ref_def same_config_def)
qed

lemma dec_lock_ref_ok:
  assumes ok: "radix_ok s L P V R" and x: "x \<in># R"
  shows "\<exists>s'. dec_lock_ref s x = Some (rx_evictable s' - rx_evictable s, s') \<and>
     radix_ok s' L P V (R - {#x#}) \<and> rx_evictable s' + rx_protected s' = rx_evictable s + rx_protected s \<and>
     rx_evictable s \<le> rx_evictable s' \<and> tree_slots s' L = tree_slots s L \<and> same_config s s'"
proof -
  note T = radix_okD(2) [OF ok] and LO = radix_okD(3) [OF ok] and SO = radix_okD(4) [OF ok]
  let ?A = "anc s L P x" and ?B = "L - {rx_root s}"
  let ?u = "\<Sum>m\<in>?A. lock_len 1 s m"
  let ?s' = "walked s ?A (- 1) ?u"
  have xL: "x \<in> L" using LO x by (auto simp: lock_ok_def)
  obtain R' where R: "R = add_mset x R'" using x by (metis multi_member_split)
  have R': "R - {#x#} = R'" by (simp add: R)
  have pos: "rx_lock s m = refs_at P R' m + 1" "refs_at P R' m \<ge> 0" if "m \<in> ?A" for m
    using LO that by (auto simp: lock_ok_def anc_def R refs_at_add) (simp add: refs_at_def)
  have lock: "lock_ok ?s' L P R'"
    using LO by (auto simp: lock_ok_def R refs_at_add anc_def)
  have A: "?A \<subseteq> ?B" by (auto simp: anc_def)
  have rest: "(\<Sum>m\<in>?B - ?A. unlocked_len ?s' m) = (\<Sum>m\<in>?B - ?A. unlocked_len s m)"
    "(\<Sum>m\<in>?B - ?A. locked_len ?s' m) = (\<Sum>m\<in>?B - ?A. locked_len s m)"
    by (intro sum.cong refl; simp add: unlocked_len_def locked_len_def)+
  have "unlocked_len s m = 0" "unlocked_len ?s' m = lock_len 1 s m"
    "locked_len s m = locked_len ?s' m + lock_len 1 s m" if "m \<in> ?A" for m
    using pos [OF that] that by (auto simp: unlocked_len_def lock_len_def locked_len_def)
  then have onA: "(\<Sum>m\<in>?A. unlocked_len s m) = 0" "(\<Sum>m\<in>?A. unlocked_len ?s' m) = ?u"
    "(\<Sum>m\<in>?A. locked_len s m) = (\<Sum>m\<in>?A. locked_len ?s' m) + ?u"
    by (simp_all add: sum.distrib)
  have "size_ok ?s' L"
    using SO onA rest sum_anc_split [OF T, of "unlocked_len s" x] sum_anc_split [OF T, of "unlocked_len ?s'" x]
      sum_anc_split [OF T, of "locked_len s" x] sum_anc_split [OF T, of "locked_len ?s'" x]
    unfolding size_ok_def walked_simps by linarith
  then have "radix_ok ?s' L P V R'"
    using tree_ok_walked [OF T] lock radix_okD(1) [OF ok] by (simp add: radix_ok_def)
  moreover have "?u \<ge> 0" by (intro sum_nonneg) (simp add: lock_len_def)
  ultimately show ?thesis
    unfolding R' using dec_lock_loop_eq [OF T xL, of 0] radix_okD(1) [OF ok]
    by (intro exI [of _ ?s']) (simp add: dec_lock_ref_def same_config_def)
qed

end
