(* ===== verification/RadixEvict.thy ===== *)
theory RadixEvict
  imports RadixLock
begin

text \<open>
  The traversals of the radix tree (\<open>total_size\<close>, \<open>_collect_leaves\<close>, \<open>all_values_flatten\<close>) and
  \<open>evict\<close>: it removes, one after the other, the least recently used leaf that nobody holds, until
  enough tokens are freed or everything evictable is gone.
\<close>

section \<open>Visiting a subtree\<close>

definition below_set :: "nat set \<Rightarrow> (nat \<Rightarrow> nat list) \<Rightarrow> nat \<Rightarrow> nat set" where
  "below_set L P x = {m \<in> L. prefix (P x) (P m)}"

lemma below_root: "tree_ok s L P V \<Longrightarrow> below_set L P (rx_root s) = L"
  by (simp add: below_set_def tree_root_path)

lemma children_distinct:
  assumes "tree_ok s L P V" and "x \<in> L"
  shows "distinct (map snd (rx_children s x))"
proof -
  have "map fst (rx_children s x) = map (\<lambda>c. child_key_fn (rx_page_size s) (rx_key s c)) (map snd (rx_children s x))"
    using tree_child(4) [OF assms] by auto
  then have "distinct (map (\<lambda>c. child_key_fn (rx_page_size s) (rx_key s c)) (map snd (rx_children s x)))"
    using tree_distinct [OF assms] by metis
  then show ?thesis by (simp only: distinct_map)
qed

lemma child_iff:
  assumes "tree_ok s L P V" and "x \<in> L"
  shows "c \<in> snd ` set (rx_children s x) \<longleftrightarrow> child_of s x c"
proof
  assume "c \<in> snd ` set (rx_children s x)"
  then obtain k where "(k, c) \<in> set (rx_children s x)" by force
  from tree_child(7) [OF assms this] show "child_of s x c" .
qed (force simp: child_of_def)

lemma below_children:
  assumes ok: "tree_ok s L P V" and x: "x \<in> L"
  shows "below_set L P x = insert x (\<Union>c\<in>{c. child_of s x c}. below_set L P c)"
    and "child_of s x c \<Longrightarrow> below_set L P c \<subset> below_set L P x"
    and "child_of s x c \<Longrightarrow> x \<notin> below_set L P c"
    and "child_of s x c \<Longrightarrow> child_of s x d \<Longrightarrow> c \<noteq> d \<Longrightarrow> below_set L P c \<inter> below_set L P d = {}"
proof -
  have down: "m \<in> below_set L P x" if "child_of s x c" "m \<in> below_set L P c" for c m
    using that tree_child_of(4) [OF ok x that(1)] by (auto simp: below_set_def dest: append_prefixD)
  show eq: "below_set L P x = insert x (\<Union>c\<in>{c. child_of s x c}. below_set L P c)"
  proof (rule set_eqI, rule iffI)
    fix m assume "m \<in> below_set L P x"
    then show "m \<in> insert x (\<Union>c\<in>{c. child_of s x c}. below_set L P c)"
      using tree_descend [OF ok x, of m] by (auto simp: below_set_def)
  next
    fix m assume "m \<in> insert x (\<Union>c\<in>{c. child_of s x c}. below_set L P c)"
    then show "m \<in> below_set L P x" using down x by (auto simp: below_set_def)
  qed
  show notin: "x \<notin> below_set L P c" if "child_of s x c" for c
    using child_longer [OF ok x that] by (auto simp: below_set_def dest: prefix_length_le)
  show "below_set L P c \<subset> below_set L P x" if "child_of s x c" for c
    using notin [OF that] down [OF that] x by (auto simp: below_set_def)
  show "child_of s x c \<Longrightarrow> child_of s x d \<Longrightarrow> c \<noteq> d \<Longrightarrow> below_set L P c \<inter> below_set L P d = {}"
    using children_same_path [OF ok x] by (auto simp: below_set_def)
qed

lemma finite_below: "tree_ok s L P V \<Longrightarrow> finite (below_set L P x)"
  by (simp add: below_set_def tree_finite)

text \<open>
  Any loop that takes a node from the stack, updates an accumulator with it and pushes its
  children visits exactly the nodes below, each once.
\<close>

lemma visit_subtree:
  assumes ok: "tree_ok s L P V"
    and F: "\<And>n st acc. n \<in> L \<Longrightarrow> F (n # st) acc = F (push n @ st) (f acc n)"
    and push: "\<And>n. n \<in> L \<Longrightarrow> set (push n) = snd ` set (rx_children s n) \<and> distinct (push n)"
  shows "x \<in> L \<Longrightarrow> \<exists>ys. distinct ys \<and> set ys = below_set L P x \<and> (\<forall>st acc. F (x # st) acc = F st (foldl f acc ys))"
proof (induction "card (below_set L P x)" arbitrary: x rule: less_induct)
  case less
  have IH: "\<exists>ys. distinct ys \<and> set ys = below_set L P c \<and> (\<forall>st acc. F (c # st) acc = F st (foldl f acc ys))"
    if "child_of s x c" for c
    using less.hyps tree_child_of(1) [OF ok less.prems that]
      psubset_card_mono [OF finite_below [OF ok] below_children(2) [OF ok less.prems that]] by blast
  have "\<exists>ys. distinct ys \<and> set ys = (\<Union>c\<in>set cs. below_set L P c) \<and> (\<forall>st acc. F (cs @ st) acc = F st (foldl f acc ys))"
    if "\<forall>c\<in>set cs. child_of s x c" "distinct cs" for cs
    using that
  proof (induction cs)
    case Nil
    then show ?case by auto
  next
    case (Cons c cs)
    obtain ys where ys: "distinct ys" "set ys = below_set L P c" "\<And>st acc. F (c # st) acc = F st (foldl f acc ys)"
      using IH [of c] Cons.prems by auto
    obtain zs where zs: "distinct zs" "set zs = (\<Union>c\<in>set cs. below_set L P c)"
      "\<And>st acc. F (cs @ st) acc = F st (foldl f acc zs)"
      using Cons by auto
    have "set ys \<inter> set zs = {}"
      using below_children(4) [OF ok less.prems, of c] Cons.prems ys(2) zs(2) by fastforce
    then show ?case
      using ys zs by (intro exI [of _ "ys @ zs"]) simp
  qed
  note lists = this
  have "\<forall>c\<in>set (push x). child_of s x c" "distinct (push x)"
    using push [OF less.prems] child_iff [OF ok less.prems] by auto
  from lists [OF this] obtain ys where ys: "distinct ys" "set ys = (\<Union>c\<in>set (push x). below_set L P c)"
    "\<And>st acc. F (push x @ st) acc = F st (foldl f acc ys)"
    by blast
  have "set (push x) = {c. child_of s x c}"
    using push [OF less.prems] child_iff [OF ok less.prems] by auto
  then have "set (x # ys) = below_set L P x" "distinct (x # ys)"
    using ys below_children(1,3) [OF ok less.prems] by auto
  then show ?case
    using F [OF less.prems] ys(3) by (intro exI [of _ "x # ys"]) auto
qed

lemma push_children:
  "tree_ok s L P V \<Longrightarrow> n \<in> L \<Longrightarrow> set (rev (map snd (rx_children s n))) = snd ` set (rx_children s n) \<and>
     distinct (rev (map snd (rx_children s n)))"
  using children_distinct by simp

lemma foldl_add_list: "foldl (\<lambda>t n. t + f n) a xs = a + (\<Sum>n\<leftarrow>xs. f n)" for f :: "'a \<Rightarrow> nat"
  by (induction xs arbitrary: a) auto

lemma foldl_filter: "foldl (\<lambda>acc n. if q n then acc @ [n] else acc) a xs = a @ filter q xs"
  by (induction xs arbitrary: a) auto

lemma total_size_eq:
  assumes ok: "tree_ok s L P V"
  shows "total_size s = Some (\<Sum>n\<in>L. length (rx_value s n))"
proof -
  have F: "total_size_loop s (n # st) acc = total_size_loop s (rev (map snd (rx_children s n)) @ st) (acc + length (rx_value s n))"
    for n st acc by (subst total_size_loop.simps) simp
  obtain ys where ys: "distinct ys" "set ys = L"
    "\<And>st acc. total_size_loop s (rx_root s # st) acc = total_size_loop s st (foldl (\<lambda>t n. t + length (rx_value s n)) acc ys)"
    using visit_subtree [where F = "total_size_loop s" and f = "\<lambda>t n. t + length (rx_value s n)"
        and push = "\<lambda>n. rev (map snd (rx_children s n))", OF ok F push_children [OF ok] tree_root [OF ok]]
    unfolding below_root [OF ok] by blast
  have "total_size s = total_size_loop s [] (0 + (\<Sum>n\<leftarrow>ys. length (rx_value s n)))"
    by (simp only: total_size_def ys(3) foldl_add_list)
  then show ?thesis
    using ys(1,2) by (subst (asm) total_size_loop.simps) (simp add: sum_list_distinct_conv_sum_set)
qed

lemma collect_leaves_eq:
  assumes ok: "tree_ok s L P V"
  shows "\<exists>ys. collect_leaves s = Some ys \<and> distinct ys \<and> set ys = {n \<in> L. rx_children s n = []}"
proof -
  let ?f = "\<lambda>acc n. if rx_children s n = [] then acc @ [n] else acc"
  have F: "collect_leaves_loop s (n # st) acc = collect_leaves_loop s (rev (map snd (rx_children s n)) @ st) (?f acc n)"
    for n st acc by (subst collect_leaves_loop.simps) simp
  obtain ys where ys: "distinct ys" "set ys = L"
    "\<And>st acc. collect_leaves_loop s (rx_root s # st) acc = collect_leaves_loop s st (foldl ?f acc ys)"
    using visit_subtree [where F = "collect_leaves_loop s" and f = ?f
        and push = "\<lambda>n. rev (map snd (rx_children s n))", OF ok F push_children [OF ok] tree_root [OF ok]]
    unfolding below_root [OF ok] by blast
  have "collect_leaves s = collect_leaves_loop s [] ([] @ filter (\<lambda>n. rx_children s n = []) ys)"
    by (simp only: collect_leaves_def ys(3) foldl_filter)
  then have "collect_leaves s = Some (filter (\<lambda>n. rx_children s n = []) ys)"
    by (subst (asm) collect_leaves_loop.simps) simp
  then show ?thesis
    using ys(1,2) by (intro exI [of _ "filter (\<lambda>n. rx_children s n = []) ys"]) auto
qed

lemma all_values_eq:
  assumes ok: "tree_ok s L P V"
  shows "\<exists>vs. all_values_flatten s = Some vs \<and> mset vs = tree_slots s L"
proof -
  let ?f = "\<lambda>acc n. if n = rx_root s then acc else acc @ [rx_value s n]"
  have F: "all_values_loop s (n # st) acc = all_values_loop s (map snd (rx_children s n) @ st) (?f acc n)"
    for n st acc by (subst all_values_loop.simps) simp
  have push: "set (map snd (rx_children s n)) = snd ` set (rx_children s n) \<and> distinct (map snd (rx_children s n))"
    if "n \<in> L" for n using children_distinct [OF ok that] by simp
  obtain ys where ys: "distinct ys" "set ys = L"
    "\<And>st acc. all_values_loop s (rx_root s # st) acc = all_values_loop s st (foldl ?f acc ys)"
    using visit_subtree [where F = "all_values_loop s" and f = ?f and push = "\<lambda>n. map snd (rx_children s n)",
        OF ok F push tree_root [OF ok]]
    unfolding below_root [OF ok] by blast
  have "all_values_flatten s = Some (concat (foldl ?f [] ys))"
    unfolding all_values_flatten_def ys(3) by (subst all_values_loop.simps) simp
  moreover have "mset (concat (foldl ?f acc ys)) = mset (concat acc) + (\<Sum>n\<leftarrow>ys. mset (rx_value s n))" for acc
    using tree_root_key(2) [OF ok] by (induction ys arbitrary: acc) auto
  ultimately show ?thesis
    using ys(1,2) by (simp add: tree_slots_def sum_list_distinct_conv_sum_set)
qed

lemma sizes_total:
  assumes "radix_ok s L P V R"
  shows "rx_evictable s + rx_protected s = int (\<Sum>n\<in>L. length (rx_value s n))"
proof -
  note T = radix_okD(2) [OF assms] and SO = radix_okD(4) [OF assms]
  have "unlocked_len s n + locked_len s n = int (length (rx_value s n))" if "n \<in> L - {rx_root s}" for n
    using tree_node_fields(3) [OF T, of n] that by (auto simp: unlocked_len_def locked_len_def)
  then have "(\<Sum>n\<in>L - {rx_root s}. unlocked_len s n + locked_len s n) = (\<Sum>n\<in>L - {rx_root s}. int (length (rx_value s n)))"
    by (intro sum.cong) auto
  then have "rx_evictable s + rx_protected s = (\<Sum>n\<in>L - {rx_root s}. int (length (rx_value s n)))"
    using SO by (simp add: size_ok_def sum.distrib)
  also have "\<dots> = int (\<Sum>n\<in>L. length (rx_value s n))"
    using tree_root_key(2) [OF T] tree_root [OF T] tree_finite [OF T] by (simp add: sum.remove [of L "rx_root s"])
  finally show ?thesis .
qed

section \<open>Deleting a leaf\<close>

lemma find_child:
  assumes ok: "tree_ok s L P V" and p: "p \<in> L" and c: "child_of s p x"
  shows "find (\<lambda>(k, v). v = x) (rx_children s p) = Some (child_key_fn (rx_page_size s) (rx_key s x), x)"
proof (cases "find (\<lambda>(k, v). v = x) (rx_children s p)")
  case None
  then show ?thesis using c by (auto simp: find_None_iff child_of_def)
next
  case (Some e)
  then obtain k where e: "e = (k, x)" "(k, x) \<in> set (rx_children s p)"
    by (auto simp: find_Some_iff in_set_conv_nth)
  then show ?thesis using tree_child(4) [OF ok p e(2)] Some by simp
qed

definition free_leaf :: "radix \<Rightarrow> nat set \<Rightarrow> nat \<Rightarrow> bool" where
  "free_leaf s L x \<longleftrightarrow> x \<in> L \<and> x \<noteq> rx_root s \<and> rx_children s x = [] \<and> rx_lock s x = 0"

lemma delete_leaf_simps:
  assumes "tree_ok s L P V" and "x \<in> L" and "x \<noteq> rx_root s" and "rx_parent s x = Some p"
  shows "rx_nodes (delete_leaf s x) = (rx_nodes s)(p := (rx_nodes s p)\<lparr>rn_children :=
           AList.delete (child_key_fn (rx_page_size s) (rx_key s x)) (rx_children s p)\<rparr>)"
    and "rx_counter (delete_leaf s x) = rx_counter s"
    and "rx_root (delete_leaf s x) = rx_root s"
    and "rx_evictable (delete_leaf s x) = rx_evictable s - int (length (rx_key s x))"
    and "rx_protected (delete_leaf s x) = rx_protected s"
    and "rx_page_size (delete_leaf s x) = rx_page_size s"
    and "rx_disable (delete_leaf s x) = rx_disable s"
  using find_child [OF assms(1) tree_parent_neq(1,3) [OF assms(1,2,4,3)]] assms(4)
  by (auto simp: delete_leaf_def Let_def)

lemma radix_ok_delete_leaf:
  assumes ok: "radix_ok s L P V R" and fl: "free_leaf s L x" and s': "s' = delete_leaf s x"
  shows "radix_ok s' (L - {x}) P V R" and "same_config s s'"
    and "tree_slots s' (L - {x}) + mset (rx_value s x) = tree_slots s L"
    and "rx_evictable s' = rx_evictable s - int (length (rx_value s x))" and "rx_protected s' = rx_protected s"
    and "\<And>n. rx_value s' n = rx_value s n" and "\<And>n. rn_time (rx_nodes s' n) = rn_time (rx_nodes s n)"
    and "\<And>n. rx_lock s' n = rx_lock s n" and "\<And>n. rx_parent s' n = rx_parent s n"
    and "\<And>n. rx_parent s x \<noteq> Some n \<Longrightarrow> rx_children s' n = rx_children s n"
proof -
  note T = radix_okD(2) [OF ok] and LO = radix_okD(3) [OF ok] and SO = radix_okD(4) [OF ok]
  have x: "x \<in> L" "x \<noteq> rx_root s" "rx_children s x = []" "rx_lock s x = 0"
    using fl by (simp_all add: free_leaf_def)
  obtain p where par: "rx_parent s x = Some p" using tree_parent [OF T x(1,2)] by metis
  note pc = tree_parent_neq [OF T x(1) par x(2)]
  note D = delete_leaf_simps [OF T x(1,2) par, folded s']
  have F: "length (rx_value s x) = length (rx_key s x)" by (rule tree_node_fields(3) [OF T x(1,2)])
  show keep: "\<And>n. rx_value s' n = rx_value s n" "\<And>n. rx_lock s' n = rx_lock s n" "\<And>n. rx_parent s' n = rx_parent s n"
    "\<And>n. rn_time (rx_nodes s' n) = rn_time (rx_nodes s n)"
    "\<And>n. rx_parent s x \<noteq> Some n \<Longrightarrow> rx_children s' n = rx_children s n"
    by (auto simp: D par)
  have key: "\<And>n. rx_key s' n = rx_key s n" by (auto simp: D)
  let ?k = "child_key_fn (rx_page_size s) (rx_key s x)"
  have pch: "set (rx_children s' p) = {e \<in> set (rx_children s p). snd e \<noteq> x}"
  proof -
    have "fst e \<noteq> ?k \<longleftrightarrow> snd e \<noteq> x" if e: "e \<in> set (rx_children s p)" for e
    proof -
      obtain j c where jc: "e = (j, c)" by fastforce
      then have c: "(j, c) \<in> set (rx_children s p)" using e by simp
      have "(?k, x) \<in> set (rx_children s p)" using pc(3) by (simp add: child_of_def)
      then show ?thesis
        using distinct_map_fst_eq [OF tree_distinct [OF T pc(1)]] tree_child(4) [OF T pc(1) c] c jc by auto
    qed
    then show ?thesis by (auto simp: D set_alist_delete)
  qed
  have sub: "set (rx_children s' n) = {e \<in> set (rx_children s n). snd e \<noteq> x}" if n: "n \<in> L" for n
  proof (cases "n = p")
    case False
    have "snd e \<noteq> x" if "e \<in> set (rx_children s n)" for e
      using tree_child(3) [OF T n, of "fst e" "snd e"] that par False by auto
    then show ?thesis using keep(5) [of n] par False by auto
  qed (use pch in simp)
  have xR: "x \<notin># R"
  proof
    assume "x \<in># R"
    then obtain R' where "R = add_mset x R'" by (metis multi_member_split)
    then have "refs_at P R x \<ge> 1" by (simp add: refs_at_def)
    then show False using LO x by (auto simp: lock_ok_def)
  qed
  have tree: "tree_ok s' (L - {x}) P V"
    unfolding tree_ok_def
  proof (intro conjI ballI impI)
    fix n assume n: "n \<in> L - {x}" "n \<noteq> rx_root s'"
    then have nL: "n \<in> L" "n \<noteq> rx_root s" "n \<noteq> x" by (auto simp: D)
    obtain q where q: "q \<in> L" "rx_parent s n = Some q" "P n = P q @ rx_key s n" "V n = V q @ rx_value s n" "child_of s q n"
      using tree_parent [OF T nL(1,2)] by metis
    have "q \<noteq> x" using q(5) x(3) by (auto simp: child_of_def)
    moreover have "(child_key_fn (rx_page_size s) (rx_key s n), n) \<in> set (rx_children s' q)"
      using q(5) sub [OF q(1)] nL(3) by (auto simp: child_of_def)
    ultimately show "\<exists>q\<in>L - {x}. rx_parent s' n = Some q \<and> P n = P q @ rx_key s' n \<and> V n = V q @ rx_value s' n \<and>
        (child_key_fn (rx_page_size s') (rx_key s' n), n) \<in> set (rx_children s' q)"
      using q keep(1,3) key D(6) by (intro bexI [of _ q]) auto
    show "rx_key s' n \<noteq> []" "rx_page_size s' dvd length (rx_key s' n)" "length (rx_value s' n) = length (rx_key s' n)"
      using tree_node_fields [OF T nL(1,2)] by (simp_all add: keep key D(6))
  next
    fix n e assume n: "n \<in> L - {x}" and e: "e \<in> set (rx_children s' n)"
    then have "(fst e, snd e) \<in> set (rx_children s n)" "snd e \<noteq> x" "n \<in> L" using sub by auto
    from tree_child [OF T this(3,1)] this(2)
    show "case e of (k, c) \<Rightarrow> c \<in> L - {x} \<and> c \<noteq> rx_root s' \<and> rx_parent s' c = Some n \<and>
        k = child_key_fn (rx_page_size s') (rx_key s' c)"
      by (auto simp: split_def keep key D(3,6))
  next
    fix n assume "n \<in> L - {x}"
    then show "distinct (map fst (rx_children s' n))"
      using tree_distinct [OF T, of n] keep(5) [of n] par distinct_alist_delete [of "rx_children s p" ?k]
      by (cases "n = p") (auto simp: D)
  qed (use tree_ps [OF T] tree_finite [OF T] tree_root [OF T] tree_root_path [OF T] tree_root_key [OF T] tree_fresh [OF T] x
      in \<open>auto simp: keep key D(2,3,6)\<close>)
  have lock: "lock_ok s' (L - {x}) P R"
    using LO xR by (auto simp: lock_ok_def keep D(3))
  have size: "size_ok s' (L - {x})"
  proof -
    have fin: "finite (L - {rx_root s})" "x \<in> L - {rx_root s}" using tree_finite [OF T] x by auto
    have len: "unlocked_len s' = unlocked_len s" "locked_len s' = locked_len s"
      by (auto simp: fun_eq_iff unlocked_len_def locked_len_def key keep(2))
    have "L - {x} - {rx_root s'} = L - {rx_root s} - {x}" by (auto simp: D(3))
    then show ?thesis
      using SO x(4) fin by (simp add: size_ok_def D len sum.remove [OF fin] unlocked_len_def [of s x] locked_len_def [of s x])
  qed
  show "radix_ok s' (L - {x}) P V R"
    using tree lock size radix_okD(1) [OF ok] by (simp add: radix_ok_def D(7))
  show "same_config s s'" by (simp add: same_config_def D)
  show "tree_slots s' (L - {x}) + mset (rx_value s x) = tree_slots s L"
    using tree_finite [OF T] x(1) by (simp add: tree_slots_def keep sum.remove [of L x])
  show "rx_evictable s' = rx_evictable s - int (length (rx_value s x))" "rx_protected s' = rx_protected s"
    using F by (simp_all add: D)
qed

section \<open>Eviction\<close>

text \<open>
  The specification of eviction: \<open>lru_run s L xs s' L'\<close> deletes the nodes \<open>xs\<close> one after the
  other, each of them the least recently used leaf of its tree that no request holds.
\<close>

inductive lru_run :: "radix \<Rightarrow> nat set \<Rightarrow> nat list \<Rightarrow> radix \<Rightarrow> nat set \<Rightarrow> bool" where
  lru_nil: "lru_run s L [] s L"
| lru_step: "lru_run s L (x # xs) s' L'"
    if "free_leaf s L x" and "\<And>y. free_leaf s L y \<Longrightarrow> rn_time (rx_nodes s x) \<le> rn_time (rx_nodes s y)"
    and "lru_run (delete_leaf s x) (L - {x}) xs s' L'"

inductive_cases lru_run_NilE: "lru_run s L [] s' L'"

lemma lru_run_ok:
  "lru_run s L xs s' L' \<Longrightarrow> radix_ok s L P V R \<Longrightarrow>
     radix_ok s' L' P V R \<and> L' \<subseteq> L \<and> same_config s s' \<and>
     tree_slots s' L' + mset (concat (map (rx_value s) xs)) = tree_slots s L \<and>
     rx_evictable s' + int (length (concat (map (rx_value s) xs))) = rx_evictable s \<and>
     rx_protected s' = rx_protected s"
proof (induction rule: lru_run.induct)
  case (lru_nil s L)
  then show ?case by simp
next
  case (lru_step s L x xs s' L')
  note D = radix_ok_delete_leaf [OF lru_step.prems lru_step.hyps(1) refl]
  have "map (rx_value (delete_leaf s x)) xs = map (rx_value s) xs" using D(6) by simp
  with lru_step.IH [OF D(1)] have IH: "radix_ok s' L' P V R" "L' \<subseteq> L - {x}" "same_config (delete_leaf s x) s'"
    "tree_slots s' L' + mset (concat (map (rx_value s) xs)) = tree_slots (delete_leaf s x) (L - {x})"
    "rx_evictable s' + int (length (concat (map (rx_value s) xs))) = rx_evictable (delete_leaf s x)"
    "rx_protected s' = rx_protected (delete_leaf s x)" by simp_all
  have "tree_slots s' L' + mset (concat (map (rx_value s) (x # xs)))
      = (tree_slots s' L' + mset (concat (map (rx_value s) xs))) + mset (rx_value s x)"
    by (simp add: ac_simps)
  also have "\<dots> = tree_slots s L" unfolding IH(4) D(3) ..
  finally show ?case using IH D(2,4,5) by (auto simp: same_config_def)
qed

lemma leaf_below:
  assumes ok: "tree_ok s L P V" and n: "n \<in> L"
  shows "\<exists>m\<in>L. prefix (P n) (P m) \<and> rx_children s m = []"
proof -
  let ?A = "(\<lambda>m. length (P m)) ` below_set L P n"
  have fin: "finite ?A" "?A \<noteq> {}" using finite_below [OF ok] n by (auto simp: below_set_def)
  obtain m where "m \<in> below_set L P n" "length (P m) = Max ?A" using Max_in [OF fin] by auto
  then have "m \<in> below_set L P n \<and> (\<forall>y\<in>below_set L P n. length (P y) \<le> length (P m))"
    using Max_ge [OF fin(1)] by auto
  then have m: "m \<in> L" "prefix (P n) (P m)"
    and max: "\<And>y. y \<in> L \<Longrightarrow> prefix (P n) (P y) \<Longrightarrow> length (P y) \<le> length (P m)"
    by (auto simp: below_set_def)
  have "rx_children s m = []"
  proof (rule ccontr)
    assume "rx_children s m \<noteq> []"
    then obtain k c where c: "(k, c) \<in> set (rx_children s m)" by (metis list.set_intros(1) neq_Nil_conv surj_pair)
    note C = tree_child [OF ok m(1) c]
    have "prefix (P n) (P c)" using m(2) C(5) by (metis prefix_order.trans prefixI)
    then show False using max [OF C(1)] child_longer [OF ok m(1) C(7)] by simp
  qed
  with m show ?thesis by blast
qed

lemma no_free_leaf:
  assumes ok: "radix_ok s L P V R" and none: "\<And>x. \<not> free_leaf s L x"
  shows "rx_evictable s = 0"
proof -
  note T = radix_okD(2) [OF ok] and LO = radix_okD(3) [OF ok] and SO = radix_okD(4) [OF ok]
  have "rx_lock s n \<noteq> 0" if n: "n \<in> L" "n \<noteq> rx_root s" for n
  proof
    assume "rx_lock s n = 0"
    then have r: "refs_at P R n = 0" using LO n by (simp add: lock_ok_def)
    obtain m where m: "m \<in> L" "prefix (P n) (P m)" "rx_children s m = []"
      using leaf_below [OF T n(1)] by blast
    have "m \<noteq> rx_root s" using m(2) n tree_path_root [OF T n(1)] tree_root_path(1) [OF T] by auto
    moreover have "refs_at P R m \<le> refs_at P R n"
    proof -
      have "{#h \<in># R. prefix (P m) (P h)#} = {#h \<in># {#h \<in># R. prefix (P n) (P h)#}. prefix (P m) (P h)#}"
        unfolding filter_filter_mset using m(2) by (intro filter_mset_cong0) (auto dest: prefix_order.trans)
      then show ?thesis unfolding refs_at_def by (metis multiset_filter_subset of_nat_mono size_mset_mono)
    qed
    moreover have "0 \<le> refs_at P R m" by (simp add: refs_at_def)
    ultimately have "free_leaf s L m" using r LO m by (simp add: free_leaf_def lock_ok_def)
    with none show False by blast
  qed
  then show ?thesis using SO by (simp add: size_ok_def unlocked_len_def)
qed

text \<open>The loop invariant: the heap holds leaves, and at least all the free ones.\<close>

definition evict_heap_ok :: "radix \<Rightarrow> nat set \<Rightarrow> nat list \<Rightarrow> bool" where
  "evict_heap_ok s L leaves \<longleftrightarrow> is_heap (older s) leaves \<and> distinct leaves \<and>
     set leaves \<subseteq> {n \<in> L. rx_children s n = []} \<and> {n. free_leaf s L n} \<subseteq> set leaves"

lemma older_key: "older s = (\<lambda>x y. rn_time (rx_nodes s x) < rn_time (rx_nodes s y))"
  by (simp add: fun_eq_iff older_def)

lemma root_leaf_empty:
  assumes ok: "tree_ok s L P V" and "rx_children s (rx_root s) = []"
  shows "L = {rx_root s}"
proof -
  have "m = rx_root s" if m: "m \<in> L" for m
  proof (rule ccontr)
    assume "m \<noteq> rx_root s"
    then have ne: "rx_root s \<noteq> m" by simp
    have pre: "prefix (P (rx_root s)) (P m)" by (simp add: tree_root_path(1) [OF ok])
    from tree_descend [OF ok tree_root [OF ok] m pre ne] show False
      using assms(2) by (auto simp: child_of_def)
  qed
  then have "L \<subseteq> {rx_root s}" by (intro subsetI) (simp only: singleton_iff)
  moreover have "{rx_root s} \<subseteq> L" using tree_root [OF ok] by (simp only: insert_subset empty_subsetI simp_thms)
  ultimately show ?thesis by (rule subset_antisym)
qed

lemma evict_loop_ok:
  assumes "radix_ok s L P V R" and "evict_heap_ok s L leaves"
  shows "\<exists>xs s' L'. evict_loop free num k leaves a s = Some (foldl free a (map (rx_value s) xs), s') \<and>
     evict_loop free2 num k leaves b s = Some (foldl free2 b (map (rx_value s) xs), s') \<and>
     lru_run s L xs s' L' \<and>
     (num \<le> k + length (concat (map (rx_value s) xs)) \<or> rx_evictable s' = 0) \<and>
     (xs \<noteq> [] \<longrightarrow> k + length (concat (map (rx_value s) (butlast xs))) < num)"
  using assms
proof (induction "card L + length leaves" arbitrary: s L leaves k a b rule: less_induct)
  case less
  note ok = less.prems(1) and H = less.prems(2)
  note T = radix_okD(2) [OF ok]
  have stop: ?case if "evict_loop free num k leaves a s = Some (a, s)"
    "evict_loop free2 num k leaves b s = Some (b, s)" "num \<le> k \<or> rx_evictable s = 0"
    using that lru_nil by (intro exI [of _ "[]"] exI [of _ s] exI [of _ L]) simp
  show ?case
  proof (cases "k < num \<and> leaves \<noteq> []")
    case False
    have "rx_evictable s = 0" if "leaves = []"
      using H that no_free_leaf [OF ok] by (auto simp: evict_heap_ok_def)
    then show ?thesis using False by (intro stop) (auto simp: evict_loop.simps [of _ num k leaves])
  next
    case True
    obtain x rest where pop: "heappop (older s) leaves = (x, rest)" by fastforce
    have heap: "is_heap (older s) rest" and ms: "mset leaves = add_mset x (mset rest)"
      and least: "\<And>y. y \<in> set leaves \<Longrightarrow> \<not> older s y x"
      using H True heapq_key.inv_pop [of "\<lambda>n. rn_time (rx_nodes s n)" leaves]
        heapq_key.mset_pop [of leaves "\<lambda>n. rn_time (rx_nodes s n)"]
        heapq_key.pop_least [of "\<lambda>n. rn_time (rx_nodes s n)" leaves] pop
      by (auto simp: evict_heap_ok_def older_key)
    have d: "distinct rest" "x \<notin> set rest" and set: "set leaves = insert x (set rest)"
      and len: "length leaves = Suc (length rest)"
      using H ms mset_eq_imp_distinct_iff [of leaves "x # rest"] mset_eq_setD [of leaves "x # rest"]
        mset_eq_length [of leaves "x # rest"]
      by (auto simp: evict_heap_ok_def)
    have x: "x \<in> L" "rx_children s x = []" using H set by (auto simp: evict_heap_ok_def)
    consider "x = rx_root s" | "x \<noteq> rx_root s" "0 < rx_lock s x" | "x \<noteq> rx_root s" "rx_lock s x = 0"
    proof -
      have "0 \<le> rx_lock s x" if "x \<noteq> rx_root s"
        using radix_okD(3) [OF ok] x(1) that by (simp add: lock_ok_def refs_at_def)
      then show ?thesis using that by force
    qed
    then show ?thesis
    proof cases
      case 1
      then have "L = {rx_root s}" using root_leaf_empty [OF T] x(2) by simp
      then have "rx_evictable s = 0" using radix_okD(4) [OF ok] by (simp add: size_ok_def)
      then show ?thesis using True 1 pop by (intro stop) (auto simp: evict_loop.simps [of _ num k leaves])
    next
      case 2
      have "evict_heap_ok s L rest"
        using H heap d set 2 by (auto simp: evict_heap_ok_def free_leaf_def)
      moreover have "evict_loop free num k leaves a s = evict_loop free num k rest a s"
        "evict_loop free2 num k leaves b s = evict_loop free2 num k rest b s"
        using True 2 pop by (simp_all add: evict_loop.simps [of _ num k leaves])
      ultimately show ?thesis using less.hyps [OF _ ok, of rest k a b] len by simp
    next
      case 3
      have fl: "free_leaf s L x" using x 3 by (simp add: free_leaf_def)
      define s1 where "s1 = delete_leaf s x"
      note D = radix_ok_delete_leaf [OF ok fl s1_def]
      obtain p where par: "rx_parent s x = Some p" using tree_parent [OF T x(1) 3(1)] by metis
      note pc = tree_parent_neq [OF T x(1) par 3(1)]
      define leaves1 where "leaves1 = (if rx_children s1 p = [] then heappush (older s1) rest p else rest)"
      have old: "older s1 = older s" by (simp add: older_key D(7))
      have pfull: "rx_children s p \<noteq> []" using pc(3) by (auto simp: child_of_def)
      have prest: "p \<notin> set rest" using H set pfull by (auto simp: evict_heap_ok_def)
      have set1: "set leaves1 = (if rx_children s1 p = [] then insert p (set rest) else set rest)"
        and heap1: "is_heap (older s1) leaves1" and d1: "distinct leaves1"
        and len1: "length leaves1 \<le> Suc (length rest)"
      proof -
        have push: "mset (heappush (older s1) rest p) = mset (p # rest)" by (simp add: mset_heappush)
        show "set leaves1 = (if rx_children s1 p = [] then insert p (set rest) else set rest)"
          using mset_eq_setD [OF push] by (simp add: leaves1_def)
        show "distinct leaves1"
          using d(1) prest mset_eq_imp_distinct_iff [OF push] by (simp add: leaves1_def)
        show "length leaves1 \<le> Suc (length rest)"
          using mset_eq_length [OF push] by (simp add: leaves1_def)
        show "is_heap (older s1) leaves1"
          using heap heapq_key.inv_push [of "\<lambda>n. rn_time (rx_nodes s1 n)" rest p] old
          by (auto simp: leaves1_def older_key)
      qed
      have ch: "rx_children s1 n = rx_children s n" if "n \<noteq> p" for n using D(10) that par by simp
      have H1: "evict_heap_ok s1 (L - {x}) leaves1"
        unfolding evict_heap_ok_def
      proof (intro conjI subsetI heap1 d1)
        fix n assume "n \<in> set leaves1"
        then consider "n = p" "rx_children s1 p = []" | "n \<in> set rest" "n \<noteq> p"
          using set1 prest by (auto split: if_splits)
        then show "n \<in> {n \<in> L - {x}. rx_children s1 n = []}"
        proof cases
          case 1
          then show ?thesis using pc by simp
        next
          case 2
          then have "n \<in> L" "rx_children s n = []" "n \<noteq> x"
            using H set d(2) by (auto simp: evict_heap_ok_def)
          then show ?thesis using ch [OF 2(2)] by simp
        qed
      next
        fix n assume "n \<in> {n. free_leaf s1 (L - {x}) n}"
        then have n: "n \<in> L" "n \<noteq> x" "n \<noteq> rx_root s" "rx_children s1 n = []" "rx_lock s n = 0"
          using D(2,8) by (auto simp: free_leaf_def same_config_def)
        show "n \<in> set leaves1"
        proof (cases "n = p")
          case True
          then show ?thesis using n set1 by simp
        next
          case False
          then have "free_leaf s L n" using n ch by (simp add: free_leaf_def)
          then have "n \<in> set leaves" using H by (auto simp: evict_heap_ok_def)
          then show ?thesis using set n(2) set1 by (auto split: if_splits)
        qed
      qed
      have run: "evict_loop free num k leaves a s =
          evict_loop free num (k + length (rx_value s x)) leaves1 (free a (rx_value s x)) s1"
        "evict_loop free2 num k leaves b s =
          evict_loop free2 num (k + length (rx_value s x)) leaves1 (free2 b (rx_value s x)) s1"
        using True 3 pop par D(9) by (simp_all add: s1_def leaves1_def Let_def evict_loop.simps [of _ num k leaves])
      have "card (L - {x}) + length leaves1 < card L + length leaves"
        using card_Diff1_less [OF tree_finite [OF T] x(1)] len1 len by linarith
      from less.hyps [OF this D(1) H1, of "k + length (rx_value s x)" "free a (rx_value s x)" "free2 b (rx_value s x)"]
      obtain xs s' L' where
        *: "evict_loop free num (k + length (rx_value s x)) leaves1 (free a (rx_value s x)) s1
              = Some (foldl free (free a (rx_value s x)) (map (rx_value s1) xs), s')"
        "evict_loop free2 num (k + length (rx_value s x)) leaves1 (free2 b (rx_value s x)) s1
              = Some (foldl free2 (free2 b (rx_value s x)) (map (rx_value s1) xs), s')"
        "lru_run s1 (L - {x}) xs s' L'"
        "num \<le> k + length (rx_value s x) + length (concat (map (rx_value s1) xs)) \<or> rx_evictable s' = 0"
        "xs \<noteq> [] \<longrightarrow> k + length (rx_value s x) + length (concat (map (rx_value s1) (butlast xs))) < num"
        by blast
      have vals: "map (rx_value s1) ys = map (rx_value s) ys" for ys using D(6) by simp
      have "lru_run s L (x # xs) s' L'"
      proof (rule lru_step [OF fl])
        show "rn_time (rx_nodes s x) \<le> rn_time (rx_nodes s y)" if "free_leaf s L y" for y
          using least [of y] H that by (auto simp: evict_heap_ok_def older_def)
        show "lru_run (delete_leaf s x) (L - {x}) xs s' L'" using *(3) by (simp add: s1_def)
      qed
      moreover have "k + length (concat (map (rx_value s) (butlast (x # xs)))) < num"
        using *(5) True by (cases "xs = []") (simp_all add: vals)
      ultimately show ?thesis
        using run *(1,2,4) by (intro exI [of _ "x # xs"] exI [of _ s'] exI [of _ L']) (simp add: vals add.assoc)
    qed
  qed
qed

lemma evict_ok:
  assumes ok: "radix_ok s L P V R"
  shows "\<exists>xs s' L'. evict free num a s = Some (foldl free a (map (rx_value s) xs), s') \<and>
     evict free2 num b s = Some (foldl free2 b (map (rx_value s) xs), s') \<and>
     lru_run s L xs s' L' \<and>
     (num \<le> length (concat (map (rx_value s) xs)) \<or> rx_evictable s' = 0) \<and>
     (xs \<noteq> [] \<longrightarrow> length (concat (map (rx_value s) (butlast xs))) < num)"
proof -
  obtain ys where ys: "collect_leaves s = Some ys" "distinct ys" "set ys = {n \<in> L. rx_children s n = []}"
    using collect_leaves_eq [OF radix_okD(2) [OF ok]] by blast
  have "evict_heap_ok s L (heapify (older s) ys)"
    using ys heapq_key.inv_make [of "\<lambda>n. rn_time (rx_nodes s n)" ys] mset_eq_setD [OF mset_heapify [of "older s" ys]]
      mset_eq_imp_distinct_iff [OF mset_heapify [of "older s" ys]]
    by (auto simp: evict_heap_ok_def older_key free_leaf_def)
  from evict_loop_ok [OF ok this, of free num 0 a free2 b] show ?thesis
    using radix_okD(1) [OF ok] ys(1) by (simp add: evict_def)
qed

end
