(* ===== verification/RadixSpec.thy ===== *)
theory RadixSpec
  imports RadixEvict
begin

text \<open>
  The radix cache as its clients see it: what it holds (\<open>cached\<close>), which prefix a node stands
  for (\<open>at_node\<close>), the states that runs of its operations reach (\<open>radix_reach\<close>), and the
  properties of every operation in these terms.
\<close>

section \<open>The abstract view of a state\<close>

definition cached :: "radix \<Rightarrow> (nat list \<times> nat list) set" where
  "cached s = {e. \<exists>L P V. tree_ok s L P V \<and> e \<in> content (rx_page_size s) L P V}"

definition at_node :: "radix \<Rightarrow> nat \<Rightarrow> nat list \<Rightarrow> nat list \<Rightarrow> bool" where
  "at_node s n ks vs \<longleftrightarrow> (\<exists>L P V. tree_ok s L P V \<and> n \<in> L \<and> P n = ks \<and> V n = vs)"

definition rx_slots :: "radix \<Rightarrow> nat multiset" where
  "rx_slots s = (case all_values_flatten s of None \<Rightarrow> {#} | Some vs \<Rightarrow> mset vs)"

text \<open>The ghost state is determined by the tree.\<close>

lemma tree_ok_sub:
  assumes a: "tree_ok s L P V" and b: "tree_ok s L' P' V'"
  shows "n \<in> L \<Longrightarrow> n \<in> L' \<and> P' n = P n \<and> V' n = V n"
proof (induction "length (P n)" arbitrary: n rule: less_induct)
  case less
  show ?case
  proof (cases "n = rx_root s")
    case True
    then show ?thesis using tree_root [OF b] tree_root_path [OF a] tree_root_path [OF b] by simp
  next
    case False
    obtain p where p: "p \<in> L" "child_of s p n" using tree_parent [OF a less.prems False] by metis
    note A = tree_child_of [OF a p]
    have q: "p \<in> L'" "P' p = P p" "V' p = V p"
      using less.hyps [OF child_longer [OF a p] p(1)] by auto
    from tree_child_of [OF b q(1) p(2)] A q show ?thesis by simp
  qed
qed

lemma cached_eq:
  assumes "tree_ok s L P V"
  shows "cached s = content (rx_page_size s) L P V"
proof -
  have "content (rx_page_size s) L' P' V' \<subseteq> content (rx_page_size s) L P V" if "tree_ok s L' P' V'" for L' P' V'
  proof
    fix e assume "e \<in> content (rx_page_size s) L' P' V'"
    then obtain n k where "n \<in> L'" "k \<le> length (P' n)" "rx_page_size s dvd k" "e = (take k (P' n), take k (V' n))"
      unfolding content_def by blast
    moreover from this have "n \<in> L" "P n = P' n" "V n = V' n" using tree_ok_sub [OF that assms] by auto
    ultimately show "e \<in> content (rx_page_size s) L P V" unfolding content_def by force
  qed
  then show ?thesis using assms unfolding cached_def by blast
qed

lemma at_node_iff:
  assumes "tree_ok s L P V"
  shows "at_node s n ks vs \<longleftrightarrow> n \<in> L \<and> P n = ks \<and> V n = vs"
  using tree_ok_sub [OF _ assms] assms unfolding at_node_def by metis

lemma rx_slots_eq: "tree_ok s L P V \<Longrightarrow> rx_slots s = tree_slots s L"
  using all_values_eq [of s L P V] by (auto simp: rx_slots_def)

section \<open>Reachable states\<close>

text \<open>
  The runs of the cache.  \<open>R\<close> is the multiset of nodes that requests hold: a request takes a
  reference on the node that a \<open>match_prefix\<close> returned, and gives back references that it holds.
\<close>

inductive radix_reach :: "radix \<Rightarrow> nat multiset \<Rightarrow> bool" where
  rr_init: "radix_reach (rx_init ps False clock) {#}"
    if "0 < ps"
| rr_match: "radix_reach s' R"
    if "radix_reach s R" and "match_prefix s key = Some (vals, n, s')"
| rr_insert: "radix_reach s' R"
    if "radix_reach s R" and "rx_page_size s dvd length key" and "length value = length key"
    and "rx_insert s key (Some value) = Some (j, s')"
| rr_inc: "radix_reach s' (add_mset n R)"
    if "radix_reach s R" and "at_node s n ks vs" and "inc_lock_ref s n = Some (d, s')"
| rr_dec: "radix_reach s' (R - {#n#})"
    if "radix_reach s R" and "n \<in># R" and "dec_lock_ref s n = Some (d, s')"
| rr_evict: "radix_reach s' R"
    if "radix_reach s R" and "evict (\<lambda>freed v. freed @ [v]) num [] s = Some (freed, s')"
| rr_reset: "radix_reach (rx_reset s) {#}"
    if "radix_reach s R"

lemma rx_reset_ok:
  assumes "0 < rx_page_size s" and "\<not> rx_disable s"
  shows "radix_ok (rx_reset s) {rx_counter s} (\<lambda>_. []) (\<lambda>_. []) {#}"
  using assms by (simp add: radix_ok_def tree_ok_def lock_ok_def size_ok_def rx_reset_def tree_node_def upd_node_def)

lemma rx_init_ok:
  assumes "0 < ps"
  shows "radix_ok (rx_init ps False clock) {0} (\<lambda>_. []) (\<lambda>_. []) {#}"
  using assms by (simp add: radix_ok_def tree_ok_def lock_ok_def size_ok_def rx_init_def rx_reset_def
      tree_node_def upd_node_def)

lemma evict_free_param:
  assumes "radix_ok s L P V R" and "evict (\<lambda>freed v. freed @ [v]) num [] s = Some (freed, s')"
  shows "evict free num a s = Some (foldl free a freed, s')"
proof -
  have f: "foldl (\<lambda>freed v. freed @ [v]) acc vs = acc @ vs" for acc vs :: "nat list list"
    by (induction vs arbitrary: acc) auto
  show ?thesis
    using evict_ok [OF assms(1), of "\<lambda>freed v. freed @ [v]" num "[]" free a] assms(2) f by auto
qed

text \<open>Every reachable state satisfies the invariant.\<close>

lemma radix_reach_ok:
  "radix_reach s R \<Longrightarrow> \<exists>L P V. radix_ok s L P V R"
proof (induction rule: radix_reach.induct)
  case (rr_init ps clock)
  then show ?case using rx_init_ok by blast
next
  case (rr_match s R key vals n s')
  then obtain L P V where "radix_ok s L P V R" by blast
  then obtain n'' s'' L' P' V' where "match_prefix s key = Some (V' n'', n'', s'')" "radix_ok s'' L' P' V' R"
    using match_prefix_ok [of s L P V R key] by blast
  then show ?case using rr_match.hyps(2) by auto
next
  case (rr_insert s R key "value" j s')
  then obtain L P V where "radix_ok s L P V R" by blast
  from rx_insert_ok [OF this rr_insert.hyps(2,3)]
  obtain j'' s'' L' P' V' where "rx_insert s key (Some value) = Some (j'', s'')" "radix_ok s'' L' P' V' R"
    by blast
  then show ?case using rr_insert.hyps(4) by auto
next
  case (rr_inc s R n ks vs d s')
  then obtain L P V where ok: "radix_ok s L P V R" by blast
  then have "n \<in> L" using rr_inc.hyps(2) at_node_iff radix_okD(2) by blast
  from inc_lock_ref_ok [OF ok this] rr_inc.hyps(3) show ?case by auto
next
  case (rr_dec s R n d s')
  then obtain L P V where ok: "radix_ok s L P V R" by blast
  from dec_lock_ref_ok [OF ok rr_dec.hyps(2)] rr_dec.hyps(3) show ?case by auto
next
  case (rr_evict s R num freed s')
  then obtain L P V where ok: "radix_ok s L P V R" by blast
  from evict_ok [OF ok, of "\<lambda>freed v. freed @ [v]" num "[]" "\<lambda>freed v. freed @ [v]" "[]"]
  obtain xs L' where "lru_run s L xs s' L'" using rr_evict.hyps(2) by auto
  from lru_run_ok [OF this ok] show ?case by blast
next
  case (rr_reset s R)
  then obtain L P V where "radix_ok s L P V R" by blast
  then have "radix_ok (rx_reset s) {rx_counter s} (\<lambda>_. []) (\<lambda>_. []) {#}"
    by (intro rx_reset_ok) (auto dest: radix_okD(1,2) tree_ps)
  then show ?case by blast
qed

section \<open>Example states\<close>

definition demo_cache :: radix where
  "demo_cache = snd (the (rx_insert (rx_init 1 False id) [1, 2, 3] (Some [7, 8, 9])))"

lemma demo_reach: "radix_reach demo_cache {#}"
proof -
  have "\<exists>j s'. rx_insert (rx_init 1 False id) [1, 2, 3] (Some [7, 8, 9]) = Some (j, s')"
    using rx_insert_ok [OF rx_init_ok [of 1 id], of "[1, 2, 3]" "[7, 8, 9]"]
    by (auto simp: rx_init_def rx_reset_def tree_node_def)
  then obtain j s' where run: "rx_insert (rx_init 1 False id) [1, 2, 3] (Some [7, 8, 9]) = Some (j, s')" by blast
  have "radix_reach s' {#}"
    by (rule rr_insert [OF rr_init [of 1 id] _ _ run]) (simp_all add: rx_init_def rx_reset_def tree_node_def)
  then show ?thesis using run by (simp add: demo_cache_def)
qed

lemma demo_match:
  "map_option fst (match_prefix demo_cache [1, 2, 5]) = Some [7, 8]"
  by code_simp

definition demo_matched :: radix where
  "demo_matched = snd (snd (the (match_prefix demo_cache [1, 2, 5])))"

lemma demo_match_run: "\<exists>n. match_prefix demo_cache [1, 2, 5] = Some ([7, 8], n, demo_matched)"
  using demo_match by (auto simp: demo_matched_def)

lemma demo_matched_reach: "radix_reach demo_matched {#}"
  using demo_match_run rr_match [OF demo_reach] by blast

text \<open>The node that \<open>match_prefix\<close> returns is the one a request then holds.\<close>

lemma match_at_node:
  assumes "radix_reach s R" and "match_prefix s key = Some (vals, n, s')"
  shows "\<exists>ks. at_node s' n ks vals"
proof -
  obtain L P V where ok: "radix_ok s L P V R" using radix_reach_ok [OF assms(1)] by blast
  obtain L' P' V' where "radix_ok s' L' P' V' R" "n \<in> L'" "vals = V' n"
    using match_prefix_ok [OF ok, of key] assms(2) by auto
  then show ?thesis using at_node_iff [OF radix_okD(2)] by blast
qed

section \<open>Every operation in terms of the content\<close>

lemma match_prefix_spec:
  assumes "radix_reach s R"
  shows "\<exists>ks vals n s'. match_prefix s key = Some (vals, n, s') \<and> longest_cached (cached s) key ks vals \<and>
     at_node s' n ks vals \<and> cached s' = cached s \<and> rx_slots s' = rx_slots s \<and>
     rx_evictable s' = rx_evictable s \<and> rx_protected s' = rx_protected s"
proof -
  obtain L P V where ok: "radix_ok s L P V R" using radix_reach_ok [OF assms] by blast
  obtain n s' L' P' V' where *: "match_prefix s key = Some (V' n, n, s')" "radix_ok s' L' P' V' R"
    "content (rx_page_size s) L' P' V' = content (rx_page_size s) L P V" "n \<in> L'"
    "longest_cached (content (rx_page_size s) L P V) key (P' n) (V' n)" "same_config s s'"
    "tree_slots s' L' = tree_slots s L" "rx_evictable s' = rx_evictable s" "rx_protected s' = rx_protected s"
    using match_prefix_ok [OF ok, of key] by blast
  note T = radix_okD(2) [OF ok] and T' = radix_okD(2) [OF *(2)]
  have "at_node s' n (P' n) (V' n)" using at_node_iff [OF T'] *(4) by blast
  moreover have "cached s' = cached s" "rx_slots s' = rx_slots s"
    using *(3,6,7) cached_eq [OF T] cached_eq [OF T'] rx_slots_eq [OF T] rx_slots_eq [OF T']
    by (simp_all add: same_config_def)
  ultimately show ?thesis using *(1,5,8,9) cached_eq [OF T]
    by (intro exI [of _ "P' n"] exI [of _ "V' n"] exI [of _ n] exI [of _ s']) simp
qed

text \<open>Matching splits nodes but moves none: the node of a prefix stays its node.\<close>

lemma match_prefix_keeps:
  assumes "radix_reach s R" and "match_prefix s key = Some (vals, n, s')"
  shows "at_node s m ks vs \<Longrightarrow> at_node s' m ks vs" and "rx_page_size s' = rx_page_size s"
proof -
  obtain L P V where ok: "radix_ok s L P V R" using radix_reach_ok [OF assms(1)] by blast
  obtain L' P' V' where *: "radix_ok s' L' P' V' R" "extends_tree L P V L' P' V'" "same_config s s'"
    using match_prefix_ok [OF ok, of key] assms(2) by auto
  note T = radix_okD(2) [OF ok] and T' = radix_okD(2) [OF *(1)]
  show "at_node s m ks vs \<Longrightarrow> at_node s' m ks vs"
    using *(2) by (auto simp: at_node_iff [OF T] at_node_iff [OF T'] extends_tree_def)
  show "rx_page_size s' = rx_page_size s" using *(3) by (simp add: same_config_def)
qed

lemma insert_spec:
  assumes "radix_reach s R" and "rx_page_size s dvd length key" and "length value = length key"
  shows "\<exists>j vals s'. rx_insert s key (Some value) = Some (j, s') \<and> j \<le> length key \<and>
     longest_cached (cached s) key (take j key) vals \<and>
     cached s' = cached s \<union> {(take i key, take i (vals @ drop j value)) | i. i \<le> length key \<and> rx_page_size s dvd i} \<and>
     rx_slots s' = rx_slots s + mset (drop j value) \<and>
     rx_evictable s' = rx_evictable s + int (length key - j) \<and> rx_protected s' = rx_protected s"
proof -
  obtain L P V where ok: "radix_ok s L P V R" using radix_reach_ok [OF assms(1)] by blast
  obtain j vals s' L' P' V' where *: "rx_insert s key (Some value) = Some (j, s')" "radix_ok s' L' P' V' R"
    "j \<le> length key" "longest_cached (content (rx_page_size s) L P V) key (take j key) vals"
    "content (rx_page_size s) L' P' V' = content (rx_page_size s) L P V \<union>
       {(take i key, take i (vals @ drop j value)) | i. i \<le> length key \<and> rx_page_size s dvd i}"
    "tree_slots s' L' = tree_slots s L + mset (drop j value)"
    "rx_evictable s' = rx_evictable s + int (length key - j)" "rx_protected s' = rx_protected s"
    "same_config s s'"
    using rx_insert_ok [OF ok assms(2,3)] by blast
  note T = radix_okD(2) [OF ok] and T' = radix_okD(2) [OF *(2)]
  have "cached s' = content (rx_page_size s) L' P' V'" "rx_slots s' = tree_slots s' L'"
    using *(9) cached_eq [OF T'] rx_slots_eq [OF T'] by (simp_all add: same_config_def)
  then show ?thesis
    using *(1,3-8) unfolding cached_eq [OF T] rx_slots_eq [OF T]
    by (intro exI [of _ j] exI [of _ vals] exI [of _ s']) simp
qed

lemma insert_keeps_page_size:
  assumes "radix_reach s R" and "rx_page_size s dvd length key" and "length value = length key"
  shows "\<exists>j s'. rx_insert s key (Some value) = Some (j, s') \<and> rx_page_size s' = rx_page_size s"
proof -
  obtain L P V where ok: "radix_ok s L P V R" using radix_reach_ok [OF assms(1)] by blast
  from rx_insert_ok [OF ok assms(2,3)] show ?thesis by (auto simp: same_config_def)
qed

lemma insert_keeps_nodes:
  assumes "radix_reach s R" and "rx_page_size s dvd length key" and "length value = length key"
    and "rx_insert s key (Some value) = Some (j, s')"
  shows "rx_page_size s' = rx_page_size s" and "at_node s m ks vs \<Longrightarrow> at_node s' m ks vs"
proof -
  obtain L P V where ok: "radix_ok s L P V R" using radix_reach_ok [OF assms(1)] by blast
  obtain L' P' V' where *: "radix_ok s' L' P' V' R" "extends_tree L P V L' P' V'" "same_config s s'"
    using rx_insert_ok [OF ok assms(2,3)] assms(4) by auto
  note T = radix_okD(2) [OF ok] and T' = radix_okD(2) [OF *(1)]
  show "at_node s m ks vs \<Longrightarrow> at_node s' m ks vs"
    using *(2) by (auto simp: at_node_iff [OF T] at_node_iff [OF T'] extends_tree_def)
  show "rx_page_size s' = rx_page_size s" using *(3) by (simp add: same_config_def)
qed

lemma dec_lock_ref_spec:
  assumes "radix_reach s R" and "n \<in># R"
  shows "\<exists>d s'. dec_lock_ref s n = Some (d, s') \<and> radix_reach s' (R - {#n#}) \<and> cached s' = cached s \<and>
     rx_slots s' = rx_slots s \<and> (\<forall>m ks vs. at_node s' m ks vs = at_node s m ks vs)"
proof -
  obtain L P V where ok: "radix_ok s L P V R" using radix_reach_ok [OF assms(1)] by blast
  obtain d s' where *: "dec_lock_ref s n = Some (d, s')" "radix_ok s' L P V (R - {#n#})"
    "tree_slots s' L = tree_slots s L" "same_config s s'"
    using dec_lock_ref_ok [OF ok assms(2)] by blast
  note T = radix_okD(2) [OF ok] and T' = radix_okD(2) [OF *(2)]
  have "radix_reach s' (R - {#n#})" by (rule rr_dec [OF assms *(1)])
  then show ?thesis using *
    by (intro exI [of _ d] exI [of _ s'])
      (simp add: cached_eq [OF T] cached_eq [OF T'] rx_slots_eq [OF T] rx_slots_eq [OF T']
        at_node_iff [OF T] at_node_iff [OF T'] same_config_def)
qed

lemma inc_lock_ref_spec:
  assumes "radix_reach s R" and "at_node s n ks vs"
  shows "\<exists>d s'. inc_lock_ref s n = Some (d, s') \<and> radix_reach s' (add_mset n R) \<and> cached s' = cached s \<and>
     rx_slots s' = rx_slots s \<and> (\<forall>m ks vs. at_node s' m ks vs = at_node s m ks vs)"
proof -
  obtain L P V where ok: "radix_ok s L P V R" using radix_reach_ok [OF assms(1)] by blast
  note T = radix_okD(2) [OF ok]
  have "n \<in> L" using assms(2) at_node_iff [OF T] by blast
  then obtain d s' where *: "inc_lock_ref s n = Some (d, s')" "radix_ok s' L P V (add_mset n R)"
    "tree_slots s' L = tree_slots s L" "same_config s s'"
    using inc_lock_ref_ok [OF ok] by blast
  note T' = radix_okD(2) [OF *(2)]
  have "radix_reach s' (add_mset n R)" by (rule rr_inc [OF assms *(1)])
  then show ?thesis using *
    by (intro exI [of _ d] exI [of _ s'])
      (simp add: cached_eq [OF T] cached_eq [OF T'] rx_slots_eq [OF T] rx_slots_eq [OF T']
        at_node_iff [OF T] at_node_iff [OF T'] same_config_def)
qed

lemma lock_keeps_page_size:
  "radix_reach s R \<Longrightarrow> n \<in># R \<Longrightarrow> dec_lock_ref s n = Some (d, s') \<Longrightarrow> rx_page_size s' = rx_page_size s"
  "radix_reach s R \<Longrightarrow> at_node s n ks vs \<Longrightarrow> inc_lock_ref s n = Some (d, s') \<Longrightarrow> rx_page_size s' = rx_page_size s"
proof -
  assume "radix_reach s R"
  then obtain L P V where ok: "radix_ok s L P V R" using radix_reach_ok by blast
  show "rx_page_size s' = rx_page_size s" if "n \<in># R" "dec_lock_ref s n = Some (d, s')"
    using dec_lock_ref_ok [OF ok that(1)] that(2) by (auto simp: same_config_def)
  show "rx_page_size s' = rx_page_size s" if "at_node s n ks vs" "inc_lock_ref s n = Some (d, s')"
  proof -
    have "n \<in> L" using that(1) at_node_iff [OF radix_okD(2) [OF ok]] by blast
    then show ?thesis using inc_lock_ref_ok [OF ok \<open>n \<in> L\<close>] that(2) by (auto simp: same_config_def)
  qed
qed

text \<open>With a single reference exactly the nodes on its path are protected.\<close>

lemma protected_single:
  assumes "radix_reach s {#n#}" and "at_node s n ks vs"
  shows "protected_size s = int (length vs)"
proof -
  obtain L P V where ok: "radix_ok s L P V {#n#}" using radix_reach_ok [OF assms(1)] by blast
  note T = radix_okD(2) [OF ok]
  have n: "n \<in> L" "P n = ks" "V n = vs" using assms(2) by (simp_all add: at_node_iff [OF T])
  have lock: "rx_lock s m = (if prefix (P m) (P n) then 1 else 0)" if "m \<in> L" "m \<noteq> rx_root s" for m
    using radix_okD(3) [OF ok] that by (simp add: lock_ok_def refs_at_def)
  have fin: "finite (L - {rx_root s})" using tree_finite [OF T] by simp
  have "rx_protected s = (\<Sum>m\<in>L - {rx_root s}. locked_len s m)"
    using radix_okD(4) [OF ok] by (simp add: size_ok_def)
  also have "\<dots> = (\<Sum>m\<in>L - {rx_root s}. if m \<in> anc s L P n then int (length (rx_key s m)) else 0)"
    by (rule sum.cong) (auto simp: locked_len_def lock anc_def)
  also have "\<dots> = (\<Sum>m\<in>(L - {rx_root s}) \<inter> anc s L P n. int (length (rx_key s m)))"
    by (simp add: sum.inter_restrict [OF fin])
  also have "(L - {rx_root s}) \<inter> anc s L P n = anc s L P n" by (auto simp: anc_def)
  also have "(\<Sum>m\<in>anc s L P n. int (length (rx_key s m))) = int (length (P n))" by (rule anc_key_sum [OF T n(1)])
  finally show ?thesis using tree_path_vals [OF T n(1)] n(3) by (simp add: protected_size_def)
qed

lemma at_node_cached:
  assumes "radix_reach s R" and "at_node s n ks vs"
  shows "(ks, vs) \<in> cached s" and "length vs = length ks"
proof -
  obtain L P V where ok: "radix_ok s L P V R" using radix_reach_ok [OF assms(1)] by blast
  note T = radix_okD(2) [OF ok]
  show "(ks, vs) \<in> cached s" "length vs = length ks"
    using assms(2) content_node [OF T, of n] tree_path_vals [OF T, of n]
    by (auto simp: at_node_iff [OF T] cached_eq [OF T])
qed

lemma cached_length:
  assumes "radix_reach s R" and "(ks, vs) \<in> cached s"
  shows "length vs = length ks"
proof -
  obtain L P V where ok: "radix_ok s L P V R" using radix_reach_ok [OF assms(1)] by blast
  note T = radix_okD(2) [OF ok]
  show ?thesis using content_length [OF T] assms(2) by (auto simp: cached_eq [OF T])
qed

section \<open>Properties\<close>

text \<open>
  C18. \<open>match_prefix\<close> returns the KV slots of the longest cached prefix of the key (in whole pages),
  and the node that stands for exactly that prefix; every other cached prefix of the key is a
  prefix of it, with a prefix of its slots.  Splitting a node on the way changes neither the
  content of the cache nor the slots it owns nor its size counters, and the loop ends.
\<close>

theorem radix_match_prefix:
  assumes "radix_reach s R"
  shows "\<exists>ks vals n s'. match_prefix s key = Some (vals, n, s') \<and> longest_cached (cached s) key ks vals \<and>
     at_node s' n ks vals \<and> cached s' = cached s \<and> rx_slots s' = rx_slots s \<and>
     rx_evictable s' = rx_evictable s \<and> rx_protected s' = rx_protected s"
  using assms by (rule match_prefix_spec)

theorem radix_match_prefix_witness:
  "\<exists>ks n s'. match_prefix demo_cache [1, 2, 5] = Some ([7, 8], n, s') \<and> at_node s' n ks [7, 8] \<and>
     longest_cached (cached demo_cache) [1, 2, 5] ks [7, 8]"
  using radix_match_prefix [OF demo_reach, of "[1, 2, 5]"] demo_match_run by fastforce

text \<open>
  C19. \<open>insert\<close> of a whole-page key returns how much of it was cached already, \<open>j\<close>, and caches the
  rest: afterwards the cache holds exactly the old prefixes and those of the key, which map to the
  slots cached before up to \<open>j\<close> and to the given slots from \<open>j\<close> on.  The tree then owns the slots
  from \<open>j\<close> on, and the evictable size grows by their number.
\<close>

theorem radix_insert:
  assumes "radix_reach s R" and "rx_page_size s dvd length key" and "length value = length key"
  shows "\<exists>j vals s'. rx_insert s key (Some value) = Some (j, s') \<and> j \<le> length key \<and>
     longest_cached (cached s) key (take j key) vals \<and>
     cached s' = cached s \<union> {(take i key, take i (vals @ drop j value)) | i. i \<le> length key \<and> rx_page_size s dvd i} \<and>
     rx_slots s' = rx_slots s + mset (drop j value) \<and>
     rx_evictable s' = rx_evictable s + int (length key - j) \<and> rx_protected s' = rx_protected s"
  using assms by (rule insert_spec)

theorem radix_insert_witness:
  "\<exists>j s'. rx_insert demo_cache [1, 2, 5, 6] (Some [10, 11, 12, 13]) = Some (j, s') \<and> j = 2 \<and>
     rx_slots s' = rx_slots demo_cache + {#12, 13#}"
proof -
  have "map_option fst (rx_insert demo_cache [1, 2, 5, 6] (Some [10, 11, 12, 13])) = Some 2" by code_simp
  moreover have "rx_page_size demo_cache = 1" by code_simp
  ultimately show ?thesis
    using radix_insert [OF demo_reach, of "[1, 2, 5, 6]" "[10, 11, 12, 13]"] by auto
qed

lemma sizes_and_locks_spec:
  assumes "radix_reach s R"
  shows "(\<exists>t. total_size s = Some t \<and> int t = evictable_size s + protected_size s \<and> t = size (rx_slots s)) \<and>
     0 \<le> evictable_size s \<and> 0 \<le> protected_size s \<and> (R = {#} \<longrightarrow> protected_size s = 0) \<and>
     (\<forall>n ks vs. at_node s n ks vs \<and> ks \<noteq> [] \<longrightarrow>
        rx_lock s n = int (size {#h \<in># R. \<exists>ks' vs'. at_node s h ks' vs' \<and> prefix ks ks'#})) \<and>
     (\<forall>ks vs vs'. (ks, vs) \<in> cached s \<and> (ks, vs') \<in> cached s \<longrightarrow> vs = vs' \<and> length vs = length ks)"
proof -
  obtain L P V where ok: "radix_ok s L P V R" using radix_reach_ok [OF assms] by blast
  note T = radix_okD(2) [OF ok] and LO = radix_okD(3) [OF ok] and SO = radix_okD(4) [OF ok]
  have "(\<Sum>n\<in>L. length (rx_value s n)) = size (rx_slots s)"
    by (simp add: rx_slots_eq [OF T] tree_slots_def size_multiset_sum)
  then have 1: "\<exists>t. total_size s = Some t \<and> int t = evictable_size s + protected_size s \<and> t = size (rx_slots s)"
    using total_size_eq [OF T] sizes_total [OF ok] by (simp add: evictable_size_def protected_size_def)
  have 2: "0 \<le> evictable_size s" "0 \<le> protected_size s"
  proof -
    have "0 \<le> unlocked_len s n" "0 \<le> locked_len s n" for n
      by (simp_all add: unlocked_len_def locked_len_def)
    then show "0 \<le> evictable_size s" "0 \<le> protected_size s"
      using SO by (simp_all add: size_ok_def evictable_size_def protected_size_def sum_nonneg)
  qed
  have 3: "protected_size s = 0" if "R = {#}"
    using SO LO that by (auto simp: size_ok_def protected_size_def locked_len_def lock_ok_def refs_at_def intro!: sum.neutral)
  have 4: "rx_lock s n = int (size {#h \<in># R. \<exists>ks' vs'. at_node s h ks' vs' \<and> prefix ks ks'#})"
    if n: "at_node s n ks vs" "ks \<noteq> []" for n ks vs
  proof -
    have nL: "n \<in> L" "P n = ks" "n \<noteq> rx_root s"
      using n tree_root_path(1) [OF T] at_node_iff [OF T] by auto
    have "{#h \<in># R. prefix (P n) (P h)#} = {#h \<in># R. \<exists>ks' vs'. at_node s h ks' vs' \<and> prefix ks ks'#}"
      using LO nL(2) by (intro filter_mset_cong0) (auto simp: at_node_iff [OF T] lock_ok_def)
    then show ?thesis using LO nL by (simp add: lock_ok_def refs_at_def)
  qed
  have 5: "vs = vs' \<and> length vs = length ks" if c: "(ks, vs) \<in> cached s" "(ks, vs') \<in> cached s" for ks vs vs'
  proof -
    have c': "(ks, vs) \<in> content (rx_page_size s) L P V" "(ks, vs') \<in> content (rx_page_size s) L P V"
      using c cached_eq [OF T] by simp_all
    obtain n where n: "n \<in> L" "prefix ks (P n)"
      using c'(1) unfolding content_def by (auto simp: take_is_prefix)
    show ?thesis
      using content_map [OF T c'(1) n] content_map [OF T c'(2) n] content_length [OF T c'(1)] by simp
  qed
  show ?thesis using 1 2 3 4 5 by blast
qed

text \<open>
  C25. The size counters and the reference counts mean what they say in every reachable state:
  \<open>evictable_size + protected_size\<close> is \<open>total_size\<close> (whose loop ends), neither is negative, the
  \<open>lock_ref\<close> of every node but the root is the number of held nodes at or below it, and the cache
  is a map: one prefix has one list of slots, of the same length.
\<close>

theorem radix_sizes_and_locks:
  assumes "radix_reach s R"
  shows "(\<exists>t. total_size s = Some t \<and> int t = evictable_size s + protected_size s \<and> t = size (rx_slots s)) \<and>
     0 \<le> evictable_size s \<and> 0 \<le> protected_size s \<and> (R = {#} \<longrightarrow> protected_size s = 0) \<and>
     (\<forall>n ks vs. at_node s n ks vs \<and> ks \<noteq> [] \<longrightarrow>
        rx_lock s n = int (size {#h \<in># R. \<exists>ks' vs'. at_node s h ks' vs' \<and> prefix ks ks'#})) \<and>
     (\<forall>ks vs vs'. (ks, vs) \<in> cached s \<and> (ks, vs') \<in> cached s \<longrightarrow> vs = vs' \<and> length vs = length ks)"
  using assms by (rule sizes_and_locks_spec)

theorem radix_sizes_and_locks_witness:
  "\<exists>t. total_size demo_cache = Some t \<and> int t = evictable_size demo_cache + protected_size demo_cache"
  using radix_sizes_and_locks [OF demo_reach] by blast

lemma lock_unlock_spec:
  assumes "radix_reach s R" and "at_node s n ks vs"
  shows "\<exists>d s'. inc_lock_ref s n = Some (d, s') \<and> evictable_size s' = evictable_size s + d \<and>
     protected_size s' = protected_size s - d \<and> d \<le> 0 \<and> cached s' = cached s \<and> rx_slots s' = rx_slots s \<and>
     dec_lock_ref s' n = Some (- d, s)"
proof -
  obtain L P V where ok: "radix_ok s L P V R" using radix_reach_ok [OF assms(1)] by blast
  note T = radix_okD(2) [OF ok] and LO = radix_okD(3) [OF ok] and dis = radix_okD(1) [OF ok]
  have n: "n \<in> L" using assms(2) at_node_iff [OF T] by blast
  let ?A = "anc s L P n"
  let ?u = "\<Sum>m\<in>anc s L P n. lock_len 0 s m"
  let ?s' = "walked s ?A 1 (- ?u)"
  have T': "tree_ok ?s' L P V" by (rule tree_ok_walked [OF T])
  have inc: "inc_lock_ref s n = Some (- ?u, ?s')"
    using inc_lock_loop_eq [OF T n, of 0] dis by (simp add: inc_lock_ref_def)
  have same: "(\<Sum>m\<in>?A. lock_len 1 ?s' m) = ?u"
    by (rule sum.cong) (auto simp: lock_len_def)
  have undone: "walked ?s' ?A (- 1) ?u = s"
    by (simp add: walked_def fun_eq_iff)
  have "dec_lock_ref ?s' n = Some (?u, s)"
    using dec_lock_loop_eq [OF T' n, of 0] dis by (simp add: dec_lock_ref_def same undone)
  moreover have "0 \<le> ?u" by (intro sum_nonneg) (simp add: lock_len_def)
  moreover have "cached ?s' = cached s" "rx_slots ?s' = rx_slots s"
    by (simp_all add: cached_eq [OF T] cached_eq [OF T'] rx_slots_eq [OF T] rx_slots_eq [OF T'])
  ultimately show ?thesis
    using inc by (intro exI [of _ "- ?u"] exI [of _ ?s']) (simp add: evictable_size_def protected_size_def)
qed

text \<open>
  Taking and giving back references: \<open>inc_lock_ref\<close> on a node of the tree ends, returns the
  change of the evictable size, moves exactly those tokens to the protected size, and keeps the
  content; \<open>dec_lock_ref\<close> on the same node undoes it, state and return value.
\<close>

theorem radix_lock_unlock:
  assumes "radix_reach s R" and "at_node s n ks vs"
  shows "\<exists>d s'. inc_lock_ref s n = Some (d, s') \<and> evictable_size s' = evictable_size s + d \<and>
     protected_size s' = protected_size s - d \<and> d \<le> 0 \<and> cached s' = cached s \<and> rx_slots s' = rx_slots s \<and>
     dec_lock_ref s' n = Some (- d, s)"
  using assms by (rule lock_unlock_spec)

theorem radix_lock_unlock_witness:
  "\<exists>n d s'. inc_lock_ref demo_matched n = Some (d, s') \<and> dec_lock_ref s' n = Some (- d, demo_matched)"
proof -
  obtain ks n where "at_node demo_matched n ks [7, 8]"
    using demo_match_run match_at_node [OF demo_reach, of "[1, 2, 5]"] by auto
  from radix_lock_unlock [OF demo_matched_reach this] show ?thesis by blast
qed

lemma evict_spec:
  assumes "radix_reach s R"
  shows "\<exists>L xs s' L'. evict free num a s = Some (foldl free a (map (rx_value s) xs), s') \<and>
     L = {n. \<exists>ks vs. at_node s n ks vs} \<and> lru_run s L xs s' L' \<and>
     (let freed = concat (map (rx_value s) xs)
      in rx_slots s = rx_slots s' + mset freed \<and> evictable_size s = evictable_size s' + int (length freed) \<and>
         protected_size s' = protected_size s \<and>
         (num \<le> length freed \<or> evictable_size s' = 0) \<and>
         (xs \<noteq> [] \<longrightarrow> length (concat (map (rx_value s) (butlast xs))) < num)) \<and>
     cached s' \<subseteq> cached s \<and>
     (\<forall>n\<in>#R. \<forall>ks vs. at_node s n ks vs \<longrightarrow> at_node s' n ks vs \<and> (ks, vs) \<in> cached s')"
proof -
  obtain L P V where ok: "radix_ok s L P V R" using radix_reach_ok [OF assms] by blast
  note T = radix_okD(2) [OF ok]
  have L: "L = {n. \<exists>ks vs. at_node s n ks vs}" using at_node_iff [OF T] by auto
  obtain xs s' L' where *: "evict free num a s = Some (foldl free a (map (rx_value s) xs), s')"
    "lru_run s L xs s' L'" "num \<le> length (concat (map (rx_value s) xs)) \<or> rx_evictable s' = 0"
    "xs \<noteq> [] \<longrightarrow> length (concat (map (rx_value s) (butlast xs))) < num"
    using evict_ok [OF ok, of free num a free a] by blast
  have run: "radix_ok s' L' P V R" "L' \<subseteq> L" "same_config s s'"
    "tree_slots s' L' + mset (concat (map (rx_value s) xs)) = tree_slots s L"
    "rx_evictable s' + int (length (concat (map (rx_value s) xs))) = rx_evictable s"
    "rx_protected s' = rx_protected s"
    using lru_run_ok [OF *(2) ok] by simp_all
  note T' = radix_okD(2) [OF run(1)]
  have ps: "rx_page_size s' = rx_page_size s" using run(3) by (simp add: same_config_def)
  have "cached s' \<subseteq> cached s"
    using run(2) unfolding cached_eq [OF T] cached_eq [OF T'] ps content_def by blast
  moreover have "at_node s' n ks vs \<and> (ks, vs) \<in> cached s'" if "n \<in># R" "at_node s n ks vs" for n ks vs
    using radix_okD(3) [OF run(1)] that content_node [OF T', of n]
    by (auto simp: lock_ok_def at_node_iff [OF T] at_node_iff [OF T'] cached_eq [OF T'])
  moreover have "rx_slots s = rx_slots s' + mset (concat (map (rx_value s) xs))"
    using run(4) by (simp add: rx_slots_eq [OF T] rx_slots_eq [OF T'])
  ultimately show ?thesis
    using *(1-4) L run(5,6)
    by (intro exI [of _ L] exI [of _ xs] exI [of _ s'] exI [of _ L']) (simp add: evictable_size_def protected_size_def Let_def)
qed

text \<open>
  C8. \<open>evict\<close> ends, and deletes nodes one after the other, each of them the least recently used
  leaf that no request holds: it frees exactly their slots, gives them to the allocator's \<open>free\<close> in
  that order, stops as soon as enough tokens are freed, and falls short only when nothing is
  evictable any more.  Held prefixes stay cached, and the size counters follow.
\<close>

theorem radix_evict:
  assumes "radix_reach s R"
  shows "\<exists>L xs s' L'. evict free num a s = Some (foldl free a (map (rx_value s) xs), s') \<and>
     L = {n. \<exists>ks vs. at_node s n ks vs} \<and> lru_run s L xs s' L' \<and>
     (let freed = concat (map (rx_value s) xs)
      in rx_slots s = rx_slots s' + mset freed \<and> evictable_size s = evictable_size s' + int (length freed) \<and>
         protected_size s' = protected_size s \<and>
         (num \<le> length freed \<or> evictable_size s' = 0) \<and>
         (xs \<noteq> [] \<longrightarrow> length (concat (map (rx_value s) (butlast xs))) < num)) \<and>
     cached s' \<subseteq> cached s \<and>
     (\<forall>n\<in>#R. \<forall>ks vs. at_node s n ks vs \<longrightarrow> at_node s' n ks vs \<and> (ks, vs) \<in> cached s')"
  using assms by (rule evict_spec)

theorem radix_evict_witness:
  "\<exists>freed s'. evict token_free 2 (token_init 4) demo_cache = Some (foldl token_free (token_init 4) freed, s') \<and>
     rx_slots demo_cache = rx_slots s' + mset (concat freed)"
  using radix_evict [OF demo_reach, of token_free 2 "token_init 4"] by (auto simp: Let_def)

end
