(* ===== verification/RadixReq.thy ===== *)
theory RadixReq
  imports RadixSpec
begin

text \<open>
  The request side of the radix cache: \<open>cache_finished_req\<close> and \<open>cache_unfinished_req\<close> with page
  size 1 and the token allocator.  A KV slot belongs to the allocator, to the tree or to one
  request; these operations hand the slots of a request over without losing or doubling any.
\<close>

section \<open>The allocator interface\<close>

context kv_allocator
begin

lemma free_exact:
  "ready a \<Longrightarrow> cover a xs = mset xs \<Longrightarrow> slots (free a xs) = slots a + mset xs"
  by (simp add: free_slots)

end

section \<open>Requests\<close>

text \<open>
  What the scheduler keeps true of a running request: it holds its \<open>last_node\<close>, whose prefix is a
  prefix of its tokens, and its row of the request pool starts with the slots of that prefix.
\<close>

definition req_ok :: "cache_req \<Rightarrow> nat list \<Rightarrow> 'a cache_state \<Rightarrow> nat multiset \<Rightarrow> bool" where
  "req_ok req toks c R \<longleftrightarrow>
     rx_page_size (cs_tree c) = 1 \<and> cr_last_node req \<in># R \<and>
     (\<exists>ks. at_node (cs_tree c) (cr_last_node req) ks (cr_prefix_indices req) \<and> prefix ks toks) \<and>
     cr_pool_idx req < length (rp_table (cs_pool c)) \<and>
     length (req_pool_read (cs_pool c) (cr_pool_idx req) (length toks)) = length toks \<and>
     take (length (cr_prefix_indices req)) (req_pool_read (cs_pool c) (cr_pool_idx req) (length toks))
       = cr_prefix_indices req"

lemma insert_kv:
  assumes reach: "radix_reach t R" and ps: "rx_page_size t = 1" and len: "length kv = length toks"
    and node: "at_node t h ks pre" and pk: "prefix ks toks"
  shows "\<exists>j vals t1. rx_insert t toks (Some kv) = Some (j, t1) \<and> radix_reach t1 R \<and> length pre \<le> j \<and> j \<le> length toks \<and>
     cached t \<subseteq> cached t1 \<and> (toks, vals @ drop j kv) \<in> cached t1 \<and> rx_slots t1 = rx_slots t + mset (drop j kv)"
proof -
  obtain j vals t1 where *: "rx_insert t toks (Some kv) = Some (j, t1)" "j \<le> length toks"
    "longest_cached (cached t) toks (take j toks) vals"
    "cached t1 = cached t \<union> {(take i toks, take i (vals @ drop j kv)) | i. i \<le> length toks \<and> rx_page_size t dvd i}"
    "rx_slots t1 = rx_slots t + mset (drop j kv)"
    using insert_spec [OF reach _ len] ps by auto
  have reach1: "radix_reach t1 R"
    by (rule rr_insert [OF reach _ len *(1)]) (simp add: ps)
  have "(ks, pre) \<in> cached t" by (rule at_node_cached(1) [OF reach node])
  then have "prefix ks (take j toks)" using *(3) pk unfolding longest_cached_def by blast
  then have "length ks \<le> j" using prefix_length_le by fastforce
  then have pre: "length pre \<le> j" using at_node_cached(2) [OF reach node] by simp
  have "length vals = length (take j toks)"
    using *(3) cached_length [OF reach] unfolding longest_cached_def by blast
  then have "length (vals @ drop j kv) = length toks" using *(2) len by simp
  then have "(toks, vals @ drop j kv) \<in> cached t1"
    unfolding *(4) ps by (intro UnI2) (auto intro!: exI [of _ "length toks"])
  then show ?thesis using *(1,2,4,5) reach1 pre by blast
qed

lemma drop_slice: "i \<le> j \<Longrightarrow> mset (drop i xs) = mset (slice i j xs) + mset (drop j xs)"
proof -
  assume "i \<le> j"
  then have "drop i xs = slice i j xs @ drop j xs"
    by (metis append_take_drop_id drop_drop le_add_diff_inverse2 slice_def)
  then show ?thesis by simp
qed

text \<open>An example: a request with tokens \<open>1 2 5 6\<close> that shares the first two with the cache.\<close>

definition demo_node :: nat where
  "demo_node = fst (snd (the (match_prefix demo_cache [1, 2, 5])))"

definition demo_held :: radix where
  "demo_held = snd (the (inc_lock_ref demo_matched demo_node))"

lemma demo_held:
  "radix_reach demo_held {#demo_node#} \<and> at_node demo_held demo_node [1, 2] [7, 8] \<and>
     rx_slots demo_held = {#7, 8, 9#}"
proof -
  obtain ks n s' where m: "match_prefix demo_cache [1, 2, 5] = Some ([7, 8], n, s')"
    "longest_cached (cached demo_cache) [1, 2, 5] ks [7, 8]" "at_node s' n ks [7, 8]" "rx_slots s' = rx_slots demo_cache"
    using match_prefix_spec [OF demo_reach, of "[1, 2, 5]"] demo_match_run by fastforce
  have n: "n = demo_node" "s' = demo_matched" using m(1) by (simp_all add: demo_node_def demo_matched_def)
  have "prefix ks [1, 2, 5]" using m(2) by (simp add: longest_cached_def)
  moreover have "length ks = 2"
    using at_node_cached(2) [OF demo_matched_reach m(3) [unfolded n]] by simp
  ultimately have ks: "ks = [1, 2]" by (auto simp: prefix_Cons)
  obtain d t where i: "inc_lock_ref demo_matched demo_node = Some (d, t)" "radix_reach t {#demo_node#}"
    "rx_slots t = rx_slots demo_matched" "at_node t demo_node [1, 2] [7, 8]"
    using inc_lock_ref_spec [OF demo_matched_reach m(3) [unfolded n ks]] m(3) n ks by auto
  have "t = demo_held" using i(1) by (simp add: demo_held_def)
  moreover have "rx_slots demo_cache = {#7, 8, 9#}"
  proof -
    have "all_values_flatten demo_cache = Some [7, 8, 9]" by code_simp
    then show ?thesis by (simp add: rx_slots_def)
  qed
  ultimately show ?thesis using i m(4) n by simp
qed

definition demo_req :: cache_req where
  "demo_req = \<lparr>cr_pool_idx = 1, cr_origin_input_ids = [1, 2, 5], cr_output_ids = [6, 4],
     cr_fill_ids = [1, 2, 5, 6], cr_prefix_indices = [7, 8], cr_last_node = demo_node\<rparr>"

definition demo_state :: "token_alloc cache_state" where
  "demo_state = \<lparr>cs_tree = demo_held,
     cs_pool = \<lparr>rp_size = 2, rp_max_context_len = 5, rp_table = [[0, 0, 0, 0, 0], [7, 8, 10, 11, 0]], rp_free_slots = [0]\<rparr>,
     cs_alloc = token_init 3\<rparr>"

lemma demo_page_size: "rx_page_size demo_held = 1"
  by code_simp

lemma demo_req_ok: "req_ok demo_req [1, 2, 5, 6] demo_state {#demo_node#}"
  using demo_held demo_page_size
  by (auto simp: req_ok_def demo_req_def demo_state_def req_pool_read_def intro!: exI [of _ "[1, 2]"])

section \<open>The runs\<close>

text \<open>Both calls, for any allocator: which slots they free, and that the nodes others hold stay.\<close>

lemma freed_slots:
  fixes t :: "nat multiset"
  assumes "t' + freed = t + own" and "a' = a + freed"
  shows "t' + a' = t + a + own"
proof -
  have "t' + a' = (t' + freed) + a" using assms(2) by (simp add: ac_simps)
  then show ?thesis unfolding assms(1) by (simp add: ac_simps)
qed

lemma finished_req_run:
  assumes reach: "radix_reach (cs_tree c) R" and ok: "req_ok req (butlast (cr_origin_input_ids req @ cr_output_ids req)) c R"
  shows "\<exists>freed t'. cache_finished_req free req c =
       Some \<lparr>cs_tree = t', cs_pool = req_pool_free (cs_pool c) (OneSlot (cr_pool_idx req)), cs_alloc = free (cs_alloc c) freed\<rparr> \<and>
     radix_reach t' (R - {#cr_last_node req#}) \<and> rx_page_size t' = 1 \<and>
     rx_slots t' + mset freed = rx_slots (cs_tree c) +
       mset (drop (length (cr_prefix_indices req)) (req_pool_read (cs_pool c) (cr_pool_idx req)
               (length (butlast (cr_origin_input_ids req @ cr_output_ids req))))) \<and>
     cached (cs_tree c) \<subseteq> cached t' \<and> (\<exists>vals. (butlast (cr_origin_input_ids req @ cr_output_ids req), vals) \<in> cached t') \<and>
     (\<forall>m ks vs. at_node (cs_tree c) m ks vs \<longrightarrow> at_node t' m ks vs)"
proof -
  let ?t = "cs_tree c"
  define toks where "toks = butlast (cr_origin_input_ids req @ cr_output_ids req)"
  define kv where "kv = req_pool_read (cs_pool c) (cr_pool_idx req) (length toks)"
  define pre where "pre = cr_prefix_indices req"
  obtain ks where req: "rx_page_size ?t = 1" "cr_last_node req \<in># R" "at_node ?t (cr_last_node req) ks pre"
    "prefix ks toks" "length kv = length toks"
    using ok by (auto simp: req_ok_def toks_def [symmetric] kv_def [symmetric] pre_def [symmetric])
  obtain j vals t1 where ins: "rx_insert ?t toks (Some kv) = Some (j, t1)" "radix_reach t1 R" "length pre \<le> j"
    "cached ?t \<subseteq> cached t1" "(toks, vals @ drop j kv) \<in> cached t1" "rx_slots t1 = rx_slots ?t + mset (drop j kv)"
    using insert_kv [OF reach req(1,5,3,4)] by blast
  note keep1 = insert_keeps_nodes [OF reach _ req(5) ins(1)]
  obtain d t2 where dec: "dec_lock_ref t1 (cr_last_node req) = Some (d, t2)" "radix_reach t2 (R - {#cr_last_node req#})"
    "cached t2 = cached t1" "rx_slots t2 = rx_slots t1" "\<forall>m ks vs. at_node t2 m ks vs = at_node t1 m ks vs"
    using dec_lock_ref_spec [OF ins(2) req(2)] by blast
  have ps: "rx_page_size t2 = 1" using lock_keeps_page_size(1) [OF ins(2) req(2) dec(1)] keep1(1) req(1) by simp
  have dis: "\<not> rx_disable ?t" using radix_reach_ok [OF reach] radix_okD(1) by blast
  let ?freed = "slice (length pre) j kv"
  have run: "cache_finished_req free req c =
      Some \<lparr>cs_tree = t2, cs_pool = req_pool_free (cs_pool c) (OneSlot (cr_pool_idx req)), cs_alloc = free (cs_alloc c) ?freed\<rparr>"
    using dis req(1,5) ins(1) dec(1)
    by (simp add: cache_finished_req_def Let_def toks_def [symmetric] kv_def [symmetric] pre_def [symmetric])
  have "rx_slots t2 + mset ?freed = rx_slots ?t + mset (drop (length pre) kv)"
    using drop_slice [OF ins(3), of kv] dec(4) ins(6) by (simp add: ac_simps)
  then show ?thesis
    unfolding toks_def [symmetric] kv_def [symmetric] pre_def [symmetric] run
    using dec(2,3,5) ins(4,5) keep1(2) req(1) ps by auto
qed

lemma unfinished_req_run:
  assumes reach: "radix_reach (cs_tree c) R" and ok: "req_ok req (cr_fill_ids req) c R"
  shows "\<exists>freed new n t' row'. cache_unfinished_req free req c =
       Some (Inr (req\<lparr>cr_prefix_indices := new, cr_last_node := n\<rparr>,
         \<lparr>cs_tree = t', cs_pool = (cs_pool c)\<lparr>rp_table := (rp_table (cs_pool c))[cr_pool_idx req := row']\<rparr>,
          cs_alloc = free (cs_alloc c) freed\<rparr>)) \<and>
     radix_reach t' (add_mset n (R - {#cr_last_node req#})) \<and> rx_page_size t' = 1 \<and> at_node t' n (cr_fill_ids req) new \<and>
     length row' = length (rp_table (cs_pool c) ! cr_pool_idx req) \<and> take (length (cr_fill_ids req)) row' = new \<and>
     rx_slots t' + mset freed = rx_slots (cs_tree c) +
       mset (drop (length (cr_prefix_indices req)) (req_pool_read (cs_pool c) (cr_pool_idx req) (length (cr_fill_ids req)))) \<and>
     (\<forall>m ks vs. at_node (cs_tree c) m ks vs \<longrightarrow> at_node t' m ks vs)"
proof -
  let ?t = "cs_tree c" and ?i = "cr_pool_idx req"
  define toks where "toks = cr_fill_ids req"
  define kv where "kv = req_pool_read (cs_pool c) ?i (length toks)"
  define pre where "pre = cr_prefix_indices req"
  obtain ks where req: "rx_page_size ?t = 1" "cr_last_node req \<in># R" "at_node ?t (cr_last_node req) ks pre"
    "prefix ks toks" "length kv = length toks" "?i < length (rp_table (cs_pool c))" "take (length pre) kv = pre"
    using ok by (auto simp: req_ok_def toks_def [symmetric] kv_def [symmetric] pre_def [symmetric])
  obtain j vals t1 where ins: "rx_insert ?t toks (Some kv) = Some (j, t1)" "radix_reach t1 R" "length pre \<le> j"
    "cached ?t \<subseteq> cached t1" "(toks, vals @ drop j kv) \<in> cached t1" "rx_slots t1 = rx_slots ?t + mset (drop j kv)"
    using insert_kv [OF reach req(1,5,3,4)] by blast
  obtain ks' new n t2 where mat: "match_prefix t1 toks = Some (new, n, t2)" "longest_cached (cached t1) toks ks' new"
    "at_node t2 n ks' new" "rx_slots t2 = rx_slots t1"
    using match_prefix_spec [OF ins(2), of toks] by blast
  have reach2: "radix_reach t2 R" by (rule rr_match [OF ins(2) mat(1)])
  have ks': "ks' = toks" using mat(2) ins(5) by (auto simp: longest_cached_def intro: prefix_order.antisym)
  have new: "prefix pre new" "length new = length toks"
    using mat(2) ins(4) at_node_cached(1) [OF reach req(3)] req(4) at_node_cached(2) [OF reach2 mat(3)] ks'
    by (auto simp: longest_cached_def)
  have npre: "take (length pre) new = pre" "length pre \<le> length new"
    using new(1) prefix_length_le by (auto simp: prefix_def)
  obtain d t3 where dec: "dec_lock_ref t2 (cr_last_node req) = Some (d, t3)" "radix_reach t3 (R - {#cr_last_node req#})"
    "rx_slots t3 = rx_slots t2" "at_node t3 n toks new" "\<forall>m ks vs. at_node t3 m ks vs = at_node t2 m ks vs"
    using dec_lock_ref_spec [OF reach2 req(2)] mat(3) ks' by auto
  obtain d' t4 where inc: "inc_lock_ref t3 n = Some (d', t4)" "radix_reach t4 (add_mset n (R - {#cr_last_node req#}))"
    "rx_slots t4 = rx_slots t3" "at_node t4 n toks new" "\<forall>m ks vs. at_node t4 m ks vs = at_node t3 m ks vs"
    using inc_lock_ref_spec [OF dec(2,4)] dec(4) by auto
  define row where "row = rp_table (cs_pool c) ! ?i"
  have kvrow: "kv = take (length toks) row" by (simp add: kv_def row_def req_pool_read_def)
  then have rowlen: "length toks \<le> length row" using req(5) by simp
  have sl: "length (slice (length pre) (length new) row) = length (drop (length pre) new)"
    using rowlen new(2) by simp
  let ?row' = "take (length pre) row @ drop (length pre) new @ drop (length pre + length (drop (length pre) new)) row"
  let ?p = "(cs_pool c)\<lparr>rp_table := (rp_table (cs_pool c))[?i := ?row']\<rparr>"
  have wr: "req_pool_write (cs_pool c) ?i (length pre) (length new) (drop (length pre) new) = Inr ?p"
    using req(6) sl unfolding req_pool_write_def Let_def row_def [symmetric] by simp
  have "take (length pre) row = pre"
    using req(7) npre(2) new(2) unfolding kvrow by (simp add: min_def)
  have dis: "\<not> rx_disable ?t" using radix_reach_ok [OF reach] radix_okD(1) by blast
  let ?a = "free (cs_alloc c) (slice (length pre) j kv)"
  let ?req = "req\<lparr>cr_prefix_indices := new, cr_last_node := n\<rparr>"
  have run: "cache_unfinished_req free req c = Some (Inr (?req, \<lparr>cs_tree = t4, cs_pool = ?p, cs_alloc = ?a\<rparr>))"
    using dis req(1,5) ins(1) mat(1) wr dec(1) inc(1)
    by (simp add: cache_unfinished_req_def Let_def toks_def [symmetric] kv_def [symmetric] pre_def [symmetric])
  have slots: "rx_slots t4 + mset (slice (length pre) j kv) = rx_slots ?t + mset (drop (length pre) kv)"
    using drop_slice [OF ins(3), of kv] inc(3) dec(3) mat(4) ins(6) by (simp add: ac_simps)
  have keep: "at_node t4 m ks vs" if "at_node ?t m ks vs" for m ks vs
    using that insert_keeps_nodes(2) [OF reach _ req(5) ins(1)] match_prefix_keeps(1) [OF ins(2) mat(1)] dec(5) inc(5) req(1) by auto
  have "rx_page_size t1 = 1" using insert_keeps_nodes(1) [OF reach _ req(5) ins(1)] req(1) by simp
  then have ps: "rx_page_size t4 = 1"
    using match_prefix_keeps(2) [OF ins(2) mat(1)] lock_keeps_page_size(1) [OF reach2 req(2) dec(1)]
      lock_keeps_page_size(2) [OF dec(2,4) inc(1)] by simp
  have "length ?row' = length row" using rowlen npre(2) new(2) by simp
  moreover have "take (length toks) ?row' = new"
    using npre new(2) rowlen \<open>take (length pre) row = pre\<close> append_take_drop_id [of "length pre" new] by simp
  ultimately show ?thesis
    unfolding toks_def [symmetric] kv_def [symmetric] pre_def [symmetric] row_def [symmetric]
    using run inc(2,4) slots keep ps
    by (intro exI [of _ "slice (length pre) j kv"] exI [of _ new] exI [of _ n] exI [of _ t4] exI [of _ ?row']) simp
qed

section \<open>Properties\<close>

text \<open>
  C17. A finished request gives everything back: the cache then holds its tokens, its reference
  and its row of the request pool are released, and no KV slot is lost or doubled: the slots that
  were the request's own (those behind its cached prefix) are afterwards in the tree or free.
\<close>

theorem cache_finished_req_conserves:
  assumes "radix_reach (cs_tree c) R" and "ta_not_in_group (cs_alloc c)"
    and "req_ok req (butlast (cr_origin_input_ids req @ cr_output_ids req)) c R"
  shows "\<exists>c'. cache_finished_req token_free req c = Some c' \<and>
     radix_reach (cs_tree c') (R - {#cr_last_node req#}) \<and>
     rx_slots (cs_tree c') + token_slots (cs_alloc c') = rx_slots (cs_tree c) + token_slots (cs_alloc c) +
       mset (drop (length (cr_prefix_indices req)) (req_pool_read (cs_pool c) (cr_pool_idx req)
               (length (butlast (cr_origin_input_ids req @ cr_output_ids req))))) \<and>
     cached (cs_tree c) \<subseteq> cached (cs_tree c') \<and>
     (\<exists>vals. (butlast (cr_origin_input_ids req @ cr_output_ids req), vals) \<in> cached (cs_tree c')) \<and>
     rp_free_slots (cs_pool c') = rp_free_slots (cs_pool c) @ [cr_pool_idx req]"
proof -
  obtain freed t' where *: "cache_finished_req token_free req c =
       Some \<lparr>cs_tree = t', cs_pool = req_pool_free (cs_pool c) (OneSlot (cr_pool_idx req)), cs_alloc = token_free (cs_alloc c) freed\<rparr>"
     "radix_reach t' (R - {#cr_last_node req#})"
     "rx_slots t' + mset freed = rx_slots (cs_tree c) +
       mset (drop (length (cr_prefix_indices req)) (req_pool_read (cs_pool c) (cr_pool_idx req)
               (length (butlast (cr_origin_input_ids req @ cr_output_ids req)))))"
     "cached (cs_tree c) \<subseteq> cached t'" "\<exists>vals. (butlast (cr_origin_input_ids req @ cr_output_ids req), vals) \<in> cached t'"
    using finished_req_run [OF assms(1,3), of token_free] by blast
  then have "rx_slots t' + token_slots (token_free (cs_alloc c) freed) = rx_slots (cs_tree c) + token_slots (cs_alloc c) +
       mset (drop (length (cr_prefix_indices req)) (req_pool_read (cs_pool c) (cr_pool_idx req)
               (length (butlast (cr_origin_input_ids req @ cr_output_ids req)))))"
    by (intro freed_slots) (simp_all add: token.free_exact [OF assms(2) refl])
  then show ?thesis using * by simp
qed

theorem cache_finished_req_conserves_witness:
  "\<exists>c'. cache_finished_req token_free demo_req demo_state = Some c' \<and>
     rx_slots (cs_tree c') + token_slots (cs_alloc c') = {#7, 8, 9, 1, 2, 3, 10, 11#}"
proof -
  have "token_slots (token_init 3) = {#1, 2, 3#}" 
  proof -
    have "ta_free_slots (token_init 3) = [1, 2, 3]" by code_simp
    then show ?thesis by (simp add: token_slots_def)
  qed
  moreover have "radix_reach (cs_tree demo_state) {#demo_node#}" using demo_held by (simp add: demo_state_def)
  ultimately show ?thesis
    using cache_finished_req_conserves [of demo_state "{#demo_node#}" demo_req] demo_req_ok demo_held token_init_ready [of 3]
    by (fastforce simp: demo_state_def demo_req_def req_pool_read_def)
qed

text \<open>
  C16. An unfinished request (a prefill chunk) hands its tokens to the cache and goes on: it then
  holds the node of all its tokens instead of its old one, its \<open>prefix_indices\<close> are that node's
  slots, its row of the request pool has been rewritten to them, and again no slot is lost or
  doubled.
\<close>

theorem cache_unfinished_req_conserves:
  assumes "radix_reach (cs_tree c) R" and "ta_not_in_group (cs_alloc c)"
    and "req_ok req (cr_fill_ids req) c R"
  shows "\<exists>req' c'. cache_unfinished_req token_free req c = Some (Inr (req', c')) \<and>
     radix_reach (cs_tree c') (add_mset (cr_last_node req') (R - {#cr_last_node req#})) \<and>
     at_node (cs_tree c') (cr_last_node req') (cr_fill_ids req) (cr_prefix_indices req') \<and>
     req_pool_read (cs_pool c') (cr_pool_idx req) (length (cr_fill_ids req)) = cr_prefix_indices req' \<and>
     rx_slots (cs_tree c') + token_slots (cs_alloc c') = rx_slots (cs_tree c) + token_slots (cs_alloc c) +
       mset (drop (length (cr_prefix_indices req))
               (req_pool_read (cs_pool c) (cr_pool_idx req) (length (cr_fill_ids req))))"
proof -
  obtain freed new n t' row' where *: "cache_unfinished_req token_free req c =
       Some (Inr (req\<lparr>cr_prefix_indices := new, cr_last_node := n\<rparr>,
         \<lparr>cs_tree = t', cs_pool = (cs_pool c)\<lparr>rp_table := (rp_table (cs_pool c))[cr_pool_idx req := row']\<rparr>,
          cs_alloc = token_free (cs_alloc c) freed\<rparr>))"
     "radix_reach t' (add_mset n (R - {#cr_last_node req#}))" "at_node t' n (cr_fill_ids req) new"
     "take (length (cr_fill_ids req)) row' = new"
     "rx_slots t' + mset freed = rx_slots (cs_tree c) +
       mset (drop (length (cr_prefix_indices req)) (req_pool_read (cs_pool c) (cr_pool_idx req) (length (cr_fill_ids req))))"
    using unfinished_req_run [OF assms(1,3), of token_free] by (elim exE conjE)
  then have "rx_slots t' + token_slots (token_free (cs_alloc c) freed) = rx_slots (cs_tree c) + token_slots (cs_alloc c) +
       mset (drop (length (cr_prefix_indices req)) (req_pool_read (cs_pool c) (cr_pool_idx req) (length (cr_fill_ids req))))"
    by (intro freed_slots) (simp_all add: token.free_exact [OF assms(2) refl])
  moreover have "cr_pool_idx req < length (rp_table (cs_pool c))" using assms(3) by (simp add: req_ok_def)
  ultimately show ?thesis using * by (simp add: req_pool_read_def)
qed

theorem cache_unfinished_req_conserves_witness:
  "\<exists>req' c'. cache_unfinished_req token_free demo_req demo_state = Some (Inr (req', c')) \<and>
     at_node (cs_tree c') (cr_last_node req') [1, 2, 5, 6] (cr_prefix_indices req')"
  using cache_unfinished_req_conserves [of demo_state "{#demo_node#}" demo_req] demo_req_ok demo_held token_init_ready [of 3]
  by (fastforce simp: demo_state_def demo_req_def)

end
