(* ===== verification/PyVal.thy ===== *)
theory PyVal
  imports Prelude Complex_Main "HOL-Library.AList"
begin

text \<open>
  The Python values that the metrics code computes with: floats, where the finite ones are
  exact reals (no rounding, no overflow) and the infinities and NaN are values of their own;
  the JSON-like values that metric records hold; and dicts as association lists in insertion
  order, with \<open>d[k] = v\<close> replacing in place or appending at the end.
\<close>

section \<open>Floats\<close>

datatype fl = Fin real | PInf | NInf | NaN

fun isfinite :: "fl \<Rightarrow> bool" where
  "isfinite (Fin x) = True"
| "isfinite _ = False"

fun fin_val :: "fl \<Rightarrow> real" where
  "fin_val (Fin x) = x"
| "fin_val _ = 0"

lemma isfinite_iff: "isfinite v \<longleftrightarrow> (\<exists>x. v = Fin x)"
  by (cases v) auto

text \<open>The float comparisons: every comparison with NaN is false.\<close>

fun fl_less :: "fl \<Rightarrow> fl \<Rightarrow> bool" where
  "fl_less (Fin x) (Fin y) = (x < y)"
| "fl_less NInf (Fin _) = True"
| "fl_less NInf PInf = True"
| "fl_less (Fin _) PInf = True"
| "fl_less _ _ = False"

fun fl_eq :: "fl \<Rightarrow> fl \<Rightarrow> bool" where
  "fl_eq (Fin x) (Fin y) = (x = y)"
| "fl_eq PInf PInf = True"
| "fl_eq NInf NInf = True"
| "fl_eq _ _ = False"

definition fl_le :: "fl \<Rightarrow> fl \<Rightarrow> bool" where
  "fl_le a b = (fl_less a b \<or> fl_eq a b)"

fun fl_abs :: "fl \<Rightarrow> fl" where
  "fl_abs (Fin x) = Fin \<bar>x\<bar>"
| "fl_abs NaN = NaN"
| "fl_abs _ = PInf"

lemma fl_le_Fin [simp]: "fl_le (Fin x) (Fin y) \<longleftrightarrow> x \<le> y"
  by (auto simp: fl_le_def)

section \<open>Values and dicts\<close>

datatype pyval =
    VNone
  | VBool bool
  | VInt int
  | VFloat fl
  | VStr string
  | VList "pyval list"
  | VDict "(string \<times> pyval) list"

type_synonym pydict = "(string \<times> pyval) list"

text \<open>\<open>d.get(k)\<close>, \<open>k in d\<close>, \<open>d[k] = v\<close> and \<open>d.update(e)\<close>.\<close>

definition dget :: "pydict \<Rightarrow> string \<Rightarrow> pyval" where
  "dget d k = (case map_of d k of None \<Rightarrow> VNone | Some v \<Rightarrow> v)"

definition has_key :: "pydict \<Rightarrow> string \<Rightarrow> bool" where
  "has_key d k = (map_of d k \<noteq> None)"

abbreviation dset :: "pydict \<Rightarrow> string \<Rightarrow> pyval \<Rightarrow> pydict" where
  "dset d k v \<equiv> AList.update k v d"

lemma dget_Cons: "dget ((k, v) # d) k' = (if k = k' then v else dget d k')"
  by (simp add: dget_def)

definition dupdate :: "pydict \<Rightarrow> pydict \<Rightarrow> pydict" where
  "dupdate d e = foldl (\<lambda>d kv. dset d (fst kv) (snd kv)) d e"

lemma map_of_dset [simp]: "map_of (dset d k v) = (map_of d)(k \<mapsto> v)"
  by (rule update_conv')

lemma map_of_dupdate: "map_of (dupdate d e) k =
    (case map_of (rev e) k of None \<Rightarrow> map_of d k | Some v \<Rightarrow> Some v)"
proof -
  have "\<And>d. map_of (foldl (\<lambda>d kv. dset d (fst kv) (snd kv)) d e) k =
      (case map_of (rev e) k of None \<Rightarrow> map_of d k | Some v \<Rightarrow> Some v)"
  proof (induction e)
    case Nil
    then show ?case by simp
  next
    case (Cons kv e)
    then show ?case by (auto simp: map_add_def split: option.splits)
  qed
  then show ?thesis by (simp add: dupdate_def)
qed

lemma map_of_rev_distinct: "distinct (map fst e) \<Longrightarrow> map_of (rev e) = map_of e"
proof (induction e)
  case Nil
  then show ?case by simp
next
  case (Cons x e)
  then have "fst x \<notin> dom (map_of e)"
    by (auto simp: dom_map_of_conv_image_fst)
  then have "[fst x \<mapsto> snd x] ++ map_of e = (map_of e)(fst x \<mapsto> snd x)"
    by (metis map_add_comm dom_empty dom_fun_upd empty_map_add fun_upd_None_if_notin_dom
        inf_bot_right Int_insert_left map_add_upd option.distinct(1) map_add_empty Int_empty_left)
  then show ?case
    using Cons by (simp del: map_upds_apply_nontin)
qed

lemma map_of_dupdate_distinct:
  "distinct (map fst e) \<Longrightarrow>
   map_of (dupdate d e) k = (case map_of e k of None \<Rightarrow> map_of d k | Some v \<Rightarrow> Some v)"
  by (simp add: map_of_dupdate map_of_rev_distinct)

text \<open>An optional float as the value stored in a record, and the JSON string constants.\<close>

definition vopt :: "real option \<Rightarrow> pyval" where
  "vopt x = (case x of None \<Rightarrow> VNone | Some r \<Rightarrow> VFloat (Fin r))"

lemma vopt_simps [simp]: "vopt None = VNone" "vopt (Some r) = VFloat (Fin r)"
  by (simp_all add: vopt_def)

definition vint :: "nat \<Rightarrow> pyval" where
  "vint n = VInt (int n)"

definition vreason :: "bool \<Rightarrow> string \<Rightarrow> pyval" where
  "vreason available reason = (if available then VNone else VStr reason)"

text \<open>\<open>type(v) is int\<close>, \<open>type(v) in {int, float}\<close> and \<open>float(v)\<close> for a number.\<close>

fun is_int :: "pyval \<Rightarrow> bool" where
  "is_int (VInt _) = True"
| "is_int _ = False"

fun to_float :: "pyval \<Rightarrow> fl option" where
  "to_float (VInt i) = Some (Fin (real_of_int i))"
| "to_float (VFloat x) = Some x"
| "to_float _ = None"

text \<open>Truth value (\<open>bool(v)\<close>).\<close>

fun truthy :: "pyval \<Rightarrow> bool" where
  "truthy VNone = False"
| "truthy (VBool b) = b"
| "truthy (VInt i) = (i \<noteq> 0)"
| "truthy (VFloat x) = (x \<noteq> Fin 0)"
| "truthy (VStr s) = (s \<noteq> [])"
| "truthy (VList xs) = (xs \<noteq> [])"
| "truthy (VDict d) = (d \<noteq> [])"

section \<open>The Cauchy-Schwarz inequality on lists\<close>

lemma cs_step:
  fixes a b A B S :: real
  assumes "S\<^sup>2 \<le> A * B" and "0 \<le> A" and "0 \<le> B"
  shows "(a * b + S)\<^sup>2 \<le> (a * a + A) * (b * b + B)"
proof -
  have "\<bar>S\<bar> \<le> sqrt A * sqrt B"
    using assms(1) by (metis real_le_rsqrt power2_abs real_sqrt_mult)
  then have "2 * \<bar>a * b\<bar> * \<bar>S\<bar> \<le> 2 * \<bar>a * b\<bar> * (sqrt A * sqrt B)"
    by (rule mult_left_mono) simp
  then have "2 * \<bar>a * b\<bar> * \<bar>S\<bar> \<le> 2 * (\<bar>a\<bar> * sqrt B) * (\<bar>b\<bar> * sqrt A)"
    by (simp only: abs_mult ac_simps)
  also have "\<dots> \<le> (\<bar>a\<bar> * sqrt B)\<^sup>2 + (\<bar>b\<bar> * sqrt A)\<^sup>2"
    by (rule sum_squares_bound)
  also have "\<dots> = a\<^sup>2 * B + b\<^sup>2 * A"
    using assms by (simp add: power_mult_distrib)
  finally have "2 * (a * b) * S \<le> a\<^sup>2 * B + b\<^sup>2 * A"
    using abs_ge_self [of "2 * (a * b) * S"] by (simp add: abs_mult mult.assoc)
  then show ?thesis
    using assms(1) by (simp add: power2_eq_square algebra_simps)
qed

lemma cauchy_schwarz_list:
  fixes f g :: "'a \<Rightarrow> real"
  shows "(\<Sum>x\<leftarrow>xs. f x * g x)\<^sup>2 \<le> (\<Sum>x\<leftarrow>xs. f x * f x) * (\<Sum>x\<leftarrow>xs. g x * g x)"
proof (induction xs)
  case Nil
  then show ?case by simp
next
  case (Cons x xs)
  have "0 \<le> (\<Sum>x\<leftarrow>xs. f x * f x)" "0 \<le> (\<Sum>x\<leftarrow>xs. g x * g x)"
    by (rule sum_list_nonneg, auto)+
  with Cons show ?case
    by (simp add: cs_step)
qed

end
