(* ===== verification/SuffStats.thy ===== *)
theory SuffStats
  imports PyVal
begin

text \<open>
  The mergeable sufficient statistics of \<open>metrics/aggregators.py\<close> and the masks and the
  zero-advantage package of \<open>metrics/masks.py\<close>.  The laws of merging are stated once for
  any commutative monoid (locale \<open>mergeable\<close>) and interpreted here on
  \<open>SufficientStats.merge\<close>.
\<close>

section \<open>Folding a commutative monoid\<close>

locale mergeable =
  fixes zero :: 'a and merge :: "'a \<Rightarrow> 'a \<Rightarrow> 'a"
  assumes merge_assoc: "merge (merge a b) c = merge a (merge b c)"
    and merge_comm: "merge a b = merge b a"
    and merge_zero: "merge zero a = a"
begin

lemma merge_zero_right: "merge a zero = a"
  using merge_comm merge_zero by metis

lemma merge_left_comm: "merge a (merge b c) = merge b (merge a c)"
  by (metis merge_assoc merge_comm)

lemma foldl_merge: "foldl merge a xs = merge a (foldl merge zero xs)"
proof (induction xs arbitrary: a)
  case Nil
  then show ?case by (simp add: merge_zero_right)
next
  case (Cons x xs)
  show ?case
    using Cons [of "merge a x"] Cons [of "merge zero x"] by (simp add: merge_zero merge_assoc)
qed

lemma foldl_merge_append:
  "foldl merge zero (xs @ ys) = merge (foldl merge zero xs) (foldl merge zero ys)"
  by (simp add: foldl_merge [of "foldl merge zero xs"])

lemma foldl_merge_perm:
  "mset xs = mset ys \<Longrightarrow> foldl merge zero xs = foldl merge zero ys"
proof (induction xs arbitrary: ys)
  case Nil
  then show ?case by simp
next
  case (Cons x xs)
  then have "x \<in> set ys"
    by (metis list.set_intros(1) mset_eq_setD)
  then obtain us vs where ys: "ys = us @ x # vs"
    by (meson split_list)
  with Cons.prems have "mset xs = mset (us @ vs)"
    by simp
  then have "foldl merge zero xs = foldl merge zero (us @ vs)"
    by (rule Cons.IH)
  then show ?case
    using foldl_merge [of x xs] foldl_merge [of "merge (foldl merge zero us) x" vs]
      foldl_merge [of "foldl merge zero us" vs]
    by (simp add: ys merge_zero merge_assoc merge_left_comm)
qed

text \<open>A statistic that turns concatenation into merging can be computed shard by shard.\<close>

lemma foldl_merge_hom:
  assumes "f [] = zero" and "\<And>xs ys. f (xs @ ys) = merge (f xs) (f ys)"
  shows "foldl merge zero (map f xss) = f (concat xss)"
proof (induction xss)
  case Nil
  then show ?case by (simp add: assms(1))
next
  case (Cons xs xss)
  then show ?case
    using foldl_merge [of "f xs" "map f xss"] by (simp add: assms(2) merge_zero)
qed

end

section \<open>SufficientStats\<close>

record suff_stats =
  ss_sum :: real
  ss_sum_sq :: real
  ss_count :: nat
  ss_nan_count :: nat
  ss_masked_count :: nat
  ss_min :: "real option"
  ss_max :: "real option"
  ss_numerator_count :: nat

definition empty_stats :: suff_stats where
  "empty_stats = \<lparr>ss_sum = 0, ss_sum_sq = 0, ss_count = 0, ss_nan_count = 0, ss_masked_count = 0,
     ss_min = None, ss_max = None, ss_numerator_count = 0\<rparr>"

text \<open>
  \<open>from_values\<close>: the loop accumulates the finite included values and the three counters.
\<close>

type_synonym sample = "fl \<times> bool \<times> bool"

fun fv_step :: "real list \<times> nat \<times> nat \<times> nat \<Rightarrow> sample \<Rightarrow> real list \<times> nat \<times> nat \<times> nat" where
  "fv_step (fins, nan_count, masked_count, numerator_count) (v, included, numerator) =
     (if \<not> included then (fins, nan_count, masked_count + 1, numerator_count)
      else if \<not> isfinite v then (fins, nan_count + 1, masked_count, numerator_count)
      else (fins @ [fin_val v], nan_count, masked_count,
            if numerator then numerator_count + 1 else numerator_count))"

definition fv_build :: "sample list \<Rightarrow> suff_stats" where
  "fv_build samples =
     (let (fins, nan_count, masked_count, numerator_count) = foldl fv_step ([], 0, 0, 0) samples in
      \<lparr>ss_sum = sum_list fins, ss_sum_sq = sum_list (map (\<lambda>x. x * x) fins),
       ss_count = length fins, ss_nan_count = nan_count, ss_masked_count = masked_count,
       ss_min = (if fins = [] then None else Some (Min (set fins))),
       ss_max = (if fins = [] then None else Some (Max (set fins))),
       ss_numerator_count = numerator_count\<rparr>)"

definition from_values :: "fl list \<Rightarrow> bool list option \<Rightarrow> bool list option \<Rightarrow> suff_stats result" where
  "from_values values msk numerator_mask =
     (let mask_list = (case msk of Some m \<Rightarrow> m | None \<Rightarrow> replicate (length values) True);
          numerators = (case numerator_mask of Some m \<Rightarrow> m | None \<Rightarrow> replicate (length values) False)
      in if length values \<noteq> length mask_list \<or> length values \<noteq> length numerators
         then Inl (ValueError ''values, mask, and numerator_mask must have equal length'')
         else Inr (fv_build (zip values (zip mask_list numerators))))"

fun opt_min :: "real option \<Rightarrow> real option \<Rightarrow> real option" where
  "opt_min None b = b"
| "opt_min a None = a"
| "opt_min (Some x) (Some y) = Some (min x y)"

fun opt_max :: "real option \<Rightarrow> real option \<Rightarrow> real option" where
  "opt_max None b = b"
| "opt_max a None = a"
| "opt_max (Some x) (Some y) = Some (max x y)"

definition merge :: "suff_stats \<Rightarrow> suff_stats \<Rightarrow> suff_stats" where
  "merge a b = \<lparr>ss_sum = ss_sum a + ss_sum b, ss_sum_sq = ss_sum_sq a + ss_sum_sq b,
     ss_count = ss_count a + ss_count b, ss_nan_count = ss_nan_count a + ss_nan_count b,
     ss_masked_count = ss_masked_count a + ss_masked_count b,
     ss_min = opt_min (ss_min a) (ss_min b), ss_max = opt_max (ss_max a) (ss_max b),
     ss_numerator_count = ss_numerator_count a + ss_numerator_count b\<rparr>"

definition merge_all :: "suff_stats list \<Rightarrow> suff_stats" where
  "merge_all statistics = foldl merge empty_stats statistics"

definition available :: "suff_stats \<Rightarrow> bool" where
  "available s = (ss_count s > 0)"

definition unavailable_reason :: "suff_stats \<Rightarrow> pyval" where
  "unavailable_reason s = vreason (available s) ''empty_effective_mask''"

definition mean_s :: "suff_stats \<Rightarrow> fl" where
  "mean_s s = (if ss_count s \<noteq> 0 then Fin (ss_sum s / real (ss_count s)) else NaN)"

definition std_s :: "suff_stats \<Rightarrow> fl" where
  "std_s s = (if ss_count s = 0 then NaN
     else Fin (sqrt (max (ss_sum_sq s / real (ss_count s) - (fin_val (mean_s s))\<^sup>2) 0)))"

definition rate_s :: "suff_stats \<Rightarrow> fl" where
  "rate_s s = (if ss_count s \<noteq> 0 then Fin (real (ss_numerator_count s) / real (ss_count s)) else NaN)"

definition to_record_s :: "suff_stats \<Rightarrow> string \<Rightarrow> pydict" where
  "to_record_s s prefix =
    [(prefix @ ''_sum'', VFloat (Fin (ss_sum s))),
     (prefix @ ''_sum_sq'', VFloat (Fin (ss_sum_sq s))),
     (prefix @ ''_count'', vint (ss_count s)),
     (prefix @ ''_nan_count'', vint (ss_nan_count s)),
     (prefix @ ''_masked_count'', vint (ss_masked_count s)),
     (prefix @ ''_min'', vopt (ss_min s)),
     (prefix @ ''_max'', vopt (ss_max s)),
     (prefix @ ''_numerator_count'', vint (ss_numerator_count s))]"

section \<open>Merging is a commutative monoid\<close>

lemma opt_min_assoc: "opt_min (opt_min a b) c = opt_min a (opt_min b c)"
  by (cases a; cases b; cases c) auto

lemma opt_min_comm: "opt_min a b = opt_min b a"
  by (cases a; cases b) auto

lemma opt_max_assoc: "opt_max (opt_max a b) c = opt_max a (opt_max b c)"
  by (cases a; cases b; cases c) auto

lemma opt_max_comm: "opt_max a b = opt_max b a"
  by (cases a; cases b) auto

interpretation ss: mergeable empty_stats merge
proof unfold_locales
  show "merge (merge a b) c = merge a (merge b c)" for a b c
    by (simp add: merge_def opt_min_assoc opt_max_assoc)
  show "merge a b = merge b a" for a b
    by (simp add: merge_def opt_min_comm opt_max_comm)
  show "merge empty_stats a = a" for a
    by (simp add: merge_def empty_stats_def)
qed

section \<open>What from_values computes\<close>

definition kept :: "sample \<Rightarrow> bool" where
  "kept t = (fst (snd t) \<and> isfinite (fst t))"

definition kept_values :: "sample list \<Rightarrow> real list" where
  "kept_values ts = map (fin_val \<circ> fst) (filter kept ts)"

definition n_nan :: "sample list \<Rightarrow> nat" where
  "n_nan ts = length (filter (\<lambda>t. fst (snd t) \<and> \<not> isfinite (fst t)) ts)"

definition n_masked :: "sample list \<Rightarrow> nat" where
  "n_masked ts = length (filter (\<lambda>t. \<not> fst (snd t)) ts)"

definition n_numer :: "sample list \<Rightarrow> nat" where
  "n_numer ts = length (filter (\<lambda>t. kept t \<and> snd (snd t)) ts)"

lemmas sample_defs = kept_values_def n_nan_def n_masked_def n_numer_def kept_def

lemma fv_loop:
  "foldl fv_step (f, a, b, c) ts =
    (f @ kept_values ts, a + n_nan ts, b + n_masked ts, c + n_numer ts)"
proof (induction ts arbitrary: f a b c)
  case Nil
  then show ?case by (simp add: sample_defs)
next
  case (Cons t ts)
  then show ?case by (cases t) (auto simp: sample_defs)
qed

lemma fv_build_eq:
  "fv_build ts =
     \<lparr>ss_sum = sum_list (kept_values ts), ss_sum_sq = sum_list (map (\<lambda>x. x * x) (kept_values ts)),
      ss_count = length (kept_values ts), ss_nan_count = n_nan ts, ss_masked_count = n_masked ts,
      ss_min = (if kept_values ts = [] then None else Some (Min (set (kept_values ts)))),
      ss_max = (if kept_values ts = [] then None else Some (Max (set (kept_values ts)))),
      ss_numerator_count = n_numer ts\<rparr>"
  by (simp add: fv_build_def fv_loop)

lemma sample_append [simp]:
  "kept_values (xs @ ys) = kept_values xs @ kept_values ys"
  "n_nan (xs @ ys) = n_nan xs + n_nan ys"
  "n_masked (xs @ ys) = n_masked xs + n_masked ys"
  "n_numer (xs @ ys) = n_numer xs + n_numer ys"
  by (simp_all add: sample_defs)

lemma fv_build_Nil: "fv_build [] = empty_stats"
  by (simp add: fv_build_def empty_stats_def)

lemma fv_build_append: "fv_build (xs @ ys) = merge (fv_build xs) (fv_build ys)"
  by (auto simp: fv_build_eq merge_def Min_Un Max_Un)

lemma merge_all_build: "merge_all (map fv_build tss) = fv_build (concat tss)"
  unfolding merge_all_def
  by (rule ss.foldl_merge_hom) (simp_all add: fv_build_Nil fv_build_append)

lemma fv_build_perm:
  assumes "mset xs = mset ys"
  shows "fv_build xs = fv_build ys"
proof -
  have "fv_build (concat (map (\<lambda>t. [t]) zs)) = foldl merge empty_stats (map fv_build (map (\<lambda>t. [t]) zs))" for zs
    using merge_all_build [of "map (\<lambda>t. [t]) zs"] by (simp add: merge_all_def)
  then have eq: "fv_build zs = foldl merge empty_stats (map fv_build (map (\<lambda>t. [t]) zs))" for zs
    by (simp add: concat_map_singleton)
  have "mset (map fv_build (map (\<lambda>t. [t]) xs)) = mset (map fv_build (map (\<lambda>t. [t]) ys))"
    using assms by simp
  then show ?thesis
    using eq [of xs] eq [of ys] ss.foldl_merge_perm by metis
qed

text \<open>A shard: its values with the two masks.\<close>

type_synonym shard = "fl list \<times> bool list \<times> bool list"

definition shard_ok :: "shard \<Rightarrow> bool" where
  "shard_ok s = (case s of (v, m, n) \<Rightarrow> length m = length v \<and> length n = length v)"

definition shard_samples :: "shard \<Rightarrow> sample list" where
  "shard_samples s = (case s of (v, m, n) \<Rightarrow> zip v (zip m n))"

definition shard_stats :: "shard \<Rightarrow> suff_stats result" where
  "shard_stats s = (case s of (v, m, n) \<Rightarrow> from_values v (Some m) (Some n))"

definition join_shards :: "shard list \<Rightarrow> shard" where
  "join_shards ss = (concat (map fst ss), concat (map (fst \<circ> snd) ss), concat (map (snd \<circ> snd) ss))"

lemma shard_samples_simp [simp]: "shard_samples (v, m, n) = zip v (zip m n)"
  by (simp add: shard_samples_def)

lemma shard_stats_ok: "shard_ok s \<Longrightarrow> shard_stats s = Inr (fv_build (shard_samples s))"
  by (auto simp: shard_ok_def shard_stats_def shard_samples_def from_values_def split: prod.splits)

lemma join_shards_ok:
  "\<forall>s\<in>set ss. shard_ok s \<Longrightarrow>
   shard_ok (join_shards ss) \<and> shard_samples (join_shards ss) = concat (map shard_samples ss)"
proof (induction ss)
  case Nil
  then show ?case by (simp add: join_shards_def shard_ok_def shard_samples_def)
next
  case (Cons s ss)
  then have "shard_ok (join_shards ss)" "shard_samples (join_shards ss) = concat (map shard_samples ss)" "shard_ok s"
    by auto
  then show ?case
    by (cases s) (simp add: join_shards_def shard_ok_def)
qed

lemma map_r_shard_stats:
  "\<forall>s\<in>set ss. shard_ok s \<Longrightarrow> map_r shard_stats ss = Inr (map (fv_build \<circ> shard_samples) ss)"
  by (induction ss) (auto simp: shard_stats_ok)

lemma merge_all_shards:
  assumes "\<forall>s\<in>set ss. shard_ok s"
  shows "map_r shard_stats ss = Inr stats \<Longrightarrow> Inr (merge_all stats) = shard_stats (join_shards ss)"
proof -
  assume "map_r shard_stats ss = Inr stats"
  then have "stats = map fv_build (map shard_samples ss)"
    using map_r_shard_stats [OF assms] by simp
  then show ?thesis
    using join_shards_ok [OF assms] by (simp add: shard_stats_ok merge_all_build del: map_map)
qed

section \<open>Bounds\<close>

lemma filter_partition3:
  "length (filter kept ts) + n_nan ts + n_masked ts = length ts"
  by (induction ts) (auto simp: sample_defs)

lemma n_numer_le: "n_numer ts \<le> length (kept_values ts)"
  by (induction ts) (auto simp: sample_defs)

lemma sum_list_bounds:
  fixes xs :: "real list"
  assumes "\<forall>x\<in>set xs. lo \<le> x \<and> x \<le> hi"
  shows "real (length xs) * lo \<le> sum_list xs \<and> sum_list xs \<le> real (length xs) * hi"
  using assms by (induction xs) (auto simp: algebra_simps)

text \<open>The square of the sum is at most the number of terms times the sum of the squares.\<close>

lemma sum_list_sq_le:
  fixes xs :: "real list"
  shows "(sum_list xs)\<^sup>2 \<le> real (length xs) * sum_list (map (\<lambda>x. x * x) xs)"
  using cauchy_schwarz_list [of "\<lambda>_. 1" "\<lambda>x. x" xs] by (simp add: sum_list_triv)

lemma from_values_build:
  "from_values v m n = Inr s \<Longrightarrow> \<exists>ts. length ts = length v \<and> s = fv_build ts"
  by (rule exI [of _ "zip v (zip (case m of Some m \<Rightarrow> m | None \<Rightarrow> replicate (length v) True)
      (case n of Some m \<Rightarrow> m | None \<Rightarrow> replicate (length v) False))"])
    (auto simp: from_values_def Let_def split: if_splits)

lemma build_counts:
  "ss_count (fv_build ts) + ss_nan_count (fv_build ts) + ss_masked_count (fv_build ts) = length ts"
  "ss_numerator_count (fv_build ts) \<le> ss_count (fv_build ts)"
  using filter_partition3 [of ts] n_numer_le [of ts] by (simp_all add: fv_build_eq kept_values_def)

lemma build_mean:
  assumes "available (fv_build ts)"
  shows "\<exists>lo hi m. ss_min (fv_build ts) = Some lo \<and> ss_max (fv_build ts) = Some hi \<and>
     mean_s (fv_build ts) = Fin m \<and> lo \<le> m \<and> m \<le> hi"
proof -
  let ?k = "kept_values ts"
  have ne: "?k \<noteq> []"
    using assms by (auto simp: available_def fv_build_eq)
  have "\<forall>x\<in>set ?k. Min (set ?k) \<le> x \<and> x \<le> Max (set ?k)"
    by simp
  then have "real (length ?k) * Min (set ?k) \<le> sum_list ?k \<and> sum_list ?k \<le> real (length ?k) * Max (set ?k)"
    by (rule sum_list_bounds)
  then have "Min (set ?k) \<le> sum_list ?k / real (length ?k) \<and> sum_list ?k / real (length ?k) \<le> Max (set ?k)"
    using ne by (simp add: field_simps)
  then show ?thesis
    using ne by (simp add: fv_build_eq mean_s_def)
qed

lemma build_variance:
  assumes "available (fv_build ts)"
  shows "(fin_val (mean_s (fv_build ts)))\<^sup>2 \<le> ss_sum_sq (fv_build ts) / real (ss_count (fv_build ts))"
proof -
  let ?k = "kept_values ts"
  have n: "0 < real (length ?k)"
    using assms by (auto simp: available_def fv_build_eq)
  have "(sum_list ?k / real (length ?k))\<^sup>2 = (sum_list ?k)\<^sup>2 / (real (length ?k) * real (length ?k))"
    by (simp add: power2_eq_square)
  also have "\<dots> \<le> real (length ?k) * sum_list (map (\<lambda>x. x * x) ?k) / (real (length ?k) * real (length ?k))"
    using n by (intro divide_right_mono sum_list_sq_le) simp
  also have "\<dots> = sum_list (map (\<lambda>x. x * x) ?k) / real (length ?k)"
    using n by simp
  finally show ?thesis
    using n by (simp add: fv_build_eq mean_s_def)
qed

section \<open>Properties\<close>

text \<open>
  Worker statistics may be merged instead of averaged: for any split of the samples into
  well-formed shards, the per-shard statistics exist, merging them gives exactly the statistics
  of all the samples together, and the order in which the shards arrive does not matter.
\<close>

theorem merged_shards_are_global:
  assumes "\<forall>s\<in>set shards. shard_ok s"
  shows "\<exists>stats. map_r shard_stats shards = Inr stats \<and>
     shard_stats (join_shards shards) = Inr (merge_all stats) \<and>
     (\<forall>perm. mset perm = mset stats \<longrightarrow> merge_all perm = merge_all stats)"
proof -
  obtain stats where stats: "map_r shard_stats shards = Inr stats"
    using map_r_shard_stats [OF assms] by blast
  have "mset perm = mset stats \<Longrightarrow> merge_all perm = merge_all stats" for perm
    unfolding merge_all_def by (rule ss.foldl_merge_perm)
  with stats merge_all_shards [OF assms stats] show ?thesis
    by metis
qed

theorem merged_shards_are_global_witness:
  "\<exists>stats. map_r shard_stats [([Fin 1, NaN], [True, True], [True, False]), ([Fin 3], [True], [False])] = Inr stats \<and>
     shard_stats (join_shards [([Fin 1, NaN], [True, True], [True, False]), ([Fin 3], [True], [False])]) = Inr (merge_all stats) \<and>
     (\<forall>perm. mset perm = mset stats \<longrightarrow> merge_all perm = merge_all stats)"
  by (rule merged_shards_are_global) (simp add: shard_ok_def)

text \<open>
  What a statistics package says of its samples: every sample is counted exactly once as
  finite, non-finite or masked; the numerator never exceeds the count, so the rate lies in
  [0, 1]; the mean lies between the minimum and the maximum; and the variance is non-negative
  before the clamp, so the clamp of \<open>std\<close> only ever absorbs rounding.
\<close>

theorem stats_bounds:
  assumes "from_values v m n = Inr s"
  shows "ss_count s + ss_nan_count s + ss_masked_count s = length v \<and>
    ss_numerator_count s \<le> ss_count s \<and>
    (available s \<longrightarrow>
      (\<exists>lo hi mu r. ss_min s = Some lo \<and> ss_max s = Some hi \<and> mean_s s = Fin mu \<and> lo \<le> mu \<and> mu \<le> hi \<and>
         rate_s s = Fin r \<and> 0 \<le> r \<and> r \<le> 1 \<and>
         std_s s = Fin (sqrt (ss_sum_sq s / real (ss_count s) - mu\<^sup>2)) \<and>
         0 \<le> ss_sum_sq s / real (ss_count s) - mu\<^sup>2))"
proof -
  obtain ts where ts: "length ts = length v" "s = fv_build ts"
    using from_values_build [OF assms] by auto
  have av: "\<exists>lo hi mu r. ss_min s = Some lo \<and> ss_max s = Some hi \<and> mean_s s = Fin mu \<and> lo \<le> mu \<and> mu \<le> hi \<and>
         rate_s s = Fin r \<and> 0 \<le> r \<and> r \<le> 1 \<and>
         std_s s = Fin (sqrt (ss_sum_sq s / real (ss_count s) - mu\<^sup>2)) \<and>
         0 \<le> ss_sum_sq s / real (ss_count s) - mu\<^sup>2" if a: "available s"
  proof -
    obtain lo hi mu where m: "ss_min s = Some lo" "ss_max s = Some hi" "mean_s s = Fin mu" "lo \<le> mu" "mu \<le> hi"
      using build_mean a ts by blast
    have v: "0 \<le> ss_sum_sq s / real (ss_count s) - mu\<^sup>2"
      using build_variance [of ts] a ts m by simp
    have r: "rate_s s = Fin (real (ss_numerator_count s) / real (ss_count s))" "ss_count s \<noteq> 0"
      using a by (auto simp: rate_s_def available_def)
    have le: "real (ss_numerator_count s) / real (ss_count s) \<le> 1"
      using build_counts(2) [of ts] ts r(2) by simp
    have "std_s s = Fin (sqrt (ss_sum_sq s / real (ss_count s) - mu\<^sup>2))"
      using r(2) m(3) v by (simp add: std_s_def)
    then show ?thesis
      using m v r(1) le by (metis divide_nonneg_nonneg of_nat_0_le_iff)
  qed
  show ?thesis
    using av build_counts [of ts] ts by (metis (no_types, lifting))
qed

theorem stats_bounds_witness:
  "\<exists>s. from_values [Fin 1, Fin 3, NaN, Fin 9] (Some [True, True, True, False]) (Some [True, False, True, True]) = Inr s \<and>
     available s \<and> mean_s s = Fin 2 \<and>
     ss_count s + ss_nan_count s + ss_masked_count s = length [Fin 1, Fin 3, NaN, Fin 9]"
proof -
  let ?s = "fv_build (zip [Fin 1, Fin 3, NaN, Fin 9] (zip [True, True, True, False] [True, False, True, True]))"
  have f: "from_values [Fin 1, Fin 3, NaN, Fin 9] (Some [True, True, True, False]) (Some [True, False, True, True]) = Inr ?s"
    by (simp add: from_values_def)
  have "available ?s \<and> mean_s ?s = Fin 2"
    by (simp add: fv_build_def available_def mean_s_def)
  with f stats_bounds [OF f] show ?thesis
    by blast
qed

end
