(* ===== verification/MetricRows.thy ===== *)
theory MetricRows
  imports SuffStats
begin

text \<open>
  The metric rows that the driver builds from detached statistics: the step context of
  \<open>metrics/events.py\<close>, the masks of \<open>metrics/masks.py\<close>, the Stage 1 row of
  \<open>metrics/stage1.py\<close> and the Stage 2 statistics and row of \<open>metrics/stage2.py\<close>.
  Rows are dicts (\<open>pydict\<close>) with the keys of the source.
\<close>

section \<open>Optional scalars in a row\<close>

definition vfo :: "fl option \<Rightarrow> pyval" where
  "vfo x = (case x of None \<Rightarrow> VNone | Some f \<Rightarrow> VFloat f)"

definition vio :: "int option \<Rightarrow> pyval" where
  "vio x = (case x of None \<Rightarrow> VNone | Some i \<Rightarrow> VInt i)"

text \<open>\<open>value if available else None\<close>.\<close>

definition vif :: "bool \<Rightarrow> fl \<Rightarrow> pyval" where
  "vif av v = (if av then VFloat v else VNone)"

section \<open>events.py: the step context\<close>

record step_context =
  profile_name :: string
  seed :: int
  global_step :: int
  optimizer_step :: int
  observation_phase :: string
  learning_rate :: "fl option"
  wall_clock_seconds :: "fl option"
  cumulative_train_samples :: "int option"
  cumulative_rollout_tokens :: "int option"
  cumulative_gpu_hours :: "fl option"
  checkpoint_step :: "int option"
  is_resume_run :: bool
  resume_from_step :: "int option"

definition checkpoint_phases :: "string list" where
  "checkpoint_phases = [''checkpoint_eval'', ''checkpoint_probe'']"

definition context_post_init :: "step_context \<Rightarrow> step_context result" where
  "context_post_init c =
     (if global_step c < 0 \<or> optimizer_step c < 0
      then Inl (ValueError ''step values must be non-negative'')
      else if checkpoint_step c \<noteq> None \<and> observation_phase c \<notin> set checkpoint_phases
      then Inl (ValueError ''checkpoint_step is reserved for checkpoint-derived events'')
      else Inr c)"

definition context_to_record :: "step_context \<Rightarrow> pydict" where
  "context_to_record c =
     [(''profile_name'', VStr (profile_name c)), (''seed'', VInt (seed c)),
      (''global_step'', VInt (global_step c)), (''optimizer_step'', VInt (optimizer_step c)),
      (''observation_phase'', VStr (observation_phase c)),
      (''learning_rate'', vfo (learning_rate c)),
      (''wall_clock_seconds'', vfo (wall_clock_seconds c)),
      (''cumulative_train_samples'', vio (cumulative_train_samples c)),
      (''cumulative_rollout_tokens'', vio (cumulative_rollout_tokens c)),
      (''cumulative_gpu_hours'', vfo (cumulative_gpu_hours c))] @
     (case checkpoint_step c of None \<Rightarrow> [] | Some k \<Rightarrow> [(''checkpoint_step'', VInt k)]) @
     [(''is_resume_run'', VBool (is_resume_run c)), (''resume_from_step'', vio (resume_from_step c))]"

section \<open>masks.py\<close>

definition same_length :: "nat list \<Rightarrow> unit result" where
  "same_length ls = check_r (length (remdups ls) = 1) (ValueError ''mask inputs must have equal outer length'')"

definition valid_latent_position_mask ::
  "int list list \<Rightarrow> bool list \<Rightarrow> bool list \<Rightarrow> bool list \<Rightarrow> int \<Rightarrow> bool list result" where
  "valid_latent_position_mask topk_token_ids response_mask attention_mask loss_mask sentinel =
     bind_r (same_length [length topk_token_ids, length response_mask, length attention_mask, length loss_mask])
       (\<lambda>_. Inr (map (\<lambda>(token_ids, response, attention, loss).
                     response \<and> attention \<and> loss \<and> list_ex (\<lambda>token. token \<noteq> sentinel) token_ids)
                 (zip topk_token_ids (zip response_mask (zip attention_mask loss_mask)))))"

definition valid_latent_component_mask :: "int list list \<Rightarrow> bool list \<Rightarrow> int \<Rightarrow> bool list list result" where
  "valid_latent_component_mask topk_token_ids position_mask sentinel =
     bind_r (same_length [length topk_token_ids, length position_mask])
       (\<lambda>_. Inr (map (\<lambda>(token_ids, position_valid).
                     map (\<lambda>token. position_valid \<and> token \<noteq> sentinel) token_ids)
                 (zip topk_token_ids position_mask)))"

definition zero_advantage_stats :: "fl list \<Rightarrow> bool list \<Rightarrow> real \<Rightarrow> suff_stats result" where
  "zero_advantage_stats advantages eligible zero_threshold =
     (if length advantages \<noteq> length eligible
      then Inl (ValueError ''advantages and eligible_latent_mask must have equal length'')
      else from_values advantages (Some eligible)
             (Some (map (\<lambda>v. if isfinite v then fl_le (fl_abs v) (Fin zero_threshold) else False) advantages)))"

section \<open>stage2.py: statistics and row\<close>

text \<open>
  A row of mixture weights contributes when it is non-empty, all weights are finite and
  non-negative, and their total is positive: the exponential of the entropy of the normalised
  weights, and the largest normalised weight.
\<close>

definition mixture_entropy :: "real list \<Rightarrow> real" where
  "mixture_entropy normalized = - sum_list (map (\<lambda>w. w * ln w) (filter (\<lambda>w. w \<noteq> 0) normalized))"

definition mixture_row :: "fl list \<Rightarrow> (real \<times> real) option" where
  "mixture_row row =
     (if row = [] \<or> list_ex (\<lambda>w. \<not> isfinite w \<or> fl_less w (Fin 0)) row then None
      else let ws = map fin_val row; t = sum_list ws in
        if t \<le> 0 then None
        else let normalized = map (\<lambda>w. w / t) ws in
          Some (exp (mixture_entropy normalized), Max (set normalized)))"

definition mixture_sufficient_stats :: "fl list list \<Rightarrow> suff_stats \<times> suff_stats" where
  "mixture_sufficient_stats weights_by_position =
     (let rows = List.map_filter mixture_row weights_by_position;
          samples = (\<lambda>xs. map (\<lambda>x. (Fin x, True, False)) xs)
      in (fv_build (samples (map fst rows)), fv_build (samples (map snd rows))))"

record stage2_stats =
  mixture_effective_k :: suff_stats
  mixture_top1_weight :: suff_stats
  zero_advantage :: suff_stats
  reward :: suff_stats
  advantage :: suff_stats

definition stage2_from_local ::
  "fl list list \<Rightarrow> fl list \<Rightarrow> bool list \<Rightarrow> fl list \<Rightarrow> fl list \<Rightarrow> real \<Rightarrow> stage2_stats result" where
  "stage2_from_local noisy_mixture_weights advantages_for_zero_mask eligible_latent_mask rewards final_advantages zero_threshold =
     (let (effective, top1) = mixture_sufficient_stats noisy_mixture_weights in
      bind_r (zero_advantage_stats advantages_for_zero_mask eligible_latent_mask zero_threshold) (\<lambda>z.
      bind_r (from_values rewards None None) (\<lambda>r.
      bind_r (from_values final_advantages None None) (\<lambda>a.
        Inr \<lparr>mixture_effective_k = effective, mixture_top1_weight = top1, zero_advantage = z,
             reward = r, advantage = a\<rparr>))))"

definition stage2_merge :: "stage2_stats \<Rightarrow> stage2_stats \<Rightarrow> stage2_stats" where
  "stage2_merge a b =
     \<lparr>mixture_effective_k = merge (mixture_effective_k a) (mixture_effective_k b),
      mixture_top1_weight = merge (mixture_top1_weight a) (mixture_top1_weight b),
      zero_advantage = merge (zero_advantage a) (zero_advantage b),
      reward = merge (reward a) (reward b), advantage = merge (advantage a) (advantage b)\<rparr>"

definition stage2_empty :: stage2_stats where
  "stage2_empty = \<lparr>mixture_effective_k = empty_stats, mixture_top1_weight = empty_stats,
     zero_advantage = empty_stats, reward = empty_stats, advantage = empty_stats\<rparr>"

interpretation s2: mergeable stage2_empty stage2_merge
proof unfold_locales
  show "stage2_merge (stage2_merge a b) c = stage2_merge a (stage2_merge b c)" for a b c
    by (simp add: stage2_merge_def ss.merge_assoc)
  show "stage2_merge a b = stage2_merge b a" for a b
    unfolding stage2_merge_def using ss.merge_comm by metis
  show "stage2_merge stage2_empty a = a" for a
    by (simp add: stage2_merge_def stage2_empty_def ss.merge_zero)
qed

definition empty_mask_reason :: "bool \<Rightarrow> pyval" where
  "empty_mask_reason a = vreason a ''empty_effective_mask''"

definition build_stage2_metrics :: "stage2_stats \<Rightarrow> pydict" where
  "build_stage2_metrics stats =
    (let mixture_available = (available (mixture_effective_k stats) \<and> available (mixture_top1_weight stats));
         mask_available = available (zero_advantage stats);
         reward_available = available (reward stats);
         advantage_available = available (advantage stats);
         signal_available = (reward_available \<and> advantage_available);
         stage2_available = (mixture_available \<and> mask_available \<and> signal_available);
         rec =
          [(''mixture/effective_k_noisy'', vif mixture_available (mean_s (mixture_effective_k stats))),
           (''mixture/top1_weight_noisy'', vif mixture_available (mean_s (mixture_top1_weight stats))),
           (''mixture/noisy_count'', vint (ss_count (mixture_effective_k stats))),
           (''mixture_available'', VBool mixture_available),
           (''mixture_unavailable_reason'', empty_mask_reason mixture_available),
           (''mask/zero_advantage_rate'', vif mask_available (rate_s (zero_advantage stats))),
           (''mask/eligible_latent_token_count'', vint (ss_count (zero_advantage stats))),
           (''mask_available'', VBool mask_available),
           (''mask_unavailable_reason'', empty_mask_reason mask_available),
           (''signal/reward_mean'', vif reward_available (mean_s (reward stats))),
           (''signal/reward_std'', vif reward_available (std_s (reward stats))),
           (''signal/advantage_std'', vif advantage_available (std_s (advantage stats))),
           (''signal/reward_count'', vint (ss_count (reward stats))),
           (''signal/advantage_count'', vint (ss_count (advantage stats))),
           (''signal_available'', VBool signal_available),
           (''signal_unavailable_reason'', empty_mask_reason signal_available),
           (''stage2_available'', VBool stage2_available),
           (''stage2_unavailable_reason'', vreason stage2_available ''metric_unavailable'')]
     in foldl (\<lambda>rec (name, av).
            dset (dset rec (name @ ''__available'') (VBool av))
              (name @ ''__unavailable_reason'') (empty_mask_reason av)) rec
          [(''mixture/effective_k_noisy'', mixture_available),
           (''mixture/top1_weight_noisy'', mixture_available),
           (''mask/zero_advantage_rate'', mask_available),
           (''signal/reward_mean'', reward_available),
           (''signal/reward_std'', reward_available),
           (''signal/advantage_std'', advantage_available)])"

definition noisy_mixture_stats :: "fl list list \<Rightarrow> pydict" where
  "noisy_mixture_stats weights_by_position =
     (let (effective, top1) = mixture_sufficient_stats weights_by_position in
      build_stage2_metrics \<lparr>mixture_effective_k = effective, mixture_top1_weight = top1,
        zero_advantage = empty_stats, reward = empty_stats, advantage = empty_stats\<rparr>)"

definition signal_stats :: "fl list \<Rightarrow> fl list \<Rightarrow> pydict result" where
  "signal_stats rewards advantages =
     bind_r (from_values rewards None None) (\<lambda>r. bind_r (from_values advantages None None) (\<lambda>a.
       Inr (build_stage2_metrics \<lparr>mixture_effective_k = empty_stats, mixture_top1_weight = empty_stats,
         zero_advantage = empty_stats, reward = r, advantage = a\<rparr>)))"

section \<open>stage1.py: the train-step row\<close>

definition core_metrics :: "(string \<times> string \<times> string \<times> string) list" where
  "core_metrics =
    [(''train/policy_loss'', ''mean'', ''train/policy_loss'', ''train/policy_loss_count''),
     (''train/entropy'', ''mean'', ''train/entropy'', ''train/entropy_count''),
     (''train/kl'', ''mean'', ''train/kl'', ''train/kl_count''),
     (''train/clip_fraction'', ''rate'', ''train/clip_fraction'', ''train/clip_fraction_count''),
     (''train/importance_ratio_mean'', ''mean'', ''train/importance_ratio'', ''train/importance_ratio_count''),
     (''train/importance_ratio_std'', ''std'', ''train/importance_ratio'', ''train/importance_ratio_count''),
     (''train/response_length'', ''mean'', ''train/response_length'', ''train/response_length_count''),
     (''train/latent_length'', ''mean'', ''train/latent_length'', ''train/latent_length_count'')]"

definition metric_value :: "suff_stats \<Rightarrow> string \<Rightarrow> fl" where
  "metric_value stat m = (if m = ''mean'' then mean_s stat else if m = ''std'' then std_s stat else rate_s stat)"

definition stat_available :: "(string \<times> suff_stats) list \<Rightarrow> string \<Rightarrow> bool" where
  "stat_available statistics name = (case map_of statistics name of None \<Rightarrow> False | Some st \<Rightarrow> available st)"

definition core_step :: "(string \<times> suff_stats) list \<Rightarrow> pydict \<Rightarrow> string \<times> string \<times> string \<times> string \<Rightarrow> pydict" where
  "core_step statistics rec row =
    (case row of (output_name, meth, source_name, count_name) \<Rightarrow>
      (let av = stat_available statistics source_name;
           st = map_of statistics source_name;
           r1 = dset rec output_name (case st of Some x \<Rightarrow> vif av (metric_value x meth) | None \<Rightarrow> VNone);
           r2 = dset r1 (output_name @ ''__available'') (VBool av);
           r3 = dset r2 (output_name @ ''__unavailable_reason'')
                  (if av then VNone
                   else case st of Some x \<Rightarrow> unavailable_reason x | None \<Rightarrow> VStr ''missing_runtime_interface'')
       in dset r3 count_name (case st of Some x \<Rightarrow> vint (ss_count x) | None \<Rightarrow> VInt 0)))"

definition train_step_head :: "int option \<Rightarrow> string \<Rightarrow> fl option \<Rightarrow> fl option \<Rightarrow> pydict" where
  "train_step_head aggregation_worker_count record_version metrics_compute_time metrics_write_time =
    [(''metric_scope'', VStr ''train_step''),
     (''aggregation_worker_count'', vio aggregation_worker_count),
     (''record_version'', VStr record_version),
     (''metrics_compute_time'', vfo metrics_compute_time),
     (''metrics_write_time'', vfo metrics_write_time),
     (''generated_token_count_definition_version'', VStr ''paper_mixed_trajectory_sum_v1''),
     (''generated_token_count_scope'', VStr ''final_training_rollout_trajectories''),
     (''raw_generated_token_count_definition_version'', VStr ''paper_mixed_trajectory_sum_v1''),
     (''raw_generated_token_count_scope'', VStr ''all_rollout_generation_attempts''),
     (''entropy_source'', VStr ''runtime_policy_entropy''),
     (''entropy_probability_space'', VStr ''runtime_policy_distribution''),
     (''entropy_mask_definition'', VStr ''runtime_policy_entropy_mask''),
     (''entropy_definition_version'', VStr ''runtime_policy_entropy_v1''),
     (''response_length_definition_version'', VStr ''runtime_response_length_v1''),
     (''latent_length_definition_version'', VStr ''runtime_latent_position_v1''),
     (''length_counting_rule_version'', VStr ''runtime_eos_stop_pending_probe_v1'')]"

text \<open>The token counts, written after the core metrics.\<close>

definition token_count_rows :: "pydict \<Rightarrow> int list \<Rightarrow> int list option \<Rightarrow> pydict" where
  "token_count_rows rec lengths raw_lengths =
    (let generated_available = (lengths \<noteq> []);
         raw_available = (case raw_lengths of None \<Rightarrow> False | Some l \<Rightarrow> l \<noteq> []);
         r1 = dset rec ''train/generated_token_count'' (if generated_available then VInt (sum_list lengths) else VNone);
         r2 = dset r1 ''train/generated_token_count__available'' (VBool generated_available);
         r3 = dset r2 ''train/generated_token_count__unavailable_reason'' (empty_mask_reason generated_available);
         r4 = dset r3 ''train/raw_generated_token_count''
                (case raw_lengths of Some l \<Rightarrow> if raw_available then VInt (sum_list l) else VNone | None \<Rightarrow> VNone);
         r5 = dset r4 ''train/raw_generated_token_count__available'' (VBool raw_available);
         r6 = dset r5 ''train/raw_generated_token_count__unavailable_reason''
                (if raw_available then VNone
                 else VStr (if raw_lengths = None then ''missing_runtime_interface'' else ''empty_effective_mask''))
     in dset r6 ''final_training_trajectory_count'' (VInt (int (length lengths))))"

definition step_time_rows :: "pydict \<Rightarrow> bool \<Rightarrow> fl option \<Rightarrow> bool \<Rightarrow> pydict" where
  "step_time_rows rec time_available step_time is_pre_backward_probe =
    (let r1 = dset rec ''train/step_time'' (if time_available then vfo step_time else VNone);
         r2 = dset r1 ''train/step_time__available'' (VBool time_available)
     in dset r2 ''train/step_time__unavailable_reason''
          (if time_available then VNone
           else VStr (if is_pre_backward_probe then ''pre_backward_probe_no_actor_update''
                      else ''missing_runtime_interface'')))"

definition stage2_rows :: "stage2_stats option \<Rightarrow> pydict" where
  "stage2_rows stage2_statistics =
    (case stage2_statistics of
       None \<Rightarrow> dset (build_stage2_metrics stage2_empty) ''stage2_unavailable_reason'' (VStr ''missing_runtime_interface'')
     | Some st \<Rightarrow> build_stage2_metrics st)"

definition time_known :: "fl option \<Rightarrow> bool" where
  "time_known t = (case t of None \<Rightarrow> False | Some x \<Rightarrow> isfinite x)"

definition build_train_step_metrics ::
  "step_context \<Rightarrow> (string \<times> suff_stats) list \<Rightarrow> int list \<Rightarrow> int list option \<Rightarrow> fl option \<Rightarrow>
   stage2_stats option \<Rightarrow> int option \<Rightarrow> string \<Rightarrow> fl option \<Rightarrow> fl option \<Rightarrow> pydict result" where
  "build_train_step_metrics ctx statistics lengths raw_lengths driver_step_time_seconds stage2_statistics
     aggregation_worker_count record_version metrics_compute_time metrics_write_time =
    (let is_pre_backward_probe = (observation_phase ctx = ''pre_backward_probe'') in
     if observation_phase ctx \<notin> {''post_update'', ''pre_backward_probe''}
     then Inl (ValueError ''train step metrics require post_update or pre_backward_probe'')
     else if list_ex (\<lambda>l. l < 0) lengths
     then Inl (ValueError ''trajectory lengths must be non-negative integers'')
     else if (case raw_lengths of None \<Rightarrow> False | Some l \<Rightarrow> list_ex (\<lambda>l. l < 0) l)
     then Inl (ValueError ''raw generation trajectory lengths must be non-negative integers'')
     else
       (let r0 = dupdate (context_to_record ctx)
                   (train_step_head aggregation_worker_count record_version metrics_compute_time metrics_write_time);
            r1 = foldl (core_step statistics) r0 core_metrics;
            core_available = list_all (\<lambda>(_, _, source, _). stat_available statistics source) core_metrics;
            r2 = token_count_rows r1 lengths raw_lengths;
            time_available = time_known driver_step_time_seconds
        in if is_pre_backward_probe \<and> time_available
           then Inl (ValueError ''pre_backward_probe must not report post-update step_time'')
           else
             (let r3 = step_time_rows r2 time_available driver_step_time_seconds is_pre_backward_probe;
                  all_available = (core_available \<and> lengths \<noteq> [] \<and>
                     (case raw_lengths of None \<Rightarrow> False | Some l \<Rightarrow> l \<noteq> []) \<and> time_available);
                  r4 = dupdate r3 (stage2_rows stage2_statistics);
                  r5 = dset r4 ''train_core_available'' (VBool all_available);
                  r6 = dset r5 ''train_core_unavailable_reason'' (vreason all_available ''metric_unavailable'');
                  r7 = dset r6 ''record_available'' (VBool True)
              in Inr (dset r7 ''record_unavailable_reason'' VNone))))"

section \<open>Entropy of normalised weights\<close>

lemma entropy_nonneg:
  assumes "\<forall>w\<in>set ws. 0 \<le> w \<and> w \<le> (1::real)"
  shows "0 \<le> mixture_entropy ws"
proof -
  have "sum_list (map (\<lambda>w. w * ln w) (filter (\<lambda>w. w \<noteq> 0) ws)) \<le> 0"
  proof (rule sum_list_nonpos)
    fix x assume "x \<in> set (map (\<lambda>w. w * ln w) (filter (\<lambda>w. w \<noteq> 0) ws))"
    then obtain w where "w \<in> set ws" "w \<noteq> 0" "x = w * ln w"
      by auto
    with assms have "0 < w" "w \<le> 1"
      by force+
    then show "x \<le> 0"
      using \<open>x = w * ln w\<close> by (simp add: mult_nonneg_nonpos)
  qed
  then show ?thesis
    by (simp add: mixture_entropy_def)
qed

text \<open>The sum of \<open>w ln w\<close> dominates the tangent at \<open>1/K\<close>, weight by weight.\<close>

lemma w_ln_w_lower:
  assumes "0 < w" and "0 < (K::real)"
  shows "w - 1 / K - w * ln K \<le> w * ln w"
proof -
  have "ln (1 / (K * w)) \<le> 1 / (K * w) - 1"
    using assms by (intro ln_le_minus_one) simp
  then have "w * ln (1 / (K * w)) \<le> w * (1 / (K * w) - 1)"
    using assms by (intro mult_left_mono) auto
  then have "- (w * ln K) - w * ln w \<le> 1 / K - w"
    using assms by (simp add: ln_div ln_mult algebra_simps)
  then show ?thesis
    by simp
qed

lemma w_ln_w_sum:
  assumes "\<forall>w\<in>set ws. 0 \<le> w" and "0 < (K::real)"
  shows "sum_list ws - real (length ws) / K - sum_list ws * ln K \<le>
     sum_list (map (\<lambda>w. w * ln w) (filter (\<lambda>w. w \<noteq> 0) ws))"
  using assms(1)
proof (induction ws)
  case Nil
  then show ?case by simp
next
  case (Cons w ws)
  have IH: "sum_list ws - real (length ws) / K - sum_list ws * ln K \<le>
     sum_list (map (\<lambda>w. w * ln w) (filter (\<lambda>w. w \<noteq> 0) ws))"
    using Cons by simp
  show ?case
  proof (cases "w = 0")
    case True
    have "0 \<le> inverse K"
      using assms(2) by simp
    then have "sum_list ws - (inverse K + real (length ws) / K) - sum_list ws * ln K \<le>
        sum_list (map (\<lambda>w. w * ln w) (filter (\<lambda>w. w \<noteq> 0) ws))"
      using IH by linarith
    then show ?thesis
      using True by (simp add: add_divide_distrib inverse_eq_divide)
  next
    case False
    then have "w - 1 / K - w * ln K \<le> w * ln w"
      using Cons.prems assms(2) by (intro w_ln_w_lower) auto
    then show ?thesis
      using IH False by (simp add: add_divide_distrib distrib_right)
  qed
qed

lemma entropy_le_ln:
  assumes "\<forall>w\<in>set ws. 0 \<le> w" and "sum_list ws = 1"
  shows "mixture_entropy ws \<le> ln (real (length ws))"
proof -
  have "ws \<noteq> []"
    using assms(2) by auto
  then have "0 < real (length ws)"
    by simp
  from w_ln_w_sum [OF assms(1) this] show ?thesis
    using assms(2) \<open>0 < real (length ws)\<close> by (simp add: mixture_entropy_def)
qed

lemma weight_le_total:
  assumes "\<forall>w\<in>set ws. 0 \<le> (w::real)" and "w \<in> set ws"
  shows "w \<le> sum_list ws"
  using assms by (induction ws) (auto simp: add_increasing sum_list_nonneg)

lemma sum_list_le_max:
  "ws \<noteq> [] \<Longrightarrow> sum_list ws \<le> real (length ws) * Max (set (ws :: real list))"
  using sum_list_bounds [of ws "Min (set ws)" "Max (set ws)"] by simp

text \<open>
  Normalised weights: the effective number \<open>exp(H)\<close> lies between 1 and the number of
  weights, the top weight between its reciprocal and 1.
\<close>

definition normalise :: "real list \<Rightarrow> real list" where
  "normalise ws = map (\<lambda>w. w / sum_list ws) ws"

lemma normalise_bounds:
  assumes nn: "\<forall>w\<in>set ws. 0 \<le> w" and pos: "0 < sum_list ws"
  shows "1 \<le> exp (mixture_entropy (normalise ws)) \<and>
    exp (mixture_entropy (normalise ws)) \<le> real (length ws) \<and>
    1 / real (length ws) \<le> Max (set (normalise ws)) \<and> Max (set (normalise ws)) \<le> 1"
proof -
  let ?n = "normalise ws"
  have ne: "ws \<noteq> []" and len: "length ?n = length ws"
    using pos by (auto simp: normalise_def)
  then have n0: "?n \<noteq> []" "0 < real (length ws)"
    by (auto simp: normalise_def)
  have one: "sum_list ?n = 1"
    using pos by (simp add: normalise_def sum_list_mult_const [of "\<lambda>w. w" "1 / sum_list ws", simplified])
  have b: "\<forall>w\<in>set ?n. 0 \<le> w \<and> w \<le> 1"
    using nn pos weight_le_total [OF nn] by (auto simp: normalise_def)
  have h: "0 \<le> mixture_entropy ?n" "mixture_entropy ?n \<le> ln (real (length ws))"
    using entropy_nonneg [OF b] entropy_le_ln [of ?n] b one len by auto
  have "exp (mixture_entropy ?n) \<le> exp (ln (real (length ws)))"
    using h(2) by (simp only: exp_le_cancel_iff)
  then have e: "exp (mixture_entropy ?n) \<le> real (length ws)"
    using n0(2) by (simp only: exp_ln)
  have "1 \<le> real (length ws) * Max (set ?n)"
    using sum_list_le_max [OF n0(1)] one len by simp
  then have t: "1 / real (length ws) \<le> Max (set ?n)"
    using n0(2) by (simp add: field_simps)
  have m: "Max (set ?n) \<le> 1"
    using b n0(1) by simp
  show ?thesis
    using h(1) e t m by simp
qed

lemma mixture_row_normalise:
  assumes "mixture_row row = Some (k, t)"
  shows "(\<forall>w\<in>set (map fin_val row). 0 \<le> w) \<and> 0 < sum_list (map fin_val row) \<and>
    k = exp (mixture_entropy (normalise (map fin_val row))) \<and> t = Max (set (normalise (map fin_val row)))"
proof -
  have "\<not> list_ex (\<lambda>w. \<not> isfinite w \<or> fl_less w (Fin 0)) row"
    using assms by (auto simp: mixture_row_def split: if_splits)
  then have "\<forall>v\<in>set row. isfinite v \<and> \<not> fl_less v (Fin 0)"
    by (auto simp: list_ex_iff)
  then have "\<forall>w\<in>set (map fin_val row). 0 \<le> w"
    by (auto simp: isfinite_iff)
  moreover have "0 < sum_list (map fin_val row) \<and>
    k = exp (mixture_entropy (normalise (map fin_val row))) \<and> t = Max (set (normalise (map fin_val row)))"
    using assms by (auto simp: mixture_row_def Let_def normalise_def split: if_splits)
  ultimately show ?thesis
    by blast
qed

section \<open>Stage 2 statistics of shards\<close>

lemma from_values_append:
  assumes "from_values v1 None None = Inr s1" and "from_values v2 None None = Inr s2"
  shows "from_values (v1 @ v2) None None = Inr (merge s1 s2)"
  using assms by (auto simp: from_values_def replicate_add fv_build_append)

lemma zero_advantage_append:
  assumes "zero_advantage_stats a1 e1 th = Inr s1" and "zero_advantage_stats a2 e2 th = Inr s2"
  shows "zero_advantage_stats (a1 @ a2) (e1 @ e2) th = Inr (merge s1 s2)"
  using assms by (auto simp: zero_advantage_stats_def from_values_def fv_build_append split: if_splits)

lemma mixture_append:
  assumes "mixture_sufficient_stats w1 = (a1, b1)" and "mixture_sufficient_stats w2 = (a2, b2)"
  shows "mixture_sufficient_stats (w1 @ w2) = (merge a1 a2, merge b1 b2)"
  using assms by (auto simp: mixture_sufficient_stats_def Let_def fv_build_append map_filter_def)

lemma stage2_from_local_append:
  assumes "stage2_from_local w1 a1 e1 r1 f1 th = Inr s1" and "stage2_from_local w2 a2 e2 r2 f2 th = Inr s2"
  shows "stage2_from_local (w1 @ w2) (a1 @ a2) (e1 @ e2) (r1 @ r2) (f1 @ f2) th = Inr (stage2_merge s1 s2)"
proof -
  obtain x1 y1 x2 y2 where m: "mixture_sufficient_stats w1 = (x1, y1)" "mixture_sufficient_stats w2 = (x2, y2)"
    by fastforce
  from assms(1) m(1) obtain z1 p1 q1 where one: "zero_advantage_stats a1 e1 th = Inr z1"
      "from_values r1 None None = Inr p1" "from_values f1 None None = Inr q1"
      "s1 = \<lparr>mixture_effective_k = x1, mixture_top1_weight = y1, zero_advantage = z1, reward = p1, advantage = q1\<rparr>"
    by (auto simp: stage2_from_local_def bind_r_Inr_iff)
  from assms(2) m(2) obtain z2 p2 q2 where two: "zero_advantage_stats a2 e2 th = Inr z2"
      "from_values r2 None None = Inr p2" "from_values f2 None None = Inr q2"
      "s2 = \<lparr>mixture_effective_k = x2, mixture_top1_weight = y2, zero_advantage = z2, reward = p2, advantage = q2\<rparr>"
    by (auto simp: stage2_from_local_def bind_r_Inr_iff)
  show ?thesis
    by (simp add: stage2_from_local_def mixture_append [OF m] zero_advantage_append [OF one(1) two(1)]
        from_values_append [OF one(2) two(2)] from_values_append [OF one(3) two(3)] one(4) two(4) stage2_merge_def)
qed

section \<open>Properties\<close>

text \<open>
  Mixture diagnostics stay in their mathematical range: a row of K weights that contributes
  reports an effective number of components between 1 and K and a top weight between 1/K and 1;
  a row contributes exactly when it is non-empty, finite, non-negative and not all zero.
\<close>

theorem mixture_row_bounds:
  "(case mixture_row row of
      Some (k, t) \<Rightarrow> 1 \<le> k \<and> k \<le> real (length row) \<and> 1 / real (length row) \<le> t \<and> t \<le> 1
    | None \<Rightarrow> True) \<and>
   (mixture_row row = None \<longleftrightarrow>
      \<not> ((\<forall>v\<in>set row. \<exists>x. v = Fin x \<and> 0 \<le> x) \<and> (\<exists>x>0. Fin x \<in> set row)))"
proof (rule conjI)
  show "case mixture_row row of
      Some (k, t) \<Rightarrow> 1 \<le> k \<and> k \<le> real (length row) \<and> 1 / real (length row) \<le> t \<and> t \<le> 1
    | None \<Rightarrow> True"
  proof (cases "mixture_row row")
    case (Some kt)
    then obtain k t where kt: "mixture_row row = Some (k, t)"
      by (cases kt) auto
    show ?thesis
      using mixture_row_normalise [OF kt] normalise_bounds [of "map fin_val row"] kt by simp
  qed simp
  have bad: "list_ex (\<lambda>w. \<not> isfinite w \<or> fl_less w (Fin 0)) row \<longleftrightarrow> \<not> (\<forall>v\<in>set row. \<exists>x. v = Fin x \<and> 0 \<le> x)"
    by (auto simp: list_ex_iff isfinite_iff not_less) (metis fl_less.simps(1) isfinite.simps(1) isfinite_iff not_less)+
  have tot: "sum_list (map fin_val row) \<le> 0 \<longleftrightarrow> \<not> (\<exists>x>0. Fin x \<in> set row)"
    if nn: "\<forall>v\<in>set row. \<exists>x. v = Fin x \<and> 0 \<le> x"
    using nn
  proof (induction row)
    case Nil
    then show ?case by simp
  next
    case (Cons v row)
    have "0 \<le> sum_list (map fin_val row)"
      using Cons.prems by (intro sum_list_nonneg) auto
    moreover obtain x where "v = Fin x" "0 \<le> x"
      using Cons.prems by auto
    moreover have "sum_list (map fin_val row) \<le> 0 \<longleftrightarrow> \<not> (\<exists>x>0. Fin x \<in> set row)"
      using Cons by simp
    ultimately have "0 < x \<and> 0 < sum_list (map fin_val (v # row)) \<and> v = Fin x \<or>
        x = 0 \<and> sum_list (map fin_val (v # row)) = sum_list (map fin_val row) \<and> v = Fin x"
      by auto
    then show ?case
      using \<open>sum_list (map fin_val row) \<le> 0 \<longleftrightarrow> \<not> (\<exists>x>0. Fin x \<in> set row)\<close>
      by (elim disjE) auto
  qed
  show "mixture_row row = None \<longleftrightarrow>
      \<not> ((\<forall>v\<in>set row. \<exists>x. v = Fin x \<and> 0 \<le> x) \<and> (\<exists>x>0. Fin x \<in> set row))"
    using bad tot by (auto simp: mixture_row_def Let_def)
qed

theorem mixture_row_bounds_witness:
  "mixture_row [Fin 1, Fin 0] \<noteq> None \<and> mixture_row [Fin 1, NaN] = None"
proof
  show "mixture_row [Fin 1, Fin 0] \<noteq> None"
    using mixture_row_bounds [of "[Fin 1, Fin 0]"] by auto
  show "mixture_row [Fin 1, NaN] = None"
    using mixture_row_bounds [of "[Fin 1, NaN]"] by auto
qed

text \<open>
  The Stage 2 payload of two workers merges to the payload of their joint data: if both
  local reductions succeed, the reduction of the concatenated inputs succeeds and equals the
  merge, so no worker mean is ever averaged.
\<close>

theorem stage2_shards_merge:
  assumes "stage2_from_local w1 a1 e1 r1 f1 th = Inr s1" and "stage2_from_local w2 a2 e2 r2 f2 th = Inr s2"
  shows "stage2_from_local (w1 @ w2) (a1 @ a2) (e1 @ e2) (r1 @ r2) (f1 @ f2) th = Inr (stage2_merge s1 s2)"
  using assms by (rule stage2_from_local_append)

theorem stage2_shards_merge_witness:
  "\<exists>s1 s2. stage2_from_local [] [Fin 0] [True] [Fin 1] [Fin 1] 0 = Inr s1 \<and>
     stage2_from_local [] [Fin 2, NaN] [True, True] [Fin 0] [] 0 = Inr s2 \<and>
     stage2_from_local ([] @ []) ([Fin 0] @ [Fin 2, NaN]) ([True] @ [True, True]) ([Fin 1] @ [Fin 0]) ([Fin 1] @ []) 0
       = Inr (stage2_merge s1 s2) \<and> ss_count (zero_advantage (stage2_merge s1 s2)) = 2"
proof -
  obtain s1 where s1: "stage2_from_local [] [Fin 0] [True] [Fin 1] [Fin 1] 0 = Inr s1"
      "ss_count (zero_advantage s1) = 1"
    by (auto simp: stage2_from_local_def mixture_sufficient_stats_def zero_advantage_stats_def from_values_def fv_build_def)
  obtain s2 where s2: "stage2_from_local [] [Fin 2, NaN] [True, True] [Fin 0] [] 0 = Inr s2"
      "ss_count (zero_advantage s2) = 1"
    by (auto simp: stage2_from_local_def mixture_sufficient_stats_def zero_advantage_stats_def from_values_def fv_build_def)
  have "ss_count (zero_advantage (stage2_merge s1 s2)) = 2"
    using s1(2) s2(2) by (simp add: stage2_merge_def merge_def)
  with s1(1) s2(1) stage2_shards_merge [OF s1(1) s2(1)] show ?thesis
    by blast
qed

end
