(* ===== verification/P1Merge.thy ===== *)
theory P1Merge
  imports MetricRows
begin

text \<open>
  The worker-to-driver boundary of \<open>metrics/p1.py\<close>: serialising sufficient statistics,
  validating and merging the packets of all workers (fail closed), and building the one
  authoritative Stage 1/2 row from them.
\<close>

definition worker_p1_metrics :: "string list" where
  "worker_p1_metrics = [''train/policy_loss'', ''train/kl'', ''train/clip_fraction'', ''train/importance_ratio'']"

section \<open>Serialisation\<close>

definition sufficient_stats_to_record :: "suff_stats \<Rightarrow> string \<Rightarrow> pydict result" where
  "sufficient_stats_to_record stats definition_version =
     (if definition_version = [] then Inl (ValueError ''definition_version must be non-empty'')
      else Inr
       [(''sum'', VFloat (Fin (ss_sum stats))),
        (''sum_sq'', VFloat (Fin (ss_sum_sq stats))),
        (''count'', vint (ss_count stats)),
        (''nan_count'', vint (ss_nan_count stats)),
        (''masked_count'', vint (ss_masked_count stats)),
        (''min'', vopt (ss_min stats)),
        (''max'', vopt (ss_max stats)),
        (''numerator_count'', vint (ss_numerator_count stats)),
        (''definition_version'', VStr definition_version)])"

text \<open>A count field: exactly an int and non-negative.  A number field: exactly an int or a float, and finite.\<close>

definition count_field :: "pydict \<Rightarrow> string \<Rightarrow> nat result" where
  "count_field rec field =
     (case dget rec field of
        VInt i \<Rightarrow> if i < 0 then Inl (P1AggregationError (''invalid sufficient-stat integer field: '' @ field)) else Inr (nat i)
      | _ \<Rightarrow> Inl (P1AggregationError (''invalid sufficient-stat integer field: '' @ field)))"

definition finite_number :: "pyval \<Rightarrow> real option" where
  "finite_number v = (case to_float v of Some (Fin x) \<Rightarrow> Some x | _ \<Rightarrow> None)"

definition number_field :: "pydict \<Rightarrow> string \<Rightarrow> real result" where
  "number_field rec field =
     (case finite_number (dget rec field) of
        Some x \<Rightarrow> Inr x
      | None \<Rightarrow> Inl (P1AggregationError (''invalid sufficient-stat numeric field: '' @ field)))"

definition extremum_field :: "pydict \<Rightarrow> string \<Rightarrow> real option result" where
  "extremum_field rec field =
     (if dget rec field = VNone then Inr None
      else case finite_number (dget rec field) of
        Some x \<Rightarrow> Inr (Some x)
      | None \<Rightarrow> Inl (P1AggregationError (''invalid sufficient-stat extrema field: '' @ field)))"

definition sufficient_stats_from_record :: "pyval \<Rightarrow> suff_stats result" where
  "sufficient_stats_from_record rv =
    (case rv of
       VDict rec \<Rightarrow>
         bind_r (check_r (case dget rec ''definition_version'' of VStr v \<Rightarrow> v \<noteq> [] | _ \<Rightarrow> False)
                  (P1AggregationError ''sufficient statistics require definition_version'')) (\<lambda>_.
         bind_r (count_field rec ''count'') (\<lambda>count.
         bind_r (count_field rec ''nan_count'') (\<lambda>nan_count.
         bind_r (count_field rec ''masked_count'') (\<lambda>masked_count.
         bind_r (count_field rec ''numerator_count'') (\<lambda>numerator_count.
         bind_r (number_field rec ''sum'') (\<lambda>s.
         bind_r (number_field rec ''sum_sq'') (\<lambda>sum_sq.
         bind_r (extremum_field rec ''min'') (\<lambda>mn.
         bind_r (extremum_field rec ''max'') (\<lambda>mx.
         bind_r (check_r (numerator_count \<le> count) (P1AggregationError ''numerator_count cannot exceed count'')) (\<lambda>_.
           Inr \<lparr>ss_sum = s, ss_sum_sq = sum_sq, ss_count = count, ss_nan_count = nan_count,
                ss_masked_count = masked_count, ss_min = mn, ss_max = mx,
                ss_numerator_count = numerator_count\<rparr>))))))))))
     | _ \<Rightarrow> Inl (P1AggregationError ''sufficient statistics must be a mapping''))"

section \<open>Merging serialised statistics\<close>

fun hashable :: "pyval \<Rightarrow> bool" where
  "hashable (VList _) = False"
| "hashable (VDict _) = False"
| "hashable _ = True"

text \<open>
  The versions are collected in a set (an unhashable version is a \<open>TypeError\<close>), which must
  hold exactly one value, a string.
\<close>

definition common_version :: "pyval list \<Rightarrow> string result" where
  "common_version versions =
     (if \<not> list_all hashable versions then Inl TypeError
      else case remdups versions of
        [VStr v] \<Rightarrow> Inr v
      | _ \<Rightarrow> Inl (P1AggregationError ''sufficient-statistic definition versions disagree''))"

definition merge_serialized_sufficient_stats :: "pydict list \<Rightarrow> pydict result" where
  "merge_serialized_sufficient_stats rows =
     (if rows = [] then Inl (P1AggregationError ''cannot merge an empty sufficient-statistic set'')
      else bind_r (common_version (map (\<lambda>row. dget row ''definition_version'') rows)) (\<lambda>version.
           bind_r (map_r (\<lambda>row. sufficient_stats_from_record (VDict row)) rows) (\<lambda>stats.
             sufficient_stats_to_record (merge_all stats) version)))"

section \<open>Merging the worker packets\<close>

definition packet_base :: pydict where
  "packet_base =
     [(''p1_worker_metrics_available'', VBool False),
      (''p1_worker_metrics_unavailable_reason'', VNone),
      (''p1_worker_sufficient_stats'', VNone)]"

definition ranks_complete :: "pydict list \<Rightarrow> int \<Rightarrow> bool" where
  "ranks_complete rows expected_worker_count =
     (let ranks = map (\<lambda>row. dget row ''worker_rank'') rows in
      1 \<le> expected_worker_count \<and> int (length rows) = expected_worker_count \<and>
      list_all is_int ranks \<and>
      sort (map (\<lambda>r. case r of VInt i \<Rightarrow> i | _ \<Rightarrow> 0) ranks) = [0..expected_worker_count - 1])"

text \<open>The record of one metric in one packet (the loop body of the collection).\<close>

definition local_record :: "string \<Rightarrow> pydict \<Rightarrow> pydict result" where
  "local_record metric_name row =
     (case dget row ''p1_sufficient_stats'' of
        VDict m \<Rightarrow>
          if \<not> has_key m metric_name
          then Inl (P1AggregationError (''missing worker P1 statistic: '' @ metric_name))
          else (case dget m metric_name of
                  VDict r \<Rightarrow> Inr r
                | _ \<Rightarrow> Inl (P1AggregationError (''invalid worker P1 statistic: '' @ metric_name)))
      | _ \<Rightarrow> Inl (P1AggregationError (''missing worker P1 statistic: '' @ metric_name)))"

definition merge_metric :: "pydict list \<Rightarrow> string \<Rightarrow> pydict result" where
  "merge_metric rows metric_name = bind_r (map_r (local_record metric_name) rows) merge_serialized_sufficient_stats"

definition merge_worker_p1_packets :: "pydict list \<Rightarrow> int \<Rightarrow> pydict result" where
  "merge_worker_p1_packets rows expected_worker_count =
     (if \<not> ranks_complete rows expected_worker_count
      then Inr (dset packet_base ''p1_worker_metrics_unavailable_reason''
                 (VStr ''worker_packet_set_incomplete_or_duplicate''))
      else case map_r (\<lambda>m. bind_r (merge_metric rows m) (\<lambda>r. Inr (m, VDict r))) worker_p1_metrics of
        Inl (P1AggregationError reason) \<Rightarrow>
          Inr (dset packet_base ''p1_worker_metrics_unavailable_reason'' (VStr reason))
      | Inl e \<Rightarrow> Inl e
      | Inr merged \<Rightarrow>
          Inr (dupdate packet_base
                [(''p1_worker_metrics_available'', VBool True),
                 (''p1_worker_sufficient_stats'', VDict merged)]))"

section \<open>The Stage 1/2 row\<close>

definition required_stat :: "pydict \<Rightarrow> string \<Rightarrow> string \<Rightarrow> suff_stats result" where
  "required_stat m name source =
     (case dget m name of
        VDict r \<Rightarrow> sufficient_stats_from_record (VDict r)
      | _ \<Rightarrow> Inl (P1AggregationError (''missing '' @ source @ '' P1 statistic: '' @ name)))"

text \<open>The Stage 1 statistics in the order the code requires them, then the five of Stage 2.\<close>

definition stage1_sources :: "(string \<times> string) list" where
  "stage1_sources =
     [(''train/policy_loss'', ''worker''), (''train/entropy'', ''driver''), (''train/kl'', ''worker''),
      (''train/clip_fraction'', ''worker''), (''train/importance_ratio'', ''worker''),
      (''train/response_length'', ''driver''), (''train/latent_length'', ''driver'')]"

definition build_p1_train_step_metrics ::
  "step_context \<Rightarrow> pydict \<Rightarrow> pydict \<Rightarrow> int list \<Rightarrow> int list \<Rightarrow> fl option \<Rightarrow> int \<Rightarrow> fl option \<Rightarrow> pydict result" where
  "build_p1_train_step_metrics ctx worker_statistics driver_statistics final_lengths raw_lengths
     driver_step_time_seconds aggregation_worker_count metrics_compute_time =
    bind_r (check_r (1 \<le> aggregation_worker_count) (P1AggregationError ''aggregation_worker_count must be positive'')) (\<lambda>_.
    bind_r (case driver_step_time_seconds of
        None \<Rightarrow> check_r (observation_phase ctx = ''pre_backward_probe'')
                  (P1AggregationError ''driver_step_time_seconds is required post-update'')
      | Some t \<Rightarrow> check_r (isfinite t \<and> \<not> fl_less t (Fin 0))
                  (P1AggregationError ''driver_step_time_seconds must be finite and non-negative'')) (\<lambda>_.
    bind_r (map_r (\<lambda>(name, source).
              bind_r (required_stat (if source = ''worker'' then worker_statistics else driver_statistics) name source)
                (\<lambda>st. Inr (name, st))) stage1_sources) (\<lambda>stage1_statistics.
    bind_r (required_stat driver_statistics ''mixture/effective_k_noisy'' ''driver'') (\<lambda>ek.
    bind_r (required_stat driver_statistics ''mixture/top1_weight_noisy'' ''driver'') (\<lambda>t1.
    bind_r (required_stat driver_statistics ''mask/zero_advantage_rate'' ''driver'') (\<lambda>za.
    bind_r (required_stat driver_statistics ''signal/reward'' ''driver'') (\<lambda>rw.
    bind_r (required_stat driver_statistics ''signal/advantage'' ''driver'') (\<lambda>ad.
      build_train_step_metrics ctx stage1_statistics final_lengths (Some raw_lengths) driver_step_time_seconds
        (Some \<lparr>mixture_effective_k = ek, mixture_top1_weight = t1, zero_advantage = za, reward = rw, advantage = ad\<rparr>)
        (Some aggregation_worker_count)
        (if observation_phase ctx = ''pre_backward_probe''
         then ''metrics_record_p1_pre_backward_probe_v1'' else ''metrics_record_p1_v1'')
        metrics_compute_time None))))))))"

section \<open>Round trip\<close>

lemma finite_number_simps [simp]:
  "finite_number (VFloat (Fin x)) = Some x"
  "finite_number (VInt i) = Some (real_of_int i)"
  by (simp_all add: finite_number_def)

lemma extremum_vopt: "dget rec f = vopt x \<Longrightarrow> extremum_field rec f = Inr x"
  by (cases x) (simp_all add: extremum_field_def)

lemma serialise_ok:
  assumes "version \<noteq> []" and "ss_numerator_count s \<le> ss_count s"
  shows "\<exists>rec. sufficient_stats_to_record s version = Inr rec \<and>
     dget rec ''definition_version'' = VStr version \<and> sufficient_stats_from_record (VDict rec) = Inr s"
  using assms
  by (simp add: sufficient_stats_to_record_def sufficient_stats_from_record_def dget_Cons vint_def
      count_field_def number_field_def extremum_vopt)

lemma from_record_numerator:
  "sufficient_stats_from_record v = Inr s \<Longrightarrow> ss_numerator_count s \<le> ss_count s"
  by (auto simp: sufficient_stats_from_record_def bind_r_Inr_iff split: pyval.splits)

lemma merge_all_numerator:
  assumes "\<forall>s\<in>set ss. ss_numerator_count s \<le> ss_count s"
  shows "ss_numerator_count (merge_all ss) \<le> ss_count (merge_all ss)"
proof -
  have "ss_numerator_count a \<le> ss_count a \<Longrightarrow>
    ss_numerator_count (foldl merge a ss) \<le> ss_count (foldl merge a ss)" for a
    using assms by (induction ss arbitrary: a) (auto simp: merge_def)
  then show ?thesis
    by (simp add: merge_all_def empty_stats_def)
qed

section \<open>What a merge succeeds on\<close>

lemma map_r_cong: "(\<And>x. x \<in> set xs \<Longrightarrow> f x = g x) \<Longrightarrow> map_r f xs = map_r g xs"
  by (induction xs) auto

lemma map_r_Inr: "(\<forall>x\<in>set xs. f x = Inr (g x)) \<Longrightarrow> map_r f xs = Inr (map g xs)"
  by (induction xs) auto

lemma map_r_all2: "map_r f xs = Inr ys \<longleftrightarrow> list_all2 (\<lambda>x y. f x = Inr y) xs ys"
proof (induction xs arbitrary: ys)
  case Nil
  then show ?case by auto
next
  case (Cons x xs)
  then show ?case
    by (cases ys) (auto simp: bind_r_Inr_iff)
qed

lemma remdups_constant: "xs \<noteq> [] \<Longrightarrow> \<forall>x\<in>set xs. x = c \<Longrightarrow> remdups xs = [c]"
proof (induction xs)
  case Nil
  then show ?case by simp
next
  case (Cons x xs)
  then show ?case
    by (cases xs) (auto simp del: remdups.simps(2) simp: remdups.simps(2))
qed

lemma remdups_single: "remdups xs = [c] \<Longrightarrow> \<forall>x\<in>set xs. x = c"
  by (metis empty_set list.simps(15) set_remdups singletonD)

lemma common_version_Inr:
  "common_version vs = Inr v \<longleftrightarrow> vs \<noteq> [] \<and> (\<forall>x\<in>set vs. x = VStr v)"
proof
  assume "common_version vs = Inr v"
  then have "remdups vs = [VStr v]"
    by (auto simp: common_version_def split: if_splits list.splits pyval.splits)
  then show "vs \<noteq> [] \<and> (\<forall>x\<in>set vs. x = VStr v)"
    using remdups_single by fastforce
next
  assume a: "vs \<noteq> [] \<and> (\<forall>x\<in>set vs. x = VStr v)"
  then have "list_all hashable vs"
    by (auto simp: list_all_iff)
  moreover have "remdups vs = [VStr v]"
    using a by (intro remdups_constant) auto
  ultimately show "common_version vs = Inr v"
    by (simp add: common_version_def)
qed

lemma merge_serialized_Inr:
  "merge_serialized_sufficient_stats rows = Inr merged \<longleftrightarrow>
     rows \<noteq> [] \<and> (\<exists>v stats. v \<noteq> [] \<and> (\<forall>r\<in>set rows. dget r ''definition_version'' = VStr v) \<and>
       map_r (\<lambda>row. sufficient_stats_from_record (VDict row)) rows = Inr stats \<and>
       sufficient_stats_to_record (merge_all stats) v = Inr merged)"
  by (auto simp: merge_serialized_sufficient_stats_def bind_r_Inr_iff common_version_Inr
      sufficient_stats_to_record_def split: if_splits)

section \<open>What merging the packets succeeds on\<close>

lemma merge_metric_pairs_Inr:
  "map_r (\<lambda>m. bind_r (merge_metric rows m) (\<lambda>r. Inr (m, VDict r))) ms = Inr merged \<Longrightarrow>
   distinct ms \<Longrightarrow> m \<in> set ms \<Longrightarrow>
   \<exists>r. merge_metric rows m = Inr r \<and> dget merged m = VDict r"
proof (induction ms arbitrary: merged)
  case Nil
  then show ?case by simp
next
  case (Cons x xs)
  then obtain r rest where r: "merge_metric rows x = Inr r" "merged = (x, VDict r) # rest"
      "map_r (\<lambda>m. bind_r (merge_metric rows m) (\<lambda>r. Inr (m, VDict r))) xs = Inr rest"
    by (auto simp: bind_r_Inr_iff)
  show ?case
  proof (cases "m = x")
    case True
    then show ?thesis
      using r by (simp add: dget_def)
  next
    case False
    then show ?thesis
      using Cons r by (simp add: dget_Cons)
  qed
qed

lemma worker_p1_distinct: "distinct worker_p1_metrics"
  by (simp add: worker_p1_metrics_def)

text \<open>The statistics a packet reports for a metric.\<close>

definition packet_stats :: "string \<Rightarrow> pydict \<Rightarrow> suff_stats result" where
  "packet_stats m row = bind_r (local_record m row) (\<lambda>r. sufficient_stats_from_record (VDict r))"

lemma map_r_bind:
  "map_r f xs = Inr ys \<Longrightarrow> map_r g ys = Inr zs \<Longrightarrow> map_r (\<lambda>x. bind_r (f x) g) xs = Inr zs"
  by (induction xs arbitrary: ys zs) (auto simp: bind_r_Inr_iff)

lemma merge_metric_Inr:
  assumes "merge_metric rows m = Inr r"
  shows "\<exists>stats. map_r (packet_stats m) rows = Inr stats \<and> sufficient_stats_from_record (VDict r) = Inr (merge_all stats)"
proof -
  obtain recs where recs: "map_r (local_record m) rows = Inr recs" "merge_serialized_sufficient_stats recs = Inr r"
    using assms by (auto simp: merge_metric_def bind_r_Inr_iff)
  then obtain v stats where v: "v \<noteq> []" "map_r (\<lambda>row. sufficient_stats_from_record (VDict row)) recs = Inr stats"
      "sufficient_stats_to_record (merge_all stats) v = Inr r"
    by (auto simp: merge_serialized_Inr)
  have "map_r (packet_stats m) rows = Inr stats"
    unfolding packet_stats_def using map_r_bind [OF recs(1) v(2)] by simp
  have "\<forall>s\<in>set stats. ss_numerator_count s \<le> ss_count s"
    using map_r_Inr_nth [OF v(2)] map_r_Inr_length [OF v(2)] from_record_numerator
    by (metis in_set_conv_nth)
  then have "ss_numerator_count (merge_all stats) \<le> ss_count (merge_all stats)"
    by (rule merge_all_numerator)
  then have "sufficient_stats_from_record (VDict r) = Inr (merge_all stats)"
    using serialise_ok [OF v(1)] v(3) by fastforce
  with \<open>map_r (packet_stats m) rows = Inr stats\<close> show ?thesis
    by blast
qed

lemma base_unavailable:
  "dget (dset packet_base ''p1_worker_metrics_unavailable_reason'' v) ''p1_worker_metrics_available'' = VBool False"
  "dget (dset packet_base ''p1_worker_metrics_unavailable_reason'' v) ''p1_worker_sufficient_stats'' = VNone"
  "dget (dset packet_base ''p1_worker_metrics_unavailable_reason'' v) ''p1_worker_metrics_unavailable_reason'' = v"
  by (simp_all add: packet_base_def dget_def)

lemma base_available:
  "dget (dupdate packet_base [(''p1_worker_metrics_available'', VBool True), (''p1_worker_sufficient_stats'', v)])
     ''p1_worker_metrics_available'' = VBool True"
  "dget (dupdate packet_base [(''p1_worker_metrics_available'', VBool True), (''p1_worker_sufficient_stats'', v)])
     ''p1_worker_sufficient_stats'' = v"
  by (simp_all add: packet_base_def dget_def dupdate_def)

lemma merge_packets_available:
  assumes "ranks_complete rows n"
    and "map_r (\<lambda>m. bind_r (merge_metric rows m) (\<lambda>r. Inr (m, VDict r))) worker_p1_metrics = Inr merged"
  shows "\<exists>r. merge_worker_p1_packets rows n = Inr r \<and> dget r ''p1_worker_metrics_available'' = VBool True \<and>
     dget r ''p1_worker_sufficient_stats'' = VDict merged"
  using assms by (simp add: merge_worker_p1_packets_def base_available)

lemma merge_packets_cases:
  assumes "merge_worker_p1_packets rows n = Inr r"
  obtains reason where "dget r ''p1_worker_metrics_available'' = VBool False"
      "dget r ''p1_worker_sufficient_stats'' = VNone" "dget r ''p1_worker_metrics_unavailable_reason'' = VStr reason"
  | merged where "ranks_complete rows n" "dget r ''p1_worker_metrics_available'' = VBool True"
      "dget r ''p1_worker_sufficient_stats'' = VDict merged"
      "map_r (\<lambda>m. bind_r (merge_metric rows m) (\<lambda>r. Inr (m, VDict r))) worker_p1_metrics = Inr merged"
proof (cases "ranks_complete rows n")
  case False
  then show ?thesis
    using assms that(1) by (auto simp: merge_worker_p1_packets_def base_unavailable)
next
  case True
  show ?thesis
  proof (cases "map_r (\<lambda>m. bind_r (merge_metric rows m) (\<lambda>r. Inr (m, VDict r))) worker_p1_metrics")
    case (Inl e)
    then show ?thesis
      using assms True that(1)
      by (cases e) (auto simp: merge_worker_p1_packets_def base_unavailable)
  next
    case (Inr merged)
    then show ?thesis
      using assms True that(2) by (auto simp: merge_worker_p1_packets_def base_available)
  qed
qed

section \<open>Packets of well-behaved workers\<close>

definition record_of :: "suff_stats \<Rightarrow> string \<Rightarrow> pydict" where
  "record_of s v = (case sufficient_stats_to_record s v of Inr r \<Rightarrow> r | Inl _ \<Rightarrow> [])"

definition worker_packet :: "string \<Rightarrow> int \<Rightarrow> (string \<Rightarrow> suff_stats) \<Rightarrow> pydict" where
  "worker_packet version rank stats =
     [(''worker_rank'', VInt rank),
      (''p1_sufficient_stats'', VDict (map (\<lambda>m. (m, VDict (record_of (stats m) version))) worker_p1_metrics))]"

lemma dget_map: "m \<in> set ms \<Longrightarrow> dget (map (\<lambda>m. (m, f m)) ms) m = f m \<and> has_key (map (\<lambda>m. (m, f m)) ms) m"
  by (induction ms) (auto simp: dget_def has_key_def)

lemma worker_packet_record:
  "m \<in> set worker_p1_metrics \<Longrightarrow> local_record m (worker_packet version rank stats) = Inr (record_of (stats m) version)"
  by (simp add: local_record_def worker_packet_def dget_Cons dget_map)

lemma ranks_complete_perm:
  assumes "mset ranks = mset [0..int n - 1]" and "1 \<le> n"
  shows "ranks_complete (map (\<lambda>r. worker_packet v r (stats r)) ranks) (int n)"
proof -
  have "length ranks = n"
    using assms(1) by (metis length_upto mset_eq_length nat_int diff_add_cancel diff_zero)
  moreover have "sort ranks = [0..int n - 1]"
    using assms(1) by (metis properties_for_sort sorted_upto)
  ultimately show ?thesis
    using assms(2)
    by (simp add: ranks_complete_def Let_def worker_packet_def dget_Cons comp_def list_all_iff)
qed

lemma merge_worker_packets:
  assumes "version \<noteq> []" and "rs \<noteq> []" and "m \<in> set worker_p1_metrics"
    and "\<forall>r\<in>set rs. ss_numerator_count (stats r m) \<le> ss_count (stats r m)"
  shows "\<exists>rec. merge_metric (map (\<lambda>r. worker_packet version r (stats r)) rs) m = Inr rec \<and>
     sufficient_stats_from_record (VDict rec) = Inr (merge_all (map (\<lambda>r. stats r m) rs))"
proof -
  let ?recs = "map (\<lambda>r. record_of (stats r m) version) rs"
  have rec: "sufficient_stats_from_record (VDict (record_of (stats r m) version)) = Inr (stats r m)"
      "dget (record_of (stats r m) version) ''definition_version'' = VStr version" if "r \<in> set rs" for r
    using serialise_ok [OF assms(1), of "stats r m"] assms(4) that by (auto simp: record_of_def)
  have loc: "map_r (local_record m) (map (\<lambda>r. worker_packet version r (stats r)) rs) = Inr ?recs"
    using map_r_Inr [of "map (\<lambda>r. worker_packet version r (stats r)) rs" "local_record m"
        "\<lambda>p. case local_record m p of Inr x \<Rightarrow> x"] worker_packet_record [OF assms(3)]
    by (simp add: comp_def)
  have st: "map_r (\<lambda>row. sufficient_stats_from_record (VDict row)) ?recs = Inr (map (\<lambda>r. stats r m) rs)"
    using rec(1) by (induction rs) auto
  have num: "ss_numerator_count (merge_all (map (\<lambda>r. stats r m) rs)) \<le> ss_count (merge_all (map (\<lambda>r. stats r m) rs))"
    using assms(4) by (intro merge_all_numerator) auto
  obtain merged where merged: "sufficient_stats_to_record (merge_all (map (\<lambda>r. stats r m) rs)) version = Inr merged"
      "sufficient_stats_from_record (VDict merged) = Inr (merge_all (map (\<lambda>r. stats r m) rs))"
    using serialise_ok [OF assms(1) num] by blast
  have "merge_serialized_sufficient_stats ?recs = Inr merged"
    unfolding merge_serialized_Inr using assms(1,2) rec(2) st merged(1) by auto
  then show ?thesis
    using loc merged(2) by (auto simp: merge_metric_def)
qed

section \<open>Properties\<close>

text \<open>
  C26. Serialisation is lossless exactly on well-formed statistics: with a non-empty version,
  a package survives the trip through its record unchanged if and only if its numerator does
  not exceed its count.
\<close>

theorem p1_record_roundtrip:
  assumes "version \<noteq> []"
  shows "ss_numerator_count s \<le> ss_count s \<longleftrightarrow>
    (\<exists>rec. sufficient_stats_to_record s version = Inr rec \<and> sufficient_stats_from_record (VDict rec) = Inr s)"
  using serialise_ok [OF assms] from_record_numerator by blast

theorem p1_record_roundtrip_witness:
  "\<exists>rec. sufficient_stats_to_record (fv_build [(Fin 2, True, True), (NaN, True, False)]) ''v1'' = Inr rec \<and>
     sufficient_stats_from_record (VDict rec) = Inr (fv_build [(Fin 2, True, True), (NaN, True, False)])"
  using p1_record_roundtrip [of "''v1''" "fv_build [(Fin 2, True, True), (NaN, True, False)]"]
  by (simp add: fv_build_def)

text \<open>
  C27. Merging worker packets fails closed: the result is either unavailable, with no statistics
  and a reason, or it stands for exactly one packet per rank 0..n-1, and every worker metric is
  the merge of the validated statistics of all packets.
\<close>

theorem worker_packets_fail_closed:
  assumes "merge_worker_p1_packets rows n = Inr r"
  shows "(dget r ''p1_worker_metrics_available'' = VBool False \<and>
          dget r ''p1_worker_sufficient_stats'' = VNone \<and>
          (\<exists>reason. dget r ''p1_worker_metrics_unavailable_reason'' = VStr reason)) \<or>
    (dget r ''p1_worker_metrics_available'' = VBool True \<and>
     int (length rows) = n \<and>
     (\<exists>ranks. map (\<lambda>row. dget row ''worker_rank'') rows = map VInt ranks \<and> sort ranks = [0..n - 1]) \<and>
     (\<exists>merged. dget r ''p1_worker_sufficient_stats'' = VDict merged \<and>
        (\<forall>m\<in>set worker_p1_metrics. \<exists>stats. map_r (packet_stats m) rows = Inr stats \<and>
            sufficient_stats_from_record (dget merged m) = Inr (merge_all stats))))"
  using assms
proof (cases rule: merge_packets_cases)
  case (1 reason)
  then show ?thesis
    by blast
next
  case (2 merged)
  let ?ranks = "map (\<lambda>row. case dget row ''worker_rank'' of VInt i \<Rightarrow> i | _ \<Rightarrow> 0) rows"
  have "list_all is_int (map (\<lambda>row. dget row ''worker_rank'') rows)" "sort ?ranks = [0..n - 1]"
      "int (length rows) = n"
    using 2(1) by (simp_all add: ranks_complete_def Let_def comp_def)
  moreover have "map (\<lambda>row. dget row ''worker_rank'') rows = map VInt ?ranks"
    using calculation(1) by (auto simp: list_all_iff elim!: is_int.elims)
  moreover have "\<forall>m\<in>set worker_p1_metrics. \<exists>stats. map_r (packet_stats m) rows = Inr stats \<and>
            sufficient_stats_from_record (dget merged m) = Inr (merge_all stats)"
    using merge_metric_pairs_Inr [OF 2(4) worker_p1_distinct] merge_metric_Inr by metis
  ultimately show ?thesis
    using 2(2,3) by blast
qed

theorem worker_packets_fail_closed_witness:
  "dget (dset packet_base ''p1_worker_metrics_unavailable_reason'' (VStr ''worker_packet_set_incomplete_or_duplicate''))
     ''p1_worker_sufficient_stats'' = VNone \<and>
   merge_worker_p1_packets [[(''worker_rank'', VInt 0)], [(''worker_rank'', VInt 0)]] 2 =
     Inr (dset packet_base ''p1_worker_metrics_unavailable_reason'' (VStr ''worker_packet_set_incomplete_or_duplicate''))"
proof -
  have m: "merge_worker_p1_packets [[(''worker_rank'', VInt 0)], [(''worker_rank'', VInt 0)]] 2 =
     Inr (dset packet_base ''p1_worker_metrics_unavailable_reason'' (VStr ''worker_packet_set_incomplete_or_duplicate''))"
    by (simp add: merge_worker_p1_packets_def ranks_complete_def dget_def upto.simps)
  from worker_packets_fail_closed [OF m] show ?thesis
    using m by (simp add: base_unavailable)
qed

text \<open>
  C13. End to end: when every worker sends the statistics of its own shard, one packet per rank
  in any arrival order, the driver accepts and each merged metric is the statistics of all the
  workers' samples together.
\<close>

theorem worker_packets_are_global:
  assumes "version \<noteq> []" and "1 \<le> n" and "mset ranks = mset [0..int n - 1]"
    and "\<forall>r\<in>set ranks. \<forall>m. shard_ok (data r m) \<and> shard_stats (data r m) = Inr (stats r m)"
  shows "\<exists>r merged. merge_worker_p1_packets (map (\<lambda>r. worker_packet version r (stats r)) ranks) (int n) = Inr r \<and>
     dget r ''p1_worker_metrics_available'' = VBool True \<and>
     dget r ''p1_worker_sufficient_stats'' = VDict merged \<and>
     (\<forall>m\<in>set worker_p1_metrics.
        sufficient_stats_from_record (dget merged m) = shard_stats (join_shards (map (\<lambda>r. data r m) ranks)))"
proof -
  let ?rows = "map (\<lambda>r. worker_packet version r (stats r)) ranks"
  have ne: "ranks \<noteq> []"
    using assms(2,3) by (metis mset.simps(1) mset_zero_iff not_one_le_zero upto_Nil2 of_nat_0_le_iff
        of_nat_1 of_nat_le_iff diff_ge_0_iff_ge linorder_not_less)
  have build: "stats r m = fv_build (shard_samples (data r m))" if "r \<in> set ranks" for r m
    using assms(4) that shard_stats_ok by (metis sum.inject(2))
  have num: "\<forall>r\<in>set ranks. ss_numerator_count (stats r m) \<le> ss_count (stats r m)" for m
    using build build_counts(2) by simp
  have each: "\<exists>rec. merge_metric ?rows m = Inr rec \<and>
     sufficient_stats_from_record (VDict rec) = Inr (merge_all (map (\<lambda>r. stats r m) ranks))"
    if "m \<in> set worker_p1_metrics" for m
    by (rule merge_worker_packets [OF assms(1) ne that]) (rule num)
  then obtain f where f: "\<forall>m\<in>set worker_p1_metrics. merge_metric ?rows m = Inr (f m) \<and>
     sufficient_stats_from_record (VDict (f m)) = Inr (merge_all (map (\<lambda>r. stats r m) ranks))"
    by metis
  let ?merged = "map (\<lambda>m. (m, VDict (f m))) worker_p1_metrics"
  have all: "map_r (\<lambda>m. bind_r (merge_metric ?rows m) (\<lambda>r. Inr (m, VDict r))) worker_p1_metrics = Inr ?merged"
    using f by (intro map_r_Inr) auto
  have glob: "sufficient_stats_from_record (dget ?merged m) = shard_stats (join_shards (map (\<lambda>r. data r m) ranks))"
    if m: "m \<in> set worker_p1_metrics" for m
  proof -
    have ok: "\<forall>s\<in>set (map (\<lambda>r. data r m) ranks). shard_ok s"
      using assms(4) by auto
    have "map_r shard_stats (map (\<lambda>r. data r m) ranks) = Inr (map (\<lambda>r. stats r m) ranks)"
      using assms(4) by (induction ranks) auto
    from merge_all_shards [OF ok this]
    show ?thesis
      using f m by (simp add: dget_map)
  qed
  show ?thesis
    using merge_packets_available [OF ranks_complete_perm [OF assms(3,2)] all] glob by blast
qed

theorem worker_packets_are_global_witness:
  "\<exists>r merged. merge_worker_p1_packets
       (map (\<lambda>r. worker_packet ''v1'' r (\<lambda>m. fv_build [(Fin (real_of_int r), True, True)])) [1, 0]) (int 2) = Inr r \<and>
     dget r ''p1_worker_metrics_available'' = VBool True \<and>
     dget r ''p1_worker_sufficient_stats'' = VDict merged \<and>
     (\<forall>m\<in>set worker_p1_metrics.
        sufficient_stats_from_record (dget merged m) =
          shard_stats (join_shards (map (\<lambda>r. ([Fin (real_of_int r)], [True], [True])) [1, 0])))"
  by (rule worker_packets_are_global)
    (auto simp: upto.simps shard_ok_def shard_stats_def from_values_def)

end
