(* ===== verification/GroupSupport.thy ===== *)
theory GroupSupport
  imports MetricRows
begin

text \<open>
  Trajectory identities (\<open>metrics/identity.py\<close>), the group rows and the optimal correct
  path of \<open>metrics/stage2.py\<close>, the diagnostics there, and the support metrics of
  \<open>metrics/support.py\<close>.  SHA-256 is a parameter.
\<close>

section \<open>identity.py\<close>

definition stable_group_id :: "(string \<Rightarrow> string) \<Rightarrow> int \<Rightarrow> pyval \<Rightarrow> string result" where
  "stable_group_id sha256_hex step prompt_identity =
     (case prompt_identity of
        VStr p \<Rightarrow> if p = [] then Inl (ValueError ''prompt_identity must be a non-empty stable string or hash'')
                  else Inr (take 24 (sha256_hex (''v1:'' @ int_str step @ '':'' @ p)))
      | _ \<Rightarrow> Inl (ValueError ''prompt_identity must be a non-empty stable string or hash''))"

text \<open>
  The loop of \<open>attach_stable_trajectory_ids\<close>: the ordinals seen so far, and one record.
\<close>

fun attach_loop :: "(string \<Rightarrow> string) \<Rightarrow> int \<Rightarrow> (pyval \<Rightarrow> int) \<Rightarrow> pydict list \<Rightarrow> pydict list result" where
  "attach_loop sha256_hex step ordinals [] = Inr []"
| "attach_loop sha256_hex step ordinals (rec # recs) =
     (if \<not> has_key rec ''prompt_identity''
      then Inl (ValueError ''prompt_identity is required before stable IDs can be attached'')
      else
       bind_r (if truthy (dget rec ''group_id'') then Inr (dget rec ''group_id'')
               else bind_r (stable_group_id sha256_hex step (dget rec ''prompt_identity'')) (\<lambda>g. Inr (VStr g)))
        (\<lambda>group_id.
           bind_r (attach_loop sha256_hex step (ordinals(group_id := ordinals group_id + 1)) recs)
             (\<lambda>rest. Inr (dset (dset rec ''group_id'' group_id) ''trajectory_id'' (VInt (ordinals group_id)) # rest))))"

definition attach_stable_trajectory_ids :: "(string \<Rightarrow> string) \<Rightarrow> pydict list \<Rightarrow> int \<Rightarrow> pydict list result" where
  "attach_stable_trajectory_ids sha256_hex records step = attach_loop sha256_hex step (\<lambda>_. 0) records"

definition classify_trajectory :: "bool \<Rightarrow> int \<Rightarrow> int \<Rightarrow> pydict result" where
  "classify_trajectory is_correct response_length max_response_length =
     (if max_response_length < 0 \<or> response_length < 0 then Inl (ValueError ''lengths must be non-negative'')
      else Inr [(''trajectory_class'', VStr (if is_correct then ''correct'' else ''non_correct'')),
                (''is_overlong_or_truncated_by_length'', VBool (max_response_length \<le> response_length))])"

section \<open>Groups of trajectories (stage2.py)\<close>

text \<open>
  A trajectory row with the fields the reducers read; an absent field is \<open>None\<close>.
\<close>

record trajectory =
  t_class :: string
  t_overlong :: bool
  t_generated_token_count :: "int option"
  t_response_length :: "int option"
  t_first_step_advantage :: "fl option"
  t_mean_old_log_prob :: "fl option"
  t_trajectory_id :: "int option"
  t_reward :: "fl option"

definition or_zero :: "int option \<Rightarrow> int" where
  "or_zero x = (case x of None \<Rightarrow> 0 | Some i \<Rightarrow> i)"

definition build_group_metrics :: "string \<Rightarrow> trajectory list \<Rightarrow> pydict result" where
  "build_group_metrics group_id rows =
    (let classes = map t_class rows in
     if list_ex (\<lambda>c. c \<notin> {''correct'', ''non_correct''}) classes
     then Inl (ValueError ''trajectory_class must be correct or non_correct'')
     else let overlong = filter t_overlong rows in
       Inr [(''group_id'', VStr group_id),
            (''group/trajectory_count'', vint (length rows)),
            (''group/correct_trajectory_count'', vint (count_list classes ''correct'')),
            (''group/non_correct_trajectory_count'', vint (count_list classes ''non_correct'')),
            (''group/overlong_trajectory_count'', vint (length overlong)),
            (''group/overlong_generated_token_count'', VInt (sum_list (map (or_zero \<circ> t_generated_token_count) overlong))),
            (''group/overlong_response_length_max'',
               if overlong = [] then VNone
               else VInt (Max (set (map (or_zero \<circ> t_response_length) overlong))))])"

text \<open>
  The winner among the correct trajectories with a positive first-step advantage and a finite
  score: the greatest (score, id) pair.  Tuples compare lexicographically.
\<close>

record optimal_correct_path =
  o_trajectory_id :: int
  o_mean_old_log_prob :: real

definition winner_candidate :: "trajectory \<Rightarrow> (real \<times> int) option" where
  "winner_candidate row =
     (if t_class row \<noteq> ''correct'' \<or>
         fl_le (case t_first_step_advantage row of None \<Rightarrow> Fin 0 | Some a \<Rightarrow> a) (Fin 0) then None
      else case (t_trajectory_id row, t_mean_old_log_prob row) of
        (Some i, Some (Fin score)) \<Rightarrow> Some (score, i)
      | _ \<Rightarrow> None)"

definition lex_le :: "real \<times> int \<Rightarrow> real \<times> int \<Rightarrow> bool" where
  "lex_le a b = (fst a < fst b \<or> fst a = fst b \<and> snd a \<le> snd b)"

text \<open>Python's \<open>max\<close>: the first of the greatest elements.\<close>

fun max_by :: "('a \<Rightarrow> 'a \<Rightarrow> bool) \<Rightarrow> 'a \<Rightarrow> 'a list \<Rightarrow> 'a" where
  "max_by le m [] = m"
| "max_by le m (x # xs) = max_by le (if le x m then m else x) xs"

locale total_preorder =
  fixes le :: "'a \<Rightarrow> 'a \<Rightarrow> bool"
  assumes total_le: "le a b \<or> le b a"
    and trans_le: "le a b \<Longrightarrow> le b c \<Longrightarrow> le a c"
begin

lemma refl_le: "le a a"
  using total_le by blast

lemma max_by_greatest: "max_by le m xs \<in> set (m # xs) \<and> (\<forall>y\<in>set (m # xs). le y (max_by le m xs))"
proof (induction xs arbitrary: m)
  case Nil
  then show ?case by (simp add: refl_le)
next
  case (Cons x xs)
  let ?m = "if le x m then m else x"
  have m: "le m ?m" "le x ?m"
    using total_le refl_le by auto
  have IH: "max_by le ?m xs \<in> set (?m # xs)" "\<forall>y\<in>set (?m # xs). le y (max_by le ?m xs)"
    using Cons [of ?m] by blast+
  then have "le ?m (max_by le ?m xs)"
    by simp
  then have "le m (max_by le ?m xs)" "le x (max_by le ?m xs)"
    using m trans_le by blast+
  then show ?case
    using IH by (auto split: if_splits)
qed

end

interpretation lex: total_preorder lex_le
  by unfold_locales (auto simp: lex_le_def)

definition select_optimal_correct_path :: "trajectory list \<Rightarrow> optimal_correct_path option" where
  "select_optimal_correct_path trajectories =
     (case List.map_filter winner_candidate trajectories of
        [] \<Rightarrow> None
      | c # cs \<Rightarrow> (let best = max_by lex_le c cs in Some \<lparr>o_trajectory_id = snd best, o_mean_old_log_prob = fst best\<rparr>))"

definition finite_rewards :: "trajectory list \<Rightarrow> real list" where
  "finite_rewards rows =
     List.map_filter (\<lambda>row. case t_reward row of Some (Fin x) \<Rightarrow> Some x | _ \<Rightarrow> None) rows"

definition build_train_group_metrics ::
  "step_context \<Rightarrow> string \<Rightarrow> pyval \<Rightarrow> trajectory list \<Rightarrow> optimal_correct_path option \<Rightarrow> int option \<Rightarrow> string \<Rightarrow>
   fl option \<Rightarrow> fl option \<Rightarrow> pydict result" where
  "build_train_group_metrics ctx group_id prompt_id_or_hash rows winner aggregation_worker_count record_version
     metrics_compute_time metrics_write_time =
    (if observation_phase ctx \<noteq> ''post_advantage_pre_update''
     then Inl (ValueError ''group metrics must be created post_advantage_pre_update'')
     else if (case prompt_id_or_hash of VStr p \<Rightarrow> p = [] | _ \<Rightarrow> True)
     then Inl (ValueError ''prompt_id_or_hash must be a stable non-empty string'')
     else bind_r (build_group_metrics group_id rows) (\<lambda>group.
       let rewards = finite_rewards rows;
           r1 = dupdate (context_to_record ctx) group;
           r2 = dupdate r1
            [(''metric_scope'', VStr ''train_group''), (''prompt_id_or_hash'', prompt_id_or_hash),
             (''aggregation_worker_count'', vio aggregation_worker_count), (''record_version'', VStr record_version),
             (''metrics_compute_time'', vfo metrics_compute_time), (''metrics_write_time'', vfo metrics_write_time),
             (''group/zero_variance_reward'', VBool (rewards \<noteq> [] \<and> Min (set rewards) = Max (set rewards))),
             (''optimal_correct_trajectory_id'', case winner of None \<Rightarrow> VNone | Some w \<Rightarrow> VInt (o_trajectory_id w)),
             (''optimal_correct_mean_old_log_prob'',
                case winner of None \<Rightarrow> VNone | Some w \<Rightarrow> VFloat (Fin (o_mean_old_log_prob w))),
             (''group_definition_version'', VStr ''prompt_rollout_group_v1''),
             (''trajectory_classification_version'', VStr ''correct_non_correct_v1''),
             (''overlong_definition_version'', VStr ''length_threshold_v1''),
             (''group_available'', VBool (rows \<noteq> [])), (''group_unavailable_reason'', empty_mask_reason (rows \<noteq> [])),
             (''record_available'', VBool True), (''record_unavailable_reason'', VNone)];
           r3 = dset r2 ''optimal_correct_path_available'' (VBool (winner \<noteq> None))
       in Inr (dset r3 ''optimal_correct_path_unavailable_reason'' (empty_mask_reason (winner \<noteq> None)))))"

definition gumbel_diagnostic :: "fl list \<Rightarrow> fl list \<Rightarrow> bool \<Rightarrow> real \<Rightarrow> real \<Rightarrow> pydict result" where
  "gumbel_diagnostic raw one_sided enabled lower_clip upper_clip =
    (if \<not> enabled then
       Inr [(''gumbel_diagnostics_mode'', VStr ''disabled''), (''gumbel_available'', VBool False),
            (''gumbel_unavailable_reason'', VStr ''disabled_by_config'')]
     else
      bind_r (from_values raw None None) (\<lambda>raw_stats.
      bind_r (from_values one_sided None None) (\<lambda>one_stats.
      bind_r (from_values raw None (Some (map (\<lambda>v. fl_le v (Fin lower_clip)) raw))) (\<lambda>lower.
      bind_r (from_values raw None (Some (map (\<lambda>v. fl_le (Fin upper_clip) v) raw))) (\<lambda>upper.
      bind_r (from_values one_sided None (Some (map (\<lambda>v. fl_eq v (Fin 0)) one_sided))) (\<lambda>zero.
        let ra = available raw_stats; oa = available one_stats; av = (ra \<and> oa) in
        Inr [(''gumbel_diagnostics_mode'', VStr ''diagnostic''),
             (''gumbel/raw_mean'', vif ra (mean_s raw_stats)),
             (''gumbel/raw_std'', vif ra (std_s raw_stats)),
             (''gumbel/lower_clip_rate'', vif ra (rate_s lower)),
             (''gumbel/upper_clip_rate'', vif ra (rate_s upper)),
             (''gumbel/zero_rate'', vif oa (rate_s zero)),
             (''gumbel/raw_count'', vint (ss_count raw_stats)),
             (''gumbel/one_sided_count'', vint (ss_count one_stats)),
             (''gumbel_available'', VBool av), (''gumbel_unavailable_reason'', empty_mask_reason av)]))))))"

definition mechanism_stats :: "fl list \<Rightarrow> bool list \<Rightarrow> bool list \<Rightarrow> real \<Rightarrow> pydict result" where
  "mechanism_stats margins valid triggers near_zero_threshold =
    (if length margins \<noteq> length valid \<or> length margins \<noteq> length triggers
     then Inl (ValueError ''mechanism values and masks must have equal length'')
     else let effective = map (\<lambda>(v, inc). inc \<and> isfinite v) (zip margins valid) in
      bind_r (from_values margins (Some valid) None) (\<lambda>stats.
       Inr [(''sum'', VFloat (Fin (ss_sum stats))), (''sum_sq'', VFloat (Fin (ss_sum_sq stats))),
            (''count'', vint (ss_count stats)), (''nan_count'', vint (ss_nan_count stats)),
            (''masked_count'', vint (ss_masked_count stats)), (''min'', vopt (ss_min stats)),
            (''negative_count'', vint (length (filter (\<lambda>(v, inc). inc \<and> fl_less v (Fin 0)) (zip margins effective)))),
            (''near_zero_count'',
               vint (length (filter (\<lambda>(v, inc). inc \<and> fl_le (fl_abs v) (Fin near_zero_threshold)) (zip margins effective)))),
            (''flipgrad_trigger_count'', vint (length (filter (\<lambda>(t, inc). inc \<and> t) (zip triggers effective))))]))"

section \<open>support.py: classes and selection\<close>

text \<open>
  \<open>math.isclose(v, c, abs_tol=1e-6)\<close> with the default relative tolerance 1e-9.
\<close>

definition is_close :: "real \<Rightarrow> real \<Rightarrow> bool" where
  "is_close a b = (\<bar>a - b\<bar> \<le> max (1 / 10 ^ 9 * max \<bar>a\<bar> \<bar>b\<bar>) (1 / 10 ^ 6))"

text \<open>Float addition, and the sum of a row of token rewards.\<close>

fun fl_add :: "fl \<Rightarrow> fl \<Rightarrow> fl" where
  "fl_add (Fin x) (Fin y) = Fin (x + y)"
| "fl_add NaN _ = NaN"
| "fl_add _ NaN = NaN"
| "fl_add PInf NInf = NaN"
| "fl_add NInf PInf = NaN"
| "fl_add PInf _ = PInf"
| "fl_add _ PInf = PInf"
| "fl_add NInf _ = NInf"
| "fl_add _ NInf = NInf"

definition class_of_reward :: "fl \<Rightarrow> string result" where
  "class_of_reward value = (case value of
     Fin v \<Rightarrow> if is_close v 0 \<or> is_close v 1
              then Inr (if is_close v 1 then ''correct'' else ''non_correct'')
              else Inl (ValueError ''support correctness requires binary sequence rewards'')
   | _ \<Rightarrow> Inl (ValueError ''support correctness requires binary sequence rewards''))"

definition trajectory_classes_from_rewards :: "fl list list \<Rightarrow> string list result" where
  "trajectory_classes_from_rewards rows = map_r (\<lambda>row. class_of_reward (foldl fl_add (Fin 0) row)) rows"

definition candidates_of ::
  "string list \<Rightarrow> int list \<Rightarrow> string list \<Rightarrow> fl list \<Rightarrow> bool list \<Rightarrow> string \<Rightarrow> string \<Rightarrow> (real \<times> int \<times> nat) list" where
  "candidates_of group_ids trajectory_ids classes scores overlong group_id klass =
     map (\<lambda>i. (fin_val (scores ! i), - (trajectory_ids ! i), i))
       (filter (\<lambda>i. group_ids ! i = group_id \<and> \<not> overlong ! i \<and> classes ! i = klass \<and> isfinite (scores ! i))
          [0..<length group_ids])"

definition lex3_le :: "real \<times> int \<times> nat \<Rightarrow> real \<times> int \<times> nat \<Rightarrow> bool" where
  "lex3_le a b = (case (a, b) of ((x, i, m), (y, j, n)) \<Rightarrow>
     x < y \<or> x = y \<and> (i < j \<or> i = j \<and> m \<le> n))"

definition select_trajectories ::
  "string list \<Rightarrow> int list \<Rightarrow> string list \<Rightarrow> fl list \<Rightarrow> bool list \<Rightarrow> nat list" where
  "select_trajectories group_ids trajectory_ids classes scores overlong =
     concat (map (\<lambda>group_id. concat (map (\<lambda>klass.
        case candidates_of group_ids trajectory_ids classes scores overlong group_id klass of
          [] \<Rightarrow> [] | c # cs \<Rightarrow> [snd (snd (max_by lex3_le c cs))])
        [''correct'', ''non_correct''])) (fromkeys group_ids))"

definition candidate_count :: "string \<Rightarrow> string list \<Rightarrow> bool list \<Rightarrow> nat" where
  "candidate_count group_id group_ids overlong =
     length (filter (\<lambda>(value, flag). value = group_id \<and> \<not> flag) (zip group_ids overlong))"

definition is_hard_token :: "int list \<Rightarrow> bool" where
  "is_hard_token topk_ids = (1 < length topk_ids \<and> list_all (\<lambda>token. token = - 100) (drop 1 topk_ids))"

definition support_benchmark_record ::
  "string \<Rightarrow> int \<Rightarrow> int \<Rightarrow> int \<Rightarrow> fl \<Rightarrow> nat \<Rightarrow> nat \<Rightarrow> nat \<Rightarrow> bool \<Rightarrow> pyval \<Rightarrow> pydict" where
  "support_benchmark_record pname sd gstep ostep elapsed selected_count cand_count
     effective_position_count av reason =
    [(''profile_name'', VStr pname), (''seed'', VInt sd), (''global_step'', VInt gstep),
     (''optimizer_step_at_observation'', VInt ostep),
     (''observation_phase'', VStr ''pre_update_old_log_prob''),
     (''support_extra_time_seconds'', VFloat elapsed),
     (''support_cache_peak_bytes'', VInt 0),
     (''support_selected_trajectory_count'', vint selected_count),
     (''support_candidate_trajectory_count'', vint cand_count),
     (''support_benchmark/total_effective_position_count'', vint effective_position_count),
     (''record_available'', VBool av), (''record_unavailable_reason'', reason),
     (''support_available'', VBool av), (''support_unavailable_reason'', reason)]"

text \<open>\<open>_validate_id_vectors\<close> on typed vectors.\<close>

definition validate_id_vectors :: "string list \<Rightarrow> int list \<Rightarrow> string list \<Rightarrow> fl list \<Rightarrow> nat \<Rightarrow> unit result" where
  "validate_id_vectors group_ids trajectory_ids classes scores batch_size =
     bind_r (check_r (length (remdups [length group_ids, length trajectory_ids, length classes, length scores, batch_size]) = 1)
               (ValueError ''identity_vector_length_mismatch'')) (\<lambda>_.
     bind_r (check_r (list_all (\<lambda>g. g \<noteq> []) group_ids) (ValueError ''group_id_unavailable'')) (\<lambda>_.
     bind_r (check_r (list_all (\<lambda>i. 0 \<le> i) trajectory_ids) (ValueError ''trajectory_id_unavailable'')) (\<lambda>_.
       check_r (list_all (\<lambda>c. c \<in> {''correct'', ''non_correct''}) classes) (ValueError ''trajectory_class_unavailable''))))"

definition rank3_ints :: "int list list list \<Rightarrow> string \<Rightarrow> int list list list result" where
  "rank3_ints nested label =
     (if list_ex (list_ex (\<lambda>position. position = [])) nested
      then Inl (ValueError (label @ ''_value_unavailable'')) else Inr nested)"

text \<open>\<open>row[-width:]\<close> for a positive width.\<close>

definition last_n :: "nat \<Rightarrow> 'a list \<Rightarrow> 'a list" where
  "last_n w xs = drop (length xs - w) xs"

record support_input =
  si_group_ids :: "string list"
  si_trajectory_ids :: "int list"
  si_classes :: "string list"
  si_scores :: "fl list"
  si_response_mask :: "bool list list"
  si_rollout :: "int list list list"
  si_clean :: "int list list list"
  si_overlong :: "bool list option"

text \<open>The checks of \<open>collect_support_metrics\<close>; they yield the aligned tensors, K and the overlong flags.\<close>

definition support_checked ::
  "support_input \<Rightarrow> (int list list list \<times> int list list list \<times> nat \<times> bool list) result" where
  "support_checked si =
    bind_r (rank3_ints (si_rollout si) ''rollout_topk_ids'') (\<lambda>rollout.
    bind_r (rank3_ints (si_clean si) ''old_topk_indices'') (\<lambda>clean.
    bind_r (validate_id_vectors (si_group_ids si) (si_trajectory_ids si) (si_classes si) (si_scores si)
              (length (si_response_mask si))) (\<lambda>_.
    bind_r (check_r (length rollout = length clean \<and> length rollout = length (si_response_mask si))
              (ValueError ''batch_size_mismatch'')) (\<lambda>_.
    bind_r (check_r (length (remdups (map length (si_response_mask si))) = 1)
              (ValueError ''response_width_mismatch'')) (\<lambda>_.
    let w = hd (map length (si_response_mask si)) in
    bind_r (check_r (1 \<le> w \<and> list_all (\<lambda>(r, c). w \<le> length r \<and> w \<le> length c) (zip rollout clean))
              (ValueError ''response_width_mismatch'')) (\<lambda>_.
    let rollout' = map (last_n w) rollout; clean' = map (last_n w) clean in
    bind_r (check_r (list_all (\<lambda>(r, c, m). length r = length c \<and> length r = length m)
                       (zip rollout' (zip clean' (si_response_mask si))))
              (ValueError ''response_width_mismatch'')) (\<lambda>_.
    let ks = map length (concat rollout') @ map length (concat clean') in
    bind_r (check_r (length (remdups ks) = 1) (ValueError ''topk_k_mismatch'')) (\<lambda>_.
    let k = hd ks in
    bind_r (check_r (1 \<le> k) (ValueError ''topk_k_empty'')) (\<lambda>_.
    bind_r (check_r (\<not> list_ex (\<lambda>token. token = - 100) (concat (concat clean')))
              (ValueError ''old_topk_contains_padding_sentinel'')) (\<lambda>_.
    let overlong = (case si_overlong si of None \<Rightarrow> replicate (length (si_group_ids si)) False | Some o' \<Rightarrow> o') in
    bind_r (check_r (length overlong = length (si_group_ids si)) (ValueError ''overlong_vector_length_mismatch'')) (\<lambda>_.
      Inr (rollout', clean', k, overlong))))))))))))"

text \<open>
  The retention of one trajectory: over the effective positions, the share of the rollout's
  top-K that the clean forward keeps, and how often its top token is kept.
\<close>

fun position_step :: "nat \<Rightarrow> real \<times> nat \<times> nat \<Rightarrow> int list \<times> int list \<times> bool \<Rightarrow> real \<times> nat \<times> nat" where
  "position_step k (retention_sum, top1_count, effective_count) (rollout_position, clean_position, incl) =
    (if \<not> incl \<or> is_hard_token rollout_position then (retention_sum, top1_count, effective_count)
     else if list_ex (\<lambda>token. token = - 100) rollout_position then (retention_sum, top1_count, effective_count)
     else (retention_sum + real (card (set rollout_position \<inter> set clean_position)) / real k,
           (if hd rollout_position \<in> set clean_position then top1_count + 1 else top1_count),
           effective_count + 1))"

definition retention :: "nat \<Rightarrow> int list list \<Rightarrow> int list list \<Rightarrow> bool list \<Rightarrow> real \<times> nat \<times> nat" where
  "retention k rollout clean msk = foldl (position_step k) (0, 0, 0) (zip rollout (zip clean msk))"

definition support_row ::
  "string \<Rightarrow> int \<Rightarrow> int \<Rightarrow> int \<Rightarrow> support_input \<Rightarrow> bool list \<Rightarrow> nat \<Rightarrow> real \<times> nat \<times> nat \<Rightarrow> pydict" where
  "support_row pname sd gstep ostep si overlong i res =
    (case res of (retention_sum, top1_count, effective_count) \<Rightarrow>
      (let av = (0 < effective_count) in
       [(''profile_name'', VStr pname), (''seed'', VInt sd), (''global_step'', VInt gstep),
        (''optimizer_step_at_observation'', VInt ostep),
        (''observation_phase'', VStr ''pre_update_old_log_prob''),
        (''group_id'', VStr (si_group_ids si ! i)),
        (''trajectory_id'', VInt (si_trajectory_ids si ! i)),
        (''trajectory_class'', VStr (si_classes si ! i)),
        (''trajectory_mean_old_log_prob'', VFloat (si_scores si ! i)),
        (''trajectory_selection_rule_version'', VStr ''support_selection_v1''),
        (''candidate_trajectory_count'', vint (candidate_count (si_group_ids si ! i) (si_group_ids si) overlong)),
        (''support/retention_rate'', if av then VFloat (Fin (retention_sum / real effective_count)) else VNone),
        (''support/top1_retention_rate'', if av then VFloat (Fin (real top1_count / real effective_count)) else VNone),
        (''support/effective_position_count'', vint effective_count),
        (''record_available'', VBool av), (''record_unavailable_reason'', empty_mask_reason av),
        (''support_available'', VBool av), (''support_unavailable_reason'', empty_mask_reason av),
        (''record_version'', VStr ''support_metrics_v1'')]))"

definition error_text :: "py_error \<Rightarrow> string" where
  "error_text e = (case e of ValueError m \<Rightarrow> m | TypeError \<Rightarrow> ''TypeError'' | _ \<Rightarrow> [])"

definition collect_support_metrics ::
  "string \<Rightarrow> int \<Rightarrow> int \<Rightarrow> int \<Rightarrow> fl \<Rightarrow> support_input \<Rightarrow> pydict list \<times> pydict" where
  "collect_support_metrics pname sd gstep ostep elapsed si =
    (case support_checked si of
       Inl e \<Rightarrow> ([], support_benchmark_record pname sd gstep ostep elapsed 0 0 0 False
                       (VStr (error_text e)))
     | Inr (rollout, clean, k, overlong) \<Rightarrow>
        (let selected = select_trajectories (si_group_ids si) (si_trajectory_ids si) (si_classes si) (si_scores si) overlong;
             results = map (\<lambda>i. (i, retention k (rollout ! i) (clean ! i) (si_response_mask si ! i))) selected;
             rows = map (\<lambda>(i, r). support_row pname sd gstep ostep si overlong i r) results
         in (rows, support_benchmark_record pname sd gstep ostep elapsed (length rows)
                     (length (filter Not overlong)) (sum_list (map (\<lambda>(i, r). snd (snd r)) results)) True VNone)))"

section \<open>Identities\<close>

definition group_of :: "pydict \<Rightarrow> pyval" where
  "group_of rec = dget rec ''group_id''"

lemma dget_dset: "dget (dset d k v) k' = (if k = k' then v else dget d k')"
  by (simp add: dget_def)

lemma attach_loop_ok:
  "attach_loop h step ordinals recs = Inr out \<Longrightarrow>
   length out = length recs \<and>
   (\<forall>i<length recs.
      dget (out ! i) ''trajectory_id'' =
        VInt (ordinals (group_of (out ! i)) + int (count_list (map group_of (take i out)) (group_of (out ! i)))) \<and>
      (\<forall>k. k \<noteq> ''group_id'' \<longrightarrow> k \<noteq> ''trajectory_id'' \<longrightarrow> dget (out ! i) k = dget (recs ! i) k))"
proof (induction recs arbitrary: ordinals out)
  case Nil
  then show ?case by simp
next
  case (Cons r recs)
  then obtain g rest where rest: "attach_loop h step (ordinals(g := ordinals g + 1)) recs = Inr rest"
      and out: "out = dset (dset r ''group_id'' g) ''trajectory_id'' (VInt (ordinals g)) # rest"
    by (auto simp: bind_r_Inr_iff split: if_splits)
  have g: "group_of (dset (dset r ''group_id'' g) ''trajectory_id'' (VInt (ordinals g))) = g"
    by (simp add: group_of_def dget_dset)
  note IH = Cons.IH [OF rest]
  show ?case
  proof (intro conjI allI impI)
    show "length out = length (r # recs)"
      using IH out by simp
  next
    fix i assume i: "i < length (r # recs)"
    show "dget (out ! i) ''trajectory_id'' =
        VInt (ordinals (group_of (out ! i)) + int (count_list (map group_of (take i out)) (group_of (out ! i))))"
    proof (cases i)
      case 0
      then show ?thesis
        using out g by (simp add: dget_dset)
    next
      case (Suc j)
      then show ?thesis
        using IH i out g by auto
    qed
    fix k assume "k \<noteq> ''group_id''" "k \<noteq> ''trajectory_id''"
    then show "dget (out ! i) k = dget ((r # recs) ! i) k"
      using IH i out by (cases i) (auto simp: dget_dset)
  qed
qed

section \<open>Selection\<close>

interpretation lex3: total_preorder lex3_le
  by unfold_locales (auto simp: lex3_le_def split: prod.splits)

text \<open>The candidates of a group and class, and the best of them by score and then by smaller id.\<close>

definition eligible :: "string list \<Rightarrow> string list \<Rightarrow> fl list \<Rightarrow> bool list \<Rightarrow> nat \<Rightarrow> bool" where
  "eligible group_ids classes scores overlong i =
     (i < length group_ids \<and> \<not> overlong ! i \<and> isfinite (scores ! i) \<and> classes ! i \<in> {''correct'', ''non_correct''})"

definition beaten_by :: "int list \<Rightarrow> fl list \<Rightarrow> nat \<Rightarrow> nat \<Rightarrow> bool" where
  "beaten_by ids scores j i =
     (fin_val (scores ! j) < fin_val (scores ! i) \<or>
      fin_val (scores ! j) = fin_val (scores ! i) \<and> (ids ! i < ids ! j \<or> ids ! i = ids ! j \<and> j \<le> i))"

definition best_in_class :: "string list \<Rightarrow> int list \<Rightarrow> string list \<Rightarrow> fl list \<Rightarrow> bool list \<Rightarrow> nat \<Rightarrow> bool" where
  "best_in_class group_ids ids classes scores overlong i =
     (eligible group_ids classes scores overlong i \<and>
      (\<forall>j<length group_ids. eligible group_ids classes scores overlong j \<longrightarrow>
         group_ids ! j = group_ids ! i \<longrightarrow> classes ! j = classes ! i \<longrightarrow> beaten_by ids scores j i))"

definition pick :: "string list \<Rightarrow> int list \<Rightarrow> string list \<Rightarrow> fl list \<Rightarrow> bool list \<Rightarrow> string \<Rightarrow> string \<Rightarrow> nat list" where
  "pick group_ids ids classes scores overlong g klass =
     (case candidates_of group_ids ids classes scores overlong g klass of
          [] \<Rightarrow> [] | c # cs \<Rightarrow> [snd (snd (max_by lex3_le c cs))])"

lemma set_candidates:
  "set (candidates_of group_ids ids classes scores overlong g klass) =
    {(fin_val (scores ! i), - (ids ! i), i) | i. i < length group_ids \<and> group_ids ! i = g \<and> \<not> overlong ! i \<and>
        classes ! i = klass \<and> isfinite (scores ! i)}"
  by (auto simp: candidates_of_def)

lemma set_pick:
  assumes "klass \<in> {''correct'', ''non_correct''}"
  shows "set (pick group_ids ids classes scores overlong g klass) =
    {i. best_in_class group_ids ids classes scores overlong i \<and> group_ids ! i = g \<and> classes ! i = klass}"
proof (cases "candidates_of group_ids ids classes scores overlong g klass")
  case Nil
  then show ?thesis
    using assms set_candidates [of group_ids ids classes scores overlong g klass]
    by (auto simp: pick_def best_in_class_def eligible_def)
next
  case (Cons c cs)
  let ?C = "candidates_of group_ids ids classes scores overlong g klass"
  let ?m = "max_by lex3_le c cs"
  have mem: "?m \<in> set ?C" and ge: "\<forall>y\<in>set ?C. lex3_le y ?m"
    using lex3.max_by_greatest [of c cs] Cons by auto
  obtain b where b: "?m = (fin_val (scores ! b), - (ids ! b), b)" "b < length group_ids" "group_ids ! b = g"
      "\<not> overlong ! b" "classes ! b = klass" "isfinite (scores ! b)"
    using mem unfolding set_candidates by auto
  have pick: "pick group_ids ids classes scores overlong g klass = [b]"
    using Cons b(1) by (simp add: pick_def)
  have beat: "beaten_by ids scores j b"
    if "eligible group_ids classes scores overlong j" "group_ids ! j = g" "classes ! j = klass" for j
  proof -
    have "(fin_val (scores ! j), - (ids ! j), j) \<in> set ?C"
      using that by (auto simp: set_candidates eligible_def)
    then have "lex3_le (fin_val (scores ! j), - (ids ! j), j) ?m"
      using ge by blast
    then show ?thesis
      by (auto simp: b(1) lex3_le_def beaten_by_def)
  qed
  have best: "best_in_class group_ids ids classes scores overlong b"
    using b beat assms by (auto simp: best_in_class_def eligible_def)
  have uniq: "i = b" if "best_in_class group_ids ids classes scores overlong i" "group_ids ! i = g" "classes ! i = klass" for i
  proof -
    have "beaten_by ids scores b i" "beaten_by ids scores i b"
      using that best b beat by (auto simp: best_in_class_def)
    then show ?thesis
      by (auto simp: beaten_by_def)
  qed
  show ?thesis
  proof (rule set_eqI, rule iffI)
    fix i assume "i \<in> set (pick group_ids ids classes scores overlong g klass)"
    then show "i \<in> {i. best_in_class group_ids ids classes scores overlong i \<and> group_ids ! i = g \<and> classes ! i = klass}"
      using best b(3,5) by (simp add: pick)
  next
    fix i assume "i \<in> {i. best_in_class group_ids ids classes scores overlong i \<and> group_ids ! i = g \<and> classes ! i = klass}"
    then have "i = b"
      using uniq by blast
    then show "i \<in> set (pick group_ids ids classes scores overlong g klass)"
      by (simp add: pick)
  qed
qed

lemma select_trajectories_pick:
  "select_trajectories group_ids ids classes scores overlong =
    concat (map (\<lambda>g. concat (map (pick group_ids ids classes scores overlong g) [''correct'', ''non_correct'']))
      (fromkeys group_ids))"
  by (simp add: select_trajectories_def pick_def)

lemma pick_distinct: "distinct (pick group_ids ids classes scores overlong g klass)"
  by (simp add: pick_def split: list.split)

lemma set_select:
  "set (select_trajectories group_ids ids classes scores overlong) =
     {i. best_in_class group_ids ids classes scores overlong i}"
proof -
  have p: "set (pick group_ids ids classes scores overlong g ''correct'') \<union>
      set (pick group_ids ids classes scores overlong g ''non_correct'') =
     {i. best_in_class group_ids ids classes scores overlong i \<and> group_ids ! i = g}" for g
    by (auto simp: set_pick) (auto simp: best_in_class_def eligible_def)
  have "set (select_trajectories group_ids ids classes scores overlong) =
     (\<Union>g\<in>set group_ids. {i. best_in_class group_ids ids classes scores overlong i \<and> group_ids ! i = g})"
    unfolding select_trajectories_pick using p fromkeys_set [of group_ids] by simp
  then show ?thesis
    by (auto simp: best_in_class_def eligible_def)
qed

lemma distinct_concat_by:
  assumes "distinct ks" and "\<And>k. distinct (f k)" and "\<And>k x. x \<in> set (f k) \<Longrightarrow> key x = k"
  shows "distinct (concat (map f ks))"
  using assms(1)
proof (induction ks)
  case Nil
  then show ?case by simp
next
  case (Cons k ks)
  then have "distinct (concat (map f ks))" "k \<notin> set ks"
    by simp_all
  moreover have "set (f k) \<inter> set (concat (map f ks)) = {}"
  proof (rule equals0I)
    fix x assume "x \<in> set (f k) \<inter> set (concat (map f ks))"
    then obtain k' where "x \<in> set (f k)" "k' \<in> set ks" "x \<in> set (f k')"
      by auto
    then show False
      using assms(3) \<open>k \<notin> set ks\<close> by metis
  qed
  ultimately show ?case
    using assms(2) by simp
qed

lemma select_distinct: "distinct (select_trajectories group_ids ids classes scores overlong)"
  unfolding select_trajectories_pick
proof (rule distinct_concat_by [where key = "\<lambda>i. group_ids ! i"])
  show "distinct (fromkeys group_ids)"
    using fromkeys_set by blast
next
  fix g
  show "distinct (concat (map (pick group_ids ids classes scores overlong g) [''correct'', ''non_correct'']))"
    by (auto simp: pick_distinct set_pick)
next
  fix g i
  assume "i \<in> set (concat (map (pick group_ids ids classes scores overlong g) [''correct'', ''non_correct'']))"
  then show "group_ids ! i = g"
    by (auto simp: set_pick)
qed

section \<open>Retention\<close>

lemma retention_bounds:
  assumes "\<forall>p\<in>set rollout. length p = k" and "1 \<le> k"
  shows "retention k rollout clean msk = (s, t, e) \<Longrightarrow> 0 \<le> s \<and> s \<le> real e \<and> t \<le> e \<and> e \<le> length (filter id msk)"
proof -
  have step: "\<lbrakk>foldl (position_step k) (s0, t0, e0) ps = (s, t, e); 0 \<le> s0; s0 \<le> real e0; t0 \<le> e0;
      \<forall>p\<in>set ps. length (fst p) = k\<rbrakk> \<Longrightarrow>
     0 \<le> s \<and> s \<le> real e \<and> t \<le> e \<and> e \<le> e0 + length (filter (snd \<circ> snd) ps)" for s0 t0 e0 ps
  proof (induction ps arbitrary: s0 t0 e0)
    case Nil
    then show ?case by simp
  next
    case (Cons p ps)
    obtain r c i where p: "p = (r, c, i)"
      by (cases p)
    have "card (set r \<inter> set c) \<le> k"
      using Cons.prems(5) p by (metis card_length card_mono finite_set fst_conv inf_le1 le_trans list.set_intros(1))
    then have le1: "real (card (set r \<inter> set c)) / real k \<le> 1"
      using assms(2) by simp
    obtain s1 t1 e1 where st: "position_step k (s0, t0, e0) (r, c, i) = (s1, t1, e1)"
      using prod_cases3 by blast
    have inv: "0 \<le> s1 \<and> s1 \<le> real e1 \<and> t1 \<le> e1 \<and> e1 \<le> e0 + (if i then 1 else 0)"
      using st Cons.prems(2-4) le1 by (auto split: if_splits)
    have "foldl (position_step k) (s1, t1, e1) ps = (s, t, e)"
      using Cons.prems(1) p st by simp
    with Cons.IH [OF this] inv Cons.prems(5) p show ?case
      by auto
  qed
  assume "retention k rollout clean msk = (s, t, e)"
  then have f: "foldl (position_step k) (0, 0, 0) (zip rollout (zip clean msk)) = (s, t, e)"
    by (simp add: retention_def)
  have all: "\<forall>p\<in>set (zip rollout (zip clean msk)). length (fst p) = k"
    using assms(1) by (auto dest: set_zip_leftD)
  have "length (filter (snd \<circ> snd) (zip rollout (zip clean msk))) \<le> length (filter id msk)"
  proof (induction rollout arbitrary: clean msk)
    case Nil
    then show ?case by simp
  next
    case (Cons a rollout)
    then show ?case
      by (cases clean; cases msk) (auto intro: le_SucI)
  qed
  with step [OF f _ _ _ all] show "0 \<le> s \<and> s \<le> real e \<and> t \<le> e \<and> e \<le> length (filter id msk)"
    by auto
qed

lemma remdups_one: "length (remdups xs) = 1 \<Longrightarrow> x \<in> set xs \<Longrightarrow> x = hd xs"
  by (metis One_nat_def card_1_singletonE length_remdups_card_conv empty_iff hd_in_set list.set(1) singletonD)

lemma support_checked_k:
  assumes "support_checked si = Inr (rollout, clean, k, overlong)"
  shows "1 \<le> k \<and> (\<forall>row\<in>set rollout. \<forall>p\<in>set row. length p = k) \<and> length rollout = length (si_group_ids si)"
proof -
  have lens: "length (remdups [length (si_group_ids si), length (si_trajectory_ids si), length (si_classes si),
      length (si_scores si), length (si_response_mask si)]) = 1"
    using assms by (auto simp: support_checked_def validate_id_vectors_def bind_r_Inr_iff Let_def simp del: remdups.simps)
  have n: "length (si_response_mask si) = length (si_group_ids si)"
    using remdups_one [OF lens, of "length (si_response_mask si)"] by simp
  have r: "length rollout = length (si_response_mask si)"
    using assms by (auto simp: support_checked_def bind_r_Inr_iff Let_def rank3_ints_def split: if_splits)
  have k: "1 \<le> k \<and> (\<exists>ks. length (remdups (map length (concat rollout) @ ks)) = 1 \<and> k = hd (map length (concat rollout) @ ks))"
    using assms by (auto simp: support_checked_def bind_r_Inr_iff Let_def simp del: remdups.simps)
  then obtain ks where ks: "length (remdups (map length (concat rollout) @ ks)) = 1"
      "k = hd (map length (concat rollout) @ ks)"
    by blast
  have "\<forall>row\<in>set rollout. \<forall>p\<in>set row. length p = k"
    using remdups_one [OF ks(1)] ks(2) by auto
  with k r n show ?thesis
    by simp
qed

lemma support_row_rates:
  assumes "0 \<le> s \<and> s \<le> real e \<and> t \<le> e"
  shows "(dget (support_row pn sd g os si ov i (s, t, e)) ''record_available'' = VBool False \<and>
      dget (support_row pn sd g os si ov i (s, t, e)) ''support/retention_rate'' = VNone \<and>
      dget (support_row pn sd g os si ov i (s, t, e)) ''support/top1_retention_rate'' = VNone) \<or>
    (\<exists>a b. dget (support_row pn sd g os si ov i (s, t, e)) ''support/retention_rate'' = VFloat (Fin a) \<and>
      dget (support_row pn sd g os si ov i (s, t, e)) ''support/top1_retention_rate'' = VFloat (Fin b) \<and>
      0 \<le> a \<and> a \<le> 1 \<and> 0 \<le> b \<and> b \<le> 1)"
  using assms by (cases "0 < e") (simp_all add: support_row_def dget_Cons)

section \<open>Properties\<close>

text \<open>
  Stable trajectory ids are ordinals: when attaching succeeds, every record keeps its other
  fields and gets as trajectory id the number of earlier records of its group, so the ids of
  a group of size k are 0..k-1 in order.
\<close>

theorem trajectory_ids_are_ordinals:
  assumes "attach_stable_trajectory_ids h records step = Inr out"
  shows "length out = length records \<and>
   (\<forall>i<length records.
      dget (out ! i) ''trajectory_id'' = VInt (int (count_list (map group_of (take i out)) (group_of (out ! i)))) \<and>
      (\<forall>k. k \<noteq> ''group_id'' \<longrightarrow> k \<noteq> ''trajectory_id'' \<longrightarrow> dget (out ! i) k = dget (records ! i) k))"
  using attach_loop_ok [OF assms [unfolded attach_stable_trajectory_ids_def]] by simp

theorem trajectory_ids_are_ordinals_witness:
  "\<exists>out. attach_stable_trajectory_ids (\<lambda>s. s) [[(''prompt_identity'', VStr ''p'')], [(''prompt_identity'', VStr ''p'')]] 7 = Inr out \<and>
     dget (out ! 1) ''trajectory_id'' = VInt 1 \<and> length out = 2"
proof -
  let ?r = "[[(''prompt_identity'', VStr ''p'')], [(''prompt_identity'', VStr ''p'')]]"
  obtain out where out: "attach_stable_trajectory_ids (\<lambda>s. s) ?r 7 = Inr out" "group_of (out ! 0) = group_of (out ! 1)"
      "length out = 2"
    by (simp add: attach_stable_trajectory_ids_def has_key_def dget_def group_of_def stable_group_id_def int_str_def
        nat_digits.simps)
  have "take 1 out = [out ! 0]"
    using out(3) by (cases out) auto
  then show ?thesis
    using trajectory_ids_are_ordinals [OF out(1)] out by auto
qed

text \<open>
  Support selection picks, in every group and for each of the two classes, exactly the
  eligible trajectory (not overlong, finite score) with the highest mean old log-probability,
  ties going to the smaller trajectory id, and never selects a trajectory twice.
\<close>

theorem support_selection_is_best:
  "set (select_trajectories group_ids ids classes scores overlong) =
     {i. best_in_class group_ids ids classes scores overlong i} \<and>
   distinct (select_trajectories group_ids ids classes scores overlong)"
  using set_select select_distinct by blast

theorem support_selection_is_best_witness:
  "1 \<in> set (select_trajectories [''g'', ''g''] [0, 1] [''correct'', ''correct''] [Fin (- 2), Fin (- 1)] [False, False])"
  using support_selection_is_best [of "[''g'', ''g'']" "[0, 1]" "[''correct'', ''correct'']" "[Fin (- 2), Fin (- 1)]" "[False, False]"]
  by (simp add: best_in_class_def eligible_def beaten_by_def nth_Cons split: nat.split)

text \<open>
  Support rates are rates: whatever the inputs, every emitted row either is unavailable
  and carries no rate, or its retention rate and its top-1 retention rate lie in [0, 1]; and when
  the inputs do not align, no row is emitted and the benchmark is unavailable.
\<close>

theorem support_rates_bounded:
  assumes "collect_support_metrics pn sd g os elapsed si = (rows, bench)"
  shows "(\<forall>row\<in>set rows.
      (dget row ''record_available'' = VBool False \<and> dget row ''support/retention_rate'' = VNone \<and>
       dget row ''support/top1_retention_rate'' = VNone) \<or>
      (\<exists>a b. dget row ''support/retention_rate'' = VFloat (Fin a) \<and> dget row ''support/top1_retention_rate'' = VFloat (Fin b) \<and>
         0 \<le> a \<and> a \<le> 1 \<and> 0 \<le> b \<and> b \<le> 1)) \<and>
    (support_checked si = Inl e \<longrightarrow> rows = [] \<and> dget bench ''record_available'' = VBool False)"
proof (cases "support_checked si")
  case (Inl e')
  then show ?thesis
    using assms by (auto simp: collect_support_metrics_def support_benchmark_record_def dget_Cons)
next
  case (Inr r)
  then obtain rollout clean k overlong where r: "support_checked si = Inr (rollout, clean, k, overlong)"
    by (cases r) auto
  note k = support_checked_k [OF r]
  have "\<exists>i s t e. row = support_row pn sd g os si overlong i (s, t, e) \<and> 0 \<le> s \<and> s \<le> real e \<and> t \<le> e"
    if row: "row \<in> set rows" for row
  proof -
    obtain i where i: "i \<in> set (select_trajectories (si_group_ids si) (si_trajectory_ids si) (si_classes si) (si_scores si) overlong)"
        "row = support_row pn sd g os si overlong i (retention k (rollout ! i) (clean ! i) (si_response_mask si ! i))"
      using assms row r by (auto simp: collect_support_metrics_def Let_def)
    have "i < length rollout"
      using i(1) k by (auto simp: set_select best_in_class_def eligible_def)
    then have all: "\<forall>p\<in>set (rollout ! i). length p = k"
      using k by auto
    obtain s t e where ste: "retention k (rollout ! i) (clean ! i) (si_response_mask si ! i) = (s, t, e)"
      by (rule prod_cases3)
    from retention_bounds [OF all _ ste] k i(2) ste show ?thesis
      by auto
  qed
  with support_row_rates have rows: "\<forall>row\<in>set rows.
      (dget row ''record_available'' = VBool False \<and> dget row ''support/retention_rate'' = VNone \<and>
       dget row ''support/top1_retention_rate'' = VNone) \<or>
      (\<exists>a b. dget row ''support/retention_rate'' = VFloat (Fin a) \<and> dget row ''support/top1_retention_rate'' = VFloat (Fin b) \<and>
         0 \<le> a \<and> a \<le> 1 \<and> 0 \<le> b \<and> b \<le> 1)"
    by metis
  show ?thesis
    using rows Inr by simp
qed

theorem support_rates_bounded_witness:
  "\<exists>rows bench. collect_support_metrics ''p'' 0 1 1 (Fin 0)
      \<lparr>si_group_ids = [''g''], si_trajectory_ids = [0], si_classes = [''correct''], si_scores = [Fin (- 1)],
       si_response_mask = [[True]], si_rollout = [[[5, 6]]], si_clean = [[[6, 7]]], si_overlong = None\<rparr> = (rows, bench) \<and>
     length rows = 1 \<and>
     (\<forall>row\<in>set rows.
      (dget row ''record_available'' = VBool False \<and> dget row ''support/retention_rate'' = VNone \<and>
       dget row ''support/top1_retention_rate'' = VNone) \<or>
      (\<exists>a b. dget row ''support/retention_rate'' = VFloat (Fin a) \<and> dget row ''support/top1_retention_rate'' = VFloat (Fin b) \<and>
         0 \<le> a \<and> a \<le> 1 \<and> 0 \<le> b \<and> b \<le> 1))"
proof -
  let ?si = "\<lparr>si_group_ids = [''g''], si_trajectory_ids = [0], si_classes = [''correct''], si_scores = [Fin (- 1)],
       si_response_mask = [[True]], si_rollout = [[[5, 6]]], si_clean = [[[6, 7]]], si_overlong = None\<rparr>"
  obtain rows bench where c: "collect_support_metrics ''p'' 0 1 1 (Fin 0) ?si = (rows, bench)"
    by (cases "collect_support_metrics ''p'' 0 1 1 (Fin 0) ?si")
  have "length (fst (collect_support_metrics ''p'' 0 1 1 (Fin 0) ?si)) = 1"
    by (simp add: collect_support_metrics_def support_checked_def rank3_ints_def validate_id_vectors_def
        last_n_def select_trajectories_def candidates_of_def fromkeys_def Let_def)
  then show ?thesis
    using c support_rates_bounded [OF c] by auto
qed

text \<open>
  The optimal correct path is a correct trajectory with a positive first-step advantage
  and a finite score, no other such trajectory has a better (score, id) pair, and there is no
  winner exactly when no such trajectory exists.
\<close>

theorem optimal_path_is_best:
  "case select_optimal_correct_path rows of
     None \<Rightarrow> \<forall>row\<in>set rows. winner_candidate row = None
   | Some w \<Rightarrow> (\<exists>row\<in>set rows. winner_candidate row = Some (o_mean_old_log_prob w, o_trajectory_id w)) \<and>
       (\<forall>row\<in>set rows. \<forall>c. winner_candidate row = Some c \<longrightarrow> lex_le c (o_mean_old_log_prob w, o_trajectory_id w))"
proof (cases "List.map_filter winner_candidate rows")
  case Nil
  then show ?thesis
    by (auto simp: select_optimal_correct_path_def map_filter_def filter_empty_conv)
      (metis not_None_eq surj_pair)
next
  case (Cons c cs)
  have set: "set (c # cs) = {x. \<exists>row\<in>set rows. winner_candidate row = Some x}"
    using Cons [symmetric] by (force simp: map_filter_def)
  show ?thesis
    using lex.max_by_greatest [of c cs] Cons set
    by (auto simp: select_optimal_correct_path_def Let_def simp del: list.set(2))
qed

theorem optimal_path_is_best_witness:
  "\<exists>w. select_optimal_correct_path
      [\<lparr>t_class = ''correct'', t_overlong = False, t_generated_token_count = None, t_response_length = None,
        t_first_step_advantage = Some (Fin 1), t_mean_old_log_prob = Some (Fin (- 3)), t_trajectory_id = Some 4, t_reward = None\<rparr>] = Some w \<and>
     o_trajectory_id w = 4"
proof -
  let ?t = "\<lparr>t_class = ''correct'', t_overlong = False, t_generated_token_count = None, t_response_length = None,
        t_first_step_advantage = Some (Fin 1), t_mean_old_log_prob = Some (Fin (- 3)), t_trajectory_id = Some 4, t_reward = None\<rparr>"
  have "winner_candidate ?t = Some (- 3, 4)"
    by (simp add: winner_candidate_def)
  then show ?thesis
    using optimal_path_is_best [of "[?t]"] by (auto split: option.splits)
qed

end
