(* ===== verification/Probe.thy ===== *)
theory Probe
  imports MetricRows "HOL-Library.List_Lexorder" "HOL-Library.Char_ord"
begin

text \<open>
  The checkpoint probe reducers of \<open>metrics/probe.py\<close>: quantiles, tie-averaged ranks and
  Spearman correlation, the credit metrics, the probe and benchmark rows, the merge of the worker
  packets into one event, and the wrapper that runs a probe and puts the training state back.
  Tensors are flat lists of floats.
\<close>

section \<open>Quantiles and ranks\<close>

definition quantile :: "real list \<Rightarrow> real \<Rightarrow> real option" where
  "quantile values q =
     (if values = [] then None
      else let ordered = sort values in
        if length ordered = 1 then Some (ordered ! 0)
        else let position = q * (real (length ordered) - 1);
                 lower = \<lfloor>position\<rfloor>; upper = \<lceil>position\<rceil>
             in if lower = upper then Some (ordered ! nat lower)
                else let fraction = position - real_of_int lower in
                  Some (ordered ! nat lower * (1 - fraction) + ordered ! nat upper * fraction))"

text \<open>
  \<open>_average_ranks\<close>: the outer loop over the sorted pairs from position \<open>i\<close>; the run of
  equal values is the inner loop, and all its members get the average of their positions.
\<close>

function rank_loop :: "nat \<Rightarrow> (nat \<times> real) list \<Rightarrow> real list \<Rightarrow> real list" where
  "rank_loop i [] ranks = ranks"
| "rank_loop i (p # rest) ranks =
     (let run = takeWhile (\<lambda>x. snd x = snd p) rest;
          j = i + 1 + length run;
          average = (real i + 1 + real j) / 2
      in rank_loop j (dropWhile (\<lambda>x. snd x = snd p) rest)
           (foldl (\<lambda>r x. r[fst x := average]) ranks (p # run)))"
  by pat_completeness auto
termination
  by (relation "measure (\<lambda>(_, ps, _). length ps)") (auto simp: le_imp_less_Suc length_dropWhile_le)

declare rank_loop.simps(2) [simp del]

definition average_ranks :: "real list \<Rightarrow> real list" where
  "average_ranks values =
     rank_loop 0 (sort_key (\<lambda>x. (snd x)) (enumerate 0 values)) (replicate (length values) 0)"

definition mean_list :: "real list \<Rightarrow> real" where
  "mean_list xs = sum_list xs / real (length xs)"

definition spearman :: "fl list \<Rightarrow> fl list \<Rightarrow> (real option \<times> bool \<times> pyval \<times> nat) result" where
  "spearman left right =
     (if length left \<noteq> length right then Inl (ValueError ''spearman vectors must have equal length'')
      else let pairs = map (\<lambda>(a, b). (fin_val a, fin_val b)) (filter (\<lambda>(a, b). isfinite a \<and> isfinite b) (zip left right));
               n = length pairs;
               lv = map fst pairs; rv = map snd pairs
        in if n < 2 then Inr (None, False, VStr ''effective_k_lt_2'', n)
           else if card (set lv) < 2 \<or> card (set rv) < 2 then Inr (None, False, VStr ''constant_rank'', n)
           else let lr = average_ranks lv; rr = average_ranks rv;
                    lm = mean_list lr; rm = mean_list rr;
                    num = sum_list (map (\<lambda>(a, b). (a - lm) * (b - rm)) (zip lr rr));
                    ld = sqrt (sum_list (map (\<lambda>a. (a - lm)\<^sup>2) lr));
                    rd = sqrt (sum_list (map (\<lambda>b. (b - rm)\<^sup>2) rr))
                in if ld = 0 \<or> rd = 0 then Inr (None, False, VStr ''constant_rank'', n)
                   else Inr (Some (num / (ld * rd)), True, VNone, n))"

section \<open>Credit metrics\<close>

record credit_metrics =
  cm_top1_share :: "real option"
  cm_effective_k :: "real option"
  cm_weight_credit_spearman :: "real option"
  cm_surrogate_alignment_rate :: "real option"
  cm_concentration_count :: nat
  cm_spearman_count :: nat
  cm_alignment_count :: nat
  cm_concentration_available :: bool
  cm_concentration_reason :: pyval
  cm_spearman_available :: bool
  cm_spearman_reason :: pyval
  cm_alignment_available :: bool
  cm_alignment_reason :: pyval
  cm_credit_autograd_executed :: bool

definition disabled_credit_metrics :: credit_metrics where
  "disabled_credit_metrics =
     \<lparr>cm_top1_share = None, cm_effective_k = None, cm_weight_credit_spearman = None,
      cm_surrogate_alignment_rate = None, cm_concentration_count = 0, cm_spearman_count = 0,
      cm_alignment_count = 0, cm_concentration_available = False,
      cm_concentration_reason = VStr ''disabled_by_config'', cm_spearman_available = False,
      cm_spearman_reason = VStr ''disabled_by_config'', cm_alignment_available = False,
      cm_alignment_reason = VStr ''disabled_by_config'', cm_credit_autograd_executed = False\<rparr>"

text \<open>The boolean-mask selection of the finite, valid components.\<close>

definition finite_components :: "fl list \<Rightarrow> fl list \<Rightarrow> bool list \<Rightarrow> fl list \<Rightarrow> (real \<times> real \<times> real) list" where
  "finite_components credit weights valid advantages =
     map (\<lambda>(c, w, v, a). (fin_val c, fin_val w, fin_val a))
       (filter (\<lambda>(c, w, v, a). isfinite c \<and> isfinite w \<and> isfinite a \<and> v)
         (zip credit (zip weights (zip valid advantages))))"

definition concentration :: "real list \<Rightarrow> (real \<times> real) option" where
  "concentration abs_credit =
     (let credit_mass = sum_list abs_credit in
      if abs_credit = [] \<or> credit_mass \<le> 0 then None
      else let q = map (\<lambda>x. x / credit_mass) abs_credit in
        Some (Max (set q), exp (- sum_list (map (\<lambda>x. x * ln x) (filter (\<lambda>x. 0 < x) q)))))"

definition alignment :: "(real \<times> real) list \<Rightarrow> nat \<times> nat" where
  "alignment pairs =
     (let directional = filter (\<lambda>(c, a). c \<noteq> 0 \<and> a \<noteq> 0) pairs in
      (length directional, length (filter (\<lambda>(c, a). 0 < c * a) directional)))"

definition collect_credit_from_values :: "fl list \<Rightarrow> fl list \<Rightarrow> bool list \<Rightarrow> fl list \<Rightarrow> credit_metrics result" where
  "collect_credit_from_values credit weights valid advantages =
    (if length credit \<noteq> length weights \<or> length credit \<noteq> length valid \<or> length credit \<noteq> length advantages
     then Inl (ValueError ''credit tensors must have identical shape'')
     else
      let comps = finite_components credit weights valid advantages;
          credit_values = map fst comps;
          weight_values = map (fst \<circ> snd) comps;
          advantage_flat = map (snd \<circ> snd) comps;
          abs_credit = map abs credit_values;
          conc = concentration abs_credit;
          (alignment_count, aligned) = alignment (zip credit_values advantage_flat)
      in bind_r (spearman (map Fin weight_values) (map Fin abs_credit)) (\<lambda>(sp_value, sp_available, sp_reason, sp_count).
        Inr \<lparr>cm_top1_share = map_option fst conc, cm_effective_k = map_option snd conc,
             cm_weight_credit_spearman = sp_value,
             cm_surrogate_alignment_rate =
               (if alignment_count \<noteq> 0 then Some (real aligned / real alignment_count) else None),
             cm_concentration_count = length credit_values, cm_spearman_count = sp_count,
             cm_alignment_count = alignment_count,
             cm_concentration_available = (conc \<noteq> None),
             cm_concentration_reason = (if conc \<noteq> None then VNone else VStr ''empty_credit_mass''),
             cm_spearman_available = sp_available, cm_spearman_reason = sp_reason,
             cm_alignment_available = (alignment_count \<noteq> 0),
             cm_alignment_reason = (if alignment_count \<noteq> 0 then VNone else VStr ''zero_gradient_direction''),
             cm_credit_autograd_executed = True\<rparr>))"

section \<open>Probe and benchmark rows\<close>

record probe_ids =
  pr_profile_name :: string
  pr_seed :: int
  pr_global_step :: int
  pr_optimizer_step :: int
  pr_checkpoint_step :: int
  pr_probe_batch_id :: string

definition build_probe_metric_row ::
  "probe_ids \<Rightarrow> fl list \<Rightarrow> bool list \<Rightarrow> bool list \<Rightarrow> credit_metrics option \<Rightarrow> real \<Rightarrow> string \<Rightarrow> string \<Rightarrow> bool \<Rightarrow> pydict result" where
  "build_probe_metric_row ids delta_values valid flips credit_opt near_zero_threshold trajectory_group
     latent_position_group probe_rng_restore_succeeded =
    (if length delta_values \<noteq> length valid \<or> length delta_values \<noteq> length flips
     then Inl (ValueError ''probe delta values and masks must have equal length'')
     else
      let effective = map (\<lambda>(v, inc). inc \<and> isfinite v) (zip delta_values valid) in
      bind_r (from_values delta_values (Some effective) None) (\<lambda>stats.
      bind_r (from_values delta_values (Some effective) (Some (map (\<lambda>v. fl_less v (Fin 0)) delta_values))) (\<lambda>negative.
      bind_r (from_values delta_values (Some effective)
               (Some (map (\<lambda>v. fl_le (fl_abs v) (Fin near_zero_threshold)) delta_values))) (\<lambda>near_zero.
      let flip_count = length (filter (\<lambda>(t, inc). inc \<and> t) (zip flips effective));
          av = available stats;
          credit = (case credit_opt of None \<Rightarrow> disabled_credit_metrics | Some c \<Rightarrow> c)
      in Inr
       [(''profile_name'', VStr (pr_profile_name ids)), (''seed'', VInt (pr_seed ids)),
        (''global_step'', VInt (pr_global_step ids)), (''optimizer_step'', VInt (pr_optimizer_step ids)),
        (''checkpoint_step'', VInt (pr_checkpoint_step ids)),
        (''observation_phase'', VStr ''checkpoint_probe''),
        (''probe_batch_id'', VStr (pr_probe_batch_id ids)),
        (''probe_definition_version'', VStr ''checkpoint_probe_v1''),
        (''trajectory_group'', VStr trajectory_group),
        (''latent_position_group'', VStr latent_position_group),
        (''onesided/delta_mean'', vif av (mean_s stats)),
        (''onesided/delta_std'', vif av (std_s stats)),
        (''onesided/delta_p05'',
           if av then vopt (quantile (map (fin_val \<circ> fst) (filter snd (zip delta_values effective))) (5 / 100)) else VNone),
        (''onesided/delta_min'', if av then vopt (ss_min stats) else VNone),
        (''onesided/delta_negative_rate'', vif av (rate_s negative)),
        (''onesided/delta_near_zero_rate'', vif av (rate_s near_zero)),
        (''onesided/flipgrad_rate'', vif av (Fin (real flip_count / real (ss_count stats)))),
        (''onesided/delta_count'', vint (ss_count stats)),
        (''onesided/flipgrad_count'', vint flip_count),
        (''valid_flipgrad_denominator'', vint (ss_count stats)),
        (''onesided_near_zero_threshold'', VFloat (Fin near_zero_threshold)),
        (''onesided_near_zero_definition_version'', VStr ''abs_delta_lte_threshold_v1''),
        (''onesided_definition_version'', VStr ''onesided_delta_v1''),
        (''credit/top1_share'', vopt (cm_top1_share credit)),
        (''credit/effective_k'', vopt (cm_effective_k credit)),
        (''credit/weight_credit_spearman'', vopt (cm_weight_credit_spearman credit)),
        (''credit/surrogate_alignment_rate'', vopt (cm_surrogate_alignment_rate credit)),
        (''credit/concentration_count'', vint (cm_concentration_count credit)),
        (''credit/spearman_count'', vint (cm_spearman_count credit)),
        (''credit/alignment_count'', vint (cm_alignment_count credit)),
        (''credit_definition_version'', VStr ''credit_autograd_v1''),
        (''surrogate_alignment_definition_version'', VStr ''surrogate_alignment_grad_sign_v1''),
        (''record_available'', VBool av), (''record_unavailable_reason'', empty_mask_reason av),
        (''onesided_available'', VBool av), (''onesided_unavailable_reason'', empty_mask_reason av),
        (''credit_concentration_available'', VBool (cm_concentration_available credit)),
        (''credit_concentration_unavailable_reason'', cm_concentration_reason credit),
        (''credit_spearman_available'', VBool (cm_spearman_available credit)),
        (''credit_spearman_unavailable_reason'', cm_spearman_reason credit),
        (''credit_alignment_available'', VBool (cm_alignment_available credit)),
        (''credit_alignment_unavailable_reason'', cm_alignment_reason credit),
        (''credit/weight_credit_spearman__available'', VBool (cm_spearman_available credit)),
        (''credit/weight_credit_spearman__unavailable_reason'', cm_spearman_reason credit),
        (''credit/surrogate_alignment_rate__available'', VBool (cm_alignment_available credit)),
        (''credit/surrogate_alignment_rate__unavailable_reason'', cm_alignment_reason credit),
        (''probe_rng_restore_succeeded'', VBool probe_rng_restore_succeeded),
        (''record_version'', VStr ''probe_metrics_v1'')]))))"

definition state_preservation_fields :: "string list" where
  "state_preservation_fields =
     [''parameters_unchanged'', ''optimizer_state_unchanged'', ''training_grads_unchanged'',
      ''cpu_rng_restored'', ''cuda_rng_restored'', ''python_rng_restored'', ''numpy_rng_restored'',
      ''module_mode_restored'']"

definition rng_fields :: "string list" where
  "rng_fields = [''cpu_rng_restored'', ''cuda_rng_restored'', ''python_rng_restored'', ''numpy_rng_restored'']"

definition build_probe_benchmark_row ::
  "probe_ids \<Rightarrow> nat \<Rightarrow> nat \<Rightarrow> bool \<Rightarrow> bool \<Rightarrow> fl option \<Rightarrow> int \<Rightarrow> bool \<Rightarrow> pyval \<Rightarrow> (string \<times> bool) list option \<Rightarrow> pydict" where
  "build_probe_benchmark_row ids probe_trajectory_count probe_latent_position_count credit_autograd_executed
     probe_rng_restore_succeeded probe_extra_time_seconds probe_peak_memory_bytes record_available
     record_unavailable_reason state_preservation =
    (let state = (case state_preservation of
           Some ((k, v) # st) \<Rightarrow> (k, v) # st
         | _ \<Rightarrow> map (\<lambda>f. (f, False)) state_preservation_fields);
         head = [(''profile_name'', VStr (pr_profile_name ids)), (''seed'', VInt (pr_seed ids)),
           (''global_step'', VInt (pr_global_step ids)), (''checkpoint_step'', VInt (pr_checkpoint_step ids)),
           (''probe_batch_id'', VStr (pr_probe_batch_id ids)),
           (''probe_extra_time_seconds'', vfo probe_extra_time_seconds),
           (''probe_peak_memory_bytes'', VInt probe_peak_memory_bytes),
           (''probe_trajectory_count'', vint probe_trajectory_count),
           (''probe_latent_position_count'', vint probe_latent_position_count),
           (''credit_autograd_executed'', VBool credit_autograd_executed),
           (''probe_rng_restore_succeeded'', VBool probe_rng_restore_succeeded),
           (''record_available'', VBool record_available),
           (''record_unavailable_reason'', record_unavailable_reason)]
     in dupdate (dupdate head (map (\<lambda>(k, b). (k, VBool b)) state))
          [(''extra_loss_backward_executed'', VBool False), (''extra_optimizer_step_executed'', VBool False)])"

section \<open>The checkpoint probe event\<close>

record probe_packet =
  pk_worker_rank :: int
  pk_available :: bool
  pk_deltas :: "fl list"
  pk_credit :: "fl list"
  pk_mixture_weights :: "fl list"
  pk_advantages :: "fl list"
  pk_valid_component_mask :: "bool list"
  pk_flipgrad_trigger_mask :: "bool list"
  pk_trajectory_masks :: "(string \<times> bool list) list"
  pk_position_masks :: "(string \<times> bool list) list"
  pk_state_preservation :: "string \<Rightarrow> bool"
  pk_trajectory_count :: nat
  pk_latent_position_count :: nat
  pk_credit_autograd_executed :: bool
  pk_probe_extra_time_seconds :: real
  pk_probe_peak_memory_bytes :: int

definition common_mask_names :: "(string \<times> bool list) list list \<Rightarrow> string \<Rightarrow> string list result" where
  "common_mask_names masks field =
     (case masks of
        [] \<Rightarrow> Inl IndexError
      | m # ms \<Rightarrow>
          if list_ex (\<lambda>m'. fst ` set m' \<noteq> fst ` set m) ms
          then Inl (ValueError (''checkpoint probe '' @ field @ '' differ across workers''))
          else Inr (''all'' # sort (filter (\<lambda>n. n \<noteq> ''all'') (remdups (map fst m)))))"

definition joined_mask :: "string \<Rightarrow> (string \<times> bool list) list list \<Rightarrow> bool list result" where
  "joined_mask name masks =
     bind_r (map_r (\<lambda>m. case map_of m name of None \<Rightarrow> Inl KeyError | Some bs \<Rightarrow> Inr bs) masks) (\<lambda>bss. Inr (concat bss))"

definition probe_event_row ::
  "probe_ids \<Rightarrow> probe_packet list \<Rightarrow> string \<Rightarrow> bool list \<Rightarrow> string \<Rightarrow> bool list \<Rightarrow> pydict result" where
  "probe_event_row ids rows trajectory_name trajectory_mask position_name position_mask =
    (let selected = map (\<lambda>(v, t, p). v \<and> t \<and> p)
           (zip (concat (map pk_valid_component_mask rows)) (zip trajectory_mask position_mask)) in
     bind_r (collect_credit_from_values (concat (map pk_credit rows)) (concat (map pk_mixture_weights rows))
               selected (concat (map pk_advantages rows))) (\<lambda>credit.
       build_probe_metric_row ids (concat (map pk_deltas rows)) selected
         (concat (map pk_flipgrad_trigger_mask rows)) (Some credit) (1 / 10 ^ 6) trajectory_name position_name
         (list_all (\<lambda>p. list_all (pk_state_preservation p) rng_fields) rows)))"

definition build_checkpoint_probe_event ::
  "probe_packet list \<Rightarrow> int \<Rightarrow> probe_ids \<Rightarrow> (pydict list \<times> pydict \<times> pydict list) result" where
  "build_checkpoint_probe_event rows expected_worker_count ids =
    bind_r (check_r (int (length rows) = expected_worker_count \<and>
               sort (map pk_worker_rank rows) = [0..expected_worker_count - 1])
             (ValueError ''checkpoint probe requires one uniquely ranked packet per worker'')) (\<lambda>_.
    bind_r (check_r (list_all pk_available rows) (ValueError ''checkpoint probe worker packet is unavailable'')) (\<lambda>_.
    let size = length (concat (map pk_deltas rows)) in
    bind_r (check_r (length (concat (map pk_credit rows)) = size \<and>
               length (concat (map pk_mixture_weights rows)) = size \<and>
               length (concat (map pk_advantages rows)) = size \<and>
               length (concat (map pk_valid_component_mask rows)) = size \<and>
               length (concat (map pk_flipgrad_trigger_mask rows)) = size)
             (ValueError ''checkpoint probe worker vectors are misaligned'')) (\<lambda>_.
    bind_r (common_mask_names (map pk_trajectory_masks rows) ''trajectory_masks'') (\<lambda>trajectory_names.
    bind_r (common_mask_names (map pk_position_masks rows) ''position_masks'') (\<lambda>position_names.
    bind_r (map_r (\<lambda>tn. bind_r (joined_mask tn (map pk_trajectory_masks rows)) (\<lambda>tm.
              map_r (\<lambda>pn. bind_r (joined_mask pn (map pk_position_masks rows)) (\<lambda>pm.
                probe_event_row ids rows tn tm pn pm)) position_names)) trajectory_names) (\<lambda>output_rows.
    let state = map (\<lambda>f. (f, list_all (\<lambda>p. pk_state_preservation p f) rows)) state_preservation_fields;
        preserved = list_all snd state;
        benchmark = build_probe_benchmark_row ids (sum_list (map pk_trajectory_count rows))
          (sum_list (map pk_latent_position_count rows)) (list_all pk_credit_autograd_executed rows)
          (list_all (\<lambda>f. list_all (\<lambda>p. pk_state_preservation p f) rows) rng_fields)
          (Some (Fin (sum_list (map pk_probe_extra_time_seconds rows))))
          (Max (set (map pk_probe_peak_memory_bytes rows)))
          preserved (vreason preserved ''state_preservation_failed'') (Some state);
        worker_runtime = map (\<lambda>p. [(''worker_rank'', VInt (pk_worker_rank p)),
            (''probe_extra_time_seconds'', VFloat (Fin (pk_probe_extra_time_seconds p))),
            (''probe_peak_memory_bytes'', VInt (pk_probe_peak_memory_bytes p))]) rows
    in Inr (concat output_rows, benchmark, worker_runtime)))))))"

section \<open>Running a probe without disturbing training\<close>

text \<open>
  The training state: parameters with their gradients, the module mode, the optimizer state
  dict, and the four random number generators.  A tensor is the list of its elements, and
  \<open>torch.equal\<close> compares elementwise, so a NaN is equal to nothing.
\<close>

record ('o, 'r) train_state =
  ts_params :: "(fl list \<times> fl list option) list"
  ts_training :: bool
  ts_optimizer :: 'o
  ts_python_rng :: 'r
  ts_numpy_rng :: 'r
  ts_torch_rng :: 'r
  ts_cuda_rng :: "'r option"

definition tensor_equal :: "fl list \<Rightarrow> fl list \<Rightarrow> bool" where
  "tensor_equal a b = (length a = length b \<and> list_all (\<lambda>(x, y). fl_eq x y) (zip a b))"

definition states_equal ::
  "('o \<Rightarrow> 'o \<Rightarrow> bool) \<Rightarrow> ('o, 'r) train_state \<Rightarrow> fl list list \<Rightarrow> fl list option list \<Rightarrow> 'o \<Rightarrow> bool \<Rightarrow> bool" where
  "states_equal nested_equal s parameters_before grads_before optimizer_before training_before =
     (ts_training s = training_before \<and>
      list_all (\<lambda>((p, g), before, grad_before).
          tensor_equal p before \<and>
          (case grad_before of
             None \<Rightarrow> g = None
           | Some gb \<Rightarrow> (case g of None \<Rightarrow> False | Some gv \<Rightarrow> tensor_equal gv gb)))
        (zip (ts_params s) (zip parameters_before grads_before)) \<and>
      nested_equal (ts_optimizer s) optimizer_before)"

text \<open>The \<open>finally\<close> block; gradients are put back parameter by parameter.\<close>

definition restore_state :: "('o, 'r) train_state \<Rightarrow> ('o, 'r) train_state \<Rightarrow> ('o, 'r) train_state" where
  "restore_state before s =
     s\<lparr>ts_training := ts_training before,
       ts_params := map (\<lambda>((p, g), saved). (p, saved)) (zip (ts_params s) (map snd (ts_params before)))
                    @ drop (length (ts_params before)) (ts_params s),
       ts_optimizer := ts_optimizer before,
       ts_python_rng := ts_python_rng before,
       ts_numpy_rng := ts_numpy_rng before,
       ts_torch_rng := ts_torch_rng before,
       ts_cuda_rng := (case ts_cuda_rng before of None \<Rightarrow> ts_cuda_rng s | Some r \<Rightarrow> Some r)\<rparr>"

definition run_preserving_training_state ::
  "('o \<Rightarrow> 'o \<Rightarrow> bool) \<Rightarrow> (('o, 'r) train_state \<Rightarrow> 'v result \<times> ('o, 'r) train_state) \<Rightarrow> ('o, 'r) train_state \<Rightarrow>
   ('v \<times> bool \<times> bool) result \<times> ('o, 'r) train_state" where
  "run_preserving_training_state nested_equal prb before =
     (let (res, s) = prb before;
          s' = restore_state before s
      in case res of
           Inl e \<Rightarrow> (Inl e, s')
         | Inr v \<Rightarrow> (Inr (v, states_equal nested_equal s' (map fst (ts_params before)) (map snd (ts_params before))
                              (ts_optimizer before) (ts_training before),
                          ts_cuda_rng before \<noteq> None), s'))"

section \<open>Quantile bounds\<close>

lemma quantile_bounds_lemma:
  assumes "values \<noteq> []" and "0 \<le> q" and "q \<le> 1"
  shows "\<exists>v. quantile values q = Some v \<and> Min (set values) \<le> v \<and> v \<le> Max (set values)"
proof -
  let ?o = "sort values" and ?n = "length values"
  have mem: "Min (set values) \<le> ?o ! k \<and> ?o ! k \<le> Max (set values)" if "k < ?n" for k
  proof -
    have "?o ! k \<in> set values"
      using that by (metis length_sort nth_mem set_sort)
    then show ?thesis
      by simp
  qed
  show ?thesis
  proof (cases "?n = 1")
    case True
    then show ?thesis
      using assms mem [of 0] by (simp add: quantile_def Let_def)
  next
    case False
    let ?pos = "q * (real ?n - 1)"
    have n: "1 < ?n"
      using False assms(1) by (cases "?n") auto
    have pos: "0 \<le> ?pos" "?pos \<le> real ?n - 1"
      using assms n by (auto intro: mult_left_le_one_le)
    have lo: "nat \<lfloor>?pos\<rfloor> < ?n"
    proof -
      have "real_of_int \<lfloor>?pos\<rfloor> \<le> real ?n - 1"
        using pos by linarith
      then show ?thesis
        using n by linarith
    qed
    have hi: "nat \<lceil>?pos\<rceil> < ?n"
    proof -
      have "\<lceil>?pos\<rceil> \<le> int ?n - 1"
        by (rule ceiling_le) (use pos(2) in simp)
      then show ?thesis
        using n by linarith
    qed
    let ?f = "?pos - real_of_int \<lfloor>?pos\<rfloor>"
    have f: "0 \<le> ?f" "?f \<le> 1"
      by linarith+
    have conv: "Min (set values) \<le> a * (1 - ?f) + b * ?f \<and> a * (1 - ?f) + b * ?f \<le> Max (set values)"
      if "Min (set values) \<le> a \<and> a \<le> Max (set values)" "Min (set values) \<le> b \<and> b \<le> Max (set values)" for a b
    proof -
      have "Min (set values) * (1 - ?f) + Min (set values) * ?f \<le> a * (1 - ?f) + b * ?f"
        using that f by (intro add_mono mult_right_mono) auto
      moreover have "a * (1 - ?f) + b * ?f \<le> Max (set values) * (1 - ?f) + Max (set values) * ?f"
        using that f by (intro add_mono mult_right_mono) auto
      moreover have "c * (1 - ?f) + c * ?f = c" for c :: real
        by (simp add: algebra_simps)
      ultimately show ?thesis
        by simp
    qed
    show ?thesis
      using conv [OF mem [OF lo] mem [OF hi]] mem [OF lo] assms(1) False
      by (auto simp: quantile_def Let_def)
  qed
qed

section \<open>Ranks\<close>

definition n_less :: "real \<Rightarrow> real list \<Rightarrow> nat" where
  "n_less v xs = length (filter (\<lambda>x. x < v) xs)"

definition n_equal :: "real \<Rightarrow> real list \<Rightarrow> nat" where
  "n_equal v xs = length (filter (\<lambda>x. x = v) xs)"

text \<open>The reference definition: positions below, plus the middle of the positions of the ties.\<close>

definition mid_rank :: "real \<Rightarrow> real list \<Rightarrow> real" where
  "mid_rank v xs = real (n_less v xs) + (real (n_equal v xs) + 1) / 2"

lemma foldl_upd_nth:
  "\<forall>x\<in>set ps. fst x < length r \<Longrightarrow>
   foldl (\<lambda>r x. r[fst x := a]) r ps ! m = (if m \<in> fst ` set ps then a else r ! m)"
  by (induction ps arbitrary: r) (auto simp: nth_list_update)

lemma foldl_upd_length [simp]: "length (foldl (\<lambda>r x. r[fst x := a]) r ps) = length r"
  by (induction ps arbitrary: r) auto

text \<open>In a sorted list the run of the first value is followed by greater values only.\<close>

lemma sorted_run:
  assumes "sorted (map snd (p # rest))"
  shows "(\<forall>x\<in>set (takeWhile (\<lambda>x. snd x = snd p) rest). snd x = (snd p :: real)) \<and>
    (\<forall>x\<in>set (dropWhile (\<lambda>x. snd x = snd p) rest). snd p < snd x)"
proof (intro conjI)
  show "\<forall>x\<in>set (takeWhile (\<lambda>x. snd x = snd p) rest). snd x = snd p"
    by (auto dest: set_takeWhileD)
  show "\<forall>x\<in>set (dropWhile (\<lambda>x. snd x = snd p) rest). snd p < snd x"
  proof (cases "dropWhile (\<lambda>x. snd x = snd p) rest")
    case Nil
    then show ?thesis by (simp only: list.set(1) ball_empty)
  next
    case (Cons y ys)
    have ne: "snd y \<noteq> snd p"
      using Cons hd_dropWhile [of "\<lambda>x. snd x = snd p" rest] by auto
    have split: "rest = takeWhile (\<lambda>x. snd x = snd p) rest @ y # ys"
      using Cons by (metis takeWhile_dropWhile_id)
    have "sorted (map snd (takeWhile (\<lambda>x. snd x = snd p) rest @ y # ys)) \<and> (\<forall>x\<in>set (takeWhile (\<lambda>x. snd x = snd p) rest @ y # ys). snd p \<le> snd x)"
      using assms split by (metis (no_types, lifting) image_eqI list.set_map list.simps(9) sorted_simps(2))
    then have "snd p \<le> snd y" "\<forall>x\<in>set ys. snd y \<le> snd x"
      by (auto simp: sorted_append)
    with ne show ?thesis
      unfolding Cons by force
  qed
qed

lemma rank_loop_ok:
  "\<lbrakk>sorted (map snd ps); distinct (map fst ps); \<forall>x\<in>set ps. fst x < length ranks\<rbrakk> \<Longrightarrow>
   length (rank_loop i ps ranks) = length ranks \<and>
   (\<forall>x\<in>set ps. rank_loop i ps ranks ! fst x = real i + mid_rank (snd x) (map snd ps)) \<and>
   (\<forall>m. m \<notin> fst ` set ps \<longrightarrow> rank_loop i ps ranks ! m = ranks ! m)"
proof (induction i ps ranks rule: rank_loop.induct)
  case (1 i ranks)
  then show ?case by simp
next
  case (2 i p rest ranks)
  define run where "run = takeWhile (\<lambda>x. snd x = snd p) rest"
  define tl where "tl = dropWhile (\<lambda>x. snd x = snd p) rest"
  let ?j = "i + 1 + length run"
  let ?av = "(real i + 1 + real ?j) / 2"
  let ?r = "foldl (\<lambda>r x. r[fst x := ?av]) ranks (p # run)"
  have rest: "rest = run @ tl"
    by (simp add: run_def tl_def)
  have eq_run: "\<forall>x\<in>set run. snd x = snd p" and gt_tl: "\<forall>x\<in>set tl. snd p < snd x"
    using sorted_run [OF 2(2)] unfolding run_def tl_def by blast+
  have srt: "sorted (map snd tl)"
    using 2(2) by (simp add: rest sorted_append)
  have dis: "distinct (map fst tl)" "fst ` set (p # run) \<inter> fst ` set tl = {}"
    using 2(3) by (auto simp: rest)
  have bnd: "\<forall>x\<in>set tl. fst x < length ?r" "\<forall>x\<in>set (p # run). fst x < length ranks"
    using 2(4) by (auto simp: rest)
  have step: "rank_loop i (p # rest) ranks = rank_loop ?j tl ?r"
    by (simp add: rank_loop.simps(2) Let_def run_def tl_def)
  note IH = 2(1) [OF refl refl refl, folded run_def tl_def, OF srt dis(1) bnd(1)]
  have cnt: "n_less (snd p) (map snd (p # rest)) = 0" "n_equal (snd p) (map snd (p # rest)) = 1 + length run"
  proof -
    have "filter (\<lambda>x. x < snd p) (map snd run) = []" "filter (\<lambda>x. x = snd p) (map snd run) = map snd run"
      "filter (\<lambda>x. x < snd p) (map snd tl) = []" "filter (\<lambda>x. x = snd p) (map snd tl) = []"
      using eq_run gt_tl by (fastforce intro!: filter_True filter_False)+
    then show "n_less (snd p) (map snd (p # rest)) = 0" "n_equal (snd p) (map snd (p # rest)) = 1 + length run"
      by (simp_all add: n_less_def n_equal_def rest del: filter_map)
  qed
  have run_rank: "rank_loop i (p # rest) ranks ! fst x = real i + mid_rank (snd x) (map snd (p # rest))"
    if "x \<in> set (p # run)" for x
  proof -
    have v: "snd x = snd p"
      using that eq_run by auto
    have "fst x \<notin> fst ` set tl"
      using that dis(2) by blast
    then have "rank_loop i (p # rest) ranks ! fst x = ?r ! fst x"
      unfolding step using IH by blast
    also have "\<dots> = ?av"
      using foldl_upd_nth [OF bnd(2), of ?av "fst x"] that by (simp only: image_eqI [OF refl that] if_True)
    also have "\<dots> = real i + (real 0 + (real (1 + length run) + 1) / 2)"
      by simp
    finally show ?thesis
      unfolding v mid_rank_def cnt .
  qed
  have tl_rank: "rank_loop i (p # rest) ranks ! fst x = real i + mid_rank (snd x) (map snd (p # rest))"
    if "x \<in> set tl" for x
  proof -
    have lt: "snd p < snd x"
      using gt_tl that by blast
    have "filter (\<lambda>y. y < snd x) (map snd run) = map snd run" "filter (\<lambda>y. y = snd x) (map snd run) = []"
      using eq_run lt by (fastforce intro!: filter_True filter_False)+
    then have c: "n_less (snd x) (map snd (p # rest)) = 1 + length run + n_less (snd x) (map snd tl)"
        "n_equal (snd x) (map snd (p # rest)) = n_equal (snd x) (map snd tl)"
      using lt by (simp_all add: n_less_def n_equal_def rest del: filter_map)
    have "rank_loop ?j tl ?r ! fst x = real ?j + mid_rank (snd x) (map snd tl)"
      using IH that by blast
    then show ?thesis
      unfolding step mid_rank_def c by simp
  qed
  have out: "rank_loop i (p # rest) ranks ! m = ranks ! m" if m: "m \<notin> fst ` set (p # rest)" for m
  proof -
    have "m \<notin> fst ` set tl" "m \<notin> fst ` set (p # run)"
      using m by (auto simp: rest)
    then show ?thesis
      unfolding step using IH foldl_upd_nth [OF bnd(2), of ?av m] by simp
  qed
  have len: "length (rank_loop i (p # rest) ranks) = length ranks"
    unfolding step using IH by simp
  have "set (p # rest) = set (p # run) \<union> set tl"
    by (auto simp: rest)
  then show ?case
    using run_rank tl_rank out len by blast
qed

lemma n_less_perm: "mset xs = mset ys \<Longrightarrow> n_less v xs = n_less v ys"
  unfolding n_less_def by (metis mset_filter size_mset)

lemma n_equal_perm: "mset xs = mset ys \<Longrightarrow> n_equal v xs = n_equal v ys"
  unfolding n_equal_def by (metis mset_filter size_mset)

lemma average_ranks_mid:
  "length (average_ranks values) = length values \<and>
   (\<forall>m<length values. average_ranks values ! m = mid_rank (values ! m) values)"
proof -
  let ?ps = "sort_key snd (enumerate 0 values)"
  have ms: "mset ?ps = mset (enumerate 0 values)"
    by simp
  have set: "set ?ps = set (enumerate 0 values)"
    by simp
  have dis: "distinct (map fst ?ps)"
    using ms by (metis distinct_enumerate mset_eq_imp_distinct_iff mset_map map_fst_enumerate distinct_upt)
  have bnd: "\<forall>x\<in>set ?ps. fst x < length (replicate (length values) (0::real))"
    by (auto simp: in_set_enumerate_eq)
  have srt: "sorted (map snd ?ps)"
    by (rule sorted_sort_key)
  note rl = rank_loop_ok [OF srt dis bnd, of 0]
  have vals: "mset (map snd ?ps) = mset values"
    using ms by (metis map_snd_enumerate mset_map)
  have "average_ranks values ! m = mid_rank (values ! m) values" if "m < length values" for m
  proof -
    have "(m, values ! m) \<in> set ?ps"
      using that by (auto simp: in_set_enumerate_eq)
    then have "average_ranks values ! m = mid_rank (values ! m) (map snd ?ps)"
      using rl by (force simp: average_ranks_def)
    then show ?thesis
      unfolding mid_rank_def using n_less_perm [OF vals] n_equal_perm [OF vals] by metis
  qed
  then show ?thesis
    using rl by (simp add: average_ranks_def)
qed

section \<open>Spearman and credit bounds\<close>

lemma correlation_le_1:
  fixes xs :: "(real \<times> real) list"
  assumes "sum_list (map (\<lambda>p. fst p * fst p) xs) \<noteq> 0" and "sum_list (map (\<lambda>p. snd p * snd p) xs) \<noteq> 0"
  shows "\<bar>sum_list (map (\<lambda>p. fst p * snd p) xs) /
     (sqrt (sum_list (map (\<lambda>p. fst p * fst p) xs)) * sqrt (sum_list (map (\<lambda>p. snd p * snd p) xs)))\<bar> \<le> 1"
proof -
  let ?n = "sum_list (map (\<lambda>p. fst p * snd p) xs)" and ?a = "sum_list (map (\<lambda>p. fst p * fst p) xs)"
    and ?b = "sum_list (map (\<lambda>p. snd p * snd p) xs)"
  have pos: "0 < ?a" "0 < ?b"
    using assms sum_list_nonneg [of "map (\<lambda>p. fst p * fst p) xs"] sum_list_nonneg [of "map (\<lambda>p. snd p * snd p) xs"]
    by fastforce+
  have "?n\<^sup>2 \<le> ?a * ?b"
    using cauchy_schwarz_list [of fst snd xs] by simp
  then have "sqrt (?n\<^sup>2) \<le> sqrt (?a * ?b)"
    by (rule real_sqrt_le_mono)
  then have "\<bar>?n\<bar> \<le> sqrt ?a * sqrt ?b"
    by (simp add: real_sqrt_mult)
  then show ?thesis
    using pos by (simp add: abs_mult)
qed

lemma sum_fst_zip:
  "length xs = length ys \<Longrightarrow> sum_list (map (\<lambda>(a, b). f a) (zip xs ys)) = (sum_list (map f xs) :: real)"
  by (induction xs ys rule: list_induct2) auto

lemma sum_snd_zip:
  "length xs = length ys \<Longrightarrow> sum_list (map (\<lambda>(a, b). f b) (zip xs ys)) = (sum_list (map f ys) :: real)"
  by (induction xs ys rule: list_induct2) auto

lemma spearman_abs_le_1:
  assumes "spearman left right = Inr (Some r, ok, reason, n)"
  shows "\<bar>r\<bar> \<le> 1 \<and> ok \<and> 2 \<le> n"
proof -
  define ps where "ps = map (\<lambda>(a, b). (fin_val a, fin_val b)) (filter (\<lambda>(a, b). isfinite a \<and> isfinite b) (zip left right))"
  define lr where "lr = average_ranks (map fst ps)"
  define rr where "rr = average_ranks (map snd ps)"
  define lm where "lm = mean_list lr"
  define rm where "rm = mean_list rr"
  let ?z = "map (\<lambda>(a, b). (a - lm, b - rm)) (zip lr rr)"
  have len: "length lr = length rr"
    using average_ranks_mid by (simp add: lr_def rr_def)
  have num: "sum_list (map (\<lambda>(a, b). (a - lm) * (b - rm)) (zip lr rr)) = sum_list (map (\<lambda>p. fst p * snd p) ?z)"
    by (simp add: comp_def split_def)
  have ld: "sum_list (map (\<lambda>a. (a - lm)\<^sup>2) lr) = sum_list (map (\<lambda>p. fst p * fst p) ?z)"
    using sum_fst_zip [OF len, of "\<lambda>a. (a - lm)\<^sup>2"] by (simp add: comp_def split_def power2_eq_square)
  have rd: "sum_list (map (\<lambda>a. (a - rm)\<^sup>2) rr) = sum_list (map (\<lambda>p. snd p * snd p) ?z)"
    using sum_snd_zip [OF len, of "\<lambda>a. (a - rm)\<^sup>2"] by (simp add: comp_def split_def power2_eq_square)
  have r: "r = sum_list (map (\<lambda>(a, b). (a - lm) * (b - rm)) (zip lr rr)) /
       (sqrt (sum_list (map (\<lambda>a. (a - lm)\<^sup>2) lr)) * sqrt (sum_list (map (\<lambda>a. (a - rm)\<^sup>2) rr)))"
      "sqrt (sum_list (map (\<lambda>a. (a - lm)\<^sup>2) lr)) \<noteq> 0" "sqrt (sum_list (map (\<lambda>a. (a - rm)\<^sup>2) rr)) \<noteq> 0" "ok" "2 \<le> n"
    using assms unfolding spearman_def Let_def ps_def [symmetric] lr_def [symmetric] rr_def [symmetric]
      lm_def [symmetric] rm_def [symmetric]
    by (auto split: if_splits)
  have "\<bar>r\<bar> \<le> 1"
    unfolding r(1) num ld rd by (rule correlation_le_1) (use r(2,3) ld rd in auto)
  with r(4,5) show ?thesis
    by blast
qed

lemma spearman_cases:
  assumes "spearman left right = Inr (v, ok, reason, n)"
  shows "ok \<longleftrightarrow> v \<noteq> None"
  using assms by (auto simp: spearman_def Let_def split: if_splits)

lemma concentration_bounds:
  assumes "\<forall>x\<in>set xs. 0 \<le> x" and "concentration xs = Some (t, e)"
  shows "1 / real (length xs) \<le> t \<and> t \<le> 1 \<and> 1 \<le> e \<and> e \<le> real (length xs)"
proof -
  have pos: "0 < sum_list xs"
    using assms(2) by (auto simp: concentration_def Let_def split: if_splits)
  have q: "t = Max (set (normalise xs))"
      "e = exp (- sum_list (map (\<lambda>x. x * ln x) (filter (\<lambda>x. 0 < x) (normalise xs))))"
    using assms(2) by (auto simp: concentration_def Let_def normalise_def split: if_splits)
  have "\<forall>x\<in>set (normalise xs). 0 \<le> x"
    using assms(1) pos by (auto simp: normalise_def)
  then have "filter (\<lambda>x. 0 < x) (normalise xs) = filter (\<lambda>x. x \<noteq> 0) (normalise xs)"
    by (intro filter_cong) force+
  then have "e = exp (mixture_entropy (normalise xs))"
    using q(2) by (simp add: mixture_entropy_def)
  then show ?thesis
    using q(1) normalise_bounds [OF assms(1) pos] by simp
qed

lemma alignment_le: "alignment ps = (n, k) \<Longrightarrow> k \<le> n"
  unfolding alignment_def Let_def by (metis Pair_inject length_filter_le)

lemma credit_result:
  assumes "collect_credit_from_values credit weights valid advantages = Inr cm"
  shows "\<exists>xs n k sr. (\<forall>x\<in>set xs. 0 \<le> x) \<and> cm_concentration_count cm = length xs \<and>
     cm_top1_share cm = map_option fst (concentration xs) \<and> cm_effective_k cm = map_option snd (concentration xs) \<and>
     cm_concentration_available cm = (concentration xs \<noteq> None) \<and>
     k \<le> n \<and> cm_alignment_count cm = n \<and>
     cm_surrogate_alignment_rate cm = (if n \<noteq> 0 then Some (real k / real n) else None) \<and>
     spearman (fst sr) (snd sr) = Inr (cm_weight_credit_spearman cm, cm_spearman_available cm, cm_spearman_reason cm, cm_spearman_count cm)"
proof -
  let ?comps = "finite_components credit weights valid advantages"
  let ?xs = "map abs (map fst ?comps)"
  obtain n k where nk: "alignment (zip (map fst ?comps) (map (snd \<circ> snd) ?comps)) = (n, k)"
    by fastforce
  let ?sr = "(map Fin (map (fst \<circ> snd) ?comps), map Fin ?xs)"
  have "\<forall>x\<in>set ?xs. 0 \<le> x"
    by auto
  moreover have "cm_concentration_count cm = length ?xs \<and>
     cm_top1_share cm = map_option fst (concentration ?xs) \<and> cm_effective_k cm = map_option snd (concentration ?xs) \<and>
     cm_concentration_available cm = (concentration ?xs \<noteq> None) \<and> cm_alignment_count cm = n \<and>
     cm_surrogate_alignment_rate cm = (if n \<noteq> 0 then Some (real k / real n) else None) \<and>
     spearman (fst ?sr) (snd ?sr) = Inr (cm_weight_credit_spearman cm, cm_spearman_available cm, cm_spearman_reason cm, cm_spearman_count cm)"
    using assms nk
    by (auto simp: collect_credit_from_values_def Let_def bind_r_Inr_iff simp del: map_map split: if_splits)
  ultimately show ?thesis
    using alignment_le [OF nk] by blast
qed

section \<open>The probe row\<close>

lemma count_effective:
  assumes "from_values values (Some (map (\<lambda>(v, inc). inc \<and> isfinite v) (zip values valid))) nm = Inr st"
    and "length values = length valid"
  shows "ss_count st = length (filter id (map (\<lambda>(v, inc). inc \<and> isfinite v) (zip values valid)))"
proof -
  let ?e = "map (\<lambda>(v, inc). inc \<and> isfinite v) (zip values valid)"
  obtain ns where ns: "length ns = length values" "st = fv_build (zip values (zip ?e ns))"
  proof (cases nm)
    case None
    then show thesis
      using assms that [of "replicate (length values) False"] by (simp add: from_values_def split: if_splits)
  next
    case (Some m)
    then show thesis
      using assms that [of m] by (simp add: from_values_def split: if_splits)
  qed
  have "length (kept_values (zip values (zip ?e ns))) = length (filter id ?e)"
    using ns(1) assms(2)
  proof (induction "values" arbitrary: valid ns)
    case Nil
    then show ?case by (simp add: kept_values_def)
  next
    case (Cons v vs)
    then show ?case
      by (cases valid; cases ns) (auto simp: kept_values_def kept_def)
  qed
  then show ?thesis
    using ns(2) by (simp add: fv_build_eq)
qed

lemma filter_flips_le:
  "length (filter (\<lambda>(t, inc). inc \<and> t) (zip flips eff)) \<le> length (filter id eff)"
proof (induction flips arbitrary: eff)
  case Nil
  then show ?case by simp
next
  case (Cons t flips)
  then show ?case
    by (cases eff) (auto intro: le_SucI)
qed

lemma kept_effective:
  assumes "length values = length valid"
  shows "map (fin_val \<circ> fst) (filter snd (zip values (map (\<lambda>(v, inc). inc \<and> isfinite v) (zip values valid)))) =
    kept_values (zip values (zip (map (\<lambda>(v, inc). inc \<and> isfinite v) (zip values valid)) (replicate (length values) False)))"
  using assms
proof (induction "values" arbitrary: valid)
  case Nil
  then show ?case by (simp add: kept_values_def)
next
  case (Cons v vs)
  then show ?case
    by (cases valid) (auto simp: kept_values_def kept_def)
qed

section \<open>Properties\<close>

text \<open>
  Tie-averaged ranks are the mid-ranks: the loop over the sorted values assigns to every
  position the number of smaller values plus half of one more than the number of equal values.
\<close>

theorem average_ranks_are_mid_ranks:
  "length (average_ranks values) = length values \<and>
   (\<forall>m<length values. average_ranks values ! m = mid_rank (values ! m) values)"
  by (rule average_ranks_mid)

theorem average_ranks_are_mid_ranks_witness:
  "average_ranks [5, 3, 5] = [5 / 2, 1, 5 / 2]"
  using average_ranks_are_mid_ranks [of "[5, 3, 5]"]
  by (intro nth_equalityI) (auto simp: mid_rank_def n_less_def n_equal_def less_Suc_eq)

text \<open>
  C28. Credit metrics stay in range: with N components, the top share lies in [1/N, 1] and the
  effective number in [1, N] exactly when concentration is available; the alignment rate lies
  in [0, 1]; and a reported Spearman coefficient lies in [-1, 1] and rests on at least two pairs.
\<close>

theorem credit_metrics_bounded:
  assumes "collect_credit_from_values credit weights valid advantages = Inr cm"
  shows "(if cm_concentration_available cm
      then \<exists>t e. cm_top1_share cm = Some t \<and> cm_effective_k cm = Some e \<and>
        1 / real (cm_concentration_count cm) \<le> t \<and> t \<le> 1 \<and> 1 \<le> e \<and> e \<le> real (cm_concentration_count cm)
      else cm_top1_share cm = None \<and> cm_effective_k cm = None) \<and>
    (case cm_surrogate_alignment_rate cm of None \<Rightarrow> cm_alignment_count cm = 0 | Some r \<Rightarrow> 0 \<le> r \<and> r \<le> 1) \<and>
    (case cm_weight_credit_spearman cm of
       None \<Rightarrow> \<not> cm_spearman_available cm
     | Some r \<Rightarrow> \<bar>r\<bar> \<le> 1 \<and> cm_spearman_available cm \<and> 2 \<le> cm_spearman_count cm)"
proof -
  obtain xs n k sr where c: "\<forall>x\<in>set xs. 0 \<le> x" "cm_concentration_count cm = length xs"
     "cm_top1_share cm = map_option fst (concentration xs)" "cm_effective_k cm = map_option snd (concentration xs)"
     "cm_concentration_available cm = (concentration xs \<noteq> None)"
     "k \<le> n" "cm_alignment_count cm = n"
     "cm_surrogate_alignment_rate cm = (if n \<noteq> 0 then Some (real k / real n) else None)"
     "spearman (fst sr) (snd sr) = Inr (cm_weight_credit_spearman cm, cm_spearman_available cm, cm_spearman_reason cm, cm_spearman_count cm)"
    using credit_result [OF assms] by blast
  have conc: "if cm_concentration_available cm
      then \<exists>t e. cm_top1_share cm = Some t \<and> cm_effective_k cm = Some e \<and>
        1 / real (cm_concentration_count cm) \<le> t \<and> t \<le> 1 \<and> 1 \<le> e \<and> e \<le> real (cm_concentration_count cm)
      else cm_top1_share cm = None \<and> cm_effective_k cm = None"
    using c(2-5) concentration_bounds [OF c(1)] by (cases "concentration xs") auto
  have al: "case cm_surrogate_alignment_rate cm of None \<Rightarrow> cm_alignment_count cm = 0 | Some r \<Rightarrow> 0 \<le> r \<and> r \<le> 1"
    using c(6-8) by (auto simp: divide_le_eq_1)
  have sp: "case cm_weight_credit_spearman cm of
       None \<Rightarrow> \<not> cm_spearman_available cm
     | Some r \<Rightarrow> \<bar>r\<bar> \<le> 1 \<and> cm_spearman_available cm \<and> 2 \<le> cm_spearman_count cm"
    using spearman_abs_le_1 [of "fst sr" "snd sr"] spearman_cases [OF c(9)] c(9)
    by (cases "cm_weight_credit_spearman cm") auto
  show ?thesis
    using conc al sp by blast
qed

theorem credit_metrics_bounded_witness:
  "\<exists>cm. collect_credit_from_values [Fin 1, Fin (- 1)] [Fin 2, NaN] [True, True] [Fin 1, Fin 1] = Inr cm \<and>
    cm_concentration_available cm \<and> cm_concentration_count cm = 1 \<and>
    (case cm_surrogate_alignment_rate cm of None \<Rightarrow> cm_alignment_count cm = 0 | Some r \<Rightarrow> 0 \<le> r \<and> r \<le> 1)"
proof -
  obtain cm where cm: "collect_credit_from_values [Fin 1, Fin (- 1)] [Fin 2, NaN] [True, True] [Fin 1, Fin 1] = Inr cm"
      "cm_concentration_available cm" "cm_concentration_count cm = 1"
    by (simp add: collect_credit_from_values_def finite_components_def concentration_def alignment_def spearman_def Let_def)
  then show ?thesis
    using credit_metrics_bounded [OF cm(1)] by blast
qed

text \<open>
  A probe row reports consistent deltas: the row exists exactly when the vectors have equal
  length; when it is available, its 5 percent quantile lies between the minimum and the maximum
  of the effective deltas and its flip-gradient rate in [0, 1]; otherwise both are absent.
\<close>

theorem probe_row_consistent:
  assumes "build_probe_metric_row ids deltas valid flips credit th tg pg rng = Inr row"
  shows "length valid = length deltas \<and> length flips = length deltas \<and>
    (if dget row ''onesided_available'' = VBool True
     then \<exists>p lo r. dget row ''onesided/delta_p05'' = VFloat (Fin p) \<and>
        dget row ''onesided/delta_min'' = VFloat (Fin lo) \<and> lo \<le> p \<and>
        (\<exists>i<length deltas. valid ! i \<and> (\<exists>x. deltas ! i = Fin x \<and> p \<le> x)) \<and>
        dget row ''onesided/flipgrad_rate'' = VFloat (Fin r) \<and> 0 \<le> r \<and> r \<le> 1
     else dget row ''onesided/delta_p05'' = VNone \<and> dget row ''onesided/flipgrad_rate'' = VNone)"
proof -
  let ?e = "map (\<lambda>(v, inc). inc \<and> isfinite v) (zip deltas valid)"
  let ?fc = "length (filter (\<lambda>(t, inc). inc \<and> t) (zip flips ?e))"
  let ?vals = "map (fin_val \<circ> fst) (filter snd (zip deltas ?e))"
  have len: "length valid = length deltas" "length flips = length deltas"
    using assms by (auto simp: build_probe_metric_row_def split: if_splits)
  obtain stats where st: "from_values deltas (Some ?e) None = Inr stats"
      and p05: "dget row ''onesided/delta_p05'' = (if available stats then vopt (quantile ?vals (5 / 100)) else VNone)"
      and mn: "dget row ''onesided/delta_min'' = (if available stats then vopt (ss_min stats) else VNone)"
      and fr: "dget row ''onesided/flipgrad_rate'' = vif (available stats) (Fin (real ?fc / real (ss_count stats)))"
      and av: "dget row ''onesided_available'' = VBool (available stats)"
    using assms len by (auto simp: build_probe_metric_row_def bind_r_Inr_iff dget_Cons Let_def)
  show ?thesis
  proof (cases "available stats")
    case False
    then show ?thesis
      using len p05 fr av by (simp add: vif_def)
  next
    case True
    have cnt: "ss_count stats = length (filter id ?e)"
      using count_effective [OF st] len by simp
    have fc: "?fc \<le> ss_count stats"
      unfolding cnt by (rule filter_flips_le)
    have pos: "0 < ss_count stats"
      using True by (simp add: available_def)
    have vals: "?vals = kept_values (zip deltas (zip ?e (replicate (length deltas) False)))"
      using kept_effective len by simp
    have stats: "stats = fv_build (zip deltas (zip ?e (replicate (length deltas) False)))"
      using st by (auto simp: from_values_def split: if_splits)
    have ne: "?vals \<noteq> []" and smin: "ss_min stats = Some (Min (set ?vals))"
      using pos unfolding vals stats by (auto simp: fv_build_eq)
    obtain p where p: "quantile ?vals (5 / 100) = Some p" "Min (set ?vals) \<le> p" "p \<le> Max (set ?vals)"
      using quantile_bounds_lemma [OF ne, of "5 / 100"] by auto
    have "Max (set ?vals) \<in> set ?vals"
      by (rule Max_in) (use ne in \<open>simp_all only: set_empty finite_set not_False_eq_True\<close>)
    then obtain v inc where v: "(v, inc) \<in> set (zip deltas ?e)" "inc" "Max (set ?vals) = fin_val v"
      by auto
    then obtain i where i: "i < length deltas" "deltas ! i = v" "?e ! i = inc"
      using len by (auto simp: in_set_zip)
    then have "valid ! i \<and> isfinite v"
      using v(2) len by simp
    then have ex: "\<exists>i<length deltas. valid ! i \<and> (\<exists>x. deltas ! i = Fin x \<and> p \<le> x)"
      using i p(3) v(3) by (auto simp: isfinite_iff)
    have r: "0 \<le> real ?fc / real (ss_count stats) \<and> real ?fc / real (ss_count stats) \<le> 1"
      using fc pos by simp
    show ?thesis
      using len True p smin p05 mn fr av ex r by (simp add: vif_def)
  qed
qed

theorem probe_row_consistent_witness:
  "\<exists>row. build_probe_metric_row
      \<lparr>pr_profile_name = ''p'', pr_seed = 0, pr_global_step = 1, pr_optimizer_step = 1, pr_checkpoint_step = 1,
       pr_probe_batch_id = ''b''\<rparr> [Fin 1, Fin (- 2), NaN] [True, True, True] [True, False, True] None 0 ''all'' ''all'' True = Inr row \<and>
     dget row ''onesided_available'' = VBool True \<and>
     (\<exists>r. dget row ''onesided/flipgrad_rate'' = VFloat (Fin r) \<and> 0 \<le> r \<and> r \<le> 1)"
proof -
  let ?ids = "\<lparr>pr_profile_name = ''p'', pr_seed = 0, pr_global_step = 1, pr_optimizer_step = 1, pr_checkpoint_step = 1,
       pr_probe_batch_id = ''b''\<rparr>"
  obtain row where row: "build_probe_metric_row ?ids [Fin 1, Fin (- 2), NaN] [True, True, True] [True, False, True] None 0
      ''all'' ''all'' True = Inr row" "dget row ''onesided_available'' = VBool True"
    by (simp add: build_probe_metric_row_def from_values_def Let_def fv_build_def available_def dget_Cons)
  from probe_row_consistent [OF row(1)] row show ?thesis
    by auto
qed

text \<open>
  C29. A probe leaves training undisturbed, whether it returns or raises: afterwards the module
  mode, the optimizer state, every random number generator and the gradients of the parameters
  are what they were before; its value or its exception is passed on; and \<open>state_restored\<close> is
  only reported when every parameter is elementwise equal to its value before.
\<close>

theorem probe_preserves_training_state:
  assumes "run_preserving_training_state nested_equal prb before = (res, after)"
    and "length (ts_params (snd (prb before))) = length (ts_params before)"
    and "ts_cuda_rng before = None \<longrightarrow> ts_cuda_rng (snd (prb before)) = None"
  shows "ts_training after = ts_training before \<and> ts_optimizer after = ts_optimizer before \<and>
    ts_python_rng after = ts_python_rng before \<and> ts_numpy_rng after = ts_numpy_rng before \<and>
    ts_torch_rng after = ts_torch_rng before \<and> ts_cuda_rng after = ts_cuda_rng before \<and>
    map snd (ts_params after) = map snd (ts_params before) \<and>
    (case fst (prb before) of
       Inl e \<Rightarrow> res = Inl e
     | Inr v \<Rightarrow> \<exists>restored. res = Inr (v, restored, ts_cuda_rng before \<noteq> None) \<and>
         (restored \<longrightarrow> (\<forall>i<length (ts_params before).
            tensor_equal (fst (ts_params after ! i)) (fst (ts_params before ! i)))))"
proof -
  obtain r s where rs: "prb before = (r, s)"
    by fastforce
  have after: "after = restore_state before s"
    using assms(1) rs by (auto simp: run_preserving_training_state_def Let_def split: sum.splits)
  have len: "length (ts_params s) = length (ts_params before)"
    using assms(2) rs by simp
  have snd_eq: "map snd (ts_params after) = map snd (ts_params before)"
    using len by (intro nth_equalityI) (auto simp: after restore_state_def split_def)
  have lena: "length (ts_params after) = length (ts_params before)"
    using snd_eq by (metis length_map)
  have eq: "tensor_equal (fst (ts_params after ! i)) (fst (ts_params before ! i))"
    if "states_equal nested_equal after (map fst (ts_params before)) (map snd (ts_params before)) (ts_optimizer before)
        (ts_training before)" "i < length (ts_params before)" for i
  proof -
    let ?z = "zip (ts_params after) (zip (map fst (ts_params before)) (map snd (ts_params before)))"
    have "?z ! i \<in> set ?z"
      using that(2) lena by (intro nth_mem) simp
    then have "(\<lambda>((p, g), before, grad_before). tensor_equal p before \<and>
          (case grad_before of None \<Rightarrow> g = None
           | Some gb \<Rightarrow> (case g of None \<Rightarrow> False | Some gv \<Rightarrow> tensor_equal gv gb))) (?z ! i)"
      using that(1) by (simp add: states_equal_def list_all_iff)
    then show ?thesis
      using that(2) lena by (simp add: split_def)
  qed
  have rest: "ts_training after = ts_training before \<and> ts_optimizer after = ts_optimizer before \<and>
    ts_python_rng after = ts_python_rng before \<and> ts_numpy_rng after = ts_numpy_rng before \<and>
    ts_torch_rng after = ts_torch_rng before \<and> ts_cuda_rng after = ts_cuda_rng before"
    using assms(3) rs by (auto simp: after restore_state_def split: option.splits)
  show ?thesis
    using rest snd_eq eq assms(1) rs after
    by (auto simp: run_preserving_training_state_def Let_def split: sum.splits)
qed

theorem probe_preserves_training_state_witness:
  "let before = \<lparr>ts_params = [([Fin 1], Some [Fin 2])], ts_training = True, ts_optimizer = (0::nat),
        ts_python_rng = (0::nat), ts_numpy_rng = 0, ts_torch_rng = 0, ts_cuda_rng = None\<rparr>;
       prb = (\<lambda>s. (Inl (RuntimeError ''boom'') :: unit result,
          s\<lparr>ts_params := [([Fin 1], None)], ts_training := False, ts_python_rng := 5\<rparr>))
   in snd (run_preserving_training_state (=) prb before) = before"
proof -
  let ?b = "\<lparr>ts_params = [([Fin 1], Some [Fin 2])], ts_training = True, ts_optimizer = (0::nat),
        ts_python_rng = (0::nat), ts_numpy_rng = 0, ts_torch_rng = 0, ts_cuda_rng = None\<rparr>"
  let ?p = "\<lambda>s :: (nat, nat) train_state. (Inl (RuntimeError ''boom'') :: unit result,
          s\<lparr>ts_params := [([Fin 1], None)], ts_training := False, ts_python_rng := 5\<rparr>)"
  obtain res after where r: "run_preserving_training_state (=) ?p ?b = (res, after)"
    by fastforce
  have "ts_params after = ts_params ?b"
    using r by (auto simp: run_preserving_training_state_def restore_state_def)
  with probe_preserves_training_state [OF r] show ?thesis
    using r by (simp add: Let_def)
qed

end
