(* ===== verification/Storage.thy ===== *)
theory Storage
  imports PyVal "HOL-Library.List_Lexorder" "HOL-Library.Char_ord"
begin

text \<open>
  The append-only part storage of \<open>metrics/storage.py\<close> and the resume checks of
  \<open>checkpointing.py\<close>.  The directory of a table is an explicit state; the Parquet backend
  (PyArrow) is a parameter that writes and reads a part's content; each I/O step of an append
  may fail.  A part's file name is the pair of its part number and its uuid; temporary files
  are not listed, as no operation reads them.
\<close>

section \<open>Schemas\<close>

definition primary_keys :: "(string \<times> string list) list" where
  "primary_keys =
    [(''train_step_metrics'', [''profile_name'', ''seed'', ''global_step'']),
     (''train_group_metrics'', [''profile_name'', ''seed'', ''global_step'', ''group_id'']),
     (''support_metrics'', [''profile_name'', ''seed'', ''global_step'', ''group_id'', ''trajectory_id'', ''trajectory_class'']),
     (''support_benchmark_metrics'', [''profile_name'', ''seed'', ''global_step'']),
     (''probe_metrics'', [''profile_name'', ''seed'', ''checkpoint_step'', ''probe_batch_id'', ''trajectory_group'', ''latent_position_group'']),
     (''probe_benchmark_metrics'', [''profile_name'', ''seed'', ''checkpoint_step'', ''probe_batch_id'']),
     (''gumbel_diagnostics'', [''profile_name'', ''seed'', ''diagnostic_run_id'', ''diagnostic_batch_index''])]"

text \<open>\<open>json.dumps(sort_keys=True)\<close> identifies values up to the order of dict keys.\<close>

fun canonical :: "pyval \<Rightarrow> pyval" where
  "canonical (VList xs) = VList (map canonical xs)"
| "canonical (VDict d) = VDict (sort_key fst (map (\<lambda>kv. (fst kv, canonical (snd kv))) d))"
| "canonical v = v"

definition same_schema :: "pydict \<Rightarrow> pydict \<Rightarrow> bool" where
  "same_schema a b = (canonical (VDict a) = canonical (VDict b))"

definition field_specs :: "pydict \<Rightarrow> pydict list result" where
  "field_specs schema =
     (case (if has_key schema ''fields'' then dget schema ''fields'' else VList []) of
        VList fs \<Rightarrow> Inr (map (\<lambda>f. case f of VDict d \<Rightarrow> d | v \<Rightarrow> [(''name'', v), (''nullable'', VBool True)]) fs)
      | _ \<Rightarrow> Inl (SchemaMismatchError ''schema fields must be a list''))"

definition field_matches :: "pydict \<Rightarrow> pyval \<Rightarrow> bool" where
  "field_matches expected_field actual_field =
     (case actual_field of
        VDict a \<Rightarrow> dget a ''name'' = dget expected_field ''name'' \<and>
          list_all (\<lambda>p. has_key expected_field p \<longrightarrow> dget a p = dget expected_field p) [''physical_type'', ''nullable'']
      | _ \<Rightarrow> False)"

definition schema_matches :: "pydict \<Rightarrow> pyval \<Rightarrow> bool result" where
  "schema_matches expected actual =
     (case actual of
        VDict a \<Rightarrow>
          if has_key a ''version'' then Inr (same_schema a expected)
          else (case dget a ''fields'' of
                  VList actual_fields \<Rightarrow>
                    bind_r (field_specs expected) (\<lambda>expected_fields.
                      Inr (length expected_fields = length actual_fields \<and>
                           list_all (\<lambda>(e, f). field_matches e f) (zip expected_fields actual_fields)))
                | _ \<Rightarrow> Inr False)
      | _ \<Rightarrow> Inr False)"

definition list_type_item :: "string \<Rightarrow> string option" where
  "list_type_item t =
     (if take 5 t = ''list<'' \<and> t \<noteq> [] \<and> last t = CHR ''>'' then Some (butlast (drop 5 t)) else None)"

function value_matches :: "pyval \<Rightarrow> string \<Rightarrow> bool" where
  "value_matches v t =
     (if t = ''string'' then (case v of VStr _ \<Rightarrow> True | _ \<Rightarrow> False)
      else if t = ''bool'' then (case v of VBool _ \<Rightarrow> True | _ \<Rightarrow> False)
      else if t \<in> {''int64'', ''int32''} then is_int v
      else if t \<in> {''float64'', ''float32''} then (case v of VInt _ \<Rightarrow> True | VFloat _ \<Rightarrow> True | _ \<Rightarrow> False)
      else case (list_type_item t, v) of
        (Some item, VList xs) \<Rightarrow> (\<forall>x\<in>set xs. value_matches x item)
      | _ \<Rightarrow> False)"
  by pat_completeness auto
termination
  by (relation "measure (size \<circ> fst)") (auto simp: size_list_estimation' less_Suc_eq_le)

definition optional_get :: "pydict \<Rightarrow> string \<Rightarrow> pyval \<Rightarrow> pyval" where
  "optional_get d k dflt = (if has_key d k then dget d k else dflt)"

definition validate_field :: "pydict \<Rightarrow> pydict \<Rightarrow> unit result" where
  "validate_field row field =
     (let name = (case dget field ''name'' of VStr n \<Rightarrow> n | _ \<Rightarrow> []); v = dget row name in
      if v = VNone then
        check_r (truthy (optional_get field ''nullable'' (VBool True)))
          (SchemaMismatchError (''non-nullable field is null: '' @ name))
      else case optional_get field ''physical_type'' (dget field ''logical_type'') of
          VNone \<Rightarrow> Inr ()
        | VStr t \<Rightarrow> check_r (value_matches v t) (SchemaMismatchError (''type mismatch for '' @ name))
        | _ \<Rightarrow> Inl TypeError)"

definition validate_row :: "pydict list \<Rightarrow> pydict \<Rightarrow> unit result" where
  "validate_row fields row =
     bind_r (check_r (set (map (VStr \<circ> fst) row) = set (map (\<lambda>f. dget f ''name'') fields))
              (SchemaMismatchError ''schema columns mismatch'')) (\<lambda>_.
     bind_r (map_r (validate_field row) fields) (\<lambda>_. Inr ()))"

definition validate_rows_against_schema :: "pydict list \<Rightarrow> pydict list \<Rightarrow> unit result" where
  "validate_rows_against_schema rows fields =
     (if list_ex (\<lambda>f. \<not> has_key f ''name'') fields then Inl KeyError
      else bind_r (map_r (validate_row fields) rows) (\<lambda>_. Inr ()))"

section \<open>Primary keys\<close>

text \<open>
  A key is a tuple of column values.  Python compares numbers by value across types, so a bool
  and an integral float are normalised to the int they equal.
\<close>

fun key_norm :: "pyval \<Rightarrow> pyval" where
  "key_norm (VBool b) = VInt (if b then 1 else 0)"
| "key_norm (VFloat (Fin x)) = (if x = real_of_int \<lfloor>x\<rfloor> then VInt \<lfloor>x\<rfloor> else VFloat (Fin x))"
| "key_norm v = v"

type_synonym row_key = "pyval list"

definition key_of :: "string list \<Rightarrow> pydict \<Rightarrow> row_key result" where
  "key_of primary_key row =
     (if list_ex (\<lambda>n. \<not> has_key row n) primary_key
      then Inl (DuplicatePrimaryKeyError ''missing primary-key fields'')
      else Inr (map (\<lambda>n. key_norm (dget row n)) primary_key))"

fun val_less :: "pyval \<Rightarrow> pyval \<Rightarrow> bool result" where
  "val_less (VStr a) (VStr b) = Inr (a < b)"
| "val_less a b = (case (to_float a, to_float b) of
     (Some x, Some y) \<Rightarrow> Inr (fl_less x y) | _ \<Rightarrow> Inl TypeError)"

fun key_less :: "row_key \<Rightarrow> row_key \<Rightarrow> bool result" where
  "key_less [] ys = Inr (ys \<noteq> [])"
| "key_less (x # xs) [] = Inr False"
| "key_less (x # xs) (y # ys) = (if x = y then key_less xs ys else val_less x y)"

fun min_key_loop :: "row_key \<Rightarrow> row_key list \<Rightarrow> row_key result" where
  "min_key_loop m [] = Inr m"
| "min_key_loop m (k # ks) = bind_r (key_less k m) (\<lambda>b. min_key_loop (if b then k else m) ks)"

fun max_key_loop :: "row_key \<Rightarrow> row_key list \<Rightarrow> row_key result" where
  "max_key_loop m [] = Inr m"
| "max_key_loop m (k # ks) = bind_r (key_less m k) (\<lambda>b. max_key_loop (if b then k else m) ks)"

section \<open>The directory, the backend and the writer\<close>

type_synonym part_name = "nat \<times> nat"

record part_meta =
  pm_file :: part_name
  pm_part_number :: nat
  pm_rows :: nat
  pm_min_key :: "row_key option"
  pm_max_key :: "row_key option"

record manifest =
  mf_table_name :: string
  mf_schema :: pydict
  mf_primary_key :: "string list"
  mf_parts :: "part_meta list"

record writer_checkpoint =
  wc_table_name :: string
  wc_last_part_number :: int
  wc_committed_part_count :: nat
  wc_primary_key :: "string list"

record 'f table_fs =
  fs_schema :: "pydict option"
  fs_manifest :: "manifest option"
  fs_checkpoint :: "writer_checkpoint option"
  fs_parts :: "(part_name \<times> 'f) list"
  fs_quarantine :: "(string \<times> part_name \<times> 'f) list"
  fs_locked :: bool

record 'f backend =
  be_write :: "pydict list \<Rightarrow> pydict \<Rightarrow> 'f result"
  be_read :: "'f \<Rightarrow> (pydict list \<times> pyval) result"

record writer =
  wr_table_name :: string
  wr_schema :: pydict
  wr_primary_key :: "string list"
  wr_fsync :: bool
  wr_resume_checkpoint_step :: "int option"
  wr_manifest :: manifest
  wr_keys :: "row_key set"

datatype io_step = IoWrite | IoFsyncPart | IoRead | IoReplace | IoFsyncDir | IoManifest | IoCheckpoint

definition part_metadata :: "string list \<Rightarrow> part_name \<Rightarrow> pydict list \<Rightarrow> part_meta result" where
  "part_metadata primary_key name rows =
     bind_r (map_r (key_of primary_key) rows) (\<lambda>ks.
       (case ks of
          [] \<Rightarrow> Inr \<lparr>pm_file = name, pm_part_number = fst name, pm_rows = length rows, pm_min_key = None, pm_max_key = None\<rparr>
        | k # ks' \<Rightarrow> bind_r (min_key_loop k ks') (\<lambda>mn. bind_r (max_key_loop k ks') (\<lambda>mx.
            Inr \<lparr>pm_file = name, pm_part_number = fst name, pm_rows = length rows,
                 pm_min_key = Some mn, pm_max_key = Some mx\<rparr>))))"

section \<open>Opening a table\<close>

definition row_step :: "pydict \<Rightarrow> int option" where
  "row_step row =
     (case optional_get row ''checkpoint_step'' (dget row ''global_step'') of
        VInt i \<Rightarrow> Some i | VBool b \<Rightarrow> Some (if b then 1 else 0) | _ \<Rightarrow> None)"

definition has_future_row :: "int option \<Rightarrow> pydict list \<Rightarrow> bool" where
  "has_future_row resume rows =
     (case resume of None \<Rightarrow> False
      | Some r \<Rightarrow> list_ex (\<lambda>row. case row_step row of None \<Rightarrow> False | Some s \<Rightarrow> r < s) rows)"

datatype part_verdict = Keep part_meta | Future | Unreadable

text \<open>What the scan decides for one part: any exception means unreadable.\<close>

definition judge_part :: "'f backend \<Rightarrow> pydict \<Rightarrow> string list \<Rightarrow> int option \<Rightarrow> part_name \<times> 'f \<Rightarrow> part_verdict" where
  "judge_part be schema primary_key resume part =
     (case be_read be (snd part) of
        Inl _ \<Rightarrow> Unreadable
      | Inr (rows, read_schema) \<Rightarrow>
          if has_future_row resume rows then Future
          else case bind_r (field_specs schema) (\<lambda>fields.
                    bind_r (validate_rows_against_schema rows fields) (\<lambda>_.
                    bind_r (schema_matches schema read_schema) (\<lambda>ok.
                    bind_r (check_r ok (SchemaMismatchError ''readback schema does not match table schema'')) (\<lambda>_.
                      part_metadata primary_key (fst part) rows)))) of
                 Inl _ \<Rightarrow> Unreadable
               | Inr m \<Rightarrow> Keep m)"

fun scan_parts :: "'f backend \<Rightarrow> pydict \<Rightarrow> string list \<Rightarrow> int option \<Rightarrow> (part_name \<times> 'f) list \<Rightarrow>
    part_meta list \<times> (part_name \<times> 'f) list \<times> (string \<times> part_name \<times> 'f) list" where
  "scan_parts be schema pk resume [] = ([], [], [])"
| "scan_parts be schema pk resume (p # ps) =
     (let (metas, kept, quar) = scan_parts be schema pk resume ps in
      case judge_part be schema pk resume p of
        Keep m \<Rightarrow> (m # metas, p # kept, quar)
      | Future \<Rightarrow> (metas, kept, (''future-step-'', p) # quar)
      | Unreadable \<Rightarrow> (metas, kept, (''unreadable-'', p) # quar))"

definition load_or_rebuild_manifest ::
  "'f backend \<Rightarrow> string \<Rightarrow> pydict \<Rightarrow> string list \<Rightarrow> int option \<Rightarrow> 'f table_fs \<Rightarrow> manifest result \<times> 'f table_fs" where
  "load_or_rebuild_manifest be table_name schema pk resume fs =
     (if (case fs_manifest fs of None \<Rightarrow> False | Some m \<Rightarrow> \<not> same_schema (mf_schema m) schema)
      then (Inl (SchemaMismatchError ''manifest schema mismatch''), fs)
      else
        let (metas, kept, quar) = scan_parts be schema pk resume (sort_key (fst \<circ> fst) (fs_parts fs));
            m = \<lparr>mf_table_name = table_name, mf_schema = schema, mf_primary_key = pk, mf_parts = metas\<rparr>
        in (Inr m, fs\<lparr>fs_parts := kept, fs_quarantine := fs_quarantine fs @ quar, fs_manifest := Some m\<rparr>))"

text \<open>Reading a part of the manifest again, from the directory.\<close>

definition read_part :: "'f backend \<Rightarrow> 'f table_fs \<Rightarrow> part_meta \<Rightarrow> pydict list result" where
  "read_part be fs m =
     (case map_of (fs_parts fs) (pm_file m) of
        None \<Rightarrow> Inl OSError
      | Some f \<Rightarrow> bind_r (be_read be f) (\<lambda>(rows, _). Inr rows))"

fun collect_keys :: "string list \<Rightarrow> row_key set \<Rightarrow> pydict list \<Rightarrow> row_key set result" where
  "collect_keys pk ks [] = Inr ks"
| "collect_keys pk ks (row # rows) =
     bind_r (key_of pk row) (\<lambda>k.
       if k \<in> ks then Inl (DuplicatePrimaryKeyError ''duplicate primary key in committed parts'')
       else collect_keys pk (insert k ks) rows)"

fun committed_keys_loop :: "'f backend \<Rightarrow> 'f table_fs \<Rightarrow> string list \<Rightarrow> row_key set \<Rightarrow> part_meta list \<Rightarrow> row_key set result" where
  "committed_keys_loop be fs pk ks [] = Inr ks"
| "committed_keys_loop be fs pk ks (m # ms) =
     bind_r (read_part be fs m) (\<lambda>rows.
     bind_r (collect_keys pk ks rows) (\<lambda>ks'. committed_keys_loop be fs pk ks' ms))"

definition committed_keys :: "'f backend \<Rightarrow> 'f table_fs \<Rightarrow> manifest \<Rightarrow> row_key set result" where
  "committed_keys be fs m = committed_keys_loop be fs (mf_primary_key m) {} (mf_parts m)"

definition open_writer ::
  "'f backend \<Rightarrow> string \<Rightarrow> pydict \<Rightarrow> string list option \<Rightarrow> int \<Rightarrow> bool \<Rightarrow> int option \<Rightarrow> 'f table_fs \<Rightarrow> writer result \<times> 'f table_fs" where
  "open_writer be table_name schema primary_key writer_rank fsync resume fs =
     (if writer_rank \<noteq> 0
      then (Inl (WriterAuthorityError ''only driver/rank 0 may create a metrics writer''), fs)
      else if fs_locked fs
      then (Inl (WriterAuthorityError ''writer lock already held''), fs)
      else if (case fs_schema fs of None \<Rightarrow> False | Some s \<Rightarrow> \<not> same_schema s schema)
      then (Inl (SchemaMismatchError ''schema mismatch''), fs)
      else
       let pk = (case primary_key of
              Some (k # ks) \<Rightarrow> k # ks
            | _ \<Rightarrow> (case map_of primary_keys table_name of
                      Some ks \<Rightarrow> ks | None \<Rightarrow> [''profile_name'', ''seed'', ''global_step'']));
           fs1 = fs\<lparr>fs_schema := Some (case fs_schema fs of None \<Rightarrow> schema | Some s \<Rightarrow> s)\<rparr>
       in case load_or_rebuild_manifest be table_name schema pk resume fs1 of
            (Inl e, fs2) \<Rightarrow> (Inl e, fs2)
          | (Inr m, fs2) \<Rightarrow>
              (case committed_keys be fs2 m of
                 Inl e \<Rightarrow> (Inl e, fs2)
               | Inr ks \<Rightarrow>
                   (Inr \<lparr>wr_table_name = table_name, wr_schema = schema, wr_primary_key = pk, wr_fsync = fsync,
                         wr_resume_checkpoint_step = resume, wr_manifest = m, wr_keys = ks\<rparr>,
                    fs2\<lparr>fs_locked := True\<rparr>)))"

definition close_writer :: "'f table_fs \<Rightarrow> 'f table_fs" where
  "close_writer fs = fs\<lparr>fs_locked := False\<rparr>"

section \<open>Appending a part\<close>

text \<open>The \<open>try\<close> block of \<open>append\<close>: validate, write the temporary, read it back, publish it.\<close>

definition publish ::
  "'f backend \<Rightarrow> (io_step \<Rightarrow> bool) \<Rightarrow> part_name \<Rightarrow> writer \<Rightarrow> pydict list \<Rightarrow> row_key list \<Rightarrow> 'f table_fs \<Rightarrow> unit result \<times> 'f table_fs" where
  "publish be fails final_name w rows batch_keys fs =
     (case bind_r (field_specs (wr_schema w)) (\<lambda>fields.
           bind_r (validate_rows_against_schema rows fields) (\<lambda>_.
           bind_r (if fails IoWrite then Inl OSError else be_write be rows (wr_schema w)) (\<lambda>content.
           bind_r (check_r (\<not> (wr_fsync w \<and> fails IoFsyncPart)) OSError) (\<lambda>_.
           bind_r (if fails IoRead then Inl OSError else be_read be content) (\<lambda>(read_rows, read_schema).
           bind_r (schema_matches (wr_schema w) read_schema) (\<lambda>ok.
           bind_r (check_r ok (SchemaMismatchError ''part readback schema mismatch'')) (\<lambda>_.
           bind_r (check_r (length read_rows = length rows) (StorageError ''part readback row count mismatch'')) (\<lambda>_.
           bind_r (map_r (key_of (wr_primary_key w)) read_rows) (\<lambda>read_keys.
           bind_r (check_r (set read_keys = set batch_keys) (StorageError ''part readback primary keys mismatch'')) (\<lambda>_.
           bind_r (check_r (\<not> fails IoReplace) OSError) (\<lambda>_. Inr content))))))))))) of
        Inl e \<Rightarrow> (Inl e, fs)
      | Inr content \<Rightarrow>
          (if wr_fsync w \<and> fails IoFsyncDir then Inl OSError else Inr (),
           fs\<lparr>fs_parts := fs_parts fs @ [(final_name, content)]\<rparr>))"

definition next_part_number :: "part_meta list \<Rightarrow> nat" where
  "next_part_number parts = (if parts = [] then 0 else Max (set (map pm_part_number parts)) + 1)"

definition writer_checkpoint_of :: "writer \<Rightarrow> writer_checkpoint" where
  "writer_checkpoint_of w =
     (let parts = mf_parts (wr_manifest w) in
      \<lparr>wc_table_name = wr_table_name w,
       wc_last_part_number = (if parts = [] then - 1 else int (Max (set (map pm_part_number parts)))),
       wc_committed_part_count = length parts, wc_primary_key = wr_primary_key w\<rparr>)"

definition append_part ::
  "'f backend \<Rightarrow> (io_step \<Rightarrow> bool) \<Rightarrow> nat \<Rightarrow> writer \<Rightarrow> 'f table_fs \<Rightarrow> pydict list \<Rightarrow> part_name result \<times> writer \<times> 'f table_fs" where
  "append_part be fails uuid w fs rows =
     (if rows = [] then (Inl (StorageError ''cannot commit an empty Parquet part''), w, fs)
      else case map_r (key_of (wr_primary_key w)) rows of
        Inl e \<Rightarrow> (Inl e, w, fs)
      | Inr batch_keys \<Rightarrow>
        if \<not> distinct batch_keys
        then (Inl (DuplicatePrimaryKeyError ''duplicate primary key within pending batch''), w, fs)
        else if list_ex (\<lambda>k. k \<in> wr_keys w) batch_keys
        then (Inl (DuplicatePrimaryKeyError ''duplicate primary key against committed part''), w, fs)
        else
          let final_name = (next_part_number (mf_parts (wr_manifest w)), uuid) in
          case publish be fails final_name w rows batch_keys fs of
            (Inl e, fs1) \<Rightarrow> (Inl e, w, fs1)
          | (Inr _, fs1) \<Rightarrow>
            (case part_metadata (wr_primary_key w) final_name rows of
               Inl e \<Rightarrow> (Inl e, w, fs1)
             | Inr meta \<Rightarrow>
                 let m' = (wr_manifest w)\<lparr>mf_parts := mf_parts (wr_manifest w) @ [meta]\<rparr>;
                     w1 = w\<lparr>wr_manifest := m'\<rparr>
                 in if fails IoManifest then (Inl OSError, w1, fs1)
                    else
                      let fs2 = fs1\<lparr>fs_manifest := Some m'\<rparr>;
                          w2 = w1\<lparr>wr_keys := wr_keys w1 \<union> set batch_keys\<rparr>
                      in if fails IoCheckpoint then (Inl OSError, w2, fs2)
                         else (Inr final_name, w2, fs2\<lparr>fs_checkpoint := Some (writer_checkpoint_of w2)\<rparr>)))"

section \<open>checkpointing.py\<close>

text \<open>The sidecar fields that the resume checks read; an absent field is \<open>VNone\<close>.\<close>

definition build_checkpoint_sidecar :: "int \<Rightarrow> int \<Rightarrow> string \<Rightarrow> string \<Rightarrow> string \<Rightarrow> pydict option \<Rightarrow> pydict" where
  "build_checkpoint_sidecar global_step optimizer_step config_hash schema_version upstream_commit writer_manifests =
     [(''sidecar_version'', VStr ''checkpoint_sidecar_v1''), (''global_step'', VInt global_step),
      (''optimizer_step'', VInt optimizer_step), (''config_hash'', VStr config_hash),
      (''metrics_schema_version'', VStr schema_version), (''upstream_commit'', VStr upstream_commit),
      (''writer_manifests'', VDict (case writer_manifests of None \<Rightarrow> [] | Some d \<Rightarrow> d)),
      (''resume_context'', VDict [(''is_resume_run'', VBool True), (''resume_from_step'', VInt global_step)])]"

text \<open>\<open>isinstance(v, int)\<close> with its value; a bool is an int.\<close>

definition as_int :: "pyval \<Rightarrow> int option" where
  "as_int v = (case v of VInt i \<Rightarrow> Some i | VBool b \<Rightarrow> Some (if b then 1 else 0) | _ \<Rightarrow> None)"

definition validate_resume :: "pydict \<Rightarrow> string \<Rightarrow> string \<Rightarrow> (string \<times> int) list \<Rightarrow> unit result" where
  "validate_resume sidecar config_hash schema_version committed_steps =
     (if dget sidecar ''config_hash'' \<noteq> VStr config_hash
      then Inl (CheckpointCompatibilityError ''resume config hash mismatch'')
      else if dget sidecar ''metrics_schema_version'' \<noteq> VStr schema_version
      then Inl (CheckpointCompatibilityError ''resume metrics schema version mismatch'')
      else case as_int (dget sidecar ''global_step'') of
        None \<Rightarrow> Inl (CheckpointCompatibilityError ''resume checkpoint is missing integer global_step'')
      | Some s \<Rightarrow> check_r (list_all (\<lambda>(t, step). step \<le> s) committed_steps)
                   (CheckpointCompatibilityError ''future committed records require quarantine''))"

definition quarantine_future_part ::
  "part_name \<Rightarrow> string \<Rightarrow> 'f table_fs \<Rightarrow> (string \<times> part_name) result \<times> 'f table_fs" where
  "quarantine_future_part source reason fs =
     (if (reason @ ''-'', source) \<in> set (map (\<lambda>(r, p). (r, fst p)) (fs_quarantine fs))
      then (Inl (CheckpointCompatibilityError ''quarantine collision''), fs)
      else case map_of (fs_parts fs) source of
        None \<Rightarrow> (Inl OSError, fs)
      | Some f \<Rightarrow> (Inr (reason @ ''-'', source),
                  fs\<lparr>fs_parts := filter (\<lambda>p. fst p \<noteq> source) (fs_parts fs),
                     fs_quarantine := fs_quarantine fs @ [(reason @ ''-'', source, f)]\<rparr>))"

text \<open>
  \<open>resume_metric_writers_from_sidecar\<close>: the tables of a run are a map from names to
  directories; on the first failure the writers opened so far are closed.
\<close>

fun open_tables ::
  "'f backend \<Rightarrow> pydict \<Rightarrow> int \<Rightarrow> (string \<times> pydict) list \<Rightarrow> (string \<Rightarrow> 'f table_fs) \<Rightarrow>
   (string \<times> writer) list result \<times> (string \<Rightarrow> 'f table_fs)" where
  "open_tables be requested s [] tables = (Inr [], tables)"
| "open_tables be requested s ((name, schema) # rest) tables =
     (if \<not> has_key requested name
      then (Inl (CheckpointCompatibilityError (''resume sidecar missing writer manifest: '' @ name)), tables)
      else case open_writer be name schema None 0 True (Some s) (tables name) of
        (Inl e, fs) \<Rightarrow> (Inl e, tables(name := fs))
      | (Inr w, fs) \<Rightarrow>
          (case open_tables be requested s rest (tables(name := fs)) of
             (Inl e, tables') \<Rightarrow> (Inl e, tables'(name := close_writer (tables' name)))
           | (Inr ws, tables') \<Rightarrow> (Inr ((name, w) # ws), tables')))"

definition resume_metric_writers_from_sidecar ::
  "'f backend \<Rightarrow> pydict \<Rightarrow> (string \<times> pydict) list \<Rightarrow> (string \<Rightarrow> 'f table_fs) \<Rightarrow>
   (string \<times> writer) list result \<times> (string \<Rightarrow> 'f table_fs)" where
  "resume_metric_writers_from_sidecar be sidecar table_schemas tables =
     (case as_int (dget sidecar ''global_step'') of
        None \<Rightarrow> (Inl (CheckpointCompatibilityError ''resume sidecar missing integer global_step''), tables)
      | Some s \<Rightarrow>
          if dget sidecar ''metrics_schema_version'' \<noteq> VStr ''metrics_schema_v1''
          then (Inl (CheckpointCompatibilityError ''resume sidecar metrics schema version mismatch''), tables)
          else (case (if has_key sidecar ''writer_manifests'' then dget sidecar ''writer_manifests'' else VDict []) of
                  VDict requested \<Rightarrow> open_tables be requested s table_schemas tables
                | _ \<Rightarrow> (Inl (CheckpointCompatibilityError ''resume sidecar writer_manifests must be an object''), tables)))"

end
