(* ===== verification/StorageOk.thy ===== *)
theory StorageOk
  imports Storage
begin

text \<open>
  The invariant of an open table and its preservation: what opening establishes, what an append
  does on every branch, what a restart after a failed append recovers, and the retry that
  breaks primary-key uniqueness.
\<close>

section \<open>Keys of a part\<close>

definition part_keys :: "'f backend \<Rightarrow> string list \<Rightarrow> 'f \<Rightarrow> row_key list result" where
  "part_keys be pk f = bind_r (be_read be f) (\<lambda>(rows, _). map_r (key_of pk) rows)"

definition keys_in :: "'f backend \<Rightarrow> string list \<Rightarrow> 'f \<Rightarrow> row_key list" where
  "keys_in be pk f = (case part_keys be pk f of Inr ks \<Rightarrow> ks | Inl _ \<Rightarrow> [])"

definition disk_keys :: "'f backend \<Rightarrow> string list \<Rightarrow> (part_name \<times> 'f) list \<Rightarrow> row_key list" where
  "disk_keys be pk parts = concat (map (keys_in be pk \<circ> snd) parts)"

definition valid_part :: "'f backend \<Rightarrow> pydict \<Rightarrow> string list \<Rightarrow> int option \<Rightarrow> part_name \<times> 'f \<Rightarrow> bool" where
  "valid_part be schema pk resume p = (\<exists>m. judge_part be schema pk resume p = Keep m)"

lemma disk_keys_append [simp]: "disk_keys be pk (xs @ ys) = disk_keys be pk xs @ disk_keys be pk ys"
  by (simp add: disk_keys_def)

lemma disk_keys_Cons [simp]: "disk_keys be pk (p # ps) = keys_in be pk (snd p) @ disk_keys be pk ps"
  by (simp add: disk_keys_def)

lemma disk_keys_Nil [simp]: "disk_keys be pk [] = []"
  by (simp add: disk_keys_def)

lemma disk_keys_perm: "mset xs = mset ys \<Longrightarrow> mset (disk_keys be pk xs) = mset (disk_keys be pk ys)"
proof -
  have m: "mset (disk_keys be pk zs) = sum_mset (image_mset (\<lambda>p. mset (keys_in be pk (snd p))) (mset zs))" for zs
    by (induction zs) auto
  assume "mset xs = mset ys"
  then show ?thesis
    by (simp add: m)
qed

lemma part_metadata_keys:
  "part_metadata pk n rows = Inr m \<Longrightarrow> \<exists>ks. map_r (key_of pk) rows = Inr ks \<and> pm_file m = n \<and> pm_part_number m = fst n"
  by (cases "map_r (key_of pk) rows") (auto simp: part_metadata_def bind_r_Inr_iff split: list.split_asm)

lemma judge_Keep:
  assumes "judge_part be schema pk resume p = Keep m"
  shows "pm_file m = fst p \<and> pm_part_number m = fst (fst p) \<and>
    (\<exists>rows s ks. be_read be (snd p) = Inr (rows, s) \<and> map_r (key_of pk) rows = Inr ks \<and> keys_in be pk (snd p) = ks)"
proof -
  obtain rows s where r: "be_read be (snd p) = Inr (rows, s)"
    using assms by (auto simp: judge_part_def split: sum.splits)
  have "part_metadata pk (fst p) rows = Inr m"
    using assms r by (auto simp: judge_part_def bind_r_Inr_iff split: if_splits sum.splits)
  with r part_metadata_keys show ?thesis
    by (fastforce simp: keys_in_def part_keys_def)
qed

lemma valid_part_None: "valid_part be schema pk resume p \<Longrightarrow> valid_part be schema pk None p"
  by (auto simp: valid_part_def judge_part_def has_future_row_def split: sum.splits if_splits option.splits)

section \<open>Scanning\<close>

lemma scan_parts_ok:
  "scan_parts be schema pk resume ps = (metas, kept, quar) \<Longrightarrow>
   list_all2 (\<lambda>m p. judge_part be schema pk resume p = Keep m) metas kept \<and>
   kept = filter (valid_part be schema pk resume) ps \<and>
   mset ps = mset kept + mset (map snd quar)"
proof (induction ps arbitrary: metas kept quar)
  case Nil
  then show ?case by simp
next
  case (Cons p ps)
  obtain m0 k0 q0 where s: "scan_parts be schema pk resume ps = (m0, k0, q0)"
    by (cases "scan_parts be schema pk resume ps")
  have IH: "list_all2 (\<lambda>m p. judge_part be schema pk resume p = Keep m) m0 k0"
      "k0 = filter (valid_part be schema pk resume) ps" "mset ps = mset k0 + mset (map snd q0)"
    using Cons.IH [OF s] by (blast, blast, blast)
  show ?case
  proof (cases "judge_part be schema pk resume p")
    case (Keep m)
    then have "metas = m # m0" "kept = p # k0" "quar = q0" "valid_part be schema pk resume p"
      using Cons.prems s by (simp_all add: valid_part_def)
    then show ?thesis
      using IH(1) Keep by (intro conjI) (simp, simp add: IH(2), simp add: IH(3))
  next
    case Future
    then have "metas = m0" "kept = k0" "quar = (''future-step-'', p) # q0" "\<not> valid_part be schema pk resume p"
      using Cons.prems s by (simp_all add: valid_part_def)
    then show ?thesis
      using IH(1) by (intro conjI) (simp, simp add: IH(2), simp add: IH(3))
  next
    case Unreadable
    then have "metas = m0" "kept = k0" "quar = (''unreadable-'', p) # q0" "\<not> valid_part be schema pk resume p"
      using Cons.prems s by (simp_all add: valid_part_def)
    then show ?thesis
      using IH(1) by (intro conjI) (simp, simp add: IH(2), simp add: IH(3))
  qed
qed

lemma collect_keys_iff:
  assumes "map_r (key_of pk) rows = Inr ks"
  shows "collect_keys pk K rows =
    (if distinct ks \<and> set ks \<inter> K = {} then Inr (K \<union> set ks)
     else Inl (DuplicatePrimaryKeyError ''duplicate primary key in committed parts''))"
  using assms
proof (induction rows arbitrary: ks K)
  case Nil
  then show ?case by simp
next
  case (Cons row rows)
  then obtain k ks' where k: "key_of pk row = Inr k" "map_r (key_of pk) rows = Inr ks'" "ks = k # ks'"
    by (auto simp: bind_r_Inr_iff)
  show ?case
    using Cons.IH [OF k(2), of "insert k K"] k by auto
qed

lemma committed_loop_iff:
  assumes "list_all2 (\<lambda>m p. judge_part be schema pk resume p = Keep m) metas parts"
    and "\<forall>p\<in>set parts. map_of (fs_parts fs) (fst p) = Some (snd p)"
  shows "committed_keys_loop be fs pk K metas =
    (if distinct (disk_keys be pk parts) \<and> set (disk_keys be pk parts) \<inter> K = {}
     then Inr (K \<union> set (disk_keys be pk parts))
     else Inl (DuplicatePrimaryKeyError ''duplicate primary key in committed parts''))"
  using assms
proof (induction metas parts arbitrary: K rule: list_all2_induct)
  case Nil
  then show ?case by simp
next
  case (Cons m metas p parts)
  from judge_Keep [OF Cons.hyps(1)] obtain rows s ks where r: "pm_file m = fst p" "be_read be (snd p) = Inr (rows, s)"
      "map_r (key_of pk) rows = Inr ks" "keys_in be pk (snd p) = ks"
    by blast
  have read: "read_part be fs m = Inr rows"
    using Cons.prems r by (simp add: read_part_def)
  show ?case
    using Cons.IH [of "K \<union> set ks"] Cons.prems read collect_keys_iff [OF r(3), of K] r(4)
    by auto
qed

section \<open>The invariant of an open table\<close>

definition store_ok :: "'f backend \<Rightarrow> writer \<Rightarrow> 'f table_fs \<Rightarrow> bool" where
  "store_ok be w fs =
     (fs_manifest fs = Some (wr_manifest w) \<and>
      mf_primary_key (wr_manifest w) = wr_primary_key w \<and> mf_schema (wr_manifest w) = wr_schema w \<and>
      wr_primary_key w \<noteq> [] \<and> (\<exists>s. fs_schema fs = Some s \<and> same_schema s (wr_schema w)) \<and>
      distinct (map fst (fs_parts fs)) \<and>
      map pm_file (mf_parts (wr_manifest w)) = map fst (fs_parts fs) \<and>
      map pm_part_number (mf_parts (wr_manifest w)) = map (fst \<circ> fst) (fs_parts fs) \<and>
      (\<forall>p\<in>set (fs_parts fs). valid_part be (wr_schema w) (wr_primary_key w) None p) \<and>
      distinct (disk_keys be (wr_primary_key w) (fs_parts fs)) \<and>
      set (disk_keys be (wr_primary_key w) (fs_parts fs)) = wr_keys w)"

lemma metas_names:
  "list_all2 (\<lambda>m p. judge_part be schema pk resume p = Keep m) metas kept \<Longrightarrow>
   map pm_file metas = map fst kept \<and> map pm_part_number metas = map (fst \<circ> fst) kept"
proof (induction metas kept rule: list_all2_induct)
  case Nil
  then show ?case by simp
next
  case (Cons m metas p kept)
  then show ?case
    using judge_Keep [OF Cons.hyps(1)] by simp
qed

lemma default_pk_nonempty: "map_of primary_keys t = Some ks \<Longrightarrow> ks \<noteq> []"
  by (auto simp: primary_keys_def split: if_splits)

definition chosen_key :: "string \<Rightarrow> string list option \<Rightarrow> string list" where
  "chosen_key table_name primary_key =
     (case primary_key of
        Some (k # ks) \<Rightarrow> k # ks
      | _ \<Rightarrow> (case map_of primary_keys table_name of
                Some ks \<Rightarrow> ks | None \<Rightarrow> [''profile_name'', ''seed'', ''global_step'']))"

lemma chosen_key_nonempty: "chosen_key t pk \<noteq> []"
  using default_pk_nonempty by (auto simp: chosen_key_def split: option.splits list.splits)

text \<open>Opening, when the lock is free and the stored schemas agree, is decided by the keys on disk.\<close>

lemma open_writer_result:
  assumes lock: "writer_rank = 0" "\<not> fs_locked fs"
    and sch: "\<forall>s. fs_schema fs = Some s \<longrightarrow> same_schema s schema"
    and man: "\<forall>m. fs_manifest fs = Some m \<longrightarrow> same_schema (mf_schema m) schema"
    and names: "distinct (map fst (fs_parts fs))"
  shows "\<exists>fs' metas quar. let pk = chosen_key table primary_key;
        kept = filter (valid_part be schema pk resume) (sort_key (fst \<circ> fst) (fs_parts fs));
        m = \<lparr>mf_table_name = table, mf_schema = schema, mf_primary_key = pk, mf_parts = metas\<rparr>
      in list_all2 (\<lambda>m p. judge_part be schema pk resume p = Keep m) metas kept \<and>
        mset (fs_parts fs) = mset kept + mset (map snd quar) \<and>
        fs' = fs\<lparr>fs_schema := Some (case fs_schema fs of None \<Rightarrow> schema | Some s \<Rightarrow> s),
                 fs_parts := kept, fs_quarantine := fs_quarantine fs @ quar, fs_manifest := Some m\<rparr> \<and>
        open_writer be table schema primary_key writer_rank fsync resume fs =
          (if distinct (disk_keys be pk kept)
           then (Inr \<lparr>wr_table_name = table, wr_schema = schema, wr_primary_key = pk, wr_fsync = fsync,
                   wr_resume_checkpoint_step = resume, wr_manifest = m, wr_keys = set (disk_keys be pk kept)\<rparr>,
                 fs'\<lparr>fs_locked := True\<rparr>)
           else (Inl (DuplicatePrimaryKeyError ''duplicate primary key in committed parts''), fs'))"
proof -
  define pk where "pk = chosen_key table primary_key"
  obtain metas kept quar where scan: "scan_parts be schema pk resume (sort_key (fst \<circ> fst) (fs_parts fs)) = (metas, kept, quar)"
    by (cases "scan_parts be schema pk resume (sort_key (fst \<circ> fst) (fs_parts fs))")
  have ok: "list_all2 (\<lambda>m p. judge_part be schema pk resume p = Keep m) metas kept"
      and keep: "kept = filter (valid_part be schema pk resume) (sort_key (fst \<circ> fst) (fs_parts fs))"
      and ms: "mset (fs_parts fs) = mset kept + mset (map snd quar)"
    using scan_parts_ok [OF scan] by (blast, blast, metis mset_sort)
  define fs1 where "fs1 = fs\<lparr>fs_schema := Some (case fs_schema fs of None \<Rightarrow> schema | Some s \<Rightarrow> s)\<rparr>"
  define m where "m = \<lparr>mf_table_name = table, mf_schema = schema, mf_primary_key = pk, mf_parts = metas\<rparr>"
  define fs2 where "fs2 = fs1\<lparr>fs_parts := kept, fs_quarantine := fs_quarantine fs1 @ quar, fs_manifest := Some m\<rparr>"
  have load: "load_or_rebuild_manifest be table schema pk resume fs1 = (Inr m, fs2)"
    using man scan by (auto simp: load_or_rebuild_manifest_def Let_def fs1_def fs2_def m_def split: option.splits)
  have "distinct (map fst (sort_key (fst \<circ> fst) (fs_parts fs)))"
    using names by (metis mset_map mset_sort mset_eq_imp_distinct_iff)
  then have "distinct (map fst kept)"
    unfolding keep by (rule distinct_map_filter)
  then have lookup: "\<forall>p\<in>set kept. map_of (fs_parts fs2) (fst p) = Some (snd p)"
    by (simp add: fs2_def)
  have ck: "committed_keys be fs2 m =
      (if distinct (disk_keys be pk kept) then Inr (set (disk_keys be pk kept))
       else Inl (DuplicatePrimaryKeyError ''duplicate primary key in committed parts''))"
    using committed_loop_iff [OF ok lookup, of "{}"] by (simp add: committed_keys_def m_def)
  have pk': "(case primary_key of Some (k # ks) \<Rightarrow> k # ks
      | _ \<Rightarrow> (case map_of primary_keys table of Some ks \<Rightarrow> ks | None \<Rightarrow> [''profile_name'', ''seed'', ''global_step''])) = pk"
    by (simp add: pk_def chosen_key_def)
  have ns: "\<not> (case fs_schema fs of None \<Rightarrow> False | Some s \<Rightarrow> \<not> same_schema s schema)"
    using sch by (auto split: option.splits)
  have opn: "open_writer be table schema primary_key writer_rank fsync resume fs =
          (if distinct (disk_keys be pk kept)
           then (Inr \<lparr>wr_table_name = table, wr_schema = schema, wr_primary_key = pk, wr_fsync = fsync,
                   wr_resume_checkpoint_step = resume, wr_manifest = m, wr_keys = set (disk_keys be pk kept)\<rparr>,
                 fs2\<lparr>fs_locked := True\<rparr>)
           else (Inl (DuplicatePrimaryKeyError ''duplicate primary key in committed parts''), fs2))"
    unfolding open_writer_def Let_def pk' fs1_def [symmetric] load using lock ns ck by simp
  have fs2': "fs2 = fs\<lparr>fs_schema := Some (case fs_schema fs of None \<Rightarrow> schema | Some s \<Rightarrow> s),
                 fs_parts := kept, fs_quarantine := fs_quarantine fs @ quar, fs_manifest := Some m\<rparr>"
    by (simp add: fs2_def fs1_def)
  show ?thesis
    unfolding Let_def pk_def [symmetric] keep [symmetric]
    using ok ms opn fs2' unfolding m_def by blast
qed

lemma same_schema_refl: "same_schema s s"
  by (simp add: same_schema_def)

lemma open_writer_guards:
  assumes "open_writer be table schema primary_key writer_rank fsync resume fs = (Inr w, fs')"
  shows "writer_rank = 0 \<and> \<not> fs_locked fs \<and> (\<forall>s. fs_schema fs = Some s \<longrightarrow> same_schema s schema) \<and>
     (\<forall>m. fs_manifest fs = Some m \<longrightarrow> same_schema (mf_schema m) schema)"
  using assms
  by (auto simp: open_writer_def load_or_rebuild_manifest_def Let_def split: if_splits prod.splits sum.splits option.splits)

lemma open_establishes:
  assumes opn: "open_writer be table schema primary_key writer_rank fsync resume fs = (Inr w, fs')"
    and names: "distinct (map fst (fs_parts fs))"
  shows "store_ok be w fs' \<and> fs_locked fs' \<and> \<not> fs_locked fs \<and> wr_schema w = schema \<and>
    (\<exists>quar. fs_quarantine fs' = fs_quarantine fs @ quar \<and> mset (fs_parts fs) = mset (fs_parts fs') + mset (map snd quar) \<and>
      (\<forall>p\<in>set (fs_parts fs'). valid_part be schema (wr_primary_key w) resume p) \<and>
      (\<forall>q\<in>set quar. \<not> valid_part be schema (wr_primary_key w) resume (snd q)))"
proof -
  note g = open_writer_guards [OF opn]
  define pk where "pk = chosen_key table primary_key"
  define kept where "kept = filter (valid_part be schema pk resume) (sort_key (fst \<circ> fst) (fs_parts fs))"
  obtain fs2 metas quar where r: "list_all2 (\<lambda>m p. judge_part be schema pk resume p = Keep m) metas kept"
      "mset (fs_parts fs) = mset kept + mset (map snd quar)"
      "fs2 = fs\<lparr>fs_schema := Some (case fs_schema fs of None \<Rightarrow> schema | Some s \<Rightarrow> s), fs_parts := kept,
           fs_quarantine := fs_quarantine fs @ quar,
           fs_manifest := Some \<lparr>mf_table_name = table, mf_schema = schema, mf_primary_key = pk, mf_parts = metas\<rparr>\<rparr>"
      "open_writer be table schema primary_key writer_rank fsync resume fs =
          (if distinct (disk_keys be pk kept)
           then (Inr \<lparr>wr_table_name = table, wr_schema = schema, wr_primary_key = pk, wr_fsync = fsync,
                   wr_resume_checkpoint_step = resume,
                   wr_manifest = \<lparr>mf_table_name = table, mf_schema = schema, mf_primary_key = pk, mf_parts = metas\<rparr>,
                   wr_keys = set (disk_keys be pk kept)\<rparr>, fs2\<lparr>fs_locked := True\<rparr>)
           else (Inl (DuplicatePrimaryKeyError ''duplicate primary key in committed parts''), fs2))"
    using open_writer_result [of writer_rank fs schema table primary_key be resume fsync] g names
    unfolding Let_def pk_def [symmetric] kept_def [symmetric] by blast
  have dk: "distinct (disk_keys be pk kept)"
    using opn r(4) by (auto split: if_splits)
  have w: "w = \<lparr>wr_table_name = table, wr_schema = schema, wr_primary_key = pk, wr_fsync = fsync,
                   wr_resume_checkpoint_step = resume,
                   wr_manifest = \<lparr>mf_table_name = table, mf_schema = schema, mf_primary_key = pk, mf_parts = metas\<rparr>,
                   wr_keys = set (disk_keys be pk kept)\<rparr>" and fs': "fs' = fs2\<lparr>fs_locked := True\<rparr>"
    using opn r(4) dk by auto
  have "distinct (map fst (sort_key (fst \<circ> fst) (fs_parts fs)))"
    using names by (metis mset_map mset_sort mset_eq_imp_distinct_iff)
  then have dn: "distinct (map fst kept)"
    by (simp add: kept_def distinct_map_filter)
  have v: "\<forall>p\<in>set kept. valid_part be schema pk resume p"
    by (simp add: kept_def)
  have ss: "\<exists>s. fs_schema fs' = Some s \<and> same_schema s schema"
    using g same_schema_refl by (auto simp: fs' r(3) split: option.splits)
  have v0: "\<forall>p\<in>set kept. valid_part be schema pk None p"
    using v valid_part_None by blast
  have "pk \<noteq> []"
    unfolding pk_def by (rule chosen_key_nonempty)
  then have st: "store_ok be w fs'"
    using ss dn v0 dk metas_names [OF r(1)] unfolding store_ok_def by (simp add: w fs' r(3))
  have q: "\<not> valid_part be schema pk resume (snd x)" if x: "x \<in> set quar" for x
  proof
    assume a: "valid_part be schema pk resume (snd x)"
    have "filter_mset (valid_part be schema pk resume) (mset (fs_parts fs)) = mset kept"
      unfolding kept_def by (metis mset_filter mset_sort)
    moreover have "filter_mset (valid_part be schema pk resume) (mset kept) = mset kept"
      using v by (metis filter_True mset_filter)
    ultimately have empty: "filter_mset (valid_part be schema pk resume) (mset (map snd quar)) = {#}"
      using r(2) by simp
    have "snd x \<in># filter_mset (valid_part be schema pk resume) (mset (map snd quar))"
      using a x by auto
    then show False
      unfolding empty by simp
  qed
  show ?thesis
    using st g r(2) v q by (auto simp: w fs' r(3))
qed

section \<open>Appending\<close>

text \<open>What the code relies on of the backend: reading back a written part gives its rows.\<close>

definition backend_faithful :: "'f backend \<Rightarrow> bool" where
  "backend_faithful be = (\<forall>rows schema f. be_write be rows schema = Inr f \<longrightarrow> (\<exists>s. be_read be f = Inr (rows, s)))"

definition published ::
  "'f backend \<Rightarrow> writer \<Rightarrow> pydict list \<Rightarrow> row_key list \<Rightarrow> 'f \<Rightarrow> bool" where
  "published be w rows ks content =
     (be_write be rows (wr_schema w) = Inr content \<and>
      (\<exists>fields. field_specs (wr_schema w) = Inr fields \<and> validate_rows_against_schema rows fields = Inr ()) \<and>
      (\<exists>read_rows sch read_keys. be_read be content = Inr (read_rows, sch) \<and> schema_matches (wr_schema w) sch = Inr True \<and>
         length read_rows = length rows \<and> map_r (key_of (wr_primary_key w)) read_rows = Inr read_keys \<and>
         set read_keys = set ks))"

lemma publish_cases:
  assumes "publish be fails name w rows ks fs = (r, fs1)"
  shows "(fs1 = fs \<and> (\<exists>e. r = Inl e)) \<or>
    (\<exists>content. fs1 = fs\<lparr>fs_parts := fs_parts fs @ [(name, content)]\<rparr> \<and> published be w rows ks content)"
  using assms
  by (auto simp: publish_def published_def bind_r_Inr_iff split: sum.splits if_splits)

lemma publish_no_faults:
  assumes "published be w rows ks content"
  shows "publish be (\<lambda>_. False) name w rows ks fs = (Inr (), fs\<lparr>fs_parts := fs_parts fs @ [(name, content)]\<rparr>)"
  using assms by (auto simp: publish_def published_def)

lemma published_keys:
  assumes "published be w rows ks content" and "length ks = length rows" and "distinct ks"
  shows "set (keys_in be (wr_primary_key w) content) = set ks \<and> distinct (keys_in be (wr_primary_key w) content)"
proof -
  obtain rr sch rk where r: "be_read be content = Inr (rr, sch)" "length rr = length rows"
      "map_r (key_of (wr_primary_key w)) rr = Inr rk" "set rk = set ks"
    using assms(1) by (auto simp: published_def)
  have "keys_in be (wr_primary_key w) content = rk"
    using r by (simp add: keys_in_def part_keys_def)
  moreover have "length rk = length ks"
    using r map_r_Inr_length assms(2) by fastforce
  then have "distinct rk"
    using r(4) assms(3) by (metis card_distinct distinct_card)
  ultimately show ?thesis
    using r(4) by simp
qed

text \<open>Every branch of an append: nothing happened, or the part is on disk and the bookkeeping got so far.\<close>

definition appended :: "writer \<Rightarrow> part_meta \<Rightarrow> row_key list \<Rightarrow> writer" where
  "appended w meta ks =
     w\<lparr>wr_manifest := (wr_manifest w)\<lparr>mf_parts := mf_parts (wr_manifest w) @ [meta]\<rparr>, wr_keys := wr_keys w \<union> set ks\<rparr>"

lemma append_cases:
  assumes "append_part be fails uuid w fs rows = (res, w', fs')"
  obtains (nothing) e where "res = Inl e" "w' = w" "fs' = fs"
  | (on_disk) ks content where "map_r (key_of (wr_primary_key w)) rows = Inr ks" "distinct ks"
      "set ks \<inter> wr_keys w = {}" "published be w rows ks content" "rows \<noteq> []"
      "fs_parts fs' = fs_parts fs @ [((next_part_number (mf_parts (wr_manifest w)), uuid), content)]"
      "fs_schema fs' = fs_schema fs" "fs_quarantine fs' = fs_quarantine fs" "fs_locked fs' = fs_locked fs"
      "fs_manifest fs' = fs_manifest fs \<or> (\<exists>meta. fs_manifest fs' = Some (wr_manifest (appended w meta ks)))"
      "\<And>name. res = Inr name \<Longrightarrow> name = (next_part_number (mf_parts (wr_manifest w)), uuid) \<and>
          (\<exists>meta. part_metadata (wr_primary_key w) name rows = Inr meta \<and> w' = appended w meta ks \<and>
             fs_manifest fs' = Some (wr_manifest w'))"
proof (cases "map_r (key_of (wr_primary_key w)) rows")
  case (Inl e)
  then obtain e' where "res = Inl e'" "w' = w" "fs' = fs"
    using assms by (auto simp: append_part_def split: if_splits)
  then show thesis
    by (rule nothing)
next
  case (Inr ks)
  show thesis
  proof (cases "rows = [] \<or> \<not> distinct ks \<or> list_ex (\<lambda>k. k \<in> wr_keys w) ks")
    case True
    then obtain e' where "res = Inl e'" "w' = w" "fs' = fs"
      using assms Inr by (auto simp: append_part_def split: if_splits)
    then show thesis
      by (rule nothing)
  next
    case False
    let ?name = "(next_part_number (mf_parts (wr_manifest w)), uuid)"
    have ok: "rows \<noteq> []" "distinct ks" "set ks \<inter> wr_keys w = {}"
      using False by (auto simp: list_ex_iff)
    obtain r fs1 where pub: "publish be fails ?name w rows ks fs = (r, fs1)"
      by fastforce
    from publish_cases [OF pub] show thesis
    proof (elim disjE exE conjE)
      fix e assume "fs1 = fs" "r = Inl e"
      then have "res = Inl e" "w' = w" "fs' = fs"
        using assms Inr False pub by (auto simp: append_part_def)
      then show thesis
        by (rule nothing)
    next
      fix content assume c: "fs1 = fs\<lparr>fs_parts := fs_parts fs @ [(?name, content)]\<rparr>" "published be w rows ks content"
      show thesis
      proof (rule on_disk [OF Inr ok(2,3) c(2) ok(1)])
        show "fs_parts fs' = fs_parts fs @ [(?name, content)]"
          "fs_schema fs' = fs_schema fs" "fs_quarantine fs' = fs_quarantine fs" "fs_locked fs' = fs_locked fs"
          "fs_manifest fs' = fs_manifest fs \<or> (\<exists>meta. fs_manifest fs' = Some (wr_manifest (appended w meta ks)))"
          using assms Inr False pub c(1)
          by (auto simp: append_part_def appended_def Let_def split: sum.splits if_splits)
        show "name = ?name \<and> (\<exists>meta. part_metadata (wr_primary_key w) name rows = Inr meta \<and> w' = appended w meta ks \<and>
             fs_manifest fs' = Some (wr_manifest w'))" if "res = Inr name" for name
          using assms Inr False pub c(1) that
          by (auto simp: append_part_def appended_def Let_def split: sum.splits if_splits)
      qed
    qed
  qed
qed

lemma next_part_number_fresh: "m \<in> set metas \<Longrightarrow> pm_part_number m < next_part_number metas"
  by (auto simp: next_part_number_def intro!: le_imp_less_Suc Max_ge)

lemma fresh_name:
  assumes "store_ok be w fs" and "p \<in> set (fs_parts fs)"
  shows "fst (fst p) < next_part_number (mf_parts (wr_manifest w))"
proof -
  have "fst (fst p) \<in> set (map pm_part_number (mf_parts (wr_manifest w)))"
    using assms by (auto simp: store_ok_def)
  then show ?thesis
    using next_part_number_fresh by auto
qed

lemma append_disk_keys:
  assumes "store_ok be w fs" and "map_r (key_of (wr_primary_key w)) rows = Inr ks" and "distinct ks"
    and "set ks \<inter> wr_keys w = {}" and "published be w rows ks content"
  shows "distinct (disk_keys be (wr_primary_key w) (fs_parts fs @ [(name, content)])) \<and>
    set (disk_keys be (wr_primary_key w) (fs_parts fs @ [(name, content)])) = wr_keys w \<union> set ks"
  using published_keys [OF assms(5) map_r_Inr_length [OF assms(2)] assms(3)] assms(1,4)
  by (auto simp: store_ok_def)

lemma published_valid:
  assumes "published be w rows ks content" and "backend_faithful be"
    and "part_metadata (wr_primary_key w) name rows = Inr meta"
  shows "valid_part be (wr_schema w) (wr_primary_key w) None (name, content)"
proof -
  obtain fields where f: "field_specs (wr_schema w) = Inr fields" "validate_rows_against_schema rows fields = Inr ()"
    using assms(1) by (auto simp: published_def)
  obtain rr sch where r: "be_read be content = Inr (rr, sch)" "schema_matches (wr_schema w) sch = Inr True"
    using assms(1) by (auto simp: published_def)
  have "be_write be rows (wr_schema w) = Inr content"
    using assms(1) by (simp add: published_def)
  then obtain s where "be_read be content = Inr (rows, s)"
    using assms(2) unfolding backend_faithful_def by blast
  then have "rr = rows"
    using r(1) by simp
  then show ?thesis
    using f r assms(3) by (simp add: valid_part_def judge_part_def has_future_row_def)
qed

lemma append_success:
  assumes "store_ok be w fs" and "backend_faithful be" and "append_part be fails uuid w fs rows = (Inr name, w', fs')"
  shows "store_ok be w' fs'"
  using assms(3)
proof (cases rule: append_cases)
  case nothing
  then show ?thesis by simp
next
  case (on_disk ks content)
  from on_disk(11) obtain meta where meta: "name = (next_part_number (mf_parts (wr_manifest w)), uuid)"
      "part_metadata (wr_primary_key w) name rows = Inr meta" "w' = appended w meta ks"
      "fs_manifest fs' = Some (wr_manifest w')"
    by blast
  have pm: "pm_file meta = name" "pm_part_number meta = fst name"
    using part_metadata_keys [OF meta(2)] by auto
  have parts: "fs_parts fs' = fs_parts fs @ [(name, content)]"
    using on_disk(6) meta(1) by simp
  have fresh: "name \<notin> set (map fst (fs_parts fs))"
    using fresh_name [OF assms(1)] meta(1) by fastforce
  note dk = append_disk_keys [OF assms(1) on_disk(1-4), of name]
  note vp = published_valid [OF on_disk(4) assms(2) meta(2)]
  show ?thesis
    using assms(1) dk vp fresh meta(4) pm on_disk(7)
    by (simp add: store_ok_def meta(3) parts appended_def del: disk_keys_append)
qed

section \<open>Restarting\<close>

lemma distinct_disk_filter: "distinct (disk_keys be pk xs) \<Longrightarrow> distinct (disk_keys be pk (filter P xs))"
proof (induction xs)
  case Nil
  then show ?case by simp
next
  case (Cons x xs)
  moreover have "set (disk_keys be pk (filter P xs)) \<subseteq> set (disk_keys be pk xs)"
    by (auto simp: disk_keys_def)
  ultimately show ?case
    by auto
qed

lemma distinct_disk_sort:
  "distinct (disk_keys be pk (sort_key f xs)) = distinct (disk_keys be pk xs)"
  "set (disk_keys be pk (sort_key f xs)) = set (disk_keys be pk xs)"
  using disk_keys_perm [of "sort_key f xs" xs be pk] by (metis mset_eq_imp_distinct_iff mset_sort, metis mset_eq_setD mset_sort)

lemma chosen_Some: "pk \<noteq> [] \<Longrightarrow> chosen_key t (Some pk) = pk"
  by (cases pk) (simp_all add: chosen_key_def)

text \<open>Reopening a directory whose keys are distinct succeeds and keeps every valid part.\<close>

lemma reopen:
  assumes "\<not> fs_locked fs" and "pk \<noteq> []" and "distinct (map fst (fs_parts fs))"
    and "\<forall>s. fs_schema fs = Some s \<longrightarrow> same_schema s schema"
    and "\<forall>m. fs_manifest fs = Some m \<longrightarrow> same_schema (mf_schema m) schema"
    and "distinct (disk_keys be pk (fs_parts fs))"
  shows "\<exists>w2 fs2. open_writer be t schema (Some pk) 0 fsy None fs = (Inr w2, fs2) \<and> store_ok be w2 fs2 \<and>
     wr_primary_key w2 = pk \<and>
     fs_parts fs2 = filter (valid_part be schema pk None) (sort_key (fst \<circ> fst) (fs_parts fs)) \<and>
     wr_keys w2 = set (disk_keys be pk (fs_parts fs2))"
proof -
  let ?kept = "filter (valid_part be schema pk None) (sort_key (fst \<circ> fst) (fs_parts fs))"
  have d: "distinct (disk_keys be pk ?kept)"
    using assms(6) by (intro distinct_disk_filter) (simp add: distinct_disk_sort)
  obtain w2 fs2 where o: "open_writer be t schema (Some pk) 0 fsy None fs = (Inr w2, fs2)"
      "fs_parts fs2 = ?kept" "wr_keys w2 = set (disk_keys be pk ?kept)" "wr_primary_key w2 = pk"
    using open_writer_result [of 0 fs schema t "Some pk" be None fsy] assms(1,3-5) d
    unfolding Let_def chosen_Some [OF assms(2)] by auto
  with open_establishes [OF o(1) assms(3)] show ?thesis
    by auto
qed

lemma append_then_reopen:
  assumes ok: "store_ok be w fs" and app: "append_part be fails uuid w fs rows = (res, w', fs')"
  shows "\<exists>w2 fs2. open_writer be t (wr_schema w) (Some (wr_primary_key w)) 0 fsy None (close_writer fs') = (Inr w2, fs2) \<and>
     store_ok be w2 fs2 \<and> wr_keys w \<subseteq> wr_keys w2 \<and> mset (fs_parts fs) \<subseteq># mset (fs_parts fs2) \<and>
     (\<forall>name. res = Inr name \<longrightarrow> backend_faithful be \<longrightarrow> wr_keys w2 = wr_keys w')"
proof -
  let ?pk = "wr_primary_key w" and ?S = "wr_schema w"
  have all: "distinct (map fst (fs_parts fs')) \<and> (\<forall>s. fs_schema fs' = Some s \<longrightarrow> same_schema s ?S) \<and>
      (\<forall>m. fs_manifest fs' = Some m \<longrightarrow> same_schema (mf_schema m) ?S) \<and> distinct (disk_keys be ?pk (fs_parts fs')) \<and>
      (\<exists>new. fs_parts fs' = fs_parts fs @ new)"
    using app
  proof (cases rule: append_cases)
    case nothing
    then show ?thesis
      using ok same_schema_refl by (auto simp: store_ok_def)
  next
    case (on_disk ks content)
    have dk: "distinct (disk_keys be ?pk (fs_parts fs'))"
      unfolding on_disk(6) using append_disk_keys [OF ok on_disk(1-4)] by blast
    have nm: "distinct (map fst (fs_parts fs'))"
      unfolding on_disk(6) using ok fresh_name [OF ok] by (fastforce simp: store_ok_def)
    have mf: "\<forall>m. fs_manifest fs' = Some m \<longrightarrow> mf_schema m = ?S"
      using on_disk(10) ok by (auto simp: store_ok_def appended_def)
    have sc: "\<forall>s. fs_schema fs' = Some s \<longrightarrow> same_schema s ?S"
      using on_disk(7) ok by (auto simp: store_ok_def)
    show ?thesis
      using dk nm mf sc on_disk(6) same_schema_refl by metis
  qed
  then have facts: "distinct (map fst (fs_parts fs'))" "\<forall>s. fs_schema fs' = Some s \<longrightarrow> same_schema s ?S"
      "\<forall>m. fs_manifest fs' = Some m \<longrightarrow> same_schema (mf_schema m) ?S" "distinct (disk_keys be ?pk (fs_parts fs'))"
      "\<exists>new. fs_parts fs' = fs_parts fs @ new"
    by blast+
  have pk: "?pk \<noteq> []"
    using ok by (simp add: store_ok_def)
  obtain w2 fs2 where o: "open_writer be t ?S (Some ?pk) 0 fsy None (close_writer fs') = (Inr w2, fs2)" "store_ok be w2 fs2"
      "fs_parts fs2 = filter (valid_part be ?S ?pk None) (sort_key (fst \<circ> fst) (fs_parts fs'))"
      "wr_keys w2 = set (disk_keys be ?pk (fs_parts fs2))"
    using reopen [of "close_writer fs'" ?pk ?S be t fsy] facts pk by (auto simp: close_writer_def)
  obtain new where new: "fs_parts fs' = fs_parts fs @ new"
    using facts(5) by blast
  have valid: "\<forall>p\<in>set (fs_parts fs). valid_part be ?S ?pk None p"
    using ok by (simp add: store_ok_def)
  have ms: "mset (fs_parts fs2) = mset (fs_parts fs) + mset (filter (valid_part be ?S ?pk None) new)"
  proof -
    have "mset (fs_parts fs2) = filter_mset (valid_part be ?S ?pk None) (mset (fs_parts fs'))"
      unfolding o(3) by (metis mset_filter mset_sort)
    also have "\<dots> = mset (filter (valid_part be ?S ?pk None) (fs_parts fs)) + mset (filter (valid_part be ?S ?pk None) new)"
      by (simp add: new)
    also have "filter (valid_part be ?S ?pk None) (fs_parts fs) = fs_parts fs"
      using valid by (intro filter_True) blast
    finally show ?thesis .
  qed
  have sub: "set (fs_parts fs) \<subseteq> set (fs_parts fs2)"
    using ms by (metis set_mset_mset set_mset_union Un_upper1)
  have keys: "wr_keys w \<subseteq> wr_keys w2"
  proof -
    have "wr_keys w = set (disk_keys be ?pk (fs_parts fs))"
      using ok by (simp add: store_ok_def)
    then show ?thesis
      unfolding o(4) using sub by (auto simp: disk_keys_def)
  qed
  have succ: "wr_keys w2 = wr_keys w'" if "res = Inr name" "backend_faithful be" for name
  proof -
    have ok': "store_ok be w' fs'"
      using append_success [OF ok that(2)] app that(1) by blast
    have pk': "wr_primary_key w' = ?pk" "wr_schema w' = ?S"
      using app that(1) by (auto elim!: append_cases simp: appended_def)
    have "filter (valid_part be ?S ?pk None) (sort_key (fst \<circ> fst) (fs_parts fs')) = sort_key (fst \<circ> fst) (fs_parts fs')"
      using ok' pk' by (intro filter_True) (simp add: store_ok_def)
    then have "wr_keys w2 = set (disk_keys be ?pk (fs_parts fs'))"
      using o(3,4) by (simp add: distinct_disk_sort)
    then show ?thesis
      using ok' pk' by (simp add: store_ok_def)
  qed
  show ?thesis
    using o(1,2) keys ms succ by (intro exI [of _ w2] exI [of _ fs2]) auto
qed

section \<open>An append that fails after publishing, and its retry\<close>

lemma part_metadata_name:
  "part_metadata pk n rows = Inr m \<Longrightarrow> \<exists>m'. part_metadata pk n' rows = Inr m'"
  by (cases "map_r (key_of pk) rows") (auto simp: part_metadata_def bind_r_Inr_iff split: list.split_asm)

lemma torn_append_cases:
  assumes "append_part be fails u w fs rows = (Inl e, w1, fs1)" and "w1 \<noteq> w" and "\<not> fails IoCheckpoint"
  shows "\<exists>ks content meta. map_r (key_of (wr_primary_key w)) rows = Inr ks \<and> distinct ks \<and> rows \<noteq> [] \<and>
    \<not> list_ex (\<lambda>k. k \<in> wr_keys w) ks \<and> published be w rows ks content \<and>
    part_metadata (wr_primary_key w) (next_part_number (mf_parts (wr_manifest w)), u) rows = Inr meta \<and>
    w1 = w\<lparr>wr_manifest := (wr_manifest w)\<lparr>mf_parts := mf_parts (wr_manifest w) @ [meta]\<rparr>\<rparr> \<and>
    fs1 = fs\<lparr>fs_parts := fs_parts fs @ [((next_part_number (mf_parts (wr_manifest w)), u), content)]\<rparr>"
proof -
  let ?name = "(next_part_number (mf_parts (wr_manifest w)), u)"
  obtain ks where ks: "map_r (key_of (wr_primary_key w)) rows = Inr ks" "distinct ks" "rows \<noteq> []"
      "\<not> list_ex (\<lambda>k. k \<in> wr_keys w) ks"
    using assms(1,2) by (auto simp: append_part_def split: if_splits sum.splits)
  obtain r fs' where pub: "publish be fails ?name w rows ks fs = (r, fs')"
    by fastforce
  have r: "r = Inr ()"
    using assms(1,2) ks pub by (cases r) (auto simp: append_part_def)
  obtain content where c: "fs' = fs\<lparr>fs_parts := fs_parts fs @ [(?name, content)]\<rparr>" "published be w rows ks content"
    using publish_cases [OF pub] r by auto
  obtain meta where meta: "part_metadata (wr_primary_key w) ?name rows = Inr meta"
    using assms(1,2) ks pub r by (cases "part_metadata (wr_primary_key w) ?name rows") (auto simp: append_part_def)
  have "w1 = w\<lparr>wr_manifest := (wr_manifest w)\<lparr>mf_parts := mf_parts (wr_manifest w) @ [meta]\<rparr>\<rparr> \<and> fs1 = fs'"
    using assms(1,3) ks pub r meta by (auto simp: append_part_def Let_def split: if_splits)
  with ks c meta show ?thesis
    by blast
qed

text \<open>
  A closed directory that no writer of its schema and key can open: every part is readable, but two
  of them hold the same key.  A failed attempt to open it leaves it so.
\<close>

definition unopenable :: "'f backend \<Rightarrow> pydict \<Rightarrow> string list \<Rightarrow> 'f table_fs \<Rightarrow> bool" where
  "unopenable be schema pk fs = (\<not> fs_locked fs \<and> pk \<noteq> [] \<and>
     (\<forall>s. fs_schema fs = Some s \<longrightarrow> same_schema s schema) \<and>
     (\<forall>m. fs_manifest fs = Some m \<longrightarrow> same_schema (mf_schema m) schema) \<and>
     distinct (map fst (fs_parts fs)) \<and> (\<forall>p\<in>set (fs_parts fs). valid_part be schema pk None p) \<and>
     \<not> distinct (disk_keys be pk (fs_parts fs)))"

lemma unopenable_open:
  assumes "unopenable be schema pk fs"
  shows "fst (open_writer be t schema (Some pk) 0 fsy None fs) =
      Inl (DuplicatePrimaryKeyError ''duplicate primary key in committed parts'')"
    and "unopenable be schema pk (snd (open_writer be t schema (Some pk) 0 fsy None fs))"
proof -
  have fs: "\<not> fs_locked fs" "pk \<noteq> []" "\<forall>s. fs_schema fs = Some s \<longrightarrow> same_schema s schema"
      "\<forall>m. fs_manifest fs = Some m \<longrightarrow> same_schema (mf_schema m) schema" "distinct (map fst (fs_parts fs))"
      "\<forall>p\<in>set (fs_parts fs). valid_part be schema pk None p" "\<not> distinct (disk_keys be pk (fs_parts fs))"
    using assms by (simp_all add: unopenable_def)
  let ?kept = "sort_key (fst \<circ> fst) (fs_parts fs)"
  have kept: "filter (valid_part be schema pk None) ?kept = ?kept"
    using fs(6) by (intro filter_True) simp
  have "\<exists>fs' m. open_writer be t schema (Some pk) 0 fsy None fs =
        (Inl (DuplicatePrimaryKeyError ''duplicate primary key in committed parts''), fs') \<and>
      fs_locked fs' = fs_locked fs \<and> fs_parts fs' = ?kept \<and>
      fs_schema fs' = Some (case fs_schema fs of None \<Rightarrow> schema | Some s \<Rightarrow> s) \<and>
      fs_manifest fs' = Some m \<and> mf_schema m = schema"
    using open_writer_result [of 0 fs schema t "Some pk" be None fsy] fs
    unfolding Let_def chosen_Some [OF fs(2)] kept distinct_disk_sort by auto
  then obtain fs' m where
      o: "open_writer be t schema (Some pk) 0 fsy None fs =
        (Inl (DuplicatePrimaryKeyError ''duplicate primary key in committed parts''), fs')"
      "fs_locked fs' = fs_locked fs" "fs_parts fs' = ?kept"
      "fs_schema fs' = Some (case fs_schema fs of None \<Rightarrow> schema | Some s \<Rightarrow> s)"
      "fs_manifest fs' = Some m" "mf_schema m = schema"
    by (elim exE conjE) (rule that)
  show "fst (open_writer be t schema (Some pk) 0 fsy None fs) =
      Inl (DuplicatePrimaryKeyError ''duplicate primary key in committed parts'')"
    by (simp add: o(1))
  have "distinct (map fst ?kept)"
    using fs(5) by (metis mset_map mset_sort mset_eq_imp_distinct_iff)
  then show "unopenable be schema pk (snd (open_writer be t schema (Some pk) 0 fsy None fs))"
    using fs same_schema_refl unfolding unopenable_def o by (simp add: o distinct_disk_sort split: option.split)
qed

lemma unopenable_attempts:
  "unopenable be schema pk fs \<Longrightarrow>
   unopenable be schema pk (fold (\<lambda>(t, fsy) fs. snd (open_writer be t schema (Some pk) 0 fsy None fs)) attempts fs)"
  by (induction attempts arbitrary: fs) (auto simp: unopenable_open(2))

lemma retry_after_torn:
  assumes ok: "store_ok be w fs" and faith: "backend_faithful be"
    and torn: "append_part be fails u w fs rows = (Inl e, w1, fs1)" and w1: "w1 \<noteq> w" and nc: "\<not> fails IoCheckpoint"
  shows "\<exists>name w2 fs2. append_part be (\<lambda>_. False) u2 w1 fs1 rows = (Inr name, w2, fs2) \<and>
     \<not> distinct (disk_keys be (wr_primary_key w) (fs_parts fs2)) \<and>
     unopenable be (wr_schema w) (wr_primary_key w) (close_writer fs2) \<and> fs_locked fs2 = fs_locked fs"
proof -
  let ?n = "next_part_number (mf_parts (wr_manifest w))" and ?pk = "wr_primary_key w"
  obtain ks content meta where t: "map_r (key_of ?pk) rows = Inr ks" "distinct ks" "rows \<noteq> []"
      "\<not> list_ex (\<lambda>k. k \<in> wr_keys w) ks" "published be w rows ks content"
      "part_metadata ?pk (?n, u) rows = Inr meta"
      "w1 = w\<lparr>wr_manifest := (wr_manifest w)\<lparr>mf_parts := mf_parts (wr_manifest w) @ [meta]\<rparr>\<rparr>"
      "fs1 = fs\<lparr>fs_parts := fs_parts fs @ [((?n, u), content)]\<rparr>"
    using torn_append_cases [OF torn w1 nc] by blast
  have pub1: "published be w1 rows ks content"
    using t(5) by (simp add: published_def t(7))
  let ?m = "next_part_number (mf_parts (wr_manifest w1))"
  obtain meta2 where meta2: "part_metadata ?pk (?m, u2) rows = Inr meta2"
    using part_metadata_name [OF t(6)] by blast
  have pk1: "wr_primary_key w1 = ?pk" "wr_keys w1 = wr_keys w"
    by (simp_all add: t(7))
  have pm: "pm_part_number meta = ?n"
    using part_metadata_keys [OF t(6)] by simp
  have lt: "?n < ?m"
    using next_part_number_fresh [of meta "mf_parts (wr_manifest w1)"] pm by (simp add: t(7))
  define w2 where "w2 = appended w1 meta2 ks"
  define fs2 where "fs2 = fs1\<lparr>fs_parts := fs_parts fs1 @ [((?m, u2), content)], fs_manifest := Some (wr_manifest w2),
      fs_checkpoint := Some (writer_checkpoint_of w2)\<rparr>"
  have a2: "append_part be (\<lambda>_. False) u2 w1 fs1 rows = (Inr (?m, u2), w2, fs2)"
      "fs_parts fs2 = fs_parts fs1 @ [((?m, u2), content)]" "fs_schema fs2 = fs_schema fs1" "fs_locked fs2 = fs_locked fs1"
      "fs_manifest fs2 = Some (wr_manifest (appended w1 meta2 ks))"
    using t(1-4) publish_no_faults [OF pub1, of "(?m, u2)" fs1] meta2 pk1
    by (simp_all add: append_part_def Let_def appended_def w2_def fs2_def)
  have parts: "fs_parts fs2 = fs_parts fs @ [((?n, u), content), ((?m, u2), content)]"
    by (simp add: a2(2) t(8))
  have k: "set (keys_in be ?pk content) = set ks"
    using published_keys [OF t(5) map_r_Inr_length [OF t(1)] t(2)] by blast
  have "ks \<noteq> []"
    using t(1,3) map_r_Inr_length by fastforce
  then have dup: "\<not> distinct (disk_keys be ?pk (fs_parts fs2))"
    using k by (simp add: parts)
  have valid: "\<forall>p\<in>set (fs_parts fs2). valid_part be (wr_schema w) ?pk None p"
    using ok published_valid [OF t(5) faith t(6)] published_valid [OF t(5) faith meta2]
    by (auto simp: parts store_ok_def)
  have names: "distinct (map fst (fs_parts fs2))"
    using ok fresh_name [OF ok] lt by (fastforce simp: parts store_ok_def)
  have sch: "\<forall>s. fs_schema fs2 = Some s \<longrightarrow> same_schema s (wr_schema w)"
    using ok by (auto simp: a2(3) t(8) store_ok_def)
  have man: "\<forall>m. fs_manifest fs2 = Some m \<longrightarrow> same_schema (mf_schema m) (wr_schema w)"
    using ok same_schema_refl by (auto simp: a2(5) appended_def t(7) store_ok_def)
  have pk: "?pk \<noteq> []"
    using ok by (simp add: store_ok_def)
  have "unopenable be (wr_schema w) ?pk (close_writer fs2)"
    using valid names sch man pk dup by (simp add: unopenable_def close_writer_def)
  with a2(1,4) dup t(8) show ?thesis
    by auto
qed

section \<open>Properties\<close>

text \<open>A small table for the examples: one integer column, which is the key, and a backend that stores rows as they are.\<close>

definition demo_schema :: pydict where
  "demo_schema = [(''version'', VInt 1), (''fields'', VList [VDict [(''name'', VStr ''k''), (''physical_type'', VStr ''int64'')]])]"

definition demo_backend :: "(pydict list \<times> pydict) backend" where
  "demo_backend = \<lparr>be_write = (\<lambda>rows schema. Inr (rows, schema)), be_read = (\<lambda>(rows, schema). Inr (rows, VDict schema))\<rparr>"

definition demo_dir :: "(pydict list \<times> pydict) table_fs" where
  "demo_dir = \<lparr>fs_schema = None, fs_manifest = None, fs_checkpoint = None,
     fs_parts = [((0, 7), ([[(''k'', VInt 1)]], demo_schema))], fs_quarantine = [], fs_locked = False\<rparr>"

lemma demo_faithful: "backend_faithful demo_backend"
  by (simp add: backend_faithful_def demo_backend_def)

lemma demo_open: "\<exists>w fs. open_writer demo_backend ''t'' demo_schema (Some [''k'']) 0 True None demo_dir = (Inr w, fs) \<and>
    wr_keys w = {[VInt 1]} \<and> wr_schema w = demo_schema \<and> wr_primary_key w = [''k''] \<and>
    mf_parts (wr_manifest w) = [\<lparr>pm_file = (0, 7), pm_part_number = 0, pm_rows = 1, pm_min_key = Some [VInt 1], pm_max_key = Some [VInt 1]\<rparr>]"
  by (simp add: open_writer_def demo_dir_def load_or_rebuild_manifest_def judge_part_def demo_backend_def has_future_row_def
      field_specs_def demo_schema_def dget_def has_key_def validate_rows_against_schema_def validate_row_def validate_field_def
      optional_get_def schema_matches_def same_schema_def part_metadata_def key_of_def committed_keys_def read_part_def Let_def)

text \<open>
  Opening a table establishes its invariant, whatever the directory held: the in-memory
  manifest is the one on disk and lists exactly the parts that remain, every remaining part
  reads back, fits the schema and has no row past the resume step, the primary keys on disk are
  pairwise distinct and are the keys in memory, and every other part is in quarantine, none lost.
\<close>

theorem open_establishes_invariant:
  assumes "open_writer be table schema primary_key writer_rank fsync resume fs = (Inr w, fs')"
    and "distinct (map fst (fs_parts fs))"
  shows "store_ok be w fs' \<and> fs_locked fs' \<and> \<not> fs_locked fs \<and> wr_schema w = schema \<and>
    (\<exists>quar. fs_quarantine fs' = fs_quarantine fs @ quar \<and> mset (fs_parts fs) = mset (fs_parts fs') + mset (map snd quar) \<and>
      (\<forall>p\<in>set (fs_parts fs'). valid_part be schema (wr_primary_key w) resume p) \<and>
      (\<forall>q\<in>set quar. \<not> valid_part be schema (wr_primary_key w) resume (snd q)))"
  using assms by (rule open_establishes)

theorem open_establishes_invariant_witness:
  "\<exists>w fs. open_writer demo_backend ''t'' demo_schema (Some [''k'']) 0 True None demo_dir = (Inr w, fs) \<and>
     store_ok demo_backend w fs \<and> wr_keys w = {[VInt 1]}"
proof -
  obtain w fs where o: "open_writer demo_backend ''t'' demo_schema (Some [''k'']) 0 True None demo_dir = (Inr w, fs)"
      "wr_keys w = {[VInt 1]}"
    using demo_open by blast
  have "distinct (map fst (fs_parts demo_dir))"
    by (simp add: demo_dir_def)
  from open_establishes_invariant [OF o(1) this] o show ?thesis
    by blast
qed

text \<open>
  C30. A successful append keeps the invariant: exactly one part is added, under a number above all
  earlier ones, its keys are new and pairwise distinct, and the committed keys grow by them; an
  append that raises either changed nothing, or left exactly one further part, and even then the
  primary keys on disk are pairwise distinct.
\<close>

theorem append_keeps_keys_unique:
  assumes "store_ok be w fs" and "backend_faithful be" and "append_part be fails uuid w fs rows = (res, w', fs')"
  shows "distinct (disk_keys be (wr_primary_key w) (fs_parts fs')) \<and>
    (case res of
       Inl e \<Rightarrow> w' = w \<and> fs' = fs \<or> (\<exists>p. fs_parts fs' = fs_parts fs @ [p])
     | Inr name \<Rightarrow> store_ok be w' fs' \<and> (\<exists>f. fs_parts fs' = fs_parts fs @ [(name, f)]) \<and>
         (\<forall>p\<in>set (fs_parts fs). fst (fst p) < fst name) \<and>
         (\<exists>ks. map_r (key_of (wr_primary_key w)) rows = Inr ks \<and> distinct ks \<and> set ks \<inter> wr_keys w = {} \<and>
            wr_keys w' = wr_keys w \<union> set ks))"
  using assms(3)
proof (cases rule: append_cases)
  case (nothing e)
  then show ?thesis
    using assms(1) by (simp add: store_ok_def)
next
  case (on_disk ks content)
  have d: "distinct (disk_keys be (wr_primary_key w) (fs_parts fs'))"
    unfolding on_disk(6) using append_disk_keys [OF assms(1) on_disk(1-4)] by blast
  show ?thesis
  proof (cases res)
    case (Inl e)
    then show ?thesis
      using d on_disk(6) by auto
  next
    case (Inr name)
    note n = on_disk(11) [OF Inr]
    have "store_ok be w' fs'"
      using append_success assms Inr by blast
    moreover have "wr_keys w' = wr_keys w \<union> set ks"
      using n by (auto simp: appended_def)
    ultimately show ?thesis
      using Inr d n on_disk(1-3,6) fresh_name [OF assms(1)] by simp
  qed
qed

theorem append_keeps_keys_unique_witness:
  "\<exists>w fs name w' fs'. store_ok demo_backend w fs \<and>
     append_part demo_backend (\<lambda>_. False) 8 w fs [[(''k'', VInt 2)]] = (Inr name, w', fs') \<and>
     name = (1, 8) \<and> store_ok demo_backend w' fs' \<and> distinct (disk_keys demo_backend (wr_primary_key w) (fs_parts fs'))"
proof -
  obtain w fs where o: "open_writer demo_backend ''t'' demo_schema (Some [''k'']) 0 True None demo_dir = (Inr w, fs)"
      "wr_keys w = {[VInt 1]}" "wr_schema w = demo_schema" "wr_primary_key w = [''k'']"
      "mf_parts (wr_manifest w) = [\<lparr>pm_file = (0, 7), pm_part_number = 0, pm_rows = 1, pm_min_key = Some [VInt 1], pm_max_key = Some [VInt 1]\<rparr>]"
    using demo_open by blast
  have ok: "store_ok demo_backend w fs"
    using open_establishes [OF o(1)] by (simp add: demo_dir_def)
  obtain name w' fs' where a: "append_part demo_backend (\<lambda>_. False) 8 w fs [[(''k'', VInt 2)]] = (Inr name, w', fs')" "name = (1, 8)"
    using o(2-5)
    by (simp add: append_part_def key_of_def has_key_def dget_def publish_def field_specs_def demo_schema_def demo_backend_def
        validate_rows_against_schema_def validate_row_def validate_field_def optional_get_def schema_matches_def same_schema_def
        part_metadata_def next_part_number_def Let_def)
  from append_keeps_keys_unique [OF ok demo_faithful a(1)] have
    "distinct (disk_keys demo_backend (wr_primary_key w) (fs_parts fs')) \<and> store_ok demo_backend w' fs'"
    by simp
  with ok a show ?thesis
    by blast
qed

text \<open>
  C12. Crash recovery: after an append that failed at any I/O step (or succeeded), a new writer
  opens the directory, restores the invariant, has every key and every part that was committed
  before, and after a success exactly the keys the writer had.
\<close>

theorem append_crash_recovery:
  assumes "store_ok be w fs" and "append_part be fails uuid w fs rows = (res, w', fs')"
  shows "\<exists>w2 fs2. open_writer be t (wr_schema w) (Some (wr_primary_key w)) 0 fsy None (close_writer fs') = (Inr w2, fs2) \<and>
     store_ok be w2 fs2 \<and> wr_keys w \<subseteq> wr_keys w2 \<and> mset (fs_parts fs) \<subseteq># mset (fs_parts fs2) \<and>
     (\<forall>name. res = Inr name \<longrightarrow> backend_faithful be \<longrightarrow> wr_keys w2 = wr_keys w')"
  using assms by (rule append_then_reopen)

theorem append_crash_recovery_witness:
  "\<exists>w fs res w' fs' w2 fs2. store_ok demo_backend w fs \<and>
     append_part demo_backend (\<lambda>s. s = IoFsyncDir) 8 w fs [[(''k'', VInt 2)]] = (res, w', fs') \<and>
     open_writer demo_backend ''t'' (wr_schema w) (Some (wr_primary_key w)) 0 True None (close_writer fs') = (Inr w2, fs2) \<and>
     wr_keys w \<subseteq> wr_keys w2"
proof -
  obtain w fs where o: "open_writer demo_backend ''t'' demo_schema (Some [''k'']) 0 True None demo_dir = (Inr w, fs)"
    using demo_open by blast
  have ok: "store_ok demo_backend w fs"
    using open_establishes [OF o(1)] by (simp add: demo_dir_def)
  obtain res w' fs' where a: "append_part demo_backend (\<lambda>s. s = IoFsyncDir) 8 w fs [[(''k'', VInt 2)]] = (res, w', fs')"
    by (rule prod_cases3)
  from append_crash_recovery [OF ok a, of "''t''" True] ok a show ?thesis
    by blast
qed

text \<open>
  C31. A retry can break uniqueness: when an append fails after its part is published and the
  manifest was extended in memory (the manifest file could not be written), the key set still
  lacks the batch, so appending the same rows again succeeds and the directory then holds their keys
  twice.  Once that writer is closed, opening the table (with its schema and key, without a resume
  step) raises DuplicatePrimaryKeyError, and so does every later attempt, whatever attempts were
  made before it.
\<close>

theorem retry_after_manifest_failure_duplicates:
  assumes "store_ok be w fs" and "backend_faithful be"
    and "append_part be (\<lambda>s. s = IoManifest) u w fs rows = (Inl e, w1, fs1)" and "w1 \<noteq> w"
  shows "\<exists>name w2 fs2. append_part be (\<lambda>_. False) u2 w1 fs1 rows = (Inr name, w2, fs2) \<and>
     \<not> distinct (disk_keys be (wr_primary_key w) (fs_parts fs2)) \<and>
     (\<forall>attempts t fsy. fst (open_writer be t (wr_schema w) (Some (wr_primary_key w)) 0 fsy None
          (fold (\<lambda>(t, fsy) fs. snd (open_writer be t (wr_schema w) (Some (wr_primary_key w)) 0 fsy None fs)) attempts
             (close_writer fs2))) =
        Inl (DuplicatePrimaryKeyError ''duplicate primary key in committed parts'')) \<and>
     fs_locked fs2 = fs_locked fs"
proof -
  obtain name w2 fs2 where "append_part be (\<lambda>_. False) u2 w1 fs1 rows = (Inr name, w2, fs2)"
      "\<not> distinct (disk_keys be (wr_primary_key w) (fs_parts fs2))"
      "unopenable be (wr_schema w) (wr_primary_key w) (close_writer fs2)" "fs_locked fs2 = fs_locked fs"
    using retry_after_torn [OF assms, of u2] by auto
  then show ?thesis
    using unopenable_open(1) [OF unopenable_attempts] by blast
qed

theorem retry_after_manifest_failure_duplicates_witness:
  "\<exists>w fs e w1 fs1 name w2 fs2.
     append_part demo_backend (\<lambda>s. s = IoManifest) 8 w fs [[(''k'', VInt 2)]] = (Inl e, w1, fs1) \<and>
     append_part demo_backend (\<lambda>_. False) 9 w1 fs1 [[(''k'', VInt 2)]] = (Inr name, w2, fs2) \<and>
     \<not> distinct (disk_keys demo_backend (wr_primary_key w) (fs_parts fs2)) \<and>
     fst (open_writer demo_backend ''t'' (wr_schema w) (Some (wr_primary_key w)) 0 True None (close_writer fs2)) =
       Inl (DuplicatePrimaryKeyError ''duplicate primary key in committed parts'')"
proof -
  obtain w fs where o: "open_writer demo_backend ''t'' demo_schema (Some [''k'']) 0 True None demo_dir = (Inr w, fs)"
      "wr_keys w = {[VInt 1]}" "wr_schema w = demo_schema" "wr_primary_key w = [''k'']"
      "mf_parts (wr_manifest w) = [\<lparr>pm_file = (0, 7), pm_part_number = 0, pm_rows = 1, pm_min_key = Some [VInt 1], pm_max_key = Some [VInt 1]\<rparr>]"
    using demo_open by blast
  have ok: "store_ok demo_backend w fs"
    using open_establishes [OF o(1)] by (simp add: demo_dir_def)
  obtain e w1 fs1 where a: "append_part demo_backend (\<lambda>s. s = IoManifest) 8 w fs [[(''k'', VInt 2)]] = (Inl e, w1, fs1)"
      "length (mf_parts (wr_manifest w1)) = 2"
    using o(2-5)
    by (simp add: append_part_def key_of_def has_key_def dget_def publish_def field_specs_def demo_schema_def demo_backend_def
        validate_rows_against_schema_def validate_row_def validate_field_def optional_get_def schema_matches_def same_schema_def
        part_metadata_def next_part_number_def Let_def)
  have "w1 \<noteq> w"
    using a(2) o(5) by auto
  from retry_after_manifest_failure_duplicates [OF ok demo_faithful a(1) this, of 9]
  obtain name w2 fs2 where r: "append_part demo_backend (\<lambda>_. False) 9 w1 fs1 [[(''k'', VInt 2)]] = (Inr name, w2, fs2)"
      "\<not> distinct (disk_keys demo_backend (wr_primary_key w) (fs_parts fs2))"
      and all: "\<forall>attempts t fsy. fst (open_writer demo_backend t (wr_schema w) (Some (wr_primary_key w)) 0 fsy None
        (fold (\<lambda>(t, fsy) fs. snd (open_writer demo_backend t (wr_schema w) (Some (wr_primary_key w)) 0 fsy None fs)) attempts
           (close_writer fs2))) = Inl (DuplicatePrimaryKeyError ''duplicate primary key in committed parts'')"
    by (elim exE conjE) (rule that)
  have "fst (open_writer demo_backend ''t'' (wr_schema w) (Some (wr_primary_key w)) 0 True None (close_writer fs2)) =
      Inl (DuplicatePrimaryKeyError ''duplicate primary key in committed parts'')"
    using all [THEN spec, of "[]", THEN spec, of "''t''", THEN spec, of True] by (simp only: fold_Nil id_apply)
  with a(1) r show ?thesis
    by blast
qed

end
