(* ===== verification/LatentGrpo.thy ===== *)
theory LatentGrpo
  imports PyVal
begin

text \<open>
  The reinforcement-learning core of \<open>verl/trainer/ppo/core_algos.py\<close>, with the masked
  reductions of \<open>torch_functional.py\<close> and the callers in \<open>ray_trainer.py\<close>: KL controllers,
  the advantage estimators (Latent-GRPO with first-step selection, GRPO, pass@k, RLOO, OPO,
  REINFORCE++, ReMax, GAE), the policy and value losses, the KL estimates, and dynamic sampling
  by group.  A (batch, length) tensor is a list of rows of reals; masks hold 0 and 1; groups are
  the values of the index vector.
\<close>

type_synonym tensor = "real list list"

section \<open>torch_functional.py\<close>

definition masked_sum :: "real list \<Rightarrow> real list \<Rightarrow> real" where
  "masked_sum vals msk = sum_list (map2 (*) vals msk)"

definition masked_mean :: "real list \<Rightarrow> real list \<Rightarrow> real" where
  "masked_mean vals msk =
     sum_list (map2 (*) (map2 (\<lambda>v m. if m \<noteq> 0 then v else 0) vals msk) msk) / (sum_list msk + 1 / 10 ^ 8)"

definition masked_var :: "real list \<Rightarrow> real list \<Rightarrow> bool \<Rightarrow> real result" where
  "masked_var vals msk unbiased =
     (let mean = masked_mean vals msk;
          variance = masked_mean (map (\<lambda>v. (v - mean)\<^sup>2) vals) msk;
          mask_sum = sum_list msk
      in if \<not> unbiased then Inr variance
         else if mask_sum = 0 then Inl (ValueError ''At least one element in the mask has to be 1.'')
         else if mask_sum = 1 then Inl (ValueError ''The sum of the mask is one, which can cause a division by zero.'')
         else Inr (variance * (mask_sum / (mask_sum - 1))))"

definition masked_whiten :: "real list \<Rightarrow> real list \<Rightarrow> bool \<Rightarrow> real list result" where
  "masked_whiten vals msk shift_mean =
     bind_r (masked_var vals msk True) (\<lambda>var.
       let mean = masked_mean vals msk;
           whitened = map (\<lambda>v. (v - mean) * (1 / sqrt (var + 1 / 10 ^ 8))) vals
       in Inr (if shift_mean then whitened else map (\<lambda>v. v + mean) whitened))"

text \<open>Reductions over the whole tensor see the concatenation of the rows.\<close>

fun unflatten :: "nat list \<Rightarrow> 'a list \<Rightarrow> 'a list list" where
  "unflatten [] xs = []"
| "unflatten (n # ns) xs = take n xs # unflatten ns (drop n xs)"

definition whiten_rows :: "tensor \<Rightarrow> tensor \<Rightarrow> tensor result" where
  "whiten_rows t msk = bind_r (masked_whiten (concat t) (concat msk) True) (\<lambda>ws. Inr (unflatten (map length t) ws))"

definition clip_by_value :: "real \<Rightarrow> real \<Rightarrow> real \<Rightarrow> real" where
  "clip_by_value x lo hi = max (min x hi) lo"

definition clamp :: "real \<Rightarrow> real \<Rightarrow> real \<Rightarrow> real" where
  "clamp x lo hi = min (max x lo) hi"

section \<open>KL controllers\<close>

datatype kl_controller =
    AdaptiveKL (kl_value: real) (kl_target: real) (kl_horizon: real)
  | FixedKL (kl_value: real)

fun kl_update :: "kl_controller \<Rightarrow> real \<Rightarrow> real \<Rightarrow> kl_controller" where
  "kl_update (AdaptiveKL v target horizon) current_kl n_steps =
     (let proportional_error = clamp (current_kl / target - 1) (- (2 / 10)) (2 / 10);
          mult = 1 + proportional_error * n_steps / horizon
      in AdaptiveKL (v * mult) target horizon)"
| "kl_update (FixedKL v) current_kl n_steps = FixedKL v"

definition get_kl_controller :: "string \<Rightarrow> real \<Rightarrow> real \<Rightarrow> real \<Rightarrow> kl_controller result" where
  "get_kl_controller ty kl_coef target_kl horizon =
     (if ty = ''fixed'' then Inr (FixedKL kl_coef)
      else if ty = ''adaptive'' then
        (if 0 < horizon then Inr (AdaptiveKL kl_coef target_kl horizon) else Inl AssertionError)
      else Inl NotImplementedError)"

section \<open>Groups\<close>

definition members :: "'g list \<Rightarrow> 'g \<Rightarrow> nat list" where
  "members index g = filter (\<lambda>i. index ! i = g) [0..<length index]"

definition mean_of :: "real list \<Rightarrow> real" where
  "mean_of xs = sum_list xs / real (length xs)"

text \<open>\<open>torch.std\<close>: the sample standard deviation.\<close>

definition std_of :: "real list \<Rightarrow> real" where
  "std_of xs = sqrt (sum_list (map (\<lambda>x. (x - mean_of xs)\<^sup>2) xs) / (real (length xs) - 1))"

text \<open>Mean 0 and deviation 1 for a group of at most one score.\<close>

definition group_mean :: "real list \<Rightarrow> real" where
  "group_mean xs = (if length xs \<le> 1 then 0 else mean_of xs)"

definition group_std :: "real list \<Rightarrow> real" where
  "group_std xs = (if length xs \<le> 1 then 1 else std_of xs)"

definition row_sums :: "tensor \<Rightarrow> real list" where
  "row_sums t = map sum_list t"

text \<open>\<open>scores.unsqueeze(-1) * response_mask\<close>.\<close>

definition spread :: "real list \<Rightarrow> tensor \<Rightarrow> tensor" where
  "spread scores msk = map2 (\<lambda>s row. map (\<lambda>m. s * m) row) scores msk"

section \<open>GRPO\<close>

definition grpo_scores :: "real list \<Rightarrow> 'g list \<Rightarrow> real \<Rightarrow> bool \<Rightarrow> real list" where
  "grpo_scores scores index epsilon norm_adv =
     map (\<lambda>i. let sc = map (\<lambda>j. scores ! j) (members index (index ! i)) in
            if norm_adv then (scores ! i - group_mean sc) / (group_std sc + epsilon)
            else scores ! i - group_mean sc) [0..<length scores]"

definition compute_grpo_outcome_advantage :: "tensor \<Rightarrow> tensor \<Rightarrow> 'g list \<Rightarrow> real \<Rightarrow> bool \<Rightarrow> tensor" where
  "compute_grpo_outcome_advantage token_level_rewards response_mask index epsilon norm_adv =
     spread (grpo_scores (row_sums token_level_rewards) index epsilon norm_adv) response_mask"

section \<open>Latent-GRPO: first-step selection\<close>

text \<open>The index of the first greatest element.\<close>

fun argmax_from :: "real \<Rightarrow> nat \<Rightarrow> nat \<Rightarrow> real list \<Rightarrow> nat" where
  "argmax_from best bi i [] = bi"
| "argmax_from best bi i (x # xs) = (if best < x then argmax_from x i (i + 1) xs else argmax_from best bi (i + 1) xs)"

definition argmax :: "real list \<Rightarrow> nat" where
  "argmax xs = (case xs of [] \<Rightarrow> 0 | x # xs' \<Rightarrow> argmax_from x 0 1 xs')"

definition start_index :: "tensor \<Rightarrow> nat \<Rightarrow> nat" where
  "start_index response_mask b = argmax (response_mask ! b)"

definition log_prob_mean :: "tensor \<Rightarrow> tensor \<Rightarrow> nat \<Rightarrow> real" where
  "log_prob_mean old_log_probs response_mask b =
     masked_sum (old_log_probs ! b) (response_mask ! b) / (sum_list (response_mask ! b) + 1 / 10 ^ 8)"

definition positive_candidates :: "tensor \<Rightarrow> tensor \<Rightarrow> nat list \<Rightarrow> nat list" where
  "positive_candidates scores response_mask batch_idxs =
     filter (\<lambda>b. 0 < scores ! b ! start_index response_mask b) batch_idxs"

text \<open>The winner among the candidates; without log-probabilities a random choice.\<close>

definition pick_winner :: "(nat list \<Rightarrow> nat) \<Rightarrow> tensor option \<Rightarrow> tensor \<Rightarrow> nat list \<Rightarrow> nat" where
  "pick_winner random_choice old_log_probs response_mask candidates =
     (case old_log_probs of
        Some lp \<Rightarrow> candidates ! argmax (map (log_prob_mean lp response_mask) candidates)
      | None \<Rightarrow> random_choice candidates)"

definition zero_others :: "tensor \<Rightarrow> nat \<Rightarrow> nat list \<Rightarrow> tensor \<Rightarrow> tensor" where
  "zero_others response_mask winner batch_idxs scores =
     foldl (\<lambda>s b. if b \<noteq> winner then s[b := (s ! b)[start_index response_mask b := 0]] else s) scores batch_idxs"

record 's ocp_fact =
  ocp_group_id :: 's
  ocp_winner_local_index :: nat
  ocp_trajectory_id :: int
  ocp_mean_old_log_prob :: "real option"

definition build_ocp_observer_fact ::
  "nat list \<Rightarrow> nat \<Rightarrow> 's list option \<Rightarrow> int list option \<Rightarrow> real option \<Rightarrow> 's ocp_fact result" where
  "build_ocp_observer_fact batch_indices winner stable_group_ids trajectory_ids mean_old_log_prob =
     (case (stable_group_ids, trajectory_ids) of
        (Some gs, Some ts) \<Rightarrow>
          (let stable_ids = map (\<lambda>b. gs ! b) batch_indices in
           if stable_ids = [] \<or> list_ex (\<lambda>v. v \<noteq> hd stable_ids) (tl stable_ids)
           then Inl (ValueError ''upstream group must map to one stable group_id'')
           else Inr \<lparr>ocp_group_id = hd stable_ids, ocp_winner_local_index = winner,
                     ocp_trajectory_id = ts ! winner, ocp_mean_old_log_prob = mean_old_log_prob\<rparr>)
      | _ \<Rightarrow> Inl (ValueError ''OCP observer data requires stable group_ids and trajectory_ids''))"

record 's ocp_config =
  oc_random_choice :: "nat list \<Rightarrow> nat"
  oc_old_log_probs :: "tensor option"
  oc_stable_group_ids :: "'s list option"
  oc_trajectory_ids :: "int list option"
  oc_return_observer_data :: bool

text \<open>One group of the selection loop, and the loop over the groups in order of first occurrence.\<close>

definition select_group ::
  "'s ocp_config \<Rightarrow> tensor \<Rightarrow> nat list \<Rightarrow> tensor \<times> 's ocp_fact list \<Rightarrow> (tensor \<times> 's ocp_fact list) result" where
  "select_group cfg response_mask batch_idxs st =
     (let (scores, observer_data) = st;
          candidates = positive_candidates scores response_mask batch_idxs
      in if candidates = [] then Inr st
         else
          let winner = pick_winner (oc_random_choice cfg) (oc_old_log_probs cfg) response_mask candidates;
              scores' = zero_others response_mask winner batch_idxs scores
          in if oc_return_observer_data cfg
             then bind_r (build_ocp_observer_fact batch_idxs winner (oc_stable_group_ids cfg) (oc_trajectory_ids cfg)
                           (map_option (\<lambda>lp. log_prob_mean lp response_mask winner) (oc_old_log_probs cfg)))
                    (\<lambda>fact. Inr (scores', observer_data @ [fact]))
             else Inr (scores', observer_data))"

fun select_groups ::
  "'s ocp_config \<Rightarrow> tensor \<Rightarrow> 'g list \<Rightarrow> 'g list \<Rightarrow> tensor \<times> 's ocp_fact list \<Rightarrow> (tensor \<times> 's ocp_fact list) result" where
  "select_groups cfg response_mask index [] st = Inr st"
| "select_groups cfg response_mask index (g # gs) st =
     bind_r (select_group cfg response_mask (members index g) st) (select_groups cfg response_mask index gs)"

text \<open>Without the overlong samples: a sample is truncated when its mask is as long as allowed.\<close>

definition truncated :: "tensor \<Rightarrow> nat option \<Rightarrow> nat \<Rightarrow> bool" where
  "truncated response_mask max_response_length i =
     (case max_response_length of None \<Rightarrow> False | Some m \<Rightarrow> sum_list (response_mask ! i) = real m)"

definition exclude_scores :: "real list \<Rightarrow> tensor \<Rightarrow> 'g list \<Rightarrow> real \<Rightarrow> bool \<Rightarrow> nat option \<Rightarrow> real list" where
  "exclude_scores scores response_mask index epsilon norm_adv max_len =
     map (\<lambda>i. let sc = map (\<lambda>j. scores ! j) (filter (\<lambda>j. \<not> truncated response_mask max_len j) (members index (index ! i))) in
            if truncated response_mask max_len i then 0
            else if norm_adv then (scores ! i - group_mean sc) / (group_std sc + epsilon)
            else scores ! i - group_mean sc) [0..<length scores]"

definition latent_grpo_exclude ::
  "'s ocp_config \<Rightarrow> tensor \<Rightarrow> tensor \<Rightarrow> 'g list \<Rightarrow> real \<Rightarrow> bool \<Rightarrow> nat option \<Rightarrow> (tensor \<times> 's ocp_fact list) result" where
  "latent_grpo_exclude cfg token_level_rewards response_mask index epsilon norm_adv max_response_length =
     select_groups cfg response_mask index (fromkeys index)
       (spread (exclude_scores (row_sums token_level_rewards) response_mask index epsilon norm_adv max_response_length) response_mask, [])"

definition latent_grpo_include ::
  "'s ocp_config \<Rightarrow> tensor \<Rightarrow> tensor \<Rightarrow> 'g list \<Rightarrow> real \<Rightarrow> bool \<Rightarrow> (tensor \<times> 's ocp_fact list) result" where
  "latent_grpo_include cfg token_level_rewards response_mask index epsilon norm_adv =
     select_groups cfg response_mask index (fromkeys index)
       (spread (grpo_scores (row_sums token_level_rewards) index epsilon norm_adv) response_mask, [])"

section \<open>The other estimators\<close>

text \<open>Pass@k: only the best of a group, by its margin over the second best.\<close>

fun remove_nth :: "nat \<Rightarrow> 'a list \<Rightarrow> 'a list" where
  "remove_nth n [] = []"
| "remove_nth 0 (x # xs) = xs"
| "remove_nth (Suc n) (x # xs) = x # remove_nth n xs"

definition passk_step :: "real list \<Rightarrow> 'g list \<Rightarrow> real \<Rightarrow> bool \<Rightarrow> real list \<Rightarrow> 'g \<Rightarrow> real list result" where
  "passk_step scores index epsilon norm_adv advantages g =
     (let ms = members index g; rewards = map (\<lambda>j. scores ! j) ms in
      if length rewards < 2 then Inl (ValueError ''Pass@k requires at least 2 samples per group.'')
      else let i = argmax rewards;
               margin = rewards ! i - Max (set (remove_nth i rewards));
               adv = (if norm_adv then margin / (std_of rewards + epsilon) else margin)
           in Inr (advantages[ms ! i := adv]))"

fun passk_loop :: "real list \<Rightarrow> 'g list \<Rightarrow> real \<Rightarrow> bool \<Rightarrow> 'g list \<Rightarrow> real list \<Rightarrow> real list result" where
  "passk_loop scores index epsilon norm_adv [] advantages = Inr advantages"
| "passk_loop scores index epsilon norm_adv (g # gs) advantages =
     bind_r (passk_step scores index epsilon norm_adv advantages g) (passk_loop scores index epsilon norm_adv gs)"

definition compute_grpo_passk_outcome_advantage :: "tensor \<Rightarrow> tensor \<Rightarrow> 'g list \<Rightarrow> real \<Rightarrow> bool \<Rightarrow> tensor result" where
  "compute_grpo_passk_outcome_advantage token_level_rewards response_mask index epsilon norm_adv =
     (let scores = row_sums token_level_rewards in
      bind_r (passk_loop scores index epsilon norm_adv (fromkeys index) (replicate (length scores) 0)) (\<lambda>adv.
        Inr (spread adv response_mask)))"

definition rloo_scores :: "real list \<Rightarrow> 'g list \<Rightarrow> real list" where
  "rloo_scores scores index =
     map (\<lambda>i. let sc = map (\<lambda>j. scores ! j) (members index (index ! i)); n = real (length sc) in
            if 1 < length sc then scores ! i * n / (n - 1) - group_mean sc * n / (n - 1) else scores ! i)
       [0..<length scores]"

definition compute_rloo_outcome_advantage :: "tensor \<Rightarrow> tensor \<Rightarrow> 'g list \<Rightarrow> tensor" where
  "compute_rloo_outcome_advantage token_level_rewards response_mask index =
     spread (rloo_scores (row_sums token_level_rewards) index) response_mask"

definition compute_reinforce_plus_plus_baseline :: "tensor \<Rightarrow> tensor \<Rightarrow> 'g list \<Rightarrow> tensor result" where
  "compute_reinforce_plus_plus_baseline token_level_rewards response_mask index =
     (let scores = grpo_scores (row_sums token_level_rewards) index 0 False in
      bind_r (whiten_rows (spread scores response_mask) response_mask) (\<lambda>w.
        Inr (map2 (map2 (*)) w response_mask)))"

text \<open>OPO: the length-weighted baseline; its division is 0/0 when no response has a token.\<close>

definition opo_baseline :: "real list \<Rightarrow> real list \<Rightarrow> fl" where
  "opo_baseline sc lens =
     (if length sc \<le> 1 then Fin 0
      else if sum_list lens = 0 then NaN
      else Fin (sum_list (map2 (*) lens sc) / sum_list lens))"

definition compute_opo_outcome_advantage :: "tensor \<Rightarrow> tensor \<Rightarrow> 'g list \<Rightarrow> fl list list" where
  "compute_opo_outcome_advantage token_level_rewards response_mask index =
     (let scores = row_sums token_level_rewards; lens = row_sums response_mask in
      map2 (\<lambda>i row. map (\<lambda>m. case opo_baseline (map (\<lambda>j. scores ! j) (members index (index ! i)))
                                    (map (\<lambda>j. lens ! j) (members index (index ! i))) of
                              Fin b \<Rightarrow> Fin ((scores ! i - b) * m) | _ \<Rightarrow> NaN) row)
        [0..<length scores] response_mask)"

text \<open>REINFORCE++: discounted returns from the right, reset after the end of the response.\<close>

fun running_returns :: "real \<Rightarrow> real list \<Rightarrow> real list \<Rightarrow> real list \<times> real" where
  "running_returns gamma (r # rs) (m # ms) =
     (let (rets, running) = running_returns gamma rs ms;
          ret = r + gamma * running
      in (ret # rets, ret * m))"
| "running_returns gamma _ _ = ([], 0)"

definition compute_reinforce_plus_plus :: "tensor \<Rightarrow> tensor \<Rightarrow> real \<Rightarrow> (tensor \<times> tensor) result" where
  "compute_reinforce_plus_plus token_level_rewards response_mask gamma =
     (let rets = map2 (\<lambda>r m. fst (running_returns gamma r m)) token_level_rewards response_mask in
      bind_r (whiten_rows rets response_mask) (\<lambda>w. Inr (map2 (map2 (*)) w response_mask, rets)))"

fun suffix_sums :: "real list \<Rightarrow> real list" where
  "suffix_sums [] = []"
| "suffix_sums (x # xs) = sum_list (x # xs) # suffix_sums xs"

definition compute_remax_outcome_advantage :: "tensor \<Rightarrow> real list \<Rightarrow> tensor \<Rightarrow> tensor \<times> tensor" where
  "compute_remax_outcome_advantage token_level_rewards reward_baselines response_mask =
     (let rets = map2 (\<lambda>r m. suffix_sums (map2 (*) r m)) token_level_rewards response_mask in
      (map2 (\<lambda>ret (b, m). map2 (\<lambda>x mm. x - b * mm) ret m) rets (zip reward_baselines response_mask), rets))"

text \<open>GAE: the recursion over the steps from the right; returns are advantages plus values.\<close>

fun gae_row :: "real \<Rightarrow> real \<Rightarrow> real list \<Rightarrow> real list \<Rightarrow> real list" where
  "gae_row gamma lam (r # rs) (v # vs) =
     (let rest = gae_row gamma lam rs vs;
          nextvalue = (case vs of [] \<Rightarrow> 0 | v' # _ \<Rightarrow> v');
          delta = r + gamma * nextvalue - v;
          lastgaelam = (case rest of [] \<Rightarrow> 0 | a # _ \<Rightarrow> a)
      in (delta + gamma * lam * lastgaelam) # rest)"
| "gae_row gamma lam _ _ = []"

definition compute_gae_advantage_return :: "tensor \<Rightarrow> tensor \<Rightarrow> tensor \<Rightarrow> real \<Rightarrow> real \<Rightarrow> (tensor \<times> tensor) result" where
  "compute_gae_advantage_return token_level_rewards vals response_mask gamma lam =
     (let advantages = map2 (gae_row gamma lam) token_level_rewards vals;
          rets = map2 (map2 (+)) advantages vals
      in bind_r (whiten_rows advantages response_mask) (\<lambda>w. Inr (w, rets)))"

definition compute_rewards :: "tensor \<Rightarrow> tensor \<Rightarrow> tensor \<Rightarrow> real \<Rightarrow> tensor" where
  "compute_rewards token_level_scores old_log_prob ref_log_prob kl_ratio =
     map2 (map2 (-)) token_level_scores
       (map2 (map2 (\<lambda>o' r. (o' - r) * kl_ratio)) old_log_prob ref_log_prob)"

section \<open>Losses\<close>

definition agg_loss :: "tensor \<Rightarrow> tensor \<Rightarrow> string \<Rightarrow> fl result" where
  "agg_loss loss_mat loss_mask loss_agg_mode =
    (if loss_agg_mode = ''token-mean'' then Inr (Fin (masked_mean (concat loss_mat) (concat loss_mask)))
     else if loss_agg_mode = ''seq-mean-token-sum'' then
       Inr (if loss_mat = [] then NaN else Fin (mean_of (map2 masked_sum loss_mat loss_mask)))
     else if loss_agg_mode = ''seq-mean-token-mean'' then
       Inr (if loss_mat = [] \<or> list_ex (\<lambda>m. sum_list m = 0) loss_mask then NaN
            else Fin (mean_of (map2 (\<lambda>l m. masked_sum l m / sum_list m) loss_mat loss_mask)))
     else if loss_agg_mode = ''seq-mean-token-sum-norm'' then
       Inr (Fin (sum_list (map2 masked_sum loss_mat loss_mask) / real (length (hd loss_mask))))
     else Inl (ValueError ''Invalid loss_agg_mode''))"

text \<open>The policy loss of one token, and whether its clip acted from above and from below.\<close>

record token_loss =
  tl_loss :: real
  tl_clipped :: bool
  tl_clipped_lower :: bool
  tl_kl :: real
  tl_ratio :: real

definition policy_token :: "real \<Rightarrow> real \<Rightarrow> real \<Rightarrow> real \<Rightarrow> real \<Rightarrow> real \<Rightarrow> real \<Rightarrow> real \<Rightarrow> token_loss" where
  "policy_token clip_low clip_high clip_ratio_c neg_adv_weight old_lp lp adv m =
    (let valid = (m \<noteq> 0);
         lp' = (if valid then lp else 0); old' = (if valid then old_lp else 0); adv' = (if valid then adv else 0);
         negative_approx_kl = lp' - old';
         ratio = exp negative_approx_kl;
         losses1 = - adv' * ratio;
         losses2 = - adv' * clamp ratio (1 - clip_low) (1 + clip_high);
         clip1 = max losses1 losses2;
         losses3 = - adv' * clip_ratio_c;
         clip2 = min losses3 clip1
     in \<lparr>tl_loss = (if adv' < 0 then clip2 * neg_adv_weight else clip1),
         tl_clipped = (losses1 < losses2),
         tl_clipped_lower = (losses3 < clip1 \<and> adv' < 0),
         tl_kl = - negative_approx_kl, tl_ratio = ratio\<rparr>)"

definition map4 :: "('a \<Rightarrow> 'b \<Rightarrow> 'c \<Rightarrow> 'd \<Rightarrow> 'e) \<Rightarrow> 'a list \<Rightarrow> 'b list \<Rightarrow> 'c list \<Rightarrow> 'd list \<Rightarrow> 'e list" where
  "map4 f as bs cs ds = map (\<lambda>(a, b, c, d). f a b c d) (zip as (zip bs (zip cs ds)))"

definition compute_policy_loss ::
  "tensor \<Rightarrow> tensor \<Rightarrow> tensor \<Rightarrow> tensor \<Rightarrow> real \<Rightarrow> real option \<Rightarrow> real option \<Rightarrow> real \<Rightarrow> real \<Rightarrow> string \<Rightarrow>
   (fl \<times> real \<times> real \<times> real \<times> token_loss list list) result" where
  "compute_policy_loss old_log_prob log_prob advantages response_mask cliprange cliprange_low cliprange_high
     clip_ratio_c neg_adv_weight loss_agg_mode =
    bind_r (check_r (1 < clip_ratio_c) AssertionError) (\<lambda>_.
    let lo = (case cliprange_low of None \<Rightarrow> cliprange | Some c \<Rightarrow> c);
        hi = (case cliprange_high of None \<Rightarrow> cliprange | Some c \<Rightarrow> c);
        toks = map4 (map4 (policy_token lo hi clip_ratio_c neg_adv_weight)) old_log_prob log_prob advantages response_mask;
        flat_mask = concat response_mask;
        ind = (\<lambda>b. if b then 1 else 0)
    in bind_r (agg_loss (map (map tl_loss) toks) response_mask loss_agg_mode) (\<lambda>pg_loss.
       Inr (pg_loss,
            masked_mean (map (ind \<circ> tl_clipped) (concat toks)) flat_mask,
            masked_mean (map tl_kl (concat toks)) flat_mask,
            masked_mean (map (ind \<circ> tl_clipped_lower) (concat toks)) flat_mask,
            toks)))"

definition compute_value_loss ::
  "tensor \<Rightarrow> tensor \<Rightarrow> tensor \<Rightarrow> tensor \<Rightarrow> real \<Rightarrow> string \<Rightarrow> (fl \<times> real) result" where
  "compute_value_loss vpreds rets vals response_mask cliprange_value loss_agg_mode =
    (let per = (\<lambda>vp r v _. let clipped = clip_by_value vp (v - cliprange_value) (v + cliprange_value)
                  in ((vp - r)\<^sup>2, (clipped - r)\<^sup>2));
         pairs = map4 (map4 per) vpreds rets vals response_mask
     in bind_r (agg_loss (map (map (\<lambda>(a, b). max a b)) pairs) response_mask loss_agg_mode) (\<lambda>vf_loss.
        Inr (vf_loss, masked_mean (map (\<lambda>(a, b). if a < b then 1 else 0) (concat pairs)) (concat response_mask))))"

definition kl_penalty :: "real \<Rightarrow> real \<Rightarrow> string \<Rightarrow> real result" where
  "kl_penalty logprob ref_logprob mode =
    (if mode \<in> {''kl'', ''k1''} then Inr (logprob - ref_logprob)
     else if mode = ''abs'' then Inr \<bar>logprob - ref_logprob\<bar>
     else if mode \<in> {''mse'', ''k2''} then Inr (1 / 2 * (logprob - ref_logprob)\<^sup>2)
     else if mode \<in> {''low_var_kl'', ''k3''} then
       (let kl = ref_logprob - logprob; ratio = exp kl; kld = ratio - kl - 1 in Inr (clamp kld (- 10) 10))
     else Inl NotImplementedError)"

definition pf_ppo_weights :: "real list \<Rightarrow> string \<Rightarrow> real \<Rightarrow> real list result" where
  "pf_ppo_weights scores reweight_method weight_pow =
    bind_r (if reweight_method = ''pow'' then Inr (map (\<lambda>s. \<bar>s\<bar> powr weight_pow) scores)
            else if reweight_method = ''max_min'' then
              Inr (map (\<lambda>s. if s = Max (set scores) \<or> s = Min (set scores) then 1 else 0) scores)
            else if reweight_method = ''max_random'' then
              Inr (map (\<lambda>s. if s = Max (set scores) then 4 / 10 else 1 / 10) scores)
            else Inl (ValueError ''Unsupported reweight_method''))
     (\<lambda>ws. Inr (map (\<lambda>w. max (w + 1 / 10 ^ 8) (1 / 10 ^ 8)) ws))"

section \<open>ray_trainer.py\<close>

text \<open>\<open>row[-n:]\<close>: with \<open>n = 0\<close> the slice is the whole row.\<close>

definition last_cols :: "nat \<Rightarrow> 'a list \<Rightarrow> 'a list" where
  "last_cols n row = (if n = 0 then row else drop (length row - n) row)"

definition compute_response_mask :: "nat \<Rightarrow> tensor \<Rightarrow> tensor" where
  "compute_response_mask response_length attention_mask = map (last_cols response_length) attention_mask"

definition apply_kl_penalty ::
  "tensor \<Rightarrow> tensor \<Rightarrow> tensor \<Rightarrow> tensor \<Rightarrow> kl_controller \<Rightarrow> string \<Rightarrow> (tensor \<times> kl_controller \<times> real \<times> real) result" where
  "apply_kl_penalty token_level_scores old_log_probs ref_log_prob response_mask ctrl mode =
    bind_r (map_r (\<lambda>(ls, rs). map_r (\<lambda>(l, r). kl_penalty l r mode) (zip ls rs)) (zip old_log_probs ref_log_prob)) (\<lambda>kld0.
    let kld = map2 (map2 (*)) kld0 response_mask;
        beta = kl_value ctrl;
        rewards = map2 (map2 (\<lambda>s k. s - beta * k)) token_level_scores kld;
        current_kl = mean_of (map2 masked_mean kld response_mask)
    in Inr (rewards, kl_update ctrl current_kl (real (length token_level_scores)), current_kl, beta))"

datatype adv_estimator = GAE | GRPO | ReinforcePP | ReinforcePPBaseline | Remax | RLOO | OPO | GrpoPassk | OtherEstimator

text \<open>
  \<open>compute_advantage\<close>: every estimator fills the advantages and the returns, but only the GRPO
  branch binds \<open>id2stds\<close>, which the function returns at the end; an unbound local raises.
\<close>

record ('g, 's) adv_batch =
  ab_rewards :: tensor
  ab_values :: tensor
  ab_response_mask :: tensor
  ab_baselines :: "real list"
  ab_uid :: "'g list"

definition unbound_id2stds :: "'a \<Rightarrow> 'b result" where
  "unbound_id2stds _ = Inl (RuntimeError ''UnboundLocalError: id2stds'')"

definition compute_advantage ::
  "('g, 's) adv_batch \<Rightarrow> 's ocp_config \<Rightarrow> adv_estimator \<Rightarrow> real \<Rightarrow> real \<Rightarrow> bool \<Rightarrow> bool \<Rightarrow>
   (fl list list \<times> ('g \<Rightarrow> real) \<times> 's ocp_fact list) result" where
  "compute_advantage ab cfg est gamma lam norm_adv exclude_overlong =
    (let fin = map (map Fin); eps = 1 / 10 ^ 6 in
     case est of
       GRPO \<Rightarrow>
         (let msk = ab_response_mask ab; scores = row_sums (ab_rewards ab); index = ab_uid ab;
              max_len = (if exclude_overlong then Some (length (hd msk)) else None);
              stds = (\<lambda>g. group_std (map (\<lambda>j. scores ! j) (filter (\<lambda>j. \<not> truncated msk max_len j) (members index g))))
          in bind_r (if exclude_overlong then latent_grpo_exclude cfg (ab_rewards ab) msk index eps norm_adv max_len
                     else latent_grpo_include cfg (ab_rewards ab) msk index eps norm_adv)
               (\<lambda>(adv, facts). Inr (fin adv, stds, facts)))
     | GAE \<Rightarrow> bind_r (compute_gae_advantage_return (ab_rewards ab) (ab_values ab) (ab_response_mask ab) gamma lam) unbound_id2stds
     | ReinforcePP \<Rightarrow> bind_r (compute_reinforce_plus_plus (ab_rewards ab) (ab_response_mask ab) gamma) unbound_id2stds
     | ReinforcePPBaseline \<Rightarrow>
         bind_r (compute_reinforce_plus_plus_baseline (ab_rewards ab) (ab_response_mask ab) (ab_uid ab)) unbound_id2stds
     | Remax \<Rightarrow> bind_r (Inr (compute_remax_outcome_advantage (ab_rewards ab) (ab_baselines ab) (ab_response_mask ab))) unbound_id2stds
     | RLOO \<Rightarrow> bind_r (Inr (compute_rloo_outcome_advantage (ab_rewards ab) (ab_response_mask ab) (ab_uid ab))) unbound_id2stds
     | OPO \<Rightarrow> bind_r (Inr (compute_opo_outcome_advantage (ab_rewards ab) (ab_response_mask ab) (ab_uid ab))) unbound_id2stds
     | GrpoPassk \<Rightarrow>
         bind_r (compute_grpo_passk_outcome_advantage (ab_rewards ab) (ab_response_mask ab) (ab_uid ab) eps norm_adv) unbound_id2stds
     | OtherEstimator \<Rightarrow> Inl NotImplementedError)"

text \<open>Dynamic sampling: keep the groups with a positive deviation or a single sample.\<close>

definition np_std :: "real list \<Rightarrow> real" where
  "np_std xs = sqrt (sum_list (map (\<lambda>x. (x - mean_of xs)\<^sup>2) xs) / real (length xs))"

definition kept_prompt_uids :: "'g list \<Rightarrow> real list \<Rightarrow> 'g list" where
  "kept_prompt_uids uids metric =
     filter (\<lambda>u. let vals = map (\<lambda>j. metric ! j) (members uids u) in 0 < np_std vals \<or> length vals = 1) (fromkeys uids)"

definition kept_traj_idxs :: "'g list \<Rightarrow> real list \<Rightarrow> nat list" where
  "kept_traj_idxs uids metric =
     filter (\<lambda>i. uids ! i \<in> set (kept_prompt_uids uids metric)) [0..<length uids]"

record ('g, 'd) sampling =
  sm_acc :: "('g \<times> 'd) list"
  sm_num_prompt :: nat
  sm_num_gen :: int

datatype ('g, 'd) sampling_result = KeepGenerating "('g, 'd) sampling" | BatchReady "('g \<times> 'd) list"

definition filter_groups_step ::
  "nat \<Rightarrow> int \<Rightarrow> nat \<Rightarrow> ('g, 'd) sampling \<Rightarrow> ('g \<times> 'd) list \<Rightarrow> real list \<Rightarrow> ('g, 'd) sampling_result result" where
  "filter_groups_step prompt_bsz max_num_gen_batches expected_n s batch metric =
    (let uids = map fst batch;
         num' = sm_num_prompt s + length (kept_prompt_uids uids metric);
         acc' = sm_acc s @ map (\<lambda>i. batch ! i) (kept_traj_idxs uids metric)
     in if num' < prompt_bsz then
          (if max_num_gen_batches \<le> 0 \<or> sm_num_gen s < max_num_gen_batches
           then Inr (KeepGenerating \<lparr>sm_acc = acc', sm_num_prompt = num', sm_num_gen = sm_num_gen s + 1\<rparr>)
           else Inl (ValueError ''Filtered too many samples.''))
        else
          let kept_uids = take prompt_bsz (fromkeys (map fst acc'));
              ready = filter (\<lambda>x. fst x \<in> set kept_uids) acc'
          in bind_r (check_r (list_all (\<lambda>u. count_list (map fst ready) u = expected_n) (fromkeys (map fst ready))) AssertionError) (\<lambda>_.
             bind_r (check_r (length (fromkeys (map fst ready)) = prompt_bsz) AssertionError)
               (\<lambda>_. Inr (BatchReady ready))))"

end
