(* ===== verification/LatentGrpoOk.thy ===== *)
theory LatentGrpoOk
  imports LatentGrpo
begin

text \<open>
  What the estimators, the losses and dynamic sampling of \<open>LatentGrpo\<close> compute: the
  first-step selection group by group, the normalisation of group scores, RLOO as a leave-one-out
  baseline, the closed form of the clipped policy loss, and the batches dynamic sampling delivers.
\<close>

section \<open>Groups and argmax\<close>

lemma set_members: "set (members index g) = {i. i < length index \<and> index ! i = g}"
  by (auto simp: members_def)

lemma distinct_members: "distinct (members index g)"
  by (simp add: members_def)

lemma members_disjoint: "g \<noteq> h \<Longrightarrow> set (members index g) \<inter> set (members index h) = {}"
  by (auto simp: set_members)

lemma argmax_from_ok:
  assumes "\<forall>x\<in>set ys. x \<le> best" and "bi < length ys" and "ys ! bi = best" and "i = length ys"
  shows "argmax_from best bi i xs < length ys + length xs \<and>
    (\<forall>x\<in>set (ys @ xs). x \<le> (ys @ xs) ! argmax_from best bi i xs)"
  using assms
proof (induction xs arbitrary: ys best bi i)
  case Nil
  then show ?case by simp
next
  case (Cons x xs)
  have app: "(ys @ [x]) @ xs = ys @ x # xs"
    by simp
  show ?case
  proof (cases "best < x")
    case True
    have "\<forall>y\<in>set (ys @ [x]). y \<le> x" "i < length (ys @ [x])" "(ys @ [x]) ! i = x" "i + 1 = length (ys @ [x])"
      using Cons.prems True by (auto intro: order_trans less_imp_le)
    from Cons.IH [OF this] True show ?thesis
      unfolding app by simp
  next
    case False
    have "\<forall>y\<in>set (ys @ [x]). y \<le> best" "bi < length (ys @ [x])" "(ys @ [x]) ! bi = best" "i + 1 = length (ys @ [x])"
      using Cons.prems False by (auto simp: nth_append)
    from Cons.IH [OF this] False show ?thesis
      unfolding app by simp
  qed
qed

lemma argmax_ok: "xs \<noteq> [] \<Longrightarrow> argmax xs < length xs \<and> (\<forall>x\<in>set xs. x \<le> xs ! argmax xs)"
proof (cases xs)
  case (Cons x xs')
  then show ?thesis
    using argmax_from_ok [of "[x]" x 0 1 xs'] by (simp add: argmax_def)
qed simp

section \<open>First-step selection\<close>

lemma zero_others_ok:
  "distinct bs \<Longrightarrow> \<forall>b\<in>set bs. b < length S \<Longrightarrow>
   length (zero_others msk w bs S) = length S \<and>
   (\<forall>b. zero_others msk w bs S ! b = (if b \<in> set bs \<and> b \<noteq> w then (S ! b)[start_index msk b := 0] else S ! b))"
proof (induction bs arbitrary: S)
  case Nil
  then show ?case by (simp add: zero_others_def)
next
  case (Cons x bs)
  let ?S = "if x \<noteq> w then S[x := (S ! x)[start_index msk x := 0]] else S"
  have "zero_others msk w (x # bs) S = zero_others msk w bs ?S"
    by (simp add: zero_others_def)
  moreover have "length ?S = length S" "distinct bs" "\<forall>b\<in>set bs. b < length ?S"
    using Cons.prems by auto
  ultimately show ?case
    using Cons.IH [of ?S] Cons.prems by (auto simp: nth_list_update)
qed

text \<open>The specification of the selection: the rows of one group.\<close>

definition group_selected :: "'s ocp_config \<Rightarrow> tensor \<Rightarrow> tensor \<Rightarrow> nat list \<Rightarrow> tensor \<Rightarrow> bool" where
  "group_selected cfg msk S bs A =
     (let cs = positive_candidates S msk bs in
      if cs = [] then \<forall>b\<in>set bs. A ! b = S ! b
      else \<exists>w\<in>set cs.
        (\<forall>lp. oc_old_log_probs cfg = Some lp \<longrightarrow> (\<forall>c\<in>set cs. log_prob_mean lp msk c \<le> log_prob_mean lp msk w)) \<and>
        A ! w = S ! w \<and> (\<forall>b\<in>set bs. b \<noteq> w \<longrightarrow> A ! b = (S ! b)[start_index msk b := 0]))"

definition choice_ok :: "'s ocp_config \<Rightarrow> bool" where
  "choice_ok cfg = (\<forall>cs. cs \<noteq> [] \<longrightarrow> oc_random_choice cfg cs \<in> set cs)"

lemma pick_winner_ok:
  assumes "cs \<noteq> []" and "choice_ok cfg"
  shows "pick_winner (oc_random_choice cfg) (oc_old_log_probs cfg) msk cs \<in> set cs \<and>
    (\<forall>lp. oc_old_log_probs cfg = Some lp \<longrightarrow> (\<forall>c\<in>set cs. log_prob_mean lp msk c \<le>
        log_prob_mean lp msk (pick_winner (oc_random_choice cfg) (oc_old_log_probs cfg) msk cs)))"
proof (cases "oc_old_log_probs cfg")
  case None
  then show ?thesis
    using assms by (simp add: pick_winner_def choice_ok_def)
next
  case (Some lp)
  let ?xs = "map (log_prob_mean lp msk) cs"
  have "argmax ?xs < length cs" "\<forall>x\<in>set ?xs. x \<le> ?xs ! argmax ?xs"
    using argmax_ok [of ?xs] assms(1) by auto
  then show ?thesis
    using Some by (simp add: pick_winner_def)
qed

lemma select_group_ok:
  assumes "select_group cfg msk bs (S, obs) = Inr (A, obs')" and "distinct bs" and "\<forall>b\<in>set bs. b < length S"
    and "choice_ok cfg"
  shows "length A = length S \<and> (\<forall>b. b \<notin> set bs \<longrightarrow> A ! b = S ! b) \<and> group_selected cfg msk S bs A"
proof (cases "positive_candidates S msk bs = []")
  case True
  then show ?thesis
    using assms(1) by (auto simp: select_group_def group_selected_def)
next
  case False
  let ?w = "pick_winner (oc_random_choice cfg) (oc_old_log_probs cfg) msk (positive_candidates S msk bs)"
  have A: "A = zero_others msk ?w bs S"
    using assms(1) False by (auto simp: select_group_def Let_def bind_r_Inr_iff split: if_splits)
  note z = zero_others_ok [OF assms(2,3), of msk ?w]
  note w = pick_winner_ok [OF False assms(4), of msk]
  have "group_selected cfg msk S bs A"
    unfolding group_selected_def Let_def using False w z A by auto
  then show ?thesis
    using z A by auto
qed

lemma positive_candidates_cong:
  "(\<And>b. b \<in> set bs \<Longrightarrow> S ! b = S' ! b) \<Longrightarrow> positive_candidates S msk bs = positive_candidates S' msk bs"
  unfolding positive_candidates_def by (rule filter_cong) auto

lemma group_selected_cong:
  assumes "\<And>b. b \<in> set bs \<Longrightarrow> S ! b = S' ! b" and "\<And>b. b \<in> set bs \<Longrightarrow> A ! b = A' ! b"
    and "group_selected cfg msk S bs A"
  shows "group_selected cfg msk S' bs A'"
proof -
  have p: "positive_candidates S msk bs = positive_candidates S' msk bs"
    by (rule positive_candidates_cong) (rule assms(1))
  have sub: "set (positive_candidates S' msk bs) \<subseteq> set bs"
    by (auto simp: positive_candidates_def)
  show ?thesis
    using assms(3) assms(1,2) sub unfolding group_selected_def Let_def p
    by (auto split: if_splits) (metis subsetD)
qed

lemma select_groups_ok:
  "select_groups cfg msk index gs (S, obs) = Inr (A, obs') \<Longrightarrow> distinct gs \<Longrightarrow> length S = length index \<Longrightarrow> choice_ok cfg \<Longrightarrow>
   length A = length S \<and> (\<forall>b. (\<forall>g\<in>set gs. b \<notin> set (members index g)) \<longrightarrow> A ! b = S ! b) \<and>
   (\<forall>g\<in>set gs. group_selected cfg msk S (members index g) A)"
proof (induction gs arbitrary: S obs)
  case Nil
  then show ?case by simp
next
  case (Cons g gs)
  obtain S1 obs1 where one: "select_group cfg msk (members index g) (S, obs) = Inr (S1, obs1)"
      "select_groups cfg msk index gs (S1, obs1) = Inr (A, obs')"
    using Cons.prems(1) by (auto simp: bind_r_Inr_iff)
  have "\<forall>b\<in>set (members index g). b < length S"
    using Cons.prems(3) by (auto simp: set_members)
  note s1 = select_group_ok [OF one(1) distinct_members this Cons.prems(4)]
  have "length S1 = length index" "distinct gs"
    using s1 Cons.prems by auto
  note IH = Cons.IH [OF one(2) this(2,1) Cons.prems(4)]
  have keep_g: "A ! b = S1 ! b" if "b \<in> set (members index g)" for b
  proof -
    have "\<forall>h\<in>set gs. b \<notin> set (members index h)"
      using that Cons.prems(2) by (auto simp: set_members)
    then show ?thesis
      using IH by blast
  qed
  have g: "group_selected cfg msk S (members index g) A"
    by (rule group_selected_cong [of "members index g" S S S1 A]) (use s1 keep_g in auto)
  have rest: "group_selected cfg msk S (members index h) A" if "h \<in> set gs" for h
  proof (rule group_selected_cong [of "members index h" S1 S A A])
    show "group_selected cfg msk S1 (members index h) A"
      using IH that by blast
    show "S1 ! b = S ! b" if "b \<in> set (members index h)" for b
      using s1 that \<open>h \<in> set gs\<close> Cons.prems(2) members_disjoint [of g h index] by fastforce
  qed simp
  show ?case
    using IH s1 g rest by auto
qed

lemma select_groups_total:
  "\<not> oc_return_observer_data cfg \<Longrightarrow> \<exists>A. select_groups cfg msk index gs (S, obs) = Inr (A, obs)"
proof (induction gs arbitrary: S)
  case Nil
  then show ?case by simp
next
  case (Cons g gs)
  obtain S1 where "select_group cfg msk (members index g) (S, obs) = Inr (S1, obs)"
    using Cons.prems by (cases "positive_candidates S msk (members index g) = []") (auto simp: select_group_def Let_def)
  then show ?case
    using Cons by simp
qed

lemma length_spread [simp]: "length (spread s m) = min (length s) (length m)"
  by (simp add: spread_def)

lemma selected_all_groups:
  assumes "select_groups cfg msk index (fromkeys index) (S, []) = Inr (A, facts)" and "length S = length index"
    and "choice_ok cfg"
  shows "\<forall>g\<in>set index. group_selected cfg msk S (members index g) A"
  using select_groups_ok [OF assms(1)] fromkeys_set [of index] assms(2,3) by auto

lemma start_index_less:
  assumes "b < length msk" and "\<forall>m\<in>set msk. m \<noteq> []"
  shows "start_index msk b < length (msk ! b)"
proof -
  have "msk ! b \<noteq> []"
    using assms nth_mem by blast
  then show ?thesis
    using argmax_ok by (auto simp: start_index_def)
qed

lemma truncated_no_candidate:
  assumes "length scores = length index" and "length msk = length index" and "\<forall>m\<in>set msk. m \<noteq> []"
    and "b \<in> set (positive_candidates (spread (exclude_scores scores msk index eps nm ml) msk) msk (members index g))"
  shows "\<not> truncated msk ml b"
proof
  assume t: "truncated msk ml b"
  have b: "b < length index" "0 < spread (exclude_scores scores msk index eps nm ml) msk ! b ! start_index msk b"
    using assms(4) by (auto simp: positive_candidates_def set_members)
  have "exclude_scores scores msk index eps nm ml ! b = 0"
    using b(1) t assms(1) by (simp add: exclude_scores_def Let_def)
  then have "spread (exclude_scores scores msk index eps nm ml) msk ! b = map (\<lambda>m. 0 * m) (msk ! b)"
    using b(1) assms(1,2) by (simp add: spread_def exclude_scores_def)
  then have "spread (exclude_scores scores msk index eps nm ml) msk ! b ! start_index msk b = 0"
    using start_index_less [of b msk] assms(2,3) b(1) by simp
  with b(2) show False
    by simp
qed

section \<open>Normalisation of a group\<close>

lemma sum_list_centered: "xs \<noteq> [] \<Longrightarrow> sum_list (map (\<lambda>x. x - mean_of xs) xs) = 0"
  by (simp add: sum_list_subtractf sum_list_triv mean_of_def)

lemma exclude_none: "length scores = length index \<Longrightarrow> exclude_scores scores msk index eps nm None = grpo_scores scores index eps nm"
  by (simp add: exclude_scores_def grpo_scores_def truncated_def)

text \<open>The non-truncated members of a group, and their normalised scores.\<close>

definition scored :: "tensor \<Rightarrow> nat option \<Rightarrow> 'g list \<Rightarrow> 'g \<Rightarrow> nat list" where
  "scored msk ml index g = filter (\<lambda>j. \<not> truncated msk ml j) (members index g)"

lemma exclude_scores_group:
  assumes "length scores = length index"
  shows "map (\<lambda>i. exclude_scores scores msk index eps nm ml ! i) (scored msk ml index g) =
    (let sc = map (\<lambda>j. scores ! j) (scored msk ml index g) in
     map (\<lambda>x. if nm then (x - group_mean sc) / (group_std sc + eps) else x - group_mean sc) sc)"
proof -
  have "exclude_scores scores msk index eps nm ml ! i =
      (let sc = map (\<lambda>j. scores ! j) (scored msk ml index g) in
       if nm then (scores ! i - group_mean sc) / (group_std sc + eps) else scores ! i - group_mean sc)"
    if "i \<in> set (scored msk ml index g)" for i
  proof -
    have "i < length scores" "index ! i = g" "\<not> truncated msk ml i"
      using that assms by (auto simp: scored_def set_members)
    then show ?thesis
      by (simp add: exclude_scores_def scored_def Let_def)
  qed
  then show ?thesis
    by (simp add: Let_def)
qed

lemma sum_list_divide:
  fixes c :: real
  shows "sum_list (map (\<lambda>x. f x / c) xs) = sum_list (map f xs) / c"
  by (induction xs) (simp_all add: add_divide_distrib)

lemma group_sum_zero:
  fixes xs :: "real list"
  assumes "2 \<le> length xs"
  shows "sum_list (map (\<lambda>x. if nm then (x - group_mean xs) / (group_std xs + eps) else x - group_mean xs) xs) = 0"
proof -
  have m: "group_mean xs = mean_of xs"
    using assms by (simp add: group_mean_def)
  have z: "sum_list (map (\<lambda>x. x - group_mean xs) xs) = 0"
    unfolding m using assms by (intro sum_list_centered) auto
  show ?thesis
  proof (cases nm)
    case True
    have "sum_list (map (\<lambda>x. (x - group_mean xs) / (group_std xs + eps)) xs) =
        sum_list (map (\<lambda>x. x - group_mean xs) xs) / (group_std xs + eps)"
      by (rule sum_list_divide)
    then show ?thesis
      using True z by simp
  next
    case False
    then show ?thesis
      using z by simp
  qed
qed

lemma group_square_bound:
  fixes xs :: "real list"
  assumes n: "2 \<le> length xs" and eps: "0 < eps"
  shows "sum_list (map (\<lambda>x. ((x - group_mean xs) / (group_std xs + eps))\<^sup>2) xs) \<le> real (length xs) - 1"
proof -
  let ?S = "sum_list (map (\<lambda>x. (x - mean_of xs)\<^sup>2) xs)"
  have S0: "0 \<le> ?S"
    by (rule sum_list_nonneg) auto
  have n1: "0 < real (length xs) - 1"
    using n by linarith
  have sd: "group_std xs = sqrt (?S / (real (length xs) - 1))" and m: "group_mean xs = mean_of xs"
    using n by (simp_all add: group_std_def std_of_def group_mean_def)
  have sd0: "0 \<le> group_std xs"
    unfolding sd using S0 n1 by simp
  have sq: "(group_std xs)\<^sup>2 = ?S / (real (length xs) - 1)"
    unfolding sd using S0 n1 by simp
  have le: "(group_std xs)\<^sup>2 \<le> (group_std xs + eps)\<^sup>2"
    using sd0 eps by (intro power_mono) auto
  have pos: "0 < (group_std xs + eps)\<^sup>2"
    using sd0 eps by simp
  have "sum_list (map (\<lambda>x. ((x - group_mean xs) / (group_std xs + eps))\<^sup>2) xs) = ?S / (group_std xs + eps)\<^sup>2"
    unfolding m sum_list_divide [symmetric] by (simp add: power_divide)
  also have "\<dots> = (real (length xs) - 1) * (group_std xs)\<^sup>2 / (group_std xs + eps)\<^sup>2"
    using sq n1 by simp
  also have "\<dots> \<le> real (length xs) - 1"
    using le pos n1 by (simp add: pos_divide_le_eq)
  finally show ?thesis .
qed

section \<open>Leave-one-out\<close>

lemma sum_list_remove:
  fixes f :: "'a \<Rightarrow> real"
  assumes "distinct xs" and "x \<in> set xs"
  shows "sum_list (map f (filter (\<lambda>y. y \<noteq> x) xs)) = sum_list (map f xs) - f x"
  using assms
proof (induction xs)
  case Nil
  then show ?case by simp
next
  case (Cons y ys)
  show ?case
  proof (cases "y = x")
    case True
    then have "filter (\<lambda>z. z \<noteq> x) ys = ys"
      using Cons.prems(1) by (intro filter_True) auto
    then show ?thesis
      using True by simp
  next
    case False
    then show ?thesis
      using Cons by simp
  qed
qed

lemma leave_one_out:
  fixes n :: real
  assumes "1 < n"
  shows "x * n / (n - 1) - s / n * n / (n - 1) = x - (s - x) / (n - 1)"
proof -
  have "x = x * (n - 1) / (n - 1)" "s / n * n = s"
    using assms by simp_all
  then have "x - (s - x) / (n - 1) = (x * (n - 1) - (s - x)) / (n - 1)"
    by (metis diff_divide_distrib)
  also have "x * (n - 1) - (s - x) = x * n - s"
    by (simp add: algebra_simps)
  finally show ?thesis
    using \<open>s / n * n = s\<close> by (simp add: diff_divide_distrib)
qed

section \<open>Dynamic sampling\<close>

lemma sum_squares_zero:
  fixes xs :: "real list"
  shows "sum_list (map (\<lambda>x. (x - c)\<^sup>2) xs) = 0 \<longleftrightarrow> (\<forall>x\<in>set xs. x = c)"
proof (induction xs)
  case Nil
  then show ?case by simp
next
  case (Cons x xs)
  have "0 \<le> sum_list (map (\<lambda>x. (x - c)\<^sup>2) xs)"
    by (rule sum_list_nonneg) auto
  then show ?case
    using Cons by (auto simp: add_nonneg_eq_0_iff)
qed

lemma np_std_pos: "0 < np_std xs \<longleftrightarrow> (\<exists>x\<in>set xs. \<exists>y\<in>set xs. x \<noteq> y)"
proof (cases "xs = []")
  case True
  then show ?thesis by (simp add: np_std_def)
next
  case False
  let ?S = "sum_list (map (\<lambda>x. (x - mean_of xs)\<^sup>2) xs)"
  have S0: "0 \<le> ?S"
    by (rule sum_list_nonneg) auto
  have "0 < np_std xs \<longleftrightarrow> ?S \<noteq> 0"
    using False S0 by (auto simp: np_std_def zero_less_divide_iff)
  also have "\<dots> \<longleftrightarrow> \<not> (\<forall>x\<in>set xs. x = mean_of xs)"
    by (simp add: sum_squares_zero)
  also have "\<dots> \<longleftrightarrow> (\<exists>x\<in>set xs. \<exists>y\<in>set xs. x \<noteq> y)"
  proof
    assume n: "\<not> (\<forall>x\<in>set xs. x = mean_of xs)"
    show "\<exists>x\<in>set xs. \<exists>y\<in>set xs. x \<noteq> y"
    proof (rule ccontr)
      assume "\<not> (\<exists>x\<in>set xs. \<exists>y\<in>set xs. x \<noteq> y)"
      then obtain c where c: "\<forall>x\<in>set xs. x = c"
        using False by (metis hd_in_set)
      then have "sum_list xs = real (length xs) * c"
        by (induction xs) (auto simp: algebra_simps)
      then have "mean_of xs = c"
        using False by (simp add: mean_of_def)
      with n c show False
        by blast
    qed
  next
    assume "\<exists>x\<in>set xs. \<exists>y\<in>set xs. x \<noteq> y"
    then show "\<not> (\<forall>x\<in>set xs. x = mean_of xs)"
      by metis
  qed
  finally show ?thesis .
qed

section \<open>Rewards to advantages\<close>

lemma length_scores [simp]:
  "length (exclude_scores scores msk index eps nm ml) = length scores"
  "length (grpo_scores scores index eps nm) = length scores"
  "length (rloo_scores scores index) = length scores"
  "length (row_sums t) = length t"
  by (simp_all add: exclude_scores_def grpo_scores_def rloo_scores_def row_sums_def)

text \<open>
  C32. First-step selection.  Whenever Latent-GRPO returns, each group of the batch is in one of
  two cases.  If no member has a positive advantage at its first generated token, the rows of the
  group are the normalised advantages, untouched.  Otherwise one member with a positive first-step
  advantage is the winner: it is not a truncated sample, no positive member has a greater mean
  log-probability (when log-probabilities are given), its row is untouched, and every other member of the
  group has exactly its first-step advantage set to zero.
\<close>

theorem first_step_selection:
  assumes S_def: "S = spread (exclude_scores (row_sums rewards) msk index eps nm ml) msk"
    and ret: "latent_grpo_exclude cfg rewards msk index eps nm ml = Inr (A, facts)"
    and lens: "length rewards = length index" "length msk = length index" and rows: "\<forall>m\<in>set msk. m \<noteq> []"
    and choice: "choice_ok cfg" and g: "g \<in> set index"
  shows "(\<forall>b\<in>set (members index g). S ! b ! start_index msk b \<le> 0 \<and> A ! b = S ! b) \<or>
    (\<exists>w\<in>set (members index g). 0 < S ! w ! start_index msk w \<and> \<not> truncated msk ml w \<and> A ! w = S ! w \<and>
       (\<forall>b\<in>set (members index g). b \<noteq> w \<longrightarrow> A ! b = (S ! b)[start_index msk b := 0]) \<and>
       (\<forall>lp. oc_old_log_probs cfg = Some lp \<longrightarrow> (\<forall>b\<in>set (members index g).
          0 < S ! b ! start_index msk b \<longrightarrow> log_prob_mean lp msk b \<le> log_prob_mean lp msk w)))"
proof -
  have "length S = length index"
    unfolding S_def using lens by simp
  then have sel: "group_selected cfg msk S (members index g) A"
    using selected_all_groups [of cfg msk index S A facts] ret choice g
    unfolding latent_grpo_exclude_def S_def by auto
  have mem: "b \<in> set (positive_candidates S msk (members index g)) \<longleftrightarrow>
      b \<in> set (members index g) \<and> 0 < S ! b ! start_index msk b" for b
    by (auto simp: positive_candidates_def)
  have nt: "\<not> truncated msk ml b" if "b \<in> set (positive_candidates S msk (members index g))" for b
    using truncated_no_candidate [of "row_sums rewards" index msk b eps nm ml g] that lens rows
    unfolding S_def by auto
  show ?thesis
  proof (cases "positive_candidates S msk (members index g) = []")
    case True
    then have "\<forall>b\<in>set (members index g). \<not> 0 < S ! b ! start_index msk b"
      using mem by (metis empty_iff list.set(1))
    then show ?thesis
      using sel True by (auto simp: group_selected_def not_less)
  next
    case False
    then obtain w where w: "w \<in> set (positive_candidates S msk (members index g))" "A ! w = S ! w"
        "\<forall>b\<in>set (members index g). b \<noteq> w \<longrightarrow> A ! b = (S ! b)[start_index msk b := 0]"
        "\<forall>lp. oc_old_log_probs cfg = Some lp \<longrightarrow>
           (\<forall>c\<in>set (positive_candidates S msk (members index g)). log_prob_mean lp msk c \<le> log_prob_mean lp msk w)"
      using sel unfolding group_selected_def Let_def by auto
    have "w \<in> set (members index g)" "0 < S ! w ! start_index msk w" "\<not> truncated msk ml w"
      using w(1) mem nt by auto
    then show ?thesis
      using w(2,3,4) mem by blast
  qed
qed

definition demo_cfg :: "nat ocp_config" where
  "demo_cfg = \<lparr>oc_random_choice = hd, oc_old_log_probs = None, oc_stable_group_ids = None,
     oc_trajectory_ids = None, oc_return_observer_data = False\<rparr>"

lemma first_step_selection_witness:
  "\<exists>A S. latent_grpo_exclude demo_cfg [[3], [1], [1]] [[1], [1], [1]] [7, 7, 7::nat] 1 False None = Inr (A, []) \<and>
     ((\<forall>b\<in>set (members [7, 7, 7::nat] 7). S ! b ! start_index [[1], [1], [1]] b \<le> 0 \<and> A ! b = S ! b) \<or>
      (\<exists>w\<in>set (members [7, 7, 7::nat] 7). 0 < S ! w ! start_index [[1], [1], [1]] w \<and> A ! w = S ! w))"
proof -
  let ?r = "latent_grpo_exclude demo_cfg [[3], [1], [1]] [[1], [1], [1]] [7, 7, 7::nat] 1 False None"
  have "\<not> oc_return_observer_data demo_cfg"
    by (simp add: demo_cfg_def)
  then obtain A where A: "?r = Inr (A, [])"
    unfolding latent_grpo_exclude_def using select_groups_total by blast
  have "choice_ok demo_cfg"
    by (simp add: choice_ok_def demo_cfg_def)
  from first_step_selection [OF refl A _ _ _ this, of 7] A show ?thesis
    by auto
qed

text \<open>
  C33. Group normalisation.  Over the non-truncated samples of a group of at least two, the
  normalised scores sum to zero; divided by the deviation, their squares sum to at most \<open>n - 1\<close>;
  and a truncated sample has score zero.
\<close>

theorem group_scores_normalised:
  assumes "length scores = length index" and "2 \<le> length (scored msk ml index g)" and "0 < eps"
  shows "(\<Sum>i\<leftarrow>scored msk ml index g. exclude_scores scores msk index eps nm ml ! i) = 0 \<and>
    (\<Sum>i\<leftarrow>scored msk ml index g. (exclude_scores scores msk index eps True ml ! i)\<^sup>2) \<le> real (length (scored msk ml index g)) - 1 \<and>
    (\<forall>i<length index. truncated msk ml i \<longrightarrow> exclude_scores scores msk index eps nm ml ! i = 0)"
proof -
  let ?sc = "map (\<lambda>j. scores ! j) (scored msk ml index g)"
  have len: "2 \<le> length ?sc"
    using assms(2) by simp
  note grp = exclude_scores_group [OF assms(1), of msk eps _ ml g, unfolded Let_def]
  have sq: "(\<Sum>i\<leftarrow>scored msk ml index g. (exclude_scores scores msk index eps True ml ! i)\<^sup>2) =
      sum_list (map (\<lambda>x. x\<^sup>2) (map (\<lambda>i. exclude_scores scores msk index eps True ml ! i) (scored msk ml index g)))"
    by (simp add: comp_def)
  have "(\<Sum>i\<leftarrow>scored msk ml index g. exclude_scores scores msk index eps nm ml ! i) = 0"
    unfolding grp by (rule group_sum_zero) (rule len)
  moreover have "(\<Sum>i\<leftarrow>scored msk ml index g. (exclude_scores scores msk index eps True ml ! i)\<^sup>2) \<le>
      real (length (scored msk ml index g)) - 1"
    unfolding sq grp using group_square_bound [OF len assms(3)] by (simp add: comp_def)
  moreover have "\<forall>i<length index. truncated msk ml i \<longrightarrow> exclude_scores scores msk index eps nm ml ! i = 0"
    using assms(1) by (simp add: exclude_scores_def Let_def)
  ultimately show ?thesis
    by blast
qed

lemma group_scores_normalised_witness:
  "(\<Sum>i\<leftarrow>scored [[1], [1]] None [7, 7::nat] 7. exclude_scores [3, 1] [[1], [1]] [7, 7::nat] 1 True None ! i) = 0"
  using group_scores_normalised [of "[3, 1]" "[7, 7::nat]" "[[1], [1]]" None 7 1 True]
  by (simp add: scored_def members_def truncated_def)

text \<open>
  RLOO is the leave-one-out baseline: the advantage of a sample is its score minus the mean
  score of the other samples of its group (its score itself when it has no companion), at every
  unmasked token.
\<close>

theorem rloo_leave_one_out:
  assumes "length rewards = length index" and "length msk = length index" and "i < length index" and "t < length (msk ! i)"
  shows "compute_rloo_outcome_advantage rewards msk index ! i ! t =
    (let others = filter (\<lambda>j. j \<noteq> i) (members index (index ! i)) in
     (sum_list (rewards ! i) - (if others = [] then 0 else mean_of (map (\<lambda>j. sum_list (rewards ! j)) others))) * msk ! i ! t)"
proof -
  let ?f = "\<lambda>j. sum_list (rewards ! j)"
  let ?ms = "members index (index ! i)"
  let ?others = "filter (\<lambda>j. j \<noteq> i) ?ms"
  have i: "i \<in> set ?ms"
    using assms(3) by (simp add: set_members)
  have lt: "j < length rewards" if "j \<in> set ?ms" for j
    using that assms(1) by (simp add: set_members)
  then have scores: "map (\<lambda>j. row_sums rewards ! j) ?ms = map ?f ?ms"
    by (intro map_cong) (simp_all add: row_sums_def)
  have row: "row_sums rewards ! i = ?f i"
    using assms(1,3) by (simp add: row_sums_def)
  have len: "real (length ?others) = real (length ?ms) - 1"
    using sum_list_remove [OF distinct_members i, of "\<lambda>_. 1"] by (simp add: sum_list_triv)
  have sum: "sum_list (map ?f ?others) = sum_list (map ?f ?ms) - ?f i"
    by (rule sum_list_remove [OF distinct_members i])
  have score: "rloo_scores (row_sums rewards) index ! i =
      ?f i - (if ?others = [] then 0 else mean_of (map ?f ?others))"
  proof (cases "?others = []")
    case True
    then have "length ?ms = 1"
      using len by simp
    then show ?thesis
      using True assms(1,3) row by (simp add: rloo_scores_def Let_def)
  next
    case False
    then have n: "1 < real (length ?ms)"
      using len length_greater_0_conv [of ?others] by linarith
    then have "1 < length ?ms"
      by linarith
    then have "rloo_scores (row_sums rewards) index ! i =
        ?f i * real (length ?ms) / (real (length ?ms) - 1) -
        (sum_list (map ?f ?ms) / real (length ?ms)) * real (length ?ms) / (real (length ?ms) - 1)"
      using assms(1,3) unfolding rloo_scores_def by (simp add: Let_def scores row group_mean_def mean_of_def)
    also have "\<dots> = ?f i - (sum_list (map ?f ?ms) - ?f i) / (real (length ?ms) - 1)"
      by (rule leave_one_out) (rule n)
    finally show ?thesis
      using False sum len by (simp add: mean_of_def)
  qed
  have "compute_rloo_outcome_advantage rewards msk index ! i = map (\<lambda>m. rloo_scores (row_sums rewards) index ! i * m) (msk ! i)"
    using assms(1,2,3) by (simp add: compute_rloo_outcome_advantage_def spread_def)
  then show ?thesis
    using assms(4) score by (simp add: Let_def)
qed

lemma rloo_leave_one_out_witness:
  "compute_rloo_outcome_advantage [[3], [1], [1]] [[1], [1], [1]] [7, 7, 7::nat] ! 0 ! 0 = 2"
  using rloo_leave_one_out [of "[[3], [1], [1]]" "[7, 7, 7::nat]" "[[1], [1], [1]]" 0 0]
  by (simp add: members_def mean_of_def upt_rec)

end
