(* ===== verification/LatentGrpoLoss.thy ===== *)
theory LatentGrpoLoss
  imports LatentGrpoOk
begin

text \<open>
  The losses and the trainer of \<open>LatentGrpo\<close>: the closed form of the doubly clipped policy loss,
  the error behaviour of \<open>compute_advantage\<close>, and the progress and the batches of dynamic
  sampling.
\<close>

section \<open>The clipped policy loss\<close>

lemma map4_nth:
  "i < length as \<Longrightarrow> length bs = length as \<Longrightarrow> length cs = length as \<Longrightarrow> length ds = length as \<Longrightarrow>
   map4 f as bs cs ds ! i = f (as ! i) (bs ! i) (cs ! i) (ds ! i)"
  by (simp add: map4_def)

lemma max_neg_mult: "0 \<le> (a::real) \<Longrightarrow> max (- (a * x)) (- (a * y)) = - (a * min x y)"
  by (simp add: min_mult_distrib_left flip: minus_min_eq_max)

lemma max_pos_mult: "0 \<le> (a::real) \<Longrightarrow> max (a * x) (a * y) = a * max x y"
  by (simp add: max_mult_distrib_left)

lemma min_pos_mult: "0 \<le> (a::real) \<Longrightarrow> min (a * x) (a * y) = a * min x y"
  by (simp add: min_mult_distrib_left)

lemma policy_token_masked: "tl_loss (policy_token lo hi c w old lp adv 0) = 0"
  by (simp add: policy_token_def Let_def)

lemma policy_token_gain:
  assumes "m \<noteq> 0" and "0 \<le> adv" and "0 \<le> lo" and "0 \<le> hi"
  shows "tl_loss (policy_token lo hi c w old lp adv m) = - (adv * min (exp (lp - old)) (1 + hi))"
proof -
  have "min (exp (lp - old)) (clamp (exp (lp - old)) (1 - lo) (1 + hi)) = min (exp (lp - old)) (1 + hi)"
    using assms(3,4) by (auto simp: clamp_def)
  then show ?thesis
    using assms(1,2) max_neg_mult [OF assms(2)] by (simp add: policy_token_def Let_def)
qed

lemma policy_token_loss:
  assumes "m \<noteq> 0" and "adv < 0" and "0 \<le> lo" and "0 \<le> hi"
  shows "tl_loss (policy_token lo hi c w old lp adv m) = w * (- adv) * min c (max (exp (lp - old)) (1 - lo))"
proof -
  let ?r = "exp (lp - old)"
  have a: "0 \<le> - adv"
    using assms(2) by simp
  have cl: "max ?r (clamp ?r (1 - lo) (1 + hi)) = max ?r (1 - lo)"
    using assms(3,4) by (auto simp: clamp_def)
  have "tl_loss (policy_token lo hi c w old lp adv m) =
      min ((- adv) * c) (max ((- adv) * ?r) ((- adv) * clamp ?r (1 - lo) (1 + hi))) * w"
    using assms(1,2) by (simp add: policy_token_def Let_def)
  also have "\<dots> = (- adv) * min c (max ?r (1 - lo)) * w"
    by (simp only: max_pos_mult [OF a] cl min_pos_mult [OF a])
  finally show ?thesis
    by (simp add: mult.commute mult.left_commute)
qed

lemma policy_token_clipped:
  assumes "m \<noteq> 0" and "0 \<le> lo" and "0 \<le> hi"
  shows "tl_clipped (policy_token lo hi c w old lp adv m) \<longleftrightarrow>
    0 < adv \<and> 1 + hi < exp (lp - old) \<or> adv < 0 \<and> exp (lp - old) < 1 - lo"
proof -
  have "tl_clipped (policy_token lo hi c w old lp adv m) \<longleftrightarrow>
      adv * clamp (exp (lp - old)) (1 - lo) (1 + hi) < adv * exp (lp - old)"
    using assms(1) by (simp add: policy_token_def Let_def)
  also have "\<dots> \<longleftrightarrow> 0 < adv \<and> clamp (exp (lp - old)) (1 - lo) (1 + hi) < exp (lp - old) \<or>
      adv < 0 \<and> exp (lp - old) < clamp (exp (lp - old)) (1 - lo) (1 + hi)"
    by (auto simp: mult_less_cancel_left)
  also have "\<dots> \<longleftrightarrow> 0 < adv \<and> 1 + hi < exp (lp - old) \<or> adv < 0 \<and> exp (lp - old) < 1 - lo"
    using assms(2,3) by (auto simp: clamp_def)
  finally show ?thesis .
qed

lemma policy_loss_tokens:
  assumes "compute_policy_loss olds lps advs msk clip clip_low clip_high c w mode = Inr (loss, fr, kl, frl, toks)"
  shows "1 < c \<and> toks = map4 (map4 (policy_token (case clip_low of None \<Rightarrow> clip | Some x \<Rightarrow> x)
      (case clip_high of None \<Rightarrow> clip | Some x \<Rightarrow> x) c w)) olds lps advs msk \<and>
    agg_loss (map (map tl_loss) toks) msk mode = Inr loss"
  using assms by (auto simp: compute_policy_loss_def bind_r_Inr_iff Let_def)

text \<open>
  C34. The doubly clipped policy loss.  When \<open>compute_policy_loss\<close> returns, the loss of an unmasked
  token with ratio \<open>r\<close> and advantage \<open>A\<close> is \<open>- A * min r (1 + high)\<close> for \<open>A \<ge> 0\<close> and
  \<open>w * (- A) * min c (max r (1 - low))\<close> for \<open>A < 0\<close>, so the gain and the penalty are bounded;
  it counts as clipped exactly when the ratio lies outside the trusted interval on the side the
  advantage pushes it to; and a masked token contributes nothing.
\<close>

theorem policy_loss_closed_form:
  assumes ret: "compute_policy_loss olds lps advs msk clip (Some lo) (Some hi) c w mode = Inr (loss, fr, kl, frl, toks)"
    and rows: "length olds = length msk" "length lps = length msk" "length advs = length msk" "i < length msk"
    and cols: "length (olds ! i) = length (msk ! i)" "length (lps ! i) = length (msk ! i)"
      "length (advs ! i) = length (msk ! i)" "t < length (msk ! i)"
    and clips: "0 \<le> lo" "0 \<le> hi"
  shows "tl_loss (toks ! i ! t) =
      (let A = advs ! i ! t; r = exp (lps ! i ! t - olds ! i ! t) in
       if msk ! i ! t = 0 then 0
       else if 0 \<le> A then - (A * min r (1 + hi))
       else w * (- A) * min c (max r (1 - lo))) \<and>
    (msk ! i ! t \<noteq> 0 \<longrightarrow> tl_clipped (toks ! i ! t) =
      (let A = advs ! i ! t; r = exp (lps ! i ! t - olds ! i ! t) in 0 < A \<and> 1 + hi < r \<or> A < 0 \<and> r < 1 - lo))"
proof -
  have "toks = map4 (map4 (policy_token lo hi c w)) olds lps advs msk"
    using policy_loss_tokens [OF ret] by simp
  then have tok: "toks ! i ! t = policy_token lo hi c w (olds ! i ! t) (lps ! i ! t) (advs ! i ! t) (msk ! i ! t)"
    using rows cols by (simp add: map4_nth)
  show ?thesis
    unfolding tok Let_def using policy_token_masked policy_token_gain [OF _ _ clips] policy_token_loss [OF _ _ clips]
      policy_token_clipped [OF _ clips] by (simp add: not_le)
qed

lemma policy_loss_closed_form_witness:
  "\<exists>loss fr kl frl toks. compute_policy_loss [[0]] [[0]] [[- 2]] [[1]] 0 (Some (1/5)) (Some (1/5)) 3 1 ''token-mean'' =
      Inr (loss, fr, kl, frl, toks) \<and> tl_loss (toks ! 0 ! 0) = 2 \<and> \<not> tl_clipped (toks ! 0 ! 0)"
proof -
  obtain loss fr kl frl toks where r: "compute_policy_loss [[0]] [[0]] [[- 2]] [[1]] 0 (Some (1/5)) (Some (1/5)) 3 1 ''token-mean'' =
      Inr (loss, fr, kl, frl, toks)"
    by (simp add: compute_policy_loss_def agg_loss_def Let_def)
  from policy_loss_closed_form [OF r, of 0 0] r show ?thesis
    by (simp add: Let_def)
qed

section \<open>The estimator dispatch\<close>

lemma exclude_total: "\<not> oc_return_observer_data cfg \<Longrightarrow> \<exists>p. latent_grpo_exclude cfg rewards msk index eps nm ml = Inr p"
  unfolding latent_grpo_exclude_def using select_groups_total by blast

lemma include_total: "\<not> oc_return_observer_data cfg \<Longrightarrow> \<exists>p. latent_grpo_include cfg rewards msk index eps nm = Inr p"
  unfolding latent_grpo_include_def using select_groups_total by blast

text \<open>
  \<open>compute_advantage\<close> returns only for Latent-GRPO.  When no observer data is asked for, the
  GRPO estimator returns on every batch, whatever the truncation policy, and every other
  estimator raises: after its advantages are computed, the return statement reads a local that
  only the GRPO branch binds.
\<close>

theorem compute_advantage_returns:
  assumes "\<not> oc_return_observer_data cfg"
  shows "(\<exists>r. compute_advantage ab cfg est gamma lam norm_adv exclude_overlong = Inr r) \<longleftrightarrow> est = GRPO"
proof (cases "est = GRPO")
  case True
  then show ?thesis
    using exclude_total [OF assms, where index = "ab_uid ab"] include_total [OF assms, where index = "ab_uid ab"]
    by (simp add: compute_advantage_def Let_def bind_r_Inr_iff split_def del: split_paired_Ex)
next
  case False
  then show ?thesis
    by (cases est) (auto simp: compute_advantage_def unbound_id2stds_def bind_r_Inr_iff Let_def)
qed

lemma compute_advantage_returns_witness:
  "\<not> (\<exists>r. compute_advantage \<lparr>ab_rewards = [[1]], ab_values = [[0]], ab_response_mask = [[1]], ab_baselines = [0],
        ab_uid = [0::nat]\<rparr> demo_cfg RLOO 1 1 True False = Inr r)"
proof -
  have "\<not> oc_return_observer_data demo_cfg"
    by (simp add: demo_cfg_def)
  from compute_advantage_returns [OF this, of "\<lparr>ab_rewards = [[1]], ab_values = [[0]], ab_response_mask = [[1]],
      ab_baselines = [0], ab_uid = [0::nat]\<rparr>" RLOO 1 1 True False] show ?thesis
    by simp
qed

section \<open>Dynamic sampling\<close>

lemma length_fromkeys: "length (fromkeys xs) = card (set xs)"
  using fromkeys_set [of xs] distinct_card by fastforce

text \<open>
  \<open>m x\<close> is the entry of a sample in the metric column of its batch.  The accumulator between two batches:
  complete groups, counted exactly, none of them constant unless groups have a single sample.
\<close>

definition informative :: "('g \<times> 'd \<Rightarrow> real) \<Rightarrow> ('g \<times> 'd) list \<Rightarrow> 'g \<Rightarrow> bool" where
  "informative m xs u = (\<exists>x\<in>set xs. \<exists>y\<in>set xs. fst x = u \<and> fst y = u \<and> m x \<noteq> m y)"

definition sampling_inv :: "nat \<Rightarrow> ('g \<times> 'd \<Rightarrow> real) \<Rightarrow> ('g, 'd) sampling \<Rightarrow> bool" where
  "sampling_inv n m s = (sm_num_prompt s = length (fromkeys (map fst (sm_acc s))) \<and>
     (\<forall>u\<in>set (map fst (sm_acc s)). count_list (map fst (sm_acc s)) u = n \<and> (n = 1 \<or> informative m (sm_acc s) u)))"

definition varied :: "'g list \<Rightarrow> real list \<Rightarrow> 'g \<Rightarrow> bool" where
  "varied uids metric u = (\<exists>i\<in>set (members uids u). \<exists>j\<in>set (members uids u). metric ! i \<noteq> metric ! j)"

lemma kept_prompt_uids_iff:
  "u \<in> set (kept_prompt_uids uids metric) \<longleftrightarrow> u \<in> set uids \<and> (varied uids metric u \<or> length (members uids u) = 1)"
  using fromkeys_set [of uids] by (auto simp: kept_prompt_uids_def Let_def np_std_pos varied_def)

lemma length_members: "length (members xs u) = count_list xs u"
proof -
  have "map (\<lambda>i. xs ! i) (members xs u) = filter (\<lambda>y. y = u) xs"
    using filter_map [of "\<lambda>y. y = u" "\<lambda>i. xs ! i" "[0..<length xs]"] by (simp add: members_def map_nth comp_def)
  then have "length (members xs u) = length (filter (\<lambda>y. y = u) xs)"
    by (metis length_map)
  also have "\<dots> = count_list xs u"
    unfolding count_list_eq_length_filter by (rule arg_cong [of _ _ length], rule filter_cong) auto
  finally show ?thesis .
qed

lemma varied_informative: "varied (map fst xs) (map m xs) u \<longleftrightarrow> informative m xs u"
proof
  assume "varied (map fst xs) (map m xs) u"
  then obtain i j where "i < length xs" "j < length xs" "fst (xs ! i) = u" "fst (xs ! j) = u" "m (xs ! i) \<noteq> m (xs ! j)"
    unfolding varied_def set_members by auto
  then show "informative m xs u"
    unfolding informative_def by (intro bexI [of _ "xs ! i"] bexI [of _ "xs ! j"] conjI) simp_all
next
  assume "informative m xs u"
  then obtain x y where "x \<in> set xs" "y \<in> set xs" "fst x = u" "fst y = u" "m x \<noteq> m y"
    unfolding informative_def by blast
  then obtain i j where "i < length xs" "j < length xs" "fst (xs ! i) = u" "fst (xs ! j) = u" "m (xs ! i) \<noteq> m (xs ! j)"
    unfolding in_set_conv_nth by blast
  then show "varied (map fst xs) (map m xs) u"
    unfolding varied_def set_members by fastforce
qed

lemma informative_mono: "informative m xs u \<Longrightarrow> {x \<in> set xs. fst x = u} \<subseteq> set ys \<Longrightarrow> informative m ys u"
  unfolding informative_def by blast

text \<open>What the filter keeps of a batch: the groups whose metric is not constant, and those of one sample.\<close>

definition kept_samples :: "('g \<times> 'd \<Rightarrow> real) \<Rightarrow> ('g \<times> 'd) list \<Rightarrow> ('g \<times> 'd) list" where
  "kept_samples m batch =
     filter (\<lambda>x. informative m batch (fst x) \<or> count_list (map fst batch) (fst x) = 1) batch"

lemma map_nth_filter: "map (\<lambda>i. xs ! i) (filter (\<lambda>i. P (xs ! i)) [0..<length xs]) = filter P xs"
  using filter_map [of P "\<lambda>i. xs ! i" "[0..<length xs]"] by (simp add: map_nth comp_def)

lemma kept_batch: "map (\<lambda>i. batch ! i) (kept_traj_idxs (map fst batch) metric) =
   filter (\<lambda>x. fst x \<in> set (kept_prompt_uids (map fst batch) metric)) batch"
proof -
  have "kept_traj_idxs (map fst batch) metric =
      filter (\<lambda>i. fst (batch ! i) \<in> set (kept_prompt_uids (map fst batch) metric)) [0..<length batch]"
    unfolding kept_traj_idxs_def by (rule filter_cong) auto
  then show ?thesis
    using map_nth_filter [of batch "\<lambda>x. fst x \<in> set (kept_prompt_uids (map fst batch) metric)"] by simp
qed

lemma kept_batch_samples:
  "map (\<lambda>i. batch ! i) (kept_traj_idxs (map fst batch) (map m batch)) = kept_samples m batch"
  unfolding kept_batch kept_samples_def
  by (rule filter_cong) (auto simp: kept_prompt_uids_iff varied_informative length_members)

lemma count_filter_keys: "count_list (map fst (filter (\<lambda>x. fst x \<in> U) xs)) u = (if u \<in> U then count_list (map fst xs) u else 0)"
  by (induction xs) auto

lemma set_filter_keys: "set (map fst (filter (\<lambda>x. fst x \<in> U) xs)) = U \<inter> set (map fst xs)"
  by force

lemma length_groups:
  assumes "\<forall>u\<in>set xs. count_list xs u = n"
  shows "length xs = card (set xs) * n"
proof -
  have "length xs = (\<Sum>u\<in>set xs. count_list xs u)"
    by (simp add: sum_count_set)
  also have "\<dots> = card (set xs) * n"
    using assms by simp
  finally show ?thesis .
qed

lemma filter_step_accumulates:
  assumes inv: "sampling_inv n m s" and fresh: "set (map fst batch) \<inter> set (map fst (sm_acc s)) = {}"
    and full: "\<forall>u\<in>set (map fst batch). count_list (map fst batch) u = n" and metric: "metric = map m batch"
  shows "sampling_inv n m \<lparr>sm_acc = sm_acc s @ map (\<lambda>i. batch ! i) (kept_traj_idxs (map fst batch) metric),
     sm_num_prompt = sm_num_prompt s + length (kept_prompt_uids (map fst batch) metric), sm_num_gen = k\<rparr>"
proof -
  let ?K = "set (kept_prompt_uids (map fst batch) metric)"
  let ?new = "map fst (filter (\<lambda>x. fst x \<in> ?K) batch)"
  have K: "?K \<subseteq> set (map fst batch)" "set ?new = ?K"
    using set_filter_keys [of ?K batch] by (auto simp: kept_prompt_uids_iff)
  have "distinct (kept_prompt_uids (map fst batch) metric)"
    using fromkeys_set [of "map fst batch"] by (simp add: kept_prompt_uids_def Let_def)
  then have kept: "length (kept_prompt_uids (map fst batch) metric) = card (set ?new)"
    unfolding K(2) by (simp add: distinct_card)
  have card: "card (set (map fst (sm_acc s)) \<union> set ?new) = card (set (map fst (sm_acc s))) + card (set ?new)"
    using K fresh by (intro card_Un_disjoint) auto
  have count: "count_list (map fst (sm_acc s)) u + count_list ?new u = n"
    if "u \<in> set (map fst (sm_acc s)) \<union> set ?new" for u
  proof (cases "u \<in> set (map fst (sm_acc s))")
    case True
    then have "u \<notin> set ?new"
      using K fresh by blast
    then have "count_list ?new u = 0"
      by (rule count_notin)
    moreover have "count_list (map fst (sm_acc s)) u = n"
      using True inv unfolding sampling_inv_def by blast
    ultimately show ?thesis
      by (simp only: add_0_right)
  next
    case False
    then have "u \<in> ?K"
      using that K(2) by blast
    then have "count_list ?new u = n"
      using full K(1) by (simp add: count_filter_keys) blast
    then show ?thesis
      using False by (simp add: count_list_0_iff)
  qed
  have info: "n = 1 \<or> informative m (sm_acc s @ filter (\<lambda>x. fst x \<in> ?K) batch) u"
    if "u \<in> set (map fst (sm_acc s)) \<union> set ?new" for u
  proof (cases "u \<in> set (map fst (sm_acc s))")
    case True
    then have "n = 1 \<or> informative m (sm_acc s) u"
      using inv unfolding sampling_inv_def by blast
    then show ?thesis
      using informative_mono [of m "sm_acc s" u "sm_acc s @ filter (\<lambda>x. fst x \<in> ?K) batch"] by auto
  next
    case False
    then have u: "u \<in> ?K"
      using that K(2) by blast
    then have "informative m batch u \<or> count_list (map fst batch) u = 1"
      unfolding kept_prompt_uids_iff metric varied_informative length_members by blast
    moreover have "count_list (map fst batch) u = n"
      using u K(1) full by blast
    moreover have "{x \<in> set batch. fst x = u} \<subseteq> set (sm_acc s @ filter (\<lambda>x. fst x \<in> ?K) batch)"
      using u by auto
    ultimately show ?thesis
      using informative_mono [of m batch u "sm_acc s @ filter (\<lambda>x. fst x \<in> ?K) batch"] by argo
  qed
  have set: "set (map fst (sm_acc s @ filter (\<lambda>x. fst x \<in> ?K) batch)) = set (map fst (sm_acc s)) \<union> set ?new"
    by (simp only: map_append set_append)
  have "sm_num_prompt s = card (set (map fst (sm_acc s)))"
    using inv unfolding sampling_inv_def length_fromkeys by blast
  then have "sm_num_prompt s + length (kept_prompt_uids (map fst batch) metric) =
      length (fromkeys (map fst (sm_acc s @ filter (\<lambda>x. fst x \<in> ?K) batch)))"
    unfolding length_fromkeys set card kept by (rule arg_cong)
  moreover have "count_list (map fst (sm_acc s @ filter (\<lambda>x. fst x \<in> ?K) batch)) u = n"
    if "u \<in> set (map fst (sm_acc s)) \<union> set ?new" for u
    using count [OF that] by (simp only: map_append count_list_append)
  ultimately show ?thesis
    unfolding sampling_inv_def sampling.simps kept_batch set using info by blast
qed

lemma filter_step_ready:
  assumes "acc = sm_acc s @ map (\<lambda>i. batch ! i) (kept_traj_idxs (map fst batch) metric)"
    and "\<not> sm_num_prompt s + length (kept_prompt_uids (map fst batch) metric) < bsz"
    and "out = filter (\<lambda>x. fst x \<in> set (take bsz (fromkeys (map fst acc)))) acc"
    and "\<forall>u\<in>set (map fst out). count_list (map fst out) u = n" and "card (set (map fst out)) = bsz"
  shows "filter_groups_step bsz limit n s batch metric = Inr (BatchReady out)"
proof -
  have "list_all (\<lambda>u. count_list (map fst out) u = n) (fromkeys (map fst out))"
    using assms(4) fromkeys_set [of "map fst out"] by (simp add: list_all_iff)
  moreover have "length (fromkeys (map fst out)) = bsz"
    using assms(5) by (simp add: length_fromkeys)
  ultimately show ?thesis
    unfolding filter_groups_step_def Let_def assms(1) [symmetric] assms(3) [symmetric]
    using assms(2) by (simp only: if_False refl check_r_True bind_r_simps)
qed

lemma take_set_card: "distinct xs \<Longrightarrow> card (set (take k xs)) = min k (length xs)"
  by (simp add: distinct_card)

text \<open>
  C35. Dynamic sampling makes progress and delivers complete, non-constant groups.  From an accumulator
  of complete groups and a fresh batch of complete groups of \<open>n\<close> samples, a step never fails an
  assertion.  It raises only when the limit on generated batches is reached; or it asks for
  another batch, having added to the accumulator exactly the samples of the batch whose group has
  two different metric values (or a single sample), with fewer than \<open>bsz\<close> groups; or it delivers exactly
  \<open>bsz\<close> groups and \<open>bsz * n\<close> samples, the first \<open>bsz\<close> groups of the accumulator so extended.  No
  accumulated and no delivered group has a constant metric, unless groups have a single sample.
\<close>

theorem dynamic_sampling_step:
  assumes inv: "sampling_inv n m s" and fresh: "set (map fst batch) \<inter> set (map fst (sm_acc s)) = {}"
    and full: "\<forall>u\<in>set (map fst batch). count_list (map fst batch) u = n" and metric: "metric = map m batch"
  shows "case filter_groups_step bsz limit n s batch metric of
      Inl e \<Rightarrow> e = ValueError ''Filtered too many samples.'' \<and> 0 < limit \<and> limit \<le> sm_num_gen s
    | Inr (KeepGenerating s') \<Rightarrow> sampling_inv n m s' \<and> sm_acc s' = sm_acc s @ kept_samples m batch \<and>
        sm_num_prompt s' < bsz \<and> sm_num_gen s' = sm_num_gen s + 1
    | Inr (BatchReady out) \<Rightarrow> length out = bsz * n \<and> card (set (map fst out)) = bsz \<and>
        (\<forall>u\<in>set (map fst out). count_list (map fst out) u = n \<and>
           (n = 1 \<or> (\<exists>x\<in>set out. \<exists>y\<in>set out. fst x = u \<and> fst y = u \<and> m x \<noteq> m y))) \<and>
        (let acc = sm_acc s @ kept_samples m batch
         in out = filter (\<lambda>x. fst x \<in> set (take bsz (fromkeys (map fst acc)))) acc)"
proof -
  let ?acc = "sm_acc s @ kept_samples m batch"
  let ?num = "sm_num_prompt s + length (kept_prompt_uids (map fst batch) metric)"
  have acc: "?acc = sm_acc s @ map (\<lambda>i. batch ! i) (kept_traj_idxs (map fst batch) metric)"
    unfolding metric kept_batch_samples ..
  note grown = filter_step_accumulates [OF inv fresh full metric, folded acc]
  have inv': "?num = length (fromkeys (map fst ?acc))" "\<forall>u\<in>set (map fst ?acc). count_list (map fst ?acc) u = n"
      "\<forall>u\<in>set (map fst ?acc). n = 1 \<or> informative m ?acc u"
    using grown [of 0] unfolding sampling_inv_def sampling.simps by blast+
  show ?thesis
  proof (cases "?num < bsz")
    case True
    then show ?thesis
      using grown [of "sm_num_gen s + 1"] by (auto simp: filter_groups_step_def acc [symmetric] Let_def)
  next
    case False
    let ?U = "set (take bsz (fromkeys (map fst ?acc)))"
    let ?out = "filter (\<lambda>x. fst x \<in> ?U) ?acc"
    have U: "?U \<subseteq> set (map fst ?acc)"
      using set_take_subset fromkeys_set by metis
    have keys: "set (map fst ?out) = ?U"
      using U set_filter_keys [of ?U ?acc] by blast
    have card: "card ?U = bsz"
      using False inv'(1) fromkeys_set [of "map fst ?acc"] by (simp only: take_set_card)
    have count: "\<forall>u\<in>set (map fst ?out). count_list (map fst ?out) u = n"
      unfolding keys using inv'(2) U by (auto simp only: count_filter_keys if_True)
    have vary: "n = 1 \<or> informative m ?out u" if "u \<in> ?U" for u
    proof -
      have "{x \<in> set ?acc. fst x = u} \<subseteq> set ?out"
        using that by auto
      moreover have "n = 1 \<or> informative m ?acc u"
        using inv'(3) U that by blast
      ultimately show ?thesis
        using informative_mono [of m ?acc u ?out] by argo
    qed
    have ready: "filter_groups_step bsz limit n s batch metric = Inr (BatchReady ?out)"
      by (rule filter_step_ready [OF acc False refl count]) (simp only: keys card)
    have "length ?out = bsz * n"
      using length_groups [OF count] unfolding keys card by (simp only: length_map)
    then show ?thesis
      unfolding ready sum.case sampling_result.case Let_def keys card
      using count [unfolded keys] vary [unfolded informative_def] by (intro conjI ballI refl) simp_all
  qed
qed

lemma dynamic_sampling_step_witness:
  "filter_groups_step 1 0 2 \<lparr>sm_acc = [], sm_num_prompt = 0, sm_num_gen = 0\<rparr>
      [(7::nat, 0), (7, 1), (8, 1), (8, 1)] (map snd [(7::nat, 0), (7, 1), (8, 1), (8, 1)]) =
   Inr (BatchReady [(7, 0), (7, 1 :: real)])"
proof -
  let ?s = "\<lparr>sm_acc = [], sm_num_prompt = 0, sm_num_gen = 0\<rparr> :: (nat, real) sampling"
  let ?batch = "[(7, 0), (7, 1), (8, 1), (8, 1)] :: (nat \<times> real) list"
  have inv: "sampling_inv 2 snd ?s"
    by (simp add: sampling_inv_def fromkeys_def)
  note step = dynamic_sampling_step [where batch = ?batch and bsz = 1 and limit = 0, OF inv _ _ refl]
  have kept: "kept_samples snd ?batch = [(7, 0), (7, 1)]"
    by (simp add: kept_samples_def informative_def)
  have keys: "fromkeys [7, 7 :: nat] = [7]"
    by (simp add: fromkeys_def)
  show ?thesis
    using step by (auto simp: kept keys sampling_inv_def Let_def split: sum.splits sampling_result.splits)
qed

end
