(* ===== verification/LatentReq.thy ===== *)
theory LatentReq
  imports PyVal RadixCache
begin

text \<open>
  The request of the scheduler (\<open>Req\<close> in \<open>srt/managers/schedule_batch.py\<close>) with its sampling
  parameters (\<open>srt/sampling/sampling_params.py\<close>), as far as latent reasoning, finishing and the
  prefix cache use them, and the embedding of a top-k row
  (\<open>weighted_forward\<close> in \<open>srt/layers/vocab_parallel_embedding.py\<close>).  Token ids are naturals; the
  rows of top-k indices are integers, because the code marks unused places with -100.
\<close>

section \<open>SamplingParams\<close>

datatype stop_arg = NoStop | OneStop string | Stops "string list"

record sampling_params =
  sp_max_new_tokens :: "int option"
  sp_stop_strs :: stop_arg
  sp_stop_str_max_len :: nat
  sp_stop_token_ids :: "nat list option"
  sp_temperature :: fl
  sp_top_p :: fl
  sp_top_k :: int
  sp_min_p :: fl
  sp_latent_mode :: "bool option"
  sp_latent_end_token_id :: "nat option"
  sp_gumbel_softmax_temperature :: fl
  sp_noise_scale :: fl
  sp_add_noise_gumbel_softmax :: bool
  sp_use_one_sided_gumbel_noise :: bool
  sp_one_sided_gumbel_delta :: pyval
  sp_frequency_penalty :: fl
  sp_presence_penalty :: fl
  sp_repetition_penalty :: fl
  sp_min_new_tokens :: int
  sp_json_schema :: "string option"
  sp_regex :: "string option"
  sp_ebnf :: "string option"
  sp_ignore_eos :: bool

text \<open>\<open>__init__\<close>, on a record that holds the arguments as given.\<close>

definition sampling_eps :: real where
  "sampling_eps = 1 / 10 ^ 6"

definition sampling_params_init :: "sampling_params \<Rightarrow> sampling_params" where
  "sampling_params_init args =
     (let p = args\<lparr>sp_latent_mode := None,
                   sp_stop_token_ids := (if sp_stop_token_ids args = Some [] then None else sp_stop_token_ids args)\<rparr>;
          p' = (if fl_le (Fin 0) (sp_temperature p) \<and> fl_less (sp_temperature p) (Fin sampling_eps)
                then p\<lparr>sp_temperature := Fin 1, sp_top_k := 1\<rparr> else p)
      in if sp_top_k p' = -1 then p'\<lparr>sp_top_k := 2 ^ 30\<rparr> else p')"

text \<open>\<open>verify\<close>: the checks in the order of the code; a comparison with NaN is false.\<close>

fun valid_delta :: "pyval \<Rightarrow> bool" where
  "valid_delta (VInt i) = (0 \<le> i)"
| "valid_delta (VFloat x) = (isfinite x \<and> \<not> fl_less x (Fin 0))"
| "valid_delta _ = False"

definition in_range :: "real \<Rightarrow> real \<Rightarrow> fl \<Rightarrow> bool" where
  "in_range a b x = (fl_le (Fin a) x \<and> fl_le x (Fin b))"

definition verify :: "sampling_params \<Rightarrow> unit result" where
  "verify p =
    bind_r (check_r (valid_delta (sp_one_sided_gumbel_delta p)) (ValueError ''one_sided_gumbel_delta'')) (\<lambda>_.
    bind_r (check_r (\<not> fl_less (sp_temperature p) (Fin 0)) (ValueError ''temperature'')) (\<lambda>_.
    bind_r (check_r (fl_less (Fin 0) (sp_top_p p) \<and> fl_le (sp_top_p p) (Fin 1)) (ValueError ''top_p'')) (\<lambda>_.
    bind_r (check_r (in_range 0 1 (sp_min_p p)) (ValueError ''min_p'')) (\<lambda>_.
    bind_r (check_r (\<not> (sp_top_k p < 1 \<or> sp_top_k p = -1)) (ValueError ''top_k'')) (\<lambda>_.
    bind_r (check_r (in_range (- 2) 2 (sp_frequency_penalty p)) (ValueError ''frequency_penalty'')) (\<lambda>_.
    bind_r (check_r (in_range (- 2) 2 (sp_presence_penalty p)) (ValueError ''presence_penalty'')) (\<lambda>_.
    bind_r (check_r (in_range 0 2 (sp_repetition_penalty p)) (ValueError ''repetition_penalty'')) (\<lambda>_.
    bind_r (check_r (0 \<le> sp_min_new_tokens p) (ValueError ''min_new_tokens'')) (\<lambda>_.
    bind_r (case sp_max_new_tokens p of
              None \<Rightarrow> Inr ()
            | Some m \<Rightarrow> bind_r (check_r (0 \<le> m) (ValueError ''max_new_tokens''))
                         (\<lambda>_. check_r (sp_min_new_tokens p \<le> m) (ValueError ''min_new_tokens''))) (\<lambda>_.
    check_r (length (filter (\<lambda>x. x \<noteq> None) [sp_json_schema p, sp_regex p, sp_ebnf p]) \<le> 1)
      (ValueError ''Only one of regex, json_schema, or ebnf can be set.'')))))))))))"

text \<open>\<open>normalize\<close>: the stop strings as a list, and the length of the longest (in tokens, with a tokenizer).\<close>

record tokenizer =
  tk_encode :: "string \<Rightarrow> nat list"
  tk_decode :: "nat list \<Rightarrow> string"
  tk_eos_token_id :: nat
  tk_additional_stop_token_ids :: "nat list option"

fun stop_list :: "stop_arg \<Rightarrow> string list" where
  "stop_list NoStop = []"
| "stop_list (OneStop s) = [s]"
| "stop_list (Stops ss) = ss"

definition normalize :: "tokenizer option \<Rightarrow> sampling_params \<Rightarrow> sampling_params" where
  "normalize tok p =
     (let ss = stop_list (sp_stop_strs p);
          len = (\<lambda>s. case tok of Some t \<Rightarrow> length (tk_encode t s) | None \<Rightarrow> length s)
      in p\<lparr>sp_stop_strs := Stops ss, sp_stop_str_max_len := foldl (\<lambda>m s. max m (len s)) 0 ss\<rparr>)"

definition post_init_latent_mode :: "sampling_params \<Rightarrow> sampling_params" where
  "post_init_latent_mode p = p\<lparr>sp_latent_mode := Some True\<rparr>"

definition latent_on :: "sampling_params \<Rightarrow> bool" where
  "latent_on p = (sp_latent_mode p = Some True)"

section \<open>Req\<close>

datatype finish_reason =
    FinishMatchedToken nat
  | FinishMatchedStr string
  | FinishLength int
  | FinishAbort string

fun finish_is_error :: "finish_reason \<Rightarrow> bool" where
  "finish_is_error (FinishAbort _) = True"
| "finish_is_error _ = False"

text \<open>
  The request extends the fields the caches use (\<open>cache_req\<close>).  The \<open>_tmp\<close> lists collect one
  tensor row per token; the lists without it hold the rows already moved to the host.
\<close>

record latent_req = cache_req +
  lq_rid :: string
  lq_params :: sampling_params
  lq_tokenizer :: "tokenizer option"
  lq_finished_reason :: "finish_reason option"
  lq_to_abort :: bool
  lq_to_abort_message :: string
  lq_eos_token_ids :: "nat list option"
  lq_decoded_text :: string
  lq_origin_input_ids_unpadded :: "nat list"
  lq_surr_offset :: "nat option"
  lq_read_offset :: "nat option"
  lq_is_retracted :: bool
  lq_is_chunked :: int
  lq_extend_input_len :: int
  lq_extend_logprob_start_len :: int
  lq_return_logprob :: bool
  lq_logprob_start_len :: int
  lq_cached_tokens :: int
  lq_already_computed :: int
  lq_output_token_logprobs_val :: "fl list"
  lq_output_token_logprobs_idx :: "nat list"
  lq_top_logprobs_num :: nat
  lq_token_ids_logprob :: "nat list option"
  lq_output_top_logprobs :: "(real list \<times> nat list) list"
  lq_output_token_ids_logprobs :: "(real list \<times> nat list) list"
  lq_topk_prob :: "real list option"
  lq_topk_idx :: "int list option"
  lq_topk_gumbel :: "real list option"
  lq_topk_original_prob :: "real list option"
  lq_probs :: "real list list"
  lq_probs_tmp :: "real list list"
  lq_idxs :: "int list list"
  lq_idxs_tmp :: "int list list"
  lq_gumbels :: "real list list"
  lq_gumbels_tmp :: "real list list"
  lq_original_probs :: "real list list"
  lq_original_probs_tmp :: "real list list"
  lq_original_idxs :: "int list list"
  lq_original_idxs_tmp :: "int list list"
  lq_stream :: bool

definition seqlen :: "'a latent_req_scheme \<Rightarrow> nat" where
  "seqlen q = length (cr_origin_input_ids q) + length (cr_output_ids q)"

definition req_finished :: "'a latent_req_scheme \<Rightarrow> bool" where
  "req_finished q = (lq_finished_reason q \<noteq> None)"

text \<open>\<open>Req.__init__\<close> without \<open>stream\<close>; slot and node of a request that has none yet are 0.\<close>

definition new_req ::
  "string \<Rightarrow> nat list \<Rightarrow> sampling_params \<Rightarrow> tokenizer option \<Rightarrow> nat list option \<Rightarrow> bool \<Rightarrow> nat \<Rightarrow> nat list option \<Rightarrow> bool \<Rightarrow> nat option \<Rightarrow> latent_req" where
  "new_req rid ids params tok eos return_logprob top_num token_ids enable_latent latent_end =
     \<lparr>cr_pool_idx = 0, cr_origin_input_ids = ids, cr_output_ids = [], cr_fill_ids = [], cr_prefix_indices = [],
      cr_last_node = 0, lq_rid = rid,
      lq_params = (let p = params\<lparr>sp_latent_end_token_id := latent_end\<rparr>
                   in if enable_latent then post_init_latent_mode p else p),
      lq_tokenizer = tok, lq_finished_reason = None, lq_to_abort = False, lq_to_abort_message = ''Unknown error'',
      lq_eos_token_ids = eos, lq_decoded_text = '''', lq_origin_input_ids_unpadded = ids,
      lq_surr_offset = None, lq_read_offset = None, lq_is_retracted = False, lq_is_chunked = 0,
      lq_extend_input_len = 0, lq_extend_logprob_start_len = 0,
      lq_return_logprob = return_logprob, lq_logprob_start_len = 0, lq_cached_tokens = 0, lq_already_computed = 0,
      lq_output_token_logprobs_val = [], lq_output_token_logprobs_idx = [],
      lq_top_logprobs_num = top_num, lq_token_ids_logprob = token_ids, lq_output_top_logprobs = [], lq_output_token_ids_logprobs = [],
      lq_topk_prob = None, lq_topk_idx = None, lq_topk_gumbel = None, lq_topk_original_prob = None,
      lq_probs = [], lq_probs_tmp = [], lq_idxs = [], lq_idxs_tmp = [], lq_gumbels = [], lq_gumbels_tmp = [],
      lq_original_probs = [], lq_original_probs_tmp = [], lq_original_idxs = [], lq_original_idxs_tmp = [],
      lq_stream = False\<rparr>"

text \<open>\<open>adjust_max_prefix_ids\<close> and \<open>init_next_round_input\<close> (without the hierarchical cache).\<close>

definition adjust_max_prefix_ids :: "latent_req \<Rightarrow> (nat list \<times> latent_req) result" where
  "adjust_max_prefix_ids q =
     (let fill = cr_origin_input_ids q @ cr_output_ids q;
          input_len = int (length fill);
          m0 = input_len - 1
      in case sp_max_new_tokens (lq_params q) of
           None \<Rightarrow> Inl TypeError
         | Some k \<Rightarrow>
             let m1 = (if 0 < k then min m0 (input_len - 1) else m0);
                 m2 = (if lq_return_logprob q then min m1 (lq_logprob_start_len q) else m1);
                 m3 = max m2 0
             in Inr (take (nat m3) fill, q\<lparr>cr_fill_ids := fill\<rparr>))"

definition init_next_round_input :: "radix \<Rightarrow> latent_req \<Rightarrow> (latent_req \<times> radix) result option" where
  "init_next_round_input tree q =
     (case adjust_max_prefix_ids q of
        Inl e \<Rightarrow> Some (Inl e)
      | Inr (key, q1) \<Rightarrow>
          (case match_prefix tree key of
             None \<Rightarrow> None
           | Some (indices, node, tree') \<Rightarrow>
               Some (Inr (q1\<lparr>cr_prefix_indices := indices, cr_last_node := node,
                             lq_extend_input_len := int (length (cr_fill_ids q1)) - int (length indices)\<rparr>, tree'))))"

definition incremental_offset :: nat where
  "incremental_offset = 5"

definition init_incremental_detokenize :: "latent_req \<Rightarrow> nat list \<times> int \<times> latent_req" where
  "init_incremental_detokenize q =
     (let q1 = (if lq_surr_offset q = None \<or> lq_read_offset q = None
                then let r = length (lq_origin_input_ids_unpadded q)
                     in q\<lparr>lq_read_offset := Some r, lq_surr_offset := Some (r - incremental_offset)\<rparr>
                else q);
          surr = the (lq_surr_offset q1); rd = the (lq_read_offset q1)
      in (drop surr (lq_origin_input_ids_unpadded q1 @ cr_output_ids q1), int rd - int surr, q1))"

section \<open>Finishing\<close>

text \<open>\<open>s in t\<close> on strings.\<close>

definition substring :: "string \<Rightarrow> string \<Rightarrow> bool" where
  "substring s t = list_ex (\<lambda>i. take (length s) (drop i t) = s) [0..<length t + 1]"

definition matched_eos :: "latent_req \<Rightarrow> nat \<Rightarrow> bool" where
  "matched_eos q tok =
     ((case sp_stop_token_ids (lq_params q) of None \<Rightarrow> False | Some ids \<Rightarrow> tok \<in> set ids) \<or>
      (case lq_eos_token_ids q of None \<Rightarrow> False | Some ids \<Rightarrow> tok \<in> set ids) \<or>
      (case lq_tokenizer q of None \<Rightarrow> False | Some t \<Rightarrow> tok = tk_eos_token_id t \<or>
         (case tk_additional_stop_token_ids t of None \<Rightarrow> False | Some ids \<Rightarrow> tok \<in> set ids)))"

fun first_stop :: "string \<Rightarrow> string \<Rightarrow> string list \<Rightarrow> string option" where
  "first_stop tail decoded [] = None"
| "first_stop tail decoded (s # ss) =
     (if substring s tail \<or> substring s decoded then Some s else first_stop tail decoded ss)"

definition check_finished :: "latent_req \<Rightarrow> latent_req result" where
  "check_finished q =
    (let p = lq_params q; out = cr_output_ids q; finish = (\<lambda>r. Inr (q\<lparr>lq_finished_reason := Some r\<rparr>)) in
     if req_finished q then Inr q
     else if lq_to_abort q then finish (FinishAbort (lq_to_abort_message q))
     else case sp_max_new_tokens p of
       None \<Rightarrow> Inl TypeError
     | Some m \<Rightarrow>
        if m \<le> int (length out) then finish (FinishLength m)
        else if out = [] then Inl IndexError
        else if \<not> sp_ignore_eos p \<and> matched_eos q (last out) then finish (FinishMatchedToken (last out))
        else if stop_list (sp_stop_strs p) \<noteq> [] then
          (case lq_tokenizer q of
             None \<Rightarrow> Inl AttributeError
           | Some t \<Rightarrow>
               let tail = tk_decode t (drop (length out - (sp_stop_str_max_len p + 1)) out)
               in case first_stop tail (lq_decoded_text q) (stop_list (sp_stop_strs p)) of
                    None \<Rightarrow> Inr q
                  | Some s \<Rightarrow> finish (FinishMatchedStr s))
        else Inr q)"

section \<open>Latent reasoning\<close>

text \<open>The rows of one forward pass that the sampler leaves in \<open>LogitsProcessorOutput\<close>.\<close>

record latent_output =
  lo_topk_probs :: "real list list"
  lo_topk_indices :: "int list list"
  lo_topk_gumbels :: "real list list option"
  lo_topk_original_probs :: "real list list option"
  lo_topk_original_indices :: "int list list"

text \<open>\<open>row[1:].fill_(0.0); row[0] = 1.0\<close> and \<open>row[1:].fill_(-100); row[0] = token\<close>.\<close>

definition hard_prob :: "real list \<Rightarrow> real list" where
  "hard_prob row = 1 # map (\<lambda>_. 0) (tl row)"

definition hard_idx :: "int \<Rightarrow> int list \<Rightarrow> int list" where
  "hard_idx tok row = tok # map (\<lambda>_. - 100) (tl row)"

definition log_rows :: "latent_output \<Rightarrow> latent_req \<Rightarrow> latent_req" where
  "log_rows out q =
     q\<lparr>lq_probs_tmp := lq_probs_tmp q @ [the (lq_topk_prob q)],
       lq_gumbels_tmp := lq_gumbels_tmp q @ (case lq_topk_gumbel q of None \<Rightarrow> [] | Some g \<Rightarrow> [g]),
       lq_original_probs_tmp := lq_original_probs_tmp q @ (case lq_topk_original_prob q of None \<Rightarrow> [] | Some g \<Rightarrow> [g]),
       lq_idxs_tmp := lq_idxs_tmp q @ [the (lq_topk_idx q)]\<rparr>"

definition update_latent_info :: "latent_output \<Rightarrow> nat \<Rightarrow> latent_req \<Rightarrow> latent_req result" where
  "update_latent_info out i q =
    (let prob = lo_topk_probs out ! i; idx = lo_topk_indices out ! i;
         q0 = q\<lparr>lq_topk_gumbel := map_option (\<lambda>g. g ! i) (lo_topk_gumbels out),
                lq_topk_original_prob := map_option (\<lambda>g. g ! i) (lo_topk_original_probs out)\<rparr>;
         log = (\<lambda>q. Inr (let q' = log_rows out q in
                  q'\<lparr>lq_original_idxs_tmp := lq_original_idxs_tmp q' @ [lo_topk_original_indices out ! i]\<rparr>))
     in if latent_on (lq_params q)
        then if cr_output_ids q = [] then Inl IndexError
             else if sp_latent_end_token_id (lq_params q) = Some (last (cr_output_ids q))
             then log (q0\<lparr>lq_params := (lq_params q)\<lparr>sp_latent_mode := Some False\<rparr>,
                          lq_topk_prob := Some (hard_prob prob),
                          lq_topk_idx := Some (hard_idx (int (last (cr_output_ids q))) idx)\<rparr>)
             else log (q0\<lparr>lq_topk_prob := Some prob, lq_topk_idx := Some idx\<rparr>)
        else log (q0\<lparr>lq_topk_prob := Some (hard_prob prob),
                     lq_topk_idx := Some (hard_idx (if cr_output_ids q = [] then hd idx else int (last (cr_output_ids q))) idx)\<rparr>))"

text \<open>The \<open>get_output_*\<close> methods move the collected rows to the host list and return it.\<close>

definition get_output_topk_prob_list :: "latent_req \<Rightarrow> real list list \<times> latent_req" where
  "get_output_topk_prob_list q =
     (let q' = q\<lparr>lq_probs := lq_probs q @ lq_probs_tmp q, lq_probs_tmp := []\<rparr> in (lq_probs q', q'))"

definition get_output_topk_idx_list :: "latent_req \<Rightarrow> int list list \<times> latent_req" where
  "get_output_topk_idx_list q =
     (let q' = q\<lparr>lq_idxs := lq_idxs q @ lq_idxs_tmp q, lq_idxs_tmp := []\<rparr> in (lq_idxs q', q'))"

definition get_output_topk_gumbel_list :: "latent_req \<Rightarrow> real list list \<times> latent_req" where
  "get_output_topk_gumbel_list q =
     (let q' = q\<lparr>lq_gumbels := lq_gumbels q @ lq_gumbels_tmp q, lq_gumbels_tmp := []\<rparr> in (lq_gumbels q', q'))"

definition get_output_topk_original_prob_list :: "latent_req \<Rightarrow> real list list \<times> latent_req" where
  "get_output_topk_original_prob_list q =
     (let q' = q\<lparr>lq_original_probs := lq_original_probs q @ lq_original_probs_tmp q, lq_original_probs_tmp := []\<rparr>
      in (lq_original_probs q', q'))"

definition get_output_topk_original_indice_list :: "latent_req \<Rightarrow> int list list \<times> latent_req" where
  "get_output_topk_original_indice_list q =
     (let q' = q\<lparr>lq_original_idxs := lq_original_idxs q @ lq_original_idxs_tmp q, lq_original_idxs_tmp := []\<rparr>
      in (lq_original_idxs q', q'))"

definition reset_for_retract :: "latent_req \<Rightarrow> latent_req" where
  "reset_for_retract q =
     q\<lparr>cr_prefix_indices := [], cr_last_node := 0, lq_extend_input_len := 0, lq_is_retracted := True,
       lq_extend_logprob_start_len := 0, lq_is_chunked := 0, cr_pool_idx := 0, lq_already_computed := 0\<rparr>"

text \<open>One token of a decode step, as far as it concerns the request: append, finish check, latent rows.\<close>

definition decode_token :: "latent_output \<Rightarrow> nat \<Rightarrow> nat \<Rightarrow> latent_req \<Rightarrow> latent_req result" where
  "decode_token out i tok q =
     bind_r (check_finished (q\<lparr>cr_output_ids := cr_output_ids q @ [tok]\<rparr>)) (update_latent_info out i)"

section \<open>The input embedding of a top-k row\<close>

text \<open>
  An embedding vector is its coordinate function; \<open>E\<close> is the table of the layer.  A row whose
  indices behind the first are all -100 is a hard token.
\<close>

type_synonym 'd vec = "'d \<Rightarrow> real"

definition is_hard :: "int list \<Rightarrow> bool" where
  "is_hard idx = list_all (\<lambda>j. j = - 100) (tl idx)"

definition weighted_forward :: "(int \<Rightarrow> 'd vec) \<Rightarrow> real list \<Rightarrow> int list \<Rightarrow> 'd vec result" where
  "weighted_forward E probs idx =
     bind_r (check_r (length probs = length idx) AssertionError) (\<lambda>_.
       let safe = map (\<lambda>j. if j = - 100 then hd idx else j) idx in
       Inr (if is_hard idx then E (hd safe)
            else (\<lambda>d. sum_list (map2 (\<lambda>p j. p * E j d) probs safe))))"

text \<open>
  Tensor parallel: each rank holds the rows \<open>start \<le> j < stop\<close> of the table, looks up the others
  at row 0 and zeroes them; the all-reduce adds the ranks.
\<close>

definition get_masked_indices_and_mask :: "int list \<Rightarrow> int \<times> int \<Rightarrow> int list \<times> bool list" where
  "get_masked_indices_and_mask idx shard =
     (let (start, stop) = shard; vocab_mask = map (\<lambda>j. start \<le> j \<and> j < stop) idx in
      (map2 (\<lambda>m j. if m then j - start else 0) vocab_mask idx, map Not vocab_mask))"

definition shard_forward :: "(int \<Rightarrow> 'd vec) \<Rightarrow> real list \<Rightarrow> int list \<Rightarrow> int \<times> int \<Rightarrow> 'd vec" where
  "shard_forward E probs idx shard =
     (let (masked, input_mask) = get_masked_indices_and_mask idx shard;
          embs = map2 (\<lambda>j z d. if z then 0 else E (j + fst shard) d) masked input_mask
      in if is_hard idx then hd embs else (\<lambda>d. sum_list (map2 (\<lambda>p e. p * e d) probs embs)))"

definition weighted_forward_tp :: "(int \<times> int) list \<Rightarrow> (int \<Rightarrow> 'd vec) \<Rightarrow> real list \<Rightarrow> int list \<Rightarrow> 'd vec result" where
  "weighted_forward_tp shards E probs idx =
     bind_r (check_r (length probs = length idx) AssertionError) (\<lambda>_.
       Inr (\<lambda>d. sum_list (map (\<lambda>s. shard_forward E probs idx s d) shards)))"

end
