(* ===== verification/LatentReqOk.thy ===== *)
theory LatentReqOk
  imports LatentReq
begin

text \<open>
  What a latent request does over its decode steps: which rows it logs, when the latent phase
  ends, which embedding each row feeds back into the model, on one GPU and over tensor-parallel
  ranks, and what a retraction does to it.
\<close>

section \<open>Steps\<close>

lemma check_finished_keeps:
  assumes "check_finished q = Inr q'"
  shows "\<exists>r. q' = q\<lparr>lq_finished_reason := r\<rparr>"
proof -
  have "q' = q \<or> (\<exists>r. q' = q\<lparr>lq_finished_reason := Some r\<rparr>)"
    using assms unfolding check_finished_def Let_def by (auto split: if_splits option.splits)
  moreover have "q = q\<lparr>lq_finished_reason := lq_finished_reason q\<rparr>"
    by simp
  ultimately show ?thesis
    by metis
qed

definition ends_latent :: "nat \<Rightarrow> latent_req \<Rightarrow> bool" where
  "ends_latent tok q = (\<not> latent_on (lq_params q) \<or> sp_latent_end_token_id (lq_params q) = Some tok)"

lemma update_latent_info_spec:
  assumes "cr_output_ids q = ids @ [tok]"
  shows "\<exists>q'. update_latent_info out i q = Inr q' \<and>
    cr_output_ids q' = ids @ [tok] \<and>
    latent_on (lq_params q') = (\<not> ends_latent tok q) \<and>
    sp_latent_end_token_id (lq_params q') = sp_latent_end_token_id (lq_params q) \<and>
    sp_max_new_tokens (lq_params q') = sp_max_new_tokens (lq_params q) \<and> sp_stop_strs (lq_params q') = sp_stop_strs (lq_params q) \<and>
    lq_idxs q' = lq_idxs q \<and> lq_probs q' = lq_probs q \<and>
    lq_idxs_tmp q' = lq_idxs_tmp q @
      [if ends_latent tok q then hard_idx (int tok) (lo_topk_indices out ! i) else lo_topk_indices out ! i] \<and>
    lq_probs_tmp q' = lq_probs_tmp q @
      [if ends_latent tok q then hard_prob (lo_topk_probs out ! i) else lo_topk_probs out ! i] \<and>
    lq_topk_idx q' = Some (last (lq_idxs_tmp q')) \<and> lq_topk_prob q' = Some (last (lq_probs_tmp q'))"
  using assms by (auto simp: update_latent_info_def ends_latent_def latent_on_def log_rows_def Let_def)

lemma decode_token_spec:
  assumes "decode_token out i tok q = Inr q'"
  shows "cr_output_ids q' = cr_output_ids q @ [tok] \<and>
    latent_on (lq_params q') = (\<not> ends_latent tok q) \<and>
    sp_latent_end_token_id (lq_params q') = sp_latent_end_token_id (lq_params q) \<and>
    sp_max_new_tokens (lq_params q') = sp_max_new_tokens (lq_params q) \<and> sp_stop_strs (lq_params q') = sp_stop_strs (lq_params q) \<and>
    lq_idxs q' = lq_idxs q \<and> lq_probs q' = lq_probs q \<and>
    lq_idxs_tmp q' = lq_idxs_tmp q @
      [if ends_latent tok q then hard_idx (int tok) (lo_topk_indices out ! i) else lo_topk_indices out ! i] \<and>
    lq_probs_tmp q' = lq_probs_tmp q @
      [if ends_latent tok q then hard_prob (lo_topk_probs out ! i) else lo_topk_probs out ! i] \<and>
    lq_topk_idx q' = Some (last (lq_idxs_tmp q')) \<and> lq_topk_prob q' = Some (last (lq_probs_tmp q'))"
proof -
  obtain q1 where q1: "check_finished (q\<lparr>cr_output_ids := cr_output_ids q @ [tok]\<rparr>) = Inr q1"
      "update_latent_info out i q1 = Inr q'"
    using assms by (auto simp: decode_token_def bind_r_Inr_iff)
  obtain r where r: "q1 = q\<lparr>cr_output_ids := cr_output_ids q @ [tok], lq_finished_reason := r\<rparr>"
    using check_finished_keeps [OF q1(1)] by auto
  have "cr_output_ids q1 = cr_output_ids q @ [tok]" "ends_latent tok q1 = ends_latent tok q"
    by (simp_all add: r ends_latent_def)
  with update_latent_info_spec [OF this(1), of out i] q1(2) show ?thesis
    by (auto simp: r)
qed

lemma decode_token_total:
  assumes "sp_max_new_tokens (lq_params q) = Some m" and "stop_list (sp_stop_strs (lq_params q)) = []"
  shows "\<exists>q'. decode_token out i tok q = Inr q'"
proof -
  let ?q = "q\<lparr>cr_output_ids := cr_output_ids q @ [tok]\<rparr>"
  have "\<exists>q1. check_finished ?q = Inr q1"
    using assms by (simp add: check_finished_def Let_def)
  then obtain q1 where q1: "check_finished ?q = Inr q1"
    by blast
  have "cr_output_ids q1 = cr_output_ids q @ [tok]"
    using check_finished_keeps [OF q1] by auto
  then show ?thesis
    using q1 update_latent_info_spec [of q1 "cr_output_ids q" tok out i] by (auto simp: decode_token_def)
qed

section \<open>Runs\<close>

text \<open>A run is the list of forward passes a request takes part in: the output, its row and the sampled token.\<close>

type_synonym latent_step = "latent_output \<times> nat \<times> nat"

abbreviation "step_tok \<equiv> (\<lambda>(out, i, tok). tok)"
abbreviation "step_idx \<equiv> (\<lambda>(out, i, tok). lo_topk_indices out ! i)"
abbreviation "step_prob \<equiv> (\<lambda>(out, i, tok). lo_topk_probs out ! i)"

fun decode_run :: "latent_step list \<Rightarrow> latent_req \<Rightarrow> latent_req result" where
  "decode_run [] q = Inr q"
| "decode_run ((out, i, tok) # steps) q = bind_r (decode_token out i tok q) (decode_run steps)"

lemma decode_run_append: "decode_run (xs @ ys) q = bind_r (decode_run xs q) (decode_run ys)"
proof (induction xs arbitrary: q)
  case Nil
  then show ?case by simp
next
  case (Cons x xs)
  obtain out i tok where x: "x = (out, i, tok)"
    by (cases x)
  show ?case
    unfolding x by (cases "decode_token out i tok q") (simp_all add: Cons)
qed

lemma decode_run_total:
  "sp_max_new_tokens (lq_params q) = Some m \<Longrightarrow> stop_list (sp_stop_strs (lq_params q)) = [] \<Longrightarrow> \<exists>q'. decode_run steps q = Inr q'"
proof (induction steps arbitrary: q)
  case Nil
  then show ?case by simp
next
  case (Cons x steps)
  obtain out i tok where x: "x = (out, i, tok)"
    by (cases x)
  obtain q1 where q1: "decode_token out i tok q = Inr q1"
    using decode_token_total [OF Cons.prems] by blast
  show ?case
    using Cons.IH [of q1] decode_token_spec [OF q1] Cons.prems q1 by (simp add: x)
qed

lemma decode_run_params:
  "decode_run steps q = Inr q' \<Longrightarrow> sp_max_new_tokens (lq_params q') = sp_max_new_tokens (lq_params q)"
proof (induction steps arbitrary: q)
  case Nil
  then show ?case by simp
next
  case (Cons x steps)
  obtain out i tok where x: "x = (out, i, tok)"
    by (cases x)
  obtain q1 where "decode_token out i tok q = Inr q1" "decode_run steps q1 = Inr q'"
    using Cons.prems by (auto simp: x bind_r_Inr_iff)
  then show ?case
    using Cons.IH decode_token_spec by fastforce
qed

definition soft_at :: "nat \<Rightarrow> latent_step list \<Rightarrow> nat \<Rightarrow> bool" where
  "soft_at e steps k = (e \<notin> set (map step_tok (take (Suc k) steps)))"

lemma soft_at_snoc: "k < length steps \<Longrightarrow> soft_at e (steps @ [x]) k = soft_at e steps k"
  by (simp add: soft_at_def)

lemma decode_run_spec:
  assumes "decode_run steps q = Inr q'" and "latent_on (lq_params q)"
    and "sp_latent_end_token_id (lq_params q) = Some e"
  shows "cr_output_ids q' = cr_output_ids q @ map step_tok steps \<and>
    latent_on (lq_params q') = (e \<notin> set (map step_tok steps)) \<and>
    sp_latent_end_token_id (lq_params q') = Some e \<and> lq_idxs q' = lq_idxs q \<and> lq_probs q' = lq_probs q \<and>
    lq_idxs_tmp q' = lq_idxs_tmp q @
      map (\<lambda>k. if soft_at e steps k then step_idx (steps ! k) else hard_idx (int (step_tok (steps ! k))) (step_idx (steps ! k))) [0..<length steps] \<and>
    lq_probs_tmp q' = lq_probs_tmp q @
      map (\<lambda>k. if soft_at e steps k then step_prob (steps ! k) else hard_prob (step_prob (steps ! k))) [0..<length steps]"
  using assms
proof (induction steps arbitrary: q' rule: rev_induct)
  case Nil
  then show ?case by simp
next
  case (snoc x steps)
  obtain out i tok where x: "x = (out, i, tok)"
    by (cases x)
  obtain q1 where q1: "decode_run steps q = Inr q1" "decode_token out i tok q1 = Inr q'"
    using snoc.prems(1) by (auto simp: decode_run_append x bind_r_Inr_iff)
  note IH = snoc.IH [OF q1(1) snoc.prems(2,3)]
  note step = decode_token_spec [OF q1(2)]
  have ends: "ends_latent tok q1 = (\<not> soft_at e (steps @ [x]) (length steps))"
    using IH by (auto simp: ends_latent_def soft_at_def x)
  have nth: "k < length steps \<Longrightarrow> (steps @ [x]) ! k = steps ! k" for k
    by (simp add: nth_append)
  have maps: "map (\<lambda>k. f (soft_at e (steps @ [x]) k) ((steps @ [x]) ! k)) [0..<length (steps @ [x])] =
      map (\<lambda>k. f (soft_at e steps k) (steps ! k)) [0..<length steps] @ [f (soft_at e (steps @ [x]) (length steps)) x]"
    for f :: "bool \<Rightarrow> latent_step \<Rightarrow> 'z"
    by (simp add: soft_at_snoc nth)
  have "latent_on (lq_params q') = (e \<notin> set (map step_tok (steps @ [x])))"
    using step IH by (auto simp: ends_latent_def x)
  moreover have "lq_idxs_tmp q' = lq_idxs_tmp q @
      map (\<lambda>k. if soft_at e (steps @ [x]) k then step_idx ((steps @ [x]) ! k)
               else hard_idx (int (step_tok ((steps @ [x]) ! k))) (step_idx ((steps @ [x]) ! k))) [0..<length (steps @ [x])]"
    using maps [of "\<lambda>b s. if b then step_idx s else hard_idx (int (step_tok s)) (step_idx s)"] step IH ends
    by (simp add: x)
  moreover have "lq_probs_tmp q' = lq_probs_tmp q @
      map (\<lambda>k. if soft_at e (steps @ [x]) k then step_prob ((steps @ [x]) ! k)
               else hard_prob (step_prob ((steps @ [x]) ! k))) [0..<length (steps @ [x])]"
    using maps [of "\<lambda>b s. if b then step_prob s else hard_prob (step_prob s)"] step IH ends
    by (simp add: x)
  ultimately show ?case
    using step IH by (simp add: x)
qed

section \<open>Embeddings\<close>

lemma hard_row [simp]: "is_hard (hard_idx tok row)" "hd (hard_idx tok row) = tok" "length (hard_idx tok row) = Suc (length row - 1)"
    "length (hard_prob ps) = Suc (length ps - 1)"
  by (simp_all add: is_hard_def hard_idx_def hard_prob_def list_all_iff)

lemma weighted_forward_hard:
  "length ps = length row \<Longrightarrow> weighted_forward E (hard_prob ps) (hard_idx tok row) = Inr (E tok)"
  by (cases "tok = - 100") (simp_all add: weighted_forward_def hard_idx_def is_hard_def hard_prob_def list_all_iff Let_def)

text \<open>The shards cover every token of the vocabulary once, and no shard holds the mark -100.\<close>

definition shards_cover :: "(int \<times> int) list \<Rightarrow> int \<Rightarrow> bool" where
  "shards_cover shards j = (length (filter (\<lambda>(a, b). a \<le> j \<and> j < b) shards) = 1)"

lemma sum_shards:
  "(\<Sum>s\<leftarrow>shards. if fst s \<le> j \<and> j < snd s then (c::real) else 0) = real (length (filter (\<lambda>(a, b). a \<le> j \<and> j < b) shards)) * c"
  by (induction shards) (auto simp: algebra_simps)

lemma sum_list_swap:
  "(\<Sum>s\<leftarrow>xs. \<Sum>k\<leftarrow>ys. (f s k :: real)) = (\<Sum>k\<leftarrow>ys. \<Sum>s\<leftarrow>xs. f s k)"
  by (induction xs) (simp_all add: sum_list_addf)

lemma shard_forward_soft:
  "\<not> is_hard idx \<Longrightarrow> shard_forward E ps idx s d =
     (\<Sum>(p, j)\<leftarrow>zip ps idx. if fst s \<le> j \<and> j < snd s then p * E j d else 0)"
proof -
  assume h: "\<not> is_hard idx"
  have "sum_list (map2 (\<lambda>p e. p * e d) ps
       (map2 (\<lambda>j z d. if z then 0 else E (j + a) d)
         (map2 (\<lambda>m j. if m then j - a else 0) (map (\<lambda>j. a \<le> j \<and> j < b) idx) idx)
         (map Not (map (\<lambda>j. a \<le> j \<and> j < b) idx)))) =
     (\<Sum>(p, j)\<leftarrow>zip ps idx. if a \<le> j \<and> j < b then p * E j d else 0)" for a b
  proof (induction ps arbitrary: idx)
    case Nil
    then show ?case by simp
  next
    case (Cons p ps)
    show ?case
      using Cons [of "tl idx"] by (cases idx) auto
  qed
  with h show ?thesis
    by (simp add: shard_forward_def get_masked_indices_and_mask_def Let_def split_def)
qed

lemma shard_forward_hard:
  "is_hard idx \<Longrightarrow> idx \<noteq> [] \<Longrightarrow> shard_forward E ps idx s d =
     (if fst s \<le> hd idx \<and> hd idx < snd s then E (hd idx) d else 0)"
  by (cases idx) (auto simp: shard_forward_def get_masked_indices_and_mask_def Let_def split_def)

lemma tp_equals_single:
  assumes "length ps = length idx" and "idx \<noteq> []" and "is_hard idx \<or> - 100 \<notin> set idx" and "hd idx \<noteq> - 100"
    and cover: "\<forall>j\<in>set idx. j \<noteq> - 100 \<longrightarrow> shards_cover shards j"
  shows "weighted_forward_tp shards E ps idx = weighted_forward E ps idx"
proof (cases "is_hard idx")
  case True
  have "shards_cover shards (hd idx)"
    using cover assms(2,4) by simp
  then have "(\<Sum>s\<leftarrow>shards. if fst s \<le> hd idx \<and> hd idx < snd s then E (hd idx) d else 0) = E (hd idx) d" for d
    unfolding sum_shards shards_cover_def by simp
  then have "(\<lambda>d. \<Sum>s\<leftarrow>shards. shard_forward E ps idx s d) = E (hd idx)"
    by (simp add: shard_forward_hard [OF True assms(2)])
  moreover have "hd (map (\<lambda>j. if j = - 100 then hd idx else j) idx) = hd idx"
    using assms(2) by (cases idx) auto
  ultimately show ?thesis
    using assms(1) True by (simp add: weighted_forward_tp_def weighted_forward_def Let_def)
next
  case False
  then have no: "- 100 \<notin> set idx"
    using assms(3) by blast
  have one: "(\<Sum>s\<leftarrow>shards. if fst s \<le> j \<and> j < snd s then p * E j d else 0) = p * E j d" if "j \<in> set idx" for p j d
    using that cover no unfolding sum_shards shards_cover_def by auto
  have "(\<lambda>d. \<Sum>s\<leftarrow>shards. shard_forward E ps idx s d) = (\<lambda>d. \<Sum>(p, j)\<leftarrow>zip ps idx. p * E j d)"
  proof (rule ext)
    fix d
    have "(\<Sum>s\<leftarrow>shards. shard_forward E ps idx s d) =
        (\<Sum>pj\<leftarrow>zip ps idx. \<Sum>s\<leftarrow>shards. if fst s \<le> snd pj \<and> snd pj < snd s then fst pj * E (snd pj) d else 0)"
      by (simp add: shard_forward_soft [OF False] split_def sum_list_swap [of _ shards])
    also have "\<dots> = (\<Sum>pj\<leftarrow>zip ps idx. fst pj * E (snd pj) d)"
    proof (rule arg_cong [where f = sum_list], rule map_cong [OF refl])
      fix pj
      assume "pj \<in> set (zip ps idx)"
      then have "snd pj \<in> set idx"
        by (metis prod.collapse set_zip_rightD)
      then show "(\<Sum>s\<leftarrow>shards. if fst s \<le> snd pj \<and> snd pj < snd s then fst pj * E (snd pj) d else 0) = fst pj * E (snd pj) d"
        by (rule one)
    qed
    finally show "(\<Sum>s\<leftarrow>shards. shard_forward E ps idx s d) = (\<Sum>(p, j)\<leftarrow>zip ps idx. p * E j d)"
      by (simp add: split_def)
  qed
  moreover have "map (\<lambda>j. if j = - 100 then hd idx else j) idx = idx"
    using no by (intro map_idI) auto
  ultimately show ?thesis
    using assms(1) False by (simp add: weighted_forward_tp_def weighted_forward_def Let_def)
qed

lemma transcript_rows:
  assumes "decode_run steps (new_req rid ids params tk eos lp tn ti True (Some e)) = Inr q"
  shows "cr_output_ids q = map step_tok steps \<and>
    latent_on (lq_params q) = (e \<notin> set (map step_tok steps)) \<and>
    fst (get_output_topk_idx_list q) = map (\<lambda>k.
      if e \<notin> set (map step_tok (take (Suc k) steps)) then step_idx (steps ! k)
      else hard_idx (int (step_tok (steps ! k))) (step_idx (steps ! k))) [0..<length steps] \<and>
    fst (get_output_topk_prob_list q) = map (\<lambda>k.
      if e \<notin> set (map step_tok (take (Suc k) steps)) then step_prob (steps ! k)
      else hard_prob (step_prob (steps ! k))) [0..<length steps]"
proof -
  let ?q = "new_req rid ids params tk eos lp tn ti True (Some e)"
  have init: "latent_on (lq_params ?q)" "sp_latent_end_token_id (lq_params ?q) = Some e"
      "cr_output_ids ?q = []" "lq_idxs_tmp ?q = []" "lq_probs_tmp ?q = []" "lq_idxs ?q = []" "lq_probs ?q = []"
    by (simp_all add: new_req_def post_init_latent_mode_def latent_on_def)
  show ?thesis
    using decode_run_spec [OF assms init(1,2)] init(3-)
    unfolding soft_at_def by (simp add: get_output_topk_idx_list_def get_output_topk_prob_list_def Let_def)
qed

section \<open>Properties\<close>

text \<open>
  C7. The transcript of a latent request.  However many forward passes a request has been through,
  its output ids are the sampled tokens; it is in latent mode exactly while the end token has not
  been sampled; and it has logged one row per token: the sampler's soft row for each token before the
  first end token, and from there on the hard row of the sampled token, with all the probability on
  it and -100 in the unused places.
\<close>

theorem latent_transcript:
  assumes "decode_run steps (new_req rid ids params tk eos lp tn ti True (Some e)) = Inr q"
  shows "cr_output_ids q = map step_tok steps \<and>
    latent_on (lq_params q) = (e \<notin> set (map step_tok steps)) \<and>
    fst (get_output_topk_idx_list q) = map (\<lambda>k.
      if e \<notin> set (map step_tok (take (Suc k) steps)) then step_idx (steps ! k)
      else hard_idx (int (step_tok (steps ! k))) (step_idx (steps ! k))) [0..<length steps] \<and>
    fst (get_output_topk_prob_list q) = map (\<lambda>k.
      if e \<notin> set (map step_tok (take (Suc k) steps)) then step_prob (steps ! k)
      else hard_prob (step_prob (steps ! k))) [0..<length steps]"
  using assms by (rule transcript_rows)

definition demo_params :: sampling_params where
  "demo_params = \<lparr>sp_max_new_tokens = Some 8, sp_stop_strs = NoStop, sp_stop_str_max_len = 0, sp_stop_token_ids = None,
     sp_temperature = Fin 1, sp_top_p = Fin 1, sp_top_k = 4, sp_min_p = Fin 0, sp_latent_mode = None,
     sp_latent_end_token_id = None, sp_gumbel_softmax_temperature = Fin 1, sp_noise_scale = Fin 1,
     sp_add_noise_gumbel_softmax = True, sp_use_one_sided_gumbel_noise = False, sp_one_sided_gumbel_delta = VInt 0,
     sp_frequency_penalty = Fin 0, sp_presence_penalty = Fin 0, sp_repetition_penalty = Fin 1,
     sp_min_new_tokens = 0, sp_json_schema = None, sp_regex = None, sp_ebnf = None, sp_ignore_eos = False\<rparr>"

definition demo_out :: latent_output where
  "demo_out = \<lparr>lo_topk_probs = [[1/2, 1/2]], lo_topk_indices = [[3, 5]], lo_topk_gumbels = None,
     lo_topk_original_probs = None, lo_topk_original_indices = [[3, 5]]\<rparr>"

definition demo_steps :: "latent_step list" where
  "demo_steps = [(demo_out, 0, 3), (demo_out, 0, 9), (demo_out, 0, 4)]"

lemma demo_run_ok: "\<exists>q. decode_run demo_steps (new_req ''r'' [1] demo_params None None False 0 None True (Some 9)) = Inr q"
  by (rule decode_run_total [of _ 8]) (simp_all add: new_req_def demo_params_def post_init_latent_mode_def)

lemma latent_transcript_witness:
  "\<exists>q. decode_run demo_steps (new_req ''r'' [1] demo_params None None False 0 None True (Some 9)) = Inr q \<and>
     fst (get_output_topk_idx_list q) = [[3, 5], [9, - 100], [4, - 100]] \<and> cr_output_ids q = [3, 9, 4]"
proof -
  obtain q where q: "decode_run demo_steps (new_req ''r'' [1] demo_params None None False 0 None True (Some 9)) = Inr q"
    using demo_run_ok by blast
  from latent_transcript [OF q] q show ?thesis
    by (auto simp: demo_steps_def demo_out_def hard_idx_def upt_rec)
qed

text \<open>
  C36. What a logged row feeds back.  For the k-th row that a latent request has logged, the
  tensor-parallel embedding over shards that cover the vocabulary once equals the single-GPU
  embedding; once the end token has been sampled it is exactly the embedding of the k-th output id;
  before, it is the mixture of the sampler's top-k embeddings with the sampler's weights.
\<close>

theorem latent_row_embedding:
  assumes run: "decode_run steps (new_req rid ids params tk eos lp tn ti True (Some e)) = Inr q" and k: "k < length steps"
    and rows: "length (step_prob (steps ! k)) = length (step_idx (steps ! k))" "2 \<le> length (step_idx (steps ! k))"
      "- 100 \<notin> set (step_idx (steps ! k))"
    and cover: "\<forall>j\<in>set (int (step_tok (steps ! k)) # step_idx (steps ! k)). shards_cover shards j"
  shows "let ps = fst (get_output_topk_prob_list q) ! k; js = fst (get_output_topk_idx_list q) ! k in
    weighted_forward_tp shards E ps js = weighted_forward E ps js \<and>
    weighted_forward E ps js =
      (if e \<in> set (take (Suc k) (cr_output_ids q)) then Inr (E (int (cr_output_ids q ! k)))
       else Inr (\<lambda>d. \<Sum>(p, j)\<leftarrow>zip (step_prob (steps ! k)) (step_idx (steps ! k)). p * E j d))"
proof -
  let ?t = "step_tok (steps ! k)" and ?js = "step_idx (steps ! k)" and ?ps = "step_prob (steps ! k)"
  let ?soft = "e \<notin> set (map step_tok (take (Suc k) steps))"
  have idx: "fst (get_output_topk_idx_list q) ! k = (if ?soft then ?js else hard_idx (int ?t) ?js)"
    and prob: "fst (get_output_topk_prob_list q) ! k = (if ?soft then ?ps else hard_prob ?ps)"
    and out: "cr_output_ids q = map step_tok steps"
    using transcript_rows [OF run] k by simp_all
  have soft: "e \<in> set (take (Suc k) (cr_output_ids q)) \<longleftrightarrow> \<not> ?soft" "cr_output_ids q ! k = ?t"
    unfolding out using k by (simp_all add: take_map)
  show ?thesis
  proof (cases ?soft)
    case True
    have nh: "\<not> is_hard ?js"
      using rows(2,3) by (cases ?js; cases "tl ?js") (auto simp: is_hard_def)
    have "hd ?js \<noteq> - 100" "?js \<noteq> []"
      using rows(2,3) by (cases ?js; force)+
    then have "weighted_forward_tp shards E ?ps ?js = weighted_forward E ?ps ?js"
      using rows cover by (intro tp_equals_single) auto
    moreover have "map (\<lambda>j. if j = - 100 then hd ?js else j) ?js = ?js"
      using rows(3) by (intro map_idI) auto
    ultimately show ?thesis
      using True nh rows(1) by (simp add: idx prob soft weighted_forward_def Let_def)
  next
    case False
    have "weighted_forward_tp shards E (hard_prob ?ps) (hard_idx (int ?t) ?js) = weighted_forward E (hard_prob ?ps) (hard_idx (int ?t) ?js)"
    proof (rule tp_equals_single)
      show "hd (hard_idx (int ?t) ?js) \<noteq> - 100"
        by simp
      show "hard_idx (int ?t) ?js \<noteq> []"
        by (simp add: hard_idx_def)
      show "\<forall>j\<in>set (hard_idx (int ?t) ?js). j \<noteq> - 100 \<longrightarrow> shards_cover shards j"
        using cover by (auto simp: hard_idx_def)
    qed (use rows(1) in simp_all)
    then show ?thesis
      using False rows(1) by (simp add: idx prob soft weighted_forward_hard)
  qed
qed

lemma latent_row_embedding_witness:
  "\<exists>q. decode_run demo_steps (new_req ''r'' [1] demo_params None None False 0 None True (Some 9)) = Inr q \<and>
     weighted_forward_tp [(0, 4), (4, 10)] (\<lambda>j (_::unit). real_of_int j) (fst (get_output_topk_prob_list q) ! 0)
       (fst (get_output_topk_idx_list q) ! 0) = Inr (\<lambda>_. 4)"
proof -
  obtain q where q: "decode_run demo_steps (new_req ''r'' [1] demo_params None None False 0 None True (Some 9)) = Inr q"
    using demo_run_ok by blast
  from latent_row_embedding [OF q, of 0 "[(0, 4), (4, 10)]" "\<lambda>j (_::unit). real_of_int j"] transcript_rows [OF q] q show ?thesis
    by (auto simp: demo_steps_def demo_out_def shards_cover_def Let_def)
qed

section \<open>Retraction\<close>

text \<open>
  A prefill embeds the ids of \<open>fill_ids\<close> (\<open>embed_tokens(input_ids)\<close> in \<open>models/qwen2.py\<close>; the top-k
  rows reach the model in decode passes only).  A retracted request keeps its output ids but not the
  rows, so the prefill that brings it back computes its latent positions from the embedding of the
  top-1 id instead of the mixture they were decoded with: here 3 instead of 4.
\<close>

definition prefill_inputs :: "(int \<Rightarrow> 'd vec) \<Rightarrow> nat list \<Rightarrow> 'd vec list" where
  "prefill_inputs E ids = map (\<lambda>t. E (int t)) ids"

lemma retracted_fill_ids:
  assumes "decode_run steps (new_req rid ids params tk eos lp tn ti True (Some e)) = Inr q"
    and "sp_max_new_tokens (lq_params q) = Some m"
  shows "\<exists>key q'. adjust_max_prefix_ids (reset_for_retract q) = Inr (key, q') \<and> cr_fill_ids q' = cr_origin_input_ids q @ map step_tok steps"
  using transcript_rows [OF assms(1)] assms(2) by (simp add: adjust_max_prefix_ids_def reset_for_retract_def Let_def)

lemma retraction_changes_latent_input:
  "\<exists>q key q'. decode_run demo_steps (new_req ''r'' [1] demo_params None None False 0 None True (Some 9)) = Inr q \<and>
     weighted_forward (\<lambda>j (_::unit). real_of_int j) (fst (get_output_topk_prob_list q) ! 0) (fst (get_output_topk_idx_list q) ! 0) = Inr (\<lambda>_. 4) \<and>
     adjust_max_prefix_ids (reset_for_retract q) = Inr (key, q') \<and>
     drop (length (cr_fill_ids q') - 3) (prefill_inputs (\<lambda>j (_::unit). real_of_int j) (cr_fill_ids q')) = [\<lambda>_. 3, \<lambda>_. 9, \<lambda>_. 4]"
proof -
  let ?q = "new_req ''r'' [1] demo_params None None False 0 None True (Some 9)"
  obtain q where q: "decode_run demo_steps ?q = Inr q"
    using demo_run_ok by blast
  have "sp_max_new_tokens (lq_params q) = Some 8"
    using decode_run_params [OF q] by (simp add: new_req_def demo_params_def post_init_latent_mode_def)
  then obtain key q' where q': "adjust_max_prefix_ids (reset_for_retract q) = Inr (key, q')"
      "cr_fill_ids q' = cr_origin_input_ids q @ [3, 9, 4]"
    using retracted_fill_ids [OF q] by (auto simp: demo_steps_def)
  have "weighted_forward (\<lambda>j (_::unit). real_of_int j) (fst (get_output_topk_prob_list q) ! 0) (fst (get_output_topk_idx_list q) ! 0) = Inr (\<lambda>_. 4)"
    using transcript_rows [OF q] by (simp add: demo_steps_def demo_out_def weighted_forward_def is_hard_def Let_def)
  then show ?thesis
    using q q' by (auto simp: prefill_inputs_def)
qed

end
