(* ===== verification/LatentSampler.thy ===== *)
theory LatentSampler
  imports LatentReq LatentGrpo
begin

text \<open>
  The sampler of latent reasoning: \<open>srt/layers/sampler.py\<close>, the columns of per-request parameters it
  reads (\<open>SamplingBatchInfo\<close> in \<open>srt/sampling/sampling_batch_info.py\<close>), and the decode half of the
  scheduler's output processor (\<open>srt/managers/scheduler_output_processor_mixin.py\<close>).  A row of
  logits is a list of reals over the vocabulary.  \<open>torch.topk\<close> and \<open>torch.sort\<close> put equal entries in index order.
  The random draws (exponential noise, multinomial), the kernels of \<open>sgl_kernel\<close>, the custom logit processors
  and the all-reduce are parameters.
\<close>

section \<open>Tensor operations on a row\<close>

definition softmax :: "real list \<Rightarrow> real list" where
  "softmax xs = map (\<lambda>x. exp x / (\<Sum>y\<leftarrow>xs. exp y)) xs"

definition log_softmax :: "real list \<Rightarrow> real list" where
  "log_softmax xs = map (\<lambda>x. x - ln (\<Sum>y\<leftarrow>xs. exp y)) xs"

definition order_desc :: "real list \<Rightarrow> nat list" where
  "order_desc xs = sort_key (\<lambda>i. - (xs ! i)) [0..<length xs]"

definition topk_ids :: "nat \<Rightarrow> real list \<Rightarrow> nat list" where
  "topk_ids k xs = take k (order_desc xs)"

definition gather :: "'a list \<Rightarrow> nat list \<Rightarrow> 'a list" where
  "gather xs ids = map (\<lambda>i. xs ! i) ids"

lemma gather_map: "\<forall>i\<in>set keep. i < length xs \<Longrightarrow> gather (map f xs) keep = map f (gather xs keep)"
  by (simp add: gather_def)

fun cumsum :: "real \<Rightarrow> real list \<Rightarrow> real list" where
  "cumsum acc [] = []"
| "cumsum acc (x # xs) = (acc + x) # cumsum (acc + x) xs"

definition scatter :: "nat \<Rightarrow> 'a \<Rightarrow> nat list \<Rightarrow> 'a list \<Rightarrow> 'a list" where
  "scatter n fill ids vals = foldl (\<lambda>ys iv. ys[fst iv := snd iv]) (replicate n fill) (zip ids vals)"

section \<open>The latent row\<close>

definition require_latent_end_token_id :: "pyval \<Rightarrow> nat result" where
  "require_latent_end_token_id v =
     (case v of
        VInt i \<Rightarrow> if i < 0 then Inl (RuntimeError ''latent_end_token_id must be non-negative'') else Inr (nat i)
      | _ \<Rightarrow> Inl (RuntimeError ''latent_end_token_id is required in SGLang server args when latent mode is enabled''))"

text \<open>The nucleus, but never fewer than the \<open>k\<close> most probable tokens.\<close>

definition nucleus_mask :: "real \<Rightarrow> nat \<Rightarrow> real list \<Rightarrow> bool list" where
  "nucleus_mask top_p k probs =
     (let order = order_desc probs;
          sorted_probs = gather probs order;
          cumulative = cumsum 0 sorted_probs;
          sorted_mask = map (\<lambda>r. cumulative ! r - sorted_probs ! r < top_p \<or> r < k) [0..<length probs]
      in scatter (length probs) False order sorted_mask)"

definition apply_one_sided_gumbel_delta :: "bool \<Rightarrow> real \<Rightarrow> real list \<Rightarrow> real list" where
  "apply_one_sided_gumbel_delta one_sided delta gumbels =
     (if one_sided then map (\<lambda>g. g + 15 / 10 + delta) gumbels else gumbels)"

definition scale_gumbels :: "real \<Rightarrow> real list \<Rightarrow> real list" where
  "scale_gumbels scale gumbels = map (\<lambda>g. scale * g) gumbels"

definition gumbel_noise :: "bool \<Rightarrow> real \<Rightarrow> real \<Rightarrow> real list \<Rightarrow> real list" where
  "gumbel_noise one_sided delta scale raw =
     scale_gumbels scale (apply_one_sided_gumbel_delta one_sided delta (map (\<lambda>g. clamp g (- 15 / 10) 3) raw))"

text \<open>The tokens in the order of their scores, the masked ones (score \<open>-inf\<close>) behind all others.\<close>

definition masked_order :: "bool list \<Rightarrow> real list \<Rightarrow> nat list" where
  "masked_order msk scores =
     filter (\<lambda>i. msk ! i) (order_desc scores) @ filter (\<lambda>i. \<not> msk ! i) [0..<length scores]"

record noisy_row =
  nr_scores :: "real list"
  nr_probs :: "real list"
  nr_ids :: "nat list"
  nr_logprob :: real

definition noisy_topk :: "nat \<Rightarrow> real \<Rightarrow> bool \<Rightarrow> real \<Rightarrow> real \<Rightarrow> real \<Rightarrow> real list \<Rightarrow> real list \<Rightarrow> noisy_row" where
  "noisy_topk k top_p one_sided delta scale temperature raw logits =
     (let full_log_probs = log_softmax logits;
          msk = nucleus_mask top_p k (softmax logits);
          gumbels = gumbel_noise one_sided delta scale raw;
          scores = map2 (+) full_log_probs gumbels;
          ids = take k (masked_order msk scores);
          noise = gather gumbels ids
      in \<lparr>nr_scores = gather scores ids,
          nr_probs = softmax (map (\<lambda>s. s / temperature) (gather scores ids)),
          nr_ids = ids,
          nr_logprob = (\<Sum>g\<leftarrow>noise. - g - exp (- g)) / real k\<rparr>)"

record latent_row =
  lr_gumbels :: "real list"
  lr_probs :: "real list"
  lr_ids :: "nat list"
  lr_original_probs :: "real list"
  lr_original_ids :: "nat list"
  lr_logprob :: real

text \<open>A batch in which some request asks for noise, and one in which none does.\<close>

definition latent_row_noisy ::
  "nat \<Rightarrow> nat \<Rightarrow> bool \<Rightarrow> bool \<Rightarrow> real \<Rightarrow> bool \<Rightarrow> real \<Rightarrow> real \<Rightarrow> real \<Rightarrow> real \<Rightarrow> real list \<Rightarrow> real list \<Rightarrow> latent_row" where
  "latent_row_noisy k latent_end latent_mode add_noise top_p one_sided delta scale gumbel_temperature temperature raw logits =
     (let n = noisy_topk k top_p one_sided delta scale gumbel_temperature raw logits;
          top = topk_ids k logits;
          use_noise = (latent_mode \<and> hd top \<noteq> latent_end \<and> add_noise);
          latent_probs = softmax (map (\<lambda>x. x / temperature) logits)
      in \<lparr>lr_gumbels = nr_scores n,
          lr_probs = (if use_noise then nr_probs n else softmax (gather logits top)),
          lr_ids = (if use_noise then nr_ids n else top),
          lr_original_probs = gather latent_probs (topk_ids k latent_probs),
          lr_original_ids = top,
          lr_logprob = nr_logprob n\<rparr>)"

definition latent_row_plain :: "nat \<Rightarrow> real \<Rightarrow> real list \<Rightarrow> latent_row" where
  "latent_row_plain k temperature logits =
     (let top = topk_ids k logits; latent_probs = softmax (map (\<lambda>x. x / temperature) logits)
      in \<lparr>lr_gumbels = gather logits top, lr_probs = softmax (gather logits top), lr_ids = top,
          lr_original_probs = gather latent_probs (topk_ids k latent_probs), lr_original_ids = top, lr_logprob = 0\<rparr>)"

section \<open>SamplingBatchInfo\<close>

text \<open>One column per parameter, one entry per request of the batch.\<close>

record 'p batch_info =
  bi_temperatures :: "real list"
  bi_top_ps :: "real list"
  bi_top_ks :: "int list"
  bi_min_ps :: "real list"
  bi_is_all_greedy :: bool
  bi_need_min_p_sampling :: bool
  bi_enable_latent :: bool
  bi_latent_modes :: "bool list"
  bi_max_topk :: nat
  bi_add_noise_gumbel_softmax :: "bool list"
  bi_use_one_sided_gumbel_noise :: "bool list"
  bi_one_sided_gumbel_deltas :: "real list"
  bi_noise_scales :: "real list"
  bi_gumbel_softmax_temperatures :: "real list"
  bi_has_custom :: bool
  bi_custom :: "(string \<times> bool list) list"
  bi_custom_params :: "'p option list"

definition num_val :: "pyval \<Rightarrow> real" where
  "num_val v = (case to_float v of Some x \<Rightarrow> fin_val x | None \<Rightarrow> 0)"

text \<open>
  \<open>from_schedule_batch\<close>.  \<open>processors\<close> and \<open>custom_params\<close> are the requests' custom logit processor
  strings and their parameters; requests with the same processor share a mask.
\<close>

definition processor_masks :: "string option list \<Rightarrow> (string \<times> bool list) list" where
  "processor_masks procs =
     map (\<lambda>s. (s, map (\<lambda>p. p = Some s) procs)) (fromkeys (concat (map (\<lambda>p. case p of None \<Rightarrow> [] | Some s \<Rightarrow> [s]) procs)))"

definition from_schedule_batch ::
  "bool \<Rightarrow> nat \<Rightarrow> bool \<Rightarrow> string option list \<Rightarrow> 'p option list \<Rightarrow> sampling_params list \<Rightarrow> 'p batch_info" where
  "from_schedule_batch enable_latent max_topk enable_custom procs custom_params ps =
     (let has_custom = (enable_custom \<and> list_ex (\<lambda>p. p \<noteq> None \<and> p \<noteq> Some '''') procs)
      in \<lparr>bi_temperatures = map (\<lambda>p. fin_val (sp_temperature p)) ps,
          bi_top_ps = map (\<lambda>p. fin_val (sp_top_p p)) ps,
          bi_top_ks = map sp_top_k ps,
          bi_min_ps = map (\<lambda>p. fin_val (sp_min_p p)) ps,
          bi_is_all_greedy = list_all (\<lambda>p. sp_top_k p \<le> 1) ps,
          bi_need_min_p_sampling = list_ex (\<lambda>p. 0 < fin_val (sp_min_p p)) ps,
          bi_enable_latent = enable_latent,
          bi_latent_modes = (if enable_latent then map latent_on ps else []),
          bi_max_topk = (if enable_latent then max_topk else 0),
          bi_add_noise_gumbel_softmax = map sp_add_noise_gumbel_softmax ps,
          bi_use_one_sided_gumbel_noise = map sp_use_one_sided_gumbel_noise ps,
          bi_one_sided_gumbel_deltas = map (\<lambda>p. num_val (sp_one_sided_gumbel_delta p)) ps,
          bi_noise_scales = map (\<lambda>p. fin_val (sp_noise_scale p)) ps,
          bi_gumbel_softmax_temperatures = map (\<lambda>p. fin_val (sp_gumbel_softmax_temperature p)) ps,
          bi_has_custom = has_custom,
          bi_custom = (if has_custom then processor_masks procs else []),
          bi_custom_params = (if has_custom then custom_params else [])\<rparr>)"

text \<open>\<open>filter_batch\<close>; the masks of a dropped processor go, and without any the flag falls.\<close>

definition filter_custom :: "nat list \<Rightarrow> 'p batch_info \<Rightarrow> 'p batch_info" where
  "filter_custom keep bi =
     (let custom = filter (\<lambda>(s, m). list_ex (\<lambda>b. b) m) (map (\<lambda>(s, m). (s, gather m keep)) (bi_custom bi))
      in if custom = [] then bi\<lparr>bi_custom := [], bi_custom_params := [], bi_has_custom := False\<rparr>
         else bi\<lparr>bi_custom := custom, bi_custom_params := gather (bi_custom_params bi) keep\<rparr>)"

definition filter_batch :: "nat list \<Rightarrow> 'p batch_info \<Rightarrow> 'p batch_info" where
  "filter_batch keep bi0 =
     (let bi = (if bi_has_custom bi0 then filter_custom keep bi0 else bi0);
          bi1 = bi\<lparr>bi_temperatures := gather (bi_temperatures bi) keep, bi_top_ps := gather (bi_top_ps bi) keep,
                   bi_top_ks := gather (bi_top_ks bi) keep, bi_min_ps := gather (bi_min_ps bi) keep\<rparr>
      in if bi_enable_latent bi
         then bi1\<lparr>bi_latent_modes := gather (bi_latent_modes bi) keep,
                  bi_noise_scales := gather (bi_noise_scales bi) keep,
                  bi_gumbel_softmax_temperatures := gather (bi_gumbel_softmax_temperatures bi) keep,
                  bi_add_noise_gumbel_softmax := gather (bi_add_noise_gumbel_softmax bi) keep,
                  bi_use_one_sided_gumbel_noise := gather (bi_use_one_sided_gumbel_noise bi) keep,
                  bi_one_sided_gumbel_deltas := gather (bi_one_sided_gumbel_deltas bi) keep\<rparr>
         else bi1)"

text \<open>\<open>merge_batch\<close>; a processor that only one side has gets a false mask on the other.\<close>

definition merge_custom :: "'p batch_info \<Rightarrow> 'p batch_info \<Rightarrow> (string \<times> bool list) list" where
  "merge_custom a b =
     (let n1 = length (bi_temperatures a); n2 = length (bi_temperatures b);
          msk = (\<lambda>d n s. case map_of d s of Some m \<Rightarrow> m | None \<Rightarrow> replicate n False)
      in map (\<lambda>s. (s, msk (bi_custom a) n1 s @ msk (bi_custom b) n2 s))
           (fromkeys (map fst (bi_custom a) @ map fst (bi_custom b))))"

definition merge_batch :: "'p batch_info \<Rightarrow> 'p batch_info \<Rightarrow> 'p batch_info" where
  "merge_batch a b =
     (let params = (\<lambda>x. if bi_custom_params x = [] then replicate (length (bi_temperatures x)) None else bi_custom_params x);
          c = (if bi_has_custom a \<or> bi_has_custom b
               then a\<lparr>bi_custom := merge_custom a b, bi_custom_params := params a @ params b, bi_has_custom := True\<rparr>
               else a);
          m = c\<lparr>bi_temperatures := bi_temperatures a @ bi_temperatures b, bi_top_ps := bi_top_ps a @ bi_top_ps b,
                bi_top_ks := bi_top_ks a @ bi_top_ks b, bi_min_ps := bi_min_ps a @ bi_min_ps b\<rparr>;
          l = (if bi_enable_latent a
               then m\<lparr>bi_latent_modes := bi_latent_modes a @ bi_latent_modes b,
                      bi_noise_scales := bi_noise_scales a @ bi_noise_scales b,
                      bi_gumbel_softmax_temperatures := bi_gumbel_softmax_temperatures a @ bi_gumbel_softmax_temperatures b,
                      bi_add_noise_gumbel_softmax := bi_add_noise_gumbel_softmax a @ bi_add_noise_gumbel_softmax b,
                      bi_use_one_sided_gumbel_noise := bi_use_one_sided_gumbel_noise a @ bi_use_one_sided_gumbel_noise b,
                      bi_one_sided_gumbel_deltas := bi_one_sided_gumbel_deltas a @ bi_one_sided_gumbel_deltas b\<rparr>
               else m)
      in l\<lparr>bi_is_all_greedy := (bi_is_all_greedy a \<or> bi_is_all_greedy b),
           bi_need_min_p_sampling := (bi_need_min_p_sampling a \<or> bi_need_min_p_sampling b)\<rparr>)"

section \<open>Ordinary sampling\<close>

text \<open>The probabilities that remain after top-k, top-p and min-p, in descending order, with their tokens.\<close>

definition top_k_top_p_min_p :: "real list \<Rightarrow> int \<Rightarrow> real \<Rightarrow> real \<Rightarrow> bool \<Rightarrow> real list \<times> nat list" where
  "top_k_top_p_min_p probs top_k top_p min_p need_min_p =
     (let order = order_desc probs; ps = gather probs order; cum = cumsum 0 ps;
          ps1 = map (\<lambda>r. if top_k \<le> int r then 0 else ps ! r) [0..<length ps];
          ps2 = map (\<lambda>r. if top_p < cum ! r - ps1 ! r then 0 else ps1 ! r) [0..<length ps];
          ps3 = (if need_min_p then map (\<lambda>p. if p < hd ps2 * min_p then 0 else p) ps2 else ps2)
      in (ps3, order))"

definition top_k_top_p_min_p_sampling_from_probs ::
  "(real list \<Rightarrow> nat) \<Rightarrow> real list \<Rightarrow> int \<Rightarrow> real \<Rightarrow> real \<Rightarrow> bool \<Rightarrow> nat" where
  "top_k_top_p_min_p_sampling_from_probs multinomial probs top_k top_p min_p need_min_p =
     (let (ps, order) = top_k_top_p_min_p probs top_k top_p min_p need_min_p in order ! multinomial ps)"

definition top_p_normalize_probs :: "real list \<Rightarrow> real \<Rightarrow> real list" where
  "top_p_normalize_probs probs top_p =
     (let order = order_desc probs; ps = gather probs order; cum = cumsum 0 ps;
          kept = map (\<lambda>r. if top_p < cum ! r - ps ! r then 0 else ps ! r) [0..<length ps]
      in scatter (length probs) 0 order (map (\<lambda>p. p / sum_list kept) kept))"

text \<open>\<open>torch.log(p).clamp(min=finfo.min)\<close> of a 32-bit float.\<close>

definition float_min :: real where
  "float_min = - ((2 - 1 / 2 ^ 23) * 2 ^ 127)"

definition clamped_log :: "real \<Rightarrow> real" where
  "clamped_log p = (if p = 0 then float_min else max (ln p) float_min)"

datatype backend = Flashinfer | Pytorch | OtherBackend

record 'p sampler_env =
  se_enable_latent :: bool
  se_latent_end_token_id :: pyval
  se_backend :: backend
  se_noise :: "real list list"
  se_multinomial :: "nat \<Rightarrow> real list \<Rightarrow> nat"
  se_kernel :: "nat \<Rightarrow> real list \<Rightarrow> int \<Rightarrow> real \<Rightarrow> real option \<Rightarrow> nat"
  se_processor :: "string \<Rightarrow> tensor \<Rightarrow> 'p option list \<Rightarrow> tensor"
  se_sync :: "nat list \<Rightarrow> nat list"

text \<open>The custom logit processors rewrite the rows of their mask, one processor after the other.\<close>

fun place :: "nat list \<Rightarrow> 'a list \<Rightarrow> 'a list \<Rightarrow> 'a list" where
  "place (i # is) (v # vs) xs = place is vs (xs[i := v])"
| "place _ _ xs = xs"

definition apply_processor :: "'p sampler_env \<Rightarrow> 'p batch_info \<Rightarrow> string \<times> bool list \<Rightarrow> tensor \<Rightarrow> tensor result" where
  "apply_processor env bi sm logits =
     bind_r (check_r (length (snd sm) = length (bi_temperatures bi)) AssertionError) (\<lambda>_.
       let rows = filter (\<lambda>i. snd sm ! i) [0..<length (snd sm)]
       in Inr (place rows (se_processor env (fst sm) (gather logits rows) (gather (bi_custom_params bi) rows)) logits))"

fun apply_processors :: "'p sampler_env \<Rightarrow> 'p batch_info \<Rightarrow> (string \<times> bool list) list \<Rightarrow> tensor \<Rightarrow> tensor result" where
  "apply_processors env bi [] logits = Inr logits"
| "apply_processors env bi (sm # sms) logits = bind_r (apply_processor env bi sm logits) (apply_processors env bi sms)"

definition apply_custom_logit_processor :: "'p sampler_env \<Rightarrow> 'p batch_info \<Rightarrow> tensor \<Rightarrow> tensor result" where
  "apply_custom_logit_processor env bi logits =
     bind_r (check_r (length logits = length (bi_temperatures bi)) AssertionError) (\<lambda>_.
       apply_processors env bi (bi_custom bi) logits)"

definition ordinary_token :: "'p sampler_env \<Rightarrow> 'p batch_info \<Rightarrow> nat \<Rightarrow> real list \<Rightarrow> nat result" where
  "ordinary_token env bi i probs =
     (case se_backend env of
        Flashinfer \<Rightarrow> Inr (se_kernel env i probs (bi_top_ks bi ! i) (bi_top_ps bi ! i)
                         (if bi_need_min_p_sampling bi then Some (bi_min_ps bi ! i) else None))
      | Pytorch \<Rightarrow> Inr (top_k_top_p_min_p_sampling_from_probs (se_multinomial env i) probs
                      (bi_top_ks bi ! i) (bi_top_ps bi ! i) (bi_min_ps bi ! i) (bi_need_min_p_sampling bi))
      | OtherBackend \<Rightarrow> Inl (ValueError ''Invalid sampling backend''))"

section \<open>Sampler.forward\<close>

definition latent_rows :: "'p sampler_env \<Rightarrow> 'p batch_info \<Rightarrow> tensor \<Rightarrow> latent_row list result" where
  "latent_rows env bi logits =
     bind_r (require_latent_end_token_id (se_latent_end_token_id env)) (\<lambda>latent_end.
     bind_r (check_r (list_all (\<lambda>row. bi_max_topk bi \<le> length row) logits) (RuntimeError ''selected index k out of range'')) (\<lambda>_.
       Inr (map (\<lambda>i.
         if list_ex (\<lambda>b. b) (bi_add_noise_gumbel_softmax bi)
         then latent_row_noisy (bi_max_topk bi) latent_end (bi_latent_modes bi ! i) (bi_add_noise_gumbel_softmax bi ! i)
                (bi_top_ps bi ! i) (bi_use_one_sided_gumbel_noise bi ! i) (bi_one_sided_gumbel_deltas bi ! i)
                (bi_noise_scales bi ! i) (bi_gumbel_softmax_temperatures bi ! 0) (bi_temperatures bi ! 0)
                (se_noise env ! i) (logits ! i)
         else latent_row_plain (bi_max_topk bi) (bi_temperatures bi ! 0) (logits ! i)) [0..<length logits])))"

text \<open>
  The result.  The calls of \<open>get_top_logprobs\<close> and \<open>get_token_ids_logprobs\<close> are commented out in the code, so
  their fields keep the default None.
\<close>

record sampled =
  sd_rows :: "latent_row list"
  sd_tokens :: "nat list"
  sd_logprobs :: "real list"
  sd_gumbel_logprobs :: "real list"
  sd_top_logprobs :: "(real list list \<times> nat list list) option"
  sd_token_ids_logprobs :: "(real list list \<times> nat list list) option"

definition sampling_probs :: "'p batch_info \<Rightarrow> tensor \<Rightarrow> tensor" where
  "sampling_probs bi logits = map (\<lambda>i. softmax (map (\<lambda>x. x / bi_temperatures bi ! i) (logits ! i))) [0..<length logits]"

definition ordinary_tokens :: "'p sampler_env \<Rightarrow> 'p batch_info \<Rightarrow> tensor \<Rightarrow> nat list result" where
  "ordinary_tokens env bi logits =
     (if bi_is_all_greedy bi then Inr (map argmax logits)
      else map_r (\<lambda>i. ordinary_token env bi i (sampling_probs bi logits ! i)) [0..<length logits])"

definition chosen_tokens :: "'p sampler_env \<Rightarrow> 'p batch_info \<Rightarrow> latent_row list \<Rightarrow> nat list \<Rightarrow> nat list" where
  "chosen_tokens env bi rows ordinary =
     (if se_enable_latent env
      then map (\<lambda>i. if bi_latent_modes bi ! i then hd (lr_ids (rows ! i)) else ordinary ! i) [0..<length ordinary]
      else ordinary)"

definition chosen_logprobs :: "'p batch_info \<Rightarrow> tensor \<Rightarrow> nat list \<Rightarrow> real list" where
  "chosen_logprobs bi logits tokens =
     (let logprobs = (if bi_is_all_greedy bi then map log_softmax logits
                      else map (\<lambda>i. map clamped_log (top_p_normalize_probs (sampling_probs bi logits ! i) (bi_top_ps bi ! i)))
                             [0..<length logits])
      in map (\<lambda>i. logprobs ! i ! (tokens ! i)) [0..<length tokens])"

definition sampler_forward :: "'p sampler_env \<Rightarrow> 'p batch_info \<Rightarrow> bool \<Rightarrow> tensor \<Rightarrow> sampled result" where
  "sampler_forward env bi return_logprob logits0 =
    bind_r (if se_enable_latent env then latent_rows env bi logits0 else Inr []) (\<lambda>rows.
    bind_r (if bi_has_custom bi then apply_custom_logit_processor env bi logits0 else Inr logits0) (\<lambda>logits.
    bind_r (ordinary_tokens env bi logits) (\<lambda>ordinary.
    let tokens = chosen_tokens env bi rows ordinary;
        chosen = (if return_logprob then chosen_logprobs bi logits tokens else []);
        gumbel = (if return_logprob \<and> se_enable_latent env \<and> bi_add_noise_gumbel_softmax bi ! 0
                  then map lr_logprob rows else chosen)
    in Inr \<lparr>sd_rows = rows, sd_tokens = se_sync env tokens, sd_logprobs = chosen, sd_gumbel_logprobs = gumbel,
            sd_top_logprobs = None, sd_token_ids_logprobs = None\<rparr>)))"

definition latent_output_of :: "latent_row list \<Rightarrow> latent_output" where
  "latent_output_of rows =
     \<lparr>lo_topk_probs = map lr_probs rows, lo_topk_indices = map (map int \<circ> lr_ids) rows,
      lo_topk_gumbels = Some (map lr_gumbels rows), lo_topk_original_probs = Some (map lr_original_probs rows),
      lo_topk_original_indices = map (map int \<circ> lr_original_ids) rows\<rparr>"

definition get_top_logprobs :: "tensor \<Rightarrow> nat list \<Rightarrow> (real list list \<times> nat list list) result" where
  "get_top_logprobs logprobs top_logprobs_nums =
     bind_r (check_r (length top_logprobs_nums = length logprobs) AssertionError) (\<lambda>_.
       Inr (map2 (\<lambda>row k. gather row (topk_ids k row)) logprobs top_logprobs_nums,
            map2 (\<lambda>row k. topk_ids k row) logprobs top_logprobs_nums))"

definition get_token_ids_logprobs :: "tensor \<Rightarrow> nat list option list \<Rightarrow> real list list \<times> nat list list" where
  "get_token_ids_logprobs logprobs token_ids_logprobs =
     (map2 (\<lambda>row ids. case ids of None \<Rightarrow> [] | Some is \<Rightarrow> gather row is) logprobs token_ids_logprobs,
      map (\<lambda>ids. case ids of None \<Rightarrow> [] | Some is \<Rightarrow> is) token_ids_logprobs)"

section \<open>The decode half of the output processor\<close>

text \<open>
  \<open>process_batch_result_decode\<close> without the overlap schedule and without speculative decoding.  The
  loop gives a finished request to the cache; None means that a walk through the tree would not end.
\<close>

definition append_row ::
  "(real list list \<times> nat list list) option \<Rightarrow> nat \<Rightarrow> (real list \<times> nat list) list \<Rightarrow> (real list \<times> nat list) list result" where
  "append_row rows i acc = (case rows of None \<Rightarrow> Inl TypeError | Some (vals, ids) \<Rightarrow> Inr (acc @ [(vals ! i, ids ! i)]))"

definition append_logprobs :: "sampled \<Rightarrow> nat \<Rightarrow> nat \<Rightarrow> latent_req \<Rightarrow> latent_req result" where
  "append_logprobs res i tok q =
    (if \<not> lq_return_logprob q then Inr q
     else let q1 = q\<lparr>lq_output_token_logprobs_val := lq_output_token_logprobs_val q @
                       [Fin ((if latent_on (lq_params q) then sd_gumbel_logprobs res else sd_logprobs res) ! i)],
                     lq_output_token_logprobs_idx := lq_output_token_logprobs_idx q @ [tok]\<rparr>
          in bind_r (if 0 < lq_top_logprobs_num q1
                     then bind_r (append_row (sd_top_logprobs res) i (lq_output_top_logprobs q1))
                            (\<lambda>r. Inr (q1\<lparr>lq_output_top_logprobs := r\<rparr>))
                     else Inr q1) (\<lambda>q2.
             if lq_token_ids_logprob q2 \<noteq> None
             then bind_r (append_row (sd_token_ids_logprobs res) i (lq_output_token_ids_logprobs q2))
                    (\<lambda>r. Inr (q2\<lparr>lq_output_token_ids_logprobs := r\<rparr>))
             else Inr q2))"

definition process_decode_req ::
  "bool \<Rightarrow> sampled \<Rightarrow> nat \<Rightarrow> nat \<Rightarrow> latent_req \<Rightarrow> token_alloc cache_state \<Rightarrow> (latent_req \<times> token_alloc cache_state) result option" where
  "process_decode_req enable_latent res i tok q c =
    (if lq_is_retracted q then Some (Inr (q, c))
     else case check_finished (q\<lparr>cr_output_ids := cr_output_ids q @ [tok]\<rparr>) of
       Inl e \<Rightarrow> Some (Inl e)
     | Inr q1 \<Rightarrow>
        (case (if req_finished q1 then cache_finished_req token_free (cache_req.truncate q1) c else Some c) of
           None \<Rightarrow> None
         | Some c1 \<Rightarrow>
            Some (bind_r (if enable_latent then update_latent_info (latent_output_of (sd_rows res)) i q1 else Inr q1) (\<lambda>q2.
                  bind_r (append_logprobs res i tok q2) (\<lambda>q3. Inr (q3, c1))))))"

fun process_decode_loop ::
  "bool \<Rightarrow> sampled \<Rightarrow> nat \<Rightarrow> (latent_req \<times> nat) list \<Rightarrow> token_alloc cache_state \<Rightarrow>
   (latent_req list \<times> token_alloc cache_state) result option" where
  "process_decode_loop enable_latent res i [] c = Some (Inr ([], c))"
| "process_decode_loop enable_latent res i ((q, tok) # qs) c =
     (case process_decode_req enable_latent res i tok q c of
        None \<Rightarrow> None
      | Some (Inl e) \<Rightarrow> Some (Inl e)
      | Some (Inr (q', c')) \<Rightarrow>
          (case process_decode_loop enable_latent res (i + 1) qs c' of
             None \<Rightarrow> None
           | Some (Inl e) \<Rightarrow> Some (Inl e)
           | Some (Inr (rest, c'')) \<Rightarrow> Some (Inr (q' # rest, c''))))"

definition process_batch_result_decode ::
  "bool \<Rightarrow> sampled \<Rightarrow> latent_req list \<Rightarrow> token_alloc cache_state \<Rightarrow> (latent_req list \<times> token_alloc cache_state) result option" where
  "process_batch_result_decode enable_latent res reqs c =
     (let c0 = c\<lparr>cs_alloc := token_free_group_begin (cs_alloc c)\<rparr>
      in case process_decode_loop enable_latent res 0 (zip reqs (sd_tokens res)) c0 of
           None \<Rightarrow> None
         | Some (Inl e) \<Rightarrow> Some (Inl e)
         | Some (Inr (reqs', c')) \<Rightarrow> Some (Inr (reqs', c'\<lparr>cs_alloc := token_free_group_end (cs_alloc c')\<rparr>)))"

end
