(* ===== verification/LatentSamplerOk.thy ===== *)
theory LatentSamplerOk
  imports LatentSampler LatentReqOk LatentGrpoOk
begin

text \<open>
  What the latent sampler guarantees: the rows it hands to the requests are probability
  distributions over distinct tokens of the vocabulary, taken from the nucleus; the columns of a
  batch stay aligned with its requests through every filter and merge; and where the batch forgets
  that a request has left the latent phase.
\<close>

section \<open>Softmax and top-k\<close>

lemma length_softmax [simp]: "length (softmax xs) = length xs"
  by (simp add: softmax_def)

lemma length_log_softmax [simp]: "length (log_softmax xs) = length xs"
  by (simp add: log_softmax_def)

lemma sum_exp_pos: "xs \<noteq> [] \<Longrightarrow> 0 < (\<Sum>x\<leftarrow>xs. exp (x::real))"
  by (induction xs rule: list_nonempty_induct) (auto intro: add_pos_pos)

lemma softmax_pos: "p \<in> set (softmax xs) \<Longrightarrow> 0 < p"
  using sum_exp_pos [of xs] by (cases xs) (auto simp: softmax_def)

lemma softmax_sum: "xs \<noteq> [] \<Longrightarrow> sum_list (softmax xs) = 1"
  using sum_exp_pos [of xs] sum_list_divide [of exp "\<Sum>y\<leftarrow>xs. exp y" xs] by (simp add: softmax_def)

lemma order_desc_perm: "mset (order_desc xs) = mset [0..<length xs]" "distinct (order_desc xs)"
    "set (order_desc xs) = {..<length xs}" "length (order_desc xs) = length xs"
  by (auto simp: order_desc_def atLeast0LessThan)

lemma order_desc_sorted: "i < j \<Longrightarrow> j < length xs \<Longrightarrow> xs ! (order_desc xs ! j) \<le> xs ! (order_desc xs ! i)"
proof -
  assume "i < j" "j < length xs"
  moreover have "sorted (map (\<lambda>i. - (xs ! i)) (order_desc xs))"
    unfolding order_desc_def by (rule sorted_sort_key)
  ultimately show ?thesis
    using order_desc_perm(4) [of xs] sorted_nth_mono [of "map (\<lambda>i. - (xs ! i)) (order_desc xs)" i j] by simp
qed

lemma topk_ids_facts:
  "k \<le> length xs \<Longrightarrow> length (topk_ids k xs) = k" "distinct (topk_ids k xs)" "set (topk_ids k xs) \<subseteq> {..<length xs}"
  using order_desc_perm [of xs] set_take_subset [of k "order_desc xs"] by (auto simp: topk_ids_def)

lemma take_sort_max:
  assumes "distinct is" and "j \<in> set is" and "j \<notin> set (take k (sort_key f is))" and "i \<in> set (take k (sort_key f is))"
  shows "(f i :: real) \<le> f j"
proof -
  let ?s = "sort_key f is"
  have "j \<in> set (drop k ?s)"
    using assms(2,3) by (metis append_take_drop_id set_append set_sort Un_iff)
  moreover have "sorted (map f (take k ?s @ drop k ?s))"
    by simp
  ultimately show ?thesis
    using assms(4) unfolding map_append sorted_append by auto
qed

section \<open>The nucleus mask\<close>

lemma length_scatter [simp]: "length (scatter n x is vs) = n"
proof -
  have "length (foldl (\<lambda>ys iv. ys[fst iv := snd iv]) ys ivs) = length ys" for ys :: "'a list" and ivs
    by (induction ivs arbitrary: ys) auto
  then show ?thesis
    by (simp add: scatter_def)
qed

lemma foldl_update_other:
  "i \<notin> fst ` set ivs \<Longrightarrow> foldl (\<lambda>ys iv. ys[fst iv := snd iv]) ys ivs ! i = ys ! i"
  by (induction ivs arbitrary: ys) auto

lemma foldl_update_hit:
  "distinct (map fst ivs) \<Longrightarrow> (i, v) \<in> set ivs \<Longrightarrow> i < length ys \<Longrightarrow>
   foldl (\<lambda>ys iv. ys[fst iv := snd iv]) ys ivs ! i = v"
proof (induction ivs arbitrary: ys)
  case Nil
  then show ?case by simp
next
  case (Cons iv ivs)
  show ?case
  proof (cases "iv = (i, v)")
    case True
    then have "i \<notin> fst ` set ivs"
      using Cons.prems(1) by auto
    then show ?thesis
      using True Cons.prems(3) by (simp add: foldl_update_other)
  next
    case False
    then show ?thesis
      using Cons by auto
  qed
qed

lemma scatter_nth:
  assumes "distinct is" and "length is = length vs" and "r < length is" and "is ! r < n"
  shows "scatter n x is vs ! (is ! r) = vs ! r"
proof -
  have "(is ! r, vs ! r) \<in> set (zip is vs)"
    using assms(2,3) by (metis in_set_zip fst_conv snd_conv)
  then show ?thesis
    unfolding scatter_def using assms by (intro foldl_update_hit) auto
qed

lemma nucleus_mask_nth:
  assumes "r < length probs"
  shows "nucleus_mask top_p k probs ! (order_desc probs ! r) \<longleftrightarrow>
    cumsum 0 (gather probs (order_desc probs)) ! r - gather probs (order_desc probs) ! r < top_p \<or> r < k"
proof -
  have lt: "order_desc probs ! r < length probs"
    using order_desc_perm(3,4) [of probs] assms by (metis lessThan_iff nth_mem)
  let ?sm = "map (\<lambda>r. cumsum 0 (gather probs (order_desc probs)) ! r - gather probs (order_desc probs) ! r < top_p \<or> r < k) [0..<length probs]"
  have "scatter (length probs) False (order_desc probs) ?sm ! (order_desc probs ! r) = ?sm ! r"
    by (rule scatter_nth) (use assms lt order_desc_perm(2,4) [of probs] in simp_all)
  then show ?thesis
    unfolding nucleus_mask_def Let_def using assms by simp
qed

lemma cumsum_nth: "r < length xs \<Longrightarrow> cumsum acc xs ! r = acc + sum_list (take (Suc r) xs)"
proof (induction xs arbitrary: acc r)
  case Nil
  then show ?case by simp
next
  case (Cons x xs)
  then show ?case
    by (cases r) auto
qed

lemma nucleus_mask_prefix:
  assumes "r < length probs"
  shows "nucleus_mask top_p k probs ! (order_desc probs ! r) \<longleftrightarrow>
    sum_list (take r (gather probs (order_desc probs))) < top_p \<or> r < k"
proof -
  have "r < length (gather probs (order_desc probs))"
    using assms order_desc_perm(4) by (simp add: gather_def)
  then show ?thesis
    unfolding nucleus_mask_nth [OF assms] by (simp add: cumsum_nth take_Suc_conv_app_nth)
qed

lemma nucleus_count:
  assumes "k \<le> length probs"
  shows "k \<le> card {i. i < length probs \<and> nucleus_mask top_p k probs ! i}"
proof -
  have sub: "set (take k (order_desc probs)) \<subseteq> {i. i < length probs \<and> nucleus_mask top_p k probs ! i}"
  proof
    fix i
    assume "i \<in> set (take k (order_desc probs))"
    then obtain r where r: "r < k" "r < length probs" "i = order_desc probs ! r"
      using order_desc_perm(4) [of probs] by (auto simp: in_set_conv_nth)
    then have "i < length probs"
      using order_desc_perm(3,4) [of probs] by (metis lessThan_iff nth_mem)
    then show "i \<in> {i. i < length probs \<and> nucleus_mask top_p k probs ! i}"
      using r nucleus_mask_prefix [OF r(2)] by simp
  qed
  have "card (set (take k (order_desc probs))) = k"
    using assms order_desc_perm(2,4) [of probs] by (simp add: distinct_card)
  then show ?thesis
    using card_mono [OF _ sub] by simp
qed

section \<open>The noisy row\<close>

lemma masked_order_perm:
  assumes "length msk = length scores"
  shows "distinct (masked_order msk scores)" "set (masked_order msk scores) = {..<length scores}"
  using order_desc_perm [of scores] by (auto simp: masked_order_def)

lemma take_masked_order:
  assumes "length msk = length scores" and "k \<le> card {i. i < length scores \<and> msk ! i}"
  shows "take k (masked_order msk scores) = take k (filter (\<lambda>i. msk ! i) (order_desc scores))"
    and "length (take k (masked_order msk scores)) = k"
proof -
  have "set (filter (\<lambda>i. msk ! i) (order_desc scores)) = {i. i < length scores \<and> msk ! i}"
    using order_desc_perm(3) [of scores] by auto
  then have "length (filter (\<lambda>i. msk ! i) (order_desc scores)) = card {i. i < length scores \<and> msk ! i}"
    using order_desc_perm(2) [of scores] by (metis distinct_card distinct_filter)
  then show "take k (masked_order msk scores) = take k (filter (\<lambda>i. msk ! i) (order_desc scores))"
      "length (take k (masked_order msk scores)) = k"
    using assms(2) by (simp_all add: masked_order_def)
qed

lemma filter_order_desc: "filter P (order_desc xs) = sort_key (\<lambda>i. - (xs ! i)) (filter P [0..<length xs])"
  by (simp add: order_desc_def filter_sort)

lemma noisy_topk_ok:
  assumes "k \<le> length logits" and "length raw = length logits"
    and n_def: "n = noisy_topk k top_p one_sided delta scale T raw logits"
    and scores_def: "scores = map2 (+) (log_softmax logits) (gumbel_noise one_sided delta scale raw)"
    and msk_def: "msk = nucleus_mask top_p k (softmax logits)"
  shows "length (nr_ids n) = k" "distinct (nr_ids n)" "\<forall>i\<in>set (nr_ids n). i < length logits \<and> msk ! i"
    "nr_probs n = softmax (map (\<lambda>s. s / T) (gather scores (nr_ids n)))"
    "\<forall>i\<in>set (nr_ids n). \<forall>j<length logits. msk ! j \<and> j \<notin> set (nr_ids n) \<longrightarrow> scores ! j \<le> scores ! i"
proof -
  have ids: "nr_ids n = take k (masked_order msk scores)"
    by (simp add: n_def noisy_topk_def Let_def scores_def msk_def)
  have len: "length scores = length logits" "length msk = length scores"
    using assms(2) by (simp_all add: scores_def msk_def gumbel_noise_def scale_gumbels_def apply_one_sided_gumbel_delta_def nucleus_mask_def Let_def)
  have count: "k \<le> card {i. i < length scores \<and> msk ! i}"
    using nucleus_count [of k "softmax logits" top_p] assms(1) len unfolding msk_def by simp
  note take = take_masked_order [OF len(2) count]
  have sorted_ids: "nr_ids n = take k (sort_key (\<lambda>i. - (scores ! i)) (filter (\<lambda>i. msk ! i) [0..<length scores]))"
    unfolding ids take(1) filter_order_desc ..
  show "length (nr_ids n) = k"
    unfolding ids by (rule take(2))
  show "distinct (nr_ids n)"
    unfolding ids using masked_order_perm(1) [OF len(2)] by simp
  show "\<forall>i\<in>set (nr_ids n). i < length logits \<and> msk ! i"
    unfolding sorted_ids using len(1) by (auto dest: in_set_takeD)
  show "nr_probs n = softmax (map (\<lambda>s. s / T) (gather scores (nr_ids n)))"
    by (simp add: n_def noisy_topk_def Let_def scores_def)
  show "\<forall>i\<in>set (nr_ids n). \<forall>j<length logits. msk ! j \<and> j \<notin> set (nr_ids n) \<longrightarrow> scores ! j \<le> scores ! i"
  proof (intro ballI allI impI)
    fix i j
    assume i: "i \<in> set (nr_ids n)" and j: "j < length logits" "msk ! j \<and> j \<notin> set (nr_ids n)"
    have "- (scores ! i) \<le> - (scores ! j)"
      by (rule take_sort_max [of "filter (\<lambda>i. msk ! i) [0..<length scores]" j k]) (use i j len sorted_ids in auto)
    then show "scores ! j \<le> scores ! i"
      by simp
  qed
qed

text \<open>What every row of the sampler is: \<open>k\<close> distinct tokens of the vocabulary and a distribution over them.\<close>

definition row_ok :: "nat \<Rightarrow> nat \<Rightarrow> latent_row \<Rightarrow> bool" where
  "row_ok k V row = (length (lr_ids row) = k \<and> distinct (lr_ids row) \<and> set (lr_ids row) \<subseteq> {..<V} \<and>
     length (lr_probs row) = k \<and> (\<forall>p\<in>set (lr_probs row). 0 < p) \<and> sum_list (lr_probs row) = 1)"

lemma row_ok_plain:
  assumes "0 < k" and "k \<le> length logits"
  shows "row_ok k (length logits) (row\<lparr>lr_probs := softmax (gather logits (topk_ids k logits)), lr_ids := topk_ids k logits\<rparr>)"
proof -
  have "gather logits (topk_ids k logits) \<noteq> []"
    using topk_ids_facts(1) [OF assms(2)] assms(1) by (auto simp: gather_def)
  then show ?thesis
    using topk_ids_facts [of k logits] assms(2) softmax_pos softmax_sum by (auto simp: row_ok_def gather_def)
qed

lemma row_ok_cong: "lr_ids row = lr_ids row' \<Longrightarrow> lr_probs row = lr_probs row' \<Longrightarrow> row_ok k V row \<longleftrightarrow> row_ok k V row'"
  by (simp add: row_ok_def)

lemma latent_row_noisy_ids:
  "mode \<Longrightarrow> hd (topk_ids k logits) \<noteq> e \<Longrightarrow> noise \<Longrightarrow>
   lr_ids (latent_row_noisy k e mode noise top_p os delta scale gT T raw logits) = nr_ids (noisy_topk k top_p os delta scale gT raw logits)"
  by (simp add: latent_row_noisy_def Let_def)

lemma latent_row_noisy_probs:
  "mode \<Longrightarrow> hd (topk_ids k logits) \<noteq> e \<Longrightarrow> noise \<Longrightarrow>
   lr_probs (latent_row_noisy k e mode noise top_p os delta scale gT T raw logits) = nr_probs (noisy_topk k top_p os delta scale gT raw logits)"
  by (simp add: latent_row_noisy_def Let_def)

text \<open>A row that noise must not touch: the most probable tokens, weighted by the softmax of their logits.\<close>

lemma latent_row_noise_free:
  "\<not> (mode \<and> noise \<and> hd (topk_ids k logits) \<noteq> e) \<Longrightarrow>
   lr_ids (latent_row_noisy k e mode noise top_p os delta scale gT T raw logits) = topk_ids k logits \<and>
   lr_probs (latent_row_noisy k e mode noise top_p os delta scale gT T raw logits) = softmax (gather logits (topk_ids k logits))"
  by (auto simp: latent_row_noisy_def Let_def)

lemma latent_row_noisy_ok:
  assumes "0 < k" and "k \<le> length logits" and "length raw = length logits"
  shows "row_ok k (length logits) (latent_row_noisy k e mode noise top_p os delta scale gT T raw logits)"
proof -
  let ?row = "latent_row_noisy k e mode noise top_p os delta scale gT T raw logits"
  let ?n = "noisy_topk k top_p os delta scale gT raw logits"
  note n = noisy_topk_ok [OF assms(2,3), of ?n top_p os delta scale gT, OF refl refl refl]
  show ?thesis
  proof (cases "mode \<and> hd (topk_ids k logits) \<noteq> e \<and> noise")
    case True
    then have row: "lr_ids ?row = nr_ids ?n" "lr_probs ?row = nr_probs ?n"
      by (simp_all add: latent_row_noisy_def Let_def)
    have "map (\<lambda>s. s / gT) (gather (map2 (+) (log_softmax logits) (gumbel_noise os delta scale raw)) (nr_ids ?n)) \<noteq> []"
      using n(1) assms(1) by (auto simp: gather_def)
    then have "sum_list (nr_probs ?n) = 1" "\<forall>p\<in>set (nr_probs ?n). 0 < p" "length (nr_probs ?n) = k"
      unfolding n(4) using softmax_sum softmax_pos n(1) by (auto simp: gather_def)
    then show ?thesis
      using n(1,2,3) unfolding row_ok_def row by auto
  next
    case False
    then have "lr_ids ?row = topk_ids k logits" "lr_probs ?row = softmax (gather logits (topk_ids k logits))"
      by (auto simp: latent_row_noisy_def Let_def)
    then show ?thesis
      using row_ok_cong [of ?row "?row\<lparr>lr_probs := softmax (gather logits (topk_ids k logits)), lr_ids := topk_ids k logits\<rparr>"]
        row_ok_plain [OF assms(1,2), of ?row] by simp
  qed
qed

lemma latent_row_plain_ok:
  assumes "0 < k" and "k \<le> length logits"
  shows "row_ok k (length logits) (latent_row_plain k T logits)"
  using row_ok_plain [OF assms, of "latent_row_plain k T logits"] by (simp add: latent_row_plain_def Let_def row_ok_def)

lemma latent_rows_Inr:
  assumes "latent_rows env bi logits = Inr rows"
  shows "length rows = length logits \<and> (\<forall>row\<in>set logits. bi_max_topk bi \<le> length row) \<and>
    (\<exists>e. require_latent_end_token_id (se_latent_end_token_id env) = Inr e \<and> (\<forall>i<length logits. rows ! i =
      (if list_ex (\<lambda>b. b) (bi_add_noise_gumbel_softmax bi)
       then latent_row_noisy (bi_max_topk bi) e (bi_latent_modes bi ! i) (bi_add_noise_gumbel_softmax bi ! i)
              (bi_top_ps bi ! i) (bi_use_one_sided_gumbel_noise bi ! i) (bi_one_sided_gumbel_deltas bi ! i)
              (bi_noise_scales bi ! i) (bi_gumbel_softmax_temperatures bi ! 0) (bi_temperatures bi ! 0)
              (se_noise env ! i) (logits ! i)
       else latent_row_plain (bi_max_topk bi) (bi_temperatures bi ! 0) (logits ! i))))"
  using assms by (auto simp: latent_rows_def bind_r_Inr_iff list_all_iff)

section \<open>Columns\<close>

text \<open>
  The batches the scheduler can build: \<open>ps\<close> holds the parameters of each request at the time it was
  admitted to the batch.
\<close>

inductive admitted :: "'p batch_info \<Rightarrow> sampling_params list \<Rightarrow> bool" where
  admit: "admitted (from_schedule_batch True k ec procs cps ps) ps"
| dropped: "admitted bi ps \<Longrightarrow> \<forall>i\<in>set keep. i < length ps \<Longrightarrow> admitted (filter_batch keep bi) (gather ps keep)"
| merged: "admitted a ps \<Longrightarrow> admitted b qs \<Longrightarrow> admitted (merge_batch a b) (ps @ qs)"

definition columns_ok :: "'p batch_info \<Rightarrow> sampling_params list \<Rightarrow> bool" where
  "columns_ok bi ps = (bi_enable_latent bi \<and>
     bi_temperatures bi = map (\<lambda>p. fin_val (sp_temperature p)) ps \<and>
     bi_top_ps bi = map (\<lambda>p. fin_val (sp_top_p p)) ps \<and>
     bi_top_ks bi = map sp_top_k ps \<and>
     bi_min_ps bi = map (\<lambda>p. fin_val (sp_min_p p)) ps \<and>
     bi_latent_modes bi = map latent_on ps \<and>
     bi_noise_scales bi = map (\<lambda>p. fin_val (sp_noise_scale p)) ps \<and>
     bi_gumbel_softmax_temperatures bi = map (\<lambda>p. fin_val (sp_gumbel_softmax_temperature p)) ps \<and>
     bi_add_noise_gumbel_softmax bi = map sp_add_noise_gumbel_softmax ps \<and>
     bi_use_one_sided_gumbel_noise bi = map sp_use_one_sided_gumbel_noise ps \<and>
     bi_one_sided_gumbel_deltas bi = map (\<lambda>p. num_val (sp_one_sided_gumbel_delta p)) ps)"

lemma columns_filter:
  assumes "columns_ok bi ps" and "\<forall>i\<in>set keep. i < length ps"
  shows "columns_ok (filter_batch keep bi) (gather ps keep)"
  using assms by (simp add: columns_ok_def filter_batch_def filter_custom_def gather_map Let_def)

lemma columns_merge: "columns_ok a ps \<Longrightarrow> columns_ok b qs \<Longrightarrow> columns_ok (merge_batch a b) (ps @ qs)"
  by (simp add: columns_ok_def merge_batch_def Let_def)

lemma admitted_columns: "admitted bi ps \<Longrightarrow> columns_ok bi ps"
proof (induction rule: admitted.induct)
  case (admit k ec procs cps ps)
  then show ?case by (simp add: columns_ok_def from_schedule_batch_def Let_def)
next
  case (dropped bi ps keep)
  then show ?case using columns_filter by blast
next
  case (merged a ps b qs)
  then show ?case using columns_merge by blast
qed

section \<open>Forward\<close>

lemma sampler_forward_Inr:
  assumes "sampler_forward env bi rl logits0 = Inr res" and "se_enable_latent env"
  shows "\<exists>logits ordinary. latent_rows env bi logits0 = Inr (sd_rows res) \<and>
    (if bi_has_custom bi then apply_custom_logit_processor env bi logits0 else Inr logits0) = Inr logits \<and>
    ordinary_tokens env bi logits = Inr ordinary \<and>
    sd_tokens res = se_sync env (chosen_tokens env bi (sd_rows res) ordinary)"
  using assms unfolding sampler_forward_def bind_r_Inr_iff Let_def by fastforce

lemma ordinary_tokens_length: "ordinary_tokens env bi logits = Inr ts \<Longrightarrow> length ts = length logits"
  by (auto simp: ordinary_tokens_def dest: map_r_Inr_length split: if_splits)

lemma place_length [simp]: "length (place is vs xs) = length xs"
  by (induction "is" vs xs rule: place.induct) auto

lemma apply_processors_length:
  "apply_processors env bi sms logits = Inr logits' \<Longrightarrow> length logits' = length logits"
  by (induction sms arbitrary: logits) (auto simp: bind_r_Inr_iff apply_processor_def Let_def)

lemma custom_length:
  "(if bi_has_custom bi then apply_custom_logit_processor env bi logits0 else Inr logits0) = Inr logits \<Longrightarrow>
   length logits = length logits0"
  by (auto simp: apply_custom_logit_processor_def bind_r_Inr_iff apply_processors_length split: if_splits)

lemma latent_rows_cong:
  "latent_rows (env\<lparr>se_multinomial := m, se_kernel := f\<rparr>) bi logits = latent_rows env bi logits"
  by (simp add: latent_rows_def cong: if_cong)

section \<open>Properties\<close>

text \<open>
  C11. What the sampler hands to the requests.  Each row holds \<open>max_topk\<close> distinct tokens of the
  vocabulary with positive weights that sum to one.  Noise applies to the rows of latent requests that
  ask for it and whose most probable token is not the one that ends the latent phase, and to no other.
  In such a row every token is in the nucleus of its request or among the \<open>max_topk\<close> most probable
  ones, no token of that set that was left out has a greater noisy score, and the weights are the
  softmax of the noisy scores over the temperature.  Every other row holds the \<open>max_topk\<close> tokens of
  greatest logit, weighted by the softmax of their logits, whatever the noise is.
\<close>

theorem latent_rows_sound:
  assumes rows: "latent_rows env bi logits = Inr rows" and i: "i < length logits" and k: "0 < bi_max_topk bi"
    and noise: "length (se_noise env ! i) = length (logits ! i)"
  shows "row_ok (bi_max_topk bi) (length (logits ! i)) (rows ! i) \<and>
    (\<exists>e. require_latent_end_token_id (se_latent_end_token_id env) = Inr e \<and>
      (bi_latent_modes bi ! i \<and> bi_add_noise_gumbel_softmax bi ! i \<and> i < length (bi_add_noise_gumbel_softmax bi) \<and>
       hd (topk_ids (bi_max_topk bi) (logits ! i)) \<noteq> e \<longrightarrow>
       (let probs = softmax (logits ! i); order = order_desc probs;
            scores = map2 (+) (log_softmax (logits ! i)) (gumbel_noise (bi_use_one_sided_gumbel_noise bi ! i)
                       (bi_one_sided_gumbel_deltas bi ! i) (bi_noise_scales bi ! i) (se_noise env ! i));
            allowed = (\<lambda>t. \<exists>r<length probs. order ! r = t \<and>
                         (sum_list (take r (gather probs order)) < bi_top_ps bi ! i \<or> r < bi_max_topk bi))
        in (\<forall>t\<in>set (lr_ids (rows ! i)). allowed t \<and>
              (\<forall>u<length (logits ! i). allowed u \<and> u \<notin> set (lr_ids (rows ! i)) \<longrightarrow> scores ! u \<le> scores ! t)) \<and>
           lr_probs (rows ! i) =
             softmax (map (\<lambda>s. s / bi_gumbel_softmax_temperatures bi ! 0) (gather scores (lr_ids (rows ! i)))))) \<and>
      (\<not> (bi_latent_modes bi ! i \<and> bi_add_noise_gumbel_softmax bi ! i \<and>
           hd (topk_ids (bi_max_topk bi) (logits ! i)) \<noteq> e) \<longrightarrow>
       lr_ids (rows ! i) = topk_ids (bi_max_topk bi) (logits ! i) \<and>
       lr_probs (rows ! i) = softmax (gather (logits ! i) (topk_ids (bi_max_topk bi) (logits ! i)))))"
proof -
  let ?L = "logits ! i" and ?k = "bi_max_topk bi"
  note all = latent_rows_Inr [OF rows]
  obtain e where e: "require_latent_end_token_id (se_latent_end_token_id env) = Inr e"
    and row: "rows ! i = (if list_ex (\<lambda>b. b) (bi_add_noise_gumbel_softmax bi)
       then latent_row_noisy ?k e (bi_latent_modes bi ! i) (bi_add_noise_gumbel_softmax bi ! i)
              (bi_top_ps bi ! i) (bi_use_one_sided_gumbel_noise bi ! i) (bi_one_sided_gumbel_deltas bi ! i)
              (bi_noise_scales bi ! i) (bi_gumbel_softmax_temperatures bi ! 0) (bi_temperatures bi ! 0) (se_noise env ! i) ?L
       else latent_row_plain ?k (bi_temperatures bi ! 0) ?L)"
    using all i by blast
  have kV: "?k \<le> length ?L"
    using all i by simp
  have ok: "row_ok ?k (length ?L) (rows ! i)"
    unfolding row using latent_row_noisy_ok [OF k kV noise] latent_row_plain_ok [OF k kV] by simp
  moreover have "let probs = softmax ?L; order = order_desc probs;
          scores = map2 (+) (log_softmax ?L) (gumbel_noise (bi_use_one_sided_gumbel_noise bi ! i)
                     (bi_one_sided_gumbel_deltas bi ! i) (bi_noise_scales bi ! i) (se_noise env ! i));
          allowed = (\<lambda>t. \<exists>r<length probs. order ! r = t \<and>
                       (sum_list (take r (gather probs order)) < bi_top_ps bi ! i \<or> r < ?k))
      in (\<forall>t\<in>set (lr_ids (rows ! i)). allowed t \<and>
           (\<forall>u<length ?L. allowed u \<and> u \<notin> set (lr_ids (rows ! i)) \<longrightarrow> scores ! u \<le> scores ! t)) \<and>
         lr_probs (rows ! i) =
           softmax (map (\<lambda>s. s / bi_gumbel_softmax_temperatures bi ! 0) (gather scores (lr_ids (rows ! i))))"
    if on: "bi_latent_modes bi ! i" "bi_add_noise_gumbel_softmax bi ! i" "i < length (bi_add_noise_gumbel_softmax bi)"
      "hd (topk_ids ?k ?L) \<noteq> e"
  proof -
    let ?n = "noisy_topk ?k (bi_top_ps bi ! i) (bi_use_one_sided_gumbel_noise bi ! i) (bi_one_sided_gumbel_deltas bi ! i)
       (bi_noise_scales bi ! i) (bi_gumbel_softmax_temperatures bi ! 0) (se_noise env ! i) ?L"
    have some: "list_ex (\<lambda>b. b) (bi_add_noise_gumbel_softmax bi)"
      unfolding list_ex_iff using on(2) nth_mem [OF on(3)] by blast
    have ids: "lr_ids (rows ! i) = nr_ids ?n"
      unfolding row if_P [OF some] by (rule latent_row_noisy_ids [OF on(1,4,2)])
    have probs: "lr_probs (rows ! i) = nr_probs ?n"
      unfolding row if_P [OF some] by (rule latent_row_noisy_probs [OF on(1,4,2)])
    note n = noisy_topk_ok [OF kV noise, of ?n "bi_top_ps bi ! i" _ _ _ "bi_gumbel_softmax_temperatures bi ! 0", OF refl refl refl]
    have allowed: "(\<exists>r<length (softmax ?L). order_desc (softmax ?L) ! r = t \<and>
          (sum_list (take r (gather (softmax ?L) (order_desc (softmax ?L)))) < bi_top_ps bi ! i \<or> r < ?k)) \<longleftrightarrow>
        nucleus_mask (bi_top_ps bi ! i) ?k (softmax ?L) ! t" if "t < length ?L" for t
    proof -
      have "t \<in> set (order_desc (softmax ?L))"
        using that order_desc_perm(3) [of "softmax ?L"] by simp
      then obtain r where r: "r < length (softmax ?L)" "order_desc (softmax ?L) ! r = t"
        using order_desc_perm(4) [of "softmax ?L"] unfolding in_set_conv_nth by metis
      have uniq: "r' = r" if "r' < length (softmax ?L)" "order_desc (softmax ?L) ! r' = t" for r'
        using that r nth_eq_iff_index_eq [OF order_desc_perm(2) [of "softmax ?L"], of r' r] order_desc_perm(4) [of "softmax ?L"]
        by simp
      show ?thesis
        unfolding r(2) [symmetric] nucleus_mask_prefix [OF r(1)] using r uniq by blast
    qed
    show ?thesis
      unfolding Let_def ids probs
    proof (intro ballI conjI allI impI)
      show "nr_probs ?n = softmax (map (\<lambda>s. s / bi_gumbel_softmax_temperatures bi ! 0)
          (gather (map2 (+) (log_softmax ?L) (gumbel_noise (bi_use_one_sided_gumbel_noise bi ! i)
            (bi_one_sided_gumbel_deltas bi ! i) (bi_noise_scales bi ! i) (se_noise env ! i))) (nr_ids ?n)))"
        by (rule n(4))
    next
      fix t
      assume t: "t \<in> set (nr_ids ?n)"
      then have "t < length ?L" "nucleus_mask (bi_top_ps bi ! i) ?k (softmax ?L) ! t"
        using n(3) by blast+
      then show "\<exists>r<length (softmax ?L). order_desc (softmax ?L) ! r = t \<and>
          (sum_list (take r (gather (softmax ?L) (order_desc (softmax ?L)))) < bi_top_ps bi ! i \<or> r < ?k)"
        using allowed [of t] by simp
      fix u
      assume u: "u < length ?L" "(\<exists>r<length (softmax ?L). order_desc (softmax ?L) ! r = u \<and>
          (sum_list (take r (gather (softmax ?L) (order_desc (softmax ?L)))) < bi_top_ps bi ! i \<or> r < ?k)) \<and> u \<notin> set (nr_ids ?n)"
      then have "nucleus_mask (bi_top_ps bi ! i) ?k (softmax ?L) ! u \<and> u \<notin> set (nr_ids ?n)"
        using allowed [OF u(1)] by simp
      then show "map2 (+) (log_softmax ?L) (gumbel_noise (bi_use_one_sided_gumbel_noise bi ! i)
            (bi_one_sided_gumbel_deltas bi ! i) (bi_noise_scales bi ! i) (se_noise env ! i)) ! u \<le>
          map2 (+) (log_softmax ?L) (gumbel_noise (bi_use_one_sided_gumbel_noise bi ! i)
            (bi_one_sided_gumbel_deltas bi ! i) (bi_noise_scales bi ! i) (se_noise env ! i)) ! t"
        using n(5) t u(1) by blast
    qed
  qed
  moreover have "lr_ids (rows ! i) = topk_ids ?k ?L \<and> lr_probs (rows ! i) = softmax (gather ?L (topk_ids ?k ?L))"
    if off: "\<not> (bi_latent_modes bi ! i \<and> bi_add_noise_gumbel_softmax bi ! i \<and> hd (topk_ids ?k ?L) \<noteq> e)"
    unfolding row using latent_row_noise_free [OF off] by (simp add: latent_row_plain_def Let_def)
  ultimately show ?thesis
    using e by blast
qed

text \<open>
  C37. The columns stay aligned.  However a batch was put together from admitted requests, by
  dropping requests and merging batches in any order, each column holds, position by position, the
  parameter its request had when it was admitted.
\<close>

theorem batch_columns_aligned:
  assumes "admitted bi ps"
  shows "bi_temperatures bi = map (\<lambda>p. fin_val (sp_temperature p)) ps \<and>
     bi_top_ps bi = map (\<lambda>p. fin_val (sp_top_p p)) ps \<and> bi_top_ks bi = map sp_top_k ps \<and>
     bi_min_ps bi = map (\<lambda>p. fin_val (sp_min_p p)) ps \<and>
     bi_latent_modes bi = map latent_on ps \<and>
     bi_noise_scales bi = map (\<lambda>p. fin_val (sp_noise_scale p)) ps \<and>
     bi_gumbel_softmax_temperatures bi = map (\<lambda>p. fin_val (sp_gumbel_softmax_temperature p)) ps \<and>
     bi_add_noise_gumbel_softmax bi = map sp_add_noise_gumbel_softmax ps \<and>
     bi_use_one_sided_gumbel_noise bi = map sp_use_one_sided_gumbel_noise ps \<and>
     bi_one_sided_gumbel_deltas bi = map (\<lambda>p. num_val (sp_one_sided_gumbel_delta p)) ps"
  using admitted_columns [OF assms] by (simp add: columns_ok_def)

lemma batch_columns_aligned_witness:
  "bi_top_ks (merge_batch (from_schedule_batch True 1 False [] [] [demo_params] :: unit batch_info)
     (from_schedule_batch True 1 False [] [] [demo_params\<lparr>sp_top_k := 1\<rparr>])) = [4, 1]"
proof -
  have "admitted (merge_batch (from_schedule_batch True 1 False [] [] [demo_params] :: unit batch_info)
      (from_schedule_batch True 1 False [] [] [demo_params\<lparr>sp_top_k := 1\<rparr>])) ([demo_params] @ [demo_params\<lparr>sp_top_k := 1\<rparr>])"
    by (intro admitted.merged admitted.admit)
  from batch_columns_aligned [OF this] show ?thesis
    by (simp add: demo_params_def)
qed

text \<open>
  C38. The sampler never learns that a latent phase has ended.  The flag it reads is the one copied at
  admission.  For a request admitted in latent mode the next token is always the first token of the
  latent row, whatever the ordinary sampler (its draws and its kernels) would choose, also when the request
  itself has left latent mode: then the request logs that token as a hard one.
\<close>

theorem ended_request_sampled_as_latent:
  assumes adm: "admitted bi ps" and i: "i < length logits" and lat: "length ps = length logits" "latent_on (ps ! i)"
    and env: "se_enable_latent env" "se_sync env = (\<lambda>x. x)"
    and res: "sampler_forward env bi rl logits = Inr res"
    and res': "sampler_forward (env\<lparr>se_multinomial := m, se_kernel := f\<rparr>) bi rl logits = Inr res'"
    and q: "\<not> latent_on (lq_params q)"
  shows "sd_tokens res ! i = hd (lr_ids (sd_rows res ! i)) \<and> sd_tokens res' ! i = sd_tokens res ! i \<and>
    (\<exists>q'. update_latent_info (latent_output_of (sd_rows res)) i (q\<lparr>cr_output_ids := cr_output_ids q @ [sd_tokens res ! i]\<rparr>) = Inr q' \<and>
       lq_topk_idx q' = Some (hard_idx (int (sd_tokens res ! i)) (lo_topk_indices (latent_output_of (sd_rows res)) ! i)))"
proof -
  have flag: "bi_latent_modes bi ! i"
    using admitted_columns [OF adm] i lat by (simp add: columns_ok_def)
  obtain l o1 where r: "latent_rows env bi logits = Inr (sd_rows res)"
      "(if bi_has_custom bi then apply_custom_logit_processor env bi logits else Inr logits) = Inr l"
      "ordinary_tokens env bi l = Inr o1" "sd_tokens res = chosen_tokens env bi (sd_rows res) o1"
    using sampler_forward_Inr [OF res env(1)] env(2) by auto
  let ?env = "env\<lparr>se_multinomial := m, se_kernel := f\<rparr>"
  have env': "se_enable_latent ?env"
    using env(1) by simp
  obtain l' o1' where r': "latent_rows env bi logits = Inr (sd_rows res')"
      "(if bi_has_custom bi then apply_custom_logit_processor ?env bi logits else Inr logits) = Inr l'"
      "ordinary_tokens ?env bi l' = Inr o1'" "sd_tokens res' = chosen_tokens ?env bi (sd_rows res') o1'"
    using sampler_forward_Inr [OF res' env'] env(2) unfolding latent_rows_cong by auto
  have tok: "sd_tokens res ! i = hd (lr_ids (sd_rows res ! i))"
    using r(4) flag i env(1) ordinary_tokens_length [OF r(3)] custom_length [OF r(2)] by (simp add: chosen_tokens_def)
  moreover have "sd_tokens res' ! i = sd_tokens res ! i"
    using r(1) r'(1,4) flag i env' ordinary_tokens_length [OF r'(3)] custom_length [OF r'(2)] tok by (simp add: chosen_tokens_def)
  moreover have "\<exists>q'. update_latent_info (latent_output_of (sd_rows res)) i (q\<lparr>cr_output_ids := cr_output_ids q @ [sd_tokens res ! i]\<rparr>) = Inr q' \<and>
       lq_topk_idx q' = Some (hard_idx (int (sd_tokens res ! i)) (lo_topk_indices (latent_output_of (sd_rows res)) ! i))"
    using update_latent_info_spec [of "q\<lparr>cr_output_ids := cr_output_ids q @ [sd_tokens res ! i]\<rparr>" "cr_output_ids q"
        "sd_tokens res ! i" "latent_output_of (sd_rows res)" i] q
    by (auto simp: ends_latent_def)
  ultimately show ?thesis
    by blast
qed

lemma map_r_total: "(\<And>x. x \<in> set xs \<Longrightarrow> \<exists>y. f x = Inr y) \<Longrightarrow> \<exists>ys. map_r f xs = Inr ys"
proof (induction xs)
  case Nil
  then show ?case by simp
next
  case (Cons x xs)
  obtain y ys where "f x = Inr y" "map_r f xs = Inr ys"
    using Cons by (metis list.set_intros)
  then show ?case
    by simp
qed

lemma sampler_total:
  assumes "latent_rows env bi logits = Inr rows" and "se_backend env \<noteq> OtherBackend" and "\<not> bi_has_custom bi"
  shows "\<exists>res. sampler_forward env bi rl logits = Inr res"
proof -
  have "\<exists>t. ordinary_token env bi i p = Inr t" for i p
    using assms(2) by (cases "se_backend env") (simp_all add: ordinary_token_def)
  then have "\<exists>ts. ordinary_tokens env bi logits = Inr ts"
    by (auto simp: ordinary_tokens_def intro!: map_r_total)
  then show ?thesis
    using assms(1,3) by (auto simp: sampler_forward_def Let_def)
qed

definition demo_env :: "unit sampler_env" where
  "demo_env = \<lparr>se_enable_latent = True, se_latent_end_token_id = VInt 9, se_backend = Flashinfer, se_noise = [[0, 0]],
     se_multinomial = (\<lambda>_ _. 0), se_kernel = (\<lambda>_ _ _ _ _. 1), se_processor = (\<lambda>_ t _. t), se_sync = (\<lambda>ts. ts)\<rparr>"

definition demo_info :: "unit batch_info" where
  "demo_info = from_schedule_batch True 1 False [] [] [post_init_latent_mode demo_params]"

lemma demo_info_simps: "bi_max_topk demo_info = 1" "\<not> bi_has_custom demo_info" "admitted demo_info [post_init_latent_mode demo_params]"
  using admitted.admit [of 1 False "[]" "[]" "[post_init_latent_mode demo_params]"]
  by (simp_all add: demo_info_def from_schedule_batch_def Let_def)

lemma demo_rows: "\<exists>rows. latent_rows (demo_env\<lparr>se_multinomial := m, se_kernel := f\<rparr>) demo_info [[1, 0]] = Inr rows"
  by (simp add: latent_rows_def require_latent_end_token_id_def demo_env_def demo_info_simps)

lemma latent_rows_sound_witness:
  "\<exists>rows. latent_rows demo_env demo_info [[1, 0]] = Inr rows \<and> row_ok 1 2 (rows ! 0) \<and>
     lr_probs (rows ! 0) = softmax (map (\<lambda>s. s / 1)
       (gather (map2 (+) (log_softmax [1, 0]) (gumbel_noise False 0 1 [0, 0])) (lr_ids (rows ! 0))))"
proof -
  obtain rows where rows: "latent_rows demo_env demo_info [[1, 0]] = Inr rows"
    using demo_rows latent_rows_cong by metis
  have "0 < bi_max_topk demo_info" "length (se_noise demo_env ! 0) = length ([[1, 0]] ! 0 :: real list)"
    by (simp_all add: demo_info_simps demo_env_def)
  note sound = latent_rows_sound [OF rows _ this]
  have last: "require_latent_end_token_id (se_latent_end_token_id demo_env) = Inr 9"
    by (simp add: require_latent_end_token_id_def demo_env_def)
  have cols: "bi_latent_modes demo_info = [True]" "bi_add_noise_gumbel_softmax demo_info = [True]"
      "bi_gumbel_softmax_temperatures demo_info = [1]" "bi_use_one_sided_gumbel_noise demo_info = [False]"
      "bi_one_sided_gumbel_deltas demo_info = [0]" "bi_noise_scales demo_info = [1]"
    by (simp_all add: demo_info_def from_schedule_batch_def post_init_latent_mode_def latent_on_def demo_params_def num_val_def Let_def)
  have top: "topk_ids (Suc 0) [1, 0 :: real] = [0]"
    by (simp add: topk_ids_def order_desc_def upt_rec)
  have noise: "se_noise demo_env = [[0, 0]]"
    by (simp add: demo_env_def)
  from sound show ?thesis
    using rows by (auto simp: last top cols noise demo_info_simps numeral_2_eq_2 Let_def)
qed

lemma ended_request_sampled_as_latent_witness:
  "\<exists>res. sampler_forward demo_env demo_info False [[1, 0]] = Inr res \<and> sd_tokens res ! 0 = hd (lr_ids (sd_rows res ! 0))"
proof -
  let ?env = "demo_env\<lparr>se_multinomial := \<lambda>_ _. 0, se_kernel := \<lambda>_ _ _ _ _. 0\<rparr>"
  obtain rows where rows: "latent_rows ?env demo_info [[1, 0]] = Inr rows" "latent_rows demo_env demo_info [[1, 0]] = Inr rows"
    using demo_rows latent_rows_cong by metis
  obtain res where res: "sampler_forward demo_env demo_info False [[1, 0]] = Inr res"
    using sampler_total [OF rows(2)] demo_info_simps(2) by (auto simp: demo_env_def)
  obtain res' where res': "sampler_forward ?env demo_info False [[1, 0]] = Inr res'"
    using sampler_total [OF rows(1)] demo_info_simps(2) by (auto simp: demo_env_def)
  have "\<not> latent_on (lq_params (new_req ''r'' [1] demo_params None None False 0 None False None))"
    by (simp add: new_req_def demo_params_def latent_on_def)
  with ended_request_sampled_as_latent [OF demo_info_simps(3) _ _ _ _ _ res res'] res show ?thesis
    by (simp add: demo_env_def latent_on_def post_init_latent_mode_def)
qed

section \<open>Merging a greedy batch\<close>

text \<open>
  \<open>merge_batch\<close> combines \<open>is_all_greedy\<close> with \<open>or\<close>: a batch that takes in an all-greedy batch decodes
  every request with argmax, also those that asked for sampling.
\<close>

lemma merge_forces_greedy:
  assumes "bi_is_all_greedy b" and "\<not> se_enable_latent env" and "\<not> bi_has_custom a" and "\<not> bi_has_custom b"
    and "sampler_forward env (merge_batch a b) rl logits = Inr res"
  shows "sd_tokens res = se_sync env (map argmax logits)"
proof -
  have "bi_is_all_greedy (merge_batch a b)" "\<not> bi_has_custom (merge_batch a b)"
    using assms(1,3,4) by (simp_all add: merge_batch_def Let_def)
  then show ?thesis
    using assms(2,5) by (simp add: sampler_forward_def ordinary_tokens_def chosen_tokens_def Let_def) auto
qed

lemma merge_not_all_greedy:
  "\<exists>a b :: unit batch_info. admitted a [demo_params] \<and> admitted b [demo_params\<lparr>sp_top_k := 1\<rparr>] \<and>
     bi_is_all_greedy (merge_batch a b) \<and> bi_top_ks (merge_batch a b) = [4, 1]"
proof -
  let ?a = "from_schedule_batch True 1 False [] [] [demo_params] :: unit batch_info"
  let ?b = "from_schedule_batch True 1 False [] [] [demo_params\<lparr>sp_top_k := 1\<rparr>] :: unit batch_info"
  have "admitted ?a [demo_params]" "admitted ?b [demo_params\<lparr>sp_top_k := 1\<rparr>]"
    by (rule admitted.admit)+
  moreover have "bi_is_all_greedy (merge_batch ?a ?b)" "bi_top_ks (merge_batch ?a ?b) = [4, 1]"
    by (simp_all add: merge_batch_def from_schedule_batch_def demo_params_def Let_def)
  ultimately show ?thesis
    by blast
qed

section \<open>Requests for top log-probabilities\<close>

lemma append_logprobs_crash:
  "sd_top_logprobs res = None \<Longrightarrow> lq_return_logprob q \<Longrightarrow> 0 < lq_top_logprobs_num q \<Longrightarrow> append_logprobs res i tok q = Inl TypeError"
  by (simp add: append_logprobs_def append_row_def)

lemma check_finished_flags:
  assumes "check_finished q = Inr q'"
  shows "lq_return_logprob q' = lq_return_logprob q \<and> lq_top_logprobs_num q' = lq_top_logprobs_num q"
  using check_finished_keeps [OF assms] by auto

lemma update_latent_info_flags:
  "update_latent_info out i q = Inr q' \<Longrightarrow>
   lq_return_logprob q' = lq_return_logprob q \<and> lq_top_logprobs_num q' = lq_top_logprobs_num q"
  by (auto simp: update_latent_info_def log_rows_def Let_def split: if_splits)

lemma process_decode_req_crash:
  assumes "sd_top_logprobs res = None" and "\<not> lq_is_retracted q" and "lq_return_logprob q" and "0 < lq_top_logprobs_num q"
  shows "process_decode_req en res i tok q c \<noteq> Some (Inr r)"
proof
  assume run: "process_decode_req en res i tok q c = Some (Inr r)"
  then obtain q1 c1 where q1: "check_finished (q\<lparr>cr_output_ids := cr_output_ids q @ [tok]\<rparr>) = Inr q1"
      "bind_r (if en then update_latent_info (latent_output_of (sd_rows res)) i q1 else Inr q1)
         (\<lambda>q2. bind_r (append_logprobs res i tok q2) (\<lambda>q3. Inr (q3, c1))) = Inr r"
    using assms(2) by (auto simp: process_decode_req_def split: sum.splits option.splits)
  then obtain q2 q3 where q2: "(if en then update_latent_info (latent_output_of (sd_rows res)) i q1 else Inr q1) = Inr q2"
      "append_logprobs res i tok q2 = Inr q3"
    by (auto simp: bind_r_Inr_iff)
  have "lq_return_logprob q2" "0 < lq_top_logprobs_num q2"
    using check_finished_flags [OF q1(1)] q2(1) assms(3,4) by (auto dest: update_latent_info_flags split: if_splits)
  with append_logprobs_crash [OF assms(1) this] q2(2) show False
    by simp
qed

lemma process_decode_loop_crash:
  assumes "sd_top_logprobs res = None" and "(q, tok) \<in> set qs"
    and "\<not> lq_is_retracted q" and "lq_return_logprob q" and "0 < lq_top_logprobs_num q"
  shows "process_decode_loop en res i qs c \<noteq> Some (Inr r)"
  using assms(2)
proof (induction qs arbitrary: i c r)
  case Nil
  then show ?case by simp
next
  case (Cons qt qs)
  obtain q' tok' where qt: "qt = (q', tok')"
    by (cases qt)
  show ?case
  proof (cases "qt = (q, tok)")
    case True
    then show ?thesis
      using process_decode_req_crash [OF assms(1,3,4,5), of en i tok c] qt by (auto split: option.splits sum.splits)
  next
    case False
    then have "(q, tok) \<in> set qs"
      using Cons.prems by auto
    from Cons.IH [OF this] show ?thesis
      unfolding qt by (auto split: option.splits sum.splits)
  qed
qed

text \<open>
  The same step with the flag of every request cleared differs only in the rows of log-probabilities:
  where the one returns, the other returns the same cache or subscripts the missing rows.
\<close>

abbreviation flagless :: "latent_req \<Rightarrow> latent_req" where
  "flagless q \<equiv> q\<lparr>lq_return_logprob := False\<rparr>"

lemma check_finished_flagless:
  "check_finished (flagless q) = (case check_finished q of Inl e \<Rightarrow> Inl e | Inr q' \<Rightarrow> Inr (flagless q'))"
proof -
  have eos: "matched_eos (flagless q) t = matched_eos q t" for t
    by (simp add: matched_eos_def)
  show ?thesis
    unfolding check_finished_def Let_def
    by (simp add: eos req_finished_def cong: if_cong option.case_cong split: option.split)
qed

lemma update_latent_info_flagless:
  "update_latent_info out i (flagless q) =
     (case update_latent_info out i q of Inl e \<Rightarrow> Inl e | Inr q' \<Rightarrow> Inr (flagless q'))"
  by (simp add: update_latent_info_def log_rows_def Let_def)

lemma append_logprobs_cases: "(\<exists>q'. append_logprobs res i tok q = Inr q') \<or> append_logprobs res i tok q = Inl TypeError"
  by (auto simp: append_logprobs_def append_row_def Let_def split: option.split)

lemma append_logprobs_flagless: "append_logprobs res i tok (flagless q) = Inr (flagless q)"
  by (simp add: append_logprobs_def)

lemma process_decode_req_flagless:
  assumes "process_decode_req en res i tok (flagless q) c = Some (Inr (q', c'))"
  shows "(\<exists>q''. process_decode_req en res i tok q c = Some (Inr (q'', c'))) \<or>
    process_decode_req en res i tok q c = Some (Inl TypeError)"
proof (cases "lq_is_retracted q")
  case True
  then show ?thesis
    using assms by (auto simp: process_decode_req_def)
next
  case False
  let ?q = "q\<lparr>cr_output_ids := cr_output_ids q @ [tok]\<rparr>"
  have eq: "(flagless q)\<lparr>cr_output_ids := cr_output_ids (flagless q) @ [tok]\<rparr> = flagless ?q"
    by simp
  from assms False obtain q1 c1 where q1: "check_finished ?q = Inr q1"
      "(if req_finished q1 then cache_finished_req token_free (cache_req.truncate q1) c else Some c) = Some c1"
      "bind_r (if en then update_latent_info (latent_output_of (sd_rows res)) i (flagless q1) else Inr (flagless q1))
         (\<lambda>q2. bind_r (append_logprobs res i tok q2) (\<lambda>q3. Inr (q3, c1))) = Inr (q', c')"
    unfolding process_decode_req_def eq check_finished_flagless
    by (auto simp: req_finished_def cache_req.truncate_def split: sum.splits option.splits if_splits)
  then obtain q2 where q2: "(if en then update_latent_info (latent_output_of (sd_rows res)) i q1 else Inr q1) = Inr q2" "c1 = c'"
    unfolding update_latent_info_flagless by (auto simp: bind_r_Inr_iff split: sum.splits if_splits)
  have "process_decode_req en res i tok q c = Some (bind_r (append_logprobs res i tok q2) (\<lambda>q3. Inr (q3, c')))"
    unfolding process_decode_req_def using False q1(1,2) q2 by simp
  then show ?thesis
    using append_logprobs_cases [of res i tok q2] by auto
qed

lemma process_decode_loop_flagless:
  assumes "process_decode_loop en res i (map (\<lambda>qt. (flagless (fst qt), snd qt)) qs) c = Some (Inr r)"
  shows "(\<exists>qs'. process_decode_loop en res i qs c = Some (Inr (qs', snd r))) \<or>
    process_decode_loop en res i qs c = Some (Inl TypeError)"
  using assms
proof (induction qs arbitrary: i c r)
  case Nil
  then show ?case by auto
next
  case (Cons qt qs)
  obtain q tok where qt: "qt = (q, tok)"
    by (cases qt)
  from Cons.prems obtain q' c' r' where
      q': "process_decode_req en res i tok (flagless q) c = Some (Inr (q', c'))"
      and r': "process_decode_loop en res (i + 1) (map (\<lambda>qt. (flagless (fst qt), snd qt)) qs) c' = Some (Inr r')" "snd r = snd r'"
    unfolding qt by (auto split: option.splits sum.splits)
  show ?case
    using process_decode_req_flagless [OF q'] Cons.IH [OF r'(1)] r'(2) unfolding qt by auto
qed

text \<open>
  C39. A request for top log-probabilities stops the server.  The sampler leaves \<open>next_token_top_logprobs_val\<close> at
  its default None (the calls that fill it are commented out), and the output processor subscripts it.  A decode
  step whose batch holds a running request with \<open>return_logprob\<close> and \<open>top_logprobs_num > 0\<close> never returns
  normally, and when the step would have returned had no request asked for log-probabilities, it raises
  exactly the TypeError of that subscript, so no request of the batch gets its token.
\<close>

theorem top_logprobs_stop_decoding:
  assumes "sampler_forward env bi rl logits = Inr res" and "i < length reqs" and "i < length (sd_tokens res)"
    and "\<not> lq_is_retracted (reqs ! i)" and "lq_return_logprob (reqs ! i)" and "0 < lq_top_logprobs_num (reqs ! i)"
  shows "(\<forall>r. process_batch_result_decode en res reqs c \<noteq> Some (Inr r)) \<and>
    ((\<exists>r. process_batch_result_decode en res (map (\<lambda>q. q\<lparr>lq_return_logprob := False\<rparr>) reqs) c = Some (Inr r)) \<longrightarrow>
     process_batch_result_decode en res reqs c = Some (Inl TypeError))"
proof -
  let ?c = "c\<lparr>cs_alloc := token_free_group_begin (cs_alloc c)\<rparr>" and ?qs = "zip reqs (sd_tokens res)"
  have "sd_top_logprobs res = None"
    using assms(1) by (auto simp: sampler_forward_def bind_r_Inr_iff Let_def)
  moreover have "(reqs ! i, sd_tokens res ! i) \<in> set ?qs"
    using assms(2,3) by (auto simp: in_set_zip)
  ultimately have crash: "process_decode_loop en res 0 ?qs ?c \<noteq> Some (Inr r)" for r
    using process_decode_loop_crash [OF _ _ assms(4,5,6)] by blast
  have zip: "zip (map flagless reqs) (sd_tokens res) = map (\<lambda>qt. (flagless (fst qt), snd qt)) ?qs"
    by (simp add: zip_map1 split_beta')
  have "process_decode_loop en res 0 ?qs ?c = Some (Inl TypeError)"
    if "process_batch_result_decode en res (map flagless reqs) c = Some (Inr r)" for r
  proof -
    have "\<exists>r'. process_decode_loop en res 0 (map (\<lambda>qt. (flagless (fst qt), snd qt)) ?qs) ?c = Some (Inr r')"
      using that unfolding process_batch_result_decode_def Let_def zip by (auto split: option.splits sum.splits)
    then show ?thesis
      using process_decode_loop_flagless crash by blast
  qed
  then show ?thesis
    using crash by (fastforce simp: process_batch_result_decode_def Let_def split: option.splits sum.splits)
qed

lemma top_logprobs_stop_decoding_witness:
  "\<exists>res. sampler_forward demo_env demo_info True [[1, 0]] = Inr res \<and>
     (\<forall>c. process_batch_result_decode True res [new_req ''r'' [1] demo_params None None True 5 None True (Some 9)] c
        = Some (Inl TypeError))"
proof -
  let ?q = "new_req ''r'' [1] demo_params None None True 5 None True (Some 9)"
  obtain rows where "latent_rows demo_env demo_info [[1, 0]] = Inr rows"
    using demo_rows latent_rows_cong by metis
  then obtain res where res: "sampler_forward demo_env demo_info True [[1, 0]] = Inr res"
    using sampler_total demo_info_simps(2) by (fastforce simp: demo_env_def)
  have env: "se_enable_latent demo_env" "se_sync demo_env = (\<lambda>ts. ts)"
    by (simp_all add: demo_env_def)
  obtain ts where "ordinary_tokens demo_env demo_info [[1, 0]] = Inr ts" "sd_tokens res = chosen_tokens demo_env demo_info (sd_rows res) ts"
    using sampler_forward_Inr [OF res env(1)] demo_info_simps(2) env(2) by auto
  then obtain tok where tok: "sd_tokens res = [tok]"
    using ordinary_tokens_length env(1) by (fastforce simp: chosen_tokens_def)
  let ?f = "flagless ?q\<lparr>cr_output_ids := [tok]\<rparr>"
  have "check_finished ?f = Inr ?f" "\<not> req_finished ?f"
    by (simp_all add: check_finished_def req_finished_def matched_eos_def new_req_def demo_params_def
        post_init_latent_mode_def Let_def)
  moreover obtain q2 where "update_latent_info (latent_output_of (sd_rows res)) 0 ?f = Inr q2"
    using update_latent_info_spec [of ?f "[]" tok "latent_output_of (sd_rows res)" 0] by auto
  ultimately have "\<exists>r. process_batch_result_decode True res (map (\<lambda>q. q\<lparr>lq_return_logprob := False\<rparr>) [?q]) c = Some (Inr r)" for c
    using update_latent_info_flags [of _ 0 ?f q2]
    by (simp add: process_batch_result_decode_def process_decode_req_def append_logprobs_def tok new_req_def Let_def)
  then show ?thesis
    using top_logprobs_stop_decoding [OF res, of 0 "[?q]"] res tok by (auto simp: new_req_def)
qed

end
