(* ===== verification/SchedPolicy.thy ===== *)
theory SchedPolicy
  imports LatentReq
begin

text \<open>
  The scheduling policy of \<open>srt/managers/schedule_policy.py\<close>: \<open>SchedulePolicy\<close>, which orders the waiting
  queue, and \<open>PrefillAdder\<close>, which decides how many of its requests the next prefill batch takes.
  Both work on the radix cache of \<open>RadixCache\<close>; of the KV allocator they only read
  \<open>available_size()\<close>, here the argument \<open>avail\<close>.  The hierarchical cache is left out.  A call that
  walks through the tree is an option: None is a walk that does not end.
\<close>

section \<open>Constants\<close>

text \<open>The defaults of the environment variables.\<close>

definition clip_max_new_tokens :: int where
  "clip_max_new_tokens = 4096"

definition in_batch_check_threshold :: nat where
  "in_batch_check_threshold = 32"

definition in_batch_deprioritize_threshold :: nat where
  "in_batch_deprioritize_threshold = 32"

text \<open>\<open>xs[:k]\<close> for an integer \<open>k\<close>.\<close>

definition py_take :: "int \<Rightarrow> 'a list \<Rightarrow> 'a list" where
  "py_take k xs = (if 0 \<le> k then take (nat k) xs else take (length xs - nat (- k)) xs)"

section \<open>SchedulePolicy\<close>

datatype sched_policy = LPM | DFS_WEIGHT | FCFS | LOF | RANDOM

fun cache_aware :: "sched_policy \<Rightarrow> bool" where
  "cache_aware LPM = True"
| "cache_aware DFS_WEIGHT = True"
| "cache_aware _ = False"

definition validate_and_adjust_policy :: "string \<Rightarrow> bool \<Rightarrow> sched_policy result" where
  "validate_and_adjust_policy name cache_disabled =
     (if name = ''lpm'' then Inr (if cache_disabled then FCFS else LPM)
      else if name = ''dfs-weight'' then Inr (if cache_disabled then FCFS else DFS_WEIGHT)
      else if name = ''fcfs'' then Inr FCFS
      else if name = ''lof'' then Inr LOF
      else if name = ''random'' then Inr RANDOM
      else Inl (ValueError ''Unknown schedule_policy''))"

definition determine_active_policy :: "sched_policy \<Rightarrow> latent_req list \<Rightarrow> sched_policy" where
  "determine_active_policy policy queue = (if policy = LPM \<and> 128 < length queue then FCFS else policy)"

text \<open>
  \<open>_compute_prefix_matches\<close>: \<open>wt\<close> is \<open>waiting_queue_radix_tree\<close>, \<open>dep\<close> the set of deprioritized
  request ids.
\<close>

fun prefix_match_loop ::
  "radix \<Rightarrow> radix \<Rightarrow> string list \<Rightarrow> latent_req list \<Rightarrow> (latent_req list \<times> string list \<times> radix \<times> radix) result option" where
  "prefix_match_loop tree wt dep [] = Some (Inr ([], dep, tree, wt))"
| "prefix_match_loop tree wt dep (r # rs) =
     (case adjust_max_prefix_ids r of
        Inl e \<Rightarrow> Some (Inl e)
      | Inr (key, r1) \<Rightarrow>
         (case match_prefix tree key of
            None \<Rightarrow> None
          | Some (indices, node, tree1) \<Rightarrow>
              let r2 = r1\<lparr>cr_prefix_indices := indices, cr_last_node := node\<rparr>;
                  in_batch =
                    (if length indices \<le> in_batch_check_threshold
                     then (case match_prefix wt key of
                             None \<Rightarrow> None
                           | Some (matching, _, wt1) \<Rightarrow>
                               if in_batch_deprioritize_threshold \<le> length matching then Some (dep @ [lq_rid r], wt1)
                               else (case rx_insert wt1 key (Some (replicate (length key) 0)) of
                                       None \<Rightarrow> None | Some (_, wt2) \<Rightarrow> Some (dep, wt2)))
                     else Some (dep, wt))
              in (case in_batch of
                    None \<Rightarrow> None
                  | Some (dep1, wt1) \<Rightarrow>
                      (case prefix_match_loop tree1 wt1 dep1 rs of
                         None \<Rightarrow> None
                       | Some (Inl e) \<Rightarrow> Some (Inl e)
                       | Some (Inr (rs', res)) \<Rightarrow> Some (Inr (r2 # rs', res))))))"

definition compute_prefix_matches ::
  "radix \<Rightarrow> radix \<Rightarrow> latent_req list \<Rightarrow> (latent_req list \<times> string list \<times> radix \<times> radix) result option" where
  "compute_prefix_matches tree wt queue = prefix_match_loop tree (rx_reset wt) [] queue"

text \<open>
  The sorts are stable.  The key of a deprioritized request is \<open>float("inf")\<close>: those requests keep
  their order behind all others.
\<close>

definition sort_by_longest_prefix :: "string list \<Rightarrow> latent_req list \<Rightarrow> latent_req list" where
  "sort_by_longest_prefix dep queue =
     sort_key (\<lambda>r. - int (length (cr_prefix_indices r))) (filter (\<lambda>r. lq_rid r \<notin> set dep) queue)
     @ filter (\<lambda>r. lq_rid r \<in> set dep) queue"

definition sort_by_longest_output :: "latent_req list \<Rightarrow> latent_req list result" where
  "sort_by_longest_output queue =
     bind_r (check_r (list_all (\<lambda>r. sp_max_new_tokens (lq_params r) \<noteq> None) queue) TypeError) (\<lambda>_.
       Inr (sort_key (\<lambda>r. - the (sp_max_new_tokens (lq_params r))) queue))"

text \<open>\<open>_calc_weight\<close> on the remaining children of a node.\<close>

partial_function (option) calc_weight :: "radix \<Rightarrow> nat \<Rightarrow> nat list \<Rightarrow> (nat \<Rightarrow> nat) \<Rightarrow> (nat \<Rightarrow> nat) option" where
  "calc_weight s cur childs w =
     (case childs of
        [] \<Rightarrow> Some w
      | c # cs \<Rightarrow>
          Option.bind (calc_weight s c (map snd (rx_children s c)) w)
            (\<lambda>w1. calc_weight s cur cs (w1(cur := w1 cur + w1 c))))"

text \<open>\<open>_get_dfs_priority\<close> on the nodes of a list, one after the other.\<close>

partial_function (option) get_dfs_priority ::
  "radix \<Rightarrow> (nat \<Rightarrow> nat) \<Rightarrow> (nat \<Rightarrow> latent_req list) \<Rightarrow> nat list \<Rightarrow> latent_req list \<Rightarrow> latent_req list option" where
  "get_dfs_priority s w last_node_to_reqs nodes q =
     (case nodes of
        [] \<Rightarrow> Some q
      | n # ns \<Rightarrow>
          Option.bind (get_dfs_priority s w last_node_to_reqs (sort_key (\<lambda>c. - int (w c)) (map snd (rx_children s n))) q)
            (\<lambda>q1. get_dfs_priority s w last_node_to_reqs ns (q1 @ last_node_to_reqs n)))"

declare calc_weight.simps [code] get_dfs_priority.simps [code]

definition sort_by_dfs_weight :: "radix \<Rightarrow> latent_req list \<Rightarrow> latent_req list option" where
  "sort_by_dfs_weight tree queue =
     (let last_node_to_reqs = (\<lambda>n. filter (\<lambda>r. cr_last_node r = n) queue)
      in case calc_weight tree (rx_root tree) (map snd (rx_children tree (rx_root tree))) (\<lambda>n. length (last_node_to_reqs n)) of
           None \<Rightarrow> None
         | Some w \<Rightarrow> get_dfs_priority tree w last_node_to_reqs [rx_root tree] [])"

text \<open>
  \<open>calc_priority\<close> returns whether the prefixes were computed, the queue and the two trees;
  \<open>shuffle\<close> is \<open>random.shuffle\<close>.
\<close>

definition calc_priority ::
  "(latent_req list \<Rightarrow> latent_req list) \<Rightarrow> sched_policy \<Rightarrow> radix \<Rightarrow> radix \<Rightarrow> latent_req list \<Rightarrow>
   (bool \<times> latent_req list \<times> radix \<times> radix) result option" where
  "calc_priority shuffle policy tree wt queue =
     (if policy = FCFS then Some (Inr (False, queue, tree, wt))
      else let active = determine_active_policy policy queue
           in if cache_aware active
              then (case compute_prefix_matches tree wt queue of
                      None \<Rightarrow> None
                    | Some (Inl e) \<Rightarrow> Some (Inl e)
                    | Some (Inr (q, dep, tree1, wt1)) \<Rightarrow>
                        if active = LPM then Some (Inr (True, sort_by_longest_prefix dep q, tree1, wt1))
                        else map_option (\<lambda>q'. Inr (True, q', tree1, wt1)) (sort_by_dfs_weight tree1 q))
              else if active = LOF then Some (bind_r (sort_by_longest_output queue) (\<lambda>q. Inr (False, q, tree, wt)))
              else if active = RANDOM then Some (Inr (False, shuffle queue, tree, wt))
              else Some (Inr (False, queue, tree, wt)))"

section \<open>PrefillAdder\<close>

datatype add_req_result = CONTINUE | NO_TOKEN | OTHER

text \<open>
  \<open>new_chunked_req\<close> is the object that was appended to \<open>can_run_list\<close>, so the field holds its place there.
\<close>

record prefill_adder =
  pa_new_token_ratio :: real
  pa_running :: "latent_req list"
  pa_rem_input_tokens :: int
  pa_rem_chunk_tokens :: "int option"
  pa_rem_total_token_offset :: real
  pa_cur_rem_token_offset :: int
  pa_req_states :: "(real \<times> nat) list option"
  pa_can_run_list :: "latent_req list"
  pa_new_chunked_req :: "nat option"
  pa_log_hit_tokens :: int
  pa_log_input_tokens :: int

definition running_estimate :: "real \<Rightarrow> latent_req \<Rightarrow> real result" where
  "running_estimate ratio r =
     (case sp_max_new_tokens (lq_params r) of
        None \<Rightarrow> Inl TypeError
      | Some m \<Rightarrow> Inr (real_of_int (min (m - int (length (cr_output_ids r))) clip_max_new_tokens) * ratio))"

definition prefill_adder_init ::
  "latent_req list \<Rightarrow> real \<Rightarrow> int \<Rightarrow> int option \<Rightarrow> int \<Rightarrow> prefill_adder result" where
  "prefill_adder_init running ratio rem_input rem_chunk mixed =
     bind_r (map_r (running_estimate ratio) running) (\<lambda>estimates.
       Inr \<lparr>pa_new_token_ratio = ratio, pa_running = running, pa_rem_input_tokens = rem_input - mixed,
            pa_rem_chunk_tokens = map_option (\<lambda>k. k - mixed) rem_chunk,
            pa_rem_total_token_offset = real_of_int mixed + sum_list estimates, pa_cur_rem_token_offset = mixed,
            pa_req_states = None, pa_can_run_list = [], pa_new_chunked_req = None,
            pa_log_hit_tokens = 0, pa_log_input_tokens = 0\<rparr>)"

definition rem_total_tokens :: "nat \<Rightarrow> radix \<Rightarrow> prefill_adder \<Rightarrow> real" where
  "rem_total_tokens avail tree pa = real avail + real_of_int (evictable_size tree) - pa_rem_total_token_offset pa"

definition cur_rem_tokens :: "nat \<Rightarrow> radix \<Rightarrow> prefill_adder \<Rightarrow> int" where
  "cur_rem_tokens avail tree pa = int avail + evictable_size tree - pa_cur_rem_token_offset pa"

definition budget_state :: "nat \<Rightarrow> radix \<Rightarrow> prefill_adder \<Rightarrow> add_req_result" where
  "budget_state avail tree pa =
     (if rem_total_tokens avail tree pa \<le> 0 \<or> cur_rem_tokens avail tree pa \<le> 0 then NO_TOKEN
      else if pa_rem_input_tokens pa \<le> 0 \<or> (case pa_rem_chunk_tokens pa of None \<Rightarrow> False | Some k \<Rightarrow> k \<le> 0) then OTHER
      else CONTINUE)"

definition prefill_one_req :: "int \<Rightarrow> int \<Rightarrow> int \<Rightarrow> prefill_adder \<Rightarrow> prefill_adder" where
  "prefill_one_req prefix_len extend_input_len max_new_tokens pa =
     pa\<lparr>pa_rem_total_token_offset := pa_rem_total_token_offset pa + real_of_int (extend_input_len + max_new_tokens),
        pa_cur_rem_token_offset := pa_cur_rem_token_offset pa + extend_input_len,
        pa_rem_input_tokens := pa_rem_input_tokens pa - extend_input_len,
        pa_rem_chunk_tokens := map_option (\<lambda>k. k - extend_input_len) (pa_rem_chunk_tokens pa),
        pa_log_hit_tokens := pa_log_hit_tokens pa + prefix_len,
        pa_log_input_tokens := pa_log_input_tokens pa + extend_input_len\<rparr>"

text \<open>\<open>add_chunked_req\<close> returns whether the request is still truncated.\<close>

definition add_chunked_req :: "latent_req \<Rightarrow> prefill_adder \<Rightarrow> (bool \<times> latent_req \<times> prefill_adder) result" where
  "add_chunked_req r pa =
     (case (pa_rem_chunk_tokens pa, sp_max_new_tokens (lq_params r)) of
        (Some k, m_opt) \<Rightarrow>
          let truncated = k < lq_extend_input_len r;
              n = min (lq_extend_input_len r) k;
              r1 = r\<lparr>lq_extend_input_len := n,
                     cr_fill_ids := py_take (int (length (cr_prefix_indices r)) + n) (cr_fill_ids r)\<rparr>;
              pa1 = pa\<lparr>pa_can_run_list := pa_can_run_list pa @ [r1]\<rparr>
          in if truncated then Inr (True, r1, prefill_one_req 0 n 0 pa1)
             else (case m_opt of
                     None \<Rightarrow> Inl TypeError
                   | Some m \<Rightarrow> Inr (False, r1, prefill_one_req 0 n (min m clip_max_new_tokens) pa1))
      | _ \<Rightarrow> Inl TypeError)"

text \<open>
  \<open>add_req_state\<close>.  The insertion loop leaves \<open>i\<close> at the first entry that is not smaller, and at
  the last entry when every one is smaller.
\<close>

definition insert_index :: "real \<Rightarrow> (real \<times> nat) list \<Rightarrow> nat" where
  "insert_index tokens_left states =
     (let k = length (takeWhile (\<lambda>s. \<not> tokens_left \<le> fst s) states)
      in if k < length states then k else length states - 1)"

definition add_req_state :: "real \<Rightarrow> bool \<Rightarrow> latent_req \<Rightarrow> (real \<times> nat) list \<Rightarrow> (real \<times> nat) list result" where
  "add_req_state ratio insert_sort r states =
     (case sp_max_new_tokens (lq_params r) of
        None \<Rightarrow> Inl TypeError
      | Some m \<Rightarrow>
          let new_token_ratio = (if sp_ignore_eos (lq_params r) then 1 else ratio);
              tokens_left = real_of_int m * new_token_ratio - real (length (cr_output_ids r));
              tokens_occupied = length (cr_origin_input_ids r) + length (cr_output_ids r)
          in if 0 < tokens_left
             then if \<not> insert_sort then Inr (states @ [(tokens_left, tokens_occupied)])
                  else let i = insert_index tokens_left states
                       in Inr (take i states @ (tokens_left, tokens_occupied) # drop i states)
             else Inr states)"

fun add_req_states :: "real \<Rightarrow> latent_req list \<Rightarrow> (real \<times> nat) list \<Rightarrow> (real \<times> nat) list result" where
  "add_req_states ratio [] states = Inr states"
| "add_req_states ratio (r # rs) states = bind_r (add_req_state ratio False r states) (add_req_states ratio rs)"

fun states_fit :: "real \<Rightarrow> nat \<Rightarrow> (real \<times> nat) list \<Rightarrow> bool" where
  "states_fit cur_rem tokens_freed [] = True"
| "states_fit cur_rem tokens_freed ((tokens_left, tokens_occupied) # rest) =
     (let decode_steps = (case rest of [] \<Rightarrow> tokens_left | s # _ \<Rightarrow> fst s); bs = length rest + 1
      in if cur_rem + real tokens_freed - decode_steps * real bs \<le> 0 then False
         else states_fit cur_rem (tokens_freed + tokens_occupied) rest)"

definition add_one_req_ignore_eos ::
  "nat \<Rightarrow> radix \<Rightarrow> latent_req \<Rightarrow> prefill_adder \<Rightarrow> (add_req_result \<times> latent_req \<times> prefill_adder) result" where
  "add_one_req_ignore_eos avail tree r pa =
     bind_r (case pa_req_states pa of
               None \<Rightarrow> bind_r (add_req_states (pa_new_token_ratio pa) (r # pa_running pa @ pa_can_run_list pa) [])
                         (\<lambda>st. Inr (sort_key fst st))
             | Some st \<Rightarrow> add_req_state (pa_new_token_ratio pa) True r st) (\<lambda>states.
     let pa0 = pa\<lparr>pa_req_states := Some states\<rparr>;
         cur_rem = real_of_int (cur_rem_tokens avail tree pa0 - int (length (cr_origin_input_ids r)))
     in if \<not> states_fit cur_rem 0 states then Inr (NO_TOKEN, r, pa0)
        else (case pa_rem_chunk_tokens pa0 of
                Some k \<Rightarrow>
                  if lq_extend_input_len r \<le> k
                  then (case sp_max_new_tokens (lq_params r) of
                          None \<Rightarrow> Inl TypeError
                        | Some m \<Rightarrow>
                            let pa1 = prefill_one_req 0 (lq_extend_input_len r) (min m clip_max_new_tokens)
                                        (pa0\<lparr>pa_can_run_list := pa_can_run_list pa0 @ [r]\<rparr>)
                            in Inr (budget_state avail tree pa1, r, pa1))
                  else if k = 0 then Inr (OTHER, r, pa0)
                  else let r1 = r\<lparr>lq_extend_input_len := k, cr_fill_ids := py_take k (cr_fill_ids r)\<rparr>;
                           pa1 = prefill_one_req 0 k 0
                                   (pa0\<lparr>pa_can_run_list := pa_can_run_list pa0 @ [r1],
                                        pa_new_chunked_req := Some (length (pa_can_run_list pa0))\<rparr>)
                       in Inr (budget_state avail tree pa1, r1, pa1)
              | None \<Rightarrow>
                  (case sp_max_new_tokens (lq_params r) of
                     None \<Rightarrow> Inl TypeError
                   | Some m \<Rightarrow>
                       let pa1 = prefill_one_req 0 (lq_extend_input_len r) (min m clip_max_new_tokens)
                                   (pa0\<lparr>pa_can_run_list := pa_can_run_list pa0 @ [r]\<rparr>)
                       in Inr (budget_state avail tree pa1, r, pa1))))"

text \<open>
  The body of \<open>add_one_req\<close> under \<open>_lock_node\<close>: \<open>Inl\<close> is an early return, \<open>Inr\<close> the admission, with
  the tree that holds the request's own reference.
\<close>

definition admit_req ::
  "nat \<Rightarrow> radix \<Rightarrow> int \<Rightarrow> latent_req \<Rightarrow> prefill_adder \<Rightarrow> (add_req_result + (latent_req \<times> prefill_adder \<times> radix)) option" where
  "admit_req avail tree m r pa =
     (let input_tokens = lq_extend_input_len r;
          total_tokens = input_tokens + min m clip_max_new_tokens;
          prefix_len = int (length (cr_prefix_indices r));
          normal = (pa_rem_chunk_tokens pa = None \<or> input_tokens \<le> the (pa_rem_chunk_tokens pa));
          trunc_len = (case pa_rem_chunk_tokens pa of None \<Rightarrow> 0 | Some k \<Rightarrow> k)
      in if rem_total_tokens avail tree pa < real_of_int total_tokens then Some (Inl NO_TOKEN)
         else if \<not> normal \<and> trunc_len = 0 then Some (Inl OTHER)
         else case inc_lock_ref tree (cr_last_node r) of
                None \<Rightarrow> None
              | Some (_, tree1) \<Rightarrow>
                  if normal
                  then Some (Inr (r, prefill_one_req prefix_len input_tokens (min m clip_max_new_tokens)
                                       (pa\<lparr>pa_can_run_list := pa_can_run_list pa @ [r]\<rparr>), tree1))
                  else let r1 = r\<lparr>lq_extend_input_len := trunc_len,
                                  cr_fill_ids := py_take (prefix_len + trunc_len) (cr_fill_ids r)\<rparr>
                       in Some (Inr (r1, prefill_one_req prefix_len trunc_len 0
                                           (pa\<lparr>pa_can_run_list := pa_can_run_list pa @ [r1],
                                               pa_new_chunked_req := Some (length (pa_can_run_list pa))\<rparr>), tree1)))"

definition add_one_req ::
  "nat \<Rightarrow> radix \<Rightarrow> latent_req \<Rightarrow> prefill_adder \<Rightarrow> (add_req_result \<times> latent_req \<times> prefill_adder \<times> radix) result option" where
  "add_one_req avail tree r pa =
     (if sp_ignore_eos (lq_params r) \<and> rx_disable tree
      then Some (bind_r (add_one_req_ignore_eos avail tree r pa) (\<lambda>(res, r', pa'). Inr (res, r', pa', tree)))
      else case sp_max_new_tokens (lq_params r) of
             None \<Rightarrow> Some (Inl TypeError)
           | Some m \<Rightarrow>
               if rem_total_tokens avail tree pa \<le> real_of_int (lq_extend_input_len r + min m clip_max_new_tokens)
               then Some (Inr (NO_TOKEN, r, pa, tree))
               else if pa_rem_input_tokens pa < lq_extend_input_len r \<and> pa_can_run_list pa \<noteq> []
               then Some (Inr (OTHER, r, pa, tree))
               else case inc_lock_ref tree (cr_last_node r) of
                      None \<Rightarrow> None
                    | Some (_, tree1) \<Rightarrow>
                        (case admit_req avail tree1 m r pa of
                           None \<Rightarrow> None
                         | Some (Inl res) \<Rightarrow>
                             map_option (\<lambda>(_, tree2). Inr (res, r, pa, tree2)) (dec_lock_ref tree1 (cr_last_node r))
                         | Some (Inr (r1, pa1, tree2)) \<Rightarrow>
                             map_option (\<lambda>(_, tree3). Inr (budget_state avail tree3 pa1, r1, pa1, tree3))
                               (dec_lock_ref tree2 (cr_last_node r))))"

end
