(* ===== verification/SchedPolicyOk.thy ===== *)
theory SchedPolicyOk
  imports SchedPolicy RadixReq
begin

text \<open>
  The scheduling policy loses no request and ends: the prefix matching, the depth-first order and
  the other orders of the waiting queue.
\<close>

section \<open>Prefix matching\<close>

text \<open>A request that waits: its \<open>max_new_tokens\<close> is set.\<close>

definition max_new_set :: "latent_req \<Rightarrow> bool" where
  "max_new_set q \<longleftrightarrow> sp_max_new_tokens (lq_params q) \<noteq> None"

lemma adjust_max_prefix_ids_ok:
  assumes "max_new_set q"
  shows "\<exists>k. adjust_max_prefix_ids q = Inr (take k (cr_origin_input_ids q @ cr_output_ids q),
     q\<lparr>cr_fill_ids := cr_origin_input_ids q @ cr_output_ids q\<rparr>)"
  using assms by (auto simp: max_new_set_def adjust_max_prefix_ids_def Let_def)

text \<open>What the loop does to a request: it sets the fill ids, the prefix and its node.\<close>

text \<open>The longest prefix of the ids the request may reuse that the cache \<open>C\<close> holds.\<close>

definition best_prefix :: "(nat list \<times> nat list) set \<Rightarrow> latent_req \<Rightarrow> latent_req \<Rightarrow> bool" where
  "best_prefix C q q' \<longleftrightarrow> (\<exists>key q1 ks. adjust_max_prefix_ids q = Inr (key, q1) \<and>
     longest_cached C key ks (cr_prefix_indices q'))"

definition matched_as :: "radix \<Rightarrow> latent_req \<Rightarrow> latent_req \<Rightarrow> bool" where
  "matched_as t q q' \<longleftrightarrow> (\<exists>ks. at_node t (cr_last_node q') ks (cr_prefix_indices q') \<and>
     prefix ks (cr_origin_input_ids q @ cr_output_ids q) \<and>
     q' = q\<lparr>cr_fill_ids := cr_origin_input_ids q @ cr_output_ids q, cr_prefix_indices := cr_prefix_indices q',
            cr_last_node := cr_last_node q'\<rparr>)"

lemma matched_as_node:
  "list_all2 (matched_as t) qs qs' \<Longrightarrow> q' \<in> set qs' \<Longrightarrow> \<exists>ks. at_node t (cr_last_node q') ks (cr_prefix_indices q')"
  by (induction rule: list_all2_induct) (auto simp: matched_as_def)

text \<open>What every step of the scheduling keeps of the tree: nodes may be split, but none moves or goes.\<close>

definition tree_kept :: "radix \<Rightarrow> radix \<Rightarrow> bool" where
  "tree_kept t t' \<longleftrightarrow> rx_page_size t' = rx_page_size t \<and> rx_slots t' = rx_slots t \<and>
     (\<forall>m ks vs. at_node t m ks vs \<longrightarrow> at_node t' m ks vs)"

lemma tree_kept_refl [simp]: "tree_kept t t"
  by (simp add: tree_kept_def)

lemma tree_kept_trans: "tree_kept t t' \<Longrightarrow> tree_kept t' t'' \<Longrightarrow> tree_kept t t''"
  by (simp add: tree_kept_def)

lemma tree_kept_match:
  assumes "radix_reach s R" and "match_prefix s key = Some (vals, n, s')"
  shows "tree_kept s s'"
  using match_prefix_spec [OF assms(1), of key] match_prefix_keeps [OF assms] assms(2) by (auto simp: tree_kept_def)

lemma prefix_match_loop_ok:
  assumes "radix_reach tree R" and "radix_reach wt {#}" and "rx_page_size wt = 1"
    and "\<forall>q\<in>set qs. max_new_set q"
  shows "\<exists>qs' dep' tree' wt'. prefix_match_loop tree wt dep qs = Some (Inr (qs', dep', tree', wt')) \<and>
     radix_reach tree' R \<and> radix_reach wt' {#} \<and> rx_page_size wt' = 1 \<and>
     tree_kept tree tree' \<and> list_all2 (matched_as tree') qs qs' \<and> list_all2 (best_prefix (cached tree)) qs qs' \<and>
     set dep' \<subseteq> set dep \<union> {lq_rid q | q. q \<in> set qs' \<and> length (cr_prefix_indices q) \<le> in_batch_check_threshold}"
  using assms
proof (induction qs arbitrary: tree wt dep)
  case Nil
  then show ?case by simp
next
  case (Cons q qs)
  obtain k where adj: "adjust_max_prefix_ids q = Inr (take k (cr_origin_input_ids q @ cr_output_ids q),
      q\<lparr>cr_fill_ids := cr_origin_input_ids q @ cr_output_ids q\<rparr>)"
    using adjust_max_prefix_ids_ok Cons.prems(4) by (metis list.set_intros(1))
  define key where "key = take k (cr_origin_input_ids q @ cr_output_ids q)"
  have adj': "adjust_max_prefix_ids q = Inr (key, q\<lparr>cr_fill_ids := cr_origin_input_ids q @ cr_output_ids q\<rparr>)"
    unfolding key_def by (rule adj)
  obtain ks vals n t1 where m: "match_prefix tree key = Some (vals, n, t1)" "longest_cached (cached tree) key ks vals"
    "at_node t1 n ks vals" "cached t1 = cached tree"
    using match_prefix_spec [OF Cons.prems(1), of key] by blast
  have r1: "radix_reach t1 R" by (rule rr_match [OF Cons.prems(1) m(1)])
  let ?in_batch = "if length vals \<le> in_batch_check_threshold
     then (case match_prefix wt key of None \<Rightarrow> None
           | Some (matching, _, wt1) \<Rightarrow>
               if in_batch_deprioritize_threshold \<le> length matching then Some (dep @ [lq_rid q], wt1)
               else (case rx_insert wt1 key (Some (replicate (length key) 0)) of None \<Rightarrow> None | Some (_, wt2) \<Rightarrow> Some (dep, wt2)))
     else Some (dep, wt)"
  have "\<exists>dep1 wt1. ?in_batch = Some (dep1, wt1) \<and> radix_reach wt1 {#} \<and> rx_page_size wt1 = 1 \<and>
      set dep1 \<subseteq> set dep \<union> (if length vals \<le> in_batch_check_threshold then {lq_rid q} else {})"
  proof (cases "length vals \<le> in_batch_check_threshold")
    case True
    obtain vs' n' w1 where w: "match_prefix wt key = Some (vs', n', w1)"
      using match_prefix_spec [OF Cons.prems(2), of key] by blast
    have rw: "radix_reach w1 {#}" "rx_page_size w1 = 1"
      using rr_match [OF Cons.prems(2) w] match_prefix_keeps(2) [OF Cons.prems(2) w] Cons.prems(3) by simp_all
    obtain j w2 where i: "rx_insert w1 key (Some (replicate (length key) 0)) = Some (j, w2)" "rx_page_size w2 = rx_page_size w1"
      using insert_keeps_page_size [OF rw(1), of key "replicate (length key) 0"] rw(2) by auto
    have "radix_reach w2 {#}" by (rule rr_insert [OF rw(1) _ _ i(1)]) (simp_all add: rw(2))
    then show ?thesis using True w rw i by auto
  qed (use Cons.prems in simp)
  then obtain dep1 wt1 where ib: "?in_batch = Some (dep1, wt1)" "radix_reach wt1 {#}" "rx_page_size wt1 = 1"
    "set dep1 \<subseteq> set dep \<union> (if length vals \<le> in_batch_check_threshold then {lq_rid q} else {})" by blast
  obtain qs' dep' tree' wt' where rest: "prefix_match_loop t1 wt1 dep1 qs = Some (Inr (qs', dep', tree', wt'))"
     "radix_reach tree' R" "radix_reach wt' {#}" "rx_page_size wt' = 1"
     "tree_kept t1 tree'" "list_all2 (matched_as tree') qs qs'" "list_all2 (best_prefix (cached tree)) qs qs'"
     "set dep' \<subseteq> set dep1 \<union> {lq_rid q | q. q \<in> set qs' \<and> length (cr_prefix_indices q) \<le> in_batch_check_threshold}"
    unfolding m(4) [symmetric] using Cons.IH [OF r1 ib(2,3), of dep1] Cons.prems(4) by auto
  let ?q = "q\<lparr>cr_fill_ids := cr_origin_input_ids q @ cr_output_ids q, cr_prefix_indices := vals, cr_last_node := n\<rparr>"
  have run: "prefix_match_loop tree wt dep (q # qs) = Some (Inr (?q # qs', dep', tree', wt'))"
    using ib(1) rest(1) by (simp add: adj' m(1) Let_def cong: if_cong)
  have "prefix ks (cr_origin_input_ids q @ cr_output_ids q)"
    using m(2) take_is_prefix prefix_order.trans unfolding longest_cached_def key_def by blast
  then have "matched_as tree' q ?q"
    using rest(5) m(3) unfolding matched_as_def tree_kept_def by (intro exI [of _ ks]) simp
  moreover have "best_prefix (cached tree) q ?q"
    using adj' m(2) unfolding best_prefix_def by auto
  moreover have "set dep' \<subseteq> set dep \<union>
      {lq_rid r | r. r \<in> set (?q # qs') \<and> length (cr_prefix_indices r) \<le> in_batch_check_threshold}"
      (is "_ \<subseteq> _ \<union> ?low")
  proof -
    have "lq_rid q \<in> ?low" if "length vals \<le> in_batch_check_threshold"
      using that by (intro CollectI exI [of _ ?q]) simp
    then have "(if length vals \<le> in_batch_check_threshold then {lq_rid q} else {}) \<subseteq> ?low"
      by (simp only: split: if_split) blast
    then have "set dep1 \<subseteq> set dep \<union> ?low"
      using ib(4) by (meson Un_mono order.trans subset_refl)
    moreover have "{lq_rid q | q. q \<in> set qs' \<and> length (cr_prefix_indices q) \<le> in_batch_check_threshold} \<subseteq> ?low"
      by auto
    ultimately show ?thesis
      using rest(8) by (meson Un_least Un_upper2 order.trans)
  qed
  ultimately show ?case
    using run rest(1-7) tree_kept_trans [OF tree_kept_match [OF Cons.prems(1) m(1)] rest(5)]
    by (intro exI [of _ "?q # qs'"] exI [of _ dep'] exI [of _ tree'] exI [of _ wt']) (simp del: prefix_match_loop.simps)
qed

section \<open>Depth-first order\<close>

definition weight_below :: "nat set \<Rightarrow> (nat \<Rightarrow> nat list) \<Rightarrow> (nat \<Rightarrow> nat) \<Rightarrow> nat \<Rightarrow> nat" where
  "weight_below L P w x = (\<Sum>m\<in>below_set L P x. w m)"

lemma below_mono: "n \<in> below_set L P x \<Longrightarrow> below_set L P n \<subseteq> below_set L P x"
  by (auto simp: below_set_def intro: prefix_order.trans)

lemma below_self: "x \<in> L \<Longrightarrow> x \<in> below_set L P x"
  by (simp add: below_set_def)

lemma weight_below_cong: "(\<And>m. m \<in> below_set L P x \<Longrightarrow> w m = w' m) \<Longrightarrow> weight_below L P w x = weight_below L P w' x"
  unfolding weight_below_def by (rule sum.cong) simp_all

lemma weight_below_children:
  assumes ok: "tree_ok s L P V" and x: "x \<in> L"
  shows "weight_below L P w x = w x + (\<Sum>c\<in>{c. child_of s x c}. weight_below L P w c)"
proof -
  have fin: "finite {c. child_of s x c}"
    using tree_child_of(1) [OF ok x] by (intro finite_subset [OF _ tree_finite [OF ok]]) auto
  have "(\<Sum>m\<in>(\<Union>c\<in>{c. child_of s x c}. below_set L P c). w m) = (\<Sum>c\<in>{c. child_of s x c}. weight_below L P w c)"
    unfolding weight_below_def
    by (rule sum.UNION_disjoint) (use fin finite_below [OF ok] below_children(4) [OF ok x] in auto)
  moreover have "x \<notin> (\<Union>c\<in>{c. child_of s x c}. below_set L P c)"
    using below_children(3) [OF ok x] by blast
  moreover have "finite (\<Union>c\<in>{c. child_of s x c}. below_set L P c)"
    using fin finite_below [OF ok] by blast
  ultimately show ?thesis
    unfolding weight_below_def [of L P w x] below_children(1) [OF ok x] by simp
qed

text \<open>\<open>_calc_weight\<close> ends and adds up the weights below every node.\<close>

lemma calc_weight_sums:
  assumes ok: "tree_ok s L P V"
  shows "x \<in> L \<Longrightarrow> calc_weight s x (map snd (rx_children s x)) w =
     Some (\<lambda>n. if n \<in> below_set L P x then weight_below L P w n else w n)"
proof (induction "card (below_set L P x)" arbitrary: x w rule: less_induct)
  case less
  have IH: "calc_weight s c (map snd (rx_children s c)) w =
      Some (\<lambda>n. if n \<in> below_set L P c then weight_below L P w n else w n)" if "child_of s x c" for c w
    using less.hyps tree_child_of(1) [OF ok less.prems that]
      psubset_card_mono [OF finite_below [OF ok] below_children(2) [OF ok less.prems that]] by blast
  have lists: "calc_weight s x cs w = Some (\<lambda>n. if n = x then w x + (\<Sum>c\<in>set cs. weight_below L P w c)
        else if n \<in> (\<Union>c\<in>set cs. below_set L P c) then weight_below L P w n else w n)"
    if "\<forall>c\<in>set cs. child_of s x c" "distinct cs" for cs
    using that
  proof (induction cs arbitrary: w)
    case Nil
    then show ?case by (auto simp: calc_weight.simps)
  next
    case (Cons c cs)
    let ?w1 = "\<lambda>n. if n \<in> below_set L P c then weight_below L P w n else w n"
    let ?w2 = "?w1(x := ?w1 x + ?w1 c)"
    have c: "child_of s x c" "x \<notin> below_set L P c" "c \<in> below_set L P c"
      using Cons.prems below_children(3) [OF ok less.prems] below_self tree_child_of(1) [OF ok less.prems] by auto
    have run: "calc_weight s x (c # cs) w = calc_weight s x cs ?w2"
      using IH [OF c(1)] by (subst calc_weight.simps) simp
    have same: "weight_below L P ?w2 n = weight_below L P w n" "n \<noteq> x" "n \<notin> below_set L P c"
      if "d \<in> set cs" "n \<in> below_set L P d" for d n
    proof -
      have d: "child_of s x d" "c \<noteq> d"
        using Cons.prems that(1) by auto
      have "x \<notin> below_set L P d" "below_set L P c \<inter> below_set L P d = {}"
        using below_children(3,4) [OF ok less.prems] c(1) d by blast+
      then have "m \<noteq> x \<and> m \<notin> below_set L P c" if "m \<in> below_set L P d" for m
        using that by blast
      then show "weight_below L P ?w2 n = weight_below L P w n" "n \<noteq> x" "n \<notin> below_set L P c"
        using that(2) below_mono [OF that(2)] by (auto intro!: weight_below_cong)
    qed
    have self: "d \<in> below_set L P d" if "d \<in> set cs" for d
      using Cons.prems(1) that tree_child_of(1) [OF ok less.prems] by (intro below_self) auto
    have "(\<Sum>d\<in>set cs. weight_below L P ?w2 d) = (\<Sum>d\<in>set cs. weight_below L P w d)"
      using same(1) self by (intro sum.cong) auto
    moreover have "c \<notin> set cs"
      using Cons.prems(2) by simp
    moreover have "calc_weight s x cs ?w2 = Some (\<lambda>n. if n = x then ?w2 x + (\<Sum>d\<in>set cs. weight_below L P ?w2 d)
        else if n \<in> (\<Union>d\<in>set cs. below_set L P d) then weight_below L P ?w2 n else ?w2 n)"
      using Cons by simp
    ultimately show ?case
      unfolding run using c same by (auto simp: fun_eq_iff)
  qed
  have kids: "set (map snd (rx_children s x)) = {c. child_of s x c}"
    using child_iff [OF ok less.prems] by auto
  have self: "x \<in> below_set L P x"
    by (rule below_self) (rule less.prems)
  show ?case
    using lists [of "map snd (rx_children s x)"] children_distinct [OF ok less.prems] self
    unfolding kids weight_below_children [OF ok less.prems, of w, symmetric] below_children(1) [OF ok less.prems]
    by (auto simp: fun_eq_iff weight_below_children [OF ok less.prems, of w])
qed

text \<open>The nodes in the order of the search: every subtree is one block of it.\<close>

definition subtree_blocks :: "nat set \<Rightarrow> (nat \<Rightarrow> nat list) \<Rightarrow> nat set \<Rightarrow> nat list \<Rightarrow> bool" where
  "subtree_blocks L P N ys \<longleftrightarrow> distinct ys \<and> set ys = N \<and>
     (\<forall>n\<in>N. \<exists>a b c. ys = a @ b @ c \<and> set b = below_set L P n)"

text \<open>
  In a list the elements of \<open>A\<close> stand before those of \<open>B\<close>.
\<close>

definition placed_before :: "('a \<Rightarrow> bool) \<Rightarrow> ('a \<Rightarrow> bool) \<Rightarrow> 'a list \<Rightarrow> bool" where
  "placed_before A B xs \<longleftrightarrow> (\<exists>a b. xs = a @ b \<and> (\<forall>r\<in>set b. \<not> A r) \<and> (\<forall>r\<in>set a. \<not> B r))"

lemma placed_before_split: "\<forall>r\<in>set ys. \<not> B r \<Longrightarrow> \<forall>r\<in>set zs. \<not> A r \<Longrightarrow> placed_before A B (ys @ zs)"
  unfolding placed_before_def by blast

lemma placed_before_left: "placed_before A B xs \<Longrightarrow> \<forall>r\<in>set zs. \<not> A r \<Longrightarrow> placed_before A B (xs @ zs)"
proof -
  assume zs: "\<forall>r\<in>set zs. \<not> A r" and "placed_before A B xs"
  then obtain a b where ab: "xs = a @ b" "\<forall>r\<in>set b. \<not> A r" "\<forall>r\<in>set a. \<not> B r"
    unfolding placed_before_def by blast
  show ?thesis
    unfolding placed_before_def by (rule exI [of _ a], rule exI [of _ "b @ zs"]) (use ab zs in auto)
qed

lemma placed_before_right: "placed_before A B xs \<Longrightarrow> \<forall>r\<in>set ys. \<not> B r \<Longrightarrow> placed_before A B (ys @ xs)"
proof -
  assume ys: "\<forall>r\<in>set ys. \<not> B r" and "placed_before A B xs"
  then obtain a b where ab: "xs = a @ b" "\<forall>r\<in>set b. \<not> A r" "\<forall>r\<in>set a. \<not> B r"
    unfolding placed_before_def by blast
  show ?thesis
    unfolding placed_before_def by (rule exI [of _ "ys @ a"], rule exI [of _ b]) (use ab ys in auto)
qed

lemma placed_before_concat:
  "placed_before A B ys \<Longrightarrow> placed_before (\<lambda>r. A (g r)) (\<lambda>r. B (g r)) (concat (map (\<lambda>n. filter (\<lambda>r. g r = n) qs) ys))"
  unfolding placed_before_def by (elim exE conjE, rule exI, rule exI, rule conjI, simp only: map_append concat_append) auto

text \<open>
  The order of the search: a branch before the node it hangs from, and of two branches the
  heavier one first.
\<close>

definition dfs_order :: "radix \<Rightarrow> nat set \<Rightarrow> (nat \<Rightarrow> nat list) \<Rightarrow> (nat \<Rightarrow> nat) \<Rightarrow> nat set \<Rightarrow> nat list \<Rightarrow> bool" where
  "dfs_order s L P w N ys \<longleftrightarrow> (\<forall>p\<in>N. \<forall>c. child_of s p c \<longrightarrow>
     placed_before (\<lambda>n. n \<in> below_set L P c) (\<lambda>n. n = p) ys \<and>
     (\<forall>d. child_of s p d \<and> w d < w c \<longrightarrow> placed_before (\<lambda>n. n \<in> below_set L P c) (\<lambda>n. n \<in> below_set L P d) ys))"

lemma dfs_order_left:
  assumes "dfs_order s L P w N ys" and "set zs \<inter> (\<Union>p\<in>N. \<Union>c\<in>{c. child_of s p c}. below_set L P c) = {}"
  shows "dfs_order s L P w N (ys @ zs)"
  unfolding dfs_order_def
proof (intro ballI allI impI conjI)
  fix p c assume pc: "p \<in> N" "child_of s p c"
  then have zs: "\<forall>r\<in>set zs. r \<notin> below_set L P c"
    using assms(2) by blast
  show "placed_before (\<lambda>n. n \<in> below_set L P c) (\<lambda>n. n = p) (ys @ zs)"
    using assms(1) pc zs unfolding dfs_order_def by (intro placed_before_left) auto
  fix d assume "child_of s p d \<and> w d < w c"
  then show "placed_before (\<lambda>n. n \<in> below_set L P c) (\<lambda>n. n \<in> below_set L P d) (ys @ zs)"
    using assms(1) pc zs unfolding dfs_order_def by (intro placed_before_left) auto
qed

lemma dfs_order_right:
  assumes "dfs_order s L P w N ys" and "set zs \<inter> (N \<union> (\<Union>p\<in>N. \<Union>c\<in>{c. child_of s p c}. below_set L P c)) = {}"
  shows "dfs_order s L P w N (zs @ ys)"
  unfolding dfs_order_def
proof (intro ballI allI impI conjI)
  fix p c assume pc: "p \<in> N" "child_of s p c"
  show "placed_before (\<lambda>n. n \<in> below_set L P c) (\<lambda>n. n = p) (zs @ ys)"
    using assms pc unfolding dfs_order_def by (intro placed_before_right) auto
  fix d assume d: "child_of s p d \<and> w d < w c"
  then have "\<forall>r\<in>set zs. r \<notin> below_set L P d"
    using assms(2) pc(1) by blast
  then show "placed_before (\<lambda>n. n \<in> below_set L P c) (\<lambda>n. n \<in> below_set L P d) (zs @ ys)"
    using assms(1) pc d unfolding dfs_order_def by (intro placed_before_right) auto
qed

lemma dfs_order_union: "dfs_order s L P w M ys \<Longrightarrow> dfs_order s L P w N ys \<Longrightarrow> dfs_order s L P w (M \<union> N) ys"
  by (simp add: dfs_order_def ball_Un)

lemma branches_below:
  assumes "tree_ok s L P V" and "N = (\<Union>c\<in>C. below_set L P c)"
  shows "(\<Union>p\<in>N. \<Union>c\<in>{c. child_of s p c}. below_set L P c) \<subseteq> N"
proof -
  have "below_set L P c \<subseteq> N" if "p \<in> N" "child_of s p c" for p c
  proof -
    obtain d where d: "d \<in> C" "p \<in> below_set L P d"
      using \<open>p \<in> N\<close> unfolding assms(2) by (rule UN_E)
    have "p \<in> L"
      using d(2) by (simp add: below_set_def)
    from below_children(2) [OF assms(1) this that(2)] have "below_set L P c \<subseteq> below_set L P p"
      by (rule psubset_imp_subset)
    also have "\<dots> \<subseteq> below_set L P d"
      by (rule below_mono [OF d(2)])
    also have "\<dots> \<subseteq> N"
      unfolding assms(2) using d(1) by (rule UN_upper)
    finally show ?thesis .
  qed
  then show ?thesis
    by (intro UN_least) simp
qed

lemma dfs_visit:
  assumes ok: "tree_ok s L P V"
  shows "x \<in> L \<Longrightarrow> \<exists>ys. subtree_blocks L P (below_set L P x) ys \<and> dfs_order s L P w (below_set L P x) ys \<and>
     (\<forall>ns q. get_dfs_priority s w f (x # ns) q = get_dfs_priority s w f ns (q @ concat (map f ys)))"
proof (induction "card (below_set L P x)" arbitrary: x rule: less_induct)
  case less
  have IH: "\<exists>ys. subtree_blocks L P (below_set L P c) ys \<and> dfs_order s L P w (below_set L P c) ys \<and>
     (\<forall>ns q. get_dfs_priority s w f (c # ns) q = get_dfs_priority s w f ns (q @ concat (map f ys)))"
    if "child_of s x c" for c
    using less.hyps tree_child_of(1) [OF ok less.prems that]
      psubset_card_mono [OF finite_below [OF ok] below_children(2) [OF ok less.prems that]] by blast
  have lists: "\<exists>ys. subtree_blocks L P (\<Union>c\<in>set cs. below_set L P c) ys \<and>
     dfs_order s L P w (\<Union>c\<in>set cs. below_set L P c) ys \<and>
     (\<forall>c\<in>set cs. \<forall>d\<in>set cs. w d < w c \<longrightarrow> placed_before (\<lambda>n. n \<in> below_set L P c) (\<lambda>n. n \<in> below_set L P d) ys) \<and>
     (\<forall>ns q. get_dfs_priority s w f (cs @ ns) q = get_dfs_priority s w f ns (q @ concat (map f ys)))"
    if "\<forall>c\<in>set cs. child_of s x c" "distinct cs" "sorted_wrt (\<lambda>c d. w d \<le> w c) cs" for cs
    using that
  proof (induction cs)
    case Nil
    then show ?case by (auto simp: subtree_blocks_def dfs_order_def)
  next
    case (Cons c cs)
    let ?C = "below_set L P c" and ?N = "\<Union>c\<in>set cs. below_set L P c"
    obtain ys where ys: "subtree_blocks L P ?C ys" "dfs_order s L P w ?C ys"
      "\<And>ns q. get_dfs_priority s w f (c # ns) q = get_dfs_priority s w f ns (q @ concat (map f ys))"
      using IH [of c] Cons.prems by auto
    obtain zs where zs: "subtree_blocks L P ?N zs" "dfs_order s L P w ?N zs"
      "\<forall>c\<in>set cs. \<forall>d\<in>set cs. w d < w c \<longrightarrow> placed_before (\<lambda>n. n \<in> below_set L P c) (\<lambda>n. n \<in> below_set L P d) zs"
      "\<And>ns q. get_dfs_priority s w f (cs @ ns) q = get_dfs_priority s w f ns (q @ concat (map f zs))"
      using Cons by auto
    have disj: "?C \<inter> ?N = {}"
      using below_children(4) [OF ok less.prems, of c] Cons.prems by fastforce
    have sets: "set ys = ?C" "set zs = ?N"
      using ys(1) zs(1) by (simp_all add: subtree_blocks_def)
    have "\<exists>a b d. ys @ zs = a @ b @ d \<and> set b = below_set L P n" if "n \<in> ?C \<union> ?N" for n
      using that ys(1) zs(1) unfolding subtree_blocks_def by (metis Un_iff append.assoc)
    then have blocks: "subtree_blocks L P (\<Union>c\<in>set (c # cs). below_set L P c) (ys @ zs)"
      using ys(1) zs(1) disj by (simp add: subtree_blocks_def)
    have "(\<Union>p\<in>?C. \<Union>c\<in>{c. child_of s p c}. below_set L P c) \<subseteq> ?C"
      by (rule branches_below [OF ok, of _ "{c}"]) simp
    then have "set zs \<inter> (\<Union>p\<in>?C. \<Union>c\<in>{c. child_of s p c}. below_set L P c) = {}"
      using disj unfolding sets by blast
    then have "dfs_order s L P w ?C (ys @ zs)"
      by (rule dfs_order_left [OF ys(2)])
    moreover have "set ys \<inter> (?N \<union> (\<Union>p\<in>?N. \<Union>c\<in>{c. child_of s p c}. below_set L P c)) = {}"
      using branches_below [OF ok refl, of "set cs"] disj unfolding sets by blast
    then have "dfs_order s L P w ?N (ys @ zs)"
      by (rule dfs_order_right [OF zs(2)])
    ultimately have order: "dfs_order s L P w (\<Union>c\<in>set (c # cs). below_set L P c) (ys @ zs)"
      using dfs_order_union by simp
    have "placed_before (\<lambda>n. n \<in> below_set L P b) (\<lambda>n. n \<in> below_set L P d) (ys @ zs)"
      if bd: "b \<in> set (c # cs)" "d \<in> set (c # cs)" "w d < w b" for b d
    proof (cases "b = c")
      case True
      then have "d \<in> set cs" using bd by auto
      then show ?thesis
        using disj sets True by (intro placed_before_split) auto
    next
      case False
      then have b: "b \<in> set cs" "d \<in> set cs"
        using bd Cons.prems(3) by auto
      then show ?thesis
        using zs(3) bd(3) disj sets by (intro placed_before_right) auto
    qed
    then show ?case using blocks order ys(3) zs(4) by (intro exI [of _ "ys @ zs"]) simp
  qed
  let ?cs = "sort_key (\<lambda>c. - int (w c)) (map snd (rx_children s x))"
  have cs: "\<forall>c\<in>set ?cs. child_of s x c" "distinct ?cs" "set ?cs = {c. child_of s x c}"
    using child_iff [OF ok less.prems] children_distinct [OF ok less.prems] by auto
  have "sorted (map (\<lambda>c. - int (w c)) ?cs)"
    by (rule sorted_sort_key)
  then have heavy: "sorted_wrt (\<lambda>c d. w d \<le> w c) ?cs"
    by (simp add: sorted_wrt_map)
  obtain ys where ys: "subtree_blocks L P (\<Union>c\<in>set ?cs. below_set L P c) ys"
    "dfs_order s L P w (\<Union>c\<in>set ?cs. below_set L P c) ys"
    "\<forall>c\<in>set ?cs. \<forall>d\<in>set ?cs. w d < w c \<longrightarrow> placed_before (\<lambda>n. n \<in> below_set L P c) (\<lambda>n. n \<in> below_set L P d) ys"
    "\<And>ns q. get_dfs_priority s w f (?cs @ ns) q = get_dfs_priority s w f ns (q @ concat (map f ys))"
    using lists [OF cs(1,2) heavy] by blast
  have below: "below_set L P x = insert x (\<Union>c\<in>set ?cs. below_set L P c)" "x \<notin> (\<Union>c\<in>set ?cs. below_set L P c)"
    using below_children(1,3) [OF ok less.prems] cs(3) by auto
  have set_ys: "set ys = (\<Union>c\<in>set ?cs. below_set L P c)"
    using ys(1) by (simp add: subtree_blocks_def)
  have "\<exists>a b d. ys @ [x] = a @ b @ d \<and> set b = below_set L P n" if "n \<in> below_set L P x" for n
  proof (cases "n = x")
    case True
    then show ?thesis using ys(1) below(1) by (intro exI [of _ "[]"] exI [of _ "ys @ [x]"]) (auto simp: subtree_blocks_def)
  next
    case False
    then have "n \<in> (\<Union>c\<in>set ?cs. below_set L P c)" using that below(1) by blast
    then obtain a b d where "ys = a @ b @ d" "set b = below_set L P n"
      using ys(1) unfolding subtree_blocks_def by blast
    then show ?thesis by (intro exI [of _ a] exI [of _ b] exI [of _ "d @ [x]"]) simp
  qed
  then have blocks: "subtree_blocks L P (below_set L P x) (ys @ [x])"
    using ys(1) below by (simp add: subtree_blocks_def)
  have "dfs_order s L P w (\<Union>c\<in>set ?cs. below_set L P c) (ys @ [x])"
    using branches_below [OF ok refl, of "set ?cs"] below(2) by (intro dfs_order_left [OF ys(2)]) auto
  moreover have "dfs_order s L P w {x} (ys @ [x])"
    unfolding dfs_order_def
  proof (intro ballI allI impI conjI)
    fix p c assume pc: "p \<in> {x}" "child_of s p c"
    then have c: "c \<in> set ?cs" "x \<notin> below_set L P c"
      using cs(3) below(2) by auto
    then show "placed_before (\<lambda>n. n \<in> below_set L P c) (\<lambda>n. n = p) (ys @ [x])"
      using pc(1) below(2) set_ys by (intro placed_before_split) auto
    fix d assume d: "child_of s p d \<and> w d < w c"
    then have "d \<in> set ?cs"
      using pc(1) unfolding cs(3) by simp
    from ys(3) [rule_format, OF c(1) this] d c(2) show "placed_before (\<lambda>n. n \<in> below_set L P c) (\<lambda>n. n \<in> below_set L P d) (ys @ [x])"
      by (intro placed_before_left) simp_all
  qed
  ultimately have order: "dfs_order s L P w (below_set L P x) (ys @ [x])"
    unfolding below(1) using dfs_order_union by (metis insert_is_Un sup_commute)
  have "get_dfs_priority s w f (x # ns) q = get_dfs_priority s w f ns (q @ concat (map f (ys @ [x])))" for ns q
    using ys(4) [of "[]" q] by (subst get_dfs_priority.simps) (simp add: get_dfs_priority.simps [of s w f "[]"])
  then show ?case using blocks order by blast
qed

definition under :: "radix \<Rightarrow> nat list \<Rightarrow> latent_req \<Rightarrow> bool" where
  "under tree ks q \<longleftrightarrow> (\<exists>ks' vs'. at_node tree (cr_last_node q) ks' vs' \<and> prefix ks ks')"

lemma mset_concat_filter:
  assumes "distinct ys" and "\<forall>q\<in>set qs. f q \<in> set ys"
  shows "mset (concat (map (\<lambda>n. filter (\<lambda>q. f q = n) qs) ys)) = mset qs"
  using assms(2)
proof (induction qs)
  case Nil
  then show ?case by (induction ys) simp_all
next
  case (Cons q qs)
  have "mset (concat (map (\<lambda>n. filter (\<lambda>r. f r = n) (q # qs)) zs)) =
      mset (concat (map (\<lambda>n. filter (\<lambda>r. f r = n) qs) zs)) + (if f q \<in> set zs then {#q#} else {#})" if "distinct zs" for zs
    using that by (induction zs) auto
  from this [OF assms(1)] show ?case using Cons by auto
qed

lemma sum_filter_lengths:
  "finite N \<Longrightarrow> (\<Sum>m\<in>N. length (filter (\<lambda>r. g r = m) qs)) = length (filter (\<lambda>r. g r \<in> N) qs)"
proof (induction qs)
  case Nil
  then show ?case by simp
next
  case (Cons a qs)
  have "length (filter (\<lambda>r. g r = m) (a # qs)) = (if m = g a then 1 else 0) + length (filter (\<lambda>r. g r = m) qs)" for m
    by simp
  then show ?case
    using Cons by (simp only: sum.distrib sum.delta) simp
qed

text \<open>
  The queue in depth-first order: at every node \<open>p\<close> of the tree the requests below a child stand
  before those of \<open>p\<close> itself, and before those below another child that has fewer requests below it.
\<close>

definition heaviest_branch_first :: "radix \<Rightarrow> latent_req list \<Rightarrow> bool" where
  "heaviest_branch_first tree q \<longleftrightarrow> (\<forall>p kp vp c kc vc. at_node tree p kp vp \<and> child_of tree p c \<and> at_node tree c kc vc \<longrightarrow>
     placed_before (under tree kc) (\<lambda>r. cr_last_node r = p) q \<and>
     (\<forall>d kd vd. child_of tree p d \<and> at_node tree d kd vd \<and>
        length (filter (under tree kd) q) < length (filter (under tree kc) q) \<longrightarrow>
        placed_before (under tree kc) (under tree kd) q))"

lemma sort_by_dfs_weight_ok:
  assumes "radix_reach tree R" and "\<forall>q\<in>set queue. \<exists>ks vs. at_node tree (cr_last_node q) ks vs"
  shows "\<exists>q. sort_by_dfs_weight tree queue = Some q \<and> mset q = mset queue \<and>
     (\<forall>n ks vs. at_node tree n ks vs \<longrightarrow> (\<exists>a b c. q = a @ b @ c \<and>
        (\<forall>r\<in>set b. under tree ks r) \<and> (\<forall>r\<in>set a \<union> set c. \<not> under tree ks r))) \<and>
     heaviest_branch_first tree q"
proof -
  obtain L P V where ok: "radix_ok tree L P V R" using radix_reach_ok [OF assms(1)] by blast
  note T = radix_okD(2) [OF ok]
  let ?f = "\<lambda>n. filter (\<lambda>r. cr_last_node r = n) queue"
  let ?w = "\<lambda>n. if n \<in> L then weight_below L P (\<lambda>n. length (?f n)) n else length (?f n)"
  have w: "calc_weight tree (rx_root tree) (map snd (rx_children tree (rx_root tree))) (\<lambda>n. length (?f n)) = Some ?w"
    using calc_weight_sums [OF T tree_root [OF T]] unfolding below_root [OF T] .
  obtain ys where ys: "subtree_blocks L P L ys" "dfs_order tree L P ?w L ys"
    "\<And>ns q. get_dfs_priority tree ?w ?f (rx_root tree # ns) q = get_dfs_priority tree ?w ?f ns (q @ concat (map ?f ys))"
    using dfs_visit [OF T tree_root [OF T], of ?w ?f] unfolding below_root [OF T] by blast
  let ?q = "concat (map ?f ys)"
  have run: "sort_by_dfs_weight tree queue = Some ?q"
    unfolding sort_by_dfs_weight_def Let_def w ys(3) option.case by (simp add: get_dfs_priority.simps)
  have "\<forall>r\<in>set queue. cr_last_node r \<in> set ys"
    using assms(2) ys(1) at_node_iff [OF T] by (auto simp: subtree_blocks_def)
  then have perm: "mset ?q = mset queue"
    using ys(1) by (intro mset_concat_filter) (simp_all add: subtree_blocks_def)
  have iff: "under tree (P n) = (\<lambda>r. cr_last_node r \<in> below_set L P n)" for n
    by (auto simp: under_def below_set_def at_node_iff [OF T] fun_eq_iff)
  have blocks: "\<exists>a b c. ?q = a @ b @ c \<and> (\<forall>r\<in>set b. under tree ks r) \<and> (\<forall>r\<in>set a \<union> set c. \<not> under tree ks r)"
    if n: "at_node tree n ks vs" for n ks vs
  proof -
    have nL: "n \<in> L" "P n = ks" using n at_node_iff [OF T] by auto
    obtain a b c where abc: "ys = a @ b @ c" "set b = below_set L P n"
      using ys(1) nL(1) unfolding subtree_blocks_def by blast
    have sets: "set a \<union> set c = L - below_set L P n"
      using ys(1) abc unfolding subtree_blocks_def by auto
    show ?thesis
      unfolding nL(2) [symmetric] iff using abc sets
      by (intro exI [of _ "concat (map ?f a)"] exI [of _ "concat (map ?f b)"] exI [of _ "concat (map ?f c)"]) auto
  qed
  have weight: "length (filter (under tree (P n)) ?q) = ?w n" if "n \<in> L" for n
  proof -
    have "length (filter (under tree (P n)) ?q) = length (filter (under tree (P n)) queue)"
      using perm by (metis mset_filter size_mset)
    then show ?thesis
      unfolding iff weight_below_def using that sum_filter_lengths [OF finite_below [OF T], of cr_last_node queue n] by simp
  qed
  have "heaviest_branch_first tree ?q"
    unfolding heaviest_branch_first_def
  proof (intro allI impI conjI)
    fix p kp vp c kc vc
    assume pc: "at_node tree p kp vp \<and> child_of tree p c \<and> at_node tree c kc vc"
    then have p: "p \<in> L" "c \<in> L" "kc = P c"
      using at_node_iff [OF T] by auto
    show "placed_before (under tree kc) (\<lambda>r. cr_last_node r = p) ?q"
      unfolding p(3) iff using ys(2) p(1) pc unfolding dfs_order_def by (intro placed_before_concat) blast
    fix d kd vd
    assume d: "child_of tree p d \<and> at_node tree d kd vd \<and> length (filter (under tree kd) ?q) < length (filter (under tree kc) ?q)"
    then have dL: "d \<in> L" "kd = P d"
      using at_node_iff [OF T] by auto
    have "length (filter (under tree (P d)) ?q) < length (filter (under tree (P c)) ?q)"
      using d unfolding p(3) dL(2) by blast
    then have "?w d < ?w c"
      unfolding weight [OF dL(1)] weight [OF p(2)] .
    moreover have "child_of tree p c" "child_of tree p d"
      using pc d by blast+
    ultimately have "placed_before (\<lambda>n. n \<in> below_set L P c) (\<lambda>n. n \<in> below_set L P d) ys"
      using ys(2) [unfolded dfs_order_def, THEN bspec, OF p(1), THEN spec, of c] by (elim impE conjE) blast+
    then show "placed_before (under tree kc) (under tree kd) ?q"
      unfolding p(3) dL(2) iff by (rule placed_before_concat)
  qed
  then show ?thesis using run perm blocks by blast
qed

section \<open>The order of the waiting queue\<close>

text \<open>\<open>ys\<close> is \<open>xs\<close> by descending \<open>f\<close>, and equal elements keep their order.\<close>

definition stable_descending :: "('a \<Rightarrow> int) \<Rightarrow> 'a list \<Rightarrow> 'a list \<Rightarrow> bool" where
  "stable_descending f xs ys \<longleftrightarrow> mset ys = mset xs \<and> sorted_wrt (\<lambda>r r'. f r' \<le> f r) ys \<and>
     (\<forall>k. filter (\<lambda>r. f r = k) ys = filter (\<lambda>r. f r = k) xs)"

lemma stable_descending_sort: "stable_descending f xs (sort_key (\<lambda>r. - f r) xs)"
proof -
  have "sorted (map (\<lambda>r. - f r) (sort_key (\<lambda>r. - f r) xs))"
    by (rule sorted_sort_key)
  then have "sorted_wrt (\<lambda>r r'. f r' \<le> f r) (sort_key (\<lambda>r. - f r) xs)"
    by (simp add: sorted_wrt_map)
  moreover have "filter (\<lambda>r. f r = k) (sort_key (\<lambda>r. - f r) xs) = filter (\<lambda>r. f r = k) xs" for k
    using sort_key_stable [of "\<lambda>r. - f r" "- k" xs] by simp
  ultimately show ?thesis
    by (simp add: stable_descending_def)
qed

text \<open>
  What a policy makes of the queue, whose requests are by then \<open>matched\<close>; \<open>dep\<close> are the ids that
  the in-batch check deprioritized.
\<close>

definition policy_order ::
  "(latent_req list \<Rightarrow> latent_req list) \<Rightarrow> sched_policy \<Rightarrow> radix \<Rightarrow> string list \<Rightarrow> latent_req list \<Rightarrow> latent_req list \<Rightarrow> bool" where
  "policy_order shuffle policy tree dep matched queue' = (case policy of
     LPM \<Rightarrow> (\<exists>a. queue' = a @ filter (\<lambda>r. lq_rid r \<in> set dep) matched \<and>
        stable_descending (\<lambda>r. int (length (cr_prefix_indices r))) (filter (\<lambda>r. lq_rid r \<notin> set dep) matched) a)
   | DFS_WEIGHT \<Rightarrow> heaviest_branch_first tree queue' \<and> (\<forall>n ks vs. at_node tree n ks vs \<longrightarrow>
        (\<exists>a b c. queue' = a @ b @ c \<and> (\<forall>r\<in>set b. under tree ks r) \<and> (\<forall>r\<in>set a \<union> set c. \<not> under tree ks r)))
   | FCFS \<Rightarrow> queue' = matched
   | LOF \<Rightarrow> stable_descending (\<lambda>r. the (sp_max_new_tokens (lq_params r))) matched queue'
   | RANDOM \<Rightarrow> queue' = shuffle matched)"

lemma sort_by_longest_prefix_ok:
  "mset (sort_by_longest_prefix dep q) = mset q" "policy_order shuffle LPM tree dep q (sort_by_longest_prefix dep q)"
proof -
  have "mset (filter (\<lambda>r. lq_rid r \<notin> set dep) q) + mset (filter (\<lambda>r. lq_rid r \<in> set dep) q) = mset q"
    by (induction q) auto
  then show "mset (sort_by_longest_prefix dep q) = mset q"
    by (simp add: sort_by_longest_prefix_def del: mset_filter)
  show "policy_order shuffle LPM tree dep q (sort_by_longest_prefix dep q)"
    using stable_descending_sort by (auto simp: policy_order_def sort_by_longest_prefix_def)
qed

lemma rx_reset_page_size: "rx_page_size (rx_reset s) = rx_page_size s"
  by (simp add: rx_reset_def tree_node_def upd_node_def)

lemma calc_priority_full:
  assumes "radix_reach tree R" and "radix_reach wt W" and "rx_page_size wt = 1"
    and "\<forall>q\<in>set queue. max_new_set q" and "\<forall>qs. mset (shuffle qs) = mset qs"
  shows "\<exists>queue' matched dep tree' wt'.
     calc_priority shuffle policy tree wt queue =
       Some (Inr (cache_aware (determine_active_policy policy queue), queue', tree', wt')) \<and>
     radix_reach tree' R \<and> tree_kept tree tree' \<and> (\<exists>W'. radix_reach wt' W') \<and> rx_page_size wt' = 1 \<and>
     mset queue' = mset matched \<and>
     (if cache_aware (determine_active_policy policy queue)
      then compute_prefix_matches tree wt queue = Some (Inr (matched, dep, tree', wt')) \<and>
        list_all2 (matched_as tree') queue matched \<and> list_all2 (best_prefix (cached tree)) queue matched \<and>
        set dep \<subseteq> {lq_rid q | q. q \<in> set matched \<and> length (cr_prefix_indices q) \<le> in_batch_check_threshold}
      else matched = queue) \<and>
     policy_order shuffle (determine_active_policy policy queue) tree' dep matched queue'"
proof -
  let ?act = "determine_active_policy policy queue"
  show ?thesis
  proof (cases "cache_aware ?act")
    case True
    then have pol: "policy \<noteq> FCFS" by (auto simp: determine_active_policy_def)
    have "radix_reach (rx_reset wt) {#}" "rx_page_size (rx_reset wt) = 1"
      using rr_reset [OF assms(2)] assms(3) by (simp_all add: rx_reset_page_size)
    from prefix_match_loop_ok [OF assms(1) this assms(4)]
    obtain qs dep tree' wt' where run: "compute_prefix_matches tree wt queue = Some (Inr (qs, dep, tree', wt'))"
      "radix_reach tree' R" "list_all2 (matched_as tree') queue qs" "tree_kept tree tree'" "radix_reach wt' {#}" "rx_page_size wt' = 1"
      "list_all2 (best_prefix (cached tree)) queue qs"
      "set dep \<subseteq> set [] \<union> {lq_rid q | q. q \<in> set qs \<and> length (cr_prefix_indices q) \<le> in_batch_check_threshold}"
      unfolding compute_prefix_matches_def by blast
    have "\<forall>q'\<in>set qs. \<exists>ks vs. at_node tree' (cr_last_node q') ks vs"
      using matched_as_node [OF run(3)] by blast
    from sort_by_dfs_weight_ok [OF run(2) this] obtain q where q: "sort_by_dfs_weight tree' qs = Some q" "mset q = mset qs"
      "policy_order shuffle DFS_WEIGHT tree' dep qs q"
      unfolding policy_order_def sched_policy.case by blast
    have act: "?act = LPM \<or> ?act = DFS_WEIGHT" using True by (cases ?act) simp_all
    have "\<exists>queue'. calc_priority shuffle policy tree wt queue = Some (Inr (True, queue', tree', wt')) \<and>
        mset queue' = mset qs \<and> policy_order shuffle ?act tree' dep qs queue'"
      using pol True act run(1) q sort_by_longest_prefix_ok(1) [of dep qs] sort_by_longest_prefix_ok(2) [of shuffle tree' dep qs]
      by (auto simp: calc_priority_def)
    then obtain queue' where o: "calc_priority shuffle policy tree wt queue = Some (Inr (True, queue', tree', wt'))"
      "mset queue' = mset qs" "policy_order shuffle ?act tree' dep qs queue'" by blast
    moreover have "\<exists>W'. radix_reach wt' W'" using run(5) by blast
    ultimately show ?thesis
      using True run by (intro exI [of _ queue'] exI [of _ qs] exI [of _ dep] exI [of _ tree'] exI [of _ wt']) simp
  next
    case False
    have "list_all (\<lambda>r. sp_max_new_tokens (lq_params r) \<noteq> None) queue"
      using assms(4) by (simp add: list_all_iff max_new_set_def)
    then have "\<exists>queue'. calc_priority shuffle policy tree wt queue = Some (Inr (False, queue', tree, wt)) \<and>
        mset queue' = mset queue \<and> policy_order shuffle ?act tree [] queue queue'"
      using False assms(5) stable_descending_sort
      by (cases ?act) (auto simp: calc_priority_def policy_order_def sort_by_longest_output_def determine_active_policy_def
          Let_def split: if_splits)
    then obtain queue' where "calc_priority shuffle policy tree wt queue = Some (Inr (False, queue', tree, wt))"
      "mset queue' = mset queue" "policy_order shuffle ?act tree [] queue queue'" by blast
    moreover have "\<exists>W'. radix_reach wt W'" using assms(2) by blast
    ultimately show ?thesis
      using False assms(1,3) by (intro exI [of _ queue'] exI [of _ queue] exI [of _ "[]"] exI [of _ tree] exI [of _ wt]) simp
  qed
qed

text \<open>What the scheduler's step needs of it.\<close>

lemma calc_priority_spec:
  assumes "radix_reach tree R" and "radix_reach wt W" and "rx_page_size wt = 1"
    and "\<forall>q\<in>set queue. max_new_set q" and "\<forall>qs. mset (shuffle qs) = mset qs"
  shows "\<exists>queue' matched tree' wt' W'.
     calc_priority shuffle policy tree wt queue =
       Some (Inr (cache_aware (determine_active_policy policy queue), queue', tree', wt')) \<and>
     radix_reach tree' R \<and> tree_kept tree tree' \<and> radix_reach wt' W' \<and> rx_page_size wt' = 1 \<and>
     mset queue' = mset matched \<and>
     (if cache_aware (determine_active_policy policy queue) then list_all2 (matched_as tree') queue matched else matched = queue)"
  using calc_priority_full [OF assms, of policy] by (auto split: if_splits)

text \<open>
  C10. Ordering the waiting queue loses and invents no request, under every policy, and orders it as the
  policy says.  If every request has its \<open>max_new_tokens\<close>, the call returns, and the new queue is a
  permutation of the old one.  Under a cache-aware policy each request has been given the longest prefix
  that the cache holds of the ids it may reuse, together with the node of that prefix; only requests with a
  prefix of at most 32 tokens are deprioritized.  First come first served leaves the order alone; longest
  output sorts by descending \<open>max_new_tokens\<close>, longest prefix by descending length of the prefix with the
  deprioritized requests last, both with ties in their old order; random is the shuffle; under the
  depth-first policy the requests below any cached prefix stand in one block, at every node the
  requests of a branch with more requests before those of a lighter one, and the requests of a node
  after those below it.
\<close>

theorem calc_priority_permutes:
  assumes "radix_reach tree R" and "radix_reach wt W" and "rx_page_size wt = 1"
    and "\<forall>q\<in>set queue. max_new_set q" and "\<forall>qs. mset (shuffle qs) = mset qs"
  shows "\<exists>queue' matched dep tree' wt'.
     calc_priority shuffle policy tree wt queue =
       Some (Inr (cache_aware (determine_active_policy policy queue), queue', tree', wt')) \<and>
     radix_reach tree' R \<and> mset queue' = mset matched \<and>
     (if cache_aware (determine_active_policy policy queue)
      then compute_prefix_matches tree wt queue = Some (Inr (matched, dep, tree', wt')) \<and>
        list_all2 (matched_as tree') queue matched \<and> list_all2 (best_prefix (cached tree)) queue matched \<and>
        set dep \<subseteq> {lq_rid q | q. q \<in> set matched \<and> length (cr_prefix_indices q) \<le> 32}
      else matched = queue) \<and>
     (case determine_active_policy policy queue of
        LPM \<Rightarrow> (\<exists>a. queue' = a @ filter (\<lambda>r. lq_rid r \<in> set dep) matched \<and>
          stable_descending (\<lambda>r. int (length (cr_prefix_indices r))) (filter (\<lambda>r. lq_rid r \<notin> set dep) matched) a)
      | DFS_WEIGHT \<Rightarrow> heaviest_branch_first tree' queue' \<and> (\<forall>n ks vs. at_node tree' n ks vs \<longrightarrow>
          (\<exists>a b c. queue' = a @ b @ c \<and> (\<forall>r\<in>set b. under tree' ks r) \<and> (\<forall>r\<in>set a \<union> set c. \<not> under tree' ks r)))
      | FCFS \<Rightarrow> queue' = matched
      | LOF \<Rightarrow> stable_descending (\<lambda>r. the (sp_max_new_tokens (lq_params r))) matched queue'
      | RANDOM \<Rightarrow> queue' = shuffle matched)"
  using calc_priority_full [OF assms, of policy] unfolding policy_order_def in_batch_check_threshold_def
  by (elim exE conjE) (intro exI conjI; assumption)

text \<open>An example: two waiting requests, the second with a cached prefix.\<close>

definition waiting_params :: sampling_params where
  "waiting_params = \<lparr>sp_max_new_tokens = Some 4, sp_stop_strs = NoStop, sp_stop_str_max_len = 0, sp_stop_token_ids = None,
     sp_temperature = Fin 1, sp_top_p = Fin 1, sp_top_k = 1, sp_min_p = Fin 0, sp_latent_mode = None,
     sp_latent_end_token_id = None, sp_gumbel_softmax_temperature = Fin 1, sp_noise_scale = Fin 1,
     sp_add_noise_gumbel_softmax = False, sp_use_one_sided_gumbel_noise = False, sp_one_sided_gumbel_delta = VInt 0,
     sp_frequency_penalty = Fin 0, sp_presence_penalty = Fin 0, sp_repetition_penalty = Fin 1, sp_min_new_tokens = 0,
     sp_json_schema = None, sp_regex = None, sp_ebnf = None, sp_ignore_eos = False\<rparr>"

definition waiting_req :: "string \<Rightarrow> nat list \<Rightarrow> latent_req" where
  "waiting_req rid ids = new_req rid ids waiting_params None None False 0 None False None"

lemma waiting_req_max_new: "max_new_set (waiting_req rid ids)"
  by (simp add: max_new_set_def waiting_req_def new_req_def waiting_params_def)

theorem calc_priority_permutes_witness:
  "\<exists>queue' tree' wt' dep matched a. calc_priority (\<lambda>qs. qs) LPM demo_cache (rx_init 1 False (\<lambda>n. n))
     [waiting_req ''a'' [9, 9], waiting_req ''b'' [1, 2, 5]] = Some (Inr (True, queue', tree', wt')) \<and> length queue' = 2 \<and>
     queue' = a @ filter (\<lambda>r. lq_rid r \<in> set dep) matched \<and>
     sorted_wrt (\<lambda>r r'. int (length (cr_prefix_indices r')) \<le> int (length (cr_prefix_indices r))) a"
proof -
  have ps: "rx_page_size (rx_init 1 False (\<lambda>n. n)) = 1" by code_simp
  have reach: "radix_reach (rx_init 1 False (\<lambda>n. n)) {#}" by (rule rr_init) simp
  have act: "determine_active_policy LPM [waiting_req ''a'' [9, 9], waiting_req ''b'' [1, 2, 5]] = LPM"
    by (simp add: determine_active_policy_def)
  have mn: "\<forall>q\<in>set [waiting_req ''a'' [9, 9], waiting_req ''b'' [1, 2, 5]]. max_new_set q"
    by (simp add: waiting_req_max_new)
  from calc_priority_permutes [OF demo_reach reach ps mn, of "\<lambda>qs. qs" LPM]
  obtain queue' m dep tree' wt' where w: "calc_priority (\<lambda>qs. qs) LPM demo_cache (rx_init 1 False (\<lambda>n. n))
     [waiting_req ''a'' [9, 9], waiting_req ''b'' [1, 2, 5]] = Some (Inr (True, queue', tree', wt'))"
    "mset queue' = mset m" "list_all2 (matched_as tree') [waiting_req ''a'' [9, 9], waiting_req ''b'' [1, 2, 5]] m"
    "\<exists>a. queue' = a @ filter (\<lambda>r. lq_rid r \<in> set dep) m \<and>
       stable_descending (\<lambda>r. int (length (cr_prefix_indices r))) (filter (\<lambda>r. lq_rid r \<notin> set dep) m) a"
    unfolding act cache_aware.simps if_True sched_policy.case by (simp only: simp_thms) blast
  moreover from w(2,3) have "length queue' = 2"
    by (metis list_all2_lengthD size_mset length_Cons list.size(3) numeral_2_eq_2)
  ultimately show ?thesis
    unfolding stable_descending_def by blast
qed

section \<open>The insertion of \<open>add_req_state\<close>\<close>

text \<open>
  \<open>req_states\<close> is meant to stay sorted by \<open>tokens_left\<close>; but an entry larger than all others is
  inserted before the last one.
\<close>

lemma insert_sort_unsorted:
  "add_req_state 1 True (waiting_req ''b'' [1, 2, 5]) [(2, 7), (3, 7)] = Inr [(2, 7), (4, 3), (3, 7)]"
  by (simp add: add_req_state_def waiting_req_def new_req_def waiting_params_def insert_index_def)

end
