(* ===== verification/SchedBatch.thy ===== *)
theory SchedBatch
  imports SchedPolicy LatentSampler PagedAlloc "HOL-Library.Product_Lexorder"
begin

text \<open>
  \<open>ScheduleBatch\<close> of \<open>srt/managers/schedule_batch.py\<close>: the batch of requests that the scheduler
  prefills or decodes, with its columns (one entry per request) and the memory operations that go
  through the KV allocator, the request pool and the radix cache.  The pools and the tree are
  shared by all batches, so they are passed as one state (\<open>cache_state\<close>).  Speculative decoding,
  encoder-decoder models, input embeddings, grammars and the overlap schedule are left out.
\<close>

section \<open>State\<close>

datatype forward_mode = EXTEND | DECODE | MIXED | IDLE

fun is_extend :: "forward_mode option \<Rightarrow> bool" where
  "is_extend (Some EXTEND) = True"
| "is_extend (Some MIXED) = True"
| "is_extend _ = False"

record sched_batch =
  sb_reqs :: "latent_req list"
  sb_forward_mode :: "forward_mode option"
  sb_batch_is_full :: bool
  sb_sampling_info :: "unit batch_info option"
  sb_input_ids :: "nat list"
  sb_req_pool_indices :: "nat list"
  sb_seq_lens :: "nat list"
  sb_out_cache_loc :: "nat list option"
  sb_output_ids :: "nat list option"
  sb_seq_lens_sum :: nat
  sb_return_logprob :: bool
  sb_top_logprobs_nums :: "nat list option"
  sb_token_ids_logprobs :: "nat list option list option"
  sb_prefix_lens :: "nat list"
  sb_extend_lens :: "int list"
  sb_extend_num_tokens :: nat
  sb_decoding_reqs :: "latent_req list option"
  sb_extend_logprob_start_lens :: "int list"
  sb_extend_input_logprob_token_ids :: "nat list option"
  sb_enable_latent :: bool
  sb_max_topk :: nat

definition sched_init_new :: "bool \<Rightarrow> nat \<Rightarrow> latent_req list \<Rightarrow> sched_batch" where
  "sched_init_new enable_latent max_topk reqs =
     \<lparr>sb_reqs = reqs, sb_forward_mode = None, sb_batch_is_full = False, sb_sampling_info = None,
      sb_input_ids = [], sb_req_pool_indices = [], sb_seq_lens = [], sb_out_cache_loc = None, sb_output_ids = None,
      sb_seq_lens_sum = 0, sb_return_logprob = list_ex lq_return_logprob reqs, sb_top_logprobs_nums = None,
      sb_token_ids_logprobs = None, sb_prefix_lens = [], sb_extend_lens = [], sb_extend_num_tokens = 0,
      sb_decoding_reqs = None, sb_extend_logprob_start_lens = [], sb_extend_input_logprob_token_ids = None,
      sb_enable_latent = enable_latent, sb_max_topk = max_topk\<rparr>"

definition batch_size :: "sched_batch \<Rightarrow> nat" where
  "batch_size b = length (sb_reqs b)"

definition is_empty_batch :: "sched_batch \<Rightarrow> bool" where
  "is_empty_batch b = (length (sb_reqs b) = 0)"

text \<open>The sampling info of a batch, without custom logit processors.\<close>

definition sampling_info_of :: "sched_batch \<Rightarrow> latent_req list \<Rightarrow> unit batch_info" where
  "sampling_info_of b reqs = from_schedule_batch (sb_enable_latent b) (sb_max_topk b) False [] [] (map lq_params reqs)"

section \<open>Slots\<close>

definition alloc_req_slots :: "nat \<Rightarrow> req_pool \<Rightarrow> (nat list \<times> req_pool) result" where
  "alloc_req_slots num_reqs p =
     (case req_pool_alloc p num_reqs of
        (None, _) \<Rightarrow> Inl (RuntimeError ''alloc_req_slots runs out of memory'')
      | (Some xs, p') \<Rightarrow> Inr (xs, p'))"

text \<open>The call \<open>tree_cache.evict(n)\<close> on the whole state.\<close>

definition evict_state :: "('a \<Rightarrow> nat list \<Rightarrow> 'a) \<Rightarrow> nat \<Rightarrow> 'a cache_state \<Rightarrow> 'a cache_state option" where
  "evict_state free n c =
     (case evict free n (cs_alloc c) (cs_tree c) of
        None \<Rightarrow> None
      | Some (a, t) \<Rightarrow> Some (c\<lparr>cs_alloc := a, cs_tree := t\<rparr>))"

definition alloc_token_slots ::
  "nat \<Rightarrow> token_alloc cache_state \<Rightarrow> (nat list \<times> token_alloc cache_state) result option" where
  "alloc_token_slots num_tokens c =
     (case (if token_available_size (cs_alloc c) < num_tokens then evict_state token_free num_tokens c else Some c) of
        None \<Rightarrow> None
      | Some c1 \<Rightarrow>
          (case token_alloc_slots (cs_alloc c1) num_tokens of
             (None, _) \<Rightarrow> Some (Inl (RuntimeError ''out of memory. Try to lower your batch size.''))
           | (Some xs, a) \<Rightarrow> Some (Inr (xs, c1\<lparr>cs_alloc := a\<rparr>))))"

text \<open>
  The page allocator.  Its \<open>free\<close> may fail an assertion of the debug mode; the eviction then stops
  with it.  \<open>junk\<close> is the content of the tensor \<open>torch.empty\<close> returns.
\<close>

definition evict_paged ::
  "nat \<Rightarrow> paged_alloc cache_state \<Rightarrow> paged_alloc cache_state result option" where
  "evict_paged n c =
     (case evict (\<lambda>m v. bind_r m (\<lambda>a. paged_free a v)) n (Inr (cs_alloc c)) (cs_tree c) of
        None \<Rightarrow> None
      | Some (m, t) \<Rightarrow> Some (bind_r m (\<lambda>a. Inr (c\<lparr>cs_alloc := a, cs_tree := t\<rparr>))))"

definition alloc_paged_token_slots_extend ::
  "nat list \<Rightarrow> nat list \<Rightarrow> nat list \<Rightarrow> int list \<Rightarrow> nat \<Rightarrow> paged_alloc cache_state \<Rightarrow>
   (nat list \<times> paged_alloc cache_state) result option" where
  "alloc_paged_token_slots_extend junk prefix_lens seq_lens last_loc extend_num_tokens c =
     (let needed = extend_num_tokens + length seq_lens * pa_page_size (cs_alloc c)
      in case (if paged_available_size (cs_alloc c) < needed then evict_paged needed c else Some (Inr c)) of
           None \<Rightarrow> None
         | Some r \<Rightarrow> Some (bind_r r (\<lambda>c1.
             bind_r (paged_alloc_extend (cs_alloc c1) prefix_lens seq_lens last_loc extend_num_tokens junk) (\<lambda>(xs, a).
               case xs of
                 None \<Rightarrow> Inl (RuntimeError ''Prefill out of memory. Try to lower your batch size.'')
               | Some xs \<Rightarrow> Inr (xs, c1\<lparr>cs_alloc := a\<rparr>)))))"

definition alloc_paged_token_slots_decode ::
  "nat list \<Rightarrow> nat list \<Rightarrow> int list \<Rightarrow> paged_alloc cache_state \<Rightarrow>
   (nat list \<times> paged_alloc cache_state) result option" where
  "alloc_paged_token_slots_decode junk seq_lens last_loc c =
     (let needed = length seq_lens * pa_page_size (cs_alloc c)
      in case (if paged_available_size (cs_alloc c) < needed then evict_paged needed c else Some (Inr c)) of
           None \<Rightarrow> None
         | Some r \<Rightarrow> Some (bind_r r (\<lambda>c1.
             bind_r (paged_alloc_decode (cs_alloc c1) seq_lens last_loc junk) (\<lambda>(xs, a).
               case xs of
                 None \<Rightarrow> Inl (RuntimeError ''Decode out of memory. Try to lower your batch size.'')
               | Some xs \<Rightarrow> Inr (xs, c1\<lparr>cs_alloc := a\<rparr>)))))"

text \<open>
  \<open>get_last_loc\<close>, and the locations of the new tokens in \<open>req_to_token\<close>: the loop of the
  \<open>torch_native\<close> backend, and the Triton kernel on the flat memory of the table.
\<close>

definition get_last_loc :: "req_pool \<Rightarrow> nat list \<Rightarrow> nat list \<Rightarrow> int list" where
  "get_last_loc p rows prefix_lens =
     map2 (\<lambda>row n. if 0 < n then int (rp_table p ! row ! (n - 1)) else - 1) rows prefix_lens"

fun write_req_to_token :: "(nat \<times> nat \<times> nat \<times> nat) list \<Rightarrow> nat list \<Rightarrow> req_pool \<Rightarrow> req_pool result" where
  "write_req_to_token [] locs p = Inr p"
| "write_req_to_token ((row, pre, seq, ext) # rs) locs p =
     bind_r (req_pool_write p row pre seq (take ext locs)) (write_req_to_token rs (drop ext locs))"

definition cdiv :: "nat \<Rightarrow> nat \<Rightarrow> nat" where
  "cdiv a b = (a + b - 1) div b"

definition write_req_to_token_program ::
  "nat \<Rightarrow> (nat \<times> nat \<times> nat \<times> nat) list \<Rightarrow> nat list \<Rightarrow> nat \<Rightarrow> (nat \<times> nat) list" where
  "write_req_to_token_program stride args locs pid =
     (let (row, pre_len, seq_len, _) = args ! pid;
          cumsum_start = (\<Sum>(_, _, _, ext)\<leftarrow>take pid args. ext)
      in concat (map (\<lambda>i. [(row * stride + (i * 512 + k) + pre_len, locs ! (cumsum_start + (i * 512 + k))).
                            k \<leftarrow> [0..<512], i * 512 + k < seq_len - pre_len])
           [0..<cdiv (seq_len - pre_len) 512]))"

definition write_req_to_token_kernel ::
  "nat \<Rightarrow> (nat \<times> nat \<times> nat \<times> nat) list \<Rightarrow> nat list \<Rightarrow> nat list \<Rightarrow> nat list" where
  "write_req_to_token_kernel stride args locs memory =
     foldl (\<lambda>m pid. store m (write_req_to_token_program stride args locs pid)) memory [0..<length args]"

section \<open>Prefill\<close>

text \<open>
  The loop over the requests of a prefill batch.  The last component collects
  \<open>extend_input_logprob_token_ids\<close>.
\<close>

definition input_logprob_token_ids :: "latent_req \<Rightarrow> nat list" where
  "input_logprob_token_ids q =
     (let start = max (int (length (cr_prefix_indices q))) (lq_logprob_start_len q);
          ids = Prelude.slice (nat start + 1) (length (cr_fill_ids q) + 1) (cr_origin_input_ids q)
      in ids @ replicate (nat (lq_extend_input_len q - lq_extend_logprob_start_len q - int (length ids))) 0)"

definition prepare_req :: "bool \<Rightarrow> latent_req \<Rightarrow> nat \<Rightarrow> req_pool \<Rightarrow> (latent_req \<times> nat list \<times> req_pool) result" where
  "prepare_req return_logprob q row p =
     (let seq_len = length (cr_fill_ids q); pre_len = length (cr_prefix_indices q)
      in bind_r (check_r (int seq_len - int pre_len = lq_extend_input_len q) AssertionError) (\<lambda>_.
         bind_r (if 0 < pre_len then req_pool_write p row 0 pre_len (cr_prefix_indices q) else Inr p) (\<lambda>p1.
           let q1 = q\<lparr>cr_pool_idx := row,
                      lq_cached_tokens := lq_cached_tokens q + (int pre_len - lq_already_computed q),
                      lq_already_computed := int seq_len, lq_is_retracted := False,
                      lq_extend_logprob_start_len :=
                        (if int pre_len \<le> lq_logprob_start_len q
                         then min (lq_logprob_start_len q - int pre_len) (min (lq_extend_input_len q) (int (seqlen q) - 1))
                         else 0)\<rparr>
           in Inr (q1, if return_logprob then input_logprob_token_ids q1 else [], p1))))"

fun prepare_reqs :: "bool \<Rightarrow> (latent_req \<times> nat) list \<Rightarrow> req_pool \<Rightarrow> (latent_req list \<times> nat list \<times> req_pool) result" where
  "prepare_reqs return_logprob [] p = Inr ([], [], p)"
| "prepare_reqs return_logprob ((q, row) # qs) p =
     bind_r (prepare_req return_logprob q row p) (\<lambda>(q1, ids, p1).
     bind_r (prepare_reqs return_logprob qs p1) (\<lambda>(qs1, ids1, p2). Inr (q1 # qs1, ids @ ids1, p2)))"

text \<open>
  \<open>prepare_for_extend\<close>.  \<open>alloc\<close> is the allocation of the batch: \<open>extend_alloc_token\<close> at page size 1,
  \<open>extend_alloc_paged\<close> otherwise.
\<close>

type_synonym 'a extend_alloc =
  "nat list \<Rightarrow> nat list \<Rightarrow> nat list \<Rightarrow> nat \<Rightarrow> 'a cache_state \<Rightarrow> (nat list \<times> 'a cache_state) result option"

definition extend_alloc_token :: "token_alloc extend_alloc" where
  "extend_alloc_token rows prefix_lens seq_lens extend_num_tokens c = alloc_token_slots extend_num_tokens c"

definition extend_alloc_paged :: "nat list \<Rightarrow> paged_alloc extend_alloc" where
  "extend_alloc_paged junk rows prefix_lens seq_lens extend_num_tokens c =
     alloc_paged_token_slots_extend junk prefix_lens seq_lens (get_last_loc (cs_pool c) rows prefix_lens) extend_num_tokens c"

definition prepare_for_extend ::
  "'a extend_alloc \<Rightarrow> sched_batch \<Rightarrow> 'a cache_state \<Rightarrow> (sched_batch \<times> 'a cache_state) result option" where
  "prepare_for_extend alloc b c =
     (let reqs = sb_reqs b;
          input_ids = map (\<lambda>r. drop (length (cr_prefix_indices r)) (cr_fill_ids r)) reqs;
          extend_num_tokens = sum_list (map length input_ids);
          seq_lens = map (\<lambda>r. length (cr_fill_ids r)) reqs;
          prefix_lens = map (\<lambda>r. length (cr_prefix_indices r)) reqs;
          extend_lens = map lq_extend_input_len reqs
      in case alloc_req_slots (length reqs) (cs_pool c) of
           Inl e \<Rightarrow> Some (Inl e)
         | Inr (rows, p0) \<Rightarrow>
            (case prepare_reqs (sb_return_logprob b) (zip reqs rows) p0 of
               Inl e \<Rightarrow> Some (Inl e)
             | Inr (reqs1, ids, p1) \<Rightarrow>
                (case alloc rows prefix_lens seq_lens extend_num_tokens (c\<lparr>cs_pool := p1\<rparr>) of
                   None \<Rightarrow> None
                 | Some (Inl e) \<Rightarrow> Some (Inl e)
                 | Some (Inr (out_cache_loc, c1)) \<Rightarrow>
                     Some (bind_r (write_req_to_token (zip rows (zip prefix_lens (zip seq_lens (map nat extend_lens))))
                                     out_cache_loc (cs_pool c1)) (\<lambda>p2.
                       Inr (b\<lparr>sb_reqs := reqs1, sb_forward_mode := Some EXTEND, sb_input_ids := concat input_ids,
                              sb_req_pool_indices := rows, sb_seq_lens := seq_lens, sb_out_cache_loc := Some out_cache_loc,
                              sb_seq_lens_sum := sum_list seq_lens,
                              sb_top_logprobs_nums := (if sb_return_logprob b then Some (map lq_top_logprobs_num reqs)
                                                       else sb_top_logprobs_nums b),
                              sb_token_ids_logprobs := (if sb_return_logprob b then Some (map lq_token_ids_logprob reqs)
                                                        else sb_token_ids_logprobs b),
                              sb_extend_logprob_start_lens := map lq_extend_logprob_start_len reqs1,
                              sb_extend_num_tokens := extend_num_tokens, sb_prefix_lens := prefix_lens,
                              sb_extend_lens := extend_lens,
                              sb_extend_input_logprob_token_ids := (if sb_return_logprob b then Some ids else None),
                              sb_sampling_info := Some (sampling_info_of b reqs1)\<rparr>,
                            c1\<lparr>cs_pool := p2\<rparr>))))))"

section \<open>Decoding\<close>

definition new_page_count_next_decode :: "nat \<Rightarrow> sched_batch \<Rightarrow> nat" where
  "new_page_count_next_decode page_size b =
     (if page_size = 1 then length (sb_reqs b)
      else length (filter (\<lambda>q. seqlen q mod page_size = 0) (sb_reqs b)))"

definition check_decode_mem :: "nat \<Rightarrow> sched_batch \<Rightarrow> token_alloc cache_state \<Rightarrow> (bool \<times> token_alloc cache_state) option" where
  "check_decode_mem buf_multiplier b c =
     (let tokens_required = new_page_count_next_decode 1 b * buf_multiplier * 1
      in if tokens_required \<le> token_available_size (cs_alloc c) then Some (True, c)
         else map_option (\<lambda>c1. (tokens_required \<le> token_available_size (cs_alloc c1), c1))
                (evict_state token_free tokens_required c))"

text \<open>The same with pages.\<close>

definition check_decode_mem_paged ::
  "nat \<Rightarrow> sched_batch \<Rightarrow> paged_alloc cache_state \<Rightarrow> (bool \<times> paged_alloc cache_state) result option" where
  "check_decode_mem_paged buf_multiplier b c =
     (let ps = pa_page_size (cs_alloc c);
          tokens_required = new_page_count_next_decode ps b * buf_multiplier * ps
      in if tokens_required \<le> paged_available_size (cs_alloc c) then Some (Inr (True, c))
         else map_option (\<lambda>r. bind_r r (\<lambda>c1. Inr (tokens_required \<le> paged_available_size (cs_alloc c1), c1)))
                (evict_paged tokens_required c))"

text \<open>\<open>req_to_token_pool.write((rows, locs), values)\<close>: one element per row.\<close>

fun req_pool_put :: "(nat \<times> nat \<times> nat) list \<Rightarrow> req_pool \<Rightarrow> req_pool result" where
  "req_pool_put [] p = Inr p"
| "req_pool_put ((row, loc, v) # ws) p =
     (if row < length (rp_table p) \<and> loc < length (rp_table p ! row)
      then req_pool_put ws (p\<lparr>rp_table := (rp_table p)[row := (rp_table p ! row)[loc := v]]\<rparr>)
      else Inl IndexError)"

type_synonym 'a decode_alloc =
  "nat list \<Rightarrow> nat list \<Rightarrow> 'a cache_state \<Rightarrow> (nat list \<times> 'a cache_state) result option"

definition decode_alloc_token :: "token_alloc decode_alloc" where
  "decode_alloc_token rows seq_lens c = alloc_token_slots (length rows) c"

definition decode_alloc_paged :: "nat list \<Rightarrow> paged_alloc decode_alloc" where
  "decode_alloc_paged junk rows seq_lens c =
     alloc_paged_token_slots_decode junk seq_lens
       (map2 (\<lambda>row n. int (rp_table (cs_pool c) ! row ! (n - 2))) rows seq_lens) c"

text \<open>\<open>prepare_for_decode\<close>; the penalizers are left out.\<close>

definition prepare_for_decode ::
  "'a decode_alloc \<Rightarrow> sched_batch \<Rightarrow> 'a cache_state \<Rightarrow> (sched_batch \<times> 'a cache_state) result option" where
  "prepare_for_decode alloc b c =
     (case sb_output_ids b of
        None \<Rightarrow> Some (Inl AttributeError)
      | Some output_ids \<Rightarrow>
         (let locs = sb_seq_lens b; seq_lens = map (\<lambda>n. n + 1) (sb_seq_lens b)
          in case alloc (sb_req_pool_indices b) seq_lens c of
               None \<Rightarrow> None
             | Some (Inl e) \<Rightarrow> Some (Inl e)
             | Some (Inr (out_cache_loc, c1)) \<Rightarrow>
                 Some (bind_r (req_pool_put (zip (sb_req_pool_indices b) (zip locs out_cache_loc)) (cs_pool c1)) (\<lambda>p.
                   Inr (b\<lparr>sb_forward_mode := Some DECODE, sb_input_ids := output_ids, sb_output_ids := None,
                          sb_seq_lens := seq_lens, sb_seq_lens_sum := sb_seq_lens_sum b + length (sb_reqs b),
                          sb_out_cache_loc := Some out_cache_loc\<rparr>,
                        c1\<lparr>cs_pool := p\<rparr>)))))"

definition prepare_for_idle :: "sched_batch \<Rightarrow> sched_batch" where
  "prepare_for_idle b =
     b\<lparr>sb_forward_mode := Some IDLE, sb_input_ids := [], sb_seq_lens := [], sb_out_cache_loc := Some [],
       sb_req_pool_indices := [], sb_seq_lens_sum := 0, sb_extend_num_tokens := 0,
       sb_sampling_info := Some (sampling_info_of b (sb_reqs b))\<rparr>"

section \<open>Filtering and merging\<close>

text \<open>
  \<open>filter_batch\<close>.  A request that is excluded by identity is named by its id.  When nothing is
  kept only the list of requests is emptied.
\<close>

definition default_keep :: "string option \<Rightarrow> sched_batch \<Rightarrow> nat list" where
  "default_keep exclude b =
     filter (\<lambda>i. \<not> req_finished (sb_reqs b ! i) \<and> exclude \<noteq> Some (lq_rid (sb_reqs b ! i))) [0..<length (sb_reqs b)]"

definition sched_filter_batch :: "nat list \<Rightarrow> sched_batch \<Rightarrow> sched_batch result" where
  "sched_filter_batch keep b =
     (if keep = [] then Inr (b\<lparr>sb_reqs := []\<rparr>)
      else if length keep = length (sb_reqs b) then Inr b
      else case sb_output_ids b of
             None \<Rightarrow> Inl TypeError
           | Some output_ids \<Rightarrow>
               let reqs = gather (sb_reqs b) keep; seq_lens = gather (sb_seq_lens b) keep;
                   rl = list_ex lq_return_logprob reqs
               in bind_r (check_r (rl \<longrightarrow> sb_top_logprobs_nums b \<noteq> None \<and> sb_token_ids_logprobs b \<noteq> None) TypeError) (\<lambda>_.
                  bind_r (check_r (sb_sampling_info b \<noteq> None) AttributeError) (\<lambda>_.
                  Inr (b\<lparr>sb_reqs := reqs, sb_req_pool_indices := gather (sb_req_pool_indices b) keep,
                         sb_seq_lens := seq_lens, sb_out_cache_loc := None, sb_seq_lens_sum := sum_list seq_lens,
                         sb_output_ids := Some (gather output_ids keep), sb_return_logprob := rl,
                         sb_top_logprobs_nums := (if rl then map_option (\<lambda>xs. gather xs keep) (sb_top_logprobs_nums b) else None),
                         sb_token_ids_logprobs := (if rl then map_option (\<lambda>xs. gather xs keep) (sb_token_ids_logprobs b) else None),
                         sb_sampling_info := map_option (filter_batch keep) (sb_sampling_info b)\<rparr>))))"

text \<open>How \<open>merge_batch\<close> joins a column that a batch has only when it returns log-probabilities.\<close>

definition join_column :: "bool \<times> nat \<Rightarrow> bool \<times> nat \<Rightarrow> 'a \<Rightarrow> 'a list option \<Rightarrow> 'a list option \<Rightarrow> 'a list option" where
  "join_column a b fill xs ys =
     (if fst a \<and> fst b then Some (the xs @ the ys)
      else if fst a then Some (the xs @ replicate (snd b) fill)
      else if fst b then Some (replicate (snd a) fill @ the ys)
      else xs)"

definition sched_merge_batch :: "sched_batch \<Rightarrow> sched_batch \<Rightarrow> sched_batch result" where
  "sched_merge_batch a b =
     (case (sb_sampling_info a, sb_sampling_info b) of
        (Some sa, Some sb) \<Rightarrow>
          bind_r (check_r (sb_output_ids a \<noteq> None \<longrightarrow> sb_output_ids b \<noteq> None) TypeError) (\<lambda>_.
          bind_r (check_r ((sb_return_logprob a \<longrightarrow> sb_top_logprobs_nums a \<noteq> None \<and> sb_token_ids_logprobs a \<noteq> None) \<and>
                           (sb_return_logprob b \<longrightarrow> sb_top_logprobs_nums b \<noteq> None \<and> sb_token_ids_logprobs b \<noteq> None)) AttributeError) (\<lambda>_.
          Inr (a\<lparr>sb_sampling_info := Some (merge_batch sa sb),
                    sb_req_pool_indices := sb_req_pool_indices a @ sb_req_pool_indices b,
                    sb_seq_lens := sb_seq_lens a @ sb_seq_lens b, sb_out_cache_loc := None,
                    sb_seq_lens_sum := sb_seq_lens_sum a + sb_seq_lens_sum b,
                    sb_output_ids := (case sb_output_ids a of None \<Rightarrow> None | Some xs \<Rightarrow> Some (xs @ the (sb_output_ids b))),
                    sb_top_logprobs_nums := join_column (sb_return_logprob a, length (sb_reqs a))
                      (sb_return_logprob b, length (sb_reqs b)) 0 (sb_top_logprobs_nums a) (sb_top_logprobs_nums b),
                    sb_token_ids_logprobs := join_column (sb_return_logprob a, length (sb_reqs a))
                      (sb_return_logprob b, length (sb_reqs b)) None (sb_token_ids_logprobs a) (sb_token_ids_logprobs b),
                    sb_reqs := sb_reqs a @ sb_reqs b,
                    sb_return_logprob := (sb_return_logprob a \<or> sb_return_logprob b)\<rparr>)))
      | _ \<Rightarrow> Inl AttributeError)"

text \<open>\<open>mix_with_running\<close>, without the overlap schedule (\<open>delta = -1\<close>).\<close>

definition mix_with_running :: "sched_batch \<Rightarrow> sched_batch \<Rightarrow> sched_batch result" where
  "mix_with_running b running =
     (let reqs = map (\<lambda>q. q\<lparr>cr_fill_ids := cr_origin_input_ids q @ cr_output_ids q, lq_extend_input_len := 1\<rparr>) (sb_reqs running)
      in case (sb_out_cache_loc b, sb_out_cache_loc running) of
           (Some l1, Some l2) \<Rightarrow>
             bind_r (sched_merge_batch (b\<lparr>sb_forward_mode := Some MIXED\<rparr>) (running\<lparr>sb_reqs := reqs\<rparr>)) (\<lambda>m.
               Inr (m\<lparr>sb_input_ids := sb_input_ids b @ sb_input_ids running, sb_out_cache_loc := Some (l1 @ l2),
                      sb_prefix_lens := sb_prefix_lens b @ map (\<lambda>q. seqlen q - 1) reqs,
                      sb_extend_lens := sb_extend_lens b @ replicate (length reqs) 1,
                      sb_extend_num_tokens := sb_extend_num_tokens b + length reqs,
                      sb_extend_logprob_start_lens := sb_extend_logprob_start_lens b @ replicate (length reqs) 0\<rparr>))
         | _ \<Rightarrow> Inl TypeError)"

section \<open>Retraction\<close>

definition retract_decode_steps :: nat where
  "retract_decode_steps = 20"

text \<open>\<open>sorted_indices.sort(key, reverse=True)\<close> is stable: equal keys keep their order.\<close>

definition retract_key :: "latent_req \<Rightarrow> nat \<times> int" where
  "retract_key q = (length (cr_output_ids q), - int (length (cr_origin_input_ids q)))"

definition retract_order :: "latent_req list \<Rightarrow> nat list" where
  "retract_order reqs = rev (sort_key (\<lambda>i. retract_key (reqs ! i)) (rev [0..<length reqs]))"

text \<open>What retracting one request gives back; \<open>others\<close> is the number of requests still in the batch.\<close>

definition retract_one :: "bool \<Rightarrow> latent_req \<Rightarrow> nat \<Rightarrow> nat \<Rightarrow> token_alloc cache_state \<Rightarrow> token_alloc cache_state option" where
  "retract_one chunk_cache q seq_len others c =
     (if chunk_cache
      then Some (c\<lparr>cs_alloc := token_free (cs_alloc c) (req_pool_read (cs_pool c) (cr_pool_idx q) seq_len),
                   cs_pool := req_pool_free (cs_pool c) (OneSlot (cr_pool_idx q))\<rparr>)
      else let ps = rx_page_size (cs_tree c);
               last_uncached_pos = length (cr_prefix_indices q) div ps * ps;
               token_indices = drop last_uncached_pos (req_pool_read (cs_pool c) (cr_pool_idx q) seq_len);
               c1 = c\<lparr>cs_alloc := token_free (cs_alloc c) token_indices,
                      cs_pool := req_pool_free (cs_pool c) (OneSlot (cr_pool_idx q))\<rparr>
           in case dec_lock_ref (cs_tree c1) (cr_last_node q) of
                None \<Rightarrow> None
              | Some (_, t) \<Rightarrow>
                  evict_state token_free (others * retract_decode_steps - token_available_size (cs_alloc c1)) (c1\<lparr>cs_tree := t\<rparr>))"

text \<open>The loop; \<open>stack\<close> is \<open>sorted_indices\<close> with its last element first.\<close>

fun retract_loop ::
  "bool \<Rightarrow> latent_req list \<Rightarrow> nat list \<Rightarrow> nat list \<Rightarrow> bool \<Rightarrow> latent_req list \<Rightarrow> token_alloc cache_state \<Rightarrow>
   (nat list \<times> latent_req list \<times> token_alloc cache_state) result option" where
  "retract_loop chunk_cache reqs seq_lens stack first_iter retracted c =
     (if \<not> (token_available_size (cs_alloc c) < length stack * retract_decode_steps \<or> first_iter)
      then Some (Inr (stack, retracted, c))
      else if length stack = 1
      then Some (if 0 < token_available_size (cs_alloc c) then Inr (stack, retracted, c) else Inl AssertionError)
      else case stack of
             [] \<Rightarrow> Some (Inl IndexError)
           | idx # rest \<Rightarrow>
               (case retract_one chunk_cache (reqs ! idx) (seq_lens ! idx) (length rest) c of
                  None \<Rightarrow> None
                | Some c1 \<Rightarrow>
                    retract_loop chunk_cache reqs seq_lens rest False (retracted @ [reset_for_retract (reqs ! idx)]) c1))"

declare retract_loop.simps [simp del]

definition new_estimate_ratio :: "latent_req list \<Rightarrow> real result" where
  "new_estimate_ratio reqs =
     bind_r (check_r (list_all (\<lambda>q. sp_max_new_tokens (lq_params q) \<noteq> None) reqs) TypeError) (\<lambda>_.
       let total_decoded = sum_list (map (\<lambda>q. length (cr_output_ids q)) reqs);
           total_max = sum_list (map (\<lambda>q. the (sp_max_new_tokens (lq_params q))) reqs)
       in bind_r (check_r (total_max \<noteq> 0) ZeroDivisionError) (\<lambda>_.
            Inr (min 1 (real (total_decoded + retract_decode_steps * length reqs) / real_of_int total_max))))"

definition retract_decode ::
  "bool \<Rightarrow> sched_batch \<Rightarrow> token_alloc cache_state \<Rightarrow>
   (latent_req list \<times> real \<times> sched_batch \<times> token_alloc cache_state) result option" where
  "retract_decode chunk_cache b c =
     (case retract_loop chunk_cache (sb_reqs b) (sb_seq_lens b) (rev (retract_order (sb_reqs b))) True [] c of
        None \<Rightarrow> None
      | Some r \<Rightarrow> Some (bind_r r (\<lambda>(stack, retracted, c1).
          bind_r (sched_filter_batch (rev stack) b) (\<lambda>b1.
          bind_r (new_estimate_ratio (sb_reqs b1)) (\<lambda>ratio. Inr (retracted, ratio, b1, c1))))))"

end
