(* ===== verification/Sched.thy ===== *)
theory Sched
  imports SchedBatch
begin

text \<open>
  The scheduling steps of \<open>srt/managers/scheduler.py\<close>: which batch runs next, how the waiting queue
  feeds a prefill batch, and how the running batch prepares a decode step.  LoRA, the hierarchical
  cache, data-parallel attention, speculative decoding, disaggregation and the statistics are left out; the page size
  is 1.
\<close>

section \<open>State\<close>

record sched_config =
  sf_max_running_requests :: nat
  sf_max_prefill_tokens :: int
  sf_chunked_prefill_size :: "int option"
  sf_is_mixed_chunk :: bool
  sf_enable_latent :: bool
  sf_max_topk :: nat
  sf_policy :: sched_policy
  sf_shuffle :: "latent_req list \<Rightarrow> latent_req list"
  sf_chunk_cache :: bool
  sf_test_retract :: bool
  sf_new_token_ratio_decay :: real
  sf_min_new_token_ratio :: real
  sf_max_total_num_tokens :: nat

text \<open>
  A chunked request is also in the batch that prefills it: \<open>sc_chunked_req\<close> is its state when that
  batch was prepared, and the request of the same id in \<open>sc_last_batch\<close> is its present state.
\<close>

record scheduler =
  sc_waiting_queue :: "latent_req list"
  sc_running_batch :: sched_batch
  sc_last_batch :: "sched_batch option"
  sc_chunked_req :: "latent_req option"
  sc_new_token_ratio :: real
  sc_waiting_queue_tree :: radix
  sc_cache :: "token_alloc cache_state"

section \<open>The waiting queue\<close>

definition add_request_to_queue :: "latent_req \<Rightarrow> scheduler \<Rightarrow> scheduler" where
  "add_request_to_queue q s = s\<lparr>sc_waiting_queue := sc_waiting_queue s @ [q]\<rparr>"

definition extend_requests_to_queue :: "latent_req list \<Rightarrow> scheduler \<Rightarrow> scheduler" where
  "extend_requests_to_queue qs s = s\<lparr>sc_waiting_queue := sc_waiting_queue s @ qs\<rparr>"

text \<open>\<open>init_next_round_input\<close> without a tree: the prefix is already there.\<close>

definition init_next_round_no_tree :: "latent_req \<Rightarrow> latent_req" where
  "init_next_round_no_tree q =
     (let fill = cr_origin_input_ids q @ cr_output_ids q
      in q\<lparr>cr_fill_ids := fill, lq_extend_input_len := int (length fill) - int (length (cr_prefix_indices q))\<rparr>)"

definition next_round :: "bool \<Rightarrow> radix \<Rightarrow> latent_req \<Rightarrow> (latent_req \<times> radix) result option" where
  "next_round prefix_computed tree q =
     (if prefix_computed then Some (Inr (init_next_round_no_tree q, tree)) else init_next_round_input tree q)"

text \<open>
  The loop over the waiting queue.  It returns the adder, the tree, the requests that stay in the
  queue and whether the running batch is full.  A request that is not admitted ends the loop, so
  the admitted ones are the first of the queue.
\<close>

fun add_waiting ::
  "nat \<Rightarrow> nat \<Rightarrow> nat \<Rightarrow> bool \<Rightarrow> latent_req list \<Rightarrow> prefill_adder \<Rightarrow> radix \<Rightarrow>
   (prefill_adder \<times> radix \<times> latent_req list \<times> bool) result option" where
  "add_waiting avail max_running running_bs prefix_computed [] pa tree = Some (Inr (pa, tree, [], False))"
| "add_waiting avail max_running running_bs prefix_computed (q # qs) pa tree =
     (if max_running \<le> running_bs + length (pa_can_run_list pa) then Some (Inr (pa, tree, q # qs, True))
      else case next_round prefix_computed tree q of
             None \<Rightarrow> None
           | Some (Inl e) \<Rightarrow> Some (Inl e)
           | Some (Inr (q1, tree1)) \<Rightarrow>
               (case add_one_req avail tree1 q1 pa of
                  None \<Rightarrow> None
                | Some (Inl e) \<Rightarrow> Some (Inl e)
                | Some (Inr (res, q2, pa1, tree2)) \<Rightarrow>
                    if res \<noteq> CONTINUE
                    then Some (Inr (pa1, tree2,
                           if length (pa_can_run_list pa) < length (pa_can_run_list pa1) then qs else q2 # qs,
                           res = NO_TOKEN))
                    else add_waiting avail max_running running_bs prefix_computed qs pa1 tree2))"

section \<open>Prefill\<close>

text \<open>The first request of the adder: the chunked request of the last round.\<close>

definition add_chunked :: "latent_req option \<Rightarrow> prefill_adder \<Rightarrow> (bool \<times> prefill_adder) result" where
  "add_chunked chunked pa =
     (case chunked of
        None \<Rightarrow> Inr (False, pa)
      | Some q \<Rightarrow> bind_r (add_chunked_req (init_next_round_no_tree q) pa) (\<lambda>(still_chunked, _, pa1). Inr (still_chunked, pa1)))"

text \<open>
  The mixed-chunk branch: the running requests decode in the same batch.  It returns the new batch
  and the running batch.
\<close>

definition mix_running ::
  "bool \<Rightarrow> sched_batch \<Rightarrow> sched_batch \<Rightarrow> token_alloc cache_state \<Rightarrow>
   (sched_batch \<times> sched_batch \<times> token_alloc cache_state) result option" where
  "mix_running mixed_chunk b running c =
     (if mixed_chunk \<and> \<not> is_empty_batch running \<and> \<not> (sb_return_logprob b \<or> sb_return_logprob running)
      then let fresh = (sched_init_new False 0 [])\<lparr>sb_batch_is_full := sb_batch_is_full running\<rparr>
           in (case sched_filter_batch (default_keep None running) running of
             Inl e \<Rightarrow> Some (Inl e)
           | Inr running1 \<Rightarrow>
               if is_empty_batch running1 then Some (Inr (b, fresh, c))
               else (case prepare_for_decode decode_alloc_token running1 c of
                       None \<Rightarrow> None
                     | Some r \<Rightarrow> Some (bind_r r (\<lambda>(running2, c1).
                         bind_r (mix_with_running b running2) (\<lambda>b1.
                         Inr (b1\<lparr>sb_decoding_reqs := Some (sb_reqs running2)\<rparr>, fresh, c1))))))
      else Some (Inr (b\<lparr>sb_decoding_reqs := None\<rparr>, running, c)))"

definition get_new_batch_prefill ::
  "sched_config \<Rightarrow> scheduler \<Rightarrow> (sched_batch option \<times> scheduler) result option" where
  "get_new_batch_prefill cfg s =
    (let running = sc_running_batch s; running_bs = batch_size running;
         avail = token_available_size (cs_alloc (sc_cache s))
     in if (sb_batch_is_full running \<or> sc_waiting_queue s = []) \<and> sc_chunked_req s = None then Some (Inr (None, s))
        else if sf_max_running_requests cfg \<le> running_bs
        then Some (Inr (None, s\<lparr>sc_running_batch := running\<lparr>sb_batch_is_full := True\<rparr>\<rparr>))
        else case calc_priority (sf_shuffle cfg) (sf_policy cfg) (cs_tree (sc_cache s)) (sc_waiting_queue_tree s) (sc_waiting_queue s) of
          None \<Rightarrow> None
        | Some (Inl e) \<Rightarrow> Some (Inl e)
        | Some (Inr (prefix_computed, queue, tree, wt)) \<Rightarrow>
           (case bind_r (prefill_adder_init (sb_reqs running) (sc_new_token_ratio s) (sf_max_prefill_tokens cfg)
                          (sf_chunked_prefill_size cfg) (if sf_is_mixed_chunk cfg then int running_bs else 0))
                   (add_chunked (sc_chunked_req s)) of
              Inl e \<Rightarrow> Some (Inl e)
            | Inr (still_chunked, pa) \<Rightarrow>
               (case add_waiting avail (sf_max_running_requests cfg) running_bs prefix_computed queue pa tree of
                  None \<Rightarrow> None
                | Some (Inl e) \<Rightarrow> Some (Inl e)
                | Some (Inr (pa1, tree1, rest, full)) \<Rightarrow>
                   let running1 = running\<lparr>sb_batch_is_full := sb_batch_is_full running \<or> full\<rparr>;
                       s1 = s\<lparr>sc_waiting_queue := rest, sc_running_batch := running1, sc_waiting_queue_tree := wt,
                              sc_chunked_req := None, sc_cache := (sc_cache s)\<lparr>cs_tree := tree1\<rparr>\<rparr>;
                       chunk_at = (case pa_new_chunked_req pa1 of None \<Rightarrow> if still_chunked then Some 0 else None | Some i \<Rightarrow> Some i)
                   in if pa_can_run_list pa1 = [] then Some (Inr (None, s1))
                      else if pa_new_chunked_req pa1 \<noteq> None \<and> still_chunked then Some (Inl AssertionError)
                      else let reqs = (case chunk_at of None \<Rightarrow> pa_can_run_list pa1
                                       | Some i \<Rightarrow> (pa_can_run_list pa1)[i := (pa_can_run_list pa1 ! i)
                                                     \<lparr>lq_is_chunked := lq_is_chunked (pa_can_run_list pa1 ! i) + 1\<rparr>])
                      in (case prepare_for_extend extend_alloc_token
                                 (sched_init_new (sf_enable_latent cfg) (sf_max_topk cfg) reqs) (sc_cache s1) of
                            None \<Rightarrow> None
                          | Some (Inl e) \<Rightarrow> Some (Inl e)
                          | Some (Inr (b, c1)) \<Rightarrow>
                             (case mix_running (sf_is_mixed_chunk cfg) b running1 c1 of
                                None \<Rightarrow> None
                              | Some r \<Rightarrow> Some (bind_r r (\<lambda>(b1, running2, c2).
                                  Inr (Some b1, s1\<lparr>sc_running_batch := running2, sc_cache := c2,
                                                   sc_chunked_req := map_option (\<lambda>i. sb_reqs b ! i) chunk_at\<rparr>))))))))"

section \<open>Decode\<close>

definition update_running_batch ::
  "sched_config \<Rightarrow> sched_batch \<Rightarrow> scheduler \<Rightarrow> (sched_batch \<times> scheduler) result option" where
  "update_running_batch cfg b s =
    (case sched_filter_batch (default_keep None b) b of
       Inl e \<Rightarrow> Some (Inl e)
     | Inr b1 \<Rightarrow>
        if is_empty_batch b1 then Some (Inr (b1\<lparr>sb_batch_is_full := False\<rparr>, s))
        else (case check_decode_mem 1 b1 (sc_cache s) of
           None \<Rightarrow> None
         | Some (enough, c1) \<Rightarrow>
            (case (if \<not> enough \<or> (sf_test_retract cfg \<and> 10 < batch_size b1)
                   then map_option (\<lambda>r. bind_r r (\<lambda>(retracted, ratio, b2, c2).
                          Inr (b2, extend_requests_to_queue retracted (s\<lparr>sc_new_token_ratio := ratio, sc_cache := c2\<rparr>))))
                          (retract_decode (sf_chunk_cache cfg) b1 c1)
                   else Some (Inr (b1, s\<lparr>sc_new_token_ratio :=
                                max (sc_new_token_ratio s - sf_new_token_ratio_decay cfg) (sf_min_new_token_ratio cfg),
                                sc_cache := c1\<rparr>))) of
               None \<Rightarrow> None
             | Some (Inl e) \<Rightarrow> Some (Inl e)
             | Some (Inr (b2, s2)) \<Rightarrow>
                let b3 = (if batch_size b2 < batch_size b then b2\<lparr>sb_batch_is_full := False\<rparr> else b2)
                in (case prepare_for_decode decode_alloc_token b3 (sc_cache s2) of
                      None \<Rightarrow> None
                    | Some r \<Rightarrow> Some (bind_r r (\<lambda>(b4, c3). Inr (b4, s2\<lparr>sc_cache := c3\<rparr>)))))))"

section \<open>The next batch\<close>

text \<open>
  The chunked request leaves the batch that prefilled its last chunk: its tokens go to the cache,
  and its row of the request pool is free until the next chunk gets a new one.
\<close>

definition release_chunked ::
  "latent_req \<Rightarrow> sched_batch \<Rightarrow> token_alloc cache_state \<Rightarrow>
   (latent_req \<times> sched_batch \<times> token_alloc cache_state) result option" where
  "release_chunked chunked lastb c =
     (case sched_filter_batch (default_keep (Some (lq_rid chunked)) lastb) lastb of
        Inl e \<Rightarrow> Some (Inl e)
      | Inr last1 \<Rightarrow>
          (case cache_unfinished_req token_free (cache_req.truncate chunked) c of
             None \<Rightarrow> None
           | Some (Inl e) \<Rightarrow> Some (Inl e)
           | Some (Inr (r, c1)) \<Rightarrow>
               let q = chunked\<lparr>cr_prefix_indices := cr_prefix_indices r, cr_last_node := cr_last_node r\<rparr>
               in Some (Inr (q, last1, c1\<lparr>cs_pool := req_pool_free (cs_pool c1) (OneSlot (cr_pool_idx q))\<rparr>))))"

definition chunked_now :: "sched_batch \<Rightarrow> latent_req \<Rightarrow> latent_req" where
  "chunked_now lastb q = (case find (\<lambda>r. lq_rid r = lq_rid q) (sb_reqs lastb) of Some r \<Rightarrow> r | None \<Rightarrow> q)"

definition merge_last_batch :: "scheduler \<Rightarrow> scheduler result option" where
  "merge_last_batch s =
     (case sc_last_batch s of
        None \<Rightarrow> Some (Inr s)
      | Some lastb \<Rightarrow>
          if \<not> is_extend (sb_forward_mode lastb) then Some (Inr s)
          else case (case sc_chunked_req s of
                       None \<Rightarrow> Some (Inr (None, lastb, sc_cache s))
                     | Some q \<Rightarrow> map_option (\<lambda>r. bind_r r (\<lambda>(q', l, c). Inr (Some q', l, c))) (release_chunked (chunked_now lastb q) lastb (sc_cache s))) of
                 None \<Rightarrow> None
               | Some r \<Rightarrow> Some (bind_r r (\<lambda>(chunked, last1, c1).
                   bind_r (sched_filter_batch (default_keep None last1) last1) (\<lambda>last2.
                   let running = (sc_running_batch s)\<lparr>sb_batch_is_full :=
                         sb_batch_is_full (sc_running_batch s) \<and> chunked = None \<and> batch_size last2 = batch_size last1\<rparr>;
                       s1 = s\<lparr>sc_chunked_req := chunked, sc_cache := c1, sc_last_batch := Some last2\<rparr>
                   in if is_empty_batch last2 then Inr (s1\<lparr>sc_running_batch := running\<rparr>)
                      else if is_empty_batch running then Inr (s1\<lparr>sc_running_batch := last2\<rparr>)
                      else bind_r (sched_merge_batch running last2) (\<lambda>m. Inr (s1\<lparr>sc_running_batch := m\<rparr>))))))"

definition get_next_batch_to_run ::
  "sched_config \<Rightarrow> scheduler \<Rightarrow> (sched_batch option \<times> scheduler) result option" where
  "get_next_batch_to_run cfg s0 =
     (case merge_last_batch s0 of
        None \<Rightarrow> None
      | Some (Inl e) \<Rightarrow> Some (Inl e)
      | Some (Inr s) \<Rightarrow>
         (case get_new_batch_prefill cfg s of
            None \<Rightarrow> None
          | Some (Inl e) \<Rightarrow> Some (Inl e)
          | Some (Inr (Some b, s1)) \<Rightarrow> Some (Inr (Some b, s1))
          | Some (Inr (None, s1)) \<Rightarrow>
              if is_empty_batch (sc_running_batch s1) then Some (Inr (None, s1))
              else map_option (\<lambda>r. bind_r r (\<lambda>(b, s2).
                     Inr (if is_empty_batch b then None else Some b, s2\<lparr>sc_running_batch := b\<rparr>)))
                   (update_running_batch cfg (sc_running_batch s1) s1)))"

text \<open>\<open>flush_cache\<close> forgets the tree, both pools and the last batch; it returns whether it did.\<close>

definition flush_cache :: "scheduler \<Rightarrow> bool \<times> scheduler" where
  "flush_cache s =
     (if sc_waiting_queue s = [] \<and> is_empty_batch (sc_running_batch s)
      then (True, s\<lparr>sc_last_batch := None,
                    sc_cache := \<lparr>cs_tree = rx_reset (cs_tree (sc_cache s)), cs_pool = req_pool_clear (cs_pool (sc_cache s)),
                                 cs_alloc = token_clear (cs_alloc (sc_cache s))\<rparr>\<rparr>)
      else (False, s))"

text \<open>
  \<open>check_memory\<close>, called when nothing runs: whether KV slots or request slots have leaked.
\<close>

definition check_memory :: "sched_config \<Rightarrow> scheduler \<Rightarrow> bool \<times> bool" where
  "check_memory cfg s =
     (let c = sc_cache s
      in (int (token_available_size (cs_alloc c)) + evictable_size (cs_tree c) \<noteq> int (sf_max_total_num_tokens cfg),
          length (rp_free_slots (cs_pool c)) \<noteq> rp_size (cs_pool c)))"

end
