(* ===== verification/SchedMem.thy ===== *)
theory SchedMem
  imports Sched SchedPolicyOk
begin

text \<open>
  Memory of the scheduler at page size 1: eviction on the whole state, and the allocation of token
  slots, which succeeds exactly when free and evictable slots together suffice.
\<close>

section \<open>Eviction\<close>

text \<open>Every KV slot belongs to the tree or to the allocator, or to a request.\<close>

definition owned_slots :: "token_alloc cache_state \<Rightarrow> nat multiset" where
  "owned_slots c = rx_slots (cs_tree c) + token_slots (cs_alloc c)"

definition mem_ok :: "token_alloc cache_state \<Rightarrow> nat multiset \<Rightarrow> bool" where
  "mem_ok c R \<longleftrightarrow> radix_reach (cs_tree c) R \<and> rx_page_size (cs_tree c) = 1 \<and> ta_not_in_group (cs_alloc c)"

text \<open>What an operation keeps: the pool, the nodes that requests hold, and the page size.\<close>

definition keeps_held :: "nat multiset \<Rightarrow> radix \<Rightarrow> radix \<Rightarrow> bool" where
  "keeps_held R t t' \<longleftrightarrow> (\<forall>h\<in>#R. \<forall>ks vs. at_node t h ks vs \<longrightarrow> at_node t' h ks vs)"

lemma keeps_held_refl [simp]: "keeps_held R t t"
  by (simp add: keeps_held_def)

lemma keeps_held_trans: "keeps_held R t t' \<Longrightarrow> keeps_held R t' t'' \<Longrightarrow> keeps_held R t t''"
  by (simp add: keeps_held_def)

lemma available_slots: "int (token_available_size a) = int (size (token_slots a))"
  by (simp add: token_available_size_def token_slots_def)

lemma foldl_token_free:
  "ta_not_in_group a \<Longrightarrow> ta_not_in_group (foldl token_free a xss) \<and>
     token_slots (foldl token_free a xss) = token_slots a + mset (concat xss)"
proof (induction xss arbitrary: a)
  case Nil
  then show ?case by simp
next
  case (Cons xs xss)
  have "ta_not_in_group (token_free a xs)" "token_slots (token_free a xs) = token_slots a + mset xs"
    using Cons.prems token.free_ready token.free_exact [OF _ refl] by auto
  with Cons.IH [of "token_free a xs"] show ?case by simp
qed

lemma evictable_nonneg: "radix_reach s R \<Longrightarrow> 0 \<le> evictable_size s"
  using sizes_and_locks_spec by blast

lemma evict_keeps_page_size:
  assumes "radix_reach s R" and "evict free num a s = Some (a', s')"
  shows "rx_page_size s' = rx_page_size s" and "radix_reach s' R"
proof -
  obtain L P V where ok: "radix_ok s L P V R" using radix_reach_ok [OF assms(1)] by blast
  obtain xs s'' L' where *: "evict free num a s = Some (foldl free a (map (rx_value s) xs), s'')" "lru_run s L xs s'' L'"
    using evict_ok [OF ok, of free num a free a] by blast
  then have s'': "s'' = s'" using assms(2) by simp
  show "rx_page_size s' = rx_page_size s"
    using lru_run_ok [OF *(2) ok] s'' by (simp add: same_config_def)
  obtain ys t where ys: "evict (\<lambda>freed v. freed @ [v]) num [] s = Some (ys, t)"
    using evict_ok [OF ok, of "\<lambda>freed v. freed @ [v]" num "[]" free a] by auto
  from evict_free_param [OF ok this, of free a] have "t = s'" using assms(2) by simp
  then show "radix_reach s' R" using rr_evict [OF assms(1) ys] by simp
qed

lemma evict_state_ok:
  assumes "mem_ok c R"
  shows "\<exists>c'. evict_state token_free n c = Some c' \<and> mem_ok c' R \<and> cs_pool c' = cs_pool c \<and>
     owned_slots c' = owned_slots c \<and> keeps_held R (cs_tree c) (cs_tree c') \<and>
     int (token_available_size (cs_alloc c')) + evictable_size (cs_tree c')
       = int (token_available_size (cs_alloc c)) + evictable_size (cs_tree c) \<and>
     token_available_size (cs_alloc c) \<le> token_available_size (cs_alloc c') \<and>
     (token_available_size (cs_alloc c) + n \<le> token_available_size (cs_alloc c') \<or> evictable_size (cs_tree c') = 0)"
proof -
  let ?t = "cs_tree c" and ?a = "cs_alloc c"
  have reach: "radix_reach ?t R" and ready: "ta_not_in_group ?a" using assms by (simp_all add: mem_ok_def)
  obtain xs t' where *: "evict token_free n ?a ?t = Some (foldl token_free ?a (map (rx_value ?t) xs), t')"
    "let freed = concat (map (rx_value ?t) xs)
     in rx_slots ?t = rx_slots t' + mset freed \<and> evictable_size ?t = evictable_size t' + int (length freed) \<and>
        protected_size t' = protected_size ?t \<and> (n \<le> length freed \<or> evictable_size t' = 0) \<and>
        (xs \<noteq> [] \<longrightarrow> length (concat (map (rx_value ?t) (butlast xs))) < n)"
    "\<forall>m\<in>#R. \<forall>ks vs. at_node ?t m ks vs \<longrightarrow> at_node t' m ks vs \<and> (ks, vs) \<in> cached t'"
    using evict_spec [OF reach, of token_free n ?a] by (elim exE conjE) blast
  let ?freed = "concat (map (rx_value ?t) xs)" and ?a' = "foldl token_free ?a (map (rx_value ?t) xs)"
  have a': "ta_not_in_group ?a'" "token_slots ?a' = token_slots ?a + mset ?freed"
    using foldl_token_free [OF ready, of "map (rx_value ?t) xs"] by simp_all
  then have av: "token_available_size ?a' = token_available_size ?a + length ?freed"
    using available_slots [of ?a] available_slots [of ?a'] by simp
  let ?c' = "c\<lparr>cs_alloc := ?a', cs_tree := t'\<rparr>"
  have "mem_ok ?c' R"
    using assms a'(1) evict_keeps_page_size [OF reach *(1)] by (simp add: mem_ok_def)
  moreover have "owned_slots ?c' = owned_slots c"
    using *(2) a'(2) by (simp add: owned_slots_def Let_def ac_simps)
  moreover have "keeps_held R ?t (cs_tree ?c')" using *(3) by (simp add: keeps_held_def)
  moreover have "evict_state token_free n c = Some ?c'" using *(1) by (simp add: evict_state_def)
  ultimately show ?thesis
    using *(2) av by (intro exI [of _ ?c']) (simp add: Let_def)
qed

section \<open>Allocation\<close>

lemma alloc_token_slots_ok:
  assumes "mem_ok c R"
  shows "if int n \<le> int (token_available_size (cs_alloc c)) + evictable_size (cs_tree c)
     then \<exists>xs c'. alloc_token_slots n c = Some (Inr (xs, c')) \<and> length xs = n \<and> mem_ok c' R \<and>
            cs_pool c' = cs_pool c \<and> owned_slots c = owned_slots c' + mset xs \<and> keeps_held R (cs_tree c) (cs_tree c') \<and>
            int (token_available_size (cs_alloc c')) + evictable_size (cs_tree c') + int n
              = int (token_available_size (cs_alloc c)) + evictable_size (cs_tree c)
     else \<exists>msg. alloc_token_slots n c = Some (Inl (RuntimeError msg))"
proof -
  have "\<exists>c1. (if token_available_size (cs_alloc c) < n then evict_state token_free n c else Some c) = Some c1 \<and>
     mem_ok c1 R \<and> cs_pool c1 = cs_pool c \<and> owned_slots c1 = owned_slots c \<and> keeps_held R (cs_tree c) (cs_tree c1) \<and>
     int (token_available_size (cs_alloc c1)) + evictable_size (cs_tree c1)
       = int (token_available_size (cs_alloc c)) + evictable_size (cs_tree c) \<and>
     (n \<le> token_available_size (cs_alloc c1) \<or> evictable_size (cs_tree c1) = 0)"
  proof (cases "token_available_size (cs_alloc c) < n")
    case True
    from evict_state_ok [OF assms, of n] show ?thesis using True by (elim exE conjE) force
  qed (use assms in simp)
  then obtain c1 where c1: "(if token_available_size (cs_alloc c) < n then evict_state token_free n c else Some c) = Some c1"
     "mem_ok c1 R" "cs_pool c1 = cs_pool c" "owned_slots c1 = owned_slots c" "keeps_held R (cs_tree c) (cs_tree c1)"
     "int (token_available_size (cs_alloc c1)) + evictable_size (cs_tree c1)
       = int (token_available_size (cs_alloc c)) + evictable_size (cs_tree c)"
     "n \<le> token_available_size (cs_alloc c1) \<or> evictable_size (cs_tree c1) = 0"
    by (elim exE conjE)
  have ready: "ta_not_in_group (cs_alloc c1)" and ev: "0 \<le> evictable_size (cs_tree c1)"
    using c1(2) evictable_nonneg by (auto simp: mem_ok_def)
  have iff: "int n \<le> int (token_available_size (cs_alloc c)) + evictable_size (cs_tree c) \<longleftrightarrow> n \<le> token_available_size (cs_alloc c1)"
    using c1(6,7) ev by linarith
  show ?thesis
  proof (cases "n \<le> token_available_size (cs_alloc c1)")
    case True
    obtain xs a where al: "token_alloc_slots (cs_alloc c1) n = (Some xs, a)" "length xs = n" "ta_not_in_group a"
      "token_slots (cs_alloc c1) = mset xs + token_slots a"
      using token.alloc_enough [OF ready _ True] by auto
    let ?c' = "c1\<lparr>cs_alloc := a\<rparr>"
    have "alloc_token_slots n c = Some (Inr (xs, ?c'))" unfolding alloc_token_slots_def c1(1) by (simp add: al(1))
    moreover have "mem_ok ?c' R" using c1(2) al(3) by (simp add: mem_ok_def)
    moreover have "owned_slots c = owned_slots ?c' + mset xs"
      using c1(4) al(4) by (simp add: owned_slots_def ac_simps)
    moreover have "int (token_available_size a) + int n = int (token_available_size (cs_alloc c1))"
      using al(2,4) by (simp add: available_slots)
    ultimately show ?thesis
      using iff True al(2) c1(3,5,6) by (auto intro!: exI [of _ xs] exI [of _ ?c'])
  next
    case False
    then have "token_alloc_slots (cs_alloc c1) n = (None, cs_alloc c1)"
      using token.alloc_short [OF ready] by simp
    then show ?thesis using iff False unfolding alloc_token_slots_def c1(1) by simp
  qed
qed

end
