(* ===== verification/SchedAdmit.thy ===== *)
theory SchedAdmit
  imports SchedMem
begin

text \<open>
  Admission: the requests that \<open>PrefillAdder\<close> lets into a prefill batch fit into the memory.  Each
  of them holds its prefix in the tree, and the tokens all of them extend by are free or evictable.
\<close>

section \<open>One request of the queue\<close>

definition prefill_ready :: "radix \<Rightarrow> latent_req \<Rightarrow> bool" where
  "prefill_ready t q \<longleftrightarrow>
     (\<exists>ks. at_node t (cr_last_node q) ks (cr_prefix_indices q) \<and> prefix ks (cr_fill_ids q)) \<and>
     lq_extend_input_len q = int (length (cr_fill_ids q)) - int (length (cr_prefix_indices q))"

lemma prefill_ready_length:
  assumes "radix_reach t R" and "prefill_ready t q"
  shows "length (cr_prefix_indices q) \<le> length (cr_fill_ids q)" and "0 \<le> lq_extend_input_len q"
  using assms at_node_cached(2) [OF assms(1)] prefix_length_le by (fastforce simp: prefill_ready_def)+

lemma prefill_ready_mono:
  "prefill_ready t q \<Longrightarrow> (\<And>ks vs. at_node t (cr_last_node q) ks vs \<Longrightarrow> at_node t' (cr_last_node q) ks vs) \<Longrightarrow> prefill_ready t' q"
  by (auto simp: prefill_ready_def)

text \<open>Two states of a request that differ at most in what the scheduler computes for the next round.\<close>

definition same_request :: "latent_req \<Rightarrow> latent_req \<Rightarrow> bool" where
  "same_request q q' \<longleftrightarrow> lq_rid q' = lq_rid q \<and> lq_params q' = lq_params q \<and>
     cr_origin_input_ids q' = cr_origin_input_ids q \<and> cr_output_ids q' = cr_output_ids q \<and>
     lq_finished_reason q' = lq_finished_reason q \<and> lq_tokenizer q' = lq_tokenizer q \<and> lq_return_logprob q' = lq_return_logprob q"

lemma same_request_refl [simp]: "same_request q q"
  by (simp add: same_request_def)

lemma same_request_trans: "same_request q q' \<Longrightarrow> same_request q' q'' \<Longrightarrow> same_request q q''"
  by (simp add: same_request_def)

definition waiting_ok :: "bool \<Rightarrow> radix \<Rightarrow> latent_req \<Rightarrow> bool" where
  "waiting_ok prefix_computed t q \<longleftrightarrow> lq_is_chunked q = 0 \<and> (\<exists>m. sp_max_new_tokens (lq_params q) = Some m \<and> 0 \<le> m) \<and>
     (prefix_computed \<longrightarrow> (\<exists>ks. at_node t (cr_last_node q) ks (cr_prefix_indices q) \<and>
        prefix ks (cr_origin_input_ids q @ cr_output_ids q)))"

lemma next_round_ok:
  assumes "radix_reach t R" and "waiting_ok prefix_computed t q"
  shows "\<exists>q1 t1. next_round prefix_computed t q = Some (Inr (q1, t1)) \<and> radix_reach t1 R \<and>
     tree_kept t t1 \<and> evictable_size t1 = evictable_size t \<and> prefill_ready t1 q1 \<and> same_request q q1 \<and>
     cr_fill_ids q1 = cr_origin_input_ids q @ cr_output_ids q \<and> lq_is_chunked q1 = 0"
proof (cases prefix_computed)
  case True
  then show ?thesis
    using assms by (auto simp: next_round_def init_next_round_no_tree_def prefill_ready_def waiting_ok_def same_request_def Let_def)
next
  case False
  have ch: "lq_is_chunked q = 0" using assms(2) by (simp add: waiting_ok_def)
  have "max_new_set q" using assms(2) by (auto simp: waiting_ok_def max_new_set_def)
  then obtain k where adj: "adjust_max_prefix_ids q = Inr (take k (cr_origin_input_ids q @ cr_output_ids q),
     q\<lparr>cr_fill_ids := cr_origin_input_ids q @ cr_output_ids q\<rparr>)"
    using adjust_max_prefix_ids_ok by blast
  define key where "key = take k (cr_origin_input_ids q @ cr_output_ids q)"
  obtain ks vals n t1 where m: "match_prefix t key = Some (vals, n, t1)" "longest_cached (cached t) key ks vals"
    "at_node t1 n ks vals" "rx_evictable t1 = rx_evictable t"
    using match_prefix_spec [OF assms(1), of key] by blast
  let ?fill = "cr_origin_input_ids q @ cr_output_ids q"
  let ?q = "q\<lparr>cr_fill_ids := ?fill, cr_prefix_indices := vals, cr_last_node := n,
              lq_extend_input_len := int (length ?fill) - int (length vals)\<rparr>"
  have run: "next_round prefix_computed t q = Some (Inr (?q, t1))"
    using False m(1) adj [folded key_def] by (simp add: next_round_def init_next_round_input_def)
  have "prefix ks ?fill"
    using m(2) take_is_prefix prefix_order.trans unfolding longest_cached_def key_def by blast
  then have "prefill_ready t1 ?q" using m(3) by (auto simp: prefill_ready_def)
  then show ?thesis
    using run rr_match [OF assms(1) m(1)] tree_kept_match [OF assms(1) m(1)] m(4) ch
    by (intro exI [of _ ?q] exI [of _ t1]) (simp add: evictable_size_def same_request_def)
qed

section \<open>One step of the adder\<close>

lemma inc_lock_ref_full:
  assumes "radix_reach t R" and "at_node t n ks vs"
  shows "\<exists>d t'. inc_lock_ref t n = Some (d, t') \<and> radix_reach t' (add_mset n R) \<and> rx_page_size t' = rx_page_size t \<and>
     (\<forall>m ks vs. at_node t' m ks vs = at_node t m ks vs) \<and> rx_slots t' = rx_slots t \<and> evictable_size t' \<le> evictable_size t \<and>
     dec_lock_ref t' n = Some (- d, t)"
proof -
  obtain d t' where *: "inc_lock_ref t n = Some (d, t')" "radix_reach t' (add_mset n R)"
    "\<forall>m ks vs. at_node t' m ks vs = at_node t m ks vs" "rx_slots t' = rx_slots t"
    using inc_lock_ref_spec [OF assms] by blast
  obtain L P V where ok: "radix_ok t L P V R" using radix_reach_ok [OF assms(1)] by blast
  have "n \<in> L" using assms(2) at_node_iff [OF radix_okD(2) [OF ok]] by blast
  then have "rx_page_size t' = rx_page_size t"
    using inc_lock_ref_ok [OF ok \<open>n \<in> L\<close>] *(1) by (auto simp: same_config_def)
  then show ?thesis using * lock_unlock_spec [OF assms] by auto
qed

text \<open>What an admission does: the whole rest of the request, or a chunk of it.\<close>

definition admitted_as :: "int \<Rightarrow> latent_req \<Rightarrow> prefill_adder \<Rightarrow> latent_req \<Rightarrow> prefill_adder \<Rightarrow> bool" where
  "admitted_as m q pa q' pa' \<longleftrightarrow>
     (q' = q \<and> pa' = prefill_one_req (int (length (cr_prefix_indices q))) (lq_extend_input_len q)
        (min m clip_max_new_tokens) (pa\<lparr>pa_can_run_list := pa_can_run_list pa @ [q]\<rparr>)) \<or>
     (\<exists>k. pa_rem_chunk_tokens pa = Some k \<and> k < lq_extend_input_len q \<and> k \<noteq> 0 \<and>
        q' = q\<lparr>lq_extend_input_len := k, cr_fill_ids := py_take (int (length (cr_prefix_indices q)) + k) (cr_fill_ids q)\<rparr> \<and>
        pa' = prefill_one_req (int (length (cr_prefix_indices q))) k 0
          (pa\<lparr>pa_can_run_list := pa_can_run_list pa @ [q'], pa_new_chunked_req := Some (length (pa_can_run_list pa))\<rparr>))"

lemma add_one_req_ok:
  assumes "radix_reach t R" and "at_node t (cr_last_node q) ks vs" and "sp_max_new_tokens (lq_params q) = Some m"
  shows "\<exists>res q' pa' t'. add_one_req avail t q pa = Some (Inr (res, q', pa', t')) \<and>
     (res \<noteq> CONTINUE \<and> q' = q \<and> pa' = pa \<and> t' = t \<and>
        (pa_rem_chunk_tokens pa = None \<and> pa_can_run_list pa = [] \<longrightarrow>
           (let total = real_of_int (lq_extend_input_len q + min m clip_max_new_tokens)
            in rem_total_tokens avail t pa \<le> total \<or>
               (\<exists>d t1. inc_lock_ref t (cr_last_node q) = Some (d, t1) \<and> rem_total_tokens avail t1 pa < total))) \<or>
      (\<exists>d. inc_lock_ref t (cr_last_node q) = Some (d, t')) \<and> admitted_as m q pa q' pa' \<and> res = budget_state avail t' pa' \<and>
      real_of_int (lq_extend_input_len q + min m clip_max_new_tokens) \<le> rem_total_tokens avail t' pa)"
proof -
  let ?n = "cr_last_node q"
  have dis: "\<not> rx_disable t" using radix_reach_ok [OF assms(1)] radix_okD(1) by blast
  obtain d t1 where inc: "inc_lock_ref t ?n = Some (d, t1)" "radix_reach t1 (add_mset ?n R)"
    "at_node t1 ?n ks vs" "dec_lock_ref t1 ?n = Some (- d, t)"
    using inc_lock_ref_full [OF assms(1,2)] assms(2) by metis
  obtain d' t2 where inc2: "inc_lock_ref t1 ?n = Some (d', t2)" "dec_lock_ref t2 ?n = Some (- d', t1)"
    using inc_lock_ref_full [OF inc(2,3)] by metis
  let ?total = "lq_extend_input_len q + min m clip_max_new_tokens"
  let ?normal = "pa_rem_chunk_tokens pa = None \<or> lq_extend_input_len q \<le> the (pa_rem_chunk_tokens pa)"
  consider (early) "rem_total_tokens avail t pa \<le> real_of_int ?total \<or>
      pa_rem_input_tokens pa < lq_extend_input_len q \<and> pa_can_run_list pa \<noteq> []"
    | (late) "\<not> (rem_total_tokens avail t pa \<le> real_of_int ?total \<or>
      pa_rem_input_tokens pa < lq_extend_input_len q \<and> pa_can_run_list pa \<noteq> [])"
      "rem_total_tokens avail t1 pa < real_of_int ?total \<or> \<not> ?normal \<and> the (pa_rem_chunk_tokens pa) = 0"
    | (admit) "\<not> (rem_total_tokens avail t pa \<le> real_of_int ?total \<or>
      pa_rem_input_tokens pa < lq_extend_input_len q \<and> pa_can_run_list pa \<noteq> [])"
      "\<not> rem_total_tokens avail t1 pa < real_of_int ?total" "?normal \<or> the (pa_rem_chunk_tokens pa) \<noteq> 0"
    by blast
  then show ?thesis
  proof cases
    case early
    then show ?thesis using dis assms(3) by (auto simp: add_one_req_def)
  next
    case late
    have "\<exists>res. admit_req avail t1 m q pa = Some (Inl res) \<and> res \<noteq> CONTINUE"
      using late(2) by (cases "pa_rem_chunk_tokens pa") (auto simp: admit_req_def Let_def)
    then obtain res where "admit_req avail t1 m q pa = Some (Inl res)" "res \<noteq> CONTINUE" by blast
    then have "add_one_req avail t q pa = Some (Inr (res, q, pa, t))"
      using late(1) dis assms(3) inc(1,4) by (auto simp: add_one_req_def)
    moreover have "pa_rem_chunk_tokens pa = None \<longrightarrow> rem_total_tokens avail t1 pa < real_of_int ?total" using late(2) by auto
    ultimately show ?thesis using \<open>res \<noteq> CONTINUE\<close> inc(1) by (intro exI [of _ res] exI [of _ q] exI [of _ pa] exI [of _ t]) (simp add: Let_def)
  next
    case admit
    have "\<exists>q' pa'. admit_req avail t1 m q pa = Some (Inr (q', pa', t2)) \<and> admitted_as m q pa q' pa'"
    proof (cases ?normal)
      case True
      then show ?thesis using admit(2) inc2(1) by (simp add: admit_req_def Let_def admitted_as_def)
    next
      case False
      then obtain k where k: "pa_rem_chunk_tokens pa = Some k" "k < lq_extend_input_len q" "k \<noteq> 0"
        using admit(3) by auto
      then show ?thesis using admit(2) inc2(1) by (simp add: admit_req_def Let_def admitted_as_def)
    qed
    then obtain q' pa' where a: "admit_req avail t1 m q pa = Some (Inr (q', pa', t2))" "admitted_as m q pa q' pa'" by blast
    have "add_one_req avail t q pa = Some (Inr (budget_state avail t1 pa', q', pa', t1))"
      using admit(1) dis assms(3) inc(1) a(1) inc2(2) by (auto simp: add_one_req_def)
    then show ?thesis using a(2) inc(1) admit(2) by (auto simp: not_less)
  qed
qed

section \<open>The budget\<close>

definition extend_total :: "latent_req list \<Rightarrow> int" where
  "extend_total qs = sum_list (map lq_extend_input_len qs)"

definition adder_ok :: "nat \<Rightarrow> radix \<Rightarrow> prefill_adder \<Rightarrow> nat multiset \<Rightarrow> int \<Rightarrow> bool" where
  "adder_ok avail t pa R mixed \<longleftrightarrow>
     radix_reach t (R + mset (map cr_last_node (pa_can_run_list pa))) \<and>
     (\<forall>q\<in>set (pa_can_run_list pa). prefill_ready t q) \<and>
     pa_cur_rem_token_offset pa = mixed + extend_total (pa_can_run_list pa) \<and>
     real_of_int (pa_cur_rem_token_offset pa) \<le> pa_rem_total_token_offset pa \<and>
     (pa_can_run_list pa \<noteq> [] \<longrightarrow> 0 \<le> rem_total_tokens avail t pa)"

lemma adder_ok_tree:
  assumes "adder_ok avail t pa R mixed" and "radix_reach t' (R + mset (map cr_last_node (pa_can_run_list pa)))"
    and "\<And>m ks vs. at_node t m ks vs \<Longrightarrow> at_node t' m ks vs" and "evictable_size t' = evictable_size t"
  shows "adder_ok avail t' pa R mixed"
  using assms prefill_ready_mono [OF _ assms(3)] by (auto simp: adder_ok_def rem_total_tokens_def)

lemma admitted_as_ready:
  assumes "radix_reach t R" and "prefill_ready t q" and "admitted_as m q pa q' pa'"
    and "\<forall>k. pa_rem_chunk_tokens pa = Some k \<longrightarrow> 0 < k"
  shows "prefill_ready t q'" and "cr_last_node q' = cr_last_node q" and "same_request q q'"
    and "lq_extend_input_len q' \<le> lq_extend_input_len q" and "0 \<le> lq_extend_input_len q'"
    and "length (cr_fill_ids q') \<le> length (cr_fill_ids q)" and "lq_is_chunked q' = lq_is_chunked q"
    and "pa_rem_chunk_tokens pa = None \<Longrightarrow> q' = q"
proof -
  note len = prefill_ready_length [OF assms(1,2)]
  have all: "prefill_ready t q' \<and> cr_last_node q' = cr_last_node q \<and> same_request q q' \<and>
     lq_extend_input_len q' \<le> lq_extend_input_len q \<and> 0 \<le> lq_extend_input_len q' \<and> length (cr_fill_ids q') \<le> length (cr_fill_ids q) \<and>
     lq_is_chunked q' = lq_is_chunked q"
  proof (cases "q' = q")
    case True
    then show ?thesis using assms(2) len by simp
  next
    case False
    then obtain k where k: "pa_rem_chunk_tokens pa = Some k" "k < lq_extend_input_len q"
      "q' = q\<lparr>lq_extend_input_len := k, cr_fill_ids := py_take (int (length (cr_prefix_indices q)) + k) (cr_fill_ids q)\<rparr>"
      using assms(3) by (auto simp: admitted_as_def)
    have pos: "0 < k" using k(1) assms(4) by blast
    obtain ks where ks: "at_node t (cr_last_node q) ks (cr_prefix_indices q)" "prefix ks (cr_fill_ids q)"
      using assms(2) by (auto simp: prefill_ready_def)
    have lks: "length ks = length (cr_prefix_indices q)" using at_node_cached(2) [OF assms(1) ks(1)] by simp
    let ?j = "length (cr_prefix_indices q) + nat k"
    have fill: "cr_fill_ids q' = take ?j (cr_fill_ids q)"
      using k(3) pos by (simp add: py_take_def nat_add_distrib)
    have j: "?j \<le> length (cr_fill_ids q)" using k(2) pos assms(2) by (simp add: prefill_ready_def)
    have "prefix ks (take ?j (cr_fill_ids q))"
      using ks(2) lks by (auto simp: prefix_def)
    then show ?thesis
      using ks(1) k pos j fill by (auto simp: prefill_ready_def same_request_def)
  qed
  then show "prefill_ready t q'" "cr_last_node q' = cr_last_node q" "same_request q q'"
    "lq_extend_input_len q' \<le> lq_extend_input_len q" "0 \<le> lq_extend_input_len q'"
    "length (cr_fill_ids q') \<le> length (cr_fill_ids q)" "lq_is_chunked q' = lq_is_chunked q" by simp_all
  show "q' = q" if "pa_rem_chunk_tokens pa = None" using that assms(3) by (auto simp: admitted_as_def)
qed

lemma admitted_as_lists:
  assumes "admitted_as m q pa q' pa'"
  shows "pa_can_run_list pa' = pa_can_run_list pa @ [q']"
    and "pa_cur_rem_token_offset pa' = pa_cur_rem_token_offset pa + lq_extend_input_len q'"
    and "0 \<le> m \<Longrightarrow> pa_rem_total_token_offset pa + real_of_int (lq_extend_input_len q') \<le> pa_rem_total_token_offset pa'"
    and "0 \<le> m \<Longrightarrow> pa_rem_total_token_offset pa' \<le>
       pa_rem_total_token_offset pa + real_of_int (lq_extend_input_len q + min m clip_max_new_tokens)"
  using assms by (auto simp: admitted_as_def prefill_one_req_def clip_max_new_tokens_def)

lemma admitted_as_no_chunk:
  assumes "admitted_as m q pa q' pa'" and "pa_rem_chunk_tokens pa = None"
  shows "pa_rem_chunk_tokens pa' = None" and "pa_new_chunked_req pa' = pa_new_chunked_req pa"
  using assms by (auto simp: admitted_as_def prefill_one_req_def)

text \<open>Without chunks every admitted request is prefilled as a whole.\<close>

definition whole :: "latent_req \<Rightarrow> bool" where
  "whole q \<longleftrightarrow> cr_fill_ids q = cr_origin_input_ids q @ cr_output_ids q"

lemma adder_ok_admit:
  assumes ok: "adder_ok avail t pa R mixed" and q: "prefill_ready t q" and m: "0 \<le> m"
    and inc: "inc_lock_ref t (cr_last_node q) = Some (d, t')"
    and adm: "admitted_as m q pa q' pa'"
    and fits: "real_of_int (lq_extend_input_len q + min m clip_max_new_tokens) \<le> rem_total_tokens avail t' pa"
    and chunk: "\<forall>k. pa_rem_chunk_tokens pa = Some k \<longrightarrow> 0 < k"
  shows "adder_ok avail t' pa' R mixed"
proof -
  have reach: "radix_reach t (R + mset (map cr_last_node (pa_can_run_list pa)))" using ok by (simp add: adder_ok_def)
  obtain ks where ks: "at_node t (cr_last_node q) ks (cr_prefix_indices q)" using q by (auto simp: prefill_ready_def)
  have t': "radix_reach t' (add_mset (cr_last_node q) (R + mset (map cr_last_node (pa_can_run_list pa))))"
    "\<forall>m ks vs. at_node t' m ks vs = at_node t m ks vs"
    using inc_lock_ref_full [OF reach ks] inc by auto
  note q' = admitted_as_ready [OF reach q adm chunk] and lists = admitted_as_lists [OF adm]
  have mono: "prefill_ready t' r" if "prefill_ready t r" for r
    using prefill_ready_mono [OF that] t'(2) by simp
  have "real_of_int (pa_cur_rem_token_offset pa') \<le> pa_rem_total_token_offset pa'"
    using ok lists(2) lists(3) [OF m] by (simp add: adder_ok_def)
  moreover have "0 \<le> rem_total_tokens avail t' pa'"
    using fits lists(4) [OF m] by (simp add: rem_total_tokens_def)
  ultimately show ?thesis
    using ok t'(1) q'(1,2) lists(1,2) mono by (simp add: adder_ok_def extend_total_def)
qed

section \<open>The loop over the queue\<close>

lemma budget_state_CONTINUE:
  "budget_state avail t pa = CONTINUE \<Longrightarrow> pa_rem_chunk_tokens pa = Some k \<Longrightarrow> 0 < k"
  by (simp add: budget_state_def split: if_splits)

lemma add_waiting_ok:
  assumes "adder_ok avail t pa R mixed" and "\<forall>q\<in>set queue. waiting_ok prefix_computed t q"
    and "\<forall>k. pa_rem_chunk_tokens pa = Some k \<longrightarrow> 0 < k"
  shows "\<exists>pa' t' rest full. add_waiting avail max_running running_bs prefix_computed queue pa t = Some (Inr (pa', t', rest, full)) \<and>
     adder_ok avail t' pa' R mixed \<and> tree_kept t t' \<and>
     (\<exists>qs. pa_can_run_list pa' = pa_can_run_list pa @ qs \<and> list_all2 same_request queue (qs @ rest) \<and>
        running_bs + length (pa_can_run_list pa') \<le> max max_running (running_bs + length (pa_can_run_list pa)) \<and>
        (\<forall>i<length qs. length (cr_fill_ids (qs ! i)) \<le> seqlen (queue ! i)) \<and> (\<forall>q\<in>set (qs @ rest). lq_is_chunked q = 0) \<and>
        (pa_rem_chunk_tokens pa = None \<longrightarrow> pa_new_chunked_req pa' = pa_new_chunked_req pa \<and> (\<forall>q\<in>set qs. whole q)))"
  using assms
proof (induction queue arbitrary: pa t)
  case Nil
  then show ?case by (auto intro: exI [of _ False])
next
  case (Cons q queue)
  show ?case
  proof (cases "max_running \<le> running_bs + length (pa_can_run_list pa)")
    case True
    then show ?thesis using Cons.prems(1,2) by (auto simp: list_all2_refl waiting_ok_def intro!: exI [of _ "[]"])
  next
    case False
    let ?H = "R + mset (map cr_last_node (pa_can_run_list pa))"
    have reach: "radix_reach t ?H" using Cons.prems(1) by (simp add: adder_ok_def)
    obtain q1 t1 where nr: "next_round prefix_computed t q = Some (Inr (q1, t1))" "radix_reach t1 ?H"
      "tree_kept t t1" "evictable_size t1 = evictable_size t" "prefill_ready t1 q1" "same_request q q1"
      "cr_fill_ids q1 = cr_origin_input_ids q @ cr_output_ids q" "lq_is_chunked q1 = 0"
      using next_round_ok [OF reach, of prefix_computed q] Cons.prems(2) by auto
    have ok1: "adder_ok avail t1 pa R mixed"
      by (rule adder_ok_tree [OF Cons.prems(1) nr(2)]) (use nr(3,4) in \<open>auto simp: tree_kept_def\<close>)
    obtain m where m: "sp_max_new_tokens (lq_params q1) = Some m" "0 \<le> m"
      using Cons.prems(2) nr(6) by (auto simp: waiting_ok_def same_request_def)
    obtain ks where ks: "at_node t1 (cr_last_node q1) ks (cr_prefix_indices q1)" using nr(5) by (auto simp: prefill_ready_def)
    obtain res q2 pa1 t2 where add: "add_one_req avail t1 q1 pa = Some (Inr (res, q2, pa1, t2))"
      "res \<noteq> CONTINUE \<and> q2 = q1 \<and> pa1 = pa \<and> t2 = t1 \<or>
       (\<exists>d. inc_lock_ref t1 (cr_last_node q1) = Some (d, t2)) \<and> admitted_as m q1 pa q2 pa1 \<and> res = budget_state avail t2 pa1 \<and>
       real_of_int (lq_extend_input_len q1 + min m clip_max_new_tokens) \<le> rem_total_tokens avail t2 pa"
      using add_one_req_ok [OF nr(2) ks m(1)] by blast
    from add(2) show ?thesis
    proof (elim disjE conjE exE)
      assume *: "res \<noteq> CONTINUE" "q2 = q1" "pa1 = pa" "t2 = t1"
      then show ?thesis
        using False nr(1,3,6,8) add(1) ok1 Cons.prems(2) by (auto simp: list_all2_refl waiting_ok_def intro!: exI [of _ "[]"])
    next
      fix d assume inc: "inc_lock_ref t1 (cr_last_node q1) = Some (d, t2)" and adm: "admitted_as m q1 pa q2 pa1"
        and res: "res = budget_state avail t2 pa1"
        and fits: "real_of_int (lq_extend_input_len q1 + min m clip_max_new_tokens) \<le> rem_total_tokens avail t2 pa"
      have ok2: "adder_ok avail t2 pa1 R mixed"
        by (rule adder_ok_admit [OF ok1 nr(5) m(2) inc adm fits Cons.prems(3)])
      note lists = admitted_as_lists [OF adm] and q2 = admitted_as_ready [OF nr(2,5) adm Cons.prems(3)]
      have "tree_kept t1 t2" using inc_lock_ref_full [OF nr(2) ks] inc by (auto simp: tree_kept_def)
      then have t2: "tree_kept t t2" by (rule tree_kept_trans [OF nr(3)])
      have same: "same_request q q2" using nr(6) q2(3) same_request_trans by blast
      have len: "length (cr_fill_ids q2) \<le> seqlen q" using q2(6) nr(7) by (simp add: seqlen_def)
      have ch2: "lq_is_chunked q2 = 0" using q2(7) nr(8) by simp
      have whole: "whole q2 \<and> pa_rem_chunk_tokens pa1 = None \<and> pa_new_chunked_req pa1 = pa_new_chunked_req pa"
        if "pa_rem_chunk_tokens pa = None"
        using q2(8) nr(6,7) admitted_as_no_chunk [OF adm that] that by (simp add: whole_def same_request_def)
      show ?thesis
      proof (cases "res = CONTINUE")
        case True
        have w: "\<forall>r\<in>set queue. waiting_ok prefix_computed t2 r"
          using Cons.prems(2) t2 by (fastforce simp: waiting_ok_def tree_kept_def)
        have ch: "\<forall>k. pa_rem_chunk_tokens pa1 = Some k \<longrightarrow> 0 < k"
          using budget_state_CONTINUE [of avail t2 pa1] True res by simp
        obtain pa' t' rest full qs where IH: "add_waiting avail max_running running_bs prefix_computed queue pa1 t2 = Some (Inr (pa', t', rest, full))"
          "adder_ok avail t' pa' R mixed" "tree_kept t2 t'"
          "pa_can_run_list pa' = pa_can_run_list pa1 @ qs" "list_all2 same_request queue (qs @ rest)"
          "running_bs + length (pa_can_run_list pa') \<le> max max_running (running_bs + length (pa_can_run_list pa1))"
          "\<forall>i<length qs. length (cr_fill_ids (qs ! i)) \<le> seqlen (queue ! i)" "\<forall>q\<in>set (qs @ rest). lq_is_chunked q = 0"
          "pa_rem_chunk_tokens pa1 = None \<longrightarrow> pa_new_chunked_req pa' = pa_new_chunked_req pa1 \<and> (\<forall>q\<in>set qs. whole q)"
          using Cons.IH [OF ok2 w ch] by (elim exE conjE)
        have "add_waiting avail max_running running_bs prefix_computed (q # queue) pa t = Some (Inr (pa', t', rest, full))"
          using False nr(1) add(1) True IH(1) by simp
        moreover have "\<forall>i<length (q2 # qs). length (cr_fill_ids ((q2 # qs) ! i)) \<le> seqlen ((q # queue) ! i)"
          using IH(7) len by (simp add: All_less_Suc2)
        ultimately show ?thesis
          using IH(2,4-6,8,9) lists(1) same tree_kept_trans [OF t2 IH(3)] False ch2 whole
          by (intro exI [of _ pa'] exI [of _ t'] exI [of _ rest] exI [of _ full] conjI exI [of _ "q2 # qs"]) auto
      next
        case stop: False
        then have "add_waiting avail max_running running_bs prefix_computed (q # queue) pa t = Some (Inr (pa1, t2, queue, res = NO_TOKEN))"
          using False nr(1) add(1) lists(1) by simp
        then show ?thesis
          using ok2 t2 lists(1) same len False ch2 whole Cons.prems(2)
          by (intro exI [of _ pa1] exI [of _ t2] exI [of _ queue] exI [of _ "res = NO_TOKEN"] conjI exI [of _ "[q2]"])
            (auto simp: list_all2_refl waiting_ok_def)
      qed
    qed
  qed
qed

text \<open>What the admitted requests need is there.\<close>

lemma adder_ok_fits:
  assumes "adder_ok avail t pa R mixed" and "pa_can_run_list pa \<noteq> []"
  shows "mixed + extend_total (pa_can_run_list pa) \<le> int avail + evictable_size t"
proof -
  have "real_of_int (mixed + extend_total (pa_can_run_list pa)) \<le> real_of_int (int avail + evictable_size t)"
    using assms by (simp add: adder_ok_def rem_total_tokens_def)
  then show ?thesis by (simp only: of_int_le_iff)
qed

end
