(* ===== verification/SchedPrefill.thy ===== *)
theory SchedPrefill
  imports SchedAdmit
begin

text \<open>
  The prefill batch in memory: \<open>prepare_for_extend\<close> gives every request a row of the request pool
  that holds the slots of its cached prefix and then fresh slots, one per new token.
\<close>

section \<open>Rows of the request pool\<close>

text \<open>Outside \<open>rows\<close> the pool reads as before.\<close>

definition pool_kept :: "nat set \<Rightarrow> req_pool \<Rightarrow> req_pool \<Rightarrow> bool" where
  "pool_kept rows p p' \<longleftrightarrow> map length (rp_table p') = map length (rp_table p) \<and> rp_size p' = rp_size p \<and>
     (\<forall>r. r \<notin> rows \<longrightarrow> rp_table p' ! r = rp_table p ! r)"

lemma pool_kept_trans: "pool_kept rows p p' \<Longrightarrow> pool_kept rows' p' p'' \<Longrightarrow> pool_kept (rows \<union> rows') p p''"
  by (simp add: pool_kept_def)

lemma pool_kept_free_slots [simp]:
  "pool_kept rows (p\<lparr>rp_free_slots := xs\<rparr>) p' = pool_kept rows p p'"
  "pool_kept rows p (p'\<lparr>rp_free_slots := xs\<rparr>) = pool_kept rows p p'"
  by (simp_all add: pool_kept_def)

lemma pool_kept_table: "rp_table p' = rp_table p \<Longrightarrow> rp_size p' = rp_size p \<Longrightarrow> pool_kept rows p p'"
  by (simp add: pool_kept_def)

text \<open>The rows are different rows of the table and long enough.\<close>

definition rows_ok :: "req_pool \<Rightarrow> nat list \<Rightarrow> nat list \<Rightarrow> bool" where
  "rows_ok p rows lens \<longleftrightarrow> distinct rows \<and> length rows = length lens \<and>
     (\<forall>i<length rows. rows ! i < length (rp_table p) \<and> lens ! i \<le> length (rp_table p ! (rows ! i)))"

definition same_shape :: "req_pool \<Rightarrow> req_pool \<Rightarrow> bool" where
  "same_shape p p' \<longleftrightarrow> map length (rp_table p') = map length (rp_table p) \<and> rp_free_slots p' = rp_free_slots p \<and>
     rp_size p' = rp_size p"

lemma same_shape_refl [simp]: "same_shape p p"
  by (simp add: same_shape_def)

lemma same_shape_trans: "same_shape p p' \<Longrightarrow> same_shape p' p'' \<Longrightarrow> same_shape p p''"
  by (simp add: same_shape_def)

lemma same_shape_row:
  assumes "same_shape p p'"
  shows "length (rp_table p') = length (rp_table p)"
    and "r < length (rp_table p) \<Longrightarrow> length (rp_table p' ! r) = length (rp_table p ! r)"
proof -
  have "length (map length (rp_table p')) = length (map length (rp_table p))" using assms by (simp only: same_shape_def)
  then show len: "length (rp_table p') = length (rp_table p)" by simp
  assume r: "r < length (rp_table p)"
  have "map length (rp_table p') ! r = map length (rp_table p) ! r" using assms by (simp only: same_shape_def)
  then show "length (rp_table p' ! r) = length (rp_table p ! r)" using r len by simp
qed

lemma rows_ok_same_shape: "rows_ok p rows lens \<Longrightarrow> same_shape p p' \<Longrightarrow> rows_ok p' rows lens"
  by (simp add: rows_ok_def same_shape_row)

lemma rows_ok_free_slots: "rows_ok (p\<lparr>rp_free_slots := xs\<rparr>) rows lens = rows_ok p rows lens"
  by (simp add: rows_ok_def)

lemma rows_okD: "rows_ok p rows lens \<Longrightarrow> i < length lens \<Longrightarrow> rows ! i < length (rp_table p)"
  by (simp add: rows_ok_def)

lemma rows_ok_Cons:
  "rows_ok p (row # rows) (n # ns) \<longleftrightarrow> row \<notin> set rows \<and> row < length (rp_table p) \<and> n \<le> length (rp_table p ! row) \<and> rows_ok p rows ns"
  by (auto simp: rows_ok_def All_less_Suc2)

lemma req_pool_write_ok:
  assumes "row < length (rp_table p)" and "a \<le> b" and "b \<le> length (rp_table p ! row)" and "length vs = b - a"
  shows "\<exists>p'. req_pool_write p row a b vs = Inr p' \<and> same_shape p p' \<and>
     take b (rp_table p' ! row) = take a (rp_table p ! row) @ vs \<and>
     (\<forall>r. r \<noteq> row \<longrightarrow> rp_table p' ! r = rp_table p ! r)"
proof -
  let ?r = "rp_table p ! row"
  let ?r' = "take a ?r @ vs @ drop b ?r"
  let ?p = "p\<lparr>rp_table := (rp_table p)[row := ?r']\<rparr>"
  have "length (Prelude.slice a b ?r) = b - a" using assms(2,3) by simp
  then have "req_pool_write p row a b vs = Inr ?p"
    using assms by (simp add: req_pool_write_def Let_def)
  moreover have "length ?r' = length ?r" using assms by simp
  then have "same_shape p ?p"
    using assms(1) by (simp add: same_shape_def map_update list_update_same_conv)
  moreover have "take b ?r' = take a ?r @ vs" using assms by simp
  ultimately show ?thesis using assms(1) by (intro exI [of _ ?p]) simp
qed

section \<open>Copying the prefixes\<close>

definition prepared :: "nat \<Rightarrow> latent_req \<Rightarrow> latent_req \<Rightarrow> bool" where
  "prepared row q q' \<longleftrightarrow> cr_pool_idx q' = row \<and> same_request q q' \<and> cr_fill_ids q' = cr_fill_ids q \<and>
     cr_prefix_indices q' = cr_prefix_indices q \<and> cr_last_node q' = cr_last_node q \<and> lq_is_retracted q' = False \<and>
     lq_is_chunked q' = lq_is_chunked q"

lemma prepare_req_ok:
  assumes "row < length (rp_table p)" and "length (cr_fill_ids q) \<le> length (rp_table p ! row)"
    and "length (cr_prefix_indices q) \<le> length (cr_fill_ids q)"
    and "lq_extend_input_len q = int (length (cr_fill_ids q)) - int (length (cr_prefix_indices q))"
  shows "\<exists>q' ids p'. prepare_req rl q row p = Inr (q', ids, p') \<and> prepared row q q' \<and> same_shape p p' \<and>
     take (length (cr_prefix_indices q)) (rp_table p' ! row) = cr_prefix_indices q \<and>
     (\<forall>r. r \<noteq> row \<longrightarrow> rp_table p' ! r = rp_table p ! r)"
proof -
  let ?n = "length (cr_prefix_indices q)"
  have "\<exists>p'. (if 0 < ?n then req_pool_write p row 0 ?n (cr_prefix_indices q) else Inr p) = Inr p' \<and> same_shape p p' \<and>
     take ?n (rp_table p' ! row) = cr_prefix_indices q \<and> (\<forall>r. r \<noteq> row \<longrightarrow> rp_table p' ! r = rp_table p ! r)"
  proof (cases "0 < ?n")
    case True
    then show ?thesis using req_pool_write_ok [OF assms(1), of 0 ?n "cr_prefix_indices q"] assms(2,3) by auto
  qed simp
  then obtain p' where "(if 0 < ?n then req_pool_write p row 0 ?n (cr_prefix_indices q) else Inr p) = Inr p'" "same_shape p p'"
     "take ?n (rp_table p' ! row) = cr_prefix_indices q" "\<forall>r. r \<noteq> row \<longrightarrow> rp_table p' ! r = rp_table p ! r" by blast
  then show ?thesis
    using assms(4) by (auto simp: prepare_req_def prepared_def same_request_def Let_def)
qed

lemma prepare_reqs_ok:
  assumes "rows_ok p rows (map (\<lambda>q. length (cr_fill_ids q)) qs)"
    and "\<forall>q\<in>set qs. length (cr_prefix_indices q) \<le> length (cr_fill_ids q) \<and>
           lq_extend_input_len q = int (length (cr_fill_ids q)) - int (length (cr_prefix_indices q))"
  shows "\<exists>qs' ids p'. prepare_reqs rl (zip qs rows) p = Inr (qs', ids, p') \<and> same_shape p p' \<and> length qs' = length qs \<and>
     (\<forall>i<length qs. prepared (rows ! i) (qs ! i) (qs' ! i) \<and>
        take (length (cr_prefix_indices (qs ! i))) (rp_table p' ! (rows ! i)) = cr_prefix_indices (qs ! i)) \<and>
     (\<forall>r. r \<notin> set rows \<longrightarrow> rp_table p' ! r = rp_table p ! r)"
  using assms
proof (induction qs arbitrary: rows p)
  case Nil
  then show ?case by simp
next
  case (Cons q qs)
  then obtain row rows' where rows: "rows = row # rows'" by (cases rows) (auto simp: rows_ok_def)
  have ok: "row \<notin> set rows'" "row < length (rp_table p)" "length (cr_fill_ids q) \<le> length (rp_table p ! row)"
    "rows_ok p rows' (map (\<lambda>q. length (cr_fill_ids q)) qs)"
    using Cons.prems(1) by (simp_all add: rows rows_ok_Cons)
  obtain q' ids p1 where one: "prepare_req rl q row p = Inr (q', ids, p1)" "prepared row q q'" "same_shape p p1"
    "take (length (cr_prefix_indices q)) (rp_table p1 ! row) = cr_prefix_indices q"
    "\<forall>r. r \<noteq> row \<longrightarrow> rp_table p1 ! r = rp_table p ! r"
    using prepare_req_ok [OF ok(2,3), of rl] Cons.prems(2) by auto
  obtain qs' ids' p' where rest: "prepare_reqs rl (zip qs rows') p1 = Inr (qs', ids', p')" "same_shape p1 p'" "length qs' = length qs"
    "\<forall>i<length qs. prepared (rows' ! i) (qs ! i) (qs' ! i) \<and>
        take (length (cr_prefix_indices (qs ! i))) (rp_table p' ! (rows' ! i)) = cr_prefix_indices (qs ! i)"
    "\<forall>r. r \<notin> set rows' \<longrightarrow> rp_table p' ! r = rp_table p1 ! r"
    using Cons.IH [OF rows_ok_same_shape [OF ok(4) one(3)]] Cons.prems(2) by auto
  have "rp_table p' ! row = rp_table p1 ! row" using rest(5) ok(1) by simp
  then show ?case
    unfolding rows using one rest same_shape_trans [OF one(3) rest(2)]
    by (intro exI [of _ "q' # qs'"] exI [of _ "ids @ ids'"] exI [of _ p']) (simp add: All_less_Suc2)
qed

section \<open>Writing the new slots\<close>

fun chunks :: "nat list \<Rightarrow> 'a list \<Rightarrow> 'a list list" where
  "chunks [] xs = []"
| "chunks (n # ns) xs = take n xs # chunks ns (drop n xs)"

lemma concat_chunks: "sum_list ns = length xs \<Longrightarrow> concat (chunks ns xs) = xs"
  by (induction ns arbitrary: xs) auto

lemma length_chunks [simp]: "length (chunks ns xs) = length ns"
  by (induction ns arbitrary: xs) auto

lemma chunks_nth_length: "sum_list ns = length xs \<Longrightarrow> i < length ns \<Longrightarrow> length (chunks ns xs ! i) = ns ! i"
proof (induction ns arbitrary: xs i)
  case Nil
  then show ?case by simp
next
  case (Cons n ns)
  then show ?case by (cases i) auto
qed

lemma write_req_to_token_ok:
  assumes "rows_ok p rows seqs" and "length pres = length seqs" and "\<forall>i<length seqs. pres ! i \<le> seqs ! i"
    and "sum_list (map2 (\<lambda>s n. s - n) seqs pres) = length locs"
  shows "\<exists>p'. write_req_to_token (zip rows (zip pres (zip seqs (map2 (\<lambda>s n. s - n) seqs pres)))) locs p = Inr p' \<and> same_shape p p' \<and>
     (\<forall>i<length seqs. take (seqs ! i) (rp_table p' ! (rows ! i)) =
        take (pres ! i) (rp_table p ! (rows ! i)) @ chunks (map2 (\<lambda>s n. s - n) seqs pres) locs ! i) \<and>
     (\<forall>r. r \<notin> set rows \<longrightarrow> rp_table p' ! r = rp_table p ! r)"
  using assms
proof (induction seqs arbitrary: rows pres locs p)
  case Nil
  then show ?case by simp
next
  case (Cons s seqs)
  then obtain row rows' pre pres' where eq: "rows = row # rows'" "pres = pre # pres'"
    by (cases rows; cases pres) (auto simp: rows_ok_def)
  have ok: "row \<notin> set rows'" "row < length (rp_table p)" "s \<le> length (rp_table p ! row)" "rows_ok p rows' seqs"
    using Cons.prems(1) by (simp_all add: eq rows_ok_Cons)
  have pre: "pre \<le> s" "\<forall>i<length seqs. pres' ! i \<le> seqs ! i" using Cons.prems(3) by (auto simp: eq All_less_Suc2)
  have sum: "s - pre \<le> length locs" "sum_list (map2 (\<lambda>s n. s - n) seqs pres') = length (drop (s - pre) locs)"
    using Cons.prems(4) by (auto simp: eq)
  obtain p1 where one: "req_pool_write p row pre s (take (s - pre) locs) = Inr p1" "same_shape p p1"
    "take s (rp_table p1 ! row) = take pre (rp_table p ! row) @ take (s - pre) locs"
    "\<forall>r. r \<noteq> row \<longrightarrow> rp_table p1 ! r = rp_table p ! r"
    using req_pool_write_ok [OF ok(2) pre(1) ok(3), of "take (s - pre) locs"] sum(1) by auto
  obtain p' where rest: "write_req_to_token (zip rows' (zip pres' (zip seqs (map2 (\<lambda>s n. s - n) seqs pres')))) (drop (s - pre) locs) p1 = Inr p'"
    "same_shape p1 p'"
    "\<forall>i<length seqs. take (seqs ! i) (rp_table p' ! (rows' ! i)) =
        take (pres' ! i) (rp_table p1 ! (rows' ! i)) @ chunks (map2 (\<lambda>s n. s - n) seqs pres') (drop (s - pre) locs) ! i"
    "\<forall>r. r \<notin> set rows' \<longrightarrow> rp_table p' ! r = rp_table p1 ! r"
    using Cons.IH [OF rows_ok_same_shape [OF ok(4) one(2)] _ pre(2) sum(2)] Cons.prems(2) eq(2) by auto
  have "rp_table p' ! row = rp_table p1 ! row" using rest(4) ok(1) by simp
  moreover have "rp_table p1 ! (rows' ! i) = rp_table p ! (rows' ! i)" if "i < length seqs" for i
  proof -
    have "rows' ! i \<in> set rows'" using that ok(4) by (simp add: rows_ok_def)
    then show ?thesis using one(4) ok(1) by metis
  qed
  ultimately show ?case
    unfolding eq using one rest same_shape_trans [OF one(2) rest(2)] by (auto simp: All_less_Suc2)
qed

section \<open>The whole preparation\<close>

lemma sum_list_int: "sum_list (map (\<lambda>x. int (f x)) xs) = int (sum_list (map f xs))"
  by (induction xs) auto

lemma alloc_req_slots_ok:
  "n \<le> length (rp_free_slots p) \<Longrightarrow>
     alloc_req_slots n p = Inr (take n (rp_free_slots p), p\<lparr>rp_free_slots := drop n (rp_free_slots p)\<rparr>)"
  by (simp add: alloc_req_slots_def req_pool_alloc_def)

text \<open>
  The outcome for the requests of the batch: \<open>own\<close> are the fresh slots of each of them, and its row
  reads as its prefix followed by them.
\<close>

definition batch_rows :: "sched_batch \<Rightarrow> token_alloc cache_state \<Rightarrow> nat list list \<Rightarrow> bool" where
  "batch_rows b c own \<longleftrightarrow> length own = length (sb_reqs b) \<and> sb_out_cache_loc b = Some (concat own) \<and>
     (\<forall>i<length own. let q = sb_reqs b ! i
        in length (own ! i) = length (cr_fill_ids q) - length (cr_prefix_indices q) \<and>
           req_pool_read (cs_pool c) (cr_pool_idx q) (length (cr_fill_ids q)) = cr_prefix_indices q @ own ! i)"

text \<open>The columns of a prefill batch.\<close>

definition prefill_columns :: "sched_batch \<Rightarrow> bool" where
  "prefill_columns b \<longleftrightarrow> sb_req_pool_indices b = map cr_pool_idx (sb_reqs b) \<and>
     sb_seq_lens b = map (\<lambda>q. length (cr_fill_ids q)) (sb_reqs b) \<and> sb_sampling_info b \<noteq> None \<and>
     (sb_return_logprob b \<longrightarrow> sb_top_logprobs_nums b \<noteq> None \<and> sb_token_ids_logprobs b \<noteq> None)"

lemma prepared_req_ok:
  assumes "prefill_ready t q" and "prepared row q q'" and "radix_reach t R" and "cr_last_node q \<in># R"
    and "keeps_held R t (cs_tree c)" and "rx_page_size (cs_tree c) = 1" and "row < length (rp_table (cs_pool c))"
    and "req_pool_read (cs_pool c) row (length (cr_fill_ids q)) = cr_prefix_indices q @ own"
    and "length own = length (cr_fill_ids q) - length (cr_prefix_indices q)"
  shows "req_ok (cache_req.truncate q') (cr_fill_ids q') c R"
proof -
  obtain ks where "at_node t (cr_last_node q) ks (cr_prefix_indices q)" "prefix ks (cr_fill_ids q)"
    using assms(1) by (auto simp: prefill_ready_def)
  then have "at_node (cs_tree c) (cr_last_node q) ks (cr_prefix_indices q) \<and> prefix ks (cr_fill_ids q)"
    using assms(4,5) by (simp add: keeps_held_def)
  then show ?thesis
    using assms(2,4,6-9) prefill_ready_length(1) [OF assms(3,1)]
    by (auto simp: req_ok_def prepared_def cache_req.defs)
qed

lemma prepare_for_extend_ok:
  fixes b :: sched_batch
  defines "reqs \<equiv> sb_reqs b" and "n \<equiv> length (sb_reqs b)"
  assumes mem: "mem_ok c R"
    and ready: "\<forall>q\<in>set reqs. prefill_ready (cs_tree c) q \<and> cr_last_node q \<in># R"
    and fits: "extend_total reqs \<le> int (token_available_size (cs_alloc c)) + evictable_size (cs_tree c)"
    and free: "n \<le> length (rp_free_slots (cs_pool c))"
    and rows: "rows_ok (cs_pool c) (take n (rp_free_slots (cs_pool c))) (map (\<lambda>q. length (cr_fill_ids q)) reqs)"
  shows "\<exists>b' c' own. prepare_for_extend extend_alloc_token b c = Some (Inr (b', c')) \<and> mem_ok c' R \<and>
     batch_rows b' c' own \<and> owned_slots c = owned_slots c' + mset (concat own) \<and>
     rp_free_slots (cs_pool c') = drop n (rp_free_slots (cs_pool c)) \<and> sb_forward_mode b' = Some EXTEND \<and>
     list_all2 same_request reqs (sb_reqs b') \<and> map cr_last_node (sb_reqs b') = map cr_last_node reqs \<and>
     map cr_fill_ids (sb_reqs b') = map cr_fill_ids reqs \<and> map lq_is_chunked (sb_reqs b') = map lq_is_chunked reqs \<and>
     map cr_pool_idx (sb_reqs b') = take n (rp_free_slots (cs_pool c)) \<and> prefill_columns b' \<and>
     (\<forall>q\<in>set (sb_reqs b'). lq_is_retracted q = False) \<and>
     keeps_held R (cs_tree c) (cs_tree c') \<and> pool_kept (set (take n (rp_free_slots (cs_pool c)))) (cs_pool c) (cs_pool c') \<and>
     (\<forall>q\<in>set (sb_reqs b'). req_ok (cache_req.truncate q) (cr_fill_ids q) c' R)"
proof -
  let ?p = "cs_pool c"
  let ?rows = "take n (rp_free_slots ?p)"
  let ?p0 = "?p\<lparr>rp_free_slots := drop n (rp_free_slots ?p)\<rparr>"
  let ?pres = "map (\<lambda>q. length (cr_prefix_indices q)) reqs" and ?seqs = "map (\<lambda>q. length (cr_fill_ids q)) reqs"
  have reach: "radix_reach (cs_tree c) R" using mem by (simp add: mem_ok_def)
  have lens: "length (cr_prefix_indices q) \<le> length (cr_fill_ids q) \<and>
     lq_extend_input_len q = int (length (cr_fill_ids q)) - int (length (cr_prefix_indices q))" if "q \<in> set reqs" for q
    using ready that prefill_ready_length(1) [OF reach] by (auto simp: prefill_ready_def)
  have total: "extend_total reqs = int (sum_list (map (\<lambda>q. length (cr_fill_ids q) - length (cr_prefix_indices q)) reqs))"
  proof -
    have "map lq_extend_input_len reqs = map (\<lambda>q. int (length (cr_fill_ids q) - length (cr_prefix_indices q))) reqs"
      using lens by auto
    then show ?thesis by (simp only: extend_total_def sum_list_int)
  qed
  define num where "num = sum_list (map (\<lambda>q. length (cr_fill_ids q) - length (cr_prefix_indices q)) reqs)"
  have num: "sum_list (map length (map (\<lambda>r. drop (length (cr_prefix_indices r)) (cr_fill_ids r)) reqs)) = num"
    by (simp add: num_def comp_def)
  have rows0: "rows_ok ?p0 ?rows ?seqs" using rows by (simp only: rows_ok_free_slots)
  obtain qs' ids p1 where prep: "prepare_reqs (sb_return_logprob b) (zip reqs ?rows) ?p0 = Inr (qs', ids, p1)" "same_shape ?p0 p1"
    "length qs' = length reqs"
    "\<forall>i<length reqs. prepared (?rows ! i) (reqs ! i) (qs' ! i) \<and>
       take (length (cr_prefix_indices (reqs ! i))) (rp_table p1 ! (?rows ! i)) = cr_prefix_indices (reqs ! i)"
    "\<forall>r. r \<notin> set ?rows \<longrightarrow> rp_table p1 ! r = rp_table ?p0 ! r"
    using prepare_reqs_ok [OF rows0, of "sb_return_logprob b"] lens by (metis (no_types, lifting))
  have mem1: "mem_ok (c\<lparr>cs_pool := p1\<rparr>) R" using mem by (simp add: mem_ok_def)
  have "int num \<le> int (token_available_size (cs_alloc (c\<lparr>cs_pool := p1\<rparr>))) + evictable_size (cs_tree (c\<lparr>cs_pool := p1\<rparr>))"
    using fits total by (simp add: num_def)
  with alloc_token_slots_ok [OF mem1, of num]
  obtain locs c1 where al: "alloc_token_slots num (c\<lparr>cs_pool := p1\<rparr>) = Some (Inr (locs, c1))" "length locs = num" "mem_ok c1 R"
    "cs_pool c1 = p1" "owned_slots c = owned_slots c1 + mset locs" "keeps_held R (cs_tree c) (cs_tree c1)"
    by (auto simp: owned_slots_def)
  let ?ns = "map2 (\<lambda>s n. s - n) ?seqs ?pres"
  have ns: "?ns = map (\<lambda>q. length (cr_fill_ids q) - length (cr_prefix_indices q)) reqs"
    by (simp add: map2_map_map)
  then have sum: "sum_list ?ns = length locs" using al(2) by (simp add: num_def)
  have exts: "map nat (map lq_extend_input_len reqs) = ?ns"
    unfolding ns using lens by auto
  have rows1: "rows_ok p1 ?rows ?seqs" by (rule rows_ok_same_shape [OF rows0 prep(2)])
  have le: "\<forall>i<length ?seqs. ?pres ! i \<le> ?seqs ! i" using lens by simp
  obtain p2 where wr: "write_req_to_token (zip ?rows (zip ?pres (zip ?seqs ?ns))) locs p1 = Inr p2" "same_shape p1 p2"
    "\<forall>i<length ?seqs. take (?seqs ! i) (rp_table p2 ! (?rows ! i)) = take (?pres ! i) (rp_table p1 ! (?rows ! i)) @ chunks ?ns locs ! i"
    "\<forall>r. r \<notin> set ?rows \<longrightarrow> rp_table p2 ! r = rp_table p1 ! r"
    using write_req_to_token_ok [OF rows1 _ le sum] by auto
  let ?c' = "c1\<lparr>cs_pool := p2\<rparr>"
  have "\<exists>b'. prepare_for_extend extend_alloc_token b c = Some (Inr (b', ?c')) \<and> sb_reqs b' = qs' \<and>
      sb_out_cache_loc b' = Some locs \<and> sb_forward_mode b' = Some EXTEND \<and> sb_req_pool_indices b' = ?rows \<and>
      sb_seq_lens b' = ?seqs \<and> sb_sampling_info b' \<noteq> None \<and>
      (sb_return_logprob b' \<longrightarrow> sb_top_logprobs_nums b' \<noteq> None \<and> sb_token_ids_logprobs b' \<noteq> None)"
    using alloc_req_slots_ok [OF free] prep(1) al(1,4) wr(1)
    unfolding prepare_for_extend_def Let_def reqs_def [symmetric] n_def [symmetric] num extend_alloc_token_def exts
    by (simp add: reqs_def [symmetric] n_def)
  then obtain b' where b': "prepare_for_extend extend_alloc_token b c = Some (Inr (b', ?c'))" "sb_reqs b' = qs'"
      "sb_out_cache_loc b' = Some locs" "sb_forward_mode b' = Some EXTEND" "sb_req_pool_indices b' = ?rows"
      "sb_seq_lens b' = ?seqs" "sb_sampling_info b' \<noteq> None"
      "sb_return_logprob b' \<longrightarrow> sb_top_logprobs_nums b' \<noteq> None \<and> sb_token_ids_logprobs b' \<noteq> None" by blast
  let ?own = "chunks ?ns locs"
  have own: "length ?own = length reqs" "concat ?own = locs" using concat_chunks [OF sum] by simp_all
  have row: "length (?own ! i) = length (cr_fill_ids (reqs ! i)) - length (cr_prefix_indices (reqs ! i))"
    "req_pool_read p2 (?rows ! i) (length (cr_fill_ids (reqs ! i))) = cr_prefix_indices (reqs ! i) @ ?own ! i"
    "?rows ! i < length (rp_table p2)" if "i < length reqs" for i
  proof -
    show "length (?own ! i) = length (cr_fill_ids (reqs ! i)) - length (cr_prefix_indices (reqs ! i))"
      using chunks_nth_length [OF sum, of i] that by simp
    show "req_pool_read p2 (?rows ! i) (length (cr_fill_ids (reqs ! i))) = cr_prefix_indices (reqs ! i) @ ?own ! i"
      using wr(3) prep(4) that by (simp add: req_pool_read_def)
    show "?rows ! i < length (rp_table p2)"
      using rows_okD [OF rows_ok_same_shape [OF rows1 wr(2)]] that by simp
  qed
  have fields: "prepared (?rows ! i) (reqs ! i) (qs' ! i)" if "i < length reqs" for i
    using prep(4) that by blast
  have "batch_rows b' ?c' ?own"
    using own b'(2,3) prep(3) row(1,2) fields by (simp add: batch_rows_def prepared_def Let_def)
  moreover have "list_all2 same_request reqs qs'"
    using prep(3) fields by (simp add: list_all2_conv_all_nth prepared_def)
  moreover have "map cr_last_node qs' = map cr_last_node reqs" "map lq_is_chunked qs' = map lq_is_chunked reqs"
    "map cr_fill_ids qs' = map cr_fill_ids reqs"
    using prep(3) fields by (simp_all add: list_eq_iff_nth_eq prepared_def)
  moreover have rows_eq: "map cr_pool_idx qs' = ?rows"
    using prep(3) fields free by (simp add: list_eq_iff_nth_eq prepared_def n_def reqs_def)
  moreover have "\<forall>q\<in>set qs'. lq_is_retracted q = False"
    using prep(3) fields by (auto simp: in_set_conv_nth prepared_def)
  moreover have "map (\<lambda>q. length (cr_fill_ids q)) qs' = ?seqs"
    using prep(3) fields by (simp add: list_eq_iff_nth_eq prepared_def)
  then have "prefill_columns b'" using b'(2,5-8) rows_eq by (simp add: prefill_columns_def)
  moreover have "keeps_held R (cs_tree c) (cs_tree ?c')" using al(6) by simp
  moreover have "pool_kept (set ?rows) ?p (cs_pool ?c')"
    using same_shape_trans [OF prep(2) wr(2)] prep(5) wr(4) by (simp add: pool_kept_def same_shape_def)
  moreover have "req_ok (cache_req.truncate (qs' ! i)) (cr_fill_ids (qs' ! i)) ?c' R" if "i < length reqs" for i
    by (rule prepared_req_ok [OF _ fields [OF that] reach, where own = "?own ! i"])
      (use ready that al(3,6) row [OF that] in \<open>simp_all add: mem_ok_def\<close>)
  then have "\<forall>q\<in>set qs'. req_ok (cache_req.truncate q) (cr_fill_ids q) ?c' R"
    using prep(3) by (metis in_set_conv_nth)
  moreover have "mem_ok ?c' R" using al(3) by (simp add: mem_ok_def)
  moreover have "rp_free_slots p2 = drop n (rp_free_slots (cs_pool c))"
    using same_shape_trans [OF prep(2) wr(2)] apply -
    apply (unfold same_shape_def)
    apply (elim conjE)
    apply (erule trans)
    apply simp
    done
  moreover have "owned_slots ?c' = owned_slots c1" by (simp add: owned_slots_def)
  ultimately show ?thesis
    using b'(1,2,4) al(5) own(2) by (intro exI [of _ b'] exI [of _ ?c'] exI [of _ ?own]) simp
qed

section \<open>The prefill step of the scheduler\<close>

text \<open>
  What the scheduler keeps between steps, as far as a prefill needs it.  \<open>max_running_requests\<close> is
  also the number of rows of the request pool that are handed out at most, so as many rows are free
  as requests may still start.
\<close>

definition pool_room :: "nat \<Rightarrow> nat \<Rightarrow> latent_req list \<Rightarrow> req_pool \<Rightarrow> bool" where
  "pool_room max_running running_bs queue p \<longleftrightarrow> distinct (rp_free_slots p) \<and>
     max_running - running_bs \<le> length (rp_free_slots p) \<and>
     (\<forall>r\<in>set (rp_free_slots p). r < length (rp_table p) \<and> (\<forall>q\<in>set queue. seqlen q \<le> length (rp_table p ! r)))"

definition running_ok :: "latent_req \<Rightarrow> bool" where
  "running_ok q \<longleftrightarrow> (\<exists>m. sp_max_new_tokens (lq_params q) = Some m \<and> int (length (cr_output_ids q)) \<le> m)"

definition prefill_state_ok :: "sched_config \<Rightarrow> nat multiset \<Rightarrow> scheduler \<Rightarrow> bool" where
  "prefill_state_ok cfg R s \<longleftrightarrow> mem_ok (sc_cache s) R \<and> 0 \<le> sc_new_token_ratio s \<and>
     (\<exists>W. radix_reach (sc_waiting_queue_tree s) W) \<and> rx_page_size (sc_waiting_queue_tree s) = 1 \<and>
     (\<forall>q\<in>set (sc_waiting_queue s). lq_is_chunked q = 0 \<and> (\<exists>m. sp_max_new_tokens (lq_params q) = Some m \<and> 0 \<le> m)) \<and>
     (\<forall>q\<in>set (sb_reqs (sc_running_batch s)). running_ok q) \<and>
     (\<forall>k. sf_chunked_prefill_size cfg = Some k \<longrightarrow> 0 < k) \<and> (\<forall>qs. mset (sf_shuffle cfg qs) = mset qs) \<and>
     pool_room (sf_max_running_requests cfg) (batch_size (sc_running_batch s)) (sc_waiting_queue s) (cs_pool (sc_cache s))"

lemma running_estimates:
  assumes "\<forall>q\<in>set qs. running_ok q" and "0 \<le> ratio"
  shows "\<exists>es. map_r (running_estimate ratio) qs = Inr es \<and> 0 \<le> sum_list es"
  using assms(1)
proof (induction qs)
  case Nil
  then show ?case by simp
next
  case (Cons q qs)
  then obtain m es where *: "sp_max_new_tokens (lq_params q) = Some m" "int (length (cr_output_ids q)) \<le> m"
    "map_r (running_estimate ratio) qs = Inr es" "0 \<le> sum_list es"
    by (auto simp: running_ok_def)
  let ?e = "real_of_int (min (m - int (length (cr_output_ids q))) clip_max_new_tokens) * ratio"
  have "0 \<le> ?e"
    using *(2) assms(2) by (intro mult_nonneg_nonneg) (simp_all add: clip_max_new_tokens_def)
  moreover have "running_estimate ratio q = Inr ?e" using *(1) by (simp add: running_estimate_def)
  ultimately show ?case using *(3,4) by simp
qed

lemma same_request_len: "same_request q q' \<Longrightarrow> seqlen q' = seqlen q"
  by (simp add: same_request_def seqlen_def)

lemma prefill_adder_init_ok:
  assumes "\<forall>q\<in>set running. running_ok q" and "0 \<le> ratio" and "radix_reach t R"
  shows "\<exists>pa. prefill_adder_init running ratio rem_input chunk 0 = Inr pa \<and> adder_ok avail t pa R 0 \<and>
     pa_rem_chunk_tokens pa = chunk \<and> pa_can_run_list pa = [] \<and> pa_new_chunked_req pa = None"
  using running_estimates [OF assms(1,2)] assms(3)
  by (auto simp: prefill_adder_init_def adder_ok_def extend_total_def option.map_ident)

end
