(* ===== verification/SchedStep.thy ===== *)
theory SchedStep
  imports SchedPrefill
begin

text \<open>
  The prefill step as a whole: policy, admission, allocation and preparation together never run out
  of memory, lose no request and leak no slot.
\<close>

section \<open>The queue after the policy\<close>

text \<open>What identifies a request and never changes while it waits.\<close>

definition request_key ::
  "latent_req \<Rightarrow> string \<times> sampling_params \<times> nat list \<times> nat list \<times> finish_reason option \<times> tokenizer option \<times> bool" where
  "request_key q = (lq_rid q, lq_params q, cr_origin_input_ids q, cr_output_ids q, lq_finished_reason q, lq_tokenizer q, lq_return_logprob q)"

lemma same_request_key: "same_request q q' \<longleftrightarrow> request_key q' = request_key q"
  by (auto simp: same_request_def request_key_def)

lemma same_request_keys: "list_all2 same_request qs qs' \<Longrightarrow> map request_key qs' = map request_key qs"
  by (induction rule: list_all2_induct) (simp_all add: same_request_key)

lemma matched_as_same: "matched_as t q q' \<Longrightarrow> same_request q q'"
proof -
  assume "matched_as t q q'"
  then obtain f p n where "q' = q\<lparr>cr_fill_ids := f, cr_prefix_indices := p, cr_last_node := n\<rparr>"
    by (auto simp: matched_as_def)
  then show ?thesis by (simp add: same_request_def)
qed

lemma queue_ready:
  assumes "\<forall>q\<in>set queue. lq_is_chunked q = 0 \<and> (\<exists>m. sp_max_new_tokens (lq_params q) = Some m \<and> 0 \<le> m)"
    and "if b then list_all2 (matched_as t) queue matched else matched = queue"
  shows "list_all2 same_request queue matched" and "\<forall>q\<in>set matched. waiting_ok b t q"
    and "\<forall>q\<in>set matched. \<exists>r\<in>set queue. seqlen q = seqlen r"
proof -
  show same: "list_all2 same_request queue matched"
    using assms(2) by (cases b) (auto intro: list_all2_mono matched_as_same simp: list_all2_refl)
  have nth: "same_request (queue ! i) (matched ! i)" "i < length queue" if "i < length matched" for i
    using same that by (simp_all add: list_all2_conv_all_nth)
  show "\<forall>q\<in>set matched. waiting_ok b t q"
  proof
    fix q assume "q \<in> set matched"
    then obtain i where i: "i < length matched" "q = matched ! i" by (auto simp: in_set_conv_nth)
    have "\<exists>m. sp_max_new_tokens (lq_params q) = Some m \<and> 0 \<le> m"
      using assms(1) nth [OF i(1)] i(2) by (auto simp: same_request_def)
    moreover have "lq_is_chunked q = 0"
    proof (cases b)
      case True
      then have "matched_as t (queue ! i) q" using assms(2) i by (simp add: list_all2_conv_all_nth)
      then obtain f p n where "q = (queue ! i)\<lparr>cr_fill_ids := f, cr_prefix_indices := p, cr_last_node := n\<rparr>"
        by (auto simp: matched_as_def)
      then show ?thesis using assms(1) nth(2) [OF i(1)] by simp
    next
      case False
      then show ?thesis using assms i by auto
    qed
    moreover have "matched_as t (queue ! i) q" if b
      using assms(2) that i by (simp add: list_all2_conv_all_nth)
    ultimately show "waiting_ok b t q"
      using nth(1) [OF i(1)] i(2) by (auto simp: waiting_ok_def matched_as_def same_request_def)
  qed
  show "\<forall>q\<in>set matched. \<exists>r\<in>set queue. seqlen q = seqlen r"
  proof
    fix q assume "q \<in> set matched"
    then obtain i where i: "i < length matched" "q = matched ! i" by (auto simp: in_set_conv_nth)
    then show "\<exists>r\<in>set queue. seqlen q = seqlen r"
      using same_request_len [OF nth(1) [OF i(1)]] nth(2) [OF i(1)] by auto
  qed
qed

lemma pool_room_rows:
  assumes "pool_room max_running running_bs queue p" and "length lens \<le> max_running - running_bs"
    and "\<forall>n\<in>set lens. \<exists>q\<in>set queue. n \<le> seqlen q"
  shows "rows_ok p (take (length lens) (rp_free_slots p)) lens" and "length lens \<le> length (rp_free_slots p)"
proof -
  have d: "distinct (rp_free_slots p)" "max_running - running_bs \<le> length (rp_free_slots p)"
    and r: "\<forall>r\<in>set (rp_free_slots p). r < length (rp_table p) \<and> (\<forall>q\<in>set queue. seqlen q \<le> length (rp_table p ! r))"
    using assms(1) by (simp_all add: pool_room_def)
  show le: "length lens \<le> length (rp_free_slots p)" using d(2) assms(2) by linarith
  let ?rows = "take (length lens) (rp_free_slots p)"
  have len: "length ?rows = length lens" using le by simp
  have "?rows ! i < length (rp_table p) \<and> lens ! i \<le> length (rp_table p ! (?rows ! i))" if i: "i < length ?rows" for i
  proof -
    have row: "?rows ! i \<in> set (rp_free_slots p)" using nth_mem [OF i] in_set_takeD by metis
    have "lens ! i \<in> set lens" using i len by simp
    then obtain q where q: "q \<in> set queue" "lens ! i \<le> seqlen q" using assms(3) by blast
    then have "seqlen q \<le> length (rp_table p ! (?rows ! i))" using r row by blast
    then show ?thesis using r row order_trans [OF q(2)] by blast
  qed
  moreover have "distinct ?rows" using d(1) by (rule distinct_take)
  ultimately show "rows_ok p ?rows lens" using len unfolding rows_ok_def by blast
qed

lemma map_bump:
  assumes "\<And>x. f (g x) = f x"
  shows "map f (xs[i := g (xs ! i)]) = map f xs"
proof (cases "i < length xs")
  case True
  then have "f (g (xs ! i)) = map f xs ! i" using assms by simp
  then show ?thesis by (simp only: map_update list_update_id)
qed (simp add: list_update_beyond)

section \<open>The step\<close>

text \<open>The request that the step leaves chunked counts one more chunk.\<close>

definition bump_chunked :: "nat option \<Rightarrow> latent_req list \<Rightarrow> latent_req list" where
  "bump_chunked i_opt qs =
     (case i_opt of None \<Rightarrow> qs | Some i \<Rightarrow> qs[i := (qs ! i)\<lparr>lq_is_chunked := lq_is_chunked (qs ! i) + 1\<rparr>])"

lemma map_bump_chunked:
  assumes "\<And>q. f (q\<lparr>lq_is_chunked := lq_is_chunked q + 1\<rparr>) = f q"
  shows "map f (bump_chunked i_opt qs) = map f qs"
  using map_bump [of f "\<lambda>q. q\<lparr>lq_is_chunked := lq_is_chunked q + 1\<rparr>", OF assms]
  by (cases i_opt) (simp_all add: bump_chunked_def)

lemma prefill_policy_ok:
  assumes "prefill_state_ok cfg R s"
  shows "\<exists>b queue tree wt. calc_priority (sf_shuffle cfg) (sf_policy cfg) (cs_tree (sc_cache s)) (sc_waiting_queue_tree s)
       (sc_waiting_queue s) = Some (Inr (b, queue, tree, wt)) \<and>
     radix_reach tree R \<and> tree_kept (cs_tree (sc_cache s)) tree \<and> (\<exists>W. radix_reach wt W) \<and> rx_page_size wt = 1 \<and>
     (\<forall>q\<in>set queue. waiting_ok b tree q \<and> (\<exists>r\<in>set (sc_waiting_queue s). seqlen q = seqlen r)) \<and>
     image_mset request_key (mset queue) = image_mset request_key (mset (sc_waiting_queue s))"
proof -
  let ?queue = "sc_waiting_queue s" and ?act = "determine_active_policy (sf_policy cfg) (sc_waiting_queue s)"
  have reach: "radix_reach (cs_tree (sc_cache s)) R" using assms by (simp add: prefill_state_ok_def mem_ok_def)
  obtain W where wt: "radix_reach (sc_waiting_queue_tree s) W" "rx_page_size (sc_waiting_queue_tree s) = 1"
    using assms by (auto simp: prefill_state_ok_def)
  have m: "\<forall>q\<in>set ?queue. lq_is_chunked q = 0 \<and> (\<exists>m. sp_max_new_tokens (lq_params q) = Some m \<and> 0 \<le> m)"
    and sh: "\<forall>qs. mset (sf_shuffle cfg qs) = mset qs"
    using assms by (simp_all add: prefill_state_ok_def)
  then have mx: "\<forall>q\<in>set ?queue. max_new_set q" by (auto simp: max_new_set_def)
  obtain queue matched tree wt' W' where run: "calc_priority (sf_shuffle cfg) (sf_policy cfg) (cs_tree (sc_cache s)) (sc_waiting_queue_tree s)
       ?queue = Some (Inr (cache_aware ?act, queue, tree, wt'))"
    "radix_reach tree R" "tree_kept (cs_tree (sc_cache s)) tree" "radix_reach wt' W'" "rx_page_size wt' = 1"
    "mset queue = mset matched" "if cache_aware ?act then list_all2 (matched_as tree) ?queue matched else matched = ?queue"
    using calc_priority_spec [OF reach wt mx sh, of "sf_policy cfg"] by (elim exE conjE)
  note ready = queue_ready [OF m run(7)]
  have "set queue = set matched" using run(6) by (rule mset_eq_setD)
  moreover have "mset (map request_key matched) = mset (map request_key ?queue)"
    using same_request_keys [OF ready(1)] by simp
  moreover have "\<exists>W. radix_reach wt' W" using run(4) by blast
  ultimately show ?thesis using run ready(2,3) by (intro exI [of _ "cache_aware ?act"] exI [of _ queue] exI [of _ tree] exI [of _ wt']) simp
qed

text \<open>What the step promises: \<open>own\<close> are the fresh slots of the requests of the batch.\<close>

definition prefill_outcome ::
  "sched_config \<Rightarrow> nat multiset \<Rightarrow> scheduler \<Rightarrow> sched_batch option \<Rightarrow> scheduler \<Rightarrow> nat list list \<Rightarrow> bool" where
  "prefill_outcome cfg R s ob s' own \<longleftrightarrow>
     (let reqs = (case ob of None \<Rightarrow> [] | Some b \<Rightarrow> sb_reqs b); R' = R + mset (map cr_last_node reqs); c' = sc_cache s'
      in mem_ok c' R' \<and> owned_slots (sc_cache s) = owned_slots c' + mset (concat own) \<and>
         rp_free_slots (cs_pool c') = drop (length reqs) (rp_free_slots (cs_pool (sc_cache s))) \<and>
         image_mset request_key (mset (reqs @ sc_waiting_queue s')) = image_mset request_key (mset (sc_waiting_queue s)) \<and>
         sb_reqs (sc_running_batch s') = sb_reqs (sc_running_batch s) \<and>
         (\<forall>q\<in>set reqs. req_ok (cache_req.truncate q) (cr_fill_ids q) c' R') \<and>
         (case ob of None \<Rightarrow> own = []
          | Some b \<Rightarrow> reqs \<noteq> [] \<and> batch_rows b c' own \<and>
              batch_size (sc_running_batch s) + length reqs \<le> sf_max_running_requests cfg))"

text \<open>What it leaves alone, and the shape of the new batch.\<close>

definition prefill_frame :: "sched_config \<Rightarrow> nat multiset \<Rightarrow> scheduler \<Rightarrow> sched_batch option \<Rightarrow> scheduler \<Rightarrow> bool" where
  "prefill_frame cfg R s ob s' \<longleftrightarrow>
     (let reqs = (case ob of None \<Rightarrow> [] | Some b \<Rightarrow> sb_reqs b); p = cs_pool (sc_cache s); rows = take (length reqs) (rp_free_slots p)
      in keeps_held R (cs_tree (sc_cache s)) (cs_tree (sc_cache s')) \<and> pool_kept (set rows) p (cs_pool (sc_cache s')) \<and>
         map cr_pool_idx reqs = rows \<and> (\<forall>q\<in>set reqs. lq_is_retracted q = False) \<and>
         (\<forall>q\<in>set (sc_waiting_queue s'). lq_is_chunked q = 0) \<and>
         (\<exists>W. radix_reach (sc_waiting_queue_tree s') W) \<and> rx_page_size (sc_waiting_queue_tree s') = 1 \<and>
         sc_new_token_ratio s' = sc_new_token_ratio s \<and> sc_last_batch s' = sc_last_batch s \<and>
         (\<exists>f. sc_running_batch s' = (sc_running_batch s)\<lparr>sb_batch_is_full := f\<rparr>) \<and>
         (sf_chunked_prefill_size cfg = None \<longrightarrow>
            sc_chunked_req s' = None \<and> (\<forall>q\<in>set reqs. whole q \<and> lq_is_chunked q = 0)) \<and>
         (case ob of None \<Rightarrow> True | Some b \<Rightarrow> sb_forward_mode b = Some EXTEND \<and> prefill_columns b \<and> sb_decoding_reqs b = None))"

lemma prefill_step_ok:
  assumes ok: "prefill_state_ok cfg R s" and chunk: "sc_chunked_req s = None" and mixed: "\<not> sf_is_mixed_chunk cfg"
  shows "\<exists>ob s' own. get_new_batch_prefill cfg s = Some (Inr (ob, s')) \<and> prefill_outcome cfg R s ob s' own \<and>
     prefill_frame cfg R s ob s'"
proof -
  let ?running = "sc_running_batch s" and ?c = "sc_cache s" and ?max = "sf_max_running_requests cfg"
  let ?avail = "token_available_size (cs_alloc ?c)" and ?bs = "batch_size ?running"
  have mem: "mem_ok ?c R" using ok by (simp add: prefill_state_ok_def)
  show ?thesis
  proof (cases "(sb_batch_is_full ?running \<or> sc_waiting_queue s = []) \<or> ?max \<le> ?bs")
    case True
    then have "get_new_batch_prefill cfg s = Some (Inr (None, s)) \<or>
       get_new_batch_prefill cfg s = Some (Inr (None, s\<lparr>sc_running_batch := ?running\<lparr>sb_batch_is_full := True\<rparr>\<rparr>))"
      using chunk by (auto simp: get_new_batch_prefill_def Let_def)
    then obtain f where run: "get_new_batch_prefill cfg s = Some (Inr (None, s\<lparr>sc_running_batch := ?running\<lparr>sb_batch_is_full := f\<rparr>\<rparr>))"
    proof
      assume "get_new_batch_prefill cfg s = Some (Inr (None, s))"
      then show thesis by (intro that [of "sb_batch_is_full ?running"]) simp
    qed (rule that)
    have wt: "\<exists>W. radix_reach (sc_waiting_queue_tree s) W" "rx_page_size (sc_waiting_queue_tree s) = 1"
      "\<forall>q\<in>set (sc_waiting_queue s). lq_is_chunked q = 0"
      using ok unfolding prefill_state_ok_def by blast+
    let ?s = "s\<lparr>sc_running_batch := ?running\<lparr>sb_batch_is_full := f\<rparr>\<rparr>"
    have "prefill_outcome cfg R s None ?s []" using mem by (simp add: prefill_outcome_def)
    moreover have "prefill_frame cfg R s None ?s" using wt chunk by (auto simp: prefill_frame_def pool_kept_def)
    ultimately show ?thesis using run by blast
  next
    case go: False
    obtain b queue tree wt W where pol: "calc_priority (sf_shuffle cfg) (sf_policy cfg) (cs_tree ?c) (sc_waiting_queue_tree s)
       (sc_waiting_queue s) = Some (Inr (b, queue, tree, wt))" "radix_reach tree R" "tree_kept (cs_tree ?c) tree"
      "\<forall>q\<in>set queue. waiting_ok b tree q \<and> (\<exists>r\<in>set (sc_waiting_queue s). seqlen q = seqlen r)"
      "image_mset request_key (mset queue) = image_mset request_key (mset (sc_waiting_queue s))"
      "radix_reach wt W" "rx_page_size wt = 1"
      using prefill_policy_ok [OF ok] by (elim exE conjE)
    have run_ok: "\<forall>q\<in>set (sb_reqs ?running). running_ok q" "0 \<le> sc_new_token_ratio s"
      "\<forall>k. sf_chunked_prefill_size cfg = Some k \<longrightarrow> 0 < k"
      using ok by (simp_all add: prefill_state_ok_def)
    obtain pa where pa: "prefill_adder_init (sb_reqs ?running) (sc_new_token_ratio s) (sf_max_prefill_tokens cfg)
        (sf_chunked_prefill_size cfg) 0 = Inr pa" "adder_ok ?avail tree pa R 0"
      "pa_rem_chunk_tokens pa = sf_chunked_prefill_size cfg" "pa_can_run_list pa = []" "pa_new_chunked_req pa = None"
      using prefill_adder_init_ok [OF run_ok(1,2) pol(2), where rem_input = "sf_max_prefill_tokens cfg" and avail = ?avail and chunk = "sf_chunked_prefill_size cfg"]
      by (elim exE conjE)
    have w: "\<forall>q\<in>set queue. waiting_ok b tree q" and ch: "\<forall>k. pa_rem_chunk_tokens pa = Some k \<longrightarrow> 0 < k"
      using pol(4) run_ok(3) pa(3) by simp_all
    obtain pa1 t1 rest full qs where add: "add_waiting ?avail ?max ?bs b queue pa tree = Some (Inr (pa1, t1, rest, full))"
      "adder_ok ?avail t1 pa1 R 0" "tree_kept tree t1" "pa_can_run_list pa1 = pa_can_run_list pa @ qs"
      "list_all2 same_request queue (qs @ rest)" "?bs + length (pa_can_run_list pa1) \<le> max ?max (?bs + length (pa_can_run_list pa))"
      "\<forall>i<length qs. length (cr_fill_ids (qs ! i)) \<le> seqlen (queue ! i)" "\<forall>q\<in>set (qs @ rest). lq_is_chunked q = 0"
      "pa_rem_chunk_tokens pa = None \<longrightarrow> pa_new_chunked_req pa1 = pa_new_chunked_req pa \<and> (\<forall>q\<in>set qs. whole q)"
      using add_waiting_ok [OF pa(2) w ch, of ?max ?bs] by (elim exE conjE)
    have adm: "pa_can_run_list pa1 = qs" using add(4) pa(4) by simp
    let ?running1 = "?running\<lparr>sb_batch_is_full := sb_batch_is_full ?running \<or> full\<rparr>"
    let ?c1 = "?c\<lparr>cs_tree := t1\<rparr>"
    let ?s1 = "s\<lparr>sc_waiting_queue := rest, sc_running_batch := ?running1, sc_waiting_queue_tree := wt,
                 sc_chunked_req := None, sc_cache := ?c1\<rparr>"
    let ?reqs = "bump_chunked (pa_new_chunked_req pa1) qs"
    let ?b0 = "sched_init_new (sf_enable_latent cfg) (sf_max_topk cfg) ?reqs"
    have run: "get_new_batch_prefill cfg s =
      (if qs = [] then Some (Inr (None, ?s1))
       else case prepare_for_extend extend_alloc_token ?b0 ?c1 of
              None \<Rightarrow> None
            | Some (Inl e) \<Rightarrow> Some (Inl e)
            | Some (Inr (b, c1)) \<Rightarrow> Some (Inr (Some (b\<lparr>sb_decoding_reqs := None\<rparr>),
                 ?s1\<lparr>sc_cache := c1, sc_chunked_req := map_option (\<lambda>i. sb_reqs b ! i) (pa_new_chunked_req pa1)\<rparr>)))"
      using go chunk mixed pol(1) pa(1) add(1)
      by (simp add: get_new_batch_prefill_def Let_def add_chunked_def adm mix_running_def bump_chunked_def
            split: option.splits sum.splits prod.splits)
    let ?R = "R + mset (map cr_last_node qs)"
    have same: "map cr_last_node ?reqs = map cr_last_node qs" "map request_key ?reqs = map request_key qs"
      "map cr_fill_ids ?reqs = map cr_fill_ids qs" "map lq_extend_input_len ?reqs = map lq_extend_input_len qs"
      by (rule map_bump_chunked, simp add: request_key_def)+
    have "radix_reach t1 ?R" using add(2) adm by (simp add: adder_ok_def)
    moreover have kept: "tree_kept (cs_tree ?c) t1" by (rule tree_kept_trans [OF pol(3) add(3)])
    ultimately have mem1: "mem_ok ?c1 ?R" using mem by (simp add: mem_ok_def tree_kept_def)
    have owned: "owned_slots ?c1 = owned_slots ?c" using kept by (simp add: owned_slots_def tree_kept_def)
    have keys: "image_mset request_key (mset (qs @ rest)) = image_mset request_key (mset (sc_waiting_queue s))"
    proof -
      have "mset (map request_key (qs @ rest)) = mset (map request_key queue)"
        using same_request_keys [OF add(5)] by simp
      then show ?thesis using pol(5) by simp
    qed
    show ?thesis
    proof (cases "qs = []")
      case True
      have "keeps_held R (cs_tree ?c) t1" using kept by (simp add: keeps_held_def tree_kept_def)
      then have "prefill_frame cfg R s None ?s1"
        using add(8) pol(6,7) by (auto simp: prefill_frame_def pool_kept_def)
      moreover have "prefill_outcome cfg R s None ?s1 []"
        using mem1 owned keys True by (simp add: prefill_outcome_def)
      ultimately show ?thesis using run True by (intro exI [of _ None] exI [of _ ?s1] exI [of _ "[]"]) simp
    next
      case False
      have ready: "\<forall>q\<in>set ?reqs. prefill_ready (cs_tree ?c1) q \<and> cr_last_node q \<in># ?R"
      proof
        let ?view = "\<lambda>q. (cr_last_node q, cr_prefix_indices q, cr_fill_ids q, lq_extend_input_len q)"
        fix q assume q: "q \<in> set ?reqs"
        have "map ?view ?reqs = map ?view qs" by (rule map_bump_chunked) simp
        from arg_cong [OF this, of set] have "?view ` set ?reqs = ?view ` set qs" by (simp only: set_map)
        then have "?view q \<in> ?view ` set qs" using imageI [OF q, of ?view] by (simp only:)
        then obtain r where r: "r \<in> set qs" "?view q = ?view r" by (rule imageE) simp
        then have "prefill_ready t1 r" using add(2) adm by (simp add: adder_ok_def)
        then show "prefill_ready (cs_tree ?c1) q \<and> cr_last_node q \<in># ?R"
          using r by (simp add: prefill_ready_def)
      qed
      have fits: "extend_total ?reqs \<le> int (token_available_size (cs_alloc ?c1)) + evictable_size (cs_tree ?c1)"
        using adder_ok_fits [OF add(2)] adm False same(4) by (simp add: extend_total_def)
      let ?lens = "map (\<lambda>q. length (cr_fill_ids q)) ?reqs"
      have lens: "?lens = map (\<lambda>q. length (cr_fill_ids q)) qs" by (rule map_bump_chunked) simp
      have n: "length ?reqs = length qs" using arg_cong [OF lens, of length] by simp
      have room: "pool_room ?max ?bs (sc_waiting_queue s) (cs_pool ?c1)" using ok by (simp add: prefill_state_ok_def)
      have few: "length qs \<le> ?max - ?bs" using add(6) pa(4) adm go by simp
      have long: "\<forall>n\<in>set ?lens. \<exists>q\<in>set (sc_waiting_queue s). n \<le> seqlen q"
      proof
        fix n assume "n \<in> set ?lens"
        then obtain i where i: "i < length qs" "n = length (cr_fill_ids (qs ! i))"
          unfolding lens by (auto simp: in_set_conv_nth)
        have "i < length queue" using list_all2_lengthD [OF add(5)] i(1) by simp
        then obtain r where r: "r \<in> set (sc_waiting_queue s)" "seqlen (queue ! i) = seqlen r"
          using pol(4) nth_mem by blast
        have "length (cr_fill_ids (qs ! i)) \<le> seqlen (queue ! i)" using add(7) i(1) by blast
        then have "n \<le> seqlen r" unfolding i(2) r(2) .
        then show "\<exists>q\<in>set (sc_waiting_queue s). n \<le> seqlen q" using r(1) by blast
      qed
      note rows = pool_room_rows [OF room _ long, unfolded length_map n, OF few]
      have b0: "sb_reqs ?b0 = ?reqs" by (simp add: sched_init_new_def)
      obtain b' c' own where prep: "prepare_for_extend extend_alloc_token ?b0 ?c1 = Some (Inr (b', c'))" "mem_ok c' ?R"
        "batch_rows b' c' own" "owned_slots ?c1 = owned_slots c' + mset (concat own)"
        "rp_free_slots (cs_pool c') = drop (length qs) (rp_free_slots (cs_pool ?c1))" "list_all2 same_request ?reqs (sb_reqs b')"
        "map cr_last_node (sb_reqs b') = map cr_last_node ?reqs"
        "map cr_fill_ids (sb_reqs b') = map cr_fill_ids ?reqs" "map lq_is_chunked (sb_reqs b') = map lq_is_chunked ?reqs"
        "map cr_pool_idx (sb_reqs b') = take (length qs) (rp_free_slots (cs_pool ?c1))" "prefill_columns b'"
        "\<forall>q\<in>set (sb_reqs b'). lq_is_retracted q = False" "keeps_held ?R (cs_tree ?c1) (cs_tree c')"
        "pool_kept (set (take (length qs) (rp_free_slots (cs_pool ?c1)))) (cs_pool ?c1) (cs_pool c')" "sb_forward_mode b' = Some EXTEND"
        "\<forall>q\<in>set (sb_reqs b'). req_ok (cache_req.truncate q) (cr_fill_ids q) c' ?R"
        using prepare_for_extend_ok [OF mem1, of ?b0, unfolded b0 n, OF ready fits rows(2,1)] by (elim exE conjE)
      have len: "length (sb_reqs b') = length qs" using list_all2_lengthD [OF prep(6)] n by simp
      let ?b = "b'\<lparr>sb_decoding_reqs := None\<rparr>"
      let ?s = "?s1\<lparr>sc_cache := c', sc_chunked_req := map_option (\<lambda>i. sb_reqs b' ! i) (pa_new_chunked_req pa1)\<rparr>"
      have "mset (map request_key (sb_reqs b' @ rest)) = mset (map request_key (qs @ rest))"
        using same_request_keys [OF prep(6)] same(2) by simp
      then have keys': "image_mset request_key (mset (sb_reqs b' @ rest)) = image_mset request_key (mset (sc_waiting_queue s))"
        using keys by simp
      have held: "R + mset (map cr_last_node (sb_reqs b')) = ?R" by (simp only: prep(7) same(1))
      have rows': "batch_rows ?b c' own" using prep(3) by (simp add: batch_rows_def)
      have fits': "sb_reqs b' \<noteq> []" "?bs + length qs \<le> ?max" using len few go False by auto
      have "prefill_outcome cfg R s (Some ?b) ?s own"
        using prep(2,4,5,16) rows' owned keys' len fits' False
        by (simp add: prefill_outcome_def Let_def held del: mset_map mset_append)
      moreover have "get_new_batch_prefill cfg s = Some (Inr (Some ?b, ?s))" using run prep(1) False by simp
      moreover have "prefill_frame cfg R s (Some ?b) ?s"
      proof -
        have "keeps_held R (cs_tree ?c) (cs_tree c')"
          using kept prep(13) by (simp add: keeps_held_def tree_kept_def)
        moreover have "prefill_columns ?b" using prep(11) by (simp add: prefill_columns_def)
        moreover have "pa_new_chunked_req pa1 = None \<and> (\<forall>q\<in>set (sb_reqs b'). whole q \<and> lq_is_chunked q = 0)"
          if none: "sf_chunked_prefill_size cfg = None"
        proof -
          have no: "pa_new_chunked_req pa1 = None" and wh: "\<forall>q\<in>set qs. whole q"
            using add(9) pa(3,5) none by simp_all
          then have qs: "?reqs = qs" by (simp add: bump_chunked_def)
          have "whole (sb_reqs b' ! i) \<and> lq_is_chunked (sb_reqs b' ! i) = 0" if i: "i < length qs" for i
          proof -
            have "same_request (qs ! i) (sb_reqs b' ! i)" using prep(6) i unfolding qs by (simp add: list_all2_conv_all_nth)
            moreover have "cr_fill_ids (sb_reqs b' ! i) = cr_fill_ids (qs ! i)" "lq_is_chunked (sb_reqs b' ! i) = lq_is_chunked (qs ! i)"
              using arg_cong [OF prep(8), of "\<lambda>l. l ! i"] arg_cong [OF prep(9), of "\<lambda>l. l ! i"] i len unfolding qs by simp_all
            ultimately show ?thesis using wh add(8) nth_mem [OF i] by (simp add: whole_def same_request_def)
          qed
          then show ?thesis using no len by (metis in_set_conv_nth)
        qed
        ultimately show ?thesis
          using prep(10,12,14,15) add(8) pol(6,7) len by (auto simp: prefill_frame_def Let_def)
      qed
      ultimately show ?thesis by blast
    qed
  qed
qed

text \<open>
  C5. A prefill step never runs out of memory and loses nothing.  If the tree, the pools and the
  queue are in order, no chunk is pending and prefill and decode are not mixed, the step returns
  without an error, whatever the policy.  The batch fits: with what is running it has at most
  \<open>max_running_requests\<close> requests; each of them has a row of its own in the request pool that reads as
  its cached prefix followed by fresh slots, one per new token, and holds its node of the tree, so
  that it can later be returned to the cache.  Batch and remaining queue together are the old queue, and every
  KV slot that was free or cached is still free or cached or is one of the fresh slots.
\<close>

theorem prefill_never_out_of_memory:
  assumes "prefill_state_ok cfg R s" and "sc_chunked_req s = None" and "\<not> sf_is_mixed_chunk cfg"
  shows "\<exists>ob s' own. get_new_batch_prefill cfg s = Some (Inr (ob, s')) \<and> prefill_outcome cfg R s ob s' own"
  using prefill_step_ok [OF assms] by blast

text \<open>An example: one request waits, and every slot is free.\<close>

definition demo_config :: sched_config where
  "demo_config = \<lparr>sf_max_running_requests = 2, sf_max_prefill_tokens = 100, sf_chunked_prefill_size = None,
     sf_is_mixed_chunk = False, sf_enable_latent = True, sf_max_topk = 2, sf_policy = LPM, sf_shuffle = (\<lambda>qs. qs),
     sf_chunk_cache = False, sf_test_retract = False, sf_new_token_ratio_decay = 0, sf_min_new_token_ratio = 0,
     sf_max_total_num_tokens = 20\<rparr>"

definition demo_tree :: radix where
  "demo_tree = rx_init 1 False (\<lambda>n. n)"

definition demo_scheduler :: scheduler where
  "demo_scheduler = \<lparr>sc_waiting_queue = [waiting_req ''a'' [1, 2, 5]], sc_running_batch = sched_init_new True 2 [],
     sc_last_batch = None, sc_chunked_req = None, sc_new_token_ratio = 1, sc_waiting_queue_tree = demo_tree,
     sc_cache = \<lparr>cs_tree = demo_tree, cs_pool = req_pool_init 2 8, cs_alloc = token_init 20\<rparr>\<rparr>"

lemma demo_tree_reach: "radix_reach demo_tree {#}" "rx_page_size demo_tree = 1"
  unfolding demo_tree_def by (rule rr_init, simp) code_simp

lemma demo_scheduler_ok: "prefill_state_ok demo_config {#} demo_scheduler"
proof -
  have "ta_not_in_group (token_init 20)" by code_simp
  moreover have "pool_room 2 0 [waiting_req ''a'' [1, 2, 5]] (req_pool_init 2 8)" by code_simp
  ultimately show ?thesis
    using demo_tree_reach
    by (auto simp: prefill_state_ok_def demo_config_def demo_scheduler_def mem_ok_def sched_init_new_def batch_size_def
          waiting_req_def new_req_def waiting_params_def)
qed

theorem prefill_never_out_of_memory_witness:
  "\<exists>ob s' own. get_new_batch_prefill demo_config demo_scheduler = Some (Inr (ob, s')) \<and>
     prefill_outcome demo_config {#} demo_scheduler ob s' own"
  by (rule prefill_never_out_of_memory [OF demo_scheduler_ok]) (simp_all add: demo_scheduler_def demo_config_def)

end
