(* ===== verification/SchedDecode.thy ===== *)
theory SchedDecode
  imports SchedStep
begin

text \<open>
  The decode step: when memory runs short, requests go back to the queue until every remaining one
  can have a slot, and the memory of those that went is free again.
\<close>

section \<open>Retracting one request\<close>

lemma dec_lock_ref_full:
  assumes "radix_reach t (add_mset n R)"
  shows "\<exists>d t'. dec_lock_ref t n = Some (d, t') \<and> radix_reach t' R \<and> tree_kept t t'"
proof -
  obtain d t' where *: "dec_lock_ref t n = Some (d, t')" "radix_reach t' R" "rx_slots t' = rx_slots t"
    "\<forall>m ks vs. at_node t' m ks vs = at_node t m ks vs"
    using dec_lock_ref_spec [OF assms, of n] by auto
  obtain L P V where ok: "radix_ok t L P V (add_mset n R)" using radix_reach_ok [OF assms] by blast
  have "rx_page_size t' = rx_page_size t"
    using dec_lock_ref_ok [OF ok, of n] *(1) by (auto simp: same_config_def)
  then show ?thesis using * by (intro exI [of _ d] exI [of _ t']) (simp add: tree_kept_def)
qed

text \<open>The slots that only the request owns: those of its row behind its cached prefix.\<close>

definition private_slots :: "token_alloc cache_state \<Rightarrow> latent_req \<Rightarrow> nat \<Rightarrow> nat list" where
  "private_slots c q seq_len = drop (length (cr_prefix_indices q)) (req_pool_read (cs_pool c) (cr_pool_idx q) seq_len)"

lemma private_slots_table: "rp_table (cs_pool c') = rp_table (cs_pool c) \<Longrightarrow> private_slots c' = private_slots c"
  by (simp add: private_slots_def req_pool_read_def fun_eq_iff)

definition nothing_left :: "token_alloc cache_state \<Rightarrow> bool" where
  "nothing_left c \<longleftrightarrow> token_available_size (cs_alloc c) = 0 \<and> evictable_size (cs_tree c) = 0"

lemma retract_one_ok:
  assumes "mem_ok c (add_mset (cr_last_node q) R)"
  shows "\<exists>c'. retract_one False q n others c = Some c' \<and> mem_ok c' R \<and> rp_table (cs_pool c') = rp_table (cs_pool c) \<and>
     rp_size (cs_pool c') = rp_size (cs_pool c) \<and> rp_free_slots (cs_pool c') = rp_free_slots (cs_pool c) @ [cr_pool_idx q] \<and>
     owned_slots c' = owned_slots c + mset (private_slots c q n) \<and> keeps_held R (cs_tree c) (cs_tree c') \<and>
     (0 < others \<and> token_available_size (cs_alloc c') = 0 \<longrightarrow> evictable_size (cs_tree c') = 0)"
proof -
  have reach: "radix_reach (cs_tree c) (add_mset (cr_last_node q) R)" and ps: "rx_page_size (cs_tree c) = 1"
    and ready: "ta_not_in_group (cs_alloc c)"
    using assms by (simp_all add: mem_ok_def)
  obtain d t where t: "dec_lock_ref (cs_tree c) (cr_last_node q) = Some (d, t)" "radix_reach t R" "tree_kept (cs_tree c) t"
    using dec_lock_ref_full [OF reach] by blast
  let ?mine = "private_slots c q n"
  let ?a = "token_free (cs_alloc c) ?mine"
  have a: "ta_not_in_group ?a" "token_slots ?a = token_slots (cs_alloc c) + mset ?mine"
    using ready token.free_ready token.free_exact [OF _ refl] by auto
  let ?c1 = "c\<lparr>cs_alloc := ?a, cs_pool := req_pool_free (cs_pool c) (OneSlot (cr_pool_idx q))\<rparr>"
  let ?c2 = "?c1\<lparr>cs_tree := t\<rparr>" and ?n = "others * retract_decode_steps - token_available_size ?a"
  have mem: "mem_ok ?c2 R" using t a(1) ps by (simp add: mem_ok_def tree_kept_def)
  obtain c' where c': "evict_state token_free ?n ?c2 = Some c'" "mem_ok c' R" "cs_pool c' = cs_pool ?c2"
    "owned_slots c' = owned_slots ?c2" "keeps_held R (cs_tree ?c2) (cs_tree c')"
    "token_available_size (cs_alloc ?c2) \<le> token_available_size (cs_alloc c')"
    "token_available_size (cs_alloc ?c2) + ?n \<le> token_available_size (cs_alloc c') \<or> evictable_size (cs_tree c') = 0"
    using evict_state_ok [OF mem, of ?n] by (elim exE conjE)
  have run: "retract_one False q n others c = Some c'"
    using t(1) c'(1) ps by (simp add: retract_one_def private_slots_def Let_def)
  have "owned_slots c' = owned_slots c + mset ?mine"
    using c'(4) a(2) t(3) by (simp add: owned_slots_def tree_kept_def ac_simps)
  moreover have "keeps_held R (cs_tree c) (cs_tree c')"
    using c'(5) t(3) by (simp add: keeps_held_def tree_kept_def)
  moreover have "evictable_size (cs_tree c') = 0" if "0 < others" "token_available_size (cs_alloc c') = 0"
    using c'(6,7) that by (auto simp: retract_decode_steps_def)
  ultimately show ?thesis using run c'(2,3) by (intro exI [of _ c']) simp
qed

section \<open>The loop\<close>

definition nodes_of :: "latent_req list \<Rightarrow> nat list \<Rightarrow> nat multiset" where
  "nodes_of reqs ids = mset (map (\<lambda>i. cr_last_node (reqs ! i)) ids)"

definition private_of :: "token_alloc cache_state \<Rightarrow> latent_req list \<Rightarrow> nat list \<Rightarrow> nat list \<Rightarrow> nat multiset" where
  "private_of c reqs seq_lens ids = mset (concat (map (\<lambda>i. private_slots c (reqs ! i) (seq_lens ! i)) ids))"

text \<open>What the loop has done when it stops: \<open>popped\<close> went, \<open>stack\<close> stays.\<close>

definition retracted_to ::
  "nat multiset \<Rightarrow> latent_req list \<Rightarrow> nat list \<Rightarrow> token_alloc cache_state \<Rightarrow> nat list \<Rightarrow> nat list \<Rightarrow> token_alloc cache_state \<Rightarrow> bool" where
  "retracted_to R reqs seq_lens c popped stack c' \<longleftrightarrow> mem_ok c' (R + nodes_of reqs stack) \<and>
     rp_table (cs_pool c') = rp_table (cs_pool c) \<and> owned_slots c' = owned_slots c + private_of c reqs seq_lens popped \<and>
     rp_size (cs_pool c') = rp_size (cs_pool c) \<and> keeps_held (R + nodes_of reqs stack) (cs_tree c) (cs_tree c') \<and>
     rp_free_slots (cs_pool c') = rp_free_slots (cs_pool c) @ map (\<lambda>i. cr_pool_idx (reqs ! i)) popped"

lemma keeps_held_mono: "R \<subseteq># R' \<Longrightarrow> keeps_held R' t t' \<Longrightarrow> keeps_held R t t'"
  unfolding keeps_held_def by (meson mset_subset_eqD)

lemma retracted_to_step:
  assumes "mem_ok c1 (R + nodes_of reqs (popped @ stack))" and "rp_table (cs_pool c1) = rp_table (cs_pool c)"
    and "rp_size (cs_pool c1) = rp_size (cs_pool c)" and "rp_free_slots (cs_pool c1) = rp_free_slots (cs_pool c) @ [cr_pool_idx (reqs ! i)]"
    and "owned_slots c1 = owned_slots c + mset (private_slots c (reqs ! i) (seq_lens ! i))"
    and "keeps_held (R + nodes_of reqs (popped @ stack)) (cs_tree c) (cs_tree c1)"
    and "retracted_to R reqs seq_lens c1 popped stack c'"
  shows "retracted_to R reqs seq_lens c (i # popped) stack c'"
proof -
  have "keeps_held (R + nodes_of reqs stack) (cs_tree c) (cs_tree c1)"
    by (rule keeps_held_mono [OF _ assms(6)]) (simp add: nodes_of_def)
  then have "keeps_held (R + nodes_of reqs stack) (cs_tree c) (cs_tree c')"
    using assms(7) keeps_held_trans by (auto simp: retracted_to_def)
  then show ?thesis using assms private_slots_table [OF assms(2)] by (simp add: retracted_to_def private_of_def)
qed

lemma retract_loop_ok:
  assumes "mem_ok c (R + nodes_of reqs stack)" and "stack \<noteq> []"
    and "length stack = 1 \<longrightarrow> token_available_size (cs_alloc c) = 0 \<longrightarrow> evictable_size (cs_tree c) = 0"
  shows "(\<exists>popped stack' c'. stack = popped @ stack' \<and> retracted_to R reqs seq_lens c popped stack' c' \<and> stack' \<noteq> [] \<and>
       retract_loop False reqs seq_lens stack first_iter retracted c =
         Some (Inr (stack', retracted @ map (\<lambda>i. reset_for_retract (reqs ! i)) popped, c')) \<and>
       length stack' \<le> token_available_size (cs_alloc c')) \<or>
     (\<exists>popped i c'. stack = popped @ [i] \<and> retracted_to R reqs seq_lens c popped [i] c' \<and> nothing_left c' \<and>
       retract_loop False reqs seq_lens stack first_iter retracted c = Some (Inl AssertionError))"
  using assms
proof (induction stack arbitrary: first_iter retracted c)
  case Nil
  then show ?case by simp
next
  case (Cons i rest)
  let ?av = "token_available_size (cs_alloc c)"
  have here: "retracted_to R reqs seq_lens c [] (i # rest) c"
    using Cons.prems(1) by (simp add: retracted_to_def private_of_def)
  consider (enough) "\<not> (?av < length (i # rest) * retract_decode_steps \<or> first_iter)"
    | (one) "?av < length (i # rest) * retract_decode_steps \<or> first_iter" "rest = []"
    | (more) "?av < length (i # rest) * retract_decode_steps \<or> first_iter" "rest \<noteq> []" by blast
  then show ?case
  proof cases
    case enough
    then have "length (i # rest) \<le> ?av" by (simp add: retract_decode_steps_def)
    then show ?thesis
      using here enough by (intro disjI1 exI [of _ "[]"] exI [of _ "i # rest"] exI [of _ c]) (simp add: retract_loop.simps)
  next
    case one
    then have run: "retract_loop False reqs seq_lens [i] first_iter retracted c =
        Some (if 0 < ?av then Inr ([i], retracted, c) else Inl AssertionError)"
      by (subst retract_loop.simps) simp
    show ?thesis
    proof (cases "0 < ?av")
      case True
      then show ?thesis using here one(2) run by (intro disjI1 exI [of _ "[]"] exI [of _ "[i]"] exI [of _ c]) simp
    next
      case False
      then have "nothing_left c" using Cons.prems(3) one(2) by (simp add: nothing_left_def)
      then show ?thesis using here one(2) run False by (intro disjI2 exI [of _ "[]"] exI [of _ i] exI [of _ c]) simp
    qed
  next
    case more
    let ?q = "reqs ! i"
    have mem: "mem_ok c (add_mset (cr_last_node ?q) (R + nodes_of reqs rest))"
      using Cons.prems(1) by (simp add: nodes_of_def)
    obtain c1 where c1: "retract_one False ?q (seq_lens ! i) (length rest) c = Some c1" "mem_ok c1 (R + nodes_of reqs rest)"
      "rp_table (cs_pool c1) = rp_table (cs_pool c)" "rp_size (cs_pool c1) = rp_size (cs_pool c)"
      "rp_free_slots (cs_pool c1) = rp_free_slots (cs_pool c) @ [cr_pool_idx ?q]"
      "owned_slots c1 = owned_slots c + mset (private_slots c ?q (seq_lens ! i))"
      "keeps_held (R + nodes_of reqs rest) (cs_tree c) (cs_tree c1)"
      "0 < length rest \<and> token_available_size (cs_alloc c1) = 0 \<longrightarrow> evictable_size (cs_tree c1) = 0"
      using retract_one_ok [OF mem, of "seq_lens ! i" "length rest"] by (elim exE conjE)
    let ?ret = "retracted @ [reset_for_retract ?q]"
    have run: "retract_loop False reqs seq_lens (i # rest) first_iter retracted c = retract_loop False reqs seq_lens rest False ?ret c1"
      using more c1(1) by (subst retract_loop.simps) simp
    have step: "retracted_to R reqs seq_lens c (i # popped) stack' c'"
      if "rest = popped @ stack'" "retracted_to R reqs seq_lens c1 popped stack' c'" for popped stack' c'
      by (rule retracted_to_step [OF _ c1(3-6) _ that(2)]) (use c1(2,7) that(1) in simp_all)
    have "length rest = 1 \<longrightarrow> token_available_size (cs_alloc c1) = 0 \<longrightarrow> evictable_size (cs_tree c1) = 0"
      using c1(8) by auto
    from Cons.IH [OF c1(2) more(2) this, of False ?ret] show ?thesis
    proof (elim disjE exE conjE)
      fix popped stack' c'
      assume *: "rest = popped @ stack'" "retracted_to R reqs seq_lens c1 popped stack' c'" "stack' \<noteq> []"
        "retract_loop False reqs seq_lens rest False ?ret c1 =
           Some (Inr (stack', ?ret @ map (\<lambda>i. reset_for_retract (reqs ! i)) popped, c'))"
        "length stack' \<le> token_available_size (cs_alloc c')"
      then show ?thesis
        using run step [OF *(1,2)] by (intro disjI1 exI [of _ "i # popped"] exI [of _ stack'] exI [of _ c']) simp
    next
      fix popped j c'
      assume *: "rest = popped @ [j]" "retracted_to R reqs seq_lens c1 popped [j] c'" "nothing_left c'"
        "retract_loop False reqs seq_lens rest False ?ret c1 = Some (Inl AssertionError)"
      then show ?thesis
        using run step [OF *(1,2)] by (intro disjI2 exI [of _ "i # popped"] exI [of _ j] exI [of _ c']) simp
    qed
  qed
qed

section \<open>Which requests go\<close>

lemma retract_order_ok:
  "mset (retract_order reqs) = mset [0..<length reqs]"
  "sorted_wrt (\<lambda>i j. retract_key (reqs ! j) \<le> retract_key (reqs ! i)) (retract_order reqs)"
proof -
  let ?k = "\<lambda>i. retract_key (reqs ! i)"
  show "mset (retract_order reqs) = mset [0..<length reqs]" by (simp add: retract_order_def)
  have "sorted (map ?k (sort_key ?k (rev [0..<length reqs])))" by (rule sorted_sort_key)
  then show "sorted_wrt (\<lambda>i j. ?k j \<le> ?k i) (retract_order reqs)"
    by (simp add: retract_order_def sorted_wrt_map sorted_wrt_rev)
qed

text \<open>The requests that are popped have made at most as much progress as those that stay.\<close>

lemma retract_order_split:
  assumes "rev (retract_order reqs) = popped @ stack"
  shows "\<forall>i\<in>set popped. \<forall>j\<in>set stack. retract_key (reqs ! i) \<le> retract_key (reqs ! j)"
    and "mset popped + mset stack = mset [0..<length reqs]"
proof -
  have *: "retract_order reqs = rev stack @ rev popped" using assms by (metis rev_append rev_rev_ident)
  show "\<forall>i\<in>set popped. \<forall>j\<in>set stack. retract_key (reqs ! i) \<le> retract_key (reqs ! j)"
    using retract_order_ok(2) [of reqs] unfolding * by (simp add: sorted_wrt_append)
  show "mset popped + mset stack = mset [0..<length reqs]"
    using retract_order_ok(1) [of reqs] unfolding * by (simp add: add.commute)
qed

section \<open>The columns of a batch\<close>

definition aligned_columns :: "sched_batch \<Rightarrow> bool" where
  "aligned_columns b \<longleftrightarrow> length (sb_seq_lens b) = length (sb_reqs b) \<and> length (sb_req_pool_indices b) = length (sb_reqs b) \<and>
     sb_sampling_info b \<noteq> None \<and>
     (sb_return_logprob b \<or> list_ex lq_return_logprob (sb_reqs b) \<longrightarrow>
        sb_top_logprobs_nums b \<noteq> None \<and> sb_token_ids_logprobs b \<noteq> None)"

definition aligned :: "sched_batch \<Rightarrow> bool" where
  "aligned b \<longleftrightarrow> (\<exists>os. sb_output_ids b = Some os \<and> length os = length (sb_reqs b)) \<and> aligned_columns b"

lemmas aligned_defs = aligned_def aligned_columns_def

text \<open>\<open>b'\<close> is \<open>b\<close> with only the requests at the positions \<open>ids\<close>, in this order.\<close>

definition picked :: "sched_batch \<Rightarrow> nat list \<Rightarrow> sched_batch \<Rightarrow> bool" where
  "picked b ids b' \<longleftrightarrow> sb_reqs b' = gather (sb_reqs b) ids \<and> sb_seq_lens b' = gather (sb_seq_lens b) ids \<and>
     sb_req_pool_indices b' = gather (sb_req_pool_indices b) ids"

lemma gather_all: "length xs = n \<Longrightarrow> gather xs [0..<n] = xs"
  unfolding gather_def using map_nth [of xs] by simp

lemma gather_gather: "\<forall>i\<in>set ids'. i < length ids \<Longrightarrow> gather (gather xs ids) ids' = gather xs (gather ids ids')"
  by (simp add: gather_def)

lemma sched_filter_batch_ok:
  assumes al: "aligned b" and keep: "keep \<noteq> []" "distinct keep" "\<forall>i\<in>set keep. i < length (sb_reqs b)"
  shows "\<exists>b' ids. sched_filter_batch keep b = Inr b' \<and> mset ids = mset keep \<and> aligned b' \<and> picked b ids b'"
proof (cases "length keep = length (sb_reqs b)")
  case True
  have "set keep = {0..<length (sb_reqs b)}"
    using keep True by (intro card_subset_eq) (auto simp: distinct_card)
  then have "mset [0..<length (sb_reqs b)] = mset keep"
    using keep(2) set_eq_iff_mset_eq_distinct [of "[0..<length (sb_reqs b)]" keep] by simp
  moreover have "picked b [0..<length (sb_reqs b)] b"
    using al by (simp add: picked_def aligned_defs gather_all)
  ultimately show ?thesis
    using al keep(1) True
    by (intro exI [of _ b] exI [of _ "[0..<length (sb_reqs b)]"]) (simp add: sched_filter_batch_def)
next
  case False
  obtain os where os: "sb_output_ids b = Some os" "length os = length (sb_reqs b)" using al by (auto simp: aligned_defs)
  have rl: "list_ex lq_return_logprob (gather (sb_reqs b) keep) \<Longrightarrow> list_ex lq_return_logprob (sb_reqs b)"
    using keep(3) by (auto simp: gather_def list_ex_iff)
  show ?thesis
    using al False keep(1) os rl
    by (auto simp: sched_filter_batch_def aligned_defs picked_def check_r_def Let_def gather_def intro!: exI [of _ keep])
qed

section \<open>One slot per request\<close>

lemma req_pool_put_ok:
  assumes "rows_ok p rows (map Suc ns)" and "length vs = length rows"
  shows "\<exists>p'. req_pool_put (zip rows (zip ns vs)) p = Inr p' \<and> same_shape p p' \<and>
     (\<forall>k<length rows. take (Suc (ns ! k)) (rp_table p' ! (rows ! k)) = take (ns ! k) (rp_table p ! (rows ! k)) @ [vs ! k]) \<and>
     (\<forall>r. r \<notin> set rows \<longrightarrow> rp_table p' ! r = rp_table p ! r)"
  using assms
proof (induction ns arbitrary: rows vs p)
  case Nil
  then show ?case by (simp add: rows_ok_def)
next
  case (Cons n ns)
  then obtain row rows' v vs' where eq: "rows = row # rows'" "vs = v # vs'"
    by (cases rows; cases vs) (auto simp: rows_ok_def)
  have ok: "row \<notin> set rows'" "row < length (rp_table p)" "Suc n \<le> length (rp_table p ! row)" "rows_ok p rows' (map Suc ns)"
    using Cons.prems(1) by (simp_all add: eq rows_ok_Cons)
  let ?p1 = "p\<lparr>rp_table := (rp_table p)[row := (rp_table p ! row)[n := v]]\<rparr>"
  have s1: "same_shape p ?p1"
    using ok(2) by (auto simp: same_shape_def map_update intro!: list_update_same_conv [THEN iffD2])
  have row1: "take (Suc n) (rp_table ?p1 ! row) = take n (rp_table p ! row) @ [v]"
    using ok(2,3) by (simp add: take_Suc_conv_app_nth)
  have len: "length vs' = length rows'" using Cons.prems(2) eq by simp
  obtain p' where p': "req_pool_put (zip rows' (zip ns vs')) ?p1 = Inr p'" "same_shape ?p1 p'"
    "\<forall>k<length rows'. take (Suc (ns ! k)) (rp_table p' ! (rows' ! k)) = take (ns ! k) (rp_table ?p1 ! (rows' ! k)) @ [vs' ! k]"
    "\<forall>r. r \<notin> set rows' \<longrightarrow> rp_table p' ! r = rp_table ?p1 ! r"
    using Cons.IH [OF rows_ok_same_shape [OF ok(4) s1] len] by (elim exE conjE)
  have other: "rp_table ?p1 ! r = rp_table p ! r" if "r \<noteq> row" for r using that by simp
  have "rows' ! k \<noteq> row" if "k < length rows'" for k using that ok(1) nth_mem by blast
  then have "\<forall>k<length rows'. take (Suc (ns ! k)) (rp_table p' ! (rows' ! k)) = take (ns ! k) (rp_table p ! (rows' ! k)) @ [vs' ! k]"
    using p'(3) other by metis
  then have "\<forall>k<length rows. take (Suc ((n # ns) ! k)) (rp_table p' ! (rows ! k)) = take ((n # ns) ! k) (rp_table p ! (rows ! k)) @ [vs ! k]"
    using p'(4) ok(1) row1 by (simp add: eq All_less_Suc2)
  moreover have "\<forall>r. r \<notin> set rows \<longrightarrow> rp_table p' ! r = rp_table p ! r" using p'(4) other by (simp add: eq)
  moreover have "req_pool_put (zip rows (zip (n # ns) vs)) p = Inr p'" using ok(2,3) p'(1) by (simp add: eq)
  ultimately show ?case using same_shape_trans [OF s1 p'(2)] by blast
qed

lemma prepare_for_decode_ok:
  assumes mem: "mem_ok c R" and al: "aligned b" and fits: "length (sb_reqs b) \<le> token_available_size (cs_alloc c)"
    and rows: "rows_ok (cs_pool c) (sb_req_pool_indices b) (map Suc (sb_seq_lens b))"
  shows "\<exists>b' c' locs. prepare_for_decode decode_alloc_token b c = Some (Inr (b', c')) \<and> sb_reqs b' = sb_reqs b \<and>
     sb_out_cache_loc b' = Some locs \<and> length locs = length (sb_reqs b) \<and> sb_seq_lens b' = map Suc (sb_seq_lens b) \<and>
     sb_forward_mode b' = Some DECODE \<and> mem_ok c' R \<and> owned_slots c = owned_slots c' + mset locs \<and>
     rp_free_slots (cs_pool c') = rp_free_slots (cs_pool c) \<and> keeps_held R (cs_tree c) (cs_tree c') \<and>
     pool_kept UNIV (cs_pool c) (cs_pool c') \<and> aligned_columns b' \<and> sb_req_pool_indices b' = sb_req_pool_indices b \<and>
     (\<forall>k<length (sb_reqs b). let row = sb_req_pool_indices b ! k; n = sb_seq_lens b ! k
        in req_pool_read (cs_pool c') row (n + 1) = req_pool_read (cs_pool c) row n @ [locs ! k])"
proof -
  let ?n = "length (sb_reqs b)" and ?rows = "sb_req_pool_indices b" and ?ns = "sb_seq_lens b"
  obtain os where os: "sb_output_ids b = Some os" using al by (auto simp: aligned_defs)
  have len: "length ?rows = ?n" "length ?ns = ?n" using al by (simp_all add: aligned_defs)
  have "int ?n \<le> int (token_available_size (cs_alloc c)) + evictable_size (cs_tree c)"
    using fits evictable_nonneg mem by (fastforce simp: mem_ok_def)
  with alloc_token_slots_ok [OF mem, of ?n]
  obtain locs c1 where al: "alloc_token_slots ?n c = Some (Inr (locs, c1))" "length locs = ?n" "mem_ok c1 R"
    "cs_pool c1 = cs_pool c" "owned_slots c = owned_slots c1 + mset locs" "keeps_held R (cs_tree c) (cs_tree c1)"
    by auto
  obtain p where p: "req_pool_put (zip ?rows (zip ?ns locs)) (cs_pool c1) = Inr p" "same_shape (cs_pool c1) p"
    "\<forall>k<length ?rows. take (Suc (?ns ! k)) (rp_table p ! (?rows ! k)) = take (?ns ! k) (rp_table (cs_pool c1) ! (?rows ! k)) @ [locs ! k]"
    using req_pool_put_ok [of "cs_pool c1" ?rows ?ns locs] rows al(2,4) len by auto
  let ?b = "b\<lparr>sb_forward_mode := Some DECODE, sb_input_ids := os, sb_output_ids := None, sb_seq_lens := map (\<lambda>n. n + 1) ?ns,
              sb_seq_lens_sum := sb_seq_lens_sum b + length (sb_reqs b), sb_out_cache_loc := Some locs\<rparr>"
  have run: "prepare_for_decode decode_alloc_token b c = Some (Inr (?b, c1\<lparr>cs_pool := p\<rparr>))"
    using os al(1) p(1) len(1) by (simp add: prepare_for_decode_def decode_alloc_token_def)
  have "mem_ok (c1\<lparr>cs_pool := p\<rparr>) R" "owned_slots (c1\<lparr>cs_pool := p\<rparr>) = owned_slots c1"
    using al(3) by (simp_all add: mem_ok_def owned_slots_def)
  moreover have "aligned_columns ?b" using assms(2) by (simp add: aligned_defs)
  ultimately show ?thesis
    using run al p(2,3) len
    by (intro exI [of _ ?b] exI [of _ "c1\<lparr>cs_pool := p\<rparr>"] exI [of _ locs])
      (simp add: same_shape_def pool_kept_def req_pool_read_def Let_def)
qed

lemma new_estimate_ratio_ok:
  assumes "qs \<noteq> []" and "\<forall>q\<in>set qs. \<exists>m. sp_max_new_tokens (lq_params q) = Some m \<and> 0 < m"
  shows "\<exists>ratio. new_estimate_ratio qs = Inr ratio \<and> 0 \<le> ratio"
proof -
  let ?m = "\<lambda>q. the (sp_max_new_tokens (lq_params q))"
  have all: "\<forall>q\<in>set qs. 0 < ?m q" using assms(2) by auto
  then have "0 < sum_list (map ?m qs)" using assms(1)
  proof (induction qs)
    case (Cons q qs)
    then show ?case by (cases "qs = []") auto
  qed simp
  moreover have "list_all (\<lambda>q. sp_max_new_tokens (lq_params q) \<noteq> None) qs"
    using assms(2) by (auto simp: list_all_iff)
  ultimately show ?thesis by (simp add: new_estimate_ratio_def check_r_def Let_def)
qed

section \<open>The step\<close>

definition decode_state_ok :: "nat multiset \<Rightarrow> sched_batch \<Rightarrow> token_alloc cache_state \<Rightarrow> bool" where
  "decode_state_ok R b c \<longleftrightarrow> aligned b \<and> mem_ok c (R + nodes_of (sb_reqs b) (default_keep None b)) \<and>
     distinct (gather (sb_req_pool_indices b) (default_keep None b)) \<and>
     (\<forall>i\<in>set (default_keep None b). sb_req_pool_indices b ! i = cr_pool_idx (sb_reqs b ! i) \<and>
        cr_pool_idx (sb_reqs b ! i) < length (rp_table (cs_pool c)) \<and>
        sb_seq_lens b ! i < length (rp_table (cs_pool c) ! cr_pool_idx (sb_reqs b ! i)) \<and>
        (\<exists>m. sp_max_new_tokens (lq_params (sb_reqs b ! i)) = Some m \<and> 0 < m))"

text \<open>
  What the step promises: the requests at the positions \<open>kept\<close> decode, each with one new slot, those at
  \<open>gone\<close> wait again, with their memory given back.
\<close>

definition decode_outcome ::
  "nat multiset \<Rightarrow> sched_batch \<Rightarrow> scheduler \<Rightarrow> sched_batch \<Rightarrow> scheduler \<Rightarrow> nat list \<Rightarrow> nat list \<Rightarrow> nat list \<Rightarrow> bool" where
  "decode_outcome R b s b' s' kept gone locs \<longleftrightarrow>
     (let reqs = sb_reqs b; c = sc_cache s; c' = sc_cache s'
      in mset kept + mset gone = mset (default_keep None b) \<and> (default_keep None b \<noteq> [] \<longrightarrow> kept \<noteq> []) \<and>
         (\<forall>i\<in>set gone. \<forall>j\<in>set kept. retract_key (reqs ! i) \<le> retract_key (reqs ! j)) \<and>
         sb_reqs b' = gather reqs kept \<and>
         sc_waiting_queue s' = sc_waiting_queue s @ map (\<lambda>i. reset_for_retract (reqs ! i)) gone \<and>
         mem_ok c' (R + nodes_of reqs kept) \<and>
         owned_slots c + private_of c reqs (sb_seq_lens b) gone = owned_slots c' + mset locs \<and> length locs = length kept \<and>
         (\<forall>k<length kept. let row = cr_pool_idx (reqs ! (kept ! k)); n = sb_seq_lens b ! (kept ! k)
            in sb_seq_lens b' ! k = n + 1 \<and>
               req_pool_read (cs_pool c') row (n + 1) = req_pool_read (cs_pool c) row n @ [locs ! k]))"

text \<open>What it leaves alone, and the shape of the new batch.\<close>

definition decode_frame ::
  "sched_config \<Rightarrow> nat multiset \<Rightarrow> sched_batch \<Rightarrow> scheduler \<Rightarrow> sched_batch \<Rightarrow> scheduler \<Rightarrow> nat list \<Rightarrow> nat list \<Rightarrow> bool" where
  "decode_frame cfg R b s b' s' kept gone \<longleftrightarrow>
     (let p = cs_pool (sc_cache s); p' = cs_pool (sc_cache s')
      in keeps_held (R + nodes_of (sb_reqs b) kept) (cs_tree (sc_cache s)) (cs_tree (sc_cache s')) \<and> pool_kept UNIV p p' \<and>
         rp_free_slots p' = rp_free_slots p @ map (\<lambda>i. cr_pool_idx (sb_reqs b ! i)) gone \<and>
         sc_last_batch s' = sc_last_batch s \<and> sc_chunked_req s' = sc_chunked_req s \<and>
         sc_waiting_queue_tree s' = sc_waiting_queue_tree s \<and> sc_running_batch s' = sc_running_batch s \<and>
         (0 \<le> sc_new_token_ratio s \<and> 0 \<le> sf_min_new_token_ratio cfg \<longrightarrow> 0 \<le> sc_new_token_ratio s') \<and>
         (kept \<noteq> [] \<longrightarrow> sb_forward_mode b' = Some DECODE \<and> aligned_columns b' \<and>
            sb_req_pool_indices b' = map cr_pool_idx (sb_reqs b')))"

text \<open>The only failure: one request is left, and it holds all the memory.\<close>

definition decode_stuck :: "nat multiset \<Rightarrow> sched_batch \<Rightarrow> scheduler \<Rightarrow> bool" where
  "decode_stuck R b s \<longleftrightarrow> (\<exists>gone i c'. mset gone + {#i#} = mset (default_keep None b) \<and> nothing_left c' \<and>
     mem_ok c' (R + {#cr_last_node (sb_reqs b ! i)#}) \<and>
     keeps_held (R + {#cr_last_node (sb_reqs b ! i)#}) (cs_tree (sc_cache s)) (cs_tree c') \<and>
     owned_slots c' = owned_slots (sc_cache s) + private_of (sc_cache s) (sb_reqs b) (sb_seq_lens b) gone)"

lemma check_decode_mem_ok:
  assumes "mem_ok c R"
  shows "\<exists>enough c'. check_decode_mem 1 b c = Some (enough, c') \<and> mem_ok c' R \<and> cs_pool c' = cs_pool c \<and> keeps_held R (cs_tree c) (cs_tree c') \<and>
     owned_slots c' = owned_slots c \<and> (enough \<longrightarrow> length (sb_reqs b) \<le> token_available_size (cs_alloc c')) \<and>
     (\<not> enough \<longrightarrow> evictable_size (cs_tree c') = 0)"
proof (cases "length (sb_reqs b) \<le> token_available_size (cs_alloc c)")
  case True
  then show ?thesis
    using assms by (intro exI [of _ True] exI [of _ c]) (simp add: check_decode_mem_def new_page_count_next_decode_def)
next
  case False
  obtain c' where c': "evict_state token_free (length (sb_reqs b)) c = Some c'" "mem_ok c' R" "cs_pool c' = cs_pool c"
    "owned_slots c' = owned_slots c" "keeps_held R (cs_tree c) (cs_tree c')"
    "token_available_size (cs_alloc c) + length (sb_reqs b) \<le> token_available_size (cs_alloc c') \<or> evictable_size (cs_tree c') = 0"
    using evict_state_ok [OF assms, of "length (sb_reqs b)"] by (elim exE conjE)
  have run: "check_decode_mem 1 b c = Some (length (sb_reqs b) \<le> token_available_size (cs_alloc c'), c')"
    using False c'(1) by (simp add: check_decode_mem_def new_page_count_next_decode_def)
  show ?thesis
    using c'(2-6) by (intro exI [of _ "length (sb_reqs b) \<le> token_available_size (cs_alloc c')"] exI [of _ c']) (auto simp: run simp del: One_nat_def)
qed

text \<open>A batch whose requests all go on, before and after the retraction.\<close>

definition shrunk ::
  "nat multiset \<Rightarrow> sched_batch \<Rightarrow> token_alloc cache_state \<Rightarrow> nat list \<Rightarrow> nat list \<Rightarrow> sched_batch \<Rightarrow> token_alloc cache_state \<Rightarrow> bool" where
  "shrunk R b c kept gone b' c' \<longleftrightarrow> mset kept + mset gone = mset [0..<length (sb_reqs b)] \<and> kept \<noteq> [] \<and>
     (\<forall>i\<in>set gone. \<forall>j\<in>set kept. retract_key (sb_reqs b ! i) \<le> retract_key (sb_reqs b ! j)) \<and>
     aligned b' \<and> picked b kept b' \<and> retracted_to R (sb_reqs b) (sb_seq_lens b) c gone kept c' \<and>
     length (sb_reqs b') \<le> token_available_size (cs_alloc c')"

lemma nodes_of_perm: "mset ids = mset ids' \<Longrightarrow> nodes_of reqs ids = nodes_of reqs ids'"
  by (simp add: nodes_of_def)

lemma retract_decode_ok:
  assumes mem: "mem_ok c (R + nodes_of (sb_reqs b) [0..<length (sb_reqs b)])" and al: "aligned b" and ne: "sb_reqs b \<noteq> []"
    and mx: "\<forall>q\<in>set (sb_reqs b). \<exists>m. sp_max_new_tokens (lq_params q) = Some m \<and> 0 < m"
    and one: "length (sb_reqs b) = 1 \<longrightarrow> token_available_size (cs_alloc c) = 0 \<longrightarrow> evictable_size (cs_tree c) = 0"
  shows "(\<exists>kept gone ratio b' c'. retract_decode False b c =
        Some (Inr (map (\<lambda>i. reset_for_retract (sb_reqs b ! i)) gone, ratio, b', c')) \<and> 0 \<le> ratio \<and> shrunk R b c kept gone b' c') \<or>
     (\<exists>gone i c'. retract_decode False b c = Some (Inl AssertionError) \<and> mset gone + {#i#} = mset [0..<length (sb_reqs b)] \<and>
        nothing_left c' \<and> retracted_to R (sb_reqs b) (sb_seq_lens b) c gone [i] c')"
proof -
  let ?reqs = "sb_reqs b" and ?stack = "rev (retract_order (sb_reqs b))"
  have perm: "mset ?stack = mset [0..<length ?reqs]" using retract_order_ok(1) by simp
  have mem': "mem_ok c (R + nodes_of ?reqs ?stack)" using mem nodes_of_perm [OF perm] by simp
  have len: "length ?stack = length ?reqs" using arg_cong [OF perm, of size] by simp
  then have ne': "?stack \<noteq> []" and one': "length ?stack = 1 \<longrightarrow> token_available_size (cs_alloc c) = 0 \<longrightarrow> evictable_size (cs_tree c) = 0"
    using ne one by auto
  from retract_loop_ok [OF mem' ne' one', of "sb_seq_lens b" True "[]"] show ?thesis
  proof (elim disjE exE conjE)
    fix gone stack c'
    assume *: "?stack = gone @ stack" "retracted_to R ?reqs (sb_seq_lens b) c gone stack c'" "stack \<noteq> []"
      "retract_loop False ?reqs (sb_seq_lens b) ?stack True [] c =
         Some (Inr (stack, [] @ map (\<lambda>i. reset_for_retract (?reqs ! i)) gone, c'))"
      "length stack \<le> token_available_size (cs_alloc c')"
    note split = retract_order_split [OF *(1)]
    have "distinct ?stack" "\<forall>i\<in>set ?stack. i < length ?reqs"
      using mset_eq_imp_distinct_iff [OF perm] mset_eq_setD [OF perm] by auto
    then have keep: "rev stack \<noteq> []" "distinct (rev stack)" "\<forall>i\<in>set (rev stack). i < length ?reqs"
      using *(1,3) by auto
    obtain b' kept where b': "sched_filter_batch (rev stack) b = Inr b'" "mset kept = mset (rev stack)" "aligned b'" "picked b kept b'"
      using sched_filter_batch_ok [OF al keep] by blast
    have kept: "mset kept = mset stack" using b'(2) by simp
    have sets: "set kept = set stack" using kept by (rule mset_eq_setD)
    have ks: "kept \<noteq> []" "length kept = length stack" using kept *(3) by (auto dest: arg_cong [of _ _ size])
    have reqs: "sb_reqs b' = gather ?reqs kept" using b'(4) by (simp add: picked_def)
    have "\<forall>q\<in>set (sb_reqs b'). \<exists>m. sp_max_new_tokens (lq_params q) = Some m \<and> 0 < m"
      using mx keep(3) sets reqs by (auto simp: gather_def)
    moreover have "sb_reqs b' \<noteq> []" using reqs ks(1) by (simp add: gather_def)
    ultimately obtain ratio where ratio: "new_estimate_ratio (sb_reqs b') = Inr ratio" "0 \<le> ratio" using new_estimate_ratio_ok by blast
    have "retract_decode False b c = Some (Inr (map (\<lambda>i. reset_for_retract (?reqs ! i)) gone, ratio, b', c'))"
      using *(4) b'(1) ratio(1) by (simp add: retract_decode_def)
    moreover have "shrunk R b c kept gone b' c'"
      using split b'(3,4) *(2,5) ks kept sets reqs nodes_of_perm [OF kept]
      by (simp add: shrunk_def retracted_to_def gather_def add.commute)
    ultimately show ?thesis using ratio(2) by blast
  next
    fix gone i c'
    assume *: "?stack = gone @ [i]" "retracted_to R ?reqs (sb_seq_lens b) c gone [i] c'" "nothing_left c'"
      "retract_loop False ?reqs (sb_seq_lens b) ?stack True [] c = Some (Inl AssertionError)"
    have "mset gone + {#i#} = mset [0..<length ?reqs]" using retract_order_split(2) [OF *(1)] by simp
    moreover have "retract_decode False b c = Some (Inl AssertionError)" using *(4) by (simp add: retract_decode_def)
    ultimately show ?thesis using *(2,3) by blast
  qed
qed

text \<open>The same in positions of the batch before the finished requests left it.\<close>

lemma picked_trans:
  assumes "picked b ids b1" and "picked b1 ids1 b2" and "\<forall>k\<in>set ids1. k < length ids"
  shows "picked b (gather ids ids1) b2"
  using assms(1,2) by (simp add: picked_def gather_gather [OF assms(3)])

lemma picked_rows:
  assumes ok: "decode_state_ok R b c" and p: "picked b ids b'" and ids: "distinct ids" "set ids \<subseteq> set (default_keep None b)"
    and table: "rp_table (cs_pool c') = rp_table (cs_pool c)"
  shows "rows_ok (cs_pool c') (sb_req_pool_indices b') (map Suc (sb_seq_lens b'))"
    and "\<forall>k<length ids. sb_req_pool_indices b' ! k = cr_pool_idx (sb_reqs b ! (ids ! k)) \<and> sb_seq_lens b' ! k = sb_seq_lens b ! (ids ! k)"
proof -
  have rows: "\<forall>i\<in>set (default_keep None b). sb_req_pool_indices b ! i = cr_pool_idx (sb_reqs b ! i) \<and>
        cr_pool_idx (sb_reqs b ! i) < length (rp_table (cs_pool c)) \<and>
        sb_seq_lens b ! i < length (rp_table (cs_pool c) ! cr_pool_idx (sb_reqs b ! i))"
    using ok unfolding decode_state_ok_def by blast
  have len: "length (sb_req_pool_indices b) = length (sb_reqs b)" and d: "distinct (map ((!) (sb_req_pool_indices b)) (default_keep None b))"
    using ok by (simp_all add: decode_state_ok_def aligned_defs gather_def)
  have cols: "sb_req_pool_indices b' = map ((!) (sb_req_pool_indices b)) ids" "sb_seq_lens b' = map ((!) (sb_seq_lens b)) ids"
    using p by (simp_all add: picked_def gather_def)
  have "inj_on ((!) (sb_req_pool_indices b)) (set ids)" using d ids(2) by (auto simp: distinct_map intro: inj_on_subset)
  then have d': "distinct (sb_req_pool_indices b')" using ids(1) cols(1) by (simp add: distinct_map)
  have at: "sb_req_pool_indices b ! (ids ! k) = cr_pool_idx (sb_reqs b ! (ids ! k)) \<and>
        cr_pool_idx (sb_reqs b ! (ids ! k)) < length (rp_table (cs_pool c)) \<and>
        sb_seq_lens b ! (ids ! k) < length (rp_table (cs_pool c) ! cr_pool_idx (sb_reqs b ! (ids ! k)))" if "k < length ids" for k
    using rows ids(2) nth_mem [OF that] by blast
  then show "rows_ok (cs_pool c') (sb_req_pool_indices b') (map Suc (sb_seq_lens b'))"
    using d' cols table by (simp add: rows_ok_def Suc_le_eq)
  show "\<forall>k<length ids. sb_req_pool_indices b' ! k = cr_pool_idx (sb_reqs b ! (ids ! k)) \<and> sb_seq_lens b' ! k = sb_seq_lens b ! (ids ! k)"
    using at cols by simp
qed

lemma nodes_of_picked:
  assumes "picked b ids b1" and "\<forall>k\<in>set xs. k < length ids"
  shows "nodes_of (sb_reqs b1) xs = nodes_of (sb_reqs b) (gather ids xs)"
    and "private_of c (sb_reqs b1) (sb_seq_lens b1) xs = private_of c (sb_reqs b) (sb_seq_lens b) (gather ids xs)"
proof -
  have "map (\<lambda>i. cr_last_node (sb_reqs b1 ! i)) xs = map (\<lambda>i. cr_last_node (sb_reqs b ! i)) (gather ids xs)"
    using assms by (simp add: picked_def gather_def)
  then show "nodes_of (sb_reqs b1) xs = nodes_of (sb_reqs b) (gather ids xs)" by (simp only: nodes_of_def)
  have "map (\<lambda>i. private_slots c (sb_reqs b1 ! i) (sb_seq_lens b1 ! i)) xs =
      map (\<lambda>i. private_slots c (sb_reqs b ! i) (sb_seq_lens b ! i)) (gather ids xs)"
    using assms by (simp add: picked_def gather_def)
  then show "private_of c (sb_reqs b1) (sb_seq_lens b1) xs = private_of c (sb_reqs b) (sb_seq_lens b) (gather ids xs)"
    by (simp only: private_of_def)
qed

lemma private_of_table: "rp_table (cs_pool c') = rp_table (cs_pool c) \<Longrightarrow> private_of c' = private_of c"
  using private_slots_table [of c' c] by (simp add: private_of_def fun_eq_iff)

lemma mset_gather_split:
  assumes "mset xs + mset ys = mset [0..<length ids]"
  shows "mset (gather ids xs) + mset (gather ids ys) = mset ids"
proof -
  have "mset (gather ids xs) + mset (gather ids ys) = image_mset ((!) ids) (mset xs + mset ys)"
    by (simp add: gather_def)
  also have "\<dots> = mset (map ((!) ids) [0..<length ids])" by (simp only: assms mset_map)
  finally show ?thesis by (simp only: map_nth)
qed

text \<open>From the shrunk batch to the outcome.\<close>

lemma decode_finish:
  assumes ok: "decode_state_ok R b (sc_cache s)" and pick: "picked b ids b1" and perm: "mset ids = mset (default_keep None b)"
    and c1: "cs_pool c1 = cs_pool (sc_cache s)" "owned_slots c1 = owned_slots (sc_cache s)"
    and sh: "shrunk R b1 c1 kept gone b2 c2"
    and frame: "keeps_held (R + nodes_of (sb_reqs b) (default_keep None b)) (cs_tree (sc_cache s)) (cs_tree c1)"
      "sc_last_batch s2 = sc_last_batch s" "sc_chunked_req s2 = sc_chunked_req s"
      "sc_waiting_queue_tree s2 = sc_waiting_queue_tree s" "sc_running_batch s2 = sc_running_batch s"
      "0 \<le> sc_new_token_ratio s \<and> 0 \<le> sf_min_new_token_ratio cfg \<longrightarrow> 0 \<le> sc_new_token_ratio s2"
    and b3: "b3 = b2 \<or> b3 = b2\<lparr>sb_batch_is_full := False\<rparr>"
    and s2: "sc_cache s2 = c2" "sc_waiting_queue s2 = sc_waiting_queue s @ map (\<lambda>i. reset_for_retract (sb_reqs b1 ! i)) gone"
  shows "\<exists>b4 c3 locs. prepare_for_decode decode_alloc_token b3 c2 = Some (Inr (b4, c3)) \<and>
     decode_outcome R b s b4 (s2\<lparr>sc_cache := c3\<rparr>) (gather ids kept) (gather ids gone) locs \<and>
     decode_frame cfg R b s b4 (s2\<lparr>sc_cache := c3\<rparr>) (gather ids kept) (gather ids gone)"
proof -
  let ?keep = "default_keep None b" and ?reqs = "sb_reqs b" and ?c = "sc_cache s"
  have n1: "length (sb_reqs b1) = length ids" using pick by (simp add: picked_def gather_def)
  have split: "mset kept + mset gone = mset [0..<length ids]" and ne: "kept \<noteq> []"
    and order: "\<forall>i\<in>set gone. \<forall>j\<in>set kept. retract_key (sb_reqs b1 ! i) \<le> retract_key (sb_reqs b1 ! j)"
    and al2: "aligned b2" and pick2: "picked b1 kept b2"
    and ret: "retracted_to R (sb_reqs b1) (sb_seq_lens b1) c1 gone kept c2" and room: "length (sb_reqs b2) \<le> token_available_size (cs_alloc c2)"
    using sh n1 by (simp_all add: shrunk_def)
  have lt: "\<forall>k\<in>set kept. k < length ids" "\<forall>k\<in>set gone. k < length ids"
    using arg_cong [OF split, of set_mset] by auto
  have reqs1: "sb_reqs b1 ! k = ?reqs ! (ids ! k)" if "k < length ids" for k
    using pick that by (simp add: picked_def gather_def)
  let ?kept = "gather ids kept" and ?gone = "gather ids gone"
  have whole: "mset ?kept + mset ?gone = mset ?keep" using mset_gather_split [OF split] perm by simp
  have "distinct ?keep" by (simp add: default_keep_def)
  then have "distinct ids" using mset_eq_imp_distinct_iff [OF perm] by simp
  have "mset (kept @ gone) = mset [0..<length ids]" using split by simp
  then have "distinct (kept @ gone)" using mset_eq_imp_distinct_iff by fastforce
  then have dk: "distinct ?kept"
    using \<open>distinct ids\<close> lt(1) inj_on_nth [of ids "set kept"] by (auto simp: gather_def distinct_map)
  have sub: "set ?kept \<subseteq> set ?keep" using arg_cong [OF whole, of set_mset] by auto
  have mem2: "mem_ok c2 (R + nodes_of ?reqs ?kept)" and table: "rp_table (cs_pool c2) = rp_table (cs_pool ?c)"
    and owned2: "owned_slots c2 = owned_slots ?c + private_of ?c ?reqs (sb_seq_lens b) ?gone"
    using ret c1 nodes_of_picked(1) [OF pick lt(1)] nodes_of_picked(2) [OF pick lt(2)]
      private_of_table [of c1 ?c] by (simp_all add: retracted_to_def)
  have cols: "sb_reqs b3 = sb_reqs b2" "sb_req_pool_indices b3 = sb_req_pool_indices b2" "sb_seq_lens b3 = sb_seq_lens b2"
    and al3: "aligned b3"
    using b3 al2 by (auto simp: aligned_defs)
  note pick3 = picked_trans [OF pick pick2 lt(1)]
  note rows = picked_rows [OF ok pick3 dk sub table]
  have len: "length (sb_reqs b3) = length ?kept" using pick3 cols(1) by (simp add: picked_def gather_def)
  obtain b4 c3 locs where run: "prepare_for_decode decode_alloc_token b3 c2 = Some (Inr (b4, c3))" "sb_reqs b4 = sb_reqs b3"
     "length locs = length (sb_reqs b3)" "sb_seq_lens b4 = map Suc (sb_seq_lens b3)"
     "mem_ok c3 (R + nodes_of ?reqs ?kept)" "owned_slots c2 = owned_slots c3 + mset locs"
     "\<forall>k<length (sb_reqs b3). let row = sb_req_pool_indices b3 ! k; n = sb_seq_lens b3 ! k
        in req_pool_read (cs_pool c3) row (n + 1) = req_pool_read (cs_pool c2) row n @ [locs ! k]"
     "rp_free_slots (cs_pool c3) = rp_free_slots (cs_pool c2)" "keeps_held (R + nodes_of ?reqs ?kept) (cs_tree c2) (cs_tree c3)"
     "pool_kept UNIV (cs_pool c2) (cs_pool c3)" "aligned_columns b4" "sb_req_pool_indices b4 = sb_req_pool_indices b3"
     "sb_forward_mode b4 = Some DECODE"
    using prepare_for_decode_ok [OF mem2 al3] room rows(1) cols by (auto simp del: One_nat_def)
  have order': "\<forall>i\<in>set ?gone. \<forall>j\<in>set ?kept. retract_key (?reqs ! i) \<le> retract_key (?reqs ! j)"
    using order lt reqs1 by (auto simp: gather_def)
  have queue: "map (\<lambda>i. reset_for_retract (sb_reqs b1 ! i)) gone = map (\<lambda>i. reset_for_retract (?reqs ! i)) ?gone"
    using lt(2) reqs1 by (simp add: gather_def)
  have read: "\<forall>k<length ?kept. sb_seq_lens b4 ! k = sb_seq_lens b ! (?kept ! k) + 1 \<and>
     req_pool_read (cs_pool c3) (cr_pool_idx (?reqs ! (?kept ! k))) (sb_seq_lens b ! (?kept ! k) + 1) =
       req_pool_read (cs_pool ?c) (cr_pool_idx (?reqs ! (?kept ! k))) (sb_seq_lens b ! (?kept ! k)) @ [locs ! k]"
  proof (intro allI impI)
    fix k assume k: "k < length ?kept"
    have "length (sb_seq_lens b3) = length (sb_reqs b3)" using al3 by (simp add: aligned_defs)
    then show "sb_seq_lens b4 ! k = sb_seq_lens b ! (?kept ! k) + 1 \<and>
     req_pool_read (cs_pool c3) (cr_pool_idx (?reqs ! (?kept ! k))) (sb_seq_lens b ! (?kept ! k) + 1) =
       req_pool_read (cs_pool ?c) (cr_pool_idx (?reqs ! (?kept ! k))) (sb_seq_lens b ! (?kept ! k)) @ [locs ! k]"
      using run(4,7) rows(2) k len cols table by (simp add: Let_def req_pool_read_def)
  qed
  have "sb_reqs b4 = gather ?reqs ?kept" using run(2) cols(1) pick3 by (simp add: picked_def)
  then have "decode_outcome R b s b4 (s2\<lparr>sc_cache := c3\<rparr>) ?kept ?gone locs"
    using whole order' read run(3,5,6) owned2 len ne s2(2) queue
    by (simp add: decode_outcome_def Let_def gather_def [of ids kept])
  moreover have "decode_frame cfg R b s b4 (s2\<lparr>sc_cache := c3\<rparr>) ?kept ?gone"
  proof -
    have "keeps_held (R + nodes_of ?reqs ?kept) (cs_tree ?c) (cs_tree c1)"
      by (rule keeps_held_mono [OF _ frame(1)]) (simp add: nodes_of_def flip: whole)
    moreover have "keeps_held (R + nodes_of ?reqs ?kept) (cs_tree c1) (cs_tree c2)"
      using ret nodes_of_picked(1) [OF pick lt(1)] by (simp add: retracted_to_def)
    ultimately have "keeps_held (R + nodes_of ?reqs ?kept) (cs_tree ?c) (cs_tree c3)"
      using run(9) keeps_held_trans by blast
    moreover have "pool_kept UNIV (cs_pool ?c) (cs_pool c3)"
      using run(10) table ret c1(1) by (simp add: pool_kept_def retracted_to_def)
    moreover have "rp_free_slots (cs_pool c3) = rp_free_slots (cs_pool ?c) @ map (\<lambda>i. cr_pool_idx (?reqs ! i)) ?gone"
      using run(8) ret c1(1) lt(2) reqs1 by (simp add: retracted_to_def gather_def)
    moreover have "sb_req_pool_indices b4 = map cr_pool_idx (sb_reqs b4)"
      using run(2,12) cols rows(2) pick3 by (auto simp: picked_def gather_def list_eq_iff_nth_eq)
    ultimately show ?thesis using frame(2-6) run(11,13) by (simp add: decode_frame_def)
  qed
  ultimately show ?thesis using run(1) by blast
qed

lemma decode_step_ok:
  assumes ok: "decode_state_ok R b (sc_cache s)" and chunk: "\<not> sf_chunk_cache cfg"
  shows "(\<exists>b' s' kept gone locs. update_running_batch cfg b s = Some (Inr (b', s')) \<and> decode_outcome R b s b' s' kept gone locs \<and>
        decode_frame cfg R b s b' s' kept gone) \<or>
     (update_running_batch cfg b s = Some (Inl AssertionError) \<and> decode_stuck R b s)"
proof (cases "default_keep None b = []")
  case True
  let ?b = "b\<lparr>sb_reqs := [], sb_batch_is_full := False\<rparr>"
  have run: "update_running_batch cfg b s = Some (Inr (?b, s))"
    using True by (simp add: update_running_batch_def sched_filter_batch_def is_empty_batch_def)
  have "decode_outcome R b s ?b s [] [] []"
    using ok True by (simp add: decode_outcome_def decode_state_ok_def private_of_def gather_def)
  moreover have "decode_frame cfg R b s ?b s [] []" by (simp add: decode_frame_def pool_kept_def)
  ultimately show ?thesis using run by blast
next
  case False
  let ?keep = "default_keep None b" and ?c = "sc_cache s"
  have al: "aligned b" and mem: "mem_ok ?c (R + nodes_of (sb_reqs b) ?keep)"
    and mx: "\<forall>i\<in>set ?keep. \<exists>m. sp_max_new_tokens (lq_params (sb_reqs b ! i)) = Some m \<and> 0 < m"
    using ok unfolding decode_state_ok_def by blast+
  have keep: "distinct ?keep" "\<forall>i\<in>set ?keep. i < length (sb_reqs b)" by (simp_all add: default_keep_def)
  obtain b1 ids where b1: "sched_filter_batch ?keep b = Inr b1" "mset ids = mset ?keep" "aligned b1" "picked b ids b1"
    using sched_filter_batch_ok [OF al False keep] by blast
  have reqs1: "sb_reqs b1 = gather (sb_reqs b) ids" using b1(4) by (simp add: picked_def)
  have n1: "length (sb_reqs b1) = length ids" using reqs1 by (simp add: gather_def)
  have "set ids = set ?keep" using b1(2) by (rule mset_eq_setD)
  then have mx1: "\<forall>q\<in>set (sb_reqs b1). \<exists>m. sp_max_new_tokens (lq_params q) = Some m \<and> 0 < m"
    using mx reqs1 by (simp add: gather_def)
  have ne: "sb_reqs b1 \<noteq> []" using b1(2) False reqs1 by (auto simp: gather_def)
  have nodes: "nodes_of (sb_reqs b1) [0..<length (sb_reqs b1)] = nodes_of (sb_reqs b) ?keep"
    using nodes_of_picked(1) [OF b1(4), of "[0..<length ids]"] n1 nodes_of_perm [OF b1(2)] gather_all [of ids] by simp
  obtain enough c1 where c1: "check_decode_mem 1 b1 ?c = Some (enough, c1)" "mem_ok c1 (R + nodes_of (sb_reqs b) ?keep)"
    "cs_pool c1 = cs_pool ?c" "owned_slots c1 = owned_slots ?c"
    "enough \<longrightarrow> length (sb_reqs b1) \<le> token_available_size (cs_alloc c1)" "\<not> enough \<longrightarrow> evictable_size (cs_tree c1) = 0"
    "keeps_held (R + nodes_of (sb_reqs b) ?keep) (cs_tree ?c) (cs_tree c1)"
    using check_decode_mem_ok [OF mem, of b1] by (elim exE conjE)
  have mem1: "mem_ok c1 (R + nodes_of (sb_reqs b1) [0..<length (sb_reqs b1)])" using c1(2) nodes by simp
  have finish: ?thesis if sh: "shrunk R b1 c1 kept gone b2 c2"
    and s2: "sc_cache s2 = c2" "sc_waiting_queue s2 = sc_waiting_queue s @ map (\<lambda>i. reset_for_retract (sb_reqs b1 ! i)) gone"
    and same: "sc_last_batch s2 = sc_last_batch s" "sc_chunked_req s2 = sc_chunked_req s"
      "sc_waiting_queue_tree s2 = sc_waiting_queue_tree s" "sc_running_batch s2 = sc_running_batch s"
      "0 \<le> sc_new_token_ratio s \<and> 0 \<le> sf_min_new_token_ratio cfg \<longrightarrow> 0 \<le> sc_new_token_ratio s2"
    and mid: "(if \<not> enough \<or> (sf_test_retract cfg \<and> 10 < batch_size b1)
                   then map_option (\<lambda>r. bind_r r (\<lambda>(retracted, ratio, b2, c2).
                          Inr (b2, extend_requests_to_queue retracted (s\<lparr>sc_new_token_ratio := ratio, sc_cache := c2\<rparr>))))
                          (retract_decode (sf_chunk_cache cfg) b1 c1)
                   else Some (Inr (b1, s\<lparr>sc_new_token_ratio :=
                                max (sc_new_token_ratio s - sf_new_token_ratio_decay cfg) (sf_min_new_token_ratio cfg),
                                sc_cache := c1\<rparr>))) = Some (Inr (b2, s2))" for kept gone b2 c2 s2
  proof -
    let ?b3 = "if batch_size b2 < batch_size b then b2\<lparr>sb_batch_is_full := False\<rparr> else b2"
    have "?b3 = b2 \<or> ?b3 = b2\<lparr>sb_batch_is_full := False\<rparr>" by simp
    from decode_finish [OF ok b1(4,2) c1(3,4) sh c1(7) same this s2]
    obtain b4 c3 locs where fin: "prepare_for_decode decode_alloc_token ?b3 c2 = Some (Inr (b4, c3))"
      "decode_outcome R b s b4 (s2\<lparr>sc_cache := c3\<rparr>) (gather ids kept) (gather ids gone) locs"
      "decode_frame cfg R b s b4 (s2\<lparr>sc_cache := c3\<rparr>) (gather ids kept) (gather ids gone)" by (elim exE conjE)
    have "update_running_batch cfg b s = Some (Inr (b4, s2\<lparr>sc_cache := c3\<rparr>))"
      unfolding update_running_batch_def b1(1) sum.case c1(1) option.case prod.case mid Let_def s2(1) fin(1)
      using ne by (simp add: is_empty_batch_def)
    then show ?thesis using fin(2,3) by blast
  qed
  show ?thesis
  proof (cases "\<not> enough \<or> (sf_test_retract cfg \<and> 10 < batch_size b1)")
    case False
    then have "length (sb_reqs b1) \<le> token_available_size (cs_alloc c1)" using c1(5) by simp
    then have "shrunk R b1 c1 [0..<length (sb_reqs b1)] [] b1 c1"
      using b1(3) mem1 ne
      by (simp add: shrunk_def retracted_to_def private_of_def picked_def aligned_defs gather_all)
    then show ?thesis
      by (rule finish [of _ _ _ _ "s\<lparr>sc_new_token_ratio := max (sc_new_token_ratio s - sf_new_token_ratio_decay cfg)
        (sf_min_new_token_ratio cfg), sc_cache := c1\<rparr>"]) (simp, simp, simp, simp, simp, simp, simp add: le_max_iff_disj, subst if_not_P [OF False], rule refl)
  next
    case True
    have one: "length (sb_reqs b1) = 1 \<longrightarrow> token_available_size (cs_alloc c1) = 0 \<longrightarrow> evictable_size (cs_tree c1) = 0"
      using c1(5,6) by (cases enough) auto
    from retract_decode_ok [OF mem1 b1(3) ne mx1 one] show ?thesis
    proof (elim disjE exE conjE)
      fix kept gone ratio b2 c2
      assume r: "retract_decode False b1 c1 = Some (Inr (map (\<lambda>i. reset_for_retract (sb_reqs b1 ! i)) gone, ratio, b2, c2))"
        and sh: "shrunk R b1 c1 kept gone b2 c2" and ratio: "0 \<le> ratio"
      show ?thesis
        by (rule finish [OF sh, of "extend_requests_to_queue (map (\<lambda>i. reset_for_retract (sb_reqs b1 ! i)) gone)
               (s\<lparr>sc_new_token_ratio := ratio, sc_cache := c2\<rparr>)"])
          (use True chunk r ratio in \<open>simp_all add: extend_requests_to_queue_def\<close>)
    next
      fix gone i c'
      assume r: "retract_decode False b1 c1 = Some (Inl AssertionError)" "mset gone + {#i#} = mset [0..<length (sb_reqs b1)]"
        "nothing_left c'" "retracted_to R (sb_reqs b1) (sb_seq_lens b1) c1 gone [i] c'"
      have run: "update_running_batch cfg b s = Some (Inl AssertionError)"
        unfolding update_running_batch_def b1(1) sum.case c1(1) option.case prod.case
        using True chunk r(1) ne by (simp add: is_empty_batch_def)
      have lt: "\<forall>k\<in>set gone. k < length ids" using arg_cong [OF r(2), of set_mset] n1 by auto
      have "mset gone + mset [i] = mset [0..<length ids]" using r(2) n1 by simp
      from mset_gather_split [OF this] have "mset (gather ids gone) + {#ids ! i#} = mset ?keep"
        using b1(2) by (simp add: gather_def)
      moreover have "owned_slots c' = owned_slots ?c + private_of ?c (sb_reqs b) (sb_seq_lens b) (gather ids gone)"
        using r(4) c1(3,4) nodes_of_picked(2) [OF b1(4) lt] private_of_table [of c1 ?c] by (simp add: retracted_to_def)
      moreover have here: "mem_ok c' (R + {#cr_last_node (sb_reqs b ! (ids ! i))#})"
        "keeps_held (R + {#cr_last_node (sb_reqs b ! (ids ! i))#}) (cs_tree ?c) (cs_tree c')"
      proof -
        have "i < length ids" using arg_cong [OF r(2), of set_mset] n1 by auto
        then have node: "nodes_of (sb_reqs b1) [i] = {#cr_last_node (sb_reqs b ! (ids ! i))#}"
          using reqs1 by (simp add: nodes_of_def gather_def)
        show "mem_ok c' (R + {#cr_last_node (sb_reqs b ! (ids ! i))#})" using r(4) node by (simp add: retracted_to_def)
        have "set_mset {#cr_last_node (sb_reqs b ! (ids ! i))#} \<subseteq> set_mset (nodes_of (sb_reqs b) ?keep)"
          using \<open>i < length ids\<close> \<open>set ids = set ?keep\<close> nth_mem by (auto simp: nodes_of_def)
        then have "{#cr_last_node (sb_reqs b ! (ids ! i))#} \<subseteq># nodes_of (sb_reqs b) ?keep" by simp
        then have "keeps_held (R + {#cr_last_node (sb_reqs b ! (ids ! i))#}) (cs_tree ?c) (cs_tree c1)"
          by (intro keeps_held_mono [OF _ c1(7)]) (rule subset_mset.add_left_mono)
        then show "keeps_held (R + {#cr_last_node (sb_reqs b ! (ids ! i))#}) (cs_tree ?c) (cs_tree c')"
          using r(4) node keeps_held_trans by (auto simp: retracted_to_def)
      qed
      ultimately have "decode_stuck R b s" using r(3) unfolding decode_stuck_def by blast
      then show ?thesis using run by blast
    qed
  qed
qed

text \<open>
  C6. A decode step never runs out of memory in its allocation.  If the batch, the pools and the
  tree are in order, then it ends, either normally or, when a single request is left and neither a free
  nor an evictable slot exists, with the assertion of \<open>retract_decode\<close>.  In the normal case the finished
  requests have left the batch; those that were retracted have made at most as much
  progress as any that stay, wait again in the queue in reset state, and their own slots are free or
  cached again; every request that stays has exactly one new slot behind its row; and if any request was
  unfinished at least one stays, so the system makes progress.
\<close>

theorem decode_never_out_of_memory:
  assumes "decode_state_ok R b (sc_cache s)" and "\<not> sf_chunk_cache cfg"
  shows "(\<exists>b' s' kept gone locs. update_running_batch cfg b s = Some (Inr (b', s')) \<and> decode_outcome R b s b' s' kept gone locs) \<or>
     (update_running_batch cfg b s = Some (Inl AssertionError) \<and> decode_stuck R b s)"
  using decode_step_ok [OF assms] by blast


text \<open>An example: one running request, with two slots in its row.\<close>

definition demo_running_req :: latent_req where
  "demo_running_req = (waiting_req ''a'' [1, 2])\<lparr>cr_last_node := rx_root demo_tree, cr_pool_idx := 1\<rparr>"

definition demo_running :: sched_batch where
  "demo_running = (sched_init_new False 0 [demo_running_req])
     \<lparr>sb_output_ids := Some [3], sb_seq_lens := [2], sb_req_pool_indices := [1],
      sb_sampling_info := Some (sampling_info_of (sched_init_new False 0 []) [demo_running_req])\<rparr>"

lemma demo_root_held: "radix_reach demo_tree {#rx_root demo_tree#}"
proof -
  have at: "\<exists>ks vs. at_node demo_tree (rx_root demo_tree) ks vs"
  proof -
    obtain L P V where ok: "radix_ok demo_tree L P V {#}" using radix_reach_ok [OF demo_tree_reach(1)] by blast
    note T = radix_okD(2) [OF ok]
    show ?thesis using at_node_iff [OF T] tree_root [OF T] by blast
  qed
  have "inc_lock_ref demo_tree (rx_root demo_tree) = Some (0, demo_tree)"
    by (simp add: inc_lock_ref_def inc_lock_loop.simps)
  then show ?thesis using at inc_lock_ref_spec [OF demo_tree_reach(1)] by fastforce
qed

lemma demo_running_ok: "decode_state_ok {#} demo_running (sc_cache demo_scheduler)"
proof -
  have keep: "default_keep None demo_running = [0]" by code_simp
  have "ta_not_in_group (token_init 20)" by code_simp
  then have "mem_ok (sc_cache demo_scheduler) {#rx_root demo_tree#}"
    using demo_root_held demo_tree_reach(2) by (simp add: mem_ok_def demo_scheduler_def)
  moreover have "cr_last_node (sb_reqs demo_running ! 0) = rx_root demo_tree"
    by (simp add: demo_running_def sched_init_new_def demo_running_req_def)
  moreover have "aligned demo_running"
    by (simp add: aligned_defs demo_running_def sched_init_new_def demo_running_req_def waiting_req_def new_req_def)
  moreover have "distinct (gather (sb_req_pool_indices demo_running) [0])" by (simp add: gather_def)
  moreover have "sb_req_pool_indices demo_running ! 0 = cr_pool_idx (sb_reqs demo_running ! 0) \<and>
      cr_pool_idx (sb_reqs demo_running ! 0) < length (rp_table (req_pool_init 2 8)) \<and>
      sb_seq_lens demo_running ! 0 < length (rp_table (req_pool_init 2 8) ! cr_pool_idx (sb_reqs demo_running ! 0)) \<and>
      sp_max_new_tokens (lq_params (sb_reqs demo_running ! 0)) = Some 4"
    by code_simp
  moreover have "cs_pool (sc_cache demo_scheduler) = req_pool_init 2 8" by (simp add: demo_scheduler_def)
  ultimately show ?thesis
    unfolding decode_state_ok_def keep by (simp add: nodes_of_def)
qed

theorem decode_never_out_of_memory_witness:
  "(\<exists>b' s' kept gone locs. update_running_batch demo_config demo_running demo_scheduler = Some (Inr (b', s')) \<and>
      decode_outcome {#} demo_running demo_scheduler b' s' kept gone locs) \<or>
   (update_running_batch demo_config demo_running demo_scheduler = Some (Inl AssertionError) \<and>
      decode_stuck {#} demo_running demo_scheduler)"
  by (rule decode_never_out_of_memory [OF demo_running_ok]) (simp add: demo_config_def)

end
