(* ===== verification/SchedIntake.thy ===== *)
theory SchedIntake
  imports Sched
begin

text \<open>
  What the scheduler does with the messages it receives (\<open>process_input_requests\<close> of
  \<open>srt/managers/scheduler.py\<close>): a generation request is validated and queued, an abort request takes
  one out again or marks it, a flush empties the cache.  Sessions, multimodal inputs, input embeddings,
  custom logit processors and the other control messages are left out; no grammar backend is configured.
\<close>

section \<open>Generation requests\<close>

record generate_input =
  gi_rid :: string
  gi_input_ids :: "nat list"
  gi_sampling_params :: sampling_params
  gi_return_logprob :: bool
  gi_logprob_start_len :: int
  gi_top_logprobs_num :: nat
  gi_token_ids_logprob :: "nat list option"
  gi_stream :: bool
  gi_session_id :: "string option"

record intake_config =
  ic_max_req_len :: nat
  ic_max_req_input_len :: nat
  ic_allow_auto_truncate :: bool
  ic_enable_latent :: bool
  ic_latent_end_token_id :: "nat option"
  ic_tokenizer :: "tokenizer option"
  ic_eos_token_ids :: "nat list option"

text \<open>\<open>validate_input_length\<close> of \<open>srt/managers/utils.py\<close> returns the error message and the request.\<close>

definition validate_input_length :: "latent_req \<Rightarrow> nat \<Rightarrow> bool \<Rightarrow> string option \<times> latent_req" where
  "validate_input_length q max_req_input_len allow_auto_truncate =
     (if max_req_input_len \<le> length (cr_origin_input_ids q)
      then if allow_auto_truncate then (None, q\<lparr>cr_origin_input_ids := take max_req_input_len (cr_origin_input_ids q)\<rparr>)
           else let msg = ''Input length ('' @ int_str (int (length (cr_origin_input_ids q))) @
                      '' tokens) exceeds the maximum allowed length ('' @ int_str (int max_req_input_len) @
                      '' tokens). Use a shorter input or enable --allow-auto-truncate.''
                in (Some msg, q\<lparr>lq_finished_reason := Some (FinishAbort msg)\<rparr>)
      else (None, q))"

definition set_max_new_tokens :: "int \<Rightarrow> latent_req \<Rightarrow> latent_req" where
  "set_max_new_tokens m q = q\<lparr>lq_params := (lq_params q)\<lparr>sp_max_new_tokens := Some m\<rparr>\<rparr>"

definition new_generate_req :: "intake_config \<Rightarrow> generate_input \<Rightarrow> latent_req" where
  "new_generate_req icfg g =
     (new_req (gi_rid g) (gi_input_ids g) (gi_sampling_params g) (ic_tokenizer icfg) (ic_eos_token_ids icfg)
        (gi_return_logprob g) (gi_top_logprobs_num g) (gi_token_ids_logprob g) (ic_enable_latent icfg)
        (ic_latent_end_token_id icfg))\<lparr>lq_stream := gi_stream g\<rparr>"

text \<open>The request that the handler puts in the queue.\<close>

definition generate_req :: "intake_config \<Rightarrow> generate_input \<Rightarrow> latent_req result" where
  "generate_req icfg g =
     (let q0 = new_generate_req icfg g
      in case gi_session_id g of
           Some sid \<Rightarrow>
             Inr (q0\<lparr>lq_finished_reason := Some (FinishAbort (''Invalid request: session id '' @ sid @ '' does not exist''))\<rparr>)
         | None \<Rightarrow>
             (case validate_input_length q0 (ic_max_req_input_len icfg) (ic_allow_auto_truncate icfg) of
                (Some _, q1) \<Rightarrow> Inr (set_max_new_tokens 0 (q1\<lparr>cr_origin_input_ids := [0]\<rparr>))
              | (None, q1) \<Rightarrow>
                  let n = int (length (cr_origin_input_ids q1));
                      start = (if gi_logprob_start_len g = - 1 \<or> \<not> gi_return_logprob g then n - 1 else gi_logprob_start_len g)
                  in if n \<le> start
                     then Inr (q1\<lparr>lq_finished_reason := Some (FinishAbort (''logprob_start_len, ('' @ int_str start @
                                 '') is higher than the number of input tokens ('' @ int_str n @
                                 ''). Request with a lower logprob_start_len.'')),
                                 lq_logprob_start_len := n - 1\<rparr>)
                     else let p = lq_params q1;
                              m = min (case sp_max_new_tokens p of Some m \<Rightarrow> m | None \<Rightarrow> 2 ^ 30)
                                      (int (ic_max_req_len icfg) - n - 1);
                              q2 = set_max_new_tokens m (q1\<lparr>lq_logprob_start_len := start\<rparr>)
                          in bind_r (check_r (sp_json_schema p = None \<and> sp_regex p = None \<and> sp_ebnf p = None) AssertionError)
                               (\<lambda>_. Inr q2)))"

definition handle_generate_request :: "intake_config \<Rightarrow> generate_input \<Rightarrow> scheduler \<Rightarrow> scheduler result" where
  "handle_generate_request icfg g s = bind_r (generate_req icfg g) (\<lambda>q. Inr (add_request_to_queue q s))"

section \<open>Abort\<close>

text \<open>\<open>s.startswith(p)\<close>; only the first match in the queue, or else in the running batch, is aborted.\<close>

definition starts_with :: "string \<Rightarrow> string \<Rightarrow> bool" where
  "starts_with p s = (take (length p) s = p)"

fun delete_first :: "('a \<Rightarrow> bool) \<Rightarrow> 'a list \<Rightarrow> 'a list" where
  "delete_first f [] = []"
| "delete_first f (x # xs) = (if f x then xs else x # delete_first f xs)"

fun update_first :: "('a \<Rightarrow> bool) \<Rightarrow> ('a \<Rightarrow> 'a) \<Rightarrow> 'a list \<Rightarrow> 'a list" where
  "update_first f g [] = []"
| "update_first f g (x # xs) = (if f x then g x # xs else x # update_first f g xs)"

definition abort_request :: "string \<Rightarrow> scheduler \<Rightarrow> scheduler" where
  "abort_request rid s =
     (if list_ex (\<lambda>q. starts_with rid (lq_rid q)) (sc_waiting_queue s)
      then s\<lparr>sc_waiting_queue := delete_first (\<lambda>q. starts_with rid (lq_rid q)) (sc_waiting_queue s)\<rparr>
      else s\<lparr>sc_running_batch := (sc_running_batch s)\<lparr>sb_reqs :=
               update_first (\<lambda>q. starts_with rid (lq_rid q) \<and> \<not> req_finished q) (\<lambda>q. q\<lparr>lq_to_abort := True\<rparr>)
                 (sb_reqs (sc_running_batch s))\<rparr>\<rparr>)"

section \<open>Messages\<close>

datatype input_msg = Generate generate_input | Abort string | FlushCache

fun msg_rid :: "input_msg \<Rightarrow> string" where
  "msg_rid (Generate g) = gi_rid g"
| "msg_rid (Abort rid) = rid"
| "msg_rid FlushCache = ''''"

definition is_health_check_generate_req :: "input_msg \<Rightarrow> bool" where
  "is_health_check_generate_req m = starts_with ''HEALTH_CHECK'' (msg_rid m)"

fun dispatch_request :: "intake_config \<Rightarrow> input_msg \<Rightarrow> scheduler \<Rightarrow> scheduler result" where
  "dispatch_request icfg (Generate g) s = handle_generate_request icfg g s"
| "dispatch_request icfg (Abort rid) s = Inr (abort_request rid s)"
| "dispatch_request icfg FlushCache s = Inr (snd (flush_cache s))"

fun process_input_requests :: "intake_config \<Rightarrow> input_msg list \<Rightarrow> scheduler \<Rightarrow> scheduler result" where
  "process_input_requests icfg [] s = Inr s"
| "process_input_requests icfg (m # ms) s =
     (if is_health_check_generate_req m \<and> (sc_chunked_req s \<noteq> None \<or> \<not> is_empty_batch (sc_running_batch s))
      then process_input_requests icfg ms s
      else bind_r (dispatch_request icfg m s) (process_input_requests icfg ms))"

end
