(* ===== verification/SchedLoop.thy ===== *)
theory SchedLoop
  imports SchedIntake
begin

text \<open>
  One iteration of \<open>event_loop_normal\<close> (\<open>srt/managers/scheduler.py\<close>) with the output processing of
  \<open>srt/managers/scheduler_output_processor_mixin.py\<close>: receive, choose a batch, run it, process its
  result, stream the output.  The worker (model and sampler) is a parameter.  Input log-probabilities,
  hidden states, embedding models, the overlap schedule and the statistics are left out.
\<close>

section \<open>Prefill output\<close>

text \<open>
  One request of \<open>process_batch_result_prefill\<close>; \<open>decoding\<close> are the ids of \<open>decoding_reqs\<close>.  A request
  whose prefill is not finished only counts down its chunks.
\<close>

definition cache_after_prefill ::
  "string list \<Rightarrow> latent_req \<Rightarrow> token_alloc cache_state \<Rightarrow> (latent_req \<times> token_alloc cache_state) result option" where
  "cache_after_prefill decoding q c =
     (if req_finished q then map_option (\<lambda>c1. Inr (q, c1)) (cache_finished_req token_free (cache_req.truncate q) c)
      else if lq_rid q \<notin> set decoding
      then map_option (\<lambda>r. bind_r r (\<lambda>(r', c1).
             Inr (q\<lparr>cr_prefix_indices := cr_prefix_indices r', cr_last_node := cr_last_node r'\<rparr>, c1)))
             (cache_unfinished_req token_free (cache_req.truncate q) c)
      else Some (Inr (q, c)))"

definition process_prefill_req ::
  "bool \<Rightarrow> sampled \<Rightarrow> string list \<Rightarrow> nat \<Rightarrow> nat \<Rightarrow> latent_req \<Rightarrow> token_alloc cache_state \<Rightarrow>
   (latent_req \<times> token_alloc cache_state) result option" where
  "process_prefill_req enable_latent res decoding i tok q c =
    (if lq_is_retracted q then Some (Inr (q, c))
     else if lq_is_chunked q \<le> 0
     then case check_finished (q\<lparr>cr_output_ids := cr_output_ids q @ [tok]\<rparr>) of
            Inl e \<Rightarrow> Some (Inl e)
          | Inr q1 \<Rightarrow>
             map_option (\<lambda>r. bind_r r (\<lambda>(q2, c1).
               bind_r (if enable_latent then update_latent_info (latent_output_of (sd_rows res)) i q2 else Inr q2) (\<lambda>q3.
               bind_r (append_logprobs res i tok q3) (\<lambda>q4. Inr (q4, c1)))))
               (cache_after_prefill decoding q1 c)
     else Some (Inr (q\<lparr>lq_is_chunked := lq_is_chunked q - 1\<rparr>, c)))"

text \<open>The loop; the last component is the id of the request that is still chunked (\<open>skip_stream_req\<close>).\<close>

fun process_prefill_loop ::
  "bool \<Rightarrow> sampled \<Rightarrow> string list \<Rightarrow> nat \<Rightarrow> (latent_req \<times> nat) list \<Rightarrow> string option \<Rightarrow> token_alloc cache_state \<Rightarrow>
   (latent_req list \<times> string option \<times> token_alloc cache_state) result option" where
  "process_prefill_loop enable_latent res decoding i [] skip c = Some (Inr ([], skip, c))"
| "process_prefill_loop enable_latent res decoding i ((q, tok) # qs) skip c =
     (case process_prefill_req enable_latent res decoding i tok q c of
        None \<Rightarrow> None
      | Some (Inl e) \<Rightarrow> Some (Inl e)
      | Some (Inr (q', c')) \<Rightarrow>
          map_option (\<lambda>r. bind_r r (\<lambda>(rest, skip', c''). Inr (q' # rest, skip', c'')))
            (process_prefill_loop enable_latent res decoding (i + 1) qs
               (if \<not> lq_is_retracted q \<and> 0 < lq_is_chunked q then Some (lq_rid q) else skip) c'))"

section \<open>Streaming\<close>

text \<open>One entry of the message to the detokenizer (\<open>BatchTokenIDOut\<close> holds a column per field).\<close>

record stream_row =
  sr_rid :: string
  sr_finished_reason :: "finish_reason option"
  sr_decoded_text :: string
  sr_decode_ids :: "nat list"
  sr_read_offset :: int
  sr_output_ids :: "nat list option"
  sr_prompt_tokens :: nat
  sr_completion_tokens :: nat
  sr_cached_tokens :: int
  sr_output_token_logprobs :: "(fl list \<times> nat list) option"
  sr_output_top_logprobs :: "(real list \<times> nat list) list option"
  sr_output_token_ids_logprobs :: "(real list \<times> nat list) list option"
  sr_topk_gumbels :: "real list list option"
  sr_topk_probs :: "real list list option"
  sr_topk_original_probs :: "real list list option"
  sr_topk_original_indices :: "int list list option"
  sr_topk_indices :: "int list list option"

record stream_config =
  st_stream_interval :: nat
  st_skip_tokenizer_init :: bool
  st_enable_latent :: bool

definition stream_due :: "nat \<Rightarrow> latent_req \<Rightarrow> bool" where
  "stream_due interval q \<longleftrightarrow> req_finished q \<or> (lq_stream q \<and> length (cr_output_ids q) mod interval = 0) \<or>
     (\<not> lq_stream q \<and> length (cr_output_ids q) mod 16384 = 0)"

text \<open>The row of a request; the calls move its offsets and its latent lists on.\<close>

definition stream_req :: "stream_config \<Rightarrow> bool \<Rightarrow> latent_req \<Rightarrow> stream_row \<times> latent_req" where
  "stream_req st return_logprob q =
     (let (decode_ids, read_offset, q0) = init_incremental_detokenize q;
          (gumbels, q1) = get_output_topk_gumbel_list q0;
          (probs, q2) = get_output_topk_prob_list q1;
          (oprobs, q3) = get_output_topk_original_prob_list q2;
          (oidxs, q4) = get_output_topk_original_indice_list q3;
          (idxs, q5) = get_output_topk_idx_list q4;
          latent = st_enable_latent st
      in (\<lparr>sr_rid = lq_rid q, sr_finished_reason = lq_finished_reason q, sr_decoded_text = lq_decoded_text q,
           sr_decode_ids = decode_ids, sr_read_offset = read_offset,
           sr_output_ids = (if st_skip_tokenizer_init st then Some (cr_output_ids q) else None),
           sr_prompt_tokens = length (cr_origin_input_ids q), sr_completion_tokens = length (cr_output_ids q),
           sr_cached_tokens = lq_cached_tokens q,
           sr_output_token_logprobs =
             (if return_logprob then Some (lq_output_token_logprobs_val q, lq_output_token_logprobs_idx q) else None),
           sr_output_top_logprobs = (if return_logprob then Some (lq_output_top_logprobs q) else None),
           sr_output_token_ids_logprobs = (if return_logprob then Some (lq_output_token_ids_logprobs q) else None),
           sr_topk_gumbels = (if latent then Some gumbels else None), sr_topk_probs = (if latent then Some probs else None),
           sr_topk_original_probs = (if latent then Some oprobs else None),
           sr_topk_original_indices = (if latent then Some oidxs else None),
           sr_topk_indices = (if latent then Some idxs else None)\<rparr>,
          if latent then q5 else q0))"

fun stream_output ::
  "stream_config \<Rightarrow> bool \<Rightarrow> string option \<Rightarrow> latent_req list \<Rightarrow> stream_row list \<times> latent_req list" where
  "stream_output st return_logprob skip [] = ([], [])"
| "stream_output st return_logprob skip (q # qs) =
     (let (rows, qs') = stream_output st return_logprob skip qs
      in if skip = Some (lq_rid q) \<or> \<not> stream_due (st_stream_interval st) q then (rows, q # qs')
         else let (row, q') = stream_req st return_logprob q in (row # rows, q' # qs'))"

section \<open>Running a batch\<close>

definition run_batch :: "(sched_batch \<Rightarrow> sampled result) \<Rightarrow> sched_batch \<Rightarrow> (sampled \<times> sched_batch) result" where
  "run_batch worker b = bind_r (worker b) (\<lambda>res. Inr (res, b\<lparr>sb_output_ids := Some (sd_tokens res)\<rparr>))"

definition process_batch_result_prefill ::
  "stream_config \<Rightarrow> sampled \<Rightarrow> sched_batch \<Rightarrow> token_alloc cache_state \<Rightarrow>
   (stream_row list \<times> sched_batch \<times> token_alloc cache_state) result option" where
  "process_batch_result_prefill st res b c =
     map_option (\<lambda>r. bind_r r (\<lambda>(reqs, skip, c').
       let (rows, reqs') = stream_output st (sb_return_logprob b) skip reqs in Inr (rows, b\<lparr>sb_reqs := reqs'\<rparr>, c')))
       (process_prefill_loop (st_enable_latent st) res
          (case sb_decoding_reqs b of None \<Rightarrow> [] | Some ds \<Rightarrow> map lq_rid ds) 0 (zip (sb_reqs b) (sd_tokens res)) None c)"

definition process_batch_result ::
  "stream_config \<Rightarrow> sampled \<Rightarrow> sched_batch \<Rightarrow> token_alloc cache_state \<Rightarrow>
   (stream_row list \<times> sched_batch \<times> token_alloc cache_state) result option" where
  "process_batch_result st res b c =
     (case sb_forward_mode b of
        Some DECODE \<Rightarrow>
          map_option (\<lambda>r. bind_r r (\<lambda>(reqs, c').
            let (rows, reqs') = stream_output st (sb_return_logprob b) None reqs in Inr (rows, b\<lparr>sb_reqs := reqs'\<rparr>, c')))
            (process_batch_result_decode (st_enable_latent st) res (sb_reqs b) c)
      | _ \<Rightarrow> if is_extend (sb_forward_mode b) then process_batch_result_prefill st res b c else Some (Inr ([], b, c)))"

section \<open>The event loop\<close>

record loop_config =
  lc_sched :: sched_config
  lc_intake :: intake_config
  lc_stream :: stream_config
  lc_worker :: "sched_batch \<Rightarrow> sampled result"
  lc_init_new_token_ratio :: real
  lc_crash_on_warnings :: bool

text \<open>
  A decode batch is the running batch itself, so its processed state is the new running batch; a
  prefill batch becomes part of the running batch only at the next iteration.
\<close>

definition run_and_process ::
  "loop_config \<Rightarrow> sched_batch \<Rightarrow> scheduler \<Rightarrow> (stream_row list \<times> scheduler) result option" where
  "run_and_process lc b s =
     (case run_batch (lc_worker lc) b of
        Inl e \<Rightarrow> Some (Inl e)
      | Inr (res, b1) \<Rightarrow>
          map_option (\<lambda>r. bind_r r (\<lambda>(rows, b2, c).
            Inr (rows, s\<lparr>sc_cache := c, sc_last_batch := Some b2,
                        sc_running_batch := (if sb_forward_mode b2 = Some DECODE then b2 else sc_running_batch s)\<rparr>)))
            (process_batch_result (lc_stream lc) res b1 (sc_cache s)))"

definition idle_step :: "loop_config \<Rightarrow> scheduler \<Rightarrow> (stream_row list \<times> scheduler) result" where
  "idle_step lc s =
     (let (kv_leak, req_leak) = check_memory (lc_sched lc) s
      in bind_r (check_r (\<not> ((kv_leak \<or> req_leak) \<and> lc_crash_on_warnings lc)) (ValueError ''memory leak detected!'')) (\<lambda>_.
         Inr ([], s\<lparr>sc_new_token_ratio := lc_init_new_token_ratio lc, sc_last_batch := None\<rparr>)))"

definition event_loop_step ::
  "loop_config \<Rightarrow> input_msg list \<Rightarrow> scheduler \<Rightarrow> (stream_row list \<times> scheduler) result option" where
  "event_loop_step lc msgs s =
     (case process_input_requests (lc_intake lc) msgs s of
        Inl e \<Rightarrow> Some (Inl e)
      | Inr s1 \<Rightarrow>
          (case get_next_batch_to_run (lc_sched lc) s1 of
             None \<Rightarrow> None
           | Some (Inl e) \<Rightarrow> Some (Inl e)
           | Some (Inr (None, s2)) \<Rightarrow> Some (idle_step lc s2)
           | Some (Inr (Some b, s2)) \<Rightarrow> run_and_process lc b s2))"

text \<open>The scheduler when the loop starts.\<close>

definition sched_init ::
  "sched_config \<Rightarrow> real \<Rightarrow> (nat \<Rightarrow> nat) \<Rightarrow> nat \<Rightarrow> nat \<Rightarrow> scheduler" where
  "sched_init cfg init_ratio clock req_slots max_context_len =
     \<lparr>sc_waiting_queue = [], sc_running_batch = sched_init_new False 0 [], sc_last_batch = None, sc_chunked_req = None,
      sc_new_token_ratio = init_ratio, sc_waiting_queue_tree = rx_init 1 False clock,
      sc_cache = \<lparr>cs_tree = rx_init 1 False clock, cs_pool = req_pool_init req_slots max_context_len,
                 cs_alloc = token_init (sf_max_total_num_tokens cfg)\<rparr>\<rparr>"

end
