(* ===== verification/SchedInv.thy ===== *)
theory SchedInv
  imports SchedDecode SchedLoop
begin

text \<open>
  Who owns which memory.  An entry \<open>(q, n)\<close> is a request with \<open>n\<close> tokens in the KV cache.  In a state
  with the entries \<open>xs\<close> every KV slot belongs to the tree, to the allocator or to exactly one entry, every row of the
  request pool is free or belongs to one entry, and every entry holds its node of the tree.  Each
  operation of the scheduler keeps this.
\<close>

section \<open>Slots of the allocator, also inside a free group\<close>

definition pending_slots :: "token_alloc \<Rightarrow> nat multiset" where
  "pending_slots a = token_slots a + (if ta_not_in_group a then {#} else mset (concat (ta_group a)))"

lemma pending_free [simp]:
  "pending_slots (token_free a xs) = pending_slots a + mset xs" "ta_not_in_group (token_free a xs) = ta_not_in_group a"
  by (simp_all add: pending_slots_def token_free_def token_slots_def)

lemma pending_ready: "ta_not_in_group a \<Longrightarrow> pending_slots a = token_slots a"
  by (simp add: pending_slots_def)

lemma pending_begin: "ta_not_in_group a \<Longrightarrow> pending_slots (token_free_group_begin a) = pending_slots a"
  by (simp add: pending_slots_def token_free_group_begin_def token_slots_def)

lemma pending_end: "\<not> ta_not_in_group a \<Longrightarrow> pending_slots (token_free_group_end a) = pending_slots a"
  by (auto simp: pending_slots_def token_free_group_end_def token_slots_def token_free_def Let_def)

section \<open>Ownership\<close>

type_synonym entry = "latent_req \<times> nat"

definition tokens_of :: "latent_req \<Rightarrow> nat list" where
  "tokens_of q = cr_origin_input_ids q @ cr_output_ids q"

lemma length_tokens_of [simp]: "length (tokens_of q) = seqlen q"
  by (simp add: tokens_of_def seqlen_def)

fun entry_ok :: "nat \<Rightarrow> token_alloc cache_state \<Rightarrow> entry \<Rightarrow> bool" where
  "entry_ok W c (q, n) \<longleftrightarrow> n \<le> seqlen q \<and> n \<le> W \<and>
     (\<exists>ks. at_node (cs_tree c) (cr_last_node q) ks (cr_prefix_indices q) \<and> prefix ks (take n (tokens_of q))) \<and>
     take (length (cr_prefix_indices q)) (rp_table (cs_pool c) ! cr_pool_idx q) = cr_prefix_indices q"

definition entry_slots :: "token_alloc cache_state \<Rightarrow> entry list \<Rightarrow> nat multiset" where
  "entry_slots c xs = mset (concat (map (\<lambda>(q, n). private_slots c q n) xs))"

definition entry_nodes :: "entry list \<Rightarrow> nat multiset" where
  "entry_nodes xs = mset (map (\<lambda>(q, n). cr_last_node q) xs)"

definition entry_rows :: "entry list \<Rightarrow> nat multiset" where
  "entry_rows xs = mset (map (\<lambda>(q, n). cr_pool_idx q) xs)"

definition pool_ok :: "nat \<Rightarrow> nat \<Rightarrow> req_pool \<Rightarrow> bool" where
  "pool_ok W n p \<longleftrightarrow> rp_size p = n \<and> length (rp_table p) = n \<and> (\<forall>row\<in>set (rp_table p). W \<le> length row)"

definition held_ok :: "nat \<Rightarrow> nat \<Rightarrow> nat multiset \<Rightarrow> token_alloc cache_state \<Rightarrow> entry list \<Rightarrow> bool" where
  "held_ok W N U c xs \<longleftrightarrow> radix_reach (cs_tree c) (entry_nodes xs) \<and> rx_page_size (cs_tree c) = 1 \<and>
     rx_slots (cs_tree c) + pending_slots (cs_alloc c) + entry_slots c xs = U \<and>
     mset (rp_free_slots (cs_pool c)) + entry_rows xs = mset [0..<N] \<and> pool_ok W N (cs_pool c) \<and>
     (\<forall>x\<in>set xs. entry_ok W c x)"

lemma entry_simps [simp]:
  "entry_slots c [] = {#}" "entry_slots c ((q, n) # xs) = mset (private_slots c q n) + entry_slots c xs"
  "entry_nodes [] = {#}" "entry_nodes ((q, n) # xs) = add_mset (cr_last_node q) (entry_nodes xs)"
  "entry_rows [] = {#}" "entry_rows ((q, n) # xs) = add_mset (cr_pool_idx q) (entry_rows xs)"
  by (simp_all add: entry_slots_def entry_nodes_def entry_rows_def)

lemma entry_append [simp]:
  "entry_slots c (xs @ ys) = entry_slots c xs + entry_slots c ys"
  "entry_nodes (xs @ ys) = entry_nodes xs + entry_nodes ys"
  "entry_rows (xs @ ys) = entry_rows xs + entry_rows ys"
  by (simp_all add: entry_slots_def entry_nodes_def entry_rows_def)

lemma held_mem_ok: "held_ok W N U c xs \<Longrightarrow> ta_not_in_group (cs_alloc c) \<Longrightarrow> mem_ok c (entry_nodes xs)"
  by (simp add: held_ok_def mem_ok_def)

lemma held_owned: "held_ok W N U c xs \<Longrightarrow> ta_not_in_group (cs_alloc c) \<Longrightarrow> owned_slots c + entry_slots c xs = U"
  by (simp add: held_ok_def pending_ready owned_slots_def)

lemma held_okI:
  "mem_ok c (entry_nodes xs) \<Longrightarrow> owned_slots c + entry_slots c xs = U \<Longrightarrow>
     mset (rp_free_slots (cs_pool c)) + entry_rows xs = mset [0..<N] \<Longrightarrow> pool_ok W N (cs_pool c) \<Longrightarrow>
     \<forall>x\<in>set xs. entry_ok W c x \<Longrightarrow> held_ok W N U c xs"
  by (simp add: held_ok_def mem_ok_def pending_ready owned_slots_def)

text \<open>The rows of the entries are different rows of the table.\<close>

lemma held_rows:
  assumes "held_ok W N U c xs"
  shows "distinct (map (\<lambda>(q, n). cr_pool_idx q) xs)" and "distinct (rp_free_slots (cs_pool c))"
    and "(q, n) \<in> set xs \<Longrightarrow> cr_pool_idx q < length (rp_table (cs_pool c))"
    and "(q, n) \<in> set xs \<Longrightarrow> cr_pool_idx q \<notin> set (rp_free_slots (cs_pool c))"
    and "r \<in> set (rp_free_slots (cs_pool c)) \<Longrightarrow> r < length (rp_table (cs_pool c))"
    and "r < length (rp_table (cs_pool c)) \<Longrightarrow> W \<le> length (rp_table (cs_pool c) ! r)"
proof -
  let ?rows = "map (\<lambda>(q, n). cr_pool_idx q) xs"
  have m: "mset (rp_free_slots (cs_pool c) @ ?rows) = mset [0..<N]" and p: "pool_ok W N (cs_pool c)"
    using assms by (simp_all add: held_ok_def entry_rows_def)
  have d: "distinct (rp_free_slots (cs_pool c) @ ?rows)" using mset_eq_imp_distinct_iff [OF m] by simp
  then show "distinct ?rows" "distinct (rp_free_slots (cs_pool c))" by simp_all
  have s: "set (rp_free_slots (cs_pool c)) \<union> set ?rows = {0..<N}" using mset_eq_setD [OF m] by simp
  have n: "length (rp_table (cs_pool c)) = N" using p by (simp add: pool_ok_def)
  show "cr_pool_idx q < length (rp_table (cs_pool c))" "cr_pool_idx q \<notin> set (rp_free_slots (cs_pool c))" if "(q, n) \<in> set xs"
  proof -
    have "cr_pool_idx q \<in> set ?rows" using that by force
    then show "cr_pool_idx q < length (rp_table (cs_pool c))" "cr_pool_idx q \<notin> set (rp_free_slots (cs_pool c))"
      using s n d by auto
  qed
  show "r < length (rp_table (cs_pool c))" if "r \<in> set (rp_free_slots (cs_pool c))" using that s n by auto
  show "W \<le> length (rp_table (cs_pool c) ! r)" if "r < length (rp_table (cs_pool c))" using p that by (simp add: pool_ok_def)
qed

text \<open>What one entry needs from the rest of the state.\<close>

lemma entry_ok_mono:
  assumes "entry_ok W c (q, n)" and "\<And>ks vs. at_node (cs_tree c) (cr_last_node q) ks vs \<Longrightarrow> at_node (cs_tree c') (cr_last_node q) ks vs"
    and "rp_table (cs_pool c') ! cr_pool_idx q = rp_table (cs_pool c) ! cr_pool_idx q"
  shows "entry_ok W c' (q, n)" and "private_slots c' q n = private_slots c q n"
  using assms by (auto simp: private_slots_def req_pool_read_def)

lemma entry_slots_cong:
  "(\<And>q n. (q, n) \<in> set xs \<Longrightarrow> rp_table (cs_pool c') ! cr_pool_idx q = rp_table (cs_pool c) ! cr_pool_idx q) \<Longrightarrow>
     entry_slots c' xs = entry_slots c xs"
  unfolding entry_slots_def by (intro arg_cong [where f = mset] arg_cong [where f = concat] map_cong)
    (auto simp: private_slots_def req_pool_read_def)

text \<open>A request may change in everything but what it owns, and the order of the entries does not matter.\<close>

fun owns :: "entry \<Rightarrow> nat \<times> nat list \<times> nat \<times> nat list \<times> nat" where
  "owns (q, n) = (cr_last_node q, cr_prefix_indices q, cr_pool_idx q, take n (tokens_of q), n)"

lemma owns_same:
  assumes "owns (q', n') = owns (q, n)"
  shows "entry_ok W c (q', n') \<longleftrightarrow> entry_ok W c (q, n)" and "private_slots c q' n' = private_slots c q n"
proof -
  have eq: "cr_last_node q' = cr_last_node q" "cr_prefix_indices q' = cr_prefix_indices q" "cr_pool_idx q' = cr_pool_idx q"
    "n' = n" "take n (tokens_of q') = take n (tokens_of q)"
    using assms by auto
  have "n \<le> seqlen q' \<longleftrightarrow> n \<le> seqlen q"
    using arg_cong [OF eq(5), of length] by (simp add: min_def split: if_splits)
  then show "entry_ok W c (q', n') \<longleftrightarrow> entry_ok W c (q, n)" "private_slots c q' n' = private_slots c q n"
    by (simp_all add: eq private_slots_def)
qed

lemma held_ok_owns:
  assumes "mset (map owns ys) = mset (map owns xs)" and "held_ok W N U c xs"
  shows "held_ok W N U c ys"
proof -
  let ?slots = "\<lambda>(node, pre, row, toks, n). mset (drop (length pre) (req_pool_read (cs_pool c) row n))"
  have slots: "entry_slots c zs = sum_mset (image_mset ?slots (mset (map owns zs)))" for zs
    by (induction zs) (auto simp: private_slots_def)
  have nodes: "entry_nodes zs = image_mset fst (mset (map owns zs))"
    and rows: "entry_rows zs = image_mset (\<lambda>(node, pre, row, toks, n). row) (mset (map owns zs))" for zs
    by (induction zs) auto
  have "\<forall>y\<in>set ys. entry_ok W c y"
  proof
    fix y assume "y \<in> set ys"
    then have "owns y \<in> set (map owns xs)" using mset_eq_setD [OF assms(1)] by auto
    then obtain x where "x \<in> set xs" "owns y = owns x" by auto
    then show "entry_ok W c y"
      using assms(2) owns_same(1) [of "fst y" "snd y" "fst x" "snd x"] by (simp add: held_ok_def)
  qed
  moreover have "entry_slots c ys = entry_slots c xs" "entry_nodes ys = entry_nodes xs" "entry_rows ys = entry_rows xs"
    by (simp_all only: slots nodes rows assms(1))
  ultimately show ?thesis using assms(2) by (simp add: held_ok_def)
qed


section \<open>A request finishes, or hands its tokens to the cache\<close>

lemma held_req_ok:
  assumes "held_ok W N U c ((q, n) # xs)" and "toks = take n (tokens_of q)"
  shows "req_ok (cache_req.truncate q) toks c (add_mset (cr_last_node q) (entry_nodes xs))" and "length toks = n"
proof -
  have e: "n \<le> seqlen q" "n \<le> W"
    "\<exists>ks. at_node (cs_tree c) (cr_last_node q) ks (cr_prefix_indices q) \<and> prefix ks (take n (tokens_of q))"
    "take (length (cr_prefix_indices q)) (rp_table (cs_pool c) ! cr_pool_idx q) = cr_prefix_indices q"
    and reach: "radix_reach (cs_tree c) (add_mset (cr_last_node q) (entry_nodes xs))" and ps: "rx_page_size (cs_tree c) = 1"
    using assms(1) by (auto simp: held_ok_def)
  show len: "length toks = n" using e(1) assms(2) by simp
  have row: "cr_pool_idx q < length (rp_table (cs_pool c))" "W \<le> length (rp_table (cs_pool c) ! cr_pool_idx q)"
    using held_rows(3,6) [OF assms(1)] by auto
  obtain ks where ks: "at_node (cs_tree c) (cr_last_node q) ks (cr_prefix_indices q)" "prefix ks toks" using e(3) assms(2) by blast
  have "length (cr_prefix_indices q) \<le> n"
    using at_node_cached(2) [OF reach ks(1)] prefix_length_le [OF ks(2)] len by simp
  then show "req_ok (cache_req.truncate q) toks c (add_mset (cr_last_node q) (entry_nodes xs))"
    using ps ks row e(2,4) len by (auto simp: req_ok_def cache_req.defs req_pool_read_def min_def)
qed

text \<open>The other entries, after an operation that keeps the nodes of the tree and their rows.\<close>

lemma others_kept:
  assumes "held_ok W N U c (x # xs)" and "\<And>ks vs m. m \<in># entry_nodes xs \<Longrightarrow> at_node (cs_tree c) m ks vs \<Longrightarrow> at_node (cs_tree c') m ks vs"
    and "\<And>q n. (q, n) \<in> set xs \<Longrightarrow> rp_table (cs_pool c') ! cr_pool_idx q = rp_table (cs_pool c) ! cr_pool_idx q"
  shows "\<forall>y\<in>set xs. entry_ok W c' y" and "entry_slots c' xs = entry_slots c xs"
proof -
  show "\<forall>y\<in>set xs. entry_ok W c' y"
  proof
    fix y assume y: "y \<in> set xs"
    obtain q n where q: "y = (q, n)" by (cases y) auto
    have "\<forall>y\<in>set (x # xs). entry_ok W c y" using assms(1) unfolding held_ok_def by (elim conjE)
    then have "entry_ok W c (q, n)" using y by (simp add: q del: entry_ok.simps)
    have node: "cr_last_node q \<in># entry_nodes xs" using y q by (force simp: entry_nodes_def)
    show "entry_ok W c' y"
      unfolding q by (rule entry_ok_mono(1) [OF \<open>entry_ok W c (q, n)\<close> assms(2) [OF node] assms(3)]) (use y q in simp_all)
  qed
  show "entry_slots c' xs = entry_slots c xs" by (rule entry_slots_cong) (use assms(3) in auto)
qed

lemma slots_moved:
  assumes "t' + freed = t + own" and "t + a + (own + e) = U"
  shows "t' + (a + freed) + e = (U :: nat multiset)"
  unfolding freed_slots [OF assms(1) refl] using assms(2) by (simp only: add.assoc)

lemma held_finish:
  assumes held: "held_ok W N U c ((q, n) # xs)" and len: "n + 1 = seqlen q"
  shows "\<exists>c'. cache_finished_req token_free (cache_req.truncate q) c = Some c' \<and> held_ok W N U c' xs \<and>
     ta_not_in_group (cs_alloc c') = ta_not_in_group (cs_alloc c)"
proof -
  let ?r = "cache_req.truncate q"
  have toks: "butlast (cr_origin_input_ids ?r @ cr_output_ids ?r) = take n (tokens_of q)"
  proof -
    have "length (tokens_of q) - 1 = n" using len by simp
    then show ?thesis by (simp add: butlast_conv_take tokens_of_def cache_req.defs)
  qed
  have reach: "radix_reach (cs_tree c) (add_mset (cr_last_node q) (entry_nodes xs))" using held by (simp add: held_ok_def)
  note ok = held_req_ok [OF held toks]
  obtain freed t' where *: "cache_finished_req token_free ?r c =
       Some \<lparr>cs_tree = t', cs_pool = req_pool_free (cs_pool c) (OneSlot (cr_pool_idx ?r)), cs_alloc = token_free (cs_alloc c) freed\<rparr>"
     "radix_reach t' (add_mset (cr_last_node q) (entry_nodes xs) - {#cr_last_node ?r#})" "rx_page_size t' = 1"
     "rx_slots t' + mset freed = rx_slots (cs_tree c) + mset (drop (length (cr_prefix_indices ?r))
        (req_pool_read (cs_pool c) (cr_pool_idx ?r) (length (butlast (cr_origin_input_ids ?r @ cr_output_ids ?r)))))"
     "\<forall>m ks vs. at_node (cs_tree c) m ks vs \<longrightarrow> at_node t' m ks vs"
    using finished_req_run [OF reach ok(1), of token_free] by (elim exE conjE)
  let ?c' = "\<lparr>cs_tree = t', cs_pool = req_pool_free (cs_pool c) (OneSlot (cr_pool_idx ?r)), cs_alloc = token_free (cs_alloc c) freed\<rparr>"
  have priv: "rx_slots t' + mset freed = rx_slots (cs_tree c) + mset (private_slots c q n)"
    using *(4) unfolding ok(2) by (simp add: private_slots_def cache_req.defs)
  have rest: "\<forall>y\<in>set xs. entry_ok W ?c' y" "entry_slots ?c' xs = entry_slots c xs"
    by (rule others_kept [OF held]; use *(5) in simp)+
  have "rx_slots t' + (pending_slots (cs_alloc c) + mset freed) + entry_slots c xs = U"
    by (rule slots_moved [OF priv]) (use held in \<open>simp add: held_ok_def\<close>)
  then have "held_ok W N U ?c' xs"
    using held *(2,3) rest by (simp add: held_ok_def cache_req.defs pool_ok_def)
  then show ?thesis using *(1) by (intro exI [of _ ?c']) simp
qed

lemma held_unfinish:
  assumes held: "held_ok W N U c ((q, n) # xs)" and fill: "cr_fill_ids q = take n (tokens_of q)"
  shows "\<exists>r' c'. cache_unfinished_req token_free (cache_req.truncate q) c = Some (Inr (r', c')) \<and>
     held_ok W N U c' ((q\<lparr>cr_prefix_indices := cr_prefix_indices r', cr_last_node := cr_last_node r'\<rparr>, n) # xs) \<and>
     ta_not_in_group (cs_alloc c') = ta_not_in_group (cs_alloc c)"
proof -
  let ?r = "cache_req.truncate q" and ?i = "cr_pool_idx q"
  have toks: "cr_fill_ids ?r = take n (tokens_of q)" using fill by (simp add: cache_req.defs)
  have reach: "radix_reach (cs_tree c) (add_mset (cr_last_node q) (entry_nodes xs))" using held by (simp add: held_ok_def)
  note ok = held_req_ok [OF held toks]
  obtain freed new m t' row' where *: "cache_unfinished_req token_free ?r c =
       Some (Inr (?r\<lparr>cr_prefix_indices := new, cr_last_node := m\<rparr>,
         \<lparr>cs_tree = t', cs_pool = (cs_pool c)\<lparr>rp_table := (rp_table (cs_pool c))[cr_pool_idx ?r := row']\<rparr>,
          cs_alloc = token_free (cs_alloc c) freed\<rparr>))"
     "radix_reach t' (add_mset m (add_mset (cr_last_node q) (entry_nodes xs) - {#cr_last_node ?r#}))" "rx_page_size t' = 1"
     "at_node t' m (cr_fill_ids ?r) new" "length row' = length (rp_table (cs_pool c) ! cr_pool_idx ?r)"
     "take (length (cr_fill_ids ?r)) row' = new"
     "rx_slots t' + mset freed = rx_slots (cs_tree c) +
       mset (drop (length (cr_prefix_indices ?r)) (req_pool_read (cs_pool c) (cr_pool_idx ?r) (length (cr_fill_ids ?r))))"
     "\<forall>m ks vs. at_node (cs_tree c) m ks vs \<longrightarrow> at_node t' m ks vs"
    using unfinished_req_run [OF reach ok(1), of token_free] by (elim exE conjE)
  let ?p = "(cs_pool c)\<lparr>rp_table := (rp_table (cs_pool c))[?i := row']\<rparr>"
  let ?c' = "\<lparr>cs_tree = t', cs_pool = ?p, cs_alloc = token_free (cs_alloc c) freed\<rparr>"
  let ?q = "q\<lparr>cr_prefix_indices := new, cr_last_node := m\<rparr>"
  have reach': "radix_reach t' (add_mset m (entry_nodes xs))" using *(2) by (simp add: cache_req.defs)
  have len: "length (take n (tokens_of q)) = n" using ok(2) toks by simp
  have new: "take n row' = new" "at_node t' m (take n (tokens_of q)) new" using *(4,6) len unfolding toks by simp_all
  then have "length new = n" using at_node_cached(2) [OF reach' new(2)] len by simp
  have i: "?i < length (rp_table (cs_pool c))" using held_rows(3) [OF held] by auto
  have d: "distinct (map (\<lambda>(q, n). cr_pool_idx q) ((q, n) # xs))" by (rule held_rows(1) [OF held])
  then have other: "rp_table ?p ! cr_pool_idx q' = rp_table (cs_pool c) ! cr_pool_idx q'" if "(q', n') \<in> set xs" for q' n'
  proof -
    have "cr_pool_idx q' \<in> set (map (\<lambda>(q, n). cr_pool_idx q) xs)" using that by force
    then have "cr_pool_idx q' \<noteq> ?i" using d by auto
    then show ?thesis by simp
  qed
  have rest: "\<forall>y\<in>set xs. entry_ok W ?c' y" "entry_slots ?c' xs = entry_slots c xs"
    by (rule others_kept [OF held]; use *(8) other in simp)+
  have mine: "private_slots ?c' ?q n = []" "entry_ok W ?c' (?q, n)"
    using held new i \<open>length new = n\<close> by (auto simp: private_slots_def req_pool_read_def held_ok_def tokens_of_def seqlen_def)
  have priv: "rx_slots t' + mset freed = rx_slots (cs_tree c) + mset (private_slots c q n)"
    using *(7) unfolding toks len by (simp add: private_slots_def cache_req.defs)
  have "rx_slots t' + (pending_slots (cs_alloc c) + mset freed) + entry_slots c xs = U"
    by (rule slots_moved [OF priv]) (use held in \<open>simp add: held_ok_def\<close>)
  moreover have "\<forall>row\<in>set (rp_table ?p). W \<le> length row"
  proof
    fix row assume "row \<in> set (rp_table ?p)"
    then have "row \<in> insert row' (set (rp_table (cs_pool c)))" using set_update_subset_insert by fastforce
    then show "W \<le> length row" using held i *(5) by (auto simp: held_ok_def pool_ok_def cache_req.defs)
  qed
  ultimately have "held_ok W N U ?c' ((?q, n) # xs)"
    using held reach' *(3) rest mine by (simp add: held_ok_def pool_ok_def)
  then show ?thesis using *(1) by (intro exI [of _ "?r\<lparr>cr_prefix_indices := new, cr_last_node := m\<rparr>"] exI [of _ ?c']) (simp add: cache_req.defs)
qed


section \<open>The steps of the scheduler\<close>

text \<open>Requests whose last token is in the cache as well, and requests that wait for their next forward pass.\<close>

definition full_entries :: "latent_req list \<Rightarrow> entry list" where
  "full_entries qs = map (\<lambda>q. (q, seqlen q)) qs"

definition live_entries :: "latent_req list \<Rightarrow> entry list" where
  "live_entries qs = map (\<lambda>q. (q, seqlen q - 1)) (filter (\<lambda>q. \<not> req_finished q) qs)"

lemma pool_kept_ok: "pool_kept rows p p' \<Longrightarrow> pool_ok W N p \<Longrightarrow> pool_ok W N p'"
proof -
  assume k: "pool_kept rows p p'" and p: "pool_ok W N p"
  then have len: "map length (rp_table p') = map length (rp_table p)" by (simp add: pool_kept_def)
  have "\<forall>n\<in>set (map length (rp_table p)). W \<le> n" using p by (simp add: pool_ok_def)
  then have "\<forall>row\<in>set (rp_table p'). W \<le> length row" unfolding len [symmetric] by simp
  moreover have "length (rp_table p') = length (rp_table p)" using arg_cong [OF len, of length] by simp
  ultimately show ?thesis using k p by (simp add: pool_kept_def pool_ok_def)
qed

lemma held_prefill:
  fixes ob :: "sched_batch option"
  defines "reqs \<equiv> (case ob of None \<Rightarrow> [] | Some b \<Rightarrow> sb_reqs b)"
  assumes held: "held_ok W N U (sc_cache s) xs" and ready: "ta_not_in_group (cs_alloc (sc_cache s))"
    and out: "prefill_outcome cfg (entry_nodes xs) s ob s' own" and frame: "prefill_frame cfg (entry_nodes xs) s ob s'"
    and fits: "\<forall>q\<in>set reqs. whole q \<and> seqlen q \<le> W"
  shows "held_ok W N U (sc_cache s') (full_entries reqs @ xs)" and "ta_not_in_group (cs_alloc (sc_cache s'))"
proof -
  let ?c = "sc_cache s" and ?c' = "sc_cache s'" and ?R = "entry_nodes xs"
  let ?rows = "take (length reqs) (rp_free_slots (cs_pool ?c))"
  have mem: "mem_ok ?c' (?R + mset (map cr_last_node reqs))" and owned: "owned_slots ?c = owned_slots ?c' + mset (concat own)"
    and free: "rp_free_slots (cs_pool ?c') = drop (length reqs) (rp_free_slots (cs_pool ?c))"
    and rok: "\<forall>q\<in>set reqs. req_ok (cache_req.truncate q) (cr_fill_ids q) ?c' (?R + mset (map cr_last_node reqs))"
    using out unfolding prefill_outcome_def Let_def reqs_def by simp_all
  have keep: "keeps_held ?R (cs_tree ?c) (cs_tree ?c')" and pool: "pool_kept (set ?rows) (cs_pool ?c) (cs_pool ?c')"
    and idx: "map cr_pool_idx reqs = ?rows"
    using frame unfolding prefill_frame_def Let_def reqs_def by simp_all
  show "ta_not_in_group (cs_alloc ?c')" using mem by (simp add: mem_ok_def)
  have nodes: "entry_nodes (full_entries reqs) = mset (map cr_last_node reqs)"
    and rows: "entry_rows (full_entries reqs) = mset ?rows"
    unfolding idx [symmetric] by (simp_all add: entry_nodes_def entry_rows_def full_entries_def comp_def)
  have other: "rp_table (cs_pool ?c') ! cr_pool_idx q = rp_table (cs_pool ?c) ! cr_pool_idx q" if "(q, n) \<in> set xs" for q n
    using pool held_rows(4) [OF held that] in_set_takeD by (fastforce simp: pool_kept_def)
  have slots: "entry_slots ?c' xs = entry_slots ?c xs" by (rule entry_slots_cong) (use other in blast)
  have old: "\<forall>x\<in>set xs. entry_ok W ?c' x"
  proof
    fix x assume x: "x \<in> set xs"
    obtain q n where q: "x = (q, n)" by (cases x) auto
    have node: "cr_last_node q \<in># ?R" using x q by (force simp: entry_nodes_def)
    have here: "entry_ok W ?c (q, n)" using held x unfolding held_ok_def q by blast
    show "entry_ok W ?c' x"
      unfolding q by (rule entry_ok_mono(1) [OF here _ other]) (use keep node x q in \<open>auto simp: keeps_held_def\<close>)
  qed
  have full: "take (seqlen q) (tokens_of q) = tokens_of q" for q
    by (simp add: take_all_iff)
  have reach: "radix_reach (cs_tree ?c') (?R + mset (map cr_last_node reqs))" using mem by (simp add: mem_ok_def)
  have new: "entry_ok W ?c' (q, seqlen q)" if q: "q \<in> set reqs" for q
  proof -
    have fill: "cr_fill_ids q = tokens_of q" "seqlen q \<le> W" using fits q by (simp_all add: whole_def tokens_of_def)
    have "req_ok (cache_req.truncate q) (tokens_of q) ?c' (?R + mset (map cr_last_node reqs))"
      using bspec [OF rok q] by (simp only: fill(1))
    then have r: "\<exists>ks. at_node (cs_tree ?c') (cr_last_node q) ks (cr_prefix_indices q) \<and> prefix ks (tokens_of q)"
      "take (length (cr_prefix_indices q)) (req_pool_read (cs_pool ?c') (cr_pool_idx q) (length (tokens_of q))) = cr_prefix_indices q"
      by (auto simp: req_ok_def cache_req.defs)
    obtain ks where ks: "at_node (cs_tree ?c') (cr_last_node q) ks (cr_prefix_indices q)" "prefix ks (tokens_of q)" using r(1) by blast
    have "length (cr_prefix_indices q) \<le> seqlen q"
      using at_node_cached(2) [OF reach ks(1)] prefix_length_le [OF ks(2)] by simp
    then have "take (length (cr_prefix_indices q)) (rp_table (cs_pool ?c') ! cr_pool_idx q) = cr_prefix_indices q"
      using r(2) by (simp add: req_pool_read_def min_absorb1)
    then show ?thesis using ks fill(2) full [of q] by auto
  qed
  have fresh: "map (\<lambda>q. private_slots ?c' q (seqlen q)) reqs = own"
  proof (cases ob)
    case None
    then show ?thesis using out by (simp add: prefill_outcome_def reqs_def Let_def)
  next
    case (Some b)
    then have b: "batch_rows b ?c' own" "reqs = sb_reqs b" using out by (simp_all add: prefill_outcome_def reqs_def Let_def)
    show ?thesis
    proof (rule nth_equalityI)
      show "length (map (\<lambda>q. private_slots ?c' q (seqlen q)) reqs) = length own" using b by (simp add: batch_rows_def)
      fix i assume "i < length (map (\<lambda>q. private_slots ?c' q (seqlen q)) reqs)"
      then have i: "i < length reqs" by simp
      have len: "length (cr_fill_ids (reqs ! i)) = seqlen (reqs ! i)"
        using fits nth_mem [OF i] by (auto simp: whole_def seqlen_def)
      have "req_pool_read (cs_pool ?c') (cr_pool_idx (reqs ! i)) (length (cr_fill_ids (reqs ! i))) = cr_prefix_indices (reqs ! i) @ own ! i"
        using b i by (simp add: batch_rows_def Let_def)
      then show "map (\<lambda>q. private_slots ?c' q (seqlen q)) reqs ! i = own ! i"
        using i unfolding len by (simp add: private_slots_def)
    qed
  qed
  have "entry_slots ?c' (full_entries reqs) = mset (concat own)"
    unfolding fresh [symmetric] by (simp add: entry_slots_def full_entries_def comp_def)
  then have "owned_slots ?c' + entry_slots ?c' (full_entries reqs @ xs) = U"
    using held_owned [OF held ready] by (simp add: owned slots add.assoc)
  moreover have "mset (rp_free_slots (cs_pool ?c')) + entry_rows (full_entries reqs @ xs) = mset [0..<N]"
    using held mset_take_drop [of "length reqs" "rp_free_slots (cs_pool ?c)"] unfolding free
    by (simp add: rows held_ok_def ac_simps)
  moreover have "\<forall>x\<in>set (full_entries reqs @ xs). entry_ok W ?c' x"
    using old new by (auto simp: full_entries_def simp del: entry_ok.simps)
  moreover have "mem_ok ?c' (entry_nodes (full_entries reqs @ xs))"
    using mem nodes by (simp add: ac_simps)
  moreover have "pool_ok W N (cs_pool ?c')" using pool_kept_ok [OF pool] held by (simp add: held_ok_def)
  ultimately show "held_ok W N U ?c' (full_entries reqs @ xs)" by (intro held_okI)
qed

text \<open>A batch in order: its columns belong to its requests, each of which has output and returns no log-probabilities.\<close>

definition columns_ok :: "sched_batch \<Rightarrow> bool" where
  "columns_ok b \<longleftrightarrow> aligned_columns b \<and> sb_req_pool_indices b = map cr_pool_idx (sb_reqs b) \<and>
     sb_seq_lens b = map (\<lambda>q. seqlen q - 1) (sb_reqs b) \<and> (\<forall>q\<in>set (sb_reqs b). cr_output_ids q \<noteq> [] \<and> \<not> lq_return_logprob q)"

lemma columns_nth:
  assumes "columns_ok b" and "i < length (sb_reqs b)"
  shows "sb_req_pool_indices b ! i = cr_pool_idx (sb_reqs b ! i)" and "sb_seq_lens b ! i + 1 = seqlen (sb_reqs b ! i)"
proof -
  have "cr_output_ids (sb_reqs b ! i) \<noteq> []" using assms nth_mem [OF assms(2)] unfolding columns_ok_def by blast
  then show "sb_req_pool_indices b ! i = cr_pool_idx (sb_reqs b ! i)" "sb_seq_lens b ! i + 1 = seqlen (sb_reqs b ! i)"
    using assms by (cases "cr_output_ids (sb_reqs b ! i)"; simp add: columns_ok_def seqlen_def)+
qed

lemma live_positions:
  "map (\<lambda>i. sb_reqs b ! i) (default_keep None b) = filter (\<lambda>q. \<not> req_finished q) (sb_reqs b)"
proof -
  have "filter (\<lambda>q. \<not> req_finished q) (map ((!) (sb_reqs b)) [0..<length (sb_reqs b)]) =
      map ((!) (sb_reqs b)) (filter ((\<lambda>q. \<not> req_finished q) \<circ> (!) (sb_reqs b)) [0..<length (sb_reqs b)])"
    by (rule filter_map)
  then show ?thesis by (simp add: default_keep_def comp_def map_nth)
qed

lemma live_entries_positions:
  assumes "columns_ok b"
  shows "live_entries (sb_reqs b) = map (\<lambda>i. (sb_reqs b ! i, sb_seq_lens b ! i)) (default_keep None b)"
proof -
  have "live_entries (sb_reqs b) = map (\<lambda>i. (sb_reqs b ! i, seqlen (sb_reqs b ! i) - 1)) (default_keep None b)"
    by (simp add: live_entries_def live_positions [symmetric] comp_def)
  also have "\<dots> = map (\<lambda>i. (sb_reqs b ! i, sb_seq_lens b ! i)) (default_keep None b)"
  proof (rule map_cong [OF refl])
    fix i assume "i \<in> set (default_keep None b)"
    then have "sb_seq_lens b ! i + 1 = seqlen (sb_reqs b ! i)" using columns_nth(2) [OF assms] by (simp add: default_keep_def)
    then show "(sb_reqs b ! i, seqlen (sb_reqs b ! i) - 1) = (sb_reqs b ! i, sb_seq_lens b ! i)" by simp
  qed
  finally show ?thesis .
qed

text \<open>The entries at some positions of a batch.\<close>

definition entries_at :: "sched_batch \<Rightarrow> nat list \<Rightarrow> entry list" where
  "entries_at b ids = map (\<lambda>i. (sb_reqs b ! i, sb_seq_lens b ! i)) ids"

lemma entries_at_simps:
  "entry_nodes (entries_at b ids) = nodes_of (sb_reqs b) ids"
  "entry_slots c (entries_at b ids) = private_of c (sb_reqs b) (sb_seq_lens b) ids"
  "entry_rows (entries_at b ids) = mset (map (\<lambda>i. cr_pool_idx (sb_reqs b ! i)) ids)"
  by (simp_all add: entries_at_def entry_nodes_def entry_slots_def entry_rows_def nodes_of_def private_of_def comp_def)


text \<open>One more token in the row of an entry.\<close>

lemma entry_grows:
  assumes ok: "entry_ok W c (q, n)" and reach: "radix_reach (cs_tree c) R" and row: "n \<le> length (rp_table (cs_pool c) ! cr_pool_idx q)"
    and keep: "\<And>ks vs. at_node (cs_tree c) (cr_last_node q) ks vs \<Longrightarrow> at_node (cs_tree c') (cr_last_node q) ks vs"
    and read: "req_pool_read (cs_pool c') (cr_pool_idx q) (n + 1) = req_pool_read (cs_pool c) (cr_pool_idx q) n @ [v]"
    and fits: "n + 1 \<le> seqlen q" "n + 1 \<le> W"
  shows "entry_ok W c' (q, n + 1)" and "private_slots c' q (n + 1) = private_slots c q n @ [v]"
proof -
  let ?pre = "cr_prefix_indices q" and ?row = "rp_table (cs_pool c) ! cr_pool_idx q" and ?row' = "rp_table (cs_pool c') ! cr_pool_idx q"
  obtain ks where ks: "at_node (cs_tree c) (cr_last_node q) ks ?pre" "prefix ks (take n (tokens_of q))" and pre: "take (length ?pre) ?row = ?pre"
    using ok by auto
  have "length (take n (tokens_of q)) = n" using fits by simp
  then have le: "length ?pre \<le> n"
    using at_node_cached(2) [OF reach ks(1)] prefix_length_le [OF ks(2)] by simp
  have len: "length (take n ?row) = n" using row by simp
  have "take (n + 1) (tokens_of q) = take n (tokens_of q) @ [tokens_of q ! n]"
    using fits by (simp add: take_Suc_conv_app_nth)
  then have "prefix ks (take (n + 1) (tokens_of q))" using ks(2) by (simp only: prefix_prefix)
  moreover have read': "take (n + 1) ?row' = take n ?row @ [v]" using read by (simp only: req_pool_read_def)
  have "take (length ?pre) (take (n + 1) ?row') = take (length ?pre) ?row"
    unfolding read' using le len by (simp add: min_absorb1)
  then have "take (length ?pre) ?row' = ?pre" using le pre by (simp add: min_absorb1)
  ultimately show "entry_ok W c' (q, n + 1)" using keep [OF ks(1)] fits by auto
  show "private_slots c' q (n + 1) = private_slots c q n @ [v]"
    unfolding private_slots_def read using le len by (simp add: req_pool_read_def)
qed

lemma mset_one_more:
  "length ls = length ps \<Longrightarrow> mset (concat (map2 (\<lambda>p l. p @ [l]) ps ls)) = mset (concat ps) + mset ls"
  by (induction ls ps rule: list_induct2) auto

lemma held_decode:
  assumes cols: "columns_ok b" and held: "held_ok W N U (sc_cache s) (live_entries (sb_reqs b))"
    and ready: "ta_not_in_group (cs_alloc (sc_cache s))"
    and out: "decode_outcome {#} b s b' s' kept gone locs" and frame: "decode_frame cfg {#} b s b' s' kept gone"
    and fits: "\<forall>i\<in>set (default_keep None b). seqlen (sb_reqs b ! i) \<le> W"
  shows "held_ok W N U (sc_cache s') (full_entries (sb_reqs b'))" and "ta_not_in_group (cs_alloc (sc_cache s'))"
proof -
  let ?c = "sc_cache s" and ?c' = "sc_cache s'" and ?reqs = "sb_reqs b" and ?ns = "sb_seq_lens b"
  have perm: "mset kept + mset gone = mset (default_keep None b)" and reqs: "sb_reqs b' = gather ?reqs kept"
    and mem: "mem_ok ?c' (nodes_of ?reqs kept)" and len: "length locs = length kept"
    and owned: "owned_slots ?c + private_of ?c ?reqs ?ns gone = owned_slots ?c' + mset locs"
    and read: "\<forall>k<length kept. req_pool_read (cs_pool ?c') (cr_pool_idx (?reqs ! (kept ! k))) (?ns ! (kept ! k) + 1) =
       req_pool_read (cs_pool ?c) (cr_pool_idx (?reqs ! (kept ! k))) (?ns ! (kept ! k)) @ [locs ! k]"
    using out unfolding decode_outcome_def Let_def by simp_all
  have keep: "keeps_held (nodes_of ?reqs kept) (cs_tree ?c) (cs_tree ?c')" and pool: "pool_kept UNIV (cs_pool ?c) (cs_pool ?c')"
    and free: "rp_free_slots (cs_pool ?c') = rp_free_slots (cs_pool ?c) @ map (\<lambda>i. cr_pool_idx (?reqs ! i)) gone"
    using frame unfolding decode_frame_def Let_def by simp_all
  show "ta_not_in_group (cs_alloc ?c')" using mem by (simp add: mem_ok_def)
  have "mset (map owns (entries_at b (kept @ gone))) = image_mset (owns \<circ> (\<lambda>i. (?reqs ! i, ?ns ! i))) (mset kept + mset gone)"
    by (simp add: entries_at_def multiset.map_comp)
  also have "\<dots> = mset (map owns (live_entries ?reqs))"
    unfolding perm by (simp add: live_entries_positions [OF cols] multiset.map_comp)
  finally have heldp: "held_ok W N U ?c (entries_at b (kept @ gone))" using held by (rule held_ok_owns)
  have at: "entry_ok W ?c' (?reqs ! i, seqlen (?reqs ! i))"
    "private_slots ?c' (?reqs ! i) (seqlen (?reqs ! i)) = private_slots ?c (?reqs ! i) (?ns ! i) @ [locs ! k]"
    if k: "k < length kept" and i: "i = kept ! k" for k i
  proof -
    have "i \<in> set kept" using k i by simp
    then have ik: "i \<in> set (default_keep None b)" using arg_cong [OF perm, of set_mset] by auto
    then have "i < length ?reqs" by (simp add: default_keep_def)
    note n = columns_nth [OF cols this]
    have x: "(?reqs ! i, ?ns ! i) \<in> set (entries_at b (kept @ gone))" using \<open>i \<in> set kept\<close> by (auto simp: entries_at_def)
    have ok: "entry_ok W ?c (?reqs ! i, ?ns ! i)" using heldp x unfolding held_ok_def by blast
    have reach: "radix_reach (cs_tree ?c) (entry_nodes (entries_at b (kept @ gone)))" using heldp by (simp add: held_ok_def)
    have w: "seqlen (?reqs ! i) \<le> W" using fits ik by blast
    have "W \<le> length (rp_table (cs_pool ?c) ! cr_pool_idx (?reqs ! i))" by (rule held_rows(6) [OF heldp held_rows(3) [OF heldp x]])
    then have row: "?ns ! i \<le> length (rp_table (cs_pool ?c) ! cr_pool_idx (?reqs ! i))" using n(2) w by linarith
    have node: "cr_last_node (?reqs ! i) \<in># nodes_of ?reqs kept" using \<open>i \<in> set kept\<close> by (simp add: nodes_of_def)
    have read': "req_pool_read (cs_pool ?c') (cr_pool_idx (?reqs ! i)) (?ns ! i + 1) =
       req_pool_read (cs_pool ?c) (cr_pool_idx (?reqs ! i)) (?ns ! i) @ [locs ! k]"
      using read k unfolding i by blast
    note g = entry_grows [OF ok reach row _ read', unfolded n(2)]
    show "entry_ok W ?c' (?reqs ! i, seqlen (?reqs ! i))"
      "private_slots ?c' (?reqs ! i) (seqlen (?reqs ! i)) = private_slots ?c (?reqs ! i) (?ns ! i) @ [locs ! k]"
      using g keep node w by (simp_all add: keeps_held_def)
  qed
  have full: "full_entries (sb_reqs b') = map (\<lambda>i. (?reqs ! i, seqlen (?reqs ! i))) kept"
    by (simp add: reqs full_entries_def gather_def)
  let ?ps = "map (\<lambda>i. private_slots ?c (?reqs ! i) (?ns ! i)) kept"
  have "map (\<lambda>i. private_slots ?c' (?reqs ! i) (seqlen (?reqs ! i))) kept = map2 (\<lambda>p l. p @ [l]) ?ps locs"
    using at(2) len by (intro nth_equalityI) simp_all
  then have slots: "entry_slots ?c' (full_entries (sb_reqs b')) = private_of ?c ?reqs ?ns kept + mset locs"
    using mset_one_more [of locs ?ps] len by (simp add: full entry_slots_def comp_def private_of_def)
  show "held_ok W N U ?c' (full_entries (sb_reqs b'))"
  proof (rule held_okI)
    show "mem_ok ?c' (entry_nodes (full_entries (sb_reqs b')))"
      using mem by (simp add: full entry_nodes_def nodes_of_def comp_def)
    have "owned_slots ?c + (private_of ?c ?reqs ?ns kept + private_of ?c ?reqs ?ns gone) = U"
      using held_owned [OF heldp ready] unfolding entries_at_simps by (simp add: private_of_def)
    then show "owned_slots ?c' + entry_slots ?c' (full_entries (sb_reqs b')) = U"
      unfolding slots using owned by (metis (no_types, lifting) add.assoc add.commute)
    show "mset (rp_free_slots (cs_pool ?c')) + entry_rows (full_entries (sb_reqs b')) = mset [0..<N]"
      using heldp unfolding held_ok_def entries_at_simps free
      by (simp add: full entry_rows_def comp_def ac_simps)
    show "pool_ok W N (cs_pool ?c')" using pool_kept_ok [OF pool] heldp by (simp add: held_ok_def)
    show "\<forall>x\<in>set (full_entries (sb_reqs b')). entry_ok W ?c' x"
      using at(1) unfolding full by (auto simp: in_set_conv_nth simp del: entry_ok.simps)
  qed
qed

section \<open>Nothing runs, and nothing is stuck\<close>

lemma held_nothing:
  assumes "held_ok W N U c []" and "ta_not_in_group (cs_alloc c)"
  shows "int (token_available_size (cs_alloc c)) + evictable_size (cs_tree c) = int (size U)"
    and "length (rp_free_slots (cs_pool c)) = rp_size (cs_pool c)"
proof -
  have reach: "radix_reach (cs_tree c) {#}" and slots: "rx_slots (cs_tree c) + token_slots (cs_alloc c) = U"
    and rows: "mset (rp_free_slots (cs_pool c)) = mset [0..<N]" and p: "pool_ok W N (cs_pool c)"
    using assms by (simp_all add: held_ok_def pending_ready)
  have "protected_size (cs_tree c) = 0" "evictable_size (cs_tree c) + protected_size (cs_tree c) = int (size (rx_slots (cs_tree c)))"
    using sizes_and_locks_spec [OF reach] by auto
  then show "int (token_available_size (cs_alloc c)) + evictable_size (cs_tree c) = int (size U)"
    using slots available_slots [of "cs_alloc c"] by auto
  show "length (rp_free_slots (cs_pool c)) = rp_size (cs_pool c)"
    using arg_cong [OF rows, of size] p by (simp add: pool_ok_def)
qed


text \<open>One request alone never holds all the memory, when the memory is larger than any request.\<close>

lemma held_not_stuck:
  assumes cols: "columns_ok b" and held: "held_ok W N U (sc_cache s) (live_entries (sb_reqs b))"
    and ready: "ta_not_in_group (cs_alloc (sc_cache s))" and room: "W < size U"
  shows "\<not> decode_stuck {#} b s"
proof
  let ?c = "sc_cache s" and ?reqs = "sb_reqs b" and ?ns = "sb_seq_lens b"
  assume "decode_stuck {#} b s"
  then obtain gone i c' where perm: "mset gone + {#i#} = mset (default_keep None b)" and none: "nothing_left c'"
    and mem: "mem_ok c' {#cr_last_node (?reqs ! i)#}"
    and keep: "keeps_held {#cr_last_node (?reqs ! i)#} (cs_tree ?c) (cs_tree c')"
    and owned: "owned_slots c' = owned_slots ?c + private_of ?c ?reqs ?ns gone"
    unfolding decode_stuck_def by auto
  have "mset (map owns (entries_at b (i # gone))) = image_mset (owns \<circ> (\<lambda>i. (?reqs ! i, ?ns ! i))) (mset gone + {#i#})"
    by (simp add: entries_at_def multiset.map_comp)
  also have "\<dots> = mset (map owns (live_entries ?reqs))"
    unfolding perm by (simp add: live_entries_positions [OF cols] multiset.map_comp)
  finally have heldp: "held_ok W N U ?c (entries_at b (i # gone))" using held by (rule held_ok_owns)
  let ?q = "?reqs ! i" and ?n = "?ns ! i"
  have x: "(?q, ?n) \<in> set (entries_at b (i # gone))" by (simp add: entries_at_def)
  then have ok: "entry_ok W ?c (?q, ?n)" using heldp unfolding held_ok_def by blast
  then obtain ks where ks: "at_node (cs_tree ?c) (cr_last_node ?q) ks (cr_prefix_indices ?q)" "prefix ks (take ?n (tokens_of ?q))"
    and n: "?n \<le> seqlen ?q" "?n \<le> W" by auto
  have reach: "radix_reach (cs_tree ?c) (entry_nodes (entries_at b (i # gone)))" using heldp by (simp add: held_ok_def)
  have pre: "length (cr_prefix_indices ?q) \<le> ?n"
    using at_node_cached(2) [OF reach ks(1)] prefix_length_le [OF ks(2)] n by simp
  have reach': "radix_reach (cs_tree c') {#cr_last_node ?q#}" using mem by (simp add: mem_ok_def)
  have "at_node (cs_tree c') (cr_last_node ?q) ks (cr_prefix_indices ?q)" using keep ks(1) by (simp add: keeps_held_def)
  note prot = protected_single [OF reach' this]
  have "int (size (rx_slots (cs_tree c'))) = evictable_size (cs_tree c') + protected_size (cs_tree c')"
    using sizes_and_locks_spec [OF reach'] by auto
  then have "size (rx_slots (cs_tree c')) = length (cr_prefix_indices ?q)" using prot none by (simp add: nothing_left_def)
  moreover have "size (token_slots (cs_alloc c')) = 0" using none available_slots [of "cs_alloc c'"] by (simp add: nothing_left_def)
  ultimately have size: "size (owned_slots c') = length (cr_prefix_indices ?q)" by (simp add: owned_slots_def)
  have "owned_slots ?c + private_of ?c ?reqs ?ns (i # gone) = U"
    using held_owned [OF heldp ready] unfolding entries_at_simps .
  then have "U = owned_slots c' + mset (private_slots ?c ?q ?n)" using owned by (simp add: private_of_def ac_simps)
  then have "size U = length (cr_prefix_indices ?q) + length (private_slots ?c ?q ?n)" using size by simp
  moreover have "length (private_slots ?c ?q ?n) \<le> ?n - length (cr_prefix_indices ?q)"
    by (simp add: private_slots_def req_pool_read_def)
  ultimately show False using pre n(2) room by linarith
qed

end
