(* ===== verification/SchedResult.thy ===== *)
theory SchedResult
  imports SchedInv
begin

text \<open>
  The result of a batch: every request gets its token, a finished one gives its memory back, and an
  unfinished one of a prefill hands its tokens to the cache and goes on.
\<close>

section \<open>What a request needs\<close>

text \<open>The fields that scheduling depends on; latent rows, log-probabilities and text are the others.\<close>

definition core ::
  "latent_req \<Rightarrow> string \<times> cache_req \<times> int option \<times> stop_arg \<times> tokenizer option \<times> finish_reason option \<times> bool \<times> int \<times> bool" where
  "core q = (lq_rid q, cache_req.truncate q, sp_max_new_tokens (lq_params q), sp_stop_strs (lq_params q), lq_tokenizer q,
     lq_finished_reason q, lq_is_retracted q, lq_is_chunked q, lq_return_logprob q)"

text \<open>A request that fits into \<open>W\<close> tokens and whose checks cannot raise.\<close>

definition req_fits :: "nat \<Rightarrow> latent_req \<Rightarrow> bool" where
  "req_fits W q \<longleftrightarrow> (\<exists>m. sp_max_new_tokens (lq_params q) = Some (int m) \<and> length (cr_output_ids q) \<le> m \<and>
       length (cr_origin_input_ids q) + m \<le> W) \<and>
     \<not> lq_return_logprob q \<and> (stop_list (sp_stop_strs (lq_params q)) \<noteq> [] \<longrightarrow> lq_tokenizer q \<noteq> None)"

definition goes_on :: "nat \<Rightarrow> latent_req \<Rightarrow> bool" where
  "goes_on W q \<longleftrightarrow> req_fits W q \<and> sp_max_new_tokens (lq_params q) \<noteq> Some (int (length (cr_output_ids q))) \<and>
     \<not> lq_is_retracted q \<and> lq_is_chunked q = 0"

lemma req_fits_length: "req_fits W q \<Longrightarrow> seqlen q \<le> W"
  by (auto simp: req_fits_def seqlen_def)

lemma core_fields:
  assumes "core q' = core q"
  shows "cr_pool_idx q' = cr_pool_idx q" "cr_origin_input_ids q' = cr_origin_input_ids q" "cr_output_ids q' = cr_output_ids q"
    "cr_fill_ids q' = cr_fill_ids q" "cr_prefix_indices q' = cr_prefix_indices q" "cr_last_node q' = cr_last_node q"
    "sp_max_new_tokens (lq_params q') = sp_max_new_tokens (lq_params q)"
    "sp_stop_strs (lq_params q') = sp_stop_strs (lq_params q)" "lq_tokenizer q' = lq_tokenizer q"
    "lq_finished_reason q' = lq_finished_reason q" "lq_is_retracted q' = lq_is_retracted q"
    "lq_is_chunked q' = lq_is_chunked q" "lq_return_logprob q' = lq_return_logprob q" "lq_rid q' = lq_rid q"
  using assms by (simp_all add: core_def cache_req.defs)

lemma core_same:
  assumes "core q' = core q"
  shows "req_fits W q' = req_fits W q" "goes_on W q' = goes_on W q" "req_finished q' = req_finished q" "seqlen q' = seqlen q"
    "owns (q', n) = owns (q, n)"
  using core_fields [OF assms] by (simp_all add: req_fits_def goes_on_def req_finished_def seqlen_def tokens_of_def)

section \<open>One token\<close>

text \<open>What a request is like after it got a token.\<close>

definition tokened :: "nat \<Rightarrow> latent_req \<Rightarrow> latent_req \<Rightarrow> bool" where
  "tokened W q q' \<longleftrightarrow> lq_rid q' = lq_rid q \<and> cr_pool_idx q' = cr_pool_idx q \<and> cr_origin_input_ids q' = cr_origin_input_ids q \<and>
     (\<exists>tok. cr_output_ids q' = cr_output_ids q @ [tok]) \<and>
     sp_max_new_tokens (lq_params q') = sp_max_new_tokens (lq_params q) \<and> lq_return_logprob q' = lq_return_logprob q \<and>
     (\<not> req_finished q' \<longrightarrow> goes_on W q')"

lemma tokened_seqlen: "tokened W q q' \<Longrightarrow> seqlen q' = seqlen q + 1"
  by (auto simp: tokened_def seqlen_def)

lemma check_finished_ok:
  assumes "req_fits W q" and "\<not> lq_is_retracted q" and "lq_is_chunked q = 0"
  shows "\<exists>r. check_finished (q\<lparr>cr_output_ids := cr_output_ids q @ [tok]\<rparr>) =
      Inr (q\<lparr>cr_output_ids := cr_output_ids q @ [tok], lq_finished_reason := r\<rparr>) \<and>
    tokened W q (q\<lparr>cr_output_ids := cr_output_ids q @ [tok], lq_finished_reason := r\<rparr>)"
proof -
  let ?q = "q\<lparr>cr_output_ids := cr_output_ids q @ [tok]\<rparr>"
  obtain m where m: "sp_max_new_tokens (lq_params q) = Some (int m)" "length (cr_output_ids q) \<le> m"
    "length (cr_origin_input_ids q) + m \<le> W"
    and rl: "\<not> lq_return_logprob q" and stop: "stop_list (sp_stop_strs (lq_params q)) \<noteq> [] \<longrightarrow> lq_tokenizer q \<noteq> None"
    using assms(1) by (auto simp: req_fits_def)
  have "(\<exists>r. check_finished ?q = Inr (?q\<lparr>lq_finished_reason := Some r\<rparr>)) \<or>
     (check_finished ?q = Inr ?q \<and> lq_finished_reason q = None \<and> length (cr_output_ids q) + 1 < m)"
  proof (cases "req_finished q \<or> lq_to_abort q \<or> m \<le> length (cr_output_ids q) + 1")
    case True
    then show ?thesis
    proof (cases "lq_finished_reason q")
      case (Some r)
      then have "?q\<lparr>lq_finished_reason := Some r\<rparr> = ?q" by simp
      then show ?thesis using Some by (intro disjI1 exI [of _ r]) (simp add: check_finished_def req_finished_def Let_def)
    qed (use True m(1) in \<open>auto simp: check_finished_def req_finished_def Let_def\<close>)
  next
    case False
    then show ?thesis
      using m(1) stop by (auto simp: check_finished_def req_finished_def Let_def split: option.splits)
  qed
  then show ?thesis
  proof (elim disjE exE conjE)
    fix r assume "check_finished ?q = Inr (?q\<lparr>lq_finished_reason := Some r\<rparr>)"
    then show ?thesis by (intro exI [of _ "Some r"]) (simp add: tokened_def req_finished_def)
  next
    assume *: "check_finished ?q = Inr ?q" "lq_finished_reason q = None" "length (cr_output_ids q) + 1 < m"
    have same: "?q\<lparr>lq_finished_reason := None\<rparr> = ?q" using *(2) by simp
    show ?thesis
      using * m rl stop assms(2,3)
      by (intro exI [of _ None]) (auto simp: same tokened_def goes_on_def req_fits_def)
  qed
qed

lemma update_latent_ok:
  assumes "cr_output_ids q \<noteq> []"
  shows "\<exists>q'. update_latent_info out i q = Inr q' \<and> core q' = core q"
  using assms by (simp add: update_latent_info_def log_rows_def Let_def core_def cache_req.defs)

text \<open>The rest of the work on a request leaves its core alone.\<close>

lemma finish_row_ok:
  assumes "cr_output_ids q \<noteq> []" and "\<not> lq_return_logprob q"
  shows "\<exists>q'. bind_r (if en then update_latent_info out i q else Inr q) (append_logprobs res i tok) = Inr q' \<and> core q' = core q"
proof -
  obtain q1 where q1: "(if en then update_latent_info out i q else Inr q) = Inr q1" "core q1 = core q"
    using update_latent_ok [OF assms(1), of out i] by (cases en) auto
  then have "append_logprobs res i tok q1 = Inr q1" using assms(2) core_fields(13) [OF q1(2)] by (simp add: append_logprobs_def)
  then show ?thesis using q1 by simp
qed

lemma tokened_core: "tokened W q q1 \<Longrightarrow> core q2 = core q1 \<Longrightarrow> tokened W q q2"
  using core_fields [of q2 q1] core_same [of q2 q1] by (simp add: tokened_def)


section \<open>One request of a batch\<close>

lemma owns_token: "owns (q\<lparr>cr_output_ids := cr_output_ids q @ [tok], lq_finished_reason := r\<rparr>, seqlen q) = owns (q, seqlen q)"
  by (simp add: tokens_of_def seqlen_def)

lemma held_ok_head: "owns (q', n) = owns (q, n) \<Longrightarrow> held_ok W N U c ((q, n) # xs) \<Longrightarrow> held_ok W N U c ((q', n) # xs)"
  by (erule held_ok_owns [rotated]) simp

lemma live_entry:
  assumes "core q' = core q1" and "held_ok W N U c ((q1, n) # xs)" and "\<not> req_finished q1" and "n + 1 = seqlen q1"
  shows "held_ok W N U c (live_entries [q'] @ xs)"
proof -
  have "live_entries [q'] = [(q', n)]" using assms(3,4) core_same [OF assms(1)] by (simp add: live_entries_def flip: assms(4))
  then show ?thesis using held_ok_head [OF core_same(5) [OF assms(1)] assms(2)] by simp
qed

lemma finished_entry:
  assumes "core q' = core q1" and "held_ok W N U c xs" and "req_finished q1"
  shows "held_ok W N U c (live_entries [q'] @ xs)"
  using assms core_same(3) [OF assms(1)] by (simp add: live_entries_def)

text \<open>A request that may get a token: in the batch, and with all its tokens in the cache.\<close>

definition in_batch :: "nat \<Rightarrow> latent_req \<Rightarrow> bool" where
  "in_batch W q \<longleftrightarrow> req_fits W q \<and> \<not> lq_is_retracted q \<and> lq_is_chunked q = 0"

lemma process_decode_req_ok:
  assumes held: "held_ok W N U c ((q, seqlen q) # xs)" and q: "in_batch W q"
  shows "\<exists>q' c'. process_decode_req en res i tok q c = Some (Inr (q', c')) \<and> tokened W q q' \<and>
     held_ok W N U c' (live_entries [q'] @ xs) \<and> ta_not_in_group (cs_alloc c') = ta_not_in_group (cs_alloc c)"
proof -
  have fits: "req_fits W q" "\<not> lq_is_retracted q" "lq_is_chunked q = 0" using q by (simp_all add: in_batch_def)
  obtain r where r: "check_finished (q\<lparr>cr_output_ids := cr_output_ids q @ [tok]\<rparr>) =
      Inr (q\<lparr>cr_output_ids := cr_output_ids q @ [tok], lq_finished_reason := r\<rparr>)"
    "tokened W q (q\<lparr>cr_output_ids := cr_output_ids q @ [tok], lq_finished_reason := r\<rparr>)"
    using check_finished_ok [OF fits] by blast
  let ?q = "q\<lparr>cr_output_ids := cr_output_ids q @ [tok], lq_finished_reason := r\<rparr>"
  have held1: "held_ok W N U c ((?q, seqlen q) # xs)" by (rule held_ok_head [OF owns_token held])
  have len: "seqlen q + 1 = seqlen ?q" using tokened_seqlen [OF r(2)] by simp
  have "cr_output_ids ?q \<noteq> []" "\<not> lq_return_logprob ?q" using fits(1) by (simp_all add: req_fits_def)
  from finish_row_ok [OF this]
  obtain q' where q': "bind_r (if en then update_latent_info (latent_output_of (sd_rows res)) i ?q else Inr ?q) (append_logprobs res i tok) = Inr q'"
    "core q' = core ?q" by blast
  obtain q2 where q2: "(if en then update_latent_info (latent_output_of (sd_rows res)) i ?q else Inr ?q) = Inr q2"
    "append_logprobs res i tok q2 = Inr q'"
    using q'(1) by (auto simp: bind_r_Inr_iff)
  have run: "process_decode_req en res i tok q c = map_option (\<lambda>c1. Inr (q', c1))
     (if req_finished ?q then cache_finished_req token_free (cache_req.truncate ?q) c else Some c)"
    using fits(2) r(1) by (simp add: process_decode_req_def q2 split: option.splits split del: if_split)
  show ?thesis
  proof (cases "req_finished ?q")
    case True
    obtain c' where "cache_finished_req token_free (cache_req.truncate ?q) c = Some c'" "held_ok W N U c' xs"
      "ta_not_in_group (cs_alloc c') = ta_not_in_group (cs_alloc c)"
      using held_finish [OF held1 len] by blast
    then show ?thesis
      using run True tokened_core [OF r(2) q'(2)] finished_entry [OF q'(2) _ True] by simp
  next
    case False
    then show ?thesis
      using run tokened_core [OF r(2) q'(2)] live_entry [OF q'(2) held1 False len] by simp
  qed
qed

lemma process_prefill_req_ok:
  assumes held: "held_ok W N U c ((q, seqlen q) # xs)" and q: "in_batch W q" and whole: "whole q"
  shows "\<exists>q' c'. process_prefill_req en res [] i tok q c = Some (Inr (q', c')) \<and> tokened W q q' \<and>
     held_ok W N U c' (live_entries [q'] @ xs) \<and> ta_not_in_group (cs_alloc c') = ta_not_in_group (cs_alloc c)"
proof -
  have fits: "req_fits W q" "\<not> lq_is_retracted q" "lq_is_chunked q = 0" using q by (simp_all add: in_batch_def)
  obtain r where r: "check_finished (q\<lparr>cr_output_ids := cr_output_ids q @ [tok]\<rparr>) =
      Inr (q\<lparr>cr_output_ids := cr_output_ids q @ [tok], lq_finished_reason := r\<rparr>)"
    "tokened W q (q\<lparr>cr_output_ids := cr_output_ids q @ [tok], lq_finished_reason := r\<rparr>)"
    using check_finished_ok [OF fits] by blast
  let ?q = "q\<lparr>cr_output_ids := cr_output_ids q @ [tok], lq_finished_reason := r\<rparr>"
  have held1: "held_ok W N U c ((?q, seqlen q) # xs)" by (rule held_ok_head [OF owns_token held])
  have len: "seqlen q + 1 = seqlen ?q" using tokened_seqlen [OF r(2)] by simp
  have fill: "cr_fill_ids ?q = take (seqlen q) (tokens_of ?q)"
    using whole by (simp add: whole_def tokens_of_def seqlen_def)
  have "\<exists>q2 c'. cache_after_prefill [] ?q c = Some (Inr (q2, c')) \<and> cr_output_ids q2 \<noteq> [] \<and> \<not> lq_return_logprob q2 \<and>
      tokened W q q2 \<and> (\<forall>q'. core q' = core q2 \<longrightarrow> held_ok W N U c' (live_entries [q'] @ xs)) \<and>
      ta_not_in_group (cs_alloc c') = ta_not_in_group (cs_alloc c)"
  proof (cases "req_finished ?q")
    case True
    obtain c' where "cache_finished_req token_free (cache_req.truncate ?q) c = Some c'" "held_ok W N U c' xs"
      "ta_not_in_group (cs_alloc c') = ta_not_in_group (cs_alloc c)"
      using held_finish [OF held1 len] by blast
    then show ?thesis
      using True r(2) fits(1) finished_entry [OF _ _ True]
      by (intro exI [of _ ?q] exI [of _ c']) (simp add: cache_after_prefill_def req_fits_def)
  next
    case False
    obtain r' c' where u: "cache_unfinished_req token_free (cache_req.truncate ?q) c = Some (Inr (r', c'))"
      "held_ok W N U c' ((?q\<lparr>cr_prefix_indices := cr_prefix_indices r', cr_last_node := cr_last_node r'\<rparr>, seqlen q) # xs)"
      "ta_not_in_group (cs_alloc c') = ta_not_in_group (cs_alloc c)"
      using held_unfinish [OF held1 fill] by blast
    let ?q2 = "?q\<lparr>cr_prefix_indices := cr_prefix_indices r', cr_last_node := cr_last_node r'\<rparr>"
    have f2: "\<not> req_finished ?q2" "seqlen q + 1 = seqlen ?q2" using False len by (simp_all add: req_finished_def seqlen_def)
    have "tokened W q ?q2" using r(2) by (simp add: tokened_def goes_on_def req_fits_def req_finished_def)
    then show ?thesis
      using False u fits(1) live_entry [OF _ u(2) f2]
      by (intro exI [of _ ?q2] exI [of _ c']) (simp add: cache_after_prefill_def req_fits_def)
  qed
  then obtain q2 c' where q2: "cache_after_prefill [] ?q c = Some (Inr (q2, c'))" "cr_output_ids q2 \<noteq> []" "\<not> lq_return_logprob q2"
      "tokened W q q2" "\<forall>q'. core q' = core q2 \<longrightarrow> held_ok W N U c' (live_entries [q'] @ xs)"
      "ta_not_in_group (cs_alloc c') = ta_not_in_group (cs_alloc c)" by (elim exE conjE)
  obtain q' where q': "bind_r (if en then update_latent_info (latent_output_of (sd_rows res)) i q2 else Inr q2) (append_logprobs res i tok) = Inr q'"
    "core q' = core q2" using finish_row_ok [OF q2(2,3)] by blast
  have "process_prefill_req en res [] i tok q c = Some (Inr (q', c'))"
    using fits(2,3) r(1) q2(1) q'(1) by (auto simp: process_prefill_req_def bind_r_Inr_iff)
  then show ?thesis using tokened_core [OF q2(4) q'(2)] q2(5,6) q'(2) by simp
qed


section \<open>The loops\<close>

lemma full_live_step:
  assumes "held_ok W N U c (live_entries [q'] @ full_entries qs @ xs)"
  shows "held_ok W N U c (full_entries qs @ live_entries [q'] @ xs)"
  by (rule held_ok_owns [OF _ assms]) (simp add: ac_simps)

lemma live_merge:
  assumes "held_ok W N U c (live_entries qs @ live_entries [q] @ xs)"
  shows "held_ok W N U c (live_entries (q # qs) @ xs)"
  by (rule held_ok_owns [OF _ assms]) (simp add: live_entries_def ac_simps)

lemma process_decode_loop_ok:
  assumes "held_ok W N U c (full_entries qs @ xs)" and "\<forall>q\<in>set qs. in_batch W q" and "length toks = length qs"
  shows "\<exists>qs' c'. process_decode_loop en res i (zip qs toks) c = Some (Inr (qs', c')) \<and> list_all2 (tokened W) qs qs' \<and>
     held_ok W N U c' (live_entries qs' @ xs) \<and> ta_not_in_group (cs_alloc c') = ta_not_in_group (cs_alloc c)"
  using assms
proof (induction qs arbitrary: toks i c xs)
  case Nil
  then show ?case by (simp add: full_entries_def live_entries_def)
next
  case (Cons q qs)
  obtain tok toks' where toks: "toks = tok # toks'" "length toks' = length qs" using Cons.prems(3) by (cases toks) auto
  have held: "held_ok W N U c ((q, seqlen q) # full_entries qs @ xs)" using Cons.prems(1) by (simp add: full_entries_def)
  have q: "in_batch W q" "\<forall>q\<in>set qs. in_batch W q" using Cons.prems(2) by simp_all
  obtain q' c1 where q': "process_decode_req en res i tok q c = Some (Inr (q', c1))" "tokened W q q'"
    "held_ok W N U c1 (live_entries [q'] @ full_entries qs @ xs)" "ta_not_in_group (cs_alloc c1) = ta_not_in_group (cs_alloc c)"
    using process_decode_req_ok [OF held q(1)] by blast
  obtain qs' c' where qs': "process_decode_loop en res (i + 1) (zip qs toks') c1 = Some (Inr (qs', c'))" "list_all2 (tokened W) qs qs'"
     "held_ok W N U c' (live_entries qs' @ live_entries [q'] @ xs)" "ta_not_in_group (cs_alloc c') = ta_not_in_group (cs_alloc c1)"
    using Cons.IH [OF full_live_step [OF q'(3)] q(2) toks(2)] by blast
  show ?case using q'(1,2,4) qs' live_merge [OF qs'(3)] by (simp add: toks(1))
qed

lemma process_prefill_loop_ok:
  assumes "held_ok W N U c (full_entries qs @ xs)" and "\<forall>q\<in>set qs. in_batch W q \<and> whole q" and "length toks = length qs"
  shows "\<exists>qs' c'. process_prefill_loop en res [] i (zip qs toks) None c = Some (Inr (qs', None, c')) \<and> list_all2 (tokened W) qs qs' \<and>
     held_ok W N U c' (live_entries qs' @ xs) \<and> ta_not_in_group (cs_alloc c') = ta_not_in_group (cs_alloc c)"
  using assms
proof (induction qs arbitrary: toks i c xs)
  case Nil
  then show ?case by (simp add: full_entries_def live_entries_def)
next
  case (Cons q qs)
  obtain tok toks' where toks: "toks = tok # toks'" "length toks' = length qs" using Cons.prems(3) by (cases toks) auto
  have held: "held_ok W N U c ((q, seqlen q) # full_entries qs @ xs)" using Cons.prems(1) by (simp add: full_entries_def)
  have q: "in_batch W q" "whole q" "\<forall>q\<in>set qs. in_batch W q \<and> whole q" using Cons.prems(2) by simp_all
  obtain q' c1 where q': "process_prefill_req en res [] i tok q c = Some (Inr (q', c1))" "tokened W q q'"
    "held_ok W N U c1 (live_entries [q'] @ full_entries qs @ xs)" "ta_not_in_group (cs_alloc c1) = ta_not_in_group (cs_alloc c)"
    using process_prefill_req_ok [OF held q(1,2)] by blast
  obtain qs' c' where qs': "process_prefill_loop en res [] (i + 1) (zip qs toks') None c1 = Some (Inr (qs', None, c'))"
     "list_all2 (tokened W) qs qs'"
     "held_ok W N U c' (live_entries qs' @ live_entries [q'] @ xs)" "ta_not_in_group (cs_alloc c') = ta_not_in_group (cs_alloc c1)"
    using Cons.IH [OF full_live_step [OF q'(3)] q(3) toks(2)] by blast
  show ?case using q'(1,2,4) qs' live_merge [OF qs'(3)] q(1) by (simp add: toks(1) in_batch_def)
qed

section \<open>Streaming\<close>

lemma stream_req_core: "core (snd (stream_req st rl q)) = core q"
  by (simp add: stream_req_def init_incremental_detokenize_def get_output_topk_gumbel_list_def get_output_topk_prob_list_def
    get_output_topk_original_prob_list_def get_output_topk_original_indice_list_def get_output_topk_idx_list_def
    core_def Let_def cache_req.defs)

lemma stream_output_core: "map core (snd (stream_output st rl skip qs)) = map core qs"
proof (induction qs)
  case (Cons q qs)
  then show ?case
    using stream_req_core [of st rl q] by (auto simp: Let_def split: prod.splits)
qed simp

lemma live_entries_core:
  assumes "map core qs' = map core qs"
  shows "map owns (live_entries qs') = map owns (live_entries qs)"
  using assms
proof (induction qs arbitrary: qs')
  case Nil
  then show ?case by (simp add: live_entries_def)
next
  case (Cons q qs)
  then obtain q' rs where qs': "qs' = q' # rs" "core q' = core q" "map core rs = map core qs" by (cases qs') auto
  show ?case using Cons.IH [OF qs'(3)] core_same [OF qs'(2)] by (simp add: qs'(1) live_entries_def del: owns.simps)
qed

lemma tokened_cores:
  assumes "map core qs'' = map core qs'" and "list_all2 (tokened W) qs qs'"
  shows "list_all2 (tokened W) qs qs''"
proof -
  have len: "length qs'' = length qs'" using arg_cong [OF assms(1), of length] by simp
  have "core (qs'' ! i) = core (qs' ! i)" if "i < length qs'" for i
    using arg_cong [OF assms(1), of "\<lambda>xs. xs ! i"] that len by simp
  then show ?thesis using assms(2) len tokened_core by (auto simp: list_all2_conv_all_nth)
qed

section \<open>The result of a batch\<close>

lemma held_ok_alloc:
  assumes "pending_slots a = pending_slots (cs_alloc c)"
  shows "held_ok W N U (c\<lparr>cs_alloc := a\<rparr>) xs \<longleftrightarrow> held_ok W N U c xs"
proof -
  have "entry_ok W (c\<lparr>cs_alloc := a\<rparr>) x = entry_ok W c x" for x by (cases x) simp
  moreover have "entry_slots (c\<lparr>cs_alloc := a\<rparr>) xs = entry_slots c xs" by (rule entry_slots_cong) simp
  ultimately show ?thesis using assms by (simp add: held_ok_def)
qed

definition batch_done :: "nat \<Rightarrow> nat \<Rightarrow> nat multiset \<Rightarrow> sched_batch \<Rightarrow> entry list \<Rightarrow> sched_batch \<Rightarrow> token_alloc cache_state \<Rightarrow> bool" where
  "batch_done W N U b xs b' c' \<longleftrightarrow> (\<exists>qs'. b' = b\<lparr>sb_reqs := qs'\<rparr> \<and> list_all2 (tokened W) (sb_reqs b) qs' \<and>
     held_ok W N U c' (live_entries qs' @ xs) \<and> ta_not_in_group (cs_alloc c'))"

lemma process_batch_result_ok:
  assumes held: "held_ok W N U c (full_entries (sb_reqs b) @ xs)" and ready: "ta_not_in_group (cs_alloc c)"
    and reqs: "\<forall>q\<in>set (sb_reqs b). in_batch W q" and len: "length (sd_tokens res) = length (sb_reqs b)"
    and mode: "sb_forward_mode b = Some DECODE \<or>
      sb_forward_mode b = Some EXTEND \<and> sb_decoding_reqs b = None \<and> (\<forall>q\<in>set (sb_reqs b). whole q)"
  shows "\<exists>rows b' c'. process_batch_result st res b c = Some (Inr (rows, b', c')) \<and> batch_done W N U b xs b' c'"
proof (cases "sb_forward_mode b = Some DECODE")
  case True
  let ?c0 = "c\<lparr>cs_alloc := token_free_group_begin (cs_alloc c)\<rparr>"
  have "held_ok W N U ?c0 (full_entries (sb_reqs b) @ xs)"
    using held held_ok_alloc [OF pending_begin [OF ready]] by blast
  from process_decode_loop_ok [OF this reqs len]
  obtain qs' c1 where *: "process_decode_loop (st_enable_latent st) res 0 (zip (sb_reqs b) (sd_tokens res)) ?c0 = Some (Inr (qs', c1))"
    "list_all2 (tokened W) (sb_reqs b) qs'" "held_ok W N U c1 (live_entries qs' @ xs)"
    "ta_not_in_group (cs_alloc c1) = ta_not_in_group (cs_alloc ?c0)" by blast
  let ?c = "c1\<lparr>cs_alloc := token_free_group_end (cs_alloc c1)\<rparr>"
  have group: "\<not> ta_not_in_group (cs_alloc c1)" using *(4) by (simp add: token_free_group_begin_def)
  have held': "held_ok W N U ?c (live_entries qs' @ xs)"
    using *(3) held_ok_alloc [OF pending_end [OF group]] by blast
  obtain rows qs'' where out: "stream_output st (sb_return_logprob b) None qs' = (rows, qs'')" by fastforce
  then have core: "map core qs'' = map core qs'" using stream_output_core [of st "sb_return_logprob b" None qs'] by simp
  have "held_ok W N U ?c (live_entries qs'' @ xs)"
    by (rule held_ok_owns [OF _ held']) (simp add: live_entries_core [OF core])
  moreover have "ta_not_in_group (cs_alloc ?c)" by (simp add: token_free_group_end_def Let_def token_free_def)
  moreover have "process_batch_result st res b c = Some (Inr (rows, b\<lparr>sb_reqs := qs''\<rparr>, ?c))"
    using True *(1) out by (simp add: process_batch_result_def process_batch_result_decode_def)
  ultimately show ?thesis using tokened_cores [OF core *(2)] unfolding batch_done_def by blast
next
  case False
  then have mode': "sb_forward_mode b = Some EXTEND" "sb_decoding_reqs b = None" "\<forall>q\<in>set (sb_reqs b). in_batch W q \<and> whole q"
    using mode reqs by auto
  from process_prefill_loop_ok [OF held mode'(3) len]
  obtain qs' c' where *: "process_prefill_loop (st_enable_latent st) res [] 0 (zip (sb_reqs b) (sd_tokens res)) None c = Some (Inr (qs', None, c'))"
    "list_all2 (tokened W) (sb_reqs b) qs'" "held_ok W N U c' (live_entries qs' @ xs)"
    "ta_not_in_group (cs_alloc c') = ta_not_in_group (cs_alloc c)" by blast
  obtain rows qs'' where out: "stream_output st (sb_return_logprob b) None qs' = (rows, qs'')" by fastforce
  then have core: "map core qs'' = map core qs'" using stream_output_core [of st "sb_return_logprob b" None qs'] by simp
  have "held_ok W N U c' (live_entries qs'' @ xs)"
    by (rule held_ok_owns [OF _ *(3)]) (simp add: live_entries_core [OF core])
  moreover have "process_batch_result st res b c = Some (Inr (rows, b\<lparr>sb_reqs := qs''\<rparr>, c'))"
    using mode'(1,2) *(1) out by (simp add: process_batch_result_def process_batch_result_prefill_def)
  ultimately show ?thesis using tokened_cores [OF core *(2)] *(4) ready unfolding batch_done_def by blast
qed


section \<open>Which token\<close>

text \<open>A request in a batch gets exactly the token that the worker sampled for its position.\<close>

definition grown :: "latent_req list \<Rightarrow> nat list \<Rightarrow> latent_req list \<Rightarrow> bool" where
  "grown qs toks qs' \<longleftrightarrow> map cr_output_ids qs' = map2 (\<lambda>q tok. cr_output_ids q @ [tok]) qs toks"

lemma check_finished_outputs: "check_finished q = Inr q' \<Longrightarrow> cr_output_ids q' = cr_output_ids q"
  by (auto simp: check_finished_def Let_def split: if_splits option.splits)

lemma update_latent_info_outputs: "update_latent_info out i q = Inr q' \<Longrightarrow> cr_output_ids q' = cr_output_ids q"
  by (auto simp: update_latent_info_def log_rows_def Let_def split: if_splits)

lemma append_logprobs_outputs:
  assumes "append_logprobs res i tok q = Inr q'"
  shows "cr_output_ids q' = cr_output_ids q"
proof (cases "lq_return_logprob q")
  case True
  let ?q = "q\<lparr>lq_output_token_logprobs_val := lq_output_token_logprobs_val q @
      [Fin ((if latent_on (lq_params q) then sd_gumbel_logprobs res else sd_logprobs res) ! i)],
    lq_output_token_logprobs_idx := lq_output_token_logprobs_idx q @ [tok]\<rparr>"
  obtain q2 where "(if 0 < lq_top_logprobs_num ?q
      then bind_r (append_row (sd_top_logprobs res) i (lq_output_top_logprobs ?q)) (\<lambda>r. Inr (?q\<lparr>lq_output_top_logprobs := r\<rparr>))
      else Inr ?q) = Inr q2"
    "(if lq_token_ids_logprob q2 \<noteq> None
      then bind_r (append_row (sd_token_ids_logprobs res) i (lq_output_token_ids_logprobs q2))
        (\<lambda>r. Inr (q2\<lparr>lq_output_token_ids_logprobs := r\<rparr>))
      else Inr q2) = Inr q'"
    using assms True unfolding append_logprobs_def Let_def by (simp only: bind_r_Inr_iff simp_thms if_False) blast
  moreover from this(1) have "cr_output_ids q2 = cr_output_ids q"
    by (cases "0 < lq_top_logprobs_num ?q") (auto simp: bind_r_Inr_iff)
  ultimately show ?thesis
    by (cases "lq_token_ids_logprob q2 = None") (auto simp: bind_r_Inr_iff)
qed (use assms in \<open>simp add: append_logprobs_def\<close>)

lemma finish_row_outputs:
  assumes "bind_r (if en then update_latent_info out i q else Inr q) (\<lambda>q2. bind_r (append_logprobs res i tok q2) (\<lambda>q3. Inr (q3, c1))) = Inr (q', c')"
  shows "cr_output_ids q' = cr_output_ids q"
proof -
  obtain q2 where q2: "(if en then update_latent_info out i q else Inr q) = Inr q2" "append_logprobs res i tok q2 = Inr q'"
    using assms by (auto simp only: bind_r_Inr_iff prod.inject sum.inject)
  have "cr_output_ids q2 = cr_output_ids q"
    using q2(1) update_latent_info_outputs by (cases en) auto
  then show ?thesis using append_logprobs_outputs [OF q2(2)] by simp
qed

lemma cache_after_prefill_outputs: "cache_after_prefill ds q c = Some (Inr (q', c')) \<Longrightarrow> cr_output_ids q' = cr_output_ids q"
  by (auto simp: cache_after_prefill_def bind_r_Inr_iff split: if_splits)

lemma process_decode_req_outputs:
  assumes "process_decode_req en res i tok q c = Some (Inr (q', c'))" and "\<not> lq_is_retracted q"
  shows "cr_output_ids q' = cr_output_ids q @ [tok]"
proof -
  obtain q1 c1 where q1: "check_finished (q\<lparr>cr_output_ids := cr_output_ids q @ [tok]\<rparr>) = Inr q1"
    "bind_r (if en then update_latent_info (latent_output_of (sd_rows res)) i q1 else Inr q1)
       (\<lambda>q2. bind_r (append_logprobs res i tok q2) (\<lambda>q3. Inr (q3, c1))) = Inr (q', c')"
    using assms by (auto simp: process_decode_req_def split: sum.splits option.splits)
  show ?thesis using finish_row_outputs [OF q1(2)] check_finished_outputs [OF q1(1)] by simp
qed

lemma process_prefill_req_outputs:
  assumes "process_prefill_req en res ds i tok q c = Some (Inr (q', c'))" and "\<not> lq_is_retracted q" and "lq_is_chunked q = 0"
  shows "cr_output_ids q' = cr_output_ids q @ [tok]"
proof -
  obtain q1 q2 c1 where q1: "check_finished (q\<lparr>cr_output_ids := cr_output_ids q @ [tok]\<rparr>) = Inr q1"
    "cache_after_prefill ds q1 c = Some (Inr (q2, c1))"
    "bind_r (if en then update_latent_info (latent_output_of (sd_rows res)) i q2 else Inr q2)
       (\<lambda>q3. bind_r (append_logprobs res i tok q3) (\<lambda>q4. Inr (q4, c1))) = Inr (q', c')"
    using assms by (auto simp: process_prefill_req_def bind_r_Inr_iff split: sum.splits)
  show ?thesis
    using finish_row_outputs [OF q1(3)] cache_after_prefill_outputs [OF q1(2)] check_finished_outputs [OF q1(1)] by simp
qed

lemma process_decode_loop_grown:
  assumes "process_decode_loop en res i (zip qs toks) c = Some (Inr (qs', c'))" and "\<forall>q\<in>set qs. in_batch W q"
    and "length toks = length qs"
  shows "grown qs toks qs'"
  using assms
proof (induction qs arbitrary: toks i c qs')
  case Nil
  then show ?case by (simp add: grown_def)
next
  case (Cons q qs)
  obtain tok toks' where toks: "toks = tok # toks'" "length toks' = length qs" using Cons.prems(3) by (cases toks) auto
  obtain q' c1 rest where r: "process_decode_req en res i tok q c = Some (Inr (q', c1))"
    "process_decode_loop en res (i + 1) (zip qs toks') c1 = Some (Inr (rest, c'))" "qs' = q' # rest"
    using Cons.prems(1) by (auto simp: toks(1) split: option.splits sum.splits)
  have "cr_output_ids q' = cr_output_ids q @ [tok]"
    using process_decode_req_outputs [OF r(1)] Cons.prems(2) by (simp add: in_batch_def)
  then show ?case using Cons.IH [OF r(2) _ toks(2)] Cons.prems(2) by (simp add: grown_def toks(1) r(3))
qed

lemma process_prefill_loop_grown:
  assumes "process_prefill_loop en res ds i (zip qs toks) skip c = Some (Inr (qs', skip', c'))" and "\<forall>q\<in>set qs. in_batch W q"
    and "length toks = length qs"
  shows "grown qs toks qs'"
  using assms
proof (induction qs arbitrary: toks i c qs' skip)
  case Nil
  then show ?case by (simp add: grown_def)
next
  case (Cons q qs)
  obtain tok toks' where toks: "toks = tok # toks'" "length toks' = length qs" using Cons.prems(3) by (cases toks) auto
  obtain q' c1 rest where r: "process_prefill_req en res ds i tok q c = Some (Inr (q', c1))"
    "process_prefill_loop en res ds (i + 1) (zip qs toks') (if \<not> lq_is_retracted q \<and> 0 < lq_is_chunked q then Some (lq_rid q) else skip) c1
       = Some (Inr (rest, skip', c'))" "qs' = q' # rest"
    using Cons.prems(1) by (auto simp: toks(1) bind_r_Inr_iff simp del: split_paired_Ex split: option.splits sum.splits)
  have "cr_output_ids q' = cr_output_ids q @ [tok]"
    using process_prefill_req_outputs [OF r(1)] Cons.prems(2) by (simp add: in_batch_def)
  then show ?case using Cons.IH [OF r(2) _ toks(2)] Cons.prems(2) by (simp add: grown_def toks(1) r(3))
qed

lemma grown_stream:
  assumes "grown qs toks qs'" and "stream_output st rl skip qs' = (rows, qs'')"
  shows "grown qs toks qs''"
proof -
  have core: "map core qs'' = map core qs'" using stream_output_core [of st rl skip qs'] assms(2) by simp
  have len: "length qs'' = length qs'" using arg_cong [OF core, of length] by simp
  have "core (qs'' ! i) = core (qs' ! i)" if "i < length qs'" for i
    using arg_cong [OF core, of "\<lambda>xs. xs ! i"] that len by simp
  then have "cr_output_ids (qs'' ! i) = cr_output_ids (qs' ! i)" if "i < length qs'" for i
    using core_fields(3) that by blast
  then have "map cr_output_ids qs'' = map cr_output_ids qs'" using len by (intro nth_equalityI) simp_all
  then show ?thesis using assms(1) by (simp add: grown_def)
qed

lemma process_batch_result_grown:
  assumes "process_batch_result st res b c = Some (Inr (rows, b', c'))" and reqs: "\<forall>q\<in>set (sb_reqs b). in_batch W q"
    and len: "length (sd_tokens res) = length (sb_reqs b)" and mode: "sb_forward_mode b = Some DECODE \<or> sb_forward_mode b = Some EXTEND"
  shows "grown (sb_reqs b) (sd_tokens res) (sb_reqs b') \<and> sb_forward_mode b' = sb_forward_mode b"
  using mode
proof
  assume mode: "sb_forward_mode b = Some DECODE"
  then have "map_option (\<lambda>r. bind_r r (\<lambda>(reqs, c').
      let (rows, reqs') = stream_output st (sb_return_logprob b) None reqs in Inr (rows, b\<lparr>sb_reqs := reqs'\<rparr>, c')))
      (process_batch_result_decode (st_enable_latent st) res (sb_reqs b) c) = Some (Inr (rows, b', c'))"
    using assms(1) by (simp add: process_batch_result_def)
  then obtain r0 where r0: "process_batch_result_decode (st_enable_latent st) res (sb_reqs b) c = Some r0"
    "bind_r r0 (\<lambda>(reqs, c'). let (rows, reqs') = stream_output st (sb_return_logprob b) None reqs
       in Inr (rows, b\<lparr>sb_reqs := reqs'\<rparr>, c')) = Inr (rows, b', c')" by auto
  then obtain qs' c1 where r: "process_batch_result_decode (st_enable_latent st) res (sb_reqs b) c = Some (Inr (qs', c1))"
    "b' = b\<lparr>sb_reqs := snd (stream_output st (sb_return_logprob b) None qs')\<rparr>"
    by (cases r0) (auto simp: Let_def split_beta)
  obtain c2 where "process_decode_loop (st_enable_latent st) res 0 (zip (sb_reqs b) (sd_tokens res))
      (c\<lparr>cs_alloc := token_free_group_begin (cs_alloc c)\<rparr>) = Some (Inr (qs', c2))"
    using r(1) by (auto simp: process_batch_result_decode_def split: option.splits sum.splits)
  from process_decode_loop_grown [OF this reqs len] have "grown (sb_reqs b) (sd_tokens res) qs'" .
  then show ?thesis using grown_stream r(2) by (simp add: prod_eq_iff)
next
  assume mode: "sb_forward_mode b = Some EXTEND"
  then have "process_batch_result_prefill st res b c = Some (Inr (rows, b', c'))"
    using assms(1) by (simp add: process_batch_result_def)
  then obtain qs' ds skip where r: "process_prefill_loop (st_enable_latent st) res ds 0 (zip (sb_reqs b) (sd_tokens res)) None c =
      Some (Inr (qs', skip, c'))" "b' = b\<lparr>sb_reqs := snd (stream_output st (sb_return_logprob b) skip qs')\<rparr>"
    by (auto simp: process_batch_result_prefill_def bind_r_Inr_iff Let_def split_beta)
  from process_prefill_loop_grown [OF r(1) reqs len] have "grown (sb_reqs b) (sd_tokens res) qs'" .
  then show ?thesis using grown_stream r(2) by (simp add: prod_eq_iff)
qed

lemma run_and_process_grown:
  assumes run: "run_and_process lc b s = Some (Inr (rows, s'))" and reqs: "\<forall>q\<in>set (sb_reqs b). in_batch W q"
    and mode: "sb_forward_mode b = Some DECODE \<or> sb_forward_mode b = Some EXTEND"
    and worker: "lc_worker lc b = Inr res" "length (sd_tokens res) = length (sb_reqs b)"
  shows "\<exists>b'. sc_last_batch s' = Some b' \<and> grown (sb_reqs b) (sd_tokens res) (sb_reqs b') \<and> sb_forward_mode b' = sb_forward_mode b \<and>
     (sb_forward_mode b = Some DECODE \<longrightarrow> sc_running_batch s' = b')"
proof -
  let ?b = "b\<lparr>sb_output_ids := Some (sd_tokens res)\<rparr>"
  obtain b' c' where r: "process_batch_result (lc_stream lc) res ?b (sc_cache s) = Some (Inr (rows, b', c'))"
    "s' = s\<lparr>sc_cache := c', sc_last_batch := Some b',
       sc_running_batch := (if sb_forward_mode b' = Some DECODE then b' else sc_running_batch s)\<rparr>"
    using run worker(1) by (auto simp: run_and_process_def run_batch_def bind_r_Inr_iff)
  have "grown (sb_reqs ?b) (sd_tokens res) (sb_reqs b') \<and> sb_forward_mode b' = sb_forward_mode ?b"
    by (rule process_batch_result_grown [OF r(1)]) (use reqs worker(2) mode in simp_all)
  then show ?thesis using r(2) by simp
qed

end
