(* ===== verification/SchedLoopOk.thy ===== *)
theory SchedLoopOk
  imports SchedResult
begin

text \<open>
  The event loop: an invariant of the scheduler that every iteration keeps.  It says who owns which
  memory between iterations, and it is enough for every iteration to end without an error.
\<close>

section \<open>The invariant\<close>

definition waits :: "nat \<Rightarrow> latent_req \<Rightarrow> bool" where
  "waits W q \<longleftrightarrow> req_fits W q \<and> lq_is_chunked q = 0"

definition queue_ok :: "nat \<Rightarrow> scheduler \<Rightarrow> bool" where
  "queue_ok W s \<longleftrightarrow> sc_chunked_req s = None \<and> 0 \<le> sc_new_token_ratio s \<and>
     (\<exists>R. radix_reach (sc_waiting_queue_tree s) R) \<and> rx_page_size (sc_waiting_queue_tree s) = 1 \<and>
     (\<forall>q\<in>set (sc_waiting_queue s). waits W q)"

text \<open>A batch between two iterations: empty, or with columns in order and requests that may go on.\<close>

definition batch_ok :: "nat \<Rightarrow> sched_batch \<Rightarrow> bool" where
  "batch_ok W b \<longleftrightarrow> sb_reqs b = [] \<or>
     aligned b \<and> columns_ok b \<and> (\<forall>q\<in>set (sb_reqs b). \<not> req_finished q \<longrightarrow> goes_on W q)"

definition runs_ok :: "nat \<Rightarrow> sched_batch \<Rightarrow> bool" where
  "runs_ok W b \<longleftrightarrow> batch_ok W b \<and> (\<forall>q\<in>set (sb_reqs b). running_ok q)"

text \<open>The prefill batch that ran last and has not yet joined the running batch.\<close>

definition last_prefill :: "scheduler \<Rightarrow> sched_batch option" where
  "last_prefill s = (case sc_last_batch s of None \<Rightarrow> None | Some b \<Rightarrow> if is_extend (sb_forward_mode b) then Some b else None)"

definition last_reqs :: "scheduler \<Rightarrow> latent_req list" where
  "last_reqs s = (case last_prefill s of None \<Rightarrow> [] | Some b \<Rightarrow> sb_reqs b)"

definition loop_ok :: "nat \<Rightarrow> nat \<Rightarrow> nat multiset \<Rightarrow> scheduler \<Rightarrow> bool" where
  "loop_ok W N U s \<longleftrightarrow> queue_ok W s \<and> runs_ok W (sc_running_batch s) \<and> (\<forall>b. last_prefill s = Some b \<longrightarrow> batch_ok W b) \<and>
     held_ok W N U (sc_cache s) (live_entries (sb_reqs (sc_running_batch s)) @ live_entries (last_reqs s)) \<and>
     ta_not_in_group (cs_alloc (sc_cache s))"

text \<open>After the last batch has joined the running batch.\<close>

definition merged_ok :: "nat \<Rightarrow> nat \<Rightarrow> nat multiset \<Rightarrow> scheduler \<Rightarrow> bool" where
  "merged_ok W N U s \<longleftrightarrow> queue_ok W s \<and> runs_ok W (sc_running_batch s) \<and>
     held_ok W N U (sc_cache s) (live_entries (sb_reqs (sc_running_batch s))) \<and> ta_not_in_group (cs_alloc (sc_cache s))"

text \<open>The requests that are not finished.\<close>

abbreviation live :: "latent_req list \<Rightarrow> latent_req list" where
  "live qs \<equiv> filter (\<lambda>q. \<not> req_finished q) qs"

definition pending :: "scheduler \<Rightarrow> latent_req list" where
  "pending s = sc_waiting_queue s @ live (sb_reqs (sc_running_batch s)) @ live (last_reqs s)"

abbreviation keys_of :: "latent_req list \<Rightarrow> _ multiset" where
  "keys_of qs \<equiv> image_mset request_key (mset qs)"

section \<open>Requests that change outside their core\<close>

lemma cores_all:
  assumes "map core qs' = map core qs" and "\<And>q q'. core q' = core q \<Longrightarrow> P q' = P q"
  shows "(\<forall>q\<in>set qs'. P q) \<longleftrightarrow> (\<forall>q\<in>set qs. P q)"
  using assms(1)
proof (induction qs arbitrary: qs')
  case (Cons q qs)
  then obtain q' rs where qs': "qs' = q' # rs" "core q' = core q" "map core rs = map core qs" by (cases qs') auto
  show ?case using Cons.IH [OF qs'(3)] assms(2) [OF qs'(2)] by (simp add: qs'(1))
qed simp

lemma cores_map:
  assumes "map core qs' = map core qs" and "\<And>q q'. core q' = core q \<Longrightarrow> f q' = f q"
  shows "map f qs' = map f qs"
  using assms(1)
proof (induction qs arbitrary: qs')
  case (Cons q qs)
  then obtain q' rs where qs': "qs' = q' # rs" "core q' = core q" "map core rs = map core qs" by (cases qs') auto
  show ?case using Cons.IH [OF qs'(3)] assms(2) [OF qs'(2)] by (simp add: qs'(1))
qed simp

lemma batch_ok_core:
  assumes "map core qs = map core (sb_reqs b)" and "batch_ok W b"
  shows "batch_ok W (b\<lparr>sb_reqs := qs\<rparr>)"
proof (cases "sb_reqs b = []")
  case True
  then show ?thesis using assms by (simp add: batch_ok_def)
next
  case False
  have len: "length qs = length (sb_reqs b)" using arg_cong [OF assms(1), of length] by simp
  have maps: "map cr_pool_idx qs = map cr_pool_idx (sb_reqs b)" "map (\<lambda>q. seqlen q - 1) qs = map (\<lambda>q. seqlen q - 1) (sb_reqs b)"
    by (rule cores_map [OF assms(1)]; frule core_fields(1); drule core_same(4); simp)+
  have alls: "(\<forall>q\<in>set qs. cr_output_ids q \<noteq> [] \<and> \<not> lq_return_logprob q) =
      (\<forall>q\<in>set (sb_reqs b). cr_output_ids q \<noteq> [] \<and> \<not> lq_return_logprob q)"
    "(\<forall>q\<in>set qs. \<not> req_finished q \<longrightarrow> goes_on W q) = (\<forall>q\<in>set (sb_reqs b). \<not> req_finished q \<longrightarrow> goes_on W q)"
    "(\<forall>q\<in>set qs. \<not> lq_return_logprob q) = (\<forall>q\<in>set (sb_reqs b). \<not> lq_return_logprob q)"
    by (rule cores_all [OF assms(1)]; frule core_fields(3); frule core_fields(13); frule core_same(2) [where W = W]; drule core_same(3); simp)+
  have rl: "list_ex lq_return_logprob qs = list_ex lq_return_logprob (sb_reqs b)" using alls(3) by (auto simp: list_ex_iff)
  show ?thesis using assms(2) False len maps alls(1,2) rl by (simp add: batch_ok_def aligned_defs columns_ok_def)
qed

lemma runs_ok_core:
  assumes "map core qs = map core (sb_reqs b)" and "runs_ok W b"
  shows "runs_ok W (b\<lparr>sb_reqs := qs\<rparr>)"
proof -
  have "(\<forall>q\<in>set qs. running_ok q) = (\<forall>q\<in>set (sb_reqs b). running_ok q)"
    by (rule cores_all [OF assms(1)]; frule core_fields(3); drule core_fields(7); simp add: running_ok_def)
  then show ?thesis using assms batch_ok_core by (simp add: runs_ok_def)
qed

lemma batch_ok_full [simp]: "batch_ok W (b\<lparr>sb_batch_is_full := f\<rparr>) = batch_ok W b" "runs_ok W (b\<lparr>sb_batch_is_full := f\<rparr>) = runs_ok W b"
  by (simp_all add: batch_ok_def runs_ok_def aligned_defs columns_ok_def)

section \<open>Messages\<close>

text \<open>What the configuration must satisfy.\<close>

definition intake_ok :: "nat \<Rightarrow> intake_config \<Rightarrow> bool" where
  "intake_ok W icfg \<longleftrightarrow> 0 < W \<and> ic_max_req_input_len icfg < ic_max_req_len icfg \<and> ic_max_req_len icfg \<le> W + 1"

fun msg_ok :: "intake_config \<Rightarrow> input_msg \<Rightarrow> bool" where
  "msg_ok icfg (Generate g) \<longleftrightarrow> gi_session_id g = None \<and> \<not> gi_return_logprob g \<and>
     (let p = gi_sampling_params g
      in (\<forall>m. sp_max_new_tokens p = Some m \<longrightarrow> 0 \<le> m) \<and> sp_json_schema p = None \<and> sp_regex p = None \<and> sp_ebnf p = None \<and>
         (stop_list (sp_stop_strs p) \<noteq> [] \<longrightarrow> ic_tokenizer icfg \<noteq> None))"
| "msg_ok icfg (Abort rid) \<longleftrightarrow> True"
| "msg_ok icfg FlushCache \<longleftrightarrow> False"

lemma new_generate_fields:
  "cr_origin_input_ids (new_generate_req icfg g) = gi_input_ids g" "cr_output_ids (new_generate_req icfg g) = []"
  "lq_is_chunked (new_generate_req icfg g) = 0" "lq_return_logprob (new_generate_req icfg g) = gi_return_logprob g"
  "lq_tokenizer (new_generate_req icfg g) = ic_tokenizer icfg"
  "sp_max_new_tokens (lq_params (new_generate_req icfg g)) = sp_max_new_tokens (gi_sampling_params g)"
  "sp_stop_strs (lq_params (new_generate_req icfg g)) = sp_stop_strs (gi_sampling_params g)"
  "sp_json_schema (lq_params (new_generate_req icfg g)) = sp_json_schema (gi_sampling_params g)"
  "sp_regex (lq_params (new_generate_req icfg g)) = sp_regex (gi_sampling_params g)"
  "sp_ebnf (lq_params (new_generate_req icfg g)) = sp_ebnf (gi_sampling_params g)"
  by (simp_all add: new_generate_req_def new_req_def post_init_latent_mode_def Let_def)

lemma waitsI:
  assumes "sp_max_new_tokens (lq_params q) = Some m" and "cr_output_ids q = []" and "0 \<le> m"
    and "int (length (cr_origin_input_ids q)) + m \<le> int W" and "\<not> lq_return_logprob q" and "lq_is_chunked q = 0"
    and "stop_list (sp_stop_strs (lq_params q)) \<noteq> [] \<longrightarrow> lq_tokenizer q \<noteq> None"
  shows "waits W q"
proof -
  obtain k where "m = int k" using assms(3) nonneg_int_cases by blast
  then show ?thesis using assms by (auto simp: waits_def req_fits_def)
qed

lemma generate_req_ok:
  assumes cfg: "intake_ok W icfg" and msg: "msg_ok icfg (Generate g)"
  shows "\<exists>q. generate_req icfg g = Inr q \<and> waits W q"
proof -
  let ?q0 = "new_generate_req icfg g"
  have g: "gi_session_id g = None" "\<not> gi_return_logprob g" "\<forall>m. sp_max_new_tokens (gi_sampling_params g) = Some m \<longrightarrow> 0 \<le> m"
    "sp_json_schema (gi_sampling_params g) = None" "sp_regex (gi_sampling_params g) = None" "sp_ebnf (gi_sampling_params g) = None"
    "stop_list (sp_stop_strs (gi_sampling_params g)) \<noteq> [] \<longrightarrow> ic_tokenizer icfg \<noteq> None"
    using msg by (simp_all add: Let_def)
  note fields = new_generate_fields [of icfg g] g
  obtain err q1 where v: "validate_input_length ?q0 (ic_max_req_input_len icfg) (ic_allow_auto_truncate icfg) = (err, q1)" by fastforce
  have q1: "\<exists>r ids. q1 = ?q0\<lparr>cr_origin_input_ids := ids, lq_finished_reason := r\<rparr> \<and>
      (err = None \<longrightarrow> length ids \<le> ic_max_req_input_len icfg)"
  proof (cases "ic_max_req_input_len icfg \<le> length (cr_origin_input_ids ?q0)")
    case True
    show ?thesis
    proof (cases "ic_allow_auto_truncate icfg")
      case True
      with \<open>ic_max_req_input_len icfg \<le> _\<close> v show ?thesis
        by (intro exI [of _ "lq_finished_reason ?q0"] exI [of _ "take (ic_max_req_input_len icfg) (cr_origin_input_ids ?q0)"])
          (auto simp: validate_input_length_def)
    next
      case False
      with \<open>ic_max_req_input_len icfg \<le> _\<close> v show ?thesis
        by (intro exI [of _ "lq_finished_reason q1"] exI [of _ "cr_origin_input_ids ?q0"]) (auto simp: validate_input_length_def Let_def)
    qed
  next
    case False
    with v show ?thesis
      by (intro exI [of _ "lq_finished_reason ?q0"] exI [of _ "cr_origin_input_ids ?q0"]) (auto simp: validate_input_length_def)
  qed
  then obtain r ids where ids: "q1 = ?q0\<lparr>cr_origin_input_ids := ids, lq_finished_reason := r\<rparr>"
    "err = None \<longrightarrow> length ids \<le> ic_max_req_input_len icfg" by blast
  show ?thesis
  proof (cases err)
    case (Some msg)
    then have "generate_req icfg g = Inr (set_max_new_tokens 0 (q1\<lparr>cr_origin_input_ids := [0]\<rparr>))"
      using g(1) v by (simp add: generate_req_def Let_def)
    moreover have "waits W (set_max_new_tokens 0 (q1\<lparr>cr_origin_input_ids := [0]\<rparr>))"
      by (rule waitsI [of _ 0]) (use cfg fields ids(1) in \<open>simp_all add: set_max_new_tokens_def intake_ok_def\<close>)
    ultimately show ?thesis by blast
  next
    case None
    let ?n = "int (length ids)"
    let ?m = "min (case sp_max_new_tokens (gi_sampling_params g) of Some m \<Rightarrow> m | None \<Rightarrow> 2 ^ 30) (int (ic_max_req_len icfg) - ?n - 1)"
    let ?q = "set_max_new_tokens ?m (q1\<lparr>lq_logprob_start_len := ?n - 1\<rparr>)"
    have "generate_req icfg g = Inr ?q"
      using fields v None ids(1) by (simp add: generate_req_def Let_def)
    moreover have "waits W ?q"
      by (rule waitsI [of _ ?m]) (use cfg fields ids None in \<open>auto simp: set_max_new_tokens_def intake_ok_def split: option.splits\<close>)
    ultimately show ?thesis by blast
  qed
qed


lemma live_entries_abort:
  assumes "map core qs' = map core qs" and "held_ok W N U c (live_entries qs @ xs)"
  shows "held_ok W N U c (live_entries qs' @ xs)"
  by (rule held_ok_owns [OF _ assms(2)]) (simp add: live_entries_core [OF assms(1)])

lemma update_first_core: "(\<And>q. core (g q) = core q) \<Longrightarrow> map core (update_first f g qs) = map core qs"
  by (induction qs) auto

lemma delete_first_subset: "set (delete_first f qs) \<subseteq> set qs"
  by (induction qs) auto

lemma dispatch_ok:
  assumes cfg: "intake_ok W icfg" and s: "loop_ok W N U s" and msg: "msg_ok icfg m"
  shows "\<exists>s'. dispatch_request icfg m s = Inr s' \<and> loop_ok W N U s'"
proof (cases m)
  case (Generate g)
  obtain q where q: "generate_req icfg g = Inr q" "waits W q" using generate_req_ok [OF cfg] msg unfolding Generate by blast
  then have "loop_ok W N U (add_request_to_queue q s)"
    using s by (simp add: loop_ok_def queue_ok_def last_prefill_def last_reqs_def add_request_to_queue_def)
  then show ?thesis using q(1) by (simp add: Generate handle_generate_request_def)
next
  case (Abort rid)
  have "loop_ok W N U (abort_request rid s)"
  proof (cases "list_ex (\<lambda>q. starts_with rid (lq_rid q)) (sc_waiting_queue s)")
    case True
    then show ?thesis
      using s delete_first_subset [of "\<lambda>q. starts_with rid (lq_rid q)" "sc_waiting_queue s"]
      by (auto simp: abort_request_def loop_ok_def queue_ok_def last_prefill_def last_reqs_def subset_iff)
  next
    case False
    let ?b = "sc_running_batch s"
    let ?qs = "update_first (\<lambda>q. starts_with rid (lq_rid q) \<and> \<not> req_finished q) (\<lambda>q. q\<lparr>lq_to_abort := True\<rparr>) (sb_reqs ?b)"
    have core: "map core ?qs = map core (sb_reqs ?b)" by (rule update_first_core) (simp add: core_def cache_req.defs)
    have run: "abort_request rid s = s\<lparr>sc_running_batch := ?b\<lparr>sb_reqs := ?qs\<rparr>\<rparr>" using False by (simp add: abort_request_def)
    show ?thesis
      using s runs_ok_core [OF core] live_entries_abort [OF core]
      by (simp add: run loop_ok_def queue_ok_def last_prefill_def last_reqs_def)
  qed
  then show ?thesis by (simp add: Abort)
next
  case FlushCache
  then show ?thesis using msg by simp
qed

lemma process_input_requests_ok:
  assumes cfg: "intake_ok W icfg" and s: "loop_ok W N U s" and msgs: "\<forall>m\<in>set msgs. msg_ok icfg m"
  shows "\<exists>s'. process_input_requests icfg msgs s = Inr s' \<and> loop_ok W N U s'"
  using s msgs
proof (induction msgs arbitrary: s)
  case (Cons m ms)
  show ?case
  proof (cases "is_health_check_generate_req m \<and> (sc_chunked_req s \<noteq> None \<or> \<not> is_empty_batch (sc_running_batch s))")
    case True
    then show ?thesis using Cons.IH [OF Cons.prems(1)] Cons.prems(2) by simp
  next
    case False
    obtain s' where "dispatch_request icfg m s = Inr s'" "loop_ok W N U s'"
      using dispatch_ok [OF cfg Cons.prems(1), of m] Cons.prems(2) by auto
    then show ?thesis using Cons.IH [of s'] Cons.prems(2) unfolding process_input_requests.simps if_not_P [OF False] by simp
  qed
qed simp

section \<open>The last prefill joins the running batch\<close>

lemma picked_columns:
  assumes "picked b ids b'" and "columns_ok b" and "aligned b'" and "\<forall>i\<in>set ids. i < length (sb_reqs b)"
  shows "columns_ok b'"
proof -
  have "sb_req_pool_indices b' = map cr_pool_idx (sb_reqs b')" "sb_seq_lens b' = map (\<lambda>q. seqlen q - 1) (sb_reqs b')"
    using assms by (simp_all add: picked_def columns_ok_def gather_map)
  moreover have "set (sb_reqs b') \<subseteq> set (sb_reqs b)" using assms(1,4) by (auto simp: picked_def gather_def)
  ultimately show ?thesis using assms(2,3) by (auto simp: columns_ok_def aligned_def)
qed

lemma filter_live_ok:
  assumes b: "batch_ok W b"
  shows "\<exists>b'. sched_filter_batch (default_keep None b) b = Inr b' \<and> batch_ok W b' \<and> (\<forall>q\<in>set (sb_reqs b'). goes_on W q \<and> \<not> req_finished q) \<and>
     mset (sb_reqs b') = mset (filter (\<lambda>q. \<not> req_finished q) (sb_reqs b))"
proof (cases "default_keep None b = []")
  case True
  then have "filter (\<lambda>q. \<not> req_finished q) (sb_reqs b) = []" using live_positions [of b] by simp
  then show ?thesis using True by (simp add: sched_filter_batch_def batch_ok_def)
next
  case False
  let ?keep = "default_keep None b"
  have al: "aligned b" "columns_ok b" "\<forall>q\<in>set (sb_reqs b). \<not> req_finished q \<longrightarrow> goes_on W q"
    using b False by (auto simp: batch_ok_def default_keep_def)
  have keep: "distinct ?keep" "\<forall>i\<in>set ?keep. i < length (sb_reqs b)" by (simp_all add: default_keep_def)
  obtain b' ids where b': "sched_filter_batch ?keep b = Inr b'" "mset ids = mset ?keep" "aligned b'" "picked b ids b'"
    using sched_filter_batch_ok [OF al(1) False keep] by blast
  have "set ids = set ?keep" using b'(2) by (rule mset_eq_setD)
  then have cols: "columns_ok b'" using picked_columns [OF b'(4) al(2) b'(3)] keep(2) by simp
  have "mset (sb_reqs b') = image_mset ((!) (sb_reqs b)) (mset ?keep)"
    using b'(4) by (simp add: picked_def gather_def flip: b'(2))
  also have "\<dots> = mset (filter (\<lambda>q. \<not> req_finished q) (sb_reqs b))" by (simp flip: live_positions)
  finally have reqs: "mset (sb_reqs b') = mset (filter (\<lambda>q. \<not> req_finished q) (sb_reqs b))" .
  have "\<forall>q\<in>set (sb_reqs b'). goes_on W q \<and> \<not> req_finished q" using mset_eq_setD [OF reqs] al(3) by auto
  then show ?thesis using b'(1,3) cols reqs by (auto simp: batch_ok_def)
qed

lemma live_entries_mset:
  assumes "mset qs' = mset (filter (\<lambda>q. \<not> req_finished q) qs)"
  shows "mset (map owns (live_entries qs')) = mset (map owns (live_entries qs))"
proof -
  have "mset (filter (\<lambda>q. \<not> req_finished q) qs') = mset (filter (\<lambda>q. \<not> req_finished q) qs)"
    using assms by (simp add: filter_filter_mset)
  then show ?thesis by (simp add: live_entries_def)
qed

lemma sched_merge_batch_ok:
  assumes "aligned a" "columns_ok a" "aligned b" "columns_ok b"
  shows "\<exists>m. sched_merge_batch a b = Inr m \<and> aligned m \<and> columns_ok m \<and> sb_reqs m = sb_reqs a @ sb_reqs b"
proof -
  obtain sa sb oa ob where some: "sb_sampling_info a = Some sa" "sb_sampling_info b = Some sb" "sb_output_ids a = Some oa" "sb_output_ids b = Some ob"
    "length oa = length (sb_reqs a)" "length ob = length (sb_reqs b)"
    using assms(1,3) by (auto simp: aligned_defs)
  have rl: "sb_return_logprob a \<or> list_ex lq_return_logprob (sb_reqs a) \<longrightarrow> sb_top_logprobs_nums a \<noteq> None \<and> sb_token_ids_logprobs a \<noteq> None"
    "sb_return_logprob b \<or> list_ex lq_return_logprob (sb_reqs b) \<longrightarrow> sb_top_logprobs_nums b \<noteq> None \<and> sb_token_ids_logprobs b \<noteq> None"
    using assms(1,3) by (simp_all add: aligned_defs)
  let ?col = "\<lambda>fill f. join_column (sb_return_logprob a, length (sb_reqs a)) (sb_return_logprob b, length (sb_reqs b)) fill (f a) (f b)"
  obtain m where m: "sched_merge_batch a b = Inr m" "sb_reqs m = sb_reqs a @ sb_reqs b" "sb_output_ids m = Some (oa @ ob)"
    "sb_seq_lens m = sb_seq_lens a @ sb_seq_lens b" "sb_req_pool_indices m = sb_req_pool_indices a @ sb_req_pool_indices b"
    "sb_sampling_info m \<noteq> None" "sb_return_logprob m = (sb_return_logprob a \<or> sb_return_logprob b)"
    "sb_top_logprobs_nums m = ?col 0 sb_top_logprobs_nums" "sb_token_ids_logprobs m = ?col None sb_token_ids_logprobs"
    using some rl by (simp add: sched_merge_batch_def)
  have "\<not> list_ex lq_return_logprob (sb_reqs m)" using assms(2,4) m(2) by (auto simp: columns_ok_def list_ex_iff)
  then have "sb_top_logprobs_nums m \<noteq> None \<and> sb_token_ids_logprobs m \<noteq> None" if "sb_return_logprob m \<or> list_ex lq_return_logprob (sb_reqs m)"
    using that rl unfolding m(7-9) by (auto simp: join_column_def)
  then show ?thesis
    using m some assms by (intro exI [of _ m]) (simp add: aligned_defs columns_ok_def ball_Un)
qed


lemma goes_on_running: "goes_on W q \<Longrightarrow> running_ok q"
  by (auto simp: goes_on_def req_fits_def running_ok_def)

lemma live_entries_append [simp]: "live_entries (xs @ ys) = live_entries xs @ live_entries ys"
  by (simp add: live_entries_def)

lemma live_entries_Nil [simp]: "live_entries [] = []"
  by (simp add: live_entries_def)

lemma merge_last_batch_ok:
  assumes s: "loop_ok W N U s"
  shows "\<exists>s'. merge_last_batch s = Some (Inr s') \<and> merged_ok W N U s' \<and>
     keys_of (sc_waiting_queue s' @ live (sb_reqs (sc_running_batch s'))) = keys_of (pending s)"
proof (cases "last_prefill s")
  case None
  then have "merge_last_batch s = Some (Inr s)"
    by (auto simp: merge_last_batch_def last_prefill_def split: option.splits if_splits)
  then show ?thesis using s None by (simp add: loop_ok_def merged_ok_def last_reqs_def pending_def)
next
  case (Some lastb)
  let ?run = "sc_running_batch s"
  have lb: "sc_last_batch s = Some lastb" "is_extend (sb_forward_mode lastb)"
    using Some by (auto simp: last_prefill_def split: option.splits if_splits)
  have ok: "queue_ok W s" "runs_ok W ?run" "batch_ok W lastb" "sc_chunked_req s = None" "ta_not_in_group (cs_alloc (sc_cache s))"
    and held: "held_ok W N U (sc_cache s) (live_entries (sb_reqs ?run) @ live_entries (sb_reqs lastb))"
    using s Some by (simp_all add: loop_ok_def last_reqs_def queue_ok_def)
  obtain b where b: "sched_filter_batch (default_keep None lastb) lastb = Inr b" "batch_ok W b"
    "\<forall>q\<in>set (sb_reqs b). goes_on W q \<and> \<not> req_finished q"
    "mset (sb_reqs b) = mset (filter (\<lambda>q. \<not> req_finished q) (sb_reqs lastb))"
    using filter_live_ok [OF ok(3)] by blast
  have held1: "held_ok W N U (sc_cache s) (live_entries (sb_reqs ?run) @ live_entries (sb_reqs b))"
    by (rule held_ok_owns [OF _ held]) (simp add: live_entries_mset [OF b(4)] del: mset_map)
  have "live (sb_reqs b) = sb_reqs b" using b(3) by (simp add: filter_id_conv)
  then have keys: "keys_of (sc_waiting_queue s @ live (sb_reqs ?run) @ live (sb_reqs b)) = keys_of (pending s)"
    using b(4) Some by (simp add: pending_def last_reqs_def)
  have rb: "runs_ok W b" using b(2,3) goes_on_running by (auto simp: runs_ok_def)
  let ?run1 = "?run\<lparr>sb_batch_is_full := sb_batch_is_full ?run \<and> batch_size b = batch_size lastb\<rparr>"
  let ?s1 = "s\<lparr>sc_chunked_req := None, sc_last_batch := Some b\<rparr>"
  have run1: "runs_ok W ?run1" using ok(2) by simp
  have run: "merge_last_batch s = Some (if is_empty_batch b then Inr (?s1\<lparr>sc_running_batch := ?run1\<rparr>)
      else if is_empty_batch ?run1 then Inr (?s1\<lparr>sc_running_batch := b\<rparr>)
      else bind_r (sched_merge_batch ?run1 b) (\<lambda>m. Inr (?s1\<lparr>sc_running_batch := m\<rparr>)))"
    using lb ok(4) b(1) by (simp add: merge_last_batch_def Let_def)
  have queue: "queue_ok W (?s1\<lparr>sc_running_batch := r\<rparr>)" for r using ok(1) by (simp add: queue_ok_def)
  consider (none) "sb_reqs b = []" | (first) "sb_reqs b \<noteq> []" "sb_reqs ?run = []" | (both) "sb_reqs b \<noteq> []" "sb_reqs ?run \<noteq> []" by blast
  then show ?thesis
  proof cases
    case none
    then have "merge_last_batch s = Some (Inr (?s1\<lparr>sc_running_batch := ?run1\<rparr>))" using run by (simp add: is_empty_batch_def)
    then show ?thesis using none run1 queue held1 ok(5) keys by (simp add: merged_ok_def)
  next
    case first
    then have "merge_last_batch s = Some (Inr (?s1\<lparr>sc_running_batch := b\<rparr>))" using run by (simp add: is_empty_batch_def)
    then show ?thesis using first rb queue held1 ok(5) keys by (simp add: merged_ok_def)
  next
    case both
    have al: "aligned ?run1" "columns_ok ?run1" "aligned b" "columns_ok b"
      using run1 rb both by (simp_all add: runs_ok_def batch_ok_def)
    obtain m where m: "sched_merge_batch ?run1 b = Inr m" "aligned m" "columns_ok m" "sb_reqs m = sb_reqs ?run @ sb_reqs b"
      using sched_merge_batch_ok [OF al] by auto
    then have "runs_ok W m" using run1 rb both by (auto simp: runs_ok_def batch_ok_def)
    moreover have "merge_last_batch s = Some (Inr (?s1\<lparr>sc_running_batch := m\<rparr>))"
      using run both m(1) by (simp add: is_empty_batch_def)
    ultimately show ?thesis using m(4) queue held1 ok(5) keys by (simp add: merged_ok_def)
  qed
qed

section \<open>The configuration\<close>

definition sched_ok :: "nat \<Rightarrow> nat multiset \<Rightarrow> sched_config \<Rightarrow> bool" where
  "sched_ok N U cfg \<longleftrightarrow> sf_chunked_prefill_size cfg = None \<and> \<not> sf_is_mixed_chunk cfg \<and> \<not> sf_chunk_cache cfg \<and>
     (\<forall>qs. mset (sf_shuffle cfg qs) = mset qs) \<and> sf_max_running_requests cfg \<le> N \<and> 0 \<le> sf_min_new_token_ratio cfg \<and>
     sf_max_total_num_tokens cfg = size U"

definition worker_ok :: "(sched_batch \<Rightarrow> sampled result) \<Rightarrow> bool" where
  "worker_ok worker \<longleftrightarrow> (\<forall>b. \<exists>res. worker b = Inr res \<and> length (sd_tokens res) = length (sb_reqs b))"

section \<open>A batch that is ready to run\<close>

definition ready_batch :: "nat \<Rightarrow> sched_batch \<Rightarrow> bool" where
  "ready_batch W b \<longleftrightarrow> sb_reqs b \<noteq> [] \<and> (\<forall>q\<in>set (sb_reqs b). in_batch W q) \<and> aligned_columns b \<and>
     sb_req_pool_indices b = map cr_pool_idx (sb_reqs b) \<and> sb_seq_lens b = map seqlen (sb_reqs b)"

definition prefill_next :: "nat \<Rightarrow> nat \<Rightarrow> nat multiset \<Rightarrow> sched_batch \<Rightarrow> scheduler \<Rightarrow> bool" where
  "prefill_next W N U b s \<longleftrightarrow> queue_ok W s \<and> runs_ok W (sc_running_batch s) \<and> ready_batch W b \<and>
     sb_forward_mode b = Some EXTEND \<and> sb_decoding_reqs b = None \<and> (\<forall>q\<in>set (sb_reqs b). whole q) \<and>
     held_ok W N U (sc_cache s) (full_entries (sb_reqs b) @ live_entries (sb_reqs (sc_running_batch s))) \<and>
     ta_not_in_group (cs_alloc (sc_cache s))"

definition decode_next :: "nat \<Rightarrow> nat \<Rightarrow> nat multiset \<Rightarrow> sched_batch \<Rightarrow> scheduler \<Rightarrow> bool" where
  "decode_next W N U b s \<longleftrightarrow> queue_ok W s \<and> ready_batch W b \<and> sb_forward_mode b = Some DECODE \<and>
     (\<forall>q\<in>set (sb_reqs b). goes_on W q) \<and>
     held_ok W N U (sc_cache s) (full_entries (sb_reqs b)) \<and> ta_not_in_group (cs_alloc (sc_cache s))"

text \<open>Nothing to run: no request holds anything.\<close>

definition idle_next :: "nat \<Rightarrow> nat \<Rightarrow> nat multiset \<Rightarrow> scheduler \<Rightarrow> bool" where
  "idle_next W N U s \<longleftrightarrow> queue_ok W s \<and> sb_reqs (sc_running_batch s) = [] \<and>
     held_ok W N U (sc_cache s) [] \<and> ta_not_in_group (cs_alloc (sc_cache s))"

section \<open>The prefill step\<close>

lemma request_key_fits: "request_key q' = request_key q \<Longrightarrow> req_fits W q' = req_fits W q"
  by (simp add: request_key_def req_fits_def)

lemma live_le: "length (live_entries qs) \<le> length qs"
  by (simp add: live_entries_def)

lemma merged_prefill_state:
  assumes s: "merged_ok W N U s" and cfg: "sched_ok N U cfg"
  shows "prefill_state_ok cfg (entry_nodes (live_entries (sb_reqs (sc_running_batch s)))) s"
proof -
  let ?run = "sc_running_batch s" and ?c = "sc_cache s"
  let ?xs = "live_entries (sb_reqs ?run)"
  have ok: "queue_ok W s" "runs_ok W ?run" "held_ok W N U ?c ?xs" "ta_not_in_group (cs_alloc ?c)"
    using s by (simp_all add: merged_ok_def)
  have rows: "mset (rp_free_slots (cs_pool ?c)) + entry_rows ?xs = mset [0..<N]" using ok(3) by (simp add: held_ok_def)
  have "length (rp_free_slots (cs_pool ?c)) + length ?xs = N"
    using arg_cong [OF rows, of size] by (simp add: entry_rows_def)
  then have free: "sf_max_running_requests cfg - batch_size ?run \<le> length (rp_free_slots (cs_pool ?c))"
  proof -
    have "sf_max_running_requests cfg \<le> N" using cfg by (simp add: sched_ok_def)
    then show ?thesis
      using \<open>length (rp_free_slots (cs_pool ?c)) + length ?xs = N\<close> live_le [of "sb_reqs ?run"] unfolding batch_size_def by linarith
  qed
  have "\<forall>q\<in>set (sc_waiting_queue s). seqlen q \<le> W" using ok(1) req_fits_length by (auto simp: queue_ok_def waits_def)
  then have width: "r < length (rp_table (cs_pool ?c)) \<and> (\<forall>q\<in>set (sc_waiting_queue s). seqlen q \<le> length (rp_table (cs_pool ?c) ! r))"
    if "r \<in> set (rp_free_slots (cs_pool ?c))" for r
    using held_rows(5) [OF ok(3) that] held_rows(6) [OF ok(3)] by (meson order_trans)
  have "\<forall>q\<in>set (sc_waiting_queue s). lq_is_chunked q = 0 \<and> (\<exists>m. sp_max_new_tokens (lq_params q) = Some m \<and> 0 \<le> m)"
    using ok(1) by (fastforce simp: queue_ok_def waits_def req_fits_def)
  moreover have "pool_room (sf_max_running_requests cfg) (batch_size ?run) (sc_waiting_queue s) (cs_pool ?c)"
    using held_rows(2) [OF ok(3)] free width by (simp add: pool_room_def)
  ultimately show ?thesis
    using ok cfg held_mem_ok [OF ok(3,4)] by (simp add: prefill_state_ok_def queue_ok_def runs_ok_def sched_ok_def)
qed

lemma keys_member:
  assumes "image_mset f (mset xs) = image_mset f (mset ys)" and "x \<in> set xs"
  shows "\<exists>y\<in>set ys. f x = f y"
proof -
  have "f x \<in># image_mset f (mset ys)" using assms(2) by (simp flip: assms(1))
  then show ?thesis by auto
qed

lemma prefill_next_ok:
  assumes s: "merged_ok W N U s" and cfg: "sched_ok N U cfg"
  shows "\<exists>ob s'. get_new_batch_prefill cfg s = Some (Inr (ob, s')) \<and>
     (case ob of None \<Rightarrow> merged_ok W N U s' | Some b \<Rightarrow> prefill_next W N U b s') \<and>
     keys_of ((case ob of None \<Rightarrow> [] | Some b \<Rightarrow> sb_reqs b) @ sc_waiting_queue s') = keys_of (sc_waiting_queue s) \<and>
     (\<exists>f. sc_running_batch s' = (sc_running_batch s)\<lparr>sb_batch_is_full := f\<rparr>)"
proof -
  let ?run = "sc_running_batch s" and ?xs = "live_entries (sb_reqs (sc_running_batch s))"
  have ok: "queue_ok W s" "runs_ok W ?run" "held_ok W N U (sc_cache s) ?xs" "ta_not_in_group (cs_alloc (sc_cache s))"
    using s by (simp_all add: merged_ok_def)
  have ch: "sc_chunked_req s = None" "\<not> sf_is_mixed_chunk cfg" "sf_chunked_prefill_size cfg = None"
    using ok(1) cfg by (simp_all add: queue_ok_def sched_ok_def)
  obtain ob s' own where run: "get_new_batch_prefill cfg s = Some (Inr (ob, s'))"
    and out: "prefill_outcome cfg (entry_nodes ?xs) s ob s' own" and frame: "prefill_frame cfg (entry_nodes ?xs) s ob s'"
    using prefill_step_ok [OF merged_prefill_state [OF s cfg] ch(1,2)] by blast
  define reqs where "reqs = (case ob of None \<Rightarrow> [] | Some b \<Rightarrow> sb_reqs b)"
  have keys: "image_mset request_key (mset (reqs @ sc_waiting_queue s')) = image_mset request_key (mset (sc_waiting_queue s))"
    using out unfolding prefill_outcome_def Let_def reqs_def by blast
  obtain f where running: "sc_running_batch s' = ?run\<lparr>sb_batch_is_full := f\<rparr>"
    using frame unfolding prefill_frame_def Let_def by blast
  have fits: "req_fits W q" if q: "q \<in> set (reqs @ sc_waiting_queue s')" for q
  proof -
    obtain q0 where "q0 \<in> set (sc_waiting_queue s)" "request_key q = request_key q0" using keys_member [OF keys q] by blast
    then show ?thesis using ok(1) request_key_fits [of q q0 W] by (auto simp: queue_ok_def waits_def)
  qed
  have reqs: "\<forall>q\<in>set reqs. whole q \<and> lq_is_chunked q = 0 \<and> \<not> lq_is_retracted q"
    and queue: "sc_chunked_req s' = None" "\<forall>q\<in>set (sc_waiting_queue s'). lq_is_chunked q = 0"
      "\<exists>R. radix_reach (sc_waiting_queue_tree s') R" "rx_page_size (sc_waiting_queue_tree s') = 1"
      "sc_new_token_ratio s' = sc_new_token_ratio s"
    using frame ch(3) unfolding prefill_frame_def Let_def reqs_def by simp_all
  have q': "queue_ok W s'" using queue fits ok(1) by (simp add: queue_ok_def waits_def)
  have "\<forall>q\<in>set reqs. whole q \<and> seqlen q \<le> W" using reqs fits req_fits_length by auto
  note held = held_prefill [OF ok(3,4) out frame, folded reqs_def, OF this]
  show ?thesis
  proof (cases ob)
    case None
    then show ?thesis
      using run q' held running ok(2) keys by (intro exI [of _ None] exI [of _ s']) (simp add: merged_ok_def reqs_def full_entries_def, rule exI [of _ f], rule refl)
  next
    case (Some b)
    then have rb: "reqs = sb_reqs b" by (simp add: reqs_def)
    have b: "sb_forward_mode b = Some EXTEND" "prefill_columns b" "sb_decoding_reqs b = None"
      using frame Some by (simp_all add: prefill_frame_def Let_def)
    have ne: "sb_reqs b \<noteq> []" using out Some by (simp add: prefill_outcome_def Let_def)
    have "map (\<lambda>q. length (cr_fill_ids q)) (sb_reqs b) = map seqlen (sb_reqs b)"
      using reqs by (auto simp: rb whole_def seqlen_def)
    moreover have "\<not> list_ex lq_return_logprob (sb_reqs b)" using fits by (auto simp: rb req_fits_def list_ex_iff)
    ultimately have "ready_batch W b"
      using b(2) ne reqs fits by (auto simp: ready_batch_def prefill_columns_def aligned_columns_def in_batch_def rb)
    then show ?thesis
      using run q' held running ok(2) b(1,3) reqs keys by (intro exI [of _ ob] exI [of _ s']) (simp add: Some prefill_next_def rb, rule exI [of _ f], rule refl)
  qed
qed


section \<open>The decode step\<close>

lemma running_decode_state:
  assumes s: "merged_ok W N U s" and ne: "sb_reqs (sc_running_batch s) \<noteq> []"
  shows "decode_state_ok {#} (sc_running_batch s) (sc_cache s)"
proof -
  let ?b = "sc_running_batch s" and ?c = "sc_cache s"
  let ?keep = "default_keep None ?b"
  have b: "aligned ?b" "columns_ok ?b" "\<forall>q\<in>set (sb_reqs ?b). \<not> req_finished q \<longrightarrow> goes_on W q"
    and held: "held_ok W N U ?c (live_entries (sb_reqs ?b))" and ready: "ta_not_in_group (cs_alloc ?c)"
    using s ne by (simp_all add: merged_ok_def runs_ok_def batch_ok_def)
  have xs: "live_entries (sb_reqs ?b) = entries_at ?b ?keep"
    using live_entries_positions [OF b(2)] by (simp add: entries_at_def)
  have mem: "mem_ok ?c (nodes_of (sb_reqs ?b) ?keep)"
    using held_mem_ok [OF held ready] by (simp add: xs entries_at_simps)
  have at: "sb_req_pool_indices ?b ! i = cr_pool_idx (sb_reqs ?b ! i) \<and> cr_pool_idx (sb_reqs ?b ! i) < length (rp_table (cs_pool ?c)) \<and>
        sb_seq_lens ?b ! i < length (rp_table (cs_pool ?c) ! cr_pool_idx (sb_reqs ?b ! i)) \<and>
        (\<exists>m. sp_max_new_tokens (lq_params (sb_reqs ?b ! i)) = Some m \<and> 0 < m)" if i: "i \<in> set ?keep" for i
  proof -
    have lt: "i < length (sb_reqs ?b)" and live: "\<not> req_finished (sb_reqs ?b ! i)" using i by (simp_all add: default_keep_def)
    have go: "goes_on W (sb_reqs ?b ! i)" using b(3) nth_mem [OF lt] live by blast
    have x: "(sb_reqs ?b ! i, sb_seq_lens ?b ! i) \<in> set (live_entries (sb_reqs ?b))" using i by (auto simp: xs entries_at_def)
    have row: "cr_pool_idx (sb_reqs ?b ! i) < length (rp_table (cs_pool ?c))" by (rule held_rows(3) [OF held x])
    have "seqlen (sb_reqs ?b ! i) \<le> W" using go req_fits_length by (simp add: goes_on_def)
    then have "sb_seq_lens ?b ! i < length (rp_table (cs_pool ?c) ! cr_pool_idx (sb_reqs ?b ! i))"
      using columns_nth(2) [OF b(2) lt] held_rows(6) [OF held row] by linarith
    moreover have "\<exists>m. sp_max_new_tokens (lq_params (sb_reqs ?b ! i)) = Some m \<and> 0 < m"
      using go by (fastforce simp: goes_on_def req_fits_def)
    ultimately show ?thesis using row columns_nth(1) [OF b(2) lt] by blast
  qed
  have "gather (sb_req_pool_indices ?b) ?keep = map (\<lambda>(q, n). cr_pool_idx q) (live_entries (sb_reqs ?b))"
    using at by (simp add: gather_def xs entries_at_def)
  then have "distinct (gather (sb_req_pool_indices ?b) ?keep)" using held_rows(1) [OF held] by simp
  then show ?thesis using b(1) mem at unfolding decode_state_ok_def by simp
qed

lemma retracted_waits: "goes_on W q \<Longrightarrow> waits W (reset_for_retract q)"
  by (simp add: goes_on_def waits_def req_fits_def reset_for_retract_def)

lemma decode_next_ok:
  assumes s: "merged_ok W N U s" and ne: "sb_reqs (sc_running_batch s) \<noteq> []" and cfg: "sched_ok N U cfg" and room: "W < size U"
  shows "\<exists>b s'. update_running_batch cfg (sc_running_batch s) s = Some (Inr (b, s')) \<and> sc_last_batch s' = sc_last_batch s \<and>
     (if sb_reqs b = [] then idle_next W N U (s'\<lparr>sc_running_batch := b\<rparr>) else decode_next W N U b s') \<and>
     keys_of (sb_reqs b @ sc_waiting_queue s') = keys_of (sc_waiting_queue s @ live (sb_reqs (sc_running_batch s)))"
proof -
  let ?b = "sc_running_batch s" and ?keep = "default_keep None (sc_running_batch s)"
  have ok: "columns_ok ?b" "\<forall>q\<in>set (sb_reqs ?b). \<not> req_finished q \<longrightarrow> goes_on W q" "queue_ok W s"
    and held: "held_ok W N U (sc_cache s) (live_entries (sb_reqs ?b))" and ready: "ta_not_in_group (cs_alloc (sc_cache s))"
    using s ne by (simp_all add: merged_ok_def runs_ok_def batch_ok_def)
  have chunk: "\<not> sf_chunk_cache cfg" "0 \<le> sf_min_new_token_ratio cfg" using cfg by (simp_all add: sched_ok_def)
  obtain b s' kept gone locs where run: "update_running_batch cfg ?b s = Some (Inr (b, s'))"
    and out: "decode_outcome {#} ?b s b s' kept gone locs" and frame: "decode_frame cfg {#} ?b s b s' kept gone"
    using decode_step_ok [OF running_decode_state [OF s ne] chunk(1)] held_not_stuck [OF ok(1) held ready room] by blast
  have live: "goes_on W (sb_reqs ?b ! i)" if "i \<in> set ?keep" for i
    using ok(2) that by (auto simp: default_keep_def)
  then have "\<forall>i\<in>set ?keep. seqlen (sb_reqs ?b ! i) \<le> W" using req_fits_length by (simp add: goes_on_def)
  note held' = held_decode [OF ok(1) held ready out frame this]
  have o: "mset kept + mset gone = mset ?keep" "sb_reqs b = gather (sb_reqs ?b) kept"
    "sc_waiting_queue s' = sc_waiting_queue s @ map (\<lambda>i. reset_for_retract (sb_reqs ?b ! i)) gone"
    using out unfolding decode_outcome_def Let_def by blast+
  have lens: "sb_seq_lens b ! k = sb_seq_lens ?b ! (kept ! k) + 1" if "k < length kept" for k
    using out that unfolding decode_outcome_def Let_def by blast
  have sets: "set kept \<subseteq> set ?keep" "set gone \<subseteq> set ?keep" using arg_cong [OF o(1), of set_mset] by auto
  have queue: "queue_ok W s'"
    using frame ok(3) o(3) live sets(2) retracted_waits chunk(2) by (auto simp: decode_frame_def Let_def queue_ok_def)
  have last: "sc_last_batch s' = sc_last_batch s" using frame by (simp add: decode_frame_def Let_def)
  have keys: "keys_of (sb_reqs b @ sc_waiting_queue s') = keys_of (sc_waiting_queue s @ live (sb_reqs ?b))"
  proof -
    have "request_key (reset_for_retract q) = request_key q" for q by (simp add: request_key_def reset_for_retract_def)
    then have "keys_of (sb_reqs b @ sc_waiting_queue s') =
        keys_of (sc_waiting_queue s) + image_mset (\<lambda>i. request_key (sb_reqs ?b ! i)) (mset kept + mset gone)"
      by (simp add: o(2,3) gather_def multiset.map_comp comp_def)
    also have "image_mset (\<lambda>i. request_key (sb_reqs ?b ! i)) (mset kept + mset gone) = keys_of (live (sb_reqs ?b))"
      unfolding o(1) by (simp flip: live_positions add: multiset.map_comp comp_def)
    finally show ?thesis by simp
  qed
  show ?thesis
  proof (cases "sb_reqs b = []")
    case True
    then show ?thesis using run last queue held' keys by (simp add: idle_next_def queue_ok_def full_entries_def)
  next
    case False
    then have "kept \<noteq> []" using o(2) by (auto simp: gather_def)
    then have b: "sb_forward_mode b = Some DECODE" "aligned_columns b" "sb_req_pool_indices b = map cr_pool_idx (sb_reqs b)"
      using frame by (simp_all add: decode_frame_def Let_def)
    have go: "\<forall>q\<in>set (sb_reqs b). goes_on W q" using o(2) live sets(1) by (auto simp: gather_def)
    have "sb_seq_lens b = map seqlen (sb_reqs b)"
    proof (rule nth_equalityI)
      show len: "length (sb_seq_lens b) = length (map seqlen (sb_reqs b))" using b(2) by (simp add: aligned_columns_def)
      fix k assume "k < length (sb_seq_lens b)"
      then have k: "k < length kept" using len o(2) by (simp add: gather_def)
      then have "kept ! k < length (sb_reqs ?b)" using subsetD [OF sets(1) nth_mem [OF k]] by (simp add: default_keep_def)
      then show "sb_seq_lens b ! k = map seqlen (sb_reqs b) ! k"
        using lens [OF k] columns_nth(2) [OF ok(1)] k o(2) by (simp add: gather_def)
    qed
    then have "ready_batch W b" using False b(2,3) go by (simp add: ready_batch_def goes_on_def in_batch_def)
    then show ?thesis using run last queue held' False b(1) go keys by (simp add: decode_next_def)
  qed
qed

section \<open>The next batch\<close>

text \<open>The unfinished requests while a batch is ready to run.\<close>

definition ready_pending :: "sched_batch option \<Rightarrow> scheduler \<Rightarrow> latent_req list" where
  "ready_pending ob s = (case ob of None \<Rightarrow> [] | Some b \<Rightarrow> sb_reqs b) @ sc_waiting_queue s @
     (case ob of None \<Rightarrow> [] | Some b \<Rightarrow> if sb_forward_mode b = Some DECODE then [] else live (sb_reqs (sc_running_batch s)))"

lemma next_batch_ok:
  assumes s: "loop_ok W N U s" and cfg: "sched_ok N U cfg" and room: "W < size U"
  shows "\<exists>ob s'. get_next_batch_to_run cfg s = Some (Inr (ob, s')) \<and>
     (case ob of None \<Rightarrow> idle_next W N U s'
      | Some b \<Rightarrow> prefill_next W N U b s' \<or> decode_next W N U b s') \<and>
     keys_of (ready_pending ob s') = keys_of (pending s)"
proof -
  obtain s1 where s1: "merge_last_batch s = Some (Inr s1)" "merged_ok W N U s1"
    "keys_of (sc_waiting_queue s1 @ live (sb_reqs (sc_running_batch s1))) = keys_of (pending s)"
    using merge_last_batch_ok [OF s] by blast
  obtain ob s2 f where s2: "get_new_batch_prefill cfg s1 = Some (Inr (ob, s2))"
    "case ob of None \<Rightarrow> merged_ok W N U s2 | Some b \<Rightarrow> prefill_next W N U b s2"
    "keys_of ((case ob of None \<Rightarrow> [] | Some b \<Rightarrow> sb_reqs b) @ sc_waiting_queue s2) = keys_of (sc_waiting_queue s1)"
    "sc_running_batch s2 = (sc_running_batch s1)\<lparr>sb_batch_is_full := f\<rparr>"
    using prefill_next_ok [OF s1(2) cfg] by blast
  show ?thesis
  proof (cases ob)
    case (Some b)
    then have "sb_forward_mode b = Some EXTEND" using s2(2) by (simp add: prefill_next_def)
    then have "keys_of (ready_pending ob s2) = keys_of (pending s)"
      using s1(3) s2(3,4) Some by (simp add: ready_pending_def flip: add.assoc)
    then show ?thesis using s1(1) s2(1,2) Some by (simp add: get_next_batch_to_run_def)
  next
    case None
    then have m: "merged_ok W N U s2" using s2(2) by simp
    have keys: "keys_of (sc_waiting_queue s2 @ live (sb_reqs (sc_running_batch s2))) = keys_of (pending s)"
      using s1(3) s2(3,4) None by simp
    show ?thesis
    proof (cases "sb_reqs (sc_running_batch s2) = []")
      case True
      then have "idle_next W N U s2" using m by (simp add: merged_ok_def idle_next_def)
      then show ?thesis
        using s1(1) s2(1) None True keys by (simp add: get_next_batch_to_run_def is_empty_batch_def ready_pending_def)
    next
      case False
      obtain b s3 where b: "update_running_batch cfg (sc_running_batch s2) s2 = Some (Inr (b, s3))"
        "if sb_reqs b = [] then idle_next W N U (s3\<lparr>sc_running_batch := b\<rparr>) else decode_next W N U b s3"
        "keys_of (sb_reqs b @ sc_waiting_queue s3) = keys_of (sc_waiting_queue s2 @ live (sb_reqs (sc_running_batch s2)))"
        using decode_next_ok [OF m False cfg room] by blast
      let ?s = "s3\<lparr>sc_running_batch := b\<rparr>"
      have run: "get_next_batch_to_run cfg s = Some (Inr (if sb_reqs b = [] then None else Some b, ?s))"
        using s1(1) s2(1) None False b(1) by (simp add: get_next_batch_to_run_def is_empty_batch_def)
      have keys': "keys_of (sb_reqs b @ sc_waiting_queue ?s) = keys_of (pending s)" using b(3) keys by simp
      show ?thesis
      proof (cases "sb_reqs b = []")
        case True
        then show ?thesis using run b(2) keys' by (intro exI [of _ None] exI [of _ ?s]) (simp add: ready_pending_def)
      next
        case False
        then have "decode_next W N U b ?s" using b(2) by (simp add: decode_next_def queue_ok_def)
        moreover from this have "keys_of (ready_pending (Some b) ?s) = keys_of (pending s)"
          using keys' by (simp add: ready_pending_def decode_next_def)
        ultimately show ?thesis using run False by (intro exI [of _ "Some b"] exI [of _ ?s]) simp
      qed
    qed
  qed
qed

section \<open>Running the batch\<close>

lemma tokened_batch:
  assumes b: "ready_batch W b" and toks: "list_all2 (tokened W) (sb_reqs b) qs'" and len: "length os = length (sb_reqs b)"
  shows "batch_ok W (b\<lparr>sb_output_ids := Some os, sb_reqs := qs'\<rparr>)"
proof -
  have t: "tokened W (sb_reqs b ! i) (qs' ! i)" if "i < length qs'" for i
    using toks that by (simp add: list_all2_conv_all_nth)
  have n: "length qs' = length (sb_reqs b)" using toks by (simp add: list_all2_lengthD)
  have "map cr_pool_idx qs' = map cr_pool_idx (sb_reqs b)" "map (\<lambda>q. seqlen q - 1) qs' = map seqlen (sb_reqs b)"
    using t n tokened_seqlen [OF t] by (auto simp: tokened_def intro!: nth_equalityI)
  moreover have "\<forall>q\<in>set qs'. cr_output_ids q \<noteq> [] \<and> \<not> lq_return_logprob q \<and> (\<not> req_finished q \<longrightarrow> goes_on W q)"
  proof
    fix q assume "q \<in> set qs'"
    then obtain i where i: "i < length qs'" "q = qs' ! i" by (auto simp: in_set_conv_nth)
    then have "in_batch W (sb_reqs b ! i)" using b n by (simp add: ready_batch_def)
    then show "cr_output_ids q \<noteq> [] \<and> \<not> lq_return_logprob q \<and> (\<not> req_finished q \<longrightarrow> goes_on W q)"
      using t [OF i(1)] i(2) by (auto simp: tokened_def in_batch_def req_fits_def)
  qed
  ultimately show ?thesis
    using b n len by (auto simp: batch_ok_def ready_batch_def aligned_defs columns_ok_def list_ex_iff)
qed


lemma worker_run:
  assumes "worker_ok (lc_worker lc)"
  shows "\<exists>res. run_batch (lc_worker lc) b = Inr (res, b\<lparr>sb_output_ids := Some (sd_tokens res)\<rparr>) \<and>
     length (sd_tokens res) = length (sb_reqs b)"
  using assms by (auto simp: worker_ok_def run_batch_def bind_r_Inr_iff)

lemma prefill_run_ok:
  assumes nxt: "prefill_next W N U b s" and worker: "worker_ok (lc_worker lc)"
  shows "\<exists>rows s' qs. run_and_process lc b s = Some (Inr (rows, s')) \<and> loop_ok W N U s' \<and> list_all2 (tokened W) (sb_reqs b) qs \<and>
     pending s' = sc_waiting_queue s @ live (sb_reqs (sc_running_batch s)) @ live qs \<and>
     (\<exists>os. last_prefill s' = Some (b\<lparr>sb_output_ids := os, sb_reqs := qs\<rparr>))"
proof -
  let ?xs = "live_entries (sb_reqs (sc_running_batch s))"
  obtain res where res: "run_batch (lc_worker lc) b = Inr (res, b\<lparr>sb_output_ids := Some (sd_tokens res)\<rparr>)"
    "length (sd_tokens res) = length (sb_reqs b)" using worker_run [OF worker] by blast
  let ?b = "b\<lparr>sb_output_ids := Some (sd_tokens res)\<rparr>"
  have ok: "queue_ok W s" "runs_ok W (sc_running_batch s)" "ready_batch W b" "sb_forward_mode b = Some EXTEND"
    "sb_decoding_reqs b = None" "\<forall>q\<in>set (sb_reqs b). whole q" "\<forall>q\<in>set (sb_reqs b). in_batch W q"
    and held: "held_ok W N U (sc_cache s) (full_entries (sb_reqs ?b) @ ?xs)" and ready: "ta_not_in_group (cs_alloc (sc_cache s))"
    using nxt by (simp_all add: prefill_next_def ready_batch_def)
  obtain rows b2 c where p: "process_batch_result (lc_stream lc) res ?b (sc_cache s) = Some (Inr (rows, b2, c))"
    "batch_done W N U ?b ?xs b2 c"
    using process_batch_result_ok [OF held ready, of res "lc_stream lc"] ok(4-7) res(2) by auto
  obtain qs where b2: "b2 = ?b\<lparr>sb_reqs := qs\<rparr>" "list_all2 (tokened W) (sb_reqs b) qs" "held_ok W N U c (live_entries qs @ ?xs)"
    "ta_not_in_group (cs_alloc c)" using p(2) by (auto simp: batch_done_def)
  let ?s = "s\<lparr>sc_cache := c, sc_last_batch := Some b2\<rparr>"
  have "batch_ok W b2" unfolding b2(1) by (rule tokened_batch [OF ok(3) b2(2) res(2)])
  moreover have "held_ok W N U c (?xs @ live_entries qs)" by (rule held_ok_owns [OF _ b2(3)]) simp
  ultimately have "loop_ok W N U ?s"
    using ok(1,2,4) b2(1,4) by (simp add: loop_ok_def queue_ok_def last_prefill_def last_reqs_def)
  moreover have "run_and_process lc b s = Some (Inr (rows, ?s))" using res(1) p(1) ok(4) b2(1) by (simp add: run_and_process_def)
  moreover have "pending ?s = sc_waiting_queue s @ live (sb_reqs (sc_running_batch s)) @ live qs"
    using ok(4) b2(1) by (simp add: pending_def last_prefill_def last_reqs_def)
  moreover have "last_prefill ?s = Some (b\<lparr>sb_output_ids := Some (sd_tokens res), sb_reqs := qs\<rparr>)"
    using ok(4) b2(1) by (simp add: last_prefill_def)
  ultimately show ?thesis using b2(2) by blast
qed

lemma tokened_running: "goes_on W q \<Longrightarrow> tokened W q q' \<Longrightarrow> running_ok q'"
  by (auto simp: goes_on_def req_fits_def tokened_def running_ok_def)

lemma decode_run_ok:
  assumes nxt: "decode_next W N U b s" and worker: "worker_ok (lc_worker lc)"
  shows "\<exists>rows s' qs. run_and_process lc b s = Some (Inr (rows, s')) \<and> loop_ok W N U s' \<and> list_all2 (tokened W) (sb_reqs b) qs \<and>
     pending s' = sc_waiting_queue s @ live qs \<and> last_prefill s' = None \<and> sb_reqs (sc_running_batch s') = qs"
proof -
  obtain res where res: "run_batch (lc_worker lc) b = Inr (res, b\<lparr>sb_output_ids := Some (sd_tokens res)\<rparr>)"
    "length (sd_tokens res) = length (sb_reqs b)" using worker_run [OF worker] by blast
  let ?b = "b\<lparr>sb_output_ids := Some (sd_tokens res)\<rparr>"
  have ok: "queue_ok W s" "ready_batch W b" "sb_forward_mode b = Some DECODE" "\<forall>q\<in>set (sb_reqs b). goes_on W q"
    "\<forall>q\<in>set (sb_reqs b). in_batch W q"
    and held: "held_ok W N U (sc_cache s) (full_entries (sb_reqs ?b) @ [])" and ready: "ta_not_in_group (cs_alloc (sc_cache s))"
    using nxt by (simp_all add: decode_next_def ready_batch_def)
  obtain rows b2 c where p: "process_batch_result (lc_stream lc) res ?b (sc_cache s) = Some (Inr (rows, b2, c))"
    "batch_done W N U ?b [] b2 c"
    using process_batch_result_ok [OF held ready, of res "lc_stream lc"] ok(3,5) res(2) by auto
  obtain qs where b2: "b2 = ?b\<lparr>sb_reqs := qs\<rparr>" "list_all2 (tokened W) (sb_reqs b) qs" "held_ok W N U c (live_entries qs)"
    "ta_not_in_group (cs_alloc c)" using p(2) by (auto simp: batch_done_def)
  let ?s = "s\<lparr>sc_cache := c, sc_last_batch := Some b2, sc_running_batch := b2\<rparr>"
  have "batch_ok W b2" unfolding b2(1) by (rule tokened_batch [OF ok(2) b2(2) res(2)])
  moreover have "\<forall>q\<in>set qs. running_ok q"
  proof
    fix q assume "q \<in> set qs"
    then obtain i where i: "i < length qs" "q = qs ! i" by (auto simp: in_set_conv_nth)
    then have "tokened W (sb_reqs b ! i) q" "sb_reqs b ! i \<in> set (sb_reqs b)" using b2(2) by (auto simp: list_all2_conv_all_nth)
    then show "running_ok q" using ok(4) tokened_running by blast
  qed
  ultimately have "loop_ok W N U ?s"
    using ok(1,3) b2 by (simp add: loop_ok_def queue_ok_def runs_ok_def last_prefill_def last_reqs_def)
  moreover have "run_and_process lc b s = Some (Inr (rows, ?s))" using res(1) p(1) ok(3) b2(1) by (simp add: run_and_process_def)
  moreover have "pending ?s = sc_waiting_queue s @ live qs"
    using ok(3) b2(1) by (simp add: pending_def last_prefill_def last_reqs_def)
  moreover have "last_prefill ?s = None" "sb_reqs (sc_running_batch ?s) = qs" using ok(3) b2(1) by (simp_all add: last_prefill_def)
  ultimately show ?thesis using b2(2) by blast
qed

section \<open>Idling\<close>

lemma idle_ok:
  assumes "idle_next W N U s" and cfg: "sched_ok N U (lc_sched lc)" and ratio: "0 \<le> lc_init_new_token_ratio lc"
  shows "\<exists>s'. idle_step lc s = Inr ([], s') \<and> loop_ok W N U s' \<and>
     s' = s\<lparr>sc_new_token_ratio := lc_init_new_token_ratio lc, sc_last_batch := None\<rparr>"
proof -
  have ok: "queue_ok W s" "sb_reqs (sc_running_batch s) = []" "held_ok W N U (sc_cache s) []" "ta_not_in_group (cs_alloc (sc_cache s))"
    using assms(1) by (simp_all add: idle_next_def)
  have "check_memory (lc_sched lc) s = (False, False)"
    using held_nothing [OF ok(3,4)] cfg by (simp add: check_memory_def sched_ok_def Let_def)
  then show ?thesis
    using ok ratio by (simp add: idle_step_def loop_ok_def queue_ok_def runs_ok_def batch_ok_def last_prefill_def last_reqs_def)
qed

section \<open>One iteration\<close>

definition config_ok :: "nat \<Rightarrow> nat \<Rightarrow> nat multiset \<Rightarrow> loop_config \<Rightarrow> bool" where
  "config_ok W N U lc \<longleftrightarrow> intake_ok W (lc_intake lc) \<and> sched_ok N U (lc_sched lc) \<and> worker_ok (lc_worker lc) \<and>
     0 \<le> lc_init_new_token_ratio lc \<and> W < size U"

text \<open>
  What an iteration does to the unfinished requests: those of the batch, \<open>bs\<close>, get a token each, the
  others stay as they are; when nothing ran, nothing is left in a batch.
\<close>

definition served :: "nat \<Rightarrow> scheduler \<Rightarrow> scheduler \<Rightarrow> latent_req list \<Rightarrow> latent_req list \<Rightarrow> bool" where
  "served W s s' bs bs' \<longleftrightarrow> (\<exists>rest. keys_of (pending s) = keys_of (bs @ rest) \<and> keys_of (pending s') = keys_of (live bs' @ rest)) \<and>
     (\<forall>q\<in>set bs. req_fits W q) \<and> list_all2 (tokened W) bs bs' \<and>
     (bs = [] \<longrightarrow> sb_reqs (sc_running_batch s') = [] \<and> last_prefill s' = None)"

text \<open>Nothing runs and nothing is left from the last iteration.\<close>

definition settled :: "scheduler \<Rightarrow> bool" where
  "settled s \<longleftrightarrow> sb_reqs (sc_running_batch s) = [] \<and> last_prefill s = None"

text \<open>How the batches after an iteration come from the batch that ran.\<close>

definition follows :: "sched_batch option \<Rightarrow> scheduler \<Rightarrow> scheduler \<Rightarrow> bool" where
  "follows ob s s' \<longleftrightarrow> (case ob of None \<Rightarrow> sc_running_batch s' = sc_running_batch s \<and> last_prefill s' = None
     | Some b \<Rightarrow> \<not> settled s' \<and> (\<forall>b'. last_prefill s' = Some b' \<longrightarrow>
          sb_forward_mode b = Some EXTEND \<and> sb_reqs b' \<noteq> [] \<and> sb_batch_is_full b' = sb_batch_is_full b))"

text \<open>\<open>bs\<close> are the requests of the batch that ran, \<open>bs'\<close> what it left of them, with the tokens that the worker sampled.\<close>

abbreviation batch_reqs :: "sched_batch option \<Rightarrow> latent_req list" where
  "batch_reqs ob \<equiv> (case ob of None \<Rightarrow> [] | Some b \<Rightarrow> sb_reqs b)"

definition batch_got :: "loop_config \<Rightarrow> sched_batch option \<Rightarrow> scheduler \<Rightarrow> latent_req list \<Rightarrow> latent_req list \<Rightarrow> bool" where
  "batch_got lc ob s' bs bs' \<longleftrightarrow> bs = batch_reqs ob \<and> bs' = batch_reqs (sc_last_batch s') \<and>
     (\<forall>b. ob = Some b \<longrightarrow> (\<exists>res. lc_worker lc b = Inr res \<and> length (sd_tokens res) = length bs \<and> grown bs (sd_tokens res) bs'))"

lemma ran_batch_got:
  assumes run: "run_and_process lc b s = Some (Inr (rows, s'))" and b: "ready_batch W b"
    and mode: "sb_forward_mode b = Some DECODE \<or> sb_forward_mode b = Some EXTEND" and worker: "worker_ok (lc_worker lc)"
    and qs: "sb_forward_mode b = Some EXTEND \<Longrightarrow> \<exists>b'. last_prefill s' = Some b' \<and> qs = sb_reqs b'"
      "sb_forward_mode b = Some DECODE \<Longrightarrow> sb_reqs (sc_running_batch s') = qs"
  shows "batch_got lc (Some b) s' (sb_reqs b) qs"
proof -
  obtain res where res: "lc_worker lc b = Inr res" "length (sd_tokens res) = length (sb_reqs b)"
    using worker unfolding worker_ok_def by blast
  have "\<forall>q\<in>set (sb_reqs b). in_batch W q"
    using b by (simp add: ready_batch_def)
  from run_and_process_grown [OF run this mode res]
  obtain b' where b': "sc_last_batch s' = Some b'" "grown (sb_reqs b) (sd_tokens res) (sb_reqs b')"
    "sb_forward_mode b' = sb_forward_mode b" "sb_forward_mode b = Some DECODE \<longrightarrow> sc_running_batch s' = b'" by blast
  have "sb_reqs b' = qs"
    using mode qs b' by (auto simp: last_prefill_def)
  then show ?thesis
    using res b'(1,2) by (simp add: batch_got_def)
qed

lemma serve_ok:
  assumes s: "loop_ok W N U s" and cfg: "config_ok W N U lc"
  shows "\<exists>ob s2 rows s' bs bs'. get_next_batch_to_run (lc_sched lc) s = Some (Inr (ob, s2)) \<and>
     (case ob of None \<Rightarrow> Some (idle_step lc s2) | Some b \<Rightarrow> run_and_process lc b s2) = Some (Inr (rows, s')) \<and>
     loop_ok W N U s' \<and> served W s s' bs bs' \<and> (ob = None \<longleftrightarrow> bs = []) \<and> follows ob s2 s' \<and>
     batch_got lc ob s' bs bs'"
proof -
  have c: "sched_ok N U (lc_sched lc)" "worker_ok (lc_worker lc)" "0 \<le> lc_init_new_token_ratio lc" "W < size U"
    using cfg by (simp_all add: config_ok_def)
  obtain ob s2 where s2: "get_next_batch_to_run (lc_sched lc) s = Some (Inr (ob, s2))"
    "case ob of None \<Rightarrow> idle_next W N U s2 | Some b \<Rightarrow> prefill_next W N U b s2 \<or> decode_next W N U b s2"
    and keys: "keys_of (ready_pending ob s2) = keys_of (pending s)"
    using next_batch_ok [OF s c(1,4)] by blast
  show ?thesis
  proof (cases ob)
    case None
    then have idle: "idle_next W N U s2" using s2(2) by simp
    obtain s' where s': "idle_step lc s2 = Inr ([], s')" "loop_ok W N U s'"
      "s' = s2\<lparr>sc_new_token_ratio := lc_init_new_token_ratio lc, sc_last_batch := None\<rparr>"
      using idle_ok [OF idle c(1,3)] by blast
    have "served W s s' [] []"
      using s'(3) idle keys None
      by (auto simp: served_def idle_next_def pending_def ready_pending_def last_prefill_def last_reqs_def
        intro!: exI [of _ "sc_waiting_queue s2"])
    moreover have "follows ob s2 s'" using None s'(3) by (simp add: follows_def last_prefill_def)
    moreover have "batch_got lc ob s' [] []" using None s'(3) by (simp add: batch_got_def)
    ultimately show ?thesis using s2(1) s'(1,2) None by (intro exI [of _ ob] exI [of _ s2] exI [of _ "[]"] exI [of _ s']) auto
  next
    case (Some b)
    then consider (prefill) "prefill_next W N U b s2" | (decode) "decode_next W N U b s2" using s2(2) by auto
    then show ?thesis
    proof cases
      case prefill
      obtain rows s' qs where r: "run_and_process lc b s2 = Some (Inr (rows, s'))" "loop_ok W N U s'" "list_all2 (tokened W) (sb_reqs b) qs"
        "pending s' = sc_waiting_queue s2 @ live (sb_reqs (sc_running_batch s2)) @ live qs"
        "\<exists>os. last_prefill s' = Some (b\<lparr>sb_output_ids := os, sb_reqs := qs\<rparr>)"
        using prefill_run_ok [OF prefill c(2)] by blast
      have b: "sb_forward_mode b = Some EXTEND" "ready_batch W b" using prefill by (simp_all add: prefill_next_def)
      then have "served W s s' (sb_reqs b) qs"
        using keys Some r(3,4) unfolding served_def
        by (auto simp: ready_pending_def ready_batch_def in_batch_def ac_simps
          intro!: exI [of _ "sc_waiting_queue s2 @ live (sb_reqs (sc_running_batch s2))"])
      moreover have ne: "sb_reqs b \<noteq> []" using b(2) by (simp add: ready_batch_def)
      moreover have "qs \<noteq> []" using ne r(3) by auto
      then have "follows ob s2 s'" using r(5) Some b(1) by (auto simp: follows_def settled_def)
      moreover have "batch_got lc ob s' (sb_reqs b) qs"
        unfolding Some by (rule ran_batch_got [OF r(1) b(2) _ c(2)]) (use b(1) r(5) in auto)
      ultimately show ?thesis using s2(1) r(1,2) Some by (intro exI [of _ ob] exI [of _ s2] exI [of _ rows] exI [of _ s']) auto
    next
      case decode
      obtain rows s' qs where r: "run_and_process lc b s2 = Some (Inr (rows, s'))" "loop_ok W N U s'" "list_all2 (tokened W) (sb_reqs b) qs"
        "pending s' = sc_waiting_queue s2 @ live qs" "last_prefill s' = None" "sb_reqs (sc_running_batch s') = qs"
        using decode_run_ok [OF decode c(2)] by blast
      have b: "sb_forward_mode b = Some DECODE" "ready_batch W b" using decode by (simp_all add: decode_next_def)
      then have "served W s s' (sb_reqs b) qs"
        using keys Some r(3,4) unfolding served_def
        by (auto simp: ready_pending_def ready_batch_def in_batch_def ac_simps intro!: exI [of _ "sc_waiting_queue s2"])
      moreover have ne: "sb_reqs b \<noteq> []" using b(2) by (simp add: ready_batch_def)
      moreover have "qs \<noteq> []" using ne r(3) by auto
      then have "follows ob s2 s'" using r(5,6) Some by (simp add: follows_def settled_def)
      moreover have "batch_got lc ob s' (sb_reqs b) qs"
        unfolding Some by (rule ran_batch_got [OF r(1) b(2) _ c(2)]) (use b(1) r(6) in auto)
      ultimately show ?thesis using s2(1) r(1,2) Some by (intro exI [of _ ob] exI [of _ s2] exI [of _ rows] exI [of _ s']) auto
    qed
  qed
qed

lemma event_loop_step_ok:
  assumes s: "loop_ok W N U s" and cfg: "config_ok W N U lc" and msgs: "\<forall>m\<in>set msgs. msg_ok (lc_intake lc) m"
  shows "\<exists>rows s' s1 bs bs'. event_loop_step lc msgs s = Some (Inr (rows, s')) \<and> loop_ok W N U s' \<and>
     process_input_requests (lc_intake lc) msgs s = Inr s1 \<and> served W s1 s' bs bs'"
proof -
  have "intake_ok W (lc_intake lc)" using cfg by (simp add: config_ok_def)
  then obtain s1 where s1: "process_input_requests (lc_intake lc) msgs s = Inr s1" "loop_ok W N U s1"
    using process_input_requests_ok [OF _ s msgs] by blast
  obtain ob s2 rows s' bs bs' where r: "get_next_batch_to_run (lc_sched lc) s1 = Some (Inr (ob, s2))"
     "(case ob of None \<Rightarrow> Some (idle_step lc s2) | Some b \<Rightarrow> run_and_process lc b s2) = Some (Inr (rows, s'))"
     "loop_ok W N U s'" "served W s1 s' bs bs'" using serve_ok [OF s1(2) cfg] by (elim exE conjE)
  have "event_loop_step lc msgs s = Some (Inr (rows, s'))"
    using s1(1) r(1,2) by (cases ob) (simp_all add: event_loop_step_def)
  then show ?thesis using s1(1) r(3,4) by blast
qed

lemma sched_init_ok:
  assumes "W \<le> C" and "0 \<le> ratio"
  shows "loop_ok W N (mset [1..<sf_max_total_num_tokens cfg + 1]) (sched_init cfg ratio clock N C)"
proof -
  let ?t = "rx_init 1 False clock"
  have reach: "radix_reach ?t {#}" by (rule rr_init) simp
  have ok: "radix_ok ?t {0} (\<lambda>_. []) (\<lambda>_. []) {#}" by (rule rx_init_ok) simp
  have "rx_page_size ?t = 1" by (simp add: rx_init_def rx_reset_def tree_node_def upd_node_def)
  moreover have "rx_slots ?t = {#}"
    unfolding rx_slots_eq [OF radix_okD(2) [OF ok]] tree_slots_def
    by (simp add: rx_init_def rx_reset_def tree_node_def upd_node_def)
  ultimately show ?thesis
    using reach assms token_init_ready [of "sf_max_total_num_tokens cfg"]
    by (auto simp: loop_ok_def queue_ok_def runs_ok_def batch_ok_def last_prefill_def last_reqs_def sched_init_def
      sched_init_new_def held_ok_def pending_ready token_init_slots pool_ok_def req_pool_init_def)
qed


section \<open>Runs of the loop\<close>

inductive loop_reach :: "loop_config \<Rightarrow> scheduler \<Rightarrow> scheduler \<Rightarrow> bool" for lc s0 where
  start: "loop_reach lc s0 s0"
| step: "loop_reach lc s0 s'"
    if "loop_reach lc s0 s" and "\<forall>m\<in>set msgs. msg_ok (lc_intake lc) m" and "event_loop_step lc msgs s = Some (Inr (rows, s'))"

lemma loop_reach_ok:
  assumes "loop_reach lc s0 s" and "loop_ok W N U s0" and "config_ok W N U lc"
  shows "loop_ok W N U s"
  using assms(1)
proof induction
  case start
  then show ?case by (rule assms(2))
next
  case (step s msgs rows s')
  then show ?case using event_loop_step_ok [OF step.IH assms(3) step.hyps(2)] by auto
qed

lemma loop_reach_init:
  assumes "loop_reach lc (sched_init (lc_sched lc) (lc_init_new_token_ratio lc) clock N C) s"
    and "config_ok W N (mset [1..<sf_max_total_num_tokens (lc_sched lc) + 1]) lc" and "W \<le> C"
  shows "loop_ok W N (mset [1..<sf_max_total_num_tokens (lc_sched lc) + 1]) s"
proof (rule loop_reach_ok [OF assms(1) _ assms(2)])
  show "loop_ok W N (mset [1..<sf_max_total_num_tokens (lc_sched lc) + 1])
     (sched_init (lc_sched lc) (lc_init_new_token_ratio lc) clock N C)"
    by (rule sched_init_ok) (use assms(2,3) in \<open>simp_all add: config_ok_def\<close>)
qed

section \<open>Properties\<close>

text \<open>
  C1. The event loop never fails.  From the initial scheduler, whatever valid requests and aborts
  arrive, whatever tokens the model samples and however short memory is, every iteration ends
  normally: no allocation fails, no assertion of the batch, retraction or memory code fires, and the leak
  check, which is fatal under \<open>crash_on_warnings\<close>, never finds a leak.  The configuration has a token pool larger than
  the longest request, a row of the request pool for every running request, no chunked prefill, and a
  worker that returns a token per request.
\<close>

theorem event_loop_never_fails:
  assumes "loop_reach lc (sched_init (lc_sched lc) (lc_init_new_token_ratio lc) clock N C) s"
    and "config_ok W N (mset [1..<sf_max_total_num_tokens (lc_sched lc) + 1]) lc" and "W \<le> C"
    and "\<forall>m\<in>set msgs. msg_ok (lc_intake lc) m"
  shows "\<exists>rows s'. event_loop_step lc msgs s = Some (Inr (rows, s'))"
  using event_loop_step_ok [OF loop_reach_init [OF assms(1-3)] assms(2,4)] by blast

text \<open>An example with 10 token slots, two rows and a worker that always samples token 3.\<close>

definition demo_loop :: loop_config where
  "demo_loop = \<lparr>lc_sched = demo_config\<lparr>sf_enable_latent := False, sf_policy := FCFS, sf_max_total_num_tokens := 10\<rparr>,
     lc_intake = \<lparr>ic_max_req_len = 10, ic_max_req_input_len = 5, ic_allow_auto_truncate = False, ic_enable_latent = False,
       ic_latent_end_token_id = None, ic_tokenizer = None, ic_eos_token_ids = None\<rparr>,
     lc_stream = \<lparr>st_stream_interval = 1, st_skip_tokenizer_init = False, st_enable_latent = False\<rparr>,
     lc_worker = (\<lambda>b. Inr \<lparr>sd_rows = [], sd_tokens = replicate (length (sb_reqs b)) 3, sd_logprobs = [],
       sd_gumbel_logprobs = [], sd_top_logprobs = None, sd_token_ids_logprobs = None\<rparr>),
     lc_init_new_token_ratio = 0, lc_crash_on_warnings = True\<rparr>"

definition demo_start :: scheduler where
  "demo_start = sched_init (lc_sched demo_loop) (lc_init_new_token_ratio demo_loop) (\<lambda>n. n) 2 20"

definition demo_generate :: "string \<Rightarrow> nat list \<Rightarrow> int \<Rightarrow> input_msg" where
  "demo_generate rid ids m = Generate \<lparr>gi_rid = rid, gi_input_ids = ids,
     gi_sampling_params = waiting_params\<lparr>sp_max_new_tokens := Some m\<rparr>, gi_return_logprob = False,
     gi_logprob_start_len = -1, gi_top_logprobs_num = 0, gi_token_ids_logprob = None, gi_stream = False, gi_session_id = None\<rparr>"

lemma demo_loop_ok: "config_ok 9 2 (mset [1..<sf_max_total_num_tokens (lc_sched demo_loop) + 1]) demo_loop"
  by (simp add: config_ok_def intake_ok_def sched_ok_def worker_ok_def demo_loop_def demo_config_def)

lemma demo_msgs_ok: "\<forall>m\<in>set [demo_generate ''a'' [1, 2] 7, demo_generate ''b'' [4, 5] 5, Abort ''a'']. msg_ok (lc_intake demo_loop) m"
  by (simp add: demo_generate_def demo_loop_def waiting_params_def Let_def)

lemma demo_loop_start: "loop_reach demo_loop demo_start demo_start"
  by (rule loop_reach.start)

definition demo_msgs :: "input_msg list" where
  "demo_msgs = [demo_generate ''a'' [1, 2] 7, demo_generate ''b'' [4, 5] 5]"

lemma demo_reach_step:
  "\<exists>rows s. event_loop_step demo_loop demo_msgs demo_start = Some (Inr (rows, s)) \<and> loop_reach demo_loop demo_start s"
proof -
  let ?U = "mset [1..<sf_max_total_num_tokens (lc_sched demo_loop) + 1]"
  have msgs: "\<forall>m\<in>set demo_msgs. msg_ok (lc_intake demo_loop) m" using demo_msgs_ok by (simp add: demo_msgs_def)
  have "loop_ok 9 2 ?U demo_start"
    using loop_reach_init [OF _ demo_loop_ok, of "\<lambda>n. n" 20 demo_start] demo_loop_start by (simp add: demo_start_def)
  then obtain rows s where "event_loop_step demo_loop demo_msgs demo_start = Some (Inr (rows, s))"
    using event_loop_step_ok [OF _ demo_loop_ok msgs] by blast
  then show ?thesis using loop_reach.step [OF demo_loop_start msgs] by blast
qed

theorem event_loop_never_fails_witness:
  "\<exists>rows s'. event_loop_step demo_loop [demo_generate ''a'' [1, 2] 7, demo_generate ''b'' [4, 5] 5, Abort ''a''] demo_start = Some (Inr (rows, s'))"
  using event_loop_never_fails [OF _ demo_loop_ok _ demo_msgs_ok, of "\<lambda>n. n" 20] demo_loop_start by (simp add: demo_start_def)

text \<open>
  C3. Between iterations every KV slot and every row of the request pool has exactly one owner.  The
  slots \<open>1 .. total\<close> are, without loss or duplication, those of the tree, the free ones of the allocator, and for
  every unfinished request in a batch the slots of its row behind its cached prefix; the rows
  are free or belong to one unfinished request each; and the reference counts of the tree
  are exactly the nodes that these requests hold.
\<close>

theorem event_loop_owns_memory:
  assumes "loop_reach lc (sched_init (lc_sched lc) (lc_init_new_token_ratio lc) clock N C) s"
    and "config_ok W N (mset [1..<sf_max_total_num_tokens (lc_sched lc) + 1]) lc" and "W \<le> C"
  shows "let c = sc_cache s; qs = live (sb_reqs (sc_running_batch s)) @ live (last_reqs s)
     in rx_slots (cs_tree c) + token_slots (cs_alloc c) + mset (concat (map (\<lambda>q. private_slots c q (seqlen q - 1)) qs))
          = mset [1..<sf_max_total_num_tokens (lc_sched lc) + 1] \<and>
        mset (rp_free_slots (cs_pool c)) + mset (map cr_pool_idx qs) = mset [0..<N] \<and>
        radix_reach (cs_tree c) (mset (map cr_last_node qs))"
proof -
  let ?xs = "live_entries (sb_reqs (sc_running_batch s)) @ live_entries (last_reqs s)"
  have held: "held_ok W N (mset [1..<sf_max_total_num_tokens (lc_sched lc) + 1]) (sc_cache s) ?xs"
    and ready: "ta_not_in_group (cs_alloc (sc_cache s))"
    using loop_reach_init [OF assms] by (simp_all add: loop_ok_def)
  have xs: "entry_slots c (live_entries qs) = mset (concat (map (\<lambda>q. private_slots c q (seqlen q - 1)) (live qs)))"
    "entry_rows (live_entries qs) = mset (map cr_pool_idx (live qs))" "entry_nodes (live_entries qs) = mset (map cr_last_node (live qs))" for c qs
    by (simp_all add: live_entries_def entry_slots_def entry_rows_def entry_nodes_def comp_def del: mset_map mset_concat)
  show ?thesis
    using held pending_ready [OF ready] unfolding held_ok_def entry_append xs Let_def by simp
qed

theorem event_loop_owns_memory_witness:
  "\<exists>rows s. event_loop_step demo_loop demo_msgs demo_start = Some (Inr (rows, s)) \<and>
     mset (rp_free_slots (cs_pool (sc_cache s))) +
       mset (map cr_pool_idx (live (sb_reqs (sc_running_batch s)) @ live (last_reqs s))) = mset [0..<2]"
proof -
  obtain rows s where s: "event_loop_step demo_loop demo_msgs demo_start = Some (Inr (rows, s))" "loop_reach demo_loop demo_start s"
    using demo_reach_step by blast
  from event_loop_owns_memory [OF s(2) [unfolded demo_start_def] demo_loop_ok] s(1) show ?thesis by (auto simp: Let_def)
qed

text \<open>
  C9. Between iterations the state is well formed.  No request is left half prefilled; every
  unfinished request has a limit of new tokens that its output does not exceed, and fits in \<open>W\<close> with it; the
  columns of the running batch, and of the prefill batch that has not joined it yet, have one entry per request, in
  the same order: its row, its length without the token sampled last, and that token.
\<close>

theorem event_loop_state_well_formed:
  assumes "loop_reach lc (sched_init (lc_sched lc) (lc_init_new_token_ratio lc) clock N C) s"
    and "config_ok W N (mset [1..<sf_max_total_num_tokens (lc_sched lc) + 1]) lc" and "W \<le> C"
  shows "sc_chunked_req s = None \<and>
     (\<forall>q\<in>set (pending s). \<exists>m. sp_max_new_tokens (lq_params q) = Some (int m) \<and> length (cr_output_ids q) \<le> m \<and>
        length (cr_origin_input_ids q) + m \<le> W) \<and>
     (\<forall>b\<in>insert (sc_running_batch s) (set_option (last_prefill s)). sb_reqs b = [] \<or>
        sb_req_pool_indices b = map cr_pool_idx (sb_reqs b) \<and> sb_seq_lens b = map (\<lambda>q. seqlen q - 1) (sb_reqs b) \<and>
        map_option length (sb_output_ids b) = Some (length (sb_reqs b)) \<and> sb_sampling_info b \<noteq> None)"
proof (intro conjI ballI)
  have s: "queue_ok W s" "batch_ok W (sc_running_batch s)" "\<forall>b. last_prefill s = Some b \<longrightarrow> batch_ok W b"
    using loop_reach_init [OF assms] by (simp_all add: loop_ok_def runs_ok_def)
  show "sc_chunked_req s = None" using s(1) by (simp add: queue_ok_def)
  show "\<exists>m. sp_max_new_tokens (lq_params q) = Some (int m) \<and> length (cr_output_ids q) \<le> m \<and> length (cr_origin_input_ids q) + m \<le> W"
    if q: "q \<in> set (pending s)" for q
  proof -
    have batch: "req_fits W q" if "batch_ok W b" "q \<in> set (sb_reqs b)" "\<not> req_finished q" for b
    proof -
      have "sb_reqs b \<noteq> []" using that(2) by auto
      then have "goes_on W q" using that unfolding batch_ok_def by blast
      then show ?thesis by (simp add: goes_on_def)
    qed
    consider (queue) "q \<in> set (sc_waiting_queue s)" | (run) "q \<in> set (sb_reqs (sc_running_batch s))" "\<not> req_finished q"
      | (last) b where "last_prefill s = Some b" "q \<in> set (sb_reqs b)" "\<not> req_finished q"
      using q by (cases "last_prefill s") (auto simp: pending_def last_reqs_def)
    then have "req_fits W q"
    proof cases
      case queue
      then show ?thesis using s(1) by (simp add: queue_ok_def waits_def)
    qed (use batch s(2,3) in blast)+
    then show ?thesis unfolding req_fits_def by blast
  qed
  show "sb_reqs b = [] \<or> sb_req_pool_indices b = map cr_pool_idx (sb_reqs b) \<and> sb_seq_lens b = map (\<lambda>q. seqlen q - 1) (sb_reqs b) \<and>
        map_option length (sb_output_ids b) = Some (length (sb_reqs b)) \<and> sb_sampling_info b \<noteq> None"
    if "b \<in> insert (sc_running_batch s) (set_option (last_prefill s))" for b
  proof -
    have "batch_ok W b" using that s(2,3) by (auto simp: elem_set)
    then show ?thesis by (auto simp: batch_ok_def aligned_defs columns_ok_def)
  qed
qed

theorem event_loop_state_well_formed_witness:
  "\<exists>rows s. event_loop_step demo_loop demo_msgs demo_start = Some (Inr (rows, s)) \<and> sc_chunked_req s = None \<and>
     (\<forall>q\<in>set (pending s). \<exists>m. sp_max_new_tokens (lq_params q) = Some (int m) \<and> length (cr_output_ids q) \<le> m)"
proof -
  obtain rows s where s: "event_loop_step demo_loop demo_msgs demo_start = Some (Inr (rows, s))" "loop_reach demo_loop demo_start s"
    using demo_reach_step by blast
  have "(9 :: nat) \<le> 20" by simp
  from event_loop_state_well_formed [OF s(2) [unfolded demo_start_def] demo_loop_ok this] s(1) show ?thesis by blast
qed

text \<open>
  C4. An iteration loses no request and gives each request of its batch the token sampled for it.  Leaving aside
  what arrives, let \<open>bs\<close> be the requests of the batch that \<open>get_next_batch_to_run\<close> chose and \<open>bs'\<close> those of
  \<open>last_batch\<close> after the iteration.  The unfinished requests before the iteration are those of \<open>bs\<close> and some others;
  after it they are the unfinished ones of \<open>bs'\<close> and the same others, whose output is unchanged, also when they
  were retracted.  When a batch ran, the requests of \<open>bs'\<close> are those of \<open>bs\<close> in order, each with one more output
  token, the one the worker sampled at its position; when none ran, \<open>bs'\<close> is empty.
\<close>

theorem event_loop_loses_no_request:
  assumes "loop_reach lc (sched_init (lc_sched lc) (lc_init_new_token_ratio lc) clock N C) s"
    and "config_ok W N (mset [1..<sf_max_total_num_tokens (lc_sched lc) + 1]) lc" and "W \<le> C"
  shows "\<exists>ob s2 rows s' rest. get_next_batch_to_run (lc_sched lc) s = Some (Inr (ob, s2)) \<and>
     event_loop_step lc [] s = Some (Inr (rows, s')) \<and>
     (let bs = (case ob of None \<Rightarrow> [] | Some b \<Rightarrow> sb_reqs b);
          bs' = (case sc_last_batch s' of None \<Rightarrow> [] | Some b \<Rightarrow> sb_reqs b)
      in keys_of (pending s) = keys_of (bs @ rest) \<and> keys_of (pending s') = keys_of (live bs' @ rest) \<and>
         (case ob of None \<Rightarrow> bs' = []
          | Some b \<Rightarrow> bs \<noteq> [] \<and> length bs' = length bs \<and>
              (\<exists>res. lc_worker lc b = Inr res \<and> length (sd_tokens res) = length bs \<and>
                 (\<forall>i<length bs. lq_rid (bs' ! i) = lq_rid (bs ! i) \<and>
                    cr_origin_input_ids (bs' ! i) = cr_origin_input_ids (bs ! i) \<and>
                    cr_output_ids (bs' ! i) = cr_output_ids (bs ! i) @ [sd_tokens res ! i]))))"
proof -
  obtain ob s2 rows s' bs bs' where r: "get_next_batch_to_run (lc_sched lc) s = Some (Inr (ob, s2))"
     "(case ob of None \<Rightarrow> Some (idle_step lc s2) | Some b \<Rightarrow> run_and_process lc b s2) = Some (Inr (rows, s'))"
     "served W s s' bs bs'" "ob = None \<longleftrightarrow> bs = []" "batch_got lc ob s' bs bs'"
    using serve_ok [OF loop_reach_init [OF assms] assms(2)] by (elim exE conjE)
  have step: "event_loop_step lc [] s = Some (Inr (rows, s'))"
    using r(1,2) by (cases ob) (simp_all add: event_loop_step_def)
  have all: "list_all2 (tokened W) bs bs'"
    using r(3) by (simp add: served_def)
  then have len: "length bs' = length bs"
    by (simp add: list_all2_lengthD)
  have got: "lq_rid (bs' ! i) = lq_rid (bs ! i) \<and> cr_origin_input_ids (bs' ! i) = cr_origin_input_ids (bs ! i)"
    if "i < length bs" for i
    using all that by (simp add: list_all2_conv_all_nth tokened_def)
  have out: "cr_output_ids (bs' ! i) = cr_output_ids (bs ! i) @ [toks ! i]"
    if "i < length bs" "grown bs toks bs'" "length toks = length bs" for i toks
    using arg_cong [OF that(2) [unfolded grown_def], of "\<lambda>xs. xs ! i"] that(1,3) len by simp
  have bs: "bs = batch_reqs ob" "bs' = batch_reqs (sc_last_batch s')"
    using r(5) by (simp_all add: batch_got_def)
  obtain rest where rest: "keys_of (pending s) = keys_of (bs @ rest)" "keys_of (pending s') = keys_of (live bs' @ rest)"
    using r(3) unfolding served_def by blast
  have "case ob of None \<Rightarrow> bs' = []
          | Some b \<Rightarrow> bs \<noteq> [] \<and> length bs' = length bs \<and>
              (\<exists>res. lc_worker lc b = Inr res \<and> length (sd_tokens res) = length bs \<and>
                 (\<forall>i<length bs. lq_rid (bs' ! i) = lq_rid (bs ! i) \<and>
                    cr_origin_input_ids (bs' ! i) = cr_origin_input_ids (bs ! i) \<and>
                    cr_output_ids (bs' ! i) = cr_output_ids (bs ! i) @ [sd_tokens res ! i]))"
  proof (cases ob)
    case None
    then show ?thesis using r(4) len by simp
  next
    case (Some b)
    then obtain res where "lc_worker lc b = Inr res" "length (sd_tokens res) = length bs" "grown bs (sd_tokens res) bs'"
      using r(5) unfolding batch_got_def by blast
    then show ?thesis using Some r(4) len got out by auto
  qed
  then show ?thesis
    using r(1) step rest unfolding bs Let_def by blast
qed

theorem event_loop_loses_no_request_witness:
  "\<exists>rows0 s ob s2 rows s'. event_loop_step demo_loop demo_msgs demo_start = Some (Inr (rows0, s)) \<and>
     get_next_batch_to_run (lc_sched demo_loop) s = Some (Inr (ob, s2)) \<and>
     event_loop_step demo_loop [] s = Some (Inr (rows, s')) \<and>
     (\<forall>b. ob = Some b \<longrightarrow> (\<forall>i<length (sb_reqs b).
        cr_output_ids ((case sc_last_batch s' of None \<Rightarrow> [] | Some b' \<Rightarrow> sb_reqs b') ! i) = cr_output_ids (sb_reqs b ! i) @ [3]))"
proof -
  obtain rows0 s where s: "event_loop_step demo_loop demo_msgs demo_start = Some (Inr (rows0, s))" "loop_reach demo_loop demo_start s"
    using demo_reach_step by blast
  have "(9 :: nat) \<le> 20" by simp
  from event_loop_loses_no_request [OF s(2) [unfolded demo_start_def] demo_loop_ok this]
  obtain ob s2 rows s' rest where r: "get_next_batch_to_run (lc_sched demo_loop) s = Some (Inr (ob, s2))"
    "event_loop_step demo_loop [] s = Some (Inr (rows, s'))"
    and all: "let bs = (case ob of None \<Rightarrow> [] | Some b \<Rightarrow> sb_reqs b);
          bs' = (case sc_last_batch s' of None \<Rightarrow> [] | Some b \<Rightarrow> sb_reqs b)
      in keys_of (pending s) = keys_of (bs @ rest) \<and> keys_of (pending s') = keys_of (live bs' @ rest) \<and>
         (case ob of None \<Rightarrow> bs' = []
          | Some b \<Rightarrow> bs \<noteq> [] \<and> length bs' = length bs \<and>
              (\<exists>res. lc_worker demo_loop b = Inr res \<and> length (sd_tokens res) = length bs \<and>
                 (\<forall>i<length bs. lq_rid (bs' ! i) = lq_rid (bs ! i) \<and>
                    cr_origin_input_ids (bs' ! i) = cr_origin_input_ids (bs ! i) \<and>
                    cr_output_ids (bs' ! i) = cr_output_ids (bs ! i) @ [sd_tokens res ! i])))"
    by (elim exE conjE) (rule that)
  have "cr_output_ids ((case sc_last_batch s' of None \<Rightarrow> [] | Some b' \<Rightarrow> sb_reqs b') ! i) = cr_output_ids (sb_reqs b ! i) @ [3]"
    if "ob = Some b" "i < length (sb_reqs b)" for b i
    using all that by (auto simp: Let_def demo_loop_def)
  then show ?thesis using s(1) r by blast
qed

end
