(* ===== verification/SchedLive.thy ===== *)
theory SchedLive
  imports SchedLoopOk
begin

text \<open>
  Progress of the event loop: when memory exceeds the longest request by the estimate of new tokens
  that admission uses, every request finishes; when it does not, a retracted request may wait forever.
\<close>

section \<open>Work\<close>

text \<open>The tokens that an unfinished request may still get, and one more.\<close>

definition work_of :: "latent_req \<Rightarrow> nat" where
  "work_of q = (case sp_max_new_tokens (lq_params q) of None \<Rightarrow> 0 | Some m \<Rightarrow> nat m + 1 - length (cr_output_ids q))"

definition work :: "latent_req list \<Rightarrow> nat" where
  "work qs = sum_list (map work_of qs)"

lemma work_append [simp]: "work (xs @ ys) = work xs + work ys"
  by (simp add: work_def)

lemma work_keys: "keys_of xs = keys_of ys \<Longrightarrow> work xs = work ys"
proof -
  let ?f = "\<lambda>k :: string \<times> sampling_params \<times> nat list \<times> nat list \<times> finish_reason option \<times> tokenizer option \<times> bool.
     case k of (_, p, _, out, _) \<Rightarrow> (case sp_max_new_tokens p of None \<Rightarrow> 0 | Some m \<Rightarrow> nat m + 1 - length out)"
  have "work qs = sum_mset (image_mset ?f (keys_of qs))" for qs
    by (induction qs) (simp_all add: work_def work_of_def request_key_def)
  then show "keys_of xs = keys_of ys \<Longrightarrow> work xs = work ys" by simp
qed

lemma work_tokened:
  assumes "req_fits W q" and "tokened W q q'"
  shows "work (live [q']) + 1 \<le> work_of q"
proof -
  obtain m where m: "sp_max_new_tokens (lq_params q) = Some (int m)" "length (cr_output_ids q) \<le> m"
    using assms(1) by (auto simp: req_fits_def)
  show ?thesis
  proof (cases "req_finished q'")
    case True
    then show ?thesis using m by (simp add: work_def work_of_def)
  next
    case False
    then have "goes_on W q'" "sp_max_new_tokens (lq_params q') = Some (int m)" "length (cr_output_ids q') = length (cr_output_ids q) + 1"
      using assms(2) m(1) by (auto simp: tokened_def)
    then have "length (cr_output_ids q) + 1 \<le> m" by (auto simp: goes_on_def req_fits_def)
    then show ?thesis
      using False m(1) \<open>sp_max_new_tokens (lq_params q') = _\<close> \<open>length (cr_output_ids q') = _\<close> by (simp add: work_def work_of_def)
  qed
qed

lemma work_served:
  assumes "\<forall>q\<in>set bs. req_fits W q" and "list_all2 (tokened W) bs bs'"
  shows "work (live bs') + length bs \<le> work bs"
  using assms(2,1)
proof (induction rule: list_all2_induct)
  case (Cons q qs q' qs')
  then have "work (live qs') + length qs \<le> work qs" "work (live [q']) + 1 \<le> work_of q"
    using work_tokened [OF _ Cons.hyps(1)] by simp_all
  then show ?case by (simp add: work_def split: if_splits)
qed (simp add: work_def)

lemma served_work: "served W s s' bs bs' \<Longrightarrow> work (pending s') + length bs \<le> work (pending s)"
proof -
  assume s: "served W s s' bs bs'"
  then obtain rest where "work (pending s) = work (bs @ rest)" "work (pending s') = work (live bs' @ rest)"
    unfolding served_def using work_keys by metis
  moreover have "\<forall>q\<in>set bs. req_fits W q" "list_all2 (tokened W) bs bs'" using s unfolding served_def by blast+
  then have "work (live bs') + length bs \<le> work bs" by (rule work_served)
  ultimately show ?thesis by simp
qed

section \<open>Admission when nothing runs\<close>

lemma budget_alone:
  assumes reach: "radix_reach t {#}" and off: "pa_rem_total_token_offset pa = 0" and K: "avail + size (rx_slots t) = K"
  shows "rem_total_tokens avail t pa = real K"
    and "at_node t n ks vs \<Longrightarrow> inc_lock_ref t n = Some (d, t') \<Longrightarrow> rem_total_tokens avail t' pa = real K - real (length vs)"
proof -
  have size: "int (size (rx_slots s)) = evictable_size s + protected_size s" if "radix_reach s R" for s R
    using sizes_and_locks_spec [OF that] by auto
  have "protected_size t = 0" using sizes_and_locks_spec [OF reach] by auto
  then show "rem_total_tokens avail t pa = real K"
    using size [OF reach] off by (simp add: rem_total_tokens_def flip: K)
  assume n: "at_node t n ks vs" and inc: "inc_lock_ref t n = Some (d, t')"
  have t': "radix_reach t' {#n#}" "at_node t' n ks vs" "rx_slots t' = rx_slots t"
    using inc_lock_ref_full [OF reach n] inc n by auto
  then have "evictable_size t' = int (size (rx_slots t)) - int (length vs)"
    using size [OF t'(1)] protected_single [OF t'(1,2)] by simp
  then show "rem_total_tokens avail t' pa = real K - real (length vs)"
    using off by (simp add: rem_total_tokens_def flip: K)
qed

text \<open>A request that fits with its estimate is admitted, one that does not is refused.\<close>

lemma add_one_alone:
  assumes reach: "radix_reach t {#}" and off: "pa_rem_total_token_offset pa = 0" and K: "avail + size (rx_slots t) = K"
    and q: "prefill_ready t q" "sp_max_new_tokens (lq_params q) = Some m" "0 \<le> m"
    and pa: "pa_rem_chunk_tokens pa = None" "pa_can_run_list pa = []"
    and add: "add_one_req avail t q pa = Some (Inr (res, q', pa', t'))"
  shows "int (length (cr_fill_ids q)) + min m clip_max_new_tokens < int K \<Longrightarrow>
      (\<exists>d. inc_lock_ref t (cr_last_node q) = Some (d, t')) \<and> admitted_as m q pa q' pa' \<and> res = budget_state avail t' pa' \<and>
      real_of_int (lq_extend_input_len q + min m clip_max_new_tokens) \<le> rem_total_tokens avail t' pa"
    and "int K < int (length (cr_fill_ids q)) + min m clip_max_new_tokens \<Longrightarrow>
      res \<noteq> CONTINUE \<and> q' = q \<and> pa' = pa \<and> t' = t"
proof -
  obtain ks where ks: "at_node t (cr_last_node q) ks (cr_prefix_indices q)" using q(1) by (auto simp: prefill_ready_def)
  have ext: "lq_extend_input_len q = int (length (cr_fill_ids q)) - int (length (cr_prefix_indices q))"
    using q(1) by (simp add: prefill_ready_def)
  note b = budget_alone [OF reach off K]
  from add_one_req_ok [OF reach ks q(2), of avail pa] add
  have split: "res \<noteq> CONTINUE \<and> q' = q \<and> pa' = pa \<and> t' = t \<and>
        (let total = real_of_int (lq_extend_input_len q + min m clip_max_new_tokens)
            in rem_total_tokens avail t pa \<le> total \<or>
               (\<exists>d t1. inc_lock_ref t (cr_last_node q) = Some (d, t1) \<and> rem_total_tokens avail t1 pa < total)) \<or>
      (\<exists>d. inc_lock_ref t (cr_last_node q) = Some (d, t')) \<and> admitted_as m q pa q' pa' \<and> res = budget_state avail t' pa' \<and>
      real_of_int (lq_extend_input_len q + min m clip_max_new_tokens) \<le> rem_total_tokens avail t' pa"
    using pa by auto
  show "(\<exists>d. inc_lock_ref t (cr_last_node q) = Some (d, t')) \<and> admitted_as m q pa q' pa' \<and> res = budget_state avail t' pa' \<and>
      real_of_int (lq_extend_input_len q + min m clip_max_new_tokens) \<le> rem_total_tokens avail t' pa"
    if fits: "int (length (cr_fill_ids q)) + min m clip_max_new_tokens < int K"
  proof -
    have total: "real_of_int (lq_extend_input_len q + min m clip_max_new_tokens) < real K - real (length (cr_prefix_indices q))"
      using fits unfolding ext by linarith
    have no1: "\<not> rem_total_tokens avail t pa \<le> real_of_int (lq_extend_input_len q + min m clip_max_new_tokens)"
      using total unfolding b(1) by linarith
    have no2: "\<not> rem_total_tokens avail t1 pa < real_of_int (lq_extend_input_len q + min m clip_max_new_tokens)"
      if inc: "inc_lock_ref t (cr_last_node q) = Some (d, t1)" for d t1
      using total unfolding b(2) [OF ks inc] by linarith
    show ?thesis using split no1 no2 unfolding Let_def by blast
  qed
  show "res \<noteq> CONTINUE \<and> q' = q \<and> pa' = pa \<and> t' = t"
    if tight: "int K < int (length (cr_fill_ids q)) + min m clip_max_new_tokens"
  proof -
    have total: "real K - real (length (cr_prefix_indices q)) < real_of_int (lq_extend_input_len q + min m clip_max_new_tokens)"
      using tight unfolding ext by linarith
    have no: "\<not> real_of_int (lq_extend_input_len q + min m clip_max_new_tokens) \<le> rem_total_tokens avail t' pa"
      if inc: "inc_lock_ref t (cr_last_node q) = Some (d, t')" for d
      using total unfolding b(2) [OF ks inc] by linarith
    show ?thesis using split no by blast
  qed
qed

lemma add_waiting_alone:
  assumes ok: "adder_ok avail t pa {#} 0" and w: "\<forall>r\<in>set (q # queue). waiting_ok prefix_computed t r"
    and pa: "pa_rem_chunk_tokens pa = None" "pa_can_run_list pa = []" "pa_rem_total_token_offset pa = 0"
    and K: "avail + size (rx_slots t) = K" and max: "0 < max_running" and m: "sp_max_new_tokens (lq_params q) = Some m"
    and run: "add_waiting avail max_running 0 prefix_computed (q # queue) pa t = Some (Inr (pa', t', rest, full))"
  shows "int (seqlen q) + min m clip_max_new_tokens < int K \<Longrightarrow> pa_can_run_list pa' \<noteq> []"
    and "int K < int (seqlen q) + min m clip_max_new_tokens \<Longrightarrow> pa_can_run_list pa' = []"
proof -
  have reach: "radix_reach t {#}" using ok pa(2) by (simp add: adder_ok_def)
  obtain q1 t1 where nr: "next_round prefix_computed t q = Some (Inr (q1, t1))" "radix_reach t1 {#}"
      "tree_kept t t1" "evictable_size t1 = evictable_size t" "prefill_ready t1 q1" "same_request q q1"
      "cr_fill_ids q1 = cr_origin_input_ids q @ cr_output_ids q"
    using next_round_ok [OF reach, of prefix_computed q] w by auto
  have m1: "sp_max_new_tokens (lq_params q1) = Some m" "0 \<le> m" using nr(6) m w by (auto simp: same_request_def waiting_ok_def)
  have K1: "avail + size (rx_slots t1) = K" using K nr(3) by (simp add: tree_kept_def)
  have len: "length (cr_fill_ids q1) = seqlen q" using nr(7) by (simp add: seqlen_def)
  obtain ks where ks: "at_node t1 (cr_last_node q1) ks (cr_prefix_indices q1)" using nr(5) by (auto simp: prefill_ready_def)
  obtain res q2 pa1 t2 where add: "add_one_req avail t1 q1 pa = Some (Inr (res, q2, pa1, t2))"
    using add_one_req_ok [OF nr(2) ks m1(1), of avail pa] by blast
  note alone = add_one_alone [OF nr(2) pa(3) K1 nr(5) m1 pa(1,2) add, unfolded len]
  have step: "add_waiting avail max_running 0 prefix_computed (q # queue) pa t =
     (if res \<noteq> CONTINUE then Some (Inr (pa1, t2, if length (pa_can_run_list pa) < length (pa_can_run_list pa1) then queue else q2 # queue, res = NO_TOKEN))
      else add_waiting avail max_running 0 prefix_computed queue pa1 t2)"
    using nr(1) add max pa(2) by simp
  show "pa_can_run_list pa' \<noteq> []" if fits: "int (seqlen q) + min m clip_max_new_tokens < int K"
  proof -
    obtain d where adm: "inc_lock_ref t1 (cr_last_node q1) = Some (d, t2)" "admitted_as m q1 pa q2 pa1"
      "real_of_int (lq_extend_input_len q1 + min m clip_max_new_tokens) \<le> rem_total_tokens avail t2 pa"
      using alone(1) [OF fits] by blast
    have list: "pa_can_run_list pa1 = [q2]" using admitted_as_lists(1) [OF adm(2)] pa(2) by simp
    show ?thesis
    proof (cases "res = CONTINUE")
      case False
      then show ?thesis using run step list by simp
    next
      case True
      have ch: "\<forall>k. pa_rem_chunk_tokens pa = Some k \<longrightarrow> 0 < k" using pa(1) by simp
      have ok1: "adder_ok avail t1 pa {#} 0"
        by (rule adder_ok_tree [OF ok]) (use nr(2-4) pa(2) in \<open>auto simp: tree_kept_def\<close>)
      have ok2: "adder_ok avail t2 pa1 {#} 0" by (rule adder_ok_admit [OF ok1 nr(5) m1(2) adm ch])
      have "tree_kept t1 t2" using inc_lock_ref_full [OF nr(2) ks] adm(1) by (auto simp: tree_kept_def)
      then have t2: "tree_kept t t2" by (rule tree_kept_trans [OF nr(3)])
      have w2: "\<forall>r\<in>set queue. waiting_ok prefix_computed t2 r"
        using w t2 by (fastforce simp: waiting_ok_def tree_kept_def)
      have ch2: "\<forall>k. pa_rem_chunk_tokens pa1 = Some k \<longrightarrow> 0 < k" using admitted_as_no_chunk [OF adm(2) pa(1)] by simp
      obtain qs where "pa_can_run_list pa' = pa_can_run_list pa1 @ qs"
        using add_waiting_ok [OF ok2 w2 ch2, of max_running 0] run step True by auto
      then show ?thesis using list by simp
    qed
  qed
  show "pa_can_run_list pa' = []" if tight: "int K < int (seqlen q) + min m clip_max_new_tokens"
    using alone(2) [OF tight] run step pa(2) by simp
qed


text \<open>The prefill step when nothing runs, as far as it depends on the first request of the ordered queue.\<close>

lemma prefill_alone:
  assumes s: "merged_ok W N U s" and cfg: "sched_ok N U cfg" and none: "sb_reqs (sc_running_batch s) = []"
    and go: "\<not> sb_batch_is_full (sc_running_batch s)" "sc_waiting_queue s \<noteq> []" "0 < sf_max_running_requests cfg"
    and run: "get_new_batch_prefill cfg s = Some (Inr (ob, s'))"
  shows "\<exists>q r m. r \<in> set (sc_waiting_queue s) \<and> request_key q = request_key r \<and> sp_max_new_tokens (lq_params q) = Some m \<and>
     (int (seqlen q) + min m clip_max_new_tokens < int (size U) \<longrightarrow> ob \<noteq> None) \<and>
     (int (size U) < int (seqlen q) + min m clip_max_new_tokens \<longrightarrow> ob = None)"
proof -
  let ?run = "sc_running_batch s" and ?c = "sc_cache s" and ?max = "sf_max_running_requests cfg"
  let ?avail = "token_available_size (cs_alloc ?c)"
  have held: "held_ok W N U ?c []" and ready: "ta_not_in_group (cs_alloc ?c)" and queue: "queue_ok W s"
    using s none by (simp_all add: merged_ok_def)
  have st: "prefill_state_ok cfg {#} s" using merged_prefill_state [OF s cfg] none by simp
  have ch: "sc_chunked_req s = None" "\<not> sf_is_mixed_chunk cfg" "sf_chunked_prefill_size cfg = None"
    using queue cfg by (simp_all add: queue_ok_def sched_ok_def)
  obtain b queue tree wt where pol: "calc_priority (sf_shuffle cfg) (sf_policy cfg) (cs_tree ?c) (sc_waiting_queue_tree s)
       (sc_waiting_queue s) = Some (Inr (b, queue, tree, wt))" "radix_reach tree {#}" "tree_kept (cs_tree ?c) tree"
      "\<forall>q\<in>set queue. waiting_ok b tree q"
      "keys_of queue = keys_of (sc_waiting_queue s)"
    using prefill_policy_ok [OF st] by (elim exE conjE) blast
  obtain q qs where q: "queue = q # qs" using pol(5) go(2) by (cases queue) auto
  obtain r where r: "r \<in> set (sc_waiting_queue s)" "request_key q = request_key r"
    using keys_member [OF pol(5), of q] q by auto
  obtain m where m: "sp_max_new_tokens (lq_params q) = Some m" using pol(4) q by (auto simp: waiting_ok_def)
  have ratio: "0 \<le> sc_new_token_ratio s" using queue by (simp add: queue_ok_def)
  have nil: "\<forall>q\<in>set []. running_ok q" by simp
  obtain pa where pa: "prefill_adder_init [] (sc_new_token_ratio s) (sf_max_prefill_tokens cfg) None 0 = Inr pa"
    "adder_ok ?avail tree pa {#} 0" "pa_rem_chunk_tokens pa = None" "pa_can_run_list pa = []"
    using prefill_adder_init_ok [OF nil ratio pol(2), where rem_input = "sf_max_prefill_tokens cfg" and avail = ?avail and chunk = None]
    by (elim exE conjE)
  have off: "pa_rem_total_token_offset pa = 0" using pa(1) by (auto simp: prefill_adder_init_def)
  have "rx_slots tree = rx_slots (cs_tree ?c)" using pol(3) by (simp add: tree_kept_def)
  moreover have "?avail = size (token_slots (cs_alloc ?c))" using available_slots [of "cs_alloc ?c"] by simp
  ultimately have K: "?avail + size (rx_slots tree) = size U"
    using held pending_ready [OF ready] by (auto simp: held_ok_def)
  have w: "\<forall>r\<in>set (q # qs). waiting_ok b tree r" using pol(4) q by simp
  have ch0: "\<forall>k. pa_rem_chunk_tokens pa = Some k \<longrightarrow> 0 < k" using pa(3) by simp
  obtain pa' t' rest full where add: "add_waiting ?avail ?max 0 b (q # qs) pa tree = Some (Inr (pa', t', rest, full))"
    using add_waiting_ok [OF pa(2) w ch0, of ?max 0] by (elim exE conjE)
  note alone = add_waiting_alone [OF pa(2) w pa(3,4) off K go(3) m add]
  have bs: "batch_size ?run = 0" using none by (simp add: batch_size_def)
  have "(ob = None) = (pa_can_run_list pa' = [])"
    using run go ch pol(1) pa(1) add none bs q
    by (auto simp: get_new_batch_prefill_def Let_def add_chunked_def bind_r_Inr_iff split: if_splits option.splits sum.splits prod.splits)
  then show ?thesis using r m alone by blast
qed

lemma request_key_seqlen: "request_key q = request_key r \<Longrightarrow> seqlen q = seqlen r"
  by (simp add: request_key_def seqlen_def)


section \<open>The flag that stops admission\<close>

text \<open>
  \<open>batch_is_full\<close> is never left set when nothing runs: a batch that was just prefilled has it clear, and it is
  cleared whenever a batch shrinks.
\<close>

definition fresh :: "scheduler \<Rightarrow> bool" where
  "fresh s \<longleftrightarrow> (\<forall>b. last_prefill s = Some b \<longrightarrow> sb_reqs b \<noteq> [] \<and> \<not> sb_batch_is_full b) \<and>
     (settled s \<longrightarrow> \<not> sb_batch_is_full (sc_running_batch s))"

definition may_admit :: "sched_batch \<Rightarrow> bool" where
  "may_admit b \<longleftrightarrow> (sb_reqs b = [] \<longrightarrow> \<not> sb_batch_is_full b)"

lemma merge_may_admit:
  assumes fresh: "fresh s" and s: "loop_ok W N U s" and run: "merge_last_batch s = Some (Inr s1)"
  shows "may_admit (sc_running_batch s1)"
proof (cases "last_prefill s")
  case None
  then have "s1 = s" using run by (auto simp: merge_last_batch_def last_prefill_def split: option.splits if_splits)
  then show ?thesis using fresh None by (auto simp: fresh_def settled_def may_admit_def)
next
  case (Some b)
  have lb: "sc_last_batch s = Some b" "is_extend (sb_forward_mode b)" "sb_reqs b \<noteq> []" "sc_chunked_req s = None" "batch_ok W b"
    using Some fresh s by (auto simp: fresh_def last_prefill_def loop_ok_def queue_ok_def split: option.splits if_splits)
  obtain b2 where b2: "sched_filter_batch (default_keep None b) b = Inr b2" using filter_live_ok [OF lb(5)] by blast
  let ?run = "sc_running_batch s"
  let ?run1 = "?run\<lparr>sb_batch_is_full := sb_batch_is_full ?run \<and> batch_size b2 = batch_size b\<rparr>"
  let ?s1 = "s\<lparr>sc_chunked_req := None, sc_last_batch := Some b2\<rparr>"
  have run1: "merge_last_batch s = Some (if is_empty_batch b2 then Inr (?s1\<lparr>sc_running_batch := ?run1\<rparr>)
      else if is_empty_batch ?run1 then Inr (?s1\<lparr>sc_running_batch := b2\<rparr>)
      else bind_r (sched_merge_batch ?run1 b2) (\<lambda>m. Inr (?s1\<lparr>sc_running_batch := m\<rparr>)))"
    using lb b2 by (simp add: merge_last_batch_def Let_def)
  consider (none) "sb_reqs b2 = []" | (first) "sb_reqs b2 \<noteq> []" "sb_reqs ?run = []" | (both) "sb_reqs b2 \<noteq> []" "sb_reqs ?run \<noteq> []" by blast
  then show ?thesis
  proof cases
    case none
    then show ?thesis using run run1 lb(3) by (auto simp: is_empty_batch_def may_admit_def batch_size_def)
  next
    case first
    then show ?thesis using run run1 by (auto simp: is_empty_batch_def may_admit_def)
  next
    case both
    obtain m where m: "sched_merge_batch ?run1 b2 = Inr m" "s1 = ?s1\<lparr>sc_running_batch := m\<rparr>"
      using run run1 both by (auto simp: is_empty_batch_def bind_r_Inr_iff)
    have "sb_reqs m = sb_reqs ?run @ sb_reqs b2"
      using m(1) by (auto simp: sched_merge_batch_def bind_r_Inr_iff split: option.splits)
    then show ?thesis using m(2) both by (simp add: may_admit_def)
  qed
qed

lemma prepare_for_extend_full:
  "prepare_for_extend alloc b c = Some (Inr (b', c')) \<Longrightarrow> sb_batch_is_full b' = sb_batch_is_full b"
  by (auto simp: prepare_for_extend_def Let_def bind_r_Inr_iff split: option.splits sum.splits prod.splits)

lemma prefill_batch_fresh:
  assumes run: "get_new_batch_prefill cfg s = Some (Inr (Some b, s'))" and "\<not> sf_is_mixed_chunk cfg"
  shows "\<not> sb_batch_is_full b"
proof -
  obtain reqs c b' c' where p: "prepare_for_extend extend_alloc_token (sched_init_new (sf_enable_latent cfg) (sf_max_topk cfg) reqs) c = Some (Inr (b', c'))"
    and b: "b = b'\<lparr>sb_decoding_reqs := None\<rparr>"
    using assms by (auto simp: get_new_batch_prefill_def mix_running_def Let_def bind_r_Inr_iff split: if_splits option.splits sum.splits prod.splits)
  show ?thesis using prepare_for_extend_full [OF p] b by (simp add: sched_init_new_def)
qed

lemma empty_decode_may_admit:
  assumes s: "merged_ok W N U s" and ne: "sb_reqs (sc_running_batch s) \<noteq> []" and cfg: "sched_ok N U cfg"
    and run: "update_running_batch cfg (sc_running_batch s) s = Some (Inr (b, s'))"
  shows "may_admit b"
proof (cases "default_keep None (sc_running_batch s) = []")
  case True
  then have "update_running_batch cfg (sc_running_batch s) s =
      Some (Inr ((sc_running_batch s)\<lparr>sb_reqs := [], sb_batch_is_full := False\<rparr>, s))"
    by (simp add: update_running_batch_def sched_filter_batch_def is_empty_batch_def)
  then show ?thesis using run by (auto simp: may_admit_def)
next
  case False
  have "\<not> sf_chunk_cache cfg" using cfg by (simp add: sched_ok_def)
  from decode_step_ok [OF running_decode_state [OF s ne] this] run
  obtain kept gone locs where "decode_outcome {#} (sc_running_batch s) s b s' kept gone locs" by auto
  then have "sb_reqs b = gather (sb_reqs (sc_running_batch s)) kept" "kept \<noteq> []"
    using False unfolding decode_outcome_def Let_def by blast+
  then show ?thesis by (auto simp: may_admit_def gather_def)
qed

section \<open>Every iteration makes progress\<close>

definition roomy :: "nat \<Rightarrow> nat multiset \<Rightarrow> sched_config \<Rightarrow> bool" where
  "roomy W U cfg \<longleftrightarrow> int W + clip_max_new_tokens < int (size U) \<and> 0 < sf_max_running_requests cfg"

lemma next_fresh:
  assumes s: "loop_ok W N U s" and fresh: "fresh s" and cfg: "sched_ok N U cfg" and room: "W < size U" and roomy: "roomy W U cfg"
    and run: "get_next_batch_to_run cfg s = Some (Inr (ob, s2))"
  shows "ob = None \<Longrightarrow> may_admit (sc_running_batch s2)"
    and "ob = Some b \<Longrightarrow> sb_forward_mode b = Some EXTEND \<Longrightarrow> \<not> sb_batch_is_full b"
    and "settled s \<Longrightarrow> sc_waiting_queue s \<noteq> [] \<Longrightarrow> ob \<noteq> None"
proof -
  obtain s1 where s1: "merge_last_batch s = Some (Inr s1)" "merged_ok W N U s1" using merge_last_batch_ok [OF s] by blast
  have adm1: "may_admit (sc_running_batch s1)" by (rule merge_may_admit [OF fresh s s1(1)])
  obtain ob1 s3 f where s3: "get_new_batch_prefill cfg s1 = Some (Inr (ob1, s3))"
    "case ob1 of None \<Rightarrow> merged_ok W N U s3 | Some b \<Rightarrow> prefill_next W N U b s3"
    "sc_running_batch s3 = (sc_running_batch s1)\<lparr>sb_batch_is_full := f\<rparr>"
    using prefill_next_ok [OF s1(2) cfg] by blast
  have mixed: "\<not> sf_is_mixed_chunk cfg" using cfg by (simp add: sched_ok_def)
  have admit: "ob1 \<noteq> None" if none: "sb_reqs (sc_running_batch s1) = []" "sc_waiting_queue s1 \<noteq> []"
  proof -
    have open': "\<not> sb_batch_is_full (sc_running_batch s1)" "0 < sf_max_running_requests cfg"
      using adm1 none(1) roomy by (simp_all add: may_admit_def roomy_def)
    obtain q r m where *: "r \<in> set (sc_waiting_queue s1)" "request_key q = request_key r"
      "int (seqlen q) + min m clip_max_new_tokens < int (size U) \<longrightarrow> ob1 \<noteq> None"
      using prefill_alone [OF s1(2) cfg none(1) open'(1) none(2) open'(2) s3(1)] by blast
    have "seqlen q \<le> W"
      using * s1(2) req_fits_length request_key_seqlen [of q r] by (auto simp: merged_ok_def queue_ok_def waits_def)
    moreover have "min m clip_max_new_tokens \<le> clip_max_new_tokens" by simp
    ultimately have "int (seqlen q) + min m clip_max_new_tokens < int (size U)" using roomy unfolding roomy_def by linarith
    then show ?thesis using *(3) by blast
  qed
  have adm3: "may_admit (sc_running_batch s3)" if "ob1 = None"
  proof -
    have "s3 = s1" if "sb_reqs (sc_running_batch s1) = []"
    proof -
      have "sc_waiting_queue s1 = []" using admit that \<open>ob1 = None\<close> by blast
      moreover have "sc_chunked_req s1 = None" using s1(2) by (simp add: merged_ok_def queue_ok_def)
      ultimately show ?thesis using s3(1) by (simp add: get_new_batch_prefill_def Let_def)
    qed
    moreover have "sb_reqs (sc_running_batch s3) = sb_reqs (sc_running_batch s1)" using s3(3) by simp
    ultimately show ?thesis using adm1 unfolding may_admit_def by metis
  qed
  have full: "get_next_batch_to_run cfg s = (case ob1 of Some b \<Rightarrow> Some (Inr (Some b, s3))
     | None \<Rightarrow> if is_empty_batch (sc_running_batch s3) then Some (Inr (None, s3))
              else map_option (\<lambda>r. bind_r r (\<lambda>(b, s2).
                     Inr (if is_empty_batch b then None else Some b, s2\<lparr>sc_running_batch := b\<rparr>)))
                   (update_running_batch cfg (sc_running_batch s3) s3))"
    using s1(1) s3(1) by (cases ob1) (simp_all add: get_next_batch_to_run_def)
  show "may_admit (sc_running_batch s2)" if "ob = None"
  proof (cases "ob1 = None \<and> sb_reqs (sc_running_batch s3) \<noteq> []")
    case False
    then show ?thesis using run full that adm3 by (auto simp: is_empty_batch_def split: option.splits)
  next
    case True
    then have m3: "merged_ok W N U s3" using s3(2) by simp
    obtain b s4 where b: "update_running_batch cfg (sc_running_batch s3) s3 = Some (Inr (b, s4))"
      using decode_next_ok [OF m3 _ cfg room] True by blast
    then have "s2 = s4\<lparr>sc_running_batch := b\<rparr>" using run full True by (auto simp: is_empty_batch_def)
    then show ?thesis using empty_decode_may_admit [OF m3 _ cfg b] True by simp
  qed
  show "\<not> sb_batch_is_full b" if ob: "ob = Some b" "sb_forward_mode b = Some EXTEND"
  proof (cases ob1)
    case (Some b1)
    then have "b1 = b" using run full ob by simp
    then show ?thesis using prefill_batch_fresh [OF _ mixed] s3(1) Some by blast
  next
    case None
    then have m3: "merged_ok W N U s3" using s3(2) by simp
    have ne: "sb_reqs (sc_running_batch s3) \<noteq> []" using run full None ob by (auto simp: is_empty_batch_def)
    obtain b4 s4 where b4: "update_running_batch cfg (sc_running_batch s3) s3 = Some (Inr (b4, s4))"
      "if sb_reqs b4 = [] then idle_next W N U (s4\<lparr>sc_running_batch := b4\<rparr>) else decode_next W N U b4 s4"
      using decode_next_ok [OF m3 ne cfg room] by blast
    have "\<not> is_empty_batch b4" "b = b4" using run full None ne b4(1) ob(1) by (auto simp: is_empty_batch_def split: if_splits)
    then have "sb_forward_mode b = Some DECODE" using b4(2) by (simp add: is_empty_batch_def decode_next_def)
    then show ?thesis using ob(2) by simp
  qed
  show "ob \<noteq> None" if "settled s" "sc_waiting_queue s \<noteq> []"
  proof -
    have "s1 = s" using s1(1) that(1) by (auto simp: merge_last_batch_def last_prefill_def settled_def split: option.splits if_splits)
    then have "ob1 \<noteq> None" using admit that by (simp add: settled_def)
    then show ?thesis using run full by auto
  qed
qed

lemma dispatch_fresh:
  assumes "fresh s" and "dispatch_request icfg m s = Inr s'" and "msg_ok icfg m"
  shows "fresh s'"
proof (cases m)
  case (Abort rid)
  have nil: "(update_first f g qs = []) = (qs = [])" for f g and qs :: "latent_req list" by (cases qs) simp_all
  show ?thesis
    using assms(1,2) nil
    by (auto simp: Abort abort_request_def fresh_def settled_def last_prefill_def split: if_splits)
next
  case (Generate g)
  then show ?thesis using assms(1,2)
    by (auto simp: handle_generate_request_def bind_r_Inr_iff add_request_to_queue_def fresh_def settled_def last_prefill_def)
qed (use assms in auto)

lemma process_input_requests_fresh:
  "fresh s \<Longrightarrow> process_input_requests icfg msgs s = Inr s' \<Longrightarrow> \<forall>m\<in>set msgs. msg_ok icfg m \<Longrightarrow> fresh s'"
proof (induction msgs arbitrary: s)
  case (Cons m ms)
  show ?case
  proof (cases "is_health_check_generate_req m \<and> (sc_chunked_req s \<noteq> None \<or> \<not> is_empty_batch (sc_running_batch s))")
    case True
    then show ?thesis using Cons.IH [OF Cons.prems(1)] Cons.prems(2,3) by simp
  next
    case False
    obtain s1 where s1: "dispatch_request icfg m s = Inr s1" "process_input_requests icfg ms s1 = Inr s'"
      using Cons.prems(2) unfolding process_input_requests.simps if_not_P [OF False] bind_r_Inr_iff by blast
    have "fresh s1" using dispatch_fresh [OF Cons.prems(1) s1(1)] Cons.prems(3) by simp
    then show ?thesis using Cons.IH s1(2) Cons.prems(3) by simp
  qed
qed simp

lemma serve_fresh:
  assumes s: "loop_ok W N U s" and fresh: "fresh s" and cfg: "config_ok W N U lc" and roomy: "roomy W U (lc_sched lc)"
  shows "\<exists>rows s' bs bs'.
     (case get_next_batch_to_run (lc_sched lc) s of None \<Rightarrow> None | Some (Inl e) \<Rightarrow> Some (Inl e)
        | Some (Inr (None, s2)) \<Rightarrow> Some (idle_step lc s2) | Some (Inr (Some b, s2)) \<Rightarrow> run_and_process lc b s2) = Some (Inr (rows, s')) \<and>
     loop_ok W N U s' \<and> fresh s' \<and> served W s s' bs bs' \<and> (settled s \<and> sc_waiting_queue s \<noteq> [] \<longrightarrow> bs \<noteq> [])"
proof -
  obtain ob s2 rows s' bs bs' where r: "get_next_batch_to_run (lc_sched lc) s = Some (Inr (ob, s2))"
     "(case ob of None \<Rightarrow> Some (idle_step lc s2) | Some b \<Rightarrow> run_and_process lc b s2) = Some (Inr (rows, s'))"
     "loop_ok W N U s'" "served W s s' bs bs'" "ob = None \<longleftrightarrow> bs = []" "follows ob s2 s'"
    using serve_ok [OF s cfg] by (elim exE conjE)
  have c: "sched_ok N U (lc_sched lc)" "W < size U" using cfg by (simp_all add: config_ok_def)
  note next_f = next_fresh [OF s fresh c roomy r(1)]
  have "fresh s'"
  proof (cases ob)
    case None
    then show ?thesis using r(6) next_f(1) by (simp add: follows_def fresh_def settled_def may_admit_def)
  next
    case (Some b)
    then show ?thesis using r(6) next_f(2) by (simp add: follows_def fresh_def)
  qed
  moreover have "settled s \<and> sc_waiting_queue s \<noteq> [] \<longrightarrow> bs \<noteq> []" using next_f(3) r(5) by blast
  moreover have "(case get_next_batch_to_run (lc_sched lc) s of None \<Rightarrow> None | Some (Inl e) \<Rightarrow> Some (Inl e)
        | Some (Inr (None, s2)) \<Rightarrow> Some (idle_step lc s2) | Some (Inr (Some b, s2)) \<Rightarrow> run_and_process lc b s2) = Some (Inr (rows, s'))"
    unfolding r(1) option.case(2) sum.case(2) prod.case using r(2) by (cases ob) (simp_all only: option.case)
  ultimately show ?thesis using r(3,4) by blast
qed

section \<open>The rank of a state\<close>

definition loop_rank :: "scheduler \<Rightarrow> nat" where
  "loop_rank s = 2 * work (pending s) + (if settled s then 0 else 1)"

definition drained :: "scheduler \<Rightarrow> bool" where
  "drained s \<longleftrightarrow> pending s = [] \<and> settled s"

lemma event_loop_step_rank:
  assumes s: "loop_ok W N U s" and fresh: "fresh s" and cfg: "config_ok W N U lc" and roomy: "roomy W U (lc_sched lc)"
  shows "\<exists>rows s'. event_loop_step lc [] s = Some (Inr (rows, s')) \<and> loop_ok W N U s' \<and> fresh s' \<and>
     (if drained s then drained s' else loop_rank s' < loop_rank s)"
proof -
  obtain rows s' bs bs' where r: "(case get_next_batch_to_run (lc_sched lc) s of None \<Rightarrow> None | Some (Inl e) \<Rightarrow> Some (Inl e)
        | Some (Inr (None, s2)) \<Rightarrow> Some (idle_step lc s2) | Some (Inr (Some b, s2)) \<Rightarrow> run_and_process lc b s2) = Some (Inr (rows, s'))"
     "loop_ok W N U s'" "fresh s'" "served W s s' bs bs'" "settled s \<and> sc_waiting_queue s \<noteq> [] \<longrightarrow> bs \<noteq> []"
    using serve_fresh [OF assms] by (elim exE conjE)
  have step: "event_loop_step lc [] s = Some (Inr (rows, s'))" using r(1) by (simp add: event_loop_step_def)
  have work: "work (pending s') + length bs \<le> work (pending s)" using served_work [OF r(4)] .
  have idle: "bs = [] \<Longrightarrow> settled s'" using r(4) by (simp add: served_def settled_def)
  have pending: "settled s \<Longrightarrow> pending s = sc_waiting_queue s" by (simp add: settled_def pending_def last_reqs_def)
  have "drained s'" if d: "drained s"
  proof -
    obtain rest where rest: "keys_of (pending s) = keys_of (bs @ rest)" "keys_of (pending s') = keys_of (live bs' @ rest)"
      using r(4) unfolding served_def by blast
    have "bs = []" "rest = []" using rest(1) d by (simp_all add: drained_def)
    moreover have "bs' = []" using r(4) \<open>bs = []\<close> by (simp add: served_def)
    ultimately show ?thesis using rest(2) idle by (simp add: drained_def)
  qed
  moreover have "loop_rank s' < loop_rank s" if "\<not> drained s"
  proof (cases "bs = []")
    case True
    then have "\<not> settled s" using that r(5) pending unfolding drained_def by metis
    then show ?thesis using work idle [OF True] by (simp add: loop_rank_def)
  next
    case False
    then have "0 < length bs" by simp
    then have "work (pending s') + 1 \<le> work (pending s)" using work by linarith
    then show ?thesis by (simp add: loop_rank_def)
  qed
  ultimately show ?thesis using step r(2,3) by auto
qed

section \<open>Running the loop\<close>

text \<open>Some iterations of the loop while no message arrives.\<close>

fun run_loop :: "loop_config \<Rightarrow> nat \<Rightarrow> scheduler \<Rightarrow> scheduler result option" where
  "run_loop lc 0 s = Some (Inr s)"
| "run_loop lc (Suc n) s =
     (case event_loop_step lc [] s of
        None \<Rightarrow> None
      | Some (Inl e) \<Rightarrow> Some (Inl e)
      | Some (Inr (rows, s')) \<Rightarrow> run_loop lc n s')"

lemma run_loop_drains:
  assumes "loop_ok W N U s" and "fresh s" and cfg: "config_ok W N U lc" and roomy: "roomy W U (lc_sched lc)"
    and "drained s \<or> loop_rank s \<le> n"
  shows "\<exists>s'. run_loop lc n s = Some (Inr s') \<and> loop_ok W N U s' \<and> drained s'"
  using assms(1,2,5)
proof (induction n arbitrary: s)
  case 0
  then have "drained s"
    using event_loop_step_rank [OF 0(1,2) cfg roomy] by (auto split: if_splits)
  then show ?case using 0 by simp
next
  case (Suc n)
  obtain rows s' where s': "event_loop_step lc [] s = Some (Inr (rows, s'))" "loop_ok W N U s'" "fresh s'"
    "if drained s then drained s' else loop_rank s' < loop_rank s"
    using event_loop_step_rank [OF Suc.prems(1,2) cfg roomy] by blast
  have "drained s' \<or> loop_rank s' \<le> n" using s'(4) Suc.prems(3) by (auto split: if_splits)
  from Suc.IH [OF s'(2,3) this] show ?case using s'(1) by simp
qed

lemma sched_init_fresh: "fresh (sched_init cfg ratio clock N C)"
  by (simp add: fresh_def last_prefill_def sched_init_def sched_init_new_def)

lemma loop_reach_fresh:
  assumes "loop_reach lc s0 s" and "loop_ok W N U s0" and "fresh s0" and "config_ok W N U lc" and "roomy W U (lc_sched lc)"
  shows "fresh s"
  using assms(1)
proof induction
  case start
  show ?case by (rule assms(3))
next
  case (step s msgs rows s')
  have s: "loop_ok W N U s" using loop_reach_ok [OF step.hyps(1) assms(2,4)] .
  have "intake_ok W (lc_intake lc)" using assms(4) by (simp add: config_ok_def)
  then obtain s1 where s1: "process_input_requests (lc_intake lc) msgs s = Inr s1" "loop_ok W N U s1"
    using process_input_requests_ok [OF _ s step.hyps(2)] by blast
  have "fresh s1" by (rule process_input_requests_fresh [OF step.IH s1(1) step.hyps(2)])
  from serve_fresh [OF s1(2) this assms(4,5)] step.hyps(3) s1(1) show ?case
    by (auto simp: event_loop_step_def)
qed


section \<open>A request that is too long by its estimate\<close>

definition too_long :: "nat \<Rightarrow> latent_req \<Rightarrow> bool" where
  "too_long K q \<longleftrightarrow> (case sp_max_new_tokens (lq_params q) of None \<Rightarrow> False
     | Some m \<Rightarrow> int K < int (seqlen q) + min m clip_max_new_tokens)"

lemma too_long_key: "request_key q = request_key r \<Longrightarrow> too_long K q = too_long K r"
  using request_key_seqlen [of q r] by (simp add: too_long_def request_key_def split: option.split)

lemma too_long_keys:
  assumes keys: "keys_of xs = keys_of ys" and long: "\<forall>q\<in>set xs. too_long K q"
  shows "\<forall>q\<in>set ys. too_long K q"
proof
  fix q assume "q \<in> set ys"
  then obtain r where "r \<in> set xs" "request_key q = request_key r" using keys_member [OF keys [symmetric]] by blast
  then show "too_long K q" using long too_long_key by blast
qed

lemma too_long_refused:
  assumes s: "merged_ok W N U s" and cfg: "sched_ok N U cfg" and none: "sb_reqs (sc_running_batch s) = []"
    and long: "\<forall>q\<in>set (sc_waiting_queue s). too_long (size U) q"
    and run: "get_new_batch_prefill cfg s = Some (Inr (ob, s'))"
  shows "ob = None"
proof (rule ccontr)
  assume some: "ob \<noteq> None"
  have "sc_chunked_req s = None" using s by (simp add: merged_ok_def queue_ok_def)
  then have go: "\<not> sb_batch_is_full (sc_running_batch s)" "sc_waiting_queue s \<noteq> []" "0 < sf_max_running_requests cfg"
    using run some none by (auto simp: get_new_batch_prefill_def Let_def batch_size_def split: if_splits)
  obtain q r m where *: "r \<in> set (sc_waiting_queue s)" "request_key q = request_key r" "sp_max_new_tokens (lq_params q) = Some m"
     "int (size U) < int (seqlen q) + min m clip_max_new_tokens \<longrightarrow> ob = None"
    using prefill_alone [OF s cfg none go run] by blast
  have "too_long (size U) q" using long * too_long_key by blast
  then show False using *(3,4) some by (simp add: too_long_def)
qed

lemma too_long_step:
  assumes s: "loop_ok W N U s" and cfg: "config_ok W N U lc" and settled: "settled s"
    and long: "\<forall>q\<in>set (pending s). too_long (size U) q"
  shows "\<exists>rows s'. event_loop_step lc [] s = Some (Inr (rows, s')) \<and> loop_ok W N U s' \<and> settled s' \<and>
     keys_of (pending s') = keys_of (pending s)"
proof -
  obtain ob s2 rows s' bs bs' where r: "get_next_batch_to_run (lc_sched lc) s = Some (Inr (ob, s2))"
     "(case ob of None \<Rightarrow> Some (idle_step lc s2) | Some b \<Rightarrow> run_and_process lc b s2) = Some (Inr (rows, s'))"
     "loop_ok W N U s'" "served W s s' bs bs'" "ob = None \<longleftrightarrow> bs = []"
    using serve_ok [OF s cfg] by (elim exE conjE)
  have c: "sched_ok N U (lc_sched lc)" using cfg by (simp add: config_ok_def)
  have nil: "sb_reqs (sc_running_batch s) = []" "last_prefill s = None" and queue: "pending s = sc_waiting_queue s"
    using settled by (simp_all add: settled_def pending_def last_reqs_def)
  have merge: "merge_last_batch s = Some (Inr s)"
    using nil(2) by (auto simp: merge_last_batch_def last_prefill_def split: option.splits if_splits)
  have m: "merged_ok W N U s" using s nil(2) by (simp add: loop_ok_def merged_ok_def last_reqs_def)
  obtain ob1 s3 f where s3: "get_new_batch_prefill (lc_sched lc) s = Some (Inr (ob1, s3))"
    "sc_running_batch s3 = (sc_running_batch s)\<lparr>sb_batch_is_full := f\<rparr>"
    using prefill_next_ok [OF m c] by blast
  have "ob1 = None" using too_long_refused [OF m c nil(1) _ s3(1)] long queue by simp
  then have "ob = None" using r(1) merge s3 nil(1) by (simp add: get_next_batch_to_run_def is_empty_batch_def)
  then have "bs = []" using r(5) by simp
  then have "keys_of (pending s') = keys_of (pending s)" "settled s'" using r(4) by (auto simp: served_def settled_def)
  moreover have "event_loop_step lc [] s = Some (Inr (rows, s'))"
    using r(1,2) \<open>ob = None\<close> by (simp add: event_loop_step_def)
  ultimately show ?thesis using r(3) by blast
qed

section \<open>Properties\<close>

text \<open>
  C2. With enough memory every request finishes.  Let the token pool exceed the longest admissible request,
  \<open>W\<close>, by the 4096 new tokens that admission assumes at most, and let at least one request be allowed to run.
  Then the loop empties itself once no more messages arrive: from any state that it can reach, nothing waits or runs
  and all memory is free or evictable again after any number of iterations that is at least one plus twice the sum,
  over the unfinished requests, of \<open>max_new_tokens - len(output_ids) + 1\<close>: two iterations per token that a
  request may still get, two per request, and one more.  Without the extra memory this is false (C15).
\<close>

theorem event_loop_drains:
  assumes "loop_reach lc (sched_init (lc_sched lc) (lc_init_new_token_ratio lc) clock N C) s"
    and "config_ok W N (mset [1..<sf_max_total_num_tokens (lc_sched lc) + 1]) lc" and "W \<le> C"
    and "int W + clip_max_new_tokens < int (sf_max_total_num_tokens (lc_sched lc))" and "0 < sf_max_running_requests (lc_sched lc)"
    and "2 * work (pending s) + 1 \<le> n"
  shows "\<exists>s'. run_loop lc n s = Some (Inr s') \<and> pending s' = [] \<and>
     int (token_available_size (cs_alloc (sc_cache s'))) + evictable_size (cs_tree (sc_cache s')) =
       int (sf_max_total_num_tokens (lc_sched lc)) \<and>
     length (rp_free_slots (cs_pool (sc_cache s'))) = rp_size (cs_pool (sc_cache s'))"
proof -
  let ?U = "mset [1..<sf_max_total_num_tokens (lc_sched lc) + 1]"
  let ?s0 = "sched_init (lc_sched lc) (lc_init_new_token_ratio lc) clock N C"
  have roomy: "roomy W ?U (lc_sched lc)" using assms(4,5) by (simp add: roomy_def)
  have s0: "loop_ok W N ?U ?s0" using loop_reach_init [OF loop_reach.start assms(2,3)] .
  have s: "loop_ok W N ?U s" "fresh s"
    using loop_reach_ok [OF assms(1) s0 assms(2)] loop_reach_fresh [OF assms(1) s0 sched_init_fresh assms(2) roomy] .
  have "loop_rank s \<le> n" using assms(6) by (simp add: loop_rank_def)
  then obtain s' where s': "run_loop lc n s = Some (Inr s')" "loop_ok W N ?U s'" "drained s'"
    using run_loop_drains [OF s assms(2) roomy, of n] by blast
  have "held_ok W N ?U (sc_cache s') []" "ta_not_in_group (cs_alloc (sc_cache s'))"
    using s'(2,3) by (auto simp: loop_ok_def drained_def settled_def last_reqs_def)
  from held_nothing [OF this] show ?thesis using s'(1,3) by (simp add: drained_def)
qed

definition demo_roomy :: loop_config where
  "demo_roomy = demo_loop\<lparr>lc_sched := (lc_sched demo_loop)\<lparr>sf_max_total_num_tokens := 5000\<rparr>\<rparr>"

lemma demo_roomy_ok: "config_ok 9 2 (mset [1..<sf_max_total_num_tokens (lc_sched demo_roomy) + 1]) demo_roomy"
  by (simp add: config_ok_def intake_ok_def sched_ok_def worker_ok_def demo_roomy_def demo_loop_def demo_config_def
      del: upt_Suc upt_rec_numeral)

theorem event_loop_drains_witness:
  "\<exists>rows s n s'. event_loop_step demo_roomy demo_msgs
       (sched_init (lc_sched demo_roomy) (lc_init_new_token_ratio demo_roomy) (\<lambda>n. n) 2 20) = Some (Inr (rows, s)) \<and>
     run_loop demo_roomy n s = Some (Inr s') \<and> pending s' = []"
proof -
  let ?s0 = "sched_init (lc_sched demo_roomy) (lc_init_new_token_ratio demo_roomy) (\<lambda>n. n) 2 20"
  have C: "(9 :: nat) \<le> 20" by simp
  have msgs: "\<forall>m\<in>set demo_msgs. msg_ok (lc_intake demo_roomy) m"
    using demo_msgs_ok by (simp add: demo_msgs_def demo_roomy_def)
  obtain rows s where s: "event_loop_step demo_roomy demo_msgs ?s0 = Some (Inr (rows, s))"
    using event_loop_step_ok [OF loop_reach_init [OF loop_reach.start demo_roomy_ok C] demo_roomy_ok msgs] by blast
  have total: "sf_max_total_num_tokens (lc_sched demo_roomy) = 5000" "0 < sf_max_running_requests (lc_sched demo_roomy)"
    by (simp_all add: demo_roomy_def demo_loop_def demo_config_def)
  have room: "int 9 + clip_max_new_tokens < int (sf_max_total_num_tokens (lc_sched demo_roomy))"
    unfolding total(1) by (simp add: clip_max_new_tokens_def)
  from event_loop_drains [OF loop_reach.step [OF loop_reach.start msgs s] demo_roomy_ok C room total(2) order_refl]
  show ?thesis using s by blast
qed

text \<open>
  C15. With less memory a retracted request can wait for ever.  Admission asks for the tokens that a
  request has, its output included, plus all the new tokens it may get, although the output counts towards them.  If
  nothing runs and every waiting request exceeds the pool by this sum, no
  iteration admits any of them, however often the loop runs, although each of them would fit: their lengths are at most
  \<open>W\<close>, which is less than the pool.
\<close>

theorem too_long_requests_wait_forever:
  assumes "loop_ok W N U s" and "config_ok W N U lc" and "settled s" and "\<forall>q\<in>set (pending s). too_long (size U) q"
  shows "\<exists>s'. run_loop lc n s = Some (Inr s') \<and> keys_of (pending s') = keys_of (pending s)"
  using assms(1,3,4)
proof (induction n arbitrary: s)
  case (Suc n)
  obtain rows s' where s': "event_loop_step lc [] s = Some (Inr (rows, s'))" "loop_ok W N U s'" "settled s'"
     "keys_of (pending s') = keys_of (pending s)"
    using too_long_step [OF Suc.prems(1) assms(2) Suc.prems(2,3)] by blast
  from Suc.IH [OF s'(2,3) too_long_keys [OF s'(4) [symmetric] Suc.prems(3)]] show ?case using s'(1,4) by simp
qed simp

text \<open>A request of the demo with one prompt token, four output tokens of at most six, in a pool of ten.\<close>

definition demo_retracted :: latent_req where
  "demo_retracted = (new_req ''b'' [2] (waiting_params\<lparr>sp_max_new_tokens := Some 6\<rparr>) None None False 0 None False None)
     \<lparr>cr_output_ids := [3, 3, 3, 3]\<rparr>"

theorem too_long_requests_wait_forever_witness:
  "\<forall>n. \<exists>s'. run_loop demo_loop n (add_request_to_queue demo_retracted demo_start) = Some (Inr s') \<and>
     keys_of (pending s') = {#request_key demo_retracted#}"
proof
  fix n
  let ?U = "mset [1..<sf_max_total_num_tokens (lc_sched demo_loop) + 1]" and ?s = "add_request_to_queue demo_retracted demo_start"
  have start: "loop_ok 9 2 ?U demo_start" "sc_waiting_queue demo_start = []" "settled demo_start"
    using loop_reach_init [OF _ demo_loop_ok, of "\<lambda>n. n" 20 demo_start] demo_loop_start
    by (simp_all add: demo_start_def sched_init_def sched_init_new_def settled_def last_prefill_def)
  have "waits 9 demo_retracted"
    by (auto simp: waits_def req_fits_def demo_retracted_def new_req_def waiting_params_def intro: exI [of _ 6])
  then have ok: "loop_ok 9 2 ?U ?s"
    using start(1) by (simp add: loop_ok_def queue_ok_def last_prefill_def last_reqs_def add_request_to_queue_def)
  have pending: "pending ?s = [demo_retracted]" and settled: "settled ?s"
    using start(2,3) by (simp_all add: pending_def settled_def last_prefill_def last_reqs_def add_request_to_queue_def)
  have "too_long 10 demo_retracted" by code_simp
  moreover have "size ?U = 10" by (simp add: demo_loop_def)
  ultimately have long: "\<forall>q\<in>set (pending ?s). too_long (size ?U) q" by (simp add: pending)
  from too_long_requests_wait_forever [OF ok demo_loop_ok settled long, of n]
  show "\<exists>s'. run_loop demo_loop n ?s = Some (Inr s') \<and> keys_of (pending s') = {#request_key demo_retracted#}"
    by (simp add: pending)
qed

end
