(* ===== verification/Collectors.thy ===== *)
theory Collectors
  imports P1Merge
begin

text \<open>
  The tensor reductions of \<open>metrics/torch_collectors.py\<close>: the statistics of a tensor under a mask, and the eight
  statistics that the driver computes from a training batch.  A tensor is its shape with the entries in
  row-major order.  Gumbel values, temperatures and rewards are finite; entropies and advantages may be
  any float.
\<close>

section \<open>Tensors\<close>

record 'a tensor =
  tn_shape :: "nat list"
  tn_data :: "'a list"

definition tensor_ok :: "'a tensor \<Rightarrow> bool" where
  "tensor_ok t \<longleftrightarrow> length (tn_data t) = prod_list (tn_shape t)"

definition tensor :: "nat list \<Rightarrow> 'a list \<Rightarrow> 'a tensor" where
  "tensor shape xs = \<lparr>tn_shape = shape, tn_data = xs\<rparr>"

text \<open>\<open>pieces n c xs\<close> are the \<open>n\<close> rows of length \<open>c\<close> of a row-major block.\<close>

definition pieces :: "nat \<Rightarrow> nat \<Rightarrow> 'a list \<Rightarrow> 'a list list" where
  "pieces n c xs = map (\<lambda>i. take c (drop (i * c) xs)) [0..<n]"

text \<open>\<open>torch.broadcast_to\<close>: missing leading dimensions count as 1, and a dimension of 1 is repeated.\<close>

fun broadcast :: "nat list \<Rightarrow> nat list \<Rightarrow> 'a list \<Rightarrow> 'a list option" where
  "broadcast [] [] xs = Some xs"
| "broadcast (t # ts) (s # ss) xs =
     (if s = t then map_option concat (those (map (broadcast ts ss) (pieces t (prod_list ss) xs)))
      else if s = 1 then map_option (\<lambda>ys. concat (replicate t ys)) (broadcast ts ss xs)
      else None)"
| "broadcast _ _ xs = None"

definition broadcast_to :: "'a tensor \<Rightarrow> nat list \<Rightarrow> 'a list result" where
  "broadcast_to t shape =
     (case broadcast shape (replicate (length shape - length (tn_shape t)) 1 @ tn_shape t) (tn_data t) of
        None \<Rightarrow> Inl (RuntimeError ''The expanded size of the tensor must match the existing size'')
      | Some xs \<Rightarrow> Inr xs)"

definition mask_data :: "nat list \<Rightarrow> nat \<Rightarrow> bool \<Rightarrow> bool tensor option \<Rightarrow> bool list result" where
  "mask_data shape n dflt m =
     (case m of None \<Rightarrow> Inr (replicate n dflt)
      | Some t \<Rightarrow> if tn_shape t \<noteq> shape then broadcast_to t shape else Inr (tn_data t))"

section \<open>Statistics of a tensor\<close>

definition sufficient_stats_from_tensor ::
  "fl tensor \<Rightarrow> bool tensor option \<Rightarrow> bool tensor option \<Rightarrow> string \<Rightarrow> pydict result" where
  "sufficient_stats_from_tensor v msk numerator_mask definition_version =
     (if definition_version = [] then Inl (ValueError ''definition_version must be non-empty'')
      else bind_r (mask_data (tn_shape v) (length (tn_data v)) True msk) (\<lambda>ms.
           bind_r (mask_data (tn_shape v) (length (tn_data v)) False numerator_mask) (\<lambda>ns.
             let cells = zip (tn_data v) (zip ms ns);
                 effective = filter (\<lambda>(x, m, n). m \<and> isfinite x) cells;
                 selected = map (\<lambda>(x, m, n). fin_val x) effective;
                 extremum = (\<lambda>f. if selected = [] then VNone else VFloat (Fin (f (set selected))))
             in Inr [(''sum'', VFloat (Fin (sum_list selected))),
                     (''sum_sq'', VFloat (Fin (sum_list (map (\<lambda>x. x * x) selected)))),
                     (''count'', vint (length effective)),
                     (''nan_count'', vint (length (filter (\<lambda>(x, m, n). m \<and> \<not> isfinite x) cells))),
                     (''masked_count'', vint (length (filter (\<lambda>(x, m, n). \<not> m) cells))),
                     (''min'', extremum Min), (''max'', extremum Max),
                     (''numerator_count'', vint (length (filter (\<lambda>(x, m, n). n) effective))),
                     (''definition_version'', VStr definition_version)])))"

section \<open>Lengths of generated trajectories\<close>

text \<open>\<open>xs[-w:]\<close>; for \<open>w = 0\<close> this is the whole list.\<close>

definition last_columns :: "nat \<Rightarrow> 'a list \<Rightarrow> 'a list" where
  "last_columns w xs = (if w = 0 then xs else drop (length xs - w) xs)"

definition collect_generated_trajectory_lengths :: "nat list \<Rightarrow> bool tensor \<Rightarrow> nat list result" where
  "collect_generated_trajectory_lengths response_shape attention_mask =
     (if response_shape = [] then Inl IndexError
      else let response_width = last response_shape
      in case tn_shape attention_mask of
           [b, l] \<Rightarrow>
             if response_width < 1
             then Inl (ValueError ''generation output must contain rank-2 attention_mask and responses'')
             else if l < response_width then Inl (ValueError ''attention_mask is shorter than the response domain'')
             else Inr (map (\<lambda>row. length (filter id (last_columns response_width row))) (pieces b l (tn_data attention_mask)))
         | _ \<Rightarrow> Inl (ValueError ''generation output must contain rank-2 attention_mask and responses''))"

section \<open>The driver's statistics\<close>

record driver_batch =
  db_response_mask :: "bool tensor"
  db_topk_ids :: "int tensor"
  db_topk_gumbels :: "real tensor"
  db_gumbel_temperature :: "real list"
  db_entropies :: "fl tensor"
  db_token_level_rewards :: "real tensor"
  db_advantages :: "fl tensor"

text \<open>All slots but the first hold the sentinel: a hard token.\<close>

definition hard_position :: "int list \<Rightarrow> bool" where
  "hard_position ids = list_all (\<lambda>i. i = - 100) (tl ids)"

text \<open>
  The mixture weights of a position: the softmax of its Gumbel values over the temperature, with
  minus infinity (None) in all slots but the first of a hard position.
\<close>

definition mixture_logits :: "bool \<Rightarrow> real list \<Rightarrow> real option list" where
  "mixture_logits hard gs = map Some (take 1 gs) @ map (\<lambda>g. if hard then None else Some g) (drop 1 gs)"

definition exp_logit :: "real \<Rightarrow> real option \<Rightarrow> real" where
  "exp_logit temp l = (case l of None \<Rightarrow> 0 | Some g \<Rightarrow> exp (g / temp))"

definition mixture_weights :: "real \<Rightarrow> bool \<Rightarrow> real list \<Rightarrow> real list" where
  "mixture_weights temp hard gs =
     (let es = map (exp_logit temp) (mixture_logits hard gs) in map (\<lambda>e. e / sum_list es) es)"

definition effective_k :: "real list \<Rightarrow> real" where
  "effective_k ws = exp (- sum_list (map (\<lambda>w. w * (if 0 < w then ln w else 0)) ws))"

definition top1_weight :: "real list \<Rightarrow> real" where
  "top1_weight ws = Max (set ws)"

text \<open>The rows of the batch that the statistics are about.\<close>

record driver_rows =
  dr_mask :: "bool list list"
  dr_latent :: "bool list list"
  dr_weights :: "real list list list"
  dr_advantages :: "fl list list"
  dr_rewards :: "real list"

definition driver_rows_of :: "bool \<Rightarrow> nat \<Rightarrow> nat \<Rightarrow> nat \<Rightarrow> nat \<Rightarrow> real list \<Rightarrow> driver_batch \<Rightarrow> driver_rows" where
  "driver_rows_of exclude_overlong b w s k temps d =
     (let mrows = pieces b w (tn_data (db_response_mask d));
          irows = map (\<lambda>r. last_columns w (pieces s k r)) (pieces b (s * k) (tn_data (db_topk_ids d)));
          grows = map (\<lambda>r. last_columns w (pieces s k r)) (pieces b (s * k) (tn_data (db_topk_gumbels d)));
          hard = map (map hard_position) irows
      in \<lparr>dr_mask = mrows,
          dr_latent = map (\<lambda>(ms, hs). map (\<lambda>(m, h). m \<and> \<not> h) (zip ms hs)) (zip mrows hard),
          dr_weights = map (\<lambda>(t, hs, gs). map (\<lambda>(h, g). mixture_weights t h g) (zip hs gs)) (zip temps (zip hard grows)),
          dr_advantages = map (\<lambda>(ms, as). if \<not> exclude_overlong \<and> length (filter id ms) = w then map (\<lambda>_. Fin 0) as else as)
                            (zip mrows (pieces b w (tn_data (db_advantages d)))),
          dr_rewards = map (\<lambda>(ms, rs). \<Sum>(m, r)\<leftarrow>zip ms rs. r * (if m then 1 else 0))
                            (zip mrows (pieces b w (tn_data (db_token_level_rewards d))))\<rparr>)"

text \<open>One temperature serves all trajectories.\<close>

definition batch_temps :: "driver_batch \<Rightarrow> real list" where
  "batch_temps d = (if length (db_gumbel_temperature d) = 1
     then replicate (tn_shape (db_response_mask d) ! 0) (hd (db_gumbel_temperature d)) else db_gumbel_temperature d)"

text \<open>The dimensions are those of the two tensors of the batch.\<close>

definition driver_batch_rows :: "bool \<Rightarrow> driver_batch \<Rightarrow> driver_rows" where
  "driver_batch_rows exclude_overlong d =
     (let b = tn_shape (db_response_mask d) ! 0; w = tn_shape (db_response_mask d) ! 1;
          s = tn_shape (db_topk_ids d) ! 1; k = tn_shape (db_topk_ids d) ! 2
      in driver_rows_of exclude_overlong b w s k (batch_temps d) d)"

definition count_values :: "bool list list \<Rightarrow> fl list" where
  "count_values rows = map (\<lambda>ms. Fin (real (length (filter id ms)))) rows"

definition grid :: "nat list \<Rightarrow> 'a list list \<Rightarrow> 'a tensor" where
  "grid shape rows = tensor shape (concat rows)"

text \<open>The eight statistics: name, values, mask, numerators and definition version.\<close>

definition driver_tensors ::
  "driver_batch \<Rightarrow> driver_rows \<Rightarrow> (string \<times> fl tensor \<times> bool tensor option \<times> bool tensor option \<times> string) list" where
  "driver_tensors d r =
     (let shape = tn_shape (db_response_mask d); mask = Some (grid shape (dr_mask r)); latent = Some (grid shape (dr_latent r));
          advantages = grid shape (dr_advantages r); vec = tensor [hd shape]
      in [(''train/entropy'', db_entropies d, mask, None, ''old_policy_entropy_response_mask_v1''),
          (''train/response_length'', vec (count_values (dr_mask r)), None, None, ''runtime_response_mask_length_v1''),
          (''train/latent_length'', vec (count_values (dr_latent r)), None, None, ''rollout_topk_sentinel_latent_length_v1''),
          (''mixture/effective_k_noisy'', grid shape (map (map (Fin \<circ> effective_k)) (dr_weights r)), latent, None,
             ''rollout_gumbel_softmax_actual_embedding_v1''),
          (''mixture/top1_weight_noisy'', grid shape (map (map (Fin \<circ> top1_weight)) (dr_weights r)), latent, None,
             ''rollout_gumbel_softmax_actual_embedding_v1''),
          (''mask/zero_advantage_rate'', advantages, latent,
             Some (grid shape (map (map (\<lambda>a. fl_eq a (Fin 0))) (dr_advantages r))), ''post_advantage_pre_update_latent_mask_v1''),
          (''signal/reward'', vec (map Fin (dr_rewards r)), None, None, ''final_sequence_reward_v1''),
          (''signal/advantage'', advantages, mask, None, ''final_actor_advantage_response_mask_v1'')])"

definition driver_statistics_of :: "driver_batch \<Rightarrow> driver_rows \<Rightarrow> (string \<times> pydict) list result" where
  "driver_statistics_of d r =
     map_r (\<lambda>(name, v, m, n, version). bind_r (sufficient_stats_from_tensor v m n version) (\<lambda>rec. Inr (name, rec)))
       (driver_tensors d r)"

definition collect_driver_p1_from_tensors :: "bool \<Rightarrow> driver_batch \<Rightarrow> pydict result" where
  "collect_driver_p1_from_tensors exclude_overlong d =
     (case tn_shape (db_response_mask d) of
        [b, w] \<Rightarrow>
          bind_r (check_r (tn_shape (db_entropies d) = [b, w]) (ValueError ''entropies must align with response_mask'')) (\<lambda>_.
          bind_r (check_r (tn_shape (db_token_level_rewards d) = [b, w]) (ValueError ''token_level_rewards must align with response_mask'')) (\<lambda>_.
          bind_r (check_r (tn_shape (db_advantages d) = [b, w]) (ValueError ''advantages must align with response_mask'')) (\<lambda>_.
          bind_r (check_r (length (tn_shape (db_topk_ids d)) = 3 \<and> tn_shape (db_topk_gumbels d) = tn_shape (db_topk_ids d))
                    (ValueError ''rollout Top-K ids/gumbels must be aligned rank-3 tensors'')) (\<lambda>_.
          let b' = tn_shape (db_topk_ids d) ! 0; s = tn_shape (db_topk_ids d) ! 1; k = tn_shape (db_topk_ids d) ! 2 in
          bind_r (check_r (b' = b \<and> w \<le> s) (ValueError ''rollout Top-K tensors do not contain the response domain'')) (\<lambda>_.
          bind_r (check_r (2 \<le> k) (ValueError ''latent Top-K requires at least two component slots'')) (\<lambda>_.
          bind_r (check_r (w \<noteq> 0 \<or> s \<le> 1) (RuntimeError ''The size of tensor a must match the size of tensor b'')) (\<lambda>_.
          bind_r (check_r (length (batch_temps d) = b \<and> list_all (\<lambda>t. 0 < t) (batch_temps d))
                    (ValueError ''gumbel_temperature must provide one positive value per trajectory'')) (\<lambda>_.
          bind_r (check_r (w \<noteq> 0 \<or> s = 0) (RuntimeError ''The expanded size of the tensor must match the existing size'')) (\<lambda>_.
          let r = driver_batch_rows exclude_overlong d in
          bind_r (driver_statistics_of d r) (\<lambda>stats.
            Inr [(''p1_driver_metrics_available'', VBool True),
                 (''p1_driver_sufficient_stats'', VDict (map (\<lambda>(name, x). (name, VDict x)) stats)),
                 (''final_training_trajectory_lengths'', VList (map (\<lambda>ms. vint (length (filter id ms))) (dr_mask r))),
                 (''final_training_trajectory_count'', vint b),
                 (''noisy_mixture_source'', VStr ''rollout_topk_gumbels_softmax_same_as_actor_embedding'')]))))))))))
      | _ \<Rightarrow> Inl (ValueError ''response_mask must be rank-2''))"


section \<open>Rows of a block\<close>

lemma length_pieces [simp]: "length (pieces n c xs) = n"
  by (simp add: pieces_def)

lemma pieces_Suc: "pieces (Suc n) c xs = take c xs # pieces n c (drop c xs)"
proof -
  have "map (\<lambda>i. take c (drop (i * c) xs)) [0..<Suc n] = take c xs # map (\<lambda>i. take c (drop (Suc i * c) xs)) [0..<n]"
    by (simp add: upt_conv_Cons map_Suc_upt [symmetric] del: upt_Suc)
  then show ?thesis by (simp add: pieces_def add.commute)
qed

lemma concat_pieces: "length xs = n * c \<Longrightarrow> concat (pieces n c xs) = xs"
proof (induction n arbitrary: xs)
  case 0
  then show ?case by (simp add: pieces_def)
next
  case (Suc n)
  then show ?case using Suc.IH [of "drop c xs"] by (simp add: pieces_Suc)
qed

lemma pieces_length: "length xs = n * c \<Longrightarrow> row \<in> set (pieces n c xs) \<Longrightarrow> length row = c"
proof (induction n arbitrary: xs)
  case 0
  then show ?case by (simp add: pieces_def)
next
  case (Suc n)
  then show ?case using Suc.IH [of "drop c xs"] by (auto simp: pieces_Suc)
qed

lemma length_concat_rows: "\<forall>r\<in>set rs. length r = c \<Longrightarrow> length (concat rs) = length rs * c"
  by (induction rs) auto

lemma length_last_columns: "w \<le> length xs \<Longrightarrow> w \<noteq> 0 \<Longrightarrow> length (last_columns w xs) = w"
  by (simp add: last_columns_def)

section \<open>The statistics are those of from_values\<close>

text \<open>A mask that has the shape of the values.\<close>

definition mask_fits :: "fl tensor \<Rightarrow> bool tensor option \<Rightarrow> bool" where
  "mask_fits v m \<longleftrightarrow> (case m of None \<Rightarrow> True | Some t \<Rightarrow> tn_shape t = tn_shape v \<and> length (tn_data t) = length (tn_data v))"

lemma mask_data_fits:
  assumes "mask_fits v m"
  shows "\<exists>ms. mask_data (tn_shape v) (length (tn_data v)) dflt m = Inr ms \<and> length ms = length (tn_data v) \<and>
     (case map_option tn_data m of Some m \<Rightarrow> m | None \<Rightarrow> replicate (length (tn_data v)) dflt) = ms"
  using assms by (auto simp: mask_fits_def mask_data_def split: option.splits)

lemma tensor_stats_ok:
  assumes m: "mask_fits v m" and n: "mask_fits v n" and version: "version \<noteq> []"
  shows "\<exists>s rec. from_values (tn_data v) (map_option tn_data m) (map_option tn_data n) = Inr s \<and>
     sufficient_stats_from_tensor v m n version = Inr rec \<and> sufficient_stats_from_record (VDict rec) = Inr s"
proof -
  obtain ms where ms: "mask_data (tn_shape v) (length (tn_data v)) True m = Inr ms" "length ms = length (tn_data v)"
    "(case map_option tn_data m of Some m \<Rightarrow> m | None \<Rightarrow> replicate (length (tn_data v)) True) = ms"
    using mask_data_fits [OF m] by blast
  obtain ns where ns: "mask_data (tn_shape v) (length (tn_data v)) False n = Inr ns" "length ns = length (tn_data v)"
    "(case map_option tn_data n of Some m \<Rightarrow> m | None \<Rightarrow> replicate (length (tn_data v)) False) = ns"
    using mask_data_fits [OF n] by blast
  let ?cells = "zip (tn_data v) (zip ms ns)"
  have s: "from_values (tn_data v) (map_option tn_data m) (map_option tn_data n) = Inr (fv_build ?cells)"
    using ms ns by (simp add: from_values_def)
  have k: "filter (\<lambda>(x, m, n). m \<and> isfinite x) ?cells = filter kept ?cells" by (rule filter_cong) (auto simp: kept_def)
  have kv: "map (\<lambda>(x, m, n). fin_val x) (filter kept ?cells) = kept_values ?cells" by (auto simp: kept_values_def)
  have counts: "length (filter (\<lambda>(x, m, n). m \<and> \<not> isfinite x) ?cells) = n_nan ?cells"
    "length (filter (\<lambda>(x, m, n). \<not> m) ?cells) = n_masked ?cells"
    "length (filter (\<lambda>(x, m, n). n) (filter kept ?cells)) = n_numer ?cells"
    by (auto simp: n_nan_def n_masked_def n_numer_def split_def conj_commute intro!: arg_cong [of _ _ length] filter_cong)
  have count: "length (filter kept ?cells) = length (kept_values ?cells)" by (simp add: kept_values_def)
  have nil: "filter kept ?cells = [] \<longleftrightarrow> kept_values ?cells = []" by (simp add: kept_values_def)
  have ext: "(if kept_values ?cells = [] then VNone else VFloat (Fin (f (set (kept_values ?cells))))) =
      vopt (if kept_values ?cells = [] then None else Some (f (set (kept_values ?cells))))" for f
    by simp
  have "sufficient_stats_from_tensor v m n version = sufficient_stats_to_record (fv_build ?cells) version"
    using version ms(1) ns(1)
    by (simp add: sufficient_stats_from_tensor_def sufficient_stats_to_record_def Let_def k kv counts count nil fv_build_eq
      del: filter_filter map_map)
  then show ?thesis using s serialise_ok [OF version build_counts(2) [of ?cells]] by auto
qed

section \<open>The weights of a position\<close>

lemma length_mixture_weights: "length (mixture_weights temp hard gs) = length gs"
  by (cases gs) (simp_all add: mixture_weights_def mixture_logits_def Let_def)

lemma mixture_weights_ok:
  assumes "gs \<noteq> []"
  shows "(\<forall>w\<in>set (mixture_weights temp hard gs). 0 \<le> w) \<and> sum_list (mixture_weights temp hard gs) = 1"
proof -
  let ?es = "map (exp_logit temp) (mixture_logits hard gs)"
  obtain g gs' where gs: "gs = g # gs'" using assms by (cases gs) auto
  have nn: "\<forall>e\<in>set ?es. 0 \<le> e" by (auto simp: exp_logit_def split: option.splits)
  have "0 < exp (g / temp)" by simp
  moreover have "0 \<le> sum_list (map (exp_logit temp) (map (\<lambda>g. if hard then None else Some g) gs'))"
    by (rule sum_list_nonneg) (auto simp: exp_logit_def split: option.splits)
  ultimately have pos: "0 < sum_list ?es" by (simp add: gs mixture_logits_def exp_logit_def add_pos_nonneg del: map_map)
  have "sum_list (map (\<lambda>e. e / sum_list ?es) ?es) = sum_list ?es / sum_list ?es"
    using sum_list_mult_const [of "\<lambda>e. e" "1 / sum_list ?es" ?es] by simp
  then show ?thesis using nn pos by (auto simp: mixture_weights_def Let_def)
qed

lemma effective_k_row:
  assumes "\<forall>w\<in>set ws. 0 \<le> w" and "sum_list ws = 1" and "ws \<noteq> []"
  shows "mixture_row (map Fin ws) = Some (effective_k ws, top1_weight ws)"
proof -
  have one: "map (\<lambda>w. w / sum_list ws) ws = ws" using assms(2) by simp
  have "sum_list (map (\<lambda>w. w * (if 0 < w then ln w else 0)) ws) = sum_list (map (\<lambda>w. w * ln w) (filter (\<lambda>w. w \<noteq> 0) ws))"
    using assms(1) by (induction ws) auto
  moreover have "map fin_val (map Fin ws) = ws" by (simp add: comp_def)
  moreover have "\<not> list_ex (\<lambda>w. \<not> isfinite w \<or> fl_less w (Fin 0)) (map Fin ws)" using assms(1) by (auto simp: list_ex_iff)
  ultimately show ?thesis
    using assms(2,3) one by (simp add: mixture_row_def Let_def effective_k_def top1_weight_def mixture_entropy_def del: map_map)
qed


section \<open>The rows of a batch\<close>

definition rect :: "nat \<Rightarrow> nat \<Rightarrow> 'a list list \<Rightarrow> bool" where
  "rect b w rows \<longleftrightarrow> length rows = b \<and> (\<forall>row\<in>set rows. length row = w)"

lemma rect_pieces: "length xs = b * w \<Longrightarrow> rect b w (pieces b w xs)"
  using pieces_length by (auto simp: rect_def)

lemma rect_map: "rect b w rows \<Longrightarrow> (\<And>row. row \<in> set rows \<Longrightarrow> length (f row) = w') \<Longrightarrow> rect b w' (map f rows)"
  by (auto simp: rect_def)

lemma rect_zip:
  assumes "rect b w xs" and "rect b w ys" and "\<And>x y. length x = w \<Longrightarrow> length y = w \<Longrightarrow> length (f (x, y)) = w"
  shows "rect b w (map f (zip xs ys))"
proof -
  have "length (f p) = w" if p: "p \<in> set (zip xs ys)" for p
  proof -
    obtain x y where xy: "p = (x, y)" by fastforce
    then have "x \<in> set xs" "y \<in> set ys" using p set_zip_leftD set_zip_rightD by fast+
    then show ?thesis using assms xy by (simp add: rect_def)
  qed
  then show ?thesis using assms(1,2) by (auto simp: rect_def)
qed

lemma rect_concat: "rect b w rows \<Longrightarrow> length (concat rows) = b * w"
  unfolding rect_def using length_concat_rows by blast

definition driver_batch_ok :: "driver_batch \<Rightarrow> bool" where
  "driver_batch_ok d \<longleftrightarrow> tensor_ok (db_response_mask d) \<and> tensor_ok (db_topk_ids d) \<and> tensor_ok (db_topk_gumbels d) \<and>
     tensor_ok (db_entropies d) \<and> tensor_ok (db_token_level_rewards d) \<and> tensor_ok (db_advantages d)"

lemma last_rows:
  assumes "length xs = b * (s * k)" and "w \<le> s" and "w \<noteq> 0 \<or> s = 0"
  shows "rect b w (map (\<lambda>r. last_columns w (pieces s k r)) (pieces b (s * k) xs))"
    and "row \<in> set (map (\<lambda>r. last_columns w (pieces s k r)) (pieces b (s * k) xs)) \<Longrightarrow> x \<in> set row \<Longrightarrow> length x = k"
proof -
  have p: "rect b (s * k) (pieces b (s * k) xs)" by (rule rect_pieces) (rule assms(1))
  show "rect b w (map (\<lambda>r. last_columns w (pieces s k r)) (pieces b (s * k) xs))"
    by (rule rect_map [OF p]) (use assms(2,3) in \<open>auto simp: last_columns_def\<close>)
  assume "row \<in> set (map (\<lambda>r. last_columns w (pieces s k r)) (pieces b (s * k) xs))" "x \<in> set row"
  then obtain r where "r \<in> set (pieces b (s * k) xs)" "x \<in> set (pieces s k r)"
    by (auto simp: last_columns_def dest: in_set_dropD split: if_splits)
  then show "length x = k" using p pieces_length [of r s k x] by (simp add: rect_def)
qed

lemma driver_rows_ok:
  assumes mask: "length (tn_data (db_response_mask d)) = b * w" and adv: "length (tn_data (db_advantages d)) = b * w"
    and rew: "length (tn_data (db_token_level_rewards d)) = b * w"
    and ids: "length (tn_data (db_topk_ids d)) = b * (s * k)" and gum: "length (tn_data (db_topk_gumbels d)) = b * (s * k)"
    and w: "w \<le> s" "w \<noteq> 0 \<or> s = 0" and temps: "length temps = b" and k: "2 \<le> k"
    and r: "r = driver_rows_of ex b w s k temps d"
  shows "rect b w (dr_mask r)" "concat (dr_mask r) = tn_data (db_response_mask d)" "rect b w (dr_latent r)"
    "rect b w (dr_weights r)" "rect b w (dr_advantages r)" "length (dr_rewards r) = b"
    "ws \<in> set (concat (dr_weights r)) \<Longrightarrow> length ws = k \<and> (\<forall>x\<in>set ws. 0 \<le> x) \<and> sum_list ws = 1"
proof -
  let ?ms = "pieces b w (tn_data (db_response_mask d))"
  let ?is = "map (\<lambda>r. last_columns w (pieces s k r)) (pieces b (s * k) (tn_data (db_topk_ids d)))"
  let ?gs = "map (\<lambda>r. last_columns w (pieces s k r)) (pieces b (s * k) (tn_data (db_topk_gumbels d)))"
  let ?hs = "map (map hard_position) ?is"
  have ms: "rect b w ?ms" by (rule rect_pieces) (rule mask)
  have hs: "rect b w ?hs"
    by (rule rect_map [OF last_rows(1) [OF ids w]]) (use last_rows(1) [OF ids w] in \<open>auto simp: rect_def\<close>)
  have gs: "rect b w ?gs" by (rule last_rows(1) [OF gum w])
  have as: "rect b w (pieces b w (tn_data (db_advantages d)))" by (rule rect_pieces) (rule adv)
  note defs = r driver_rows_of_def Let_def
  show "rect b w (dr_mask r)" using ms by (simp add: defs)
  show "concat (dr_mask r) = tn_data (db_response_mask d)" using concat_pieces [OF mask] by (simp add: defs)
  have "rect b w (map (\<lambda>(ms, hs). map (\<lambda>(m, h). m \<and> \<not> h) (zip ms hs)) (zip ?ms ?hs))" by (rule rect_zip [OF ms hs]) simp
  then show "rect b w (dr_latent r)" by (simp add: defs)
  have "rect b w (map (\<lambda>(ms, as). if \<not> ex \<and> length (filter id ms) = w then map (\<lambda>_. Fin 0) as else as)
      (zip ?ms (pieces b w (tn_data (db_advantages d)))))" by (rule rect_zip [OF ms as]) simp
  then show "rect b w (dr_advantages r)" by (simp add: defs)
  show "length (dr_rewards r) = b" by (simp add: defs)
  have ws: "dr_weights r = map (\<lambda>(t, hs, gs). map (\<lambda>(h, g). mixture_weights t h g) (zip hs gs)) (zip temps (zip ?hs ?gs))"
    by (simp add: defs)
  show "rect b w (dr_weights r)"
  proof -
    have "length ((\<lambda>(t, hs, gs). map (\<lambda>(h, g). mixture_weights t h g) (zip hs gs)) p) = w"
      if p: "p \<in> set (zip temps (zip ?hs ?gs))" for p
    proof -
      obtain t h g where t: "p = (t, h, g)" using prod_cases3 by blast
      then have "(h, g) \<in> set (zip ?hs ?gs)" using p set_zip_rightD by fast
      then have "h \<in> set ?hs" "g \<in> set ?gs" by (rule set_zip_leftD, rule set_zip_rightD)
      then show ?thesis using t hs gs by (simp add: rect_def del: set_map)
    qed
    moreover have "length (dr_weights r) = b" using hs gs temps by (simp add: ws rect_def)
    ultimately show ?thesis unfolding ws rect_def by (auto simp del: length_map)
  qed
  assume "ws \<in> set (concat (dr_weights r))"
  then obtain t hs gs h g where "(t, hs, gs) \<in> set (zip temps (zip ?hs ?gs))" "(h, g) \<in> set (zip hs gs)" "ws = mixture_weights t h g"
    unfolding ws by auto
  then have "gs \<in> set ?gs" "g \<in> set gs" by (auto dest!: set_zip_rightD)
  then have "length g = k" by (rule last_rows(2) [OF gum w])
  moreover from this have "g \<noteq> []" using k by auto
  ultimately show "length ws = k \<and> (\<forall>x\<in>set ws. 0 \<le> x) \<and> sum_list ws = 1"
    using mixture_weights_ok [of g t h] by (simp add: \<open>ws = _\<close> length_mixture_weights)
qed


section \<open>The statistics of the driver\<close>

lemma grid_simps [simp]: "tn_shape (grid sh rows) = sh" "tn_data (grid sh rows) = concat rows"
  "tn_shape (tensor sh xs) = sh" "tn_data (tensor sh xs) = xs"
  by (simp_all add: grid_def tensor_def)

definition tensors_fit :: "(string \<times> fl tensor \<times> bool tensor option \<times> bool tensor option \<times> string) list \<Rightarrow> bool" where
  "tensors_fit ts \<longleftrightarrow> (\<forall>(name, v, m, n, version)\<in>set ts. mask_fits v m \<and> mask_fits v n \<and> version \<noteq> [])"

lemma driver_tensors_ok:
  assumes sh: "tn_shape (db_response_mask d) = [b, w]"
    and e: "tn_shape (db_entropies d) = [b, w]" "length (tn_data (db_entropies d)) = b * w"
    and r: "rect b w (dr_mask r)" "rect b w (dr_latent r)" "rect b w (dr_weights r)" "rect b w (dr_advantages r)"
  shows "tensors_fit (driver_tensors d r)"
proof -
  note len = rect_concat [OF r(1)] rect_concat [OF r(2)] rect_concat [OF r(3)] rect_concat [OF r(4)]
  have lens: "length (concat (map (map f) xss)) = length (concat xss)" for f :: "'b \<Rightarrow> 'c" and xss by (induction xss) auto
  show ?thesis
    using e len by (simp add: tensors_fit_def driver_tensors_def Let_def sh mask_fits_def lens)
qed

lemma driver_statistics_ok:
  assumes ok: "tensors_fit ts"
  shows "\<exists>stats. map_r (\<lambda>(name, v, m, n, version). bind_r (sufficient_stats_from_tensor v m n version) (\<lambda>rec. Inr (name, rec))) ts =
       Inr stats \<and>
     list_all2 (\<lambda>(name, v, m, n, version) (name', rec). name' = name \<and>
       (\<exists>s. from_values (tn_data v) (map_option tn_data m) (map_option tn_data n) = Inr s \<and>
          sufficient_stats_from_record (VDict rec) = Inr s)) ts stats"
  using ok
proof (induction ts)
  case (Cons t ts)
  obtain name v m n version where t: "t = (name, v, m, n, version)" by (cases t)
  obtain s rec where "from_values (tn_data v) (map_option tn_data m) (map_option tn_data n) = Inr s"
     "sufficient_stats_from_tensor v m n version = Inr rec" "sufficient_stats_from_record (VDict rec) = Inr s"
    using tensor_stats_ok [of v m n version] Cons.prems by (auto simp: tensors_fit_def t)
  moreover obtain stats where "map_r (\<lambda>(name, v, m, n, version). bind_r (sufficient_stats_from_tensor v m n version) (\<lambda>rec. Inr (name, rec))) ts =
       Inr stats" "list_all2 (\<lambda>(name, v, m, n, version) (name', rec). name' = name \<and>
       (\<exists>s. from_values (tn_data v) (map_option tn_data m) (map_option tn_data n) = Inr s \<and>
          sufficient_stats_from_record (VDict rec) = Inr s)) ts stats"
    using Cons.IH Cons.prems unfolding tensors_fit_def by (metis (no_types, lifting) list.set_intros(2))
  ultimately show ?case by (simp add: t)
qed simp

lemma mixture_weights_bounds:
  assumes "\<forall>x\<in>set ws. 0 \<le> x" and "sum_list ws = 1" and "ws \<noteq> []"
  shows "mixture_row (map Fin ws) = Some (effective_k ws, top1_weight ws) \<and>
     1 \<le> effective_k ws \<and> effective_k ws \<le> real (length ws) \<and> 1 / real (length ws) \<le> top1_weight ws \<and> top1_weight ws \<le> 1"
proof -
  have row: "mixture_row (map Fin ws) = Some (effective_k ws, top1_weight ws)" by (rule effective_k_row [OF assms])
  have "map fin_val (map Fin ws) = ws" by (simp add: comp_def)
  then have eq: "effective_k ws = exp (mixture_entropy (normalise ws))" "top1_weight ws = Max (set (normalise ws))"
    using mixture_row_normalise [OF row] by (simp_all del: map_map)
  have "0 < sum_list ws" using assms(2) by simp
  from normalise_bounds [OF assms(1) this] show ?thesis using row unfolding eq by auto
qed

lemma zero_numerator: "(if isfinite v then fl_le (fl_abs v) (Fin 0) else False) = fl_eq v (Fin 0)"
  by (cases v) auto

lemma required_stat_read:
  assumes ok: "tensors_fit ts"
    and dist: "distinct (map fst ts)"
    and run: "map_r (\<lambda>(name, v, m, n, version). bind_r (sufficient_stats_from_tensor v m n version) (\<lambda>rec. Inr (name, rec))) ts = Inr stats"
    and mem: "(name, v, m, n, version) \<in> set ts"
  shows "required_stat (map (\<lambda>(name, x). (name, VDict x)) stats) name source =
     from_values (tn_data v) (map_option tn_data m) (map_option tn_data n)"
proof -
  have all: "list_all2 (\<lambda>(name, v, m, n, version) (name', rec). name' = name \<and>
       (\<exists>s. from_values (tn_data v) (map_option tn_data m) (map_option tn_data n) = Inr s \<and>
          sufficient_stats_from_record (VDict rec) = Inr s)) ts stats"
    using driver_statistics_ok [OF ok] run by auto
  then have "list_all2 (=) (map fst ts) (map fst stats)" by (auto simp: list_all2_map1 list_all2_map2 elim!: list_all2_mono)
  then have "distinct (map fst stats)" using dist by (simp add: list.rel_eq)
  then have d: "distinct (map fst (map (\<lambda>(name, x). (name, VDict x)) stats))" by (simp add: comp_def split_def)
  obtain i where i: "i < length ts" "ts ! i = (name, v, m, n, version)" using mem by (auto simp: in_set_conv_nth)
  then obtain rec s where rec: "stats ! i = (name, rec)" "i < length stats"
     "from_values (tn_data v) (map_option tn_data m) (map_option tn_data n) = Inr s" "sufficient_stats_from_record (VDict rec) = Inr s"
    using list_all2_nthD [OF all i(1)] list_all2_lengthD [OF all] by (cases "stats ! i") auto
  then have "(name, VDict rec) \<in> set (map (\<lambda>(name, x). (name, VDict x)) stats)" by (force simp: in_set_conv_nth)
  then have "dget (map (\<lambda>(name, x). (name, VDict x)) stats) name = VDict rec" using d by (simp add: dget_def)
  then show ?thesis using rec by (simp add: required_stat_def)
qed

text \<open>The checks of the collector.\<close>

definition driver_checked :: "driver_batch \<Rightarrow> nat \<Rightarrow> nat \<Rightarrow> bool" where
  "driver_checked d b w \<longleftrightarrow> length (tn_data (db_response_mask d)) = b * w \<and> tn_shape (db_entropies d) = [b, w] \<and>
     length (tn_data (db_entropies d)) = b * w \<and> length (tn_data (db_advantages d)) = b * w \<and>
     length (tn_data (db_token_level_rewards d)) = b * w \<and> length (batch_temps d) = b \<and>
     w \<le> tn_shape (db_topk_ids d) ! 1 \<and> (w \<noteq> 0 \<or> tn_shape (db_topk_ids d) ! 1 = 0)"

lemma collect_driver_checked:
  assumes ok: "driver_batch_ok d" and run: "collect_driver_p1_from_tensors ex d = Inr pkt"
  shows "\<exists>b w k. tn_shape (db_response_mask d) = [b, w] \<and> 2 \<le> k \<and> driver_checked d b w \<and>
     driver_batch_rows ex d = driver_rows_of ex b w (tn_shape (db_topk_ids d) ! 1) k (batch_temps d) d \<and>
     length (tn_data (db_topk_ids d)) = b * (tn_shape (db_topk_ids d) ! 1 * k) \<and>
     length (tn_data (db_topk_gumbels d)) = b * (tn_shape (db_topk_ids d) ! 1 * k) \<and>
     (\<exists>stats. driver_statistics_of d (driver_batch_rows ex d) = Inr stats \<and>
       dget pkt ''p1_driver_sufficient_stats'' = VDict (map (\<lambda>(name, x). (name, VDict x)) stats))"
proof -
  obtain b w where m: "tn_shape (db_response_mask d) = [b, w]"
    using run by (auto simp: collect_driver_p1_from_tensors_def split: list.splits)
  let ?s = "tn_shape (db_topk_ids d) ! 1" and ?k = "tn_shape (db_topk_ids d) ! 2"
  have sh: "tn_shape (db_entropies d) = [b, w]" "tn_shape (db_token_level_rewards d) = [b, w]" "tn_shape (db_advantages d) = [b, w]"
      "length (tn_shape (db_topk_ids d)) = 3" "tn_shape (db_topk_gumbels d) = tn_shape (db_topk_ids d)"
      "tn_shape (db_topk_ids d) ! 0 = b" "w \<le> ?s" "2 \<le> ?k" "length (batch_temps d) = b" "w \<noteq> 0 \<or> ?s = 0"
    and pkt: "\<exists>stats. driver_statistics_of d (driver_batch_rows ex d) = Inr stats \<and>
       dget pkt ''p1_driver_sufficient_stats'' = VDict (map (\<lambda>(name, x). (name, VDict x)) stats)"
    using run m unfolding collect_driver_p1_from_tensors_def
    by (auto simp: bind_r_Inr_iff Let_def dget_Cons)
  have ids: "tn_shape (db_topk_ids d) = [b, ?s, ?k]" using sh(4,6) by (auto simp: numeral_3_eq_3 length_Suc_conv)
  have len: "length (tn_data (db_topk_ids d)) = b * (?s * ?k)" "length (tn_data (db_topk_gumbels d)) = b * (?s * ?k)"
    using ok sh(5) arg_cong [OF ids, of prod_list] by (simp_all add: driver_batch_ok_def tensor_ok_def)
  have "driver_checked d b w" using ok m sh by (simp add: driver_batch_ok_def tensor_ok_def driver_checked_def)
  moreover have "driver_batch_rows ex d = driver_rows_of ex b w ?s ?k (batch_temps d) d" by (simp add: driver_batch_rows_def Let_def m)
  ultimately show ?thesis using m sh(8) len pkt by blast
qed

lemma collect_driver_total:
  assumes ok: "driver_batch_ok d" and m: "tn_shape (db_response_mask d) = [b, w]"
    and sh: "tn_shape (db_entropies d) = [b, w]" "tn_shape (db_token_level_rewards d) = [b, w]" "tn_shape (db_advantages d) = [b, w]"
    and ids: "tn_shape (db_topk_ids d) = [b, s, k]" "tn_shape (db_topk_gumbels d) = [b, s, k]" and k: "2 \<le> k" and w: "0 < w" "w \<le> s"
    and temps: "length (batch_temps d) = b" "list_all (\<lambda>t. 0 < t) (batch_temps d)"
  shows "\<exists>pkt. collect_driver_p1_from_tensors ex d = Inr pkt"
proof -
  let ?r = "driver_batch_rows ex d"
  have r: "?r = driver_rows_of ex b w s k (batch_temps d) d" by (simp add: driver_batch_rows_def Let_def m ids)
  have len: "length (tn_data (db_response_mask d)) = b * w" "length (tn_data (db_advantages d)) = b * w"
    "length (tn_data (db_token_level_rewards d)) = b * w" "length (tn_data (db_topk_ids d)) = b * (s * k)"
    "length (tn_data (db_topk_gumbels d)) = b * (s * k)" "length (tn_data (db_entropies d)) = b * w"
    using ok m sh ids by (simp_all add: driver_batch_ok_def tensor_ok_def)
  note rows = driver_rows_ok [OF len(1-5) w(2) _ temps(1) k r]
  have R: "rect b w (dr_mask ?r)" "rect b w (dr_latent ?r)" "rect b w (dr_weights ?r)" "rect b w (dr_advantages ?r)"
    using rows w(1) by auto
  have "tensors_fit (driver_tensors d ?r)"
    by (rule driver_tensors_ok [OF m sh(1) len(6) R])
  then obtain stats where "driver_statistics_of d ?r = Inr stats"
    using driver_statistics_ok [of "driver_tensors d ?r"] unfolding driver_statistics_of_def by blast
  then show ?thesis
    using m sh ids k w temps unfolding collect_driver_p1_from_tensors_def by (simp add: Let_def)
qed

section \<open>Properties\<close>

text \<open>
  C40. The packet of the driver is exact and can be read back.  Whenever the collector accepts a batch, each of
  its eight records deserialises to the statistics that \<open>SufficientStats.from_values\<close> computes from
  the same numbers in plain lists; the zero-advantage record is the package of \<open>zero_advantage_stats\<close>; and at
  every position the effective number of components and the top weight are those that the pure-Python
  \<open>_mixture_sufficient_stats\<close> gives for the weights, so they lie in \<open>[1, K]\<close> and \<open>[1/K, 1]\<close>.
\<close>

theorem driver_packet_is_exact:
  assumes ok: "driver_batch_ok d" and run: "collect_driver_p1_from_tensors ex d = Inr pkt"
  shows "let r = driver_batch_rows ex d in \<exists>stats. dget pkt ''p1_driver_sufficient_stats'' = VDict stats \<and>
     (\<forall>(name, v, m, n, version)\<in>set (driver_tensors d r).
        required_stat stats name ''driver'' = from_values (tn_data v) (map_option tn_data m) (map_option tn_data n)) \<and>
     required_stat stats ''mask/zero_advantage_rate'' ''driver'' =
       zero_advantage_stats (concat (dr_advantages r)) (concat (dr_latent r)) 0 \<and>
     (\<forall>ws\<in>set (concat (dr_weights r)). mixture_row (map Fin ws) = Some (effective_k ws, top1_weight ws) \<and>
        1 \<le> effective_k ws \<and> effective_k ws \<le> real (length ws) \<and> 1 / real (length ws) \<le> top1_weight ws \<and> top1_weight ws \<le> 1)"
proof -
  define r where "r = driver_batch_rows ex d"
  obtain b w k where c: "tn_shape (db_response_mask d) = [b, w]" "2 \<le> k"
    "driver_checked d b w" "r = driver_rows_of ex b w (tn_shape (db_topk_ids d) ! 1) k (batch_temps d) d"
    "length (tn_data (db_topk_ids d)) = b * (tn_shape (db_topk_ids d) ! 1 * k)"
    "length (tn_data (db_topk_gumbels d)) = b * (tn_shape (db_topk_ids d) ! 1 * k)"
    and pkt: "\<exists>stats. driver_statistics_of d r = Inr stats \<and>
       dget pkt ''p1_driver_sufficient_stats'' = VDict (map (\<lambda>(name, x). (name, VDict x)) stats)"
    using collect_driver_checked [OF ok run] unfolding r_def by blast
  note ck = c(3) [unfolded driver_checked_def]
  have len: "length (tn_data (db_response_mask d)) = b * w" "length (tn_data (db_advantages d)) = b * w"
    "length (tn_data (db_token_level_rewards d)) = b * w" "w \<le> tn_shape (db_topk_ids d) ! 1"
    "w \<noteq> 0 \<or> tn_shape (db_topk_ids d) ! 1 = 0" "length (batch_temps d) = b"
    using ck by simp_all
  note rows = driver_rows_ok [OF len(1-3) c(5,6) len(4-6) c(2,4)]
  have R: "rect b w (dr_mask r)" "concat (dr_mask r) = tn_data (db_response_mask d)" "rect b w (dr_latent r)"
    "rect b w (dr_weights r)" "rect b w (dr_advantages r)"
    and W: "\<And>ws. ws \<in> set (concat (dr_weights r)) \<Longrightarrow> length ws = k \<and> (\<forall>x\<in>set ws. 0 \<le> x) \<and> sum_list ws = 1"
    by (rule rows)+
  have fits: "tensors_fit (driver_tensors d r)"
    by (rule driver_tensors_ok [OF c(1) _ _ R(1,3,4,5)]) (use ck in simp_all)
  have dist: "distinct (map fst (driver_tensors d r))" by (simp add: driver_tensors_def Let_def)
  obtain stats where stats: "driver_statistics_of d r = Inr stats"
     "dget pkt ''p1_driver_sufficient_stats'' = VDict (map (\<lambda>(name, x). (name, VDict x)) stats)"
    using pkt by blast
  have read: "\<And>name v m n version. (name, v, m, n, version) \<in> set (driver_tensors d r) \<Longrightarrow>
      required_stat (map (\<lambda>(name, x). (name, VDict x)) stats) name ''driver'' =
        from_values (tn_data v) (map_option tn_data m) (map_option tn_data n)"
    using required_stat_read [OF fits dist] stats(1) unfolding driver_statistics_of_def by blast
  have "length (concat (dr_advantages r)) = length (concat (dr_latent r))" using rect_concat [OF R(5)] rect_concat [OF R(3)] by simp
  then have z: "zero_advantage_stats (concat (dr_advantages r)) (concat (dr_latent r)) 0 =
      from_values (concat (dr_advantages r)) (Some (concat (dr_latent r))) (Some (concat (map (map (\<lambda>a. fl_eq a (Fin 0))) (dr_advantages r))))"
    by (simp add: zero_advantage_stats_def zero_numerator map_concat)
  have "required_stat (map (\<lambda>(name, x). (name, VDict x)) stats) ''mask/zero_advantage_rate'' ''driver'' =
      zero_advantage_stats (concat (dr_advantages r)) (concat (dr_latent r)) 0"
    unfolding z using read [of "''mask/zero_advantage_rate''"] by (auto simp: driver_tensors_def Let_def)
  moreover have "mixture_row (map Fin ws) = Some (effective_k ws, top1_weight ws) \<and>
        1 \<le> effective_k ws \<and> effective_k ws \<le> real (length ws) \<and> 1 / real (length ws) \<le> top1_weight ws \<and> top1_weight ws \<le> 1"
    if "ws \<in> set (concat (dr_weights r))" for ws
    using W [OF that] c(2) by (intro mixture_weights_bounds) auto
  moreover have "\<forall>(name, v, m, n, version)\<in>set (driver_tensors d r).
      required_stat (map (\<lambda>(name, x). (name, VDict x)) stats) name ''driver'' =
        from_values (tn_data v) (map_option tn_data m) (map_option tn_data n)" using read by blast
  ultimately show ?thesis using stats(2) unfolding r_def [symmetric] Let_def by blast
qed

text \<open>One trajectory of one latent and one hard position with two components.\<close>

definition demo_batch :: driver_batch where
  "demo_batch = \<lparr>db_response_mask = tensor [1, 2] [True, True], db_topk_ids = tensor [1, 2, 2] [7, 8, 9, -100],
     db_topk_gumbels = tensor [1, 2, 2] [1, 1, 0, 5], db_gumbel_temperature = [1], db_entropies = tensor [1, 2] [Fin 1, NaN],
     db_token_level_rewards = tensor [1, 2] [0, 1], db_advantages = tensor [1, 2] [Fin 2, Fin 2]\<rparr>"

theorem driver_packet_is_exact_witness:
  "\<exists>pkt stats. collect_driver_p1_from_tensors True demo_batch = Inr pkt \<and> dget pkt ''p1_driver_sufficient_stats'' = VDict stats \<and>
     required_stat stats ''mask/zero_advantage_rate'' ''driver'' = zero_advantage_stats [Fin 2, Fin 2] [True, False] 0"
proof -
  have ok: "driver_batch_ok demo_batch" by (simp add: driver_batch_ok_def tensor_ok_def demo_batch_def)
  have r: "dr_advantages (driver_batch_rows True demo_batch) = [[Fin 2, Fin 2]]" "dr_latent (driver_batch_rows True demo_batch) = [[True, False]]"
    by (simp_all add: driver_batch_rows_def driver_rows_of_def demo_batch_def tensor_def pieces_def last_columns_def hard_position_def Let_def
        numeral_2_eq_2 upt_rec)
  obtain pkt where pkt: "collect_driver_p1_from_tensors True demo_batch = Inr pkt"
    using collect_driver_total [OF ok, of 1 2 2 2 True] by (auto simp: demo_batch_def tensor_def batch_temps_def)
  from driver_packet_is_exact [OF ok pkt] r show ?thesis using pkt by (auto simp: Let_def)
qed

end
