(* ===== verification/RunConfig.thy ===== *)
theory RunConfig
  imports Storage
begin

text \<open>
  The profiles of the runner, \<open>latent_grpo_runner/config.py\<close>: reading a YAML mapping into a typed configuration,
  the checks of \<open>_validate_semantics\<close>, the batch arithmetic, the Hydra overrides for the trainer, the overrides
  of the command line and the two configuration hashes.  Paths are strings; resolving a path, the test for a
  directory, relative paths, SHA-256 of a JSON document and the printing of a float are parameters.
\<close>

section \<open>The configuration\<close>

record hardware_config =
  hw_required_gpus :: int
  hw_min_vram_gb :: int

record batch_config =
  bc_prompt_batch :: int
  bc_rollout_n :: int
  bc_mini_prompt_batch :: int
  bc_actor_micro_batch_per_gpu :: int
  bc_rollout_log_prob_micro_batch_per_gpu :: int
  bc_ref_log_prob_micro_batch_per_gpu :: int
  bc_ppo_epochs :: int

record model_config =
  mc_path :: string
  mc_latent_end_token_id :: int
  mc_latent_end_token :: string
  mc_latent_end_source :: string
  mc_use_remove_padding :: bool
  mc_enable_gradient_checkpointing :: bool
  mc_actor_param_offload :: bool
  mc_actor_optimizer_offload :: bool
  mc_ref_param_offload :: bool
  mc_use_kl_loss :: bool

record data_config =
  dc_train_files :: string
  dc_val_files :: string
  dc_max_prompt_length :: int
  dc_max_response_length :: int
  dc_filter_overlong_prompts :: "bool option"
  dc_filter_overlong_prompts_workers :: "int option"

record rollout_config =
  rc_name :: string
  rc_dtype :: string
  rc_attention_backend :: "string option"
  rc_tensor_parallel_size :: int
  rc_sequence_parallel_size :: int
  rc_max_model_len :: int
  rc_max_num_batched_tokens :: int
  rc_gpu_memory_utilization :: fl
  rc_max_topk :: int
  rc_temperature :: fl
  rc_top_p :: fl
  rc_top_k :: int
  rc_gumbel_softmax_temperature :: fl
  rc_noise_scale :: fl
  rc_enable_latent :: bool
  rc_add_noise_gumbel_softmax :: bool
  rc_use_one_sided_gumbel_noise :: bool
  rc_one_sided_gumbel_delta :: fl

record training_config =
  tc_max_steps :: int
  tc_seed :: int
  tc_filter_groups_max_num_gen_batches :: int
  tc_pre_backward_monitor_probe :: bool

record feature_config =
  fc_metrics_enabled :: bool
  fc_support_enabled :: bool
  fc_checkpoint_probe_enabled :: bool
  fc_credit_probe_enabled :: bool

record resolved_config =
  rs_profile_name :: string
  rs_profile_kind :: string
  rs_description :: string
  rs_launcher_mode :: string
  rs_hardware :: hardware_config
  rs_batch :: batch_config
  rs_model :: model_config
  rs_data :: data_config
  rs_rollout :: rollout_config
  rs_training :: training_config
  rs_paths :: "(string \<times> string) list"
  rs_features :: feature_config
  rs_upstream_overrides :: pydict
  rs_resume_from :: "string option"

section \<open>Names\<close>

definition supported_profiles :: "string list" where
  "supported_profiles = [''smoke'', ''3gpu-low'', ''3gpu-high-smoke'', ''3gpu-final-low'', ''3gpu-final-validation'',
     ''3gpu-final-high'', ''3gpu-final-high-validation'', ''kaggle-t4-monitor'', ''kaggle-t4-30-metric'']"

definition top_level_keys :: "string list" where
  "top_level_keys = [''schema_version'', ''profile_name'', ''profile_kind'', ''description'', ''launcher'', ''target_hardware'',
     ''batch'', ''model'', ''data'', ''rollout'', ''training'', ''paths'', ''features'', ''upstream_overrides'']"

definition nested_keys :: "(string \<times> string list) list" where
  "nested_keys =
    [(''launcher'', [''mode'']),
     (''target_hardware'', [''required_gpus'', ''min_vram_gb'']),
     (''batch'', [''prompt_batch'', ''rollout_n'', ''mini_prompt_batch'', ''actor_micro_batch_per_gpu'',
        ''rollout_log_prob_micro_batch_per_gpu'', ''ref_log_prob_micro_batch_per_gpu'', ''ppo_epochs'']),
     (''model'', [''path'', ''latent_end_token_id'', ''latent_end_token'', ''latent_end_source'', ''use_remove_padding'',
        ''enable_gradient_checkpointing'', ''actor_param_offload'', ''actor_optimizer_offload'', ''ref_param_offload'', ''use_kl_loss'']),
     (''data'', [''train_files'', ''val_files'', ''max_prompt_length'', ''max_response_length'', ''filter_overlong_prompts'',
        ''filter_overlong_prompts_workers'']),
     (''rollout'', [''name'', ''dtype'', ''attention_backend'', ''tensor_parallel_size'', ''sequence_parallel_size'', ''max_model_len'',
        ''max_num_batched_tokens'', ''gpu_memory_utilization'', ''max_topk'', ''temperature'', ''top_p'', ''top_k'',
        ''gumbel_softmax_temperature'', ''noise_scale'', ''enable_latent'', ''add_noise_gumbel_softmax'',
        ''use_one_sided_gumbel_noise'', ''one_sided_gumbel_delta'']),
     (''training'', [''max_steps'', ''seed'', ''filter_groups_max_num_gen_batches'', ''pre_backward_monitor_probe'']),
     (''paths'', [''upstream_repo_path'', ''output_root'', ''cache_root'']),
     (''features'', [''metrics_enabled'', ''support_enabled'', ''checkpoint_probe_enabled'', ''credit_probe_enabled''])]"

definition allowed_upstream_overrides :: "string list" where
  "allowed_upstream_overrides =
    [''data.val_batch_size'', ''actor_rollout_ref.actor.optim.lr'', ''actor_rollout_ref.actor.ppo_max_token_len_per_gpu'',
     ''actor_rollout_ref.actor.kl_loss_coef'', ''actor_rollout_ref.actor.neg_adv_weight'', ''actor_rollout_ref.actor.kl_loss_type'',
     ''actor_rollout_ref.actor.entropy_coeff'', ''actor_rollout_ref.actor.freeze_embedding'',
     ''actor_rollout_ref.rollout.val_kwargs.do_sample'', ''actor_rollout_ref.rollout.val_kwargs.temperature'',
     ''actor_rollout_ref.rollout.val_kwargs.top_p'', ''actor_rollout_ref.rollout.val_kwargs.top_k'', ''actor_rollout_ref.ref.strategy'',
     ''algorithm.use_kl_in_reward'', ''algorithm.exclude_overlong_samples_from_advantage'', ''trainer.critic_warmup'', ''trainer.logger'',
     ''trainer.project_name'', ''trainer.experiment_name'', ''trainer.val_before_train'', ''trainer.save_freq'', ''trainer.test_freq'',
     ''trainer.balance_batch'', ''trainer.total_epochs'']"

definition topology_owned_upstream_overrides :: "string list" where
  "topology_owned_upstream_overrides =
    [''data.train_batch_size'', ''actor_rollout_ref.actor.ppo_mini_batch_size'', ''actor_rollout_ref.actor.ppo_micro_batch_size_per_gpu'',
     ''actor_rollout_ref.rollout.n'', ''trainer.n_gpus_per_node'', ''trainer.nnodes'', ''trainer.total_training_steps'']"

section \<open>Reading a profile\<close>

definition unknown_keys :: "string \<Rightarrow> pydict \<Rightarrow> string list \<Rightarrow> unit result" where
  "unknown_keys label values allowed =
     check_r (list_all (\<lambda>kv. fst kv \<in> set allowed) values) (ConfigError (''unknown field in '' @ label))"

definition expect_str :: "pydict \<Rightarrow> string \<Rightarrow> string result" where
  "expect_str d key = (case map_of d key of None \<Rightarrow> Inl KeyError
     | Some (VStr s) \<Rightarrow> if s = [] then Inl (ConfigError (key @ '' must be a non-empty string'')) else Inr s
     | Some _ \<Rightarrow> Inl (ConfigError (key @ '' must be a non-empty string'')))"

definition expect_int :: "pydict \<Rightarrow> string \<Rightarrow> int result" where
  "expect_int d key = (case map_of d key of None \<Rightarrow> Inl KeyError
     | Some (VInt i) \<Rightarrow> Inr i
     | Some _ \<Rightarrow> Inl (ConfigError (key @ '' must be an integer'')))"

definition expect_float :: "pydict \<Rightarrow> string \<Rightarrow> fl result" where
  "expect_float d key = (case map_of d key of None \<Rightarrow> Inl KeyError
     | Some v \<Rightarrow> (case to_float v of Some x \<Rightarrow> Inr x | None \<Rightarrow> Inl (ConfigError (key @ '' must be a number''))))"

definition expect_bool :: "pydict \<Rightarrow> string \<Rightarrow> bool result" where
  "expect_bool d key = (case map_of d key of None \<Rightarrow> Inl KeyError
     | Some (VBool b) \<Rightarrow> Inr b
     | Some _ \<Rightarrow> Inl (ConfigError (key @ '' must be a boolean'')))"

fun build_upstream_overrides :: "pydict \<Rightarrow> pydict result" where
  "build_upstream_overrides [] = Inr []"
| "build_upstream_overrides ((key, v) # rest) =
     (if key = [] then Inl (ConfigError ''upstream override keys must be non-empty strings'')
      else case v of
        VStr s \<Rightarrow> if s = [] then Inl (ConfigError ''upstream override must not be empty'')
                  else bind_r (build_upstream_overrides rest) (\<lambda>r. Inr ((key, v) # r))
      | VInt _ \<Rightarrow> bind_r (build_upstream_overrides rest) (\<lambda>r. Inr ((key, v) # r))
      | VFloat _ \<Rightarrow> bind_r (build_upstream_overrides rest) (\<lambda>r. Inr ((key, v) # r))
      | VBool _ \<Rightarrow> bind_r (build_upstream_overrides rest) (\<lambda>r. Inr ((key, v) # r))
      | _ \<Rightarrow> Inl (ConfigError ''upstream override must be a scalar''))"

definition resolve_workspace_path :: "(string \<Rightarrow> string) \<Rightarrow> pyval \<Rightarrow> string result" where
  "resolve_workspace_path resolve v =
     (case v of VStr s \<Rightarrow> if s = [] then Inl (ConfigError ''paths values must be non-empty strings'') else Inr (resolve s)
      | _ \<Rightarrow> Inl (ConfigError ''paths values must be non-empty strings''))"

fun as_dict :: "pyval \<Rightarrow> pydict option" where
  "as_dict (VDict d) = Some d"
| "as_dict _ = None"

fun validate_sections :: "pydict \<Rightarrow> (string \<times> string list) list \<Rightarrow> unit result" where
  "validate_sections raw [] = Inr ()"
| "validate_sections raw ((section, allowed) # rest) =
     (case as_dict (dget raw section) of
        None \<Rightarrow> Inl (ConfigError (section @ '' must be a mapping''))
      | Some d \<Rightarrow> bind_r (unknown_keys section d allowed) (\<lambda>_. validate_sections raw rest))"

definition validate_structure :: "pydict \<Rightarrow> unit result" where
  "validate_structure raw =
     bind_r (unknown_keys ''config'' raw top_level_keys) (\<lambda>_.
     bind_r (expect_int raw ''schema_version'') (\<lambda>version.
     bind_r (check_r (version = 1) (ConfigError ''schema_version must be 1'')) (\<lambda>_.
     bind_r (validate_sections raw nested_keys) (\<lambda>_.
       check_r (as_dict (if has_key raw ''upstream_overrides'' then dget raw ''upstream_overrides'' else VDict []) \<noteq> None)
         (ConfigError ''upstream_overrides must be a mapping'')))))"


text \<open>\<open>except KeyError\<close> and \<open>except TypeError\<close> of \<open>_build_config\<close>.\<close>

definition as_config_error :: "'a result \<Rightarrow> 'a result" where
  "as_config_error r = (case r of
       Inl KeyError \<Rightarrow> Inl (ConfigError ''missing required field'')
     | Inl TypeError \<Rightarrow> Inl (ConfigError ''invalid config field type'')
     | _ \<Rightarrow> r)"

definition raw_section :: "pydict \<Rightarrow> string \<Rightarrow> pydict result" where
  "raw_section raw key = (case map_of raw key of None \<Rightarrow> Inl KeyError
     | Some v \<Rightarrow> (case as_dict v of None \<Rightarrow> Inl TypeError | Some d \<Rightarrow> Inr d))"

text \<open>A field that may be absent.\<close>

definition expect_optional :: "(pydict \<Rightarrow> string \<Rightarrow> 'a result) \<Rightarrow> pydict \<Rightarrow> string \<Rightarrow> 'a option result" where
  "expect_optional expect d key = (if has_key d key then bind_r (expect d key) (\<lambda>x. Inr (Some x)) else Inr None)"

definition build_batch :: "pydict \<Rightarrow> batch_config result" where
  "build_batch d =
     bind_r (expect_int d ''prompt_batch'') (\<lambda>a. bind_r (expect_int d ''rollout_n'') (\<lambda>b.
     bind_r (expect_int d ''mini_prompt_batch'') (\<lambda>c. bind_r (expect_int d ''actor_micro_batch_per_gpu'') (\<lambda>e.
     bind_r (expect_int d ''rollout_log_prob_micro_batch_per_gpu'') (\<lambda>f.
     bind_r (expect_int d ''ref_log_prob_micro_batch_per_gpu'') (\<lambda>g. bind_r (expect_int d ''ppo_epochs'') (\<lambda>h.
       Inr \<lparr>bc_prompt_batch = a, bc_rollout_n = b, bc_mini_prompt_batch = c, bc_actor_micro_batch_per_gpu = e,
            bc_rollout_log_prob_micro_batch_per_gpu = f, bc_ref_log_prob_micro_batch_per_gpu = g, bc_ppo_epochs = h\<rparr>)))))))"

definition build_model :: "pydict \<Rightarrow> model_config result" where
  "build_model d =
     bind_r (expect_str d ''path'') (\<lambda>p. bind_r (expect_int d ''latent_end_token_id'') (\<lambda>i.
     bind_r (expect_str d ''latent_end_token'') (\<lambda>t. bind_r (expect_str d ''latent_end_source'') (\<lambda>s.
     bind_r (expect_bool d ''use_remove_padding'') (\<lambda>u. bind_r (expect_bool d ''enable_gradient_checkpointing'') (\<lambda>g.
     bind_r (expect_bool d ''actor_param_offload'') (\<lambda>a. bind_r (expect_bool d ''actor_optimizer_offload'') (\<lambda>b.
     bind_r (expect_bool d ''ref_param_offload'') (\<lambda>r. bind_r (expect_bool d ''use_kl_loss'') (\<lambda>k.
       Inr \<lparr>mc_path = p, mc_latent_end_token_id = i, mc_latent_end_token = t, mc_latent_end_source = s,
            mc_use_remove_padding = u, mc_enable_gradient_checkpointing = g, mc_actor_param_offload = a,
            mc_actor_optimizer_offload = b, mc_ref_param_offload = r, mc_use_kl_loss = k\<rparr>))))))))))"

definition build_data :: "pydict \<Rightarrow> data_config result" where
  "build_data d =
     bind_r (expect_str d ''train_files'') (\<lambda>t. bind_r (expect_str d ''val_files'') (\<lambda>v.
     bind_r (expect_int d ''max_prompt_length'') (\<lambda>p. bind_r (expect_int d ''max_response_length'') (\<lambda>r.
     bind_r (expect_optional expect_bool d ''filter_overlong_prompts'') (\<lambda>f.
     bind_r (expect_optional expect_int d ''filter_overlong_prompts_workers'') (\<lambda>w.
       Inr \<lparr>dc_train_files = t, dc_val_files = v, dc_max_prompt_length = p, dc_max_response_length = r,
            dc_filter_overlong_prompts = f, dc_filter_overlong_prompts_workers = w\<rparr>))))))"

text \<open>The attention backend may also be null.\<close>

definition build_rollout :: "pydict \<Rightarrow> rollout_config result" where
  "build_rollout d =
     bind_r (expect_str d ''name'') (\<lambda>name. bind_r (expect_str d ''dtype'') (\<lambda>dtype.
     bind_r (if dget d ''attention_backend'' = VNone then Inr None
             else bind_r (expect_str d ''attention_backend'') (\<lambda>x. Inr (Some x))) (\<lambda>attn.
     bind_r (expect_int d ''tensor_parallel_size'') (\<lambda>tp. bind_r (expect_int d ''sequence_parallel_size'') (\<lambda>sp.
     bind_r (expect_int d ''max_model_len'') (\<lambda>mml. bind_r (expect_int d ''max_num_batched_tokens'') (\<lambda>mnb.
     bind_r (expect_float d ''gpu_memory_utilization'') (\<lambda>gmu. bind_r (expect_int d ''max_topk'') (\<lambda>mtk.
     bind_r (expect_float d ''temperature'') (\<lambda>temp. bind_r (expect_float d ''top_p'') (\<lambda>top_p.
     bind_r (expect_int d ''top_k'') (\<lambda>top_k. bind_r (expect_float d ''gumbel_softmax_temperature'') (\<lambda>gst.
     bind_r (expect_float d ''noise_scale'') (\<lambda>ns. bind_r (expect_bool d ''enable_latent'') (\<lambda>el.
     bind_r (expect_bool d ''add_noise_gumbel_softmax'') (\<lambda>an. bind_r (expect_bool d ''use_one_sided_gumbel_noise'') (\<lambda>os.
     bind_r (expect_float d ''one_sided_gumbel_delta'') (\<lambda>od.
       Inr \<lparr>rc_name = name, rc_dtype = dtype, rc_attention_backend = attn, rc_tensor_parallel_size = tp,
            rc_sequence_parallel_size = sp, rc_max_model_len = mml, rc_max_num_batched_tokens = mnb,
            rc_gpu_memory_utilization = gmu, rc_max_topk = mtk, rc_temperature = temp, rc_top_p = top_p, rc_top_k = top_k,
            rc_gumbel_softmax_temperature = gst, rc_noise_scale = ns, rc_enable_latent = el, rc_add_noise_gumbel_softmax = an,
            rc_use_one_sided_gumbel_noise = os, rc_one_sided_gumbel_delta = od\<rparr>))))))))))))))))))"

definition build_training :: "pydict \<Rightarrow> training_config result" where
  "build_training d =
     bind_r (expect_int d ''max_steps'') (\<lambda>m. bind_r (expect_int d ''seed'') (\<lambda>s.
     bind_r (expect_int d ''filter_groups_max_num_gen_batches'') (\<lambda>f.
     bind_r (if has_key d ''pre_backward_monitor_probe'' then expect_bool d ''pre_backward_monitor_probe'' else Inr False) (\<lambda>p.
       Inr \<lparr>tc_max_steps = m, tc_seed = s, tc_filter_groups_max_num_gen_batches = f, tc_pre_backward_monitor_probe = p\<rparr>))))"

definition build_features :: "pydict \<Rightarrow> feature_config result" where
  "build_features d =
     bind_r (expect_bool d ''metrics_enabled'') (\<lambda>m. bind_r (expect_bool d ''support_enabled'') (\<lambda>s.
     bind_r (expect_bool d ''checkpoint_probe_enabled'') (\<lambda>c. bind_r (expect_bool d ''credit_probe_enabled'') (\<lambda>r.
       Inr \<lparr>fc_metrics_enabled = m, fc_support_enabled = s, fc_checkpoint_probe_enabled = c, fc_credit_probe_enabled = r\<rparr>))))"

definition build_config :: "(string \<Rightarrow> string) \<Rightarrow> pydict \<Rightarrow> resolved_config result" where
  "build_config resolve raw = as_config_error
    (bind_r (raw_section raw ''paths'') (\<lambda>rpaths.
     bind_r (map_r (\<lambda>(k, v). bind_r (resolve_workspace_path resolve v) (\<lambda>p. Inr (k, p))) rpaths) (\<lambda>paths.
     bind_r (expect_str raw ''profile_name'') (\<lambda>name. bind_r (expect_str raw ''profile_kind'') (\<lambda>kind.
     bind_r (expect_str raw ''description'') (\<lambda>desc.
     bind_r (bind_r (raw_section raw ''launcher'') (\<lambda>d. expect_str d ''mode'')) (\<lambda>mode.
     bind_r (bind_r (raw_section raw ''target_hardware'') (\<lambda>d. expect_int d ''required_gpus'')) (\<lambda>gpus.
     bind_r (bind_r (raw_section raw ''target_hardware'') (\<lambda>d. expect_int d ''min_vram_gb'')) (\<lambda>vram.
     bind_r (bind_r (raw_section raw ''batch'') build_batch) (\<lambda>batch.
     bind_r (bind_r (raw_section raw ''model'') build_model) (\<lambda>model.
     bind_r (bind_r (raw_section raw ''data'') build_data) (\<lambda>data.
     bind_r (bind_r (raw_section raw ''rollout'') build_rollout) (\<lambda>rollout.
     bind_r (bind_r (raw_section raw ''training'') build_training) (\<lambda>training.
     bind_r (bind_r (raw_section raw ''features'') build_features) (\<lambda>features.
     bind_r (bind_r (if has_key raw ''upstream_overrides'' then raw_section raw ''upstream_overrides'' else Inr []) build_upstream_overrides)
       (\<lambda>overrides.
       Inr \<lparr>rs_profile_name = name, rs_profile_kind = kind, rs_description = desc, rs_launcher_mode = mode,
            rs_hardware = \<lparr>hw_required_gpus = gpus, hw_min_vram_gb = vram\<rparr>, rs_batch = batch, rs_model = model, rs_data = data,
            rs_rollout = rollout, rs_training = training, rs_paths = paths, rs_features = features,
            rs_upstream_overrides = overrides, rs_resume_from = None\<rparr>))))))))))))))))"

section \<open>The semantic checks\<close>

text \<open>A sequence of \<open>if bad: raise ConfigError(message)\<close>.\<close>

fun first_error :: "(bool \<times> string) list \<Rightarrow> unit result" where
  "first_error [] = Inr ()"
| "first_error ((bad, message) # rest) = (if bad then Inl (ConfigError message) else first_error rest)"

lemma first_error_ok: "first_error cs = Inr u \<longleftrightarrow> (\<forall>c\<in>set cs. \<not> fst c)"
  by (induction cs rule: first_error.induct) auto

definition validate_upstream_overrides :: "pydict \<Rightarrow> unit result" where
  "validate_upstream_overrides values =
     first_error
       [(list_ex (\<lambda>kv. fst kv \<in> set topology_owned_upstream_overrides) values,
           ''topology-owned upstream override must use typed config fields''),
        (list_ex (\<lambda>kv. fst kv \<notin> set allowed_upstream_overrides) values, ''unsupported upstream override'')]"

definition all_offloads :: "resolved_config \<Rightarrow> bool" where
  "all_offloads c \<longleftrightarrow> mc_enable_gradient_checkpointing (rs_model c) \<and> mc_actor_param_offload (rs_model c) \<and>
     mc_actor_optimizer_offload (rs_model c) \<and> mc_ref_param_offload (rs_model c)"

definition batch_geometry :: "int \<Rightarrow> batch_config \<Rightarrow> bool" where
  "batch_geometry n b \<longleftrightarrow> bc_prompt_batch b = 2 \<and> bc_rollout_n b = n \<and> bc_mini_prompt_batch b = 1 \<and>
     bc_actor_micro_batch_per_gpu b = 1 \<and> bc_rollout_log_prob_micro_batch_per_gpu b = 1 \<and>
     bc_ref_log_prob_micro_batch_per_gpu b = 1 \<and> bc_ppo_epochs b = 1"

definition monitor_checks :: "resolved_config \<Rightarrow> (bool \<times> string) list" where
  "monitor_checks c =
    [(rs_profile_kind c \<noteq> ''monitor_probe'', ''kaggle-t4-monitor must use profile_kind=monitor_probe''),
     (hw_required_gpus (rs_hardware c) \<noteq> 2, ''kaggle-t4-monitor requires exactly 2 GPUs''),
     (\<not> tc_pre_backward_monitor_probe (rs_training c), ''kaggle-t4-monitor must stop before backward''),
     (tc_max_steps (rs_training c) \<noteq> 1, ''kaggle-t4-monitor must use max_steps=1''),
     (rc_dtype (rs_rollout c) \<notin> {''float16'', ''fp16''}, ''kaggle-t4-monitor requires FP16 runtime''),
     (mc_use_remove_padding (rs_model c), ''kaggle-t4-monitor requires padded SDPA actor path''),
     (rc_attention_backend (rs_rollout c) \<noteq> Some ''triton'', ''kaggle-t4-monitor requires SGLang Triton attention''),
     (\<not> all_offloads c, ''kaggle-t4-monitor requires checkpointing and all configured offloads''),
     (\<not> batch_geometry 2 (rs_batch c), ''kaggle-t4-monitor requires the fixed minimal monitor batch geometry''),
     (256 < dc_max_prompt_length (rs_data c) \<or> 32 < dc_max_response_length (rs_data c),
        ''kaggle-t4-monitor prompt/response limits exceed the monitor budget''),
     (dc_filter_overlong_prompts (rs_data c) \<noteq> Some True, ''kaggle-t4-monitor requires filter_overlong_prompts=true''),
     (dc_filter_overlong_prompts_workers (rs_data c) \<noteq> Some 1, ''kaggle-t4-monitor requires exactly one overlong-prompt filter worker''),
     (fl_less (Fin (30 / 100)) (rc_gpu_memory_utilization (rs_rollout c)),
        ''kaggle-t4-monitor SGLang memory utilization must stay <= 0.30'')]"

definition metric_checks :: "resolved_config \<Rightarrow> (bool \<times> string) list" where
  "metric_checks c =
    [(rs_profile_kind c \<noteq> ''metric_validation'', ''kaggle-t4-30-metric must use profile_kind=metric_validation''),
     (hw_required_gpus (rs_hardware c) \<noteq> 2, ''kaggle-t4-30-metric requires exactly 2 GPUs''),
     (tc_pre_backward_monitor_probe (rs_training c) \<or> tc_max_steps (rs_training c) \<noteq> 1, ''kaggle-t4-30-metric requires one real actor update''),
     (rc_dtype (rs_rollout c) \<notin> {''float16'', ''fp16''}, ''kaggle-t4-30-metric requires FP16 runtime''),
     (mc_use_remove_padding (rs_model c), ''kaggle-t4-30-metric requires padded SDPA actor path''),
     (rc_attention_backend (rs_rollout c) \<noteq> Some ''triton'', ''kaggle-t4-30-metric requires SGLang Triton attention''),
     (\<not> all_offloads c, ''kaggle-t4-30-metric requires checkpointing and all configured offloads''),
     (\<not> batch_geometry 4 (rs_batch c), ''kaggle-t4-30-metric requires the fixed minimal validation batch geometry''),
     (256 < dc_max_prompt_length (rs_data c) \<or> 32 < dc_max_response_length (rs_data c),
        ''kaggle-t4-30-metric prompt/response limits exceed the T4 budget''),
     (dc_filter_overlong_prompts (rs_data c) \<noteq> Some True \<or> dc_filter_overlong_prompts_workers (rs_data c) \<noteq> Some 1,
        ''kaggle-t4-30-metric requires one overlong-prompt filter worker''),
     (fl_less (Fin (25 / 100)) (rc_gpu_memory_utilization (rs_rollout c)),
        ''kaggle-t4-30-metric SGLang memory utilization must stay <= 0.25''),
     (\<not> (fc_metrics_enabled (rs_features c) \<and> fc_support_enabled (rs_features c) \<and>
          fc_checkpoint_probe_enabled (rs_features c) \<and> fc_credit_probe_enabled (rs_features c)),
        ''kaggle-t4-30-metric requires all metric feature flags'')]"

definition profile_checks :: "resolved_config \<Rightarrow> (bool \<times> string) list" where
  "profile_checks c =
    [(rs_profile_name c \<notin> set supported_profiles, ''unsupported profile''),
     (rs_launcher_mode c \<notin> {''ray_direct'', ''torchrun_control''}, ''launcher.mode must be ray_direct or torchrun_control''),
     (rc_name (rs_rollout c) \<noteq> ''sglang'', ''Latent-GRPO profiles must use the observed sglang rollout''),
     (rc_attention_backend (rs_rollout c) \<notin> {None, Some ''flashinfer'', Some ''triton'', Some ''torch_native''},
        ''rollout.attention_backend must be flashinfer, triton, torch_native, or omitted''),
     (rc_tensor_parallel_size (rs_rollout c) \<noteq> 1 \<or> rc_sequence_parallel_size (rs_rollout c) \<noteq> 1, ''initial profiles require TP=1 and SP=1''),
     (take 5 (rs_profile_name c) = ''3gpu-'' \<and> hw_required_gpus (rs_hardware c) \<noteq> 3, ''3gpu profile requires exactly 3 GPUs''),
     (rs_profile_name c = ''smoke'' \<and> hw_required_gpus (rs_hardware c) \<noteq> 1, ''smoke profile requires exactly 1 GPU'')] @
    (if rs_profile_name c = ''kaggle-t4-monitor'' then monitor_checks c
     else if rs_profile_name c = ''kaggle-t4-30-metric'' then metric_checks c
     else [(tc_pre_backward_monitor_probe (rs_training c), ''pre_backward_monitor_probe is reserved for kaggle-t4-monitor'')])"

text \<open>Python's \<open>//\<close> and \<open>%\<close> agree with \<open>div\<close> and \<open>mod\<close> on int; division by zero raises.\<close>

definition floor_div :: "int \<Rightarrow> int \<Rightarrow> int result" where
  "floor_div a b = (if b = 0 then Inl ZeroDivisionError else Inr (a div b))"

definition batch_arithmetic :: "resolved_config \<Rightarrow> (int \<times> int \<times> int \<times> int) result" where
  "batch_arithmetic c =
     (let b = rs_batch c in
      bind_r (floor_div (hw_required_gpus (rs_hardware c)) (rc_sequence_parallel_size (rs_rollout c))) (\<lambda>divisor.
      bind_r (floor_div (bc_prompt_batch b * bc_rollout_n b) divisor) (\<lambda>local_batch.
      bind_r (floor_div (bc_mini_prompt_batch b * bc_rollout_n b) divisor) (\<lambda>local_mini.
      bind_r (floor_div local_mini (bc_actor_micro_batch_per_gpu b)) (\<lambda>accumulation.
      bind_r (floor_div (bc_ppo_epochs b * bc_prompt_batch b) (bc_mini_prompt_batch b)) (\<lambda>attempts.
        Inr (local_batch, local_mini, accumulation, attempts)))))))"

definition positive_values :: "resolved_config \<Rightarrow> int list" where
  "positive_values c =
     (let b = rs_batch c in
      [hw_required_gpus (rs_hardware c), hw_min_vram_gb (rs_hardware c), bc_prompt_batch b, bc_rollout_n b, bc_mini_prompt_batch b,
       bc_actor_micro_batch_per_gpu b, bc_rollout_log_prob_micro_batch_per_gpu b, bc_ref_log_prob_micro_batch_per_gpu b,
       bc_ppo_epochs b, tc_max_steps (rs_training c), dc_max_prompt_length (rs_data c), dc_max_response_length (rs_data c)])"

definition world_checks :: "resolved_config \<Rightarrow> (bool \<times> string) list" where
  "world_checks c =
     (let b = rs_batch c; world = hw_required_gpus (rs_hardware c) in
      [((bc_prompt_batch b * bc_rollout_n b) mod world \<noteq> 0, ''prompt_batch * rollout_n must divide across the GPU world''),
       ((bc_mini_prompt_batch b * bc_rollout_n b) mod world \<noteq> 0, ''mini_prompt_batch * rollout_n must divide across the GPU world''),
       (bc_prompt_batch b mod bc_mini_prompt_batch b \<noteq> 0, ''prompt_batch must divide evenly into mini_prompt_batch'')])"

definition rank_checks :: "resolved_config \<Rightarrow> int \<Rightarrow> int \<Rightarrow> (bool \<times> string) list" where
  "rank_checks c local_batch local_mini =
     (let b = rs_batch c; r = rs_rollout c in
      [(local_batch mod local_mini \<noteq> 0, ''per-rank batch must divide evenly into per-rank mini batch''),
       (local_mini mod bc_actor_micro_batch_per_gpu b \<noteq> 0, ''per-rank mini batch must divide actor micro batch''),
       (local_batch mod bc_rollout_log_prob_micro_batch_per_gpu b \<noteq> 0, ''per-rank batch must divide rollout log-prob micro batch''),
       (local_batch mod bc_ref_log_prob_micro_batch_per_gpu b \<noteq> 0, ''per-rank batch must divide ref log-prob micro batch''),
       (rc_max_model_len r < dc_max_prompt_length (rs_data c) + dc_max_response_length (rs_data c),
          ''max_model_len must cover prompt and response lengths''),
       (mc_latent_end_token_id (rs_model c) < 0 \<or> mc_latent_end_token (rs_model c) = [], ''latent-end token configuration is incomplete''),
       (fc_credit_probe_enabled (rs_features c) \<and> \<not> fc_checkpoint_probe_enabled (rs_features c),
          ''credit_probe_enabled requires checkpoint_probe_enabled=true''),
       (\<not> (fl_less (Fin 0) (rc_gpu_memory_utilization r) \<and> fl_le (rc_gpu_memory_utilization r) (Fin 1)),
          ''gpu_memory_utilization must be in (0, 1]''),
       (\<not> fl_less (Fin 0) (rc_temperature r) \<or> \<not> fl_less (Fin 0) (rc_gumbel_softmax_temperature r), ''rollout temperatures must be positive''),
       (\<not> isfinite (rc_one_sided_gumbel_delta r) \<or> fl_less (rc_one_sided_gumbel_delta r) (Fin 0),
          ''one_sided_gumbel_delta must be finite and non-negative''),
       (\<not> (fl_less (Fin 0) (rc_top_p r) \<and> fl_le (rc_top_p r) (Fin 1)), ''top_p must be in (0, 1]'')])"

definition validate_semantics :: "(string \<Rightarrow> bool) \<Rightarrow> resolved_config \<Rightarrow> unit result" where
  "validate_semantics is_dir c =
     bind_r (first_error [(take 6 (rs_profile_name c) = ''paper-'' \<or> rs_profile_kind c = ''paper'',
                           ''paper profiles are not accepted as engineering profiles'')]) (\<lambda>_.
     bind_r (validate_upstream_overrides (rs_upstream_overrides c)) (\<lambda>_.
     bind_r (first_error (profile_checks c)) (\<lambda>_.
     bind_r (case map_of (rs_paths c) ''upstream_repo_path'' of None \<Rightarrow> Inl KeyError
             | Some p \<Rightarrow> check_r (is_dir p) (ConfigError ''upstream_repo_path does not exist'')) (\<lambda>_.
     bind_r (check_r (list_all (\<lambda>v. 0 < v) (positive_values c)) (ConfigError ''all capacity and batch fields must be positive'')) (\<lambda>_.
     bind_r (first_error (world_checks c)) (\<lambda>_.
     bind_r (batch_arithmetic c) (\<lambda>(local_batch, local_mini, _, _).
       first_error (rank_checks c local_batch local_mini))))))))"

definition load_config :: "(string \<Rightarrow> string) \<Rightarrow> (string \<Rightarrow> bool) \<Rightarrow> pyval \<Rightarrow> resolved_config result" where
  "load_config resolve is_dir loaded =
     (case as_dict loaded of
        None \<Rightarrow> Inl (ConfigError ''config root must be a mapping'')
      | Some raw \<Rightarrow>
          bind_r (validate_structure raw) (\<lambda>_.
          bind_r (build_config resolve raw) (\<lambda>c.
          bind_r (validate_semantics is_dir c) (\<lambda>_. Inr c))))"


section \<open>Hydra overrides\<close>

definition hydra_value :: "(fl \<Rightarrow> string) \<Rightarrow> pyval \<Rightarrow> string" where
  "hydra_value show_float v = (case v of
       VBool b \<Rightarrow> if b then ''true'' else ''false''
     | VInt i \<Rightarrow> int_str i
     | VFloat x \<Rightarrow> show_float x
     | VStr s \<Rightarrow> s
     | _ \<Rightarrow> ''None'')"

text \<open>The entries that come from typed fields, in order.\<close>

definition typed_overrides :: "resolved_config \<Rightarrow> string \<Rightarrow> pydict" where
  "typed_overrides c output_root =
    (let b = rs_batch c; m = rs_model c; d = rs_data c; r = rs_rollout c in
     [(''algorithm.adv_estimator'', VStr ''grpo''),
      (''data.train_files'', VStr (dc_train_files d)),
      (''data.val_files'', VStr (dc_val_files d)),
      (''data.train_batch_size'', VInt (bc_prompt_batch b)),
      (''data.max_prompt_length'', VInt (dc_max_prompt_length d)),
      (''data.max_response_length'', VInt (dc_max_response_length d)),
      (''actor_rollout_ref.model.path'', VStr (mc_path m)),
      (''actor_rollout_ref.model.use_remove_padding'', VBool (mc_use_remove_padding m)),
      (''actor_rollout_ref.model.enable_gradient_checkpointing'', VBool (mc_enable_gradient_checkpointing m)),
      (''actor_rollout_ref.actor.ppo_mini_batch_size'', VInt (bc_mini_prompt_batch b)),
      (''actor_rollout_ref.actor.ppo_micro_batch_size_per_gpu'', VInt (bc_actor_micro_batch_per_gpu b)),
      (''actor_rollout_ref.actor.ppo_epochs'', VInt (bc_ppo_epochs b)),
      (''actor_rollout_ref.actor.use_kl_loss'', VBool (mc_use_kl_loss m)),
      (''actor_rollout_ref.actor.fsdp_config.param_offload'', VBool (mc_actor_param_offload m)),
      (''actor_rollout_ref.actor.fsdp_config.optimizer_offload'', VBool (mc_actor_optimizer_offload m)),
      (''actor_rollout_ref.actor.ulysses_sequence_parallel_size'', VInt (rc_sequence_parallel_size r)),
      (''actor_rollout_ref.rollout.name'', VStr (rc_name r)),
      (''actor_rollout_ref.rollout.dtype'', VStr (rc_dtype r)),
      (''actor_rollout_ref.rollout.tensor_model_parallel_size'', VInt (rc_tensor_parallel_size r)),
      (''actor_rollout_ref.rollout.log_prob_micro_batch_size_per_gpu'', VInt (bc_rollout_log_prob_micro_batch_per_gpu b)),
      (''actor_rollout_ref.rollout.max_model_len'', VInt (rc_max_model_len r)),
      (''actor_rollout_ref.rollout.max_num_batched_tokens'', VInt (rc_max_num_batched_tokens r)),
      (''actor_rollout_ref.rollout.gpu_memory_utilization'', VFloat (rc_gpu_memory_utilization r)),
      (''actor_rollout_ref.rollout.max_topk'', VInt (rc_max_topk r)),
      (''actor_rollout_ref.rollout.temperature'', VFloat (rc_temperature r)),
      (''actor_rollout_ref.rollout.top_p'', VFloat (rc_top_p r)),
      (''actor_rollout_ref.rollout.top_k'', VInt (rc_top_k r)),
      (''actor_rollout_ref.rollout.gumbel_softmax_temperature'', VFloat (rc_gumbel_softmax_temperature r)),
      (''actor_rollout_ref.rollout.noise_scale'', VFloat (rc_noise_scale r)),
      (''actor_rollout_ref.rollout.enable_latent'', VBool (rc_enable_latent r)),
      (''actor_rollout_ref.rollout.latent_end_token_id'', VInt (mc_latent_end_token_id m)),
      (''actor_rollout_ref.rollout.add_noise_gumbel_softmax'', VBool (rc_add_noise_gumbel_softmax r)),
      (''actor_rollout_ref.rollout.use_one_sided_gumbel_noise'', VBool (rc_use_one_sided_gumbel_noise r)),
      (''actor_rollout_ref.rollout.one_sided_gumbel_delta'', VFloat (rc_one_sided_gumbel_delta r)),
      (''actor_rollout_ref.rollout.n'', VInt (bc_rollout_n b)),
      (''actor_rollout_ref.ref.log_prob_micro_batch_size_per_gpu'', VInt (bc_ref_log_prob_micro_batch_per_gpu b)),
      (''actor_rollout_ref.ref.fsdp_config.param_offload'', VBool (mc_ref_param_offload m)),
      (''algorithm.filter_groups.enable'', VBool True),
      (''algorithm.filter_groups.max_num_gen_batches'', VInt (tc_filter_groups_max_num_gen_batches (rs_training c))),
      (''trainer.n_gpus_per_node'', VInt (hw_required_gpus (rs_hardware c))),
      (''trainer.nnodes'', VInt 1),
      (''trainer.default_local_dir'', VStr output_root)])"

definition option_entry :: "string \<Rightarrow> ('a \<Rightarrow> pyval) \<Rightarrow> 'a option \<Rightarrow> pydict" where
  "option_entry key f x = (case x of None \<Rightarrow> [] | Some v \<Rightarrow> [(key, f v)])"

text \<open>The entries that are set after those of the profile, in order.\<close>

definition late_overrides :: "resolved_config \<Rightarrow> pydict" where
  "late_overrides c =
     option_entry ''data.filter_overlong_prompts'' VBool (dc_filter_overlong_prompts (rs_data c)) @
     option_entry ''data.filter_overlong_prompts_workers'' VInt (dc_filter_overlong_prompts_workers (rs_data c)) @
     option_entry ''actor_rollout_ref.rollout.engine_kwargs.sglang.attention_backend'' VStr (rc_attention_backend (rs_rollout c)) @
     (if tc_pre_backward_monitor_probe (rs_training c)
      then [(''trainer.pre_backward_monitor_probe'', VBool True), (''trainer.val_before_train'', VBool False),
            (''trainer.test_freq'', VInt (-1)), (''trainer.save_freq'', VInt (-1)), (''trainer.logger'', VStr ''[console]'')]
      else if rs_profile_name c = ''kaggle-t4-30-metric''
      then [(''trainer.val_before_train'', VBool False), (''trainer.test_freq'', VInt (-1)), (''trainer.save_freq'', VInt 1),
            (''trainer.logger'', VStr ''[console]''), (''actor_rollout_ref.actor.checkpoint.contents'', VStr ''[model,extra]''),
            (''trainer.resume_mode'', VStr ''disable'')]
      else []) @
     (case rs_resume_from c of None \<Rightarrow> []
      | Some p \<Rightarrow> [(''trainer.resume_mode'', VStr ''resume_path''), (''trainer.resume_from_path'', VStr p)])"

definition override_values :: "resolved_config \<Rightarrow> pydict result" where
  "override_values c =
     (case map_of (rs_paths c) ''output_root'' of
        None \<Rightarrow> Inl KeyError
      | Some output_root \<Rightarrow>
          let values = typed_overrides c output_root @
                (if rs_profile_kind c \<noteq> ''formal_training''
                 then [(''trainer.total_training_steps'', VInt (tc_max_steps (rs_training c)))] else [])
          in Inr (dupdate (dupdate values (rs_upstream_overrides c)) (late_overrides c)))"

definition author_hydra_overrides :: "(fl \<Rightarrow> string) \<Rightarrow> resolved_config \<Rightarrow> string list result" where
  "author_hydra_overrides show_float c =
     bind_r (override_values c) (\<lambda>values. Inr (map (\<lambda>(k, v). k @ ''='' @ hydra_value show_float v) values))"

section \<open>Hashes\<close>

text \<open>\<open>relative p\<close> is \<open>p\<close> relative to the workspace root, if it lies in it; \<open>sha\<close> is SHA-256 in hex.\<close>

definition safe_relative_path :: "(string \<Rightarrow> string option) \<Rightarrow> (string \<Rightarrow> string) \<Rightarrow> string \<Rightarrow> string" where
  "safe_relative_path relative sha p = (case relative p of Some r \<Rightarrow> r | None \<Rightarrow> ''external:'' @ sha p)"

definition hashable_mapping :: "(string \<Rightarrow> string option) \<Rightarrow> (string \<Rightarrow> string) \<Rightarrow> resolved_config \<Rightarrow> pydict" where
  "hashable_mapping relative sha c =
    (let b = rs_batch c; m = rs_model c; d = rs_data c; r = rs_rollout c; t = rs_training c; f = rs_features c;
         safe = safe_relative_path relative sha in
     [(''profile_name'', VStr (rs_profile_name c)), (''profile_kind'', VStr (rs_profile_kind c)),
      (''launcher'', VDict [(''mode'', VStr (rs_launcher_mode c))]),
      (''hardware'', VDict [(''required_gpus'', VInt (hw_required_gpus (rs_hardware c))), (''min_vram_gb'', VInt (hw_min_vram_gb (rs_hardware c)))]),
      (''batch'', VDict
        [(''prompt_batch'', VInt (bc_prompt_batch b)), (''rollout_n'', VInt (bc_rollout_n b)), (''mini_prompt_batch'', VInt (bc_mini_prompt_batch b)),
         (''actor_micro_batch_per_gpu'', VInt (bc_actor_micro_batch_per_gpu b)),
         (''rollout_log_prob_micro_batch_per_gpu'', VInt (bc_rollout_log_prob_micro_batch_per_gpu b)),
         (''ref_log_prob_micro_batch_per_gpu'', VInt (bc_ref_log_prob_micro_batch_per_gpu b)), (''ppo_epochs'', VInt (bc_ppo_epochs b))]),
      (''model'', VDict
        [(''path'', VStr (mc_path m)), (''latent_end_token_id'', VInt (mc_latent_end_token_id m)), (''latent_end_token'', VStr (mc_latent_end_token m)),
         (''latent_end_source'', VStr (mc_latent_end_source m)), (''use_remove_padding'', VBool (mc_use_remove_padding m)),
         (''enable_gradient_checkpointing'', VBool (mc_enable_gradient_checkpointing m)), (''actor_param_offload'', VBool (mc_actor_param_offload m)),
         (''actor_optimizer_offload'', VBool (mc_actor_optimizer_offload m)), (''ref_param_offload'', VBool (mc_ref_param_offload m)),
         (''use_kl_loss'', VBool (mc_use_kl_loss m))]),
      (''data'', VDict
        ([(''train_files'', VStr (dc_train_files d)), (''val_files'', VStr (dc_val_files d)),
          (''max_prompt_length'', VInt (dc_max_prompt_length d)), (''max_response_length'', VInt (dc_max_response_length d))] @
         option_entry ''filter_overlong_prompts'' VBool (dc_filter_overlong_prompts d) @
         option_entry ''filter_overlong_prompts_workers'' VInt (dc_filter_overlong_prompts_workers d))),
      (''rollout'', VDict
        [(''name'', VStr (rc_name r)), (''dtype'', VStr (rc_dtype r)),
         (''attention_backend'', (case rc_attention_backend r of None \<Rightarrow> VNone | Some s \<Rightarrow> VStr s)),
         (''tensor_parallel_size'', VInt (rc_tensor_parallel_size r)), (''sequence_parallel_size'', VInt (rc_sequence_parallel_size r)),
         (''max_model_len'', VInt (rc_max_model_len r)), (''max_num_batched_tokens'', VInt (rc_max_num_batched_tokens r)),
         (''gpu_memory_utilization'', VFloat (rc_gpu_memory_utilization r)), (''max_topk'', VInt (rc_max_topk r)),
         (''temperature'', VFloat (rc_temperature r)), (''top_p'', VFloat (rc_top_p r)), (''top_k'', VInt (rc_top_k r)),
         (''gumbel_softmax_temperature'', VFloat (rc_gumbel_softmax_temperature r)), (''noise_scale'', VFloat (rc_noise_scale r)),
         (''enable_latent'', VBool (rc_enable_latent r)), (''add_noise_gumbel_softmax'', VBool (rc_add_noise_gumbel_softmax r)),
         (''use_one_sided_gumbel_noise'', VBool (rc_use_one_sided_gumbel_noise r)), (''one_sided_gumbel_delta'', VFloat (rc_one_sided_gumbel_delta r))]),
      (''training'', VDict
        [(''max_steps'', VInt (tc_max_steps t)), (''seed'', VInt (tc_seed t)),
         (''filter_groups_max_num_gen_batches'', VInt (tc_filter_groups_max_num_gen_batches t)),
         (''pre_backward_monitor_probe'', VBool (tc_pre_backward_monitor_probe t))]),
      (''paths'', VDict (map (\<lambda>(k, p). (k, VStr (safe p))) (rs_paths c))),
      (''features'', VDict
        [(''metrics_enabled'', VBool (fc_metrics_enabled f)), (''support_enabled'', VBool (fc_support_enabled f)),
         (''checkpoint_probe_enabled'', VBool (fc_checkpoint_probe_enabled f)), (''credit_probe_enabled'', VBool (fc_credit_probe_enabled f))]),
      (''upstream_overrides'', VDict (rs_upstream_overrides c)),
      (''resume_from'', (case rs_resume_from c of None \<Rightarrow> VNone | Some p \<Rightarrow> VStr (safe p)))])"

text \<open>\<open>digest\<close> is SHA-256 of the JSON text of a document, whose keys are sorted.\<close>

definition config_hash :: "(string \<Rightarrow> string option) \<Rightarrow> (string \<Rightarrow> string) \<Rightarrow> (pyval \<Rightarrow> string) \<Rightarrow> resolved_config \<Rightarrow> string" where
  "config_hash relative sha digest c = digest (canonical (VDict (hashable_mapping relative sha c)))"

definition resume_compatibility_hash ::
  "(string \<Rightarrow> string option) \<Rightarrow> (string \<Rightarrow> string) \<Rightarrow> (pyval \<Rightarrow> string) \<Rightarrow> resolved_config \<Rightarrow> string" where
  "resume_compatibility_hash relative sha digest c =
     digest (canonical (VDict (dset (hashable_mapping relative sha c) ''resume_from'' VNone)))"

section \<open>Overrides of the command line\<close>

definition with_launcher_mode :: "string \<Rightarrow> resolved_config \<Rightarrow> resolved_config result" where
  "with_launcher_mode mode c =
     bind_r (check_r (mode \<in> {''ray_direct'', ''torchrun_control''}) (ConfigError ''unsupported launcher mode'')) (\<lambda>_.
       Inr (c\<lparr>rs_launcher_mode := mode\<rparr>))"

record runtime_overrides =
  ro_seed :: "int option"
  ro_output_root :: "string option"
  ro_max_steps :: "int option"
  ro_resume_from :: "string option"
  ro_model_path :: "string option"
  ro_train_files :: "string option"
  ro_val_files :: "string option"
  ro_support_enabled :: "bool option"
  ro_metrics_enabled :: "bool option"
  ro_checkpoint_probe_enabled :: "bool option"
  ro_credit_probe_enabled :: "bool option"

definition runtime_checks :: "runtime_overrides \<Rightarrow> resolved_config \<Rightarrow> (bool \<times> string) list" where
  "runtime_checks ro c =
    (rs_profile_name c = ''kaggle-t4-30-metric'' \<and> ro_resume_from ro \<noteq> None,
       ''kaggle-t4-30-metric lightweight checkpoint does not support checkpoint resume'') #
    (if tc_pre_backward_monitor_probe (rs_training c)
     then [(ro_max_steps ro \<notin> {None, Some 1}, ''kaggle-t4-monitor cannot override max_steps beyond 1''),
           (ro_resume_from ro \<noteq> None, ''kaggle-t4-monitor does not support checkpoint resume''),
           (ro_metrics_enabled ro = Some False, ''kaggle-t4-monitor requires metrics_enabled=true''),
           (ro_support_enabled ro = Some True \<or> ro_checkpoint_probe_enabled ro = Some True \<or> ro_credit_probe_enabled ro = Some True,
              ''kaggle-t4-monitor forbids extra support/checkpoint/credit probes'')]
     else [])"

definition orelse :: "'a option \<Rightarrow> 'a \<Rightarrow> 'a" where
  "orelse x y = (case x of None \<Rightarrow> y | Some v \<Rightarrow> v)"

definition apply_overrides :: "runtime_overrides \<Rightarrow> (string \<times> string) list \<Rightarrow> string option \<Rightarrow> resolved_config \<Rightarrow> resolved_config" where
  "apply_overrides ro paths resume c =
     c\<lparr>rs_training := (rs_training c)\<lparr>tc_seed := orelse (ro_seed ro) (tc_seed (rs_training c)),
                        tc_max_steps := orelse (ro_max_steps ro) (tc_max_steps (rs_training c))\<rparr>,
       rs_model := (rs_model c)\<lparr>mc_path := orelse (ro_model_path ro) (mc_path (rs_model c))\<rparr>,
       rs_data := (rs_data c)\<lparr>dc_train_files := orelse (ro_train_files ro) (dc_train_files (rs_data c)),
                    dc_val_files := orelse (ro_val_files ro) (dc_val_files (rs_data c))\<rparr>,
       rs_features := \<lparr>fc_metrics_enabled = orelse (ro_metrics_enabled ro) (fc_metrics_enabled (rs_features c)),
                    fc_support_enabled = orelse (ro_support_enabled ro) (fc_support_enabled (rs_features c)),
                    fc_checkpoint_probe_enabled = orelse (ro_checkpoint_probe_enabled ro) (fc_checkpoint_probe_enabled (rs_features c)),
                    fc_credit_probe_enabled = orelse (ro_credit_probe_enabled ro) (fc_credit_probe_enabled (rs_features c))\<rparr>,
       rs_paths := paths, rs_resume_from := resume\<rparr>"

definition resolve_option :: "(string \<Rightarrow> string) \<Rightarrow> string option \<Rightarrow> string option result" where
  "resolve_option resolve x =
     (case x of None \<Rightarrow> Inr None | Some p \<Rightarrow> bind_r (resolve_workspace_path resolve (VStr p)) (\<lambda>r. Inr (Some r)))"

definition with_runtime_overrides ::
  "(string \<Rightarrow> string) \<Rightarrow> (string \<Rightarrow> bool) \<Rightarrow> runtime_overrides \<Rightarrow> resolved_config \<Rightarrow> resolved_config result" where
  "with_runtime_overrides resolve is_dir ro c =
     bind_r (first_error (runtime_checks ro c)) (\<lambda>_.
     bind_r (resolve_option resolve (ro_output_root ro)) (\<lambda>out.
     bind_r (resolve_option resolve (ro_resume_from ro)) (\<lambda>resume.
       let paths = (case out of None \<Rightarrow> rs_paths c | Some p \<Rightarrow> AList.update ''output_root'' p (rs_paths c));
           resolved = apply_overrides ro paths resume c
       in bind_r (validate_semantics is_dir resolved) (\<lambda>_. Inr resolved))))"

section \<open>The latent-end token\<close>

text \<open>
  \<open>encode\<close> is the tokenizer's answer for the marker: None when it raises.  Vocabulary sizes are the values
  of the attributes (None when absent).
\<close>

definition validate_latent_end_token :: "model_config \<Rightarrow> bool \<Rightarrow> pyval \<Rightarrow> pyval \<Rightarrow> (string \<Rightarrow> pyval option) \<Rightarrow> pydict result" where
  "validate_latent_end_token m present tokenizer_vocab_size model_vocab_size encode =
     bind_r (check_r present (ConfigError ''latent-end validation requires both tokenizer and model config'')) (\<lambda>_.
     (case tokenizer_vocab_size of
        VInt tv \<Rightarrow>
          (case model_vocab_size of
             VInt mv \<Rightarrow>
               if tv \<le> mc_latent_end_token_id m \<or> mv \<le> mc_latent_end_token_id m
               then Inl (ConfigError ''latent-end token ID is outside tokenizer/model vocabulary'')
               else (case encode (mc_latent_end_token m) of
                       None \<Rightarrow> Inl (ConfigError ''tokenizer could not encode configured latent-end marker'')
                     | Some (VList (i # ids)) \<Rightarrow>
                         if \<not> list_all is_int (i # ids)
                         then Inl (ConfigError ''configured latent-end marker did not produce valid tokenizer IDs'')
                         else if i \<noteq> VInt (mc_latent_end_token_id m)
                         then Inl (ConfigError ''configured latent-end token ID does not match the first tokenizer ID of the latent-end marker'')
                         else Inr [(''latent_end_token_id'', VInt (mc_latent_end_token_id m)),
                                   (''latent_end_token'', VStr (mc_latent_end_token m)),
                                   (''latent_end_source'', VStr (mc_latent_end_source m)),
                                   (''latent_end_validation_status'', VStr ''validated'')]
                     | Some _ \<Rightarrow> Inl (ConfigError ''configured latent-end marker did not produce valid tokenizer IDs''))
           | _ \<Rightarrow> Inl (ConfigError ''model vocab_size is unavailable for latent-end validation''))
      | _ \<Rightarrow> Inl (ConfigError ''tokenizer vocab_size is unavailable for latent-end validation'')))"

end
