(* ===== verification/RunConfigOk.thy ===== *)
theory RunConfigOk
  imports RunConfig
begin

text \<open>
  What a validated profile promises: the batch arithmetic divides exactly on every rank, the typed fields own
  their Hydra keys whatever the profile's \<open>upstream_overrides\<close> say, and the hash that a resumed run is
  compared with does not depend on the checkpoint it resumes from.
\<close>

section \<open>Reading off the checks\<close>

lemma validate_semantics_iff:
  "validate_semantics is_dir c = Inr () \<longleftrightarrow>
     take 6 (rs_profile_name c) \<noteq> ''paper-'' \<and> rs_profile_kind c \<noteq> ''paper'' \<and>
     validate_upstream_overrides (rs_upstream_overrides c) = Inr () \<and>
     first_error (profile_checks c) = Inr () \<and>
     (\<exists>p. map_of (rs_paths c) ''upstream_repo_path'' = Some p \<and> is_dir p) \<and>
     (\<forall>v\<in>set (positive_values c). 0 < v) \<and>
     first_error (world_checks c) = Inr () \<and>
     (\<exists>lb lm acc att. batch_arithmetic c = Inr (lb, lm, acc, att) \<and> first_error (rank_checks c lb lm) = Inr ())"
  by (auto simp: validate_semantics_def bind_r_Inr_iff list_all_iff split: option.splits if_splits)

lemma profile_checks_sequence_parallel:
  "first_error (profile_checks c) = Inr () \<Longrightarrow> rc_sequence_parallel_size (rs_rollout c) = 1"
  by (simp add: profile_checks_def split: if_splits)

lemma exact_floor_div: "0 < b \<Longrightarrow> b dvd a \<Longrightarrow> floor_div a b = Inr q \<Longrightarrow> b * q = (a :: int)"
  by (auto simp: floor_div_def split: if_splits)


lemma batch_arithmetic_Inr:
  "batch_arithmetic c = Inr (lb, lm, acc, att) \<Longrightarrow> rc_sequence_parallel_size (rs_rollout c) = 1 \<Longrightarrow>
   floor_div (bc_prompt_batch (rs_batch c) * bc_rollout_n (rs_batch c)) (hw_required_gpus (rs_hardware c)) = Inr lb \<and>
   floor_div (bc_mini_prompt_batch (rs_batch c) * bc_rollout_n (rs_batch c)) (hw_required_gpus (rs_hardware c)) = Inr lm \<and>
   floor_div lm (bc_actor_micro_batch_per_gpu (rs_batch c)) = Inr acc \<and>
   floor_div (bc_ppo_epochs (rs_batch c) * bc_prompt_batch (rs_batch c)) (bc_mini_prompt_batch (rs_batch c)) = Inr att"
  by (auto simp: batch_arithmetic_def Let_def bind_r_Inr_iff floor_div_def[of "hw_required_gpus (rs_hardware c)" 1])

text \<open>\<open>w\<close> ranks share \<open>p * n\<close> trajectories in mini batches of \<open>m * n\<close>.\<close>

lemma attempts_cover:
  fixes w p n m e :: int
  assumes "w * lb = p * n" "w * lm = m * n" "m * att = e * p" "0 < w" "0 < m"
  shows "att * lm = e * lb"
proof -
  have "(w * m) * (att * lm) = (m * att) * (w * lm)" by (simp add: algebra_simps)
  also have "\<dots> = (e * p) * (m * n)" using assms by simp
  also have "\<dots> = (w * m) * (e * lb)" using assms(1) by (simp add: algebra_simps)
  finally show ?thesis using assms by simp
qed

section \<open>The keys of the Hydra overrides\<close>

lemma distinct_dupdate: "distinct (map fst d) \<Longrightarrow> distinct (map fst (dupdate d e))"
proof -
  have "distinct (map fst d) \<Longrightarrow> distinct (map fst (foldl (\<lambda>d kv. dset d (fst kv) (snd kv)) d e))" for d
    by (induction e arbitrary: d) (simp_all add: distinct_update)
  then show "distinct (map fst d) \<Longrightarrow> distinct (map fst (dupdate d e))"
    by (simp add: dupdate_def)
qed

lemma map_of_dupdate_other: "k \<notin> fst ` set e \<Longrightarrow> map_of (dupdate d e) k = map_of d k"
  by (auto simp: map_of_dupdate split: option.splits dest!: map_of_SomeD intro: rev_image_eqI)

text \<open>The keys of the typed entries, and those that \<open>late_overrides\<close> may set.\<close>

definition typed_keys :: "string list" where
  "typed_keys = map fst (typed_overrides \<lparr>rs_profile_name = [], rs_profile_kind = [], rs_description = [], rs_launcher_mode = [],
     rs_hardware = undefined, rs_batch = undefined, rs_model = undefined, rs_data = undefined, rs_rollout = undefined,
     rs_training = undefined, rs_paths = [], rs_features = undefined, rs_upstream_overrides = [], rs_resume_from = None\<rparr> [])"

lemma typed_keys: "map fst (typed_overrides c out) = typed_keys"
  by (simp add: typed_keys_def typed_overrides_def Let_def)

lemma typed_keys_distinct: "distinct typed_keys"
  by (simp add: typed_keys_def typed_overrides_def Let_def)

lemma typed_keys_not_upstream: "k \<in> set allowed_upstream_overrides \<Longrightarrow> k \<notin> set typed_keys"
  by (auto simp: typed_keys_def typed_overrides_def Let_def allowed_upstream_overrides_def)

lemma total_steps_fresh: "''trainer.total_training_steps'' \<notin> set typed_keys"
    "''trainer.total_training_steps'' \<notin> set allowed_upstream_overrides"
  by (simp_all add: typed_keys_def typed_overrides_def Let_def allowed_upstream_overrides_def)

definition late_keys :: "string list" where
  "late_keys = [''data.filter_overlong_prompts'', ''data.filter_overlong_prompts_workers'',
     ''actor_rollout_ref.rollout.engine_kwargs.sglang.attention_backend'', ''trainer.pre_backward_monitor_probe'',
     ''trainer.val_before_train'', ''trainer.test_freq'', ''trainer.save_freq'', ''trainer.logger'',
     ''actor_rollout_ref.actor.checkpoint.contents'', ''trainer.resume_mode'', ''trainer.resume_from_path'']"

lemma late_overrides_keys: "fst ` set (late_overrides c) \<subseteq> set late_keys"
  by (auto simp: late_overrides_def late_keys_def option_entry_def split: option.splits if_splits)

lemma late_keys_fresh: "set late_keys \<inter> set typed_keys = {}" "''trainer.total_training_steps'' \<notin> set late_keys"
  by (simp_all add: typed_keys_def typed_overrides_def Let_def late_keys_def)

lemma upstream_allowed:
  "validate_semantics is_dir c = Inr () \<Longrightarrow> fst ` set (rs_upstream_overrides c) \<subseteq> set allowed_upstream_overrides"
  by (auto simp: validate_semantics_iff validate_upstream_overrides_def list_ex_iff split: if_splits)

text \<open>The entries that the monitor profile pins.\<close>

lemma late_monitor:
  assumes "tc_pre_backward_monitor_probe (rs_training c)"
  shows "map_of (rev (late_overrides c)) ''trainer.pre_backward_monitor_probe'' = Some (VBool True)"
    and "map_of (rev (late_overrides c)) ''trainer.save_freq'' = Some (VInt (-1))"
    and "map_of (rev (late_overrides c)) ''trainer.test_freq'' = Some (VInt (-1))"
    and "map_of (rev (late_overrides c)) ''trainer.val_before_train'' = Some (VBool False)"
  using assms by (simp_all add: late_overrides_def option_entry_def split: option.splits)

section \<open>The checkpoint a run resumes from\<close>

lemma resume_hash_resume_from:
  "resume_compatibility_hash relative sha digest (c\<lparr>rs_resume_from := x\<rparr>) = resume_compatibility_hash relative sha digest c"
proof -
  have "dset (hashable_mapping relative sha (c\<lparr>rs_resume_from := x\<rparr>)) ''resume_from'' VNone =
      dset (hashable_mapping relative sha c) ''resume_from'' VNone"
    by (simp add: hashable_mapping_def Let_def)
  then show ?thesis by (simp add: resume_compatibility_hash_def)
qed

lemma apply_overrides_resume:
  "apply_overrides (ro\<lparr>ro_resume_from := p\<rparr>) paths r c = (apply_overrides ro paths r' c)\<lparr>rs_resume_from := r\<rparr>"
  by (simp add: apply_overrides_def)

lemma with_runtime_overrides_Inr:
  "with_runtime_overrides resolve is_dir ro c = Inr c' \<Longrightarrow>
   first_error (runtime_checks ro c) = Inr () \<and>
   (\<exists>out r. resolve_option resolve (ro_output_root ro) = Inr out \<and> resolve_option resolve (ro_resume_from ro) = Inr r \<and>
      c' = apply_overrides ro (case out of None \<Rightarrow> rs_paths c | Some p \<Rightarrow> AList.update ''output_root'' p (rs_paths c)) r c \<and>
      validate_semantics is_dir c' = Inr ())"
  by (auto simp: with_runtime_overrides_def bind_r_Inr_iff Let_def)

lemma resolve_option_Some:
  "resolve_option resolve (Some p) = Inr r \<Longrightarrow> r = Some (resolve p)"
  by (auto simp: resolve_option_def resolve_workspace_path_def bind_r_Inr_iff split: if_splits)

section \<open>Properties\<close>

text \<open>
  C20. A validated profile has an exact batch plan on every rank: \<open>batch_arithmetic\<close> does not divide by zero, the
  ranks together hold exactly the prompts times the rollouts, each mini batch is a whole number of micro batches of
  the actor, the rank's batch is a whole number of mini batches and of micro batches of the two log-prob passes, and
  the optimizer attempts cover the rank's batch once per epoch.
\<close>

theorem validated_batch_plan:
  assumes "validate_semantics is_dir c = Inr ()"
  shows "\<exists>lb lm acc att. batch_arithmetic c = Inr (lb, lm, acc, att) \<and>
     0 < lm \<and> 0 < acc \<and> 0 < att \<and>
     hw_required_gpus (rs_hardware c) * lb = bc_prompt_batch (rs_batch c) * bc_rollout_n (rs_batch c) \<and>
     hw_required_gpus (rs_hardware c) * lm = bc_mini_prompt_batch (rs_batch c) * bc_rollout_n (rs_batch c) \<and>
     bc_actor_micro_batch_per_gpu (rs_batch c) * acc = lm \<and> lm dvd lb \<and>
     bc_rollout_log_prob_micro_batch_per_gpu (rs_batch c) dvd lb \<and>
     bc_ref_log_prob_micro_batch_per_gpu (rs_batch c) dvd lb \<and>
     att * lm = bc_ppo_epochs (rs_batch c) * lb"
proof -
  obtain lb lm acc att where arith: "batch_arithmetic c = Inr (lb, lm, acc, att)"
    and ranks: "first_error (rank_checks c lb lm) = Inr ()"
    and profile: "first_error (profile_checks c) = Inr ()"
    and world: "first_error (world_checks c) = Inr ()"
    and pos: "\<forall>v\<in>set (positive_values c). 0 < v"
    using assms unfolding validate_semantics_iff by blast
  let ?b = "rs_batch c" and ?w = "hw_required_gpus (rs_hardware c)"
  have pos': "0 < ?w" "0 < bc_prompt_batch ?b" "0 < bc_rollout_n ?b" "0 < bc_mini_prompt_batch ?b"
      "0 < bc_actor_micro_batch_per_gpu ?b" "0 < bc_ppo_epochs ?b"
    using pos by (simp_all add: positive_values_def Let_def)
  have dvds: "?w dvd bc_prompt_batch ?b * bc_rollout_n ?b" "?w dvd bc_mini_prompt_batch ?b * bc_rollout_n ?b"
      "bc_mini_prompt_batch ?b dvd bc_prompt_batch ?b"
    using world by (simp_all add: world_checks_def Let_def dvd_eq_mod_eq_0 split: if_splits)
  have rank_dvds: "lm dvd lb" "bc_actor_micro_batch_per_gpu ?b dvd lm"
      "bc_rollout_log_prob_micro_batch_per_gpu ?b dvd lb" "bc_ref_log_prob_micro_batch_per_gpu ?b dvd lb"
    using ranks by (simp_all add: rank_checks_def Let_def dvd_eq_mod_eq_0 split: if_splits)
  note divs = batch_arithmetic_Inr[OF arith profile_checks_sequence_parallel[OF profile]]
  have eqs: "?w * lb = bc_prompt_batch ?b * bc_rollout_n ?b" "?w * lm = bc_mini_prompt_batch ?b * bc_rollout_n ?b"
      "bc_actor_micro_batch_per_gpu ?b * acc = lm" "bc_mini_prompt_batch ?b * att = bc_ppo_epochs ?b * bc_prompt_batch ?b"
    using divs pos' dvds rank_dvds by (auto intro: exact_floor_div)
  have "0 < ?w * lm" "0 < bc_mini_prompt_batch ?b * att"
    using eqs pos' by simp_all
  then have "0 < lm" "0 < att"
    using pos' by (simp_all add: zero_less_mult_iff)
  moreover have "0 < acc"
    using eqs(3) calculation(1) pos' by (metis zero_less_mult_pos)
  moreover have "att * lm = bc_ppo_epochs ?b * lb"
    using attempts_cover[OF eqs(1,2,4)] pos' by simp
  ultimately show ?thesis
    using arith eqs rank_dvds by (intro exI[of _ lb] exI[of _ lm] exI[of _ acc] exI[of _ att]) simp
qed

text \<open>A profile as in \<open>configs/\<close>: three ranks, four prompts per step with six rollouts each.\<close>

definition sample_config :: resolved_config where
  "sample_config =
    \<lparr>rs_profile_name = ''3gpu-low'', rs_profile_kind = ''engineering'', rs_description = ''d'', rs_launcher_mode = ''ray_direct'',
     rs_hardware = \<lparr>hw_required_gpus = 3, hw_min_vram_gb = 24\<rparr>,
     rs_batch = \<lparr>bc_prompt_batch = 4, bc_rollout_n = 6, bc_mini_prompt_batch = 2, bc_actor_micro_batch_per_gpu = 2,
        bc_rollout_log_prob_micro_batch_per_gpu = 4, bc_ref_log_prob_micro_batch_per_gpu = 4, bc_ppo_epochs = 2\<rparr>,
     rs_model = \<lparr>mc_path = ''m'', mc_latent_end_token_id = 7, mc_latent_end_token = ''e'', mc_latent_end_source = ''s'',
        mc_use_remove_padding = True, mc_enable_gradient_checkpointing = True, mc_actor_param_offload = False,
        mc_actor_optimizer_offload = False, mc_ref_param_offload = False, mc_use_kl_loss = True\<rparr>,
     rs_data = \<lparr>dc_train_files = ''t'', dc_val_files = ''v'', dc_max_prompt_length = 256, dc_max_response_length = 256,
        dc_filter_overlong_prompts = None, dc_filter_overlong_prompts_workers = None\<rparr>,
     rs_rollout = \<lparr>rc_name = ''sglang'', rc_dtype = ''bfloat16'', rc_attention_backend = Some ''triton'',
        rc_tensor_parallel_size = 1, rc_sequence_parallel_size = 1, rc_max_model_len = 512, rc_max_num_batched_tokens = 512,
        rc_gpu_memory_utilization = Fin (1/2), rc_max_topk = 10, rc_temperature = Fin 1, rc_top_p = Fin 1, rc_top_k = -1,
        rc_gumbel_softmax_temperature = Fin 1, rc_noise_scale = Fin 1, rc_enable_latent = True,
        rc_add_noise_gumbel_softmax = True, rc_use_one_sided_gumbel_noise = True, rc_one_sided_gumbel_delta = Fin 0\<rparr>,
     rs_training = \<lparr>tc_max_steps = 10, tc_seed = 1, tc_filter_groups_max_num_gen_batches = 0, tc_pre_backward_monitor_probe = False\<rparr>,
     rs_paths = [(''upstream_repo_path'', ''/up''), (''output_root'', ''/out'')],
     rs_features = \<lparr>fc_metrics_enabled = True, fc_support_enabled = True, fc_checkpoint_probe_enabled = True, fc_credit_probe_enabled = False\<rparr>,
     rs_upstream_overrides = [(''trainer.save_freq'', VInt 5), (''trainer.logger'', VStr ''[console]'')], rs_resume_from = None\<rparr>"

lemma sample_config_validates: "validate_semantics (\<lambda>_. True) sample_config = Inr ()"
  by (simp add: validate_semantics_iff sample_config_def validate_upstream_overrides_def topology_owned_upstream_overrides_def
      allowed_upstream_overrides_def profile_checks_def supported_profiles_def positive_values_def world_checks_def
      batch_arithmetic_def floor_div_def rank_checks_def Let_def)

theorem validated_batch_plan_witness:
  "batch_arithmetic sample_config = Inr (8, 4, 2, 4) \<and> 3 * 8 = (4 * 6 :: int) \<and> 4 * 4 = (2 * 8 :: int)"
  using validated_batch_plan[OF sample_config_validates] by (simp add: sample_config_def batch_arithmetic_def floor_div_def)


text \<open>
  C22. In the overrides of a validated profile every key occurs once; each of the keys that the typed fields set has
  the typed value, whatever the profile's \<open>upstream_overrides\<close> say, and so has the number of training steps outside
  of formal training; a profile that stops before backward always disables saving, testing and validation; and an
  upstream override reaches the trainer unless one of the late entries replaces it.
\<close>

theorem typed_fields_own_their_keys:
  assumes "validate_semantics is_dir c = Inr ()" and "map_of (rs_paths c) ''output_root'' = Some out"
    and "distinct (map fst (rs_upstream_overrides c))"
  shows "\<exists>kvs. override_values c = Inr kvs \<and> distinct (map fst kvs) \<and>
     (\<forall>(k, v)\<in>set (typed_overrides c out). map_of kvs k = Some v) \<and>
     map_of kvs ''trainer.total_training_steps'' =
       (if rs_profile_kind c = ''formal_training'' then None else Some (VInt (tc_max_steps (rs_training c)))) \<and>
     (tc_pre_backward_monitor_probe (rs_training c) \<longrightarrow>
        map_of kvs ''trainer.pre_backward_monitor_probe'' = Some (VBool True) \<and>
        map_of kvs ''trainer.save_freq'' = Some (VInt (-1)) \<and>
        map_of kvs ''trainer.test_freq'' = Some (VInt (-1)) \<and>
        map_of kvs ''trainer.val_before_train'' = Some (VBool False)) \<and>
     (\<forall>(k, v)\<in>set (rs_upstream_overrides c). k \<notin> fst ` set (late_overrides c) \<longrightarrow> map_of kvs k = Some v)"
proof -
  let ?t = "typed_overrides c out @ (if rs_profile_kind c \<noteq> ''formal_training''
      then [(''trainer.total_training_steps'', VInt (tc_max_steps (rs_training c)))] else [])"
  let ?kvs = "dupdate (dupdate ?t (rs_upstream_overrides c)) (late_overrides c)"
  note up = upstream_allowed[OF assms(1)]
  have vals: "override_values c = Inr ?kvs"
    by (simp add: override_values_def assms(2) Let_def)
  have dist_t: "distinct (map fst ?t)"
    by (simp add: typed_keys typed_keys_distinct total_steps_fresh)
  have base: "map_of ?kvs k = map_of ?t k" if "k \<notin> set late_keys" "k \<notin> set allowed_upstream_overrides" for k
    using that late_overrides_keys[of c] up by (subst map_of_dupdate_other, blast)+ simp
  have typed: "map_of ?kvs k = Some v" if "(k, v) \<in> set (typed_overrides c out)" for k v
  proof -
    have "k \<in> set typed_keys" using imageI[OF that, of fst] unfolding set_map[symmetric] typed_keys fst_conv .
    then have "map_of ?kvs k = map_of ?t k"
      using base[of k] late_keys_fresh(1) typed_keys_not_upstream by blast
    moreover have "map_of ?t k = Some v"
      using dist_t that by (intro map_of_is_SomeI) auto
    ultimately show ?thesis by simp
  qed
  have total: "map_of ?kvs ''trainer.total_training_steps'' =
      (if rs_profile_kind c = ''formal_training'' then None else Some (VInt (tc_max_steps (rs_training c))))"
  proof -
    have "map_of (typed_overrides c out) ''trainer.total_training_steps'' = None"
      using total_steps_fresh(1) unfolding map_of_eq_None_iff set_map[symmetric] typed_keys .
    then show ?thesis
      using base[OF late_keys_fresh(2) total_steps_fresh(2)] by (simp add: map_add_def)
  qed
  have upstream: "map_of ?kvs k = Some v"
    if "(k, v) \<in> set (rs_upstream_overrides c)" "k \<notin> fst ` set (late_overrides c)" for k v
  proof -
    have "map_of ?kvs k = map_of (dupdate ?t (rs_upstream_overrides c)) k"
      using that(2) by (rule map_of_dupdate_other)
    also have "\<dots> = Some v"
      unfolding map_of_dupdate_distinct[OF assms(3)] using map_of_is_SomeI[OF assms(3) that(1)] by simp
    finally show ?thesis .
  qed
  have monitor: "tc_pre_backward_monitor_probe (rs_training c) \<Longrightarrow>
      map_of ?kvs ''trainer.pre_backward_monitor_probe'' = Some (VBool True) \<and>
      map_of ?kvs ''trainer.save_freq'' = Some (VInt (-1)) \<and>
      map_of ?kvs ''trainer.test_freq'' = Some (VInt (-1)) \<and>
      map_of ?kvs ''trainer.val_before_train'' = Some (VBool False)"
    by (simp add: map_of_dupdate[of _ "late_overrides c"] late_monitor)
  show ?thesis
    using vals distinct_dupdate[OF distinct_dupdate[OF dist_t]] typed total upstream monitor
    by (intro exI[of _ ?kvs]) blast
qed

theorem typed_fields_own_their_keys_witness:
  "\<exists>kvs. override_values sample_config = Inr kvs \<and>
     map_of kvs ''data.train_batch_size'' = Some (VInt 4) \<and>
     map_of kvs ''trainer.total_training_steps'' = Some (VInt 10) \<and> map_of kvs ''trainer.save_freq'' = Some (VInt 5)"
proof -
  have "map_of (rs_paths sample_config) ''output_root'' = Some ''/out''" "distinct (map fst (rs_upstream_overrides sample_config))"
    by (simp_all add: sample_config_def)
  from typed_fields_own_their_keys[OF sample_config_validates this]
  obtain kvs where v: "override_values sample_config = Inr kvs"
      "\<forall>(k, v)\<in>set (typed_overrides sample_config ''/out''). map_of kvs k = Some v"
      "map_of kvs ''trainer.total_training_steps'' = Some (VInt 10)"
      "\<forall>(k, v)\<in>set (rs_upstream_overrides sample_config). k \<notin> fst ` set (late_overrides sample_config) \<longrightarrow> map_of kvs k = Some v"
    by (auto simp: sample_config_def)
  have "(''data.train_batch_size'', VInt 4) \<in> set (typed_overrides sample_config ''/out'')"
    by (simp add: typed_overrides_def sample_config_def Let_def)
  then have "map_of kvs ''data.train_batch_size'' = Some (VInt 4)" using v(2) by blast
  moreover have "(''trainer.save_freq'', VInt 5) \<in> set (rs_upstream_overrides sample_config)"
      "''trainer.save_freq'' \<notin> fst ` set (late_overrides sample_config)"
    by (simp_all add: sample_config_def late_overrides_def option_entry_def)
  then have "map_of kvs ''trainer.save_freq'' = Some (VInt 5)" using v(4) by blast
  ultimately show ?thesis using v by blast
qed


text \<open>
  C23. A run that is started again with the same command line and \<open>--resume-from\<close> is itself validated, resumes from
  the resolved path, is not a monitor or metric-validation run, and passes the resume checks against every sidecar that
  the first run wrote, provided that no committed row is newer than that checkpoint.
\<close>

theorem resumed_run_accepts_its_sidecar:
  assumes run: "with_runtime_overrides resolve is_dir ro c = Inr run"
    and resumed: "with_runtime_overrides resolve is_dir (ro\<lparr>ro_resume_from := Some p\<rparr>) c = Inr resumed"
    and committed: "\<forall>(table, step)\<in>set committed. step \<le> global_step"
  shows "validate_semantics is_dir resumed = Inr () \<and> rs_resume_from resumed = Some (resolve p) \<and>
     \<not> tc_pre_backward_monitor_probe (rs_training resumed) \<and> rs_profile_name resumed \<noteq> ''kaggle-t4-30-metric'' \<and>
     validate_resume
       (build_checkpoint_sidecar global_step optimizer_step (resume_compatibility_hash relative sha digest run) schema commit manifests)
       (resume_compatibility_hash relative sha digest resumed) schema committed = Inr ()"
proof -
  from with_runtime_overrides_Inr[OF run] obtain out r where
    run': "resolve_option resolve (ro_output_root ro) = Inr out"
      "run = apply_overrides ro (case out of None \<Rightarrow> rs_paths c | Some p \<Rightarrow> AList.update ''output_root'' p (rs_paths c)) r c"
    by blast
  from with_runtime_overrides_Inr[OF resumed] obtain out' r' where
    checks: "first_error (runtime_checks (ro\<lparr>ro_resume_from := Some p\<rparr>) c) = Inr ()" and
    out': "resolve_option resolve (ro_output_root ro) = Inr out'" and r': "resolve_option resolve (Some p) = Inr r'" and
    eq': "resumed = apply_overrides (ro\<lparr>ro_resume_from := Some p\<rparr>)
            (case out' of None \<Rightarrow> rs_paths c | Some p \<Rightarrow> AList.update ''output_root'' p (rs_paths c)) r' c" and
    valid: "validate_semantics is_dir resumed = Inr ()"
    by auto
  have "out' = out" using out' run'(1) by simp
  then have eq: "resumed = run\<lparr>rs_resume_from := Some (resolve p)\<rparr>"
    unfolding eq' run'(2) resolve_option_Some[OF r'] by (simp only: apply_overrides_resume[where r' = r])
  have "\<not> tc_pre_backward_monitor_probe (rs_training c) \<and> rs_profile_name c \<noteq> ''kaggle-t4-30-metric''"
    using checks by (auto simp: runtime_checks_def split: if_splits)
  then have kinds: "\<not> tc_pre_backward_monitor_probe (rs_training resumed) \<and> rs_profile_name resumed \<noteq> ''kaggle-t4-30-metric''"
    unfolding eq' by (simp add: apply_overrides_def)
  have "resume_compatibility_hash relative sha digest resumed = resume_compatibility_hash relative sha digest run"
    unfolding eq by (rule resume_hash_resume_from)
  then show ?thesis
    using valid kinds committed
    by (simp add: validate_resume_def build_checkpoint_sidecar_def dget_Cons as_int_def list_all_iff eq)
qed

definition no_overrides :: runtime_overrides where
  "no_overrides = \<lparr>ro_seed = Some 3, ro_output_root = None, ro_max_steps = None, ro_resume_from = None, ro_model_path = None,
     ro_train_files = None, ro_val_files = None, ro_support_enabled = None, ro_metrics_enabled = None,
     ro_checkpoint_probe_enabled = None, ro_credit_probe_enabled = None\<rparr>"

theorem resumed_run_accepts_its_sidecar_witness:
  "validate_resume
     (build_checkpoint_sidecar 5 9 (resume_compatibility_hash Some id (\<lambda>_. ''h'')
        (projr (with_runtime_overrides id (\<lambda>_. True) no_overrides sample_config))) ''metrics_schema_v1'' ''abc'' None)
     (resume_compatibility_hash Some id (\<lambda>_. ''h'')
        (projr (with_runtime_overrides id (\<lambda>_. True) (no_overrides\<lparr>ro_resume_from := Some ''ckpt''\<rparr>) sample_config)))
     ''metrics_schema_v1'' [(''train_step_metrics'', 5)] = Inr ()"
proof -
  have ok: "\<exists>c'. with_runtime_overrides id (\<lambda>_. True) (no_overrides\<lparr>ro_resume_from := x\<rparr>) sample_config = Inr c'"
    if "x \<in> {None, Some ''ckpt''}" for x
  proof -
    have valid: "validate_semantics (\<lambda>_. True) (apply_overrides (no_overrides\<lparr>ro_resume_from := x\<rparr>) (rs_paths sample_config) x sample_config) = Inr ()"
      unfolding sample_config_validates[symmetric]
      by (simp add: validate_semantics_def apply_overrides_def no_overrides_def orelse_def sample_config_def profile_checks_def
          positive_values_def world_checks_def batch_arithmetic_def rank_checks_def Let_def)
    have checks: "first_error (runtime_checks (no_overrides\<lparr>ro_resume_from := x\<rparr>) sample_config) = Inr ()"
      by (simp add: runtime_checks_def sample_config_def)
    have "resolve_option id (ro_output_root (no_overrides\<lparr>ro_resume_from := x\<rparr>)) = Inr None"
      by (simp add: no_overrides_def resolve_option_def)
    moreover have "resolve_option id x = Inr x"
      using that by (auto simp: resolve_option_def resolve_workspace_path_def)
    ultimately show ?thesis
      unfolding with_runtime_overrides_def checks by (simp add: valid Let_def)
  qed
  from ok[of None] obtain a where a: "with_runtime_overrides id (\<lambda>_. True) no_overrides sample_config = Inr a"
    by (auto simp: no_overrides_def)
  from ok[of "Some ''ckpt''"] obtain b
    where b: "with_runtime_overrides id (\<lambda>_. True) (no_overrides\<lparr>ro_resume_from := Some ''ckpt''\<rparr>) sample_config = Inr b"
    by auto
  show ?thesis
    using resumed_run_accepts_its_sidecar[where committed = "[(''train_step_metrics'', 5)]" and global_step = 5 and optimizer_step = 9
        and relative = Some and sha = id and digest = "\<lambda>_. ''h''" and schema = "''metrics_schema_v1''" and commit = "''abc''"
        and manifests = None, OF a b] a b by simp
qed

end
