(* ===== verification/Schemas.thy ===== *)
theory Schemas
  imports Storage "HOL-Library.Sublist"
begin

text \<open>
  The field manifest of the metric tables, \<open>metrics/schemas.py\<close>: the fields of every table in the order of the
  code, built by \<open>_field\<close>, which refuses a name that announces a tensor-like value.  The two evaluation tables
  take their fields from the lines of a Markdown document, which are an argument (no lines when the file is absent).
\<close>

section \<open>Fields\<close>

definition forbidden_substrings :: "string list" where
  "forbidden_substrings = [''gradient'', ''full_logits'', ''full_vocab'', ''hidden_state'', ''embedding'', ''tensor'', ''component_log_prob'',
     ''model_export'', ''hub_url'', ''artifact_ref'']"

text \<open>\<open>str.lower\<close> on ASCII characters.\<close>

definition lower_char :: "char \<Rightarrow> char" where
  "lower_char c = (let n = (of_char c :: nat) in if 65 \<le> n \<and> n \<le> 90 then char_of (n + 32) else c)"

fun contains :: "string \<Rightarrow> string \<Rightarrow> bool" where
  "contains p [] = (p = [])"
| "contains p (c # s) = (prefix p (c # s) \<or> contains p s)"

definition persistent_field_is_allowed :: "string \<Rightarrow> bool" where
  "persistent_field_is_allowed name = (\<not> list_ex (\<lambda>v. contains v (map lower_char name)) forbidden_substrings)"

text \<open>The arguments of \<open>_field\<close>: name, logical type, stage, nullable, family.\<close>

type_synonym field_spec = "string \<times> string \<times> nat \<times> bool \<times> string option"

definition ends_with :: "string \<Rightarrow> string \<Rightarrow> bool" where
  "ends_with p s = suffix p s"

fun field_dict :: "field_spec \<Rightarrow> pydict" where
  "field_dict (name, logical_type, stage, nullable, family) =
     [(''name'', VStr name), (''logical_type'', VStr logical_type), (''physical_type'', VStr logical_type),
      (''nullable'', VBool nullable), (''stage'', vint stage), (''record_type'', VStr ''dynamic_metric''),
      (''unit'', VStr (if ends_with ''count'' name then ''count'' else ''scalar'')),
      (''definition_version'', VStr ''metrics_schema_v1''), (''primary_key_member'', VBool False),
      (''availability_family'', (case family of None \<Rightarrow> VNone | Some f \<Rightarrow> VStr f))]"

definition mk_field :: "field_spec \<Rightarrow> pydict result" where
  "mk_field spec =
     (if persistent_field_is_allowed (fst spec) then Inr (field_dict spec) else Inl (ValueError ''prohibited persistent field''))"

definition observed_metric :: "string \<Rightarrow> nat \<Rightarrow> string \<Rightarrow> string \<Rightarrow> field_spec list" where
  "observed_metric name stage family logical_type =
     [(name, logical_type, stage, True, Some family), (name @ ''__available'', ''bool'', stage, False, Some family),
      (name @ ''__unavailable_reason'', ''string'', stage, True, Some family)]"

section \<open>The train-step table\<close>

definition common_fields :: "field_spec list" where
  "common_fields =
    [(''profile_name'', ''string'', 1, False, None), (''seed'', ''int64'', 1, False, None),
     (''metric_scope'', ''string'', 1, False, None), (''global_step'', ''int64'', 1, False, None),
     (''optimizer_step'', ''int64'', 1, False, None), (''observation_phase'', ''string'', 1, False, None),
     (''learning_rate'', ''float64'', 1, True, None), (''wall_clock_seconds'', ''float64'', 1, True, None),
     (''cumulative_train_samples'', ''int64'', 1, True, None), (''cumulative_rollout_tokens'', ''int64'', 1, True, None),
     (''cumulative_gpu_hours'', ''float64'', 1, True, None), (''is_resume_run'', ''bool'', 1, False, None),
     (''resume_from_step'', ''int64'', 1, True, None), (''aggregation_worker_count'', ''int64'', 1, True, None),
     (''record_version'', ''string'', 1, False, None), (''metrics_compute_time'', ''float64'', 1, True, None),
     (''metrics_write_time'', ''float64'', 1, True, None), (''record_available'', ''bool'', 1, False, None),
     (''record_unavailable_reason'', ''string'', 1, True, None)]"

definition stage1_metrics :: "(string \<times> string) list" where
  "stage1_metrics =
     [(''train/policy_loss'', ''policy_loss''), (''train/entropy'', ''entropy''), (''train/kl'', ''kl''),
      (''train/clip_fraction'', ''clip_fraction''), (''train/importance_ratio_mean'', ''importance_ratio''),
      (''train/importance_ratio_std'', ''importance_ratio''), (''train/response_length'', ''response_length''),
      (''train/latent_length'', ''latent_length''), (''train/generated_token_count'', ''generated_token_count''),
      (''train/raw_generated_token_count'', ''raw_generated_token_count''), (''train/step_time'', ''step_time'')]"

definition stage1_counts :: "(string \<times> string) list" where
  "stage1_counts =
     [(''train/policy_loss_count'', ''policy_loss''), (''train/entropy_count'', ''entropy''),
      (''train/kl_count'', ''kl''), (''train/clip_fraction_count'', ''clip_fraction''),
      (''train/importance_ratio_count'', ''importance_ratio''),
      (''train/response_length_count'', ''response_length''), (''train/latent_length_count'', ''latent_length''),
      (''final_training_trajectory_count'', ''generated_token_count'')]"

definition stage1_versions :: "string list" where
  "stage1_versions =
     [''generated_token_count_definition_version'', ''generated_token_count_scope'',
      ''raw_generated_token_count_definition_version'', ''raw_generated_token_count_scope'', ''entropy_source'',
      ''entropy_probability_space'', ''entropy_mask_definition'', ''entropy_definition_version'',
      ''response_length_definition_version'', ''latent_length_definition_version'',
      ''length_counting_rule_version'']"

definition stage2_metrics :: "(string \<times> string) list" where
  "stage2_metrics =
     [(''mixture/effective_k_noisy'', ''mixture''), (''mixture/top1_weight_noisy'', ''mixture''),
      (''mask/zero_advantage_rate'', ''mask''), (''signal/reward_mean'', ''signal''),
      (''signal/reward_std'', ''signal''), (''signal/advantage_std'', ''signal'')]"

definition stage2_fields :: "field_spec list" where
  "stage2_fields =
    [(''mixture/noisy_count'', ''int64'', 2, False, Some ''mixture''),
     (''mixture_available'', ''bool'', 2, False, Some ''mixture''),
     (''mixture_unavailable_reason'', ''string'', 2, True, Some ''mixture''),
     (''mask/eligible_latent_token_count'', ''int64'', 2, False, Some ''mask''),
     (''mask_available'', ''bool'', 2, False, Some ''mask''),
     (''mask_unavailable_reason'', ''string'', 2, True, Some ''mask''),
     (''signal/reward_count'', ''int64'', 2, False, Some ''signal''),
     (''signal/advantage_count'', ''int64'', 2, False, Some ''signal''),
     (''signal_available'', ''bool'', 2, False, Some ''signal''),
     (''signal_unavailable_reason'', ''string'', 2, True, Some ''signal''),
     (''stage2_available'', ''bool'', 2, False, Some ''stage2''),
     (''stage2_unavailable_reason'', ''string'', 2, True, Some ''stage2'')]"

definition train_step_fields :: "field_spec list" where
  "train_step_fields =
     common_fields @
     concat (map (\<lambda>(name, family). observed_metric name 1 family
       (if name \<in> {''train/generated_token_count'', ''train/raw_generated_token_count''} then ''int64'' else ''float64'')) stage1_metrics) @
     map (\<lambda>(name, family). (name, ''int64'', 1, False, Some family)) stage1_counts @
     map (\<lambda>name. (name, ''string'', 1, True, None)) stage1_versions @
     [(''train_core_available'', ''bool'', 1, False, Some ''train_core''),
      (''train_core_unavailable_reason'', ''string'', 1, True, Some ''train_core'')] @
     concat (map (\<lambda>(name, family). observed_metric name 2 family ''float64'') stage2_metrics) @
     stage2_fields"

section \<open>The other tables\<close>

definition group_head_fields :: "field_spec list" where
  "group_head_fields =
    [(''profile_name'', ''string'', 2, False, None), (''seed'', ''int64'', 2, False, None),
     (''metric_scope'', ''string'', 2, False, None), (''global_step'', ''int64'', 2, False, None),
     (''optimizer_step'', ''int64'', 2, False, None), (''observation_phase'', ''string'', 2, False, None),
     (''learning_rate'', ''float64'', 2, True, None), (''wall_clock_seconds'', ''float64'', 2, True, None),
     (''cumulative_train_samples'', ''int64'', 2, True, None), (''cumulative_rollout_tokens'', ''int64'', 2, True, None),
     (''cumulative_gpu_hours'', ''float64'', 2, True, None), (''is_resume_run'', ''bool'', 2, False, None),
     (''resume_from_step'', ''int64'', 2, True, None), (''aggregation_worker_count'', ''int64'', 2, True, None),
     (''record_version'', ''string'', 2, False, None), (''metrics_compute_time'', ''float64'', 2, True, None),
     (''metrics_write_time'', ''float64'', 2, True, None), (''group_id'', ''string'', 2, False, None),
     (''prompt_id_or_hash'', ''string'', 2, False, None)]"

definition group_metrics :: "(string \<times> string) list" where
  "group_metrics =
     [(''group/trajectory_count'', ''int64''), (''group/correct_trajectory_count'', ''int64''),
      (''group/non_correct_trajectory_count'', ''int64''), (''group/overlong_trajectory_count'', ''int64''),
      (''group/overlong_generated_token_count'', ''int64''), (''group/overlong_response_length_max'', ''int64''),
      (''group/zero_variance_reward'', ''bool''), (''optimal_correct_trajectory_id'', ''int64''),
      (''optimal_correct_mean_old_log_prob'', ''float64'')]"

definition group_tail_fields :: "field_spec list" where
  "group_tail_fields =
    [(''group_available'', ''bool'', 2, False, Some ''group''),
     (''group_unavailable_reason'', ''string'', 2, True, Some ''group''),
     (''optimal_correct_path_available'', ''bool'', 2, False, Some ''optimal_correct_path''),
     (''optimal_correct_path_unavailable_reason'', ''string'', 2, True, Some ''optimal_correct_path''),
     (''record_available'', ''bool'', 2, False, None), (''record_unavailable_reason'', ''string'', 2, True, None)]"

definition train_group_fields :: "field_spec list" where
  "train_group_fields =
     group_head_fields @
     map (\<lambda>(name, typ). (name, typ, 2, \<not> ends_with ''count'' name, Some ''group'')) group_metrics @
     map (\<lambda>name. (name, ''string'', 2, True, None))
       [''group_definition_version'', ''trajectory_classification_version'', ''overlong_definition_version''] @
     group_tail_fields"

definition gumbel_head_fields :: "field_spec list" where
  "gumbel_head_fields =
    [(''profile_name'', ''string'', 2, False, None), (''seed'', ''int64'', 2, False, None),
     (''diagnostic_run_id'', ''string'', 2, False, None), (''diagnostic_batch_index'', ''int64'', 2, False, None),
     (''gumbel_diagnostics_enabled'', ''bool'', 2, False, None), (''gumbel_diagnostics_mode'', ''string'', 2, False, None)]"

definition gumbel_tail_fields :: "field_spec list" where
  "gumbel_tail_fields =
    [(''gumbel/raw_count'', ''int64'', 2, False, Some ''gumbel''),
     (''gumbel/one_sided_count'', ''int64'', 2, False, Some ''gumbel''),
     (''gumbel_compute_time_seconds'', ''float64'', 2, True, None), (''record_available'', ''bool'', 2, False, None),
     (''record_unavailable_reason'', ''string'', 2, True, None),
     (''gumbel_available'', ''bool'', 2, False, Some ''gumbel''),
     (''gumbel_unavailable_reason'', ''string'', 2, True, Some ''gumbel'')]"

definition gumbel_fields :: "field_spec list" where
  "gumbel_fields =
     gumbel_head_fields @
     concat (map (\<lambda>name. observed_metric name 2 ''gumbel'' ''float64'')
       [''gumbel/raw_mean'', ''gumbel/raw_std'', ''gumbel/lower_clip_rate'', ''gumbel/upper_clip_rate'', ''gumbel/zero_rate'']) @
     gumbel_tail_fields"

definition support_fields :: "field_spec list" where
  "support_fields =
    [(''profile_name'', ''string'', 3, False, None), (''seed'', ''int64'', 3, False, None),
     (''global_step'', ''int64'', 3, False, None), (''optimizer_step_at_observation'', ''int64'', 3, False, None),
     (''observation_phase'', ''string'', 3, False, None), (''group_id'', ''string'', 3, False, None),
     (''trajectory_id'', ''int64'', 3, False, None), (''trajectory_class'', ''string'', 3, False, None),
     (''trajectory_mean_old_log_prob'', ''float64'', 3, True, None),
     (''trajectory_selection_rule_version'', ''string'', 3, False, None),
     (''candidate_trajectory_count'', ''int64'', 3, False, Some ''support''),
     (''support/retention_rate'', ''float64'', 3, True, Some ''support''),
     (''support/top1_retention_rate'', ''float64'', 3, True, Some ''support''),
     (''support/effective_position_count'', ''int64'', 3, False, Some ''support''),
     (''record_available'', ''bool'', 3, False, None), (''record_unavailable_reason'', ''string'', 3, True, None),
     (''support_available'', ''bool'', 3, False, Some ''support''),
     (''support_unavailable_reason'', ''string'', 3, True, Some ''support''),
     (''record_version'', ''string'', 3, False, None)]"

definition support_benchmark_fields :: "field_spec list" where
  "support_benchmark_fields =
    [(''profile_name'', ''string'', 3, False, None), (''seed'', ''int64'', 3, False, None),
     (''global_step'', ''int64'', 3, False, None), (''optimizer_step_at_observation'', ''int64'', 3, False, None),
     (''observation_phase'', ''string'', 3, False, None), (''support_extra_time_seconds'', ''float64'', 3, True, None),
     (''support_cache_peak_bytes'', ''int64'', 3, False, Some ''support''),
     (''support_selected_trajectory_count'', ''int64'', 3, False, Some ''support''),
     (''support_candidate_trajectory_count'', ''int64'', 3, False, Some ''support''),
     (''support_benchmark/total_effective_position_count'', ''int64'', 3, False, Some ''support''),
     (''record_available'', ''bool'', 3, False, None), (''record_unavailable_reason'', ''string'', 3, True, None),
     (''support_available'', ''bool'', 3, False, Some ''support''),
     (''support_unavailable_reason'', ''string'', 3, True, Some ''support'')]"

definition probe_fields :: "field_spec list" where
  "probe_fields =
    [(''profile_name'', ''string'', 4, False, None), (''seed'', ''int64'', 4, False, None),
     (''global_step'', ''int64'', 4, False, None), (''optimizer_step'', ''int64'', 4, False, None),
     (''checkpoint_step'', ''int64'', 4, False, None), (''observation_phase'', ''string'', 4, False, None),
     (''probe_batch_id'', ''string'', 4, False, None), (''probe_definition_version'', ''string'', 4, False, None),
     (''trajectory_group'', ''string'', 4, False, None), (''latent_position_group'', ''string'', 4, False, None),
     (''onesided/delta_mean'', ''float64'', 4, True, Some ''onesided''),
     (''onesided/delta_std'', ''float64'', 4, True, Some ''onesided''),
     (''onesided/delta_p05'', ''float64'', 4, True, Some ''onesided''),
     (''onesided/delta_min'', ''float64'', 4, True, Some ''onesided''),
     (''onesided/delta_negative_rate'', ''float64'', 4, True, Some ''onesided''),
     (''onesided/delta_near_zero_rate'', ''float64'', 4, True, Some ''onesided''),
     (''onesided/flipgrad_rate'', ''float64'', 4, True, Some ''onesided''),
     (''onesided/delta_count'', ''int64'', 4, False, Some ''onesided''),
     (''onesided/flipgrad_count'', ''int64'', 4, False, Some ''onesided''),
     (''valid_flipgrad_denominator'', ''int64'', 4, False, Some ''onesided''),
     (''onesided_near_zero_threshold'', ''float64'', 4, False, Some ''onesided''),
     (''onesided_near_zero_definition_version'', ''string'', 4, False, Some ''onesided''),
     (''onesided_definition_version'', ''string'', 4, False, Some ''onesided''),
     (''credit/top1_share'', ''float64'', 4, True, Some ''credit''),
     (''credit/effective_k'', ''float64'', 4, True, Some ''credit''),
     (''credit/weight_credit_spearman'', ''float64'', 4, True, Some ''credit''),
     (''credit/surrogate_alignment_rate'', ''float64'', 4, True, Some ''credit''),
     (''credit/concentration_count'', ''int64'', 4, False, Some ''credit''),
     (''credit/spearman_count'', ''int64'', 4, False, Some ''credit''),
     (''credit/alignment_count'', ''int64'', 4, False, Some ''credit''),
     (''credit_definition_version'', ''string'', 4, False, Some ''credit''),
     (''surrogate_alignment_definition_version'', ''string'', 4, False, Some ''credit''),
     (''record_available'', ''bool'', 4, False, None), (''record_unavailable_reason'', ''string'', 4, True, None),
     (''onesided_available'', ''bool'', 4, False, Some ''onesided''),
     (''onesided_unavailable_reason'', ''string'', 4, True, Some ''onesided''),
     (''credit_concentration_available'', ''bool'', 4, False, Some ''credit''),
     (''credit_concentration_unavailable_reason'', ''string'', 4, True, Some ''credit''),
     (''credit_spearman_available'', ''bool'', 4, False, Some ''credit''),
     (''credit_spearman_unavailable_reason'', ''string'', 4, True, Some ''credit''),
     (''credit_alignment_available'', ''bool'', 4, False, Some ''credit''),
     (''credit_alignment_unavailable_reason'', ''string'', 4, True, Some ''credit''),
     (''credit/weight_credit_spearman__available'', ''bool'', 4, False, Some ''credit''),
     (''credit/weight_credit_spearman__unavailable_reason'', ''string'', 4, True, Some ''credit''),
     (''credit/surrogate_alignment_rate__available'', ''bool'', 4, False, Some ''credit''),
     (''credit/surrogate_alignment_rate__unavailable_reason'', ''string'', 4, True, Some ''credit''),
     (''probe_rng_restore_succeeded'', ''bool'', 4, False, None), (''record_version'', ''string'', 4, False, None)]"

definition probe_benchmark_fields :: "field_spec list" where
  "probe_benchmark_fields =
    [(''profile_name'', ''string'', 4, False, None), (''seed'', ''int64'', 4, False, None),
     (''global_step'', ''int64'', 4, False, None), (''checkpoint_step'', ''int64'', 4, False, None),
     (''probe_batch_id'', ''string'', 4, False, None), (''probe_extra_time_seconds'', ''float64'', 4, True, None),
     (''probe_peak_memory_bytes'', ''int64'', 4, False, None), (''probe_trajectory_count'', ''int64'', 4, False, None),
     (''probe_latent_position_count'', ''int64'', 4, False, None),
     (''credit_autograd_executed'', ''bool'', 4, False, Some ''credit''),
     (''probe_rng_restore_succeeded'', ''bool'', 4, False, None), (''parameters_unchanged'', ''bool'', 4, False, None),
     (''optimizer_state_unchanged'', ''bool'', 4, False, None), (''training_grads_unchanged'', ''bool'', 4, False, None),
     (''cpu_rng_restored'', ''bool'', 4, False, None), (''cuda_rng_restored'', ''bool'', 4, False, None),
     (''python_rng_restored'', ''bool'', 4, False, None), (''numpy_rng_restored'', ''bool'', 4, False, None),
     (''module_mode_restored'', ''bool'', 4, False, None), (''extra_loss_backward_executed'', ''bool'', 4, False, None),
     (''extra_optimizer_step_executed'', ''bool'', 4, False, None), (''record_available'', ''bool'', 4, False, None),
     (''record_unavailable_reason'', ''string'', 4, True, None)]"

definition eval_dataset_fields :: "field_spec list" where
  "eval_dataset_fields = map (\<lambda>name. (name, ''string'', 1, False, None))
     [''eval_dataset_name'', ''eval_dataset_version'', ''question_id'', ''prompt_hash'', ''reference_answer'', ''reference_answer_hash'']"

section \<open>Fields from the traceability matrix\<close>

text \<open>\<open>s.strip(chars)\<close> and \<open>s.split(c)\<close>.\<close>

definition strip :: "char list \<Rightarrow> string \<Rightarrow> string" where
  "strip cs s = rev (dropWhile (\<lambda>c. c \<in> set cs) (rev (dropWhile (\<lambda>c. c \<in> set cs) s)))"

definition whitespace :: "char list" where
  "whitespace = map char_of [9 :: nat, 10, 11, 12, 13, 28, 29, 30, 31, 32]"

fun split_on :: "char \<Rightarrow> string \<Rightarrow> string list" where
  "split_on c [] = [[]]"
| "split_on c (x # s) = (if x = c then [] # split_on c s else (x # hd (split_on c s)) # tl (split_on c s))"

definition type_names :: "string list" where
  "type_names = [''bool'', ''int64'', ''int32'', ''float64'', ''float32'', ''string'']"

text \<open>The table and the field of one line, if it describes a persistent field.\<close>

definition rtm_line :: "string \<Rightarrow> (string \<times> field_spec) option" where
  "rtm_line line =
     (if \<not> prefix ''| `'' line then None
      else let cells = map (strip whitespace) (split_on CHR ''|'' (strip ''|'' (strip whitespace line))) in
        if length cells \<noteq> 14 then None
        else let name = strip ''`'' (cells ! 0); table = strip ''`'' (cells ! 7); schema_type = cells ! 8 in
          if table \<in> {''memory_only_not_persisted'', ''schema_manifest_or_memory_only''} \<or> \<not> persistent_field_is_allowed name
          then None
          else let logical_type = (case find (\<lambda>t. contains t schema_type) type_names of None \<Rightarrow> ''string'' | Some t \<Rightarrow> t)
            in Some (table, name, logical_type, 3, True, Some ''deferred''))"

definition rtm_fields_by_table :: "string list \<Rightarrow> string \<Rightarrow> field_spec list" where
  "rtm_fields_by_table lines table = map snd (filter (\<lambda>f. fst f = table) (List.map_filter rtm_line lines))"

section \<open>The manifest\<close>

definition table_dict :: "string list \<Rightarrow> pydict list \<Rightarrow> pydict" where
  "table_dict primary_key cols = [(''primary_key'', VList (map VStr primary_key)), (''fields'', VList (map VDict cols))]"

definition deferred_dict :: "string list \<Rightarrow> pydict list \<Rightarrow> pydict" where
  "deferred_dict primary_key cols =
     [(''status'', VStr ''target_machine_test_deferred''), (''deferred_reason'', VStr ''runtime_collection_not_executed_on_mac''),
      (''fields'', VList (map VDict cols)), (''primary_key'', VList (map VStr primary_key))]"

definition schema_tables :: "(string \<times> string list \<times> field_spec list) list" where
  "schema_tables =
    [(''train_step_metrics'', [''profile_name'', ''seed'', ''global_step''], train_step_fields),
     (''train_group_metrics'', [''profile_name'', ''seed'', ''global_step'', ''group_id''], train_group_fields),
     (''gumbel_diagnostics'', [''profile_name'', ''seed'', ''diagnostic_run_id'', ''diagnostic_batch_index''], gumbel_fields),
     (''support_metrics'', [''profile_name'', ''seed'', ''global_step'', ''group_id'', ''trajectory_id'', ''trajectory_class''], support_fields),
     (''support_benchmark_metrics'', [''profile_name'', ''seed'', ''global_step''], support_benchmark_fields),
     (''probe_metrics'', [''profile_name'', ''seed'', ''checkpoint_step'', ''probe_batch_id'', ''trajectory_group'', ''latent_position_group''],
        probe_fields),
     (''probe_benchmark_metrics'', [''profile_name'', ''seed'', ''checkpoint_step'', ''probe_batch_id''], probe_benchmark_fields),
     (''eval_dataset_manifest.parquet'', [''eval_dataset_name'', ''eval_dataset_version'', ''question_id''], eval_dataset_fields)]"

definition deferred_tables :: "(string \<times> string list) list" where
  "deferred_tables =
    [(''eval_question_results'', [''profile_name'', ''seed'', ''checkpoint_step'', ''question_id'', ''generation_id'']),
     (''eval_clean_topk'', [''profile_name'', ''seed'', ''checkpoint_step'', ''question_id'', ''generation_id'', ''latent_position''])]"

definition schema_manifest :: "string list \<Rightarrow> pydict result" where
  "schema_manifest rtm =
     bind_r (map_r (\<lambda>(name, key, specs). bind_r (map_r mk_field specs) (\<lambda>cols. Inr (name, VDict (table_dict key cols)))) schema_tables)
       (\<lambda>tables.
     bind_r (map_r (\<lambda>(name, key). bind_r (map_r mk_field (rtm_fields_by_table rtm name))
               (\<lambda>cols. Inr (name, VDict (deferred_dict key cols)))) deferred_tables) (\<lambda>deferred.
       Inr [(''metrics_schema_version'', VStr ''metrics_schema_v1''), (''tables'', VDict (tables @ deferred)),
            (''stages'', VDict [(''stage1'', VDict [(''status'', VStr ''enabled'')]), (''stage2'', VDict [(''status'', VStr ''enabled'')]),
               (''stage3'', VDict [(''status'', VStr ''enabled'')]), (''stage4'', VDict [(''status'', VStr ''checkpoint_probe_enabled'')])]),
            (''persistence_policy'', VDict [(''forbidden'', VList (map VStr
                 [''full_vocabulary_logits'', ''full_hidden_states'', ''full_gradients'', ''gradient_norm''])),
               (''only_detached_scalar_statistics'', VBool True)])]))"

end
