(* ===== verification/SchemaRows.thy ===== *)
theory SchemaRows
  imports Schemas P1Merge
begin

text \<open>
  The rows that the driver builds fit the manifest: every row of \<open>build_train_step_metrics\<close> has exactly the columns
  of the train-step table, each with a value of the declared type, so the writer's schema check never refuses one.
\<close>

section \<open>A row against field specifications\<close>

definition cell_ok :: "string \<Rightarrow> bool \<Rightarrow> pyval \<Rightarrow> bool" where
  "cell_ok t nullable v = (if v = VNone then nullable else value_matches v t)"

definition typed_in :: "pydict \<Rightarrow> field_spec list \<Rightarrow> bool" where
  "typed_in row specs \<longleftrightarrow> list_all (\<lambda>(name, t, _, nullable, _). cell_ok t nullable (dget row name)) specs"

lemma validate_field_dict: "validate_field row (field_dict (name, t, s, nullable, family)) =
    (if cell_ok t nullable (dget row name) then Inr ()
     else Inl (SchemaMismatchError (if dget row name = VNone then ''non-nullable field is null: '' @ name else ''type mismatch for '' @ name)))"
  by (simp add: validate_field_def cell_ok_def optional_get_def has_key_def dget_Cons check_r_def Let_def del: value_matches.simps)

lemma typed_in_fields: "typed_in row specs \<longleftrightarrow> (\<exists>us. map_r (validate_field row) (map field_dict specs) = Inr us)"
proof (induction specs)
  case Nil
  then show ?case by (simp add: typed_in_def)
next
  case (Cons spec specs)
  obtain name t s nullable family where spec: "spec = (name, t, s, nullable, family)" by (cases spec) auto
  show ?case
    using Cons.IH
    by (simp add: typed_in_def spec validate_field_dict bind_r_Inr_iff del: field_dict.simps)
qed

lemma validate_row_specs:
  "validate_row (map field_dict specs) row = Inr () \<longleftrightarrow> fst ` set row = fst ` set specs \<and> typed_in row specs"
proof -
  have "set (map (\<lambda>f. dget f ''name'') (map field_dict specs)) = VStr ` fst ` set specs"
    by (auto simp: dget_Cons image_iff split: prod.splits) (force simp: dget_Cons)+
  moreover have "set (map (VStr \<circ> fst) row) = VStr ` fst ` set row"
    by (auto simp: image_comp)
  moreover have "VStr ` A = VStr ` B \<longleftrightarrow> A = B" for A B
    by (simp add: inj_image_eq_iff inj_def)
  ultimately show ?thesis
    by (auto simp: validate_row_def bind_r_Inr_iff typed_in_fields simp del: set_map)
qed


lemma cell_ok_None [simp]: "cell_ok t nullable VNone = nullable"
  by (simp add: cell_ok_def)

lemma cell_ok_values [simp]:
  "cell_ok ''string'' n (VStr s)" "cell_ok ''bool'' n (VBool b)" "cell_ok ''int64'' n (VInt i)" "cell_ok ''int64'' n (vint k)"
  "cell_ok ''float64'' n (VFloat f)" "cell_ok ''float64'' True (vfo x)" "cell_ok ''int64'' True (vio y)"
  "cell_ok ''float64'' True (vif b f)" "cell_ok ''string'' True (vreason b s)" "cell_ok ''string'' True (empty_mask_reason b)"
  by (auto simp: cell_ok_def vint_def vfo_def vio_def vif_def vreason_def empty_mask_reason_def split: option.splits)

section \<open>Writing columns\<close>

text \<open>The keys of a dict after writes, computed on the keys alone.\<close>

definition add_key :: "string list \<Rightarrow> string \<Rightarrow> string list" where
  "add_key ks k = (if k \<in> set ks then ks else ks @ [k])"

lemma keys_dset: "map fst (dset d k v) = add_key (map fst d) k"
  by (simp add: update_keys add_key_def)

text \<open>Every entry of a dict has the type that the specification of its column declares.\<close>

definition ok_entry :: "field_spec list \<Rightarrow> string \<Rightarrow> pyval \<Rightarrow> bool" where
  "ok_entry specs k v = (case map_of specs k of None \<Rightarrow> False | Some (t, _, nullable, _) \<Rightarrow> cell_ok t nullable v)"

definition entries_ok :: "field_spec list \<Rightarrow> pydict \<Rightarrow> bool" where
  "entries_ok specs d = list_all (\<lambda>kv. ok_entry specs (fst kv) (snd kv)) d"

lemma entries_simps [simp]:
  "entries_ok specs []"
  "entries_ok specs (kv # d) \<longleftrightarrow> ok_entry specs (fst kv) (snd kv) \<and> entries_ok specs d"
  "entries_ok specs (d @ e) \<longleftrightarrow> entries_ok specs d \<and> entries_ok specs e"
  by (simp_all add: entries_ok_def)

lemma entries_dset: "entries_ok specs d \<Longrightarrow> ok_entry specs k v \<Longrightarrow> entries_ok specs (dset d k v)"
  by (induction d) auto

lemma entries_dupdate: "entries_ok specs d \<Longrightarrow> entries_ok specs e \<Longrightarrow> entries_ok specs (dupdate d e)"
proof -
  have "entries_ok specs d \<Longrightarrow> entries_ok specs e \<Longrightarrow> entries_ok specs (foldl (\<lambda>d kv. dset d (fst kv) (snd kv)) d e)" for d
    by (induction e arbitrary: d) (auto intro: entries_dset)
  then show "entries_ok specs d \<Longrightarrow> entries_ok specs e \<Longrightarrow> entries_ok specs (dupdate d e)"
    by (simp add: dupdate_def)
qed

definition part_of :: "field_spec list \<Rightarrow> field_spec list \<Rightarrow> bool" where
  "part_of part whole = list_all (\<lambda>spec. map_of whole (fst spec) = Some (snd spec)) part"

lemma part_entry: "part_of part whole \<Longrightarrow> ok_entry part k v \<Longrightarrow> ok_entry whole k v"
  by (fastforce simp: part_of_def list_all_iff ok_entry_def split: option.splits dest: map_of_SomeD)

lemma part_entries: "part_of part whole \<Longrightarrow> entries_ok part d \<Longrightarrow> entries_ok whole d"
  by (auto simp: entries_ok_def list_all_iff intro: part_entry)

lemma typed_from_entries:
  assumes "entries_ok specs row" and "distinct (map fst specs)" and "set (map fst row) = set (map fst specs)"
  shows "typed_in row specs"
proof -
  have "cell_ok t nullable (dget row name)" if s: "(name, t, stage, nullable, family) \<in> set specs" for name t stage nullable family
  proof -
    have "name \<in> set (map fst row)" using s assms(3) by force
    then obtain v where v: "map_of row name = Some v"
      by (metis domD dom_map_of_conv_image_fst set_map)
    then have "ok_entry specs name v"
      using assms(1) by (force simp: entries_ok_def list_all_iff dest: map_of_SomeD)
    then show ?thesis
      using map_of_is_SomeI[OF assms(2) s] v by (simp add: ok_entry_def dget_def)
  qed
  then show ?thesis by (auto simp: typed_in_def list_all_iff)
qed

definition same_keys :: "string list \<Rightarrow> string list \<Rightarrow> bool" where
  "same_keys a b = (list_all (\<lambda>k. k \<in> set b) a \<and> list_all (\<lambda>k. k \<in> set a) b)"

lemma same_keys_iff: "same_keys a b \<longleftrightarrow> set a = set b"
  by (auto simp: same_keys_def list_all_iff)

section \<open>The blocks of the train-step row\<close>

definition stage2_specs :: "field_spec list" where
  "stage2_specs = concat (map (\<lambda>(name, family). observed_metric name 2 family ''float64'') stage2_metrics) @ stage2_fields"

definition stage2_keys :: "string list" where
  "stage2_keys = foldl (\<lambda>ks k. add_key (add_key ks (k @ ''__available'')) (k @ ''__unavailable_reason''))
     [''mixture/effective_k_noisy'', ''mixture/top1_weight_noisy'', ''mixture/noisy_count'', ''mixture_available'',
      ''mixture_unavailable_reason'', ''mask/zero_advantage_rate'', ''mask/eligible_latent_token_count'', ''mask_available'',
      ''mask_unavailable_reason'', ''signal/reward_mean'', ''signal/reward_std'', ''signal/advantage_std'', ''signal/reward_count'',
      ''signal/advantage_count'', ''signal_available'', ''signal_unavailable_reason'', ''stage2_available'', ''stage2_unavailable_reason'']
     (map fst stage2_metrics)"

lemma stage2_row_keys: "map fst (build_stage2_metrics st) = stage2_keys"
  unfolding build_stage2_metrics_def Let_def stage2_keys_def stage2_metrics_def by (simp only: foldl.simps keys_dset list.map prod.case fst_conv)

definition has_type :: "field_spec list \<Rightarrow> string \<Rightarrow> string \<Rightarrow> bool \<Rightarrow> bool" where
  "has_type specs k t nullable = (case map_of specs k of None \<Rightarrow> False | Some (t', _, n, _) \<Rightarrow> t' = t \<and> n = nullable)"

lemma typed_entry: "has_type specs k t nullable \<Longrightarrow> cell_ok t nullable v \<Longrightarrow> ok_entry specs k v"
  by (auto simp: has_type_def ok_entry_def split: option.splits)

lemma entries_Cons: "ok_entry specs k v \<Longrightarrow> entries_ok specs d \<Longrightarrow> entries_ok specs ((k, v) # d)"
  by simp

lemma has_type_part: "part_of part whole \<Longrightarrow> has_type part k t n \<Longrightarrow> has_type whole k t n"
  by (fastforce simp: part_of_def list_all_iff has_type_def split: option.splits dest: map_of_SomeD)

text \<open>The columns in blocks.\<close>

definition observed_specs :: "field_spec list" where
  "observed_specs = concat (map (\<lambda>(name, family). observed_metric name 1 family
     (if name \<in> {''train/generated_token_count'', ''train/raw_generated_token_count''} then ''int64'' else ''float64'')) stage1_metrics)"

definition count_specs :: "field_spec list" where
  "count_specs = map (\<lambda>(name, family). (name, ''int64'', 1, False, Some family)) stage1_counts"

definition version_specs :: "field_spec list" where
  "version_specs = map (\<lambda>name. (name, ''string'', 1, True, None)) stage1_versions"

definition core_specs :: "field_spec list" where
  "core_specs = [(''train_core_available'', ''bool'', 1, False, Some ''train_core''),
      (''train_core_unavailable_reason'', ''string'', 1, True, Some ''train_core'')]"

lemma train_step_blocks:
  "train_step_fields = common_fields @ observed_specs @ count_specs @ version_specs @ core_specs @ stage2_specs"
  by (simp add: train_step_fields_def observed_specs_def count_specs_def version_specs_def core_specs_def stage2_specs_def)

lemma train_step_columns_distinct: "distinct (map fst train_step_fields)"
  by (simp add: train_step_fields_def common_fields_def stage1_metrics_def stage1_counts_def stage1_versions_def
      stage2_metrics_def stage2_fields_def observed_metric_def)

lemma part_train_step: "set part \<subseteq> set train_step_fields \<Longrightarrow> part_of part train_step_fields"
  using train_step_columns_distinct by (auto simp: part_of_def list_all_iff intro: map_of_is_SomeI)

lemma train_step_parts:
  "part_of common_fields train_step_fields" "part_of observed_specs train_step_fields" "part_of count_specs train_step_fields"
  "part_of version_specs train_step_fields" "part_of core_specs train_step_fields" "part_of stage2_specs train_step_fields"
  by (rule part_train_step, (auto simp: train_step_blocks)[1])+

lemma stage2_types:
  "has_type stage2_specs (''mixture/effective_k_noisy'') ''float64'' True \<and>
   has_type stage2_specs (''mixture/effective_k_noisy'' @ ''__available'') ''bool'' False \<and>
   has_type stage2_specs (''mixture/effective_k_noisy'' @ ''__unavailable_reason'') ''string'' True \<and>
   has_type stage2_specs (''mixture/top1_weight_noisy'') ''float64'' True \<and>
   has_type stage2_specs (''mixture/top1_weight_noisy'' @ ''__available'') ''bool'' False \<and>
   has_type stage2_specs (''mixture/top1_weight_noisy'' @ ''__unavailable_reason'') ''string'' True \<and>
   has_type stage2_specs (''mask/zero_advantage_rate'') ''float64'' True \<and>
   has_type stage2_specs (''mask/zero_advantage_rate'' @ ''__available'') ''bool'' False \<and>
   has_type stage2_specs (''mask/zero_advantage_rate'' @ ''__unavailable_reason'') ''string'' True \<and>
   has_type stage2_specs (''signal/reward_mean'') ''float64'' True \<and>
   has_type stage2_specs (''signal/reward_mean'' @ ''__available'') ''bool'' False \<and>
   has_type stage2_specs (''signal/reward_mean'' @ ''__unavailable_reason'') ''string'' True \<and>
   has_type stage2_specs (''signal/reward_std'') ''float64'' True \<and>
   has_type stage2_specs (''signal/reward_std'' @ ''__available'') ''bool'' False \<and>
   has_type stage2_specs (''signal/reward_std'' @ ''__unavailable_reason'') ''string'' True \<and>
   has_type stage2_specs (''signal/advantage_std'') ''float64'' True \<and>
   has_type stage2_specs (''signal/advantage_std'' @ ''__available'') ''bool'' False \<and>
   has_type stage2_specs (''signal/advantage_std'' @ ''__unavailable_reason'') ''string'' True \<and>
   has_type stage2_specs (''mixture/noisy_count'') ''int64'' False \<and>
   has_type stage2_specs (''mask/eligible_latent_token_count'') ''int64'' False \<and>
   has_type stage2_specs (''signal/reward_count'') ''int64'' False \<and>
   has_type stage2_specs (''signal/advantage_count'') ''int64'' False \<and>
   has_type stage2_specs (''mixture_available'') ''bool'' False \<and>
   has_type stage2_specs (''mixture_unavailable_reason'') ''string'' True \<and>
   has_type stage2_specs (''mask_available'') ''bool'' False \<and>
   has_type stage2_specs (''mask_unavailable_reason'') ''string'' True \<and>
   has_type stage2_specs (''signal_available'') ''bool'' False \<and>
   has_type stage2_specs (''signal_unavailable_reason'') ''string'' True \<and>
   has_type stage2_specs (''stage2_available'') ''bool'' False \<and>
   has_type stage2_specs (''stage2_unavailable_reason'') ''string'' True"
  by code_simp

lemma stage2_type:
  "has_type stage2_specs (''mixture/effective_k_noisy'') ''float64'' True"
  "has_type stage2_specs (''mixture/effective_k_noisy'' @ ''__available'') ''bool'' False"
  "has_type stage2_specs (''mixture/effective_k_noisy'' @ ''__unavailable_reason'') ''string'' True"
  "has_type stage2_specs (''mixture/top1_weight_noisy'') ''float64'' True"
  "has_type stage2_specs (''mixture/top1_weight_noisy'' @ ''__available'') ''bool'' False"
  "has_type stage2_specs (''mixture/top1_weight_noisy'' @ ''__unavailable_reason'') ''string'' True"
  "has_type stage2_specs (''mask/zero_advantage_rate'') ''float64'' True"
  "has_type stage2_specs (''mask/zero_advantage_rate'' @ ''__available'') ''bool'' False"
  "has_type stage2_specs (''mask/zero_advantage_rate'' @ ''__unavailable_reason'') ''string'' True"
  "has_type stage2_specs (''signal/reward_mean'') ''float64'' True"
  "has_type stage2_specs (''signal/reward_mean'' @ ''__available'') ''bool'' False"
  "has_type stage2_specs (''signal/reward_mean'' @ ''__unavailable_reason'') ''string'' True"
  "has_type stage2_specs (''signal/reward_std'') ''float64'' True"
  "has_type stage2_specs (''signal/reward_std'' @ ''__available'') ''bool'' False"
  "has_type stage2_specs (''signal/reward_std'' @ ''__unavailable_reason'') ''string'' True"
  "has_type stage2_specs (''signal/advantage_std'') ''float64'' True"
  "has_type stage2_specs (''signal/advantage_std'' @ ''__available'') ''bool'' False"
  "has_type stage2_specs (''signal/advantage_std'' @ ''__unavailable_reason'') ''string'' True"
  "has_type stage2_specs (''mixture/noisy_count'') ''int64'' False"
  "has_type stage2_specs (''mask/eligible_latent_token_count'') ''int64'' False"
  "has_type stage2_specs (''signal/reward_count'') ''int64'' False"
  "has_type stage2_specs (''signal/advantage_count'') ''int64'' False"
  "has_type stage2_specs (''mixture_available'') ''bool'' False"
  "has_type stage2_specs (''mixture_unavailable_reason'') ''string'' True"
  "has_type stage2_specs (''mask_available'') ''bool'' False"
  "has_type stage2_specs (''mask_unavailable_reason'') ''string'' True"
  "has_type stage2_specs (''signal_available'') ''bool'' False"
  "has_type stage2_specs (''signal_unavailable_reason'') ''string'' True"
  "has_type stage2_specs (''stage2_available'') ''bool'' False"
  "has_type stage2_specs (''stage2_unavailable_reason'') ''string'' True"
  using stage2_types by - (elim conjE, assumption)+

lemma stage2_row_entries: "entries_ok stage2_specs (build_stage2_metrics st)"
  unfolding build_stage2_metrics_def Let_def foldl.simps prod.case
  by (intro entries_dset entries_Cons entries_simps(1) stage2_type[THEN typed_entry] cell_ok_values)

lemma common_types:
  "has_type common_fields (''metric_scope'') ''string'' False \<and>
   has_type common_fields (''aggregation_worker_count'') ''int64'' True \<and>
   has_type common_fields (''record_version'') ''string'' False \<and>
   has_type common_fields (''metrics_compute_time'') ''float64'' True \<and>
   has_type common_fields (''metrics_write_time'') ''float64'' True \<and>
   has_type common_fields (''record_available'') ''bool'' False \<and>
   has_type common_fields (''record_unavailable_reason'') ''string'' True"
  by code_simp

lemma common_type:
  "has_type common_fields (''metric_scope'') ''string'' False"
  "has_type common_fields (''aggregation_worker_count'') ''int64'' True"
  "has_type common_fields (''record_version'') ''string'' False"
  "has_type common_fields (''metrics_compute_time'') ''float64'' True"
  "has_type common_fields (''metrics_write_time'') ''float64'' True"
  "has_type common_fields (''record_available'') ''bool'' False"
  "has_type common_fields (''record_unavailable_reason'') ''string'' True"
  using common_types by - (elim conjE, assumption)+

lemma version_types:
  "has_type version_specs (''generated_token_count_definition_version'') ''string'' True \<and>
   has_type version_specs (''generated_token_count_scope'') ''string'' True \<and>
   has_type version_specs (''raw_generated_token_count_definition_version'') ''string'' True \<and>
   has_type version_specs (''raw_generated_token_count_scope'') ''string'' True \<and>
   has_type version_specs (''entropy_source'') ''string'' True \<and>
   has_type version_specs (''entropy_probability_space'') ''string'' True \<and>
   has_type version_specs (''entropy_mask_definition'') ''string'' True \<and>
   has_type version_specs (''entropy_definition_version'') ''string'' True \<and>
   has_type version_specs (''response_length_definition_version'') ''string'' True \<and>
   has_type version_specs (''latent_length_definition_version'') ''string'' True \<and>
   has_type version_specs (''length_counting_rule_version'') ''string'' True"
  by code_simp

lemma version_type:
  "has_type version_specs (''generated_token_count_definition_version'') ''string'' True"
  "has_type version_specs (''generated_token_count_scope'') ''string'' True"
  "has_type version_specs (''raw_generated_token_count_definition_version'') ''string'' True"
  "has_type version_specs (''raw_generated_token_count_scope'') ''string'' True"
  "has_type version_specs (''entropy_source'') ''string'' True"
  "has_type version_specs (''entropy_probability_space'') ''string'' True"
  "has_type version_specs (''entropy_mask_definition'') ''string'' True"
  "has_type version_specs (''entropy_definition_version'') ''string'' True"
  "has_type version_specs (''response_length_definition_version'') ''string'' True"
  "has_type version_specs (''latent_length_definition_version'') ''string'' True"
  "has_type version_specs (''length_counting_rule_version'') ''string'' True"
  using version_types by - (elim conjE, assumption)+

lemma observed_types:
  "has_type observed_specs (''train/generated_token_count'') ''int64'' True \<and>
   has_type observed_specs (''train/generated_token_count__available'') ''bool'' False \<and>
   has_type observed_specs (''train/generated_token_count__unavailable_reason'') ''string'' True \<and>
   has_type observed_specs (''train/raw_generated_token_count'') ''int64'' True \<and>
   has_type observed_specs (''train/raw_generated_token_count__available'') ''bool'' False \<and>
   has_type observed_specs (''train/raw_generated_token_count__unavailable_reason'') ''string'' True \<and>
   has_type observed_specs (''train/step_time'') ''float64'' True \<and>
   has_type observed_specs (''train/step_time__available'') ''bool'' False \<and>
   has_type observed_specs (''train/step_time__unavailable_reason'') ''string'' True"
  by code_simp

lemma observed_type:
  "has_type observed_specs (''train/generated_token_count'') ''int64'' True"
  "has_type observed_specs (''train/generated_token_count__available'') ''bool'' False"
  "has_type observed_specs (''train/generated_token_count__unavailable_reason'') ''string'' True"
  "has_type observed_specs (''train/raw_generated_token_count'') ''int64'' True"
  "has_type observed_specs (''train/raw_generated_token_count__available'') ''bool'' False"
  "has_type observed_specs (''train/raw_generated_token_count__unavailable_reason'') ''string'' True"
  "has_type observed_specs (''train/step_time'') ''float64'' True"
  "has_type observed_specs (''train/step_time__available'') ''bool'' False"
  "has_type observed_specs (''train/step_time__unavailable_reason'') ''string'' True"
  using observed_types by - (elim conjE, assumption)+

lemma count_types:
  "has_type count_specs (''final_training_trajectory_count'') ''int64'' False"
  by code_simp

lemma count_type:
  "has_type count_specs (''final_training_trajectory_count'') ''int64'' False"
  by (rule count_types)

lemma core_types:
  "has_type core_specs (''train_core_available'') ''bool'' False \<and>
   has_type core_specs (''train_core_unavailable_reason'') ''string'' True"
  by code_simp

lemma core_type:
  "has_type core_specs (''train_core_available'') ''bool'' False"
  "has_type core_specs (''train_core_unavailable_reason'') ''string'' True"
  using core_types by - (elim conjE, assumption)+

lemmas train_step_type =
  common_type[THEN has_type_part[OF train_step_parts(1)]] observed_type[THEN has_type_part[OF train_step_parts(2)]]
  count_type[THEN has_type_part[OF train_step_parts(3)]] version_type[THEN has_type_part[OF train_step_parts(4)]]
  core_type[THEN has_type_part[OF train_step_parts(5)]] stage2_type[THEN has_type_part[OF train_step_parts(6)]]

lemma head_entries: "entries_ok train_step_fields (train_step_head n version ct wt)"
  unfolding train_step_head_def
  by (intro entries_Cons entries_simps(1) train_step_type[THEN typed_entry] cell_ok_values)

lemma context_entries: "checkpoint_step c = None \<Longrightarrow> entries_ok train_step_fields (context_to_record c)"
  by (rule part_entries[OF train_step_parts(1)]) (simp add: context_to_record_def common_fields_def ok_entry_def)

text \<open>The four columns of a core metric.\<close>

definition core_typed :: "string \<times> string \<times> string \<times> string \<Rightarrow> bool" where
  "core_typed row = (case row of (out, _, _, cnt) \<Rightarrow>
     has_type observed_specs out ''float64'' True \<and> has_type observed_specs (out @ ''__available'') ''bool'' False \<and>
     has_type observed_specs (out @ ''__unavailable_reason'') ''string'' True \<and> has_type count_specs cnt ''int64'' False)"

lemma core_metrics_typed: "list_all core_typed core_metrics"
  by code_simp

lemma core_step_entries:
  "core_typed row \<Longrightarrow> entries_ok train_step_fields d \<Longrightarrow> entries_ok train_step_fields (core_step statistics d row)"
  by (cases row)
     (auto simp: core_step_def core_typed_def Let_def unavailable_reason_def
       intro!: entries_dset typed_entry dest!: has_type_part[OF train_step_parts(2)] has_type_part[OF train_step_parts(3)] split: option.splits)

lemma core_entries: "entries_ok train_step_fields d \<Longrightarrow> entries_ok train_step_fields (foldl (core_step statistics) d core_metrics)"
proof -
  have "list_all core_typed rows \<Longrightarrow> entries_ok train_step_fields d \<Longrightarrow>
      entries_ok train_step_fields (foldl (core_step statistics) d rows)" for rows d
    by (induction rows arbitrary: d) (auto intro: core_step_entries)
  then show "entries_ok train_step_fields d \<Longrightarrow> ?thesis" using core_metrics_typed by blast
qed

lemma token_count_entries: "entries_ok train_step_fields d \<Longrightarrow> entries_ok train_step_fields (token_count_rows d lengths raw)"
  unfolding token_count_rows_def Let_def
  by (intro entries_dset train_step_type[THEN typed_entry]) (simp_all split: option.splits)

lemma step_time_entries: "entries_ok train_step_fields d \<Longrightarrow> entries_ok train_step_fields (step_time_rows d av t p)"
  unfolding step_time_rows_def Let_def
  by (intro entries_dset train_step_type[THEN typed_entry]) (simp_all split: option.splits)

lemma stage2_rows_entries: "entries_ok train_step_fields (stage2_rows st)"
proof -
  have "entries_ok stage2_specs (stage2_rows st)"
    unfolding stage2_rows_def
    by (cases st) (simp_all only: option.case, intro entries_dset stage2_row_entries stage2_type[THEN typed_entry] cell_ok_values,
        rule stage2_row_entries)
  then show ?thesis by (rule part_entries[OF train_step_parts(6)])
qed


section \<open>The columns of the row\<close>

lemma set_keys_dset: "fst ` set (dset d k v) = insert k (fst ` set d)"
  using arg_cong[OF keys_dset, of set] by (auto simp: add_key_def)

lemma set_keys_dupdate: "fst ` set (dupdate d e) = fst ` set d \<union> fst ` set e"
proof -
  have "fst ` set (foldl (\<lambda>d kv. dset d (fst kv) (snd kv)) d e) = fst ` set d \<union> fst ` set e" for d
    by (induction e arbitrary: d) (auto simp: set_keys_dset)
  then show ?thesis by (simp add: dupdate_def)
qed

definition context_keys :: "string list" where
  "context_keys = [''profile_name'', ''seed'', ''global_step'', ''optimizer_step'', ''observation_phase'', ''learning_rate'',
     ''wall_clock_seconds'', ''cumulative_train_samples'', ''cumulative_rollout_tokens'', ''cumulative_gpu_hours'', ''is_resume_run'',
     ''resume_from_step'']"

definition head_keys :: "string list" where
  "head_keys = [''metric_scope'', ''aggregation_worker_count'', ''record_version'', ''metrics_compute_time'', ''metrics_write_time'']"

definition core_keys :: "string \<times> string \<times> string \<times> string \<Rightarrow> string list" where
  "core_keys row = (case row of (out, _, _, cnt) \<Rightarrow> [out, out @ ''__available'', out @ ''__unavailable_reason'', cnt])"

definition token_keys :: "string list" where
  "token_keys = [''train/generated_token_count'', ''train/generated_token_count__available'', ''train/generated_token_count__unavailable_reason'',
     ''train/raw_generated_token_count'', ''train/raw_generated_token_count__available'',
     ''train/raw_generated_token_count__unavailable_reason'', ''final_training_trajectory_count'']"

definition time_keys :: "string list" where
  "time_keys = [''train/step_time'', ''train/step_time__available'', ''train/step_time__unavailable_reason'']"

lemma context_record_keys: "checkpoint_step c = None \<Longrightarrow> map fst (context_to_record c) = context_keys"
  by (simp add: context_to_record_def context_keys_def)

lemma train_step_head_keys: "map fst (train_step_head n version ct wt) = head_keys @ stage1_versions"
  by (simp add: train_step_head_def head_keys_def stage1_versions_def)

lemma core_step_keys: "fst ` set (core_step statistics d row) = fst ` set d \<union> set (core_keys row)"
  by (cases row) (auto simp: core_step_def core_keys_def Let_def set_keys_dset)

lemma core_fold_keys: "fst ` set (foldl (core_step statistics) d rows) = fst ` set d \<union> set (concat (map core_keys rows))"
  by (induction rows arbitrary: d) (auto simp: core_step_keys)

lemma token_count_keys: "fst ` set (token_count_rows d lengths raw) = fst ` set d \<union> set token_keys"
  unfolding token_count_rows_def Let_def set_keys_dset token_keys_def by auto

lemma step_time_keys: "fst ` set (step_time_rows d av t p) = fst ` set d \<union> set time_keys"
  unfolding step_time_rows_def Let_def set_keys_dset time_keys_def by auto

lemma stage2_rows_keys: "fst ` set (stage2_rows st) = set stage2_keys"
proof -
  have "''stage2_unavailable_reason'' \<in> set stage2_keys" by code_simp
  moreover have "fst ` set (build_stage2_metrics s) = set stage2_keys" for s
    using arg_cong[OF stage2_row_keys, of set] by simp
  ultimately show ?thesis
    by (cases st) (simp_all add: stage2_rows_def set_keys_dset insert_absorb)
qed

lemma column_blocks:
  "same_keys (context_keys @ head_keys @ [''record_available'', ''record_unavailable_reason'']) (map fst common_fields)"
  "map fst version_specs = stage1_versions"
  "same_keys (concat (map core_keys core_metrics) @ token_keys @ time_keys) (map fst (observed_specs @ count_specs))"
  "map fst core_specs = [''train_core_available'', ''train_core_unavailable_reason'']"
  "same_keys stage2_keys (map fst stage2_specs)"
  by code_simp+


lemma block_union:
  "A \<union> (H \<union> {r1, r2}) = C \<Longrightarrow> K \<union> (T \<union> M) = F \<union> N \<Longrightarrow>
   insert r2 (insert r1 (insert c2 (insert c1 (A \<union> (H \<union> V) \<union> K \<union> T \<union> M \<union> S)))) = C \<union> (F \<union> (N \<union> (V \<union> ({c1, c2} \<union> S))))"
  by blast

lemma row_matches:
  assumes row: "build_train_step_metrics ctx st lengths raw t st2 n version ct wt = Inr row" and ctx: "checkpoint_step ctx = None"
  shows "entries_ok train_step_fields row" and "fst ` set row = fst ` set train_step_fields"
proof -
  let ?r1 = "foldl (core_step st) (dupdate (context_to_record ctx) (train_step_head n version ct wt)) core_metrics"
  let ?r4 = "dupdate (step_time_rows (token_count_rows ?r1 lengths raw) (time_known t) t (observation_phase ctx = ''pre_backward_probe'')) (stage2_rows st2)"
  have "\<exists>a. row = dset (dset (dset (dset ?r4 ''train_core_available'' (VBool a)) ''train_core_unavailable_reason''
      (vreason a ''metric_unavailable'')) ''record_available'' (VBool True)) ''record_unavailable_reason'' VNone"
    using row unfolding build_train_step_metrics_def Let_def by (auto split: if_splits)
  then obtain a where row': "row = dset (dset (dset (dset ?r4 ''train_core_available'' (VBool a)) ''train_core_unavailable_reason''
      (vreason a ''metric_unavailable'')) ''record_available'' (VBool True)) ''record_unavailable_reason'' VNone" ..
  show "entries_ok train_step_fields row"
    unfolding row'
    by (intro entries_dset entries_dupdate step_time_entries token_count_entries core_entries context_entries[OF ctx] head_entries
        stage2_rows_entries train_step_type[THEN typed_entry]) simp_all
  note blocks = column_blocks(1,3)[unfolded same_keys_iff map_append set_append set_map list.set]
  note eqs = arg_cong[OF column_blocks(2), of set, unfolded set_map] arg_cong[OF column_blocks(4), of set, unfolded set_map list.set]
    column_blocks(5)[unfolded same_keys_iff set_map]
  have heads: "fst ` set (context_to_record ctx) = set context_keys"
      "fst ` set (train_step_head n version ct wt) = set head_keys \<union> set stage1_versions"
    using arg_cong[OF context_record_keys[OF ctx], of set, unfolded set_map]
      arg_cong[OF train_step_head_keys, of set, unfolded set_map set_append] .
  show "fst ` set row = fst ` set train_step_fields"
    unfolding row' set_keys_dset set_keys_dupdate step_time_keys token_count_keys core_fold_keys stage2_rows_keys heads
      train_step_blocks set_append image_Un eqs
    by (rule block_union[OF blocks])
qed


section \<open>Properties\<close>

text \<open>
  C21. Every row that \<open>build_train_step_metrics\<close> returns passes the writer's schema check for the train-step table:
  it has exactly the columns of the manifest, no column that must not be null is null, and every other value has the
  declared type, whatever statistics are missing or empty.
\<close>

theorem train_step_rows_fit_the_manifest:
  assumes "build_train_step_metrics ctx statistics lengths raw_lengths step_time stage2 workers version compute_time write_time = Inr row"
    and "context_post_init ctx = Inr ctx"
  shows "validate_rows_against_schema [row] (map field_dict train_step_fields) = Inr ()"
proof -
  have "observation_phase ctx \<notin> set checkpoint_phases"
    using assms(1) by (auto simp: build_train_step_metrics_def checkpoint_phases_def Let_def split: if_splits)
  then have ctx: "checkpoint_step ctx = None"
    using assms(2) by (auto simp: context_post_init_def split: if_splits)
  have "fst ` set row = fst ` set train_step_fields"
    by (rule row_matches(2)[OF assms(1) ctx])
  moreover have "typed_in row train_step_fields"
    by (rule typed_from_entries[OF row_matches(1)[OF assms(1) ctx] train_step_columns_distinct])
       (simp only: set_map row_matches(2)[OF assms(1) ctx])
  ultimately have "validate_row (map field_dict train_step_fields) row = Inr ()"
    by (simp only: validate_row_specs)
  moreover have "has_key (field_dict spec) ''name''" for spec
    by (cases spec) (simp add: has_key_def)
  ultimately show ?thesis
    by (simp add: validate_rows_against_schema_def list_ex_iff)
qed

definition sample_context :: step_context where
  "sample_context = \<lparr>profile_name = ''smoke'', seed = 1, global_step = 2, optimizer_step = 3, observation_phase = ''post_update'',
     learning_rate = None, wall_clock_seconds = None, cumulative_train_samples = None, cumulative_rollout_tokens = None,
     cumulative_gpu_hours = None, checkpoint_step = None, is_resume_run = False, resume_from_step = None\<rparr>"

theorem train_step_rows_fit_the_manifest_witness:
  "\<exists>row. build_train_step_metrics sample_context [(''train/entropy'', empty_stats)] [3, 4] None (Some (Fin 1)) None (Some 2)
       ''metrics_record_v1'' None None = Inr row \<and>
     validate_rows_against_schema [row] (map field_dict train_step_fields) = Inr ()"
proof -
  obtain row where row: "build_train_step_metrics sample_context [(''train/entropy'', empty_stats)] [3, 4] None (Some (Fin 1)) None (Some 2)
       ''metrics_record_v1'' None None = Inr row"
    by (simp add: build_train_step_metrics_def sample_context_def Let_def)
  have "context_post_init sample_context = Inr sample_context"
    by (simp add: context_post_init_def sample_context_def)
  then show ?thesis
    using train_step_rows_fit_the_manifest[OF row] row by blast
qed

end
