(* ===== verification/Spec2Isabelle.thy ===== *)
theory Spec2Isabelle
  imports Prelude KvPool PagedAlloc HeapQ RadixCache RadixTree RadixInv RadixLock RadixEvict RadixSpec RadixReq
    PyVal SuffStats MetricRows P1Merge GroupSupport Probe Storage StorageOk LatentGrpoLoss LatentReqOk LatentSamplerOk SchedPolicyOk Sched
    SchedMem SchedAdmit SchedPrefill SchedStep SchedDecode SchedIntake SchedLoop SchedInv SchedResult SchedLoopOk SchedLive
    Collectors RunConfig RunConfigOk Schemas SchemaRows
begin

text \<open>
  \<^bold>\<open>The program.\<close>  Latent-GRPO trains a language model to reason in a latent phase: until the end
  token of the phase is sampled, a decode step feeds the model a weighted sum of top-k token
  embeddings instead of the embedding of one token.  The repository has three parts of its own code.

  \<^item> The rollout engine, a modified SGLang (\<open>sglang_latent_reasoning_pkg/python/sglang/srt\<close>).  Its
    scheduler takes requests from a waiting queue into batches.  A request holds a row of the request
    pool, which lists the KV slots of its tokens, and a node of the radix cache, a tree that shares
    the KV slots of common prefixes between requests.  The sampler turns the logits of a batch into
    the next token and, in the latent phase, into rows of weights, which the output processor
    hands to the requests.
  \<^item> The trainer, a modified verl (\<open>verl-0.4.x/verl/trainer/ppo\<close>), which turns the rewards of the groups
    of rollouts into advantages and losses.
  \<^item> The experiment runner (\<open>latent_grpo_runner\<close>), which computes the metrics of each step from
    statistics that the workers merge, probes checkpoints, and stores rows in append-only parts.

  \<^bold>\<open>Shared theories.\<close>  \<open>Prelude\<close> has the exceptions of the modelled code as a datatype, \<open>'a result\<close> for
  code that may raise, Python's slicing, and general lemmas.  \<open>PyVal\<close> has Python floats (exact reals, with
  the infinities and NaN as values), JSON values and dicts.  \<open>HeapQ\<close> is \<open>heapq\<close> on a list,
  behind the locale \<open>heap_queue\<close>.

  \<^bold>\<open>Memory of the rollout engine.\<close>
  \<open>KvPool\<close> models \<open>mem_cache/memory_pool.py\<close> (request pool and token allocator); the locale \<open>kv_allocator\<close>
  states what a client may rely on, and is interpreted on the token allocator here and on the page
  allocator in \<open>PagedAlloc\<close> (\<open>mem_cache/paged_allocator.py\<close> with both Triton kernels, program by program and
  at 64 bits where the code packs two counts in one word).  \<open>RadixCache\<close> models
  \<open>mem_cache/radix_cache.py\<close> and \<open>chunk_cache.py\<close>: nodes live in a store from identities to records, so
  parents, children and splits alias as in the code.  \<open>RadixTree\<close> and \<open>RadixInv\<close> have the invariant (a trie of
  whole pages; lock counts are the numbers of references below a node; the size counters are what
  they claim); \<open>RadixLock\<close>, \<open>RadixEvict\<close> prove it for locking and eviction, and \<open>RadixSpec\<close> restates
  every operation on the abstract content \<open>cached\<close> for all states that runs reach (\<open>radix_reach\<close>).
  \<open>RadixReq\<close> adds the calls by which a finished or unfinished request hands its slots to the cache.

  \<^bold>\<open>Scheduling.\<close>
  \<open>SchedPolicy\<close> models \<open>managers/schedule_policy.py\<close>, \<open>SchedBatch\<close> the class \<open>ScheduleBatch\<close> of
  \<open>managers/schedule_batch.py\<close>, and \<open>Sched\<close> the step \<open>get_next_batch_to_run\<close> of \<open>managers/scheduler.py\<close> with all it
  calls.  The tree and both pools, which all batches share, are passed as one record \<open>cache_state\<close>.
  \<open>SchedPolicyOk\<close> shows that ordering the queue ends and permutes it.  \<open>SchedMem\<close>, \<open>SchedAdmit\<close>, \<open>SchedPrefill\<close>
  and \<open>SchedStep\<close> prove that a prefill step cannot run out of memory: the budget that admission
  keeps bounds what the batch will allocate, every admitted request holds its prefix, and each row
  ends up with the prefix and one fresh slot per new token.  \<open>SchedDecode\<close> proves the same of the
  decode step with retraction.  Both keep the multiset \<open>owned_slots\<close>, so no slot leaks or doubles.

  \<^bold>\<open>The event loop.\<close>
  \<open>SchedIntake\<close> models the messages of the scheduler (\<open>process_input_requests\<close>, \<open>handle_generate_request\<close>,
  \<open>abort_request\<close>, and \<open>managers/utils.py\<close>), \<open>SchedLoop\<close> one iteration of \<open>event_loop_normal\<close> with the output
  processing and streaming of \<open>managers/scheduler_output_processor_mixin.py\<close>.  \<open>SchedInv\<close> has the ownership
  invariant \<open>held_ok\<close> of all memory, \<open>SchedResult\<close> shows that processing a result keeps it, and \<open>SchedLoopOk\<close>
  puts all parts together: in every state that runs of the loop reach (\<open>loop_reach\<close>) memory has unique
  owners and no step fails.  \<open>SchedLive\<close> shows that the loop empties itself, by the rank
  \<open>2 * work + (0 or 1)\<close>, when memory exceeds the longest request by the estimate of admission, and
  that otherwise a retracted request may wait for ever.  These theorems assume \<open>config_ok\<close>: page size 1, the radix cache, no
  chunked or mixed prefill, a row of the request pool per running request, a worker that returns one token per
  request, and messages (\<open>msg_ok\<close>) without log-probabilities, grammars, sessions and flushes.

  \<^bold>\<open>Latent reasoning.\<close>
  \<open>LatentReq\<close> models \<open>sampling/sampling_params.py\<close>, the class \<open>Req\<close> and the weighted embedding
  (\<open>layers/vocab_parallel_embedding.py\<close>, also over tensor-parallel ranks), \<open>LatentSampler\<close> models
  \<open>layers/sampler.py\<close>, \<open>sampling/sampling_batch_info.py\<close> and the decode half of
  \<open>managers/scheduler_output_processor_mixin.py\<close>.  \<open>LatentReqOk\<close> and \<open>LatentSamplerOk\<close> have the
  transcript of a latent request over any number of steps, the soundness of the sampled rows, the
  alignment of batch columns with requests, and two faults of the code.

  \<^bold>\<open>Training.\<close>
  \<open>LatentGrpo\<close> models \<open>trainer/ppo/core_algos.py\<close>, the masked reductions of \<open>utils/torch_functional.py\<close>
  and the functions of \<open>trainer/ppo/ray_trainer.py\<close> that call them, with dynamic sampling by group.
  \<open>LatentGrpoOk\<close> and \<open>LatentGrpoLoss\<close> characterise the estimators and the clipped loss, and show that
  dynamic sampling delivers complete groups and ends.

  \<^bold>\<open>Metrics and storage.\<close>
  \<open>SuffStats\<close> (\<open>metrics/aggregators.py\<close>, \<open>masks.py\<close>; the locale \<open>mergeable\<close>), \<open>MetricRows\<close> (\<open>events.py\<close>,
  \<open>stage1.py\<close>, \<open>stage2.py\<close>), \<open>P1Merge\<close> (\<open>p1.py\<close>), \<open>GroupSupport\<close> (\<open>identity.py\<close>, \<open>stage2.py\<close>, \<open>support.py\<close>;
  the locale \<open>total_preorder\<close>), \<open>Probe\<close> (\<open>probe.py\<close>), \<open>Storage\<close> and \<open>StorageOk\<close> (\<open>storage.py\<close>,
  \<open>checkpointing.py\<close>): merged statistics equal those of the whole batch, packets of workers are
  accepted only when they are complete and agree, and the table on disk keeps unique keys through
  crashes and restarts, with one path that breaks it.

  \<open>Collectors\<close> models \<open>torch_collectors.py\<close>, the reductions of the driver on tensors: its packet reads back as the
  statistics of the same numbers in lists.  \<open>Schemas\<close> has every table of \<open>schemas.py\<close>, and \<open>SchemaRows\<close> shows that each
  train-step row has exactly the columns and types of its table.

  \<^bold>\<open>Profiles of the runner.\<close>
  \<open>RunConfig\<close> models \<open>latent_grpo_runner/config.py\<close> from the parsed YAML mapping on: structure, typed fields, semantic
  checks, batch arithmetic, Hydra overrides, overrides of the command line and both hashes.  \<open>RunConfigOk\<close> shows
  that a validated profile splits exactly over ranks and batches, that typed fields own their Hydra keys, and that
  a resumed run is compatible with the sidecar of the run it continues.

  \<^bold>\<open>Errors, loops, effects.\<close>  A Python exception is the \<open>Inl\<close> side of a result.  A loop that follows
  pointers is a \<open>partial_function (option)\<close>, where None is a run that does not end; the
  theorems show \<open>Some\<close>, so they include termination.  The other loops are structural
  recursions or have a measure.  No fuel is used.  Shared objects are explicit state; a callback or a random draw
  is a function argument.

  \<^bold>\<open>Idealisations.\<close>  Finite floats are exact reals, without rounding and overflow; \<open>torch.topk\<close> and \<open>sort\<close>
  break ties by index; inputs have the types the code declares; logits are finite and batches not
  empty where the code assumes it; a part file is named by its number and its uuid.  Parameters of
  the model are the clock, random draws and noise, SHA-256, path resolution, the tokenizer, the printing of floats, the Parquet backend, the kernels of
  \<open>sgl_kernel\<close>, custom logit processors and the all-reduce.

  \<^bold>\<open>Not modelled.\<close>  The forward pass (models, attention, quantization, mixture of experts, the content of
  the KV buffers), which is numerics on a device; CUDA and C++ kernels; autograd and optimizers;
  process and network glue (tokenizer and detokenizer processes, HTTP and OpenAI servers, the Rust router,
  Ray workers, sharding managers, checkpoint engines); speculative decoding, the overlap
  schedule, LoRA, the hierarchical cache, data-parallel attention, disaggregation, encoder-decoder and multimodal
  requests, grammars and penalizers of the engine; weight loading; the launcher, the observer and the validators of the
  runner; the batch containers and the sequence balancing of the trainer; profiling and logging; tests, benchmarks, examples and docs.
\<close>

end
